(* ===== verification/SlavePrelude.thy ===== *)
theory SlavePrelude
  imports Main "HOL-Library.Word"
begin

text \<open>
  Prelude of the development: the collections of simplification rules the components
  extend, byte lists with the C access and update patterns (\<open>byte_at\<close>, \<open>put_bytes\<close>),
  little-endian packing of 16- and 32-bit values, and the generic lemmas on words and
  lists that the component theories share.  Nothing here models a part of the program.
\<close>

unbundle bit_operations_syntax

named_theorems le_simps \<open>little-endian packing and unpacking\<close>
named_theorems frame_simps \<open>which fields of the state an operation leaves alone\<close>

section \<open>Byte lists\<close>

definition byte_at :: "8 word list \<Rightarrow> nat \<Rightarrow> 8 word" where
  "byte_at bs i = (if i < length bs then bs ! i else 0)"

definition get_bytes :: "8 word list \<Rightarrow> nat \<Rightarrow> nat \<Rightarrow> 8 word list" where
  "get_bytes bs off n = take n (drop off bs)"

definition put_bytes :: "nat \<Rightarrow> 8 word list \<Rightarrow> 8 word list \<Rightarrow> 8 word list" where
  "put_bytes off d bs = take off bs @ d @ drop (off + length d) bs"

lemma length_put_bytes [simp]:
  "off + length d \<le> length bs \<Longrightarrow> length (put_bytes off d bs) = length bs"
  by (simp add: put_bytes_def)

lemma length_get_bytes [simp]:
  "off + n \<le> length bs \<Longrightarrow> length (get_bytes bs off n) = n"
  by (simp add: get_bytes_def)

lemma get_put_bytes [simp]:
  "off + length d \<le> length bs \<Longrightarrow> get_bytes (put_bytes off d bs) off (length d) = d"
  by (simp add: put_bytes_def get_bytes_def)

lemma nth_put_bytes_inside:
  "off + length d \<le> length bs \<Longrightarrow> off \<le> i \<Longrightarrow> i < off + length d
    \<Longrightarrow> put_bytes off d bs ! i = d ! (i - off)"
  by (auto simp: put_bytes_def nth_append)

lemma nth_put_bytes_outside:
  "off + length d \<le> length bs \<Longrightarrow> i < off \<or> off + length d \<le> i
    \<Longrightarrow> put_bytes off d bs ! i = bs ! i"
  by (auto simp: put_bytes_def nth_append)

lemma byte_at_put_bytes:
  "off + length d \<le> length bs \<Longrightarrow>
     byte_at (put_bytes off d bs) i = (if off \<le> i \<and> i < off + length d then d ! (i - off) else byte_at bs i)"
  by (auto simp: byte_at_def nth_put_bytes_inside nth_put_bytes_outside)

lemma byte_at_in_range: "i < length bs \<Longrightarrow> byte_at bs i = bs ! i"
  by (simp add: byte_at_def)

lemma put_bytes_whole [simp]: "length d = length bs \<Longrightarrow> put_bytes 0 d bs = d"
  by (simp add: put_bytes_def)

section \<open>Little-endian packing\<close>

definition le16 :: "8 word \<Rightarrow> 8 word \<Rightarrow> 16 word" where
  "le16 lo hi = (ucast lo :: 16 word) OR push_bit 8 (ucast hi)"

definition le32 :: "8 word \<Rightarrow> 8 word \<Rightarrow> 8 word \<Rightarrow> 8 word \<Rightarrow> 32 word" where
  "le32 b0 b1 b2 b3 = (ucast b0 :: 32 word) OR push_bit 8 (ucast b1)
       OR push_bit 16 (ucast b2) OR push_bit 24 (ucast b3)"

definition le16_bytes :: "16 word \<Rightarrow> 8 word list" where
  "le16_bytes w = [ucast w, ucast (drop_bit 8 w)]"

definition le32_bytes :: "32 word \<Rightarrow> 8 word list" where
  "le32_bytes w = [ucast w, ucast (drop_bit 8 w), ucast (drop_bit 16 w), ucast (drop_bit 24 w)]"

definition get16 :: "8 word list \<Rightarrow> nat \<Rightarrow> 16 word" where
  "get16 bs off = le16 (byte_at bs off) (byte_at bs (off + 1))"

definition get32 :: "8 word list \<Rightarrow> nat \<Rightarrow> 32 word" where
  "get32 bs off = le32 (byte_at bs off) (byte_at bs (off + 1)) (byte_at bs (off + 2)) (byte_at bs (off + 3))"

lemma length_le16_bytes [simp]: "length (le16_bytes w) = 2"
  by (simp add: le16_bytes_def)

lemma length_le32_bytes [simp]: "length (le32_bytes w) = 4"
  by (simp add: le32_bytes_def)

lemma le16_split [le_simps]: "le16 (ucast w) (ucast (drop_bit 8 w)) = w"
proof (rule bit_word_eqI)
  fix n assume n: "n < LENGTH(16)"
  show "bit (le16 (ucast w) (ucast (drop_bit 8 w))) n = bit w n"
  proof (cases "n < 8")
    case True
    then show ?thesis using n by (simp add: le16_def bit_simps)
  next
    case False
    then obtain k where "n = 8 + k" by (metis le_Suc_ex not_less)
    then show ?thesis using n by (auto simp: le16_def bit_simps dest: bit_imp_le_length)
  qed
qed

lemma le32_split [le_simps]:
  "le32 (ucast w) (ucast (drop_bit 8 w)) (ucast (drop_bit 16 w)) (ucast (drop_bit 24 w)) = w"
proof (rule bit_word_eqI)
  fix n assume n: "n < LENGTH(32)"
  consider "n < 8" | "8 \<le> n \<and> n < 16" | "16 \<le> n \<and> n < 24" | "24 \<le> n"
    by linarith
  then show "bit (le32 (ucast w) (ucast (drop_bit 8 w)) (ucast (drop_bit 16 w)) (ucast (drop_bit 24 w))) n = bit w n"
    by cases (use n in \<open>auto simp: le32_def bit_simps\<close>)
qed

lemma get16_put16 [le_simps]:
  assumes "off + 2 \<le> length bs"
  shows "get16 (put_bytes off (le16_bytes w) bs) off = w"
  using assms by (simp add: get16_def byte_at_put_bytes le16_bytes_def le16_split)

lemma get32_put32 [le_simps]:
  assumes "off + 4 \<le> length bs"
  shows "get32 (put_bytes off (le32_bytes w) bs) off = w"
  using assms
  by (simp add: get32_def byte_at_put_bytes le32_bytes_def le32_split nth_Cons_numeral
      flip: One_nat_def)

lemma get16_put_other [le_simps]:
  assumes "off' + length d \<le> length bs" "off + 2 \<le> off' \<or> off' + length d \<le> off"
  shows "get16 (put_bytes off' d bs) off = get16 bs off"
  using assms by (auto simp: get16_def byte_at_put_bytes)

lemma get32_put_other [le_simps]:
  assumes "off' + length d \<le> length bs" "off + 4 \<le> off' \<or> off' + length d \<le> off"
  shows "get32 (put_bytes off' d bs) off = get32 bs off"
  using assms by (auto simp: get32_def byte_at_put_bytes)

lemma le32_bytes_le32: "le32_bytes (le32 a b c d) = [a, b, c, d]"
proof -
  have no: "8 \<le> n \<Longrightarrow> \<not> bit x n" for x :: "8 word" and n by (auto dest: bit_imp_le_length)
  show ?thesis by (auto simp: le32_bytes_def le32_def bit_simps no intro!: bit_word_eqI)
qed

section \<open>Words\<close>

lemma unat_and_le: "unat (a AND b :: 'a::len word) \<le> unat b"
  by (metis and.commute word_and_le1 word_le_nat_alt)

lemma unat_word8_less: "unat (w :: 8 word) < 256"
  using unsigned_less[of w] by simp

lemma unat_word16_less: "unat (w :: 16 word) < 65536"
  using unsigned_less[of w] by simp

lemma unat_word32_less: "unat (w :: 32 word) < 4294967296"
  using unsigned_less[of w] by simp

lemma unat_of_nat_small16 [simp]: "n < 65536 \<Longrightarrow> unat (of_nat n :: 16 word) = n"
  by (simp add: unat_of_nat take_bit_eq_mod)

lemma unat_of_nat_small32 [simp]: "n < 4294967296 \<Longrightarrow> unat (of_nat n :: 32 word) = n"
  by (simp add: unat_of_nat take_bit_eq_mod)

lemma unat_of_nat_small8 [simp]: "n < 256 \<Longrightarrow> unat (of_nat n :: 8 word) = n"
  by (simp add: unat_of_nat take_bit_eq_mod)

end
