(* ===== verification/BoundedFifo.thy ===== *)
theory BoundedFifo
  imports SlavePrelude
begin

text \<open>
  The interface of a bounded first-in first-out buffer.  Three parts of the program keep
  one: the mailbox queues of \<open>mailbox.c\<close>, the byte rings between the two cores
  (\<open>xcore_ring.hpp\<close>) and the frame windows of the process-data stream.  The locale states
  what a provider promises over an abstraction to a list; the lemmas proved in it are what
  the clients rest on.
\<close>

datatype 'a fifo_op = Put 'a | Get

text \<open>Running a sequence of operations: the values accepted, the values handed out, the
  final buffer.\<close>

fun fifo_run :: "('a \<Rightarrow> 'q \<Rightarrow> 'q option) \<Rightarrow> ('q \<Rightarrow> ('a \<times> 'q) option) \<Rightarrow> 'a fifo_op list \<Rightarrow> 'q
                  \<Rightarrow> 'a list \<times> 'a list \<times> 'q" where
  "fifo_run put get [] q = ([], [], q)"
| "fifo_run put get (Put x # ops) q =
    (case put x q of
       None \<Rightarrow> fifo_run put get ops q
     | Some q' \<Rightarrow> let (ins, outs, r) = fifo_run put get ops q' in (x # ins, outs, r))"
| "fifo_run put get (Get # ops) q =
    (case get q of
       None \<Rightarrow> fifo_run put get ops q
     | Some (x, q') \<Rightarrow> let (ins, outs, r) = fifo_run put get ops q' in (ins, x # outs, r))"

fun fifo_drain :: "('q \<Rightarrow> ('a \<times> 'q) option) \<Rightarrow> nat \<Rightarrow> 'q \<Rightarrow> 'a list \<times> 'q" where
  "fifo_drain get 0 q = ([], q)"
| "fifo_drain get (Suc n) q =
    (case get q of None \<Rightarrow> ([], q) | Some (x, q') \<Rightarrow> let (xs, r) = fifo_drain get n q' in (x # xs, r))"

text \<open>The specification: a list that takes values at its end up to a length, and hands them out at its front.\<close>

definition list_put :: "nat \<Rightarrow> 'a \<Rightarrow> 'a list \<Rightarrow> 'a list option" where
  "list_put cap x xs = (if length xs = cap then None else Some (xs @ [x]))"

fun list_get :: "'a list \<Rightarrow> ('a \<times> 'a list) option" where
  "list_get [] = None"
| "list_get (x # xs) = Some (x, xs)"

locale bounded_fifo =
  fixes put :: "'a \<Rightarrow> 'q \<Rightarrow> 'q option"
    and get :: "'q \<Rightarrow> ('a \<times> 'q) option"
    and contents :: "'q \<Rightarrow> 'a list"
    and invar :: "'q \<Rightarrow> bool"
    and item_ok :: "'a \<Rightarrow> bool"
    and capacity :: nat
  assumes put_some: "invar q \<Longrightarrow> item_ok x \<Longrightarrow> put x q = Some q'
                     \<Longrightarrow> invar q' \<and> contents q' = contents q @ [x]"
    and put_none: "invar q \<Longrightarrow> put x q = None \<longleftrightarrow> length (contents q) = capacity"
    and get_none: "invar q \<Longrightarrow> get q = None \<longleftrightarrow> contents q = []"
    and get_some: "invar q \<Longrightarrow> get q = Some (x, q') \<Longrightarrow> invar q' \<and> contents q = x # contents q'"
    and bounded: "invar q \<Longrightarrow> length (contents q) \<le> capacity"
begin

lemma run_fifo:
  assumes "invar q" "\<forall>op \<in> set ops. \<forall>x. op = Put x \<longrightarrow> item_ok x"
    "fifo_run put get ops q = (ins, outs, r)"
  shows "invar r \<and> contents q @ ins = outs @ contents r"
  using assms
proof (induction ops arbitrary: q ins outs r)
  case Nil
  then show ?case by simp
next
  case (Cons op ops)
  have ok: "\<forall>op \<in> set ops. \<forall>x. op = Put x \<longrightarrow> item_ok x" using Cons.prems(2) by simp
  show ?case
  proof (cases op)
    case (Put x)
    show ?thesis
    proof (cases "put x q")
      case None
      then show ?thesis using Cons.IH[OF Cons.prems(1) ok] Cons.prems(3) Put by simp
    next
      case (Some q')
      have "invar q' \<and> contents q' = contents q @ [x]"
        using put_some[OF Cons.prems(1) _ Some] Cons.prems(2) Put by simp
      then show ?thesis
        using Cons.IH[OF _ ok, of q'] Cons.prems(3) Put Some
        by (cases "fifo_run put get ops q'") auto
    qed
  next
    case Get
    show ?thesis
    proof (cases "get q")
      case None
      then show ?thesis using Cons.IH[OF Cons.prems(1) ok] Cons.prems(3) Get by simp
    next
      case (Some p)
      obtain x q' where p: "p = (x, q')" by force
      have "invar q' \<and> contents q = x # contents q'"
        using get_some[OF Cons.prems(1)] Some p by simp
      then show ?thesis
        using Cons.IH[OF _ ok, of q'] Cons.prems(3) Get Some p
        by (cases "fifo_run put get ops q'") auto
    qed
  qed
qed

text \<open>Refinement: the provider answers every sequence of operations as the list does, refusals included.\<close>

lemma put_refines:
  assumes "invar q" "item_ok x"
  shows "list_put capacity x (contents q) = map_option contents (put x q)"
  using put_none[OF assms(1), of x] put_some[OF assms] by (cases "put x q") (auto simp: list_put_def)

lemma get_refines:
  assumes "invar q"
  shows "list_get (contents q) = map_option (map_prod (\<lambda>x. x) contents) (get q)"
  using get_none[OF assms] get_some[OF assms] by (cases "get q") auto

lemma run_refines:
  assumes "invar q" "\<forall>op \<in> set ops. \<forall>x. op = Put x \<longrightarrow> item_ok x"
    "fifo_run put get ops q = (ins, outs, r)"
  shows "fifo_run (list_put capacity) list_get ops (contents q) = (ins, outs, contents r)"
  using assms
proof (induction ops arbitrary: q ins outs r)
  case (Cons op ops)
  have ok: "\<forall>op \<in> set ops. \<forall>x. op = Put x \<longrightarrow> item_ok x" using Cons.prems(2) by simp
  show ?case
  proof (cases op)
    case (Put x)
    then have x: "item_ok x" using Cons.prems(2) by simp
    note P = put_refines[OF Cons.prems(1) x]
    show ?thesis
    proof (cases "put x q")
      case None
      then show ?thesis using Cons.IH[OF Cons.prems(1) ok] Cons.prems(3) Put P by simp
    next
      case (Some q')
      obtain xs ys t where t: "fifo_run put get ops q' = (xs, ys, t)" by (metis prod_cases3)
      have "invar q'" using put_some[OF Cons.prems(1) x Some] by simp
      from Cons.IH[OF this ok t] show ?thesis using t Cons.prems(3) Put P Some by simp
    qed
  next
    case Get
    note G = get_refines[OF Cons.prems(1)]
    show ?thesis
    proof (cases "get q")
      case None
      then show ?thesis using Cons.IH[OF Cons.prems(1) ok] Cons.prems(3) Get G by simp
    next
      case (Some p)
      obtain x q' where p: "p = (x, q')" by force
      obtain xs ys t where t: "fifo_run put get ops q' = (xs, ys, t)" by (metis prod_cases3)
      have "invar q'" using get_some[OF Cons.prems(1)] Some p by simp
      from Cons.IH[OF this ok t] show ?thesis using t Cons.prems(3) Get G Some p by simp
    qed
  qed
qed simp

lemma drain_all:
  assumes "invar q" "length (contents q) \<le> n"
  shows "fst (fifo_drain get n q) = contents q \<and> contents (snd (fifo_drain get n q)) = []
         \<and> invar (snd (fifo_drain get n q))"
  using assms
proof (induction n arbitrary: q)
  case 0
  then show ?case by simp
next
  case (Suc n)
  show ?case
  proof (cases "get q")
    case None
    moreover have "contents q = []" using get_none[OF Suc.prems(1)] None by simp
    ultimately show ?thesis using Suc.prems by simp
  next
    case (Some p)
    obtain x q' where p: "p = (x, q')" by force
    have inv': "invar q'" and c: "contents q = x # contents q'"
      using get_some[OF Suc.prems(1)] Some p by auto
    have IH: "fst (fifo_drain get n q') = contents q' \<and> contents (snd (fifo_drain get n q')) = []
         \<and> invar (snd (fifo_drain get n q'))"
      using Suc.IH[OF inv'] Suc.prems(2) c by simp
    show ?thesis using IH Some p c by (simp add: case_prod_unfold)
  qed
qed

lemma drain_capacity:
  "invar q \<Longrightarrow> fst (fifo_drain get capacity q) = contents q
     \<and> contents (snd (fifo_drain get capacity q)) = []"
  using drain_all bounded by blast

lemma put_accepts: "invar q \<Longrightarrow> length (contents q) < capacity \<Longrightarrow> \<exists>q'. put x q = Some q'"
  using put_none by (cases "put x q") auto

lemma run_bounded:
  assumes "invar q" "\<forall>op \<in> set ops. \<forall>x. op = Put x \<longrightarrow> item_ok x"
    "fifo_run put get ops q = (ins, outs, r)"
  shows "length ins \<le> length outs + capacity"
proof -
  from run_fifo[OF assms] have "invar r" "contents q @ ins = outs @ contents r" by auto
  then have "length (contents q) + length ins = length outs + length (contents r)"
    by (metis length_append)
  with bounded[OF \<open>invar r\<close>] show ?thesis by linarith
qed

end

end
