(* ===== verification/EscMachine.thy ===== *)
theory EscMachine
  imports SlavePrelude
begin

text \<open>
  The machine under the slave stack: the EtherCAT slave controller (ESC) seen through the
  \<open>HW_Esc*\<close> accesses, the C heap behind \<open>APPL_AllocMailboxBuffer\<close> and
  \<open>APPL_FreeMailboxBuffer\<close>, and the base record every later component extends.

  The accesses themselves are not in the repository, they come with the HPM SDK, so the
  chip is a parameter: \<open>esc_react\<close> gives the new contents of the ESC memory after an
  access, a read returns what the memory held before it.  \<open>esc_plain\<close> is the
  instance in which a write stores its bytes and a read changes nothing.

  The heap is a map from block numbers to byte lists with a byte budget, so \<open>malloc\<close> can
  fail.  A use of a block that is not live, a second \<open>free\<close> and an access past the end
  of a block set \<open>mem_fault\<close>; a poll loop that gets no answer from the chip within
  \<open>spin_fuel\<close> reads sets \<open>hung\<close>.
\<close>

unbundle bit_operations_syntax

section \<open>State\<close>

datatype esc_access =
    EscRd nat nat
  | EscWr nat "8 word list"

type_synonym esc_mem = "nat \<Rightarrow> 8 word"

type_synonym ptr = nat

abbreviation NULL :: ptr where "NULL \<equiv> 0"

record tsyncman =
  AddressLength :: "32 word"
  Settings :: "32 word"

record memory =
  heap :: "ptr \<rightharpoonup> 8 word list"
  heap_next :: nat
  heap_avail :: nat
  mem_fault :: bool

record mach =
  esc :: esc_mem
  esc_react :: "esc_access \<Rightarrow> esc_mem \<Rightarrow> esc_mem"
  mem :: memory
  spin_fuel :: nat
  hung :: bool
  nAlStatus :: "8 word"
  bBootMode :: bool
  SyncManInfo :: tsyncman

section \<open>The ESC\<close>

definition esc_store :: "nat \<Rightarrow> 8 word list \<Rightarrow> esc_mem \<Rightarrow> esc_mem" where
  "esc_store a bs m = (\<lambda>i. if a \<le> i \<and> i < a + length bs then bs ! (i - a) else m i)"

fun esc_plain :: "esc_access \<Rightarrow> esc_mem \<Rightarrow> esc_mem" where
  "esc_plain (EscRd a n) m = m"
| "esc_plain (EscWr a bs) m = esc_store a bs m"

definition esc_load :: "nat \<Rightarrow> nat \<Rightarrow> esc_mem \<Rightarrow> 8 word list" where
  "esc_load a n m = map (\<lambda>i. m (a + i)) [0..<n]"

lemma length_esc_load [simp]: "length (esc_load a n m) = n"
  by (simp add: esc_load_def)

definition HW_EscRead :: "nat \<Rightarrow> nat \<Rightarrow> 'a mach_scheme \<Rightarrow> 8 word list \<times> 'a mach_scheme" where
  "HW_EscRead a n s = (esc_load a n (esc s), s\<lparr>esc := esc_react s (EscRd a n) (esc s)\<rparr>)"

definition HW_EscWrite :: "nat \<Rightarrow> 8 word list \<Rightarrow> 'a mach_scheme \<Rightarrow> 'a mach_scheme" where
  "HW_EscWrite a bs s = s\<lparr>esc := esc_react s (EscWr a bs) (esc s)\<rparr>"

definition HW_EscReadWord :: "nat \<Rightarrow> 'a mach_scheme \<Rightarrow> 16 word \<times> 'a mach_scheme" where
  "HW_EscReadWord a s = (let (bs, s) = HW_EscRead a 2 s in (get16 bs 0, s))"

definition HW_EscReadDWord :: "nat \<Rightarrow> 'a mach_scheme \<Rightarrow> 32 word \<times> 'a mach_scheme" where
  "HW_EscReadDWord a s = (let (bs, s) = HW_EscRead a 4 s in (get32 bs 0, s))"

definition HW_EscWriteWord :: "16 word \<Rightarrow> nat \<Rightarrow> 'a mach_scheme \<Rightarrow> 'a mach_scheme" where
  "HW_EscWriteWord w a s = HW_EscWrite a (le16_bytes w) s"

definition HW_EscWriteDWord :: "32 word \<Rightarrow> nat \<Rightarrow> 'a mach_scheme \<Rightarrow> 'a mach_scheme" where
  "HW_EscWriteDWord w a s = HW_EscWrite a (le32_bytes w) s"

definition esc32 :: "nat \<Rightarrow> esc_mem \<Rightarrow> 32 word" where
  "esc32 a m = get32 (esc_load a 4 m) 0"

definition esc16 :: "nat \<Rightarrow> esc_mem \<Rightarrow> 16 word" where
  "esc16 a m = get16 (esc_load a 2 m) 0"

lemma HW_EscReadDWord_eq:
  "HW_EscReadDWord a s = (esc32 a (esc s), s\<lparr>esc := esc_react s (EscRd a 4) (esc s)\<rparr>)"
  by (simp add: HW_EscReadDWord_def HW_EscRead_def esc32_def)

lemma HW_EscReadWord_eq:
  "HW_EscReadWord a s = (esc16 a (esc s), s\<lparr>esc := esc_react s (EscRd a 2) (esc s)\<rparr>)"
  by (simp add: HW_EscReadWord_def HW_EscRead_def esc16_def)

lemma esc_load_store_same [simp]: "esc_load a (length bs) (esc_store a bs m) = bs"
  by (rule nth_equalityI) (auto simp: esc_load_def esc_store_def)

lemma esc32_store_same [simp]: "esc32 a (esc_store a (le32_bytes w) m) = w"
proof -
  have "esc32 a (esc_store a (le32_bytes w) m) = get32 (le32_bytes w) 0"
    unfolding esc32_def using esc_load_store_same[of a "le32_bytes w" m] by simp
  also have "\<dots> = w"
    using get32_put32[of 0 "le32_bytes w" w] by simp
  finally show ?thesis .
qed

lemma esc_load_store_other:
  "a + n \<le> b \<or> b + length bs \<le> a \<Longrightarrow> esc_load a n (esc_store b bs m) = esc_load a n m"
  by (auto simp: esc_load_def esc_store_def)

lemma esc32_store_other:
  "a + 4 \<le> b \<or> b + length bs \<le> a \<Longrightarrow> esc32 a (esc_store b bs m) = esc32 a m"
  by (simp add: esc32_def esc_load_store_other)

section \<open>The heap\<close>

definition m_malloc :: "nat \<Rightarrow> memory \<Rightarrow> ptr \<times> memory" where
  "m_malloc n m =
    (if n \<le> heap_avail m
     then (heap_next m, m\<lparr>heap := (heap m)(heap_next m \<mapsto> replicate n 0xA5),
                          heap_next := heap_next m + 1, heap_avail := heap_avail m - n\<rparr>)
     else (NULL, m))"

definition m_free :: "ptr \<Rightarrow> memory \<Rightarrow> memory" where
  "m_free p m =
    (if p = NULL then m
     else case heap m p of
            None \<Rightarrow> m\<lparr>mem_fault := True\<rparr>
          | Some bs \<Rightarrow> m\<lparr>heap := (heap m)(p := None), heap_avail := heap_avail m + length bs\<rparr>)"

definition m_block :: "ptr \<Rightarrow> memory \<Rightarrow> 8 word list" where
  "m_block p m = (case heap m p of None \<Rightarrow> [] | Some bs \<Rightarrow> bs)"

definition m_touch :: "ptr \<Rightarrow> nat \<Rightarrow> memory \<Rightarrow> memory" where
  "m_touch p n m = (case heap m p of
      None \<Rightarrow> m\<lparr>mem_fault := True\<rparr>
    | Some bs \<Rightarrow> if n \<le> length bs then m else m\<lparr>mem_fault := True\<rparr>)"

definition m_write :: "ptr \<Rightarrow> nat \<Rightarrow> 8 word list \<Rightarrow> memory \<Rightarrow> memory" where
  "m_write p off d m =
    (case heap m p of
       None \<Rightarrow> m\<lparr>mem_fault := True\<rparr>
     | Some bs \<Rightarrow> if off + length d \<le> length bs then m\<lparr>heap := (heap m)(p \<mapsto> put_bytes off d bs)\<rparr>
                 else m\<lparr>mem_fault := True\<rparr>)"

text \<open>The same operations on the whole state: each is an update of the one field \<open>mem\<close>, so
  that what it leaves alone is visible to the simplifier.\<close>

definition mem_malloc :: "nat \<Rightarrow> 'a mach_scheme \<Rightarrow> ptr \<times> 'a mach_scheme" where
  "mem_malloc n s = (fst (m_malloc n (mem s)), s\<lparr>mem := snd (m_malloc n (mem s))\<rparr>)"

definition mem_free :: "ptr \<Rightarrow> 'a mach_scheme \<Rightarrow> 'a mach_scheme" where
  "mem_free p s = s\<lparr>mem := m_free p (mem s)\<rparr>"

definition mem_touch :: "ptr \<Rightarrow> nat \<Rightarrow> 'a mach_scheme \<Rightarrow> 'a mach_scheme" where
  "mem_touch p n s = s\<lparr>mem := m_touch p n (mem s)\<rparr>"

definition mem_write :: "ptr \<Rightarrow> nat \<Rightarrow> 8 word list \<Rightarrow> 'a mach_scheme \<Rightarrow> 'a mach_scheme" where
  "mem_write p off d s = s\<lparr>mem := m_write p off d (mem s)\<rparr>"

definition mem_rd8 :: "ptr \<Rightarrow> nat \<Rightarrow> 'a mach_scheme \<Rightarrow> 8 word" where
  "mem_rd8 p off s = byte_at (m_block p (mem s)) off"

definition mem_rd16 :: "ptr \<Rightarrow> nat \<Rightarrow> 'a mach_scheme \<Rightarrow> 16 word" where
  "mem_rd16 p off s = get16 (m_block p (mem s)) off"

definition mem_rd32 :: "ptr \<Rightarrow> nat \<Rightarrow> 'a mach_scheme \<Rightarrow> 32 word" where
  "mem_rd32 p off s = get32 (m_block p (mem s)) off"

definition mem_wr8 :: "ptr \<Rightarrow> nat \<Rightarrow> 8 word \<Rightarrow> 'a mach_scheme \<Rightarrow> 'a mach_scheme" where
  "mem_wr8 p off w s = mem_write p off [w] s"

definition mem_wr16 :: "ptr \<Rightarrow> nat \<Rightarrow> 16 word \<Rightarrow> 'a mach_scheme \<Rightarrow> 'a mach_scheme" where
  "mem_wr16 p off w s = mem_write p off (le16_bytes w) s"

definition mem_wr32 :: "ptr \<Rightarrow> nat \<Rightarrow> 32 word \<Rightarrow> 'a mach_scheme \<Rightarrow> 'a mach_scheme" where
  "mem_wr32 p off w s = mem_write p off (le32_bytes w) s"

section \<open>Live blocks\<close>

text \<open>\<open>live m p n\<close>: \<open>p\<close> is a live block of at least \<open>n\<close> bytes.\<close>

definition live :: "memory \<Rightarrow> ptr \<Rightarrow> nat \<Rightarrow> bool" where
  "live m p n = (case heap m p of None \<Rightarrow> False | Some bs \<Rightarrow> n \<le> length bs)"

text \<open>The allocator's own invariant: block numbers at or above \<open>heap_next\<close> are unused, and
  \<open>NULL\<close> is never a block.\<close>

definition heap_ok :: "memory \<Rightarrow> bool" where
  "heap_ok m = (0 < heap_next m \<and> heap m NULL = None \<and> (\<forall>p. heap_next m \<le> p \<longrightarrow> heap m p = None))"

lemma live_mono: "live m p n \<Longrightarrow> k \<le> n \<Longrightarrow> live m p k"
  by (auto simp: live_def split: option.splits)

lemma live_heap_cong: "heap m = heap m' \<Longrightarrow> live m p n = live m' p n"
  by (simp add: live_def)

lemma m_touch_live [simp]: "live m p n \<Longrightarrow> m_touch p n m = m"
  by (auto simp: live_def m_touch_def split: option.splits)

lemma mem_touch_live [simp]: "live (mem s) p n \<Longrightarrow> mem_touch p n s = s"
  by (simp add: mem_touch_def)

lemma heap_ok_NULL: "heap_ok m \<Longrightarrow> \<not> live m NULL n"
  by (auto simp: heap_ok_def live_def)

lemma live_not_null: "heap_ok m \<Longrightarrow> live m p n \<Longrightarrow> p \<noteq> NULL"
  by (metis heap_ok_NULL)

lemma m_write_live:
  "live m p (off + length d) \<Longrightarrow>
     m_write p off d m = m\<lparr>heap := (heap m)(p \<mapsto> put_bytes off d (m_block p m))\<rparr>"
  by (auto simp: live_def m_write_def m_block_def split: option.splits)

lemma live_m_write [simp]: "live (m_write p off d m) q n = live m q n"
  by (auto simp: live_def m_write_def split: option.splits)

lemma live_m_touch [simp]: "live (m_touch p k m) q n = live m q n"
  by (auto simp: live_def m_touch_def split: option.splits)

lemma heap_ok_m_write [simp]: "heap_ok m \<Longrightarrow> heap_ok (m_write p off d m)"
  by (auto simp: heap_ok_def m_write_def split: option.splits)

lemma heap_ok_m_touch [simp]: "heap_ok m \<Longrightarrow> heap_ok (m_touch p n m)"
  by (auto simp: heap_ok_def m_touch_def split: option.splits)

lemma m_write_no_fault [simp]:
  "live m p (off + length d) \<Longrightarrow> mem_fault (m_write p off d m) = mem_fault m"
  by (simp add: m_write_live)

lemma m_block_write [simp]:
  "live m p (off + length d) \<Longrightarrow> m_block p (m_write p off d m) = put_bytes off d (m_block p m)"
  by (simp add: m_write_live) (simp add: m_block_def)

lemma m_block_write_other [simp]: "q \<noteq> p \<Longrightarrow> m_block q (m_write p off d m) = m_block q m"
  by (auto simp: m_write_def m_block_def split: option.splits)

lemma length_m_block_write [simp]: "length (m_block q (m_write p off d m)) = length (m_block q m)"
  by (auto simp: m_write_def m_block_def split: option.splits)

lemma live_length: "live m p n \<Longrightarrow> n \<le> length (m_block p m)"
  by (auto simp: live_def m_block_def split: option.splits)

lemma m_free_live:
  "live m p n \<Longrightarrow> heap_ok m \<Longrightarrow>
     m_free p m = m\<lparr>heap := (heap m)(p := None), heap_avail := heap_avail m + length (m_block p m)\<rparr>"
  by (auto simp: m_free_def live_def m_block_def heap_ok_def split: option.splits)

lemma m_free_live_no_fault [simp]: "live m p n \<Longrightarrow> mem_fault (m_free p m) = mem_fault m"
  by (auto simp: m_free_def live_def split: option.splits)

lemma m_free_NULL [simp]: "m_free NULL m = m"
  by (simp add: m_free_def)

lemma heap_ok_m_free [simp]: "heap_ok m \<Longrightarrow> heap_ok (m_free p m)"
  by (auto simp: heap_ok_def m_free_def split: option.splits)

lemma live_m_free_other [simp]: "q \<noteq> p \<Longrightarrow> live (m_free p m) q n = live m q n"
  by (auto simp: live_def m_free_def split: option.splits)

lemma heap_ok_m_malloc [simp]: "heap_ok m \<Longrightarrow> heap_ok (snd (m_malloc n m))"
  by (auto simp: heap_ok_def m_malloc_def)

lemma live_m_malloc [simp]: "heap_ok m \<Longrightarrow> live m q k \<Longrightarrow> live (snd (m_malloc n m)) q k"
  by (auto simp: heap_ok_def m_malloc_def live_def split: option.splits)

lemma m_malloc_no_fault [simp]: "mem_fault (snd (m_malloc n m)) = mem_fault m"
  by (simp add: m_malloc_def)

lemma m_malloc_fresh:
  assumes "heap_ok m" "fst (m_malloc n m) \<noteq> NULL"
  shows "live (snd (m_malloc n m)) (fst (m_malloc n m)) n"
    and "heap m (fst (m_malloc n m)) = None"
  using assms by (auto simp: heap_ok_def m_malloc_def live_def split: if_splits)

lemma m_malloc_not_live:
  assumes "heap_ok m" "live m p k"
  shows "fst (m_malloc n m) \<noteq> p"
  using assms live_not_null[OF assms]
  by (auto simp: heap_ok_def m_malloc_def live_def split: if_splits)

lemma m_malloc_length:
  assumes "fst (m_malloc n m) \<noteq> NULL"
  shows "length (m_block (fst (m_malloc n m)) (snd (m_malloc n m))) = n"
  using assms by (auto simp: m_malloc_def m_block_def split: if_splits)

lemmas mem_ops = mem_malloc_def mem_free_def mem_touch_def mem_write_def
lemmas mem_access = mem_rd8_def mem_rd16_def mem_rd32_def mem_wr8_def mem_wr16_def mem_wr32_def
lemmas hw_ops = HW_EscRead_def HW_EscWrite_def HW_EscReadWord_eq HW_EscReadDWord_eq
  HW_EscWriteWord_def HW_EscWriteDWord_def

end
