(* ===== verification/MbxQueue.thy ===== *)
theory MbxQueue
  imports BoundedFifo EscMachine
begin

text \<open>
  The mailbox queues of \<open>mailbox.c\<close> (\<open>TMBXQUEUE\<close>, \<open>PutInMbxQueue\<close>, \<open>GetOutOfMbxQueue\<close>):
  a ring of pointers with one slot left empty, so that a full ring and an empty one differ.
  The array has \<open>MAX_MBX_QUEUE_SIZE + 1\<close> elements and \<open>maxQueueSize\<close> is 10, so nine
  messages fit.  \<open>mq_list\<close> is the abstraction to a list, and the ring is an instance of
  \<open>bounded_fifo\<close>.
\<close>

record mbxqueue =
  firstInQueue :: "16 word"
  lastInQueue :: "16 word"
  maxQueueSize :: "16 word"
  queue :: "ptr list"

definition MAX_MBX_QUEUE_SIZE :: nat where "MAX_MBX_QUEUE_SIZE = 10"

definition MBXERR_NOMOREMEMORY :: "8 word" where "MBXERR_NOMOREMEMORY = 7"

definition PutInMbxQueue :: "ptr \<Rightarrow> mbxqueue \<Rightarrow> 8 word \<times> mbxqueue" where
  "PutInMbxQueue pMbx q =
    (let last = lastInQueue q + 1;
         last = (if last = maxQueueSize q then 0 else last) in
     if firstInQueue q = last then (MBXERR_NOMOREMEMORY, q)
     else (0, q\<lparr>queue := (queue q)[unat (lastInQueue q) := pMbx], lastInQueue := last\<rparr>))"

definition GetOutOfMbxQueue :: "mbxqueue \<Rightarrow> ptr \<times> mbxqueue" where
  "GetOutOfMbxQueue q =
    (if firstInQueue q \<noteq> lastInQueue q
     then let pMbx = queue q ! unat (firstInQueue q);
              first = firstInQueue q + 1;
              first = (if first = maxQueueSize q then 0 else first) in
          (pMbx, q\<lparr>firstInQueue := first\<rparr>)
     else (NULL, q))"

definition mbxqueue_reset :: "mbxqueue \<Rightarrow> mbxqueue" where
  "mbxqueue_reset q = q\<lparr>firstInQueue := 0, lastInQueue := 0, maxQueueSize := of_nat MAX_MBX_QUEUE_SIZE\<rparr>"

section \<open>Abstraction and invariant\<close>

text \<open>The slots in use, from \<open>f\<close> on, with wrap-around at \<open>mx\<close>.\<close>

definition ring_slots :: "nat \<Rightarrow> nat \<Rightarrow> nat \<Rightarrow> nat list" where
  "ring_slots mx f l = (if f \<le> l then [f..<l] else [f..<mx] @ [0..<l])"

definition mq_list :: "mbxqueue \<Rightarrow> ptr list" where
  "mq_list q = map (\<lambda>i. queue q ! i)
     (ring_slots (unat (maxQueueSize q)) (unat (firstInQueue q)) (unat (lastInQueue q)))"

definition mq_inv :: "mbxqueue \<Rightarrow> bool" where
  "mq_inv q = (maxQueueSize q = of_nat MAX_MBX_QUEUE_SIZE \<and> length (queue q) = MAX_MBX_QUEUE_SIZE + 1
     \<and> unat (firstInQueue q) < MAX_MBX_QUEUE_SIZE \<and> unat (lastInQueue q) < MAX_MBX_QUEUE_SIZE
     \<and> NULL \<notin> set (mq_list q))"

definition mq_put :: "ptr \<Rightarrow> mbxqueue \<Rightarrow> mbxqueue option" where
  "mq_put p q = (case PutInMbxQueue p q of (r, q') \<Rightarrow> if r = 0 then Some q' else None)"

definition mq_get :: "mbxqueue \<Rightarrow> (ptr \<times> mbxqueue) option" where
  "mq_get q = (case GetOutOfMbxQueue q of (p, q') \<Rightarrow> if p = NULL then None else Some (p, q'))"

section \<open>The ring on natural indices\<close>

definition ring_next :: "nat \<Rightarrow> nat" where
  "ring_next i = (if i + 1 = MAX_MBX_QUEUE_SIZE then 0 else i + 1)"

lemma set_ring_slots:
  "f < mx \<Longrightarrow> l < mx \<Longrightarrow> i \<in> set (ring_slots mx f l) \<Longrightarrow> i < mx \<and> i \<noteq> l"
  by (auto simp: ring_slots_def split: if_splits)

lemma length_ring_slots:
  "f < mx \<Longrightarrow> l < mx \<Longrightarrow> length (ring_slots mx f l) = (if f \<le> l then l - f else mx - f + l)"
  by (auto simp: ring_slots_def)

lemma ring_slots_put:
  assumes "f < MAX_MBX_QUEUE_SIZE" "l < MAX_MBX_QUEUE_SIZE" "ring_next l \<noteq> f"
  shows "ring_slots MAX_MBX_QUEUE_SIZE f (ring_next l) = ring_slots MAX_MBX_QUEUE_SIZE f l @ [l]"
proof -
  have "f \<le> 9 \<Longrightarrow> [f..<10] = [f..<9] @ [9]" using upt_Suc_append[of f 9] by simp
  then show ?thesis using assms by (auto simp: ring_slots_def ring_next_def MAX_MBX_QUEUE_SIZE_def)
qed

lemma ring_slots_get:
  assumes "f < MAX_MBX_QUEUE_SIZE" "l < MAX_MBX_QUEUE_SIZE" "l \<noteq> f"
  shows "ring_slots MAX_MBX_QUEUE_SIZE f l = f # ring_slots MAX_MBX_QUEUE_SIZE (ring_next f) l"
  using assms by (auto simp: ring_slots_def ring_next_def MAX_MBX_QUEUE_SIZE_def upt_conv_Cons)

lemma ring_full:
  assumes "f < MAX_MBX_QUEUE_SIZE" "l < MAX_MBX_QUEUE_SIZE"
  shows "f = ring_next l \<longleftrightarrow> length (ring_slots MAX_MBX_QUEUE_SIZE f l) = MAX_MBX_QUEUE_SIZE - 1"
  using assms by (auto simp: length_ring_slots ring_next_def MAX_MBX_QUEUE_SIZE_def)

lemma next_word:
  assumes "unat (w :: 16 word) < MAX_MBX_QUEUE_SIZE"
  shows "unat (if w + 1 = of_nat MAX_MBX_QUEUE_SIZE then 0 else w + 1) = ring_next (unat w)"
    (is "unat ?r = _")
proof -
  have s: "unat (w + 1) = unat w + 1"
    using assms by (simp add: MAX_MBX_QUEUE_SIZE_def unat_word_ariths)
  have "w + 1 = of_nat MAX_MBX_QUEUE_SIZE \<longleftrightarrow> unat w + 1 = MAX_MBX_QUEUE_SIZE"
    unfolding word_unat_eq_iff s by (simp add: MAX_MBX_QUEUE_SIZE_def)
  with s show ?thesis by (simp add: ring_next_def)
qed

lemma ring_next_less: "i < MAX_MBX_QUEUE_SIZE \<Longrightarrow> ring_next i < MAX_MBX_QUEUE_SIZE"
  by (auto simp: ring_next_def)

lemma next_eq:
  assumes "unat (w :: 16 word) < MAX_MBX_QUEUE_SIZE"
  shows "f = (if w + 1 = of_nat MAX_MBX_QUEUE_SIZE then 0 else w + 1) \<longleftrightarrow> unat f = ring_next (unat w)"
  using next_word[OF assms] by (simp only: word_unat_eq_iff)

section \<open>The two operations against the list\<close>

lemma mq_put_full:
  assumes "mq_inv q"
  shows "mq_put p q = None \<longleftrightarrow> length (mq_list q) = MAX_MBX_QUEUE_SIZE - 1"
proof -
  from assms have l: "unat (lastInQueue q) < MAX_MBX_QUEUE_SIZE" and f: "unat (firstInQueue q) < MAX_MBX_QUEUE_SIZE"
    and m: "maxQueueSize q = of_nat MAX_MBX_QUEUE_SIZE" and um: "unat (maxQueueSize q) = MAX_MBX_QUEUE_SIZE"
    by (auto simp: mq_inv_def MAX_MBX_QUEUE_SIZE_def)
  have "mq_put p q = None \<longleftrightarrow> unat (firstInQueue q) = ring_next (unat (lastInQueue q))"
    by (simp add: mq_put_def PutInMbxQueue_def Let_def m next_eq[OF l] MBXERR_NOMOREMEMORY_def)
  also have "\<dots> \<longleftrightarrow> length (mq_list q) = MAX_MBX_QUEUE_SIZE - 1"
    by (simp add: mq_list_def um ring_full[OF f l])
  finally show ?thesis .
qed

lemma mq_put_some:
  assumes inv: "mq_inv q" and p: "p \<noteq> NULL" and put: "mq_put p q = Some q'"
  shows "mq_inv q' \<and> mq_list q' = mq_list q @ [p]"
proof -
  let ?l = "unat (lastInQueue q)" and ?f = "unat (firstInQueue q)"
  from inv have l: "?l < MAX_MBX_QUEUE_SIZE" and f: "?f < MAX_MBX_QUEUE_SIZE"
    and m: "maxQueueSize q = of_nat MAX_MBX_QUEUE_SIZE" and um: "unat (maxQueueSize q) = MAX_MBX_QUEUE_SIZE"
    and len: "length (queue q) = MAX_MBX_QUEUE_SIZE + 1"
    by (auto simp: mq_inv_def MAX_MBX_QUEUE_SIZE_def)
  let ?n = "if lastInQueue q + 1 = of_nat MAX_MBX_QUEUE_SIZE then 0 else lastInQueue q + 1"
  from put have q': "q' = q\<lparr>queue := (queue q)[?l := p], lastInQueue := ?n\<rparr>"
    and nf: "ring_next ?l \<noteq> ?f"
    by (auto simp: mq_put_def PutInMbxQueue_def Let_def m next_eq[OF l] MBXERR_NOMOREMEMORY_def
        split: if_splits)
  have un: "unat (lastInQueue q') = ring_next ?l" using next_word[OF l] by (simp add: q')
  have qf: "queue q' = (queue q)[?l := p]" "firstInQueue q' = firstInQueue q"
    "maxQueueSize q' = maxQueueSize q"
    by (simp_all add: q')
  have slots: "\<forall>i \<in> set (ring_slots MAX_MBX_QUEUE_SIZE ?f ?l). i \<noteq> ?l"
    using set_ring_slots[OF f l] by blast
  have "mq_list q' = map (\<lambda>i. (queue q)[?l := p] ! i) (ring_slots MAX_MBX_QUEUE_SIZE ?f ?l @ [?l])"
    using ring_slots_put[OF f l nf] qf by (simp only: mq_list_def un um)
  also have "\<dots> = mq_list q @ [p]"
    using slots l len by (auto simp: mq_list_def um)
  finally have L: "mq_list q' = mq_list q @ [p]" .
  have "mq_inv q'"
    using inv p un ring_next_less[OF l] L by (auto simp: mq_inv_def q')
  with L show ?thesis by simp
qed

lemma mq_get_cases:
  assumes inv: "mq_inv q"
  shows "mq_get q = None \<longleftrightarrow> mq_list q = []"
    and "mq_get q = Some (p, q') \<Longrightarrow> mq_inv q' \<and> mq_list q = p # mq_list q'"
proof -
  let ?l = "unat (lastInQueue q)" and ?f = "unat (firstInQueue q)"
  from inv have l: "?l < MAX_MBX_QUEUE_SIZE" and f: "?f < MAX_MBX_QUEUE_SIZE"
    and m: "maxQueueSize q = of_nat MAX_MBX_QUEUE_SIZE" and um: "unat (maxQueueSize q) = MAX_MBX_QUEUE_SIZE"
    and nn: "NULL \<notin> set (mq_list q)"
    by (auto simp: mq_inv_def MAX_MBX_QUEUE_SIZE_def)
  let ?n = "if firstInQueue q + 1 = of_nat MAX_MBX_QUEUE_SIZE then 0 else firstInQueue q + 1"
  let ?q = "q\<lparr>firstInQueue := ?n\<rparr>"
  show "mq_get q = None \<longleftrightarrow> mq_list q = []"
  proof (cases "?f = ?l")
    case True
    then have "firstInQueue q = lastInQueue q" by (simp add: word_unat_eq_iff)
    then show ?thesis by (simp add: mq_get_def GetOutOfMbxQueue_def mq_list_def ring_slots_def)
  next
    case False
    then have ne: "firstInQueue q \<noteq> lastInQueue q" by (auto simp: word_unat_eq_iff)
    have h: "mq_list q = (queue q ! ?f) # map (\<lambda>i. queue q ! i) (ring_slots MAX_MBX_QUEUE_SIZE (ring_next ?f) ?l)"
      using ring_slots_get[OF f l] False by (simp add: mq_list_def um)
    with nn have "queue q ! ?f \<noteq> NULL" by auto
    then show ?thesis using ne h by (simp add: mq_get_def GetOutOfMbxQueue_def Let_def)
  qed
  assume g: "mq_get q = Some (p, q')"
  then have ne: "firstInQueue q \<noteq> lastInQueue q" and q': "q' = ?q" and p: "p = queue q ! ?f"
    by (auto simp: mq_get_def GetOutOfMbxQueue_def Let_def m split: if_splits)
  have un: "unat (firstInQueue q') = ring_next ?f" using next_word[OF f] by (simp add: q')
  have "?f \<noteq> ?l" using ne by (simp add: word_unat_eq_iff)
  then have h: "mq_list q = p # mq_list q'"
    using ring_slots_get[OF f l] un by (simp add: mq_list_def um p) (simp add: q' um)
  then have "mq_inv q'"
    using inv un ring_next_less[OF f] by (auto simp: mq_inv_def q')
  with h show "mq_inv q' \<and> mq_list q = p # mq_list q'" by simp
qed

lemma mq_bounded: "mq_inv q \<Longrightarrow> length (mq_list q) \<le> MAX_MBX_QUEUE_SIZE - 1"
  by (auto simp: mq_inv_def mq_list_def length_ring_slots MAX_MBX_QUEUE_SIZE_def)

interpretation mq: bounded_fifo mq_put mq_get mq_list mq_inv "\<lambda>p. p \<noteq> NULL" "MAX_MBX_QUEUE_SIZE - 1"
  using mq_put_some mq_put_full mq_get_cases mq_bounded by unfold_locales blast+

text \<open>The answers of the two functions themselves, the refusals with them.\<close>

lemma queue_results:
  assumes inv: "mq_inv r" and p: "p \<noteq> NULL"
  shows "if length (mq_list r) = 9 then PutInMbxQueue p r = (MBXERR_NOMOREMEMORY, r)
    else \<exists>r'. PutInMbxQueue p r = (0, r') \<and> mq_inv r' \<and> mq_list r' = mq_list r @ [p]"
    "if mq_list r = [] then GetOutOfMbxQueue r = (NULL, r)
    else \<exists>r'. GetOutOfMbxQueue r = (hd (mq_list r), r') \<and> mq_inv r' \<and> mq_list r' = tl (mq_list r)"
proof -
  obtain c t where c: "PutInMbxQueue p r = (c, t)" by force
  have full: "c \<noteq> 0 \<Longrightarrow> c = MBXERR_NOMOREMEMORY \<and> t = r" using c by (auto simp: PutInMbxQueue_def Let_def split: if_splits)
  show "if length (mq_list r) = 9 then PutInMbxQueue p r = (MBXERR_NOMOREMEMORY, r)
    else \<exists>r'. PutInMbxQueue p r = (0, r') \<and> mq_inv r' \<and> mq_list r' = mq_list r @ [p]"
  proof (cases "c = 0")
    case True
    then have "mq_put p r = Some t" using c by (simp add: mq_put_def)
    then show ?thesis using mq_put_full[OF inv, of p] mq_put_some[OF inv p] c True by (auto simp: MAX_MBX_QUEUE_SIZE_def)
  next
    case False
    then have "mq_put p r = None" using c by (simp add: mq_put_def)
    then show ?thesis using mq_put_full[OF inv, of p] full c False by (simp add: MAX_MBX_QUEUE_SIZE_def)
  qed
  obtain q u where g: "GetOutOfMbxQueue r = (q, u)" by force
  show "if mq_list r = [] then GetOutOfMbxQueue r = (NULL, r)
    else \<exists>r'. GetOutOfMbxQueue r = (hd (mq_list r), r') \<and> mq_inv r' \<and> mq_list r' = tl (mq_list r)"
  proof (cases "q = NULL")
    case True
    then have n: "mq_get r = None" using g by (simp add: mq_get_def)
    then have l: "mq_list r = []" using mq_get_cases(1)[OF inv] by simp
    have "firstInQueue r = lastInQueue r"
    proof (rule ccontr)
      assume ne: "firstInQueue r \<noteq> lastInQueue r"
      then have "unat (firstInQueue r) \<noteq> unat (lastInQueue r)" by (simp add: word_unat_eq_iff)
      then show False using l inv by (auto simp: mq_list_def ring_slots_def mq_inv_def MAX_MBX_QUEUE_SIZE_def split: if_splits)
    qed
    then show ?thesis using l by (simp add: GetOutOfMbxQueue_def)
  next
    case False
    then have "mq_get r = Some (q, u)" using g by (simp add: mq_get_def)
    from mq_get_cases(2)[OF inv this] g show ?thesis by auto
  qed
qed

lemma mq_inv_reset: "length (queue q) = MAX_MBX_QUEUE_SIZE + 1 \<Longrightarrow> mq_inv (mbxqueue_reset q)"
  by (simp add: mq_inv_def mbxqueue_reset_def mq_list_def ring_slots_def MAX_MBX_QUEUE_SIZE_def)

lemma mq_list_reset [simp]: "mq_list (mbxqueue_reset q) = []"
  by (simp add: mbxqueue_reset_def mq_list_def ring_slots_def)

end
