(* ===== verification/SyncManager.thy ===== *)
theory SyncManager
  imports EscMachine
begin

text \<open>
  The SyncManager accesses of \<open>ecatslv.c\<close>: \<open>GetSyncMan\<close> copies a channel's eight register
  bytes into the global \<open>SyncManInfo\<close>; \<open>DisableSyncManChannel\<close> and \<open>EnableSyncManChannel\<close>
  write the PDI control byte and poll the register until the chip has taken it over.  The
  polls are bounded by \<open>spin_fuel\<close>; when the fuel runs out the state is marked \<open>hung\<close>,
  which stands for a loop that has not returned, and \<open>sm_disable_no_hang\<close> and
  \<open>sm_enable_returns\<close> give the fuel that is enough for a chip that answers within \<open>k\<close> reads.
\<close>

unbundle bit_operations_syntax

abbreviation MAILBOX_WRITE :: "8 word" where "MAILBOX_WRITE \<equiv> 0"
abbreviation MAILBOX_READ :: "8 word" where "MAILBOX_READ \<equiv> 1"
abbreviation PROCESS_DATA_OUT :: "8 word" where "PROCESS_DATA_OUT \<equiv> 2"
abbreviation PROCESS_DATA_IN :: "8 word" where "PROCESS_DATA_IN \<equiv> 3"

abbreviation ESC_SYNCMAN_REG_OFFSET :: nat where "ESC_SYNCMAN_REG_OFFSET \<equiv> 0x800"
abbreviation ESC_SYNCMAN_CONTROL_OFFSET :: nat where "ESC_SYNCMAN_CONTROL_OFFSET \<equiv> 0x804"
abbreviation SIZEOF_SM_REGISTER :: nat where "SIZEOF_SM_REGISTER \<equiv> 8"

abbreviation SM_SETTING_PDI_DISABLE :: "32 word" where "SM_SETTING_PDI_DISABLE \<equiv> 0x01000000"
abbreviation SM_SETTING_REPEAT_ACK :: "32 word" where "SM_SETTING_REPEAT_ACK \<equiv> 0x02000000"
abbreviation SM_SETTING_ENABLE_VALUE :: "32 word" where "SM_SETTING_ENABLE_VALUE \<equiv> 0x00010000"
abbreviation SM_SETTING_REPAET_REQ_MASK :: "32 word" where "SM_SETTING_REPAET_REQ_MASK \<equiv> 0x00020000"
abbreviation SM_SETTING_MODE_MASK :: "32 word" where "SM_SETTING_MODE_MASK \<equiv> 0x00000002"
abbreviation SM_SETTING_MODE_ONE_BUFFER_VALUE :: "32 word" where "SM_SETTING_MODE_ONE_BUFFER_VALUE \<equiv> 0x00000002"
abbreviation SM_SETTING_DIRECTION_MASK :: "32 word" where "SM_SETTING_DIRECTION_MASK \<equiv> 0x0000000C"
abbreviation SM_SETTING_DIRECTION_READ_VALUE :: "32 word" where "SM_SETTING_DIRECTION_READ_VALUE \<equiv> 0"
abbreviation SM_SETTING_DIRECTION_WRITE_VALUE :: "32 word" where "SM_SETTING_DIRECTION_WRITE_VALUE \<equiv> 4"
abbreviation SM_SETTING_WATCHDOG_VALUE :: "32 word" where "SM_SETTING_WATCHDOG_VALUE \<equiv> 0x00000040"
abbreviation SM_STATUS_MBX_BUFFER_FULL :: "32 word" where "SM_STATUS_MBX_BUFFER_FULL \<equiv> 0x00000800"

definition SMLength :: "tsyncman \<Rightarrow> 16 word" where
  "SMLength sm = ucast (drop_bit 16 (AddressLength sm AND 0xFFFF0000))"

definition SMAddress :: "tsyncman \<Rightarrow> 16 word" where
  "SMAddress sm = ucast (AddressLength sm AND 0x0000FFFF)"

definition GetSyncMan :: "8 word \<Rightarrow> 'a mach_scheme \<Rightarrow> tsyncman \<times> 'a mach_scheme" where
  "GetSyncMan channel s =
    (let (bs, s) = HW_EscRead (ESC_SYNCMAN_REG_OFFSET + unat channel * SIZEOF_SM_REGISTER) SIZEOF_SM_REGISTER s;
         info = \<lparr>AddressLength = get32 bs 0, Settings = get32 bs 4\<rparr> in
     (info, s\<lparr>SyncManInfo := info\<rparr>))"

text \<open>Poll the register at \<open>off\<close> until its value satisfies the predicate: the ESC memory
  after the reads and whether the poll ended.\<close>

fun esc_poll :: "(esc_access \<Rightarrow> esc_mem \<Rightarrow> esc_mem) \<Rightarrow> nat \<Rightarrow> (32 word \<Rightarrow> bool) \<Rightarrow> nat \<Rightarrow> esc_mem
                  \<Rightarrow> esc_mem \<times> bool" where
  "esc_poll react off stop 0 m = (m, False)"
| "esc_poll react off stop (Suc n) m =
    (let v = esc32 off m; m = react (EscRd off 4) m in
     if stop v then (m, True) else esc_poll react off stop n m)"

definition sm_wait :: "nat \<Rightarrow> (32 word \<Rightarrow> bool) \<Rightarrow> 'a mach_scheme \<Rightarrow> 'a mach_scheme" where
  "sm_wait off stop s =
    (let r = esc_poll (esc_react s) off stop (spin_fuel s) (esc s) in
     s\<lparr>esc := fst r, hung := (hung s \<or> \<not> snd r)\<rparr>)"

definition DisableSyncManChannel :: "8 word \<Rightarrow> 'a mach_scheme \<Rightarrow> 'a mach_scheme" where
  "DisableSyncManChannel channel s =
    (let smStatus = SM_SETTING_PDI_DISABLE;
         Offset = ESC_SYNCMAN_CONTROL_OFFSET + SIZEOF_SM_REGISTER * unat channel;
         s = HW_EscWriteDWord smStatus Offset s in
     sm_wait Offset (\<lambda>v. v AND SM_SETTING_PDI_DISABLE \<noteq> 0) s)"

definition EnableSyncManChannel :: "8 word \<Rightarrow> 'a mach_scheme \<Rightarrow> 'a mach_scheme" where
  "EnableSyncManChannel channel s =
    (let smStatus = 0;
         Offset = ESC_SYNCMAN_CONTROL_OFFSET + SIZEOF_SM_REGISTER * unat channel;
         s = HW_EscWriteDWord smStatus Offset s in
     sm_wait Offset (\<lambda>v. v AND SM_SETTING_PDI_DISABLE = 0) s)"

section \<open>The polls end\<close>

lemma esc_poll_ends:
  "k < n \<Longrightarrow> stop (esc32 off ((react (EscRd off 4) ^^ k) m)) \<Longrightarrow> snd (esc_poll react off stop n m)"
proof (induction n arbitrary: k m)
  case (Suc n)
  show ?case
  proof (cases k)
    case 0
    then show ?thesis using Suc.prems by simp
  next
    case (Suc j)
    have "stop (esc32 off ((react (EscRd off 4) ^^ j) (react (EscRd off 4) m)))"
      using Suc.prems(2) Suc by (simp add: funpow_swap1)
    then show ?thesis using Suc.IH[of j "react (EscRd off 4) m"] Suc.prems(1) Suc by (simp add: Let_def)
  qed
qed simp

text \<open>A chip that shows the written PDI-disable bit after at most \<open>k\<close> further reads.\<close>

definition sm_answers :: "(esc_access \<Rightarrow> esc_mem \<Rightarrow> esc_mem) \<Rightarrow> nat \<Rightarrow> bool" where
  "sm_answers react k = (\<forall>ch w m. let off = ESC_SYNCMAN_CONTROL_OFFSET + SIZEOF_SM_REGISTER * ch in
     \<exists>j \<le> k. esc32 off ((react (EscRd off 4) ^^ j) (react (EscWr off (le32_bytes w)) m)) AND SM_SETTING_PDI_DISABLE
       = w AND SM_SETTING_PDI_DISABLE)"

lemma sm_answers_plain: "sm_answers esc_plain 0"
  by (simp add: sm_answers_def Let_def)

lemma sm_disable_no_hang:
  assumes "sm_answers (esc_react s) k" "k < spin_fuel s"
  shows "hung (DisableSyncManChannel ch s) = hung s"
proof -
  let ?off = "ESC_SYNCMAN_CONTROL_OFFSET + SIZEOF_SM_REGISTER * unat ch"
  let ?m = "esc_react s (EscWr ?off (le32_bytes SM_SETTING_PDI_DISABLE)) (esc s)"
  from assms(1) obtain j where j: "j \<le> k"
    "esc32 ?off ((esc_react s (EscRd ?off 4) ^^ j) ?m) AND SM_SETTING_PDI_DISABLE \<noteq> 0"
    using assms(1)[unfolded sm_answers_def Let_def, rule_format, of "unat ch" SM_SETTING_PDI_DISABLE "esc s"]
    by auto
  have "snd (esc_poll (esc_react s) ?off (\<lambda>v. v AND SM_SETTING_PDI_DISABLE \<noteq> 0) (spin_fuel s) ?m)"
    using esc_poll_ends[of j "spin_fuel s" "\<lambda>v. v AND SM_SETTING_PDI_DISABLE \<noteq> 0"] j assms(2) by simp
  then show ?thesis by (simp add: DisableSyncManChannel_def sm_wait_def Let_def hw_ops)
qed

lemma sm_enable_no_hang:
  assumes "sm_answers (esc_react s) k" "k < spin_fuel s"
  shows "hung (EnableSyncManChannel ch s) = hung s"
proof -
  let ?off = "ESC_SYNCMAN_CONTROL_OFFSET + SIZEOF_SM_REGISTER * unat ch"
  let ?m = "esc_react s (EscWr ?off (le32_bytes 0)) (esc s)"
  from assms(1) obtain j where j: "j \<le> k"
    "esc32 ?off ((esc_react s (EscRd ?off 4) ^^ j) ?m) AND SM_SETTING_PDI_DISABLE = 0"
    using assms(1)[unfolded sm_answers_def Let_def, rule_format, of "unat ch" 0 "esc s"]
    by auto
  have "snd (esc_poll (esc_react s) ?off (\<lambda>v. v AND SM_SETTING_PDI_DISABLE = 0) (spin_fuel s) ?m)"
    using esc_poll_ends[of j "spin_fuel s" "\<lambda>v. v AND SM_SETTING_PDI_DISABLE = 0"] j assms(2) by simp
  then show ?thesis by (simp add: EnableSyncManChannel_def sm_wait_def Let_def hw_ops)
qed

text \<open>What the SyncManager operations leave alone: everything but the ESC, the \<open>hung\<close> flag
  and \<open>SyncManInfo\<close>.  The right-hand sides are single updates, so the simplifier sees the
  rest of the state through them.\<close>

lemma sm_wait_upd:
  "sm_wait off stop s = s\<lparr>esc := fst (esc_poll (esc_react s) off stop (spin_fuel s) (esc s)),
     hung := (hung s \<or> \<not> snd (esc_poll (esc_react s) off stop (spin_fuel s) (esc s)))\<rparr>"
  by (simp add: sm_wait_def Let_def)

lemmas sm_ops = DisableSyncManChannel_def EnableSyncManChannel_def sm_wait_upd GetSyncMan_def

end
