(* ===== verification/Mailbox.thy ===== *)
theory Mailbox
  imports MbxQueue SyncManager
begin

text \<open>
  The sending half of \<open>mailbox.c\<close>: initialisation, \<open>MBX_StartMailboxHandler\<close>, copying a
  datagram into the send mailbox of the ESC (\<open>MBX_CopyToSendMailbox\<close>), queueing it
  (\<open>MBX_MailboxSendReq\<close>) and the repeat request of the data link layer
  (\<open>MBX_MailboxRepeatReq\<close>).  The services sit between this theory and \<open>MailboxMain\<close>,
  since they call \<open>MBX_MailboxSendReq\<close> and are called from \<open>MBX_Main\<close>.

  A \<open>TMBX\<close> is a heap block laid out as in \<open>mailbox.h\<close>: \<open>Length\<close> at 0, \<open>Address\<close> at 2,
  \<open>Flags\<close> at 4 and 5, the data from 6 on.
\<close>

unbundle bit_operations_syntax

record mbx = mach +
  bReceiveMbxIsLocked :: bool
  bSendMbxIsFull :: bool
  bMbxRunning :: bool
  bMbxRepeatToggle :: bool
  u16SendMbxSize :: "16 word"
  u16ReceiveMbxSize :: "16 word"
  u16EscAddrReceiveMbx :: "16 word"
  u16EscAddrSendMbx :: "16 word"
  u8MbxWriteCounter :: "8 word"
  u8MbxReadCounter :: "8 word"
  u8MailboxSendReqStored :: "8 word"
  psWriteMbx :: ptr
  psReadMbx :: ptr
  psRepeatMbx :: ptr
  psStoreMbx :: ptr
  sMbxSendQueue :: mbxqueue
  sMbxReceiveQueue :: mbxqueue
  bNoMbxMemoryAvailable :: bool
  u16FoeMaxSendBlockSize :: "16 word"

section \<open>Constants\<close>

abbreviation MIN_MBX_SIZE :: nat where "MIN_MBX_SIZE \<equiv> 0x24"
abbreviation MAX_MBX_SIZE :: nat where "MAX_MBX_SIZE \<equiv> 0x10C"
abbreviation MIN_MBX_WRITE_ADDRESS :: nat where "MIN_MBX_WRITE_ADDRESS \<equiv> 0x1000"
abbreviation MAX_MBX_WRITE_ADDRESS :: nat where "MAX_MBX_WRITE_ADDRESS \<equiv> 0x2FFF"
abbreviation MIN_MBX_READ_ADDRESS :: nat where "MIN_MBX_READ_ADDRESS \<equiv> 0x1000"
abbreviation MAX_MBX_READ_ADDRESS :: nat where "MAX_MBX_READ_ADDRESS \<equiv> 0x2FFF"
abbreviation MBX_HEADER_SIZE :: nat where "MBX_HEADER_SIZE \<equiv> 6"

abbreviation MBX_TYPE_COE :: "8 word" where "MBX_TYPE_COE \<equiv> 3"
abbreviation MBX_TYPE_FOE :: "8 word" where "MBX_TYPE_FOE \<equiv> 4"
abbreviation COE_SERVICE :: "8 word" where "COE_SERVICE \<equiv> 0x02"
abbreviation FOE_SERVICE :: "8 word" where "FOE_SERVICE \<equiv> 0x40"
abbreviation FRAGMENTS_FOLLOW :: "8 word" where "FRAGMENTS_FOLLOW \<equiv> 0x80"

abbreviation MBXSERVICE_MBXERRORCMD :: "16 word" where "MBXSERVICE_MBXERRORCMD \<equiv> 1"
abbreviation MBXERR_UNSUPPORTEDPROTOCOL :: "8 word" where "MBXERR_UNSUPPORTEDPROTOCOL \<equiv> 2"
abbreviation MBXERR_SERVICENOTSUPPORTED :: "8 word" where "MBXERR_SERVICENOTSUPPORTED \<equiv> 4"
abbreviation MBXERR_INVALIDHEADER :: "8 word" where "MBXERR_INVALIDHEADER \<equiv> 5"
abbreviation MBXERR_SIZETOOSHORT :: "8 word" where "MBXERR_SIZETOOSHORT \<equiv> 6"
abbreviation MBXERR_INVALIDSIZE :: "8 word" where "MBXERR_INVALIDSIZE \<equiv> 8"
abbreviation MBXERR_SERVICEINWORK :: "8 word" where "MBXERR_SERVICEINWORK \<equiv> 9"
abbreviation ERROR_INVALIDSTATE :: "8 word" where "ERROR_INVALIDSTATE \<equiv> 0xF0"

abbreviation STATE_INIT :: "8 word" where "STATE_INIT \<equiv> 1"
abbreviation STATE_PREOP :: "8 word" where "STATE_PREOP \<equiv> 2"
abbreviation STATE_BOOT :: "8 word" where "STATE_BOOT \<equiv> 3"
abbreviation STATE_SAFEOP :: "8 word" where "STATE_SAFEOP \<equiv> 4"
abbreviation STATE_OP :: "8 word" where "STATE_OP \<equiv> 8"
abbreviation STATE_MASK :: "8 word" where "STATE_MASK \<equiv> 0x0F"
abbreviation STATE_CHANGE :: "8 word" where "STATE_CHANGE \<equiv> 0x10"

abbreviation ALSTATUSCODE_NOMEMORY :: "16 word" where "ALSTATUSCODE_NOMEMORY \<equiv> 2"
abbreviation ALSTATUSCODE_INVALIDMBXCFGINPREOP :: "16 word" where "ALSTATUSCODE_INVALIDMBXCFGINPREOP \<equiv> 0x16"

section \<open>Header access\<close>

definition mbx_Length :: "ptr \<Rightarrow> 'a mach_scheme \<Rightarrow> 16 word" where
  "mbx_Length p s = mem_rd16 p 0 s"

definition mbx_Flags1 :: "ptr \<Rightarrow> 'a mach_scheme \<Rightarrow> 8 word" where
  "mbx_Flags1 p s = mem_rd8 p 5 s"

definition mbx_type :: "ptr \<Rightarrow> 'a mach_scheme \<Rightarrow> 8 word" where
  "mbx_type p s = mbx_Flags1 p s AND 0x0F"

definition mbx_counter :: "ptr \<Rightarrow> 'a mach_scheme \<Rightarrow> 8 word" where
  "mbx_counter p s = drop_bit 4 (mbx_Flags1 p s)"

text \<open>The mailbox error response every handler builds in place: length 4, type 0, the error
  command and its code.\<close>

definition mbx_error_response :: "ptr \<Rightarrow> 8 word \<Rightarrow> 'a mach_scheme \<Rightarrow> 'a mach_scheme" where
  "mbx_error_response p code s =
    (let s = mem_wr16 p 0 4 s;
         s = mem_wr8 p 5 (mbx_Flags1 p s AND NOT 0x0F) s;
         s = mem_wr16 p 6 MBXSERVICE_MBXERRORCMD s in
     mem_wr16 p 8 (ucast code) s)"

section \<open>Initialisation\<close>

definition sm1_clear_repeat_ack :: "'a mach_scheme \<Rightarrow> 'a mach_scheme" where
  "sm1_clear_repeat_ack s =
    (let (sm1Activate, s) = HW_EscReadDWord (ESC_SYNCMAN_CONTROL_OFFSET + SIZEOF_SM_REGISTER) s;
         sm1Activate = sm1Activate AND NOT SM_SETTING_REPEAT_ACK in
     HW_EscWriteDWord sm1Activate (ESC_SYNCMAN_CONTROL_OFFSET + SIZEOF_SM_REGISTER) s)"

definition MBX_Init :: "'a mbx_scheme \<Rightarrow> 'a mbx_scheme" where
  "MBX_Init s =
    (let s = s\<lparr>u16ReceiveMbxSize := of_nat MIN_MBX_SIZE, u16SendMbxSize := of_nat MAX_MBX_SIZE,
               u16EscAddrReceiveMbx := of_nat MIN_MBX_WRITE_ADDRESS,
               u16EscAddrSendMbx := of_nat MIN_MBX_READ_ADDRESS,
               sMbxReceiveQueue := mbxqueue_reset (sMbxReceiveQueue s),
               sMbxSendQueue := mbxqueue_reset (sMbxSendQueue s),
               psWriteMbx := NULL, psRepeatMbx := NULL, psReadMbx := NULL, psStoreMbx := NULL,
               bMbxRepeatToggle := False\<rparr>;
         s = sm1_clear_repeat_ack s in
     s\<lparr>bMbxRunning := False, bSendMbxIsFull := False, bReceiveMbxIsLocked := False,
       u8MailboxSendReqStored := 0, u8MbxWriteCounter := 0, u8MbxReadCounter := 0\<rparr>)"

definition MBX_StartMailboxHandler :: "'a mbx_scheme \<Rightarrow> 16 word \<times> 'a mbx_scheme" where
  "MBX_StartMailboxHandler s =
    (let (pSyncMan, s) = GetSyncMan MAILBOX_WRITE s;
         s = s\<lparr>u16ReceiveMbxSize := SMLength pSyncMan, u16EscAddrReceiveMbx := SMAddress pSyncMan\<rparr>;
         (pSyncMan, s) = GetSyncMan MAILBOX_READ s;
         s = s\<lparr>u16SendMbxSize := SMLength pSyncMan, u16EscAddrSendMbx := SMAddress pSyncMan\<rparr> in
     if unat (u16EscAddrReceiveMbx s) + unat (u16ReceiveMbxSize s) > unat (u16EscAddrSendMbx s)
        \<and> unat (u16EscAddrReceiveMbx s) < unat (u16EscAddrSendMbx s) + unat (u16SendMbxSize s)
     then (ALSTATUSCODE_INVALIDMBXCFGINPREOP, s)
     else
       let s = s\<lparr>u16FoeMaxSendBlockSize := u16SendMbxSize s - 6 - of_nat MBX_HEADER_SIZE\<rparr>;
           s = EnableSyncManChannel MAILBOX_WRITE s;
           s = EnableSyncManChannel MAILBOX_READ s;
           (p, s) = mem_malloc (unat (u16ReceiveMbxSize s)) s;
           s = s\<lparr>psWriteMbx := p\<rparr> in
       if psWriteMbx s = NULL
       then let s = s\<lparr>bNoMbxMemoryAvailable := True\<rparr>;
                (p, s) = mem_malloc 10 s;
                s = s\<lparr>psWriteMbx := p\<rparr>;
                result = (if psWriteMbx s = NULL then ALSTATUSCODE_NOMEMORY else 0);
                s = mem_free (psWriteMbx s) s in
            (result, s\<lparr>psWriteMbx := NULL\<rparr>)
       else let s = s\<lparr>bNoMbxMemoryAvailable := False\<rparr>;
                s = mem_free (psWriteMbx s) s in
            (0, s\<lparr>psWriteMbx := NULL\<rparr>))"

section \<open>Copying into the send mailbox\<close>

text \<open>The loop that zeroes the unused double words.  Both bounds are multiples of 4 below
  65536, so the 16-bit counter of the code does not wrap.\<close>

function clear_dwords :: "(esc_access \<Rightarrow> esc_mem \<Rightarrow> esc_mem) \<Rightarrow> nat \<Rightarrow> nat \<Rightarrow> esc_mem \<Rightarrow> esc_mem" where
  "clear_dwords react a b m =
    (if a < b then clear_dwords react (a + 4) b (react (EscWr a (le32_bytes 0)) m) else m)"
  by pat_completeness auto
termination by (relation "measure (\<lambda>(react, a, b, m). b - a)") auto

declare clear_dwords.simps [simp del]

definition mbx_trigger :: "ptr \<Rightarrow> 16 word \<Rightarrow> 'a mbx_scheme \<Rightarrow> 'a mbx_scheme" where
  "mbx_trigger pMbx mbxSize s =
    (let (smstate, s) = HW_EscReadDWord (ESC_SYNCMAN_CONTROL_OFFSET + SIZEOF_SM_REGISTER) s in
     if smstate AND SM_STATUS_MBX_BUFFER_FULL = 0
     then let BytesLeft = u16SendMbxSize s - (mbxSize + of_nat MBX_HEADER_SIZE);
              LastDataAddress = (unat mbxSize + MBX_HEADER_SIZE) div 4;
              n = 4 - unat BytesLeft;
              s = (if unat BytesLeft < 4 then mem_touch pMbx (LastDataAddress * 4 + n) s else s);
              u32dummy = (if unat BytesLeft < 4
                          then get32 (get_bytes (m_block pMbx (mem s)) (LastDataAddress * 4) n) 0 else 0) in
          HW_EscWriteDWord u32dummy (unat (u16EscAddrSendMbx s + u16SendMbxSize s - 4)) s
     else s)"

definition MBX_CopyToSendMailbox :: "ptr \<Rightarrow> 'a mbx_scheme \<Rightarrow> 8 word \<times> 'a mbx_scheme" where
  "MBX_CopyToSendMailbox pMbx s =
    (if nAlStatus s AND STATE_MASK = STATE_INIT then (ERROR_INVALIDSTATE, s)
     else if \<not> bMbxRunning s then (ERROR_INVALIDSTATE, s)
     else if bSendMbxIsFull s then (MBXERR_NOMOREMEMORY, s)
     else
       let s = mem_touch pMbx MBX_HEADER_SIZE s;
           mbxSize = mbx_Length pMbx s;
           LastUsedAddr = u16EscAddrSendMbx s + mbxSize + of_nat MBX_HEADER_SIZE;
           LastAddrToReset = u16EscAddrSendMbx s + u16SendMbxSize s;
           LastUsedAddr = LastUsedAddr AND 0xFFFC;
           LastAddrToReset = (LastAddrToReset - 4) AND 0xFFFC;
           s = s\<lparr>esc := clear_dwords (esc_react s) (unat LastUsedAddr) (unat LastAddrToReset) (esc s)\<rparr>;
           len = unat (mbxSize + of_nat MBX_HEADER_SIZE);
           s = mem_touch pMbx len s;
           s = HW_EscWrite (unat (u16EscAddrSendMbx s)) (get_bytes (m_block pMbx (mem s)) 0 len) s;
           s = mbx_trigger pMbx mbxSize s;
           s = (if psReadMbx s \<noteq> NULL then s\<lparr>psWriteMbx := NULL\<rparr> else s) in
       (0, s\<lparr>psReadMbx := pMbx, bSendMbxIsFull := True\<rparr>))"

section \<open>Send and repeat requests\<close>

definition MBX_MailboxSendReq :: "ptr \<Rightarrow> 8 word \<Rightarrow> 'a mbx_scheme \<Rightarrow> 8 word \<times> 'a mbx_scheme" where
  "MBX_MailboxSendReq pMbx flags s =
    (if nAlStatus s AND STATE_MASK = STATE_INIT then (ERROR_INVALIDSTATE, s)
     else
       let s = mem_wr8 pMbx 5 (mbx_Flags1 pMbx s AND NOT 0xF0) s;
           s = (if u8MbxReadCounter s AND 0x07 = 0 then s\<lparr>u8MbxReadCounter := 1\<rparr> else s);
           s = mem_wr8 pMbx 5 (mbx_Flags1 pMbx s OR push_bit 4 (u8MbxReadCounter s)) s;
           (copied, s) = MBX_CopyToSendMailbox pMbx s;
           (result, flags, s) =
             (if copied \<noteq> 0
              then let (result, q) = PutInMbxQueue pMbx (sMbxSendQueue s);
                       s = s\<lparr>sMbxSendQueue := q\<rparr> in
                   if result \<noteq> 0 then (result, flags OR FRAGMENTS_FOLLOW, s)
                   else (result, flags, s\<lparr>u8MbxReadCounter := u8MbxReadCounter s + 1\<rparr>)
              else (0, flags, s\<lparr>u8MbxReadCounter := u8MbxReadCounter s + 1\<rparr>));
           s = (if flags AND FRAGMENTS_FOLLOW \<noteq> 0
                then s\<lparr>u8MailboxSendReqStored := u8MailboxSendReqStored s OR (flags AND NOT FRAGMENTS_FOLLOW)\<rparr>
                else s) in
       (result, s))"

definition MBX_MailboxRepeatReq :: "'a mbx_scheme \<Rightarrow> 'a mbx_scheme" where
  "MBX_MailboxRepeatReq s =
    (let s =
       (if psRepeatMbx s \<noteq> NULL
        then let pMbx = psRepeatMbx s;
                 s = (if bSendMbxIsFull s \<and> psStoreMbx s = NULL
                      then let s = DisableSyncManChannel MAILBOX_READ s;
                               s = s\<lparr>psStoreMbx := psReadMbx s\<rparr>;
                               s = EnableSyncManChannel MAILBOX_READ s in
                           s\<lparr>bSendMbxIsFull := False\<rparr>
                      else s);
                 (_, s) = MBX_CopyToSendMailbox pMbx s in
             s\<lparr>psRepeatMbx := NULL\<rparr>
        else s) in
     s\<lparr>bMbxRepeatToggle := \<not> bMbxRepeatToggle s\<rparr>)"

end
