(* ===== verification/MailboxOwn.thy ===== *)
theory MailboxOwn
  imports Mailbox
begin

text \<open>
  Who owns which mailbox buffer.  \<open>mbx_own s P\<close> says that the buffers the mailbox module
  holds (the one in the send mailbox, the one kept for a repeat, the one put aside by a
  repeat request, the two queues) and the buffers \<open>P\<close> held by callers and services are
  pairwise different live blocks, that no invalid access has happened, and that what waits
  to be sent fits the send mailbox.  Every operation of \<open>mailbox.c\<close> is shown to keep it,
  handing a buffer over where the code does.
\<close>

unbundle bit_operations_syntax

section \<open>Copying into the send mailbox\<close>

text \<open>Documented behaviour of the chip: writing the whole one-buffer area marks it full.\<close>

definition chip_marks_full :: "'a mbx_scheme \<Rightarrow> bool" where
  "chip_marks_full s = (\<forall>bs m. length bs = unat (u16SendMbxSize s) \<longrightarrow>
     esc32 (ESC_SYNCMAN_CONTROL_OFFSET + SIZEOF_SM_REGISTER)
       (esc_react s (EscWr (unat (u16EscAddrSendMbx s)) bs) m) AND SM_STATUS_MBX_BUFFER_FULL \<noteq> 0)"

definition mbx_sendable :: "'a mbx_scheme \<Rightarrow> ptr \<Rightarrow> bool" where
  "mbx_sendable s p = (unat (mbx_Length p s) + MBX_HEADER_SIZE \<le> unat (u16SendMbxSize s)
     \<and> live (mem s) p (unat (mbx_Length p s) + MBX_HEADER_SIZE))"

definition mbx_open :: "'a mbx_scheme \<Rightarrow> bool" where
  "mbx_open s = (nAlStatus s AND STATE_MASK \<noteq> STATE_INIT \<and> bMbxRunning s)"

lemma unat_add_header: "unat (w :: 16 word) + 6 \<le> unat (z :: 16 word) \<Longrightarrow> unat (w + 6) = unat w + 6"
  using unat_word16_less[of z] by (simp add: unat_word_ariths)

lemma mbx_trigger_safe:
  assumes len: "unat n + MBX_HEADER_SIZE \<le> unat (u16SendMbxSize s)" and "unat (u16SendMbxSize s) mod 4 = 0"
    and "live (mem s) p (unat n + MBX_HEADER_SIZE)"
    and full: "unat n + MBX_HEADER_SIZE = unat (u16SendMbxSize s) \<Longrightarrow>
        esc32 (ESC_SYNCMAN_CONTROL_OFFSET + SIZEOF_SM_REGISTER) (esc s) AND SM_STATUS_MBX_BUFFER_FULL \<noteq> 0"
  shows "\<exists>e. mbx_trigger p n s = s\<lparr>esc := e\<rparr>"
proof -
  let ?S = "unat (u16SendMbxSize s)" and ?l = "unat n + 6"
  have l: "unat (n + 6) = ?l" using len unat_add_header by simp
  have left: "unat (u16SendMbxSize s - (n + 6)) = ?S - ?l"
    using len l by (simp add: unat_sub word_le_nat_alt)
  show ?thesis
  proof (cases "?l = ?S")
    case True
    then show ?thesis using full by (auto simp: mbx_trigger_def hw_ops)
  next
    case False
    have "?S - ?l < 4 \<Longrightarrow> 10 + (?l div 4 * 4 + unat n) - ?S = ?l"
    proof -
      assume lt: "?S - ?l < 4"
      obtain k where k: "?S = 4 * k" using assms(2) by (auto simp: mod_eq_0_iff_dvd elim: dvdE)
      have d: "?l div 4 = k - 1"
        by (rule div_nat_eqI) (use lt k False len in simp_all)
      have "1 \<le> k" using k len by linarith
      then have "10 + ((k - 1) * 4 + unat n) - 4 * k = ?l" by (simp add: diff_mult_distrib)
      then show ?thesis by (simp only: d k)
    qed
    then show ?thesis
      using assms(3) by (auto simp: mbx_trigger_def hw_ops Let_def left)
  qed
qed


definition mbx_chip_ok :: "'a mbx_scheme \<Rightarrow> bool" where
  "mbx_chip_ok s = (unat (u16SendMbxSize s) mod 4 = 0 \<and> chip_marks_full s)"

lemma length_get_bytes_live: "live m p n \<Longrightarrow> length (get_bytes (m_block p m) 0 n) = n"
  using live_length by auto

lemma CopyToSend_ok:
  assumes "mbx_open s" "\<not> bSendMbxIsFull s" "mbx_sendable s p" "mbx_chip_ok s"
  shows "\<exists>e w. MBX_CopyToSendMailbox p s
    = (0, s\<lparr>esc := e, psWriteMbx := w, psReadMbx := p, bSendMbxIsFull := True\<rparr>)"
proof -
  let ?n = "mbx_Length p s"
  from assms(3) have len: "unat ?n + 6 \<le> unat (u16SendMbxSize s)" and lv: "live (mem s) p (unat ?n + 6)"
    by (auto simp: mbx_sendable_def)
  have l: "unat (?n + 6) = unat ?n + 6" using unat_add_header[OF len] .
  have l6: "live (mem s) p 6" using live_mono[OF lv] by simp
  obtain e0 where e0: "e0 = clear_dwords (esc_react s)
      (unat ((u16EscAddrSendMbx s + ?n + 6) AND 0xFFFC)) (unat ((u16EscAddrSendMbx s + u16SendMbxSize s - 4) AND 0xFFFC)) (esc s)"
    by simp
  let ?bs = "get_bytes (m_block p (mem s)) 0 (unat ?n + 6)"
  let ?e1 = "esc_react s (EscWr (unat (u16EscAddrSendMbx s)) ?bs) e0"
  have t: "\<exists>e. mbx_trigger p ?n (s\<lparr>esc := ?e1\<rparr>) = s\<lparr>esc := e\<rparr>"
  proof -
    have "\<exists>e. mbx_trigger p ?n (s\<lparr>esc := ?e1\<rparr>) = s\<lparr>esc := ?e1\<rparr>\<lparr>esc := e\<rparr>"
      by (rule mbx_trigger_safe)
        (use len lv assms(4) length_get_bytes_live[OF lv] in \<open>auto simp: mbx_chip_ok_def chip_marks_full_def\<close>)
    then show ?thesis by simp
  qed
  then obtain e where e: "mbx_trigger p ?n (s\<lparr>esc := ?e1\<rparr>) = s\<lparr>esc := e\<rparr>" by blast
  have "MBX_CopyToSendMailbox p s = (0, (if psReadMbx s \<noteq> NULL then s\<lparr>esc := e, psWriteMbx := NULL\<rparr> else s\<lparr>esc := e\<rparr>)
        \<lparr>psReadMbx := p, bSendMbxIsFull := True\<rparr>)"
    using assms(1,2) lv e
    by (simp add: MBX_CopyToSendMailbox_def mbx_open_def l6 Let_def l e0[symmetric] HW_EscWrite_def)
  note f = this
  show ?thesis
  proof (cases "psReadMbx s = NULL")
    case True
    then show ?thesis using f by (intro exI[of _ e] exI[of _ "psWriteMbx s"]) simp
  next
    case False
    then show ?thesis using f by (intro exI[of _ e] exI[of _ NULL]) simp
  qed
qed

lemma CopyToSend_fail:
  "bSendMbxIsFull s \<or> \<not> mbx_open s \<Longrightarrow> \<exists>r. r \<noteq> 0 \<and> MBX_CopyToSendMailbox p s = (r, s)"
  by (auto simp: MBX_CopyToSendMailbox_def mbx_open_def MBXERR_NOMOREMEMORY_def)

section \<open>The ownership invariant\<close>

definition mbx_sent :: "'a mbx_scheme \<Rightarrow> ptr list" where
  "mbx_sent s = filter (\<lambda>p. p \<noteq> NULL)
     [if bSendMbxIsFull s then psReadMbx s else NULL, psRepeatMbx s, psStoreMbx s]"

text \<open>All the buffers the module holds.\<close>

definition mbx_held :: "'a mbx_scheme \<Rightarrow> ptr list" where
  "mbx_held s = mbx_sent s @ mq_list (sMbxSendQueue s) @ mq_list (sMbxReceiveQueue s)"

definition mbx_own :: "'a mbx_scheme \<Rightarrow> ptr list \<Rightarrow> bool" where
  "mbx_own s P =
    (heap_ok (mem s) \<and> \<not> mem_fault (mem s) \<and> mq_inv (sMbxSendQueue s) \<and> mq_inv (sMbxReceiveQueue s)
     \<and> (if bSendMbxIsFull s then psReadMbx s \<noteq> NULL \<and> (psStoreMbx s \<noteq> NULL \<longrightarrow> psRepeatMbx s = NULL)
        else psReadMbx s = psRepeatMbx s \<and> psStoreMbx s = NULL)
     \<and> distinct (mbx_sent s @ mq_list (sMbxSendQueue s) @ mq_list (sMbxReceiveQueue s) @ P)
     \<and> NULL \<notin> set P
     \<and> (\<forall>p \<in> set (mbx_sent s @ mq_list (sMbxSendQueue s)). mbx_sendable s p)
     \<and> (\<forall>p \<in> set (mq_list (sMbxReceiveQueue s)). live (mem s) p (unat (u16ReceiveMbxSize s)))
     \<and> (\<forall>p \<in> set P. live (mem s) p 0))"

text \<open>The part of the state the invariant looks at.\<close>

definition mbx_view where
  "mbx_view s = (mem s, sMbxSendQueue s, sMbxReceiveQueue s, bSendMbxIsFull s, psReadMbx s,
     psRepeatMbx s, psStoreMbx s, u16SendMbxSize s, u16ReceiveMbxSize s)"

lemma own_view:
  assumes v: "mbx_view s = mbx_view t" and own: "mbx_own s P"
  shows "mbx_own t P"
proof -
  have e: "mem s = mem t" "sMbxSendQueue s = sMbxSendQueue t" "sMbxReceiveQueue s = sMbxReceiveQueue t"
    "bSendMbxIsFull s = bSendMbxIsFull t" "psReadMbx s = psReadMbx t" "psRepeatMbx s = psRepeatMbx t"
    "psStoreMbx s = psStoreMbx t" "u16SendMbxSize s = u16SendMbxSize t" "u16ReceiveMbxSize s = u16ReceiveMbxSize t"
    using v by (simp_all add: mbx_view_def)
  show ?thesis
    using own unfolding mbx_own_def mbx_sent_def mbx_sendable_def mbx_Length_def mem_rd16_def e .
qed

lemma sendable_view: "mbx_view s = mbx_view t \<Longrightarrow> mbx_sendable s p \<Longrightarrow> mbx_sendable t p"
  by (simp add: mbx_view_def mbx_sendable_def mbx_Length_def mem_rd16_def)

lemma sendable_live: "mbx_sendable s p \<Longrightarrow> live (mem s) p 6"
  unfolding mbx_sendable_def by (blast intro: live_mono[of _ _ "unat (mbx_Length p s) + 6"] le_add2)

lemma sendable_write_other:
  "q \<noteq> p \<Longrightarrow> mbx_sendable (s\<lparr>mem := m_write p off d (mem s)\<rparr>) q = mbx_sendable s q"
  by (simp add: mbx_sendable_def mbx_Length_def mem_rd16_def)

lemma sendable_write_same:
  assumes "2 \<le> off" "live (mem s) p (off + length d)"
  shows "mbx_sendable (s\<lparr>mem := m_write p off d (mem s)\<rparr>) p = mbx_sendable s p"
  using assms live_length[OF assms(2)]
  by (simp add: mbx_sendable_def mbx_Length_def mem_rd16_def get16_put_other)

lemma own_write:
  assumes "mbx_own s (p # P)" "live (mem s) p (off + length d)"
  shows "mbx_own (s\<lparr>mem := m_write p off d (mem s)\<rparr>) (p # P)"
proof -
  let ?s = "s\<lparr>mem := m_write p off d (mem s)\<rparr>"
  have "\<forall>q \<in> set (mbx_sent s @ mq_list (sMbxSendQueue s)). mbx_sendable ?s q"
  proof
    fix q assume q: "q \<in> set (mbx_sent s @ mq_list (sMbxSendQueue s))"
    then have "q \<noteq> p" "mbx_sendable s q" using assms(1) unfolding mbx_own_def by auto
    then show "mbx_sendable ?s q" by (simp add: sendable_write_other)
  qed
  moreover have "mbx_sent ?s = mbx_sent s" by (simp add: mbx_sent_def)
  ultimately show ?thesis using assms by (auto simp: mbx_own_def)
qed

lemma own_fields [simp]:
  "mbx_own (s\<lparr>u8MbxReadCounter := c\<rparr>) P = mbx_own s P"
  "mbx_own (s\<lparr>u8MbxWriteCounter := c\<rparr>) P = mbx_own s P"
  "mbx_own (s\<lparr>u8MailboxSendReqStored := c\<rparr>) P = mbx_own s P"
  "mbx_own (s\<lparr>bReceiveMbxIsLocked := b\<rparr>) P = mbx_own s P"
  "mbx_own (s\<lparr>bMbxRepeatToggle := b\<rparr>) P = mbx_own s P"
  "mbx_own (s\<lparr>psWriteMbx := w\<rparr>) P = mbx_own s P"
  "mbx_own (s\<lparr>esc := e\<rparr>) P = mbx_own s P"
  "mbx_own (s\<lparr>hung := h\<rparr>) P = mbx_own s P"
  "mbx_own (s\<lparr>SyncManInfo := i\<rparr>) P = mbx_own s P"
  by (simp_all add: mbx_own_def mbx_sent_def mbx_sendable_def mbx_Length_def mem_rd16_def)

lemma sendable_fields [simp]:
  "mbx_sendable (s\<lparr>u8MbxReadCounter := c\<rparr>) p = mbx_sendable s p"
  "mbx_sendable (s\<lparr>u8MailboxSendReqStored := c\<rparr>) p = mbx_sendable s p"
  "mbx_sendable (s\<lparr>psWriteMbx := w\<rparr>) p = mbx_sendable s p"
  "mbx_sendable (s\<lparr>psReadMbx := w\<rparr>) p = mbx_sendable s p"
  "mbx_sendable (s\<lparr>psRepeatMbx := w\<rparr>) p = mbx_sendable s p"
  "mbx_sendable (s\<lparr>psStoreMbx := w\<rparr>) p = mbx_sendable s p"
  "mbx_sendable (s\<lparr>bSendMbxIsFull := b\<rparr>) p = mbx_sendable s p"
  "mbx_sendable (s\<lparr>esc := e\<rparr>) p = mbx_sendable s p"
  "mbx_sendable (s\<lparr>hung := h\<rparr>) p = mbx_sendable s p"
  "mbx_sendable (s\<lparr>sMbxSendQueue := q\<rparr>) p = mbx_sendable s p"
  "mbx_sendable (s\<lparr>sMbxReceiveQueue := q\<rparr>) p = mbx_sendable s p"
  by (simp_all add: mbx_sendable_def mbx_Length_def mem_rd16_def)

lemma own_copied:
  assumes "mbx_own s (p # P)" "\<not> bSendMbxIsFull s" "mbx_sendable s p"
  shows "mbx_own (s\<lparr>esc := e, psWriteMbx := w, psReadMbx := p, bSendMbxIsFull := True\<rparr>) P"
  using assms by (auto simp: mbx_own_def mbx_sent_def)

lemma own_queued:
  assumes "mbx_own s (p # P)" "mbx_sendable s p" "PutInMbxQueue p (sMbxSendQueue s) = (0, q)"
  shows "mbx_own (s\<lparr>sMbxSendQueue := q\<rparr>) P"
proof -
  have "p \<noteq> NULL" "mq_inv (sMbxSendQueue s)" using assms(1) by (auto simp: mbx_own_def)
  then have "mq_inv q" "mq_list q = mq_list (sMbxSendQueue s) @ [p]"
    using mq.put_some[of "sMbxSendQueue s" p q] assms(3) by (auto simp: mq_put_def)
  moreover have "mbx_sent (s\<lparr>sMbxSendQueue := q\<rparr>) = mbx_sent s" by (simp add: mbx_sent_def)
  ultimately show ?thesis using assms(1,2) by (auto simp: mbx_own_def)
qed

lemma PutInMbxQueue_full: "PutInMbxQueue p q = (r, q') \<Longrightarrow> r \<noteq> 0 \<Longrightarrow> q' = q \<and> r = MBXERR_NOMOREMEMORY"
  by (auto simp: PutInMbxQueue_def Let_def split: if_splits)

section \<open>Send request\<close>

text \<open>The datagram with the data link counter set, as \<open>MBX_MailboxSendReq\<close> leaves it.\<close>

definition sendreq_stamp :: "ptr \<Rightarrow> 'a mbx_scheme \<Rightarrow> 'a mbx_scheme" where
  "sendreq_stamp p s =
    (let s = mem_wr8 p 5 (mbx_Flags1 p s AND NOT 0xF0) s;
         s = (if u8MbxReadCounter s AND 0x07 = 0 then s\<lparr>u8MbxReadCounter := 1\<rparr> else s) in
     mem_wr8 p 5 (mbx_Flags1 p s OR push_bit 4 (u8MbxReadCounter s)) s)"

lemma sendreq_split:
  "MBX_MailboxSendReq p flags s =
    (if nAlStatus s AND STATE_MASK = STATE_INIT then (ERROR_INVALIDSTATE, s)
     else let s = sendreq_stamp p s;
              (copied, s) = MBX_CopyToSendMailbox p s;
              (result, flags, s) =
               (if copied \<noteq> 0
                then let (result, q) = PutInMbxQueue p (sMbxSendQueue s);
                         s = s\<lparr>sMbxSendQueue := q\<rparr> in
                     if result \<noteq> 0 then (result, flags OR FRAGMENTS_FOLLOW, s)
                     else (result, flags, s\<lparr>u8MbxReadCounter := u8MbxReadCounter s + 1\<rparr>)
                else (0, flags, s\<lparr>u8MbxReadCounter := u8MbxReadCounter s + 1\<rparr>));
              s = (if flags AND FRAGMENTS_FOLLOW \<noteq> 0
                then s\<lparr>u8MailboxSendReqStored := u8MailboxSendReqStored s OR (flags AND NOT FRAGMENTS_FOLLOW)\<rparr>
                else s) in
          (result, s))"
  by (simp add: MBX_MailboxSendReq_def sendreq_stamp_def Let_def)

lemma stamp_own:
  assumes own: "mbx_own s (p # P)" and snd: "mbx_sendable s p"
  shows "mbx_own (sendreq_stamp p s) (p # P)" "mbx_sendable (sendreq_stamp p s) p"
proof -
  have l: "live (mem s) p (5 + length [x])" for x :: "8 word" using sendable_live[OF snd] by simp
  have l': "live (m_write p 5 [x] (mem s)) p (5 + length [y])" for x y :: "8 word" using l by simp
  let ?s = "\<lambda>x. s\<lparr>mem := m_write p 5 [x] (mem s)\<rparr>"
  have o1: "mbx_own (?s x) (p # P)" "mbx_sendable (?s x) p" for x
    using own_write[OF own l] sendable_write_same[OF _ l] snd by auto
  have o2: "mbx_own (?s x\<lparr>mem := m_write p 5 [y] (mem (?s x))\<rparr>) (p # P)"
    "mbx_sendable (?s x\<lparr>mem := m_write p 5 [y] (mem (?s x))\<rparr>) p" for x y
    using own_write[OF o1(1), where off = 5 and d = "[y]"] sendable_write_same[of 5 "?s x" p "[y]"] o1 l' by auto
  have "\<exists>x y. mbx_view (?s x\<lparr>mem := m_write p 5 [y] (mem (?s x))\<rparr>) = mbx_view (sendreq_stamp p s)"
    by (cases "u8MbxReadCounter s AND 7 = 0")
      (simp_all add: mbx_view_def sendreq_stamp_def Let_def mem_access mem_ops, blast+)
  then obtain x y where "mbx_view (?s x\<lparr>mem := m_write p 5 [y] (mem (?s x))\<rparr>) = mbx_view (sendreq_stamp p s)"
    by blast
  from own_view[OF this o2(1)] sendable_view[OF this o2(2)]
  show "mbx_own (sendreq_stamp p s) (p # P)" "mbx_sendable (sendreq_stamp p s) p" by blast+
qed

lemma stamp_frame [simp]:
  "nAlStatus (sendreq_stamp p s) = nAlStatus s" "bSendMbxIsFull (sendreq_stamp p s) = bSendMbxIsFull s"
  "bMbxRunning (sendreq_stamp p s) = bMbxRunning s" "u16SendMbxSize (sendreq_stamp p s) = u16SendMbxSize s"
  "mbx_open (sendreq_stamp p s) = mbx_open s" "mbx_chip_ok (sendreq_stamp p s) = mbx_chip_ok s"
  by (simp_all add: sendreq_stamp_def Let_def mem_access mem_ops mbx_open_def mbx_chip_ok_def
      chip_marks_full_def)

lemma SendReq_own:
  assumes own: "mbx_own s (p # P)" and snd: "mbx_sendable s p" and chip: "mbx_chip_ok s"
    and req: "MBX_MailboxSendReq p flags s = (r, s')"
  shows "if r = 0 then mbx_own s' P else mbx_own s' (p # P)"
proof (cases "nAlStatus s AND STATE_MASK = STATE_INIT")
  case True
  then show ?thesis using own req by (auto simp: MBX_MailboxSendReq_def)
next
  case False
  let ?t = "sendreq_stamp p s"
  note t = stamp_own[OF own snd]
  show ?thesis
  proof (cases "mbx_open ?t \<and> \<not> bSendMbxIsFull ?t")
    case True
    then obtain e w where
      "MBX_CopyToSendMailbox p ?t = (0, ?t\<lparr>esc := e, psWriteMbx := w, psReadMbx := p, bSendMbxIsFull := True\<rparr>)"
      using CopyToSend_ok[of ?t p] t(2) chip by auto
    moreover have "mbx_own (?t\<lparr>esc := e, psWriteMbx := w, psReadMbx := p, bSendMbxIsFull := True\<rparr>) P"
      using own_copied t True by blast
    ultimately show ?thesis using req False by (auto simp: sendreq_split Let_def)
  next
    case closed: False
    then obtain c where c: "c \<noteq> 0" "MBX_CopyToSendMailbox p ?t = (c, ?t)"
      using CopyToSend_fail[of ?t p] by auto
    obtain pr q where q: "PutInMbxQueue p (sMbxSendQueue ?t) = (pr, q)" by force
    show ?thesis
    proof (cases "pr = 0")
      case True
      then have "mbx_own (?t\<lparr>sMbxSendQueue := q\<rparr>) P" using own_queued[OF t] q by simp
      then show ?thesis using req False c q True by (auto simp: sendreq_split Let_def)
    next
      case full: False
      then have "q = sMbxSendQueue ?t" using PutInMbxQueue_full[OF q] by simp
      then have "mbx_own (?t\<lparr>sMbxSendQueue := q\<rparr>) (p # P)" using t by simp
      then show ?thesis using req False c q full by (auto simp: sendreq_split Let_def)
    qed
  qed
qed

section \<open>Repeat request\<close>

lemma sm_form:
  "\<exists>e h. DisableSyncManChannel ch s = s\<lparr>esc := e, hung := h\<rparr>"
  "\<exists>e h. EnableSyncManChannel ch s = s\<lparr>esc := e, hung := h\<rparr>"
  by (auto simp: sm_ops hw_ops Let_def)

lemma repeat_taken_off:
  "\<exists>e h. (let s = DisableSyncManChannel MAILBOX_READ s;
               s = s\<lparr>psStoreMbx := psReadMbx s\<rparr>;
               s = EnableSyncManChannel MAILBOX_READ s in s\<lparr>bSendMbxIsFull := False\<rparr>)
     = s\<lparr>esc := e, hung := h, psStoreMbx := psReadMbx s, bSendMbxIsFull := False\<rparr>"
proof -
  obtain e h where d: "DisableSyncManChannel MAILBOX_READ s = s\<lparr>esc := e, hung := h\<rparr>" using sm_form by blast
  obtain e' h' where "EnableSyncManChannel MAILBOX_READ (s\<lparr>esc := e, hung := h, psStoreMbx := psReadMbx s\<rparr>)
      = s\<lparr>esc := e, hung := h, psStoreMbx := psReadMbx s\<rparr>\<lparr>esc := e', hung := h'\<rparr>" using sm_form by blast
  with d show ?thesis by (intro exI[of _ e'] exI[of _ h']) simp
qed

text \<open>Swapping the buffers of a repeat: the repeated buffer goes into the send mailbox, the one
  that was there (if any) is put aside, and there is no buffer to repeat any more.\<close>

lemma own_repeated:
  assumes "mbx_own s P" "psRepeatMbx s \<noteq> NULL"
    "mem t = mem s" "sMbxSendQueue t = sMbxSendQueue s" "sMbxReceiveQueue t = sMbxReceiveQueue s"
    "u16SendMbxSize t = u16SendMbxSize s" "u16ReceiveMbxSize t = u16ReceiveMbxSize s"
    "bSendMbxIsFull t" "psReadMbx t = psRepeatMbx s" "psRepeatMbx t = NULL"
    "psStoreMbx t = (if bSendMbxIsFull s then psReadMbx s else NULL)"
  shows "mbx_own t P"
proof -
  have "\<And>p. mbx_sendable t p = mbx_sendable s p"
    using assms by (simp add: mbx_sendable_def mbx_Length_def mem_rd16_def)
  with assms show ?thesis
    by (auto simp: mbx_own_def mbx_sent_def)
qed

text \<open>What a repeat request does.  Without a buffer to repeat only the toggle bit changes.\<close>

lemma RepeatReq_form:
  assumes own: "mbx_own s P" and op: "mbx_open s" and chip: "mbx_chip_ok s"
  shows "MBX_MailboxRepeatReq s = s\<lparr>bMbxRepeatToggle := \<not> bMbxRepeatToggle s\<rparr> \<and> psRepeatMbx s = NULL
    \<or> psRepeatMbx s \<noteq> NULL \<and> (\<exists>e h w. MBX_MailboxRepeatReq s
         = s\<lparr>esc := e, hung := h, psWriteMbx := w, psReadMbx := psRepeatMbx s, bSendMbxIsFull := True,
             psRepeatMbx := NULL, psStoreMbx := if bSendMbxIsFull s then psReadMbx s else NULL,
             bMbxRepeatToggle := \<not> bMbxRepeatToggle s\<rparr>)"
proof (cases "psRepeatMbx s = NULL")
  case True
  then show ?thesis by (simp add: MBX_MailboxRepeatReq_def)
next
  case False
  let ?p = "psRepeatMbx s"
  have snd: "mbx_sendable s ?p" using own False by (auto simp: mbx_own_def mbx_sent_def)
  have st: "psStoreMbx s = NULL" using own False by (auto simp: mbx_own_def split: if_splits)
  have "\<exists>e h w. MBX_MailboxRepeatReq s
         = s\<lparr>esc := e, hung := h, psWriteMbx := w, psReadMbx := ?p, bSendMbxIsFull := True,
             psRepeatMbx := NULL, psStoreMbx := if bSendMbxIsFull s then psReadMbx s else NULL,
             bMbxRepeatToggle := \<not> bMbxRepeatToggle s\<rparr>"
  proof (cases "bSendMbxIsFull s")
    case full: True
    obtain e h where t: "(let s = DisableSyncManChannel MAILBOX_READ s;
               s = s\<lparr>psStoreMbx := psReadMbx s\<rparr>;
               s = EnableSyncManChannel MAILBOX_READ s in s\<lparr>bSendMbxIsFull := False\<rparr>)
       = s\<lparr>esc := e, hung := h, psStoreMbx := psReadMbx s, bSendMbxIsFull := False\<rparr>" (is "_ = ?t")
      using repeat_taken_off by blast
    obtain e' w where "MBX_CopyToSendMailbox ?p ?t
        = (0, ?t\<lparr>esc := e', psWriteMbx := w, psReadMbx := ?p, bSendMbxIsFull := True\<rparr>)"
      using CopyToSend_ok[of ?t ?p] op chip snd
      by (auto simp: mbx_open_def mbx_chip_ok_def chip_marks_full_def)
    then show ?thesis
      using False full st t[unfolded Let_def]
      by (intro exI[of _ e'] exI[of _ h] exI[of _ w]) (simp add: MBX_MailboxRepeatReq_def Let_def)
  next
    case empty: False
    obtain e' w where "MBX_CopyToSendMailbox ?p s
        = (0, s\<lparr>esc := e', psWriteMbx := w, psReadMbx := ?p, bSendMbxIsFull := True\<rparr>)"
      using CopyToSend_ok[OF op empty snd chip] by blast
    then show ?thesis
      using False empty st
      by (intro exI[of _ e'] exI[of _ "hung s"] exI[of _ w]) (simp add: MBX_MailboxRepeatReq_def Let_def)
  qed
  with False show ?thesis by blast
qed

lemma RepeatReq_own:
  assumes own: "mbx_own s P" and op: "mbx_open s" and chip: "mbx_chip_ok s"
  shows "mbx_own (MBX_MailboxRepeatReq s) P"
  using RepeatReq_form[OF assms]
proof (elim disjE exE conjE)
  assume "MBX_MailboxRepeatReq s = s\<lparr>bMbxRepeatToggle := \<not> bMbxRepeatToggle s\<rparr>"
  then show ?thesis using own by simp
qed (simp add: own_repeated[OF own])

section \<open>Writing to a buffer in hand, giving it back\<close>

lemma own_wr:
  assumes "mbx_own s (p # P)" "live (mem s) p k"
  shows "off + 1 \<le> k \<Longrightarrow> mbx_own (mem_wr8 p off b s) (p # P)"
    and "off + 2 \<le> k \<Longrightarrow> mbx_own (mem_wr16 p off w s) (p # P)"
    and "off + 4 \<le> k \<Longrightarrow> mbx_own (mem_wr32 p off d s) (p # P)"
  using own_write[OF assms(1) live_mono[OF assms(2)]] by (simp_all add: mem_access mem_ops)

lemma live_wr [simp]:
  "live (mem (mem_wr8 p off b s)) q n = live (mem s) q n"
  "live (mem (mem_wr16 p off w s)) q n = live (mem s) q n"
  "live (mem (mem_wr32 p off d s)) q n = live (mem s) q n"
  by (simp_all add: mem_access mem_ops)

lemma Length_wr16 [simp]: "live (mem s) p 2 \<Longrightarrow> mbx_Length p (mem_wr16 p 0 w s) = w"
proof -
  assume l: "live (mem s) p 2"
  have "m_block p (m_write p 0 (le16_bytes w) (mem s)) = put_bytes 0 (le16_bytes w) (m_block p (mem s))"
    by (rule m_block_write) (simp only: length_le16_bytes add_0 l)
  then show ?thesis
    using live_length[OF l] by (simp add: mbx_Length_def mem_access mem_ops get16_put16)
qed

lemma own_drop: "mbx_own s (P @ Q @ R) \<Longrightarrow> mbx_own s (P @ R)"
  by (auto simp: mbx_own_def)

lemma own_free:
  assumes own: "mbx_own s (p # P)"
  shows "mbx_own (mem_free p s) P"
proof -
  let ?t = "s\<lparr>mem := m_free p (mem s)\<rparr>"
  have sent: "mbx_sent ?t = mbx_sent s" by (simp add: mbx_sent_def)
  have lp: "live (mem s) p 0" using own by (auto simp: mbx_own_def)
  have o: "q \<noteq> p \<Longrightarrow> m_block q (m_free p (mem s)) = m_block q (mem s)" for q
    by (auto simp: m_free_def m_block_def split: option.splits)
  have "mbx_sendable ?t q" if "q \<in> set (mbx_sent s @ mq_list (sMbxSendQueue s))" for q
  proof -
    have "q \<noteq> p" "mbx_sendable s q" using own that unfolding mbx_own_def by auto
    then show ?thesis using o by (simp add: mbx_sendable_def mbx_Length_def mem_rd16_def)
  qed
  moreover have "live (m_free p (mem s)) q (unat (u16ReceiveMbxSize s))" if "q \<in> set (mq_list (sMbxReceiveQueue s))" for q
  proof -
    have "q \<noteq> p" "live (mem s) q (unat (u16ReceiveMbxSize s))" using own that unfolding mbx_own_def by auto
    then show ?thesis by simp
  qed
  moreover have "live (m_free p (mem s)) q 0" if "q \<in> set P" for q
  proof -
    have "q \<noteq> p" "live (mem s) q 0" using own that unfolding mbx_own_def by auto
    then show ?thesis by simp
  qed
  ultimately have "mbx_own ?t P"
    using own lp unfolding mbx_own_def sent by simp
  then show ?thesis by (simp add: mem_free_def)
qed

end
