(* ===== verification/Foe.thy ===== *)
theory Foe
  imports MailboxOwn
begin

text \<open>
  File access over EtherCAT: \<open>ecatfoe.c\<close> (the server's state machine on received datagrams)
  and \<open>foeappl.c\<close> (the calls into the application).  The application functions are the
  function pointers \<open>pAPPL_Foe*\<close>, \<open>None\<close> when they are not set; they work on the whole state.

  A \<open>TFOEMBX\<close> has \<open>OpCode\<close> at 6, the command word at 8 to 11 and the data from 12 on.
\<close>

unbundle bit_operations_syntax

record foe = mbx +
  u32PacketNo :: "32 word"
  u32FileOffset :: "32 word"
  u32LastFileOffset :: "32 word"
  u16FileAccessState :: "16 word"
  pFoeSendStored :: ptr

type_synonym addr = "ptr \<times> nat"

record 's foe_ops =
  pAPPL_FoeRead :: "(addr \<Rightarrow> 16 word \<Rightarrow> 32 word \<Rightarrow> 16 word \<Rightarrow> addr \<Rightarrow> 's \<Rightarrow> 16 word \<times> 's) option"
  pAPPL_FoeReadData :: "(32 word \<Rightarrow> 16 word \<Rightarrow> addr \<Rightarrow> 's \<Rightarrow> 16 word \<times> 's) option"
  pAPPL_FoeError :: "(32 word \<Rightarrow> 's \<Rightarrow> 's) option"
  pAPPL_FoeWrite :: "(addr \<Rightarrow> 16 word \<Rightarrow> 32 word \<Rightarrow> 's \<Rightarrow> 16 word \<times> 's) option"
  pAPPL_FoeWriteData :: "(addr \<Rightarrow> 16 word \<Rightarrow> bool \<Rightarrow> 's \<Rightarrow> 16 word \<times> 's) option"

section \<open>Constants\<close>

abbreviation FOE_HEADER_SIZE :: nat where "FOE_HEADER_SIZE \<equiv> 6"
abbreviation FOE_DATA_OFFSET :: nat where "FOE_DATA_OFFSET \<equiv> 12"

abbreviation ECAT_FOE_OPCODE_RRQ :: "16 word" where "ECAT_FOE_OPCODE_RRQ \<equiv> 1"
abbreviation ECAT_FOE_OPCODE_WRQ :: "16 word" where "ECAT_FOE_OPCODE_WRQ \<equiv> 2"
abbreviation ECAT_FOE_OPCODE_DATA :: "16 word" where "ECAT_FOE_OPCODE_DATA \<equiv> 3"
abbreviation ECAT_FOE_OPCODE_ACK :: "16 word" where "ECAT_FOE_OPCODE_ACK \<equiv> 4"
abbreviation ECAT_FOE_OPCODE_ERR :: "16 word" where "ECAT_FOE_OPCODE_ERR \<equiv> 5"
abbreviation ECAT_FOE_OPCODE_BUSY :: "16 word" where "ECAT_FOE_OPCODE_BUSY \<equiv> 6"

abbreviation FOE_READY :: "16 word" where "FOE_READY \<equiv> 0"
abbreviation FOE_WAIT_FOR_ACK :: "16 word" where "FOE_WAIT_FOR_ACK \<equiv> 1"
abbreviation FOE_WAIT_FOR_DATA :: "16 word" where "FOE_WAIT_FOR_DATA \<equiv> 2"
abbreviation FOE_WAIT_FOR_LAST_ACK :: "16 word" where "FOE_WAIT_FOR_LAST_ACK \<equiv> 4"
abbreviation FOE_WAIT_FOR_LAST_DATA :: "16 word" where "FOE_WAIT_FOR_LAST_DATA \<equiv> 6"

abbreviation FOE_ERROR :: "16 word" where "FOE_ERROR \<equiv> 0x8000"
abbreviation FOE_FINISHED :: "16 word" where "FOE_FINISHED \<equiv> 0x7FFF"
abbreviation FOE_FINISHED_NOACK :: "16 word" where "FOE_FINISHED_NOACK \<equiv> 0x7FFE"
abbreviation FOE_ACK_RES :: "16 word" where "FOE_ACK_RES \<equiv> 0x7FFD"
abbreviation FOE_ACKFINISHED :: "16 word" where "FOE_ACKFINISHED \<equiv> 0x7FFC"
abbreviation FOE_WAIT :: "16 word" where "FOE_WAIT \<equiv> 0x7FFB"
abbreviation FOE_MAXBUSY :: "16 word" where "FOE_MAXBUSY \<equiv> 0x7FFA"
abbreviation FOE_MAXBUSY_ZERO :: "16 word" where "FOE_MAXBUSY_ZERO \<equiv> 0x7F96"
abbreviation FOE_MAXDATA :: "16 word" where "FOE_MAXDATA \<equiv> 0x7F95"

abbreviation ECAT_FOE_ERRCODE_NOTDEFINED :: "16 word" where "ECAT_FOE_ERRCODE_NOTDEFINED \<equiv> 0x8000"
abbreviation ECAT_FOE_ERRCODE_ILLEGAL :: "16 word" where "ECAT_FOE_ERRCODE_ILLEGAL \<equiv> 0x8004"
abbreviation ECAT_FOE_ERRCODE_PACKENO :: "16 word" where "ECAT_FOE_ERRCODE_PACKENO \<equiv> 0x8005"

section \<open>The calls into the application\<close>

definition FOE_Read :: "('z foe_scheme) foe_ops \<Rightarrow> addr \<Rightarrow> 16 word \<Rightarrow> addr \<Rightarrow> 32 word
    \<Rightarrow> 'z foe_scheme \<Rightarrow> 16 word \<times> 'z foe_scheme" where
  "FOE_Read ops pName nameSize pData password s =
    (case pAPPL_FoeRead ops of
       Some f \<Rightarrow> f pName nameSize password (u16FoeMaxSendBlockSize s) pData s
     | None \<Rightarrow> (ECAT_FOE_ERRCODE_NOTDEFINED, s))"

definition FOE_Write :: "('z foe_scheme) foe_ops \<Rightarrow> addr \<Rightarrow> 16 word \<Rightarrow> 32 word
    \<Rightarrow> 'z foe_scheme \<Rightarrow> 16 word \<times> 'z foe_scheme" where
  "FOE_Write ops pName nameSize password s =
    (case pAPPL_FoeWrite ops of
       Some f \<Rightarrow> f pName nameSize password s
     | None \<Rightarrow> (ECAT_FOE_ERRCODE_NOTDEFINED, s))"

definition FOE_Data :: "('z foe_scheme) foe_ops \<Rightarrow> addr \<Rightarrow> 16 word
    \<Rightarrow> 'z foe_scheme \<Rightarrow> 16 word \<times> 'z foe_scheme" where
  "FOE_Data ops pData Size s =
    (let bDataFollowing = (int (unat Size) = int (unat (u16ReceiveMbxSize s)) - int MBX_HEADER_SIZE - int FOE_HEADER_SIZE) in
     case pAPPL_FoeWriteData ops of
       Some f \<Rightarrow> let (error, s) = f pData Size bDataFollowing s in
                 if error > 0 then (error, s)
                 else if \<not> bDataFollowing then (FOE_ACKFINISHED, s)
                 else (0, s)
     | None \<Rightarrow> (ECAT_FOE_ERRCODE_NOTDEFINED, s))"

definition FOE_Ack :: "('z foe_scheme) foe_ops \<Rightarrow> 32 word \<Rightarrow> addr
    \<Rightarrow> 'z foe_scheme \<Rightarrow> 16 word \<times> 'z foe_scheme" where
  "FOE_Ack ops fileOffset pData s =
    (case pAPPL_FoeReadData ops of
       Some f \<Rightarrow> f fileOffset (u16FoeMaxSendBlockSize s) pData s
     | None \<Rightarrow> (ECAT_FOE_ERRCODE_NOTDEFINED, s))"

definition FOE_Busy :: "('z foe_scheme) foe_ops \<Rightarrow> 16 word \<Rightarrow> 32 word \<Rightarrow> addr
    \<Rightarrow> 'z foe_scheme \<Rightarrow> 16 word \<times> 'z foe_scheme" where
  "FOE_Busy ops done fileOffset pData s = FOE_Ack ops fileOffset pData s"

definition FOE_Error :: "('z foe_scheme) foe_ops \<Rightarrow> 32 word \<Rightarrow> 'z foe_scheme \<Rightarrow> 'z foe_scheme" where
  "FOE_Error ops errorCode s =
    (case pAPPL_FoeError ops of Some f \<Rightarrow> f errorCode s | None \<Rightarrow> s)"

section \<open>The server\<close>

definition FOE_Init :: "'z foe_scheme \<Rightarrow> 'z foe_scheme" where
  "FOE_Init s = s\<lparr>u16FileAccessState := FOE_READY, u32PacketNo := 0, pFoeSendStored := NULL\<rparr>"

definition foe_OpCode :: "ptr \<Rightarrow> 'z mach_scheme \<Rightarrow> 16 word" where
  "foe_OpCode p s = mem_rd16 p 6 s"

definition foe_Cmd :: "ptr \<Rightarrow> 'z mach_scheme \<Rightarrow> 32 word" where
  "foe_Cmd p s = mem_rd32 p 8 s"

text \<open>The opcode dispatch: the result code that selects the reply, before anything is written
  into the datagram.\<close>

definition FOE_dispatch :: "('z foe_scheme) foe_ops \<Rightarrow> ptr \<Rightarrow> 'z foe_scheme \<Rightarrow> 16 word \<times> 'z foe_scheme" where
  "FOE_dispatch ops p s =
    (let dataSize = mbx_Length p s - of_nat FOE_HEADER_SIZE;
         data = (p, FOE_DATA_OFFSET);
         op = foe_OpCode p s in
     if op = ECAT_FOE_OPCODE_RRQ then
       (if u16FileAccessState s = FOE_READY
        then let (nextState, s) = FOE_Read ops data dataSize data (foe_Cmd p s) s;
                 s = s\<lparr>u32LastFileOffset := 0\<rparr> in
             if nextState \<le> FOE_MAXDATA
             then (nextState, s\<lparr>u32PacketNo := 1, u32FileOffset := ucast nextState\<rparr>)
             else if nextState \<le> FOE_MAXBUSY
             then (nextState, s\<lparr>u32PacketNo := 0, u32FileOffset := 0, u16FileAccessState := FOE_WAIT_FOR_ACK\<rparr>)
             else (nextState, s)
        else (ECAT_FOE_ERRCODE_ILLEGAL, s))
     else if op = ECAT_FOE_OPCODE_WRQ then
       (if u16FileAccessState s = FOE_READY
        then let (nextState, s) = FOE_Write ops data dataSize (foe_Cmd p s) s;
                 nextState = (if nextState = 0 then FOE_ACK_RES else nextState) in
             (nextState, s\<lparr>u32PacketNo := 0\<rparr>)
        else (ECAT_FOE_ERRCODE_ILLEGAL, s))
     else if op = ECAT_FOE_OPCODE_DATA then
       (if u16FileAccessState s = FOE_WAIT_FOR_DATA \<or> u16FileAccessState s = FOE_WAIT_FOR_LAST_DATA
        then if foe_Cmd p s = u32PacketNo s
             then let (nextState, s) = FOE_Data ops data dataSize s in
                  ((if nextState = 0 then FOE_ACK_RES else nextState), s)
             else (ECAT_FOE_ERRCODE_PACKENO, s)
        else (ECAT_FOE_ERRCODE_ILLEGAL, s))
     else if op = ECAT_FOE_OPCODE_ACK then
       (if u16FileAccessState s = FOE_WAIT_FOR_ACK
        then let (nextState, s) = FOE_Ack ops (u32FileOffset s) data s;
                 s = s\<lparr>u32LastFileOffset := u32FileOffset s\<rparr> in
             if nextState \<le> FOE_MAXDATA
             then (nextState, s\<lparr>u32FileOffset := u32FileOffset s + ucast nextState, u32PacketNo := u32PacketNo s + 1\<rparr>)
             else (nextState, s)
        else if u16FileAccessState s = FOE_WAIT_FOR_LAST_ACK then (FOE_FINISHED_NOACK, s)
        else (ECAT_FOE_ERRCODE_ILLEGAL, s))
     else if op = ECAT_FOE_OPCODE_ERR then
       (if u16FileAccessState s \<noteq> FOE_READY
        then (FOE_FINISHED, FOE_Error ops (foe_Cmd p s) s)
        else (ECAT_FOE_ERRCODE_ILLEGAL, s))
     else if op = ECAT_FOE_OPCODE_BUSY then
       (if u16FileAccessState s = FOE_WAIT_FOR_ACK \<or> u16FileAccessState s = FOE_WAIT_FOR_LAST_ACK
        then FOE_Busy ops (mem_rd16 p 8 s) (u32LastFileOffset s) data s
        else (ECAT_FOE_ERRCODE_ILLEGAL, s))
     else (ECAT_FOE_ERRCODE_ILLEGAL, s))"

text \<open>The loop that measures the error text: it reads the data as 16-bit values.\<close>

function foe_text_len :: "8 word list \<Rightarrow> nat \<Rightarrow> nat" where
  "foe_text_len bs b =
    (if b < 32
     then let data = get16 bs (FOE_DATA_OFFSET + 2 * (b div 2)) in
          if data AND 0x00FF = 0 then b
          else let b = b + 1 in
               if data AND 0xFF00 = 0 then b else foe_text_len bs (b + 1)
     else b)"
  by pat_completeness auto
termination by (relation "measure (\<lambda>(bs, b). 32 - b)") auto

declare foe_text_len.simps [simp del]

text \<open>Bytes of the block the loop looks at.\<close>

definition foe_text_reads :: "8 word list \<Rightarrow> nat" where
  "foe_text_reads bs = FOE_DATA_OFFSET + 2 * (min (foe_text_len bs 0) 31 div 2) + 2"

definition FOE_reply :: "16 word \<Rightarrow> ptr \<Rightarrow> 'z foe_scheme \<Rightarrow> bool \<times> 'z foe_scheme" where
  "FOE_reply nextState p s =
    (if nextState \<le> FOE_MAXDATA then
       let s = mem_wr16 p 6 ECAT_FOE_OPCODE_DATA s;
           s = mem_wr32 p 8 (u32PacketNo s) s;
           s = mem_wr16 p 0 (of_nat FOE_HEADER_SIZE + nextState) s in
       (True, if int (unat nextState) = int (unat (u16SendMbxSize s)) - int FOE_HEADER_SIZE - int MBX_HEADER_SIZE
              then s\<lparr>u16FileAccessState := FOE_WAIT_FOR_ACK\<rparr>
              else s\<lparr>u16FileAccessState := FOE_WAIT_FOR_LAST_ACK\<rparr>)
     else if nextState \<le> FOE_MAXBUSY then
       let s = mem_wr16 p 6 ECAT_FOE_OPCODE_BUSY s;
           s = mem_wr16 p 8 (nextState - FOE_MAXBUSY_ZERO) s;
           s = mem_wr16 p 10 0 s in
       (True, mem_wr16 p 0 (of_nat FOE_HEADER_SIZE) s)
     else if nextState = FOE_ACK_RES \<or> nextState = FOE_ACKFINISHED then
       let d = u32PacketNo s;
           s = s\<lparr>u32PacketNo := u32PacketNo s + 1\<rparr>;
           s = mem_wr16 p 6 ECAT_FOE_OPCODE_ACK s;
           s = mem_wr32 p 8 d s;
           s = mem_wr16 p 0 (of_nat FOE_HEADER_SIZE) s in
       (True, if nextState = FOE_ACK_RES then s\<lparr>u16FileAccessState := FOE_WAIT_FOR_DATA\<rparr>
              else s\<lparr>u16FileAccessState := FOE_READY\<rparr>)
     else if nextState < FOE_ERROR then
       (False, mem_free p (s\<lparr>u16FileAccessState := FOE_READY\<rparr>))
     else
       let s = mem_wr16 p 6 ECAT_FOE_OPCODE_ERR s;
           s = mem_wr32 p 8 (ucast nextState) s;
           s = mem_wr16 p 0 (of_nat FOE_HEADER_SIZE) s;
           s = mem_touch p (foe_text_reads (m_block p (mem s))) s;
           b = foe_text_len (m_block p (mem s)) 0;
           s = (if b < 32 then mem_wr16 p 0 (mbx_Length p s + of_nat (b + 1)) s else s) in
       (True, s\<lparr>u16FileAccessState := FOE_READY\<rparr>))"

definition FOE_send :: "ptr \<Rightarrow> 'z foe_scheme \<Rightarrow> 'z foe_scheme" where
  "FOE_send p s =
    (if bBootMode s then
       let s = mem_wr8 p 5 (mbx_Flags1 p s AND NOT 0xF0) s;
           s = (if u8MbxReadCounter s AND 0x07 = 0 then s\<lparr>u8MbxReadCounter := 1\<rparr> else s);
           s = mem_wr8 p 5 (mbx_Flags1 p s OR push_bit 4 (u8MbxReadCounter s)) s;
           s = s\<lparr>u8MbxReadCounter := u8MbxReadCounter s + 1\<rparr> in
       snd (MBX_CopyToSendMailbox p s)
     else
       let (r, s) = MBX_MailboxSendReq p FOE_SERVICE s in
       if r \<noteq> 0 then s\<lparr>pFoeSendStored := p\<rparr> else s)"

definition FOE_ServiceInd :: "('z foe_scheme) foe_ops \<Rightarrow> ptr \<Rightarrow> 'z foe_scheme \<Rightarrow> 8 word \<times> 'z foe_scheme" where
  "FOE_ServiceInd ops p s =
    (if unat (mbx_Length p s) < FOE_HEADER_SIZE then (MBXERR_SIZETOOSHORT, s)
     else
       let s = mem_touch p FOE_DATA_OFFSET s;
           (nextState, s) = FOE_dispatch ops p s;
           (answer, s) = FOE_reply nextState p s in
       if answer then (0, FOE_send p s) else (0, s))"

definition FOE_ContinueInd :: "ptr \<Rightarrow> 'z foe_scheme \<Rightarrow> 'z foe_scheme" where
  "FOE_ContinueInd pMbx s =
    (if pFoeSendStored s \<noteq> NULL
     then let (r, s) = MBX_MailboxSendReq (pFoeSendStored s) FOE_SERVICE s in
          if r = 0 then s\<lparr>pFoeSendStored := NULL\<rparr> else s
     else s)"

end
