(* ===== verification/FoeOwn.thy ===== *)
theory FoeOwn
  imports Foe
begin

text \<open>
  Buffers in file access: what the application may do to the datagram it is handed
  (\<open>foe_application\<close>), and that the server then keeps the ownership of mailbox buffers.
\<close>

unbundle bit_operations_syntax

section \<open>The contract of the application\<close>

definition foe_keep where
  "foe_keep s = (sMbxSendQueue s, sMbxReceiveQueue s, bSendMbxIsFull s, psReadMbx s,
     psRepeatMbx s, psStoreMbx s, u16SendMbxSize s, u16ReceiveMbxSize s, nAlStatus s, bBootMode s,
     bMbxRunning s, u16EscAddrSendMbx s, u16FoeMaxSendBlockSize s, esc_react s, pFoeSendStored s)"

definition foe_vars where
  "foe_vars s = (u32PacketNo s, u32FileOffset s, u32LastFileOffset s, u16FileAccessState s)"

text \<open>The application may change its own part of the state and the data of the datagram, from
  offset 12 on; headers, other blocks and the server's variables stay.\<close>

definition foe_app_frame :: "ptr \<Rightarrow> 'z foe_scheme \<Rightarrow> 'z foe_scheme \<Rightarrow> bool" where
  "foe_app_frame p s t = (foe_keep t = foe_keep s \<and> foe_vars t = foe_vars s
     \<and> (heap_ok (mem s) \<longrightarrow> heap_ok (mem t)) \<and> mem_fault (mem t) = mem_fault (mem s)
     \<and> (\<forall>q n. live (mem t) q n = live (mem s) q n)
     \<and> (\<forall>q. q \<noteq> p \<longrightarrow> m_block q (mem t) = m_block q (mem s))
     \<and> get_bytes (m_block p (mem t)) 0 FOE_DATA_OFFSET = get_bytes (m_block p (mem s)) 0 FOE_DATA_OFFSET)"

definition foe_room :: "ptr \<Rightarrow> 'z foe_scheme \<Rightarrow> bool" where
  "foe_room p s = (live (mem s) p (unat (u16ReceiveMbxSize s))
     \<and> unat (u16FoeMaxSendBlockSize s) + FOE_DATA_OFFSET = unat (u16SendMbxSize s)
     \<and> unat (u16SendMbxSize s) \<le> unat (u16ReceiveMbxSize s) \<and> 44 \<le> unat (u16SendMbxSize s))"

text \<open>The length field of the datagram stays inside the receive mailbox.  The stack itself does
  not check this: it compares the length with \<open>MAX_MBX_SIZE\<close> only.\<close>

definition foe_fits :: "ptr \<Rightarrow> 'z foe_scheme \<Rightarrow> bool" where
  "foe_fits p s = (unat (mbx_Length p s) + MBX_HEADER_SIZE \<le> unat (u16ReceiveMbxSize s))"

lemma foe_fits_data:
  assumes "foe_fits p s" "\<not> unat (mbx_Length p s) < FOE_HEADER_SIZE"
  shows "unat (mbx_Length p s - of_nat FOE_HEADER_SIZE) + FOE_DATA_OFFSET \<le> unat (u16ReceiveMbxSize s)"
proof -
  have "unat (mbx_Length p s - of_nat FOE_HEADER_SIZE) = unat (mbx_Length p s) - FOE_HEADER_SIZE"
    using assms(2) by (simp add: unat_sub word_le_nat_alt)
  then show ?thesis using assms by (simp add: foe_fits_def)
qed

locale foe_application =
  fixes ops :: "('z foe_scheme) foe_ops"
    and app_ok :: "'z foe_scheme \<Rightarrow> bool"
  assumes app_read: "pAPPL_FoeRead ops = Some f \<Longrightarrow> app_ok s \<Longrightarrow> foe_room p s
      \<Longrightarrow> unat n + FOE_DATA_OFFSET \<le> unat (u16ReceiveMbxSize s)
      \<Longrightarrow> f (p, 12) n pw (u16FoeMaxSendBlockSize s) (p, 12) s = (r, t)
      \<Longrightarrow> foe_app_frame p s t \<and> app_ok t \<and> (r \<le> FOE_MAXDATA \<longrightarrow> unat r \<le> unat (u16FoeMaxSendBlockSize s))"
    and app_read_data: "pAPPL_FoeReadData ops = Some g \<Longrightarrow> app_ok s \<Longrightarrow> foe_room p s
      \<Longrightarrow> g off (u16FoeMaxSendBlockSize s) (p, 12) s = (r, t)
      \<Longrightarrow> foe_app_frame p s t \<and> app_ok t \<and> (r \<le> FOE_MAXDATA \<longrightarrow> unat r \<le> unat (u16FoeMaxSendBlockSize s))"
    and app_write: "pAPPL_FoeWrite ops = Some f' \<Longrightarrow> app_ok s \<Longrightarrow> foe_room p s
      \<Longrightarrow> unat n + FOE_DATA_OFFSET \<le> unat (u16ReceiveMbxSize s)
      \<Longrightarrow> f' (p, 12) n pw s = (r, t) \<Longrightarrow> foe_app_frame p s t \<and> app_ok t \<and> (r = 0 \<or> FOE_MAXDATA < r)"
    and app_write_data: "pAPPL_FoeWriteData ops = Some g' \<Longrightarrow> app_ok s \<Longrightarrow> foe_room p s
      \<Longrightarrow> unat n + FOE_DATA_OFFSET \<le> unat (u16ReceiveMbxSize s)
      \<Longrightarrow> g' (p, 12) n fol s = (r, t) \<Longrightarrow> foe_app_frame p s t \<and> app_ok t \<and> (r = 0 \<or> FOE_MAXDATA < r)"
    and app_error: "pAPPL_FoeError ops = Some h \<Longrightarrow> app_ok s \<Longrightarrow> foe_app_frame p s (h c s) \<and> app_ok (h c s)"
    and app_more: "app_ok s \<Longrightarrow> foe.more t = foe.more s \<Longrightarrow> app_ok t"

section \<open>What the frame gives\<close>

lemma get16_prefix:
  assumes "get_bytes bs 0 12 = get_bytes cs 0 12" "off + 2 \<le> 12"
    "12 \<le> length bs" "12 \<le> length cs"
  shows "get16 bs off = get16 cs off"
proof -
  have "bs ! i = cs ! i" if "i < 12" for i
    using assms(1) that by (metis add_0 drop0 get_bytes_def nth_take)
  then show ?thesis using assms(2-4) by (simp add: get16_def byte_at_def)
qed

lemma frame_refl [simp]: "foe_app_frame p s s"
  by (simp add: foe_app_frame_def)

lemma frame_own:
  assumes own: "mbx_own s (p # P)" and fr: "foe_app_frame p s t"
  shows "mbx_own t (p # P)"
proof -
  have k: "sMbxSendQueue t = sMbxSendQueue s" "sMbxReceiveQueue t = sMbxReceiveQueue s"
    "bSendMbxIsFull t = bSendMbxIsFull s" "psReadMbx t = psReadMbx s" "psRepeatMbx t = psRepeatMbx s"
    "psStoreMbx t = psStoreMbx s" "u16SendMbxSize t = u16SendMbxSize s" "u16ReceiveMbxSize t = u16ReceiveMbxSize s"
    using fr by (simp_all add: foe_app_frame_def foe_keep_def)
  have l: "live (mem t) q n = live (mem s) q n" for q n using fr by (simp add: foe_app_frame_def)
  have snd: "mbx_sendable t q" if "mbx_sendable s q" "q \<noteq> p" for q
    using that fr l k by (simp add: mbx_sendable_def mbx_Length_def mem_rd16_def foe_app_frame_def)
  have sent: "mbx_sent t = mbx_sent s" by (simp add: mbx_sent_def k)
  have "mbx_sendable t q" if "q \<in> set (mbx_sent s @ mq_list (sMbxSendQueue s))" for q
  proof -
    have "q \<noteq> p" "mbx_sendable s q" using own that unfolding mbx_own_def by auto
    then show ?thesis using snd by blast
  qed
  then show ?thesis
    using own fr l unfolding mbx_own_def sent k by (auto simp: foe_app_frame_def)
qed

lemma frame_room: "foe_app_frame p s t \<Longrightarrow> foe_room p t = foe_room p s"
  by (simp add: foe_room_def foe_app_frame_def foe_keep_def)


section \<open>The dispatch\<close>

text \<open>What the dispatch may change: what the application may, and the server's variables.\<close>

definition foe_disp_frame :: "ptr \<Rightarrow> 'z foe_scheme \<Rightarrow> 'z foe_scheme \<Rightarrow> bool" where
  "foe_disp_frame p s t = (\<exists>u. foe_app_frame p s u \<and> mem t = mem u \<and> foe_keep t = foe_keep u \<and> foe.more t = foe.more u)"

lemma disp_own: "mbx_own s (p # P) \<Longrightarrow> foe_disp_frame p s t \<Longrightarrow> mbx_own t (p # P)"
proof -
  assume own: "mbx_own s (p # P)" and "foe_disp_frame p s t"
  then obtain u where u: "foe_app_frame p s u" "mem t = mem u" "foe_keep t = foe_keep u"
    by (auto simp: foe_disp_frame_def)
  show ?thesis
    by (rule own_view[OF _ frame_own[OF own u(1)]]) (use u in \<open>simp add: mbx_view_def foe_keep_def\<close>)
qed

lemma disp_keep: "foe_disp_frame p s t \<Longrightarrow> foe_keep t = foe_keep s"
  by (auto simp: foe_disp_frame_def foe_app_frame_def)

lemma disp_live: "foe_disp_frame p s t \<Longrightarrow> live (mem t) q n = live (mem s) q n"
  by (auto simp: foe_disp_frame_def foe_app_frame_def)

lemma disp_room: "foe_disp_frame p s t \<Longrightarrow> foe_room p t = foe_room p s"
  using disp_keep[of p s t] disp_live[of p s t] by (simp add: foe_room_def foe_keep_def)

context foe_application
begin

lemma dispatch_frame:
  assumes ok: "app_ok s" and room: "foe_room p s" and fit: "foe_fits p s"
    and size: "\<not> unat (mbx_Length p s) < FOE_HEADER_SIZE" and d: "FOE_dispatch ops p s = (n, t)"
  shows "foe_disp_frame p s t \<and> app_ok t \<and> (n \<le> FOE_MAXDATA \<longrightarrow> unat n \<le> unat (u16FoeMaxSendBlockSize s))"
proof -
  let ?k = "mbx_Length p s - of_nat FOE_HEADER_SIZE"
  note fd = foe_fits_data[OF fit size]
  have R: "FOE_Read ops (p, 12) ?k (p, 12) pw s = (r, u) \<Longrightarrow>
      foe_app_frame p s u \<and> app_ok u \<and> (r \<le> FOE_MAXDATA \<longrightarrow> unat r \<le> unat (u16FoeMaxSendBlockSize s))" for pw r u
    using app_read ok room fd by (auto simp: FOE_Read_def split: option.splits)
  have A: "FOE_Ack ops off (p, 12) s = (r, u) \<Longrightarrow>
      foe_app_frame p s u \<and> app_ok u \<and> (r \<le> FOE_MAXDATA \<longrightarrow> unat r \<le> unat (u16FoeMaxSendBlockSize s))" for off r u
    using app_read_data ok room by (auto simp: FOE_Ack_def split: option.splits)
  have W: "FOE_Write ops (p, 12) ?k pw s = (r, u) \<Longrightarrow> foe_app_frame p s u \<and> app_ok u \<and> (r = 0 \<or> FOE_MAXDATA < r)" for pw r u
    using app_write ok room fd by (auto simp: FOE_Write_def split: option.splits)
  have D: "FOE_Data ops (p, 12) ?k s = (r, u) \<Longrightarrow> foe_app_frame p s u \<and> app_ok u \<and> (r = 0 \<or> FOE_MAXDATA < r)" for r u
    using app_write_data ok room fd
    by (auto simp: FOE_Data_def Let_def split: option.splits prod.splits if_splits)
  have E: "foe_app_frame p s (FOE_Error ops c s) \<and> app_ok (FOE_Error ops c s)" for c
    using app_error ok by (auto simp: FOE_Error_def split: option.splits)
  have I1: "foe_disp_frame p s v"
    if "foe_app_frame p s u" "mem v = mem u" "foe_keep v = foe_keep u" "foe.more v = foe.more u" for u v
    using that unfolding foe_disp_frame_def by blast
  have I2: "app_ok v" if "app_ok u" "foe.more v = foe.more u" for u v
    using that app_more by blast
  have S: "foe_disp_frame p s s \<and> app_ok s" using I1[of s s] ok by simp
  let ?op = "foe_OpCode p s"
  consider (rrq) "?op = 1" | (wrq) "?op = 2" | (data) "?op = 3" | (ack) "?op = 4"
    | (err) "?op = 5" | (busy) "?op = 6" | (other) "?op \<notin> {1, 2, 3, 4, 5, 6}" by auto
  then show ?thesis
  proof cases
    case rrq
    show ?thesis
    proof (cases "FOE_Read ops (p, 12) (mbx_Length p s - of_nat 6) (p, 12) (foe_Cmd p s) s")
      case (Pair r u)
      note F = R[OF this]
      show ?thesis using d F S Pair rrq
        by (auto simp: FOE_dispatch_def Let_def foe_keep_def split: if_splits intro!: I1[of u] I2[of u])
    qed
  next
    case wrq
    show ?thesis
    proof (cases "FOE_Write ops (p, 12) (mbx_Length p s - of_nat 6) (foe_Cmd p s) s")
      case (Pair r u)
      note F = W[OF this]
      show ?thesis using d F S Pair wrq
        by (auto simp: FOE_dispatch_def Let_def foe_keep_def split: if_splits intro!: I1[of u] I2[of u])
    qed
  next
    case data
    show ?thesis
    proof (cases "FOE_Data ops (p, 12) (mbx_Length p s - of_nat 6) s")
      case (Pair r u)
      note F = D[OF this]
      show ?thesis using d F S Pair data
        by (auto simp: FOE_dispatch_def Let_def foe_keep_def split: if_splits intro!: I1[of u] I2[of u])
    qed
  next
    case ack
    show ?thesis
    proof (cases "FOE_Ack ops (u32FileOffset s) (p, 12) s")
      case (Pair r u)
      note F = A[OF this]
      show ?thesis using d F S Pair ack
        by (auto simp: FOE_dispatch_def Let_def foe_keep_def split: if_splits intro!: I1[of u] I2[of u])
    qed
  next
    case err
    show ?thesis using d S err I1[of "FOE_Error ops (foe_Cmd p s) s"] E
      by (auto simp: FOE_dispatch_def Let_def split: if_splits)
  next
    case busy
    show ?thesis
    proof (cases "FOE_Ack ops (u32LastFileOffset s) (p, 12) s")
      case (Pair r u)
      note F = A[OF this]
      show ?thesis using d F S Pair busy
        by (auto simp: FOE_dispatch_def FOE_Busy_def Let_def foe_keep_def split: if_splits intro!: I1[of u] I2[of u])
    qed
  next
    case other
    then show ?thesis using d S by (auto simp: FOE_dispatch_def Let_def split: if_splits)
  qed
qed

end

section \<open>The reply\<close>

lemma keep_wr [simp]:
  "foe_keep (mem_wr8 p off b s) = foe_keep s" "foe_keep (mem_wr16 p off w s) = foe_keep s"
  "foe_keep (mem_wr32 p off d s) = foe_keep s" "foe_keep (mem_touch p k s) = foe_keep s"
  "foe_keep (mem_free p s) = foe_keep s"
  "foe_keep (s\<lparr>u16FileAccessState := x\<rparr>) = foe_keep s" "foe_keep (s\<lparr>u32PacketNo := y\<rparr>) = foe_keep s"
  by (simp_all add: foe_keep_def mem_access mem_ops)

lemma more_wr [simp]:
  "foe.more (mem_wr8 p off b s) = foe.more s" "foe.more (mem_wr16 p off w s) = foe.more s"
  "foe.more (mem_wr32 p off d s) = foe.more s" "foe.more (mem_touch p k s) = foe.more s"
  "foe.more (mem_free p s) = foe.more s"
  by (simp_all add: mem_access mem_ops)

lemma wr_fields [simp]:
  "u32PacketNo (mem_wr16 p off w s) = u32PacketNo s" "u32PacketNo (mem_wr32 p off d s) = u32PacketNo s"
  "u16SendMbxSize (mem_wr16 p off w s) = u16SendMbxSize s" "u16SendMbxSize (mem_wr32 p off d s) = u16SendMbxSize s"
  by (simp_all add: mem_access mem_ops)

lemma own_foe_fields [simp]:
  "mbx_own (s\<lparr>u16FileAccessState := x\<rparr>) P = mbx_own s P"
  "mbx_own (s\<lparr>u32PacketNo := y\<rparr>) P = mbx_own s P"
  "mbx_own (s\<lparr>pFoeSendStored := q\<rparr>) P = mbx_own s P"
  "mbx_sendable (s\<lparr>u16FileAccessState := x\<rparr>) p = mbx_sendable s p"
  "mbx_sendable (s\<lparr>pFoeSendStored := q\<rparr>) p = mbx_sendable s p"
  by (simp_all add: mbx_own_def mbx_sent_def mbx_sendable_def mbx_Length_def mem_rd16_def)

lemma foe_text_reads_le: "foe_text_reads bs \<le> 44"
  by (simp add: foe_text_reads_def)

lemma sendable_intro:
  "foe_room p s \<Longrightarrow> foe_keep t = foe_keep s \<Longrightarrow> live (mem t) p (unat (u16ReceiveMbxSize s)) \<Longrightarrow>
     unat (mbx_Length p t) + 6 \<le> unat (u16SendMbxSize s) \<Longrightarrow> mbx_sendable t p"
  by (auto simp: mbx_sendable_def foe_room_def foe_keep_def elim!: live_mono)

lemma reply_own:
  assumes own: "mbx_own s (p # P)" and room: "foe_room p s"
    and n: "n \<le> FOE_MAXDATA \<longrightarrow> unat n \<le> unat (u16FoeMaxSendBlockSize s)"
    and r: "FOE_reply n p s = (ans, t)"
  shows "foe_keep t = foe_keep s \<and> foe.more t = foe.more s
    \<and> (if ans then mbx_own t (p # P) \<and> mbx_sendable t p else mbx_own t P)"
proof -
  have l: "live (mem s) p 44" and lr: "live (mem s) p (unat (u16ReceiveMbxSize s))"
    using room by (auto simp: foe_room_def elim!: live_mono)
  have l2: "live (mem s) p 2" using l live_mono by fastforce
  have sz: "44 \<le> unat (u16SendMbxSize s)" using room by (simp add: foe_room_def)
  note w = own_wr(2,3)[where k = 44]
  have datalen: "unat (6 + n) + 6 \<le> unat (u16SendMbxSize s)" if "n \<le> FOE_MAXDATA"
  proof -
    have "unat n + 12 \<le> unat (u16SendMbxSize s)" using n that room by (auto simp: foe_room_def)
    then have "unat (6 + n) = 6 + unat n"
      using unat_word16_less[of "u16SendMbxSize s"] by (simp add: unat_word_ariths)
    then show ?thesis using \<open>unat n + 12 \<le> _\<close> by simp
  qed
  have errtext: "unat (6 + of_nat (b + 1) :: 16 word) + 6 \<le> unat (u16SendMbxSize s)" if "b < 32" for b
  proof -
    have e: "(6 + of_nat (b + 1) :: 16 word) = of_nat (7 + b)" by simp
    have "unat (of_nat (7 + b) :: 16 word) = 7 + b" by (rule unat_of_nat_small16) (use that in simp)
    then have "unat (6 + of_nat (b + 1) :: 16 word) = 7 + b" by (simp only: e)
    then show ?thesis using that sz by simp
  qed
  have t44: "mem_touch p (foe_text_reads bs) u = u" if "live (mem u) p 44" for bs and u :: "'a foe_scheme"
    by (rule mem_touch_live) (rule live_mono[OF that foe_text_reads_le])
  note si = sendable_intro[OF room]
  consider (data) "n \<le> FOE_MAXDATA" | (busy) "\<not> n \<le> FOE_MAXDATA" "n \<le> FOE_MAXBUSY"
    | (ack) "\<not> n \<le> FOE_MAXDATA" "\<not> n \<le> FOE_MAXBUSY" "n = FOE_ACK_RES \<or> n = FOE_ACKFINISHED"
    | (fin) "\<not> n \<le> FOE_MAXDATA" "\<not> n \<le> FOE_MAXBUSY" "n \<noteq> FOE_ACK_RES" "n \<noteq> FOE_ACKFINISHED" "n < FOE_ERROR"
    | (err) "\<not> n \<le> FOE_MAXDATA" "\<not> n \<le> FOE_MAXBUSY" "n \<noteq> FOE_ACK_RES" "n \<noteq> FOE_ACKFINISHED" "\<not> n < FOE_ERROR"
    by blast
  then show ?thesis
  proof cases
    case data
    let ?t = "mem_wr16 p 0 (6 + n) (mem_wr32 p 8 (u32PacketNo s) (mem_wr16 p 6 ECAT_FOE_OPCODE_DATA s))"
    have o: "mbx_own ?t (p # P)" using own l by (intro w) simp_all
    have "mbx_sendable ?t p" using lr l2 datalen[OF data] by (intro si) simp_all
    moreover have "ans" "t = (if int (unat n) = int (unat (u16SendMbxSize s)) - int FOE_HEADER_SIZE - int MBX_HEADER_SIZE
        then ?t\<lparr>u16FileAccessState := FOE_WAIT_FOR_ACK\<rparr> else ?t\<lparr>u16FileAccessState := FOE_WAIT_FOR_LAST_ACK\<rparr>)"
      using r data by (auto simp: FOE_reply_def Let_def)
    ultimately show ?thesis using o by simp
  next
    case busy
    let ?t = "mem_wr16 p 0 6 (mem_wr16 p 10 0 (mem_wr16 p 8 (n - FOE_MAXBUSY_ZERO) (mem_wr16 p 6 ECAT_FOE_OPCODE_BUSY s)))"
    have o: "mbx_own ?t (p # P)" using own l by (intro w) simp_all
    have "mbx_sendable ?t p" using lr l2 sz by (intro si) simp_all
    with o show ?thesis using r busy by (auto simp: FOE_reply_def Let_def)
  next
    case ack
    let ?t = "mem_wr16 p 0 6 (mem_wr32 p 8 (u32PacketNo s)
      (mem_wr16 p 6 ECAT_FOE_OPCODE_ACK (s\<lparr>u32PacketNo := u32PacketNo s + 1\<rparr>)))"
    have o: "mbx_own ?t (p # P)" using own l by (intro w) simp_all
    have "mbx_sendable ?t p" using lr l2 sz by (intro si) simp_all
    moreover have "ans" "t = (if n = FOE_ACK_RES then ?t\<lparr>u16FileAccessState := FOE_WAIT_FOR_DATA\<rparr>
        else ?t\<lparr>u16FileAccessState := FOE_READY\<rparr>)"
      using r ack by (simp_all add: FOE_reply_def Let_def)
    ultimately show ?thesis using o by simp
  next
    case fin
    then show ?thesis using r own_free[of "s\<lparr>u16FileAccessState := FOE_READY\<rparr>" p P] own
      by (auto simp: FOE_reply_def)
  next
    case err
    let ?t = "mem_wr16 p 0 6 (mem_wr32 p 8 (ucast n) (mem_wr16 p 6 ECAT_FOE_OPCODE_ERR s))"
    let ?b = "foe_text_len (m_block p (mem ?t)) 0"
    let ?u = "if ?b < 32 then mem_wr16 p 0 (6 + of_nat (?b + 1)) ?t else ?t"
    have o: "mbx_own ?t (p # P)" using own l by (intro w) simp_all
    then have o': "mbx_own ?u (p # P)" using l by (auto intro: w)
    have "mbx_sendable ?t p" using lr l2 sz by (intro si) simp_all
    moreover have "mbx_sendable (mem_wr16 p 0 (6 + of_nat (?b + 1)) ?t) p" if "?b < 32"
      using lr l2 errtext[OF that] by (intro si) simp_all
    ultimately have s': "mbx_sendable ?u p" by simp
    have len: "mbx_Length p ?t = 6" using l2 by simp
    have t: "t = ?u\<lparr>u16FileAccessState := FOE_READY\<rparr>" "ans"
      using r err t44[of ?t] l len by (simp_all add: FOE_reply_def Let_def cong: if_cong)
    have "foe_keep ?u = foe_keep s" "foe.more ?u = foe.more s" by simp_all
    then show ?thesis unfolding t(1) using t(2) o' s' by simp
  qed
qed

section \<open>Sending the reply\<close>

definition foe_stored :: "'z foe_scheme \<Rightarrow> ptr list" where
  "foe_stored s = (if pFoeSendStored s = NULL then [] else [pFoeSendStored s])"

text \<open>The mailbox buffers and the reply the server keeps back.\<close>

definition foe_own :: "'z foe_scheme \<Rightarrow> ptr list \<Rightarrow> bool" where
  "foe_own s P = (mbx_own s (foe_stored s @ P)
     \<and> (pFoeSendStored s \<noteq> NULL \<longrightarrow> mbx_sendable s (pFoeSendStored s)))"

text \<open>A counter stamp in boot mode is the one of \<open>MBX_MailboxSendReq\<close>.\<close>

lemma FOE_send_boot:
  "FOE_send p s = (if bBootMode s
     then snd (MBX_CopyToSendMailbox p ((sendreq_stamp p s)\<lparr>u8MbxReadCounter := u8MbxReadCounter (sendreq_stamp p s) + 1\<rparr>))
     else (let (r, s) = MBX_MailboxSendReq p FOE_SERVICE s in if r \<noteq> 0 then s\<lparr>pFoeSendStored := p\<rparr> else s))"
  by (simp add: FOE_send_def sendreq_stamp_def Let_def)

lemma CopyToSend_own:
  assumes own: "mbx_own s (p # P)" and snd: "mbx_sendable s p" and chip: "mbx_chip_ok s"
    and c: "MBX_CopyToSendMailbox p s = (r, t)"
  shows "if r = 0 then mbx_own t P else t = s"
proof (cases "mbx_open s \<and> \<not> bSendMbxIsFull s")
  case True
  then obtain e w where
    "MBX_CopyToSendMailbox p s = (0, s\<lparr>esc := e, psWriteMbx := w, psReadMbx := p, bSendMbxIsFull := True\<rparr>)"
    using CopyToSend_ok snd chip by blast
  then show ?thesis using c own_copied[OF own _ snd] True by auto
next
  case False
  then show ?thesis using CopyToSend_fail[of s p] c by auto
qed

text \<open>What sending does not touch.\<close>

lemma trigger_keeps:
  "pFoeSendStored (mbx_trigger p n s) = pFoeSendStored s" "foe.more (mbx_trigger p n s) = foe.more s"
  by (simp_all add: mbx_trigger_def Let_def hw_ops mem_ops)

lemma CopyToSend_keeps:
  "MBX_CopyToSendMailbox p s = (r, t) \<Longrightarrow> pFoeSendStored t = pFoeSendStored s \<and> foe.more t = foe.more s"
proof -
  have "pFoeSendStored (snd (MBX_CopyToSendMailbox p s)) = pFoeSendStored s
    \<and> foe.more (snd (MBX_CopyToSendMailbox p s)) = foe.more s"
    by (simp add: MBX_CopyToSendMailbox_def Let_def hw_ops mem_ops trigger_keeps)
  then show "MBX_CopyToSendMailbox p s = (r, t) \<Longrightarrow> ?thesis" by simp
qed
lemma stamp_keeps:
  "pFoeSendStored (sendreq_stamp p s) = pFoeSendStored s" "foe.more (sendreq_stamp p s) = foe.more s"
  by (simp_all add: sendreq_stamp_def Let_def mem_access mem_ops)

lemma SendReq_keeps:
  assumes "MBX_MailboxSendReq p fl s = (r, t)"
  shows "pFoeSendStored t = pFoeSendStored s \<and> foe.more t = foe.more s"
proof (cases "MBX_CopyToSendMailbox p (sendreq_stamp p s)")
  case (Pair c u)
  have "pFoeSendStored u = pFoeSendStored s \<and> foe.more u = foe.more s"
    using CopyToSend_keeps[OF Pair] by (simp add: stamp_keeps)
  moreover obtain pr q where "PutInMbxQueue p (sMbxSendQueue u) = (pr, q)" by force
  ultimately have "pFoeSendStored (snd (MBX_MailboxSendReq p fl s)) = pFoeSendStored s
      \<and> foe.more (snd (MBX_MailboxSendReq p fl s)) = foe.more s"
    using Pair by (simp add: sendreq_split Let_def)
  then show ?thesis using assms by simp
qed

lemma FOE_send_own:
  assumes own: "mbx_own s (p # foe_stored s @ P)" and snd: "mbx_sendable s p" and chip: "mbx_chip_ok s"
  shows "mbx_own (FOE_send p s) (foe_stored (FOE_send p s) @ P) \<and> foe.more (FOE_send p s) = foe.more s"
proof (cases "bBootMode s")
  case True
  let ?t = "(sendreq_stamp p s)\<lparr>u8MbxReadCounter := u8MbxReadCounter (sendreq_stamp p s) + 1\<rparr>"
  note so = stamp_own[OF own snd]
  obtain c u where c: "MBX_CopyToSendMailbox p ?t = (c, u)" by force
  have "mbx_own ?t (p # foe_stored s @ P)" "mbx_sendable ?t p" using so by simp_all
  moreover have "mbx_chip_ok ?t"
    using chip by (simp add: mbx_chip_ok_def chip_marks_full_def sendreq_stamp_def Let_def mem_access mem_ops)
  ultimately have "if c = 0 then mbx_own u (foe_stored s @ P) else u = ?t"
    using CopyToSend_own[OF _ _ _ c] by blast
  moreover have "mbx_own ?t (foe_stored s @ P)"
    using own_drop[of ?t "[]" "[p]"] \<open>mbx_own ?t (p # foe_stored s @ P)\<close> by simp
  moreover have "pFoeSendStored u = pFoeSendStored s" "foe.more u = foe.more s"
    using CopyToSend_keeps[OF c] by (simp_all add: stamp_keeps)
  ultimately show ?thesis using True c by (auto simp: FOE_send_boot foe_stored_def split: if_splits)
next
  case False
  obtain r u where r: "MBX_MailboxSendReq p FOE_SERVICE s = (r, u)" by force
  note k = SendReq_keeps[OF r]
  have o: "if r = 0 then mbx_own u (foe_stored s @ P) else mbx_own u (p # foe_stored s @ P)"
    using SendReq_own[OF own snd chip r] .
  show ?thesis
  proof (cases "r = 0")
    case True
    then show ?thesis using False r o k by (auto simp: FOE_send_boot foe_stored_def split: if_splits)
  next
    case ne: False
    have "mbx_own u ([p] @ P)" using own_drop[of u "[p]" "foe_stored s" P] o ne by simp
    moreover have "p \<noteq> NULL" using own by (auto simp: mbx_own_def)
    ultimately show ?thesis using False r ne k by (simp add: FOE_send_boot foe_stored_def)
  qed
qed

context foe_application
begin

lemma ServiceInd_own:
  assumes own: "foe_own s (p # P)" and ok: "app_ok s" and room: "foe_room p s" and chip: "mbx_chip_ok s"
    and fit: "foe_fits p s" and r: "FOE_ServiceInd ops p s = (r, t)"
  shows "if r = 0 then mbx_own t (foe_stored t @ P) \<and> app_ok t else t = s"
proof (cases "unat (mbx_Length p s) < FOE_HEADER_SIZE")
  case True
  then show ?thesis using r by (auto simp: FOE_ServiceInd_def)
next
  case False
  have l: "live (mem s) p 12" using room by (auto simp: foe_room_def elim!: live_mono)
  obtain n u where d: "FOE_dispatch ops p s = (n, u)" by force
  obtain ans v where rp: "FOE_reply n p u = (ans, v)" by force
  note df = dispatch_frame[OF ok room fit False d]
  have own': "mbx_own s (p # foe_stored s @ P)"
    using own by (auto simp: foe_own_def mbx_own_def)
  have "foe_stored u = foe_stored s" using disp_keep df by (fastforce simp: foe_keep_def foe_stored_def)
  then have ou: "mbx_own u (p # foe_stored u @ P)" using disp_own[OF own'] df by simp
  have ru: "foe_room p u" using disp_room df room by blast
  have nu: "n \<le> FOE_MAXDATA \<longrightarrow> unat n \<le> unat (u16FoeMaxSendBlockSize u)"
    using df disp_keep[of p s u] by (auto simp: foe_keep_def)
  note ro = reply_own[OF ou ru nu rp]
  have "foe_stored v = foe_stored u" using ro by (simp add: foe_keep_def foe_stored_def)
  have tk: "FOE_ServiceInd ops p s = (if ans then (0, FOE_send p v) else (0, v))"
    using False l d rp by (simp add: FOE_ServiceInd_def Let_def)
  show ?thesis
  proof (cases ans)
    case True
    have ov: "mbx_own v (p # foe_stored v @ P)" "mbx_sendable v p"
      using ro True \<open>foe_stored v = foe_stored u\<close> by simp_all
    have cv: "mbx_chip_ok v"
      using chip ro disp_keep[of p s u] df by (simp add: mbx_chip_ok_def chip_marks_full_def foe_keep_def)
    have "app_ok v" using app_more[of u v] df ro by simp
    then show ?thesis
      using FOE_send_own[OF ov cv] tk r True app_more[of v t] by auto
  next
    case no: False
    then have "t = v" "r = 0" using tk r by simp_all
    then show ?thesis using ro no \<open>foe_stored v = foe_stored u\<close> app_more[of u v] df by simp
  qed
qed

end

end
