(* ===== verification/MailboxMain.thy ===== *)
theory MailboxMain
  imports FoeOwn
begin

text \<open>
  The receiving half of \<open>mailbox.c\<close>: taking a datagram out of the receive mailbox
  (\<open>MBX_CheckAndCopyMailbox\<close>, \<open>MBX_MailboxWriteInd\<close>), dispatching it to a service
  (\<open>MailboxServiceInd\<close>), the cyclic \<open>MBX_Main\<close>, the event that the master has read the send
  mailbox (\<open>MBX_MailboxReadInd\<close>) and \<open>MBX_StopMailboxHandler\<close>.

  File access is the model of \<open>ecatfoe.c\<close>.  The CANopen service of \<open>ecatcoe.c\<close> and
  \<open>sdoserv.c\<close> is reached through three functions, the fields of \<open>coe_service\<close>.
\<close>

unbundle bit_operations_syntax

record 's coe_service =
  COE_ServiceInd :: "ptr \<Rightarrow> 's \<Rightarrow> 8 word \<times> 's"
  COE_ContinueInd :: "ptr \<Rightarrow> 's \<Rightarrow> 8 word \<times> 's"
  SDOS_ClearPendingResponse :: "'s \<Rightarrow> 's"

definition MailboxServiceInd :: "('z foe_scheme) coe_service \<Rightarrow> ('z foe_scheme) foe_ops \<Rightarrow> ptr
    \<Rightarrow> 'z foe_scheme \<Rightarrow> 8 word \<times> 'z foe_scheme" where
  "MailboxServiceInd coe ops pMbx s =
    (let s = mem_touch pMbx MBX_HEADER_SIZE s; ty = mbx_type pMbx s in
     if bBootMode s \<and> MBX_TYPE_FOE \<noteq> ty then (MBXERR_UNSUPPORTEDPROTOCOL, s)
     else if ty = MBX_TYPE_COE then COE_ServiceInd coe pMbx s
     else if ty = MBX_TYPE_FOE then FOE_ServiceInd ops pMbx s
     else (MBXERR_UNSUPPORTEDPROTOCOL, s))"

definition MBX_MailboxWriteInd :: "ptr \<Rightarrow> 'z mbx_scheme \<Rightarrow> 'z mbx_scheme" where
  "MBX_MailboxWriteInd pMbx s =
    (let s = mem_touch pMbx MBX_HEADER_SIZE s;
         mbxCounter = mbx_counter pMbx s;
         MbxLen = mbx_Length pMbx s in
     if unat MbxLen > MAX_MBX_SIZE
     then snd (MBX_MailboxSendReq pMbx 0 (mbx_error_response pMbx MBXERR_INVALIDSIZE s))
     else if mbxCounter = 0 \<or> mbxCounter \<noteq> u8MbxWriteCounter s
     then let s = s\<lparr>u8MbxWriteCounter := mbxCounter\<rparr>;
              (result, q) = PutInMbxQueue pMbx (sMbxReceiveQueue s);
              s = s\<lparr>sMbxReceiveQueue := q\<rparr> in
          if result \<noteq> 0
          then snd (MBX_MailboxSendReq pMbx 0 (mbx_error_response pMbx result s))
          else s
     else mem_free pMbx s)"

definition MBX_MailboxReadInd :: "('z foe_scheme) coe_service \<Rightarrow> 'z foe_scheme \<Rightarrow> 'z foe_scheme" where
  "MBX_MailboxReadInd coe s =
    (let s = s\<lparr>bSendMbxIsFull := False\<rparr>;
         s = (if psRepeatMbx s \<noteq> NULL \<and> psStoreMbx s = NULL
              then if psReadMbx s \<noteq> psRepeatMbx s
                   then (mem_free (psRepeatMbx s) s)\<lparr>psRepeatMbx := NULL\<rparr> else s
              else s);
         s = s\<lparr>psRepeatMbx := psReadMbx s\<rparr>;
         s = (if psStoreMbx s \<noteq> NULL
              then let (_, s) = MBX_CopyToSendMailbox (psStoreMbx s) s in s\<lparr>psStoreMbx := NULL\<rparr>
              else let (pMbx, q) = GetOutOfMbxQueue (sMbxSendQueue s);
                       s = s\<lparr>sMbxSendQueue := q\<rparr> in
                   if pMbx \<noteq> NULL then snd (MBX_CopyToSendMailbox pMbx s) else s) in
     if u8MailboxSendReqStored s \<noteq> 0
     then if u8MailboxSendReqStored s AND COE_SERVICE \<noteq> 0
          then let s = s\<lparr>u8MailboxSendReqStored := u8MailboxSendReqStored s AND NOT COE_SERVICE\<rparr>;
                   (result, s) = COE_ContinueInd coe (psWriteMbx s) s in
               if result \<noteq> 0
               then s\<lparr>u8MailboxSendReqStored := u8MailboxSendReqStored s OR COE_SERVICE\<rparr> else s
          else if u8MailboxSendReqStored s AND FOE_SERVICE \<noteq> 0
          then let s = s\<lparr>u8MailboxSendReqStored := u8MailboxSendReqStored s AND NOT FOE_SERVICE\<rparr> in
               FOE_ContinueInd (psWriteMbx s) s
          else s
     else s)"

definition mbx_no_memory_reply :: "'z mbx_scheme \<Rightarrow> 'z mbx_scheme" where
  "mbx_no_memory_reply s =
    (let (pMbx, s) = mem_malloc 10 s in
     if pMbx \<noteq> NULL
     then let s = mem_write pMbx 0 (replicate 10 0) s;
              s = mbx_error_response pMbx MBXERR_NOMOREMEMORY s;
              (_, s) = MBX_MailboxSendReq pMbx 0 s in
          mem_free pMbx s
     else s)"

definition MBX_CheckAndCopyMailbox :: "'z mbx_scheme \<Rightarrow> 'z mbx_scheme" where
  "MBX_CheckAndCopyMailbox s =
    (let (tmpValue, s) = HW_EscReadDWord (unat (u16EscAddrReceiveMbx s)) s;
         mbxLen = ucast (tmpValue AND 0x0000FFFF) :: 16 word;
         s = (if bNoMbxMemoryAvailable s then mbx_no_memory_reply s else s);
         mbxLen = mbxLen + of_nat MBX_HEADER_SIZE in
     if bSendMbxIsFull s \<or> u8MailboxSendReqStored s \<noteq> 0
     then s\<lparr>bReceiveMbxIsLocked := True\<rparr>
     else
       let s = s\<lparr>bReceiveMbxIsLocked := False\<rparr>;
           mbxLen = (if mbxLen > u16ReceiveMbxSize s then u16ReceiveMbxSize s else mbxLen);
           (p, s) = mem_malloc (unat (u16ReceiveMbxSize s)) s;
           s = s\<lparr>psWriteMbx := p\<rparr> in
       if psWriteMbx s = NULL then s\<lparr>bReceiveMbxIsLocked := True\<rparr>
       else
         let (bs, s) = HW_EscRead (unat (u16EscAddrReceiveMbx s)) (unat mbxLen) s;
             s = mem_write (psWriteMbx s) 0 bs s;
             (smstate, s) = HW_EscReadDWord ESC_SYNCMAN_CONTROL_OFFSET s;
             s = (if smstate AND SM_STATUS_MBX_BUFFER_FULL \<noteq> 0
                  then snd (HW_EscReadDWord (unat (u16EscAddrReceiveMbx s + u16ReceiveMbxSize s - 4)) s)
                  else s) in
         MBX_MailboxWriteInd (psWriteMbx s) s)"

text \<open>The service loop of \<open>MBX_Main\<close>.  A queue of \<open>MAX_MBX_QUEUE_SIZE - 1\<close> datagrams is empty
  after as many rounds: each takes one datagram, and only the interrupt puts new ones in.\<close>

fun MBX_Main_loop :: "('z foe_scheme) coe_service \<Rightarrow> ('z foe_scheme) foe_ops \<Rightarrow> nat
    \<Rightarrow> 'z foe_scheme \<Rightarrow> 'z foe_scheme" where
  "MBX_Main_loop coe ops 0 s = s"
| "MBX_Main_loop coe ops (Suc n) s =
    (let (pMbx, q) = GetOutOfMbxQueue (sMbxReceiveQueue s);
         s = s\<lparr>sMbxReceiveQueue := q\<rparr> in
     if pMbx = NULL then s
     else let (result, s) = MailboxServiceInd coe ops pMbx s;
              s = (if result \<noteq> 0
                   then snd (MBX_MailboxSendReq pMbx 0 (mbx_error_response pMbx result s)) else s) in
          MBX_Main_loop coe ops n s)"

definition MBX_Main :: "('z foe_scheme) coe_service \<Rightarrow> ('z foe_scheme) foe_ops \<Rightarrow> 'z foe_scheme \<Rightarrow> 'z foe_scheme" where
  "MBX_Main coe ops s =
    (let s = MBX_Main_loop coe ops MAX_MBX_QUEUE_SIZE s in
     if bReceiveMbxIsLocked s then MBX_CheckAndCopyMailbox s else s)"

text \<open>Emptying a queue and freeing what was in it.\<close>

fun free_all :: "ptr list \<Rightarrow> memory \<Rightarrow> memory" where
  "free_all [] m = m"
| "free_all (p # ps) m = free_all ps (m_free p m)"

definition mbx_flush :: "mbxqueue \<Rightarrow> memory \<Rightarrow> mbxqueue \<times> memory" where
  "mbx_flush q m = (let (ps, q') = fifo_drain mq_get MAX_MBX_QUEUE_SIZE q in (q', free_all ps m))"

definition MBX_StopMailboxHandler :: "('z foe_scheme) coe_service \<Rightarrow> 'z foe_scheme \<Rightarrow> 'z foe_scheme" where
  "MBX_StopMailboxHandler coe s =
    (let s = s\<lparr>bMbxRunning := False\<rparr>;
         s = DisableSyncManChannel MAILBOX_WRITE s;
         s = DisableSyncManChannel MAILBOX_READ s;
         s = (if psRepeatMbx s \<noteq> NULL then mem_free (psRepeatMbx s) s else s);
         s = (if psStoreMbx s \<noteq> NULL \<and> psStoreMbx s \<noteq> psRepeatMbx s then mem_free (psStoreMbx s) s else s);
         s = (if psReadMbx s \<noteq> NULL \<and> psReadMbx s \<noteq> psRepeatMbx s \<and> psReadMbx s \<noteq> psStoreMbx s
              then mem_free (psReadMbx s) s else s);
         s = SDOS_ClearPendingResponse coe s;
         s = FOE_Init s;
         s = s\<lparr>psWriteMbx := NULL, psRepeatMbx := NULL, psReadMbx := NULL, psStoreMbx := NULL,
               bMbxRepeatToggle := False\<rparr>;
         s = sm1_clear_repeat_ack s;
         s = s\<lparr>bSendMbxIsFull := False, bReceiveMbxIsLocked := False, u8MailboxSendReqStored := 0,
               u8MbxWriteCounter := 0, u8MbxReadCounter := 0\<rparr>;
         (q, m) = mbx_flush (sMbxReceiveQueue s) (mem s);
         s = s\<lparr>sMbxReceiveQueue := q, mem := m\<rparr>;
         (q, m) = mbx_flush (sMbxSendQueue s) (mem s) in
     s\<lparr>sMbxSendQueue := q, mem := m\<rparr>)"

end
