(* ===== verification/Esm.thy ===== *)
theory Esm
  imports MailboxMain
begin

text \<open>
  State, constants and the SyncManager checks of the EtherCAT state machine
  (\<open>ecatslv.c\<close>): \<open>CheckSmSettings\<close>, the AL event mask, the AL status register and its LEDs.
  The handlers started and stopped by state transitions are in \<open>EsmHandlers\<close>, the
  transitions themselves in \<open>EsmControl\<close>.
\<close>

unbundle bit_operations_syntax

record syncmanpar =
  u16SyncType :: "16 word"
  u32CycleTime :: "32 word"
  u16SyncTypesSupported :: "16 word"
  u32MinCycleTime :: "32 word"
  u32CalcAndCopyTime :: "32 word"
  u16GetCycleTime :: "16 word"
  u32DelayTime :: "32 word"
  u32Sync0CycleTime :: "32 word"
  u16SmEventMissedCounter :: "16 word"
  u16CycleExceededCounter :: "16 word"
  u8SyncError :: "8 word"

text \<open>Distributed-clock and watchdog variables.  \<open>div_by_zero\<close> is not a variable of the code:
  it records that a division by zero, undefined in C, has been executed.\<close>

record dcsync = foe +
  EcatWdValue :: "16 word"
  Sync0WdCounter :: "16 word"
  Sync0WdValue :: "16 word"
  Sync1WdCounter :: "16 word"
  Sync1WdValue :: "16 word"
  bDcSyncActive :: bool
  bDcRunning :: bool
  bSmSyncSequenceValid :: bool
  bWdTrigger :: bool
  b3BufferMode :: bool
  bEscIntEnabled :: bool
  bSyncSetByUser :: bool
  i16WaitForPllRunningTimeout :: "16 word"
  i16WaitForPllRunningCnt :: "16 word"
  LatchInputSync0Value :: "16 word"
  LatchInputSync0Counter :: "16 word"
  u16SmSync0Value :: "16 word"
  u16SmSync0Counter :: "16 word"
  sSyncManOutPar :: syncmanpar
  sSyncManInPar :: syncmanpar
  syncFailedCounter :: "16 word"
  u16SyncErrorCounterLimit :: "16 word"
  div_by_zero :: bool

text \<open>The state machine itself.\<close>

record esm = dcsync +
  bEcatWaitForAlControlRes :: bool
  bApplEsmPending :: bool
  bEcatFirstOutputsReceived :: bool
  bEcatOutputUpdateRunning :: bool
  bEcatInputUpdateRunning :: bool
  bExplicitDevIdRequested :: bool
  EepromLoaded :: bool
  nEcatStateTrans :: "16 word"
  EsmTimeoutCounter :: "16 word"
  u8LocalErrorState :: "8 word"
  u16LocalErrorCode :: "16 word"
  u16ALEventMask :: "16 word"
  u16IdValue :: "16 word"
  nPdInputSize :: "16 word"
  nPdOutputSize :: "16 word"
  nEscAddrInputData :: "16 word"
  nEscAddrOutputData :: "16 word"
  nMaxSyncMan :: "8 word"
  nMaxEscAddress :: "16 word"
  u8EcatErrorLed :: "8 word"
  u8EcatRunLed :: "8 word"
  SMActivate :: "32 word"

section \<open>Constants\<close>

abbreviation MAX_PD_INPUT_SIZE :: nat where "MAX_PD_INPUT_SIZE \<equiv> 0x30"
abbreviation MAX_PD_OUTPUT_SIZE :: nat where "MAX_PD_OUTPUT_SIZE \<equiv> 0x30"
abbreviation MIN_PD_ADDRESS :: nat where "MIN_PD_ADDRESS \<equiv> 0x1000"
abbreviation MAX_PD_ADDRESS :: nat where "MAX_PD_ADDRESS \<equiv> 0x2FFF"

abbreviation NOERROR_NOSTATECHANGE :: "16 word" where "NOERROR_NOSTATECHANGE \<equiv> 0xFE"
abbreviation NOERROR_INWORK :: "16 word" where "NOERROR_INWORK \<equiv> 0xFF"
abbreviation ALSTATUSCODE_UNSPECIFIEDERROR :: "16 word" where "ALSTATUSCODE_UNSPECIFIEDERROR \<equiv> 0x01"
abbreviation ALSTATUSCODE_INVALIDALCONTROL :: "16 word" where "ALSTATUSCODE_INVALIDALCONTROL \<equiv> 0x11"
abbreviation ALSTATUSCODE_UNKNOWNALCONTROL :: "16 word" where "ALSTATUSCODE_UNKNOWNALCONTROL \<equiv> 0x12"
abbreviation ALSTATUSCODE_NOVALIDFIRMWARE :: "16 word" where "ALSTATUSCODE_NOVALIDFIRMWARE \<equiv> 0x14"
abbreviation ALSTATUSCODE_INVALIDMBXCFGINBOOT :: "16 word" where "ALSTATUSCODE_INVALIDMBXCFGINBOOT \<equiv> 0x15"
abbreviation ALSTATUSCODE_SYNCERROR :: "16 word" where "ALSTATUSCODE_SYNCERROR \<equiv> 0x1A"
abbreviation ALSTATUSCODE_SMWATCHDOG :: "16 word" where "ALSTATUSCODE_SMWATCHDOG \<equiv> 0x1B"
abbreviation ALSTATUSCODE_INVALIDSMOUTCFG :: "16 word" where "ALSTATUSCODE_INVALIDSMOUTCFG \<equiv> 0x1D"
abbreviation ALSTATUSCODE_INVALIDSMINCFG :: "16 word" where "ALSTATUSCODE_INVALIDSMINCFG \<equiv> 0x1E"
abbreviation ALSTATUSCODE_INVALIDWDCFG :: "16 word" where "ALSTATUSCODE_INVALIDWDCFG \<equiv> 0x1F"
abbreviation ALSTATUSCODE_FREERUNNEEDS3BUFFERMODE :: "16 word" where "ALSTATUSCODE_FREERUNNEEDS3BUFFERMODE \<equiv> 0x29"
abbreviation ALSTATUSCODE_FATALSYNCERROR :: "16 word" where "ALSTATUSCODE_FATALSYNCERROR \<equiv> 0x2C"
abbreviation ALSTATUSCODE_NOSYNCERROR :: "16 word" where "ALSTATUSCODE_NOSYNCERROR \<equiv> 0x2D"
abbreviation ALSTATUSCODE_DCINVALIDSYNCCFG :: "16 word" where "ALSTATUSCODE_DCINVALIDSYNCCFG \<equiv> 0x30"
abbreviation ALSTATUSCODE_DCPLLSYNCERROR :: "16 word" where "ALSTATUSCODE_DCPLLSYNCERROR \<equiv> 0x32"
abbreviation ALSTATUSCODE_DCSYNC0CYCLETIME :: "16 word" where "ALSTATUSCODE_DCSYNC0CYCLETIME \<equiv> 0x36"
abbreviation ALSTATUSCODE_EE_ERROR :: "16 word" where "ALSTATUSCODE_EE_ERROR \<equiv> 0x51"

abbreviation STATE_DEVID :: "8 word" where "STATE_DEVID \<equiv> 0x20"

abbreviation AL_CONTROL_EVENT :: "16 word" where "AL_CONTROL_EVENT \<equiv> 0x01"
abbreviation SYNC0_EVENT :: "16 word" where "SYNC0_EVENT \<equiv> 0x04"
abbreviation SYNC1_EVENT :: "16 word" where "SYNC1_EVENT \<equiv> 0x08"
abbreviation SM_CHANGE_EVENT :: "16 word" where "SM_CHANGE_EVENT \<equiv> 0x10"
abbreviation EEPROM_CMD_PENDING :: "16 word" where "EEPROM_CMD_PENDING \<equiv> 0x20"
abbreviation MAILBOX_WRITE_EVENT :: "16 word" where "MAILBOX_WRITE_EVENT \<equiv> 0x0100"
abbreviation MAILBOX_READ_EVENT :: "16 word" where "MAILBOX_READ_EVENT \<equiv> 0x0200"
abbreviation PROCESS_OUTPUT_EVENT :: "16 word" where "PROCESS_OUTPUT_EVENT \<equiv> 0x0400"
abbreviation PROCESS_INPUT_EVENT :: "16 word" where "PROCESS_INPUT_EVENT \<equiv> 0x0800"

abbreviation LED_OFF :: "8 word" where "LED_OFF \<equiv> 0"
abbreviation LED_FLICKERING :: "8 word" where "LED_FLICKERING \<equiv> 0x0E"
abbreviation LED_BLINKING :: "8 word" where "LED_BLINKING \<equiv> 0x0D"
abbreviation LED_SINGLEFLASH :: "8 word" where "LED_SINGLEFLASH \<equiv> 0x01"
abbreviation LED_DOUBLEFLASH :: "8 word" where "LED_DOUBLEFLASH \<equiv> 0x02"
abbreviation LED_ON :: "8 word" where "LED_ON \<equiv> 0x0F"
abbreviation LED_OVERRIDE :: "8 word" where "LED_OVERRIDE \<equiv> 0x10"

section \<open>AL event mask and EEPROM state\<close>

definition ResetALEventMask :: "16 word \<Rightarrow> 'z mach_scheme \<Rightarrow> 'z mach_scheme" where
  "ResetALEventMask intMask s =
    (let (u32Mask, s) = HW_EscReadDWord 0x204 s;
         u32Mask = u32Mask AND ucast intMask;
         u32Mask = u32Mask AND NOT (ucast (SYNC0_EVENT OR SYNC1_EVENT)) in
     HW_EscWriteDWord u32Mask 0x204 s)"

definition SetALEventMask :: "16 word \<Rightarrow> 'z mach_scheme \<Rightarrow> 'z mach_scheme" where
  "SetALEventMask intMask s =
    (let (u32Mask, s) = HW_EscReadDWord 0x204 s;
         u32Mask = u32Mask OR ucast intMask;
         u32Mask = u32Mask AND NOT (ucast (SYNC0_EVENT OR SYNC1_EVENT)) in
     HW_EscWriteDWord u32Mask 0x204 s)"

definition UpdateEEPROMLoadedState :: "'z esm_scheme \<Rightarrow> 'z esm_scheme" where
  "UpdateEEPROMLoadedState s =
    (let (TmpVar, s) = HW_EscReadDWord 0x500 s in
     if TmpVar AND 0x08000000 > 0 \<or> TmpVar AND 0x10000000 > 0
     then s\<lparr>EepromLoaded := False\<rparr> else s\<lparr>EepromLoaded := True\<rparr>)"

section \<open>Checking the SyncManager settings\<close>

text \<open>The chain of tests a mailbox channel has to pass; the same for both channels up to the
  direction and the address window.\<close>

definition sm_mailbox_result :: "32 word \<Rightarrow> nat \<Rightarrow> nat \<Rightarrow> tsyncman \<Rightarrow> 8 word" where
  "sm_mailbox_result direction minAddr maxAddr sm =
    (if Settings sm AND SM_SETTING_ENABLE_VALUE = 0 then 0x16
     else if Settings sm AND SM_SETTING_DIRECTION_MASK \<noteq> direction then 0x16
     else if Settings sm AND SM_SETTING_MODE_MASK \<noteq> SM_SETTING_MODE_ONE_BUFFER_VALUE then 0x16
     else if unat (SMLength sm) < MIN_MBX_SIZE then 0x16
     else if unat (SMLength sm) > MAX_MBX_SIZE then 0x16
     else if unat (SMAddress sm) < minAddr then 0x16
     else if unat (SMAddress sm) > maxAddr then 0x16
     else 0)"

definition CheckSm_MailboxWrite :: "'z esm_scheme \<Rightarrow> 8 word \<times> 'z esm_scheme" where
  "CheckSm_MailboxWrite s =
    (let (sm, s) = GetSyncMan MAILBOX_WRITE s in
     (sm_mailbox_result SM_SETTING_DIRECTION_WRITE_VALUE MIN_MBX_WRITE_ADDRESS MAX_MBX_WRITE_ADDRESS sm, s))"

definition CheckSm_MailboxRead :: "'z esm_scheme \<Rightarrow> 8 word \<times> 'z esm_scheme" where
  "CheckSm_MailboxRead s =
    (let (sm, s) = GetSyncMan MAILBOX_READ s in
     (sm_mailbox_result SM_SETTING_DIRECTION_READ_VALUE MIN_MBX_READ_ADDRESS MAX_MBX_READ_ADDRESS sm, s))"

text \<open>Channel 3.  The intermediate codes 1, 2 and 3 are \<open>SYNCMANCHSIZE + 1\<close>,
  \<open>SYNCMANCHADDRESS + 1\<close> and \<open>SYNCMANCHSETTINGS + 1\<close>.\<close>

definition CheckSm_Inputs :: "'z esm_scheme \<Rightarrow> 8 word \<times> 'z esm_scheme" where
  "CheckSm_Inputs s =
    (let s = s\<lparr>b3BufferMode := True\<rparr>;
         (sm, s) = GetSyncMan PROCESS_DATA_IN s;
         enabled = (Settings sm AND SM_SETTING_ENABLE_VALUE \<noteq> 0);
         (result, s) =
          (if enabled \<and> SMLength sm = 0 then (3 :: 8 word, s)
           else if enabled then
             if SMLength sm \<noteq> nPdInputSize s \<or> nPdInputSize s = 0 \<or> unat (SMLength sm) > MAX_PD_INPUT_SIZE
             then (1, s)
             else if Settings sm AND SM_SETTING_DIRECTION_MASK = SM_SETTING_DIRECTION_READ_VALUE
             then if nAlStatus s = STATE_PREOP \<and> MIN_PD_ADDRESS \<le> unat (SMAddress sm) \<and> unat (SMAddress sm) \<le> MAX_PD_ADDRESS
                     \<or> nAlStatus s \<noteq> STATE_PREOP \<and> SMAddress sm = nEscAddrInputData s
                  then (0, if Settings sm AND SM_SETTING_MODE_MASK = SM_SETTING_MODE_ONE_BUFFER_VALUE
                           then s\<lparr>b3BufferMode := False\<rparr> else s)
                  else (2, s)
             else (3, s)
           else if SMLength sm \<noteq> 0 \<or> nPdInputSize s \<noteq> 0 then (1, s)
           else (0, s)) in
     (if result \<noteq> 0 then 0x1E else 0, s))"

definition CheckSm_Outputs :: "'z esm_scheme \<Rightarrow> 8 word \<times> 'z esm_scheme" where
  "CheckSm_Outputs s =
    (let (sm, s) = GetSyncMan PROCESS_DATA_OUT s;
         enabled = (Settings sm AND SM_SETTING_ENABLE_VALUE \<noteq> 0);
         (result, s) =
          (if enabled \<and> SMLength sm = 0 then (3 :: 8 word, s)
           else if enabled then
             if SMLength sm = nPdOutputSize s \<and> nPdOutputSize s \<noteq> 0 \<and> unat (SMLength sm) \<le> MAX_PD_OUTPUT_SIZE
             then if Settings sm AND SM_SETTING_DIRECTION_MASK = SM_SETTING_DIRECTION_WRITE_VALUE
                  then if nAlStatus s = STATE_PREOP \<and> MIN_PD_ADDRESS \<le> unat (SMAddress sm) \<and> unat (SMAddress sm) \<le> MAX_PD_ADDRESS
                          \<or> nAlStatus s \<noteq> STATE_PREOP \<and> SMAddress sm = nEscAddrOutputData s
                       then let s = s\<lparr>bWdTrigger := (Settings sm AND SM_SETTING_WATCHDOG_VALUE \<noteq> 0)\<rparr> in
                            (0, if Settings sm AND SM_SETTING_MODE_MASK = SM_SETTING_MODE_ONE_BUFFER_VALUE
                                then s\<lparr>b3BufferMode := False\<rparr> else s)
                       else (2, s)
                  else (3, s)
             else (1, s)
           else if SMLength sm \<noteq> 0 \<or> nPdOutputSize s \<noteq> 0 then (1, s)
           else (0, s)) in
     (if result \<noteq> 0 then 0x1D else 0, s))"

text \<open>Reading the remaining channels acknowledges the SM-change interrupt.\<close>

definition CheckSm_ReadRest :: "8 word \<Rightarrow> 'z esm_scheme \<Rightarrow> 'z esm_scheme" where
  "CheckSm_ReadRest maxChannel s =
    fold (\<lambda>i s. let (sm, s) = GetSyncMan (of_nat i) s in s\<lparr>SMActivate := Settings sm\<rparr>)
      [unat maxChannel ..< unat (nMaxSyncMan s)] s"

definition CheckSmSettings :: "8 word \<Rightarrow> 'z esm_scheme \<Rightarrow> 8 word \<times> 'z esm_scheme" where
  "CheckSmSettings maxChannel s =
    (if unat (nMaxEscAddress s) < MAX_PD_ADDRESS \<or> unat (nMaxEscAddress s) < MAX_PD_ADDRESS
        \<or> unat (nMaxEscAddress s) < MAX_MBX_WRITE_ADDRESS \<or> unat (nMaxEscAddress s) < MAX_MBX_READ_ADDRESS
     then (0x14, s)
     else
       let (result, s) = CheckSm_MailboxWrite s;
           (result, s) = (if result = 0 then CheckSm_MailboxRead s else (result, s));
           (result, s) = (if result = 0 \<and> maxChannel > PROCESS_DATA_IN then CheckSm_Inputs s else (result, s));
           (result, s) = (if result = 0 \<and> maxChannel > PROCESS_DATA_OUT then CheckSm_Outputs s else (result, s));
           s = (if result = 0 then CheckSm_ReadRest maxChannel s else s) in
       (result, s))"

section \<open>The AL status register\<close>

definition al_error_led :: "8 word \<Rightarrow> 16 word \<Rightarrow> 8 word \<Rightarrow> 8 word" where
  "al_error_led alStatus alStatusCode localErrorState =
    (if alStatusCode = 0 \<or> alStatus AND STATE_CHANGE = 0 then LED_OFF
     else if alStatusCode = ALSTATUSCODE_NOSYNCERROR \<or> alStatusCode = ALSTATUSCODE_SYNCERROR
             \<or> alStatusCode = ALSTATUSCODE_DCPLLSYNCERROR \<or> localErrorState > 0 then LED_SINGLEFLASH
     else if alStatusCode = ALSTATUSCODE_SMWATCHDOG then LED_DOUBLEFLASH
     else LED_BLINKING)"

definition al_run_led :: "8 word \<Rightarrow> 8 word \<Rightarrow> 8 word" where
  "al_run_led alStatus old =
    (let st = alStatus AND STATE_MASK in
     if st = STATE_INIT then LED_OFF
     else if st = STATE_PREOP then LED_BLINKING
     else if st = STATE_SAFEOP then LED_SINGLEFLASH
     else if st = STATE_OP then LED_ON
     else if st = STATE_BOOT then LED_FLICKERING
     else old)"

definition SetALStatus :: "8 word \<Rightarrow> 16 word \<Rightarrow> 'z esm_scheme \<Rightarrow> 'z esm_scheme" where
  "SetALStatus alStatus alStatusCode s =
    (let s = s\<lparr>nAlStatus := alStatus\<rparr>;
         devid = (bExplicitDevIdRequested s \<and> nAlStatus s AND STATE_CHANGE = 0 \<and> alStatusCode = 0
                  \<and> nAlStatus s AND STATE_MASK \<noteq> STATE_BOOT);
         Value = (if devid then u16IdValue s else alStatusCode);
         s = (if devid then s\<lparr>nAlStatus := nAlStatus s OR STATE_DEVID\<rparr>
              else s\<lparr>nAlStatus := nAlStatus s AND NOT STATE_DEVID\<rparr>);
         s = (if alStatusCode \<noteq> 0xFFFF then HW_EscWriteDWord (ucast Value) 0x134 s else s);
         s = HW_EscWriteDWord (ucast (nAlStatus s)) 0x130 s;
         s = s\<lparr>u8EcatErrorLed := al_error_led alStatus alStatusCode (u8LocalErrorState s) OR LED_OVERRIDE\<rparr>;
         s = s\<lparr>u8EcatRunLed := al_run_led alStatus (u8EcatRunLed s) OR LED_OVERRIDE\<rparr> in
     HW_EscWriteDWord (ucast (u8EcatRunLed s) OR push_bit 8 (ucast (u8EcatErrorLed s))) 0x138 s)"

end
