(* ===== verification/EsmHandlers.thy ===== *)
theory EsmHandlers
  imports Esm
begin

text \<open>
  The handlers a state transition starts and stops (\<open>ecatslv.c\<close>).  \<open>StartInputHandler\<close> is
  split the way its comments divide it: overlap of the SyncManager areas, plausibility of the
  DC registers, the sync type, the flags that follow from it, the latch counters, the watchdog,
  and the Sync0/Sync1 timeouts.
\<close>

unbundle bit_operations_syntax

section \<open>What the application and the rest of the stack provide\<close>

record 's appl_ops =
  APPL_StartMailboxHandler :: "'s \<Rightarrow> 16 word \<times> 's"
  APPL_StopMailboxHandler :: "'s \<Rightarrow> 16 word \<times> 's"
  APPL_StartInputHandler :: "'s \<Rightarrow> 16 word \<times> 's"
  APPL_StopInputHandler :: "'s \<Rightarrow> 16 word \<times> 's"
  APPL_StartOutputHandler :: "'s \<Rightarrow> 16 word \<times> 's"
  APPL_StopOutputHandler :: "'s \<Rightarrow> 16 word \<times> 's"
  APPL_GenerateMapping :: "'s \<Rightarrow> 16 word \<times> 's"
  APPL_AckErrorInd :: "16 word \<Rightarrow> 's \<Rightarrow> 's"
  APPL_GetDeviceID :: "'s \<Rightarrow> 16 word \<times> 's"
  PDO_InputMapping :: "'s \<Rightarrow> 's"
  EEPROM_CommandHandler :: "'s \<Rightarrow> 's"
  COE_Init :: "'s \<Rightarrow> 's"

section \<open>Constants\<close>

abbreviation SYNCTYPE_FREERUN :: "16 word" where "SYNCTYPE_FREERUN \<equiv> 0x0000"
abbreviation SYNCTYPE_SM_SYNCHRON :: "16 word" where "SYNCTYPE_SM_SYNCHRON \<equiv> 0x0001"
abbreviation SYNCTYPE_SM2_SYNCHRON :: "16 word" where "SYNCTYPE_SM2_SYNCHRON \<equiv> 0x0022"
abbreviation SYNCTYPE_DCSYNC0 :: "16 word" where "SYNCTYPE_DCSYNC0 \<equiv> 0x0002"
abbreviation SYNCTYPE_DCSYNC1 :: "16 word" where "SYNCTYPE_DCSYNC1 \<equiv> 0x0003"

abbreviation SYNCTYPE_DCSYNC0SUPP :: "16 word" where "SYNCTYPE_DCSYNC0SUPP \<equiv> 0x0004"
abbreviation SYNCTYPE_DCSYNC1SUPP :: "16 word" where "SYNCTYPE_DCSYNC1SUPP \<equiv> 0x0008"
abbreviation SYNCTYPE_SUBCYCLESUPP :: "16 word" where "SYNCTYPE_SUBCYCLESUPP \<equiv> 0x0010"

abbreviation DC_UNIT_ACTIVE :: "32 word" where "DC_UNIT_ACTIVE \<equiv> 0x0100"
abbreviation DC_SYNC0_ACTIVE :: "32 word" where "DC_SYNC0_ACTIVE \<equiv> 0x0200"
abbreviation DC_SYNC1_ACTIVE :: "32 word" where "DC_SYNC1_ACTIVE \<equiv> 0x0400"
abbreviation DC_UNIT_AUTO_ACTIVE :: "32 word" where "DC_UNIT_AUTO_ACTIVE \<equiv> 0x0800"
abbreviation MAX_PD_CYCLE_TIME :: "32 word" where "MAX_PD_CYCLE_TIME \<equiv> 0xC3500000"

section \<open>StartInputHandler\<close>

text \<open>The areas: two of them overlap when each starts before the other ends.\<close>

definition area_hits :: "nat \<Rightarrow> nat \<Rightarrow> nat \<Rightarrow> nat \<Rightarrow> bool" where
  "area_hits a alen b blen = (a + alen > b \<and> a < b + blen)"

definition StartInput_areas :: "'z esm_scheme \<Rightarrow> 16 word \<times> 'z esm_scheme" where
  "StartInput_areas s =
    (let s = s\<lparr>u16ALEventMask := 0, bEcatFirstOutputsReceived := False\<rparr>;
         (sm, s) = GetSyncMan PROCESS_DATA_OUT s;
         s = s\<lparr>nEscAddrOutputData := SMAddress sm\<rparr>;
         nPdOutputBuffer = (if Settings sm AND SM_SETTING_MODE_ONE_BUFFER_VALUE \<noteq> 0 then 1 else 3 :: nat);
         (sm, s) = GetSyncMan PROCESS_DATA_IN s;
         s = s\<lparr>nEscAddrInputData := SMAddress sm\<rparr>;
         nPdInputBuffer = (if Settings sm AND SM_SETTING_MODE_ONE_BUFFER_VALUE \<noteq> 0 then 1 else 3 :: nat);
         inp = unat (nEscAddrInputData s); inl = unat (nPdInputSize s) * nPdInputBuffer;
         out = unat (nEscAddrOutputData s); outl = unat (nPdOutputSize s) * nPdOutputBuffer;
         sndp = unat (u16EscAddrSendMbx s); sndl = unat (u16SendMbxSize s);
         rcv = unat (u16EscAddrReceiveMbx s); rcvl = unat (u16ReceiveMbxSize s) in
     if area_hits inp inl sndp sndl \<or> area_hits inp inl rcv rcvl
     then (ALSTATUSCODE_INVALIDSMINCFG, s)
     else if area_hits out outl sndp sndl \<or> area_hits out outl rcv rcvl
             \<or> area_hits out outl inp (unat (nPdInputSize s))
     then (ALSTATUSCODE_INVALIDSMOUTCFG, s)
     else (0, s))"

definition dc_unit_on :: "32 word \<Rightarrow> bool" where
  "dc_unit_on dcControl = (dcControl AND (DC_UNIT_ACTIVE OR DC_UNIT_AUTO_ACTIVE) \<noteq> 0)"

text \<open>The plausibility of the DC registers: the error code, and whether subordinated cycles
  are configured.\<close>

definition StartInput_dc_check :: "32 word \<Rightarrow> 32 word \<Rightarrow> 32 word \<Rightarrow> 16 word \<Rightarrow> 32 word \<Rightarrow> 16 word \<times> bool" where
  "StartInput_dc_check dcControl cycleTimeSync0 shiftTimeSync1 u16MinSuppSyncType curMinCycleTime =
    (if dc_unit_on dcControl then
       if dcControl AND (DC_SYNC0_ACTIVE OR DC_SYNC1_ACTIVE) = 0 then (ALSTATUSCODE_DCINVALIDSYNCCFG, False)
       else if dcControl AND DC_SYNC0_ACTIVE = 0 \<and> dcControl AND DC_SYNC1_ACTIVE \<noteq> 0
       then (ALSTATUSCODE_DCINVALIDSYNCCFG, False)
       else if u16MinSuppSyncType \<noteq> 0
            \<and> (u16MinSuppSyncType AND SYNCTYPE_DCSYNC0SUPP = 0 \<and> dcControl AND DC_SYNC0_ACTIVE \<noteq> 0
               \<or> u16MinSuppSyncType AND SYNCTYPE_DCSYNC1SUPP = 0 \<and> dcControl AND DC_SYNC1_ACTIVE \<noteq> 0)
       then (ALSTATUSCODE_DCINVALIDSYNCCFG, False)
       else if cycleTimeSync0 \<noteq> 0 \<and> (cycleTimeSync0 < curMinCycleTime \<or> cycleTimeSync0 > MAX_PD_CYCLE_TIME)
       then (ALSTATUSCODE_DCSYNC0CYCLETIME, False)
       else
         let bSubordinatedCycles =
               (dcControl AND DC_SYNC0_ACTIVE \<noteq> 0 \<and> dcControl AND DC_SYNC1_ACTIVE \<noteq> 0
                \<and> shiftTimeSync1 > 0 \<and> shiftTimeSync1 \<ge> cycleTimeSync0) in
         if bSubordinatedCycles \<and> u16MinSuppSyncType AND SYNCTYPE_SUBCYCLESUPP = 0
         then (ALSTATUSCODE_DCINVALIDSYNCCFG, bSubordinatedCycles)
         else (0, bSubordinatedCycles)
     else (0, False))"

definition StartInput_user_types :: "32 word \<Rightarrow> 16 word \<Rightarrow> 16 word \<Rightarrow> 16 word" where
  "StartInput_user_types dcControl t32 t33 =
    (if \<not> dc_unit_on dcControl then
       (if t32 = SYNCTYPE_DCSYNC0 \<or> t32 = SYNCTYPE_DCSYNC1 \<or> t33 = SYNCTYPE_DCSYNC0 \<or> t33 = SYNCTYPE_DCSYNC1
        then ALSTATUSCODE_DCINVALIDSYNCCFG else 0)
     else if dcControl AND DC_SYNC1_ACTIVE = 0 \<and> (t32 = SYNCTYPE_DCSYNC1 \<or> t33 = SYNCTYPE_DCSYNC1)
     then ALSTATUSCODE_DCINVALIDSYNCCFG
     else if dcControl AND DC_SYNC0_ACTIVE = 0 \<and> (t32 = SYNCTYPE_DCSYNC0 \<or> t33 = SYNCTYPE_DCSYNC0)
     then ALSTATUSCODE_DCINVALIDSYNCCFG
     else 0)"

definition StartInput_auto_types :: "32 word \<Rightarrow> bool \<Rightarrow> 16 word \<Rightarrow> 16 word \<Rightarrow> 16 word \<times> 16 word" where
  "StartInput_auto_types dcControl bSubordinatedCycles outSize inSize =
    (if \<not> dc_unit_on dcControl then
       (if outSize > 0 then
          (SYNCTYPE_SM_SYNCHRON, if inSize > 0 then SYNCTYPE_SM2_SYNCHRON else SYNCTYPE_FREERUN)
        else if inSize > 0 then (SYNCTYPE_FREERUN, SYNCTYPE_SM_SYNCHRON)
        else (SYNCTYPE_FREERUN, SYNCTYPE_FREERUN))
     else
       (if outSize > 0 then if bSubordinatedCycles then SYNCTYPE_DCSYNC1 else SYNCTYPE_DCSYNC0
        else SYNCTYPE_FREERUN,
        if inSize > 0 then if dcControl AND DC_SYNC1_ACTIVE \<noteq> 0 then SYNCTYPE_DCSYNC1 else SYNCTYPE_DCSYNC0
        else SYNCTYPE_FREERUN))"

definition is_dc_type :: "16 word \<Rightarrow> bool" where
  "is_dc_type t = (t = SYNCTYPE_DCSYNC0 \<or> t = SYNCTYPE_DCSYNC1)"

text \<open>The cycle times of the sync manager objects, the ESC interrupt and the event mask.\<close>

definition StartInput_flags :: "16 word \<Rightarrow> 16 word \<Rightarrow> 32 word \<Rightarrow> 'z esm_scheme \<Rightarrow> 16 word \<times> 'z esm_scheme" where
  "StartInput_flags t32 t33 cycleTimeSync0 s =
    (let s = (if is_dc_type t32
              then s\<lparr>sSyncManOutPar := (sSyncManOutPar s)\<lparr>u32Sync0CycleTime := cycleTimeSync0, u32CycleTime := cycleTimeSync0\<rparr>,
                     sSyncManInPar := (sSyncManInPar s)\<lparr>u32Sync0CycleTime := cycleTimeSync0, u32CycleTime := cycleTimeSync0\<rparr>\<rparr>
              else s) in
     if \<not> b3BufferMode s \<and> (t32 = SYNCTYPE_FREERUN \<or> t33 = SYNCTYPE_FREERUN)
     then (ALSTATUSCODE_FREERUNNEEDS3BUFFERMODE, s)
     else
       let s = (if t32 \<noteq> SYNCTYPE_FREERUN \<or> t33 \<noteq> SYNCTYPE_FREERUN then s\<lparr>bEscIntEnabled := True\<rparr> else s);
           s = (if bEscIntEnabled s
                then if nPdOutputSize s > 0 then s\<lparr>u16ALEventMask := PROCESS_OUTPUT_EVENT\<rparr>
                     else if nPdInputSize s > 0 then s\<lparr>u16ALEventMask := PROCESS_INPUT_EVENT\<rparr> else s
                else s);
           s = (if is_dc_type t32 \<or> is_dc_type t33
                then let s = s\<lparr>bDcSyncActive := True\<rparr> in
                     if nPdOutputSize s = 0 then s\<lparr>u16ALEventMask := 0\<rparr> else s
                else s) in
       (0, s\<lparr>sSyncManOutPar := (sSyncManOutPar s)\<lparr>u16SyncType := t32\<rparr>,
             sSyncManInPar := (sSyncManInPar s)\<lparr>u16SyncType := t33\<rparr>\<rparr>))"

definition StartInput_latch :: "bool \<Rightarrow> 16 word \<Rightarrow> 16 word \<Rightarrow> 32 word \<Rightarrow> 32 word \<Rightarrow> 'z esm_scheme \<Rightarrow> 'z esm_scheme" where
  "StartInput_latch bSubordinatedCycles t32 t33 cycleTimeSync0 shiftTimeSync1 s =
    (let s = s\<lparr>LatchInputSync0Value := 0, LatchInputSync0Counter := 0, u16SmSync0Value := 0, u16SmSync0Counter := 0\<rparr>;
         s = (if bSubordinatedCycles then
                let cycleTimeSync1 = shiftTimeSync1 + cycleTimeSync0;
                    s = (if cycleTimeSync0 = 0 then s\<lparr>div_by_zero := True\<rparr> else s);
                    s = (if shiftTimeSync1 \<ge> cycleTimeSync0
                         then let v = ucast (cycleTimeSync1 div cycleTimeSync0) :: 16 word in
                              s\<lparr>u16SmSync0Value := (if cycleTimeSync1 mod cycleTimeSync0 = 0 then v + 1 else v)\<rparr>
                         else s\<lparr>u16SmSync0Value := 1\<rparr>);
                    l = ucast (cycleTimeSync1 div cycleTimeSync0) :: 16 word in
                s\<lparr>LatchInputSync0Value := (if cycleTimeSync1 mod cycleTimeSync0 > 0 then l + 1 else l)\<rparr>
              else
                let s = (if t32 = SYNCTYPE_DCSYNC0 then s\<lparr>u16SmSync0Value := 1\<rparr> else s) in
                if t33 \<noteq> SYNCTYPE_DCSYNC1 then s\<lparr>LatchInputSync0Value := 1\<rparr> else s) in
     s\<lparr>syncFailedCounter := 0\<rparr>)"

text \<open>The process data watchdog in milliseconds, from the registers \<open>0x400\<close> (in units of
  40 ns, minus 2) and \<open>0x420\<close>, rounded up.\<close>

definition wd_value_ms :: "16 word \<Rightarrow> 16 word \<Rightarrow> 16 word" where
  "wd_value_ms wdiv wd =
    (let d = ucast wdiv + 2 :: 32 word; d = d * ucast wd; d = d + 24999; d = d div 25000 in ucast d)"

definition StartInput_watchdog :: "'z esm_scheme \<Rightarrow> 16 word \<times> 'z esm_scheme" where
  "StartInput_watchdog s =
    (let (tmpValue, s) = HW_EscReadDWord 0x420 s;
         wd = ucast (tmpValue AND 0x0000FFFF) :: 16 word;
         s = (if nPdOutputSize s > 0 \<and> wd \<noteq> 0
              then let (tmpValue, s) = HW_EscReadDWord 0x400 s;
                       wdiv = ucast (tmpValue AND 0x0000FFFF) :: 16 word in
                   if wdiv \<noteq> 0 then s\<lparr>EcatWdValue := wd_value_ms wdiv wd\<rparr> else s\<lparr>EcatWdValue := 0\<rparr>
              else s\<lparr>EcatWdValue := 0\<rparr>) in
     if EcatWdValue s = 0 \<and> bWdTrigger s \<or> EcatWdValue s \<noteq> 0 \<and> \<not> bWdTrigger s
     then (ALSTATUSCODE_INVALIDWDCFG, s)
     else (0, s))"

definition sync_counters_reset :: "syncmanpar \<Rightarrow> syncmanpar" where
  "sync_counters_reset p = p\<lparr>u16SmEventMissedCounter := 0, u16CycleExceededCounter := 0, u8SyncError := 0\<rparr>"

definition StartInput_events :: "'z esm_scheme \<Rightarrow> 'z esm_scheme" where
  "StartInput_events s =
    (let s = (if bEscIntEnabled s \<and> nPdOutputSize s \<noteq> 0
              then s\<lparr>u16ALEventMask := u16ALEventMask s OR PROCESS_OUTPUT_EVENT\<rparr> else s);
         s = s\<lparr>Sync0WdValue := 0, Sync0WdCounter := 0, Sync1WdCounter := 0, Sync1WdValue := 0,
               bDcRunning := False, bSmSyncSequenceValid := False, i16WaitForPllRunningTimeout := 0\<rparr>;
         (u32TmpVar, s) = HW_EscReadDWord 0x150 s;
         s = (if u32TmpVar AND 0x0800 > 0 then s\<lparr>u16ALEventMask := u16ALEventMask s OR SYNC0_EVENT\<rparr> else s);
         s = (if u32TmpVar AND 0x8000 > 0 then s\<lparr>u16ALEventMask := u16ALEventMask s OR SYNC1_EVENT\<rparr> else s) in
     s\<lparr>sSyncManInPar := sync_counters_reset (sSyncManInPar s),
       sSyncManOutPar := sync_counters_reset (sSyncManOutPar s)\<rparr>)"

text \<open>The Sync0 and Sync1 timeouts in milliseconds.\<close>

definition sync0_wd :: "32 word \<Rightarrow> 16 word" where
  "sync0_wd cycleTimeSync0 =
    (if cycleTimeSync0 = 0 then 0
     else let Sync0Cycle = cycleTimeSync0 div 100000 in
          if Sync0Cycle < 5 then 1 else (ucast (Sync0Cycle * 2) :: 16 word) div 10)"

definition sync1_wd :: "32 word \<Rightarrow> 32 word \<Rightarrow> 16 word" where
  "sync1_wd cycleTimeSync0 shiftTimeSync1 =
    (if shiftTimeSync1 < cycleTimeSync0 then sync0_wd cycleTimeSync0
     else let Sync1Cycle = (shiftTimeSync1 + cycleTimeSync0) div 100000;
              v = (if Sync1Cycle < 5 then 1 else ucast ((Sync1Cycle * 2) div 10)) :: 16 word in
          v + sync0_wd cycleTimeSync0 div 2)"

definition StartInput_sync_wd :: "32 word \<Rightarrow> 32 word \<Rightarrow> 32 word \<Rightarrow> 'z esm_scheme \<Rightarrow> 'z esm_scheme" where
  "StartInput_sync_wd dcControl cycleTimeSync0 shiftTimeSync1 s =
    (if dcControl AND DC_SYNC0_ACTIVE \<noteq> 0
     then let s = s\<lparr>Sync0WdValue := sync0_wd cycleTimeSync0\<rparr> in
          if dcControl AND DC_SYNC1_ACTIVE \<noteq> 0
          then s\<lparr>Sync1WdValue := sync1_wd cycleTimeSync0 shiftTimeSync1\<rparr> else s
     else s)"

definition StartInput_finish :: "('z esm_scheme) appl_ops \<Rightarrow> 32 word \<Rightarrow> 32 word \<Rightarrow> 32 word \<Rightarrow> bool
    \<Rightarrow> 16 word \<Rightarrow> 16 word \<Rightarrow> 'z esm_scheme \<Rightarrow> 16 word \<times> 'z esm_scheme" where
  "StartInput_finish ap dcControl cycleTimeSync0 shiftTimeSync1 sub t32 t33 s =
    (let s = StartInput_latch sub t32 t33 cycleTimeSync0 shiftTimeSync1 s;
         (err, s) = StartInput_watchdog s in
     if err \<noteq> 0 then (err, s) else
     let s = StartInput_events s;
         s = StartInput_sync_wd dcControl cycleTimeSync0 shiftTimeSync1 s;
         s = (if nPdOutputSize s > 0 then EnableSyncManChannel PROCESS_DATA_OUT s else s);
         s = (if nPdInputSize s > 0 then EnableSyncManChannel PROCESS_DATA_IN s else s) in
     (0, PDO_InputMapping ap s))"

definition StartInput_sync :: "('z esm_scheme) appl_ops \<Rightarrow> 32 word \<Rightarrow> 32 word \<Rightarrow> 32 word \<Rightarrow> 16 word
    \<Rightarrow> 'z esm_scheme \<Rightarrow> 16 word \<times> 'z esm_scheme" where
  "StartInput_sync ap dcControl cycleTimeSync0 shiftTimeSync1 minSupp s =
    (let t32 = u16SyncType (sSyncManOutPar s);
         t33 = u16SyncType (sSyncManInPar s);
         (err, sub) = StartInput_dc_check dcControl cycleTimeSync0 shiftTimeSync1 minSupp (u32MinCycleTime (sSyncManOutPar s)) in
     if err \<noteq> 0 then (err, s) else
     let err = (if bSyncSetByUser s then StartInput_user_types dcControl t32 t33 else 0) in
     if err \<noteq> 0 then (err, s) else
     let (t32, t33) = (if bSyncSetByUser s then (t32, t33)
                       else StartInput_auto_types dcControl sub (nPdOutputSize s) (nPdInputSize s));
         (err, s) = StartInput_flags t32 t33 cycleTimeSync0 s in
     if err \<noteq> 0 then (err, s)
     else StartInput_finish ap dcControl cycleTimeSync0 shiftTimeSync1 sub t32 t33 s)"

definition StartInputHandler :: "('z esm_scheme) appl_ops \<Rightarrow> 'z esm_scheme \<Rightarrow> 16 word \<times> 'z esm_scheme" where
  "StartInputHandler ap s =
    (let minSupp = u16SyncTypesSupported (sSyncManOutPar s) AND u16SyncTypesSupported (sSyncManInPar s);
         (err, s) = StartInput_areas s in
     if err \<noteq> 0 then (err, s) else
     let (dcControl, s) = HW_EscReadDWord 0x980 s;
         dcControl = dcControl AND 0x0000FFFF;
         (cycleTimeSync0, s) = HW_EscReadDWord 0x9A0 s;
         (shiftTimeSync1, s) = HW_EscReadDWord 0x9A4 s in
     StartInput_sync ap dcControl cycleTimeSync0 shiftTimeSync1 minSupp s)"

section \<open>The other handlers\<close>

definition STATE_VALID :: "8 word \<Rightarrow> bool" where
  "STATE_VALID x = (x AND STATE_MASK = STATE_INIT \<or> x AND STATE_MASK = STATE_PREOP
     \<or> x AND STATE_MASK = STATE_SAFEOP \<or> x AND STATE_MASK = STATE_OP)"

definition sync_errors_reset :: "syncmanpar \<Rightarrow> syncmanpar" where
  "sync_errors_reset p = p\<lparr>u16SmEventMissedCounter := 0, u8SyncError := 0\<rparr>"

definition StartOutputHandler :: "'z esm_scheme \<Rightarrow> 16 word \<times> 'z esm_scheme" where
  "StartOutputHandler s =
    (if STATE_VALID (u8LocalErrorState s) then (u16LocalErrorCode s, s)
     else
       let s = (if bDcSyncActive s
                then s\<lparr>i16WaitForPllRunningTimeout := 200, i16WaitForPllRunningCnt := 0\<rparr> else s) in
       (NOERROR_INWORK,
        s\<lparr>sSyncManOutPar := sync_errors_reset (sSyncManOutPar s),
          sSyncManInPar := sync_errors_reset (sSyncManInPar s)\<rparr>))"

definition StopOutputHandler :: "'z esm_scheme \<Rightarrow> 'z esm_scheme" where
  "StopOutputHandler s = s\<lparr>bEcatFirstOutputsReceived := False, bEcatOutputUpdateRunning := False\<rparr>"

definition StopInputHandler :: "'z esm_scheme \<Rightarrow> 'z esm_scheme" where
  "StopInputHandler s =
    (let s = (if nPdOutputSize s > 0 then DisableSyncManChannel PROCESS_DATA_OUT s else s);
         s = (if nPdInputSize s > 0 then DisableSyncManChannel PROCESS_DATA_IN s else s);
         ResetMask = SYNC0_EVENT OR SYNC1_EVENT OR PROCESS_OUTPUT_EVENT OR PROCESS_INPUT_EVENT;
         s = ResetALEventMask (NOT ResetMask) s;
         s = s\<lparr>bEcatFirstOutputsReceived := False, bEscIntEnabled := False,
               bDcSyncActive := False, bDcRunning := False, bSmSyncSequenceValid := False,
               u16SmSync0Value := 0, u16SmSync0Counter := 0,
               Sync0WdValue := 0, Sync0WdCounter := 0, Sync1WdCounter := 0, Sync1WdValue := 0,
               LatchInputSync0Value := 0, LatchInputSync0Counter := 0\<rparr>;
         s = s\<lparr>sSyncManOutPar := sync_counters_reset (sSyncManOutPar s),
               sSyncManInPar := sync_counters_reset (sSyncManInPar s)\<rparr> in
     s\<lparr>i16WaitForPllRunningTimeout := 0, bWdTrigger := False, bEcatInputUpdateRunning := False,
       bSyncSetByUser := False\<rparr>)"

definition BackToInitTransition :: "'z esm_scheme \<Rightarrow> 'z esm_scheme" where
  "BackToInitTransition s = s\<lparr>bSyncSetByUser := False\<rparr>"

end
