(* ===== verification/Coe.thy ===== *)
theory Coe
  imports EsmHandlers
begin

text \<open>
  The CANopen service of the stack: \<open>ecatcoe.c\<close> and, from \<open>sdoserv.c\<close>, the clearing of a
  pending transfer.  The two entry points of the SDO server, \<open>SDOS_SdoInd\<close> and
  \<open>SDOS_SdoInfoInd\<close>, are the fields of \<open>sdo_server\<close>, parameters of this model.

  \<open>obj_fn\<close> names the read and write functions an object may have: \<open>Read0x10F8\<close> of
  \<open>coeappl.c\<close>, and any an application adds.  \<open>buf\<close> is a pointer into a heap block: the block
  and an offset.
\<close>

unbundle bit_operations_syntax

datatype obj_fn = FnRead0x10F8 | FnApp nat

type_synonym buf = "ptr \<times> nat"

record coe = esm +
  pCoeSendStored :: ptr
  nSdoInfoFragmentsLeft :: "16 word"
  aSdoInfoHeader :: "8 word list"
  pSdoResStored :: ptr
  bSdoInWork :: bool
  u8PendingSdo :: "8 word"
  bStoreCompleteAccess :: bool
  u16StoreIndex :: "16 word"
  u8StoreSubindex :: "8 word"
  u32StoreDataSize :: "32 word"
  pStoreData :: buf
  pSdoPendFunc :: "obj_fn option"
  pSdoSegData :: ptr
  nSdoSegBytesToHandle :: "32 word"
  nSdoSegService :: "8 word"

record 's sdo_server =
  SDOS_SdoInd :: "ptr \<Rightarrow> 's \<Rightarrow> 8 word \<times> 's"
  SDOS_SdoInfoInd :: "ptr \<Rightarrow> 's \<Rightarrow> 8 word \<times> 's"

abbreviation SDO_INFO_HEADER_BYTE_SIZE :: nat where "SDO_INFO_HEADER_BYTE_SIZE \<equiv> 14"

definition COE_Init_impl :: "'z coe_scheme \<Rightarrow> 'z coe_scheme" where
  "COE_Init_impl s = s\<lparr>pCoeSendStored := NULL, nSdoInfoFragmentsLeft := 0\<rparr>"

text \<open>The service number in the upper four bits of the CoE header, the word after the mailbox
  header.\<close>

definition coe_service_no :: "ptr \<Rightarrow> 'z mach_scheme \<Rightarrow> 16 word" where
  "coe_service_no p s = drop_bit 12 (mem_rd16 p MBX_HEADER_SIZE s AND 0xF000)"

definition COE_ServiceInd_impl :: "('z coe_scheme) sdo_server \<Rightarrow> ptr \<Rightarrow> 'z coe_scheme \<Rightarrow> 8 word \<times> 'z coe_scheme" where
  "COE_ServiceInd_impl sdo pCoeMbx s =
    (let s = mem_touch pCoeMbx 8 s; service = coe_service_no pCoeMbx s in
     if service = 0x02 then SDOS_SdoInd sdo pCoeMbx s
     else if service = 0x08 then SDOS_SdoInfoInd sdo pCoeMbx s
     else if service \<in> {0x01, 0x03, 0x04, 0x05, 0x06, 0x07} then (MBXERR_SERVICENOTSUPPORTED, s)
     else (MBXERR_INVALIDHEADER, s))"

definition COE_ContinueInd_impl :: "('z coe_scheme) sdo_server \<Rightarrow> ptr \<Rightarrow> 'z coe_scheme \<Rightarrow> 8 word \<times> 'z coe_scheme" where
  "COE_ContinueInd_impl sdo pMbx s =
    (if pCoeSendStored s \<noteq> NULL
     then let (r, s) = MBX_MailboxSendReq (pCoeSendStored s) COE_SERVICE s in
          (0, if r = 0 then s\<lparr>pCoeSendStored := NULL\<rparr> else s)
     else let (pMbx, s) = mem_malloc MAX_MBX_SIZE s in
          if pMbx = NULL then (MBXERR_NOMOREMEMORY, s)
          else let s = mem_write pMbx 0 (aSdoInfoHeader s) s;
                   (_, s) = SDOS_SdoInfoInd sdo pMbx s in
               (0, s))"

definition SDOS_ClearPendingResponse_impl :: "'z coe_scheme \<Rightarrow> 'z coe_scheme" where
  "SDOS_ClearPendingResponse_impl s =
    (let s = (if bSdoInWork s \<and> pSdoResStored s \<noteq> NULL \<and> pSdoResStored s \<noteq> psRepeatMbx s
                 \<and> pSdoResStored s \<noteq> psStoreMbx s
              then (mem_free (pSdoResStored s) s)\<lparr>pSdoResStored := NULL\<rparr> else s);
         s = s\<lparr>u8PendingSdo := 0, bStoreCompleteAccess := False, u16StoreIndex := 0, u8StoreSubindex := 0,
               u32StoreDataSize := 0, pStoreData := (NULL, 0), pSdoPendFunc := None, bSdoInWork := False\<rparr>;
         s = (if pSdoSegData s \<noteq> NULL then (mem_free (pSdoSegData s) s)\<lparr>pSdoSegData := NULL\<rparr> else s) in
     s\<lparr>nSdoSegBytesToHandle := 0, nSdoSegService := 0\<rparr>)"

definition coe_of :: "('z coe_scheme) sdo_server \<Rightarrow> ('z coe_scheme) coe_service" where
  "coe_of sdo = \<lparr>COE_ServiceInd = COE_ServiceInd_impl sdo, COE_ContinueInd = COE_ContinueInd_impl sdo,
     SDOS_ClearPendingResponse = SDOS_ClearPendingResponse_impl\<rparr>"

end
