(* ===== verification/EcatAppl.thy ===== *)
theory EcatAppl
  imports Coe
begin

text \<open>
  The application layer of the stack, \<open>ecatappl.c\<close>: process data mapping, the 1 ms timer, the
  interrupt handlers, the time stamp of \<open>coeappl.c\<close> and the EEPROM emulation.  What the user
  application supplies are the fields of \<open>user_ops\<close>.

  The switches are those of \<open>ecat_def.h\<close>: \<open>MIN_PD_CYCLE_TIME\<close> is not 0, so the measurement of
  the minimal cycle time is compiled out, \<open>PD_INPUT_CALC_AND_COPY_TIME\<close> and
  \<open>PD_OUTPUT_CALC_AND_COPY_TIME\<close> are 0, so the measurement of these times is compiled in.
\<close>

unbundle bit_operations_syntax

record ecatappl = coe +
  u32CycleTimeStartValue :: "32 word"
  u32MinCycleTimeStartValue :: "32 word"
  u32SystemTimeReadFailure :: "32 word"
  bMinCycleTimeMeasurementStarted :: bool
  u32MinCycleTimeValue :: "32 word"
  u16EepromStoreTimeoutCounter :: "16 word"
  u16EepromStoreTimeoutValue :: "16 word"
  aPdOutputData :: "8 word list"
  aPdInputData :: "8 word list"
  bInitFinished :: bool
  EepromReadSize :: "16 word"
  u64Timestamp :: "64 word"
  b32BitDc :: bool
  u32LastDc32Value :: "32 word"
  u32CheckForDcOverrunCnt :: "32 word"
  pEEPROM :: "8 word list option"

record 's user_ops =
  APPL_InputMapping :: "'s \<Rightarrow> 's"
  APPL_OutputMapping :: "'s \<Rightarrow> 's"
  APPL_Application :: "'s \<Rightarrow> 's"
  pAPPL_MainLoop :: "'s \<Rightarrow> 's"
  pAPPL_EEPROM_Read :: "(32 word \<Rightarrow> 's \<Rightarrow> 16 word \<times> 's) option"
  pAPPL_EEPROM_Write :: "(32 word \<Rightarrow> 's \<Rightarrow> 16 word \<times> 's) option"
  pAPPL_EEPROM_Reload :: "('s \<Rightarrow> 16 word \<times> 's) option"
  pAPPL_EEPROM_Store :: "('s \<Rightarrow> 's) option"
  HW_EepromReload :: "'s \<Rightarrow> 16 word \<times> 's"

abbreviation CHECK_DC_OVERRUN_IN_MS :: "32 word" where "CHECK_DC_OVERRUN_IN_MS \<equiv> 4000"
abbreviation ESC_SYSTEMTIME_OFFSET :: nat where "ESC_SYSTEMTIME_OFFSET \<equiv> 0x910"

section \<open>System time\<close>

definition MEASUREMENT_ACTIVE :: "'z esm_scheme \<Rightarrow> bool" where
  "MEASUREMENT_ACTIVE s = (u16GetCycleTime (sSyncManOutPar s) AND 1 = 1 \<or> u16GetCycleTime (sSyncManInPar s) AND 1 = 1)"

text \<open>The difference of two system times, and the failure of the measurement taken off it.\<close>

definition time_delta :: "32 word \<Rightarrow> 32 word \<Rightarrow> 32 word" where
  "time_delta start cur = (if cur > 0
     then if start \<le> cur then cur - start else cur + (0xFFFFFFFF - start) else 0)"

definition GetSystemTimeDelay :: "32 word \<Rightarrow> 'z ecatappl_scheme \<Rightarrow> 32 word \<times> 'z ecatappl_scheme" where
  "GetSystemTimeDelay start s =
    (let (cur, s) = HW_EscReadDWord ESC_SYSTEMTIME_OFFSET s;
         d = time_delta start cur in
     (if start > 0
      then if u32SystemTimeReadFailure s < d then d - u32SystemTimeReadFailure s else 0
      else d, s))"

definition HandleCycleTimeMeasurement :: "'z ecatappl_scheme \<Rightarrow> 'z ecatappl_scheme" where
  "HandleCycleTimeMeasurement s =
    (if bDcSyncActive s then s
     else let s = (if u32CycleTimeStartValue s > 0
                   then let (t, s) = GetSystemTimeDelay (u32CycleTimeStartValue s) s;
                            s = s\<lparr>u32CycleTimeStartValue := t\<rparr>;
                            o1 = sSyncManOutPar s;
                            s = (if u32CycleTime o1 = 0 \<or> u32CycleTime o1 > t
                                 then s\<lparr>sSyncManOutPar := o1\<lparr>u32CycleTime := t\<rparr>\<rparr> else s);
                            i1 = sSyncManInPar s in
                        if u32CycleTime i1 = 0 \<or> u32CycleTime i1 > t
                        then s\<lparr>sSyncManInPar := i1\<lparr>u32CycleTime := t\<rparr>\<rparr> else s
                   else s);
              (t, s) = GetSystemTimeDelay 0 s in
          s\<lparr>u32CycleTimeStartValue := t\<rparr>)"

text \<open>The 64-bit time stamp kept beside a 32-bit DC unit.\<close>

definition COE_SyncTimeStamp :: "'z ecatappl_scheme \<Rightarrow> 'z ecatappl_scheme" where
  "COE_SyncTimeStamp s =
    (let s = (if b32BitDc s
              then let (DcTime, s) = HW_EscReadDWord ESC_SYSTEMTIME_OFFSET s;
                       ts = (u64Timestamp s AND 0xFFFFFFFF00000000) OR ucast DcTime;
                       ts = (if DcTime < u32LastDc32Value s then ts + 0x0000000100000000 else ts) in
                   s\<lparr>u64Timestamp := ts, u32LastDc32Value := DcTime\<rparr>
              else let (bs, s) = HW_EscRead ESC_SYSTEMTIME_OFFSET 8 s in
                   s\<lparr>u64Timestamp := push_bit 32 (ucast (get32 bs 4)) OR ucast (get32 bs 0)\<rparr>) in
     s\<lparr>u32CheckForDcOverrunCnt := 0\<rparr>)"

section \<open>Process data\<close>

definition PDO_InputMapping_impl :: "('z ecatappl_scheme) user_ops \<Rightarrow> 'z ecatappl_scheme \<Rightarrow> 'z ecatappl_scheme" where
  "PDO_InputMapping_impl u s =
    (let (ALEvent, s) = HW_EscReadWord 0x220 s;
         (t, s) = (if MEASUREMENT_ACTIVE s then GetSystemTimeDelay 0 s else (0, s));
         s = APPL_InputMapping u s;
         s = HW_EscWrite (unat (nEscAddrInputData s)) (take (unat (nPdInputSize s)) (aPdInputData s)) s in
     if MEASUREMENT_ACTIVE s
     then let (t, s) = GetSystemTimeDelay t s; i = sSyncManInPar s in
          if u32CalcAndCopyTime i < t then s\<lparr>sSyncManInPar := i\<lparr>u32CalcAndCopyTime := t\<rparr>\<rparr> else s
     else s)"

definition PDO_OutputMapping :: "('z ecatappl_scheme) user_ops \<Rightarrow> 'z ecatappl_scheme \<Rightarrow> 'z ecatappl_scheme" where
  "PDO_OutputMapping u s =
    (let (t, s) =
       (if MEASUREMENT_ACTIVE s
        then let (t, s) = GetSystemTimeDelay 0 s;
                 s = s\<lparr>u32MinCycleTimeStartValue := t, bMinCycleTimeMeasurementStarted := True,
                       u32MinCycleTimeValue := 0\<rparr> in
             (t, HandleCycleTimeMeasurement s)
        else (0, s));
         (bs, s) = HW_EscRead (unat (nEscAddrOutputData s)) (unat (nPdOutputSize s)) s;
         s = s\<lparr>aPdOutputData := bs @ drop (length bs) (aPdOutputData s)\<rparr>;
         s = APPL_OutputMapping u s in
     if MEASUREMENT_ACTIVE s
     then let (t, s) = GetSystemTimeDelay t s; p = sSyncManOutPar s in
          if u32CalcAndCopyTime p < t then s\<lparr>sSyncManOutPar := p\<lparr>u32CalcAndCopyTime := t\<rparr>\<rparr> else s
     else s)"

definition ECAT_Application :: "('z ecatappl_scheme) user_ops \<Rightarrow> 'z ecatappl_scheme \<Rightarrow> 'z ecatappl_scheme" where
  "ECAT_Application u s =
    APPL_Application u (if MEASUREMENT_ACTIVE s \<and> nPdOutputSize s = 0 then HandleCycleTimeMeasurement s else s)"

section \<open>The 1 ms timer\<close>

text \<open>\<open>DC_CheckWatchdog\<close> of \<open>ecatslv.c\<close> is handed in: it is defined with the state machine.\<close>

definition ECAT_CheckTimer :: "('z ecatappl_scheme) user_ops \<Rightarrow> ('z ecatappl_scheme \<Rightarrow> 'z ecatappl_scheme)
    \<Rightarrow> 'z ecatappl_scheme \<Rightarrow> 'z ecatappl_scheme" where
  "ECAT_CheckTimer u check_watchdog s =
    (let s = (if bEcatWaitForAlControlRes s \<and> 0 <s EsmTimeoutCounter s
              then s\<lparr>EsmTimeoutCounter := EsmTimeoutCounter s - 1\<rparr> else s);
         s = check_watchdog s;
         s = (if u16EepromStoreTimeoutValue s > 0
              then let s = s\<lparr>u16EepromStoreTimeoutCounter := u16EepromStoreTimeoutCounter s + 1\<rparr> in
                   if u16EepromStoreTimeoutValue s \<le> u16EepromStoreTimeoutCounter s
                   then let s = s\<lparr>u16EepromStoreTimeoutValue := 0, u16EepromStoreTimeoutCounter := 0\<rparr> in
                        (case pAPPL_EEPROM_Store u of None \<Rightarrow> s | Some f \<Rightarrow> f s)
                   else s
              else s);
         s = (if \<not> b32BitDc s \<or> u64Timestamp s AND 0xFFFFFFFF \<le> 4293000000
              then s\<lparr>u64Timestamp := u64Timestamp s + 1000000\<rparr>
              else s\<lparr>u32CheckForDcOverrunCnt := CHECK_DC_OVERRUN_IN_MS\<rparr>) in
     s\<lparr>u32CheckForDcOverrunCnt := u32CheckForDcOverrunCnt s + 1\<rparr>)"

section \<open>Interrupts\<close>

definition sync_error_of :: "16 word \<Rightarrow> syncmanpar \<Rightarrow> syncmanpar" where
  "sync_error_of limit p = p\<lparr>u8SyncError := (if u16CycleExceededCounter p > 0 \<or> u16SmEventMissedCounter p > limit then 1 else 0)\<rparr>"

definition COE_UpdateSyncErrorStatus :: "'z esm_scheme \<Rightarrow> 'z esm_scheme" where
  "COE_UpdateSyncErrorStatus s =
    s\<lparr>sSyncManOutPar := sync_error_of (u16SyncErrorCounterLimit s) (sSyncManOutPar s),
      sSyncManInPar := sync_error_of (u16SyncErrorCounterLimit s) (sSyncManInPar s)\<rparr>"

text \<open>The supervision of the SM/Sync0 sequence in \<open>Sync0_Isr\<close>.\<close>

definition Sync0_supervise :: "'z esm_scheme \<Rightarrow> 'z esm_scheme" where
  "Sync0_supervise s =
    (if u16SmSync0Value s > 0 then
       let s = (if u16SmSync0Counter s > u16SmSync0Value s
                then let o1 = sSyncManOutPar s; lim = u16SyncErrorCounterLimit s;
                         s = (if nPdOutputSize s > 0 \<and> u16SmEventMissedCounter o1 \<le> lim
                              then s\<lparr>sSyncManOutPar := o1\<lparr>u16SmEventMissedCounter := u16SmEventMissedCounter o1 + 3\<rparr>\<rparr> else s);
                         i1 = sSyncManInPar s in
                     if nPdInputSize s > 0 \<and> nPdOutputSize s = 0 \<and> u16SmEventMissedCounter i1 \<le> lim
                     then s\<lparr>sSyncManInPar := i1\<lparr>u16SmEventMissedCounter := u16SmEventMissedCounter i1 + 3\<rparr>\<rparr> else s
                else s) in
       if nPdOutputSize s = 0 \<and> nPdInputSize s > 0
       then let (ALEvent, s) = HW_EscReadWord 0x220 s in
            if ALEvent AND 0x0800 = 0
            then if u16SmSync0Counter s \<le> u16SmSync0Value s
                 then s\<lparr>u16SmSync0Counter := u16SmSync0Counter s + 1\<rparr> else s
            else s\<lparr>u16SmSync0Counter := 0, sSyncManInPar := (sSyncManInPar s)\<lparr>u16SmEventMissedCounter := 0\<rparr>\<rparr>
       else if u16SmSync0Counter s \<le> u16SmSync0Value s
       then s\<lparr>u16SmSync0Counter := u16SmSync0Counter s + 1\<rparr> else s
     else s)"

definition Sync0_Isr :: "('z ecatappl_scheme) user_ops \<Rightarrow> 'z ecatappl_scheme \<Rightarrow> 'z ecatappl_scheme" where
  "Sync0_Isr u s =
    (let s = s\<lparr>Sync0WdCounter := 0\<rparr>;
         s = (if bDcSyncActive s then
                let (bCallInputMapping, s) =
                      (if bEcatInputUpdateRunning s \<and> LatchInputSync0Value s > 0 \<and> nPdInputSize s > 0
                       then let s = (if LatchInputSync0Value s > LatchInputSync0Counter s
                                     then s\<lparr>LatchInputSync0Counter := LatchInputSync0Counter s + 1\<rparr> else s) in
                            (LatchInputSync0Value s = LatchInputSync0Counter s, s)
                       else (False, s));
                    s = Sync0_supervise s;
                    s = ECAT_Application u s in
                if bCallInputMapping
                then let s = PDO_InputMapping_impl u s in
                     if LatchInputSync0Value s = 1 then s\<lparr>LatchInputSync0Counter := 0\<rparr> else s
                else s
              else s) in
     COE_UpdateSyncErrorStatus s)"

definition Sync1_Isr :: "('z ecatappl_scheme) user_ops \<Rightarrow> 'z ecatappl_scheme \<Rightarrow> 'z ecatappl_scheme" where
  "Sync1_Isr u s =
    (let s = s\<lparr>Sync1WdCounter := 0\<rparr>;
         s = (if bEcatInputUpdateRunning s \<and> nPdInputSize s > 0 \<and> u16SyncType (sSyncManInPar s) = SYNCTYPE_DCSYNC1
                 \<and> LatchInputSync0Value s = 0
              then PDO_InputMapping_impl u s else s) in
     s\<lparr>LatchInputSync0Counter := 0\<rparr>)"

text \<open>Acknowledging the output event by reading the first and the last double word of the area.\<close>

definition ack_output_event :: "'z esm_scheme \<Rightarrow> 'z esm_scheme" where
  "ack_output_event s =
    (let (_, s) = HW_EscReadDWord (unat (nEscAddrOutputData s)) s;
         (_, s) = HW_EscReadDWord (unat (ucast (nEscAddrOutputData s) + ucast (nPdOutputSize s) - 4 :: 32 word)) s in s)"

definition PDI_output_event :: "('z ecatappl_scheme) user_ops \<Rightarrow> 'z ecatappl_scheme \<Rightarrow> 'z ecatappl_scheme" where
  "PDI_output_event u s =
    (let s = (if bDcRunning s \<and> bDcSyncActive s then s\<lparr>u16SmSync0Counter := 0\<rparr> else s);
         o1 = sSyncManOutPar s;
         s = (if u16SmEventMissedCounter o1 > 0
              then s\<lparr>sSyncManOutPar := o1\<lparr>u16SmEventMissedCounter := u16SmEventMissedCounter o1 - 1\<rparr>\<rparr> else s);
         s = s\<lparr>sSyncManInPar := (sSyncManInPar s)\<lparr>u16SmEventMissedCounter := u16SmEventMissedCounter (sSyncManOutPar s)\<rparr>\<rparr>;
         s = s\<lparr>bEcatFirstOutputsReceived := True\<rparr> in
     if bEcatOutputUpdateRunning s then PDO_OutputMapping u s else ack_output_event s)"

definition PDI_process_data :: "('z ecatappl_scheme) user_ops \<Rightarrow> 16 word \<Rightarrow> 'z ecatappl_scheme \<Rightarrow> 16 word \<times> 'z ecatappl_scheme" where
  "PDI_process_data u ALEvent s =
    (if bEscIntEnabled s then
       let s = (if ALEvent AND 0x0400 \<noteq> 0 then PDI_output_event u s else s);
           s = (if u16SyncType (sSyncManOutPar s) = SYNCTYPE_SM_SYNCHRON then ECAT_Application u s else s);
           s = (if bEcatInputUpdateRunning s \<and> nPdInputSize s > 0
                   \<and> u16SyncType (sSyncManInPar s) \<in> {SYNCTYPE_SM_SYNCHRON, SYNCTYPE_SM2_SYNCHRON}
                then PDO_InputMapping_impl u s else s);
           (ALEvent, s) = HW_EscReadWord 0x220 s;
           s = (if ALEvent AND 0x0400 \<noteq> 0
                then let p = sSyncManOutPar s;
                         s = s\<lparr>sSyncManOutPar := p\<lparr>u16CycleExceededCounter := u16CycleExceededCounter p + 1\<rparr>\<rparr>;
                         s = s\<lparr>sSyncManInPar := (sSyncManInPar s)\<lparr>u16CycleExceededCounter := u16CycleExceededCounter (sSyncManOutPar s)\<rparr>\<rparr> in
                     ack_output_event s
                else s) in
       (ALEvent, s)
     else (ALEvent, s))"

definition PDI_Isr :: "('z ecatappl_scheme) user_ops \<Rightarrow> 'z ecatappl_scheme \<Rightarrow> 'z ecatappl_scheme" where
  "PDI_Isr u s =
    (let (ALEvent, s) = HW_EscReadWord 0x220 s;
         sync1 = (ALEvent AND SYNC1_EVENT \<noteq> 0);
         s = (if sync1 then Sync1_Isr u s else s);
         (ALEvent, s) = PDI_process_data u ALEvent s;
         sync0 = (ALEvent AND SYNC0_EVENT \<noteq> 0);
         s = (if sync0 then Sync0_Isr u s else s);
         s = (if sync1 \<or> sync0 then snd (HW_EscReadDWord 0x98C s) else s) in
     COE_UpdateSyncErrorStatus s)"

section \<open>EEPROM emulation\<close>

abbreviation ESC_EEPROM_SIZE :: "32 word" where "ESC_EEPROM_SIZE \<equiv> 0x800"
abbreviation ESC_EEPROM_ERROR_CMD_ACK :: "32 word" where "ESC_EEPROM_ERROR_CMD_ACK \<equiv> 0x20000000"
abbreviation ESC_EEPROM_ERROR_CRC :: "32 word" where "ESC_EEPROM_ERROR_CRC \<equiv> 0x08000000"
abbreviation ESC_EEPROM_ERROR_MASK :: "32 word" where "ESC_EEPROM_ERROR_MASK \<equiv> 0x78000000"
abbreviation ESC_EEPROM_CMD_MASK :: "32 word" where "ESC_EEPROM_CMD_MASK \<equiv> 0x07000000"
abbreviation ESC_EEPROM_CMD_RELOAD :: "32 word" where "ESC_EEPROM_CMD_RELOAD \<equiv> 0x04000000"

text \<open>Reading words of the emulated EEPROM into the data register.  The array has
  \<open>ESC_EEPROM_SIZE\<close> bytes and is addressed in words; an access beyond it is undefined in C
  and recorded as a memory fault.\<close>

definition eeprom_to_esc :: "32 word \<Rightarrow> 8 word list \<Rightarrow> 'z ecatappl_scheme \<Rightarrow> 'z ecatappl_scheme" where
  "eeprom_to_esc a ee s =
    (let off = 2 * unat a; n = unat (EepromReadSize s) in
     if off + n \<le> length ee then HW_EscWrite 0x508 (get_bytes ee off n) s
     else s\<lparr>mem := (mem s)\<lparr>mem_fault := True\<rparr>\<rparr>)"

definition EEPROM_read :: "('z ecatappl_scheme) user_ops \<Rightarrow> 32 word \<Rightarrow> 'z ecatappl_scheme \<Rightarrow> bool \<times> 'z ecatappl_scheme" where
  "EEPROM_read u a s =
    (case pAPPL_EEPROM_Read u of
       Some f \<Rightarrow> (let (r, s) = f a s in (r > 0, s))
     | None \<Rightarrow> (case pEEPROM s of
                  Some ee \<Rightarrow> if a \<le> ESC_EEPROM_SIZE then (False, eeprom_to_esc a ee s) else (True, s)
                | None \<Rightarrow> (True, s)))"

definition EEPROM_write :: "('z ecatappl_scheme) user_ops \<Rightarrow> 32 word \<Rightarrow> 'z ecatappl_scheme \<Rightarrow> bool \<times> 'z ecatappl_scheme" where
  "EEPROM_write u a s =
    (case pAPPL_EEPROM_Write u of
       Some f \<Rightarrow> (let (r, s) = f a s in (r > 0, s))
     | None \<Rightarrow> (case pEEPROM s of
                  Some ee \<Rightarrow>
                    if a \<le> ESC_EEPROM_SIZE
                    then let (bs, s) = HW_EscRead 0x508 2 s; off = 2 * unat a in
                         (False, if off + 2 \<le> length ee then s\<lparr>pEEPROM := Some (put_bytes off bs ee)\<rparr>
                                 else s\<lparr>mem := (mem s)\<lparr>mem_fault := True\<rparr>\<rparr>)
                    else (True, s)
                | None \<Rightarrow> (True, s)))"

text \<open>The reload loop: one turn for each segment while the reload command stays set.  The fuel
  bounds the turns; running out of it sets \<open>hung\<close>.\<close>

fun EEPROM_reload_loop :: "('z ecatappl_scheme) user_ops \<Rightarrow> nat \<Rightarrow> 32 word \<Rightarrow> 32 word \<Rightarrow> 'z ecatappl_scheme
    \<Rightarrow> 32 word \<times> 'z ecatappl_scheme" where
  "EEPROM_reload_loop u 0 a reg s = (reg, s\<lparr>hung := True\<rparr>)"
| "EEPROM_reload_loop u (Suc n) a reg s =
    (if a > ESC_EEPROM_SIZE then (reg OR ESC_EEPROM_ERROR_CMD_ACK, s)
     else let (bad, s) = EEPROM_read u a s in
          if bad then (reg OR ESC_EEPROM_ERROR_CMD_ACK, s)
          else let reg = reg AND NOT ESC_EEPROM_ERROR_MASK;
                   s = HW_EscWriteDWord reg 0x500 s;
                   (reg, s) = HW_EscReadDWord 0x500 s;
                   (a, s) = HW_EscReadDWord 0x504 s in
               if reg AND ESC_EEPROM_CMD_MASK = ESC_EEPROM_CMD_RELOAD
               then EEPROM_reload_loop u n a reg s else (reg, s))"

definition EEPROM_reload_small :: "('z ecatappl_scheme) user_ops \<Rightarrow> 32 word \<Rightarrow> 'z ecatappl_scheme \<Rightarrow> 32 word \<times> 'z ecatappl_scheme" where
  "EEPROM_reload_small u reg s =
    (case pAPPL_EEPROM_Reload u of
       Some f \<Rightarrow> (let (r, s) = f s in
                  (if r > 0 then reg OR ESC_EEPROM_ERROR_CMD_ACK else reg AND NOT ESC_EEPROM_ERROR_CRC, s))
     | None \<Rightarrow> (let (r, s) = HW_EepromReload u s in
                case pEEPROM s of
                  None \<Rightarrow> (reg OR ESC_EEPROM_ERROR_CRC, s)
                | Some ee \<Rightarrow> if r \<noteq> 0 then (reg OR ESC_EEPROM_ERROR_CRC, s)
                             else (reg AND NOT ESC_EEPROM_ERROR_CRC, HW_EscWriteDWord (get32 ee 8) 0x508 s)))"

definition EEPROM_CommandHandler_impl :: "('z ecatappl_scheme) user_ops \<Rightarrow> 'z ecatappl_scheme \<Rightarrow> 'z ecatappl_scheme" where
  "EEPROM_CommandHandler_impl u s =
    (let (reg, s) = HW_EscReadDWord 0x500 s in
     if reg AND 0x80000000 \<noteq> 0 then
       let cmd = reg AND ESC_EEPROM_CMD_MASK;
           (a, s) = HW_EscReadDWord 0x504 s;
           reg = reg AND NOT (ESC_EEPROM_ERROR_MASK AND NOT ESC_EEPROM_ERROR_CRC);
           (reg, s) =
             (if cmd = 0 then (reg, s)
              else if cmd = 0x01000000
              then let (bad, s) = EEPROM_read u a s in (if bad then reg OR ESC_EEPROM_ERROR_CMD_ACK else reg, s)
              else if cmd = 0x02000000
              then let (bad, s) = EEPROM_write u a s in
                   (if bad then reg OR ESC_EEPROM_ERROR_CMD_ACK else reg, s\<lparr>u16EepromStoreTimeoutValue := 1000\<rparr>)
              else if cmd = ESC_EEPROM_CMD_RELOAD
              then if EepromReadSize s = 8 then EEPROM_reload_loop u (spin_fuel s) a reg s
                   else EEPROM_reload_small u reg s
              else (reg OR ESC_EEPROM_ERROR_CMD_ACK, s));
           s = s\<lparr>u16EepromStoreTimeoutCounter := 0\<rparr> in
       HW_EscWriteDWord reg 0x500 s
     else s)"

end
