(* ===== verification/ObjDic.thy ===== *)
theory ObjDic
  imports EcatAppl
begin

text \<open>
  The object dictionary: the object descriptions of \<open>objdef.h\<close> and \<open>sdoserv.h\<close>, the list of
  objects of \<open>coeappl.c\<close>, and the objects of this slave (\<open>coeappl.c\<close>, \<open>digital_ioObjects.h\<close>, the
  layout without \<open>RMCS_ECAT_HYBRID_PD\<close>).

  The dictionary is a doubly linked list through the elements of two static arrays.  \<open>obj_mem\<close> is
  the memory of these elements: \<open>GenObjDic\<close> lies at the addresses 1 to 12, \<open>ApplicationObjDic\<close>
  at 13 to 20, both with the element that ends the array.  A loop along the list is a
  \<open>partial_function\<close>: it has no value when the list is circular.
\<close>

unbundle bit_operations_syntax

section \<open>Objects\<close>

record entry_desc =
  DataType :: "16 word"
  BitLength :: "16 word"
  ObjAccess :: "16 word"

text \<open>What \<open>pVarPtr\<close> points to: a variable of its own, one of those the stack uses elsewhere, or, in an
  object that describes an enumeration, an array of texts.\<close>

datatype varref = PlainVar nat | SmOutPar | SmInPar | ErrSettings | TimeStampVar | EnumTexts "8 word list list"

record tobject =
  pPrev :: ptr
  pNext :: ptr
  Index :: "16 word"
  ObjDescType :: "16 word"
  ObjFlags :: "16 word"
  pEntryDesc :: "entry_desc list"
  pName :: "8 word list"
  pVarPtr :: varref
  ObjRead :: "obj_fn option"
  ObjWrite :: "obj_fn option"
  NonVolatileOffset :: "16 word"

record dictionary =
  ObjDicList :: ptr
  obj_mem :: "ptr \<Rightarrow> tobject"

abbreviation OBJCODE_VAR :: "16 word" where "OBJCODE_VAR \<equiv> 7"
abbreviation OBJCODE_ARR :: "16 word" where "OBJCODE_ARR \<equiv> 8"
abbreviation OBJCODE_REC :: "16 word" where "OBJCODE_REC \<equiv> 9"

abbreviation ACCESS_READ :: "16 word" where "ACCESS_READ \<equiv> 7"
abbreviation ACCESS_WRITE :: "16 word" where "ACCESS_WRITE \<equiv> 0x38"
abbreviation ACCESS_READWRITE :: "16 word" where "ACCESS_READWRITE \<equiv> 0x3F"
abbreviation ACCESS_WRITE_PREOP :: "16 word" where "ACCESS_WRITE_PREOP \<equiv> 8"
abbreviation OBJACCESS_RXPDOMAPPING :: "16 word" where "OBJACCESS_RXPDOMAPPING \<equiv> 0x40"
abbreviation OBJACCESS_TXPDOMAPPING :: "16 word" where "OBJACCESS_TXPDOMAPPING \<equiv> 0x80"

abbreviation DEFTYPE_BOOLEAN :: "16 word" where "DEFTYPE_BOOLEAN \<equiv> 1"
abbreviation DEFTYPE_UNSIGNED8 :: "16 word" where "DEFTYPE_UNSIGNED8 \<equiv> 5"
abbreviation DEFTYPE_UNSIGNED16 :: "16 word" where "DEFTYPE_UNSIGNED16 \<equiv> 6"
abbreviation DEFTYPE_UNSIGNED32 :: "16 word" where "DEFTYPE_UNSIGNED32 \<equiv> 7"
abbreviation DEFTYPE_VISIBLESTRING :: "16 word" where "DEFTYPE_VISIBLESTRING \<equiv> 9"
abbreviation DEFTYPE_UNSIGNED64 :: "16 word" where "DEFTYPE_UNSIGNED64 \<equiv> 0x1B"
abbreviation DEFTYPE_PDOMAPPING :: "16 word" where "DEFTYPE_PDOMAPPING \<equiv> 0x21"
abbreviation DEFTYPE_IDENTITY :: "16 word" where "DEFTYPE_IDENTITY \<equiv> 0x23"
abbreviation DEFTYPE_SMPAR :: "16 word" where "DEFTYPE_SMPAR \<equiv> 0x29"
abbreviation DEFTYPE_RECORD :: "16 word" where "DEFTYPE_RECORD \<equiv> 0x2A"

definition objCode :: "tobject \<Rightarrow> 16 word" where
  "objCode ob = drop_bit 8 (ObjFlags ob AND 0x0F00)"

definition flagsMaxSubindex :: "tobject \<Rightarrow> nat" where
  "flagsMaxSubindex ob = unat (ObjFlags ob AND 0xFF)"

section \<open>The list of objects\<close>

definition obj_link :: "ptr \<Rightarrow> (tobject \<Rightarrow> tobject) \<Rightarrow> (ptr \<Rightarrow> tobject) \<Rightarrow> ptr \<Rightarrow> tobject" where
  "obj_link p f m = m(p := f (m p))"

definition COE_GetObjectDictionary :: "dictionary \<Rightarrow> ptr" where
  "COE_GetObjectDictionary d = ObjDicList d"

partial_function (option) find_object :: "16 word \<Rightarrow> (ptr \<Rightarrow> tobject) \<Rightarrow> ptr \<Rightarrow> ptr option" where
  "find_object ix m p =
    (if p = NULL then Some NULL else if Index (m p) = ix then Some p else find_object ix m (pNext (m p)))"

definition OBJ_GetObjectHandle :: "16 word \<Rightarrow> dictionary \<Rightarrow> ptr option" where
  "OBJ_GetObjectHandle ix d = find_object ix (obj_mem d) (COE_GetObjectDictionary d)"

definition insert_before :: "ptr \<Rightarrow> ptr \<Rightarrow> (ptr \<Rightarrow> tobject) \<Rightarrow> ptr \<Rightarrow> tobject" where
  "insert_before new p m =
    (let m = obj_link new (\<lambda>ob. ob\<lparr>pPrev := pPrev (m p)\<rparr>) m;
         m = obj_link new (\<lambda>ob. ob\<lparr>pNext := p\<rparr>) m;
         m = (if pPrev (m p) \<noteq> NULL then obj_link (pPrev (m p)) (\<lambda>ob. ob\<lparr>pNext := new\<rparr>) m else m) in
     obj_link p (\<lambda>ob. ob\<lparr>pPrev := new\<rparr>) m)"

definition append_after :: "ptr \<Rightarrow> ptr \<Rightarrow> (ptr \<Rightarrow> tobject) \<Rightarrow> ptr \<Rightarrow> tobject" where
  "append_after new p m =
    obj_link new (\<lambda>ob. ob\<lparr>pPrev := p, pNext := NULL\<rparr>) (obj_link p (\<lambda>ob. ob\<lparr>pNext := new\<rparr>) m)"

partial_function (option) add_loop :: "ptr \<Rightarrow> (ptr \<Rightarrow> tobject) \<Rightarrow> ptr \<Rightarrow> (16 word \<times> (ptr \<Rightarrow> tobject)) option" where
  "add_loop new m p =
    (if p = NULL then Some (ALSTATUSCODE_UNSPECIFIEDERROR, m)
     else if Index (m p) = Index (m new) then Some (ALSTATUSCODE_UNSPECIFIEDERROR, m)
     else if Index (m new) < Index (m p) then Some (0, insert_before new p m)
     else if pNext (m p) = NULL then Some (0, append_after new p m)
     else add_loop new m (pNext (m p)))"

definition COE_AddObjectToDic :: "ptr \<Rightarrow> dictionary \<Rightarrow> (16 word \<times> dictionary) option" where
  "COE_AddObjectToDic new d =
    (let m = obj_mem d in
     if new = NULL then Some (ALSTATUSCODE_UNSPECIFIEDERROR, d)
     else if ObjDicList d = NULL
     then Some (0, \<lparr>ObjDicList = new, obj_mem = obj_link new (\<lambda>ob. ob\<lparr>pNext := NULL, pPrev := NULL\<rparr>) m\<rparr>)
     else if Index (m new) < Index (m (ObjDicList d))
     then Some (0, \<lparr>ObjDicList = new,
                    obj_mem = obj_link (ObjDicList d) (\<lambda>ob. ob\<lparr>pPrev := new\<rparr>)
                                (obj_link new (\<lambda>ob. ob\<lparr>pPrev := NULL, pNext := ObjDicList d\<rparr>) m)\<rparr>)
     else case add_loop new m (ObjDicList d) of
            None \<Rightarrow> None
          | Some (r, m) \<Rightarrow> Some (r, d\<lparr>obj_mem := m\<rparr>))"

definition unlink_object :: "ptr \<Rightarrow> dictionary \<Rightarrow> dictionary" where
  "unlink_object p d =
    (let m = obj_mem d; prev = pPrev (m p); next = pNext (m p);
         m = (if prev \<noteq> NULL then obj_link prev (\<lambda>ob. ob\<lparr>pNext := next\<rparr>) m else m);
         m = (if next \<noteq> NULL then obj_link next (\<lambda>ob. ob\<lparr>pPrev := prev\<rparr>) m else m);
         m = obj_link p (\<lambda>ob. ob\<lparr>pPrev := NULL, pNext := NULL\<rparr>) m in
     \<lparr>ObjDicList = (if Index (m p) = Index (m (ObjDicList d)) then next else ObjDicList d), obj_mem = m\<rparr>)"

partial_function (option) remove_loop :: "16 word \<Rightarrow> dictionary \<Rightarrow> ptr \<Rightarrow> dictionary option" where
  "remove_loop ix d p =
    (if p = NULL then Some d
     else if Index (obj_mem d p) = ix then Some (unlink_object p d)
     else remove_loop ix d (pNext (obj_mem d p)))"

definition COE_RemoveDicEntry :: "16 word \<Rightarrow> dictionary \<Rightarrow> dictionary option" where
  "COE_RemoveDicEntry ix d = remove_loop ix d (ObjDicList d)"

partial_function (option) clear_loop :: "dictionary \<Rightarrow> ptr \<Rightarrow> dictionary option" where
  "clear_loop d p =
    (if p = NULL then Some d
     else case COE_RemoveDicEntry (Index (obj_mem d p)) d of
            None \<Rightarrow> None
          | Some d' \<Rightarrow> clear_loop d' (pNext (obj_mem d p)))"

definition COE_ClearObjDictionary :: "dictionary \<Rightarrow> dictionary option" where
  "COE_ClearObjDictionary d =
    (case clear_loop d (ObjDicList d) of None \<Rightarrow> None | Some d \<Rightarrow> Some (d\<lparr>ObjDicList := NULL\<rparr>))"

partial_function (option) AddObjectsToObjDictionary :: "ptr \<Rightarrow> dictionary \<Rightarrow> (16 word \<times> dictionary) option" where
  "AddObjectsToObjDictionary p d =
    (if Index (obj_mem d p) = 0xFFFF then Some (0, d)
     else case COE_AddObjectToDic p d of
            None \<Rightarrow> None
          | Some (r, d) \<Rightarrow> if r \<noteq> 0 then Some (r, d) else AddObjectsToObjDictionary (p + 1) d)"

abbreviation GenObjDic :: ptr where "GenObjDic \<equiv> 1"
abbreviation ApplicationObjDic :: ptr where "ApplicationObjDic \<equiv> 13"

definition COE_ObjDictionaryInit :: "dictionary \<Rightarrow> (16 word \<times> dictionary) option" where
  "COE_ObjDictionaryInit d =
    (case AddObjectsToObjDictionary GenObjDic (d\<lparr>ObjDicList := NULL\<rparr>) of
       None \<Rightarrow> None
     | Some (r, d) \<Rightarrow>
         if r \<noteq> 0 then Some (r, d)
         else if ApplicationObjDic \<noteq> NULL then AddObjectsToObjDictionary ApplicationObjDic d
         else Some (r, d))"

end
