(* ===== verification/ObjAccess.thy ===== *)
theory ObjAccess
  imports ObjDic
begin

text \<open>
  Access to object entries, \<open>objdef.c\<close>: lengths, offsets, reading and writing of entries.

  The variable behind an object is a byte list, either one of \<open>obj_vars\<close> or, for the objects that
  show variables of the stack, the packed structure of these variables (\<open>var_bytes\<close>).  An access
  outside a variable, an entry description array or a buffer sets \<open>mem_fault\<close>.  \<open>bCompleteAccess\<close> is
  a truth value.  \<open>OBJ_WORD_ALIGN\<close> and \<open>OBJ_DWORD_ALIGN\<close> are 0.
\<close>

unbundle bit_operations_syntax

record sdo = ecatappl +
  dic :: dictionary
  obj_vars :: "nat \<Rightarrow> 8 word list"
  nSdoInfoIndex :: "16 word"
  pSdoInfoObjEntry :: ptr
  bSdoSegFollows :: bool
  bSdoSegAccess :: bool
  bSdoSegLastToggle :: "8 word"
  nSdoSegIndex :: "16 word"
  nSdoSegSubindex :: "8 word"
  nSdoSegCompleteSize :: "32 word"
  pSdoSegObjEntry :: ptr

text \<open>What an application may add: access functions of its own objects, and the indications.\<close>

record 's coe_user =
  app_fn :: "nat \<Rightarrow> 16 word \<Rightarrow> 8 word \<Rightarrow> 32 word \<Rightarrow> buf \<Rightarrow> bool \<Rightarrow> 's \<Rightarrow> 8 word \<times> 's"
  pAPPL_CoeReadInd :: "(16 word \<Rightarrow> 8 word \<Rightarrow> bool \<Rightarrow> 's \<Rightarrow> 's) option"
  pAPPL_CoeWriteInd :: "(16 word \<Rightarrow> 8 word \<Rightarrow> bool \<Rightarrow> 's \<Rightarrow> 's) option"

abbreviation ABORTIDX_TOGGLE_BIT_NOT_CHANGED :: "8 word" where "ABORTIDX_TOGGLE_BIT_NOT_CHANGED \<equiv> 0x01"
abbreviation ABORTIDX_COMMAND_SPECIFIER_UNKNOWN :: "8 word" where "ABORTIDX_COMMAND_SPECIFIER_UNKNOWN \<equiv> 0x03"
abbreviation ABORTIDX_OUT_OF_MEMORY :: "8 word" where "ABORTIDX_OUT_OF_MEMORY \<equiv> 0x04"
abbreviation ABORTIDX_UNSUPPORTED_ACCESS :: "8 word" where "ABORTIDX_UNSUPPORTED_ACCESS \<equiv> 0x05"
abbreviation ABORTIDX_WRITE_ONLY_ENTRY :: "8 word" where "ABORTIDX_WRITE_ONLY_ENTRY \<equiv> 0x06"
abbreviation ABORTIDX_READ_ONLY_ENTRY :: "8 word" where "ABORTIDX_READ_ONLY_ENTRY \<equiv> 0x07"
abbreviation ABORTIDX_OBJECT_NOT_EXISTING :: "8 word" where "ABORTIDX_OBJECT_NOT_EXISTING \<equiv> 0x08"
abbreviation ABORTIDX_PARAM_IS_INCOMPATIBLE :: "8 word" where "ABORTIDX_PARAM_IS_INCOMPATIBLE \<equiv> 0x0B"
abbreviation ABORTIDX_PARAM_LENGTH_ERROR :: "8 word" where "ABORTIDX_PARAM_LENGTH_ERROR \<equiv> 0x0E"
abbreviation ABORTIDX_PARAM_LENGTH_TOO_LONG :: "8 word" where "ABORTIDX_PARAM_LENGTH_TOO_LONG \<equiv> 0x0F"
abbreviation ABORTIDX_SUBINDEX_NOT_EXISTING :: "8 word" where "ABORTIDX_SUBINDEX_NOT_EXISTING \<equiv> 0x11"
abbreviation ABORTIDX_VALUE_EXCEEDED :: "8 word" where "ABORTIDX_VALUE_EXCEEDED \<equiv> 0x12"
abbreviation ABORTIDX_VALUE_TOO_GREAT :: "8 word" where "ABORTIDX_VALUE_TOO_GREAT \<equiv> 0x13"
abbreviation ABORTIDX_DATA_CANNOT_BE_READ_OR_STORED :: "8 word" where "ABORTIDX_DATA_CANNOT_BE_READ_OR_STORED \<equiv> 0x18"
abbreviation ABORTIDX_IN_THIS_STATE :: "8 word" where "ABORTIDX_IN_THIS_STATE \<equiv> 0x1A"
abbreviation ABORTIDX_NO_OBJECT_DICTIONARY :: "8 word" where "ABORTIDX_NO_OBJECT_DICTIONARY \<equiv> 0x1B"
abbreviation ABORTIDX_ENTRY_CANT_BE_WRITTEN_SI0_NOT_0 :: "8 word" where "ABORTIDX_ENTRY_CANT_BE_WRITTEN_SI0_NOT_0 \<equiv> 0x1C"
abbreviation ABORTIDX_WORKING :: "8 word" where "ABORTIDX_WORKING \<equiv> 0xFF"

definition BIT2BYTE :: "16 word \<Rightarrow> nat" where
  "BIT2BYTE w = (unat w + 7) div 8"

section \<open>Variables and buffers\<close>

definition note_fault :: "bool \<Rightarrow> 'z mach_scheme \<Rightarrow> 'z mach_scheme" where
  "note_fault b s = s\<lparr>mem := (mem s)\<lparr>mem_fault := mem_fault (mem s) \<or> b\<rparr>\<rparr>"

text \<open>The packed structures \<open>TSYNCMANPAR\<close> and \<open>TOBJ10F1\<close>.  The places without a variable in the model
  are constant in the program.\<close>

definition sm_bytes :: "syncmanpar \<Rightarrow> 8 word list" where
  "sm_bytes p = le16_bytes 32 @ le16_bytes (u16SyncType p) @ le32_bytes (u32CycleTime p) @ le32_bytes 0
     @ le16_bytes (u16SyncTypesSupported p) @ le32_bytes (u32MinCycleTime p) @ le32_bytes (u32CalcAndCopyTime p)
     @ le32_bytes 0 @ le16_bytes (u16GetCycleTime p) @ le32_bytes (u32DelayTime p) @ le32_bytes (u32Sync0CycleTime p)
     @ le16_bytes (u16SmEventMissedCounter p) @ le16_bytes (u16CycleExceededCounter p)
     @ le16_bytes 0 @ le16_bytes 0 @ le32_bytes 0 @ le32_bytes 0 @ le32_bytes 0 @ le32_bytes 0 @ [u8SyncError p]"

definition sm_of_bytes :: "8 word list \<Rightarrow> syncmanpar" where
  "sm_of_bytes bs = \<lparr>u16SyncType = get16 bs 2, u32CycleTime = get32 bs 4, u16SyncTypesSupported = get16 bs 12,
     u32MinCycleTime = get32 bs 14, u32CalcAndCopyTime = get32 bs 18, u16GetCycleTime = get16 bs 26,
     u32DelayTime = get32 bs 28, u32Sync0CycleTime = get32 bs 32, u16SmEventMissedCounter = get16 bs 36,
     u16CycleExceededCounter = get16 bs 38, u8SyncError = byte_at bs 60\<rparr>"

definition err_bytes :: "16 word \<Rightarrow> 8 word list" where
  "err_bytes limit = le16_bytes 2 @ le32_bytes 1 @ le16_bytes limit"

definition le64_bytes :: "64 word \<Rightarrow> 8 word list" where
  "le64_bytes w = le32_bytes (ucast w) @ le32_bytes (ucast (drop_bit 32 w))"

definition get64 :: "8 word list \<Rightarrow> nat \<Rightarrow> 64 word" where
  "get64 bs off = ucast (get32 bs off) OR push_bit 32 (ucast (get32 bs (off + 4)))"

fun var_bytes :: "varref \<Rightarrow> 'z sdo_scheme \<Rightarrow> 8 word list" where
  "var_bytes (PlainVar k) s = obj_vars s k"
| "var_bytes SmOutPar s = sm_bytes (sSyncManOutPar s)"
| "var_bytes SmInPar s = sm_bytes (sSyncManInPar s)"
| "var_bytes ErrSettings s = err_bytes (u16SyncErrorCounterLimit s)"
| "var_bytes TimeStampVar s = le64_bytes (u64Timestamp s)"
| "var_bytes (EnumTexts ts) s = []"

fun var_put :: "varref \<Rightarrow> 8 word list \<Rightarrow> 'z sdo_scheme \<Rightarrow> 'z sdo_scheme" where
  "var_put (PlainVar k) bs s = s\<lparr>obj_vars := (obj_vars s)(k := bs)\<rparr>"
| "var_put SmOutPar bs s = s\<lparr>sSyncManOutPar := sm_of_bytes bs\<rparr>"
| "var_put SmInPar bs s = s\<lparr>sSyncManInPar := sm_of_bytes bs\<rparr>"
| "var_put ErrSettings bs s = s\<lparr>u16SyncErrorCounterLimit := get16 bs 6\<rparr>"
| "var_put TimeStampVar bs s = s\<lparr>u64Timestamp := get64 bs 0\<rparr>"
| "var_put (EnumTexts ts) bs s = s"

definition var_load :: "varref \<Rightarrow> nat \<Rightarrow> nat \<Rightarrow> 'z sdo_scheme \<Rightarrow> 8 word list \<times> 'z sdo_scheme" where
  "var_load v off n s =
    (let bs = var_bytes v s in
     (map (\<lambda>i. byte_at bs (off + i)) [0..<n], note_fault (length bs < off + n) s))"

definition var_store :: "varref \<Rightarrow> nat \<Rightarrow> 8 word list \<Rightarrow> 'z sdo_scheme \<Rightarrow> 'z sdo_scheme" where
  "var_store v off d s =
    (let bs = var_bytes v s in
     if off + length d \<le> length bs then var_put v (put_bytes off d bs) s else note_fault True s)"

definition buf_load :: "buf \<Rightarrow> nat \<Rightarrow> 'z mach_scheme \<Rightarrow> 8 word list \<times> 'z mach_scheme" where
  "buf_load b n s = (case b of (p, off) \<Rightarrow>
     (map (\<lambda>i. byte_at (m_block p (mem s)) (off + i)) [0..<n], mem_touch p (off + n) s))"

definition buf_store :: "buf \<Rightarrow> 8 word list \<Rightarrow> 'z mach_scheme \<Rightarrow> 'z mach_scheme" where
  "buf_store b d s = (case b of (p, off) \<Rightarrow> mem_write p off d s)"

definition buf_skip :: "buf \<Rightarrow> nat \<Rightarrow> buf" where
  "buf_skip b n = (fst b, snd b + n)"

definition var_load16 :: "varref \<Rightarrow> nat \<Rightarrow> 'z sdo_scheme \<Rightarrow> 16 word \<times> 'z sdo_scheme" where
  "var_load16 v off s = (let (bs, s) = var_load v off 2 s in (get16 bs 0, s))"

definition buf_load16 :: "buf \<Rightarrow> 'z mach_scheme \<Rightarrow> 16 word \<times> 'z mach_scheme" where
  "buf_load16 b s = (let (bs, s) = buf_load b 2 s in (get16 bs 0, s))"

section \<open>Descriptions, lengths and offsets\<close>

definition the_obj :: "ptr \<Rightarrow> 'z sdo_scheme \<Rightarrow> tobject" where
  "the_obj p s = obj_mem (dic s) p"

definition entry_ix :: "tobject \<Rightarrow> nat \<Rightarrow> nat" where
  "entry_ix ob sub = (if objCode ob = OBJCODE_ARR then (if sub = 0 then 0 else 1) else sub)"

text \<open>The value of a description past the end of the array is not determined by the code.\<close>

definition entry_at :: "tobject \<Rightarrow> nat \<Rightarrow> entry_desc" where
  "entry_at ob i = (if i < length (pEntryDesc ob) then pEntryDesc ob ! i
     else \<lparr>DataType = 0, BitLength = 0, ObjAccess = 0\<rparr>)"

definition OBJ_GetEntryDesc :: "tobject \<Rightarrow> nat \<Rightarrow> entry_desc" where
  "OBJ_GetEntryDesc ob sub = entry_at ob (entry_ix ob sub)"

definition entry_outside :: "tobject \<Rightarrow> nat \<Rightarrow> bool" where
  "entry_outside ob sub = (length (pEntryDesc ob) \<le> entry_ix ob sub)"

definition OBJ_GetObjDesc :: "tobject \<Rightarrow> 16 word \<times> 16 word" where
  "OBJ_GetObjDesc ob = (ObjDescType ob, ObjFlags ob)"

definition bits_to_bytes :: "32 word \<Rightarrow> 32 word" where
  "bits_to_bytes w = drop_bit 3 (w + 7)"

definition OBJ_GetObjectLength :: "8 word \<Rightarrow> tobject \<Rightarrow> bool \<Rightarrow> 'z sdo_scheme \<Rightarrow> 32 word \<times> 'z sdo_scheme" where
  "OBJ_GetObjectLength subindex ob ca s =
    (let maxSubindex = flagsMaxSubindex ob in
     if ca
     then if objCode ob = OBJCODE_VAR then (0, s)
          else if objCode ob = OBJCODE_ARR
          then let (si0, s) = var_load16 (pVarPtr ob) 0 s;
                   maxSubindex = unat (ucast si0 :: 8 word);
                   size = ucast (BitLength (entry_at ob 1)) * of_nat maxSubindex;
                   size = bits_to_bytes size in
               (if subindex = 0 then size + 2 else size, note_fault (length (pEntryDesc ob) \<le> 1) s)
          else let size = sum_list (map (\<lambda>i. ucast (BitLength (entry_at ob i))) [1..<maxSubindex + 1]);
                   size = bits_to_bytes size in
               (if subindex = 0 then size + 2 else size, note_fault (length (pEntryDesc ob) \<le> maxSubindex) s)
     else if objCode ob = OBJCODE_VAR
          then (bits_to_bytes (ucast (BitLength (entry_at ob 0))), note_fault (pEntryDesc ob = []) s)
          else if subindex = 0 then (1, s)
          else if objCode ob = OBJCODE_ARR
          then (bits_to_bytes (ucast (BitLength (entry_at ob 1))), note_fault (length (pEntryDesc ob) \<le> 1) s)
          else if maxSubindex < unat subindex then (0, s)
          else (bits_to_bytes (ucast (BitLength (entry_at ob (unat subindex)))),
                note_fault (length (pEntryDesc ob) \<le> unat subindex) s))"

definition entry_width :: "entry_desc \<Rightarrow> 16 word" where
  "entry_width e =
    (if DataType e \<in> {0x03, 0x06, 0x2E, 0x1F, 0x0B, 0x260}
     then if DataType e \<in> {0x0B, 0x260} then BitLength e else 16
     else if DataType e \<in> {0x07, 0x04, 0x08, 0x2F, 0x20, 0x262, 0x263}
     then if DataType e \<in> {0x262, 0x263} then BitLength e else 32
     else if DataType e \<in> {0x11, 0x15, 0x1B} then 64
     else BitLength e)"

definition OBJ_GetEntryOffset :: "nat \<Rightarrow> tobject \<Rightarrow> 16 word" where
  "OBJ_GetEntryOffset subindex ob =
    (let bitOffset = (if 0 < subindex then 16 else 0) in
     if objCode ob = OBJCODE_VAR then 0
     else fold (\<lambda>i off. if i < subindex
                        then off + entry_width (entry_at ob (if objCode ob = OBJCODE_ARR then 1 else i))
                        else off) [1..<subindex + 1] bitOffset)"

section \<open>Access rights and types\<close>

definition read_rights :: "entry_desc \<Rightarrow> 'z mbx_scheme \<Rightarrow> bool" where
  "read_rights e s = ((ucast (push_bit 1 (ObjAccess e AND ACCESS_READ)) :: 8 word) AND (nAlStatus s AND STATE_MASK) \<noteq> 0)"

definition write_rights :: "entry_desc \<Rightarrow> 'z mbx_scheme \<Rightarrow> bool" where
  "write_rights e s = ((ucast (drop_bit 2 (ObjAccess e AND ACCESS_WRITE)) :: 8 word) AND (nAlStatus s AND STATE_MASK) \<noteq> 0)"

definition read_refused :: "entry_desc \<Rightarrow> 8 word" where
  "read_refused e = (if ObjAccess e AND ACCESS_READ = 0 then ABORTIDX_WRITE_ONLY_ENTRY else ABORTIDX_IN_THIS_STATE)"

definition write_refused :: "entry_desc \<Rightarrow> 8 word" where
  "write_refused e =
    (if ObjAccess e AND ACCESS_WRITE = 0
     then if ObjAccess e = 0 then ABORTIDX_UNSUPPORTED_ACCESS else ABORTIDX_READ_ONLY_ENTRY
     else ABORTIDX_IN_THIS_STATE)"

definition std_type :: "entry_desc \<Rightarrow> 16 word" where
  "std_type e =
    (if 0x700 \<le> DataType e
     then if BitLength e \<le> 8 then 0x30 - 1 + BitLength e
          else if BitLength e = 16 then DEFTYPE_UNSIGNED16
          else if BitLength e = 32 then DEFTYPE_UNSIGNED32
          else DataType e
     else DataType e)"

definition byte_types :: "16 word set" where
  "byte_types = {0x01, 0x30, 0x31, 0x32, 0x33, 0x34, 0x35, 0x36, 0x37, 0x2D, 0x02, 0x05, 0x1E}"
definition word_types :: "16 word set" where
  "word_types = {0x03, 0x06, 0x2E, 0x1F}"
definition dword_types :: "16 word set" where
  "dword_types = {0x07, 0x04, 0x08, 0x2F, 0x20}"
definition qword_types :: "16 word set" where
  "qword_types = {0x11, 0x15, 0x1B}"
definition block_types :: "16 word set" where
  "block_types = {0x0A, 0x0B, 0x260, 0x261, 0x262, 0x263}"

definition cBitMask :: "16 word list" where
  "cBitMask = [0x0000, 0x0001, 0x0003, 0x0007, 0x000F, 0x001F, 0x003F, 0x007F, 0x00FF, 0x01FF, 0x03FF, 0x07FF, 0x0FFF,
     0x1FFF, 0x3FFF, 0x7FFF]"

definition bit_mask :: "entry_desc \<Rightarrow> 16 word" where
  "bit_mask e = (if unat (BitLength e) < 16 then cBitMask ! unat (BitLength e) else 0)"

definition IS_PDO_ASSIGN :: "16 word \<Rightarrow> bool" where "IS_PDO_ASSIGN x = (0x1C10 \<le> x \<and> x \<le> 0x1C2F)"
definition IS_RX_PDO :: "16 word \<Rightarrow> bool" where "IS_RX_PDO x = (0x1600 \<le> x \<and> x \<le> 0x17FF)"
definition IS_TX_PDO :: "16 word \<Rightarrow> bool" where "IS_TX_PDO x = (0x1A00 \<le> x \<and> x \<le> 0x1BFF)"

abbreviation SYNCTYPE_SYNCHRONSUPP :: "16 word" where "SYNCTYPE_SYNCHRONSUPP \<equiv> 0x0002"

definition CheckSyncTypeValue :: "16 word \<Rightarrow> 16 word \<Rightarrow> 'z esm_scheme \<Rightarrow> 8 word" where
  "CheckSyncTypeValue index new s =
    (let out_supp = (\<lambda>m. u16SyncTypesSupported (sSyncManOutPar s) AND m \<noteq> 0);
         in_supp = (\<lambda>m. u16SyncTypesSupported (sSyncManInPar s) AND m \<noteq> 0) in
     if new = SYNCTYPE_FREERUN then 0
     else if new = SYNCTYPE_SM_SYNCHRON
     then if index = 0x1C32 \<and> 0 < nPdOutputSize s \<and> out_supp SYNCTYPE_SYNCHRONSUPP then 0
          else if index = 0x1C33 \<and> in_supp SYNCTYPE_SYNCHRONSUPP \<and> nPdOutputSize s = 0 \<and> 0 < nPdInputSize s then 0
          else ABORTIDX_VALUE_EXCEEDED
     else if new = SYNCTYPE_SM2_SYNCHRON
     then if index = 0x1C33 \<and> in_supp SYNCTYPE_SYNCHRONSUPP \<and> 0 < nPdOutputSize s then 0 else ABORTIDX_VALUE_EXCEEDED
     else if new = SYNCTYPE_DCSYNC0
     then if index = 0x1C32 \<and> out_supp SYNCTYPE_DCSYNC0SUPP then 0
          else if index = 0x1C33 \<and> in_supp SYNCTYPE_DCSYNC0SUPP then 0 else ABORTIDX_VALUE_EXCEEDED
     else if new = SYNCTYPE_DCSYNC1
     then if index = 0x1C32 \<and> out_supp SYNCTYPE_DCSYNC1SUPP then 0
          else if index = 0x1C33 \<and> in_supp SYNCTYPE_DCSYNC1SUPP then 0 else ABORTIDX_VALUE_EXCEEDED
     else ABORTIDX_VALUE_EXCEEDED)"

section \<open>Reading\<close>

text \<open>Pointers into a buffer move by words.\<close>

definition odd_bits :: "16 word \<Rightarrow> bool" where
  "odd_bits w = (w AND 0xF \<noteq> 0)"

definition words_of :: "16 word \<Rightarrow> nat" where
  "words_of w = unat (w AND 0xF0) div 16"

definition buf_put16 :: "buf \<Rightarrow> 16 word \<Rightarrow> 'z mach_scheme \<Rightarrow> 'z mach_scheme" where
  "buf_put16 b w s = buf_store b (le16_bytes w) s"

definition buf_mask8 :: "buf \<Rightarrow> 'z mach_scheme \<Rightarrow> 'z mach_scheme" where
  "buf_mask8 b s = (let (w, s) = buf_load16 b s in buf_put16 b (w AND 0xFF) s)"

definition copy_var :: "varref \<Rightarrow> nat \<Rightarrow> buf \<Rightarrow> nat \<Rightarrow> 'z sdo_scheme \<Rightarrow> 'z sdo_scheme" where
  "copy_var v off b n s = (let (bs, s) = var_load v off n s in buf_store b bs s)"

definition null_skip :: "entry_desc \<Rightarrow> 16 word \<Rightarrow> buf \<Rightarrow> buf" where
  "null_skip e bitOffset b =
    (let b = (if odd_bits (BitLength e) \<and> \<not> odd_bits (bitOffset + BitLength e) then buf_skip b 2 else b) in
     buf_skip b (2 * words_of (BitLength e)))"

text \<open>One entry, in the switch over its type: an abort code, or the buffer pointer behind the entry.\<close>

definition read_value :: "entry_desc \<Rightarrow> varref \<Rightarrow> 16 word \<Rightarrow> bool \<Rightarrow> buf \<Rightarrow> 'z sdo_scheme
    \<Rightarrow> (8 word + buf) \<times> 'z sdo_scheme" where
  "read_value e v bitOffset ca b s =
    (let ty = std_type e; off = 2 * (unat bitOffset div 16); n = BIT2BYTE (BitLength e);
         sh = unat (bitOffset AND 0xF) in
     if ty = 0
     then if ca then (Inr (null_skip e bitOffset b), s) else (Inl ABORTIDX_DATA_CANNOT_BE_READ_OR_STORED, s)
     else if ty \<in> byte_types
     then let s = note_fault (16 \<le> unat (BitLength e)) s;
              bitMask = push_bit sh (bit_mask e);
              (TmpValue, s) = var_load16 v off s;
              s = (if \<not> odd_bits bitOffset then buf_put16 b 0 s else s);
              (w, s) = buf_load16 b s;
              s = buf_put16 b (if ca then w OR (TmpValue AND bitMask) else w OR drop_bit sh (TmpValue AND bitMask)) s in
          (Inr (if \<not> odd_bits (bitOffset + BitLength e) then buf_skip b 2 else b), s)
     else if ty \<in> word_types \<union> dword_types \<union> qword_types \<union> block_types \<union> {0x09} \<and> odd_bits bitOffset
     then (Inl ABORTIDX_UNSUPPORTED_ACCESS, s)
     else if ty \<in> word_types then (Inr (buf_skip b 2), copy_var v off b 2 s)
     else if ty \<in> dword_types then (Inr (buf_skip b 4), copy_var v off b 4 s)
     else if ty \<in> qword_types then (Inr (buf_skip b 8), copy_var v off b 8 s)
     else if ty \<in> block_types \<union> {0x09}
     then let s = copy_var v off b n s; b = buf_skip b (2 * (unat (BitLength e) div 16)) in
          (Inr b, if odd_bits (BitLength e) then buf_mask8 b s else s)
     else (Inl ABORTIDX_DATA_CANNOT_BE_READ_OR_STORED, s))"

fun clear_words :: "nat \<Rightarrow> buf \<Rightarrow> 'z mach_scheme \<Rightarrow> buf \<times> 'z mach_scheme" where
  "clear_words 0 b s = (b, s)"
| "clear_words (Suc n) b s = (let b = buf_skip b 2 in clear_words n b (buf_put16 b 0 s))"

definition skip_unreadable :: "entry_desc \<Rightarrow> 16 word \<Rightarrow> buf \<Rightarrow> 'z mach_scheme \<Rightarrow> buf \<times> 'z mach_scheme" where
  "skip_unreadable e bitOffset b s =
    (let s = (if \<not> odd_bits bitOffset then buf_put16 b 0 s else s);
         (b, s) = (if odd_bits (BitLength e) \<and> \<not> odd_bits (bitOffset + BitLength e) then clear_words 1 b s else (b, s)) in
     clear_words (words_of (BitLength e)) b s)"

fun read_loop :: "16 word \<Rightarrow> nat \<Rightarrow> tobject \<Rightarrow> nat \<Rightarrow> bool \<Rightarrow> nat list \<Rightarrow> buf \<Rightarrow> bool \<Rightarrow> 8 word \<Rightarrow> 'z sdo_scheme
    \<Rightarrow> 8 word \<times> 'z sdo_scheme" where
  "read_loop index subindex ob maxSubindex ca [] b bRead result s = (if \<not> bRead then result else 0, s)"
| "read_loop index subindex ob maxSubindex ca (i # is) b bRead result s =
    (let bitOffset = (if i = 0 then 0 else if 0x1000 \<le> index then OBJ_GetEntryOffset i ob else 0);
         e = OBJ_GetEntryDesc ob i; s = note_fault (entry_outside ob i) s in
     if read_rights e s
     then if i = subindex \<or> ca \<and> subindex \<le> i
          then if i = 0 \<and> objCode ob \<noteq> OBJCODE_VAR
               then read_loop index subindex ob maxSubindex ca is (buf_skip b 2) bRead result
                      (buf_put16 b (of_nat maxSubindex) s)
               else case read_value e (pVarPtr ob) bitOffset ca b s of
                      (Inl abort, s) \<Rightarrow> (abort, s)
                    | (Inr b, s) \<Rightarrow> read_loop index subindex ob maxSubindex ca is b True result s
          else read_loop index subindex ob maxSubindex ca is b bRead result s
     else let (b, s) = skip_unreadable e bitOffset b s in
          read_loop index subindex ob maxSubindex ca is b bRead (read_refused e) s)"

section \<open>Access functions of an object\<close>

definition Read0x10F8 :: "16 word \<Rightarrow> 8 word \<Rightarrow> 32 word \<Rightarrow> buf \<Rightarrow> bool \<Rightarrow> 'z sdo_scheme \<Rightarrow> 8 word \<times> 'z sdo_scheme" where
  "Read0x10F8 index subindex dataSize b ca s =
    (if index \<noteq> 0x10F8 then (ABORTIDX_PARAM_IS_INCOMPATIBLE, s)
     else if ca then (ABORTIDX_UNSUPPORTED_ACCESS, s)
     else if 0 < subindex then (ABORTIDX_SUBINDEX_NOT_EXISTING, s)
     else if 8 < dataSize then (ABORTIDX_PARAM_LENGTH_TOO_LONG, s)
     else let s = COE_SyncTimeStamp s in
          (0, buf_store b (take (unat dataSize) (le64_bytes (u64Timestamp s))) s))"

definition obj_call :: "('z sdo_scheme) coe_user \<Rightarrow> obj_fn \<Rightarrow> 16 word \<Rightarrow> 8 word \<Rightarrow> 32 word \<Rightarrow> buf \<Rightarrow> bool \<Rightarrow> 'z sdo_scheme
    \<Rightarrow> 8 word \<times> 'z sdo_scheme" where
  "obj_call u fn = (case fn of FnRead0x10F8 \<Rightarrow> Read0x10F8 | FnApp k \<Rightarrow> app_fn u k)"

definition coe_ind :: "(16 word \<Rightarrow> 8 word \<Rightarrow> bool \<Rightarrow> 's \<Rightarrow> 's) option \<Rightarrow> 16 word \<Rightarrow> 8 word \<Rightarrow> bool \<Rightarrow> 's \<Rightarrow> 's" where
  "coe_ind f index subindex ca s = (case f of None \<Rightarrow> s | Some f \<Rightarrow> f index subindex ca s)"

text \<open>The texts of an enumeration lie outside the buffers and variables of the model.\<close>

definition read_enum :: "tobject \<Rightarrow> nat \<Rightarrow> buf \<Rightarrow> 'z sdo_scheme \<Rightarrow> 'z sdo_scheme" where
  "read_enum ob subindex b s =
    (let e = OBJ_GetEntryDesc ob subindex; size = BIT2BYTE (BitLength e);
         ts = (case pVarPtr ob of EnumTexts ts \<Rightarrow> ts | _ \<Rightarrow> []);
         txt = (if subindex - 1 < length ts then ts ! (subindex - 1) else []);
         s = note_fault (entry_outside ob subindex \<or> size < 4 \<or> length txt < size) s in
     buf_store b (map (byte_at txt) [0..<size]) s)"

definition OBJ_Read :: "('z sdo_scheme) coe_user \<Rightarrow> 16 word \<Rightarrow> 8 word \<Rightarrow> 32 word \<Rightarrow> tobject \<Rightarrow> buf \<Rightarrow> bool \<Rightarrow> 'z sdo_scheme
    \<Rightarrow> 8 word \<times> 'z sdo_scheme" where
  "OBJ_Read u index subindex objSize ob b ca s =
    (let sub = unat subindex;
         (maxSubindex, s) = (if objCode ob \<noteq> OBJCODE_VAR \<and> 0x1000 \<le> index
                             then let (w, s) = var_load16 (pVarPtr ob) 0 s in (unat (w AND 0xFF), s)
                             else (flagsMaxSubindex ob, s));
         e = OBJ_GetEntryDesc ob sub;
         (abort, s) =
           (if ca
            then (if objCode ob = OBJCODE_VAR \<or> index < 0x1000 then ABORTIDX_UNSUPPORTED_ACCESS else 0, s)
            else if maxSubindex < sub then (ABORTIDX_SUBINDEX_NOT_EXISTING, s)
            else (if ObjAccess e = 0 then ABORTIDX_UNSUPPORTED_ACCESS else if read_rights e s then 0 else read_refused e,
                  note_fault (entry_outside ob sub) s)) in
     if abort \<noteq> 0 then (abort, s)
     else let s = coe_ind (pAPPL_CoeReadInd u) index subindex ca s in
          case ObjRead ob of
            Some fn \<Rightarrow> obj_call u fn index subindex objSize b ca s
          | None \<Rightarrow>
              if index < 0x1000 \<and> subindex \<noteq> 0 then (0, read_enum ob sub b s)
              else read_loop index sub ob maxSubindex ca [sub..<(if ca then maxSubindex else sub) + 1] b False 0 s)"

section \<open>Writing\<close>

abbreviation MIN_PD_CYCLE_TIME :: "32 word" where "MIN_PD_CYCLE_TIME \<equiv> 0x79E0"

definition sm_cycle_time_written :: "16 word \<Rightarrow> 'z esm_scheme \<Rightarrow> 'z esm_scheme" where
  "sm_cycle_time_written new s =
    (let start = (\<lambda>p. p\<lparr>u32CalcAndCopyTime := 0, u32MinCycleTime := MIN_PD_CYCLE_TIME, u32CycleTime := 0\<rparr>);
         reset = (\<lambda>p. p\<lparr>u16CycleExceededCounter := 0, u16SmEventMissedCounter := 0, u8SyncError := 0\<rparr>);
         s = s\<lparr>sSyncManOutPar := start (sSyncManOutPar s), sSyncManInPar := start (sSyncManInPar s)\<rparr> in
     if new AND 0x2 = 0x2
     then s\<lparr>sSyncManOutPar := reset (sSyncManOutPar s), sSyncManInPar := reset (sSyncManInPar s)\<rparr>
     else s)"

definition write_word :: "varref \<Rightarrow> nat \<Rightarrow> 16 word \<Rightarrow> nat \<Rightarrow> bool \<Rightarrow> buf \<Rightarrow> 'z sdo_scheme \<Rightarrow> (8 word + buf) \<times> 'z sdo_scheme" where
  "write_word v off index i bClear b s =
    (let (new, s) = buf_load16 b s;
         sm = (index = 0x1C32 \<or> index = 0x1C33);
         (old, s) = (if bClear \<or> sm \<and> i = 1 then var_load16 v off s else (0, s)) in
     if bClear \<and> old \<noteq> new then (Inl ABORTIDX_ENTRY_CANT_BE_WRITTEN_SI0_NOT_0, s)
     else if IS_PDO_ASSIGN index \<and> \<not> IS_RX_PDO new \<and> \<not> IS_TX_PDO new \<and> new \<noteq> 0 then (Inl ABORTIDX_VALUE_EXCEEDED, s)
     else if sm \<and> i = 1 \<and> old \<noteq> new \<and> CheckSyncTypeValue index new s \<noteq> 0
     then (Inl (CheckSyncTypeValue index new s), s)
     else let s = (if sm \<and> i = 1 then s\<lparr>bSyncSetByUser := True\<rparr> else s);
              s = (if sm \<and> i = 8 then sm_cycle_time_written new s else s) in
          (Inr (buf_skip b 2), var_store v off (le16_bytes new) s))"

definition copy_buf :: "varref \<Rightarrow> nat \<Rightarrow> buf \<Rightarrow> nat \<Rightarrow> 'z sdo_scheme \<Rightarrow> 'z sdo_scheme" where
  "copy_buf v off b n s = (let (bs, s) = buf_load b n s in var_store v off bs s)"

definition write_bit_entry :: "entry_desc \<Rightarrow> varref \<Rightarrow> nat \<Rightarrow> 16 word \<Rightarrow> bool \<Rightarrow> buf \<Rightarrow> 'z sdo_scheme
    \<Rightarrow> (8 word + buf) \<times> 'z sdo_scheme" where
  "write_bit_entry e v off bitOffset ca b s =
    (let sh = unat (bitOffset AND 0xF); m = bit_mask e; bitMask = push_bit sh m;
         s = note_fault (16 \<le> unat (BitLength e)) s;
         (TmpValue, s) = var_load16 v off s;
         TmpValue = TmpValue AND NOT bitMask;
         (w, s) = buf_load16 b s in
     if \<not> ca \<and> w AND NOT m \<noteq> 0 then (Inl ABORTIDX_VALUE_EXCEEDED, s)
     else let TmpValue = TmpValue OR (if ca then w AND bitMask else push_bit sh (w AND m)) in
          (Inr (if \<not> odd_bits (bitOffset + BitLength e) then buf_skip b 2 else b),
           var_store v off (le16_bytes TmpValue) s))"

definition write_value :: "entry_desc \<Rightarrow> varref \<Rightarrow> 16 word \<Rightarrow> nat \<Rightarrow> bool \<Rightarrow> 16 word \<Rightarrow> bool \<Rightarrow> buf \<Rightarrow> 'z sdo_scheme
    \<Rightarrow> (8 word + buf) \<times> 'z sdo_scheme" where
  "write_value e v index i bClear bitOffset ca b s =
    (let ty = std_type e; off = 2 * (unat bitOffset div 16); n = BIT2BYTE (BitLength e) in
     if ty = 0
     then if ca then (Inr (null_skip e bitOffset b), s) else (Inl ABORTIDX_DATA_CANNOT_BE_READ_OR_STORED, s)
     else if ty \<in> byte_types then write_bit_entry e v off bitOffset ca b s
     else if ty \<in> word_types \<union> dword_types \<union> qword_types \<union> block_types \<union> {0x09} \<and> odd_bits bitOffset
     then (Inl ABORTIDX_UNSUPPORTED_ACCESS, s)
     else if ty \<in> word_types then write_word v off index i bClear b s
     else if ty \<in> dword_types
     then let (same, s) = (if bClear
                           then let (old, s) = var_load v off 4 s; (new, s) = buf_load b 4 s in (old = new, s)
                           else (True, s)) in
          if \<not> same then (Inl ABORTIDX_ENTRY_CANT_BE_WRITTEN_SI0_NOT_0, s)
          else (Inr (buf_skip b 4), copy_buf v off b 4 s)
     else if ty \<in> qword_types then (Inr (buf_skip b 8), copy_buf v off b 8 s)
     else if ty \<in> block_types \<union> {0x09}
     then (Inr (buf_skip b (2 * (unat (BitLength e) div 16))), copy_buf v off b n s)
     else (Inl ABORTIDX_DATA_CANNOT_BE_READ_OR_STORED, s))"

definition write_subindex0 :: "tobject \<Rightarrow> buf \<Rightarrow> 'z sdo_scheme \<Rightarrow> (8 word + buf) \<times> 'z sdo_scheme" where
  "write_subindex0 ob b s =
    (let (w, s) = buf_load16 b s in
     if flagsMaxSubindex ob < unat (w AND 0xFF) then (Inl ABORTIDX_VALUE_TOO_GREAT, s)
     else (Inr (buf_skip b 2), var_store (pVarPtr ob) 0 (le16_bytes w) s))"

definition skip_unwritable :: "entry_desc \<Rightarrow> nat \<Rightarrow> 16 word \<Rightarrow> buf \<Rightarrow> buf" where
  "skip_unwritable e i bitOffset b =
    (if i = 0 then buf_skip b 2
     else let b = (if odd_bits (BitLength e) \<and> \<not> odd_bits (bitOffset + BitLength e) then buf_skip b 2 else b) in
          buf_skip b (2 * (unat (BitLength e) div 16)))"

fun write_loop :: "16 word \<Rightarrow> nat \<Rightarrow> tobject \<Rightarrow> bool \<Rightarrow> bool \<Rightarrow> nat list \<Rightarrow> buf \<Rightarrow> bool \<Rightarrow> 8 word \<Rightarrow> 'z sdo_scheme
    \<Rightarrow> 8 word \<times> 'z sdo_scheme" where
  "write_loop index subindex ob bClear ca [] b bWritten result s = (if \<not> bWritten then result else 0, s)"
| "write_loop index subindex ob bClear ca (i # is) b bWritten result s =
    (let e = OBJ_GetEntryDesc ob i; s = note_fault (entry_outside ob i) s; bitOffset = OBJ_GetEntryOffset i ob in
     if write_rights e s
     then if i = subindex \<or> ca \<and> subindex \<le> i
          then case (if i = 0 \<and> objCode ob \<noteq> OBJCODE_VAR then write_subindex0 ob b s
                     else write_value e (pVarPtr ob) index i bClear bitOffset ca b s) of
                 (Inl abort, s) \<Rightarrow> (abort, s)
               | (Inr b, s) \<Rightarrow> write_loop index subindex ob bClear ca is b True result s
          else write_loop index subindex ob bClear ca is b bWritten result s
     else write_loop index subindex ob bClear ca is (skip_unwritable e i bitOffset b) bWritten
            ABORTIDX_DATA_CANNOT_BE_READ_OR_STORED s)"

definition pdo_object :: "16 word \<Rightarrow> bool" where
  "pdo_object index = (IS_PDO_ASSIGN index \<or> IS_RX_PDO index \<or> IS_TX_PDO index \<or> index = 0xF030)"

definition OBJ_Write :: "('z sdo_scheme) coe_user \<Rightarrow> 16 word \<Rightarrow> 8 word \<Rightarrow> 32 word \<Rightarrow> tobject \<Rightarrow> buf \<Rightarrow> bool \<Rightarrow> 'z sdo_scheme
    \<Rightarrow> 8 word \<times> 'z sdo_scheme" where
  "OBJ_Write u index subindex dataSize ob b ca s =
    (let sub = unat subindex;
         (maxSubindex, s) =
           (if objCode ob \<noteq> OBJCODE_VAR
            then let (w, s) = var_load16 (pVarPtr ob) 0 s; m = unat (w AND 0xFF) in
                 (if m = 0 \<and> pdo_object index then flagsMaxSubindex ob else m, s)
            else (0, s));
         e = OBJ_GetEntryDesc ob sub;
         (abort, lastSubindex, s) =
           (if ca
            then if objCode ob = OBJCODE_VAR then (ABORTIDX_UNSUPPORTED_ACCESS, 0, s)
                 else if subindex = 0 \<and> 0 < dataSize
                 then let (w, s) = buf_load16 b s in (0, unat (w AND 0xFF), s)
                 else (0, maxSubindex, s)
            else if maxSubindex < sub then (ABORTIDX_SUBINDEX_NOT_EXISTING, 0, s)
            else let s = note_fault (entry_outside ob sub) s in
                 (if write_rights e s then 0 else write_refused e, sub, s)) in
     if abort \<noteq> 0 then (abort, s)
     else let (bClear, s) = (if 0 < subindex \<and> pdo_object index
                             then let (w, s) = var_load16 (pVarPtr ob) 0 s in (w AND 0xFF \<noteq> 0, s)
                             else (False, s)) in
          case ObjWrite ob of
            Some fn \<Rightarrow>
              (case obj_call u fn index subindex dataSize b ca s of
                 (r, s) \<Rightarrow> (r, if r = 0 then coe_ind (pAPPL_CoeWriteInd u) index subindex ca s else s))
          | None \<Rightarrow>
              if dataSize = 0 then (0, s)
              else case write_loop index sub ob bClear ca [sub..<lastSubindex + 1] b False ABORTIDX_READ_ONLY_ENTRY s of
                     (r, s) \<Rightarrow> (r, if r = 0 then coe_ind (pAPPL_CoeWriteInd u) index subindex ca s else s))"

end
