(* ===== verification/ObjInfo.thy ===== *)
theory ObjInfo
  imports ObjAccess
begin

text \<open>
  The lists and descriptions of objects, \<open>objdef.c\<close>: \<open>OBJ_GetNoOfObjects\<close>,
  \<open>OBJ_GetObjectList\<close>, \<open>OBJ_GetDesc\<close>.  An entry description past the end of an array counts here
  as one without access flags.
\<close>

unbundle bit_operations_syntax

section \<open>Lists of objects\<close>

text \<open>The inner loop of both functions: the list of all objects, or one of the objects with an entry
  that has the flag of the list.\<close>

definition in_list :: "16 word \<Rightarrow> tobject \<Rightarrow> bool" where
  "in_list listType ob =
    (0x1000 \<le> Index ob \<and>
     (listType = 0 \<or>
      list_ex (\<lambda>i. ObjAccess (OBJ_GetEntryDesc ob i) AND push_bit (unat listType) 0x0020 \<noteq> 0) [0..<flagsMaxSubindex ob + 1]))"

partial_function (option) count_objects :: "16 word \<Rightarrow> (ptr \<Rightarrow> tobject) \<Rightarrow> ptr \<Rightarrow> 16 word \<Rightarrow> 16 word option" where
  "count_objects listType m p n =
    (if p = NULL then Some n
     else count_objects listType m (pNext (m p)) (if in_list listType (m p) then n + 1 else n))"

definition OBJ_GetNoOfObjects :: "8 word \<Rightarrow> dictionary \<Rightarrow> 16 word option" where
  "OBJ_GetNoOfObjects listType d = count_objects (ucast listType) (obj_mem d) (COE_GetObjectDictionary d) 0"

partial_function (option) list_objects :: "16 word \<Rightarrow> ptr \<Rightarrow> 16 word \<Rightarrow> buf \<Rightarrow> 'z sdo_scheme
    \<Rightarrow> (ptr \<times> 16 word \<times> 'z sdo_scheme) option" where
  "list_objects listType p sz b s =
    (if p = NULL \<or> sz \<le> 1 then Some (p, sz, s)
     else let ob = the_obj p s in
          if in_list listType ob
          then list_objects listType (pNext ob) (sz - 2) (buf_skip b 2) (buf_put16 b (Index ob) s)
          else list_objects listType (pNext ob) sz b s)"

text \<open>The result: the space left, the next index, the abort code, and the state.\<close>

definition OBJ_GetObjectList :: "16 word \<Rightarrow> 16 word \<Rightarrow> 16 word \<Rightarrow> buf \<Rightarrow> 'z sdo_scheme
    \<Rightarrow> (16 word \<times> 16 word \<times> 8 word \<times> 'z sdo_scheme) option" where
  "OBJ_GetObjectList listType index sz b s =
    (let first = (index = 0x1000);
         p = (if first then COE_GetObjectDictionary (dic s) else pSdoInfoObjEntry s);
         abort = (if first \<and> p = NULL then ABORTIDX_NO_OBJECT_DICTIONARY else 0) in
     case list_objects listType p sz b s of
       None \<Rightarrow> None
     | Some (p, sz, s) \<Rightarrow>
         Some (sz, if p \<noteq> NULL then Index (the_obj p s) else 0xFFFF, abort, s\<lparr>pSdoInfoObjEntry := p\<rparr>))"

section \<open>Descriptions\<close>

definition cstr :: "8 word list \<Rightarrow> 8 word list" where
  "cstr bs = takeWhile (\<lambda>c. c \<noteq> 0) bs"

definition OBJGETNEXTSTR :: "8 word list \<Rightarrow> 8 word list" where
  "OBJGETNEXTSTR bs = drop (length (cstr bs) + 1) bs"

text \<open>\<open>sub_desc k bs\<close>: the text \<open>k\<close> places behind the one at \<open>bs\<close>, empty behind the end of the texts.\<close>

fun sub_desc :: "nat \<Rightarrow> 8 word list \<Rightarrow> 8 word list" where
  "sub_desc 0 bs = (if byte_at bs 0 = 0xFF \<or> byte_at bs 0 = 0xFE then [] else cstr bs)"
| "sub_desc (Suc k) bs = (if byte_at bs 0 = 0xFF \<or> byte_at bs 0 = 0xFE then [] else sub_desc k (OBJGETNEXTSTR bs))"

definition aSubindexDesc :: "8 word list" where
  "aSubindexDesc = map of_char ''SubIndex 000'' @ [0]"

definition OBJ_CopyNumberToString :: "8 word list \<Rightarrow> 8 word \<Rightarrow> 8 word list" where
  "OBJ_CopyNumberToString pStr number =
    (let pStr = pStr[2 := 0x30];
         pStr = pStr[0 := pStr ! 0 + number div 100];
         modulo = number mod 100;
         pStr = pStr[1 := pStr ! 1 + modulo div 10] in
     pStr[2 := pStr ! 2 + modulo mod 10])"

text \<open>The length of the description and what is copied: the string, or \<open>SubIndex xxx\<close> with its
  terminator.\<close>

definition desc_text :: "8 word \<Rightarrow> tobject \<Rightarrow> 16 word \<times> 8 word list" where
  "desc_text subindex ob =
    (if subindex = 0 \<or> objCode ob = OBJCODE_VAR then let t = cstr (pName ob) in (of_nat (length t), t)
     else let t = (if objCode ob = OBJCODE_REC then sub_desc (unat subindex - 1) (OBJGETNEXTSTR (pName ob)) else []) in
          if (of_nat (length t) :: 16 word) = 0
          then (12, take 9 aSubindexDesc @ OBJ_CopyNumberToString (drop 9 aSubindexDesc) subindex)
          else (of_nat (length t), t))"

definition OBJ_GetDesc :: "8 word \<Rightarrow> tobject \<Rightarrow> buf option \<Rightarrow> 'z mach_scheme \<Rightarrow> 16 word \<times> 'z mach_scheme" where
  "OBJ_GetDesc subindex ob pData s =
    (let (n, t) = desc_text subindex ob in
     (n, case pData of None \<Rightarrow> s | Some b \<Rightarrow> buf_store b t s))"

end
