(* ===== verification/SdoServ.thy ===== *)
theory SdoServ
  imports ObjInfo
begin

text \<open>
  The SDO server, \<open>sdoserv.c\<close>, and from \<open>coeappl.c\<close> the completion of pending accesses and the
  initialisation.

  A message lies in a heap block: mailbox header at 0, CoE header at 6, command byte at 8, index at
  9, subindex at 11, data of an expedited service at 12; a normal service has the complete size at
  12 and the data at 16, a segment has its data at 9, an abort its code at 12.  An information
  service has its header at 8, the fragments left at 10, the list type or index at 12.  An early
  return of the code is a value \<open>Inl\<close>.
\<close>

unbundle bit_operations_syntax

abbreviation SDOSERVICE_INITIATEDOWNLOADREQ :: "8 word" where "SDOSERVICE_INITIATEDOWNLOADREQ \<equiv> 0x20"
abbreviation SDOSERVICE_INITIATEDOWNLOADRES :: "8 word" where "SDOSERVICE_INITIATEDOWNLOADRES \<equiv> 0x60"
abbreviation SDOSERVICE_DOWNLOADSEGMENTREQ :: "8 word" where "SDOSERVICE_DOWNLOADSEGMENTREQ \<equiv> 0x00"
abbreviation SDOSERVICE_DOWNLOADSEGMENTRES :: "8 word" where "SDOSERVICE_DOWNLOADSEGMENTRES \<equiv> 0x20"
abbreviation SDOSERVICE_INITIATEUPLOADREQ :: "8 word" where "SDOSERVICE_INITIATEUPLOADREQ \<equiv> 0x40"
abbreviation SDOSERVICE_INITIATEUPLOADRES :: "8 word" where "SDOSERVICE_INITIATEUPLOADRES \<equiv> 0x40"
abbreviation SDOSERVICE_UPLOADSEGMENTREQ :: "8 word" where "SDOSERVICE_UPLOADSEGMENTREQ \<equiv> 0x60"
abbreviation SDOSERVICE_ABORTTRANSFER :: "8 word" where "SDOSERVICE_ABORTTRANSFER \<equiv> 0x80"
abbreviation SEGHEADER_TOGGLE :: "8 word" where "SEGHEADER_TOGGLE \<equiv> 0x10"
abbreviation SEGHEADER_NOMOREFOLLOWS :: "8 word" where "SEGHEADER_NOMOREFOLLOWS \<equiv> 0x01"
abbreviation SDO_PENDING_WRITE :: "8 word" where "SDO_PENDING_WRITE \<equiv> 1"
abbreviation SDO_PENDING_SEG_WRITE :: "8 word" where "SDO_PENDING_SEG_WRITE \<equiv> 2"
abbreviation SDO_PENDING_READ :: "8 word" where "SDO_PENDING_READ \<equiv> 3"
abbreviation SDO_PENDING_SEG_READ :: "8 word" where "SDO_PENDING_SEG_READ \<equiv> 4"

definition cAbortCodes :: "32 word list" where
  "cAbortCodes = [0x00000000, 0x05030000, 0x05040000, 0x05040001, 0x05040005, 0x06010000, 0x06010001, 0x06010002,
     0x06020000, 0x06040041, 0x06040042, 0x06040043, 0x06040047, 0x06060000, 0x06070010, 0x06070012, 0x06070013,
     0x06090011, 0x06090030, 0x06090031, 0x06090032, 0x06090033, 0x06090036, 0x08000000, 0x08000020, 0x08000021,
     0x08000022, 0x08000023, 0x06010003, 0x06010004]"

definition cAbortCode :: "8 word \<Rightarrow> 32 word" where
  "cAbortCode abort = (if unat abort < length cAbortCodes then cAbortCodes ! unat abort else 0)"

definition mem_or8 :: "ptr \<Rightarrow> nat \<Rightarrow> 8 word \<Rightarrow> 'z mach_scheme \<Rightarrow> 'z mach_scheme" where
  "mem_or8 p off w s = mem_wr8 p off (mem_rd8 p off s OR w) s"

definition coe_set_service :: "16 word \<Rightarrow> ptr \<Rightarrow> 'z mach_scheme \<Rightarrow> 'z mach_scheme" where
  "coe_set_service svc p s = mem_wr16 p 6 ((mem_rd16 p 6 s AND NOT 0xF000) OR push_bit 12 svc) s"

section \<open>Responses\<close>

definition coe_send :: "ptr \<Rightarrow> 8 word \<Rightarrow> 'z coe_scheme \<Rightarrow> 'z coe_scheme" where
  "coe_send p flags s =
    (let (r, s) = MBX_MailboxSendReq p flags s in if r \<noteq> 0 then s\<lparr>pCoeSendStored := p\<rparr> else s)"

definition sdo_answer :: "8 word \<Rightarrow> 8 word \<Rightarrow> 16 word \<Rightarrow> 32 word \<Rightarrow> ptr \<Rightarrow> 'z mach_scheme \<Rightarrow> 'z mach_scheme" where
  "sdo_answer command completeAccess dataSize objLength p s =
    (let s = coe_set_service 3 p s in
     if command = SDOSERVICE_INITIATEUPLOADREQ
     then if objLength \<le> 4 \<and> 0 < objLength
          then mem_or8 p 8 (0x01 OR 0x02 OR completeAccess OR push_bit 2 (4 - ucast objLength) OR SDOSERVICE_INITIATEUPLOADRES)
                 (mem_wr16 p 0 10 s)
          else let s = mem_wr16 p 0 (10 + (if ucast dataSize < objLength then dataSize else ucast objLength)) s in
               mem_or8 p 8 (0x01 OR completeAccess OR SDOSERVICE_INITIATEUPLOADRES) (mem_wr32 p 12 objLength s)
     else if command = SDOSERVICE_DOWNLOADSEGMENTREQ
     then mem_or8 p 8 SDOSERVICE_DOWNLOADSEGMENTRES (mem_wr16 p 0 10 s)
     else if command \<noteq> SDOSERVICE_UPLOADSEGMENTREQ
     then mem_or8 p 8 SDOSERVICE_INITIATEDOWNLOADRES (mem_wr16 p 0 10 s)
     else s)"

definition sdo_abort :: "8 word \<Rightarrow> ptr \<Rightarrow> 'z mach_scheme \<Rightarrow> 'z mach_scheme" where
  "sdo_abort abort p s =
    (let s = mem_wr16 p 0 10 s; s = coe_set_service 2 p s; s = mem_or8 p 8 SDOSERVICE_ABORTTRANSFER s in
     mem_wr32 p 12 (cAbortCode abort) (note_fault (length cAbortCodes \<le> unat abort) s))"

definition SdoRes :: "8 word \<Rightarrow> 8 word \<Rightarrow> 8 word \<Rightarrow> 16 word \<Rightarrow> 32 word \<Rightarrow> ptr \<Rightarrow> 'z coe_scheme \<Rightarrow> 'z coe_scheme" where
  "SdoRes abort command completeAccess dataSize objLength p s =
    (let s = (if command \<noteq> SDOSERVICE_UPLOADSEGMENTREQ \<and> command \<noteq> SDOSERVICE_DOWNLOADSEGMENTREQ then mem_wr8 p 8 0 s else s);
         s = (if abort = 0 then sdo_answer command completeAccess dataSize objLength p s else sdo_abort abort p s) in
     coe_send p COE_SERVICE s)"

section \<open>Segments\<close>

definition free_seg_data :: "'z coe_scheme \<Rightarrow> 'z coe_scheme" where
  "free_seg_data s = (if pSdoSegData s \<noteq> NULL then (mem_free (pSdoSegData s) s)\<lparr>pSdoSegData := NULL\<rparr> else s)"

definition download_aborted :: "'z sdo_scheme \<Rightarrow> 'z sdo_scheme" where
  "download_aborted s =
    (free_seg_data (s\<lparr>bSdoSegFollows := False, nSdoSegService := 0\<rparr>))\<lparr>nSdoSegBytesToHandle := 0\<rparr>"

definition download_answered :: "32 word \<Rightarrow> ptr \<Rightarrow> 'z sdo_scheme \<Rightarrow> 'z sdo_scheme" where
  "download_answered n p s =
    (let s = coe_set_service 3 p (mem_wr16 p 0 10 s);
         s = mem_wr8 p 8 (if bSdoSegLastToggle s \<noteq> 0 then SDOSERVICE_DOWNLOADSEGMENTRES OR SEGHEADER_TOGGLE
                          else SDOSERVICE_DOWNLOADSEGMENTRES) s in
     if bSdoSegFollows s then s\<lparr>nSdoSegBytesToHandle := nSdoSegBytesToHandle s + n\<rparr>
     else s\<lparr>nSdoSegBytesToHandle := 0, nSdoSegService := 0\<rparr>)"

text \<open>The length check of the last segment, against the mailbox size and the segment header.\<close>

definition last_segment_ok :: "32 word \<Rightarrow> 16 word \<Rightarrow> 8 word \<Rightarrow> bool" where
  "last_segment_ok n mbxSize seg =
    (n \<le> ucast mbxSize - 3 \<and> n = ucast (7 - ucast (drop_bit 1 (seg AND 0x0E)) :: 16 word)
     \<or> 7 < n \<and> n = ucast mbxSize - 3)"

definition segment_bytes :: "8 word \<Rightarrow> ptr \<Rightarrow> 'z sdo_scheme \<Rightarrow> 8 word \<times> 32 word \<times> 'z sdo_scheme" where
  "segment_bytes seg p s =
    (let maxData = u16ReceiveMbxSize s - 6 - 3; n = nSdoSegCompleteSize s - nSdoSegBytesToHandle s in
     if seg AND SEGHEADER_NOMOREFOLLOWS \<noteq> 0
     then if n \<le> ucast maxData \<and> last_segment_ok n (mem_rd16 p 0 s) seg then (0, n, s\<lparr>bSdoSegFollows := False\<rparr>)
          else (ABORTIDX_PARAM_LENGTH_ERROR, n, s)
     else let s = s\<lparr>bSdoSegFollows := True\<rparr> in
          if n \<le> ucast maxData then (ABORTIDX_PARAM_LENGTH_ERROR, n, s) else (0, ucast maxData, s))"

definition SdoDownloadSegmentInd :: "('z sdo_scheme) coe_user \<Rightarrow> ptr \<Rightarrow> 'z sdo_scheme \<Rightarrow> 8 word \<times> 'z sdo_scheme" where
  "SdoDownloadSegmentInd u p s =
    (let seg = mem_rd8 p 8 s in
     if seg AND SEGHEADER_TOGGLE = bSdoSegLastToggle s then (ABORTIDX_TOGGLE_BIT_NOT_CHANGED, download_aborted s)
     else let s = s\<lparr>bSdoSegLastToggle := seg AND SEGHEADER_TOGGLE\<rparr> in
     if pSdoSegData s = NULL then (ABORTIDX_COMMAND_SPECIFIER_UNKNOWN, download_aborted s)
     else let (abort, n, s) = segment_bytes seg p s in
     if abort \<noteq> 0 then (abort, download_aborted s)
     else let (bs, s) = buf_load (p, 9) (unat n) s;
              s = buf_store (pSdoSegData s, unat (nSdoSegBytesToHandle s)) bs s in
     if bSdoSegFollows s then (0, download_answered n p s)
     else let ob = the_obj (pSdoSegObjEntry s) s;
              (abort, s) = OBJ_Write u (nSdoSegIndex s) (nSdoSegSubindex s) (nSdoSegCompleteSize s) ob
                             (pSdoSegData s, 0) (bSdoSegAccess s) s in
     if abort = ABORTIDX_WORKING
     then (ABORTIDX_WORKING,
           s\<lparr>u8PendingSdo := SDO_PENDING_SEG_WRITE, bStoreCompleteAccess := bSdoSegAccess s,
             u8StoreSubindex := nSdoSegSubindex s, u16StoreIndex := nSdoSegIndex s,
             u32StoreDataSize := nSdoSegCompleteSize s, pStoreData := (pSdoSegData s, 0), pSdoPendFunc := ObjWrite ob,
             bSdoInWork := True, pSdoResStored := p, bSdoSegFollows := False, nSdoSegService := 0,
             nSdoSegBytesToHandle := 0\<rparr>)
     else let s = (mem_free (pSdoSegData s) s)\<lparr>pSdoSegData := NULL\<rparr> in
     if abort = 0 then (0, download_answered n p s) else (abort, download_aborted s))"

definition SdoUploadSegmentInd :: "ptr \<Rightarrow> 'z sdo_scheme \<Rightarrow> 8 word \<times> 'z sdo_scheme" where
  "SdoUploadSegmentInd p s =
    (let seg = mem_rd8 p 8 s in
     if seg AND SEGHEADER_TOGGLE = bSdoSegLastToggle s then (ABORTIDX_TOGGLE_BIT_NOT_CHANGED, s)
     else
       let maxData = u16SendMbxSize s - 6 - 3;
           s = s\<lparr>bSdoSegLastToggle := seg AND SEGHEADER_TOGGLE\<rparr>;
           last = (nSdoSegCompleteSize s < nSdoSegBytesToHandle s + ucast maxData);
           n = (if last then nSdoSegCompleteSize s - nSdoSegBytesToHandle s else ucast maxData);
           s = s\<lparr>bSdoSegFollows := \<not> last\<rparr>;
           (bs, s) = buf_load (pSdoSegData s, unat (nSdoSegBytesToHandle s)) (unat n) s;
           s = buf_store (p, 9) bs s;
           s = coe_set_service 3 p s;
           s = mem_wr8 p 8 (if bSdoSegFollows s then bSdoSegLastToggle s else bSdoSegLastToggle s OR SEGHEADER_NOMOREFOLLOWS) s;
           s = (if n < 7 then mem_or8 p 8 (push_bit 1 (ucast (7 - n))) (mem_wr16 p 0 10 s)
                else mem_wr16 p 0 (ucast n + 3) s) in
       (0, if bSdoSegFollows s then s\<lparr>nSdoSegBytesToHandle := nSdoSegBytesToHandle s + n\<rparr>
           else (mem_free (pSdoSegData s) s)\<lparr>pSdoSegData := NULL, nSdoSegBytesToHandle := 0, nSdoSegService := 0\<rparr>))"

section \<open>Initiating a transfer\<close>

text \<open>Where the data of the service lies: its size, its buffer, and whether it needs segments.\<close>

definition upload_plan :: "32 word \<Rightarrow> 16 word \<Rightarrow> ptr \<Rightarrow> 'z mbx_scheme
    \<Rightarrow> (8 word + 32 word \<times> buf \<times> bool) \<times> 'z mbx_scheme" where
  "upload_plan objLength mbxSize p s =
    (if mbxSize \<noteq> 10 then (Inl MBXERR_INVALIDSIZE, s)
     else if objLength \<le> 4 \<and> objLength \<noteq> 0
     then (Inr (objLength, (p, 12), False), buf_store (p, 12) (replicate 4 0) s)
     else let dataSize = ucast (u16SendMbxSize s) - 6 - 10 in
          (if dataSize < objLength then Inr (dataSize, (NULL, 0), True) else Inr (dataSize, (p, 16), False), s))"

definition download_plan :: "8 word \<Rightarrow> 16 word \<Rightarrow> ptr \<Rightarrow> 'z mbx_scheme \<Rightarrow> 8 word + 32 word \<times> buf \<times> bool" where
  "download_plan sdoHeader mbxSize p s =
    (if sdoHeader AND 0x02 \<noteq> 0
     then if mbxSize \<noteq> 10 then Inl MBXERR_INVALIDSIZE
          else Inr (4 - ucast (drop_bit 2 (sdoHeader AND 0x0C)), (p, 12), False)
     else let downloadSize = mem_rd32 p 12 s in
          if (if ucast (u16ReceiveMbxSize s) < 6 + 10 + downloadSize then mbxSize \<noteq> u16ReceiveMbxSize s - 6
              else ucast mbxSize \<noteq> 10 + downloadSize)
          then Inl MBXERR_INVALIDSIZE
          else Inr (downloadSize, (p, 16), ucast mbxSize - 10 < downloadSize))"

definition sdo_pending :: "8 word \<Rightarrow> bool \<Rightarrow> 8 word \<Rightarrow> 16 word \<Rightarrow> 32 word \<Rightarrow> buf \<Rightarrow> obj_fn option \<Rightarrow> 8 word \<Rightarrow> ptr
    \<Rightarrow> 'z coe_scheme \<Rightarrow> 'z coe_scheme" where
  "sdo_pending kind ca subindex index n b fn sdoHeader p s =
    mem_wr8 p 8 (sdoHeader AND (0x10 OR 0xE0))
      (s\<lparr>u8PendingSdo := kind, bStoreCompleteAccess := ca, u8StoreSubindex := subindex, u16StoreIndex := index,
         u32StoreDataSize := n, pStoreData := b, pSdoPendFunc := fn, bSdoInWork := True, pSdoResStored := p\<rparr>)"

text \<open>The result of a transfer: \<open>Inl\<close> a code to return at once, or the abort code and the data size of
  the response.\<close>

definition start_segments :: "('z sdo_scheme) coe_user \<Rightarrow> bool \<Rightarrow> 8 word \<Rightarrow> bool \<Rightarrow> 16 word \<Rightarrow> 8 word \<Rightarrow> ptr \<Rightarrow> 32 word \<Rightarrow> 32 word
    \<Rightarrow> 16 word \<Rightarrow> ptr \<Rightarrow> 'z sdo_scheme \<Rightarrow> (8 word + 8 word \<times> 32 word) \<times> 'z sdo_scheme" where
  "start_segments u upload sdoHeader ca index subindex pObjEntry objLength dataSize mbxSize p s =
    (let n = (if upload then objLength else dataSize);
         s = s\<lparr>bSdoSegFollows := True, bSdoSegLastToggle := 1, bSdoSegAccess := ca, nSdoSegIndex := index,
               nSdoSegSubindex := subindex, pSdoSegObjEntry := pObjEntry, nSdoSegCompleteSize := n\<rparr>;
         s = free_seg_data s;
         (q, s) = mem_malloc (unat (push_bit 1 (drop_bit 1 (n + 1)))) s;
         s = s\<lparr>pSdoSegData := q\<rparr>; ob = the_obj pObjEntry s in
     if q = NULL then (Inr (if ca then ABORTIDX_UNSUPPORTED_ACCESS else ABORTIDX_OUT_OF_MEMORY, dataSize), s)
     else if upload
     then let (abort, s) = OBJ_Read u index subindex objLength ob (q, 0) ca s in
          if abort = ABORTIDX_WORKING
          then (Inl 0, (sdo_pending SDO_PENDING_SEG_READ ca subindex index objLength (q, 0) (ObjRead ob) sdoHeader p s)
                         \<lparr>nSdoSegService := SDOSERVICE_UPLOADSEGMENTREQ\<rparr>)
          else let s = (if abort = 0
                        then let (bs, s) = buf_load (q, 0) (unat dataSize) s in
                             (buf_store (p, 16) bs s)\<lparr>nSdoSegService := SDOSERVICE_UPLOADSEGMENTREQ\<rparr>
                        else s) in
               (Inr (abort, dataSize), s\<lparr>nSdoSegBytesToHandle := dataSize\<rparr>)
     else let dataSize = ucast mbxSize - 10;
              (bs, s) = buf_load (p, 16) (unat dataSize) s;
              s = (buf_store (q, 0) bs s)\<lparr>nSdoSegService := SDOSERVICE_DOWNLOADSEGMENTREQ\<rparr> in
          (Inr (0, dataSize), s\<lparr>nSdoSegBytesToHandle := dataSize\<rparr>))"

definition single_transfer :: "('z sdo_scheme) coe_user \<Rightarrow> bool \<Rightarrow> 8 word \<Rightarrow> bool \<Rightarrow> 16 word \<Rightarrow> 8 word \<Rightarrow> ptr \<Rightarrow> 32 word \<Rightarrow> 32 word
    \<Rightarrow> buf \<Rightarrow> ptr \<Rightarrow> 'z sdo_scheme \<Rightarrow> (8 word + 8 word \<times> 32 word) \<times> 'z sdo_scheme" where
  "single_transfer u upload sdoHeader ca index subindex pObjEntry objLength dataSize pData p s =
    (let s = (if objLength = 0
              then s\<lparr>nSdoSegIndex := index, nSdoSegSubindex := subindex, pSdoSegObjEntry := pObjEntry\<rparr> else s);
         ob = the_obj pObjEntry s in
     if upload
     then let (abort, s) = OBJ_Read u index subindex objLength ob pData ca s in
          if abort = ABORTIDX_WORKING
          then (Inl 0, sdo_pending SDO_PENDING_READ ca subindex index objLength pData (ObjRead ob) sdoHeader p s)
          else (Inr (abort, dataSize), s)
     else let (abort, s) = OBJ_Write u index subindex dataSize ob pData ca s in
          if abort = ABORTIDX_WORKING
          then (Inl 0, sdo_pending SDO_PENDING_WRITE ca subindex index dataSize pData (ObjWrite ob) sdoHeader p s)
          else (Inr (abort, dataSize), s))"

definition initiate_transfer :: "('z sdo_scheme) coe_user \<Rightarrow> bool \<Rightarrow> 8 word \<Rightarrow> 16 word \<Rightarrow> ptr \<Rightarrow> ptr \<Rightarrow> 'z sdo_scheme
    \<Rightarrow> (8 word + 8 word \<times> 32 word \<times> 32 word) \<times> 'z sdo_scheme" where
  "initiate_transfer u upload sdoHeader mbxSize pObjEntry p s =
    (let index = mem_rd16 p 9 s; subindex = mem_rd8 p 11 s; ca = (sdoHeader AND 0x10 \<noteq> 0);
         ob = the_obj pObjEntry s in
     if flagsMaxSubindex ob < unat subindex then (Inr (ABORTIDX_SUBINDEX_NOT_EXISTING, 0, 0), s)
     else let (objLength, s) = OBJ_GetObjectLength subindex ob ca s;
              (plan, s) = (if upload then upload_plan objLength mbxSize p s
                           else (download_plan sdoHeader mbxSize p s, mem_touch p 16 s)) in
     case plan of
       Inl r \<Rightarrow> (Inl r, s)
     | Inr (dataSize, pData, segTransfer) \<Rightarrow>
         if ca \<and> 1 < subindex then (Inr (ABORTIDX_UNSUPPORTED_ACCESS, dataSize, objLength), s)
         else let (r, s) =
                    (if segTransfer
                     then start_segments u upload sdoHeader ca index subindex pObjEntry objLength dataSize mbxSize p s
                     else single_transfer u upload sdoHeader ca index subindex pObjEntry objLength dataSize pData p s) in
              (case r of Inl c \<Rightarrow> Inl c | Inr (abort, dataSize) \<Rightarrow> Inr (abort, dataSize, objLength), s))"

definition SDOS_SdoInd_impl :: "('z sdo_scheme) coe_user \<Rightarrow> ptr \<Rightarrow> 'z sdo_scheme \<Rightarrow> 8 word \<times> 'z sdo_scheme" where
  "SDOS_SdoInd_impl u p s =
    (let s = mem_touch p 9 s; sdoHeader = mem_rd8 p 8 s; command = sdoHeader AND 0xE0; mbxSize = mem_rd16 p 0 s in
     if bSdoInWork s then (MBXERR_SERVICEINWORK, s)
     else let (r, s) =
       (if command = SDOSERVICE_INITIATEDOWNLOADREQ \<or> command = SDOSERVICE_INITIATEUPLOADREQ
        then let s = mem_touch p 12 s in
             case OBJ_GetObjectHandle (mem_rd16 p 9 s) (dic s) of
               None \<Rightarrow> (Inl 0, s\<lparr>hung := True\<rparr>)
             | Some pObjEntry \<Rightarrow>
                 if pObjEntry = NULL then (Inr (ABORTIDX_OBJECT_NOT_EXISTING, 0, 0), s)
                 else initiate_transfer u (command = SDOSERVICE_INITIATEUPLOADREQ) sdoHeader mbxSize pObjEntry p s
        else if command = SDOSERVICE_DOWNLOADSEGMENTREQ \<or> command = SDOSERVICE_UPLOADSEGMENTREQ
        then if command = nSdoSegService s
             then let (abort, s) = (if command = SDOSERVICE_DOWNLOADSEGMENTREQ then SdoDownloadSegmentInd u p s
                                    else SdoUploadSegmentInd p s) in
                  (Inr (abort, 0, 0), s)
             else (Inr (ABORTIDX_COMMAND_SPECIFIER_UNKNOWN, 0, 0), s)
        else (Inr (ABORTIDX_COMMAND_SPECIFIER_UNKNOWN, 0, 0), s)) in
     case r of
       Inl c \<Rightarrow> (c, s)
     | Inr (abort, dataSize, objLength) \<Rightarrow>
         (0, if abort \<noteq> ABORTIDX_WORKING then SdoRes abort command (sdoHeader AND 0x10) (ucast dataSize) objLength p s
             else s))"

end
