(* ===== verification/SdoInfo.thy ===== *)
theory SdoInfo
  imports SdoServ
begin

text \<open>
  The rest of the SDO server: late responses (\<open>SDOS_SdoRes\<close> and \<open>COE_Main\<close>), the SDO information
  service (\<open>SDOS_SdoInfoInd\<close>), and the initialisation of the objects (\<open>COE_ObjInit\<close>).
\<close>

unbundle bit_operations_syntax

section \<open>Late responses\<close>

text \<open>A segmented upload keeps \<open>pData\<close> as the buffer of the transfer.  It is the start of a heap
  block when it comes from \<open>COE_Main\<close>; any other pointer is noted as a fault.\<close>

definition SDOS_SdoRes :: "8 word \<Rightarrow> 32 word \<Rightarrow> buf \<Rightarrow> 'z sdo_scheme \<Rightarrow> 'z sdo_scheme" where
  "SDOS_SdoRes abort objLength pData s =
    (if \<not> bSdoInWork s then s
     else let p = pSdoResStored s; s = mem_touch p 9 s;
              command = mem_rd8 p 8 s AND 0xE0; completeAccess = mem_rd8 p 8 s AND 0x10;
              dataSize = (if command = SDOSERVICE_INITIATEUPLOADREQ then u16SendMbxSize s - 6 - 10 else 0);
              s = (if command = SDOSERVICE_INITIATEUPLOADREQ
                   then if ucast dataSize < objLength
                        then let s = s\<lparr>bSdoSegFollows := True, bSdoSegLastToggle := 1, bSdoSegAccess := (completeAccess \<noteq> 0),
                                       nSdoSegCompleteSize := objLength, nSdoSegService := SDOSERVICE_UPLOADSEGMENTREQ,
                                       pSdoSegData := fst pData\<rparr>;
                                 (bs, s) = buf_load pData (unat dataSize) (note_fault (snd pData \<noteq> 0) s);
                                 s = buf_store (p, 16) bs s in
                             s\<lparr>nSdoSegBytesToHandle := ucast dataSize\<rparr>
                        else let b = (if objLength \<le> 4 \<and> 0 < objLength then (p, 12) else (p, 16)) in
                             if pData \<noteq> b
                             then let (bs, s) = buf_load pData (unat objLength) s in buf_store b bs s
                             else s
                   else s) in
          SdoRes abort command completeAccess dataSize objLength p (s\<lparr>bSdoInWork := False\<rparr>))"

definition COE_Main :: "('z sdo_scheme) coe_user \<Rightarrow> 'z sdo_scheme \<Rightarrow> 'z sdo_scheme" where
  "COE_Main u s =
    (case pSdoPendFunc s of
       None \<Rightarrow> s
     | Some fn \<Rightarrow>
         let (abort, s) = obj_call u fn (u16StoreIndex s) (u8StoreSubindex s) (u32StoreDataSize s) (pStoreData s)
                            (bStoreCompleteAccess s) s in
         if abort = ABORTIDX_WORKING then s
         else let s = (if u8PendingSdo s = SDO_PENDING_SEG_WRITE then free_seg_data s else s);
                  s = (if u8PendingSdo s = SDO_PENDING_SEG_WRITE \<or> u8PendingSdo s = SDO_PENDING_WRITE
                       then SDOS_SdoRes abort 0 (NULL, 0) s
                       else if u8PendingSdo s = SDO_PENDING_SEG_READ \<or> u8PendingSdo s = SDO_PENDING_READ
                       then SDOS_SdoRes abort (u32StoreDataSize s) (pStoreData s) s
                       else s) in
              s\<lparr>u8PendingSdo := 0, u16StoreIndex := 0, u8StoreSubindex := 0, u32StoreDataSize := 0,
                pStoreData := (NULL, 0), bStoreCompleteAccess := False, pSdoPendFunc := None\<rparr>)"

section \<open>Information services\<close>

abbreviation SDOINFOSERVICE_OBJDICTIONARYLIST_Q :: "16 word" where "SDOINFOSERVICE_OBJDICTIONARYLIST_Q \<equiv> 1"
abbreviation SDOINFOSERVICE_OBJDICTIONARYLIST_S :: "16 word" where "SDOINFOSERVICE_OBJDICTIONARYLIST_S \<equiv> 2"
abbreviation SDOINFOSERVICE_OBJDESCRIPTION_Q :: "16 word" where "SDOINFOSERVICE_OBJDESCRIPTION_Q \<equiv> 3"
abbreviation SDOINFOSERVICE_ENTRYDESCRIPTION_Q :: "16 word" where "SDOINFOSERVICE_ENTRYDESCRIPTION_Q \<equiv> 5"
abbreviation SDOINFOSERVICE_ERROR_Q :: "16 word" where "SDOINFOSERVICE_ERROR_Q \<equiv> 7"
abbreviation INFO_LIST_TYPE_MAX :: "16 word" where "INFO_LIST_TYPE_MAX \<equiv> 5"

definition set_opcode :: "16 word \<Rightarrow> ptr \<Rightarrow> 'z mach_scheme \<Rightarrow> 'z mach_scheme" where
  "set_opcode opc p s = mem_wr16 p 8 ((mem_rd16 p 8 s AND NOT 0x007F) OR opc) s"

text \<open>The lengths of the five lists, into the words at 14.\<close>

fun list_lengths :: "ptr \<Rightarrow> nat list \<Rightarrow> 'z sdo_scheme \<Rightarrow> 'z sdo_scheme" where
  "list_lengths p [] s = s"
| "list_lengths p (i # is) s =
    (case OBJ_GetNoOfObjects (of_nat i) (dic s) of
       None \<Rightarrow> s\<lparr>hung := True\<rparr>
     | Some n \<Rightarrow> list_lengths p is (mem_wr16 p (14 + 2 * i) n s))"

text \<open>One fragment of a list: the first one starts at the object 0x1000, behind the list type.\<close>

definition fragments_left :: "16 word \<Rightarrow> 16 word \<Rightarrow> 16 word" where
  "fragments_left n space =
    (if unat space < 2 * unat n
     then of_nat ((2 * unat n - unat space + (unat (space + 2) - 1)) div unat (space + 2))
     else 0)"

definition list_start :: "8 word \<Rightarrow> ptr \<Rightarrow> 'z sdo_scheme \<Rightarrow> (16 word \<times> 16 word \<times> buf \<times> 'z sdo_scheme) option" where
  "list_start listType p s =
    (if nSdoInfoFragmentsLeft s \<noteq> 0
     then Some (nSdoInfoIndex s, u16SendMbxSize s - 6 - 6, (p, 12), s\<lparr>nSdoInfoFragmentsLeft := nSdoInfoFragmentsLeft s - 1\<rparr>)
     else let space = u16SendMbxSize s - 8 - 6 in
          case OBJ_GetNoOfObjects listType (dic s) of
            None \<Rightarrow> None
          | Some n \<Rightarrow> Some (0x1000, space, (p, 14),
              s\<lparr>nSdoInfoFragmentsLeft := fragments_left n space\<rparr>))"

definition list_fragment :: "8 word \<Rightarrow> ptr \<Rightarrow> 'z sdo_scheme \<Rightarrow> (8 word \<times> 16 word \<times> 'z sdo_scheme) option" where
  "list_fragment listType p s =
    (case list_start listType p s of
       None \<Rightarrow> None
     | Some (index, space, b, s) \<Rightarrow>
         (case OBJ_GetObjectList (ucast listType) index space b s of
            None \<Rightarrow> None
          | Some (space, index, abort, s) \<Rightarrow> Some (abort, u16SendMbxSize s - space - 6, s\<lparr>nSdoInfoIndex := index\<rparr>)))"

text \<open>The result of a service: abort code, flags of the response, state.\<close>

definition info_list :: "ptr \<Rightarrow> 'z sdo_scheme \<Rightarrow> (8 word \<times> 8 word \<times> 'z sdo_scheme) option" where
  "info_list p s =
    (let listType = mem_rd16 p 12 s in
     if INFO_LIST_TYPE_MAX < listType then Some (0, COE_SERVICE, s)
     else let (hdr, s) = buf_load (p, 0) SDO_INFO_HEADER_BYTE_SIZE s;
              s = s\<lparr>aSdoInfoHeader := hdr\<rparr> in
          case (if listType = 0
                then Some (0, 2 * INFO_LIST_TYPE_MAX + 8, list_lengths p [0..<5] (s\<lparr>nSdoInfoFragmentsLeft := 0\<rparr>))
                else list_fragment (ucast (listType - 1)) p s) of
            None \<Rightarrow> None
          | Some (abort, n, s) \<Rightarrow>
              let s = mem_wr16 p 0 n s in
              if abort \<noteq> 0 then Some (abort, COE_SERVICE, s)
              else let s = set_opcode SDOINFOSERVICE_OBJDICTIONARYLIST_S p s;
                       s = mem_wr16 p 10 (nSdoInfoFragmentsLeft s) s in
                   if nSdoInfoFragmentsLeft s \<noteq> 0
                   then Some (0, FRAGMENTS_FOLLOW OR COE_SERVICE,
                              mem_wr16 p 8 ((mem_rd16 p 8 s AND NOT 0x0080) OR 0x80) s)
                   else Some (0, COE_SERVICE, s))"

text \<open>A description with its name behind the fixed part, at \<open>off\<close>, when it fits the send mailbox.\<close>

definition put_name :: "nat \<Rightarrow> 16 word \<Rightarrow> 8 word \<Rightarrow> tobject \<Rightarrow> ptr \<Rightarrow> 'z mbx_scheme \<Rightarrow> 16 word \<times> 'z mbx_scheme" where
  "put_name off fixed subindex ob p s =
    (let (n, s) = OBJ_GetDesc subindex ob None s in
     if u16SendMbxSize s - 6 < n + fixed then (fixed, s)
     else let (n, s) = OBJ_GetDesc subindex ob (Some (p, off)) s in (n + fixed, s))"

definition entry_bytes :: "entry_desc \<Rightarrow> 8 word list" where
  "entry_bytes e = le16_bytes (DataType e) @ le16_bytes (BitLength e) @ le16_bytes (ObjAccess e)"

definition info_object :: "tobject \<Rightarrow> ptr \<Rightarrow> 'z mbx_scheme \<Rightarrow> 8 word \<times> 16 word \<times> 'z mbx_scheme" where
  "info_object ob p s =
    (let (ty, flags) = OBJ_GetObjDesc ob; s = mem_write p 14 (le16_bytes ty @ le16_bytes flags) s;
         (n, s) = put_name 18 12 0 ob p s in
     (0, n, s))"

definition info_entry :: "tobject \<Rightarrow> ptr \<Rightarrow> 'z mbx_scheme \<Rightarrow> 8 word \<times> 16 word \<times> 'z mbx_scheme" where
  "info_entry ob p s =
    (let s = mem_touch p 16 s; info = mem_rd16 p 14 s; subindex = ucast (info AND 0x00FF) :: 8 word in
     if flagsMaxSubindex ob < unat subindex then (ABORTIDX_SUBINDEX_NOT_EXISTING, 0, s)
     else let s = mem_write p 16 (entry_bytes (OBJ_GetEntryDesc ob (unat subindex)))
                    (note_fault (entry_outside ob (unat subindex)) s);
              s = mem_wr16 p 14 (info AND NOT 0xFF00) s;
              (n, s) = (if (objCode ob = OBJCODE_ARR \<or> objCode ob = OBJCODE_REC) \<and> subindex = 0
                        then (12 + 6 + 10, mem_write p 22 aSubindexDesc s)
                        else put_name 22 16 subindex ob p s) in
          (0, n, s))"

definition info_description :: "16 word \<Rightarrow> ptr \<Rightarrow> 'z sdo_scheme \<Rightarrow> (8 word \<times> 'z sdo_scheme) option" where
  "info_description opCode p s =
    (let index = mem_rd16 p 12 s in
     if index < 0x1000 then Some (ABORTIDX_UNSUPPORTED_ACCESS, s)
     else case OBJ_GetObjectHandle index (dic s) of
            None \<Rightarrow> None
          | Some q \<Rightarrow>
              if q = NULL then Some (ABORTIDX_OBJECT_NOT_EXISTING, s)
              else let ob = the_obj q s;
                       (abort, n, s) = (if opCode = SDOINFOSERVICE_OBJDESCRIPTION_Q then info_object ob p s
                                        else info_entry ob p s) in
                   Some (abort, if abort = 0
                                then set_opcode (opCode + 1) p (mem_wr16 p 0 n (mem_wr16 p 10 0 s))
                                else s))"

definition info_error :: "8 word \<Rightarrow> ptr \<Rightarrow> 'z sdo_scheme \<Rightarrow> 'z sdo_scheme" where
  "info_error abort p s =
    (let s = mem_wr16 p 0 10 s; s = set_opcode SDOINFOSERVICE_ERROR_Q p s; s = mem_wr16 p 10 0 s;
         s = mem_wr32 p 12 (cAbortCode abort) s in
     s\<lparr>nSdoInfoFragmentsLeft := 0\<rparr>)"

definition SDOS_SdoInfoInd_impl :: "ptr \<Rightarrow> 'z sdo_scheme \<Rightarrow> 8 word \<times> 'z sdo_scheme" where
  "SDOS_SdoInfoInd_impl p s =
    (let s = mem_touch p 10 s; opCode = mem_rd16 p 8 s AND 0x007F in
     if mem_rd16 p 0 s < (if opCode = SDOINFOSERVICE_ENTRYDESCRIPTION_Q then 10 else 8) then (MBXERR_SIZETOOSHORT, s)
     else case (if opCode = SDOINFOSERVICE_OBJDICTIONARYLIST_Q then info_list p (mem_touch p 14 s)
                else if opCode = SDOINFOSERVICE_OBJDESCRIPTION_Q \<or> opCode = SDOINFOSERVICE_ENTRYDESCRIPTION_Q
                then (case info_description opCode p (mem_touch p 14 s) of
                        None \<Rightarrow> None | Some (abort, s) \<Rightarrow> Some (abort, COE_SERVICE, s))
                else Some (ABORTIDX_COMMAND_SPECIFIER_UNKNOWN, COE_SERVICE, s)) of
            None \<Rightarrow> (0, s\<lparr>hung := True\<rparr>)
          | Some (abort, flags, s) \<Rightarrow> (0, coe_send p flags (if abort \<noteq> 0 then info_error abort p s else s)))"

section \<open>Initialisation\<close>

abbreviation ESC_FEATURES_OFFSET :: nat where "ESC_FEATURES_OFFSET \<equiv> 0x0008"

definition syncman_par_init :: "syncmanpar \<Rightarrow> syncmanpar" where
  "syncman_par_init p = p\<lparr>u16SyncType := SYNCTYPE_FREERUN, u32CycleTime := 0,
     u16SyncTypesSupported := 0x0001 OR 0x4000 OR SYNCTYPE_SYNCHRONSUPP OR SYNCTYPE_DCSYNC0SUPP OR SYNCTYPE_DCSYNC1SUPP
       OR SYNCTYPE_SUBCYCLESUPP,
     u32MinCycleTime := MIN_PD_CYCLE_TIME, u32CalcAndCopyTime := 0, u16GetCycleTime := 0, u32DelayTime := 0,
     u16SmEventMissedCounter := 0, u16CycleExceededCounter := 0, u8SyncError := 0\<rparr>"

definition coe_dictionary_start :: "dictionary \<Rightarrow> dictionary option" where
  "coe_dictionary_start d =
    (case COE_ObjDictionaryInit d of
       None \<Rightarrow> None
     | Some (r, d) \<Rightarrow> if r \<noteq> 0 then COE_ClearObjDictionary d else Some d)"

definition COE_ObjInit :: "'z sdo_scheme \<Rightarrow> 'z sdo_scheme" where
  "COE_ObjInit s =
    (let s = s\<lparr>sSyncManOutPar := syncman_par_init (sSyncManOutPar s), sSyncManInPar := syncman_par_init (sSyncManInPar s),
               bSyncSetByUser := False\<rparr>;
         s = (case coe_dictionary_start (dic s) of None \<Rightarrow> s\<lparr>hung := True\<rparr> | Some d \<Rightarrow> s\<lparr>dic := d\<rparr>);
         s = s\<lparr>u8PendingSdo := 0, bStoreCompleteAccess := False, u16StoreIndex := 0, u8StoreSubindex := 0,
               u32StoreDataSize := 0, pStoreData := (NULL, 0), pSdoPendFunc := None, pSdoSegData := NULL\<rparr>;
         (feature, s) = HW_EscReadDWord ESC_FEATURES_OFFSET s;
         s = (if feature AND 0x00000008 \<noteq> 0 then s\<lparr>b32BitDc := False\<rparr>
              else let (t, s) = HW_EscReadDWord ESC_SYSTEMTIME_OFFSET (s\<lparr>b32BitDc := True\<rparr>) in s\<lparr>u32LastDc32Value := t\<rparr>) in
     s\<lparr>u32CheckForDcOverrunCnt := CHECK_DC_OVERRUN_IN_MS\<rparr>)"

definition sdo_server_of :: "('z sdo_scheme) coe_user \<Rightarrow> ('z sdo_scheme) sdo_server" where
  "sdo_server_of u = \<lparr>SDOS_SdoInd = SDOS_SdoInd_impl u, SDOS_SdoInfoInd = SDOS_SdoInfoInd_impl\<rparr>"

end
