(* ===== verification/FoeStaging.thy ===== *)
theory FoeStaging
  imports SlavePrelude
begin

text \<open>
  The staging region of a firmware download: \<open>common/foe_staging.hpp\<close> (layout and record) and
  \<open>common/foe_staging_writer.hpp\<close> (\<open>StagingWriter\<close>), with the addresses of the board
  \<open>hpm6e8y\<close>.

  The flash behind the injected primitives is a parameter, the state \<open>'f\<close> with the operations
  of \<open>flash_ops\<close>; \<open>fl_cells\<close> is what a reader sees.  \<open>nor_ok\<close> states what a NOR flash promises: a
  successful erase sets a sector to ones, a successful program clears bits, and a failed one may
  leave anything, but only in the range it addressed.
\<close>

unbundle bit_operations_syntax

section \<open>Layout\<close>

abbreviation kStagingMetadataStart :: "32 word" where "kStagingMetadataStart \<equiv> 0x80210000"
abbreviation kStagingImageStart :: "32 word" where "kStagingImageStart \<equiv> 0x80211000"
abbreviation kStagingMaxImageSize :: "32 word" where "kStagingMaxImageSize \<equiv> 0x1E0000"
abbreviation kStagingMagic :: "32 word" where "kStagingMagic \<equiv> 0x54534D52"
abbreviation kStagingStateReady :: "32 word" where "kStagingStateReady \<equiv> 0x53544452"
abbreviation kFlashWordErased :: "32 word" where "kFlashWordErased \<equiv> 0xFFFFFFFF"
abbreviation kStagingSectorSize :: "32 word" where "kStagingSectorSize \<equiv> 4096"

record 'f flash_ops =
  fl_erase :: "32 word \<Rightarrow> 'f \<Rightarrow> bool \<times> 'f"
  fl_program :: "32 word \<Rightarrow> 8 word list \<Rightarrow> 'f \<Rightarrow> bool \<times> 'f"
  fl_max_program_size :: nat
  fl_cells :: "'f \<Rightarrow> nat \<Rightarrow> 8 word"

definition fl_read :: "'f flash_ops \<Rightarrow> nat \<Rightarrow> nat \<Rightarrow> 'f \<Rightarrow> 8 word list" where
  "fl_read fl a n f = map (\<lambda>i. fl_cells fl f (a + i)) [0..<n]"

definition fl_word :: "'f flash_ops \<Rightarrow> 32 word \<Rightarrow> nat \<Rightarrow> 'f \<Rightarrow> 32 word" where
  "fl_word fl a off f = get32 (fl_read fl (unat a + off) 4 f) 0"

record staging_record =
  magic :: "32 word"
  state :: "32 word"
  image_size :: "32 word"
  reserved :: "32 word"

definition staging_record_of :: "'f flash_ops \<Rightarrow> 'f \<Rightarrow> staging_record" where
  "staging_record_of fl f = \<lparr>magic = fl_word fl kStagingMetadataStart 0 f, state = fl_word fl kStagingMetadataStart 4 f,
     image_size = fl_word fl kStagingMetadataStart 8 f, reserved = fl_word fl kStagingMetadataStart 12 f\<rparr>"

definition staging_record_is_ready :: "'f flash_ops \<Rightarrow> 32 word \<Rightarrow> 'f \<Rightarrow> bool" where
  "staging_record_is_ready fl max_image_size f =
    (let r = staging_record_of fl f in
     magic r = kStagingMagic \<and> state r = kStagingStateReady \<and> reserved r = kFlashWordErased
     \<and> image_size r \<noteq> 0 \<and> image_size r \<le> max_image_size)"

section \<open>StagingWriter\<close>

record staging_writer =
  next_offset :: "32 word"
  erased_through :: "32 word"
  is_open :: bool

datatype EraseStep = kReady | kProgressed | kFailed

definition SW_begin :: "'f flash_ops \<Rightarrow> 'f \<Rightarrow> bool \<times> staging_writer \<times> 'f" where
  "SW_begin fl f =
    (let w = \<lparr>next_offset = 0, erased_through = 0, is_open = False\<rparr> in
     if fl_max_program_size fl = 0 then (False, w, f)
     else let (ok, f) = fl_erase fl kStagingMetadataStart f in
          if \<not> ok then (False, w, f)
          else let (ok, f) = fl_program fl kStagingMetadataStart (le32_bytes kStagingMagic) f in
               if \<not> ok then (False, w, f) else (True, w\<lparr>is_open := True\<rparr>, f))"

definition SW_erase_step :: "'f flash_ops \<Rightarrow> 32 word \<Rightarrow> staging_writer \<Rightarrow> 'f \<Rightarrow> EraseStep \<times> staging_writer \<times> 'f" where
  "SW_erase_step fl end1 w f =
    (if \<not> is_open w then (kFailed, w, f)
     else if end1 \<le> erased_through w then (kReady, w, f)
     else let (ok, f) = fl_erase fl (kStagingImageStart + erased_through w) f in
          if \<not> ok then (kFailed, w, f)
          else (kProgressed, w\<lparr>erased_through := erased_through w + kStagingSectorSize\<rparr>, f))"

text \<open>The program loop of \<open>write\<close>.  With a limit of 0 it would not end; \<open>begin\<close> refuses that
  limit, so the model may stop there.\<close>

function SW_program :: "'f flash_ops \<Rightarrow> 32 word \<Rightarrow> 8 word list \<Rightarrow> 'f \<Rightarrow> bool \<times> 'f" where
  "SW_program fl a bs f =
    (if bs = [] then (True, f)
     else if fl_max_program_size fl = 0 then (False, f)
     else let chunk = take (fl_max_program_size fl) bs;
              (ok, f) = fl_program fl a chunk f in
          if \<not> ok then (False, f)
          else SW_program fl (a + of_nat (length chunk)) (drop (fl_max_program_size fl) bs) f)"
  by pat_completeness auto
termination by (relation "measure (\<lambda>(fl, a, bs, f). length bs)") auto

declare SW_program.simps [simp del]

definition SW_write :: "'f flash_ops \<Rightarrow> 32 word \<Rightarrow> 8 word list \<Rightarrow> staging_writer \<Rightarrow> 'f \<Rightarrow> bool \<times> staging_writer \<times> 'f" where
  "SW_write fl offset bs w f =
    (let size = of_nat (length bs) :: 32 word in
     if \<not> is_open w \<or> offset \<noteq> next_offset w then (False, w, f)
     else if size = 0 then (True, w, f)
     else if offset > kStagingMaxImageSize \<or> size > kStagingMaxImageSize - offset then (False, w, f)
     else if offset + size > erased_through w then (False, w, f)
     else let (ok, f) = SW_program fl (kStagingImageStart + offset) bs f in
          if \<not> ok then (False, w, f) else (True, w\<lparr>next_offset := offset + size\<rparr>, f))"

definition SW_commit :: "'f flash_ops \<Rightarrow> staging_writer \<Rightarrow> 'f \<Rightarrow> bool \<times> staging_writer \<times> 'f" where
  "SW_commit fl w f =
    (if \<not> is_open w \<or> next_offset w = 0 then (False, w, f)
     else let (ok, f) = fl_program fl (kStagingMetadataStart + 8) (le32_bytes (next_offset w)) f in
          if \<not> ok then (False, w, f)
          else let (ok, f) = fl_program fl (kStagingMetadataStart + 4) (le32_bytes kStagingStateReady) f in
               if \<not> ok then (False, w, f) else (True, w\<lparr>is_open := False\<rparr>, f))"

definition SW_abort :: "staging_writer \<Rightarrow> staging_writer" where
  "SW_abort w = w\<lparr>is_open := False\<rparr>"

section \<open>What the flash promises\<close>

definition nor_ok :: "'f flash_ops \<Rightarrow> bool" where
  "nor_ok fl = (
     (\<forall>a f ok g. fl_erase fl a f = (ok, g) \<longrightarrow>
        (\<forall>x. if unat a \<le> x \<and> x < unat a + 4096 then ok \<longrightarrow> fl_cells fl g x = 0xFF
             else fl_cells fl g x = fl_cells fl f x))
     \<and> (\<forall>a bs f ok g. fl_program fl a bs f = (ok, g) \<longrightarrow>
        (\<forall>x. if unat a \<le> x \<and> x < unat a + length bs
             then ok \<longrightarrow> fl_cells fl g x = fl_cells fl f x AND bs ! (x - unat a)
             else fl_cells fl g x = fl_cells fl f x)))"

lemma nor_erase:
  assumes "nor_ok fl" "fl_erase fl a f = (ok, g)"
  shows "\<And>x. ok \<Longrightarrow> unat a \<le> x \<Longrightarrow> x < unat a + 4096 \<Longrightarrow> fl_cells fl g x = 0xFF"
    and "\<And>x. \<not> (unat a \<le> x \<and> x < unat a + 4096) \<Longrightarrow> fl_cells fl g x = fl_cells fl f x"
  using assms unfolding nor_ok_def by meson+

lemma nor_program:
  assumes "nor_ok fl" "fl_program fl a bs f = (ok, g)"
  shows "\<And>x. ok \<Longrightarrow> unat a \<le> x \<Longrightarrow> x < unat a + length bs \<Longrightarrow> fl_cells fl g x = fl_cells fl f x AND bs ! (x - unat a)"
    and "\<And>x. \<not> (unat a \<le> x \<and> x < unat a + length bs) \<Longrightarrow> fl_cells fl g x = fl_cells fl f x"
  using assms unfolding nor_ok_def by meson+

section \<open>The session\<close>

lemma unat_image_addr:
  "unat k \<le> 0x1E1000 \<Longrightarrow> unat (kStagingImageStart + k) = 0x80211000 + unat k"
  by (simp add: unat_word_ariths)

lemma fl_word_cong:
  "(\<And>i. i < 4 \<Longrightarrow> fl_cells fl f (unat a + off + i) = fl_cells fl g (unat a + off + i)) \<Longrightarrow> fl_word fl a off f = fl_word fl a off g"
  by (auto simp: fl_word_def fl_read_def intro!: arg_cong[where f = "\<lambda>l. get32 l 0"])

lemma fl_word_eqI:
  "(\<And>i. i < 4 \<Longrightarrow> fl_cells fl f (unat a + off + i) = le32_bytes w ! i) \<Longrightarrow> fl_word fl a off f = w"
proof -
  assume "\<And>i. i < 4 \<Longrightarrow> fl_cells fl f (unat a + off + i) = le32_bytes w ! i"
  then have "fl_read fl (unat a + off) 4 f = le32_bytes w"
    by (intro nth_equalityI) (auto simp: fl_read_def)
  then show ?thesis using get32_put32[of 0 "le32_bytes w" w] by (simp add: fl_word_def)
qed

text \<open>The record of a running session: the magic is set, everything else is erased.\<close>

definition meta_open :: "'f flash_ops \<Rightarrow> 'f \<Rightarrow> bool" where
  "meta_open fl f = (fl_word fl kStagingMetadataStart 0 f = kStagingMagic
     \<and> (\<forall>x. 0x80210004 \<le> x \<and> x < 0x80211000 \<longrightarrow> fl_cells fl f x = 0xFF))"

definition erased_ahead :: "'f flash_ops \<Rightarrow> nat \<Rightarrow> nat \<Rightarrow> 'f \<Rightarrow> bool" where
  "erased_ahead fl a b f = (\<forall>x. 0x80211000 + a \<le> x \<and> x < 0x80211000 + b \<longrightarrow> fl_cells fl f x = 0xFF)"

definition staged :: "'f flash_ops \<Rightarrow> 8 word list \<Rightarrow> 'f \<Rightarrow> bool" where
  "staged fl img f = (fl_read fl 0x80211000 (length img) f = img)"

definition staging_inv :: "'f flash_ops \<Rightarrow> staging_writer \<Rightarrow> 'f \<Rightarrow> 8 word list \<Rightarrow> bool" where
  "staging_inv fl w f img = (is_open w \<and> 0 < fl_max_program_size fl
     \<and> unat (next_offset w) = length img \<and> length img \<le> 0x1E0000
     \<and> length img \<le> unat (erased_through w) \<and> unat (erased_through w) \<le> 0x1E1000
     \<and> staged fl img f \<and> erased_ahead fl (length img) (unat (erased_through w)) f \<and> meta_open fl f)"

lemma staged_iff: "staged fl img f = (\<forall>i < length img. fl_cells fl f (0x80211000 + i) = img ! i)"
  unfolding staged_def fl_read_def list_eq_iff_nth_eq by simp

lemma meta_open_cong:
  assumes "meta_open fl f" "\<And>x. x < 0x80211000 \<Longrightarrow> fl_cells fl g x = fl_cells fl f x"
  shows "meta_open fl g"
proof -
  have "fl_word fl kStagingMetadataStart 0 g = fl_word fl kStagingMetadataStart 0 f"
    by (rule fl_word_cong, rule assms(2)) simp
  moreover have "fl_cells fl g x = 0xFF" if "0x80210004 \<le> x" "x < 0x80211000" for x
    using assms(1) that unfolding meta_open_def assms(2)[OF that(2)] by blast
  ultimately show ?thesis using assms(1) unfolding meta_open_def by auto
qed

lemma ff_and: "0xFF AND x = x" for x :: "8 word"
proof -
  have "(0xFF :: 8 word) = - 1" by simp
  then show ?thesis by (metis and.left_neutral)
qed

lemma less4: "i < 4 \<Longrightarrow> i = 0 \<or> i = 1 \<or> i = 2 \<or> i = (3 :: nat)" by auto

lemma erased_word: "i < 4 \<Longrightarrow> le32_bytes kFlashWordErased ! i = 0xFF"
  by (drule less4) (auto simp: le32_bytes_def)

lemma fl_word_erased:
  "(\<And>i. i < 4 \<Longrightarrow> fl_cells fl f (unat a + off + i) = 0xFF) \<Longrightarrow> fl_word fl a off f = kFlashWordErased"
  by (rule fl_word_eqI) (simp add: erased_word)

lemma meta_open_words:
  assumes "meta_open fl f"
  shows "fl_word fl kStagingMetadataStart 4 f = kFlashWordErased" "fl_word fl kStagingMetadataStart 8 f = kFlashWordErased"
    "fl_word fl kStagingMetadataStart 12 f = kFlashWordErased"
  by (rule fl_word_erased, use assms in \<open>simp add: meta_open_def\<close>)+

text \<open>A committed image: what an installation finds.\<close>

definition image_ready :: "'f flash_ops \<Rightarrow> 8 word list \<Rightarrow> 'f \<Rightarrow> bool" where
  "image_ready fl img f = (staging_record_is_ready fl kStagingMaxImageSize f \<and> staged fl img f
     \<and> unat (image_size (staging_record_of fl f)) = length img)"

lemma meta_open_not_ready:
  assumes "meta_open fl f" shows "\<not> staging_record_is_ready fl m f"
  by (simp add: staging_record_is_ready_def staging_record_of_def Let_def meta_open_words[OF assms])

lemma SW_begin_inv:
  assumes nor: "nor_ok fl" and b: "SW_begin fl f = (True, w, g)"
  shows "staging_inv fl w g []"
proof -
  obtain ok1 f1 where e: "fl_erase fl kStagingMetadataStart f = (ok1, f1)" by force
  obtain ok2 f2 where p: "fl_program fl kStagingMetadataStart (le32_bytes kStagingMagic) f1 = (ok2, f2)" by force
  have h: "0 < fl_max_program_size fl" "ok1" "ok2" "g = f2"
    "w = \<lparr>next_offset = 0, erased_through = 0, is_open = True\<rparr>"
    using b e p by (auto simp: SW_begin_def Let_def split: if_splits)
  note E = nor_erase[OF nor e] and P = nor_program[OF nor p]
  have ff: "fl_cells fl f1 x = 0xFF" if "0x80210000 \<le> x" "x < 0x80211000" for x
    using E(1)[OF h(2), of x] that by simp
  have m: "fl_word fl kStagingMetadataStart 0 g = kStagingMagic"
    by (rule fl_word_eqI) (use P(1)[OF h(3)] ff h(4) in \<open>simp add: ff_and\<close>)
  have r: "fl_cells fl g x = 0xFF" if "0x80210004 \<le> x" "x < 0x80211000" for x
    using P(2)[of x] ff[of x] that h(4) by simp
  show ?thesis using h m r by (simp add: staging_inv_def staged_def fl_read_def erased_ahead_def meta_open_def)
qed

lemma SW_program_cells:
  assumes nor: "nor_ok fl" and "unat a + length bs < 2 ^ 32" "SW_program fl a bs f = (ok, g)"
  shows "(\<not> (unat a \<le> x \<and> x < unat a + length bs) \<longrightarrow> fl_cells fl g x = fl_cells fl f x)
    \<and> (ok \<longrightarrow> unat a \<le> x \<longrightarrow> x < unat a + length bs \<longrightarrow> fl_cells fl g x = fl_cells fl f x AND bs ! (x - unat a))"
  using assms(2,3)
proof (induction "length bs" arbitrary: a bs f rule: less_induct)
  case less
  show ?case
  proof (cases "bs = [] \<or> fl_max_program_size fl = 0")
    case True
    then show ?thesis using less.prems(2) by (subst (asm) SW_program.simps) (auto split: if_splits)
  next
    case False
    let ?m = "fl_max_program_size fl"
    define c where "c = length (take ?m bs)"
    obtain ok1 h where p: "fl_program fl a (take ?m bs) f = (ok1, h)" by force
    note P = nor_program[OF nor p]
    have c: "0 < c" "c \<le> length bs" "length (drop ?m bs) = length bs - c" using False by (auto simp: c_def)
    have out: "fl_cells fl h x = fl_cells fl f x" if "\<not> (unat a \<le> x \<and> x < unat a + c)"
      using P(2)[of x] that by (simp add: c_def)
    show ?thesis
    proof (cases ok1)
      case no: False
      then have "\<not> ok" "g = h" using False p less.prems(2) by (subst (asm) SW_program.simps, simp)+
      then show ?thesis using out c by (cases "unat a \<le> x \<and> x < unat a + c") auto
    next
      case True
      have r: "SW_program fl (a + of_nat c) (drop ?m bs) h = (ok, g)"
        using False p less.prems(2) True by (subst (asm) SW_program.simps) (simp add: c_def)
      have a: "unat (a + of_nat c) = unat a + c"
        using less.prems(1) c by (simp add: unat_word_ariths unat_of_nat)
      note IH = less.hyps[OF _ _ r, unfolded a c(3)]
      have IH': "(\<not> (unat a + c \<le> x \<and> x < unat a + length bs) \<longrightarrow> fl_cells fl g x = fl_cells fl h x)
          \<and> (ok \<longrightarrow> unat a + c \<le> x \<longrightarrow> x < unat a + length bs \<longrightarrow> fl_cells fl g x = fl_cells fl h x AND drop ?m bs ! (x - (unat a + c)))"
        using IH c less.prems(1) by auto
      have nth: "drop ?m bs ! (x - (unat a + c)) = bs ! (x - unat a)" if "unat a + c \<le> x" "x < unat a + length bs"
      proof -
        have "c = ?m" using that c by (auto simp: c_def)
        then show ?thesis using that by simp
      qed
      have ins: "fl_cells fl h x = fl_cells fl f x AND bs ! (x - unat a)" if "unat a \<le> x" "x < unat a + c"
      proof -
        have "x - unat a < ?m" "x - unat a < c" using that by (auto simp: c_def)
        then show ?thesis using P(1)[OF True, of x] that by (simp add: c_def)
      qed
      consider "x < unat a" | "unat a \<le> x" "x < unat a + c" | "unat a + c \<le> x" "x < unat a + length bs" | "unat a + length bs \<le> x"
        by linarith
      then show ?thesis
        by cases (use IH' nth ins out c in \<open>auto\<close>)
    qed
  qed
qed

lemma SW_erase_step_inv:
  assumes nor: "nor_ok fl" and inv: "staging_inv fl w f img" and fin: "unat end1 \<le> 0x1E0000"
    and e: "SW_erase_step fl end1 w f = (r, w', g)"
  shows "case r of kReady \<Rightarrow> w' = w \<and> g = f \<and> end1 \<le> erased_through w
    | kProgressed \<Rightarrow> staging_inv fl w' g img \<and> next_offset w' = next_offset w
        \<and> unat (erased_through w') = unat (erased_through w) + 4096 \<and> erased_through w < end1
    | kFailed \<Rightarrow> meta_open fl g \<and> w' = w"
proof (cases "end1 \<le> erased_through w")
  case True
  then show ?thesis using e inv by (auto simp: SW_erase_step_def staging_inv_def)
next
  case False
  obtain ok h where er: "fl_erase fl (kStagingImageStart + erased_through w) f = (ok, h)" by force
  have lt: "unat (erased_through w) < 0x1E0000" using False fin by (simp add: word_le_nat_alt)
  have a: "unat (kStagingImageStart + erased_through w) = 0x80211000 + unat (erased_through w)"
    using lt by (intro unat_image_addr) simp
  note E = nor_erase[OF nor er, unfolded a]
  have front: "length img \<le> unat (erased_through w)" using inv by (simp add: staging_inv_def)
  have low: "fl_cells fl h x = fl_cells fl f x" if "x < 0x80211000 + unat (erased_through w)" for x
    using E(2)[of x] that by simp
  have m: "meta_open fl h"
    by (rule meta_open_cong[of fl f]) (use inv low in \<open>simp_all add: staging_inv_def\<close>)
  show ?thesis
  proof (cases ok)
    case False
    then show ?thesis using e er inv m \<open>\<not> end1 \<le> _\<close> by (auto simp: SW_erase_step_def staging_inv_def)
  next
    case True
    have w': "r = kProgressed" "w' = w\<lparr>erased_through := erased_through w + 4096\<rparr>" "g = h"
      using e er inv True \<open>\<not> end1 \<le> _\<close> by (auto simp: SW_erase_step_def staging_inv_def)
    have u: "unat (erased_through w + 4096) = unat (erased_through w) + 4096"
      using lt by (simp add: unat_word_ariths)
    have st: "staged fl img h" using inv low front unfolding staging_inv_def staged_iff by auto
    have ah: "erased_ahead fl (length img) (unat (erased_through w) + 4096) h"
      unfolding erased_ahead_def
    proof (intro allI impI)
      fix x assume x: "0x80211000 + length img \<le> x \<and> x < 0x80211000 + (unat (erased_through w) + 4096)"
      show "fl_cells fl h x = 0xFF"
      proof (cases "x < 0x80211000 + unat (erased_through w)")
        case True then show ?thesis using low[OF True] inv x by (simp add: staging_inv_def erased_ahead_def)
      next
        case False then show ?thesis using E(1)[OF \<open>ok\<close>, of x] x by simp
      qed
    qed
    show ?thesis using w' u st ah m inv lt False by (auto simp: staging_inv_def)
  qed
qed

lemma SW_write_inv:
  assumes nor: "nor_ok fl" and inv: "staging_inv fl w f img" and bs: "bs \<noteq> []" "length bs < 65536"
    and fits: "length img + length bs \<le> 0x1E0000" "length img + length bs \<le> unat (erased_through w)"
    and e: "SW_write fl (next_offset w) bs w f = (ok, w', g)"
  shows "meta_open fl g \<and> (ok \<longrightarrow> staging_inv fl w' g (img @ bs) \<and> erased_through w' = erased_through w)
    \<and> (\<not> ok \<longrightarrow> w' = w)"
proof -
  let ?o = "next_offset w" and ?n = "of_nat (length bs) :: 32 word"
  have o: "unat ?o = length img" and n: "unat ?n = length bs"
    using inv bs by (simp_all add: staging_inv_def unat_of_nat)
  have on: "unat (?o + ?n) = length img + length bs" using o n fits by (simp add: unat_word_ariths)
  have sub: "unat (kStagingMaxImageSize - ?o) = 0x1E0000 - length img"
    using o fits by (simp add: unat_sub word_le_nat_alt)
  have c: "?n \<noteq> 0" "\<not> ?o > kStagingMaxImageSize" "\<not> ?n > kStagingMaxImageSize - ?o" "\<not> ?o + ?n > erased_through w"
    using o n on sub fits bs by (auto simp: word_less_nat_alt not_less unat_eq_0[symmetric])
  have a: "unat (kStagingImageStart + ?o) = 0x80211000 + length img"
    using unat_image_addr[of ?o] o fits by simp
  obtain ok1 h where p: "SW_program fl (kStagingImageStart + ?o) bs f = (ok1, h)" by force
  have r: "ok = ok1" "g = h" "w' = (if ok1 then w\<lparr>next_offset := ?o + ?n\<rparr> else w)"
    using e p c inv by (auto simp: SW_write_def Let_def staging_inv_def split: if_splits)
  have P: "(\<not> (0x80211000 + length img \<le> x \<and> x < 0x80211000 + length img + length bs) \<longrightarrow> fl_cells fl h x = fl_cells fl f x)
    \<and> (ok1 \<longrightarrow> 0x80211000 + length img \<le> x \<longrightarrow> x < 0x80211000 + length img + length bs
         \<longrightarrow> fl_cells fl h x = fl_cells fl f x AND bs ! (x - (0x80211000 + length img)))" for x
    using SW_program_cells[OF nor _ p, of x] fits unfolding a by simp
  have m: "meta_open fl h"
    by (rule meta_open_cong[of fl f]) (use inv P in \<open>simp_all add: staging_inv_def\<close>)
  have "staging_inv fl w' h (img @ bs)" if ok1
  proof -
    have ff: "fl_cells fl f (0x80211000 + length img + i) = 0xFF" if "i < length bs" for i
      using inv that fits unfolding staging_inv_def erased_ahead_def by simp
    have new: "fl_cells fl h (0x80211000 + length img + i) = bs ! i" if "i < length bs" for i
      using P[of "0x80211000 + length img + i"] \<open>ok1\<close> that ff[OF that] by (simp add: ff_and)
    have "fl_cells fl h (0x80211000 + i) = (img @ bs) ! i" if "i < length (img @ bs)" for i
    proof (cases "i < length img")
      case True
      then show ?thesis using P[of "0x80211000 + i"] inv unfolding staging_inv_def staged_iff by (simp add: nth_append)
    next
      case False
      then show ?thesis using new[of "i - length img"] that by (simp add: nth_append)
    qed
    then have st: "staged fl (img @ bs) h" unfolding staged_iff by blast
    have "erased_ahead fl (length (img @ bs)) (unat (erased_through w)) h"
      using inv P unfolding staging_inv_def erased_ahead_def by simp
    then show ?thesis using st m inv r that on fits by (simp add: staging_inv_def)
  qed
  then show ?thesis using r m by auto
qed

lemma SW_commit_ready:
  assumes nor: "nor_ok fl" and inv: "staging_inv fl w f img" and e: "SW_commit fl w f = (ok, w', g)"
  shows "staged fl img g"
    and "staging_record_is_ready fl m g \<Longrightarrow> unat (image_size (staging_record_of fl g)) = length img"
    and "ok \<Longrightarrow> img \<noteq> [] \<and> staging_record_is_ready fl kStagingMaxImageSize g \<and> \<not> is_open w'"
    and "\<not> ok \<Longrightarrow> w' = w"
proof -
  have m: "meta_open fl f" and st: "staged fl img f" and no: "unat (next_offset w) = length img"
    using inv by (simp_all add: staging_inv_def)
  have ff: "fl_cells fl f x = 0xFF" if "0x80210004 \<le> x" "x < 0x80211000" for x
    using m that by (simp add: meta_open_def)
  have magic: "fl_word fl kStagingMetadataStart 0 f = kStagingMagic" using m by (simp add: meta_open_def)
  have nz: "next_offset w = 0 \<longleftrightarrow> img = []" using no by (metis length_0_conv unat_eq_zero)
  have open1: "is_open w" using inv by (simp add: staging_inv_def)
  obtain ok1 f1 where p1: "fl_program fl (kStagingMetadataStart + 8) (le32_bytes (next_offset w)) f = (ok1, f1)" by force
  obtain ok2 f2 where p2: "fl_program fl (kStagingMetadataStart + 4) (le32_bytes kStagingStateReady) f1 = (ok2, f2)" by force
  have r: "(ok, w', g) = (if next_offset w = 0 then (False, w, f) else if \<not> ok1 then (False, w, f1)
      else if \<not> ok2 then (False, w, f2) else (True, w\<lparr>is_open := False\<rparr>, f2))"
    using e p1 p2 open1 by (auto simp: SW_commit_def Let_def split: if_splits)
  note P1 = nor_program[OF nor p1] and P2 = nor_program[OF nor p2]
  have out1: "fl_cells fl f1 x = fl_cells fl f x" if "x < 0x80210008 \<or> 0x8021000C \<le> x" for x
    using P1(2)[of x] that by auto
  have out2: "fl_cells fl f2 x = fl_cells fl f1 x" if "x < 0x80210004 \<or> 0x80210008 \<le> x" for x
    using P2(2)[of x] that by auto
  have img1: "fl_cells fl f1 (0x80211000 + i) = fl_cells fl f (0x80211000 + i)" for i by (rule out1) simp
  have img2: "fl_cells fl f2 (0x80211000 + i) = fl_cells fl f (0x80211000 + i)" for i
    using out2[of "0x80211000 + i"] img1 by simp
  have st1: "staged fl img f1" and st2: "staged fl img f2"
    using st unfolding staged_iff img1 img2 by simp_all
  show "staged fl img g" using r st st1 st2 by (auto split: if_splits)
  have w4: "fl_word fl kStagingMetadataStart 4 f1 = kFlashWordErased"
    by (rule fl_word_erased) (simp add: out1 ff)
  have nr1: "\<not> staging_record_is_ready fl m f1" "\<not> staging_record_is_ready fl m f" for m
    using w4 meta_open_not_ready[OF m] by (simp_all add: staging_record_is_ready_def staging_record_of_def Let_def)
  have size1: "fl_cells fl f1 (0x80210008 + i) = le32_bytes (next_offset w) ! i" if "ok1" "i < 4" for i
    using P1(1)[OF that(1), of "0x80210008 + i"] that(2) ff[of "0x80210008 + i"] by (simp add: ff_and)
  have size2: "fl_word fl kStagingMetadataStart 8 f2 = next_offset w" if "ok1"
    by (rule fl_word_eqI) (use size1[OF that] out2 in simp)
  have ready2: "fl_word fl kStagingMetadataStart 4 f2 = kStagingStateReady" if "ok2"
    by (rule fl_word_eqI) (use P2(1)[OF that] out1 ff in \<open>simp add: ff_and\<close>)
  have magic2: "fl_word fl kStagingMetadataStart 0 f2 = kStagingMagic"
    unfolding magic[symmetric] by (rule fl_word_cong) (simp add: out1 out2)
  have res2: "fl_word fl kStagingMetadataStart 12 f2 = kFlashWordErased"
    by (rule fl_word_erased) (simp add: out1 out2 ff)
  show "staging_record_is_ready fl m g \<Longrightarrow> unat (image_size (staging_record_of fl g)) = length img"
    using r nr1[of m] size2 no by (auto simp: staging_record_of_def split: if_splits)
  show "ok \<Longrightarrow> img \<noteq> [] \<and> staging_record_is_ready fl kStagingMaxImageSize g \<and> \<not> is_open w'"
  proof -
    assume ok
    then have h: "next_offset w \<noteq> 0" "ok1" "ok2" "g = f2" "w' = w\<lparr>is_open := False\<rparr>" using r by (auto split: if_splits)
    have "length img \<le> 0x1E0000" using inv by (simp add: staging_inv_def)
    then have "next_offset w \<le> kStagingMaxImageSize" using no by (simp add: word_le_nat_alt)
    then show ?thesis using h nz size2 ready2 magic2 res2
      by (simp add: staging_record_is_ready_def staging_record_of_def Let_def)
  qed
  show "\<not> ok \<Longrightarrow> w' = w" using r by (auto split: if_splits)
qed

end
