(* ===== verification/RmcsAppl.thy ===== *)
theory RmcsAppl
  imports SdoInfo FoeStaging
begin

text \<open>
  The application of the EtherCAT core: \<open>core1_ecat/src/ecat_appl.c\<close> (the callbacks of the
  stack) and \<open>core1_ecat/src/ecat_foe_support.cpp\<close> (firmware download and upload through file
  access).

  \<open>board\<close> holds what lies below this code: the flash behind the cross-core RPC, the EEPROM
  emulation of the SDK and the process data endpoint.  Each works on a component of the state of
  its own (\<open>nor\<close>, \<open>ee\<close>, \<open>pdst\<close>), the EEPROM emulation also on the chip's memory.  The
  diagnostic counters and \<open>printf\<close>s are left out.
\<close>

unbundle bit_operations_syntax

record ('f, 'e, 'p) rmcs = sdo +
  nor :: 'f
  ee :: 'e
  pdst :: 'p
  main_loop_hook :: bool
  g_writer :: staging_writer
  g_reset_requested :: bool
  g_download_complete :: bool
  g_commit_pending :: bool
  g_read_size :: "32 word"

record ('f, 'e, 'p) board =
  b_flash :: "'f flash_ops"
  b_ee_read :: "32 word \<Rightarrow> 'e \<Rightarrow> esc_mem \<Rightarrow> 16 word \<times> 'e \<times> esc_mem"
  b_ee_write :: "32 word \<Rightarrow> 'e \<Rightarrow> esc_mem \<Rightarrow> 16 word \<times> 'e \<times> esc_mem"
  b_ee_reload :: "'e \<Rightarrow> esc_mem \<Rightarrow> 16 word \<times> 'e \<times> esc_mem"
  b_ee_store :: "'e \<Rightarrow> 'e"
  b_pd_reset :: "'p \<Rightarrow> 'p"
  b_pd_inputs :: "8 word list \<Rightarrow> 'p \<Rightarrow> 8 word list \<times> 'p"
  b_pd_outputs :: "8 word list \<Rightarrow> 'p \<Rightarrow> 'p"
  b_pd_pending :: "'p \<Rightarrow> bool"

abbreviation RMCS_PD_CHUNK_SIZE :: "16 word" where "RMCS_PD_CHUNK_SIZE \<equiv> 0x30"

section \<open>Process data and EEPROM hooks\<close>

definition RMCS_InputMapping :: "('f, 'e, 'p) board \<Rightarrow> ('f, 'e, 'p, 'z) rmcs_scheme \<Rightarrow> ('f, 'e, 'p, 'z) rmcs_scheme" where
  "RMCS_InputMapping B s = (let (bs, p) = b_pd_inputs B (aPdInputData s) (pdst s) in s\<lparr>aPdInputData := bs, pdst := p\<rparr>)"

definition RMCS_OutputMapping :: "('f, 'e, 'p) board \<Rightarrow> ('f, 'e, 'p, 'z) rmcs_scheme \<Rightarrow> ('f, 'e, 'p, 'z) rmcs_scheme" where
  "RMCS_OutputMapping B s = s\<lparr>pdst := b_pd_outputs B (aPdOutputData s) (pdst s)\<rparr>"

definition ee_call :: "('e \<Rightarrow> esc_mem \<Rightarrow> 16 word \<times> 'e \<times> esc_mem) \<Rightarrow> ('f, 'e, 'p, 'z) rmcs_scheme
    \<Rightarrow> 16 word \<times> ('f, 'e, 'p, 'z) rmcs_scheme" where
  "ee_call f s = (let (r, e, m) = f (ee s) (esc s) in (r, s\<lparr>ee := e, esc := m\<rparr>))"

definition rmcs_user0 :: "('f, 'e, 'p) board \<Rightarrow> ('f, 'e, 'p, 'z) rmcs_scheme user_ops" where
  "rmcs_user0 B = \<lparr>APPL_InputMapping = RMCS_InputMapping B, APPL_OutputMapping = RMCS_OutputMapping B,
     APPL_Application = (\<lambda>s. s), pAPPL_MainLoop = (\<lambda>s. s),
     pAPPL_EEPROM_Read = Some (\<lambda>a. ee_call (b_ee_read B a)), pAPPL_EEPROM_Write = Some (\<lambda>a. ee_call (b_ee_write B a)),
     pAPPL_EEPROM_Reload = Some (ee_call (b_ee_reload B)),
     pAPPL_EEPROM_Store = Some (\<lambda>s. s\<lparr>ee := b_ee_store B (ee s)\<rparr>),
     HW_EepromReload = ee_call (b_ee_reload B)\<rparr>"

text \<open>Republishing the uplink.  Masking the interrupt has no effect on a sequential model.\<close>

definition rmcs_input_refresh :: "('f, 'e, 'p) board \<Rightarrow> ('f, 'e, 'p, 'z) rmcs_scheme \<Rightarrow> ('f, 'e, 'p, 'z) rmcs_scheme" where
  "rmcs_input_refresh B s =
    (if bEcatInputUpdateRunning s \<and> b_pd_pending B (pdst s) then PDO_InputMapping_impl (rmcs_user0 B) s else s)"

definition rmcs_user :: "('f, 'e, 'p) board \<Rightarrow> ('f, 'e, 'p, 'z) rmcs_scheme user_ops" where
  "rmcs_user B = (rmcs_user0 B)\<lparr>pAPPL_MainLoop := (\<lambda>s. if main_loop_hook s then rmcs_input_refresh B s else s)\<rparr>"

section \<open>State machine callbacks\<close>

definition RMCS_StopMailboxHandler :: "('f, 'e, 'p, 'z) rmcs_scheme \<Rightarrow> 16 word \<times> ('f, 'e, 'p, 'z) rmcs_scheme" where
  "RMCS_StopMailboxHandler s = (0, if g_download_complete s then s\<lparr>g_reset_requested := True\<rparr> else s)"

definition RMCS_GenerateMapping :: "('f, 'e, 'p, 'z) rmcs_scheme \<Rightarrow> 16 word \<times> ('f, 'e, 'p, 'z) rmcs_scheme" where
  "RMCS_GenerateMapping s = (0, s\<lparr>nPdInputSize := RMCS_PD_CHUNK_SIZE, nPdOutputSize := RMCS_PD_CHUNK_SIZE\<rparr>)"

definition rmcs_appl :: "('f, 'e, 'p) board \<Rightarrow> ('f, 'e, 'p, 'z) rmcs_scheme appl_ops" where
  "rmcs_appl B = \<lparr>APPL_StartMailboxHandler = (\<lambda>s. (0, s)), APPL_StopMailboxHandler = RMCS_StopMailboxHandler,
     APPL_StartInputHandler = (\<lambda>s. (0, s\<lparr>main_loop_hook := True\<rparr>)),
     APPL_StopInputHandler = (\<lambda>s. (0, s\<lparr>main_loop_hook := False\<rparr>)),
     APPL_StartOutputHandler = (\<lambda>s. (0, s\<lparr>pdst := b_pd_reset B (pdst s)\<rparr>)),
     APPL_StopOutputHandler = (\<lambda>s. (0, s)),
     APPL_GenerateMapping = RMCS_GenerateMapping, APPL_AckErrorInd = (\<lambda>stateTrans s. s),
     APPL_GetDeviceID = (\<lambda>s. (5, s)), PDO_InputMapping = PDO_InputMapping_impl (rmcs_user B),
     EEPROM_CommandHandler = EEPROM_CommandHandler_impl (rmcs_user B), COE_Init = COE_Init_impl\<rparr>"

section \<open>File access\<close>

text \<open>The bytes \<open>app\<close>.\<close>

abbreviation kImageName :: "8 word list" where "kImageName \<equiv> [0x61, 0x70, 0x70]"

definition name_matches :: "addr \<Rightarrow> 16 word \<Rightarrow> 'z mach_scheme \<Rightarrow> bool" where
  "name_matches name nsize s = (unat nsize = length kImageName
     \<and> get_bytes (m_block (fst name) (mem s)) (snd name) (unat nsize) = kImageName)"

definition password_ok :: "32 word \<Rightarrow> bool" where
  "password_ok pw = (pw = 0x00000000 \<or> pw = 0x87654321)"

abbreviation ECAT_FOE_ERRCODE_NOTFOUND :: "16 word" where "ECAT_FOE_ERRCODE_NOTFOUND \<equiv> 0x8001"
abbreviation ECAT_FOE_ERRCODE_DISKFULL :: "16 word" where "ECAT_FOE_ERRCODE_DISKFULL \<equiv> 0x8003"
abbreviation ECAT_FOE_ERRCODE_NORIGHTS :: "16 word" where "ECAT_FOE_ERRCODE_NORIGHTS \<equiv> 0x800A"
abbreviation ECAT_FOE_ERRCODE_BOOTSTRAPONLY :: "16 word" where "ECAT_FOE_ERRCODE_BOOTSTRAPONLY \<equiv> 0x8008"
abbreviation ECAT_FOE_ERRCODE_FLASH_ERROR :: "16 word" where "ECAT_FOE_ERRCODE_FLASH_ERROR \<equiv> 0x8011"

definition rmcs_foe_write :: "('f, 'e, 'p) board \<Rightarrow> addr \<Rightarrow> 16 word \<Rightarrow> 32 word \<Rightarrow> ('f, 'e, 'p, 'z) rmcs_scheme
    \<Rightarrow> 16 word \<times> ('f, 'e, 'p, 'z) rmcs_scheme" where
  "rmcs_foe_write B name name_size password s =
    (if nAlStatus s AND STATE_MASK \<noteq> STATE_BOOT then (ECAT_FOE_ERRCODE_BOOTSTRAPONLY, s)
     else if \<not> name_matches name name_size s then (ECAT_FOE_ERRCODE_NOTFOUND, s)
     else if \<not> password_ok password then (ECAT_FOE_ERRCODE_NORIGHTS, s)
     else let (ok, w, f) = SW_begin (b_flash B) (nor s);
              s = s\<lparr>g_writer := w, nor := f\<rparr> in
          (if ok then 0 else ECAT_FOE_ERRCODE_FLASH_ERROR, s))"

text \<open>The erase loop of \<open>rmcs_foe_write_data\<close>: \<open>None\<close> when the fuel is used up.\<close>

fun SW_erase_loop :: "'f flash_ops \<Rightarrow> nat \<Rightarrow> 32 word \<Rightarrow> staging_writer \<Rightarrow> 'f
    \<Rightarrow> (bool \<times> staging_writer \<times> 'f) option" where
  "SW_erase_loop fl 0 end1 w f = None"
| "SW_erase_loop fl (Suc n) end1 w f =
    (case SW_erase_step fl end1 w f of
       (kReady, w, f) \<Rightarrow> Some (True, w, f)
     | (kFailed, w, f) \<Rightarrow> Some (False, w, f)
     | (kProgressed, w, f) \<Rightarrow> SW_erase_loop fl n end1 w f)"

definition write_block :: "'f flash_ops \<Rightarrow> 8 word list \<Rightarrow> staging_writer \<Rightarrow> 'f
    \<Rightarrow> (16 word \<times> staging_writer \<times> 'f) option" where
  "write_block fl bs w f =
    (let offset = next_offset w; n = of_nat (length bs) :: 32 word in
     if offset + n > kStagingMaxImageSize then Some (ECAT_FOE_ERRCODE_DISKFULL, SW_abort w, f)
     else case SW_erase_loop fl (unat (offset + n) div 4096 + 3) (offset + n) w f of
            None \<Rightarrow> None
          | Some (False, w, f) \<Rightarrow> Some (ECAT_FOE_ERRCODE_FLASH_ERROR, SW_abort w, f)
          | Some (True, w, f) \<Rightarrow>
              let (ok, w, f) = SW_write fl offset bs w f in
              Some (if ok then (0, w, f) else (ECAT_FOE_ERRCODE_FLASH_ERROR, SW_abort w, f)))"

definition rmcs_foe_write_data :: "('f, 'e, 'p) board \<Rightarrow> addr \<Rightarrow> 16 word \<Rightarrow> bool \<Rightarrow> ('f, 'e, 'p, 'z) rmcs_scheme
    \<Rightarrow> 16 word \<times> ('f, 'e, 'p, 'z) rmcs_scheme" where
  "rmcs_foe_write_data B data1 dsize data_following s =
    (if \<not> is_open (g_writer s) then (ECAT_FOE_ERRCODE_ILLEGAL, s)
     else
       let (r, s) =
         (if dsize > 0
          then let s = mem_touch (fst data1) (snd data1 + unat dsize) s;
                   bs = get_bytes (m_block (fst data1) (mem s)) (snd data1) (unat dsize) in
               case write_block (b_flash B) bs (g_writer s) (nor s) of
                 None \<Rightarrow> (0, s\<lparr>hung := True\<rparr>)
               | Some (r, w, f) \<Rightarrow> (r, s\<lparr>g_writer := w, nor := f\<rparr>)
          else (0, s)) in
       if r \<noteq> 0 then (r, s)
       else if data_following then (0, s)
       else (0, s\<lparr>g_commit_pending := True\<rparr>))"

definition rmcs_foe_read :: "('f, 'e, 'p) board \<Rightarrow> addr \<Rightarrow> 16 word \<Rightarrow> 32 word \<Rightarrow> 16 word \<Rightarrow> addr
    \<Rightarrow> ('f, 'e, 'p, 'z) rmcs_scheme \<Rightarrow> 16 word \<times> ('f, 'e, 'p, 'z) rmcs_scheme" where
  "rmcs_foe_read B name name_size password max_block_size data1 s =
    (if \<not> name_matches name name_size s then (ECAT_FOE_ERRCODE_NOTFOUND, s)
     else if \<not> password_ok password then (ECAT_FOE_ERRCODE_NORIGHTS, s)
     else let rec1 = staging_record_of (b_flash B) (nor s) in
          if magic rec1 \<noteq> kStagingMagic \<or> state rec1 \<noteq> kStagingStateReady \<or> reserved rec1 \<noteq> kFlashWordErased
             \<or> image_size rec1 = 0 \<or> image_size rec1 > kStagingMaxImageSize
          then (ECAT_FOE_ERRCODE_NOTFOUND, s)
          else let s = s\<lparr>g_read_size := image_size rec1\<rparr>;
                   count = (if g_read_size s < ucast max_block_size then g_read_size s else ucast max_block_size) in
               (ucast count, mem_write (fst data1) (snd data1)
                  (fl_read (b_flash B) (unat kStagingImageStart) (unat count) (nor s)) s))"

definition rmcs_foe_read_data :: "('f, 'e, 'p) board \<Rightarrow> 32 word \<Rightarrow> 16 word \<Rightarrow> addr \<Rightarrow> ('f, 'e, 'p, 'z) rmcs_scheme
    \<Rightarrow> 16 word \<times> ('f, 'e, 'p, 'z) rmcs_scheme" where
  "rmcs_foe_read_data B offset max_block_size data1 s =
    (if offset \<ge> g_read_size s then (0, s)
     else let count = g_read_size s - offset;
              count = (if count > ucast max_block_size then ucast max_block_size else count) in
          (ucast count, mem_write (fst data1) (snd data1)
             (fl_read (b_flash B) (unat (kStagingImageStart + offset)) (unat count) (nor s)) s))"

text \<open>The main loop's half: the deferred commit, then the reset.  The reset does not return; the
  model records that it has been issued.\<close>

definition ecat_foe_poll_reset :: "('f, 'e, 'p) board \<Rightarrow> ('f, 'e, 'p, 'z) rmcs_scheme \<Rightarrow> bool \<times> ('f, 'e, 'p, 'z) rmcs_scheme" where
  "ecat_foe_poll_reset B s =
    (let s = (if g_commit_pending s
              then let s = s\<lparr>g_commit_pending := False\<rparr>;
                       (ok, w, f) = SW_commit (b_flash B) (g_writer s) (nor s) in
                   if ok then s\<lparr>g_writer := w, nor := f, g_download_complete := True\<rparr>
                   else s\<lparr>g_writer := SW_abort w, nor := f\<rparr>
              else s) in
     (g_reset_requested s, s))"

definition rmcs_foe :: "('f, 'e, 'p) board \<Rightarrow> ('f, 'e, 'p, 'z) rmcs_scheme foe_ops" where
  "rmcs_foe B = \<lparr>pAPPL_FoeRead = Some (rmcs_foe_read B), pAPPL_FoeReadData = Some (rmcs_foe_read_data B),
     pAPPL_FoeError = None, pAPPL_FoeWrite = Some (rmcs_foe_write B), pAPPL_FoeWriteData = Some (rmcs_foe_write_data B)\<rparr>"

end
