(* ===== verification/EsmControl.thy ===== *)
theory EsmControl
  imports EsmHandlers
begin

text \<open>
  The EtherCAT state machine of \<open>ecatslv.c\<close>: \<open>AL_ControlInd\<close> (a state request of the master,
  a changed SyncManager, a local error), \<open>AL_ControlRes\<close> (completing a pending transition),
  \<open>ECAT_StateChange\<close> (the application's request), the DC and watchdog supervision,
  \<open>ECAT_Init\<close> and the cyclic \<open>ECAT_Main\<close>; and the empty boot hooks of \<open>bootmode.c\<close>.

  A transition is the byte \<open>stateTrans\<close>, old state in the high nibble, new state in the low
  one, as in the code.  The switch of \<open>AL_ControlInd\<close> is one definition per case.
\<close>

unbundle bit_operations_syntax

section \<open>Boot hooks\<close>

definition BL_Start :: "8 word \<Rightarrow> 's \<Rightarrow> 's" where "BL_Start st s = s"
definition BL_Stop :: "'s \<Rightarrow> 's" where "BL_Stop s = s"
definition BL_StartDownload :: "32 word \<Rightarrow> 's \<Rightarrow> 's" where "BL_StartDownload password s = s"
definition BL_Data :: "addr \<Rightarrow> 16 word \<Rightarrow> 's \<Rightarrow> 16 word \<times> 's" where "BL_Data pData Size s = (0, s)"

section \<open>Transitions\<close>

abbreviation BOOT_2_INIT :: "8 word" where "BOOT_2_INIT \<equiv> 0x31"
abbreviation BOOT_2_PREOP :: "8 word" where "BOOT_2_PREOP \<equiv> 0x32"
abbreviation BOOT_2_SAFEOP :: "8 word" where "BOOT_2_SAFEOP \<equiv> 0x34"
abbreviation BOOT_2_OP :: "8 word" where "BOOT_2_OP \<equiv> 0x38"
abbreviation INIT_2_BOOT :: "8 word" where "INIT_2_BOOT \<equiv> 0x13"
abbreviation PREOP_2_BOOT :: "8 word" where "PREOP_2_BOOT \<equiv> 0x23"
abbreviation SAFEOP_2_BOOT :: "8 word" where "SAFEOP_2_BOOT \<equiv> 0x43"
abbreviation OP_2_BOOT :: "8 word" where "OP_2_BOOT \<equiv> 0x83"
abbreviation INIT_2_INIT :: "8 word" where "INIT_2_INIT \<equiv> 0x11"
abbreviation INIT_2_PREOP :: "8 word" where "INIT_2_PREOP \<equiv> 0x12"
abbreviation INIT_2_SAFEOP :: "8 word" where "INIT_2_SAFEOP \<equiv> 0x14"
abbreviation INIT_2_OP :: "8 word" where "INIT_2_OP \<equiv> 0x18"
abbreviation PREOP_2_INIT :: "8 word" where "PREOP_2_INIT \<equiv> 0x21"
abbreviation PREOP_2_PREOP :: "8 word" where "PREOP_2_PREOP \<equiv> 0x22"
abbreviation PREOP_2_SAFEOP :: "8 word" where "PREOP_2_SAFEOP \<equiv> 0x24"
abbreviation PREOP_2_OP :: "8 word" where "PREOP_2_OP \<equiv> 0x28"
abbreviation SAFEOP_2_INIT :: "8 word" where "SAFEOP_2_INIT \<equiv> 0x41"
abbreviation SAFEOP_2_PREOP :: "8 word" where "SAFEOP_2_PREOP \<equiv> 0x42"
abbreviation SAFEOP_2_SAFEOP :: "8 word" where "SAFEOP_2_SAFEOP \<equiv> 0x44"
abbreviation SAFEOP_2_OP :: "8 word" where "SAFEOP_2_OP \<equiv> 0x48"
abbreviation OP_2_INIT :: "8 word" where "OP_2_INIT \<equiv> 0x81"
abbreviation OP_2_PREOP :: "8 word" where "OP_2_PREOP \<equiv> 0x82"
abbreviation OP_2_SAFEOP :: "8 word" where "OP_2_SAFEOP \<equiv> 0x84"
abbreviation OP_2_OP :: "8 word" where "OP_2_OP \<equiv> 0x88"

text \<open>The start of \<open>AL_ControlInd\<close>: \<open>None\<close> when the request is ignored because an error is not
  acknowledged, otherwise the acknowledge flag.\<close>

definition AL_accept :: "8 word \<Rightarrow> 'z esm_scheme \<Rightarrow> bool option \<times> 'z esm_scheme" where
  "AL_accept alControl s =
    (let s = s\<lparr>EsmTimeoutCounter := -1, bApplEsmPending := True\<rparr> in
     if alControl AND STATE_CHANGE \<noteq> 0
     then (Some True, s\<lparr>nAlStatus := nAlStatus s AND NOT STATE_CHANGE\<rparr>)
     else if nAlStatus s AND STATE_CHANGE \<noteq> 0 \<and> alControl AND STATE_MASK \<noteq> STATE_INIT
     then (None, s)
     else (Some False, s\<lparr>nAlStatus := nAlStatus s AND STATE_MASK\<rparr>))"

definition AL_check_sm :: "('z esm_scheme) appl_ops \<Rightarrow> 8 word \<Rightarrow> 'z esm_scheme \<Rightarrow> 16 word \<times> 'z esm_scheme" where
  "AL_check_sm ap stateTrans s =
    (if stateTrans \<in> {INIT_2_PREOP, OP_2_PREOP, SAFEOP_2_PREOP, PREOP_2_PREOP}
     then let (r, s) = CheckSmSettings (MAILBOX_READ + 1) s in (ucast r, s)
     else if stateTrans = PREOP_2_SAFEOP
     then let (r, s) = APPL_GenerateMapping ap s in
          if r \<noteq> 0 then (r, s)
          else let (r, s) = CheckSmSettings (nMaxSyncMan s) s in (ucast r, s)
     else if stateTrans \<in> {SAFEOP_2_OP, OP_2_SAFEOP, SAFEOP_2_SAFEOP, OP_2_OP}
     then let (r, s) = CheckSmSettings (nMaxSyncMan s) s in (ucast r, s)
     else (0, s))"

text \<open>Starting the mailbox, shared by the two transitions out of INIT.\<close>

definition AL_start_mailbox :: "('z esm_scheme) coe_service \<Rightarrow> ('z esm_scheme) appl_ops
    \<Rightarrow> 'z esm_scheme \<Rightarrow> 16 word \<times> 'z esm_scheme" where
  "AL_start_mailbox coe ap s =
    (let (result, s) = MBX_StartMailboxHandler s;
         (result, s) =
           (if result = 0
            then let s = s\<lparr>bApplEsmPending := False\<rparr>;
                     (result, s) = APPL_StartMailboxHandler ap s in
                 (result, if result = 0 then s\<lparr>bMbxRunning := True\<rparr> else s)
            else (result, s)) in
     if result \<noteq> 0 \<and> result \<noteq> NOERROR_INWORK
     then let s = (if \<not> bApplEsmPending s then snd (APPL_StopMailboxHandler ap s) else s) in
          (result, MBX_StopMailboxHandler coe s)
     else (result, s))"

definition AL_init_2_boot :: "('z esm_scheme) coe_service \<Rightarrow> ('z esm_scheme) appl_ops
    \<Rightarrow> 'z esm_scheme \<Rightarrow> 16 word \<times> 'z esm_scheme" where
  "AL_init_2_boot coe ap s =
    (let s = s\<lparr>bBootMode := True\<rparr>;
         (r, s) = CheckSmSettings (MAILBOX_READ + 1) s in
     if r \<noteq> 0 then (ALSTATUSCODE_INVALIDMBXCFGINBOOT, s\<lparr>bBootMode := False\<rparr>)
     else
       let s = ResetALEventMask 0 s;
           (result, s) = AL_start_mailbox coe ap s;
           s = BL_Start STATE_BOOT s in
       (result, if result \<noteq> 0 then s\<lparr>bBootMode := False\<rparr> else s))"

definition AL_boot_2_init :: "('z esm_scheme) coe_service \<Rightarrow> ('z esm_scheme) appl_ops
    \<Rightarrow> 'z esm_scheme \<Rightarrow> 16 word \<times> 'z esm_scheme" where
  "AL_boot_2_init coe ap s =
    (let (result, s) =
       (if bBootMode s
        then let s = s\<lparr>bBootMode := False\<rparr>;
                 s = ResetALEventMask 0 s;
                 s = MBX_StopMailboxHandler coe s in
             APPL_StopMailboxHandler ap s
        else (0, s)) in
     (result, BackToInitTransition (BL_Stop s)))"

definition AL_init_2_preop :: "('z esm_scheme) coe_service \<Rightarrow> ('z esm_scheme) appl_ops
    \<Rightarrow> 'z esm_scheme \<Rightarrow> 16 word \<times> 'z esm_scheme" where
  "AL_init_2_preop coe ap s =
    (let s = UpdateEEPROMLoadedState s in
     if \<not> EepromLoaded s then (ALSTATUSCODE_EE_ERROR, s) else AL_start_mailbox coe ap s)"

definition AL_preop_2_safeop :: "('z esm_scheme) appl_ops \<Rightarrow> 'z esm_scheme \<Rightarrow> 16 word \<times> 'z esm_scheme" where
  "AL_preop_2_safeop ap s =
    (let (result, s) = StartInputHandler ap s;
         (result, s) =
           (if result = 0
            then let s = s\<lparr>bApplEsmPending := False\<rparr>;
                     (result, s) = APPL_StartInputHandler ap s in
                 (result, if result = 0
                          then (SetALEventMask (u16ALEventMask s) s)\<lparr>bEcatInputUpdateRunning := True\<rparr> else s)
            else (result, s)) in
     if result \<noteq> 0 \<and> result \<noteq> NOERROR_INWORK
     then let s = (if \<not> bApplEsmPending s then snd (APPL_StopInputHandler ap s) else s) in
          (result, StopInputHandler s)
     else (result, s))"

definition pd_enable :: "'z esm_scheme \<Rightarrow> 'z esm_scheme" where
  "pd_enable s = (if nPdOutputSize s > 0 then EnableSyncManChannel PROCESS_DATA_OUT s
                  else if nPdInputSize s > 0 then EnableSyncManChannel PROCESS_DATA_IN s else s)"

definition pd_disable :: "'z esm_scheme \<Rightarrow> 'z esm_scheme" where
  "pd_disable s = (if nPdOutputSize s > 0 then DisableSyncManChannel PROCESS_DATA_OUT s
                   else if nPdInputSize s > 0 then DisableSyncManChannel PROCESS_DATA_IN s else s)"

definition AL_safeop_2_op :: "('z esm_scheme) appl_ops \<Rightarrow> bool \<Rightarrow> 'z esm_scheme \<Rightarrow> 16 word \<times> 'z esm_scheme" where
  "AL_safeop_2_op ap bErrAck s =
    (let s = (if bErrAck then pd_enable s else s);
         (result, s) = StartOutputHandler s;
         (result, s) =
           (if result = 0
            then let s = s\<lparr>bApplEsmPending := False\<rparr>;
                     (result, s) = APPL_StartOutputHandler ap s in
                 (result, if result = 0 then s\<lparr>bEcatOutputUpdateRunning := True\<rparr> else s)
            else (result, s)) in
     if result \<noteq> 0 \<and> result \<noteq> NOERROR_INWORK
     then let s = (if \<not> bApplEsmPending s then snd (APPL_StopOutputHandler ap s) else s) in
          (result, StopOutputHandler s)
     else (result, s))"

text \<open>Stopping outputs and inputs.  A result other than 0 ends the cascade and keeps the
  transition byte at the point reached.\<close>

definition AL_stop_output :: "('z esm_scheme) appl_ops \<Rightarrow> 'z esm_scheme \<Rightarrow> 16 word \<times> 'z esm_scheme" where
  "AL_stop_output ap s =
    (let (result, s) = APPL_StopOutputHandler ap s;
         s = StopOutputHandler s in
     (result, s\<lparr>bApplEsmPending := False\<rparr>))"

definition AL_stop_input :: "('z esm_scheme) appl_ops \<Rightarrow> 'z esm_scheme \<Rightarrow> 16 word \<times> 'z esm_scheme" where
  "AL_stop_input ap s =
    (let (result, s) = APPL_StopInputHandler ap s;
         s = StopInputHandler s in
     (result, s\<lparr>bApplEsmPending := False\<rparr>))"

definition AL_preop_2_init :: "('z esm_scheme) coe_service \<Rightarrow> ('z esm_scheme) appl_ops
    \<Rightarrow> 'z esm_scheme \<Rightarrow> 16 word \<times> 'z esm_scheme" where
  "AL_preop_2_init coe ap s =
    (let s = MBX_StopMailboxHandler coe s;
         (result, s) = APPL_StopMailboxHandler ap s in
     (result, BackToInitTransition s))"

definition AL_to_init :: "('z esm_scheme) coe_service \<Rightarrow> ('z esm_scheme) appl_ops \<Rightarrow> 8 word
    \<Rightarrow> 'z esm_scheme \<Rightarrow> 16 word \<times> 8 word \<times> 'z esm_scheme" where
  "AL_to_init coe ap stateTrans s =
    (let (result, stateTrans, s) =
       (if stateTrans = OP_2_INIT
        then let (r, s) = AL_stop_output ap s in (r, if r = 0 then SAFEOP_2_INIT else stateTrans, s)
        else (0, stateTrans, s));
         (result, stateTrans, s) =
       (if stateTrans = SAFEOP_2_INIT
        then let (r, s) = AL_stop_input ap s in (r, if r = 0 then PREOP_2_INIT else stateTrans, s)
        else (result, stateTrans, s)) in
     if stateTrans = PREOP_2_INIT
     then let (r, s) = AL_preop_2_init coe ap s in (r, stateTrans, s)
     else (result, stateTrans, s))"

definition AL_same_state :: "('z esm_scheme) appl_ops \<Rightarrow> bool \<Rightarrow> 8 word \<Rightarrow> 'z esm_scheme \<Rightarrow> 16 word \<times> 'z esm_scheme" where
  "AL_same_state ap bErrAck stateTrans s =
    (let s = (if stateTrans = INIT_2_INIT then BackToInitTransition s else s);
         s = (if bErrAck then APPL_AckErrorInd ap (ucast stateTrans) s else s);
         s = (if nAlStatus s AND (STATE_SAFEOP OR STATE_OP) \<noteq> 0 then pd_enable s else s) in
     (NOERROR_NOSTATECHANGE, s))"

definition AL_transition :: "('z esm_scheme) coe_service \<Rightarrow> ('z esm_scheme) appl_ops \<Rightarrow> 8 word \<Rightarrow> bool
    \<Rightarrow> 'z esm_scheme \<Rightarrow> 16 word \<times> 8 word \<times> 'z esm_scheme" where
  "AL_transition coe ap stateTrans bErrAck s =
    (let s = s\<lparr>nEcatStateTrans := 0\<rparr> in
     if stateTrans = INIT_2_BOOT then let (r, s) = AL_init_2_boot coe ap s in (r, stateTrans, s)
     else if stateTrans = BOOT_2_INIT then let (r, s) = AL_boot_2_init coe ap s in (r, stateTrans, s)
     else if stateTrans = INIT_2_PREOP then let (r, s) = AL_init_2_preop coe ap s in (r, stateTrans, s)
     else if stateTrans = PREOP_2_SAFEOP then let (r, s) = AL_preop_2_safeop ap s in (r, stateTrans, s)
     else if stateTrans = SAFEOP_2_OP then let (r, s) = AL_safeop_2_op ap bErrAck s in (r, stateTrans, s)
     else if stateTrans = OP_2_SAFEOP then let (_, s) = AL_stop_output ap s in (0, stateTrans, s)
     else if stateTrans = OP_2_PREOP
     then let (r, s) = AL_stop_output ap s in
          if r \<noteq> 0 then (r, stateTrans, s)
          else let (_, s) = AL_stop_input ap s in (0, SAFEOP_2_PREOP, s)
     else if stateTrans = SAFEOP_2_PREOP then let (_, s) = AL_stop_input ap s in (0, stateTrans, s)
     else if stateTrans \<in> {OP_2_INIT, SAFEOP_2_INIT, PREOP_2_INIT} then AL_to_init coe ap stateTrans s
     else if stateTrans \<in> {INIT_2_INIT, PREOP_2_PREOP, SAFEOP_2_SAFEOP, OP_2_OP}
     then let (r, s) = AL_same_state ap bErrAck stateTrans s in (r, stateTrans, s)
     else if stateTrans \<in> {INIT_2_SAFEOP, INIT_2_OP, PREOP_2_OP, PREOP_2_BOOT, SAFEOP_2_BOOT, OP_2_BOOT,
                           BOOT_2_PREOP, BOOT_2_SAFEOP, BOOT_2_OP}
     then (ALSTATUSCODE_INVALIDALCONTROL, stateTrans, s)
     else (ALSTATUSCODE_UNKNOWNALCONTROL, stateTrans, s))"

text \<open>The SyncManager check has failed: back to PREOP or INIT.  The switch compares the whole
  status byte.\<close>

definition AL_sm_failed :: "('z esm_scheme) coe_service \<Rightarrow> ('z esm_scheme) appl_ops \<Rightarrow> 16 word
    \<Rightarrow> 'z esm_scheme \<Rightarrow> 'z esm_scheme" where
  "AL_sm_failed coe ap result s =
    (let st = nAlStatus s;
         s = (if st = STATE_OP then StopOutputHandler (snd (APPL_StopOutputHandler ap s)) else s);
         s = (if st = STATE_OP \<or> st = STATE_SAFEOP
              then StopInputHandler (snd (APPL_StopInputHandler ap s)) else s) in
     if st = STATE_OP \<or> st = STATE_SAFEOP \<or> st = STATE_PREOP
     then if result = ALSTATUSCODE_INVALIDMBXCFGINPREOP
          then let s = MBX_StopMailboxHandler coe s;
                   s = snd (APPL_StopMailboxHandler ap s);
                   s = DisableSyncManChannel MAILBOX_WRITE s;
                   s = DisableSyncManChannel MAILBOX_READ s in
               s\<lparr>nAlStatus := STATE_INIT\<rparr>
          else s\<lparr>nAlStatus := STATE_PREOP\<rparr>
     else s)"

definition esm_timeout :: "16 word \<Rightarrow> 16 word" where
  "esm_timeout tr =
    (let t = (if tr = ucast INIT_2_PREOP \<or> tr = ucast INIT_2_BOOT then 0x7D0
              else if tr = ucast PREOP_2_SAFEOP \<or> tr = ucast SAFEOP_2_OP then 0x2328
              else 200 :: 16 word) in
     t - t div 10)"

definition AL_finish :: "('z esm_scheme) appl_ops \<Rightarrow> 8 word \<Rightarrow> 16 word \<Rightarrow> 16 word \<Rightarrow> 8 word
    \<Rightarrow> 'z esm_scheme \<Rightarrow> 'z esm_scheme" where
  "AL_finish ap alControl alStatusCode result stateTrans s =
    (if result = NOERROR_INWORK
     then s\<lparr>bEcatWaitForAlControlRes := True, nEcatStateTrans := ucast stateTrans,
            EsmTimeoutCounter := esm_timeout (ucast stateTrans)\<rparr>
     else if alControl \<noteq> nAlStatus s AND STATE_MASK
     then
       let s = (if (result \<noteq> 0 \<or> alStatusCode \<noteq> 0) \<and> (alControl OR nAlStatus s) AND STATE_OP \<noteq> 0
                then pd_disable
                       (if bEcatOutputUpdateRunning s
                        then StopOutputHandler (snd (APPL_StopOutputHandler ap s)) else s)
                else s) in
       if result \<noteq> 0
       then let s = (if nAlStatus s = STATE_OP then s\<lparr>nAlStatus := STATE_SAFEOP\<rparr> else s);
                s = s\<lparr>nAlStatus := nAlStatus s OR STATE_CHANGE, bEcatWaitForAlControlRes := False\<rparr> in
            SetALStatus (nAlStatus s) result s
       else let result = (if alStatusCode \<noteq> 0 then alStatusCode else result);
                alControl = (if alStatusCode \<noteq> 0 then alControl OR STATE_CHANGE else alControl);
                s = s\<lparr>nAlStatus := alControl, bEcatWaitForAlControlRes := False\<rparr> in
            SetALStatus (nAlStatus s) result s
     else
       let s = s\<lparr>bEcatWaitForAlControlRes := False\<rparr> in SetALStatus (nAlStatus s) 0 s)"

definition AL_ControlInd :: "('z esm_scheme) coe_service \<Rightarrow> ('z esm_scheme) appl_ops \<Rightarrow> 8 word \<Rightarrow> 16 word
    \<Rightarrow> 'z esm_scheme \<Rightarrow> 'z esm_scheme" where
  "AL_ControlInd coe ap alControl alStatusCode s =
    (case AL_accept alControl s of
       (None, s) \<Rightarrow> s
     | (Some bErrAck, s) \<Rightarrow>
         let alControl = alControl AND STATE_MASK;
             stateTrans = push_bit 4 (nAlStatus s) + alControl;
             (result, s) = AL_check_sm ap stateTrans s;
             (result, stateTrans, s) =
               (if result = 0 then AL_transition coe ap stateTrans bErrAck s
                else (result, stateTrans, AL_sm_failed coe ap result s)) in
         AL_finish ap alControl alStatusCode result stateTrans s)"

section \<open>Completing a pending transition\<close>

text \<open>The timeout has expired: the state to report and its code.\<close>

definition AL_res_timeout :: "('z esm_scheme) coe_service \<Rightarrow> ('z esm_scheme) appl_ops \<Rightarrow> 'z esm_scheme
    \<Rightarrow> 8 word \<times> 16 word \<times> 'z esm_scheme" where
  "AL_res_timeout coe ap s =
    (let tr = nEcatStateTrans s;
         Status = ucast (drop_bit 4 tr) :: 8 word in
     if tr = ucast INIT_2_PREOP \<or> tr = ucast INIT_2_BOOT then
       let s = (if \<not> bApplEsmPending s then snd (APPL_StopMailboxHandler ap s) else s);
           s = MBX_StopMailboxHandler coe s in
       (Status, if u8LocalErrorState s AND STATE_MASK = STATE_INIT then u16LocalErrorCode s
                else ALSTATUSCODE_UNSPECIFIEDERROR, s)
     else if tr = ucast PREOP_2_SAFEOP then
       let s = (if \<not> bApplEsmPending s then snd (APPL_StopInputHandler ap s) else s);
           s = StopInputHandler s in
       (Status, if u8LocalErrorState s AND STATE_MASK = STATE_PREOP then u16LocalErrorCode s
                else ALSTATUSCODE_UNSPECIFIEDERROR, s)
     else if tr = ucast SAFEOP_2_OP then
       let (Status, StatusCode, s) =
             (if bDcSyncActive s then
                if \<not> bDcRunning s then (Status, ALSTATUSCODE_NOSYNCERROR, s)
                else if \<not> bEcatFirstOutputsReceived s \<and> nPdOutputSize s > 0 then (Status, ALSTATUSCODE_SMWATCHDOG, s)
                else if \<not> bSmSyncSequenceValid s then (Status, ALSTATUSCODE_SYNCERROR, s)
                else (STATE_OP, 0, s\<lparr>bEcatOutputUpdateRunning := True\<rparr>)
              else if nPdOutputSize s > 0 then (Status, ALSTATUSCODE_SMWATCHDOG, s)
              else if u8LocalErrorState s AND STATE_MASK = STATE_SAFEOP then (Status, u16LocalErrorCode s, s)
              else (STATE_OP, 0, s\<lparr>bEcatOutputUpdateRunning := True\<rparr>));
           s = (if StatusCode \<noteq> 0
                then StopOutputHandler (if \<not> bApplEsmPending s then snd (APPL_StopOutputHandler ap s) else s)
                else s) in
       (Status, StatusCode, s)
     else (Status, 0, s))"

definition AL_res_start_output :: "('z esm_scheme) appl_ops \<Rightarrow> 'z esm_scheme \<Rightarrow> 8 word \<times> 'z esm_scheme" where
  "AL_res_start_output ap s =
    (let s = s\<lparr>bApplEsmPending := False\<rparr>;
         (result, s) = APPL_StartOutputHandler ap s in
     if result = 0 then (STATE_OP, s\<lparr>bEcatOutputUpdateRunning := True\<rparr>)
     else if result \<noteq> NOERROR_INWORK
     then (0, StopOutputHandler (snd (APPL_StopOutputHandler ap s)))
     else (0, s))"

text \<open>The timeout is still running: call the application's part of the transition once.\<close>

definition AL_res_continue :: "('z esm_scheme) coe_service \<Rightarrow> ('z esm_scheme) appl_ops \<Rightarrow> 'z esm_scheme
    \<Rightarrow> 8 word \<times> 'z esm_scheme" where
  "AL_res_continue coe ap s =
    (let tr = nEcatStateTrans s in
     if tr = ucast INIT_2_PREOP \<or> tr = ucast INIT_2_BOOT then
       if bApplEsmPending s then
         let s = s\<lparr>bApplEsmPending := False\<rparr>;
             (result, s) = APPL_StartMailboxHandler ap s in
         if result = 0 then (ucast (tr AND ucast STATE_MASK), s\<lparr>bMbxRunning := True\<rparr>)
         else if result \<noteq> NOERROR_INWORK
         then (0, MBX_StopMailboxHandler coe (snd (APPL_StopMailboxHandler ap s)))
         else (0, s)
       else (0, s)
     else if tr = ucast PREOP_2_SAFEOP then
       if bApplEsmPending s then
         let s = s\<lparr>bApplEsmPending := False\<rparr>;
             (result, s) = APPL_StartInputHandler ap s in
         if result = 0 then (STATE_SAFEOP, s\<lparr>bEcatInputUpdateRunning := True\<rparr>)
         else if result \<noteq> NOERROR_INWORK
         then (0, StopInputHandler (snd (APPL_StopInputHandler ap s)))
         else (0, s)
       else (0, s)
     else if tr = ucast SAFEOP_2_OP then
       if bApplEsmPending s then
         if bDcSyncActive s then
           if 0 <s i16WaitForPllRunningTimeout s \<and> i16WaitForPllRunningTimeout s \<le>s i16WaitForPllRunningCnt s
           then AL_res_start_output ap (s\<lparr>i16WaitForPllRunningTimeout := 0, i16WaitForPllRunningCnt := 0\<rparr>)
           else (0, s)
         else if nPdOutputSize s = 0 \<or> bEcatFirstOutputsReceived s
         then AL_res_start_output ap s
         else (0, s)
       else (0, s)
     else (0, s))"

definition AL_ControlRes :: "('z esm_scheme) coe_service \<Rightarrow> ('z esm_scheme) appl_ops \<Rightarrow> 'z esm_scheme \<Rightarrow> 'z esm_scheme" where
  "AL_ControlRes coe ap s =
    (if bEcatWaitForAlControlRes s then
       let (Status, StatusCode, s) =
             (if EsmTimeoutCounter s = 0 then AL_res_timeout coe ap s
              else let (st, s) = AL_res_continue coe ap s in (st, 0, s)) in
       if Status \<noteq> 0
       then let s = s\<lparr>bEcatWaitForAlControlRes := False\<rparr> in
            SetALStatus (if StatusCode \<noteq> 0 then Status OR STATE_CHANGE else Status) StatusCode s
       else s
     else s)"

section \<open>Supervision\<close>

definition DC_CheckWatchdog :: "'z esm_scheme \<Rightarrow> 'z esm_scheme" where
  "DC_CheckWatchdog s =
    (if bDcSyncActive s \<and> bEcatInputUpdateRunning s then
       let s = (if Sync0WdValue s > 0 \<and> Sync0WdCounter s \<ge> Sync0WdValue s
                then s\<lparr>bDcRunning := False\<rparr>
                else let s = (if Sync0WdCounter s < Sync0WdValue s
                              then s\<lparr>Sync0WdCounter := Sync0WdCounter s + 1\<rparr> else s) in
                     s\<lparr>bDcRunning := True\<rparr>);
           s = (if bDcRunning s \<and> Sync1WdValue s > 0
                then if Sync1WdCounter s < Sync1WdValue s
                     then s\<lparr>Sync1WdCounter := Sync1WdCounter s + 1\<rparr> else s\<lparr>bDcRunning := False\<rparr>
                else s) in
       if bDcRunning s then
         if u16SyncErrorCounterLimit s = 0 \<or> u16SmEventMissedCounter (sSyncManOutPar s) < u16SyncErrorCounterLimit s
         then let s = s\<lparr>bSmSyncSequenceValid := True\<rparr> in
              if 0 <s i16WaitForPllRunningTimeout s
              then s\<lparr>i16WaitForPllRunningCnt := i16WaitForPllRunningCnt s + 1\<rparr> else s
         else if bSmSyncSequenceValid s
         then let s = s\<lparr>bSmSyncSequenceValid := False\<rparr> in
              if 0 <s i16WaitForPllRunningTimeout s then s\<lparr>i16WaitForPllRunningCnt := 0\<rparr> else s
         else s
       else if bSmSyncSequenceValid s then s\<lparr>bSmSyncSequenceValid := False\<rparr> else s
     else s)"

definition CheckIfEcatError :: "('z esm_scheme) coe_service \<Rightarrow> ('z esm_scheme) appl_ops \<Rightarrow> 'z esm_scheme \<Rightarrow> 'z esm_scheme" where
  "CheckIfEcatError coe ap s =
    (let (done, s) =
       (if EcatWdValue s \<noteq> 0
        then let (WdStatusOK, s) = HW_EscReadDWord 0x440 s in
             if WdStatusOK AND 0x00000001 = 0 \<and> nPdOutputSize s > 0
             then if bEcatOutputUpdateRunning s
                  then (True, AL_ControlInd coe ap STATE_SAFEOP ALSTATUSCODE_SMWATCHDOG s)
                  else (False, s\<lparr>bEcatFirstOutputsReceived := False\<rparr>)
             else (False, s)
        else (False, s)) in
     if done then s
     else if bDcSyncActive s \<and> bEcatOutputUpdateRunning s
     then if \<not> bDcRunning s then AL_ControlInd coe ap STATE_SAFEOP ALSTATUSCODE_FATALSYNCERROR s
          else if \<not> bSmSyncSequenceValid s then AL_ControlInd coe ap STATE_SAFEOP ALSTATUSCODE_SYNCERROR s
          else s
     else s)"

section \<open>State changes requested by the application\<close>

definition ECAT_StateChange_fail :: "('z esm_scheme) coe_service \<Rightarrow> ('z esm_scheme) appl_ops \<Rightarrow> 'z esm_scheme \<Rightarrow> 'z esm_scheme" where
  "ECAT_StateChange_fail coe ap s =
    (let tr = nEcatStateTrans s in
     if tr = ucast INIT_2_PREOP \<or> tr = ucast INIT_2_BOOT
     then MBX_StopMailboxHandler coe (snd (APPL_StopMailboxHandler ap s))
     else if tr = ucast PREOP_2_SAFEOP then StopInputHandler (snd (APPL_StopInputHandler ap s))
     else if tr = ucast SAFEOP_2_OP then StopOutputHandler (snd (APPL_StopOutputHandler ap s))
     else s)"

definition ECAT_StateChange_done :: "'z esm_scheme \<Rightarrow> 'z esm_scheme" where
  "ECAT_StateChange_done s =
    (let tr = nEcatStateTrans s in
     if tr = ucast INIT_2_PREOP \<or> tr = ucast INIT_2_BOOT then s\<lparr>bMbxRunning := True\<rparr>
     else if tr = ucast PREOP_2_SAFEOP
     then (SetALEventMask (u16ALEventMask s) s)\<lparr>bEcatInputUpdateRunning := True\<rparr>
     else if tr = ucast SAFEOP_2_OP then s\<lparr>bEcatOutputUpdateRunning := True\<rparr>
     else s)"

definition ECAT_StateChange :: "('z esm_scheme) coe_service \<Rightarrow> ('z esm_scheme) appl_ops \<Rightarrow> 8 word \<Rightarrow> 16 word
    \<Rightarrow> 'z esm_scheme \<Rightarrow> 'z esm_scheme" where
  "ECAT_StateChange coe ap alStatus alStatusCode s =
    (if alStatusCode \<noteq> 0 \<and> \<not> STATE_VALID alStatus then s
     else if \<not> bEcatWaitForAlControlRes s \<and> u8LocalErrorState s = alStatus \<and> u16LocalErrorCode s = alStatusCode then s
     else if bEcatWaitForAlControlRes s then
       if bApplEsmPending s then
         if alStatusCode \<noteq> 0
         then s\<lparr>u8LocalErrorState := alStatus AND STATE_MASK, u16LocalErrorCode := alStatusCode, EsmTimeoutCounter := 0\<rparr>
         else s\<lparr>u8LocalErrorState := 0, u16LocalErrorCode := alStatusCode\<rparr>
       else
         let (Status, s) =
               (if alStatusCode \<noteq> 0
                then let s = s\<lparr>u8LocalErrorState := alStatus AND STATE_MASK, u16LocalErrorCode := alStatusCode\<rparr>;
                         s = ECAT_StateChange_fail coe ap s in
                     (ucast (drop_bit 4 (nEcatStateTrans s)) :: 8 word, s)
                else let s = ECAT_StateChange_done s in
                     (ucast (nEcatStateTrans s AND ucast STATE_MASK), s));
             s = s\<lparr>bEcatWaitForAlControlRes := False\<rparr>;
             (Status, s) =
               (if alStatusCode \<noteq> 0 then (Status OR STATE_CHANGE, s)
                else if u8LocalErrorState s \<noteq> 0 then (Status, s\<lparr>u8LocalErrorState := 0, u16LocalErrorCode := 0\<rparr>)
                else (Status, s)) in
         SetALStatus Status alStatusCode s
     else if alStatusCode \<noteq> 0 \<and> alStatus AND STATE_MASK \<noteq> STATE_OP \<and> STATE_VALID alStatus then
       let s = s\<lparr>u8LocalErrorState := alStatus AND STATE_MASK, u16LocalErrorCode := alStatusCode\<rparr> in
       if nAlStatus s AND STATE_MASK = STATE_OP then AL_ControlInd coe ap alStatus alStatusCode s else s
     else if u8LocalErrorState s \<noteq> 0 then s\<lparr>u8LocalErrorState := 0, u16LocalErrorCode := 0\<rparr>
     else s)"

section \<open>Initialisation and the cyclic function\<close>

definition ECAT_Init :: "('z esm_scheme) appl_ops \<Rightarrow> 'z esm_scheme \<Rightarrow> 'z esm_scheme" where
  "ECAT_Init ap s =
    (let (TmpVar, s) = HW_EscReadDWord 0x0004 s;
         s = s\<lparr>nMaxSyncMan := ucast (drop_bit 8 (TmpVar AND 0x0000FF00)),
               nMaxEscAddress := ucast (push_bit 10 (drop_bit 16 (TmpVar AND 0x00FF0000))) + 0xFFF,
               u16IdValue := 0\<rparr>;
         s = UpdateEEPROMLoadedState s;
         s = fold (\<lambda>i. DisableSyncManChannel (of_nat i)) [0 ..< unat (nMaxSyncMan s)] s;
         s = MBX_Init s;
         s = s\<lparr>bBootMode := False, bApplEsmPending := False, bEcatWaitForAlControlRes := False,
               bEcatFirstOutputsReceived := False, bEcatOutputUpdateRunning := False,
               bEcatInputUpdateRunning := False, bExplicitDevIdRequested := False,
               bWdTrigger := False, EcatWdValue := 0, Sync0WdCounter := 0, Sync0WdValue := 0,
               Sync1WdCounter := 0, Sync1WdValue := 0, bDcSyncActive := False,
               u8LocalErrorState := 0, u16LocalErrorCode := 0, u16ALEventMask := 0,
               nPdOutputSize := 0, nPdInputSize := 0, nAlStatus := STATE_INIT\<rparr>;
         s = SetALStatus (nAlStatus s) 0 s;
         s = s\<lparr>nEcatStateTrans := 0, u8EcatErrorLed := LED_OFF, bEscIntEnabled := False\<rparr>;
         s = COE_Init ap s in
     ResetALEventMask 0 s)"

text \<open>\<open>HW_GetALEventRegister\<close> reads the AL event register \<open>0x220\<close>.\<close>

definition ECAT_Main_control :: "('z esm_scheme) coe_service \<Rightarrow> ('z esm_scheme) appl_ops \<Rightarrow> 16 word
    \<Rightarrow> 'z esm_scheme \<Rightarrow> 'z esm_scheme" where
  "ECAT_Main_control coe ap ALEventReg s =
    (let s = (if ALEventReg AND EEPROM_CMD_PENDING \<noteq> 0 then EEPROM_CommandHandler ap s else s);
         (ALEventReg, s) =
           (if ALEventReg AND AL_CONTROL_EVENT \<noteq> 0 \<and> \<not> bEcatWaitForAlControlRes s
            then let (tmpVal, s) = HW_EscReadDWord 0x120 s;
                     EscAlControl = ucast tmpVal :: 16 word;
                     s = (if EscAlControl AND ucast STATE_DEVID = ucast STATE_DEVID
                          then let s = (if \<not> bExplicitDevIdRequested s
                                        then let (v, s) = APPL_GetDeviceID ap s in s\<lparr>u16IdValue := v\<rparr> else s) in
                               s\<lparr>bExplicitDevIdRequested := True\<rparr>
                          else s\<lparr>bExplicitDevIdRequested := False\<rparr>) in
                 (ALEventReg AND NOT (AL_CONTROL_EVENT OR SM_CHANGE_EVENT),
                  AL_ControlInd coe ap (ucast EscAlControl) 0 s)
            else (ALEventReg, s));
         s = (if ALEventReg AND SM_CHANGE_EVENT \<noteq> 0 \<and> \<not> bEcatWaitForAlControlRes s
                 \<and> nAlStatus s AND STATE_CHANGE = 0 \<and> nAlStatus s AND NOT STATE_CHANGE \<noteq> STATE_INIT
              then AL_ControlInd coe ap (nAlStatus s AND STATE_MASK) 0 s else s) in
     if bEcatWaitForAlControlRes s then AL_ControlRes coe ap s else s)"

definition ECAT_Main_mailbox :: "('z esm_scheme) coe_service \<Rightarrow> ('z esm_scheme) appl_ops \<Rightarrow> 32 word \<Rightarrow> 32 word
    \<Rightarrow> 'z esm_scheme \<Rightarrow> 'z esm_scheme" where
  "ECAT_Main_mailbox coe ap sm1Activate sm1Status s =
    (let s = (if sm1Activate AND SM_SETTING_ENABLE_VALUE = 0
              then AL_ControlInd coe ap (nAlStatus s AND STATE_MASK) 0 s else s);
         s = (if sm1Status AND SM_STATUS_MBX_BUFFER_FULL = 0 \<and> bSendMbxIsFull s
              then MBX_MailboxReadInd coe (HW_EscWriteDWord 0 (unat (u16EscAddrSendMbx s)) s) else s);
         s = (if (sm1Activate AND SM_SETTING_REPAET_REQ_MASK \<noteq> 0) \<noteq> bMbxRepeatToggle s
              then let s = MBX_MailboxRepeatReq s;
                       sm1Activate = (if bMbxRepeatToggle s then sm1Activate OR SM_SETTING_REPEAT_ACK
                                      else sm1Activate AND NOT SM_SETTING_REPEAT_ACK) in
                   HW_EscWriteDWord sm1Activate (ESC_SYNCMAN_CONTROL_OFFSET + SIZEOF_SM_REGISTER) s
              else s);
         (ALEventReg, s) = HW_EscReadWord 0x220 s in
     if ALEventReg AND MAILBOX_WRITE_EVENT \<noteq> 0 then MBX_CheckAndCopyMailbox s else s)"

definition ECAT_Main :: "('z esm_scheme) coe_service \<Rightarrow> ('z esm_scheme) foe_ops \<Rightarrow> ('z esm_scheme) appl_ops
    \<Rightarrow> 'z esm_scheme \<Rightarrow> 'z esm_scheme" where
  "ECAT_Main coe ops ap s =
    (let s = MBX_Main coe ops s;
         (sm1Activate, sm1Status, s) =
           (if bMbxRunning s
            then let (v, s) = HW_EscReadDWord (ESC_SYNCMAN_CONTROL_OFFSET + SIZEOF_SM_REGISTER) s in (v, v, s)
            else (SM_SETTING_ENABLE_VALUE, 0, s));
         (ALEventReg, s) = HW_EscReadWord 0x220 s;
         s = ECAT_Main_control coe ap ALEventReg s in
     if bMbxRunning s then ECAT_Main_mailbox coe ap sm1Activate sm1Status s else s)"

end
