(* ===== verification/MainStack.thy ===== *)
theory MainStack
  imports RmcsAppl MailboxMain EsmControl
begin

text \<open>
  \<open>MainInit\<close> and \<open>MainLoop\<close> of \<open>ecatappl.c\<close>: the whole stack, with the SDO server in its place.
  \<open>MainInit\<close> also clears the \<open>pAPPL_*\<close> pointers, which the application sets right afterwards; in
  this model they are fixed arguments.  The content of \<open>eeprom.h\<close> is an argument.
\<close>

unbundle bit_operations_syntax

abbreviation ESC_EEPROM_CONFIG_OFFSET :: nat where "ESC_EEPROM_CONFIG_OFFSET \<equiv> 0x0500"

definition read_failure_round :: "'z ecatappl_scheme \<Rightarrow> 'z ecatappl_scheme" where
  "read_failure_round s =
    (let (t, s) = HW_EscReadDWord ESC_SYSTEMTIME_OFFSET s;
         (d, s) = HW_EscReadDWord ESC_SYSTEMTIME_OFFSET s;
         d = (if t \<le> d then d - t else d + (0xFFFFFFFF - t)) in
     if u32SystemTimeReadFailure s = 0 \<or> d < u32SystemTimeReadFailure s then s\<lparr>u32SystemTimeReadFailure := d\<rparr> else s)"

definition MainInit :: "8 word list \<Rightarrow> ('z sdo_scheme) appl_ops \<Rightarrow> 'z sdo_scheme \<Rightarrow> 16 word \<times> 'z sdo_scheme" where
  "MainInit aEepromData ap s =
    (let s = COE_ObjInit (ECAT_Init ap (s\<lparr>pEEPROM := Some aEepromData\<rparr>));
         s = s\<lparr>bInitFinished := True, bMinCycleTimeMeasurementStarted := False, u32CycleTimeStartValue := 0,
               u32MinCycleTimeStartValue := 0, u32SystemTimeReadFailure := 0\<rparr>;
         s = (read_failure_round ^^ 1000) s;
         (tmp, s) = HW_EscReadDWord ESC_EEPROM_CONFIG_OFFSET s in
     (0, s\<lparr>EepromReadSize := (if tmp AND 0x00400000 \<noteq> 0 then 8 else 4)\<rparr>))"

definition free_run_outputs :: "('z ecatappl_scheme) user_ops \<Rightarrow> 'z ecatappl_scheme \<Rightarrow> 'z ecatappl_scheme" where
  "free_run_outputs u s =
    (let (ALEvent, s) = HW_EscReadWord 0x220 s in
     if ALEvent AND PROCESS_OUTPUT_EVENT \<noteq> 0
     then let s = s\<lparr>bEcatFirstOutputsReceived := True\<rparr> in
          if bEcatOutputUpdateRunning s then PDO_OutputMapping u s else s
     else if nPdOutputSize s = 0 \<and> ALEvent AND PROCESS_INPUT_EVENT \<noteq> 0
     then s\<lparr>bEcatFirstOutputsReceived := True\<rparr>
     else s)"

definition free_run :: "('z ecatappl_scheme) user_ops \<Rightarrow> 'z ecatappl_scheme \<Rightarrow> 'z ecatappl_scheme" where
  "free_run u s =
    (let s = (if \<not> bEscIntEnabled s then free_run_outputs u s else s);
         s = ECAT_Application u s in
     if bEcatInputUpdateRunning s \<and> 0 < nPdInputSize s then PDO_InputMapping_impl u s else s)"

definition MainLoop :: "('z sdo_scheme) coe_user \<Rightarrow> ('z sdo_scheme) user_ops \<Rightarrow> ('z sdo_scheme) foe_ops
    \<Rightarrow> ('z sdo_scheme) appl_ops \<Rightarrow> 'z sdo_scheme \<Rightarrow> 'z sdo_scheme" where
  "MainLoop cu u ops ap s =
    (if \<not> bInitFinished s then s
     else
       let coe = coe_of (sdo_server_of cu);
           s = (if (\<not> bEscIntEnabled s \<or> \<not> bEcatFirstOutputsReceived s) \<and> \<not> bDcSyncActive s then free_run u s else s);
           s = (if CHECK_DC_OVERRUN_IN_MS \<le> u32CheckForDcOverrunCnt s then COE_SyncTimeStamp s else s);
           s = ECAT_Main coe ops ap s;
           s = COE_Main cu s;
           s = CheckIfEcatError coe ap s in
       pAPPL_MainLoop u s)"

text \<open>The board: no access functions of its own objects, no indications.\<close>

definition rmcs_coe_user :: "'s coe_user" where
  "rmcs_coe_user = \<lparr>app_fn = (\<lambda>k index subindex n b ca s. (0, s)), pAPPL_CoeReadInd = None, pAPPL_CoeWriteInd = None\<rparr>"

definition rmcs_MainLoop :: "('f, 'e, 'p) board \<Rightarrow> ('f, 'e, 'p, 'z) rmcs_scheme \<Rightarrow> ('f, 'e, 'p, 'z) rmcs_scheme" where
  "rmcs_MainLoop B = MainLoop rmcs_coe_user (rmcs_user B) (rmcs_foe B) (rmcs_appl B)"

end
