(* ===== verification/DicList.thy ===== *)
theory DicList
  imports ObjDic
begin

text \<open>
  The object dictionary as a map from indices to objects: the interface \<open>index_map\<close>, and the proof
  that the doubly linked list of \<open>coeappl.c\<close> provides it.
\<close>

section \<open>The interface\<close>

locale index_map =
  fixes add :: "ptr \<Rightarrow> 'd \<Rightarrow> (16 word \<times> 'd) option"
    and remove :: "16 word \<Rightarrow> 'd \<Rightarrow> 'd option"
    and lookup :: "16 word \<Rightarrow> 'd \<Rightarrow> ptr option"
    and entries :: "'d \<Rightarrow> 16 word \<Rightarrow> ptr option"
    and content :: "'d \<Rightarrow> ptr \<Rightarrow> tobject"
    and invar :: "'d \<Rightarrow> bool"
  assumes lookup_entry: "invar d \<Longrightarrow> lookup ix d = Some (case entries d ix of None \<Rightarrow> NULL | Some p \<Rightarrow> p)"
    and entry_index: "invar d \<Longrightarrow> entries d ix = Some p \<Longrightarrow> p \<noteq> NULL \<and> Index (content d p) = ix"
    and add_new: "invar d \<Longrightarrow> p \<noteq> NULL \<Longrightarrow> entries d (Index (content d p)) = None
        \<Longrightarrow> \<exists>d'. add p d = Some (0, d') \<and> invar d' \<and> entries d' = (entries d)(Index (content d p) \<mapsto> p) \<and> content d' = content d"
    and add_known: "invar d \<Longrightarrow> p \<noteq> NULL \<Longrightarrow> entries d (Index (content d p)) = Some q
        \<Longrightarrow> add p d = Some (ALSTATUSCODE_UNSPECIFIEDERROR, d)"
    and remove_entry: "invar d
        \<Longrightarrow> \<exists>d'. remove ix d = Some d' \<and> invar d' \<and> entries d' = (entries d)(ix := None) \<and> content d' = content d"
begin

lemma lookup_removed:
  assumes "invar d" "remove ix d = Some d'"
  shows "lookup ix' d' = (if ix' = ix then Some NULL else lookup ix' d)"
  using remove_entry[OF assms(1), of ix] assms lookup_entry by auto

lemma lookup_added:
  assumes "invar d" "p \<noteq> NULL" "add p d = Some (0, d')"
  shows "lookup ix d' = (if ix = Index (content d p) then Some p else lookup ix d)"
proof (cases "entries d (Index (content d p))")
  case None
  then show ?thesis using add_new[OF assms(1,2)] assms lookup_entry by auto
next
  case (Some q)
  then show ?thesis using add_known[OF assms(1,2) Some] assms(3) by simp
qed

end

section \<open>The list\<close>

text \<open>\<open>dseg m q p xs r\<close>: from \<open>p\<close>, whose predecessor is \<open>q\<close>, the links lead through \<open>xs\<close> to \<open>r\<close>.\<close>

primrec dseg :: "(ptr \<Rightarrow> tobject) \<Rightarrow> ptr \<Rightarrow> ptr \<Rightarrow> ptr list \<Rightarrow> ptr \<Rightarrow> bool" where
  "dseg m q p [] r = (p = r)"
| "dseg m q p (x # xs) r = (p = x \<and> x \<noteq> NULL \<and> pPrev (m x) = q \<and> dseg m x (pNext (m x)) xs r)"

definition by_index :: "(ptr \<Rightarrow> tobject) \<Rightarrow> ptr list \<Rightarrow> bool" where
  "by_index m xs = sorted_wrt (\<lambda>x y. Index (m x) < Index (m y)) xs"

definition dic_is :: "dictionary \<Rightarrow> ptr list \<Rightarrow> bool" where
  "dic_is d xs = (dseg (obj_mem d) NULL (ObjDicList d) xs NULL \<and> by_index (obj_mem d) xs)"

text \<open>Nothing but links differs.\<close>

definition same_objects :: "(ptr \<Rightarrow> tobject) \<Rightarrow> (ptr \<Rightarrow> tobject) \<Rightarrow> bool" where
  "same_objects m m' = (\<forall>p. m' p = (m p)\<lparr>pPrev := pPrev (m' p), pNext := pNext (m' p)\<rparr>)"

lemma same_objects_Index: "same_objects m m' \<Longrightarrow> Index (m' p) = Index (m p)"
  by (metis same_objects_def tobject.select_convs(3) tobject.surjective tobject.update_convs(1,2))

lemma same_objects_refl [simp]: "same_objects m m"
  by (simp add: same_objects_def)

lemma by_index_distinct: "by_index m xs \<Longrightarrow> distinct xs"
  by (induction xs) (auto simp: by_index_def)

lemma by_index_same: "same_objects m m' \<Longrightarrow> by_index m' xs = by_index m xs"
  by (simp add: by_index_def same_objects_Index)

lemma dseg_append: "dseg m q p (xs @ ys) r = (\<exists>t. dseg m q p xs t \<and> dseg m (last (q # xs)) t ys r)"
  by (induction xs arbitrary: q p) auto

lemma dseg_other [simp]: "x \<notin> set xs \<Longrightarrow> dseg (m(x := ob)) q p xs r = dseg m q p xs r"
  by (induction xs arbitrary: q p) auto

lemma dseg_NULL: "dseg m q p xs r \<Longrightarrow> NULL \<notin> set xs"
  by (induction xs arbitrary: q p) auto

lemma dseg_head: "dseg m q p xs r \<Longrightarrow> p = (if xs = [] then r else hd xs)"
  by (cases xs) auto

lemma find_object_list:
  "dseg m q p xs NULL \<Longrightarrow> find_object ix m p = Some (case find (\<lambda>x. Index (m x) = ix) xs of None \<Rightarrow> NULL | Some x \<Rightarrow> x)"
  by (induction xs arbitrary: q p) (subst find_object.simps, auto)+

lemma insert_before_list:
  assumes "dseg m q h (as @ a # p # bs) NULL" "distinct (as @ a # p # bs)" "new \<notin> set (as @ a # p # bs)" "new \<noteq> NULL"
  shows "dseg (insert_before new p m) q h (as @ a # new # p # bs) NULL"
    and "same_objects m (insert_before new p m)"
  using assms
  by (auto simp: insert_before_def Let_def dseg_append same_objects_def obj_link_def)

lemma append_after_list:
  assumes "dseg m q h (as @ [p]) NULL" "distinct (as @ [p])" "new \<notin> set (as @ [p])" "new \<noteq> NULL"
  shows "dseg (append_after new p m) q h (as @ [p, new]) NULL"
    and "same_objects m (append_after new p m)"
  using assms
  by (auto simp: append_after_def dseg_append same_objects_def obj_link_def)

lemma unlink_list:
  assumes "dseg m q h (as @ p # bs) NULL" "distinct (as @ p # bs)" "q = NULL"
  defines "d \<equiv> unlink_object p \<lparr>ObjDicList = h, obj_mem = m\<rparr>"
  shows "same_objects m (obj_mem d)" "dseg (obj_mem d) NULL (if as = [] then pNext (m p) else h) (as @ bs) NULL"
    and "ObjDicList d = (if Index (m p) = Index (m h) then pNext (m p) else h)"
proof -
  show S: "same_objects m (obj_mem d)"
    by (auto simp: d_def unlink_object_def Let_def same_objects_def obj_link_def)
  show "dseg (obj_mem d) NULL (if as = [] then pNext (m p) else h) (as @ bs) NULL"
    using assms(1-3) unfolding d_def
    by (cases as rule: rev_cases; cases bs) (auto simp: unlink_object_def Let_def dseg_append obj_link_def)
  show "ObjDicList d = (if Index (m p) = Index (m h) then pNext (m p) else h)"
    using same_objects_Index[OF S] by (simp add: d_def unlink_object_def Let_def)
qed

lemma dseg_unique: "dseg m q p xs NULL \<Longrightarrow> dseg m q' p ys NULL \<Longrightarrow> xs = ys"
proof (induction xs arbitrary: q q' p ys)
  case Nil
  then show ?case by (cases ys) auto
next
  case (Cons x xs)
  then show ?case by (cases ys) auto
qed

lemma by_index_middle:
  "by_index m (as @ p # bs) \<Longrightarrow> (\<forall>a \<in> set as. Index (m a) < Index (m p)) \<and> (\<forall>b \<in> set bs. Index (m p) < Index (m b))"
  by (simp add: by_index_def sorted_wrt_append)

lemma add_loop_list:
  assumes "dseg m NULL h (as @ p # bs) NULL" "by_index m (as @ p # bs)" "new \<notin> set (as @ p # bs)" "new \<noteq> NULL"
    and "\<forall>a \<in> set as. Index (m a) < Index (m new)" "as = [] \<longrightarrow> Index (m p) < Index (m new)"
    and "Index (m new) \<notin> (\<lambda>x. Index (m x)) ` set (p # bs)"
  shows "\<exists>m' us vs. add_loop new m p = Some (0, m') \<and> same_objects m m' \<and> dseg m' NULL h (us @ new # vs) NULL
    \<and> us @ vs = as @ p # bs \<and> (\<forall>x \<in> set us. Index (m x) < Index (m new)) \<and> (\<forall>x \<in> set vs. Index (m new) < Index (m x))"
  using assms
proof (induction bs arbitrary: as p)
  case Nil
  have p: "p \<noteq> NULL" using dseg_NULL[OF Nil(1)] by auto
  have d: "distinct (as @ [p])" by (rule by_index_distinct[OF Nil(2)])
  show ?case
  proof (cases "Index (m new) < Index (m p)")
    case True
    then obtain as' a where as: "as = as' @ [a]" using Nil(6) by (cases as rule: rev_cases) auto
    have i: "dseg (insert_before new p m) NULL h (as' @ a # new # p # []) NULL" "same_objects m (insert_before new p m)"
      using insert_before_list[of m NULL h as' a p "[]" new] Nil.prems d as by simp_all
    have "add_loop new m p = Some (0, insert_before new p m)"
      using p True Nil(7) by (subst add_loop.simps) auto
    then show ?thesis using i as True Nil(5)
      by (intro exI[of _ "insert_before new p m"] exI[of _ as] exI[of _ "[p]"]) auto
  next
    case False
    then have lt: "Index (m p) < Index (m new)" using Nil(7) by auto
    have "pNext (m p) = NULL" using Nil(1) by (simp add: dseg_append)
    then have "add_loop new m p = Some (0, append_after new p m)"
      using p False lt by (subst add_loop.simps) auto
    moreover have "dseg (append_after new p m) NULL h (as @ [p, new]) NULL" "same_objects m (append_after new p m)"
      using append_after_list[of m NULL h as p new] Nil.prems d by simp_all
    ultimately show ?thesis using lt Nil(5)
      by (intro exI[of _ "append_after new p m"] exI[of _ "as @ [p]"] exI[of _ "[]"]) auto
  qed
next
  case (Cons b bs)
  have p: "p \<noteq> NULL" using dseg_NULL[OF Cons.prems(1)] by auto
  have d: "distinct (as @ p # b # bs)" by (rule by_index_distinct[OF Cons.prems(2)])
  have nx: "pNext (m p) = b" "b \<noteq> NULL" using Cons.prems(1) by (auto simp: dseg_append)
  show ?case
  proof (cases "Index (m new) < Index (m p)")
    case True
    then obtain as' a where as: "as = as' @ [a]" using Cons.prems(6) by (cases as rule: rev_cases) auto
    have i: "dseg (insert_before new p m) NULL h (as' @ a # new # p # (b # bs)) NULL" "same_objects m (insert_before new p m)"
      using insert_before_list[of m NULL h as' a p "b # bs" new] Cons.prems d as by simp_all
    have "add_loop new m p = Some (0, insert_before new p m)"
      using p True Cons.prems(7) by (subst add_loop.simps) auto
    moreover have "\<forall>x \<in> set (p # b # bs). Index (m new) < Index (m x)"
      using by_index_middle[OF Cons.prems(2)] True by auto
    ultimately show ?thesis using i as Cons.prems(5)
      by (intro exI[of _ "insert_before new p m"] exI[of _ as] exI[of _ "p # b # bs"]) auto
  next
    case False
    then have lt: "Index (m p) < Index (m new)" using Cons.prems(7) by auto
    have "add_loop new m p = add_loop new m b"
      using p False lt nx by (subst add_loop.simps) auto
    moreover have "\<exists>m' us vs. add_loop new m b = Some (0, m') \<and> same_objects m m' \<and> dseg m' NULL h (us @ new # vs) NULL
        \<and> us @ vs = (as @ [p]) @ b # bs \<and> (\<forall>x \<in> set us. Index (m x) < Index (m new)) \<and> (\<forall>x \<in> set vs. Index (m new) < Index (m x))"
      by (rule Cons.IH) (use Cons.prems lt in auto)
    ultimately show ?thesis by simp
  qed
qed

lemma add_loop_known:
  assumes "dseg m q p xs NULL" "by_index m xs" "Index (m new) \<in> (\<lambda>x. Index (m x)) ` set xs"
  shows "add_loop new m p = Some (ALSTATUSCODE_UNSPECIFIEDERROR, m)"
  using assms
proof (induction xs arbitrary: q p)
  case (Cons x xs)
  then have x: "p = x" "x \<noteq> NULL" "dseg m x (pNext (m x)) xs NULL" "by_index m xs" by (simp_all add: by_index_def)
  show ?case
  proof (cases "Index (m x) = Index (m new)")
    case True
    then show ?thesis using x by (subst add_loop.simps) simp
  next
    case False
    then obtain y where y: "y \<in> set xs" "Index (m y) = Index (m new)" using Cons.prems(3) by auto
    then have "Index (m x) < Index (m new)" using Cons.prems(2) by (auto simp: by_index_def)
    moreover have "pNext (m x) \<noteq> NULL" using x(3) y(1) dseg_NULL[OF x(3)] by (cases xs) auto
    ultimately have "add_loop new m p = add_loop new m (pNext (m x))"
      using x False by (subst add_loop.simps) auto
    moreover have "Index (m new) \<in> (\<lambda>x. Index (m x)) ` set xs" using y by (metis imageI)
    ultimately show ?thesis using Cons.IH[OF x(3,4)] by simp
  qed
qed simp

section \<open>The list provides the map\<close>

definition dic_invar :: "dictionary \<Rightarrow> bool" where
  "dic_invar d = (\<exists>xs. dic_is d xs)"

definition dic_list :: "dictionary \<Rightarrow> ptr list" where
  "dic_list d = (THE xs. dic_is d xs)"

definition dic_entries :: "dictionary \<Rightarrow> 16 word \<Rightarrow> ptr option" where
  "dic_entries d ix = find (\<lambda>p. Index (obj_mem d p) = ix) (dic_list d)"

definition dic_key :: "dictionary \<Rightarrow> ptr \<Rightarrow> 16 word" where
  "dic_key d = (\<lambda>p. Index (obj_mem d p))"

lemma dic_list_eq: "dic_is d xs \<Longrightarrow> dic_list d = xs"
  unfolding dic_list_def by (rule the_equality) (auto simp: dic_is_def intro: dseg_unique)

lemma find_by_index:
  assumes "by_index m xs" "p \<in> set xs"
  shows "find (\<lambda>x. Index (m x) = Index (m p)) xs = Some p"
  using assms
proof (induction xs)
  case (Cons x xs)
  then show ?case by (cases "p = x") (auto simp: by_index_def)
qed simp

lemma find_none: "find P xs = None \<longleftrightarrow> (\<forall>x \<in> set xs. \<not> P x)"
  by (induction xs) auto

lemma entries_Some_iff:
  assumes "dic_is d xs"
  shows "dic_entries d ix = Some p \<longleftrightarrow> p \<in> set xs \<and> dic_key d p = ix"
proof -
  have i: "by_index (obj_mem d) xs" and e: "dic_entries d ix = find (\<lambda>p. Index (obj_mem d p) = ix) xs"
    using assms by (simp_all add: dic_is_def dic_entries_def dic_list_eq[OF assms])
  show ?thesis
    using find_by_index[OF i, of p] unfolding e dic_key_def by (auto simp: find_Some_iff)
qed

lemma entries_ext:
  assumes "dic_is d xs" "dic_is d' xs'" "dic_key d' = dic_key d"
    and "set xs' = insert p (set xs)" "p \<notin> set xs" "dic_entries d (dic_key d p) = None"
  shows "dic_entries d' = (dic_entries d)(dic_key d p \<mapsto> p)"
proof
  fix ix
  have "dic_entries d' ix = Some q \<longleftrightarrow> ((dic_entries d)(dic_key d p \<mapsto> p)) ix = Some q" for q
    using entries_Some_iff[OF assms(1)] entries_Some_iff[OF assms(2)] assms(3,4,6)
    by (auto simp: option.expand) (metis not_None_eq)+
  then show "dic_entries d' ix = ((dic_entries d)(dic_key d p \<mapsto> p)) ix"
    by (metis not_Some_eq)
qed

lemma dic_add_new:
  assumes "dic_is d xs" "p \<noteq> NULL" "dic_entries d (dic_key d p) = None"
  shows "\<exists>d' us vs. COE_AddObjectToDic p d = Some (0, d') \<and> dic_is d' (us @ p # vs) \<and> us @ vs = xs
    \<and> same_objects (obj_mem d) (obj_mem d')"
proof -
  let ?m = "obj_mem d" and ?h = "ObjDicList d"
  have S: "dseg ?m NULL ?h xs NULL" and I: "by_index ?m xs" using assms(1) by (simp_all add: dic_is_def)
  have n: "\<forall>x \<in> set xs. Index (?m x) \<noteq> Index (?m p)"
    using assms(1,3) by (auto simp: dic_entries_def dic_key_def dic_list_eq find_none)
  then have out: "p \<notin> set xs" by auto
  show ?thesis
  proof (cases xs)
    case Nil
    let ?d = "\<lparr>ObjDicList = p, obj_mem = obj_link p (\<lambda>ob. ob\<lparr>pNext := NULL, pPrev := NULL\<rparr>) ?m\<rparr>"
    have "COE_AddObjectToDic p d = Some (0, ?d)"
      using Nil S assms(2) by (simp add: COE_AddObjectToDic_def Let_def)
    moreover have "dic_is ?d ([] @ p # [])" "same_objects ?m (obj_mem ?d)"
      using assms(2) by (auto simp: dic_is_def by_index_def obj_link_def same_objects_def)
    ultimately show ?thesis using Nil by (intro exI[of _ ?d] exI[of _ "[]"]) simp
  next
    case (Cons x ys)
    then have h: "?h = x" "x \<noteq> NULL" using S by simp_all
    show ?thesis
    proof (cases "Index (?m p) < Index (?m x)")
      case True
      let ?d = "\<lparr>ObjDicList = p, obj_mem = obj_link x (\<lambda>ob. ob\<lparr>pPrev := p\<rparr>)
        (obj_link p (\<lambda>ob. ob\<lparr>pPrev := NULL, pNext := x\<rparr>) ?m)\<rparr>"
      have add: "COE_AddObjectToDic p d = Some (0, ?d)"
        using h True assms(2) by (simp add: COE_AddObjectToDic_def Let_def)
      have same: "same_objects ?m (obj_mem ?d)" using out Cons by (auto simp: same_objects_def obj_link_def)
      have "x \<notin> set ys" using by_index_distinct[OF I] Cons by simp
      then have "dseg (obj_mem ?d) NULL p (p # xs) NULL"
        using S out Cons assms(2) by (auto simp: obj_link_def)
      moreover have "by_index ?m (p # xs)"
        using I True Cons by (auto simp: by_index_def)
      ultimately have "dic_is ?d ([] @ p # xs)" using by_index_same[OF same] by (simp add: dic_is_def)
      then show ?thesis using add same by (intro exI[of _ ?d] exI[of _ "[]"] exI[of _ xs]) simp
    next
      case False
      then have lt: "Index (?m x) < Index (?m p)" using n Cons by force
      have n': "Index (?m p) \<notin> (\<lambda>x. Index (?m x)) ` set (x # ys)" using n Cons by force
      obtain m' us vs where L: "add_loop p ?m x = Some (0, m')" "same_objects ?m m'" "dseg m' NULL x (us @ p # vs) NULL"
        "us @ vs = xs" "\<forall>y \<in> set us. Index (?m y) < Index (?m p)" "\<forall>y \<in> set vs. Index (?m p) < Index (?m y)"
        using add_loop_list[of ?m x "[]" x ys p] S I Cons h out assms(2) lt n' by auto
      have "by_index ?m (us @ p # vs)"
        using I L(4-6) by (auto simp: by_index_def sorted_wrt_append)
      then have "dic_is (d\<lparr>obj_mem := m'\<rparr>) (us @ p # vs)"
        using L(2,3) h by (simp add: dic_is_def by_index_same)
      moreover have "COE_AddObjectToDic p d = Some (0, d\<lparr>obj_mem := m'\<rparr>)"
        using h False L(1) assms(2) by (simp add: COE_AddObjectToDic_def Let_def)
      ultimately show ?thesis using L(2,4)
        by (intro exI[of _ "d\<lparr>obj_mem := m'\<rparr>"] exI[of _ us] exI[of _ vs]) simp
    qed
  qed
qed

lemma remove_loop_list:
  "dseg (obj_mem d) q p xs NULL \<Longrightarrow> remove_loop ix d p
    = Some (case find (\<lambda>x. Index (obj_mem d x) = ix) xs of None \<Rightarrow> d | Some x \<Rightarrow> unlink_object x d)"
  by (induction xs arbitrary: q p) (subst remove_loop.simps, auto)+

lemma dic_remove:
  assumes "dic_is d xs"
  shows "\<exists>d'. COE_RemoveDicEntry ix d = Some d' \<and> dic_is d' (filter (\<lambda>x. dic_key d x \<noteq> ix) xs)
    \<and> same_objects (obj_mem d) (obj_mem d')"
proof -
  let ?m = "obj_mem d" and ?h = "ObjDicList d"
  have S: "dseg ?m NULL ?h xs NULL" and I: "by_index ?m xs" using assms by (simp_all add: dic_is_def)
  have r: "COE_RemoveDicEntry ix d = Some (case find (\<lambda>x. Index (?m x) = ix) xs of None \<Rightarrow> d | Some x \<Rightarrow> unlink_object x d)"
    unfolding COE_RemoveDicEntry_def by (rule remove_loop_list[OF S])
  show ?thesis
  proof (cases "find (\<lambda>x. Index (?m x) = ix) xs")
    case None
    then have "filter (\<lambda>x. dic_key d x \<noteq> ix) xs = xs" by (simp add: find_none dic_key_def)
    then show ?thesis using r None assms by simp
  next
    case (Some p)
    then have p: "p \<in> set xs" "Index (?m p) = ix" by (auto simp: find_Some_iff)
    then obtain as bs where xs: "xs = as @ p # bs" by (meson split_list)
    have lo: "\<forall>a \<in> set as. Index (?m a) < ix" "\<forall>b \<in> set bs. ix < Index (?m b)"
      using by_index_middle[of ?m as p bs] I p(2) xs by simp_all
    let ?d = "unlink_object p d"
    have d: "unlink_object p \<lparr>ObjDicList = ?h, obj_mem = ?m\<rparr> = ?d" by (simp add: unlink_object_def Let_def)
    note u = unlink_list[of ?m NULL ?h as p bs, unfolded d]
    have same: "same_objects ?m (obj_mem ?d)" and sg: "dseg (obj_mem ?d) NULL (if as = [] then pNext (?m p) else ?h) (as @ bs) NULL"
      and hd: "ObjDicList ?d = (if Index (?m p) = Index (?m ?h) then pNext (?m p) else ?h)"
      using u S by_index_distinct[OF I] xs by simp_all
    have "?h = (if as = [] then p else hd as)" using dseg_head[OF S] xs by (cases as) auto
    then have "Index (?m p) = Index (?m ?h) \<longleftrightarrow> as = []" using lo p(2) by (cases as) auto
    then have "dseg (obj_mem ?d) NULL (ObjDicList ?d) (as @ bs) NULL" using sg hd by simp
    moreover have "by_index ?m (as @ bs)" using I xs by (auto simp: by_index_def sorted_wrt_append)
    then have "by_index (obj_mem ?d) (as @ bs)" unfolding by_index_same[OF same] .
    ultimately have "dic_is ?d (as @ bs)" by (simp add: dic_is_def)
    moreover have "filter (\<lambda>x. dic_key d x \<noteq> ix) xs = as @ bs"
    proof -
      have "filter (\<lambda>x. dic_key d x \<noteq> ix) as = as" "filter (\<lambda>x. dic_key d x \<noteq> ix) bs = bs"
        using lo unfolding filter_id_conv dic_key_def by auto
      then show ?thesis using p(2) xs by (simp add: dic_key_def)
    qed
    ultimately show ?thesis using r Some same by simp
  qed
qed

lemma same_key: "same_objects (obj_mem d) (obj_mem d') \<Longrightarrow> dic_key d' = dic_key d"
  by (rule ext) (simp add: dic_key_def same_objects_Index)

text \<open>An object without its links.\<close>

definition dic_content :: "dictionary \<Rightarrow> ptr \<Rightarrow> tobject" where
  "dic_content d = (\<lambda>p. (obj_mem d p)\<lparr>pPrev := NULL, pNext := NULL\<rparr>)"

lemma content_Index [simp]: "Index (dic_content d p) = dic_key d p"
  by (simp add: dic_content_def dic_key_def)

lemma same_content: "same_objects (obj_mem d) (obj_mem d') \<Longrightarrow> dic_content d' = dic_content d"
proof (rule ext)
  fix p assume "same_objects (obj_mem d) (obj_mem d')"
  then obtain a b where "obj_mem d' p = (obj_mem d p)\<lparr>pPrev := a, pNext := b\<rparr>"
    unfolding same_objects_def by blast
  then show "dic_content d' p = dic_content d p" by (simp add: dic_content_def)
qed

interpretation dic: index_map COE_AddObjectToDic COE_RemoveDicEntry OBJ_GetObjectHandle dic_entries dic_content dic_invar
proof
  fix d ix assume "dic_invar d"
  then obtain xs where xs: "dic_is d xs" by (auto simp: dic_invar_def)
  then show "OBJ_GetObjectHandle ix d = Some (case dic_entries d ix of None \<Rightarrow> NULL | Some p \<Rightarrow> p)"
    using find_object_list[of "obj_mem d" NULL "ObjDicList d" xs ix] dic_list_eq[OF xs]
    by (simp add: OBJ_GetObjectHandle_def COE_GetObjectDictionary_def dic_entries_def dic_is_def)
next
  fix d ix p assume "dic_invar d" "dic_entries d ix = Some p"
  then obtain xs where xs: "dic_is d xs" by (auto simp: dic_invar_def)
  then have "p \<in> set xs" "dic_key d p = ix" using entries_Some_iff[OF xs] \<open>dic_entries d ix = Some p\<close> by auto
  moreover have "NULL \<notin> set xs" using xs dseg_NULL by (auto simp: dic_is_def)
  ultimately show "p \<noteq> NULL \<and> Index (dic_content d p) = ix" using content_Index by metis
next
  fix d p assume d: "dic_invar d" and p: "p \<noteq> NULL" and p0: "dic_entries d (Index (dic_content d p)) = None"
  have p: "p \<noteq> NULL" "dic_entries d (dic_key d p) = None" using p p0 by simp_all
  obtain xs where xs: "dic_is d xs" using d by (auto simp: dic_invar_def)
  obtain d' us vs where A: "COE_AddObjectToDic p d = Some (0, d')" "dic_is d' (us @ p # vs)" "us @ vs = xs"
    "same_objects (obj_mem d) (obj_mem d')"
    using dic_add_new[OF xs p] by blast
  have "p \<notin> set xs" using entries_Some_iff[OF xs, of "dic_key d p" p] p(2) by simp
  then have "dic_entries d' = (dic_entries d)(dic_key d p \<mapsto> p)"
    using entries_ext[OF xs A(2) same_key[OF A(4)] _ _ p(2)] A(3) by auto
  then show "\<exists>d'. COE_AddObjectToDic p d = Some (0, d') \<and> dic_invar d' \<and> dic_entries d' = (dic_entries d)(Index (dic_content d p) \<mapsto> p)
      \<and> dic_content d' = dic_content d"
    using A(1,2) same_content[OF A(4)] by (auto simp: dic_invar_def)
next
  fix d p q assume d: "dic_invar d" and p: "p \<noteq> NULL" and p0: "dic_entries d (Index (dic_content d p)) = Some q"
  have p: "p \<noteq> NULL" "dic_entries d (dic_key d p) = Some q" using p p0 by simp_all
  obtain xs where xs: "dic_is d xs" using d by (auto simp: dic_invar_def)
  let ?m = "obj_mem d"
  have S: "dseg ?m NULL (ObjDicList d) xs NULL" "by_index ?m xs" using xs by (simp_all add: dic_is_def)
  have q: "q \<in> set xs" "Index (?m q) = Index (?m p)"
    using entries_Some_iff[OF xs, of "dic_key d p" q] p(2) by (simp_all add: dic_key_def)
  then obtain x ys where xy: "xs = x # ys" by (cases xs) auto
  have "ObjDicList d = x" "x \<noteq> NULL" using S(1) xy by simp_all
  moreover have "\<not> Index (?m p) < Index (?m x)" using S(2) xy q by (auto simp: by_index_def)
  moreover have "Index (?m p) \<in> (\<lambda>x. Index (?m x)) ` set xs" using q by (metis imageI)
  ultimately show "COE_AddObjectToDic p d = Some (ALSTATUSCODE_UNSPECIFIEDERROR, d)"
    using add_loop_known[OF S] p(1) by (simp add: COE_AddObjectToDic_def Let_def)
next
  fix d ix assume d: "dic_invar d"
  then obtain xs where xs: "dic_is d xs" by (auto simp: dic_invar_def)
  obtain d' where R: "COE_RemoveDicEntry ix d = Some d'" "dic_is d' (filter (\<lambda>x. dic_key d x \<noteq> ix) xs)"
    "same_objects (obj_mem d) (obj_mem d')" using dic_remove[OF xs] by blast
  have "dic_entries d' = (dic_entries d)(ix := None)"
  proof
    fix j
    have "dic_entries d' j = Some q \<longleftrightarrow> ((dic_entries d)(ix := None)) j = Some q" for q
      using entries_Some_iff[OF xs] entries_Some_iff[OF R(2)] same_key[OF R(3)] by auto
    then show "dic_entries d' j = ((dic_entries d)(ix := None)) j" by (metis not_Some_eq)
  qed
  then show "\<exists>d'. COE_RemoveDicEntry ix d = Some d' \<and> dic_invar d' \<and> dic_entries d' = (dic_entries d)(ix := None)
      \<and> dic_content d' = dic_content d"
    using R same_content[OF R(3)] by (auto simp: dic_invar_def)
qed

section \<open>Building and clearing the dictionary\<close>

lemma AddObjects_all:
  assumes "dic_invar d" "p \<noteq> NULL" "\<forall>i < n. dic_key d (p + i) \<noteq> 0xFFFF" "dic_key d (p + n) = 0xFFFF"
    and "inj_on (\<lambda>i. dic_key d (p + i)) {..<n}" "\<forall>i < n. dic_entries d (dic_key d (p + i)) = None"
  shows "\<exists>d'. AddObjectsToObjDictionary p d = Some (0, d') \<and> dic_invar d' \<and> dic_content d' = dic_content d
    \<and> (\<forall>ix q. dic_entries d' ix = Some q \<longleftrightarrow> dic_entries d ix = Some q \<or> (\<exists>i < n. q = p + i \<and> dic_key d q = ix))"
  using assms
proof (induction n arbitrary: d p)
  case 0
  then have "AddObjectsToObjDictionary p d = Some (0, d)"
    by (subst AddObjectsToObjDictionary.simps) (simp add: dic_key_def)
  then show ?case using 0 by simp
next
  case (Suc n)
  have first: "dic_key d p \<noteq> 0xFFFF" "dic_entries d (dic_key d p) = None"
    using Suc.prems(3,6) by force+
  obtain d1 where A: "COE_AddObjectToDic p d = Some (0, d1)" "dic_invar d1"
    "dic_entries d1 = (dic_entries d)(dic_key d p \<mapsto> p)" "dic_content d1 = dic_content d"
    using dic.add_new[OF Suc.prems(1,2)] first(2) by auto
  have k: "dic_key d1 = dic_key d" by (rule ext) (metis A(4) content_Index)
  have df: "dic_key d (p + Suc i) \<noteq> dic_key d p" if "i < n" for i
    using inj_onD[OF Suc.prems(5), of "Suc i" 0] that by auto
  have "inj_on (\<lambda>i. dic_key d1 (p + 1 + i)) {..<n}"
    using inj_onD[OF Suc.prems(5), of "Suc _" "Suc _"] unfolding k by (intro inj_onI) force
  moreover have "\<forall>i < n. dic_entries d1 (dic_key d1 (p + 1 + i)) = None"
  proof (intro allI impI)
    fix i assume "i < n"
    then have "dic_entries d (dic_key d (p + Suc i)) = None" "dic_key d (p + Suc i) \<noteq> dic_key d p"
      using Suc.prems(6) df by blast+
    then show "dic_entries d1 (dic_key d1 (p + 1 + i)) = None" unfolding k A(3) by simp
  qed
  moreover have "dic_key d1 (p + 1 + i) \<noteq> 0xFFFF" if "i < n" for i
    using Suc.prems(3)[rule_format, of "Suc i"] that unfolding k by simp
  moreover have "dic_key d1 (p + 1 + n) = 0xFFFF" using Suc.prems(4) unfolding k by simp
  ultimately obtain d2 where B: "AddObjectsToObjDictionary (p + 1) d1 = Some (0, d2)" "dic_invar d2"
    "dic_content d2 = dic_content d1"
    "\<forall>ix q. dic_entries d2 ix = Some q \<longleftrightarrow> dic_entries d1 ix = Some q \<or> (\<exists>i < n. q = p + 1 + i \<and> dic_key d1 q = ix)"
    using Suc.IH[OF A(2), of "p + 1"] by auto
  have step: "AddObjectsToObjDictionary p d = Some (0, d2)"
    using first(1) A(1) B(1) by (subst AddObjectsToObjDictionary.simps) (simp add: dic_key_def)
  have E: "dic_entries d2 ix = Some q \<longleftrightarrow> dic_entries d ix = Some q \<or> (\<exists>i < Suc n. q = p + i \<and> dic_key d q = ix)" for ix q
  proof -
    have "(\<exists>i < Suc n. q = p + i \<and> dic_key d q = ix) \<longleftrightarrow> (q = p \<and> dic_key d p = ix) \<or> (\<exists>i < n. q = p + 1 + i \<and> dic_key d q = ix)"
      by (auto simp: less_Suc_eq_0_disj)
    then show ?thesis using B(4) first(2) unfolding k A(3) by auto
  qed
  show ?case by (intro exI conjI allI, rule step, rule B(2), simp only: B(3) A(4), rule E)
qed

lemma clear_loop_list:
  "dic_is d xs \<Longrightarrow> \<exists>d'. clear_loop d (ObjDicList d) = Some d' \<and> dic_is d' [] \<and> dic_content d' = dic_content d"
proof (induction xs arbitrary: d)
  case Nil
  then have "ObjDicList d = NULL" by (simp add: dic_is_def)
  then have "clear_loop d (ObjDicList d) = Some d" by (subst clear_loop.simps) simp
  then show ?case using Nil by simp
next
  case (Cons x xs)
  have S: "dseg (obj_mem d) NULL (ObjDicList d) (x # xs) NULL" and I: "by_index (obj_mem d) (x # xs)"
    using Cons.prems by (simp_all add: dic_is_def)
  then have h: "ObjDicList d = x" "x \<noteq> NULL" and nx: "dseg (obj_mem d) x (pNext (obj_mem d x)) xs NULL" by simp_all
  have "filter (\<lambda>y. dic_key d y \<noteq> Index (obj_mem d x)) (x # xs) = xs"
    using I by (auto simp: by_index_def dic_key_def filter_id_conv)
  then obtain d1 where R: "COE_RemoveDicEntry (Index (obj_mem d x)) d = Some d1" "dic_is d1 xs"
    "same_objects (obj_mem d) (obj_mem d1)"
    using dic_remove[OF Cons.prems, of "Index (obj_mem d x)"] by auto
  have "ObjDicList d1 = (if xs = [] then NULL else hd xs)" using R(2) dseg_head[of "obj_mem d1" NULL "ObjDicList d1" xs NULL] by (simp add: dic_is_def)
  also have "\<dots> = pNext (obj_mem d x)" using dseg_head[OF nx] by simp
  finally have "clear_loop d (ObjDicList d) = clear_loop d1 (ObjDicList d1)"
    using h R(1) by (subst clear_loop.simps) simp
  then show ?case using Cons.IH[OF R(2)] same_content[OF R(3)] by simp
qed

lemma clear_empties:
  assumes "dic_invar d"
  shows "\<exists>d'. COE_ClearObjDictionary d = Some d' \<and> dic_is d' [] \<and> dic_content d' = dic_content d"
proof -
  obtain xs where "dic_is d xs" using assms by (auto simp: dic_invar_def)
  then obtain d1 where "clear_loop d (ObjDicList d) = Some d1" "dic_is d1 []" "dic_content d1 = dic_content d"
    using clear_loop_list by blast
  moreover have "dic_content (d1\<lparr>ObjDicList := NULL\<rparr>) = dic_content d1" by (simp add: dic_content_def)
  ultimately show ?thesis by (simp add: COE_ClearObjDictionary_def dic_is_def)
qed

end
