(* ===== verification/RmcsObjects.thy ===== *)
theory RmcsObjects
  imports DicList
begin

text \<open>
  The objects of this slave: \<open>GenObjDic\<close> of \<open>coeappl.c\<close> and \<open>ApplicationObjDic\<close> of
  \<open>digital_ioObjects.h\<close> (48-byte stream layout), with their entry descriptions, names and the
  variables behind them.
\<close>

unbundle bit_operations_syntax

definition desc :: "16 word \<Rightarrow> 16 word \<Rightarrow> 16 word \<Rightarrow> entry_desc" where
  "desc t n a = \<lparr>DataType = t, BitLength = n, ObjAccess = a\<rparr>"

definition ascii :: "string \<Rightarrow> 8 word list" where
  "ascii cs = map of_char cs @ [0]"

definition names :: "string list \<Rightarrow> 8 word list" where
  "names ns = concat (map ascii ns) @ [0xFF, 0]"

definition object :: "16 word \<Rightarrow> 16 word \<Rightarrow> nat \<Rightarrow> 16 word \<Rightarrow> entry_desc list \<Rightarrow> 8 word list \<Rightarrow> varref \<Rightarrow> tobject" where
  "object ix ty maxsub code ds nm v =
    \<lparr>pPrev = NULL, pNext = NULL, Index = ix, ObjDescType = ty, ObjFlags = of_nat maxsub OR push_bit 8 code,
     pEntryDesc = ds, pName = nm, pVarPtr = v, ObjRead = None, ObjWrite = None, NonVolatileOffset = 0\<rparr>"

definition end_of_objects :: tobject where
  "end_of_objects = object 0xFFFF 0 0 0 [] [] (PlainVar 0)"

section \<open>Generic objects\<close>

definition sEntryDesc0x1000 :: "entry_desc list" where
  "sEntryDesc0x1000 = [desc DEFTYPE_UNSIGNED32 0x20 ACCESS_READ]"
definition sEntryDesc0x1001 :: "entry_desc list" where
  "sEntryDesc0x1001 = [desc DEFTYPE_UNSIGNED8 0x08 ACCESS_READ]"
definition sEntryDesc0x1008 :: "entry_desc list" where
  "sEntryDesc0x1008 = [desc DEFTYPE_VISIBLESTRING (8 * 0xA) ACCESS_READ]"
definition sEntryDesc0x1009 :: "entry_desc list" where
  "sEntryDesc0x1009 = [desc DEFTYPE_VISIBLESTRING (8 * 0xB) ACCESS_READ]"
definition sEntryDesc0x100A :: "entry_desc list" where
  "sEntryDesc0x100A = [desc DEFTYPE_VISIBLESTRING (8 * 0x3) ACCESS_READ]"

definition asEntryDesc0x1018 :: "entry_desc list" where
  "asEntryDesc0x1018 = desc DEFTYPE_UNSIGNED8 0x8 ACCESS_READ # replicate 4 (desc DEFTYPE_UNSIGNED32 0x20 ACCESS_READ)"

definition asEntryDesc0x10F1 :: "entry_desc list" where
  "asEntryDesc0x10F1 = [desc DEFTYPE_UNSIGNED8 0x8 ACCESS_READ, desc DEFTYPE_UNSIGNED32 0x20 ACCESS_READ,
     desc DEFTYPE_UNSIGNED16 0x10 ACCESS_READWRITE]"

definition sEntryDesc0x10F8 :: "entry_desc list" where
  "sEntryDesc0x10F8 = [desc DEFTYPE_UNSIGNED64 0x40 (ACCESS_READWRITE OR OBJACCESS_TXPDOMAPPING)]"

definition asEntryDesc0x1C00 :: "entry_desc list" where
  "asEntryDesc0x1C00 = [desc DEFTYPE_UNSIGNED8 0x08 ACCESS_READ, desc DEFTYPE_UNSIGNED8 0x08 ACCESS_READ]"

definition asEntryDesc0x1C3x :: "entry_desc list" where
  "asEntryDesc0x1C3x = [
     desc DEFTYPE_UNSIGNED8 0x8 ACCESS_READ,
     desc DEFTYPE_UNSIGNED16 0x10 (ACCESS_READ OR ACCESS_WRITE_PREOP),
     desc DEFTYPE_UNSIGNED32 0x20 ACCESS_READ,
     desc 0 0x20 0,
     desc DEFTYPE_UNSIGNED16 0x10 ACCESS_READ,
     desc DEFTYPE_UNSIGNED32 0x20 ACCESS_READ,
     desc DEFTYPE_UNSIGNED32 0x20 ACCESS_READ,
     desc 0 0x20 0,
     desc DEFTYPE_UNSIGNED16 0x10 ACCESS_READWRITE,
     desc DEFTYPE_UNSIGNED32 0x20 ACCESS_READ,
     desc DEFTYPE_UNSIGNED32 0x20 ACCESS_READWRITE,
     desc DEFTYPE_UNSIGNED16 0x10 ACCESS_READ,
     desc DEFTYPE_UNSIGNED16 0x10 ACCESS_READ,
     desc DEFTYPE_UNSIGNED16 0x10 ACCESS_READ,
     desc 0 0x10 0, desc 0 0x20 0, desc 0 0x20 0, desc 0 0x20 0, desc 0 0x20 0,
     desc 0 0 0, desc 0 0 0, desc 0 0 0, desc 0 0 0, desc 0 0 0, desc 0 0 0, desc 0 0 0,
     desc 0 0 0, desc 0 0 0, desc 0 0 0, desc 0 0 0, desc 0 0 0, desc 0 0 0,
     desc DEFTYPE_BOOLEAN 0x01 ACCESS_READ]"

definition sm_names :: "string \<Rightarrow> 8 word list" where
  "sm_names nm = names ([nm, ''Synchronization Type'', ''Cycle Time'', '''', ''Synchronization Types supported'',
     ''Minimum Cycle Time'', ''Calc and Copy Time'', '''', ''Get Cycle Time'', ''Delay Time'', ''Sync0 Cycle Time'',
     ''SM-Event Missed'', ''Cycle Time Too Small'', ''Shift Time Too Short Counter''] @ replicate 18 ''''
     @ [''Sync Error''])"

definition GenObjDic_objects :: "tobject list" where
  "GenObjDic_objects = [
     object 0x1000 DEFTYPE_UNSIGNED32 0 OBJCODE_VAR sEntryDesc0x1000 (ascii ''Device type'') (PlainVar 0),
     object 0x1001 DEFTYPE_UNSIGNED8 0 OBJCODE_VAR sEntryDesc0x1001 (ascii ''Error register'') (PlainVar 1),
     object 0x1008 DEFTYPE_VISIBLESTRING 0 OBJCODE_VAR sEntryDesc0x1008 (ascii ''Device name'') (PlainVar 2),
     object 0x1009 DEFTYPE_VISIBLESTRING 0 OBJCODE_VAR sEntryDesc0x1009 (ascii ''Manufacturer Hardware version'') (PlainVar 3),
     object 0x100A DEFTYPE_VISIBLESTRING 0 OBJCODE_VAR sEntryDesc0x100A (ascii ''Manufacturer Software version'') (PlainVar 4),
     object 0x1018 DEFTYPE_IDENTITY 4 OBJCODE_REC asEntryDesc0x1018
       (names [''Identity Object'', ''Vendor ID'', ''Product Code'', ''Revision Number'', ''Serial Number'']) (PlainVar 5),
     object 0x10F1 DEFTYPE_RECORD 2 OBJCODE_REC asEntryDesc0x10F1
       (names [''Error Settings'', ''Local Error Reaction'', ''Sync Error Counter Limit'']) ErrSettings,
     (object 0x10F8 DEFTYPE_UNSIGNED64 0 OBJCODE_VAR sEntryDesc0x10F8 (names [''Timestamp Object'']) TimeStampVar)
       \<lparr>ObjRead := Some FnRead0x10F8\<rparr>,
     object 0x1C00 DEFTYPE_UNSIGNED8 4 OBJCODE_ARR asEntryDesc0x1C00 (ascii ''Sync manager type'') (PlainVar 6),
     object 0x1C32 DEFTYPE_SMPAR 32 OBJCODE_REC asEntryDesc0x1C3x (sm_names ''SM output parameter'') SmOutPar,
     object 0x1C33 DEFTYPE_SMPAR 32 OBJCODE_REC asEntryDesc0x1C3x (sm_names ''SM input parameter'') SmInPar,
     end_of_objects]"

section \<open>Application objects\<close>

abbreviation RMCS_STREAM_ENTRY_COUNT :: nat where "RMCS_STREAM_ENTRY_COUNT \<equiv> 12"

definition asEntryDesc0x1600 :: "entry_desc list" where
  "asEntryDesc0x1600 = desc DEFTYPE_UNSIGNED8 0x8 ACCESS_READ # replicate 12 (desc DEFTYPE_UNSIGNED32 0x20 ACCESS_READ)"
definition asEntryDesc0x1A00 :: "entry_desc list" where
  "asEntryDesc0x1A00 = desc DEFTYPE_UNSIGNED8 0x8 ACCESS_READ # replicate 12 (desc DEFTYPE_UNSIGNED32 0x20 ACCESS_READ)"
definition asEntryDesc0x1C12 :: "entry_desc list" where
  "asEntryDesc0x1C12 = [desc DEFTYPE_UNSIGNED8 0x8 ACCESS_READ, desc DEFTYPE_UNSIGNED16 0x10 ACCESS_READ]"
definition asEntryDesc0x1C13 :: "entry_desc list" where
  "asEntryDesc0x1C13 = [desc DEFTYPE_UNSIGNED8 0x8 ACCESS_READ, desc DEFTYPE_UNSIGNED16 0x10 ACCESS_READ]"
definition asEntryDesc0x6000 :: "entry_desc list" where
  "asEntryDesc0x6000 = [desc DEFTYPE_UNSIGNED8 0x8 ACCESS_READ,
     desc DEFTYPE_UNSIGNED32 0x20 (ACCESS_READ OR OBJACCESS_TXPDOMAPPING)]"
definition asEntryDesc0x7010 :: "entry_desc list" where
  "asEntryDesc0x7010 = [desc DEFTYPE_UNSIGNED8 0x8 ACCESS_READ,
     desc DEFTYPE_UNSIGNED32 0x20 (ACCESS_READWRITE OR OBJACCESS_RXPDOMAPPING)]"
definition asEntryDesc0xF000 :: "entry_desc list" where
  "asEntryDesc0xF000 = [desc DEFTYPE_UNSIGNED8 0x8 ACCESS_READ, desc DEFTYPE_UNSIGNED16 0x10 ACCESS_READ,
     desc DEFTYPE_UNSIGNED16 0x10 ACCESS_READ]"

definition ApplicationObjDic_objects :: "tobject list" where
  "ApplicationObjDic_objects = [
     object 0x1600 DEFTYPE_PDOMAPPING RMCS_STREAM_ENTRY_COUNT OBJCODE_REC asEntryDesc0x1600
       (names [''OutputStream process data mapping'']) (PlainVar 7),
     object 0x1A00 DEFTYPE_PDOMAPPING RMCS_STREAM_ENTRY_COUNT OBJCODE_REC asEntryDesc0x1A00
       (names [''InputStream process data mapping'']) (PlainVar 8),
     object 0x1C12 DEFTYPE_UNSIGNED16 1 OBJCODE_ARR asEntryDesc0x1C12 (names [''SyncManager 2 assignment'']) (PlainVar 9),
     object 0x1C13 DEFTYPE_UNSIGNED16 1 OBJCODE_ARR asEntryDesc0x1C13 (names [''SyncManager 3 assignment'']) (PlainVar 10),
     object 0x6000 DEFTYPE_UNSIGNED32 RMCS_STREAM_ENTRY_COUNT OBJCODE_ARR asEntryDesc0x6000 (names [''InputStream'']) (PlainVar 11),
     object 0x7010 DEFTYPE_UNSIGNED32 RMCS_STREAM_ENTRY_COUNT OBJCODE_ARR asEntryDesc0x7010 (names [''OutputStream'']) (PlainVar 12),
     object 0xF000 DEFTYPE_RECORD 2 OBJCODE_REC asEntryDesc0xF000
       (names [''Modular Device Profile'', ''Index distance '', ''Maximum number of modules '']) (PlainVar 13),
     end_of_objects]"

text \<open>The two arrays in memory.\<close>

definition rmcs_obj_mem :: "ptr \<Rightarrow> tobject" where
  "rmcs_obj_mem p =
    (if GenObjDic \<le> p \<and> p < GenObjDic + length GenObjDic_objects then GenObjDic_objects ! (p - GenObjDic)
     else if ApplicationObjDic \<le> p \<and> p < ApplicationObjDic + length ApplicationObjDic_objects
     then ApplicationObjDic_objects ! (p - ApplicationObjDic)
     else end_of_objects)"

definition RMCS_MAP_ENTRY :: "16 word \<Rightarrow> nat \<Rightarrow> 32 word" where
  "RMCS_MAP_ENTRY ix sub = push_bit 16 (ucast ix) OR push_bit 8 (of_nat sub) OR 0x20"

definition rmcs_obj_vars :: "nat \<Rightarrow> 8 word list" where
  "rmcs_obj_vars k =
    (if k = 0 then le32_bytes 0x1389
     else if k = 1 then le16_bytes 0
     else if k = 2 then ascii ''digital_io''
     else if k = 3 then ascii ''ECAT_Device''
     else if k = 4 then ascii ''1.0''
     else if k = 5 then le16_bytes 4 @ le32_bytes 0x1A81 @ le32_bytes 1 @ le32_bytes 1 @ le32_bytes 0
     else if k = 6 then le16_bytes 4 @ le16_bytes 0x0201 @ le16_bytes 0x0403
     else if k = 7 then le16_bytes 12 @ concat (map (\<lambda>i. le32_bytes (RMCS_MAP_ENTRY 0x7010 i)) [1..<13])
     else if k = 8 then le16_bytes 12 @ concat (map (\<lambda>i. le32_bytes (RMCS_MAP_ENTRY 0x6000 i)) [1..<13])
     else if k = 9 then le16_bytes 1 @ le16_bytes 0x1600
     else if k = 10 then le16_bytes 1 @ le16_bytes 0x1A00
     else if k = 11 then le16_bytes 12 @ replicate 48 0
     else if k = 12 then le16_bytes 12 @ replicate 48 0
     else if k = 13 then le16_bytes 2 @ le16_bytes 0x0010 @ le16_bytes 0
     else [])"

section \<open>The dictionary of this slave\<close>

definition rmcs_dictionary0 :: dictionary where
  "rmcs_dictionary0 = \<lparr>ObjDicList = NULL, obj_mem = rmcs_obj_mem\<rparr>"

definition gen_indices :: "16 word list" where
  "gen_indices = [0x1000, 0x1001, 0x1008, 0x1009, 0x100A, 0x1018, 0x10F1, 0x10F8, 0x1C00, 0x1C32, 0x1C33]"

definition app_indices :: "16 word list" where
  "app_indices = [0x1600, 0x1A00, 0x1C12, 0x1C13, 0x6000, 0x7010, 0xF000]"

lemma gen_keys: "map Index GenObjDic_objects = gen_indices @ [0xFFFF]"
  by (simp add: GenObjDic_objects_def gen_indices_def object_def end_of_objects_def)

lemma app_keys: "map Index ApplicationObjDic_objects = app_indices @ [0xFFFF]"
  by (simp add: ApplicationObjDic_objects_def app_indices_def object_def end_of_objects_def)

lemma gen_length: "length GenObjDic_objects = 12" and app_length: "length ApplicationObjDic_objects = 8"
  by (simp_all add: GenObjDic_objects_def ApplicationObjDic_objects_def)

lemma rmcs_key_gen: "i < 12 \<Longrightarrow> dic_key rmcs_dictionary0 (1 + i) = (gen_indices @ [0xFFFF]) ! i"
  unfolding gen_keys[symmetric] by (simp add: dic_key_def rmcs_dictionary0_def rmcs_obj_mem_def gen_length)

lemma rmcs_key_app: "i < 8 \<Longrightarrow> dic_key rmcs_dictionary0 (13 + i) = (app_indices @ [0xFFFF]) ! i"
  unfolding app_keys[symmetric] by (simp add: dic_key_def rmcs_dictionary0_def rmcs_obj_mem_def gen_length app_length)

lemma gen_indices_facts: "length gen_indices = 11" "distinct gen_indices" "0xFFFF \<notin> set gen_indices"
  and app_indices_facts: "length app_indices = 7" "distinct app_indices" "0xFFFF \<notin> set app_indices"
  and indices_disjoint: "set gen_indices \<inter> set app_indices = {}"
  by (simp_all add: gen_indices_def app_indices_def)

text \<open>The objects are all linked, at the addresses where they lie.\<close>

definition rmcs_objects_at :: "16 word \<Rightarrow> ptr \<Rightarrow> bool" where
  "rmcs_objects_at ix p = ((\<exists>i < 11. p = 1 + i \<and> gen_indices ! i = ix) \<or> (\<exists>i < 7. p = 13 + i \<and> app_indices ! i = ix))"

lemma rmcs_dictionary_init:
  "\<exists>d. COE_ObjDictionaryInit rmcs_dictionary0 = Some (0, d) \<and> dic_invar d \<and> dic_content d = dic_content rmcs_dictionary0
    \<and> (\<forall>ix p. dic_entries d ix = Some p \<longleftrightarrow> rmcs_objects_at ix p)"
proof -
  let ?d = rmcs_dictionary0
  have e: "dic_is ?d []" by (simp add: dic_is_def by_index_def rmcs_dictionary0_def)
  then have none: "dic_entries ?d = (\<lambda>_. None)"
    using entries_Some_iff[OF e] by (metis empty_iff empty_set not_None_eq)
  have inv: "dic_invar ?d" using e by (auto simp: dic_invar_def)
  have k1: "dic_key ?d (1 + i) = gen_indices ! i" if "i < 11" for i
    using rmcs_key_gen[of i] that gen_indices_facts(1) by (simp add: nth_append)
  have k2: "dic_key ?d (13 + i) = app_indices ! i" if "i < 7" for i
    using rmcs_key_app[of i] that app_indices_facts(1) by (simp add: nth_append)
  have in1: "gen_indices ! i \<in> set gen_indices" if "i < 11" for i using that gen_indices_facts(1) by simp
  have in2: "app_indices ! i \<in> set app_indices" if "i < 7" for i using that app_indices_facts(1) by simp
  have "\<exists>d'. AddObjectsToObjDictionary 1 ?d = Some (0, d') \<and> dic_invar d' \<and> dic_content d' = dic_content ?d
    \<and> (\<forall>ix q. dic_entries d' ix = Some q \<longleftrightarrow> dic_entries ?d ix = Some q \<or> (\<exists>i < 11. q = 1 + i \<and> dic_key ?d q = ix))"
  proof (rule AddObjects_all[OF inv])
    show "\<forall>i < 11. dic_key ?d (1 + i) \<noteq> 0xFFFF" using k1 in1 gen_indices_facts(3) by metis
    show "dic_key ?d (1 + 11) = 0xFFFF"
      using rmcs_key_gen[of 11] gen_indices_facts(1) by (simp add: nth_append)
    show "inj_on (\<lambda>i. dic_key ?d (1 + i)) {..<11}"
      using k1 gen_indices_facts(1,2) by (auto simp: inj_on_def nth_eq_iff_index_eq)
  qed (simp_all add: none)
  then obtain d1 where A: "AddObjectsToObjDictionary 1 ?d = Some (0, d1)" "dic_invar d1" "dic_content d1 = dic_content ?d"
    "\<And>ix q. dic_entries d1 ix = Some q \<longleftrightarrow> (\<exists>i < 11. q = 1 + i \<and> dic_key ?d q = ix)" unfolding none by auto
  have k: "dic_key d1 = dic_key ?d" by (rule ext) (metis A(3) content_Index)
  have new: "dic_entries d1 (app_indices ! i) = None" if "i < 7" for i
  proof (rule ccontr)
    assume "dic_entries d1 (app_indices ! i) \<noteq> None"
    then obtain q j where "j < 11" "q = 1 + j" "dic_key ?d q = app_indices ! i" using A(4) by blast
    then have "app_indices ! i \<in> set gen_indices" using k1 in1 by metis
    then show False using in2[OF that] indices_disjoint by blast
  qed
  have "\<exists>d'. AddObjectsToObjDictionary 13 d1 = Some (0, d') \<and> dic_invar d' \<and> dic_content d' = dic_content d1
    \<and> (\<forall>ix q. dic_entries d' ix = Some q \<longleftrightarrow> dic_entries d1 ix = Some q \<or> (\<exists>i < 7. q = 13 + i \<and> dic_key d1 q = ix))"
  proof (rule AddObjects_all[OF A(2)], unfold k)
    show "\<forall>i < 7. dic_key ?d (13 + i) \<noteq> 0xFFFF" using k2 in2 app_indices_facts(3) by metis
    show "dic_key ?d (13 + 7) = 0xFFFF"
      using rmcs_key_app[of 7] app_indices_facts(1) by (simp add: nth_append)
    show "inj_on (\<lambda>i. dic_key ?d (13 + i)) {..<7}"
      using k2 app_indices_facts(1,2) by (auto simp: inj_on_def nth_eq_iff_index_eq)
    show "\<forall>i < 7. dic_entries d1 (dic_key ?d (13 + i)) = None" using k2 new by metis
  qed simp
  then obtain d2 where B: "AddObjectsToObjDictionary 13 d1 = Some (0, d2)" "dic_invar d2" "dic_content d2 = dic_content d1"
    "\<And>ix q. dic_entries d2 ix = Some q \<longleftrightarrow> dic_entries d1 ix = Some q \<or> (\<exists>i < 7. q = 13 + i \<and> dic_key ?d q = ix)"
    unfolding k by auto
  have "COE_ObjDictionaryInit ?d = Some (0, d2)"
    using A(1) B(1) by (simp add: COE_ObjDictionaryInit_def rmcs_dictionary0_def)
  moreover have "dic_entries d2 ix = Some q \<longleftrightarrow> rmcs_objects_at ix q" for ix q
  proof -
    have "(\<exists>i < 11. q = 1 + i \<and> dic_key ?d q = ix) \<longleftrightarrow> (\<exists>i < 11. q = 1 + i \<and> gen_indices ! i = ix)"
      by (rule ex_cong1) (use k1 in auto)
    moreover have "(\<exists>i < 7. q = 13 + i \<and> dic_key ?d q = ix) \<longleftrightarrow> (\<exists>i < 7. q = 13 + i \<and> app_indices ! i = ix)"
      by (rule ex_cong1) (use k2 in auto)
    ultimately show ?thesis unfolding B(4) A(4) rmcs_objects_at_def by blast
  qed
  ultimately show ?thesis using B(2,3) A(3) by auto
qed

lemma rmcs_objects_at_ex: "(\<exists>p. rmcs_objects_at ix p) \<longleftrightarrow> ix \<in> set (gen_indices @ app_indices)"
  using gen_indices_facts(1) app_indices_facts(1) by (auto simp: rmcs_objects_at_def in_set_conv_nth)

lemma by_index_keys:
  assumes "by_index m xs"
  shows "sorted (map (\<lambda>p. Index (m p)) xs) \<and> distinct (map (\<lambda>p. Index (m p)) xs)"
  using assms by (induction xs) (auto simp: by_index_def)

lemma rmcs_dictionary_sorted:
  assumes "dic_is d xs" "\<forall>ix p. dic_entries d ix = Some p \<longleftrightarrow> rmcs_objects_at ix p"
  shows "map (dic_key d) xs = sort (gen_indices @ app_indices)"
proof (rule sorted_distinct_set_unique)
  have i: "by_index (obj_mem d) xs" using assms(1) by (simp add: dic_is_def)
  show "sorted (map (dic_key d) xs)" "distinct (map (dic_key d) xs)"
    using by_index_keys[OF i] by (simp_all only: dic_key_def)
  have "ix \<in> set (map (dic_key d) xs) \<longleftrightarrow> (\<exists>p. rmcs_objects_at ix p)" for ix
    using entries_Some_iff[OF assms(1), of ix] assms(2) unfolding set_map image_iff by metis
  then show "set (map (dic_key d) xs) = set (sort (gen_indices @ app_indices))"
    unfolding rmcs_objects_at_ex set_sort by blast
  show "sorted (sort (gen_indices @ app_indices))" by (rule sorted_sort)
  show "distinct (sort (gen_indices @ app_indices))"
    unfolding distinct_sort distinct_append using gen_indices_facts(2) app_indices_facts(2) indices_disjoint by blast
qed

end
