(* ===== verification/ObjIo.thy ===== *)
theory ObjIo
  imports SdoInfo RmcsObjects
begin

text \<open>
  Reading and writing single entries: access rights, reading a value of 16, 32 or 64 bits, and what a buffer
  holds.
\<close>

unbundle bit_operations_syntax

section \<open>Access rights\<close>

lemma note_fault_False [simp]: "note_fault False s = s"
  by (simp add: note_fault_def)

lemma note_fault_twice [simp]: "note_fault a (note_fault b s) = note_fault (a \<or> b) s"
  by (simp add: note_fault_def disj_ac)

lemma note_fault_fields [simp]:
  "nAlStatus (note_fault b s) = nAlStatus s" "dic (note_fault b s) = dic s" "obj_vars (note_fault b s) = obj_vars s"
  "read_rights e (note_fault b s) = read_rights e s" "write_rights e (note_fault b s) = write_rights e s"
  by (simp_all add: note_fault_def read_rights_def write_rights_def)

lemma var_load_notes: "snd (var_load v off n s) = note_fault (length (var_bytes v s) < off + n) s"
  by (simp add: var_load_def Let_def)

lemma var_load16_notes: "snd (var_load16 v off s) = note_fault (length (var_bytes v s) < off + 2) s"
  by (simp add: var_load16_def case_prod_unfold var_load_notes)

lemma refused_codes [simp]: "write_refused e \<noteq> 0" "read_refused e \<noteq> 0"
  by (simp_all add: write_refused_def read_refused_def)

lemma write_refused_without_rights:
  assumes "\<not> write_rights (OBJ_GetEntryDesc ob (unat subindex)) s"
  shows "\<exists>r b. r \<noteq> 0 \<and> OBJ_Write u index subindex n ob pData False s = (r, note_fault b s)"
  using assms
  by (auto simp: OBJ_Write_def Let_def case_prod_unfold var_load16_notes split: if_splits intro: exI[of _ True] exI[of _ False])

section \<open>Reading a value\<close>

text \<open>Entries of 2, 4 or 8 bytes at a whole word of their variable.\<close>

definition value_bytes :: "entry_desc \<Rightarrow> nat" where
  "value_bytes e = (if std_type e \<in> word_types then 2 else if std_type e \<in> dword_types then 4
     else if std_type e \<in> qword_types then 8 else 0)"

definition value_off :: "tobject \<Rightarrow> nat \<Rightarrow> nat" where
  "value_off ob i = 2 * (unat (OBJ_GetEntryOffset i ob) div 16)"

definition value_entry :: "tobject \<Rightarrow> nat \<Rightarrow> bool" where
  "value_entry ob i = (0 < value_bytes (OBJ_GetEntryDesc ob i) \<and> \<not> odd_bits (OBJ_GetEntryOffset i ob)
     \<and> \<not> entry_outside ob i \<and> (i = 0 \<longrightarrow> objCode ob = OBJCODE_VAR))"

lemma value_types:
  assumes "0 < value_bytes e"
  shows "std_type e \<noteq> 0" "std_type e \<notin> byte_types"
    "(value_bytes e = 2 \<and> std_type e \<in> word_types)
     \<or> (value_bytes e = 4 \<and> std_type e \<notin> word_types \<and> std_type e \<in> dword_types)
     \<or> (value_bytes e = 8 \<and> std_type e \<notin> word_types \<and> std_type e \<notin> dword_types \<and> std_type e \<in> qword_types)"
  using assms by (auto simp: value_bytes_def word_types_def dword_types_def qword_types_def byte_types_def split: if_splits)

lemma read_value_bytes:
  assumes "0 < value_bytes e" "\<not> odd_bits bitOffset"
  shows "read_value e v bitOffset ca b s
    = (Inr (buf_skip b (value_bytes e)), copy_var v (2 * (unat bitOffset div 16)) b (value_bytes e) s)"
  using value_types[OF assms(1)] assms(2) by (auto simp: read_value_def Let_def)

lemma le16_bytes_get16: "le16_bytes (get16 bs i) = [byte_at bs i, byte_at bs (i + 1)]"
proof -
  have "ucast (le16 a b) = a" "ucast (drop_bit 8 (le16 a b)) = b" for a b :: "8 word"
    by (rule bit_word_eqI, auto simp: le16_def bit_simps dest: bit_imp_le_length)+
  then show ?thesis by (simp add: get16_def le16_bytes_def)
qed

lemma get16_pair [simp]: "le16_bytes (get16 [x, y] 0) = [x, y]"
  by (simp add: le16_bytes_get16 byte_at_def)

lemma buf_load16_bytes: "le16_bytes (fst (buf_load16 b s)) = fst (buf_load b 2 s)" "snd (buf_load16 b s) = snd (buf_load b 2 s)"
  by (simp_all add: buf_load16_def buf_load_def case_prod_unfold Let_def upt_rec)

lemma var_load16_state: "snd (var_load16 v off s) = note_fault (length (var_bytes v s) < off + 2) s"
  by (rule var_load16_notes)

lemma var_load16_value: "fst (var_load16 v off s) = get16 (var_bytes v s) off"
  by (simp add: var_load16_def var_load_def Let_def get16_def byte_at_def upt_rec)

definition si0 :: "tobject \<Rightarrow> 'z sdo_scheme \<Rightarrow> nat" where
  "si0 ob s = unat (get16 (var_bytes (pVarPtr ob) s) 0 AND 0xFF)"

lemma load_si0:
  "2 \<le> length (var_bytes (pVarPtr ob) s) \<Longrightarrow> var_load16 (pVarPtr ob) 0 s = (get16 (var_bytes (pVarPtr ob) s) 0, s)"
  by (simp add: prod_eq_iff var_load16_state var_load16_value)

lemma read_single_value:
  assumes "value_entry ob (unat subindex)" "read_rights (OBJ_GetEntryDesc ob (unat subindex)) s" "0x1000 \<le> index"
    and "ObjRead ob = None" "pAPPL_CoeReadInd u = None" "2 \<le> length (var_bytes (pVarPtr ob) s)"
    and "unat subindex \<le> (if objCode ob = OBJCODE_VAR then flagsMaxSubindex ob else si0 ob s)"
  shows "OBJ_Read u index subindex n ob b False s
    = (0, copy_var (pVarPtr ob) (value_off ob (unat subindex)) b (value_bytes (OBJ_GetEntryDesc ob (unat subindex))) s)"
proof -
  let ?i = "unat subindex" and ?e = "OBJ_GetEntryDesc ob (unat subindex)"
  have e: "0 < value_bytes ?e" "\<not> odd_bits (OBJ_GetEntryOffset ?i ob)" "\<not> entry_outside ob ?i" "?i = 0 \<longrightarrow> objCode ob = OBJCODE_VAR"
    using assms(1) by (simp_all add: value_entry_def)
  have o: "(if ?i = 0 then 0 else OBJ_GetEntryOffset ?i ob) = OBJ_GetEntryOffset ?i ob"
    using e(4) by (simp add: OBJ_GetEntryOffset_def)
  have "ObjAccess ?e \<noteq> 0" using assms(2) by (auto simp: read_rights_def)
  moreover have "read_loop index ?i ob m False [?i..<?i + 1] b False 0 s
      = (0, copy_var (pVarPtr ob) (value_off ob ?i) b (value_bytes ?e) s)" for m
    using e assms(2,3) read_value_bytes[OF e(1,2), of "pVarPtr ob" False b s] o[symmetric]
    by (cases "?i = 0") (simp_all add: Let_def value_off_def)
  ultimately show ?thesis
    using e(3) assms(2-5,7) load_si0[OF assms(6)]
    by (cases "objCode ob = OBJCODE_VAR")
      (simp_all add: OBJ_Read_def Let_def si0_def coe_ind_def not_less[symmetric] del: read_loop.simps upt_Suc)
qed

section \<open>Buffers\<close>

abbreviation buf_live :: "buf \<Rightarrow> nat \<Rightarrow> 'z mach_scheme \<Rightarrow> bool" where
  "buf_live b n s \<equiv> live (mem s) (fst b) (snd b + n)"

definition buf_bytes :: "buf \<Rightarrow> nat \<Rightarrow> 'z mach_scheme \<Rightarrow> 8 word list" where
  "buf_bytes b n s = fst (buf_load b n s)"

lemma length_buf_bytes [simp]: "length (buf_bytes b n s) = n"
  by (simp add: buf_bytes_def buf_load_def case_prod_unfold)

lemma buf_load_live: "buf_live b n s \<Longrightarrow> buf_load b n s = (buf_bytes b n s, s)"
  by (simp add: buf_bytes_def) (simp add: buf_load_def case_prod_unfold)

lemma buf_load_store:
  assumes "buf_live b (length d) s"
  shows "buf_bytes b (length d) (buf_store b d s) = d"
proof -
  obtain p off where b: "b = (p, off)" by force
  obtain bs where bs: "heap (mem s) p = Some bs" "off + length d \<le> length bs"
    using assms by (auto simp: b live_def split: option.splits)
  have "m_block p (mem (buf_store b d s)) = put_bytes off d bs"
    using bs by (simp add: b buf_store_def mem_write_def m_write_def m_block_def)
  then show ?thesis
    using bs by (auto simp: b buf_bytes_def buf_load_def byte_at_put_bytes intro: nth_equalityI)
qed

lemma var_load_fits:
  "off + n \<le> length (var_bytes v s) \<Longrightarrow> var_load v off n s = (get_bytes (var_bytes v s) off n, s)"
  by (auto simp: var_load_def Let_def get_bytes_def byte_at_def intro: nth_equalityI)

end
