(* ===== verification/ObjBounds.thy ===== *)
theory ObjBounds
  imports ObjIo
begin

text \<open>
  The bounds of a single read: an entry of this slave's dictionary lies inside its variable, and a
  buffer of the length \<open>OBJ_GetObjectLength\<close> announces, rounded up to whole words, is enough.
\<close>

unbundle bit_operations_syntax

section \<open>Reads without faults\<close>

definition faulted :: "'z mach_scheme \<Rightarrow> bool" where
  "faulted s = mem_fault (mem s)"

lemma faulted_simps [simp]:
  "faulted (note_fault b s) = (faulted s \<or> b)" "faulted (s\<lparr>obj_vars := f\<rparr>) = faulted s"
  by (simp_all add: faulted_def note_fault_def)

lemma faulted_store: "buf_live b (length d) s \<Longrightarrow> faulted (buf_store b d s) = faulted s"
  by (auto simp: faulted_def buf_store_def mem_write_def m_write_def live_def case_prod_unfold split: option.splits)

lemma var_bytes_mem [simp]: "var_bytes v (s\<lparr>mem := m\<rparr>) = var_bytes v s"
  by (cases v) simp_all

lemma store_frame [simp]:
  "live (mem (buf_store b d s)) p n = live (mem s) p n" "var_bytes v (buf_store b d t) = var_bytes v t"
  by (auto simp: buf_store_def mem_write_def m_write_def live_def case_prod_unfold split: option.splits)

lemma put16_frame [simp]:
  "live (mem (buf_put16 b w s)) p n = live (mem s) p n" "var_bytes v (buf_put16 b w t) = var_bytes v t"
  by (simp_all add: buf_put16_def)

lemma faulted_put16: "buf_live b 2 s \<Longrightarrow> faulted (buf_put16 b w s) = faulted s"
  by (simp add: buf_put16_def faulted_store)

lemma load16_live: "buf_live b 2 s \<Longrightarrow> snd (buf_load16 b s) = s"
  by (simp add: buf_load16_bytes(2) buf_load_live)

lemma var_load16_live: "off + 2 \<le> length (var_bytes v s) \<Longrightarrow> snd (var_load16 v off s) = s"
  by (simp add: var_load16_notes)

lemma copy_var_fits:
  assumes "off + n \<le> length (var_bytes v s)" "buf_live b n s"
  shows "faulted (copy_var v off b n s) = faulted s" "live (mem (copy_var v off b n s)) p k = live (mem s) p k"
  using assms var_load_fits[OF assms(1)] faulted_store[where b = b and d = "get_bytes (var_bytes v s) off n" and s = s]
  by (simp_all add: copy_var_def)

definition touched :: "entry_desc \<Rightarrow> nat" where
  "touched e = (if std_type e \<in> byte_types then 2
     else if std_type e \<in> block_types \<union> {0x09} then BIT2BYTE (BitLength e) else value_bytes e)"

definition room :: "entry_desc \<Rightarrow> nat" where
  "room e = (if std_type e \<in> byte_types then 2
     else if std_type e \<in> block_types \<union> {0x09} then 2 * ((unat (BitLength e) + 15) div 16) else value_bytes e)"

lemma odd_bits_mod: "odd_bits w = (unat w mod 16 \<noteq> 0)"
proof -
  have "w AND 0xF = take_bit 4 w" by (simp add: take_bit_eq_mask mask_eq_exp_minus_1)
  then show ?thesis by (simp add: odd_bits_def unat_eq_zero[symmetric] unsigned_take_bit_eq take_bit_eq_mod unat_mod)
qed

lemma other_types:
  "x \<in> block_types \<union> {0x09} \<Longrightarrow> x \<noteq> 0 \<and> x \<notin> byte_types \<and> x \<notin> word_types \<and> x \<notin> dword_types \<and> x \<notin> qword_types"
  by (auto simp: block_types_def byte_types_def word_types_def dword_types_def qword_types_def)

lemma round_up_16: "(x :: nat) mod 16 \<noteq> 0 \<Longrightarrow> 2 * (x div 16) + 2 \<le> 2 * ((x + 15) div 16)"
proof -
  define q r where "q = x div 16" and "r = x mod 16"
  assume "x mod 16 \<noteq> 0"
  then have x: "x = 16 * q + r" "0 < r" by (simp_all add: q_def r_def)
  then have "16 * (q + 1) \<le> x + 15" by simp
  then have "q + 1 \<le> (x + 15) div 16" using div_le_mono[of "16 * (q + 1)" "x + 15" 16] by simp
  then show ?thesis by (simp add: q_def)
qed

lemma read_value_safe:
  assumes "std_type e \<in> byte_types \<Longrightarrow> unat (BitLength e) < 16"
    and "2 * (unat bo div 16) + touched e \<le> length (var_bytes v s)" "buf_live b (room e) s"
  shows "faulted (snd (read_value e v bo False b s)) = faulted s"
proof -
  let ?off = "2 * (unat bo div 16)" and ?n = "BIT2BYTE (BitLength e)"
  consider "std_type e = 0" | "std_type e \<in> byte_types" | "0 < value_bytes e"
    | "std_type e \<in> block_types \<union> {0x09}" | "std_type e \<noteq> 0" "std_type e \<notin> byte_types" "value_bytes e = 0" "std_type e \<notin> block_types \<union> {0x09}"
    by blast
  then show ?thesis
  proof cases
    case 1
    then show ?thesis by (simp add: read_value_def)
  next
    case 2
    then have z: "std_type e \<noteq> 0" by (auto simp: byte_types_def)
    have "buf_live b 2 s" "?off + 2 \<le> length (var_bytes v s)" using assms 2 by (simp_all add: touched_def room_def)
    then show ?thesis using assms(1)[OF 2] 2 z
      by (simp add: read_value_def Let_def case_prod_unfold load16_live var_load16_live faulted_put16)
  next
    case 3
    then have t: "touched e = value_bytes e" "room e = value_bytes e"
      using value_types[OF 3] other_types by (auto simp: touched_def room_def)
    show ?thesis
    proof (cases "odd_bits bo")
      case True
      have "std_type e \<in> word_types \<union> dword_types \<union> qword_types" using value_types(3)[OF 3] by blast
      then show ?thesis using True value_types(1,2)[OF 3] by (simp add: read_value_def Let_def)
    next
      case False
      show ?thesis using read_value_bytes[OF 3 False, of v False b s] copy_var_fits(1)[of ?off "value_bytes e" v s b] assms(2,3) t
        by simp
    qed
  next
    case 4
    then have z: "std_type e \<noteq> 0" "std_type e \<notin> byte_types" "std_type e \<notin> word_types" "std_type e \<notin> dword_types" "std_type e \<notin> qword_types"
      using other_types by auto
    have r: "room e = 2 * ((unat (BitLength e) + 15) div 16)" "touched e = ?n" using 4 z by (simp_all add: room_def touched_def)
    have le: "?n \<le> room e" unfolding r BIT2BYTE_def by linarith
    have lv: "buf_live b ?n s" by (rule live_mono[OF assms(3)]) (use le in simp)
    have c: "faulted (copy_var v ?off b ?n s) = faulted s" "buf_live b (room e) (copy_var v ?off b ?n s)"
      using copy_var_fits[OF _ lv] assms(2,3) r(2) by simp_all
    have m: "fst (buf_skip b k) = fst b" "snd (buf_skip b k) = snd b + k" for k by (simp_all add: buf_skip_def)
    have "buf_live (buf_skip b (2 * (unat (BitLength e) div 16))) 2 (copy_var v ?off b ?n s)" if "odd_bits (BitLength e)"
    proof -
      have "unat (BitLength e) mod 16 \<noteq> 0" using that by (simp add: odd_bits_mod)
      then have "snd b + 2 * (unat (BitLength e) div 16) + 2 \<le> snd b + room e" unfolding r using round_up_16 by simp
      then show ?thesis unfolding m by (rule live_mono[OF c(2)])
    qed
    then have "faulted (if odd_bits (BitLength e) then buf_mask8 (buf_skip b (2 * (unat (BitLength e) div 16))) (copy_var v ?off b ?n s)
        else copy_var v ?off b ?n s) = faulted s"
      using c(1) by (simp add: buf_mask8_def case_prod_unfold Let_def load16_live faulted_put16)
    then show ?thesis using z 4 by (cases "odd_bits bo") (simp_all add: read_value_def Let_def)
  next
    case 5
    then have "std_type e \<notin> word_types" "std_type e \<notin> dword_types" "std_type e \<notin> qword_types"
      by (simp_all add: value_bytes_def split: if_splits)
    then show ?thesis using 5 by (simp add: read_value_def Let_def)
  qed
qed

section \<open>The entries of the dictionary\<close>

definition single_length :: "tobject \<Rightarrow> nat \<Rightarrow> nat" where
  "single_length ob i =
    (if objCode ob = OBJCODE_VAR then BIT2BYTE (BitLength (entry_at ob 0))
     else if i = 0 then 1 else BIT2BYTE (BitLength (OBJ_GetEntryDesc ob i)))"

definition var_size :: "varref \<Rightarrow> nat" where
  "var_size v = (case v of PlainVar k \<Rightarrow> length (rmcs_obj_vars k) | SmOutPar \<Rightarrow> 61 | SmInPar \<Rightarrow> 61
     | ErrSettings \<Rightarrow> 8 | TimeStampVar \<Rightarrow> 8 | EnumTexts ts \<Rightarrow> 0)"

definition entry_fits :: "tobject \<Rightarrow> nat \<Rightarrow> bool" where
  "entry_fits ob i =
    (let e = OBJ_GetEntryDesc ob i in
     \<not> entry_outside ob i
     \<and> (i = 0 \<and> objCode ob \<noteq> OBJCODE_VAR
        \<or> (std_type e \<in> byte_types \<longrightarrow> unat (BitLength e) < 16)
          \<and> value_off ob i + touched e \<le> var_size (pVarPtr ob) \<and> room e \<le> 2 * ((single_length ob i + 1) div 2)))"

definition sync_error_entry :: "16 word \<Rightarrow> nat \<Rightarrow> bool" where
  "sync_error_entry index i = ((index = 0x1C32 \<or> index = 0x1C33) \<and> i = 32)"

definition object_fits :: "tobject \<Rightarrow> bool" where
  "object_fits ob = list_all (\<lambda>i. entry_fits ob i \<or> sync_error_entry (Index ob) i) [0..<flagsMaxSubindex ob + 1]"

text \<open>The entries behind subindex 0, and their offsets in bits.\<close>

definition ents :: "tobject \<Rightarrow> entry_desc list" where
  "ents ob = (if objCode ob = OBJCODE_ARR then replicate (flagsMaxSubindex ob) (entry_at ob 1) else tl (pEntryDesc ob))"

definition bits_before :: "tobject \<Rightarrow> nat \<Rightarrow> nat" where
  "bits_before ob i = 16 + sum_list (map (unat \<circ> entry_width) (take (i - 1) (ents ob)))"

lemma ents_nth:
  assumes "0 < i" "i \<le> length (ents ob)"
  shows "OBJ_GetEntryDesc ob i = ents ob ! (i - 1)"
  using assms by (auto simp: ents_def OBJ_GetEntryDesc_def entry_ix_def entry_at_def nth_tl)

lemma offset_fold:
  assumes "k < i" "i \<le> length (ents ob)"
  shows "fold (\<lambda>j off. if j < i then off + entry_width (entry_at ob (if objCode ob = OBJCODE_ARR then 1 else j)) else off)
      [1..<Suc k] (16 :: 16 word) = of_nat (16 + sum_list (map (unat \<circ> entry_width) (take k (ents ob))))"
  using assms
proof (induction k)
  case (Suc k)
  have "OBJ_GetEntryDesc ob (Suc k) = ents ob ! k" using ents_nth[of "Suc k" ob] Suc.prems by simp
  then have "entry_at ob (if objCode ob = OBJCODE_ARR then 1 else Suc k) = ents ob ! k"
    by (simp add: OBJ_GetEntryDesc_def entry_ix_def split: if_splits)
  moreover have "take (Suc k) (ents ob) = take k (ents ob) @ [ents ob ! k]"
    using Suc.prems by (simp add: take_Suc_conv_app_nth)
  ultimately show ?case using Suc.IH Suc.prems by (simp add: upt_Suc_append[of 1 "Suc k"] del: upt_Suc One_nat_def)
qed simp

lemma entry_offset:
  assumes "0 < i" "i \<le> length (ents ob)" "objCode ob \<noteq> OBJCODE_VAR"
  shows "OBJ_GetEntryOffset i ob = of_nat (bits_before ob i)"
proof -
  have "[1..<i + 1] = [1..<Suc (i - 1)] @ [i]" using assms(1) by (cases i) simp_all
  then show ?thesis
    using offset_fold[of "i - 1" i ob] assms by (simp add: OBJ_GetEntryOffset_def bits_before_def Let_def del: upt_Suc One_nat_def)
qed

text \<open>A check of an object that walks its entries once.\<close>

definition desc_fits :: "entry_desc \<Rightarrow> nat \<Rightarrow> nat \<Rightarrow> bool" where
  "desc_fits e bits sz = ((std_type e \<in> byte_types \<longrightarrow> unat (BitLength e) < 16)
     \<and> 2 * (bits div 16) + touched e \<le> sz \<and> room e \<le> 2 * ((BIT2BYTE (BitLength e) + 1) div 2))"

fun bad_entries :: "(entry_desc \<Rightarrow> nat \<Rightarrow> bool) \<Rightarrow> nat \<Rightarrow> entry_desc list \<Rightarrow> nat \<Rightarrow> nat list" where
  "bad_entries P i [] bits = []"
| "bad_entries P i (e # es) bits =
    (if P e bits \<and> bits < 65536 then bad_entries P (i + 1) es (bits + unat (entry_width e))
     else i # bad_entries P (i + 1) es (bits + unat (entry_width e)))"

lemma bad_entries_sound:
  assumes "k < length es" "i + k \<notin> set (bad_entries P i es bits)"
  shows "P (es ! k) (bits + sum_list (map (unat \<circ> entry_width) (take k es)))
    \<and> bits + sum_list (map (unat \<circ> entry_width) (take k es)) < 65536"
  using assms
proof (induction es arbitrary: i k bits)
  case (Cons e es)
  show ?case
  proof (cases k)
    case 0
    then show ?thesis using Cons.prems by (auto split: if_splits)
  next
    case (Suc j)
    then have "i + 1 + j \<notin> set (bad_entries P (i + 1) es (bits + unat (entry_width e)))" "j < length es"
      using Cons.prems by (auto split: if_splits)
    from Cons.IH[OF this(2,1)] show ?thesis by (simp add: Suc add.assoc)
  qed
qed simp

text \<open>The result lists the subindices whose entries fail the test \<open>P\<close>.\<close>

definition entries_check :: "(entry_desc \<Rightarrow> nat \<Rightarrow> bool) \<Rightarrow> 16 word \<Rightarrow> nat \<Rightarrow> entry_desc list \<Rightarrow> nat list option" where
  "entries_check P code m ds =
    (if code = OBJCODE_VAR then (if m = 0 \<and> ds \<noteq> [] \<and> P (ds ! 0) 0 then Some [] else None)
     else if ds = [] \<or> code = OBJCODE_ARR \<and> length ds < 2 then None
     else let es = (if code = OBJCODE_ARR then replicate m (ds ! 1) else tl ds) in
          if length es < m then None else Some (bad_entries P 1 es 16))"

abbreviation check_object :: "(entry_desc \<Rightarrow> nat \<Rightarrow> bool) \<Rightarrow> tobject \<Rightarrow> nat list option" where
  "check_object P ob \<equiv> entries_check P (objCode ob) (flagsMaxSubindex ob) (pEntryDesc ob)"

lemma check_object_entry:
  assumes "check_object P ob = Some bad" "i \<le> flagsMaxSubindex ob" "i \<notin> set bad"
  shows "\<not> entry_outside ob i \<and> (i = 0 \<and> objCode ob \<noteq> OBJCODE_VAR
    \<or> P (OBJ_GetEntryDesc ob i) (unat (OBJ_GetEntryOffset i ob)) \<and> (objCode ob \<noteq> OBJCODE_VAR \<longrightarrow> 16 \<le> unat (OBJ_GetEntryOffset i ob)))"
proof (cases "objCode ob = OBJCODE_VAR")
  case True
  then have "i = 0" "pEntryDesc ob \<noteq> []" "P (pEntryDesc ob ! 0) 0"
    using assms(1,2) by (auto simp: entries_check_def split: if_splits)
  then show ?thesis using True
    by (simp add: OBJ_GetEntryOffset_def OBJ_GetEntryDesc_def entry_ix_def entry_outside_def entry_at_def)
next
  case False
  have len: "flagsMaxSubindex ob \<le> length (ents ob)" and bad: "bad = bad_entries P 1 (ents ob) 16"
    and ds: "pEntryDesc ob \<noteq> []" "objCode ob = OBJCODE_ARR \<longrightarrow> 2 \<le> length (pEntryDesc ob)"
    using assms(1) False by (auto simp: entries_check_def ents_def entry_at_def Let_def split: if_splits)
  have out: "\<not> entry_outside ob i"
    using len ds assms(2) by (auto simp: entry_outside_def entry_ix_def ents_def split: if_splits)
  show ?thesis
  proof (cases "i = 0")
    case True
    then show ?thesis using False out by simp
  next
    case i0: False
    have il: "i \<le> length (ents ob)" using assms(2) len by simp
    note D = ents_nth[OF _ il] and O = entry_offset[OF _ il False]
    have S: "P (ents ob ! (i - 1)) (bits_before ob i) \<and> bits_before ob i < 65536"
      using bad_entries_sound[of "i - 1" "ents ob" 1 P 16] i0 il bad assms(3)
      by (simp add: bits_before_def del: One_nat_def)
    then have "unat (OBJ_GetEntryOffset i ob) = bits_before ob i"
      using O i0 by (simp add: unat_of_nat take_bit_nat_eq_self)
    moreover have "16 \<le> bits_before ob i" by (simp add: bits_before_def)
    ultimately show ?thesis using S D i0 out by simp
  qed
qed

abbreviation fits_var :: "varref \<Rightarrow> entry_desc \<Rightarrow> nat \<Rightarrow> bool" where
  "fits_var v \<equiv> \<lambda>e bits. desc_fits e bits (var_size v)"

lemma check_object_fits:
  assumes "check_object (fits_var (pVarPtr ob)) ob = Some bad" "set bad \<subseteq> {i. sync_error_entry (Index ob) i}"
  shows "object_fits ob"
  unfolding object_fits_def list_all_iff
proof
  fix i assume "i \<in> set [0..<flagsMaxSubindex ob + 1]"
  then have i: "i \<le> flagsMaxSubindex ob" by auto
  show "entry_fits ob i \<or> sync_error_entry (Index ob) i"
  proof (cases "i \<in> set bad")
    case True
    then show ?thesis using assms(2) by auto
  next
    case False
    have "i = 0" if "objCode ob = OBJCODE_VAR"
      using assms(1) i that by (auto simp: entries_check_def split: if_splits)
    then show ?thesis using check_object_entry[OF assms(1) i False]
      by (auto simp: entry_fits_def Let_def desc_fits_def value_off_def single_length_def OBJ_GetEntryDesc_def entry_ix_def)
  qed
qed

text \<open>Typing: an entry that can be accessed has a type the server knows, and all types but the bit types
  lie at a whole word.\<close>

definition desc_typed :: "entry_desc \<Rightarrow> nat \<Rightarrow> bool" where
  "desc_typed e bits =
    (if std_type e = 0 then ObjAccess e = 0
     else std_type e \<in> byte_types
       \<or> std_type e \<in> word_types \<union> dword_types \<union> qword_types \<union> block_types \<union> {0x09} \<and> bits mod 16 = 0)"

definition object_typed :: "tobject \<Rightarrow> bool" where
  "object_typed ob = list_all (\<lambda>i. \<not> entry_outside ob i \<and> (i = 0 \<and> objCode ob \<noteq> OBJCODE_VAR
     \<or> desc_typed (OBJ_GetEntryDesc ob i) (unat (OBJ_GetEntryOffset i ob))
       \<and> (objCode ob \<noteq> OBJCODE_VAR \<longrightarrow> 16 \<le> unat (OBJ_GetEntryOffset i ob)))) [0..<flagsMaxSubindex ob + 1]"

lemma check_object_typed: "check_object desc_typed ob = Some [] \<Longrightarrow> object_typed ob"
  using check_object_entry[of desc_typed ob "[]"] by (auto simp: object_typed_def list_all_iff)

lemma object_sel [simp]:
  "Index (object ix ty m code ds nm v) = ix" "pEntryDesc (object ix ty m code ds nm v) = ds" "pVarPtr (object ix ty m code ds nm v) = v"
  by (simp_all add: object_def)

lemma desc_widths [simp]:
  "entry_width (desc 0 n a) = n" "entry_width (desc 1 n a) = n" "entry_width (desc 5 n a) = n" "entry_width (desc 9 n a) = n"
  "entry_width (desc 6 n a) = 16" "entry_width (desc 7 n a) = 32" "entry_width (desc 0x1B n a) = 64"
  by (simp_all add: entry_width_def desc_def)

lemma desc_fits_simps [simp]:
  "desc_fits (desc 0 n a) bits sz = (2 * (bits div 16) \<le> sz)"
  "desc_fits (desc 6 0x10 a) bits sz = (2 * (bits div 16) + 2 \<le> sz)"
  "desc_fits (desc 7 0x20 a) bits sz = (2 * (bits div 16) + 4 \<le> sz)"
  "desc_fits (desc 0x1B 0x40 a) bits sz = (2 * (bits div 16) + 8 \<le> sz)"
  "desc_fits (desc 5 8 a) bits sz = (2 * (bits div 16) + 2 \<le> sz)"
  "desc_fits (desc 1 1 a) bits sz = (2 * (bits div 16) + 2 \<le> sz)"
  "desc_fits (desc 9 80 a) bits sz = (2 * (bits div 16) + 10 \<le> sz)"
  "desc_fits (desc 9 88 a) bits sz = (2 * (bits div 16) + 11 \<le> sz)"
  "desc_fits (desc 9 24 a) bits sz = (2 * (bits div 16) + 3 \<le> sz)"
  by (simp_all add: desc_fits_def touched_def room_def value_bytes_def std_type_def desc_def byte_types_def word_types_def
      dword_types_def qword_types_def block_types_def BIT2BYTE_def)

lemma std_types:
  "std_type (desc 0 n a) = 0" "std_type (desc 1 n a) = 1" "std_type (desc 5 n a) = 5" "std_type (desc 6 n a) = 6"
  "std_type (desc 7 n a) = 7" "std_type (desc 9 n a) = 9" "std_type (desc 0x1B n a) = 0x1B"
  by (simp_all add: std_type_def desc_def word_le_nat_alt)

lemma desc_access: "ObjAccess (desc t n a) = a"
  by (simp add: desc_def)

lemma desc_typed_simps [simp]:
  "desc_typed (desc 0 n a) bits = (a = 0)" "desc_typed (desc 1 n a) bits" "desc_typed (desc 5 n a) bits"
  "desc_typed (desc 6 n a) bits = (bits mod 16 = 0)" "desc_typed (desc 7 n a) bits = (bits mod 16 = 0)"
  "desc_typed (desc 9 n a) bits = (bits mod 16 = 0)" "desc_typed (desc 0x1B n a) bits = (bits mod 16 = 0)"
  by (simp_all add: desc_typed_def std_types byte_types_def word_types_def dword_types_def qword_types_def desc_access)

lemma check_sm:
  "entries_check (\<lambda>e bits. desc_fits e bits 61) OBJCODE_REC 32 asEntryDesc0x1C3x = Some [32]"
  "entries_check desc_typed OBJCODE_REC 32 asEntryDesc0x1C3x = Some []"
  by (simp_all add: entries_check_def asEntryDesc0x1C3x_def)

lemma object_shapes [simp]:
  "objCode (object ix ty 0 7 ds nm v) = 7" "flagsMaxSubindex (object ix ty 0 7 ds nm v) = 0"
  "objCode (object ix ty 1 8 ds nm v) = 8" "flagsMaxSubindex (object ix ty 1 8 ds nm v) = 1"
  "objCode (object ix ty 4 8 ds nm v) = 8" "flagsMaxSubindex (object ix ty 4 8 ds nm v) = 4"
  "objCode (object ix ty 12 8 ds nm v) = 8" "flagsMaxSubindex (object ix ty 12 8 ds nm v) = 12"
  "objCode (object ix ty 2 9 ds nm v) = 9" "flagsMaxSubindex (object ix ty 2 9 ds nm v) = 2"
  "objCode (object ix ty 4 9 ds nm v) = 9" "flagsMaxSubindex (object ix ty 4 9 ds nm v) = 4"
  "objCode (object ix ty 12 9 ds nm v) = 9" "flagsMaxSubindex (object ix ty 12 9 ds nm v) = 12"
  "objCode (object ix ty 32 9 ds nm v) = 9" "flagsMaxSubindex (object ix ty 32 9 ds nm v) = 32"
  by (simp_all add: object_def objCode_def flagsMaxSubindex_def)

lemma object_flags_read [simp]: "objCode (ob\<lparr>ObjRead := f\<rparr>) = objCode ob" "flagsMaxSubindex (ob\<lparr>ObjRead := f\<rparr>) = flagsMaxSubindex ob"
  by (simp_all add: objCode_def flagsMaxSubindex_def)

lemma var_sizes [simp]:
  "var_size (PlainVar 0) = 4" "var_size (PlainVar 1) = 2" "var_size (PlainVar 2) = 11" "var_size (PlainVar 3) = 12"
  "var_size (PlainVar 4) = 4" "var_size (PlainVar 5) = 18" "var_size (PlainVar 6) = 6" "var_size (PlainVar 7) = 50"
  "var_size (PlainVar 8) = 50" "var_size (PlainVar 9) = 4" "var_size (PlainVar 10) = 4" "var_size (PlainVar 11) = 50"
  "var_size (PlainVar 12) = 50" "var_size (PlainVar 13) = 6"
  "var_size SmOutPar = 61" "var_size SmInPar = 61" "var_size ErrSettings = 8" "var_size TimeStampVar = 8"
  by (simp_all add: var_size_def rmcs_obj_vars_def ascii_def le16_bytes_def le32_bytes_def upt_rec)

lemma replicates: "replicate 1 x = [x]" "replicate 4 x = [x, x, x, x]" "replicate 12 x = [x, x, x, x, x, x, x, x, x, x, x, x]"
  by (simp_all add: numeral_eq_Suc)

lemmas object_tables = replicates sEntryDesc0x1000_def sEntryDesc0x1001_def sEntryDesc0x1008_def sEntryDesc0x1009_def sEntryDesc0x100A_def
  asEntryDesc0x1018_def asEntryDesc0x10F1_def sEntryDesc0x10F8_def asEntryDesc0x1C00_def asEntryDesc0x1600_def asEntryDesc0x1A00_def
  asEntryDesc0x1C12_def asEntryDesc0x1C13_def asEntryDesc0x6000_def asEntryDesc0x7010_def asEntryDesc0xF000_def

lemma objects_fit:
  assumes "ob \<in> set (GenObjDic_objects @ ApplicationObjDic_objects)" "Index ob \<noteq> 0xFFFF"
  shows "object_fits ob"
proof -
  have sm: "object_fits (object ix ty 32 OBJCODE_REC asEntryDesc0x1C3x nm v)"
    if "ix = 0x1C32 \<or> ix = 0x1C33" "var_size v = 61" for ix ty nm v
    by (rule check_object_fits[of _ "[32]"]) (use that check_sm in \<open>auto simp: sync_error_entry_def\<close>)
  have "list_all (\<lambda>ob. Index ob = 0xFFFF \<or> object_fits ob) GenObjDic_objects"
    unfolding GenObjDic_objects_def end_of_objects_def list.pred_inject
    by (intro conjI; (simp add: sm del: One_nat_def)?; rule check_object_fits[of _ "[]"];
        simp add: entries_check_def object_tables del: One_nat_def)
  moreover have "list_all (\<lambda>ob. Index ob = 0xFFFF \<or> object_fits ob) ApplicationObjDic_objects"
    unfolding ApplicationObjDic_objects_def end_of_objects_def list.pred_inject
    by (intro conjI; (simp del: One_nat_def)?; rule check_object_fits[of _ "[]"];
        simp add: entries_check_def object_tables del: One_nat_def)
  ultimately show ?thesis using assms by (auto simp: list_all_iff)
qed

lemma objects_typed:
  assumes "ob \<in> set (GenObjDic_objects @ ApplicationObjDic_objects)" "Index ob \<noteq> 0xFFFF"
  shows "object_typed ob"
proof -
  have sm: "object_typed (object ix ty 32 OBJCODE_REC asEntryDesc0x1C3x nm v)" for ix ty nm v
    by (rule check_object_typed) (simp add: check_sm)
  have "list_all (\<lambda>ob. Index ob = 0xFFFF \<or> object_typed ob) GenObjDic_objects"
    unfolding GenObjDic_objects_def end_of_objects_def list.pred_inject
    by (intro conjI; (simp add: sm del: One_nat_def)?; rule check_object_typed;
        simp add: entries_check_def object_tables del: One_nat_def)
  moreover have "list_all (\<lambda>ob. Index ob = 0xFFFF \<or> object_typed ob) ApplicationObjDic_objects"
    unfolding ApplicationObjDic_objects_def end_of_objects_def list.pred_inject
    by (intro conjI; (simp del: One_nat_def)?; rule check_object_typed;
        simp add: entries_check_def object_tables del: One_nat_def)
  ultimately show ?thesis using assms by (auto simp: list_all_iff)
qed

text \<open>Subindex 0 of a variable counts the entries the object describes.\<close>

definition var_count :: "varref \<Rightarrow> nat" where
  "var_count v = (case v of PlainVar k \<Rightarrow> unat (byte_at (rmcs_obj_vars k) 0) | SmOutPar \<Rightarrow> 32 | SmInPar \<Rightarrow> 32
     | ErrSettings \<Rightarrow> 2 | TimeStampVar \<Rightarrow> 0 | EnumTexts ts \<Rightarrow> 0)"

definition object_counts :: "tobject \<Rightarrow> bool" where
  "object_counts ob = (0x1000 \<le> Index ob
     \<and> (if objCode ob = OBJCODE_VAR then flagsMaxSubindex ob = 0
        else pVarPtr ob \<noteq> TimeStampVar \<and> 2 \<le> var_size (pVarPtr ob) \<and> var_count (pVarPtr ob) \<le> flagsMaxSubindex ob)
     \<and> ObjWrite ob = None \<and> (if ObjRead ob = None then True
        else pVarPtr ob = TimeStampVar \<and> ObjRead ob = Some FnRead0x10F8 \<and> Index ob = 0x10F8 \<and> objCode ob = OBJCODE_VAR \<and> BitLength (entry_at ob 0) = 0x40))"

lemma var_counts [simp]:
  "var_count (PlainVar 5) = 4" "var_count (PlainVar 6) = 4" "var_count (PlainVar 7) = 12"
  "var_count (PlainVar 8) = 12" "var_count (PlainVar 9) = 1" "var_count (PlainVar 10) = 1" "var_count (PlainVar 11) = 12"
  "var_count (PlainVar 12) = 12" "var_count (PlainVar 13) = 2"
  "var_count SmOutPar = 32" "var_count SmInPar = 32" "var_count ErrSettings = 2" "var_count TimeStampVar = 0"
  by (simp_all add: var_count_def rmcs_obj_vars_def le16_bytes_def byte_at_def del: One_nat_def)

lemma object_read [simp]: "ObjRead (object ix ty m code ds nm v) = None" "ObjWrite (object ix ty m code ds nm v) = None"
  by (simp_all add: object_def)

lemma objects_count:
  assumes "ob \<in> set (GenObjDic_objects @ ApplicationObjDic_objects)" "Index ob \<noteq> 0xFFFF"
  shows "object_counts ob"
proof -
  have "list_all (\<lambda>ob. Index ob = 0xFFFF \<or> object_counts ob) GenObjDic_objects"
    unfolding GenObjDic_objects_def end_of_objects_def list.pred_inject
    by (simp add: object_counts_def entry_at_def sEntryDesc0x10F8_def desc_def del: One_nat_def)
  moreover have "list_all (\<lambda>ob. Index ob = 0xFFFF \<or> object_counts ob) ApplicationObjDic_objects"
    unfolding ApplicationObjDic_objects_def end_of_objects_def list.pred_inject
    by (simp add: object_counts_def del: One_nat_def)
  ultimately show ?thesis using assms by (auto simp: list_all_iff)
qed

section \<open>Reading a single entry\<close>

definition obj_length :: "8 word \<Rightarrow> tobject \<Rightarrow> 'z sdo_scheme \<Rightarrow> nat" where
  "obj_length subindex ob s = unat (fst (OBJ_GetObjectLength subindex ob False s))"

lemma bits_to_bytes_unat: "unat (bits_to_bytes (ucast (w :: 16 word))) = BIT2BYTE w"
proof -
  have w: "unat w < 2 ^ 16" using unsigned_less[of w] by simp
  then have "unat (ucast w :: 32 word) = unat w" by (simp add: unsigned_ucast_eq take_bit_nat_eq_self)
  then have "unat ((ucast w :: 32 word) + 7) = unat w + 7" using w by (simp add: unat_word_ariths)
  then show ?thesis
    by (simp add: bits_to_bytes_def BIT2BYTE_def drop_bit_eq_div unat_div_distrib)
qed

lemma obj_length_single:
  assumes "unat subindex \<le> flagsMaxSubindex ob" "objCode ob = OBJCODE_VAR \<longrightarrow> flagsMaxSubindex ob = 0"
  shows "obj_length subindex ob s = single_length ob (unat subindex)"
proof -
  consider "objCode ob = OBJCODE_VAR" | "objCode ob \<noteq> OBJCODE_VAR" "subindex = 0" | "objCode ob \<noteq> OBJCODE_VAR" "subindex \<noteq> 0"
    by blast
  then show ?thesis
  proof cases
    case 3
    then have "unat subindex \<noteq> 0" by (simp add: unat_eq_zero)
    then show ?thesis using 3 assms(1)
      by (simp add: obj_length_def OBJ_GetObjectLength_def Let_def single_length_def OBJ_GetEntryDesc_def entry_ix_def bits_to_bytes_unat)
  qed (simp_all add: obj_length_def OBJ_GetObjectLength_def Let_def single_length_def bits_to_bytes_unat)
qed

text \<open>The variables have the sizes and the counts of entries the program declares.\<close>

definition vars_ok :: "'z sdo_scheme \<Rightarrow> bool" where
  "vars_ok s = (\<forall>k. length (obj_vars s k) = length (rmcs_obj_vars k) \<and> byte_at (obj_vars s k) 0 = byte_at (rmcs_obj_vars k) 0)"

lemma var_bytes_size:
  assumes "vars_ok s"
  shows "length (var_bytes v s) = var_size v"
  using assms by (cases v)
    (auto simp: vars_ok_def var_size_def sm_bytes_def err_bytes_def le64_bytes_def le16_bytes_def le32_bytes_def split: varref.splits)

lemma get16_low: "get16 bs 0 AND 0xFF = ucast (byte_at bs 0)"
proof -
  have m: "(0xFF :: 16 word) = mask 8" by (simp add: mask_eq_exp_minus_1)
  show ?thesis
    unfolding m by (rule bit_word_eqI) (auto simp: get16_def le16_def bit_simps dest: bit_imp_le_length)
qed

lemma si0_count:
  assumes "vars_ok s" "v \<noteq> TimeStampVar" "\<And>ts. v \<noteq> EnumTexts ts"
  shows "unat (get16 (var_bytes v s) 0 AND 0xFF) = var_count v"
proof -
  have "byte_at (var_bytes v s) 0 = of_nat (var_count v)"
  proof (cases v)
    case (PlainVar k)
    then show ?thesis using assms(1) by (simp add: vars_ok_def var_count_def)
  qed (use assms in \<open>simp_all add: var_count_def sm_bytes_def err_bytes_def le16_bytes_def byte_at_def\<close>)
  moreover have "var_count v < 256"
    using unsigned_less[of "byte_at (rmcs_obj_vars k) 0" for k] by (cases v) (auto simp: var_count_def)
  ultimately show ?thesis by (simp add: get16_low unsigned_ucast_eq unat_of_nat take_bit_nat_eq_self)
qed

lemma length_le64 [simp]: "length (le64_bytes w) = 8"
  by (simp add: le64_bytes_def le32_bytes_def)

lemma SyncTimeStamp_mem [simp]: "mem (COE_SyncTimeStamp s) = mem s"
  by (simp add: COE_SyncTimeStamp_def Let_def case_prod_unfold hw_ops)

lemma Read0x10F8_safe:
  assumes "n = 8" "buf_live b 8 s"
  shows "faulted (snd (Read0x10F8 index subindex n b ca s)) = faulted s"
  using assms faulted_store[where b = b and d = "le64_bytes (u64Timestamp (COE_SyncTimeStamp s))" and s = "COE_SyncTimeStamp s"]
  by (simp add: Read0x10F8_def Let_def) (simp add: faulted_def)

definition max_sub :: "tobject \<Rightarrow> nat" where
  "max_sub ob = (if objCode ob = OBJCODE_VAR then flagsMaxSubindex ob else var_count (pVarPtr ob))"

lemma max_sub_le:
  assumes "object_counts ob"
  shows "max_sub ob \<le> flagsMaxSubindex ob" "objCode ob = OBJCODE_VAR \<longrightarrow> flagsMaxSubindex ob = 0"
    "0x1000 \<le> Index ob" "\<not> Index ob < 0x1000"
  using assms by (simp_all add: max_sub_def object_counts_def not_less split: if_splits)

lemma load_count:
  assumes "object_counts ob" "vars_ok s" "objCode ob \<noteq> OBJCODE_VAR"
  shows "var_load16 (pVarPtr ob) 0 s = (get16 (var_bytes (pVarPtr ob) s) 0, s)"
    "unat (get16 (var_bytes (pVarPtr ob) s) 0 AND 0xFF) = var_count (pVarPtr ob)"
proof -
  have p: "pVarPtr ob \<noteq> TimeStampVar" "2 \<le> var_size (pVarPtr ob)" using assms(1,3) by (simp_all add: object_counts_def)
  then have "pVarPtr ob \<noteq> EnumTexts ts" for ts by (auto simp: var_size_def)
  then show "var_load16 (pVarPtr ob) 0 s = (get16 (var_bytes (pVarPtr ob) s) 0, s)"
    "unat (get16 (var_bytes (pVarPtr ob) s) 0 AND 0xFF) = var_count (pVarPtr ob)"
    using load_si0[of ob s] si0_count[OF assms(2) p(1)] p var_bytes_size[OF assms(2), of "pVarPtr ob"] by simp_all
qed

definition refusal :: "entry_desc \<Rightarrow> 8 word" where
  "refusal e = (if ObjAccess e = 0 then ABORTIDX_UNSUPPORTED_ACCESS else read_refused e)"

text \<open>The three outcomes of the tests at the start of a single read.\<close>

lemma read_single_steps:
  fixes subindex :: "8 word"
  assumes ob: "object_counts ob" and s: "vars_ok s" and u: "pAPPL_CoeReadInd u = None"
  defines "i \<equiv> unat subindex"
  shows "max_sub ob < i \<Longrightarrow> OBJ_Read u (Index ob) subindex n ob b False s = (ABORTIDX_SUBINDEX_NOT_EXISTING, s)"
    and "\<lbrakk>i \<le> max_sub ob; \<not> entry_outside ob i; ObjAccess (OBJ_GetEntryDesc ob i) = 0 \<or> \<not> read_rights (OBJ_GetEntryDesc ob i) s\<rbrakk>
      \<Longrightarrow> OBJ_Read u (Index ob) subindex n ob b False s = (refusal (OBJ_GetEntryDesc ob i), s)"
    and "\<lbrakk>i \<le> max_sub ob; \<not> entry_outside ob i; ObjAccess (OBJ_GetEntryDesc ob i) \<noteq> 0; read_rights (OBJ_GetEntryDesc ob i) s\<rbrakk>
      \<Longrightarrow> OBJ_Read u (Index ob) subindex n ob b False s
        = (case ObjRead ob of Some fn \<Rightarrow> obj_call u fn (Index ob) subindex n b False s
           | None \<Rightarrow> read_loop (Index ob) i ob (max_sub ob) False [i] b False 0 s)"
proof -
  note R = OBJ_Read_def Let_def coe_ind_def u max_sub_def i_def refusal_def
  note X = load_count[OF ob s] max_sub_le(3,4)[OF ob]
  show "max_sub ob < i \<Longrightarrow> OBJ_Read u (Index ob) subindex n ob b False s = (ABORTIDX_SUBINDEX_NOT_EXISTING, s)"
    using X by (cases "objCode ob = OBJCODE_VAR") (simp_all add: R)
  show "\<lbrakk>i \<le> max_sub ob; \<not> entry_outside ob i; ObjAccess (OBJ_GetEntryDesc ob i) = 0 \<or> \<not> read_rights (OBJ_GetEntryDesc ob i) s\<rbrakk>
      \<Longrightarrow> OBJ_Read u (Index ob) subindex n ob b False s = (refusal (OBJ_GetEntryDesc ob i), s)"
    using X by (cases "objCode ob = OBJCODE_VAR") (auto simp: R)
  show "\<lbrakk>i \<le> max_sub ob; \<not> entry_outside ob i; ObjAccess (OBJ_GetEntryDesc ob i) \<noteq> 0; read_rights (OBJ_GetEntryDesc ob i) s\<rbrakk>
      \<Longrightarrow> OBJ_Read u (Index ob) subindex n ob b False s
        = (case ObjRead ob of Some fn \<Rightarrow> obj_call u fn (Index ob) subindex n b False s
           | None \<Rightarrow> read_loop (Index ob) i ob (max_sub ob) False [i] b False 0 s)"
    using X by (cases "objCode ob = OBJCODE_VAR") (simp_all add: R not_less[where 'a = nat] del: read_loop.simps split: option.splits)
qed

lemma offset_start: "(if i = 0 then 0 else OBJ_GetEntryOffset i ob) = OBJ_GetEntryOffset i ob"
  by (simp add: OBJ_GetEntryOffset_def)

lemma read_loop_single:
  assumes "read_rights (OBJ_GetEntryDesc ob i) s" "\<not> entry_outside ob i" "0x1000 \<le> index"
  shows "read_loop index i ob m False [i] b False 0 s
    = (if i = 0 \<and> objCode ob \<noteq> OBJCODE_VAR then (0, buf_put16 b (of_nat m) s)
       else case read_value (OBJ_GetEntryDesc ob i) (pVarPtr ob) (OBJ_GetEntryOffset i ob) False b s of
              (Inl abort, s) \<Rightarrow> (abort, s) | (Inr b, s) \<Rightarrow> (0, s))"
  using assms offset_start[of i ob, symmetric]
  by (cases "i = 0") (simp_all add: Let_def case_prod_unfold split: sum.splits)

lemma read_single_bounds:
  assumes fits: "object_fits ob" "object_counts ob" "\<not> sync_error_entry (Index ob) (unat subindex)" and s: "vars_ok s"
    and u: "pAPPL_CoeReadInd u = None" and n: "n = fst (OBJ_GetObjectLength subindex ob False s)"
    and b: "buf_live b (2 * ((unat n + 1) div 2)) s"
  shows "faulted (snd (OBJ_Read u (Index ob) subindex n ob b False s)) = faulted s"
proof -
  let ?i = "unat subindex" and ?e = "OBJ_GetEntryDesc ob (unat subindex)"
  note m = max_sub_le[OF fits(2)] and R = read_single_steps[OF fits(2) s u, of _ n b]
  have v: "length (var_bytes (pVarPtr ob) s) = var_size (pVarPtr ob)" using var_bytes_size[OF s] .
  show ?thesis
  proof (cases "max_sub ob < ?i")
    case True
    then show ?thesis using R(1) by simp
  next
    case False
    then have i: "?i \<le> max_sub ob" "?i \<le> flagsMaxSubindex ob" using m(1) by simp_all
    then have f: "entry_fits ob ?i" using fits(1,3) by (auto simp: object_fits_def list_all_iff)
    then have o: "\<not> entry_outside ob ?i" by (simp add: entry_fits_def Let_def)
    have n': "unat n = single_length ob ?i" using obj_length_single[OF i(2) m(2), of s] n by (simp add: obj_length_def)
    show ?thesis
    proof (cases "ObjAccess ?e = 0 \<or> \<not> read_rights ?e s")
      case True
      then show ?thesis using R(2)[OF i(1) o] by simp
    next
      case False
      then have r: "ObjAccess ?e \<noteq> 0" "read_rights ?e s" by simp_all
      show ?thesis
      proof (cases "ObjRead ob")
        case None
        note L = read_loop_single[OF r(2) o m(3), of "max_sub ob" b]
        show ?thesis
        proof (cases "?i = 0 \<and> objCode ob \<noteq> OBJCODE_VAR")
          case True
          then have "buf_live b 2 s" using b n' by (simp add: single_length_def)
          then show ?thesis using True R(3)[OF i(1) o r] None L by (simp add: faulted_put16)
        next
          case ent: False
          then have "faulted (snd (read_value ?e (pVarPtr ob) (OBJ_GetEntryOffset ?i ob) False b s)) = faulted s"
            using f b v n' by (intro read_value_safe) (auto simp: entry_fits_def Let_def value_off_def elim: live_mono)
          moreover have "OBJ_Read u (Index ob) subindex n ob b False s
              = (case read_value ?e (pVarPtr ob) (OBJ_GetEntryOffset ?i ob) False b s of
                   (Inl abort, s) \<Rightarrow> (abort, s) | (Inr b, s) \<Rightarrow> (0, s))"
            unfolding R(3)[OF i(1) o r] None option.case L using ent by (rule if_not_P)
          ultimately show ?thesis
            by (cases "read_value ?e (pVarPtr ob) (OBJ_GetEntryOffset ?i ob) False b s") (auto split: sum.splits)
        qed
      next
        case (Some fn)
        then have F: "fn = FnRead0x10F8" "single_length ob ?i = 8"
          using fits(2) by (simp_all add: object_counts_def single_length_def BIT2BYTE_def)
        then have "n = 8" using n' by (intro word_unat_eq_iff[THEN iffD2]) simp
        then show ?thesis
          using Read0x10F8_safe[where n = n and b = b and s = s] b F unfolding R(3)[OF i(1) o r] by (simp add: Some obj_call_def)
      qed
    qed
  qed
qed

text \<open>The links of an object do not matter; the objects of the tables, wherever they are linked.\<close>

definition table_object :: "tobject \<Rightarrow> bool" where
  "table_object ob = (Index ob \<noteq> 0xFFFF \<and>
     ob\<lparr>pPrev := NULL, pNext := NULL\<rparr> \<in> set (GenObjDic_objects @ ApplicationObjDic_objects))"

lemma unlinked_parts [simp]:
  fixes ob :: tobject and a b :: ptr
  shows "objCode (ob\<lparr>pPrev := a, pNext := b\<rparr>) = objCode ob"
    "flagsMaxSubindex (ob\<lparr>pPrev := a, pNext := b\<rparr>) = flagsMaxSubindex ob"
    "entry_at (ob\<lparr>pPrev := a, pNext := b\<rparr>) i = entry_at ob i"
  by (simp_all add: objCode_def flagsMaxSubindex_def entry_at_def)

lemma unlinked_entries [simp]:
  fixes ob :: tobject and a b :: ptr
  shows "entry_ix (ob\<lparr>pPrev := a, pNext := b\<rparr>) i = entry_ix ob i"
    "OBJ_GetEntryDesc (ob\<lparr>pPrev := a, pNext := b\<rparr>) i = OBJ_GetEntryDesc ob i"
    "entry_outside (ob\<lparr>pPrev := a, pNext := b\<rparr>) i = entry_outside ob i"
    "OBJ_GetEntryOffset i (ob\<lparr>pPrev := a, pNext := b\<rparr>) = OBJ_GetEntryOffset i ob"
  by (simp_all add: entry_ix_def OBJ_GetEntryDesc_def entry_outside_def OBJ_GetEntryOffset_def Let_def del: upt_Suc cong: if_cong)

lemma unlinked_bounds [simp]:
  fixes ob :: tobject and a b :: ptr
  shows "object_fits (ob\<lparr>pPrev := a, pNext := b\<rparr>) = object_fits ob"
    "object_counts (ob\<lparr>pPrev := a, pNext := b\<rparr>) = object_counts ob"
    "object_typed (ob\<lparr>pPrev := a, pNext := b\<rparr>) = object_typed ob"
  by (simp_all add: object_typed_def object_fits_def object_counts_def entry_fits_def value_off_def single_length_def Let_def del: upt_Suc cong: if_cong)

lemma table_object_bounds:
  assumes "table_object ob"
  shows "object_fits ob" "object_counts ob" "object_typed ob"
  using assms objects_fit[of "ob\<lparr>pPrev := NULL, pNext := NULL\<rparr>"] objects_count[of "ob\<lparr>pPrev := NULL, pNext := NULL\<rparr>"]
    objects_typed[of "ob\<lparr>pPrev := NULL, pNext := NULL\<rparr>"]
  by (simp_all add: table_object_def)

section \<open>A readable entry can be read\<close>

lemma odd_bits_aligned: "unat w mod 16 = 0 \<Longrightarrow> \<not> odd_bits w"
  by (simp add: odd_bits_mod)

lemma read_value_typed:
  assumes "desc_typed e (unat bo)" "ObjAccess e \<noteq> 0"
  shows "\<exists>b' s'. read_value e v bo False b s = (Inr b', s')"
proof (cases "std_type e \<in> byte_types")
  case True
  then have "std_type e \<noteq> 0" by (auto simp: byte_types_def)
  then show ?thesis using True by (simp add: read_value_def Let_def case_prod_unfold)
next
  case False
  then have "std_type e \<noteq> 0" "std_type e \<in> word_types \<union> dword_types \<union> qword_types \<union> block_types \<union> {0x09}" "\<not> odd_bits bo"
    using assms odd_bits_aligned[of bo] by (auto simp: desc_typed_def split: if_splits)
  then show ?thesis using False by (auto simp: read_value_def Let_def)
qed

lemma object_typed_entry:
  assumes "object_typed ob" "i \<le> flagsMaxSubindex ob"
  shows "\<not> entry_outside ob i"
    "i = 0 \<and> objCode ob \<noteq> OBJCODE_VAR
     \<or> desc_typed (OBJ_GetEntryDesc ob i) (unat (OBJ_GetEntryOffset i ob)) \<and> (objCode ob \<noteq> OBJCODE_VAR \<longrightarrow> 16 \<le> unat (OBJ_GetEntryOffset i ob))"
proof -
  have "i \<in> set [0..<flagsMaxSubindex ob + 1]" using assms(2) by (simp del: upt_Suc)
  then show "\<not> entry_outside ob i"
    "i = 0 \<and> objCode ob \<noteq> OBJCODE_VAR
     \<or> desc_typed (OBJ_GetEntryDesc ob i) (unat (OBJ_GetEntryOffset i ob)) \<and> (objCode ob \<noteq> OBJCODE_VAR \<longrightarrow> 16 \<le> unat (OBJ_GetEntryOffset i ob))"
    using assms(1) unfolding object_typed_def list_all_iff by blast+
qed

lemma typed_object_reads:
  assumes ob: "object_typed ob" "object_counts ob" and s: "vars_ok s" and u: "pAPPL_CoeReadInd u = None"
    and i: "unat subindex \<le> max_sub ob" and n: "n = fst (OBJ_GetObjectLength subindex ob False s)"
    and r: "read_rights (OBJ_GetEntryDesc ob (unat subindex)) s"
  shows "fst (OBJ_Read u (Index ob) subindex n ob b False s) = 0"
proof -
  let ?i = "unat subindex" and ?e = "OBJ_GetEntryDesc ob (unat subindex)"
  note m = max_sub_le[OF ob(2)]
  note t = object_typed_entry[OF ob(1) order_trans[OF i m(1)]]
  have a: "ObjAccess ?e \<noteq> 0" using r by (auto simp: read_rights_def)
  note R = read_single_steps(3)[OF ob(2) s u i t(1) a r, of n b]
  show ?thesis
  proof (cases "ObjRead ob")
    case None
    show ?thesis
      unfolding R None option.case read_loop_single[OF r t(1) m(3), of "max_sub ob" b]
      using t(2) read_value_typed[OF _ a, of "OBJ_GetEntryOffset ?i ob" "pVarPtr ob" b s] by auto
  next
    case (Some fn)
    then have F: "fn = FnRead0x10F8" "Index ob = 0x10F8" "single_length ob ?i = 8" "?i = 0"
      using ob(2) i m by (simp_all add: object_counts_def single_length_def BIT2BYTE_def)
    then have "n = 8"
      using n obj_length_single[of subindex ob s] m(2) by (intro word_unat_eq_iff[THEN iffD2]) (simp add: obj_length_def)
    moreover have "subindex = 0" using F(4) by (simp add: unat_eq_zero)
    ultimately show ?thesis using F R Some by (simp add: obj_call_def Read0x10F8_def Let_def)
  qed
qed

lemma typed_object_refuses:
  assumes ob: "object_typed ob" "object_counts ob" and s: "vars_ok s" and u: "pAPPL_CoeReadInd u = None"
    and r: "\<not> (unat subindex \<le> max_sub ob \<and> read_rights (OBJ_GetEntryDesc ob (unat subindex)) s)"
  shows "OBJ_Read u (Index ob) subindex n ob b False s
    = (if max_sub ob < unat subindex then ABORTIDX_SUBINDEX_NOT_EXISTING else refusal (OBJ_GetEntryDesc ob (unat subindex)), s)"
proof (cases "max_sub ob < unat subindex")
  case True
  then show ?thesis using read_single_steps(1)[OF ob(2) s u, of subindex n b] by simp
next
  case False
  then have i: "unat subindex \<le> max_sub ob" by simp
  note t = object_typed_entry[OF ob(1) order_trans[OF i max_sub_le(1)[OF ob(2)]]]
  show ?thesis using read_single_steps(2)[OF ob(2) s u i t(1), of n b] r False by simp
qed

end
