(* ===== verification/SdoSegs.thy ===== *)
theory SdoSegs
  imports ObjBounds
begin

text \<open>
  Segmented transfers: the segments of an upload carry the data of the object, the segments of a
  download are put together for \<open>OBJ_Write\<close>.
\<close>

unbundle bit_operations_syntax

section \<open>States that differ in one block\<close>

definition with_block :: "ptr \<Rightarrow> 8 word list \<Rightarrow> 'z mach_scheme \<Rightarrow> 'z mach_scheme" where
  "with_block p b s = s\<lparr>mem := (mem s)\<lparr>heap := (heap (mem s))(p \<mapsto> b)\<rparr>\<rparr>"

lemma with_block_self: "heap (mem s) p = Some b \<Longrightarrow> s = with_block p b s"
  by (simp add: with_block_def fun_upd_idem)

lemma with_block_heap [simp]:
  "heap (mem (with_block p b s)) p = Some b" "q \<noteq> p \<Longrightarrow> heap (mem (with_block p b s)) q = heap (mem s) q"
  "m_block p (mem (with_block p b s)) = b" "faulted (with_block p b s) = faulted s"
  by (simp_all add: with_block_def m_block_def faulted_def)

lemma with_block_read [simp]:
  "mem_rd8 p off (with_block p b s) = byte_at b off" "mem_rd16 p off (with_block p b s) = get16 b off"
  by (simp_all add: mem_access)

lemma with_block_write [simp]:
  "off + length d \<le> length b \<Longrightarrow> mem_write p off d (with_block p b s) = with_block p (put_bytes off d b) s"
  by (simp add: mem_write_def m_write_def with_block_def)

lemma with_block_writes [simp]:
  "off < length b \<Longrightarrow> mem_wr8 p off w (with_block p b s) = with_block p (put_bytes off [w] b) s"
  "off + 2 \<le> length b \<Longrightarrow> mem_wr16 p off v (with_block p b s) = with_block p (put_bytes off (le16_bytes v) b) s"
  "off < length b \<Longrightarrow> mem_or8 p off w (with_block p b s) = with_block p (put_bytes off [byte_at b off OR w] b) s"
  "off + length d \<le> length b \<Longrightarrow> buf_store (p, off) d (with_block p b s) = with_block p (put_bytes off d b) s"
  by (simp_all add: mem_access mem_or8_def buf_store_def mem_write_def m_write_def with_block_def m_block_def)

lemma with_block_service [simp]:
  "8 \<le> length b \<Longrightarrow> coe_set_service v p (with_block p b s)
    = with_block p (put_bytes 6 (le16_bytes ((get16 b 6 AND NOT 0xF000) OR push_bit 12 v)) b) s"
  by (simp add: coe_set_service_def)

lemma with_block_fields [simp]:
  "bSdoSegFollows (with_block p b s) = bSdoSegFollows s" "bSdoSegLastToggle (with_block p b s) = bSdoSegLastToggle s"
  "pSdoSegData (with_block p b s) = pSdoSegData s" "nSdoSegBytesToHandle (with_block p b s) = nSdoSegBytesToHandle s"
  "nSdoSegCompleteSize (with_block p b s) = nSdoSegCompleteSize s" "nSdoSegService (with_block p b s) = nSdoSegService s"
  "u16SendMbxSize (with_block p b s) = u16SendMbxSize s"
  by (simp_all add: with_block_def)

lemma with_block_twice [simp]: "with_block p b (with_block p c s) = with_block p b s"
  by (simp add: with_block_def)

lemma buf_load_other:
  "heap (mem s) q = Some blk \<Longrightarrow> off + n \<le> length blk \<Longrightarrow> buf_load (q, off) n s = (get_bytes blk off n, s)"
  by (auto simp: buf_load_def get_bytes_def byte_at_def m_block_def mem_touch_def m_touch_def intro: nth_equalityI)

lemma get_put_other:
  "i + n \<le> off \<or> off + length d \<le> i \<Longrightarrow> off + length d \<le> length b \<Longrightarrow> get_bytes (put_bytes off d b) i n = get_bytes b i n"
proof (rule nth_equalityI)
  assume out: "i + n \<le> off \<or> off + length d \<le> i" and le: "off + length d \<le> length b"
  then show "length (get_bytes (put_bytes off d b) i n) = length (get_bytes b i n)" by (simp add: get_bytes_def)
  fix j
  assume j: "j < length (get_bytes (put_bytes off d b) i n)"
  have ln: "length (put_bytes off d b) = length b" using le by simp
  have "j < n" "i + j < length b" using j unfolding get_bytes_def length_take length_drop ln by linarith+
  then show "get_bytes (put_bytes off d b) i n ! j = get_bytes b i n ! j"
    using nth_put_bytes_outside[of off d b "i + j"] out le ln unfolding get_bytes_def by force
qed

section \<open>Upload\<close>

text \<open>What a master takes from the answer to an upload segment request: an answer of the smallest length
  says in its header how many of its seven bytes are data.\<close>

definition segment_data :: "ptr \<Rightarrow> 'z mach_scheme \<Rightarrow> 8 word list" where
  "segment_data p s =
    (let len = mem_rd16 p 0 s; h = mem_rd8 p 8 s in
     get_bytes (m_block p (mem s)) 9 (if len = 10 then 7 - unat (drop_bit 1 (h AND 0x0E)) else unat len - 3))"

text \<open>The master and the rest of the stack between two requests: a request with the other toggle bit in a
  buffer of the size of the send mailbox, which is not the buffer of the transfer.\<close>

definition seg_view :: "'z sdo_scheme \<Rightarrow> ptr \<times> 32 word \<times> 32 word \<times> 8 word \<times> 8 word \<times> 16 word \<times> bool" where
  "seg_view s = (pSdoSegData s, nSdoSegBytesToHandle s, nSdoSegCompleteSize s, nSdoSegService s, bSdoSegLastToggle s,
     u16SendMbxSize s, faulted s)"

definition seg_env :: "ptr \<times> ('z sdo_scheme \<Rightarrow> 'z sdo_scheme) \<Rightarrow> bool" where
  "seg_env e = (\<forall>s. fst e \<noteq> pSdoSegData s \<longrightarrow>
     seg_view (snd e s) = seg_view s \<and> heap (mem (snd e s)) (pSdoSegData s) = heap (mem s) (pSdoSegData s)
     \<and> live (mem (snd e s)) (fst e) (unat (u16SendMbxSize s))
     \<and> mem_rd8 (fst e) 8 (snd e s) AND SEGHEADER_TOGGLE \<noteq> bSdoSegLastToggle s)"

text \<open>The data of all segments, up to the end of the transfer.\<close>

fun upload_run :: "(ptr \<times> ('z sdo_scheme \<Rightarrow> 'z sdo_scheme)) list \<Rightarrow> 'z sdo_scheme \<Rightarrow> 8 word list \<times> 'z sdo_scheme" where
  "upload_run [] s = ([], s)"
| "upload_run ((p, env) # evs) s =
    (if nSdoSegService s \<noteq> SDOSERVICE_UPLOADSEGMENTREQ then ([], s)
     else let (abort, t) = SdoUploadSegmentInd p (env s); (ds, u) = upload_run evs t in (segment_data p t @ ds, u))"

text \<open>The bytes still to be sent.\<close>

definition uploading :: "8 word list \<Rightarrow> 'z sdo_scheme \<Rightarrow> bool" where
  "uploading ds s = (\<exists>blk. heap (mem s) (pSdoSegData s) = Some blk \<and> nSdoSegService s = SDOSERVICE_UPLOADSEGMENTREQ
     \<and> unat (nSdoSegCompleteSize s) \<le> length blk \<and> unat (nSdoSegBytesToHandle s) \<le> unat (nSdoSegCompleteSize s)
     \<and> unat (nSdoSegCompleteSize s) < 0x80000000 \<and> pSdoSegData s \<noteq> NULL
     \<and> ds = get_bytes blk (unat (nSdoSegBytesToHandle s)) (unat (nSdoSegCompleteSize s) - unat (nSdoSegBytesToHandle s)))"

lemma toggle_cases: "(w :: 8 word) AND 0x10 = 0 \<or> w AND 0x10 = 0x10"
proof -
  have e: "(0x10 :: 8 word) = push_bit 4 1" by simp
  have b: "bit (0x10 :: 8 word) n \<longleftrightarrow> n = 4" for n
    unfolding e by (simp only: bit_push_bit_iff bit_1_iff) auto
  show ?thesis
  proof (cases "bit w 4")
    case True
    have "w AND 0x10 = 0x10" by (rule bit_word_eqI) (simp only: b bit_and_iff, use True in auto)
    then show ?thesis ..
  next
    case False
    have "w AND 0x10 = 0" by (rule bit_word_eqI) (simp only: b bit_and_iff, use False in auto)
    then show ?thesis ..
  qed
qed

lemma word_below_7: "(n :: 32 word) < 7 \<Longrightarrow> n \<in> {0, 1, 2, 3, 4, 5, 6}"
proof -
  assume "n < 7"
  then have "unat n < 7" by (simp add: word_less_nat_alt)
  then have "unat n \<in> {0, 1, 2, 3, 4, 5, 6}" by auto
  then show ?thesis by (auto simp: word_unat_eq_iff)
qed

lemma segment_count_table:
  "\<forall>n \<in> set [0, 1, 2, 3, 4, 5, 6]. \<forall>tg \<in> set [0, 0x10]. \<forall>l \<in> set [0, 1].
     7 - unat (drop_bit 1 ((push_bit 1 (ucast (7 - n :: 32 word)) OR (tg OR l)) AND 0x0E) :: 8 word) = unat n"
  by code_simp

lemma segment_count:
  assumes "n < 7" and "tg = 0 \<or> tg = (0x10 :: 8 word)" and "l = 0 \<or> l = (1 :: 8 word)"
  shows "7 - unat (drop_bit 1 (((tg OR l) OR push_bit 1 (ucast (7 - n :: 32 word))) AND 0x0E)) = unat n"
  using word_below_7[OF assms(1)] assms(2,3) segment_count_table by (fastforce simp: or.commute)

text \<open>The block after an answer, as a function of the block before.\<close>

definition seg_block :: "8 word \<Rightarrow> 32 word \<Rightarrow> 8 word list \<Rightarrow> 8 word list \<Rightarrow> 8 word list" where
  "seg_block h n bs b =
    (let b = put_bytes 9 bs b; b = put_bytes 6 (le16_bytes ((get16 b 6 AND NOT 0xF000) OR push_bit 12 3)) b;
         b = put_bytes 8 [h] b in
     if n < 7 then put_bytes 8 [h OR push_bit 1 (ucast (7 - n))] (put_bytes 0 (le16_bytes 10) b)
     else put_bytes 0 (le16_bytes (ucast n + 3)) b)"

definition answer_data :: "8 word list \<Rightarrow> 8 word list" where
  "answer_data b = (let len = get16 b 0 in
     get_bytes b 9 (if len = 10 then 7 - unat (drop_bit 1 (byte_at b 8 AND 0x0E)) else unat len - 3))"

lemma segment_data_block: "heap (mem s) p = Some b \<Longrightarrow> segment_data p s = answer_data b"
  by (simp add: segment_data_def answer_data_def mem_access m_block_def Let_def)

lemma header_plain: "tg = 0 \<or> tg = (0x10 :: 8 word) \<Longrightarrow> l = 0 \<or> l = (1 :: 8 word) \<Longrightarrow> drop_bit 1 ((tg OR l) AND 0x0E) = 0"
  by auto

lemma seg_block_data:
  assumes "length bs = unat n" and "9 + unat n \<le> length b" and "unat n < 65533" and "tg = 0 \<or> tg = 0x10" and "l = 0 \<or> l = 1"
  shows "answer_data (seg_block (tg OR l) n bs b) = bs"
proof (cases "n < 7")
  case True
  define b3 where "b3 = put_bytes 8 [tg OR l] (put_bytes 6 (le16_bytes ((get16 (put_bytes 9 bs b) 6 AND NOT 0xF000) OR push_bit 12 3)) (put_bytes 9 bs b))"
  have len: "length b3 = length b" using assms by (simp add: b3_def)
  have b: "get_bytes b3 9 (unat n) = bs" using assms by (simp add: b3_def get_put_other flip: assms(1))
  have e: "seg_block (tg OR l) n bs b = put_bytes 8 [(tg OR l) OR push_bit 1 (ucast (7 - n))] (put_bytes 0 (le16_bytes 10) b3)"
    using True by (simp add: seg_block_def b3_def Let_def)
  have c: "byte_at (seg_block (tg OR l) n bs b) 8 = (tg OR l) OR push_bit 1 (ucast (7 - n))"
    using assms len by (simp add: e byte_at_put_bytes)
  have d: "get16 (seg_block (tg OR l) n bs b) 0 = 10" using assms len by (simp add: e le_simps)
  have "get_bytes (seg_block (tg OR l) n bs b) 9 (unat n) = bs" using assms len b by (simp add: e get_put_other)
  then show ?thesis unfolding answer_data_def Let_def c d using segment_count[OF True assms(4,5)] by simp
next
  case False
  define b3 where "b3 = put_bytes 8 [tg OR l] (put_bytes 6 (le16_bytes ((get16 (put_bytes 9 bs b) 6 AND NOT 0xF000) OR push_bit 12 3)) (put_bytes 9 bs b))"
  have len: "length b3 = length b" using assms by (simp add: b3_def)
  have b: "get_bytes b3 9 (unat n) = bs" using assms by (simp add: b3_def get_put_other flip: assms(1))
  have e: "seg_block (tg OR l) n bs b = put_bytes 0 (le16_bytes (ucast n + 3)) b3"
    using False by (simp add: seg_block_def b3_def Let_def)
  have c: "byte_at (seg_block (tg OR l) n bs b) 8 = tg OR l"
    using assms len by (simp add: e b3_def byte_at_put_bytes)
  have d: "get16 (seg_block (tg OR l) n bs b) 0 = ucast n + 3" using assms len by (simp add: e le_simps)
  have u: "unat (ucast n + 3 :: 16 word) = unat n + 3"
    using assms(3) by (subst unat_add_lem[THEN iffD1]) (simp_all add: unsigned_ucast_eq take_bit_nat_eq_self)
  have t: "(ucast n + 3 :: 16 word) = 10 \<longleftrightarrow> unat n = 7" unfolding word_unat_eq_iff u by simp
  have g: "get_bytes (seg_block (tg OR l) n bs b) 9 (unat n) = bs" using assms len b by (simp add: e get_put_other)
  show ?thesis unfolding answer_data_def Let_def c d
    using g header_plain[OF assms(4,5)] by (cases "unat n = 7") (simp_all add: t u)
qed

text \<open>One segment.\<close>

lemma upload_sizes:
  assumes "9 < unat mbx" and "unat c < 0x80000000" and "unat t \<le> unat c"
  shows "unat (ucast (mbx - 9 :: 16 word) :: 32 word) = unat mbx - 9"
    and "(c :: 32 word) < t + ucast (mbx - 9) \<longleftrightarrow> unat c - unat t < unat mbx - 9"
    and "unat (c - t) = unat c - unat t"
proof -
  have m: "unat (mbx - 9) = unat mbx - 9"
    using assms(1) by (simp add: word_le_nat_alt unat_sub)
  have b: "unat mbx < 65536" 
  proof -
    have "unat mbx < 2 ^ LENGTH(16)" by (rule unsigned_less)
    then show ?thesis by simp
  qed
  show u: "unat (ucast (mbx - 9) :: 32 word) = unat mbx - 9"
    using m b by (simp add: unsigned_ucast_eq take_bit_nat_eq_self)
  have "unat (t + ucast (mbx - 9)) = unat t + (unat mbx - 9)"
    using assms(2,3) b by (subst unat_add_lem[THEN iffD1]) (simp_all add: u)
  then show "c < t + ucast (mbx - 9) \<longleftrightarrow> unat c - unat t < unat mbx - 9"
    using assms(1,3) by (auto simp: word_less_nat_alt)
  show "unat (c - t) = unat c - unat t" using assms(3) by (simp add: unat_sub word_le_nat_alt)
qed

lemma byte_at_head: "9 \<le> length b \<Longrightarrow> byte_at (put_bytes 0 (le16_bytes v) (put_bytes 8 [h] b)) 8 = h"
  by (simp add: byte_at_put_bytes)


lemma seg_answer:
  "9 \<le> length b \<Longrightarrow>
   (if c then mem_or8 p 8 x (mem_wr16 p 0 10 (mem_wr8 p 8 h (with_block p b s))) else mem_wr16 p 0 v (mem_wr8 p 8 h (with_block p b s)))
   = with_block p (if c then put_bytes 8 [h OR x] (put_bytes 0 (le16_bytes 10) (put_bytes 8 [h] b))
                   else put_bytes 0 (le16_bytes v) (put_bytes 8 [h] b)) s"
  by (simp add: byte_at_head)

lemma SdoUploadSegmentInd_block:
  assumes blk: "heap (mem s) (pSdoSegData s) = Some blk" and b: "heap (mem s) p = Some b" and ne: "p \<noteq> pSdoSegData s"
    and tg: "mem_rd8 p 8 s AND SEGHEADER_TOGGLE \<noteq> bSdoSegLastToggle s"
    and last: "lst \<longleftrightarrow> nSdoSegCompleteSize s < nSdoSegBytesToHandle s + ucast (u16SendMbxSize s - 9)"
    and n: "n = (if lst then nSdoSegCompleteSize s - nSdoSegBytesToHandle s else ucast (u16SendMbxSize s - 9))"
    and inb: "unat (nSdoSegBytesToHandle s) + unat n \<le> length blk" and fit: "9 + unat n \<le> length b"
  shows "SdoUploadSegmentInd p s = (0,
    let u = with_block p (seg_block ((mem_rd8 p 8 s AND SEGHEADER_TOGGLE) OR (if lst then 1 else 0)) n
              (get_bytes blk (unat (nSdoSegBytesToHandle s)) (unat n)) b)
              (s\<lparr>bSdoSegLastToggle := mem_rd8 p 8 s AND SEGHEADER_TOGGLE, bSdoSegFollows := \<not> lst\<rparr>) in
    if lst then (mem_free (pSdoSegData s) u)\<lparr>pSdoSegData := NULL, nSdoSegBytesToHandle := 0, nSdoSegService := 0\<rparr>
    else u\<lparr>nSdoSegBytesToHandle := nSdoSegBytesToHandle s + n\<rparr>)"
proof -
  let ?s = "s\<lparr>bSdoSegLastToggle := mem_rd8 p 8 s AND SEGHEADER_TOGGLE, bSdoSegFollows := \<not> lst\<rparr>"
  let ?bs = "get_bytes blk (unat (nSdoSegBytesToHandle s)) (unat n)"
  have l: "buf_load (pSdoSegData s, unat (nSdoSegBytesToHandle s)) (unat n) ?s = (?bs, ?s)"
    using blk inb by (intro buf_load_other) auto
  have len: "length ?bs = unat n" using inb by simp
  have st: "buf_store (p, 9) ?bs ?s = with_block p (put_bytes 9 ?bs b) ?s"
    using b fit len by (simp add: buf_store_def mem_write_def m_write_def with_block_def)
  have t: "(mem_rd8 p 8 s AND SEGHEADER_TOGGLE = bSdoSegLastToggle s) = False" using tg by simp
  have h: "SDOSERVICE_DOWNLOADSEGMENTREQ = 0" by simp
  show ?thesis
  proof (cases lst)
    case True
    with n last have "(nSdoSegCompleteSize s < nSdoSegBytesToHandle s + ucast (u16SendMbxSize s - 9)) = True"
      "nSdoSegCompleteSize s - nSdoSegBytesToHandle s = n" by simp_all
    with True l st len fit t show ?thesis
      unfolding SdoUploadSegmentInd_def by (simp add: seg_block_def Let_def seg_answer del: with_block_writes cong: if_cong)
  next
    case False
    with n last have "(nSdoSegCompleteSize s < nSdoSegBytesToHandle s + ucast (u16SendMbxSize s - 9)) = False"
      "ucast (u16SendMbxSize s - 9) = n" by simp_all
    with False l st len fit t show ?thesis
      unfolding SdoUploadSegmentInd_def by (simp add: seg_block_def Let_def seg_answer del: with_block_writes cong: if_cong)
  qed
qed

lemma length_seg_block: "9 + length bs \<le> length b \<Longrightarrow> length (seg_block h n bs b) = length b"
  by (simp add: seg_block_def Let_def)

lemma mem_free_other:
  "heap (mem s) p = Some b \<Longrightarrow> p \<noteq> q \<Longrightarrow> heap (mem (mem_free p s)) q = heap (mem s) q"
  "heap (mem s) p = Some b \<Longrightarrow> faulted (mem_free p s) = faulted s"
  "p \<noteq> NULL \<Longrightarrow> heap (mem s) p = Some b \<Longrightarrow> heap (mem (mem_free p s)) p = None"
  by (simp_all add: mem_free_def m_free_def faulted_def)

lemma upload_step:
  assumes up: "uploading ds s" and lv: "live (mem s) p (unat (u16SendMbxSize s))" and mbx: "9 < unat (u16SendMbxSize s)"
    and ne: "p \<noteq> pSdoSegData s" and tg: "mem_rd8 p 8 s AND SEGHEADER_TOGGLE \<noteq> bSdoSegLastToggle s"
  shows "\<exists>t. SdoUploadSegmentInd p s = (0, t) \<and> segment_data p t = take (unat (u16SendMbxSize s) - 9) ds
    \<and> faulted t = faulted s \<and> u16SendMbxSize t = u16SendMbxSize s
    \<and> (if length ds < unat (u16SendMbxSize s) - 9
       then nSdoSegService t = 0 \<and> pSdoSegData t = NULL \<and> heap (mem t) (pSdoSegData s) = None
       else uploading (drop (unat (u16SendMbxSize s) - 9) ds) t \<and> pSdoSegData t = pSdoSegData s)"
proof -
  define C T M where "C = unat (nSdoSegCompleteSize s)" and "T = unat (nSdoSegBytesToHandle s)" and "M = unat (u16SendMbxSize s) - 9"
  obtain blk where blk: "heap (mem s) (pSdoSegData s) = Some blk" and le: "C \<le> length blk" "T \<le> C" and c: "C < 0x80000000"
    and nn: "pSdoSegData s \<noteq> NULL" and ds: "ds = get_bytes blk T (C - T)" and sv: "nSdoSegService s = SDOSERVICE_UPLOADSEGMENTREQ"
    using up by (auto simp: uploading_def C_def T_def word_less_nat_alt)
  obtain b where b: "heap (mem s) p = Some b" and lb: "unat (u16SendMbxSize s) \<le> length b"
    using lv by (auto simp: live_def split: option.splits)
  note sz = upload_sizes[OF mbx c[unfolded C_def] le(2)[unfolded C_def T_def], folded C_def T_def M_def]
  have lds: "length ds = C - T" using le by (simp add: ds)
  define lst where "lst \<longleftrightarrow> C - T < M"
  define n where "n = (if lst then nSdoSegCompleteSize s - nSdoSegBytesToHandle s else ucast (u16SendMbxSize s - 9))"
  have un: "unat n = (if lst then C - T else M)" using sz by (simp add: n_def)
  have fits: "T + unat n \<le> length blk" "9 + unat n \<le> length b" "unat n < 65533" "unat n \<le> C - T"
    using le lb mbx un unat_word16_less[of "u16SendMbxSize s"] by (auto simp: lst_def M_def split: if_splits)
  have bs: "get_bytes blk T (unat n) = take M ds"
    using un by (auto simp: ds get_bytes_def lst_def min_def)
  define tgl where "tgl = mem_rd8 p 8 s AND SEGHEADER_TOGGLE"
  define B where "B = seg_block (tgl OR (if lst then 1 else 0)) n (take M ds) b"
  have B: "answer_data B = take M ds"
    unfolding B_def using fits lds un toggle_cases by (intro seg_block_data) (auto simp: tgl_def lst_def)
  define u where "u = with_block p B (s\<lparr>bSdoSegLastToggle := tgl, bSdoSegFollows := \<not> lst\<rparr>)"
  have ind: "SdoUploadSegmentInd p s = (0,
      if lst then (mem_free (pSdoSegData s) u)\<lparr>pSdoSegData := NULL, nSdoSegBytesToHandle := 0, nSdoSegService := 0\<rparr>
      else u\<lparr>nSdoSegBytesToHandle := nSdoSegBytesToHandle s + n\<rparr>)"
    using SdoUploadSegmentInd_block[OF blk b ne tg, of lst n] fits(1,2) sz(2) unfolding u_def B_def tgl_def bs[symmetric] n_def Let_def
    by (simp add: lst_def T_def)
  have ub: "heap (mem u) p = Some B" "heap (mem u) (pSdoSegData s) = Some blk" "faulted u = faulted s" "u16SendMbxSize u = u16SendMbxSize s"
    using blk ne by (simp_all add: u_def) (simp add: faulted_def)
  show ?thesis
  proof (cases lst)
    case True
    define t where "t = (mem_free (pSdoSegData s) u)\<lparr>pSdoSegData := NULL, nSdoSegBytesToHandle := 0, nSdoSegService := 0\<rparr>"
    have m: "mem t = mem (mem_free (pSdoSegData s) u)" by (simp add: t_def)
    have "heap (mem t) p = Some B" "heap (mem t) (pSdoSegData s) = None"
      unfolding m using mem_free_other(1)[OF ub(2)] mem_free_other(3)[OF nn ub(2)] ne ub(1) by auto
    moreover have "faulted t = faulted s" using m mem_free_other(2)[OF ub(2)] ub(3) by (simp add: faulted_def)
    moreover have "u16SendMbxSize t = u16SendMbxSize s" using ub(4) by (simp add: t_def mem_free_def)
    ultimately show ?thesis
      using ind True lds segment_data_block[of t p B] B by (simp add: lst_def M_def t_def)
  next
    case False
    have "unat (nSdoSegBytesToHandle s + n) = T + M"
      using False un fits c le by (subst unat_add_lem[THEN iffD1]) (simp_all add: T_def)
    then have "uploading (drop M ds) (u\<lparr>nSdoSegBytesToHandle := nSdoSegBytesToHandle s + n\<rparr>)"
      using ub blk le c nn sv False fits un
      by (auto simp: uploading_def u_def ds get_bytes_def drop_take word_less_nat_alt lst_def add.commute simp flip: C_def)
    moreover have "segment_data p (u\<lparr>nSdoSegBytesToHandle := nSdoSegBytesToHandle s + n\<rparr>) = take M ds"
      using segment_data_block[OF ub(1)] B by (simp add: segment_data_def mem_access)
    ultimately show ?thesis
      using ind False lds ub by (auto simp: lst_def M_def u_def faulted_def)
  qed
qed

lemma uploading_env:
  assumes "uploading ds s" and "seg_env e" and "fst e \<noteq> pSdoSegData s"
  shows "uploading ds (snd e s)" "seg_view (snd e s) = seg_view s" "live (mem (snd e s)) (fst e) (unat (u16SendMbxSize s))"
    "mem_rd8 (fst e) 8 (snd e s) AND SEGHEADER_TOGGLE \<noteq> bSdoSegLastToggle s"
proof -
  have v: "seg_view (snd e s) = seg_view s" "heap (mem (snd e s)) (pSdoSegData s) = heap (mem s) (pSdoSegData s)"
    "live (mem (snd e s)) (fst e) (unat (u16SendMbxSize s))" "mem_rd8 (fst e) 8 (snd e s) AND SEGHEADER_TOGGLE \<noteq> bSdoSegLastToggle s"
    using assms(2,3) unfolding seg_env_def by auto
  then show "uploading ds (snd e s)" using assms(1) unfolding uploading_def seg_view_def by auto
  show "seg_view (snd e s) = seg_view s" "live (mem (snd e s)) (fst e) (unat (u16SendMbxSize s))"
    "mem_rd8 (fst e) 8 (snd e s) AND SEGHEADER_TOGGLE \<noteq> bSdoSegLastToggle s" by (fact v)+
qed

lemma upload_run_complete:
  assumes "uploading ds s" and "9 < unat (u16SendMbxSize s)"
    and "\<forall>e \<in> set evs. seg_env e \<and> fst e \<noteq> pSdoSegData s"
    and "length evs = Suc (length ds div (unat (u16SendMbxSize s) - 9))"
  shows "\<exists>u. upload_run evs s = (ds, u) \<and> nSdoSegService u = 0 \<and> pSdoSegData u = NULL
    \<and> heap (mem u) (pSdoSegData s) = None \<and> faulted u = faulted s"
  using assms
proof (induction evs arbitrary: ds s)
  case (Cons e evs)
  let ?M = "unat (u16SendMbxSize s) - 9"
  note env = uploading_env[OF Cons.prems(1), of e] 
  have e: "seg_env e" "fst e \<noteq> pSdoSegData s" using Cons.prems(3) by auto
  note env = uploading_env[OF Cons.prems(1) e]
  have v: "u16SendMbxSize (snd e s) = u16SendMbxSize s" "pSdoSegData (snd e s) = pSdoSegData s"
    "bSdoSegLastToggle (snd e s) = bSdoSegLastToggle s" "faulted (snd e s) = faulted s"
    using env(2) by (auto simp: seg_view_def)
  obtain t where t: "SdoUploadSegmentInd (fst e) (snd e s) = (0, t)" "segment_data (fst e) t = take ?M ds"
    "faulted t = faulted s" "u16SendMbxSize t = u16SendMbxSize s"
    "if length ds < ?M then nSdoSegService t = 0 \<and> pSdoSegData t = NULL \<and> heap (mem t) (pSdoSegData s) = None
     else uploading (drop ?M ds) t \<and> pSdoSegData t = pSdoSegData s"
    using upload_step[OF env(1), of "fst e"] env(3,4) e(2) Cons.prems(2) unfolding v by blast
  have sv: "nSdoSegService s = SDOSERVICE_UPLOADSEGMENTREQ" using Cons.prems(1) by (auto simp: uploading_def)
  have run: "upload_run (e # evs) s = (let (ds', u) = upload_run evs t in (take ?M ds @ ds', u))"
    using sv t(1,2) by (cases e) simp
  show ?case
  proof (cases "length ds < ?M")
    case True
    then have "evs = []" using Cons.prems(4) by simp
    then show ?thesis using True t run by auto
  next
    case False
    have "length ds div ?M = Suc ((length ds - ?M) div ?M)"
      using False Cons.prems(2) by (simp add: le_div_geq)
    then have len: "length evs = Suc (length (drop ?M ds) div ?M)" using Cons.prems(4) by simp
    have "\<exists>u. upload_run evs t = (drop ?M ds, u) \<and> nSdoSegService u = 0 \<and> pSdoSegData u = NULL
      \<and> heap (mem u) (pSdoSegData t) = None \<and> faulted u = faulted t"
      using False t(4,5) Cons.prems(2,3) len by (intro Cons.IH) auto
    then show ?thesis using run t(3,5) False by auto
  qed
qed simp

section \<open>Download\<close>

text \<open>The buffer of the transfer has room for the object and starts with the bytes received so far.\<close>

definition downloading :: "8 word list \<Rightarrow> 'z sdo_scheme \<Rightarrow> bool" where
  "downloading d s = (\<exists>blk. heap (mem s) (pSdoSegData s) = Some blk \<and> pSdoSegData s \<noteq> NULL
     \<and> unat (nSdoSegCompleteSize s) \<le> length blk \<and> length d < unat (nSdoSegCompleteSize s)
     \<and> unat (nSdoSegBytesToHandle s) = length d \<and> d = get_bytes blk 0 (length d))"

lemma download_aborted_frees:
  assumes "downloading d s"
  shows "pSdoSegData (download_aborted s) = NULL" "heap (mem (download_aborted s)) (pSdoSegData s) = None"
    "faulted (download_aborted s) = faulted s"
  using assms by (auto simp: downloading_def download_aborted_def free_seg_data_def mem_free_def m_free_def faulted_def)

lemma segment_bytes_more:
  assumes "seg AND SEGHEADER_NOMOREFOLLOWS = 0" and "segment_bytes seg p s = (0, n, t)"
  shows "t = s\<lparr>bSdoSegFollows := True\<rparr>" "n = ucast (u16ReceiveMbxSize s - 9)" "n < nSdoSegCompleteSize s - nSdoSegBytesToHandle s"
  using assms by (auto simp: segment_bytes_def Let_def split: if_splits)

lemma segment_bytes_last:
  assumes "seg AND SEGHEADER_NOMOREFOLLOWS \<noteq> 0" and "segment_bytes seg p s = (0, n, t)"
  shows "t = s\<lparr>bSdoSegFollows := False\<rparr>" "n = nSdoSegCompleteSize s - nSdoSegBytesToHandle s" "n \<le> ucast (u16ReceiveMbxSize s - 9)"
  using assms by (auto simp: segment_bytes_def Let_def split: if_splits)

lemma segment_bytes_view: "segment_bytes seg p s = (a, n, t) \<Longrightarrow> \<exists>b. t = s\<lparr>bSdoSegFollows := b\<rparr> \<or> t = s"
  by (auto simp: segment_bytes_def Let_def split: if_splits)

lemma segment_stored:
  assumes "downloading d s" and b: "heap (mem s) p = Some b" and "9 + n \<le> length b" and "length d + n \<le> unat (nSdoSegCompleteSize s)"
    and v: "nSdoSegBytesToHandle v = nSdoSegBytesToHandle s" "pSdoSegData v = pSdoSegData s" "heap (mem v) = heap (mem s)"
  shows "\<exists>blk. buf_store (pSdoSegData v, unat (nSdoSegBytesToHandle v)) (fst (buf_load (p, 9) n v)) (snd (buf_load (p, 9) n v))
      = with_block (pSdoSegData s) blk v
    \<and> unat (nSdoSegCompleteSize s) \<le> length blk \<and> get_bytes blk 0 (length d + n) = d @ get_bytes b 9 n"
proof -
  obtain blk where blk: "heap (mem s) (pSdoSegData s) = Some blk" "unat (nSdoSegCompleteSize s) \<le> length blk"
    "unat (nSdoSegBytesToHandle s) = length d" "d = get_bytes blk 0 (length d)"
    using assms(1) by (auto simp: downloading_def)
  have l: "buf_load (p, 9) n v = (get_bytes b 9 n, v)" using b assms(3) v(3) by (intro buf_load_other) auto
  have len: "length (get_bytes b 9 n) = n" using assms(3) by simp
  let ?blk = "put_bytes (length d) (get_bytes b 9 n) blk"
  have "buf_store (pSdoSegData v, unat (nSdoSegBytesToHandle v)) (get_bytes b 9 n) v = with_block (pSdoSegData s) ?blk v"
    using blk(1-3) assms(4) len by (simp add: v buf_store_def mem_write_def m_write_def with_block_def)
  moreover have "get_bytes ?blk 0 (length d + n) = d @ get_bytes b 9 n"
    using blk(2) assms(4) len blk(4)[symmetric] by (simp add: put_bytes_def get_bytes_def)
  ultimately show ?thesis using l blk(2) assms(4) len by (intro exI[of _ ?blk]) simp
qed

lemma download_answered_frame:
  assumes "heap (mem s) p = Some b" and "10 \<le> length b"
  shows "\<exists>b'. download_answered n p s = with_block p b'
     (if bSdoSegFollows s then s\<lparr>nSdoSegBytesToHandle := nSdoSegBytesToHandle s + n\<rparr> else s\<lparr>nSdoSegBytesToHandle := 0, nSdoSegService := 0\<rparr>)"
proof -
  have "s = with_block p b s" using assms(1) by (rule with_block_self)
  then obtain b' where "download_answered n p s = (if bSdoSegFollows s then (with_block p b' s)\<lparr>nSdoSegBytesToHandle := nSdoSegBytesToHandle s + n\<rparr>
      else (with_block p b' s)\<lparr>nSdoSegBytesToHandle := 0, nSdoSegService := 0\<rparr>)"
  proof -
    assume *: "\<And>b'. download_answered n p s = (if bSdoSegFollows s then (with_block p b' s)\<lparr>nSdoSegBytesToHandle := nSdoSegBytesToHandle s + n\<rparr>
      else (with_block p b' s)\<lparr>nSdoSegBytesToHandle := 0, nSdoSegService := 0\<rparr>) \<Longrightarrow> thesis"
    have "download_answered n p (with_block p b s) = download_answered n p s" by (simp flip: with_block_self[OF assms(1)])
    moreover have "\<exists>b'. download_answered n p (with_block p b s)
      = (if bSdoSegFollows s then (with_block p b' s)\<lparr>nSdoSegBytesToHandle := nSdoSegBytesToHandle s + n\<rparr>
         else (with_block p b' s)\<lparr>nSdoSegBytesToHandle := 0, nSdoSegService := 0\<rparr>)"
      using assms(2) by (auto simp: download_answered_def Let_def)
    ultimately show thesis using * by metis
  qed
  then show ?thesis by (intro exI[of _ b']) (simp add: with_block_def)
qed

lemma downloading_view:
  "downloading d s \<Longrightarrow> pSdoSegData v = pSdoSegData s \<Longrightarrow> mem v = mem s \<Longrightarrow> nSdoSegCompleteSize v = nSdoSegCompleteSize s
   \<Longrightarrow> nSdoSegBytesToHandle v = nSdoSegBytesToHandle s \<Longrightarrow> downloading d v"
  by (simp add: downloading_def)

text \<open>The common part of both cases: a refused segment, or the call with the segment stored.\<close>

lemma buf_load_fields [simp]:
  "pSdoSegData (snd (buf_load b n v)) = pSdoSegData v" "nSdoSegBytesToHandle (snd (buf_load b n v)) = nSdoSegBytesToHandle v"
  by (simp_all add: buf_load_def mem_touch_def split: prod.splits)

lemma download_step:
  assumes d: "downloading d s" and tg: "seg = mem_rd8 p 8 s"
    and sb: "segment_bytes seg p (s\<lparr>bSdoSegLastToggle := seg AND SEGHEADER_TOGGLE\<rparr>) = (a, n, v)"
  shows "SdoDownloadSegmentInd u p s =
    (if seg AND SEGHEADER_TOGGLE = bSdoSegLastToggle s then (ABORTIDX_TOGGLE_BIT_NOT_CHANGED, download_aborted s)
     else if a \<noteq> 0 then (a, download_aborted v)
     else let w = buf_store (pSdoSegData v, unat (nSdoSegBytesToHandle v)) (fst (buf_load (p, 9) (unat n) v)) (snd (buf_load (p, 9) (unat n) v)) in
     if bSdoSegFollows w then (0, download_answered n p w)
     else let ob = the_obj (pSdoSegObjEntry w) w;
              (abort, w) = OBJ_Write u (nSdoSegIndex w) (nSdoSegSubindex w) (nSdoSegCompleteSize w) ob
                             (pSdoSegData w, 0) (bSdoSegAccess w) w in
     if abort = ABORTIDX_WORKING
     then (ABORTIDX_WORKING,
           w\<lparr>u8PendingSdo := SDO_PENDING_SEG_WRITE, bStoreCompleteAccess := bSdoSegAccess w,
             u8StoreSubindex := nSdoSegSubindex w, u16StoreIndex := nSdoSegIndex w,
             u32StoreDataSize := nSdoSegCompleteSize w, pStoreData := (pSdoSegData w, 0), pSdoPendFunc := ObjWrite ob,
             bSdoInWork := True, pSdoResStored := p, bSdoSegFollows := False, nSdoSegService := 0,
             nSdoSegBytesToHandle := 0\<rparr>)
     else let w = (mem_free (pSdoSegData w) w)\<lparr>pSdoSegData := NULL\<rparr> in
     if abort = 0 then (0, download_answered n p w) else (abort, download_aborted w))"
proof -
  have "pSdoSegData s \<noteq> NULL" using d by (auto simp: downloading_def)
  then show ?thesis
    unfolding SdoDownloadSegmentInd_def Let_def tg[symmetric] sb by (simp add: split_beta cong: if_cong)
qed

lemma download_more:
  assumes d: "downloading d s" and b: "heap (mem s) p = Some b" "unat (u16ReceiveMbxSize s) \<le> length b"
    and mbx: "9 < unat (u16ReceiveMbxSize s)" and ne: "p \<noteq> pSdoSegData s"
    and more: "mem_rd8 p 8 s AND SEGHEADER_NOMOREFOLLOWS = 0"
    and ind: "SdoDownloadSegmentInd u p s = (r, t)"
  shows "faulted t = faulted s \<and>
    (if r = 0 then downloading (d @ get_bytes b 9 (unat (u16ReceiveMbxSize s) - 9)) t \<and> pSdoSegData t = pSdoSegData s
     else pSdoSegData t = NULL \<and> heap (mem t) (pSdoSegData s) = None)"
proof -
  let ?seg = "mem_rd8 p 8 s"
  let ?s = "s\<lparr>bSdoSegLastToggle := ?seg AND SEGHEADER_TOGGLE\<rparr>"
  let ?M = "unat (u16ReceiveMbxSize s) - 9"
  obtain a n v where sb: "segment_bytes ?seg p ?s = (a, n, v)" by (cases "segment_bytes ?seg p ?s")
  note step = download_step[OF d refl sb, of u, unfolded ind]
  have v: "downloading d v" "faulted v = faulted s" "pSdoSegData v = pSdoSegData s" "mem v = mem s"
    "nSdoSegBytesToHandle v = nSdoSegBytesToHandle s" "nSdoSegCompleteSize v = nSdoSegCompleteSize s"
    using segment_bytes_view[OF sb] downloading_view[OF d, of v] by (auto simp: faulted_def)
  consider "?seg AND SEGHEADER_TOGGLE = bSdoSegLastToggle s" | "?seg AND SEGHEADER_TOGGLE \<noteq> bSdoSegLastToggle s" "a \<noteq> 0"
    | "?seg AND SEGHEADER_TOGGLE \<noteq> bSdoSegLastToggle s" "a = 0" by blast
  then show ?thesis
  proof cases
    case 1
    then show ?thesis using step download_aborted_frees[OF d] by simp
  next
    case 2
    then show ?thesis using step download_aborted_frees[OF v(1)] v(2,3) by simp
  next
    case 3
    note sbm = segment_bytes_more[OF more sb[unfolded 3]]
    have un: "unat n = ?M" using sbm(2) upload_sizes(1)[OF mbx, of 0 0] by simp
    have lt: "length d + ?M < unat (nSdoSegCompleteSize s)"
      using sbm(3) un d by (auto simp: downloading_def word_less_nat_alt unat_sub word_le_nat_alt)
    obtain blk where blk: "buf_store (pSdoSegData v, unat (nSdoSegBytesToHandle v)) (fst (buf_load (p, 9) (unat n) v)) (snd (buf_load (p, 9) (unat n) v))
        = with_block (pSdoSegData s) blk v"
      "unat (nSdoSegCompleteSize s) \<le> length blk" "get_bytes blk 0 (length d + ?M) = d @ get_bytes b 9 ?M"
      using segment_stored[OF d b(1), of "unat n" v] b(2) mbx lt v un by auto
    let ?w = "with_block (pSdoSegData s) blk v"
    have f: "bSdoSegFollows ?w" using sbm(1) by simp
    have "heap (mem ?w) p = Some b" using ne b(1) v(4) by simp
    from download_answered_frame[OF this, of n] mbx b(2) obtain b' where
      t: "download_answered n p ?w = with_block p b' (?w\<lparr>nSdoSegBytesToHandle := nSdoSegBytesToHandle ?w + n\<rparr>)"
      using f by auto
    have rt: "r = 0" "t = with_block p b' (?w\<lparr>nSdoSegBytesToHandle := nSdoSegBytesToHandle ?w + n\<rparr>)"
      using step 3 f t unfolding blk(1) by (simp_all add: Let_def)
    have c: "unat (nSdoSegCompleteSize s) < 2 ^ LENGTH(32)" by (rule unsigned_less)
    have bd: "unat (nSdoSegBytesToHandle s) = length d" using d by (auto simp: downloading_def)
    have "unat (nSdoSegBytesToHandle s + n) = length d + ?M"
      using lt bd un c by (subst unat_add_lem[THEN iffD1]) simp_all
    then have "downloading (d @ get_bytes b 9 ?M) t"
      using blk(2,3) lt ne d v b(2) mbx unfolding rt(2) downloading_def by auto
    moreover have "faulted t = faulted s" using v(2) unfolding rt(2) by (simp add: faulted_def with_block_def)
    ultimately show ?thesis using rt v(3) by simp
  qed
qed

lemma heap_write: "q \<noteq> p \<or> heap m q = None \<Longrightarrow> heap (m_write p off d m) q = heap m q"
  by (auto simp: m_write_def split: option.splits)

text \<open>Answering changes the buffer of the service and the end of the transfer, nothing else.\<close>

lemma answered_form:
  "\<exists>m h sv. download_answered n p s = s\<lparr>mem := m, nSdoSegBytesToHandle := h, nSdoSegService := sv\<rparr>
    \<and> (\<not> bSdoSegFollows s \<longrightarrow> h = 0 \<and> sv = 0) \<and> (\<forall>q. q \<noteq> p \<or> heap (mem s) q = None \<longrightarrow> heap m q = heap (mem s) q)"
proof -
  have w: "\<exists>m. mem_write p off d x = x\<lparr>mem := m\<rparr> \<and> (\<forall>q. q \<noteq> p \<or> heap (mem x) q = None \<longrightarrow> heap m q = heap (mem x) q)"
    for off d and x :: "'a sdo_scheme"
    using heap_write by (auto simp: mem_write_def)
  obtain m1 where m1: "mem_wr16 p 0 10 s = s\<lparr>mem := m1\<rparr>" "\<forall>q. q \<noteq> p \<or> heap (mem s) q = None \<longrightarrow> heap m1 q = heap (mem s) q"
    using w[of 0 _ s] unfolding mem_access by blast
  obtain m2 where m2: "coe_set_service 3 p (s\<lparr>mem := m1\<rparr>) = s\<lparr>mem := m2\<rparr>" "\<forall>q. q \<noteq> p \<or> heap m1 q = None \<longrightarrow> heap m2 q = heap m1 q"
    using w[of 6 _ "s\<lparr>mem := m1\<rparr>"] unfolding coe_set_service_def mem_access by fastforce
  obtain m3 where m3: "mem_wr8 p 8 (if bSdoSegLastToggle s \<noteq> 0 then SDOSERVICE_DOWNLOADSEGMENTRES OR SEGHEADER_TOGGLE
        else SDOSERVICE_DOWNLOADSEGMENTRES) (s\<lparr>mem := m2\<rparr>) = s\<lparr>mem := m3\<rparr>" "\<forall>q. q \<noteq> p \<or> heap m2 q = None \<longrightarrow> heap m3 q = heap m2 q"
    using w[of 8 _ "s\<lparr>mem := m2\<rparr>"] unfolding mem_access by fastforce
  have "\<forall>q. q \<noteq> p \<or> heap (mem s) q = None \<longrightarrow> heap m3 q = heap (mem s) q" using m1(2) m2(2) m3(2) by metis
  moreover have "download_answered n p s = (if bSdoSegFollows s then s\<lparr>mem := m3, nSdoSegBytesToHandle := nSdoSegBytesToHandle s + n\<rparr>
      else s\<lparr>mem := m3, nSdoSegBytesToHandle := 0, nSdoSegService := 0\<rparr>)"
    using m3(1) by (simp add: download_answered_def Let_def m1(1) m2(1))
  ultimately show ?thesis
    by (cases "bSdoSegFollows s")
      (auto intro!: exI[of _ m3] exI[of _ "nSdoSegBytesToHandle s + n"] exI[of _ "nSdoSegService s"])
qed

text \<open>The state after the last segment, from the state \<open>x\<close> in which \<open>OBJ_Write\<close> has left the stack with
  the result \<open>r\<close>: the pending access is recorded, or the buffer of the transfer is given back and the transfer
  ended, and all else is as \<open>OBJ_Write\<close> left it, but for the answer in the buffer \<open>p\<close> of the service.\<close>

definition download_ended :: "ptr \<Rightarrow> tobject \<Rightarrow> 8 word \<Rightarrow> 'z sdo_scheme \<Rightarrow> 'z sdo_scheme \<Rightarrow> bool" where
  "download_ended p ob r x t =
    (if r = ABORTIDX_WORKING
     then t = x\<lparr>u8PendingSdo := SDO_PENDING_SEG_WRITE, bStoreCompleteAccess := bSdoSegAccess x,
            u8StoreSubindex := nSdoSegSubindex x, u16StoreIndex := nSdoSegIndex x, u32StoreDataSize := nSdoSegCompleteSize x,
            pStoreData := (pSdoSegData x, 0), pSdoPendFunc := ObjWrite ob, bSdoInWork := True, pSdoResStored := p,
            bSdoSegFollows := False, nSdoSegService := 0, nSdoSegBytesToHandle := 0\<rparr>
     else \<exists>m f h sv. t = x\<lparr>mem := m, pSdoSegData := NULL, bSdoSegFollows := f, nSdoSegBytesToHandle := h, nSdoSegService := sv\<rparr>
       \<and> (r \<noteq> 0 \<or> \<not> bSdoSegFollows x \<longrightarrow> \<not> f \<and> h = 0 \<and> sv = 0)
       \<and> (pSdoSegData x \<noteq> NULL \<longrightarrow> heap m (pSdoSegData x) = None)
       \<and> (\<forall>q. q \<noteq> p \<and> q \<noteq> pSdoSegData x \<longrightarrow> heap m q = heap (mem x) q))"

lemma freed_ended:
  assumes "r \<noteq> ABORTIDX_WORKING" and y: "y = (mem_free (pSdoSegData x) x)\<lparr>pSdoSegData := NULL\<rparr>"
    and "t = (if r = 0 then download_answered n p y else download_aborted y)"
  shows "download_ended p ob r x t"
proof -
  have h: "pSdoSegData x \<noteq> NULL \<longrightarrow> heap (mem y) (pSdoSegData x) = None"
    "q \<noteq> pSdoSegData x \<Longrightarrow> heap (mem y) q = heap (mem x) q" for q
    by (auto simp: y mem_free_def m_free_def split: option.splits)
  have yx: "y = x\<lparr>mem := mem y, pSdoSegData := NULL\<rparr>" by (simp add: y mem_free_def)
  show ?thesis
  proof (cases "r = 0")
    case True
    obtain m b sv where a: "download_answered n p y = y\<lparr>mem := m, nSdoSegBytesToHandle := b, nSdoSegService := sv\<rparr>"
      "\<not> bSdoSegFollows y \<longrightarrow> b = 0 \<and> sv = 0" "\<forall>q. q \<noteq> p \<or> heap (mem y) q = None \<longrightarrow> heap m q = heap (mem y) q"
      using answered_form by blast
    have f: "bSdoSegFollows y = bSdoSegFollows x" by (simp add: y mem_free_def)
    have "t = x\<lparr>mem := m, pSdoSegData := NULL, bSdoSegFollows := bSdoSegFollows x, nSdoSegBytesToHandle := b, nSdoSegService := sv\<rparr>"
      using assms(3) True a(1) yx by (simp add: y mem_free_def)
    moreover have "pSdoSegData x \<noteq> NULL \<longrightarrow> heap m (pSdoSegData x) = None"
      "\<forall>q. q \<noteq> p \<and> q \<noteq> pSdoSegData x \<longrightarrow> heap m q = heap (mem x) q" using a(3) h by metis+
    ultimately show ?thesis using assms(1) True a(2) f unfolding download_ended_def
      by (simp only: if_False) (rule exI[of _ m], rule exI[of _ "bSdoSegFollows x"], rule exI[of _ b], rule exI[of _ sv], auto)
  next
    case False
    then have "t = x\<lparr>mem := mem y, pSdoSegData := NULL, bSdoSegFollows := False, nSdoSegBytesToHandle := 0, nSdoSegService := 0\<rparr>"
      using assms(3) by (simp add: download_aborted_def free_seg_data_def y mem_free_def)
    then show ?thesis using assms(1) h unfolding download_ended_def
      by (simp only: if_False) (rule exI[of _ "mem y"], rule exI[of _ False], rule exI[of _ 0], rule exI[of _ 0], auto)
  qed
qed

lemma aborted_vars: "var_bytes v (download_aborted s) = var_bytes v s"
  by (cases v) (simp_all add: download_aborted_def free_seg_data_def mem_free_def)

lemma download_last:
  assumes d: "downloading d s" and b: "heap (mem s) p = Some b" "unat (u16ReceiveMbxSize s) \<le> length b"
    and mbx: "9 < unat (u16ReceiveMbxSize s)" and ne: "p \<noteq> pSdoSegData s"
    and lst: "mem_rd8 p 8 s AND SEGHEADER_NOMOREFOLLOWS \<noteq> 0"
    and c: "c = (if mem_rd8 p 8 s AND SEGHEADER_TOGGLE = bSdoSegLastToggle s then ABORTIDX_TOGGLE_BIT_NOT_CHANGED
      else fst (segment_bytes (mem_rd8 p 8 s) p s))"
    and n: "n = unat (nSdoSegCompleteSize s) - length d"
    and ind: "SdoDownloadSegmentInd u p s = (r, t)"
  shows "if c \<noteq> 0 then r = c \<and> pSdoSegData t = NULL \<and> heap (mem t) (pSdoSegData s) = None \<and> faulted t = faulted s
        \<and> (\<forall>v. var_bytes v t = var_bytes v s)
    else n \<le> unat (u16ReceiveMbxSize s) - 9
      \<and> (\<exists>blk w x. w = with_block (pSdoSegData s) blk (s\<lparr>bSdoSegLastToggle := mem_rd8 p 8 s AND SEGHEADER_TOGGLE, bSdoSegFollows := False\<rparr>)
        \<and> get_bytes blk 0 (unat (nSdoSegCompleteSize s)) = d @ get_bytes b 9 n
        \<and> OBJ_Write u (nSdoSegIndex s) (nSdoSegSubindex s) (nSdoSegCompleteSize s) (the_obj (pSdoSegObjEntry s) s)
            (pSdoSegData s, 0) (bSdoSegAccess s) w = (r, x)
        \<and> download_ended p (the_obj (pSdoSegObjEntry s) s) r x t)"
proof -
  let ?seg = "mem_rd8 p 8 s"
  let ?s = "s\<lparr>bSdoSegLastToggle := ?seg AND SEGHEADER_TOGGLE\<rparr>"
  obtain a k v where sb: "segment_bytes ?seg p ?s = (a, k, v)" by (cases "segment_bytes ?seg p ?s")
  have a: "fst (segment_bytes ?seg p s) = a"
    using sb by (auto simp: segment_bytes_def Let_def mem_rd16_def split: if_splits)
  note step = download_step[OF d refl sb, of u, unfolded ind]
  have v: "downloading d v" "faulted v = faulted s" "pSdoSegData v = pSdoSegData s" "mem v = mem s"
    "nSdoSegBytesToHandle v = nSdoSegBytesToHandle s" "nSdoSegCompleteSize v = nSdoSegCompleteSize s"
    using segment_bytes_view[OF sb] downloading_view[OF d, of v] by (auto simp: faulted_def)
  have vv: "var_bytes z v = var_bytes z s" for z
    using segment_bytes_view[OF sb] by (cases z) auto
  consider "?seg AND SEGHEADER_TOGGLE = bSdoSegLastToggle s" | "?seg AND SEGHEADER_TOGGLE \<noteq> bSdoSegLastToggle s" "a \<noteq> 0"
    | "?seg AND SEGHEADER_TOGGLE \<noteq> bSdoSegLastToggle s" "a = 0" by blast
  then show ?thesis
  proof cases
    case 1
    then show ?thesis using step download_aborted_frees[OF d] c by (simp add: aborted_vars)
  next
    case 2
    then show ?thesis using step download_aborted_frees[OF v(1)] v(2,3) c a vv by (simp add: aborted_vars)
  next
    case 3
    note sbl = segment_bytes_last[OF lst sb[unfolded 3]]
    have dd: "length d < unat (nSdoSegCompleteSize s)" "unat (nSdoSegBytesToHandle s) = length d" using d by (auto simp: downloading_def)
    have un: "unat k = n" using sbl(2) dd n by (simp add: unat_sub word_le_nat_alt)
    have le: "n \<le> unat (u16ReceiveMbxSize s) - 9"
      using sbl(3) upload_sizes(1)[OF mbx, of 0 0] un by (simp add: word_le_nat_alt)
    have room: "9 + n \<le> length b" "length d + n \<le> unat (nSdoSegCompleteSize s)"
      using b(2) mbx le n dd by linarith+
    obtain blk where blk: "buf_store (pSdoSegData v, unat (nSdoSegBytesToHandle v)) (fst (buf_load (p, 9) n v)) (snd (buf_load (p, 9) n v))
        = with_block (pSdoSegData s) blk v"
      "get_bytes blk 0 (length d + n) = d @ get_bytes b 9 n"
      using segment_stored[OF d b(1) room v(5,3)] v(4) by auto
    define w where "w = with_block (pSdoSegData s) blk v"
    have ww: "w = with_block (pSdoSegData s) blk (s\<lparr>bSdoSegLastToggle := ?seg AND SEGHEADER_TOGGLE, bSdoSegFollows := False\<rparr>)"
      using sbl(1) by (simp add: w_def)
    have f: "\<not> bSdoSegFollows w" "nSdoSegIndex w = nSdoSegIndex s" "nSdoSegSubindex w = nSdoSegSubindex s"
      "nSdoSegCompleteSize w = nSdoSegCompleteSize s" "the_obj (pSdoSegObjEntry w) w = the_obj (pSdoSegObjEntry s) s"
      "pSdoSegData w = pSdoSegData s" "bSdoSegAccess w = bSdoSegAccess s"
      unfolding ww by (simp_all add: with_block_def the_obj_def)
    let ?ob = "the_obj (pSdoSegObjEntry s) s"
    obtain r' x where o: "OBJ_Write u (nSdoSegIndex s) (nSdoSegSubindex s) (nSdoSegCompleteSize s) ?ob (pSdoSegData s, 0) (bSdoSegAccess s) w = (r', x)"
      by force
    have "r = r' \<and> download_ended p ?ob r x t"
    proof (cases "r' = ABORTIDX_WORKING")
      case True
      then show ?thesis using step 3 f unfolding un blk(1) w_def[symmetric] Let_def by (simp add: o download_ended_def)
    next
      case False
      define y where "y = (mem_free (pSdoSegData x) x)\<lparr>pSdoSegData := NULL\<rparr>"
      have "r = r'" "t = (if r = 0 then download_answered k p y else download_aborted y)"
        using step 3 f False unfolding un blk(1) w_def[symmetric] Let_def by (auto simp: o y_def split: if_splits)
      then show ?thesis using freed_ended[OF _ y_def, of r t k p ?ob] False by simp
    qed
    moreover have "length d + n = unat (nSdoSegCompleteSize s)" using n dd by simp
    ultimately show ?thesis using c a 3 le blk(2) ww o by auto
  qed
qed

text \<open>The segments before the last one, up to the first refusal.\<close>

definition down_view :: "'z sdo_scheme \<Rightarrow> ptr \<times> 32 word \<times> 32 word \<times> 16 word \<times> bool" where
  "down_view s = (pSdoSegData s, nSdoSegBytesToHandle s, nSdoSegCompleteSize s, u16ReceiveMbxSize s, faulted s)"

definition down_env :: "ptr \<times> ('z sdo_scheme \<Rightarrow> 'z sdo_scheme) \<Rightarrow> bool" where
  "down_env e = (\<forall>s. fst e \<noteq> pSdoSegData s \<longrightarrow>
     down_view (snd e s) = down_view s \<and> heap (mem (snd e s)) (pSdoSegData s) = heap (mem s) (pSdoSegData s)
     \<and> live (mem (snd e s)) (fst e) (unat (u16ReceiveMbxSize s))
     \<and> mem_rd8 (fst e) 8 (snd e s) AND SEGHEADER_NOMOREFOLLOWS = 0)"

fun download_run :: "('z sdo_scheme) coe_user \<Rightarrow> (ptr \<times> ('z sdo_scheme \<Rightarrow> 'z sdo_scheme)) list \<Rightarrow> 'z sdo_scheme
    \<Rightarrow> 8 word \<times> 8 word list \<times> 'z sdo_scheme" where
  "download_run u [] s = (0, [], s)"
| "download_run u ((p, env) # evs) s =
    (let s = env s; d = get_bytes (m_block p (mem s)) 9 (unat (u16ReceiveMbxSize s) - 9); (r, t) = SdoDownloadSegmentInd u p s in
     if r \<noteq> 0 then (r, d, t) else let (r, ds, t) = download_run u evs t in (r, d @ ds, t))"

lemma receive_size_kept: "u16ReceiveMbxSize (download_answered n p s) = u16ReceiveMbxSize s"
  "u16ReceiveMbxSize (with_block p b s) = u16ReceiveMbxSize s"
  by (simp_all add: download_answered_def Let_def coe_set_service_def mem_access mem_write_def with_block_def)

lemma download_more_size:
  assumes "downloading d s" and "mem_rd8 p 8 s AND SEGHEADER_NOMOREFOLLOWS = 0" and "SdoDownloadSegmentInd u p s = (0, t)"
  shows "u16ReceiveMbxSize t = u16ReceiveMbxSize s"
proof -
  let ?seg = "mem_rd8 p 8 s"
  obtain a n v where sb: "segment_bytes ?seg p (s\<lparr>bSdoSegLastToggle := ?seg AND SEGHEADER_TOGGLE\<rparr>) = (a, n, v)"
    by (cases "segment_bytes ?seg p (s\<lparr>bSdoSegLastToggle := ?seg AND SEGHEADER_TOGGLE\<rparr>)")
  have "a = 0 \<Longrightarrow> v = s\<lparr>bSdoSegLastToggle := ?seg AND SEGHEADER_TOGGLE, bSdoSegFollows := True\<rparr>"
    using segment_bytes_more(1)[OF assms(2), of p "s\<lparr>bSdoSegLastToggle := ?seg AND SEGHEADER_TOGGLE\<rparr>" n v] sb by simp
  then show ?thesis
    using download_step[OF assms(1) refl sb, of u, unfolded assms(3)]
    by (auto simp: receive_size_kept Let_def buf_store_def buf_load_def mem_write_def mem_touch_def split: if_splits)
qed

lemma download_run_assembles:
  assumes "downloading d s" and "9 < unat (u16ReceiveMbxSize s)" and "\<forall>e \<in> set evs. down_env e \<and> fst e \<noteq> pSdoSegData s"
    and "download_run u evs s = (r, ds, t)"
  shows "faulted t = faulted s \<and>
    (if r = 0 then downloading (d @ ds) t \<and> pSdoSegData t = pSdoSegData s
     else pSdoSegData t = NULL \<and> heap (mem t) (pSdoSegData s) = None)"
  using assms
proof (induction evs arbitrary: d ds s)
  case (Cons e evs)
  obtain p env where e: "e = (p, env)" by (cases e)
  have "down_env e" "p \<noteq> pSdoSegData s" using Cons.prems(3) e by auto
  then have v: "down_view (env s) = down_view s" "heap (mem (env s)) (pSdoSegData s) = heap (mem s) (pSdoSegData s)"
    "live (mem (env s)) p (unat (u16ReceiveMbxSize s))" "mem_rd8 p 8 (env s) AND SEGHEADER_NOMOREFOLLOWS = 0"
    unfolding down_env_def e by auto
  have w: "u16ReceiveMbxSize (env s) = u16ReceiveMbxSize s" "pSdoSegData (env s) = pSdoSegData s" "faulted (env s) = faulted s"
    using v(1) by (auto simp: down_view_def)
  have d: "downloading d (env s)" using Cons.prems(1) v(1,2) unfolding downloading_def down_view_def by auto
  obtain b where b: "heap (mem (env s)) p = Some b" "unat (u16ReceiveMbxSize s) \<le> length b"
    using v(3) by (auto simp: live_def split: option.splits)
  obtain q t' where ind: "SdoDownloadSegmentInd u p (env s) = (q, t')" by (cases "SdoDownloadSegmentInd u p (env s)")
  note more = download_more[OF d b(1) _ _ _ v(4) ind, unfolded w, OF b(2) Cons.prems(2) \<open>p \<noteq> pSdoSegData s\<close>]
  have blk: "m_block p (mem (env s)) = b" using b(1) by (simp add: m_block_def)
  show ?case
  proof (cases "q = 0")
    case False
    then have "r = q" "t = t'" using Cons.prems(4) ind by (auto simp: e Let_def)
    then show ?thesis using more False by simp
  next
    case True
    obtain ds' where run: "download_run u evs t' = (r, ds', t)"
      "ds = get_bytes b 9 (unat (u16ReceiveMbxSize s) - 9) @ ds'"
      using Cons.prems(4) ind True by (auto simp: e Let_def blk w split: prod.splits)
    have sz: "u16ReceiveMbxSize t' = u16ReceiveMbxSize s" using download_more_size[OF d v(4)] ind True w(1) by simp
    have go: "downloading (d @ get_bytes b 9 (unat (u16ReceiveMbxSize s) - 9)) t'" "pSdoSegData t' = pSdoSegData s" "faulted t' = faulted s"
      using more True by auto
    from Cons.IH[OF go(1) _ _ run(1)] show ?thesis using go(2,3) sz Cons.prems(2,3) run(2) by (cases "r = 0") simp_all
  qed
qed simp

end
