(* ===== verification/ObjFaults.thy ===== *)
theory ObjFaults
  imports ObjBounds
begin

text \<open>
  Which single reads of this slave reach past their variable: exactly those of the sync error entries
  0x1C32:32 and 0x1C33:32, whose word begins at the last byte of the structure \<open>TSYNCMANPAR\<close>.
\<close>

unbundle bit_operations_syntax

section \<open>The entries that lie outside their variable\<close>

text \<open>Once an access was invalid the mark stays.\<close>

lemma faulted_put16_keeps: "faulted s \<Longrightarrow> faulted (buf_put16 b w s)"
  by (auto simp: faulted_def buf_put16_def buf_store_def mem_write_def m_write_def case_prod_unfold split: option.splits)

lemma faulted_load16_keeps: "faulted s \<Longrightarrow> faulted (snd (buf_load16 b s))"
  by (auto simp: faulted_def buf_load16_bytes(2) buf_load_def case_prod_unfold mem_touch_def m_touch_def split: option.splits)

lemma read_bit_faults:
  assumes "std_type e \<in> byte_types" "length (var_bytes v s) < 2 * (unat bo div 16) + 2"
  shows "faulted (snd (read_value e v bo False b s))"
proof -
  have "std_type e \<noteq> 0" using assms(1) by (auto simp: byte_types_def)
  then show ?thesis using assms
    by (auto simp: read_value_def Let_def case_prod_unfold var_load16_notes intro!: faulted_put16_keeps faulted_load16_keeps)
qed

lemma sync_error_object:
  assumes "ob \<in> set (GenObjDic_objects @ ApplicationObjDic_objects)" "sync_error_entry (Index ob) i"
  shows "pEntryDesc ob = asEntryDesc0x1C3x" "objCode ob = OBJCODE_REC" "var_size (pVarPtr ob) = 61" "var_count (pVarPtr ob) = 32"
    "ObjRead ob = None" "i = 32"
  using assms by (auto simp: GenObjDic_objects_def ApplicationObjDic_objects_def sync_error_entry_def end_of_objects_def)

lemma sync_error_offset:
  assumes "pEntryDesc ob = asEntryDesc0x1C3x" "objCode ob = OBJCODE_REC"
  shows "OBJ_GetEntryDesc ob 32 = desc DEFTYPE_BOOLEAN 0x01 ACCESS_READ" "unat (OBJ_GetEntryOffset 32 ob) = 480"
    "\<not> entry_outside ob 32"
proof -
  have e: "ents ob = tl asEntryDesc0x1C3x" using assms by (simp add: ents_def)
  have "bits_before ob 32 = 480" unfolding bits_before_def e asEntryDesc0x1C3x_def by simp
  moreover have "length (ents ob) = 32" unfolding e asEntryDesc0x1C3x_def by simp
  ultimately show "unat (OBJ_GetEntryOffset 32 ob) = 480" using entry_offset[of 32 ob] assms(2) by simp
  show "OBJ_GetEntryDesc ob 32 = desc DEFTYPE_BOOLEAN 0x01 ACCESS_READ" "\<not> entry_outside ob 32"
    using assms by (simp_all add: OBJ_GetEntryDesc_def entry_ix_def entry_at_def entry_outside_def asEntryDesc0x1C3x_def)
qed

lemma read_sync_error_faults:
  assumes ob: "table_object ob" and s: "vars_ok s" and u: "pAPPL_CoeReadInd u = None"
    and e: "sync_error_entry (Index ob) (unat subindex)" and r: "read_rights (OBJ_GetEntryDesc ob (unat subindex)) s"
  shows "faulted (snd (OBJ_Read u (Index ob) subindex n ob b False s))"
proof -
  let ?ob = "ob\<lparr>pPrev := NULL, pNext := NULL\<rparr>"
  have "?ob \<in> set (GenObjDic_objects @ ApplicationObjDic_objects)" "sync_error_entry (Index ?ob) (unat subindex)"
    using ob e by (simp_all add: table_object_def)
  note T = sync_error_object[OF this, simplified]
  have T1: "pEntryDesc ob = asEntryDesc0x1C3x" using T(1) by simp
  have i: "unat subindex = 32" using T by simp
  note O = sync_error_offset[OF T1 T(2)]
  note C = table_object_bounds(2)[OF ob]
  have m: "max_sub ob = 32" using T by (simp add: max_sub_def)
  have a: "ObjAccess (OBJ_GetEntryDesc ob (unat subindex)) \<noteq> 0" unfolding i O(1) by (simp add: desc_access)
  have R: "OBJ_Read u (Index ob) subindex n ob b False s = read_loop (Index ob) 32 ob 32 False [32] b False 0 s"
    using read_single_steps(3)[OF C s u, of subindex n b] a r O(3) T(5) m unfolding i by simp
  have L: "read_loop (Index ob) 32 ob 32 False [32] b False 0 s
      = (case read_value (OBJ_GetEntryDesc ob 32) (pVarPtr ob) (OBJ_GetEntryOffset 32 ob) False b s of
              (Inl abort, s) \<Rightarrow> (abort, s) | (Inr b, s) \<Rightarrow> (0, s))"
    using read_loop_single[OF _ O(3) max_sub_le(3)[OF C], of s 32 b] r unfolding i by simp
  have "faulted (snd (read_value (OBJ_GetEntryDesc ob 32) (pVarPtr ob) (OBJ_GetEntryOffset 32 ob) False b s))"
    by (rule read_bit_faults) (use O var_bytes_size[OF s, of "pVarPtr ob"] T(3) in \<open>simp_all add: std_types byte_types_def\<close>)
  then show ?thesis unfolding R L
    by (cases "read_value (OBJ_GetEntryDesc ob 32) (pVarPtr ob) (OBJ_GetEntryOffset 32 ob) False b s") (auto split: sum.splits)
qed

text \<open>Which single reads of this slave stay inside their memory, exactly.\<close>

lemma read_single_faults:
  assumes ob: "table_object ob" and s: "vars_ok s" and u: "pAPPL_CoeReadInd u = None"
    and n: "n = fst (OBJ_GetObjectLength subindex ob False s)" and b: "buf_live b (2 * ((unat n + 1) div 2)) s"
  shows "faulted (snd (OBJ_Read u (Index ob) subindex n ob b False s))
    = (faulted s \<or> sync_error_entry (Index ob) (unat subindex) \<and> read_rights (OBJ_GetEntryDesc ob (unat subindex)) s)"
proof (cases "sync_error_entry (Index ob) (unat subindex)")
  case False
  then show ?thesis
    using read_single_bounds[OF table_object_bounds(1)[OF ob] table_object_bounds(2)[OF ob] False s u n b] by simp
next
  case True
  show ?thesis
  proof (cases "read_rights (OBJ_GetEntryDesc ob (unat subindex)) s")
    case yes: True
    then show ?thesis using True read_sync_error_faults[OF ob s u True yes] by simp
  next
    case False
    then show ?thesis
      using typed_object_refuses[OF table_object_bounds(3)[OF ob] table_object_bounds(2)[OF ob] s u, of subindex n b] True by simp
  qed
qed

end
