(* ===== verification/ObjWrites.thy ===== *)
theory ObjWrites
  imports ObjBounds
begin

text \<open>
  The entries of this slave that can be written, what a single write of one of them does, and that the
  next read returns what was written.
\<close>

unbundle bit_operations_syntax

section \<open>The writable entries of this slave\<close>

definition desc_fixed :: "entry_desc \<Rightarrow> nat \<Rightarrow> bool" where
  "desc_fixed e bits = (ObjAccess e AND ACCESS_WRITE = 0)"

lemma fixed_rights: "desc_fixed e bits \<Longrightarrow> \<not> write_rights e s"
  by (simp only: desc_fixed_def write_rights_def drop_bit_0 unsigned_0 and_zero_eq zero_and_eq drop_bit_of_0 ucast_0 not_not)

lemma desc_fixed_desc [simp]: "desc_fixed (desc t n a) bits = (a AND ACCESS_WRITE = 0)"
  by (simp add: desc_fixed_def desc_access)

text \<open>Subindex 0 of an object with several entries is never writable, and of the other entries only these.\<close>

definition writable_subs :: "tobject \<Rightarrow> nat list" where
  "writable_subs ob = (if Index ob = 0x10F1 then [2] else if Index ob = 0x1C32 \<or> Index ob = 0x1C33 then [1, 8, 10] else [])"

definition object_guarded :: "tobject \<Rightarrow> bool" where
  "object_guarded ob = (Index ob = 0x10F8
     \<or> (objCode ob \<noteq> OBJCODE_VAR \<longrightarrow> desc_fixed (entry_at ob 0) 0)
       \<and> (Index ob = 0x7010 \<or> check_object desc_fixed ob = Some (writable_subs ob)))"

lemma check_sm_fixed: "entries_check desc_fixed OBJCODE_REC 32 asEntryDesc0x1C3x = Some [1, 8, 10]"
  by (simp add: entries_check_def asEntryDesc0x1C3x_def)

lemma objects_guarded:
  assumes "ob \<in> set (GenObjDic_objects @ ApplicationObjDic_objects)" "Index ob \<noteq> 0xFFFF"
  shows "object_guarded ob"
proof -
  have "list_all (\<lambda>ob. Index ob = 0xFFFF \<or> object_guarded ob) GenObjDic_objects"
    unfolding GenObjDic_objects_def end_of_objects_def list.pred_inject
    by (intro conjI; simp add: object_guarded_def check_sm_fixed writable_subs_def entry_at_def del: One_nat_def)
       (simp_all add: entries_check_def object_tables asEntryDesc0x1C3x_def del: One_nat_def)
  moreover have "list_all (\<lambda>ob. Index ob = 0xFFFF \<or> object_guarded ob) ApplicationObjDic_objects"
    unfolding ApplicationObjDic_objects_def end_of_objects_def list.pred_inject
    by (intro conjI; simp add: object_guarded_def writable_subs_def entry_at_def del: One_nat_def)
       (simp_all add: entries_check_def object_tables del: One_nat_def)
  ultimately show ?thesis using assms by (auto simp: list_all_iff)
qed


text \<open>The objects behind these entries.\<close>

lemma table_object_of_index:
  assumes "ob \<in> set (GenObjDic_objects @ ApplicationObjDic_objects)"
  shows "Index ob = 0x10F1 \<Longrightarrow> pEntryDesc ob = asEntryDesc0x10F1 \<and> objCode ob = OBJCODE_REC \<and> pVarPtr ob = ErrSettings \<and> ObjRead ob = None"
    "Index ob = 0x10F8 \<Longrightarrow> pEntryDesc ob = sEntryDesc0x10F8 \<and> objCode ob = OBJCODE_VAR \<and> pVarPtr ob = TimeStampVar \<and> ObjRead ob = Some FnRead0x10F8"
    "Index ob = 0x1C32 \<Longrightarrow> pEntryDesc ob = asEntryDesc0x1C3x \<and> objCode ob = OBJCODE_REC \<and> pVarPtr ob = SmOutPar \<and> ObjRead ob = None"
    "Index ob = 0x1C33 \<Longrightarrow> pEntryDesc ob = asEntryDesc0x1C3x \<and> objCode ob = OBJCODE_REC \<and> pVarPtr ob = SmInPar \<and> ObjRead ob = None"
    "Index ob = 0x7010 \<Longrightarrow> pEntryDesc ob = asEntryDesc0x7010 \<and> objCode ob = OBJCODE_ARR \<and> pVarPtr ob = PlainVar 12 \<and> ObjRead ob = None"
  using assms by (auto simp: GenObjDic_objects_def ApplicationObjDic_objects_def end_of_objects_def)

lemma object_of_index:
  assumes "table_object ob"
  shows "Index ob = 0x10F1 \<Longrightarrow> pEntryDesc ob = asEntryDesc0x10F1 \<and> objCode ob = OBJCODE_REC \<and> pVarPtr ob = ErrSettings \<and> ObjRead ob = None"
    "Index ob = 0x10F8 \<Longrightarrow> pEntryDesc ob = sEntryDesc0x10F8 \<and> objCode ob = OBJCODE_VAR \<and> pVarPtr ob = TimeStampVar \<and> ObjRead ob = Some FnRead0x10F8"
    "Index ob = 0x1C32 \<Longrightarrow> pEntryDesc ob = asEntryDesc0x1C3x \<and> objCode ob = OBJCODE_REC \<and> pVarPtr ob = SmOutPar \<and> ObjRead ob = None"
    "Index ob = 0x1C33 \<Longrightarrow> pEntryDesc ob = asEntryDesc0x1C3x \<and> objCode ob = OBJCODE_REC \<and> pVarPtr ob = SmInPar \<and> ObjRead ob = None"
    "Index ob = 0x7010 \<Longrightarrow> pEntryDesc ob = asEntryDesc0x7010 \<and> objCode ob = OBJCODE_ARR \<and> pVarPtr ob = PlainVar 12 \<and> ObjRead ob = None"
  using table_object_of_index[of "ob\<lparr>pPrev := NULL, pNext := NULL\<rparr>"] assms by (simp_all add: table_object_def)

lemma first_entry: "OBJ_GetEntryDesc ob 0 = entry_at ob 0"
  by (simp add: OBJ_GetEntryDesc_def entry_ix_def)

lemma writable_sub:
  assumes ob: "table_object ob" and i: "i \<le> flagsMaxSubindex ob" and w: "write_rights (OBJ_GetEntryDesc ob i) s"
  shows "Index ob = 0x10F8 \<or> Index ob = 0x7010 \<and> 0 < i \<or> i \<in> set (writable_subs ob)"
proof -
  let ?ob = "ob\<lparr>pPrev := NULL, pNext := NULL\<rparr>"
  have g: "object_guarded ?ob" using objects_guarded[of ?ob] ob by (simp add: table_object_def)
  have w': "\<not> desc_fixed (OBJ_GetEntryDesc ?ob i) bits" for bits using w fixed_rights[of _ bits s] by auto
  show ?thesis
  proof (rule ccontr)
    assume n: "\<not> ?thesis"
    have z: "i = 0 \<Longrightarrow> objCode ob = OBJCODE_VAR"
      using g w' n first_entry[of ob] by (auto simp: object_guarded_def)
    then have "Index ob \<noteq> 0x7010" using n object_of_index(5)[OF ob] by auto
    then have c: "check_object desc_fixed ?ob = Some (writable_subs ?ob)" using g n by (auto simp: object_guarded_def)
    have "i \<notin> set (writable_subs ?ob)" using n by (auto simp: writable_subs_def simp del: One_nat_def)
    from check_object_entry[OF c _ this] i z w' show False by auto
  qed
qed

text \<open>Types and places of the writable entries.\<close>

lemma value_descs:
  "value_bytes (desc 6 0x10 a) = 2" "value_bytes (desc 7 0x20 a) = 4" "value_bytes (desc 0x1B 0x40 a) = 8"
  by (simp_all add: value_bytes_def std_types word_types_def dword_types_def qword_types_def)

lemma writable_shape:
  assumes ob: "table_object ob" and i: "i \<le> flagsMaxSubindex ob" and w: "write_rights (OBJ_GetEntryDesc ob i) s"
  shows "OBJ_GetEntryDesc ob i =
    (if Index ob = 0x10F8 then desc 0x1B 0x40 (ACCESS_READWRITE OR OBJACCESS_TXPDOMAPPING)
     else if Index ob = 0x7010 then desc 7 0x20 (ACCESS_READWRITE OR OBJACCESS_RXPDOMAPPING)
     else if i = 10 then desc 7 0x20 ACCESS_READWRITE
     else if i = 1 then desc 6 0x10 (ACCESS_READ OR ACCESS_WRITE_PREOP) else desc 6 0x10 ACCESS_READWRITE)"
proof -
  note O = object_of_index[OF ob]
  consider "Index ob = 0x10F8" | "Index ob = 0x7010" "0 < i" | "Index ob = 0x10F1" "i = 2"
    | "Index ob = 0x1C32 \<or> Index ob = 0x1C33" "i = 1 \<or> i = 8 \<or> i = 10"
    using writable_sub[OF ob i w] by (auto simp: writable_subs_def split: if_splits)
  then show ?thesis
  proof cases
    case 1
    then have "i = 0" using O(2) i table_object_bounds(2)[OF ob] by (simp add: object_counts_def)
    then show ?thesis using 1 O(2) by (simp add: first_entry entry_at_def sEntryDesc0x10F8_def)
  next
    case 2
    then show ?thesis using O(5) by (simp add: OBJ_GetEntryDesc_def entry_ix_def entry_at_def asEntryDesc0x7010_def)
  next
    case 3
    then show ?thesis using O(1) by (simp add: OBJ_GetEntryDesc_def entry_ix_def entry_at_def asEntryDesc0x10F1_def)
  next
    case 4
    then show ?thesis using O(3,4) by (auto simp: OBJ_GetEntryDesc_def entry_ix_def entry_at_def asEntryDesc0x1C3x_def)
  qed
qed

lemma rights_read:
  assumes "a = 0x3F \<or> a = 0x7F \<or> a = 0xBF \<or> a = 0x0F" "write_rights (desc t n a) s"
  shows "read_rights (desc t n a) s"
proof -
  have "2 AND x = 0" if x: "0xE AND x = 0" for x :: "8 word"
  proof -
    have "2 AND x = (2 AND 0xE) AND x" by simp
    also have "\<dots> = 2 AND (0xE AND x)" by (rule and.assoc)
    finally show ?thesis using x by simp
  qed
  then show ?thesis using assms by (auto simp: read_rights_def write_rights_def desc_access)
qed

lemma writable_entry:
  assumes ob: "table_object ob" and i: "i \<le> flagsMaxSubindex ob" and w: "write_rights (OBJ_GetEntryDesc ob i) s"
  shows "value_entry ob i" "objCode ob \<noteq> OBJCODE_VAR \<Longrightarrow> 2 \<le> value_off ob i"
    "BIT2BYTE (BitLength (OBJ_GetEntryDesc ob i)) = value_bytes (OBJ_GetEntryDesc ob i)"
    "\<not> pdo_object (Index ob)" "read_rights (OBJ_GetEntryDesc ob i) s"
proof -
  let ?e = "OBJ_GetEntryDesc ob i"
  note E = writable_shape[OF ob i w] and O = object_of_index[OF ob]
  note T = object_typed_entry[OF table_object_bounds(3)[OF ob] i]
  show b: "BIT2BYTE (BitLength ?e) = value_bytes ?e"
    unfolding E by (auto simp: value_descs BIT2BYTE_def) (simp_all add: desc_def)
  have v: "0 < value_bytes ?e" unfolding E by (auto simp: value_descs)
  have z: "i = 0 \<Longrightarrow> objCode ob = OBJCODE_VAR"
    using writable_sub[OF ob i w] O(2) by (auto simp: writable_subs_def split: if_splits)
  have t: "desc_typed ?e (unat (OBJ_GetEntryOffset i ob))"
    "objCode ob \<noteq> OBJCODE_VAR \<Longrightarrow> 16 \<le> unat (OBJ_GetEntryOffset i ob)" using T(2) z by auto
  then have "unat (OBJ_GetEntryOffset i ob) mod 16 = 0"
    using value_types(1,2)[OF v] by (auto simp: desc_typed_def)
  then show "value_entry ob i" using v T(1) z odd_bits_aligned by (auto simp: value_entry_def)
  show "objCode ob \<noteq> OBJCODE_VAR \<Longrightarrow> 2 \<le> value_off ob i" using t(2) by (simp add: value_off_def)
  show "\<not> pdo_object (Index ob)"
    using writable_sub[OF ob i w]
    by (auto simp: writable_subs_def pdo_object_def IS_PDO_ASSIGN_def IS_RX_PDO_def IS_TX_PDO_def word_le_nat_alt split: if_splits)
  show "read_rights ?e s" using w unfolding E by (auto intro!: rights_read split: if_splits)
qed

section \<open>Storing a value in its variable\<close>

lemma writable_offsets:
  assumes ob: "table_object ob" and i: "i \<le> flagsMaxSubindex ob"
  shows "Index ob = 0x10F1 \<Longrightarrow> i = 2 \<Longrightarrow> value_off ob i = 6" "Index ob = 0x10F8 \<Longrightarrow> value_off ob i = 0"
    "Index ob = 0x1C32 \<or> Index ob = 0x1C33 \<Longrightarrow> i = 1 \<Longrightarrow> value_off ob i = 2"
    "Index ob = 0x1C32 \<or> Index ob = 0x1C33 \<Longrightarrow> i = 8 \<Longrightarrow> value_off ob i = 26"
    "Index ob = 0x1C32 \<or> Index ob = 0x1C33 \<Longrightarrow> i = 10 \<Longrightarrow> value_off ob i = 32"
proof -
  note O = object_of_index[OF ob]
  have sm: "ents ob = tl asEntryDesc0x1C3x" "objCode ob = OBJCODE_REC" if "Index ob = 0x1C32 \<or> Index ob = 0x1C33"
    using O(3,4) that by (auto simp: ents_def)
  have off: "value_off ob i = 2 * (unat (of_nat (bits_before ob i) :: 16 word) div 16)"
    if "0 < i" "i \<le> length (ents ob)" "objCode ob \<noteq> OBJCODE_VAR"
    using entry_offset[OF that] by (simp add: value_off_def)
  show "Index ob = 0x10F8 \<Longrightarrow> value_off ob i = 0" using O(2) by (simp add: value_off_def OBJ_GetEntryOffset_def)
  show "value_off ob i = 6" if a: "Index ob = 0x10F1" "i = 2"
  proof -
    have e: "ents ob = tl asEntryDesc0x10F1" using O(1)[OF a(1)] by (simp add: ents_def)
    show ?thesis using off O(1)[OF a(1)] a(2) unfolding bits_before_def e asEntryDesc0x10F1_def by simp
  qed
  show "value_off ob i = 2" if a: "Index ob = 0x1C32 \<or> Index ob = 0x1C33" "i = 1"
    using off sm[OF a(1)] a(2) unfolding bits_before_def sm(1)[OF a(1)] asEntryDesc0x1C3x_def by simp
  show "value_off ob i = 26" if a: "Index ob = 0x1C32 \<or> Index ob = 0x1C33" "i = 8"
    using off sm[OF a(1)] a(2) unfolding bits_before_def sm(1)[OF a(1)] asEntryDesc0x1C3x_def by simp
  show "value_off ob i = 32" if a: "Index ob = 0x1C32 \<or> Index ob = 0x1C33" "i = 10"
    using off sm[OF a(1)] a(2) unfolding bits_before_def sm(1)[OF a(1)] asEntryDesc0x1C3x_def by simp
qed

lemma two_bytes: "length d = 2 \<Longrightarrow> d = le16_bytes (get16 d 0)"
  by (auto simp: le16_bytes_get16 byte_at_def length_Suc_conv numeral_eq_Suc)

lemma four_bytes: "length d = 4 \<Longrightarrow> d = le32_bytes (get32 d 0)"
  by (auto simp: get32_def le32_bytes_le32 byte_at_def length_Suc_conv numeral_eq_Suc)

lemma eight_bytes: "length d = 8 \<Longrightarrow> d = le64_bytes (get64 d 0)"
proof -
  assume d: "length d = 8"
  have lo: "ucast (ucast a OR push_bit 32 (ucast c :: 64 word)) = a" for a c :: "32 word"
    by (rule bit_word_eqI) (auto simp: bit_simps)
  have hi: "ucast (drop_bit 32 (ucast a OR push_bit 32 (ucast c :: 64 word))) = c" for a c :: "32 word"
    by (rule bit_word_eqI) (auto simp: bit_simps dest: bit_imp_le_length)
  have "le64_bytes (get64 d 0) = le32_bytes (get32 d 0) @ le32_bytes (get32 d 4)"
    unfolding le64_bytes_def get64_def lo hi by simp
  also have "\<dots> = d" using d by (auto simp: get32_def le32_bytes_le32 byte_at_def length_Suc_conv numeral_eq_Suc)
  finally show ?thesis ..
qed

text \<open>Where the stored bytes of the stack's variables come back.\<close>

lemma value_stored:
  assumes len: "off + length d \<le> length (var_bytes v p)"
    and at: "(\<exists>k. v = PlainVar k) \<or> v = ErrSettings \<and> off = 6 \<and> length d = 2 \<or> v = TimeStampVar \<and> off = 0 \<and> length d = 8
      \<or> (v = SmOutPar \<or> v = SmInPar) \<and> (off = 2 \<and> length d = 2 \<or> off = 26 \<and> length d = 2 \<or> off = 32 \<and> length d = 4)"
  shows "get_bytes (var_bytes v (var_put v (put_bytes off d (var_bytes v p)) p)) off (length d) = d"
proof -
  have sm: "get_bytes (sm_bytes (sm_of_bytes (put_bytes off d (sm_bytes q)))) off (length d) = d"
    if "off = 2 \<and> length d = 2 \<or> off = 26 \<and> length d = 2 \<or> off = 32 \<and> length d = 4" for q
  proof -
    have l: "length (sm_bytes q) = 61" by (simp add: sm_bytes_def le16_bytes_def le32_bytes_def)
    have "off + length d \<le> length (sm_bytes q)" using that l by auto
    then have g: "2 = length d \<Longrightarrow> get16 (put_bytes off d (sm_bytes q)) off = get16 d 0"
      "4 = length d \<Longrightarrow> get32 (put_bytes off d (sm_bytes q)) off = get32 d 0"
      using two_bytes[of d] four_bytes[of d] get16_put16[of off "sm_bytes q" "get16 d 0"] get32_put32[of off "sm_bytes q" "get32 d 0"] by auto
    have b: "get_bytes (sm_bytes x) 2 2 = le16_bytes (u16SyncType x)" "get_bytes (sm_bytes x) 26 2 = le16_bytes (u16GetCycleTime x)"
      "get_bytes (sm_bytes x) 32 4 = le32_bytes (u32Sync0CycleTime x)" for x
      by (simp_all add: sm_bytes_def le16_bytes_def le32_bytes_def get_bytes_def)
    show ?thesis using that g by (auto simp: b sm_of_bytes_def two_bytes[symmetric] four_bytes[symmetric])
  qed
  have err: "get_bytes (err_bytes x) 6 2 = le16_bytes x" for x
    by (simp add: err_bytes_def le16_bytes_def le32_bytes_def get_bytes_def)
  have e6: "get16 (put_bytes 6 d (err_bytes x)) 6 = get16 d 0" if "length d = 2" for x
    using two_bytes[OF that] get16_put16[of 6 "err_bytes x" "get16 d 0"] by (simp add: err_bytes_def le32_bytes_def)
  have ts: "put_bytes 0 d (le64_bytes x) = d" if "length d = 8" for x
    using that by (simp add: put_bytes_def)
  consider k where "v = PlainVar k" | "v = ErrSettings" "off = 6" "length d = 2" | "v = TimeStampVar" "off = 0" "length d = 8"
    | "v = SmOutPar \<or> v = SmInPar" "off = 2 \<and> length d = 2 \<or> off = 26 \<and> length d = 2 \<or> off = 32 \<and> length d = 4"
    using at by blast
  then show ?thesis
  proof cases
    case 1
    then show ?thesis using len by simp
  next
    case 2
    then show ?thesis by (simp add: e6 err two_bytes[symmetric])
  next
    case 3
    then show ?thesis by (simp add: ts eight_bytes[symmetric]) (simp add: get_bytes_def)
  next
    case 4
    then show ?thesis using sm by auto
  qed
qed


section \<open>What a write of a single entry does\<close>

text \<open>A new synchronisation type (0x1C32:1, 0x1C33:1) that the slave does not support.\<close>

definition sync_type_refused :: "tobject \<Rightarrow> nat \<Rightarrow> buf \<Rightarrow> 'z sdo_scheme \<Rightarrow> bool" where
  "sync_type_refused ob i b s = ((Index ob = 0x1C32 \<or> Index ob = 0x1C33) \<and> i = 1
     \<and> get16 (buf_bytes b 2 s) 0 \<noteq> get16 (var_bytes (pVarPtr ob) s) 2
     \<and> CheckSyncTypeValue (Index ob) (get16 (buf_bytes b 2 s) 0) s \<noteq> 0)"

definition var_frame :: "'z sdo_scheme \<Rightarrow> 'z sdo_scheme \<Rightarrow> bool" where
  "var_frame s p = (mem p = mem s \<and> nAlStatus p = nAlStatus s \<and> obj_vars p = obj_vars s)"

lemma var_frame_length: "var_frame s p \<Longrightarrow> length (var_bytes v p) = length (var_bytes v s)"
  by (cases v) (simp_all add: var_frame_def sm_bytes_def err_bytes_def le16_bytes_def le32_bytes_def)

lemma buf_load16_live: "buf_live b 2 s \<Longrightarrow> buf_load16 b s = (get16 (buf_bytes b 2 s) 0, s)"
  by (simp add: buf_load16_def buf_load_live)

lemma write_word_stores:
  assumes b: "buf_live b 2 s" and off: "off + 2 \<le> length (var_bytes v s)" and "\<not> pdo_object index"
  shows "\<exists>p. var_frame s p \<and> write_word v off index i False b s
    = (if (index = 0x1C32 \<or> index = 0x1C33) \<and> i = 1 \<and> get16 (buf_bytes b 2 s) 0 \<noteq> get16 (var_bytes v s) off
          \<and> CheckSyncTypeValue index (get16 (buf_bytes b 2 s) 0) s \<noteq> 0
       then (Inl (CheckSyncTypeValue index (get16 (buf_bytes b 2 s) 0) s), s)
       else (Inr (buf_skip b 2), var_put v (put_bytes off (buf_bytes b 2 s) (var_bytes v p)) p))"
proof -
  let ?d = "buf_bytes b 2 s"
  let ?new = "get16 ?d 0"
  define sm where "sm = (index = 0x1C32 \<or> index = 0x1C33)"
  define q where "q = (if sm \<and> i = 1 then s\<lparr>bSyncSetByUser := True\<rparr> else s)"
  define p where "p = (if sm \<and> i = 8 then sm_cycle_time_written ?new q else q)"
  have d: "le16_bytes ?new = ?d" using two_bytes[of ?d] by simp
  have f: "var_frame s p" by (simp add: var_frame_def p_def q_def sm_cycle_time_written_def Let_def)
  have st: "var_store v off ?d p = var_put v (put_bytes off ?d (var_bytes v p)) p"
    using off var_frame_length[OF f, of v] by (simp add: var_store_def Let_def)
  have old: "var_load16 v off s = (get16 (var_bytes v s) off, s)"
    using off by (simp add: prod_eq_iff var_load16_value var_load16_state)
  have "write_word v off index i False b s
    = (if sm \<and> i = 1 \<and> ?new \<noteq> get16 (var_bytes v s) off \<and> CheckSyncTypeValue index ?new s \<noteq> 0
       then (Inl (CheckSyncTypeValue index ?new s), s) else (Inr (buf_skip b 2), var_store v off ?d p))"
    using assms(3) unfolding write_word_def buf_load16_live[OF b] sm_def[symmetric] prod.case Let_def
    by (cases "sm \<and> i = 1") (auto simp: pdo_object_def old d p_def q_def)
  then show ?thesis unfolding st sm_def[symmetric] using f by blast
qed

lemma write_value_stores:
  assumes e: "0 < value_bytes e" "\<not> odd_bits bo" and b: "buf_live b (value_bytes e) s"
    and off: "2 * (unat bo div 16) + value_bytes e \<le> length (var_bytes v s)" and "\<not> pdo_object index"
  shows "\<exists>p. var_frame s p \<and> write_value e v index i False bo False b s
    = (if value_bytes e = 2 \<and> (index = 0x1C32 \<or> index = 0x1C33) \<and> i = 1
          \<and> get16 (buf_bytes b 2 s) 0 \<noteq> get16 (var_bytes v s) (2 * (unat bo div 16))
          \<and> CheckSyncTypeValue index (get16 (buf_bytes b 2 s) 0) s \<noteq> 0
       then (Inl (CheckSyncTypeValue index (get16 (buf_bytes b 2 s) 0) s), s)
       else (Inr (buf_skip b (value_bytes e)),
             var_put v (put_bytes (2 * (unat bo div 16)) (buf_bytes b (value_bytes e) s) (var_bytes v p)) p))"
proof (cases "std_type e \<in> word_types")
  case True
  then have w: "value_bytes e = 2" by (simp add: value_bytes_def)
  have "write_value e v index i False bo False b s = write_word v (2 * (unat bo div 16)) index i False b s"
    using value_types(1,2)[OF e(1)] True e(2) by (simp add: write_value_def Let_def)
  with write_word_stores[where b = b and s = s and off = "2 * (unat bo div 16)" and v = v and index = index and i = i] b off assms(5) show ?thesis unfolding w by simp
next
  case False
  then have w: "value_bytes e \<noteq> 2" using value_types(3)[OF e(1)] by auto
  have "write_value e v index i False bo False b s = (Inr (buf_skip b (value_bytes e)), copy_buf v (2 * (unat bo div 16)) b (value_bytes e) s)"
    using value_types[OF e(1)] False e(2) by (auto simp: write_value_def Let_def)
  moreover have "copy_buf v (2 * (unat bo div 16)) b (value_bytes e) s
      = var_put v (put_bytes (2 * (unat bo div 16)) (buf_bytes b (value_bytes e) s) (var_bytes v s)) s"
    using off by (simp add: copy_buf_def buf_load_live[OF b] var_store_def Let_def)
  ultimately show ?thesis using w by (intro exI[of _ s]) (simp add: var_frame_def)
qed

lemma write_single_steps:
  assumes ob: "table_object ob" and s: "vars_ok s" and i: "unat subindex \<le> max_sub ob"
    and w: "write_rights (OBJ_GetEntryDesc ob (unat subindex)) s" and m: "m \<noteq> 0" and u: "pAPPL_CoeWriteInd u = None"
  shows "OBJ_Write u (Index ob) subindex m ob b False s =
    (case write_value (OBJ_GetEntryDesc ob (unat subindex)) (pVarPtr ob) (Index ob) (unat subindex) False
            (OBJ_GetEntryOffset (unat subindex) ob) False b s of (Inl a, t) \<Rightarrow> (a, t) | (Inr _, t) \<Rightarrow> (0, t))"
proof -
  let ?i = "unat subindex"
  note C = table_object_bounds(2)[OF ob] and M = max_sub_le[OF C]
  have i': "?i \<le> flagsMaxSubindex ob" using i M(1) by simp
  note W = writable_entry[OF ob i' w]
  have e: "\<not> entry_outside ob ?i" "?i = 0 \<longrightarrow> objCode ob = OBJCODE_VAR" using W(1) by (simp_all add: value_entry_def)
  have n: "ObjWrite ob = None" using C by (simp add: object_counts_def)
  obtain r t where L: "write_loop (Index ob) ?i ob False False [?i..<?i + 1] b False ABORTIDX_READ_ONLY_ENTRY s = (r, t)" by force
  have V: "(case write_value (OBJ_GetEntryDesc ob ?i) (pVarPtr ob) (Index ob) ?i False (OBJ_GetEntryOffset ?i ob) False b s of
         (Inl a, t) \<Rightarrow> (a, t) | (Inr _, t) \<Rightarrow> (0, t)) = (r, t)"
    unfolding L[symmetric] using e w by (cases "?i = 0") (simp_all add: Let_def split: prod.splits sum.splits)
  have c: "coe_ind (pAPPL_CoeWriteInd u) index sub ca x = x" for index sub ca x by (simp add: coe_ind_def u)
  show ?thesis
  proof (cases "objCode ob = OBJCODE_VAR")
    case True
    then have "\<not> 0 < ?i" using i' M(2) by simp
    then show ?thesis using True e(1) w m n W(4) L unfolding V
      by (simp only: OBJ_Write_def Let_def c) (simp add: c del: write_loop.simps upt_Suc)
  next
    case False
    then show ?thesis
      using e(1) w m n W(4) i load_count[OF C s False] L unfolding V
      by (simp add: OBJ_Write_def Let_def c max_sub_def not_less del: write_loop.simps upt_Suc)
  qed
qed

lemma var_put_frame:
  "mem (var_put v bs s) = mem s" "nAlStatus (var_put v bs s) = nAlStatus s"
  by (cases v; simp)+

lemma vars_ok_put:
  assumes "vars_ok p" "off + length d \<le> length (var_bytes v p)" "\<And>k. v = PlainVar k \<Longrightarrow> 2 \<le> off"
  shows "vars_ok (var_put v (put_bytes off d (var_bytes v p)) p)"
proof (cases v)
  case (PlainVar k)
  then have "2 \<le> off" "off + length d \<le> length (obj_vars p k)" using assms(2,3) by auto
  then have "byte_at (put_bytes off d (obj_vars p k)) 0 = byte_at (obj_vars p k) 0" by (simp add: byte_at_put_bytes)
  then show ?thesis using assms(1,2) PlainVar by (simp add: vars_ok_def)
qed (use assms(1) in \<open>simp_all add: vars_ok_def\<close>)

lemma written_entry:
  assumes ob: "table_object ob" and s: "vars_ok s" and i: "unat subindex \<le> max_sub ob"
    and r: "write_rights (OBJ_GetEntryDesc ob (unat subindex)) s" and m: "m \<noteq> 0" and u: "pAPPL_CoeWriteInd u = None"
    and w: "w = value_bytes (OBJ_GetEntryDesc ob (unat subindex))" and b: "buf_live b w s"
  shows "\<exists>t. OBJ_Write u (Index ob) subindex m ob b False s
      = (if sync_type_refused ob (unat subindex) b s then (CheckSyncTypeValue (Index ob) (get16 (buf_bytes b 2 s) 0) s, s) else (0, t))
    \<and> get_bytes (var_bytes (pVarPtr ob) t) (value_off ob (unat subindex)) w = buf_bytes b w s
    \<and> value_off ob (unat subindex) + w \<le> length (var_bytes (pVarPtr ob) t)
    \<and> vars_ok t \<and> mem t = mem s \<and> nAlStatus t = nAlStatus s"
proof -
  let ?i = "unat subindex"
  let ?e = "OBJ_GetEntryDesc ob ?i" and ?v = "pVarPtr ob" and ?o = "value_off ob ?i" and ?d = "buf_bytes b w s"
  note C = table_object_bounds[OF ob] and M = max_sub_le[OF C(2)] and O = object_of_index[OF ob]
  have i': "?i \<le> flagsMaxSubindex ob" using i M(1) by simp
  note W = writable_entry[OF ob i' r] and S = writable_sub[OF ob i' r] and F = writable_offsets[OF ob i'] and E = writable_shape[OF ob i' r]
  have e: "0 < value_bytes ?e" "\<not> odd_bits (OBJ_GetEntryOffset ?i ob)" using W(1) by (simp_all add: value_entry_def)
  have at: "?v = PlainVar 12 \<or> ?v = ErrSettings \<and> ?o = 6 \<and> w = 2 \<or> ?v = TimeStampVar \<and> ?o = 0 \<and> w = 8
      \<or> (?v = SmOutPar \<or> ?v = SmInPar) \<and> (?o = 2 \<and> w = 2 \<or> ?o = 26 \<and> w = 2 \<or> ?o = 32 \<and> w = 4)"
    using S O F E unfolding w by (auto simp: writable_subs_def value_descs split: if_splits simp del: One_nat_def)
  have "\<not> sync_error_entry (Index ob) ?i"
    using S by (auto simp: sync_error_entry_def writable_subs_def split: if_splits)
  then have "entry_fits ob ?i" using C(1) i' by (auto simp: object_fits_def list_all_iff)
  moreover have "touched ?e = value_bytes ?e" using value_types[OF e(1)] other_types by (auto simp: touched_def)
  ultimately have len: "?o + w \<le> length (var_bytes ?v s)"
    using W(1) var_bytes_size[OF s, of ?v] by (auto simp: entry_fits_def value_entry_def Let_def w)
  obtain p where p: "var_frame s p" "write_value ?e ?v (Index ob) ?i False (OBJ_GetEntryOffset ?i ob) False b s
    = (if w = 2 \<and> (Index ob = 0x1C32 \<or> Index ob = 0x1C33) \<and> ?i = 1 \<and> get16 (buf_bytes b 2 s) 0 \<noteq> get16 (var_bytes ?v s) ?o
          \<and> CheckSyncTypeValue (Index ob) (get16 (buf_bytes b 2 s) 0) s \<noteq> 0
       then (Inl (CheckSyncTypeValue (Index ob) (get16 (buf_bytes b 2 s) 0) s), s)
       else (Inr (buf_skip b w), var_put ?v (put_bytes ?o ?d (var_bytes ?v p)) p))"
    using write_value_stores[where b = b and s = s and v = ?v and index = "Index ob" and i = ?i, OF e,
        folded value_off_def, folded w, OF b len W(4)] by (elim exE conjE)
  define t where "t = var_put ?v (put_bytes ?o ?d (var_bytes ?v p)) p"
  have one: "w = 2 \<and> ?o = 2" if "Index ob = 0x1C32 \<or> Index ob = 0x1C33" "?i = 1"
    using F(3)[OF that] E that by (auto simp: w value_descs)
  have "OBJ_Write u (Index ob) subindex m ob b False s
      = (if sync_type_refused ob ?i b s then (CheckSyncTypeValue (Index ob) (get16 (buf_bytes b 2 s) 0) s, s) else (0, t))"
    using one unfolding write_single_steps[OF ob s i r m u] p(2) sync_type_refused_def t_def by (auto simp del: One_nat_def)
  moreover have l: "?o + length ?d \<le> length (var_bytes ?v p)" using len var_frame_length[OF p(1), of ?v] by simp
  have "get_bytes (var_bytes ?v t) ?o w = ?d"
    using value_stored[OF l] at unfolding t_def by (auto simp del: One_nat_def)
  moreover have vp: "vars_ok p" using s p(1) by (simp add: vars_ok_def var_frame_def)
  have "vars_ok t"
    unfolding t_def by (rule vars_ok_put[OF vp l]) (use W(2) S O in \<open>auto simp: writable_subs_def split: if_splits\<close>)
  moreover from this have "?o + w \<le> length (var_bytes ?v t)" using len var_bytes_size[OF s, of ?v] var_bytes_size[of t ?v] by simp
  moreover have "mem t = mem s" "nAlStatus t = nAlStatus s" using p(1) by (simp_all add: t_def var_put_frame var_frame_def)
  ultimately show ?thesis by blast
qed

lemma mem_fault_store: "buf_live b (length d) s \<Longrightarrow> mem_fault (mem (buf_store b d s)) = mem_fault (mem s)"
  using faulted_store[where b = b and d = d and s = s] by (simp add: faulted_def)

lemma read_back:
  assumes ob: "table_object ob" and t: "vars_ok t" and i: "unat subindex \<le> max_sub ob"
    and e: "value_entry ob (unat subindex)" "read_rights (OBJ_GetEntryDesc ob (unat subindex)) t" and u: "pAPPL_CoeReadInd u = None"
    and n: "ObjRead ob = None" and w: "w = value_bytes (OBJ_GetEntryDesc ob (unat subindex))"
    and len: "value_off ob (unat subindex) + w \<le> length (var_bytes (pVarPtr ob) t)" and b: "buf_live b w t"
  shows "\<exists>t'. OBJ_Read u (Index ob) subindex n' ob b False t = (0, t') \<and> mem_fault (mem t') = mem_fault (mem t)
    \<and> buf_bytes b w t' = get_bytes (var_bytes (pVarPtr ob) t) (value_off ob (unat subindex)) w"
proof -
  let ?v = "pVarPtr ob" and ?o = "value_off ob (unat subindex)"
  note C = table_object_bounds(2)[OF ob] and M = max_sub_le[OF C]
  define d where "d = get_bytes (var_bytes ?v t) ?o w"
  have l: "length d = w" using len by (simp add: d_def)
  have w2: "2 \<le> w" using e(1) value_types(3)[of "OBJ_GetEntryDesc ob (unat subindex)"] by (auto simp: value_entry_def w)
  have "unat subindex \<le> (if objCode ob = OBJCODE_VAR then flagsMaxSubindex ob else si0 ob t)"
    using i load_count(2)[OF C t] by (cases "objCode ob = OBJCODE_VAR") (simp_all add: max_sub_def si0_def)
  from read_single_value[OF e M(3) n u _ this, of n' b]
  have "OBJ_Read u (Index ob) subindex n' ob b False t = (0, copy_var ?v ?o b w t)" using w w2 len by simp
  moreover have "copy_var ?v ?o b w t = buf_store b d t" using var_load_fits[OF len] by (simp add: copy_var_def d_def)
  ultimately show ?thesis using buf_load_store[where b = b and d = d and s = t] mem_fault_store[where b = b and d = d and s = t] b l unfolding d_def[symmetric] by auto
qed

lemma write_then_read:
  assumes ob: "table_object ob" and s: "vars_ok s" and i: "unat subindex \<le> max_sub ob"
    and r: "write_rights (OBJ_GetEntryDesc ob (unat subindex)) s" and m: "m \<noteq> 0" and u: "pAPPL_CoeReadInd u = None" "pAPPL_CoeWriteInd u = None"
    and w: "w = BIT2BYTE (BitLength (OBJ_GetEntryDesc ob (unat subindex)))" and b: "buf_live b w s" "buf_live b' w s"
  shows "if sync_type_refused ob (unat subindex) b s
    then OBJ_Write u (Index ob) subindex m ob b False s = (CheckSyncTypeValue (Index ob) (get16 (buf_bytes b 2 s) 0) s, s)
    else \<exists>t t'. OBJ_Write u (Index ob) subindex m ob b False s = (0, t)
      \<and> get_bytes (var_bytes (pVarPtr ob) t) (value_off ob (unat subindex)) w = buf_bytes b w s
      \<and> OBJ_Read u (Index ob) subindex (of_nat w) ob b' False t = (0, t')
      \<and> buf_bytes b' w t' = (if Index ob = 0x10F8 then le64_bytes (u64Timestamp (COE_SyncTimeStamp t)) else buf_bytes b w s)
      \<and> mem_fault (mem t') = mem_fault (mem s)"
proof -
  let ?i = "unat subindex"
  note C = table_object_bounds[OF ob] and M = max_sub_le[OF C(2)] and O = object_of_index[OF ob]
  have i': "?i \<le> flagsMaxSubindex ob" using i M(1) by simp
  note W = writable_entry[OF ob i' r]
  have wv: "w = value_bytes (OBJ_GetEntryDesc ob ?i)" using w W(3) by simp
  obtain t where t: "OBJ_Write u (Index ob) subindex m ob b False s
      = (if sync_type_refused ob ?i b s then (CheckSyncTypeValue (Index ob) (get16 (buf_bytes b 2 s) 0) s, s) else (0, t))"
    "get_bytes (var_bytes (pVarPtr ob) t) (value_off ob ?i) w = buf_bytes b w s"
    "value_off ob ?i + w \<le> length (var_bytes (pVarPtr ob) t)" "vars_ok t" "mem t = mem s" "nAlStatus t = nAlStatus s"
    using written_entry[OF ob s i r m u(2) wv b(1)] by blast
  have rt: "read_rights (OBJ_GetEntryDesc ob ?i) t" using W(5) t(6) by (simp add: read_rights_def)
  have bt: "buf_live b' w t" using b(2) t(5) by simp
  have "\<exists>t'. OBJ_Read u (Index ob) subindex (of_nat w) ob b' False t = (0, t')
      \<and> buf_bytes b' w t' = (if Index ob = 0x10F8 then le64_bytes (u64Timestamp (COE_SyncTimeStamp t)) else buf_bytes b w s)
      \<and> mem_fault (mem t') = mem_fault (mem s)"
  proof (cases "Index ob = 0x10F8")
    case False
    then have "ObjRead ob = None" using C(2) by (auto simp: object_counts_def split: if_splits)
    from read_back[OF ob t(4) i W(1) rt u(1) this wv t(3) bt, of "of_nat w"] False t(2,5) show ?thesis by auto
  next
    case True
    note T = O(2)[OF True]
    have i0: "?i = 0" using i' M(2) T by simp
    have s0: "subindex = 0" using i0 by (simp add: unat_eq_zero)
    have w8: "w = 8" using writable_shape[OF ob i' r] True by (simp add: wv value_descs)
    have a: "ObjAccess (OBJ_GetEntryDesc ob ?i) \<noteq> 0" using rt by (auto simp: read_rights_def)
    have out: "\<not> entry_outside ob ?i" using W(1) by (simp add: value_entry_def)
    let ?x = "COE_SyncTimeStamp t"
    have bx: "buf_live b' (length (le64_bytes (u64Timestamp ?x))) ?x" using bt w8 by simp
    have "OBJ_Read u (Index ob) subindex (of_nat w) ob b' False t = (0, buf_store b' (le64_bytes (u64Timestamp ?x)) ?x)"
      unfolding read_single_steps(3)[OF C(2) t(4) u(1) i out a rt] using T True s0 w8
      by (simp add: obj_call_def Read0x10F8_def Let_def)
    then show ?thesis using True w8 buf_load_store[OF bx] mem_fault_store[OF bx] t(5) by simp
  qed
  then show ?thesis using t(1,2) by auto
qed

end
