(* ===== verification/ObjLists.thy ===== *)
theory ObjLists
  imports SdoInfo RmcsObjects
begin

text \<open>
  The lists of objects of the SDO information service: what \<open>OBJ_GetNoOfObjects\<close> counts is what
  \<open>OBJ_GetObjectList\<close> hands out, and the fragments of a list hold all its indices in order.
\<close>

unbundle bit_operations_syntax

section \<open>Writes to a buffer\<close>

lemma mem_write_empty: "live (mem s) p off \<Longrightarrow> mem_write p off [] s = s"
  by (auto simp: mem_write_def m_write_def live_def put_bytes_def fun_upd_idem split: option.splits)

lemma put_bytes_append:
  assumes "off + length d \<le> length bs"
  shows "put_bytes (off + length d) e (put_bytes off d bs) = put_bytes off (d @ e) bs"
proof -
  have "take (off + length d) (put_bytes off d bs) = take off bs @ d"
    using assms by (simp add: put_bytes_def)
  moreover have "drop (off + length d + length e) (put_bytes off d bs) = drop (off + (length d + length e)) bs"
    using assms by (simp add: put_bytes_def ac_simps)
  ultimately show ?thesis by (simp add: put_bytes_def[of "off + length d"]) (simp add: put_bytes_def)
qed

lemma mem_write_append:
  assumes "live (mem s) p (off + length d + length e)"
  shows "mem_write p (off + length d) e (mem_write p off d s) = mem_write p off (d @ e) s"
proof -
  obtain bs where "heap (mem s) p = Some bs" "off + length d + length e \<le> length bs"
    using assms by (auto simp: live_def split: option.splits)
  then show ?thesis
    by (simp add: mem_write_def m_write_def put_bytes_append add.assoc)
qed

lemma live_mem_write [simp]: "live (mem (mem_write p off d s)) q n = live (mem s) q n"
  by (auto simp: mem_write_def m_write_def live_def split: option.splits)

lemma mem_write_fields [simp]:
  "dic (mem_write p off d s) = dic s" "pSdoInfoObjEntry (mem_write p off d s) = pSdoInfoObjEntry s"
  "u16SendMbxSize (mem_write p off d s) = u16SendMbxSize s"
  by (simp_all add: mem_write_def)

section \<open>Counting and listing\<close>

definition listed :: "16 word \<Rightarrow> (ptr \<Rightarrow> tobject) \<Rightarrow> ptr list \<Rightarrow> 16 word list" where
  "listed t m xs = map (\<lambda>p. Index (m p)) (filter (\<lambda>p. in_list t (m p)) xs)"

lemma listed_simps [simp]:
  "listed t m [] = []"
  "listed t m (x # xs) = (if in_list t (m x) then Index (m x) # listed t m xs else listed t m xs)"
  "listed t m (xs @ ys) = listed t m xs @ listed t m ys"
  by (simp_all add: listed_def)

lemma count_objects_list:
  "dseg m q p xs NULL \<Longrightarrow> count_objects t m p n = Some (n + of_nat (length (listed t m xs)))"
proof (induction xs arbitrary: q p n)
  case Nil
  then show ?case by (subst count_objects.simps) simp
next
  case (Cons x xs)
  have p: "p = x" "x \<noteq> NULL" and nx: "dseg m x (pNext (m x)) xs NULL" using Cons.prems by auto
  show ?case using p Cons.IH[OF nx]
    by (subst count_objects.simps) (simp add: add.assoc)
qed

lemma number_of_objects:
  "dic_is d xs \<Longrightarrow> OBJ_GetNoOfObjects t d = Some (of_nat (length (listed (ucast t) (obj_mem d) xs)))"
  unfolding OBJ_GetNoOfObjects_def COE_GetObjectDictionary_def dic_is_def
  by (subst count_objects_list) auto

definition index_bytes :: "16 word list \<Rightarrow> 8 word list" where
  "index_bytes ws = concat (map le16_bytes ws)"

lemma index_bytes_simps [simp]:
  "index_bytes [] = []" "index_bytes (w # ws) = le16_bytes w @ index_bytes ws"
  "length (index_bytes ws) = 2 * length ws"
  by (simp_all add: index_bytes_def) (induction ws, simp_all)

abbreviation first_of :: "ptr list \<Rightarrow> ptr" where
  "first_of xs \<equiv> (case xs of [] \<Rightarrow> NULL | x # _ \<Rightarrow> x)"

lemma list_objects_list:
  assumes "dseg (obj_mem (dic s)) q p xs NULL" "live (mem s) (fst b) (snd b + unat sz)"
  shows "\<exists>ys zs. xs = ys @ zs
    \<and> list_objects t p sz b s = Some (first_of zs, sz - 2 * of_nat (length (listed t (obj_mem (dic s)) ys)),
        mem_write (fst b) (snd b) (index_bytes (listed t (obj_mem (dic s)) ys)) s)
    \<and> 2 * length (listed t (obj_mem (dic s)) ys) \<le> unat sz
    \<and> (zs \<noteq> [] \<longrightarrow> unat sz \<le> 2 * length (listed t (obj_mem (dic s)) ys) + 1)"
  using assms
proof (induction xs arbitrary: q p sz b s)
  case Nil
  have "live (mem s) (fst b) (snd b)" using Nil(2) live_mono by (metis le_add1)
  then show ?case using Nil by (intro exI[of _ "[]"]) (subst list_objects.simps, simp add: mem_write_empty)
next
  case (Cons x xs)
  let ?m = "obj_mem (dic s)"
  have p: "p = x" "x \<noteq> NULL" and nx: "dseg ?m x (pNext (?m x)) xs NULL" using Cons.prems(1) by auto
  have lv: "live (mem s) (fst b) (snd b)" using Cons.prems(2) live_mono by (metis le_add1)
  consider "sz \<le> 1" | "\<not> sz \<le> 1" "in_list t (?m x)" | "\<not> sz \<le> 1" "\<not> in_list t (?m x)" by blast
  then show ?case
  proof cases
    case 1
    then have "unat sz \<le> 1" by (simp add: word_le_nat_alt)
    then show ?thesis using 1 p lv
      by - (rule exI[of _ "[]"], rule exI[of _ "x # xs"], subst list_objects.simps, simp add: mem_write_empty)
  next
    case 2
    let ?s = "buf_put16 b (Index (?m x)) s"
    have u: "2 \<le> unat sz" using 2(1) by (simp add: word_le_nat_alt not_le)
    then have u2: "unat (sz - 2) = unat sz - 2" by (simp add: unat_sub_if')
    have w: "?s = mem_write (fst b) (snd b) (le16_bytes (Index (?m x))) s"
      by (simp add: buf_put16_def buf_store_def case_prod_unfold)
    have lv2: "live (mem ?s) (fst (buf_skip b 2)) (snd (buf_skip b 2) + unat (sz - 2))"
    proof -
      have "snd (buf_skip b 2) + unat (sz - 2) = snd b + unat sz" using u u2 by (simp add: buf_skip_def)
      then show ?thesis using Cons.prems(2) by (simp add: w) (simp add: buf_skip_def)
    qed
    have d: "dic ?s = dic s" by (simp add: w)
    obtain ys zs where I: "xs = ys @ zs"
      "list_objects t (pNext (?m x)) (sz - 2) (buf_skip b 2) ?s
        = Some (first_of zs, sz - 2 - 2 * of_nat (length (listed t ?m ys)),
           mem_write (fst (buf_skip b 2)) (snd (buf_skip b 2)) (index_bytes (listed t ?m ys)) ?s)"
      "2 * length (listed t ?m ys) \<le> unat (sz - 2)"
      "zs \<noteq> [] \<longrightarrow> unat (sz - 2) \<le> 2 * length (listed t ?m ys) + 1"
      using Cons.IH[of ?s x "pNext (?m x)" "buf_skip b 2" "sz - 2"] nx lv2 unfolding d by blast
    have "live (mem s) (fst b) (snd b + length (le16_bytes (Index (?m x))) + length (index_bytes (listed t ?m ys)))"
      by (rule live_mono[OF Cons.prems(2)]) (use I(3) u u2 in simp)
    then have "mem_write (fst b) (snd b + 2) (index_bytes (listed t ?m ys)) ?s
      = mem_write (fst b) (snd b) (index_bytes (listed t ?m (x # ys))) s"
      unfolding w using mem_write_append[of s "fst b" "snd b" "le16_bytes (Index (?m x))" "index_bytes (listed t ?m ys)"] 2 by simp
    moreover have "list_objects t p sz b s = list_objects t (pNext (?m x)) (sz - 2) (buf_skip b 2) ?s"
      using 2 p by (subst list_objects.simps) (simp add: the_obj_def Let_def)
    ultimately show ?thesis using I u u2 2(2)
      by - (rule exI[of _ "x # ys"], rule exI[of _ zs], simp add: buf_skip_def algebra_simps, linarith)
  next
    case 3
    obtain ys zs where I: "xs = ys @ zs"
      "list_objects t (pNext (?m x)) sz b s
        = Some (first_of zs, sz - 2 * of_nat (length (listed t ?m ys)), mem_write (fst b) (snd b) (index_bytes (listed t ?m ys)) s)"
      "2 * length (listed t ?m ys) \<le> unat sz" "zs \<noteq> [] \<longrightarrow> unat sz \<le> 2 * length (listed t ?m ys) + 1"
      using Cons.IH[OF nx Cons.prems(2)] by blast
    moreover have "list_objects t p sz b s = list_objects t (pNext (?m x)) sz b s"
      using 3 p by (subst list_objects.simps) (simp add: the_obj_def Let_def)
    ultimately show ?thesis using 3
      by - (rule exI[of _ "x # ys"], rule exI[of _ zs], simp)
  qed
qed

section \<open>Fragments\<close>

definition list_words :: "ptr \<Rightarrow> nat \<Rightarrow> nat \<Rightarrow> 'z mach_scheme \<Rightarrow> 16 word list" where
  "list_words p off n s = map (\<lambda>i. get16 (m_block p (mem s)) (off + 2 * i)) [0..<n]"

lemma index_bytes_nth:
  "i < length ws \<Longrightarrow> index_bytes ws ! (2 * i) = ucast (ws ! i) \<and> index_bytes ws ! (2 * i + 1) = ucast (drop_bit 8 (ws ! i))"
proof (induction ws arbitrary: i)
  case (Cons w ws)
  then show ?case by (cases i) (auto simp: le16_bytes_def nth_append)
qed simp

lemma list_words_write:
  assumes "live (mem s) p (off + 2 * length ws)"
  shows "list_words p off (length ws) (mem_write p off (index_bytes ws) s) = ws"
proof (rule nth_equalityI)
  fix i assume "i < length (list_words p off (length ws) (mem_write p off (index_bytes ws) s))"
  then have i: "i < length ws" by (simp add: list_words_def)
  obtain bs where bs: "heap (mem s) p = Some bs" "off + length (index_bytes ws) \<le> length bs"
    using assms by (auto simp: live_def split: option.splits)
  then have m: "m_block p (mem (mem_write p off (index_bytes ws) s)) = put_bytes off (index_bytes ws) bs"
    by (simp add: mem_write_def m_write_def m_block_def)
  show "list_words p off (length ws) (mem_write p off (index_bytes ws) s) ! i = ws ! i"
    using i index_bytes_nth[OF i] by (simp add: list_words_def m get16_def byte_at_put_bytes[OF bs(2)] le_simps)
qed (simp add: list_words_def)

lemma list_words_frame [simp]:
  "list_words p off n (s\<lparr>nSdoInfoIndex := i\<rparr>) = list_words p off n s"
  "list_words p off n (s\<lparr>pSdoInfoObjEntry := q\<rparr>) = list_words p off n s"
  "list_words p off n (s\<lparr>nSdoInfoFragmentsLeft := w\<rparr>) = list_words p off n s"
  by (simp_all add: list_words_def)

text \<open>Where a list stands between two fragments: the objects \<open>zs\<close> are still to come, and the
  fragments left are as many as they need.\<close>

definition next_index :: "(ptr \<Rightarrow> tobject) \<Rightarrow> ptr list \<Rightarrow> 16 word" where
  "next_index m zs = (case zs of [] \<Rightarrow> 0xFFFF | z # _ \<Rightarrow> Index (m z))"

definition fragments_for :: "nat \<Rightarrow> nat \<Rightarrow> nat" where
  "fragments_for S n = (2 * n + (S - 12) - 1) div (S - 12)"

definition list_cursor :: "16 word \<Rightarrow> ptr list \<Rightarrow> ptr list \<Rightarrow> 'z sdo_scheme \<Rightarrow> bool" where
  "list_cursor t xs zs s =
    (dic_is (dic s) xs \<and> (\<exists>ys. xs = ys @ zs) \<and> pSdoInfoObjEntry s = first_of zs
     \<and> nSdoInfoIndex s = next_index (obj_mem (dic s)) zs \<and> nSdoInfoIndex s \<noteq> 0x1000
     \<and> nSdoInfoFragmentsLeft s = of_nat (fragments_for (unat (u16SendMbxSize s)) (length (listed t (obj_mem (dic s)) zs))))"

lemma listed_few:
  assumes "dic_is d xs"
  shows "length (listed t (obj_mem d) xs) < 2 ^ 16"
proof -
  have "distinct (map (\<lambda>p. Index (obj_mem d p)) xs)" 
    using assms by_index_keys by (auto simp: dic_is_def)
  then have d: "distinct (listed t (obj_mem d) xs)"
    unfolding listed_def by (metis distinct_map_filter)
  have z: "0 \<notin> set (listed t (obj_mem d) xs)"
    by (auto simp: listed_def in_list_def)
  have "card (insert 0 (set (listed t (obj_mem d) xs))) \<le> card (UNIV :: 16 word set)"
    by (rule card_mono) auto
  then show ?thesis using d z by (simp add: distinct_card card_word)
qed

lemma fragments_for_div: "0 < S - 12 \<Longrightarrow> fragments_for S n \<le> 2 * n div (S - 12) + 1"
proof -
  assume a: "0 < S - 12"
  have "(2 * n + (S - 12) - 1) div (S - 12) \<le> (2 * n + (S - 12)) div (S - 12)" by (rule div_le_mono) simp
  also have "\<dots> = 2 * n div (S - 12) + 1" using a div_add_self2[of "S - 12" "2 * n"] by (simp del: diff_is_0_eq)
  finally show ?thesis by (simp add: fragments_for_def)
qed

lemma fragments_small:
  assumes "24 \<le> S - 12" "n < 2 ^ 16"
  shows "fragments_for S n < 2 ^ 16"
proof -
  have "2 * n div (S - 12) \<le> 2 * n div 24" by (rule div_le_mono2) (use assms(1) in auto)
  moreover have "2 * n div 24 \<le> 2 * 65535 div 24" by (rule div_le_mono) (use assms(2) in auto)
  moreover have "fragments_for S n \<le> 2 * n div (S - 12) + 1" by (rule fragments_for_div) (use assms(1) in auto)
  ultimately show ?thesis by simp
qed

text \<open>A fragment with room for \<open>h\<close> of \<open>n\<close> indices leaves one fragment less.\<close>

lemma fragments_for_0 [simp]: "fragments_for S 0 = 0" if "12 < S"
  using that by (simp add: fragments_for_def)

lemma fragments_for_step:
  assumes "12 < S" "2 * h = S - 12" "h \<le> n"
  shows "fragments_for S n = Suc (fragments_for S (n - h))"
proof -
  have "2 * n + (S - 12) - 1 = (2 * (n - h) + (S - 12) - 1) + (S - 12)" using assms by linarith
  moreover have "((2 * (n - h) + (S - 12) - 1) + (S - 12)) div (S - 12) = (2 * (n - h) + (S - 12) - 1) div (S - 12) + 1"
    by (rule div_add_self2) (use assms(1) in simp)
  ultimately show ?thesis by (simp only: fragments_for_def Suc_eq_plus1)
qed

lemma fragments_for_last:
  assumes "12 < S" "0 < n" "2 * n \<le> S - 12"
  shows "fragments_for S n = 1"
proof -
  have "2 * n + (S - 12) - 1 = (2 * n - 1) + (S - 12)" using assms by linarith
  moreover have "((2 * n - 1) + (S - 12)) div (S - 12) = (2 * n - 1) div (S - 12) + 1"
    by (rule div_add_self2) (use assms(1) in simp)
  moreover have "(2 * n - 1) div (S - 12) = 0" by (rule div_less) (use assms in linarith)
  ultimately show ?thesis by (simp only: fragments_for_def)
qed

lemma fragments_for_pos: "12 < S \<Longrightarrow> 0 < n \<Longrightarrow> 0 < fragments_for S n"
  by (auto simp: fragments_for_def div_greater_zero_iff)

lemma dic_suffix: "dic_is d (ys @ zs) \<Longrightarrow> \<exists>q. dseg (obj_mem d) q (first_of zs) zs NULL"
  unfolding dic_is_def dseg_append by (cases zs) auto

lemma listed_index: "w \<in> set (listed t m xs) \<Longrightarrow> 0x1000 \<le> w \<and> (\<exists>y \<in> set xs. Index (m y) = w)"
  by (auto simp: listed_def in_list_def)

lemma next_index_later:
  assumes "dic_is d (xs @ ys @ zs)" "zs = [] \<or> listed t (obj_mem d) ys \<noteq> []"
  shows "next_index (obj_mem d) zs \<noteq> 0x1000"
proof (cases zs)
  case (Cons z zs')
  then obtain w where "w \<in> set (listed t (obj_mem d) ys)" using assms(2) by (cases "listed t (obj_mem d) ys") auto
  then obtain y where y: "y \<in> set ys" "0x1000 \<le> Index (obj_mem d y)" using listed_index by metis
  then have "Index (obj_mem d y) < Index (obj_mem d z)"
    using assms(1) Cons by (auto simp: dic_is_def by_index_def sorted_wrt_append)
  then show ?thesis using y(2) Cons by (auto simp: next_index_def)
qed (simp add: next_index_def)

text \<open>One call of \<open>OBJ_GetObjectList\<close>, from the objects \<open>zs\<close> on.\<close>

lemma object_list_part:
  assumes d: "dic_is (dic s) xs" and xs: "xs = us @ zs" and lv: "live (mem s) p (off + unat sz)"
    and start: "if index = 0x1000 then us = [] \<and> zs \<noteq> [] else pSdoInfoObjEntry s = first_of zs"
    and ev: "even (unat sz)" and two: "2 \<le> unat sz"
  shows "\<exists>ys zs' u. zs = ys @ zs' \<and> 2 * length (listed t (obj_mem (dic s)) ys) \<le> unat sz
    \<and> (zs' \<noteq> [] \<longrightarrow> unat sz = 2 * length (listed t (obj_mem (dic s)) ys))
    \<and> u = mem_write p off (index_bytes (listed t (obj_mem (dic s)) ys)) s
    \<and> OBJ_GetObjectList t index sz (p, off) s
        = Some (sz - 2 * of_nat (length (listed t (obj_mem (dic s)) ys)), next_index (obj_mem (dic s)) zs', 0,
                u\<lparr>pSdoInfoObjEntry := first_of zs'\<rparr>)
    \<and> list_words p off (length (listed t (obj_mem (dic s)) ys)) u = listed t (obj_mem (dic s)) ys
    \<and> next_index (obj_mem (dic s)) zs' \<noteq> 0x1000"
proof -
  let ?m = "obj_mem (dic s)"
  obtain q where q: "dseg ?m q (first_of zs) zs NULL" using dic_suffix d xs by blast
  have st: "(if index = 0x1000 then COE_GetObjectDictionary (dic s) else pSdoInfoObjEntry s) = first_of zs"
  proof (cases "index = 0x1000")
    case True
    then have "dseg ?m NULL (ObjDicList (dic s)) zs NULL" "zs \<noteq> []" using d xs start by (auto simp: dic_is_def)
    then show ?thesis using True dseg_head by (fastforce simp: COE_GetObjectDictionary_def split: list.splits)
  next
    case False
    then show ?thesis using start by simp
  qed
  have nn: "first_of zs \<noteq> NULL \<or> index \<noteq> 0x1000"
    using start q by (cases zs) auto
  obtain ys zs' where L: "zs = ys @ zs'"
    "list_objects t (first_of zs) sz (p, off) s = Some (first_of zs', sz - 2 * of_nat (length (listed t ?m ys)),
        mem_write p off (index_bytes (listed t ?m ys)) s)"
    "2 * length (listed t ?m ys) \<le> unat sz" "zs' \<noteq> [] \<longrightarrow> unat sz \<le> 2 * length (listed t ?m ys) + 1"
    using list_objects_list[OF q, of "(p, off)" sz t] lv by auto
  have full: "zs' \<noteq> [] \<longrightarrow> unat sz = 2 * length (listed t ?m ys)"
    using L(3,4) ev by (auto elim!: evenE)
  have later: "zs' = [] \<or> listed t ?m ys \<noteq> []" using full two by auto
  have fz: "first_of zs' \<noteq> NULL \<longleftrightarrow> zs' \<noteq> []"
    using q dseg_NULL[OF q] unfolding L(1) by (cases zs') auto
  have "OBJ_GetObjectList t index sz (p, off) s
        = Some (sz - 2 * of_nat (length (listed t ?m ys)), next_index ?m zs', 0,
                (mem_write p off (index_bytes (listed t ?m ys)) s)\<lparr>pSdoInfoObjEntry := first_of zs'\<rparr>)"
    using nn fz by (auto simp: OBJ_GetObjectList_def Let_def st L(2) next_index_def the_obj_def split: list.splits)
  moreover have "live (mem s) p (off + 2 * length (listed t ?m ys))"
    by (rule live_mono[OF lv]) (use L(3) in simp)
  ultimately show ?thesis
    using L(1,3) full next_index_later[of "dic s" us ys zs'] d xs later list_words_write by blast
qed

text \<open>Mailboxes of an even size, as large as the code demands.\<close>

definition list_mailbox :: "'z mbx_scheme \<Rightarrow> bool" where
  "list_mailbox s = (even (unat (u16SendMbxSize s)) \<and> MIN_MBX_SIZE \<le> unat (u16SendMbxSize s))"

lemma list_mailbox_sizes:
  assumes "list_mailbox s"
  shows "unat (u16SendMbxSize s - 12) = unat (u16SendMbxSize s) - 12" "unat (u16SendMbxSize s - 14) = unat (u16SendMbxSize s) - 14"
    "even (unat (u16SendMbxSize s) - 12)" "even (unat (u16SendMbxSize s) - 14)"
  using assms by (auto simp: list_mailbox_def unat_sub_if')

lemma word_of_small: "n < 2 ^ 16 \<Longrightarrow> unat (of_nat n :: 16 word) = n"
  by (simp add: unat_of_nat take_bit_nat_eq_self)

lemma word_of_unat: "unat w = n \<Longrightarrow> w = of_nat n"
  by auto

lemma fragment_length:
  assumes "list_mailbox s" "12 \<le> h" "h \<le> 14" "2 * k \<le> unat (u16SendMbxSize s) - h"
  shows "unat (u16SendMbxSize s - (u16SendMbxSize s - of_nat h - 2 * of_nat k) - 6) = h - 6 + 2 * k"
proof -
  have "u16SendMbxSize s - (u16SendMbxSize s - of_nat h - 2 * of_nat k) - 6 = of_nat (h - 6 + 2 * k)"
    using assms(2) by (simp add: of_nat_diff)
  moreover have "h - 6 + 2 * k < 2 ^ 16"
  proof -
    have "unat (u16SendMbxSize s) < 2 ^ 16" using unsigned_less[of "u16SendMbxSize s"] by simp
    moreover have "h \<le> unat (u16SendMbxSize s)" using assms(1,3) by (simp add: list_mailbox_def)
    ultimately show ?thesis using assms(2,4) by linarith
  qed
  ultimately show ?thesis by (simp only: word_of_small)
qed

lemma cursor_fragments:
  assumes "list_cursor t xs zs s" "list_mailbox s"
  shows "unat (nSdoInfoFragmentsLeft s) = fragments_for (unat (u16SendMbxSize s)) (length (listed t (obj_mem (dic s)) zs))"
proof -
  obtain us where us: "xs = us @ zs" using assms(1) by (auto simp: list_cursor_def)
  have d: "dic_is (dic s) xs" using assms(1) by (simp add: list_cursor_def)
  have "length (listed t (obj_mem (dic s)) zs) < 2 ^ 16" using listed_few[OF d, of t] unfolding us by simp
  moreover have "24 \<le> unat (u16SendMbxSize s) - 12" using assms(2) unfolding list_mailbox_def by linarith
  ultimately have "fragments_for (unat (u16SendMbxSize s)) (length (listed t (obj_mem (dic s)) zs)) < 2 ^ 16"
    by (rule fragments_small[rotated])
  from word_of_small[OF this] show ?thesis using assms(1) by (simp add: list_cursor_def)
qed

lemma next_fragment:
  assumes c: "list_cursor (ucast t) xs zs s" and mb: "list_mailbox s" and lv: "live (mem s) p (unat (u16SendMbxSize s))"
    and more: "nSdoInfoFragmentsLeft s \<noteq> 0"
  shows "\<exists>ws zs' n u. list_fragment t p s = Some (0, n, u) \<and> list_words p 12 ((unat n + 6 - 12) div 2) u = ws
    \<and> listed (ucast t) (obj_mem (dic s)) zs = ws @ listed (ucast t) (obj_mem (dic s)) zs'
    \<and> dic u = dic s \<and> u16SendMbxSize u = u16SendMbxSize s \<and> list_cursor (ucast t) xs zs' u
    \<and> unat (nSdoInfoFragmentsLeft s) = Suc (unat (nSdoInfoFragmentsLeft u))"
proof -
  let ?m = "obj_mem (dic s)" and ?S = "unat (u16SendMbxSize s)" and ?t = "ucast t :: 16 word"
  let ?s = "s\<lparr>nSdoInfoFragmentsLeft := nSdoInfoFragmentsLeft s - 1\<rparr>"
  note sz = list_mailbox_sizes[OF mb]
  have S: "36 \<le> ?S" using mb by (simp add: list_mailbox_def)
  obtain us where us: "xs = us @ zs" using c by (auto simp: list_cursor_def)
  have d: "dic_is (dic s) xs" using c by (simp add: list_cursor_def)
  have i: "nSdoInfoIndex s \<noteq> 0x1000" "pSdoInfoObjEntry s = first_of zs" using c unfolding list_cursor_def by blast+
  note fs = cursor_fragments[OF c mb]
  have n0: "0 < length (listed ?t ?m zs)"
    using more fs S unat_eq_zero[of "nSdoInfoFragmentsLeft s"] by (cases "listed ?t ?m zs") auto
  have lv2: "live (mem ?s) p (12 + unat (u16SendMbxSize s - 12))" using lv S by (simp add: sz(1))
  have ds: "dic ?s = dic s" by simp
  have d': "dic_is (dic ?s) xs" using d by simp
  have st: "if nSdoInfoIndex s = 0x1000 then us = [] \<and> zs \<noteq> [] else pSdoInfoObjEntry ?s = first_of zs" using i by simp
  have ev: "even (unat (u16SendMbxSize s - 12))" and two: "2 \<le> unat (u16SendMbxSize s - 12)" using sz S by simp_all
  obtain ys zs' u where P: "zs = ys @ zs'" "2 * length (listed ?t ?m ys) \<le> unat (u16SendMbxSize s - 12)"
    "zs' \<noteq> [] \<longrightarrow> unat (u16SendMbxSize s - 12) = 2 * length (listed ?t ?m ys)"
    "u = mem_write p 12 (index_bytes (listed ?t ?m ys)) ?s"
    "OBJ_GetObjectList ?t (nSdoInfoIndex s) (u16SendMbxSize s - 12) (p, 12) ?s
      = Some (u16SendMbxSize s - 12 - 2 * of_nat (length (listed ?t ?m ys)), next_index ?m zs', 0, u\<lparr>pSdoInfoObjEntry := first_of zs'\<rparr>)"
    "list_words p 12 (length (listed ?t ?m ys)) u = listed ?t ?m ys" "next_index ?m zs' \<noteq> 0x1000"
    using object_list_part[OF d' us lv2 st ev two, of ?t] unfolding ds by blast
  note P = P(1) P(2,3)[unfolded sz(1)] P(4-7)
  let ?k = "length (listed ?t ?m ys)"
  let ?n = "u16SendMbxSize s - (u16SendMbxSize s - 12 - 2 * of_nat ?k) - 6"
  have n: "unat ?n = 6 + 2 * ?k" using fragment_length[OF mb, of 12 ?k] P(2) by simp
  have run: "list_fragment t p s = Some (0, ?n, u\<lparr>pSdoInfoObjEntry := first_of zs', nSdoInfoIndex := next_index ?m zs'\<rparr>)"
    using more P(4,5) by (simp add: list_fragment_def list_start_def)
  have frag: "fragments_for ?S (length (listed ?t ?m zs)) = Suc (fragments_for ?S (length (listed ?t ?m zs')))"
  proof (cases "zs' = []")
    case True
    then show ?thesis using fragments_for_last[of ?S "length (listed ?t ?m zs)"] P(1,2) n0 S by simp
  next
    case False
    then show ?thesis using fragments_for_step[of ?S ?k "length (listed ?t ?m zs)"] P(1,3) S by simp
  qed
  have "unat (nSdoInfoFragmentsLeft s - 1) = fragments_for ?S (length (listed ?t ?m zs'))"
    using frag fs more by (simp add: unat_minus_one)
  then have left: "nSdoInfoFragmentsLeft s - 1 = of_nat (fragments_for ?S (length (listed ?t ?m zs')))"
    by (rule word_of_unat)
  let ?u = "u\<lparr>pSdoInfoObjEntry := first_of zs', nSdoInfoIndex := next_index ?m zs'\<rparr>"
  have fields: "dic ?u = dic s" "u16SendMbxSize ?u = u16SendMbxSize s" "nSdoInfoFragmentsLeft ?u = nSdoInfoFragmentsLeft s - 1"
    by (simp_all add: P(4) mem_write_def)
  have "list_cursor ?t xs zs' ?u"
    unfolding list_cursor_def fields left using d us P(1,7) by simp
  moreover have "list_words p 12 ((unat ?n + 6 - 12) div 2) ?u = listed ?t ?m ys" using n P(6) by simp
  moreover have "unat (nSdoInfoFragmentsLeft s) = Suc (unat (nSdoInfoFragmentsLeft ?u))"
    unfolding fields fs frag using left \<open>unat (nSdoInfoFragmentsLeft s - 1) = _\<close> by simp
  moreover have "listed ?t ?m zs = listed ?t ?m ys @ listed ?t ?m zs'" by (simp add: P(1))
  ultimately show ?thesis using run fields(1,2) by blast
qed

lemma fragments_left_fit: "2 * unat n \<le> unat space \<Longrightarrow> fragments_left n space = 0"
  by (simp add: fragments_left_def)

lemma first_fragment:
  assumes d: "dic_is (dic s) xs" "xs \<noteq> []" and mb: "list_mailbox s" and lv: "live (mem s) p (unat (u16SendMbxSize s))"
    and none: "nSdoInfoFragmentsLeft s = 0"
  shows "\<exists>ws zs' n u. list_fragment t p s = Some (0, n, u) \<and> list_words p 14 ((unat n + 6 - 14) div 2) u = ws
    \<and> listed (ucast t) (obj_mem (dic s)) xs = ws @ listed (ucast t) (obj_mem (dic s)) zs'
    \<and> dic u = dic s \<and> u16SendMbxSize u = u16SendMbxSize s \<and> list_cursor (ucast t) xs zs' u
    \<and> nSdoInfoFragmentsLeft u
        = fragments_left (of_nat (length (listed (ucast t) (obj_mem (dic s)) xs))) (u16SendMbxSize s - 14)"
proof -
  let ?m = "obj_mem (dic s)" and ?S = "unat (u16SendMbxSize s)" and ?t = "ucast t :: 16 word"
  let ?N = "length (listed ?t ?m xs)" and ?sp = "u16SendMbxSize s - 14"
  let ?s = "s\<lparr>nSdoInfoFragmentsLeft := fragments_left (of_nat ?N) ?sp\<rparr>"
  note sz = list_mailbox_sizes[OF mb]
  have S: "36 \<le> ?S" using mb by (simp add: list_mailbox_def)
  have N: "unat (of_nat ?N :: 16 word) = ?N" by (rule word_of_small) (rule listed_few[OF d(1)])
  have ds: "dic ?s = dic s" by simp
  have d': "dic_is (dic ?s) xs" using d by simp
  have us: "xs = [] @ xs" by simp
  have st: "if (0x1000 :: 16 word) = 0x1000 then [] = [] \<and> xs \<noteq> [] else pSdoInfoObjEntry ?s = first_of xs" using d by simp
  have ev: "even (unat ?sp)" and two: "2 \<le> unat ?sp" using sz S by simp_all
  have lv2: "live (mem ?s) p (14 + unat ?sp)" using lv S by (simp add: sz(2))
  obtain ys zs' u where P: "xs = ys @ zs'" "2 * length (listed ?t ?m ys) \<le> unat ?sp"
    "zs' \<noteq> [] \<longrightarrow> unat ?sp = 2 * length (listed ?t ?m ys)"
    "u = mem_write p 14 (index_bytes (listed ?t ?m ys)) ?s"
    "OBJ_GetObjectList ?t 0x1000 ?sp (p, 14) ?s
      = Some (?sp - 2 * of_nat (length (listed ?t ?m ys)), next_index ?m zs', 0, u\<lparr>pSdoInfoObjEntry := first_of zs'\<rparr>)"
    "list_words p 14 (length (listed ?t ?m ys)) u = listed ?t ?m ys" "next_index ?m zs' \<noteq> 0x1000"
    using object_list_part[OF d' us lv2 st ev two, of ?t] unfolding ds by blast
  note P = P(1) P(2,3)[unfolded sz(2)] P(4-7)
  let ?k = "length (listed ?t ?m ys)"
  let ?n = "u16SendMbxSize s - (?sp - 2 * of_nat ?k) - 6"
  have n: "unat ?n = 8 + 2 * ?k" using fragment_length[OF mb, of 14 ?k] P(2) by simp
  let ?u = "u\<lparr>pSdoInfoObjEntry := first_of zs', nSdoInfoIndex := next_index ?m zs'\<rparr>"
  have run: "list_fragment t p s = Some (0, ?n, ?u)"
    using none P(4,5) number_of_objects[OF d(1), of t]
    by (simp add: list_fragment_def list_start_def Let_def)
  have left: "fragments_left (of_nat ?N) ?sp = of_nat (fragments_for ?S (length (listed ?t ?m zs')))"
  proof (cases "unat ?sp < 2 * ?N")
    case True
    then have "zs' \<noteq> []" using P(1,2) by (auto simp: sz(2))
    then have k: "?S - 14 = 2 * ?k" using P(3) by blast
    have "2 * ?N - unat ?sp = 2 * length (listed ?t ?m zs')" using k P(1) by (simp add: sz(2))
    moreover have "unat (?sp + 2) = ?S - 12" using sz(1) by (simp add: algebra_simps)
    ultimately show ?thesis using True S by (simp add: fragments_left_def N fragments_for_def)
  next
    case False
    have "listed ?t ?m zs' = []"
    proof (cases "zs' = []")
      case c: False
      then have "?S - 14 = 2 * ?k" using P(3) by blast
      then show ?thesis using False P(1) by (simp add: sz(2))
    qed simp
    then show ?thesis using False S by (simp add: fragments_left_fit N)
  qed
  have fields: "dic ?u = dic s" "u16SendMbxSize ?u = u16SendMbxSize s"
    "nSdoInfoFragmentsLeft ?u = fragments_left (of_nat ?N) ?sp"
    by (simp_all add: P(4) mem_write_def)
  have "list_cursor ?t xs zs' ?u"
    unfolding list_cursor_def fields left using d P(1,7) by simp
  moreover have "list_words p 14 ((unat ?n + 6 - 14) div 2) ?u = listed ?t ?m ys" using n P(6) by simp
  moreover have "listed ?t ?m xs = listed ?t ?m ys @ listed ?t ?m zs'" by (simp add: P(1))
  ultimately show ?thesis using run fields by blast
qed

section \<open>A whole list\<close>

text \<open>A list is sent in fragments, each in a mailbox buffer of its own; in between, the stack does
  other things, which leave alone what \<open>cursor_view\<close> shows.\<close>

definition cursor_view :: "'z sdo_scheme \<Rightarrow> dictionary \<times> ptr \<times> 16 word \<times> 16 word \<times> 16 word" where
  "cursor_view s = (dic s, pSdoInfoObjEntry s, nSdoInfoIndex s, nSdoInfoFragmentsLeft s, u16SendMbxSize s)"

fun list_run :: "8 word \<Rightarrow> nat \<Rightarrow> (ptr \<times> ('z sdo_scheme \<Rightarrow> 'z sdo_scheme)) list \<Rightarrow> 'z sdo_scheme
    \<Rightarrow> (16 word list \<times> 'z sdo_scheme) option" where
  "list_run t off [] s = Some ([], s)"
| "list_run t off ((p, env) # evs) s =
    (case list_fragment t p (env s) of
       None \<Rightarrow> None
     | Some (abort, n, s) \<Rightarrow>
         (case list_run t 12 evs s of
            None \<Rightarrow> None
          | Some (ws, r) \<Rightarrow> Some (list_words p off ((unat n + 6 - off) div 2) s @ ws, r)))"

definition list_env :: "ptr \<times> ('z sdo_scheme \<Rightarrow> 'z sdo_scheme) \<Rightarrow> bool" where
  "list_env e = (\<forall>s. cursor_view (snd e s) = cursor_view s \<and> live (mem (snd e s)) (fst e) (unat (u16SendMbxSize s)))"

lemma list_env_cursor:
  assumes "list_env (p, env)"
  shows "list_cursor t xs zs (env s) = list_cursor t xs zs s" "list_mailbox (env s) = list_mailbox s"
    "dic (env s) = dic s" "nSdoInfoFragmentsLeft (env s) = nSdoInfoFragmentsLeft s" "u16SendMbxSize (env s) = u16SendMbxSize s"
    "live (mem (env s)) p (unat (u16SendMbxSize (env s)))"
  using assms[unfolded list_env_def, rule_format, of s] by (simp_all add: cursor_view_def list_cursor_def list_mailbox_def)

lemma list_run_rest:
  assumes "list_cursor (ucast t) xs zs s" "list_mailbox s" "\<forall>e \<in> set evs. list_env e"
    "length evs = unat (nSdoInfoFragmentsLeft s)"
  shows "\<exists>u. list_run t 12 evs s = Some (listed (ucast t) (obj_mem (dic s)) zs, u) \<and> nSdoInfoFragmentsLeft u = 0"
  using assms
proof (induction evs arbitrary: s zs)
  case Nil
  then have z: "nSdoInfoFragmentsLeft s = 0" by (simp add: unat_eq_zero)
  have S: "36 \<le> unat (u16SendMbxSize s)" using Nil.prems(2) by (simp add: list_mailbox_def)
  have "listed (ucast t) (obj_mem (dic s)) zs = []"
    using cursor_fragments[OF Nil.prems(1,2)] z S
      fragments_for_pos[of "unat (u16SendMbxSize s)" "length (listed (ucast t) (obj_mem (dic s)) zs)"]
    by (cases "listed (ucast t) (obj_mem (dic s)) zs") auto
  then show ?case using z by simp
next
  case (Cons e evs)
  obtain p env where e: "e = (p, env)" by force
  then have le: "list_env (p, env)" using Cons.prems(3) by simp
  note E = list_env_cursor[OF le]
  have "nSdoInfoFragmentsLeft (env s) \<noteq> 0" using Cons.prems(4) E(4) by auto
  moreover have "list_cursor (ucast t) xs zs (env s)" "list_mailbox (env s)" using E(1,2) Cons.prems(1,2) by blast+
  ultimately obtain ws zs' n u where N: "list_fragment t p (env s) = Some (0, n, u)"
    "list_words p 12 ((unat n + 6 - 12) div 2) u = ws"
    "listed (ucast t) (obj_mem (dic s)) zs = ws @ listed (ucast t) (obj_mem (dic s)) zs'"
    "dic u = dic s" "u16SendMbxSize u = u16SendMbxSize s" "list_cursor (ucast t) xs zs' u"
    "unat (nSdoInfoFragmentsLeft s) = Suc (unat (nSdoInfoFragmentsLeft u))"
    using next_fragment[of t xs zs "env s" p] E(6) unfolding E(3,4,5) by blast
  have "list_mailbox u" using Cons.prems(2) N(5) by (simp add: list_mailbox_def)
  then obtain r where "list_run t 12 evs u = Some (listed (ucast t) (obj_mem (dic u)) zs', r)" "nSdoInfoFragmentsLeft r = 0"
    using Cons.IH[OF N(6)] Cons.prems(3,4) N(7) by auto
  then show ?case using N(1-4) by (simp add: e)
qed

lemma list_run_complete:
  assumes d: "dic_is (dic s) xs" "xs \<noteq> []" and mb: "list_mailbox s" and none: "nSdoInfoFragmentsLeft s = 0"
    and evs: "\<forall>e \<in> set evs. list_env e"
    and len: "length evs = Suc (unat (fragments_left (of_nat (length (listed (ucast t) (obj_mem (dic s)) xs))) (u16SendMbxSize s - 14)))"
  shows "\<exists>u. list_run t 14 evs s = Some (listed (ucast t) (obj_mem (dic s)) xs, u) \<and> nSdoInfoFragmentsLeft u = 0"
proof -
  obtain p env evs' where e: "evs = (p, env) # evs'" using len by (cases evs) auto
  then have le: "list_env (p, env)" using evs by simp
  note E = list_env_cursor[OF le, where s = s]
  have "list_mailbox (env s)" "nSdoInfoFragmentsLeft (env s) = 0" "dic_is (dic (env s)) xs"
    using E mb none d(1) by simp_all
  then obtain ws zs' n u where F: "list_fragment t p (env s) = Some (0, n, u)"
    "list_words p 14 ((unat n + 6 - 14) div 2) u = ws"
    "listed (ucast t) (obj_mem (dic s)) xs = ws @ listed (ucast t) (obj_mem (dic s)) zs'"
    "dic u = dic s" "u16SendMbxSize u = u16SendMbxSize s" "list_cursor (ucast t) xs zs' u"
    "nSdoInfoFragmentsLeft u
        = fragments_left (of_nat (length (listed (ucast t) (obj_mem (dic s)) xs))) (u16SendMbxSize s - 14)"
    using first_fragment[of "env s" xs p t] d(2) E(6) unfolding E(3,5) by blast
  have "list_mailbox u" using mb F(5) by (simp add: list_mailbox_def)
  moreover have "length evs' = unat (nSdoInfoFragmentsLeft u)" using len F(7) by (simp add: e)
  ultimately obtain r where "list_run t 12 evs' u = Some (listed (ucast t) (obj_mem (dic u)) zs', r)" "nSdoInfoFragmentsLeft r = 0"
    using list_run_rest[OF F(6)] evs e by auto
  then show ?thesis using F(1-4) by (simp add: e)
qed

end
