(* ===== verification/EsmInv.thy ===== *)
theory EsmInv
  imports EsmControl
begin

text \<open>
  The invariant of the EtherCAT state machine.  \<open>ctl\<close> collects the control variables; for
  every handler one lemma says which of them it changes, and the transitions are then case
  distinctions over those lemmas.
\<close>

unbundle bit_operations_syntax

section \<open>The control variables\<close>

record esm_ctl =
  c_st :: "8 word"
  c_err :: bool
  c_mbx :: bool
  c_boot :: bool
  c_out :: bool
  c_in :: bool
  c_wait :: bool
  c_tr :: "16 word"

definition ctl :: "'z esm_scheme \<Rightarrow> esm_ctl" where
  "ctl s = \<lparr>c_st = nAlStatus s AND STATE_MASK, c_err = (nAlStatus s AND STATE_CHANGE \<noteq> 0),
     c_mbx = bMbxRunning s, c_boot = bBootMode s,
     c_out = bEcatOutputUpdateRunning s, c_in = bEcatInputUpdateRunning s,
     c_wait = bEcatWaitForAlControlRes s, c_tr = nEcatStateTrans s\<rparr>"

lemma ctl_prims [simp]:
  "ctl (s\<lparr>esc := e\<rparr>) = ctl s" "ctl (s\<lparr>mem := m\<rparr>) = ctl s" "ctl (s\<lparr>hung := h\<rparr>) = ctl s"
  "ctl (s\<lparr>SyncManInfo := i\<rparr>) = ctl s"
  by (simp_all add: ctl_def)

lemma ctl_sm [simp]:
  "ctl (DisableSyncManChannel ch s) = ctl s" "ctl (EnableSyncManChannel ch s) = ctl s"
  "ctl (snd (GetSyncMan ch s)) = ctl s"
  by (simp_all add: sm_ops hw_ops Let_def ctl_def)

lemma ctl_hw [simp]:
  "ctl (HW_EscWriteDWord w a s) = ctl s" "ctl (snd (HW_EscReadDWord a s)) = ctl s"
  "ctl (snd (HW_EscReadWord a s)) = ctl s"
  "ctl (ResetALEventMask m s) = ctl s" "ctl (SetALEventMask m s) = ctl s"
  "ctl (UpdateEEPROMLoadedState s) = ctl s" "ctl (pd_enable s) = ctl s" "ctl (pd_disable s) = ctl s"
  "ctl (BackToInitTransition s) = ctl s"
  by (simp_all add: hw_ops ctl_def ResetALEventMask_def SetALEventMask_def UpdateEEPROMLoadedState_def
      pd_enable_def pd_disable_def BackToInitTransition_def Let_def sm_ops)

lemma ctl_flags [simp]:
  "ctl (s\<lparr>b3BufferMode := b\<rparr>) = ctl s" "ctl (s\<lparr>bWdTrigger := b\<rparr>) = ctl s"
  "ctl (s\<lparr>SMActivate := w\<rparr>) = ctl s"
  by (simp_all add: ctl_def)

lemma ctl_check_parts [simp]:
  "ctl (snd (CheckSm_MailboxWrite s)) = ctl s" "ctl (snd (CheckSm_MailboxRead s)) = ctl s"
  by (simp_all add: CheckSm_MailboxWrite_def CheckSm_MailboxRead_def Let_def case_prod_unfold)

lemma ctl_check_inputs [simp]: "ctl (snd (CheckSm_Inputs s)) = ctl s"
  by (simp add: CheckSm_Inputs_def Let_def case_prod_unfold)

lemma ctl_check_outputs [simp]: "ctl (snd (CheckSm_Outputs s)) = ctl s"
  by (simp add: CheckSm_Outputs_def Let_def case_prod_unfold)

lemma ctl_check_rest [simp]: "ctl (CheckSm_ReadRest ch s) = ctl s"
proof -
  have "ctl (fold (\<lambda>i s. let (sm, s) = GetSyncMan (of_nat i) s in s\<lparr>SMActivate := Settings sm\<rparr>) xs s) = ctl s" for xs and s :: "'a esm_scheme"
    by (induction xs arbitrary: s) (simp_all add: GetSyncMan_def hw_ops Let_def ctl_def)
  then show ?thesis by (simp add: CheckSm_ReadRest_def)
qed

lemma ctl_check [simp]: "ctl (snd (CheckSmSettings ch s)) = ctl s"
  by (simp add: CheckSmSettings_def case_prod_unfold Let_def)

lemma ctl_mem [simp]:
  "ctl (mem_free p s) = ctl s" "ctl (snd (mem_malloc n s)) = ctl s"
  by (simp_all add: mem_ops)

lemma ctl_mbx_fields [simp]:
  "ctl (s\<lparr>u16ReceiveMbxSize := w\<rparr>) = ctl s" "ctl (s\<lparr>u16EscAddrReceiveMbx := w\<rparr>) = ctl s"
  "ctl (s\<lparr>u16SendMbxSize := w\<rparr>) = ctl s" "ctl (s\<lparr>u16EscAddrSendMbx := w\<rparr>) = ctl s"
  "ctl (s\<lparr>u16FoeMaxSendBlockSize := w\<rparr>) = ctl s" "ctl (s\<lparr>psWriteMbx := p\<rparr>) = ctl s"
  "ctl (s\<lparr>bNoMbxMemoryAvailable := b\<rparr>) = ctl s"
  by (simp_all add: ctl_def)

lemma ctl_MBX_Start [simp]: "ctl (snd (MBX_StartMailboxHandler s)) = ctl s"
  by (simp add: MBX_StartMailboxHandler_def Let_def case_prod_unfold)

lemma ctl_esm_fields [simp]:
  "ctl (s\<lparr>bApplEsmPending := b\<rparr>) = ctl s" "ctl (s\<lparr>EsmTimeoutCounter := t\<rparr>) = ctl s"
  "ctl (s\<lparr>bSyncSetByUser := b\<rparr>) = ctl s" "ctl (s\<lparr>u16ALEventMask := w\<rparr>) = ctl s" "ctl (s\<lparr>bEcatFirstOutputsReceived := b\<rparr>) = ctl s"
  "ctl (s\<lparr>nEscAddrOutputData := w\<rparr>) = ctl s" "ctl (s\<lparr>nEscAddrInputData := w\<rparr>) = ctl s"
  "ctl (s\<lparr>sSyncManOutPar := p\<rparr>) = ctl s" "ctl (s\<lparr>sSyncManInPar := p\<rparr>) = ctl s"
  "ctl (s\<lparr>bEscIntEnabled := b\<rparr>) = ctl s" "ctl (s\<lparr>bDcSyncActive := b\<rparr>) = ctl s"
  "ctl (s\<lparr>EcatWdValue := w\<rparr>) = ctl s" "ctl (s\<lparr>Sync0WdValue := w\<rparr>) = ctl s" "ctl (s\<lparr>Sync1WdValue := w\<rparr>) = ctl s"
  "ctl (s\<lparr>Sync0WdCounter := w\<rparr>) = ctl s" "ctl (s\<lparr>Sync1WdCounter := w\<rparr>) = ctl s"
  "ctl (s\<lparr>bDcRunning := b\<rparr>) = ctl s" "ctl (s\<lparr>bSmSyncSequenceValid := b\<rparr>) = ctl s"
  "ctl (s\<lparr>i16WaitForPllRunningTimeout := w\<rparr>) = ctl s" "ctl (s\<lparr>i16WaitForPllRunningCnt := w\<rparr>) = ctl s"
  "ctl (s\<lparr>LatchInputSync0Value := w\<rparr>) = ctl s" "ctl (s\<lparr>LatchInputSync0Counter := w\<rparr>) = ctl s"
  "ctl (s\<lparr>u16SmSync0Value := w\<rparr>) = ctl s" "ctl (s\<lparr>u16SmSync0Counter := w\<rparr>) = ctl s"
  "ctl (s\<lparr>syncFailedCounter := w\<rparr>) = ctl s" "ctl (s\<lparr>div_by_zero := b\<rparr>) = ctl s"
  "ctl (s\<lparr>u8LocalErrorState := x\<rparr>) = ctl s" "ctl (s\<lparr>u16LocalErrorCode := w\<rparr>) = ctl s"
  "ctl (s\<lparr>u16IdValue := w\<rparr>) = ctl s" "ctl (s\<lparr>bExplicitDevIdRequested := b\<rparr>) = ctl s"
  "ctl (s\<lparr>u8EcatErrorLed := x\<rparr>) = ctl s" "ctl (s\<lparr>u8EcatRunLed := x\<rparr>) = ctl s"
  by (simp_all add: ctl_def)

lemma ctl_ctl_fields [simp]:
  "ctl (s\<lparr>bMbxRunning := b\<rparr>) = (ctl s)\<lparr>c_mbx := b\<rparr>" "ctl (s\<lparr>bBootMode := b\<rparr>) = (ctl s)\<lparr>c_boot := b\<rparr>"
  "ctl (s\<lparr>bEcatOutputUpdateRunning := b\<rparr>) = (ctl s)\<lparr>c_out := b\<rparr>"
  "ctl (s\<lparr>bEcatInputUpdateRunning := b\<rparr>) = (ctl s)\<lparr>c_in := b\<rparr>"
  "ctl (s\<lparr>bEcatWaitForAlControlRes := b\<rparr>) = (ctl s)\<lparr>c_wait := b\<rparr>"
  "ctl (s\<lparr>nEcatStateTrans := w\<rparr>) = (ctl s)\<lparr>c_tr := w\<rparr>"
  "ctl (s\<lparr>nAlStatus := x\<rparr>) = (ctl s)\<lparr>c_st := x AND STATE_MASK, c_err := (x AND STATE_CHANGE \<noteq> 0)\<rparr>"
  by (simp_all add: ctl_def)

lemma ctl_start_parts [simp]:
  "ctl (snd (StartInput_areas s)) = ctl s" "ctl (snd (StartInput_flags t32 t33 c s)) = ctl s"
  "ctl (StartInput_latch sub t32 t33 c0 c1 s) = ctl s" "ctl (snd (StartInput_watchdog s)) = ctl s"
  "ctl (StartInput_events s) = ctl s" "ctl (StartInput_sync_wd dc c0 c1 s) = ctl s"
  "ctl (snd (StartOutputHandler s)) = ctl s"
  by (simp_all add: StartInput_areas_def StartInput_flags_def StartInput_latch_def StartInput_watchdog_def
      StartInput_events_def StartInput_sync_wd_def StartOutputHandler_def Let_def case_prod_unfold)

lemma word_state_bits:
  "(x OR STATE_DEVID) AND STATE_MASK = x AND STATE_MASK" "(x AND NOT STATE_DEVID) AND STATE_MASK = x AND STATE_MASK"
  "(x OR STATE_DEVID) AND STATE_CHANGE = x AND STATE_CHANGE" "(x AND NOT STATE_DEVID) AND STATE_CHANGE = x AND STATE_CHANGE"
  "(x OR STATE_CHANGE) AND STATE_MASK = x AND STATE_MASK" "(x AND NOT STATE_CHANGE) AND STATE_MASK = x AND STATE_MASK"
  "(x OR STATE_CHANGE) AND STATE_CHANGE = STATE_CHANGE" "(x AND NOT STATE_CHANGE) AND STATE_CHANGE = 0"
  "(x AND STATE_MASK) AND STATE_MASK = x AND STATE_MASK" "(x AND STATE_MASK) AND STATE_CHANGE = 0"
  for x :: "8 word"
  by (simp_all add: bit.conj_disj_distrib2 and.assoc word_ao_absorbs)

lemma ctl_SetALStatus [simp]:
  "ctl (SetALStatus alStatus code s) = (ctl s)\<lparr>c_st := alStatus AND STATE_MASK, c_err := (alStatus AND STATE_CHANGE \<noteq> 0)\<rparr>"
  by (simp add: SetALStatus_def Let_def word_state_bits and.assoc)

lemma ctl_StopOutput [simp]: "ctl (StopOutputHandler s) = (ctl s)\<lparr>c_out := False\<rparr>"
  by (simp add: StopOutputHandler_def)

lemma ctl_StopInput [simp]: "ctl (StopInputHandler s) = (ctl s)\<lparr>c_in := False\<rparr>"
  by (simp add: StopInputHandler_def Let_def)

section \<open>The contract of the application and of the CANopen service\<close>

locale al_environment =
  fixes coe :: "('z esm_scheme) coe_service" and ap :: "('z esm_scheme) appl_ops"
  assumes env_clear [simp]: "ctl (SDOS_ClearPendingResponse coe s) = ctl s"
    and env_start_mbx [simp]: "ctl (snd (APPL_StartMailboxHandler ap s)) = ctl s"
    and env_stop_mbx [simp]: "ctl (snd (APPL_StopMailboxHandler ap s)) = ctl s"
    and env_start_in [simp]: "ctl (snd (APPL_StartInputHandler ap s)) = ctl s"
    and env_stop_in [simp]: "ctl (snd (APPL_StopInputHandler ap s)) = ctl s"
    and env_start_out [simp]: "ctl (snd (APPL_StartOutputHandler ap s)) = ctl s"
    and env_stop_out [simp]: "ctl (snd (APPL_StopOutputHandler ap s)) = ctl s"
    and env_mapping [simp]: "ctl (snd (APPL_GenerateMapping ap s)) = ctl s"
    and env_ack [simp]: "ctl (APPL_AckErrorInd ap w s) = ctl s"
    and env_devid [simp]: "ctl (snd (APPL_GetDeviceID ap s)) = ctl s"
    and env_pdo [simp]: "ctl (PDO_InputMapping ap s) = ctl s"
    and env_eeprom [simp]: "ctl (EEPROM_CommandHandler ap s) = ctl s"
    and env_coe_init [simp]: "ctl (COE_Init ap s) = ctl s"
    and env_stop_ok: "fst (APPL_StopMailboxHandler ap s) = 0" "fst (APPL_StopInputHandler ap s) = 0"
      "fst (APPL_StopOutputHandler ap s) = 0"
    and env_not_inwork: "fst (APPL_StartMailboxHandler ap s) \<noteq> NOERROR_INWORK"
      "fst (APPL_GenerateMapping ap s) \<noteq> NOERROR_INWORK"

section \<open>The invariant\<close>

definition ctl_inv :: "esm_ctl \<Rightarrow> bool" where
  "ctl_inv c = (c_st c \<in> {STATE_INIT, STATE_PREOP, STATE_BOOT, STATE_SAFEOP, STATE_OP}
     \<and> c_mbx c = (c_st c \<noteq> STATE_INIT)
     \<and> c_boot c = (c_st c = STATE_BOOT)
     \<and> (c_out c \<longrightarrow> c_st c = STATE_OP)
     \<and> c_in c = (c_st c \<in> {STATE_SAFEOP, STATE_OP})
     \<and> (c_wait c \<longrightarrow> \<not> c_err c \<and> (c_st c = STATE_PREOP \<and> c_tr c = ucast PREOP_2_SAFEOP
           \<or> c_st c = STATE_SAFEOP \<and> c_tr c = ucast SAFEOP_2_OP)))"

definition esm_inv :: "'z esm_scheme \<Rightarrow> bool" where
  "esm_inv s = ctl_inv (ctl s)"

text \<open>The transitions of the state machine.\<close>

definition esm_edge :: "8 word \<Rightarrow> 8 word \<Rightarrow> bool" where
  "esm_edge a b = (a = b \<or> (a, b) \<in> {(STATE_INIT, STATE_PREOP), (STATE_INIT, STATE_BOOT), (STATE_BOOT, STATE_INIT),
     (STATE_PREOP, STATE_SAFEOP), (STATE_PREOP, STATE_INIT), (STATE_SAFEOP, STATE_OP), (STATE_SAFEOP, STATE_PREOP),
     (STATE_SAFEOP, STATE_INIT), (STATE_OP, STATE_SAFEOP), (STATE_OP, STATE_PREOP), (STATE_OP, STATE_INIT)})"

lemma trans_nibbles:
  fixes x a :: "8 word"
  assumes "push_bit 4 x + (a AND 0x0F) = t"
  shows "x AND 0x0F = drop_bit 4 t \<and> a AND 0x0F = t AND 0x0F"
proof -
  have f: "bit (15 :: int) n = (n < 4)" for n
    using bit_mask_iff[where 'a = int, of 4 n] by (simp add: mask_eq_exp_minus_1)
  have "push_bit 4 x + (a AND 0x0F) = push_bit 4 x OR (a AND 0x0F)"
    by (rule disjunctive_add) (auto simp: bit_simps f)
  then have t: "t = push_bit 4 x OR (a AND 0x0F)" using assms by simp
  show ?thesis unfolding t
    by (auto simp: bit_eq_iff bit_simps f)
qed

section \<open>The parts of \<open>AL_ControlInd\<close>\<close>

lemma Start_mbx_codes: "fst (MBX_StartMailboxHandler s) \<noteq> NOERROR_INWORK"
  by (simp add: MBX_StartMailboxHandler_def Let_def case_prod_unfold)

lemma Check_part_codes:
  "fst (CheckSm_MailboxWrite s) \<in> {0, 0x16}" "fst (CheckSm_MailboxRead s) \<in> {0, 0x16}"
  "fst (CheckSm_Inputs s) \<in> {0, 0x1E}" "fst (CheckSm_Outputs s) \<in> {0, 0x1D}"
  by (simp_all add: CheckSm_MailboxWrite_def CheckSm_MailboxRead_def CheckSm_Inputs_def
      CheckSm_Outputs_def sm_mailbox_result_def Let_def case_prod_unfold)

lemma Check_codes: "fst (CheckSmSettings ch s) \<in> {0, 0x14, 0x16, 0x1D, 0x1E}"
  using Check_part_codes by (auto simp: CheckSmSettings_def Let_def case_prod_unfold)

lemma Check_codes_ucast: "ucast (fst (CheckSmSettings ch s)) \<noteq> (NOERROR_INWORK :: 16 word)"
  using Check_codes[of ch s] by auto

lemma ctl_stop_fields [simp]:
  "ctl (FOE_Init s) = ctl s" "ctl (sm1_clear_repeat_ack s) = ctl s"
  "ctl (s\<lparr>psRepeatMbx := p\<rparr>) = ctl s" "ctl (s\<lparr>psReadMbx := p\<rparr>) = ctl s" "ctl (s\<lparr>psStoreMbx := p\<rparr>) = ctl s"
  "ctl (s\<lparr>bMbxRepeatToggle := b\<rparr>) = ctl s" "ctl (s\<lparr>bSendMbxIsFull := b\<rparr>) = ctl s"
  "ctl (s\<lparr>bReceiveMbxIsLocked := b\<rparr>) = ctl s" "ctl (s\<lparr>u8MailboxSendReqStored := x\<rparr>) = ctl s"
  "ctl (s\<lparr>u8MbxWriteCounter := x\<rparr>) = ctl s" "ctl (s\<lparr>u8MbxReadCounter := x\<rparr>) = ctl s"
  "ctl (s\<lparr>sMbxSendQueue := q\<rparr>) = ctl s" "ctl (s\<lparr>sMbxReceiveQueue := q\<rparr>) = ctl s"
  by (simp_all add: ctl_def FOE_Init_def sm1_clear_repeat_ack_def hw_ops Let_def)

lemma ctl_init_fields [simp]:
  "ctl (s\<lparr>nMaxSyncMan := x\<rparr>) = ctl s" "ctl (s\<lparr>nMaxEscAddress := y\<rparr>) = ctl s"
  "ctl (s\<lparr>nPdOutputSize := w\<rparr>) = ctl s" "ctl (s\<lparr>nPdInputSize := w\<rparr>) = ctl s"
  by (simp_all add: ctl_def)

lemma ctl_MBX_Init: "ctl (MBX_Init s) = (ctl s)\<lparr>c_mbx := False\<rparr>"
  by (simp add: MBX_Init_def Let_def)

context al_environment
begin

lemma ctl_MBX_Stop [simp]: "ctl (MBX_StopMailboxHandler coe s) = (ctl s)\<lparr>c_mbx := False\<rparr>"
  by (simp add: MBX_StopMailboxHandler_def Let_def case_prod_unfold)

lemma ctl_StartInput_finish [simp]: "ctl (snd (StartInput_finish ap d c0 c1 sub t32 t33 s)) = ctl s"
  by (simp add: StartInput_finish_def Let_def case_prod_unfold)

lemma ctl_StartInput_sync [simp]: "ctl (snd (StartInput_sync ap d c0 c1 m s)) = ctl s"
  by (simp add: StartInput_sync_def Let_def case_prod_unfold)

lemma ctl_StartInput [simp]: "ctl (snd (StartInputHandler ap s)) = ctl s"
  by (simp add: StartInputHandler_def Let_def case_prod_unfold)

lemma ctl_check_sm [simp]: "ctl (snd (AL_check_sm ap t s)) = ctl s"
  by (simp add: AL_check_sm_def Let_def case_prod_unfold)

lemma check_sm_not_inwork: "fst (AL_check_sm ap t s) \<noteq> NOERROR_INWORK"
  using env_not_inwork by (simp add: AL_check_sm_def Let_def case_prod_unfold Check_codes_ucast)

lemma start_mailbox_ctl:
  "AL_start_mailbox coe ap s = (r, t) \<Longrightarrow> \<not> c_mbx (ctl s) \<Longrightarrow>
     r \<noteq> NOERROR_INWORK \<and> ctl t = (ctl s)\<lparr>c_mbx := (r = 0)\<rparr>"
  using Start_mbx_codes[of s] env_not_inwork(1)
  by (auto simp: AL_start_mailbox_def Let_def case_prod_unfold split: if_splits)

lemma esm_ctl_same [simp]:
  "\<not> c_in c \<Longrightarrow> c\<lparr>c_in := False\<rparr> = c" "\<not> c_out c \<Longrightarrow> c\<lparr>c_out := False\<rparr> = c"
  by (cases c; simp)+

definition ctl_core :: "esm_ctl \<Rightarrow> bool" where
  "ctl_core c = (c_st c \<in> {STATE_INIT, STATE_PREOP, STATE_BOOT, STATE_SAFEOP, STATE_OP}
     \<and> c_mbx c = (c_st c \<noteq> STATE_INIT)
     \<and> c_boot c = (c_st c = STATE_BOOT)
     \<and> (c_out c \<longrightarrow> c_st c = STATE_OP)
     \<and> c_in c = (c_st c \<in> {STATE_SAFEOP, STATE_OP}))"

lemma inv_core: "ctl_inv c = (ctl_core c \<and> (c_wait c \<longrightarrow> \<not> c_err c \<and>
    (c_st c = STATE_PREOP \<and> c_tr c = ucast PREOP_2_SAFEOP \<or> c_st c = STATE_SAFEOP \<and> c_tr c = ucast SAFEOP_2_OP)))"
  by (simp add: ctl_inv_def ctl_core_def)

text \<open>What a transition has to leave behind: on success the state it was asked for, on a
  failure a consistent old state, and only the two transitions with an application part can
  stay pending.\<close>

definition trans_post :: "esm_ctl \<Rightarrow> 8 word \<Rightarrow> 16 word \<Rightarrow> 8 word \<Rightarrow> esm_ctl \<Rightarrow> bool" where
  "trans_post c a r t d = (c_st d = c_st c \<and> c_err d = c_err c
     \<and> (r = 0 \<longrightarrow> ctl_core (d\<lparr>c_st := a\<rparr>) \<and> esm_edge (c_st c) a)
     \<and> (r \<noteq> 0 \<longrightarrow> ctl_core d)
     \<and> (r = NOERROR_INWORK \<longrightarrow> c_st c = STATE_PREOP \<and> t = PREOP_2_SAFEOP \<or> c_st c = STATE_SAFEOP \<and> t = SAFEOP_2_OP))"

lemma init_2_boot_post:
  assumes "AL_init_2_boot coe ap s = (r, u)" "ctl_core (ctl s)" "c_st (ctl s) = STATE_INIT"
  shows "trans_post (ctl s) STATE_BOOT r INIT_2_BOOT (ctl u)"
proof (cases "fst (CheckSmSettings (MAILBOX_READ + 1) (s\<lparr>bBootMode := True\<rparr>)) = 0")
  case False
  then have "r = ALSTATUSCODE_INVALIDMBXCFGINBOOT" "ctl u = (ctl s)\<lparr>c_boot := False\<rparr>"
    using assms(1) by (auto simp: AL_init_2_boot_def Let_def case_prod_unfold)
  then show ?thesis using assms(2,3) by (simp add: trans_post_def ctl_core_def)
next
  case True
  let ?s = "ResetALEventMask 0 (snd (CheckSmSettings (MAILBOX_READ + 1) (s\<lparr>bBootMode := True\<rparr>)))"
  obtain q v where q: "AL_start_mailbox coe ap ?s = (q, v)" by force
  have m: "\<not> c_mbx (ctl ?s)" using assms(2,3) by (simp add: ctl_core_def)
  have "r = q" "ctl u = (if q \<noteq> 0 then (ctl v)\<lparr>c_boot := False\<rparr> else ctl v)"
    using assms(1) True q by (auto simp: AL_init_2_boot_def Let_def case_prod_unfold BL_Start_def split: if_splits)
  then show ?thesis
    using start_mailbox_ctl[OF q m] assms(2,3) by (auto simp: trans_post_def ctl_core_def esm_edge_def)
qed

lemma boot_2_init_post:
  assumes "AL_boot_2_init coe ap s = (r, u)" "ctl_core (ctl s)" "c_st (ctl s) = STATE_BOOT"
  shows "trans_post (ctl s) STATE_INIT r BOOT_2_INIT (ctl u)"
proof -
  have "bBootMode s" using assms(2,3) by (simp add: ctl_core_def ctl_def)
  then have "r = 0" "ctl u = (ctl s)\<lparr>c_boot := False, c_mbx := False\<rparr>"
    using assms(1) env_stop_ok by (auto simp: AL_boot_2_init_def Let_def case_prod_unfold BL_Stop_def)
  then show ?thesis using assms(2,3) by (simp add: trans_post_def ctl_core_def esm_edge_def)
qed

lemma init_2_preop_post:
  assumes "AL_init_2_preop coe ap s = (r, u)" "ctl_core (ctl s)" "c_st (ctl s) = STATE_INIT"
  shows "trans_post (ctl s) STATE_PREOP r INIT_2_PREOP (ctl u)"
proof (cases "EepromLoaded (UpdateEEPROMLoadedState s)")
  case False
  then have "r = ALSTATUSCODE_EE_ERROR" "ctl u = ctl s"
    using assms(1) by (auto simp: AL_init_2_preop_def Let_def)
  then show ?thesis using assms(2,3) by (simp add: trans_post_def)
next
  case True
  then have q: "AL_start_mailbox coe ap (UpdateEEPROMLoadedState s) = (r, u)"
    using assms(1) by (simp add: AL_init_2_preop_def Let_def)
  have m: "\<not> c_mbx (ctl (UpdateEEPROMLoadedState s))" using assms(2,3) by (simp add: ctl_core_def)
  then show ?thesis
    using start_mailbox_ctl[OF q m] assms(2,3) by (auto simp: trans_post_def ctl_core_def esm_edge_def)
qed

lemma preop_2_safeop_post:
  assumes "AL_preop_2_safeop ap s = (r, u)" "ctl_core (ctl s)" "c_st (ctl s) = STATE_PREOP"
  shows "trans_post (ctl s) STATE_SAFEOP r PREOP_2_SAFEOP (ctl u)"
proof -
  have i: "(ctl s)\<lparr>c_in := False\<rparr> = ctl s" using assms(2,3) by (simp add: ctl_core_def)
  obtain q v where q: "StartInputHandler ap s = (q, v)" by force
  then have "ctl v = ctl s" using ctl_StartInput[of s] by simp
  then have "ctl u = (ctl s)\<lparr>c_in := (r = 0)\<rparr>"
    using assms(1) q i by (auto simp: AL_preop_2_safeop_def Let_def case_prod_unfold split: if_splits)
  then show ?thesis using assms(2,3) by (auto simp: trans_post_def ctl_core_def esm_edge_def)
qed

lemma safeop_2_op_post:
  assumes "AL_safeop_2_op ap ack s = (r, u)" "ctl_core (ctl s)" "c_st (ctl s) = STATE_SAFEOP"
  shows "trans_post (ctl s) STATE_OP r SAFEOP_2_OP (ctl u)"
proof -
  have o: "(ctl s)\<lparr>c_out := False\<rparr> = ctl s" using assms(2,3) by (simp add: ctl_core_def)
  obtain q v where q: "StartOutputHandler (if ack then pd_enable s else s) = (q, v)" by force
  then have "ctl v = ctl s" using ctl_start_parts(7)[of "if ack then pd_enable s else s"] by (simp split: if_splits)
  then have "ctl u = (ctl s)\<lparr>c_out := (r = 0)\<rparr>"
    using assms(1) o q by (auto simp: AL_safeop_2_op_def Let_def case_prod_unfold split: if_splits)
  then show ?thesis using assms(2,3) by (auto simp: trans_post_def ctl_core_def esm_edge_def)
qed

lemma stop_output_ctl: "AL_stop_output ap s = (r, u) \<Longrightarrow> r = 0 \<and> ctl u = (ctl s)\<lparr>c_out := False\<rparr>"
  using env_stop_ok by (auto simp: AL_stop_output_def Let_def case_prod_unfold)

lemma stop_input_ctl: "AL_stop_input ap s = (r, u) \<Longrightarrow> r = 0 \<and> ctl u = (ctl s)\<lparr>c_in := False\<rparr>"
  using env_stop_ok by (auto simp: AL_stop_input_def Let_def case_prod_unfold)

lemma preop_2_init_ctl: "AL_preop_2_init coe ap s = (r, u) \<Longrightarrow> r = 0 \<and> ctl u = (ctl s)\<lparr>c_mbx := False\<rparr>"
  using env_stop_ok by (auto simp: AL_preop_2_init_def Let_def case_prod_unfold)

lemma same_state_ctl: "AL_same_state ap ack t s = (r, u) \<Longrightarrow> r = NOERROR_NOSTATECHANGE \<and> ctl u = ctl s"
  by (auto simp: AL_same_state_def Let_def)

lemma to_init_ctl:
  assumes "AL_to_init coe ap t s = (r, t', u)" "t \<in> {OP_2_INIT, SAFEOP_2_INIT, PREOP_2_INIT}"
  shows "r = 0 \<and> ctl u = (let c = (if t = OP_2_INIT then (ctl s)\<lparr>c_out := False\<rparr> else ctl s);
      c = (if t \<noteq> PREOP_2_INIT then c\<lparr>c_in := False\<rparr> else c) in c\<lparr>c_mbx := False\<rparr>)"
proof -
  obtain r1 s1 where o: "AL_stop_output ap s = (r1, s1)" by force
  obtain r2 s2 where i1: "AL_stop_input ap s1 = (r2, s2)" by force
  obtain r3 s3 where p1: "AL_preop_2_init coe ap s2 = (r3, s3)" by force
  obtain r4 s4 where i2: "AL_stop_input ap s = (r4, s4)" by force
  obtain r5 s5 where p2: "AL_preop_2_init coe ap s4 = (r5, s5)" by force
  obtain r6 s6 where p3: "AL_preop_2_init coe ap s = (r6, s6)" by force
  note z = stop_output_ctl[OF o] stop_input_ctl[OF i1] preop_2_init_ctl[OF p1] stop_input_ctl[OF i2]
    preop_2_init_ctl[OF p2] preop_2_init_ctl[OF p3]
  from assms(2) consider "t = OP_2_INIT" | "t = SAFEOP_2_INIT" | "t = PREOP_2_INIT" by auto
  then show ?thesis
  proof cases
    case 1 then have "(r, u) = (r3, s3)" using assms(1) o i1 p1 z by (simp add: AL_to_init_def)
    then show ?thesis using z 1 by simp
  next
    case 2 then have "(r, u) = (r5, s5)" using assms(1) i2 p2 z by (simp add: AL_to_init_def)
    then show ?thesis using z 2 by simp
  next
    case 3 then have "(r, u) = (r6, s6)" using assms(1) p3 z by (simp add: AL_to_init_def)
    then show ?thesis using z 3 by simp
  qed
qed

lemma to_init_post:
  assumes "AL_to_init coe ap t s = (r, t', u)" "ctl_core (ctl s)"
    "t = OP_2_INIT \<and> c_st (ctl s) = STATE_OP \<or> t = SAFEOP_2_INIT \<and> c_st (ctl s) = STATE_SAFEOP
      \<or> t = PREOP_2_INIT \<and> c_st (ctl s) = STATE_PREOP"
  shows "trans_post (ctl s) STATE_INIT r t' (ctl u)"
  using to_init_ctl[OF assms(1)] assms(2,3)
  by (elim disjE) (simp_all add: trans_post_def ctl_core_def esm_edge_def)

lemma refused_post:
  "ctl_core c \<Longrightarrow> r \<noteq> 0 \<Longrightarrow> r \<noteq> NOERROR_INWORK \<Longrightarrow> trans_post c a r t c"
  by (simp add: trans_post_def)

lemma AL_transition_post:
  assumes "AL_transition coe ap t ack s = (r, t', u)" "c_st (ctl s) = drop_bit 4 t \<and> a = t AND 0x0F"
    "ctl_core (ctl s)"
  shows "trans_post ((ctl s)\<lparr>c_tr := 0\<rparr>) a r t' (ctl u)"
proof -
  define s0 where "s0 = s\<lparr>nEcatStateTrans := 0\<rparr>"
  have c: "ctl s0 = (ctl s)\<lparr>c_tr := 0\<rparr>" "ctl_core (ctl s0)"
    using assms(3) by (simp_all add: s0_def ctl_core_def)
  have n: "c_st (ctl s0) = drop_bit 4 t \<and> a = t AND 0x0F"
    using assms(2) by (simp add: c(1))
  note tr = assms(1)[unfolded AL_transition_def Let_def, folded s0_def]
  have out: "\<not> c_out (ctl s0)" if "c_st (ctl s0) \<noteq> STATE_OP" using c(2) that by (auto simp: ctl_core_def)
  consider (step) "t = INIT_2_BOOT" | (b) "t = BOOT_2_INIT" | (p) "t = INIT_2_PREOP" | (so) "t = PREOP_2_SAFEOP"
    | (op) "t = SAFEOP_2_OP"
    | (down) "t = OP_2_SAFEOP" | (down2) "t = OP_2_PREOP" | (down3) "t = SAFEOP_2_PREOP"
    | (init) "t \<in> {OP_2_INIT, SAFEOP_2_INIT, PREOP_2_INIT}"
    | (other) "t \<notin> {INIT_2_BOOT, BOOT_2_INIT, INIT_2_PREOP, PREOP_2_SAFEOP, SAFEOP_2_OP, OP_2_SAFEOP,
        OP_2_PREOP, SAFEOP_2_PREOP, OP_2_INIT, SAFEOP_2_INIT, PREOP_2_INIT}" by blast
  then have "trans_post (ctl s0) a r t' (ctl u)"
  proof cases
    case step
    then have "AL_init_2_boot coe ap s0 = (r, u)" "t' = INIT_2_BOOT"
      using tr by (simp_all add: case_prod_unfold prod_eq_iff)
    with step n show ?thesis using init_2_boot_post[OF _ c(2)] by simp
  next
    case b
    then have "AL_boot_2_init coe ap s0 = (r, u)" "t' = BOOT_2_INIT"
      using tr by (simp_all add: case_prod_unfold prod_eq_iff)
    with b n show ?thesis using boot_2_init_post[OF _ c(2)] by simp
  next
    case p
    then have "AL_init_2_preop coe ap s0 = (r, u)" "t' = INIT_2_PREOP"
      using tr by (simp_all add: case_prod_unfold prod_eq_iff)
    with p n show ?thesis using init_2_preop_post[OF _ c(2)] by simp
  next
    case so
    then have "AL_preop_2_safeop ap s0 = (r, u)" "t' = PREOP_2_SAFEOP"
      using tr by (simp_all add: case_prod_unfold prod_eq_iff)
    with so n show ?thesis using preop_2_safeop_post[OF _ c(2)] by simp
  next
    case op
    then have "AL_safeop_2_op ap ack s0 = (r, u)" "t' = SAFEOP_2_OP"
      using tr by (simp_all add: case_prod_unfold prod_eq_iff)
    with op n show ?thesis using safeop_2_op_post[OF _ c(2)] by simp
  next
    case down
    obtain r1 s1 where o: "AL_stop_output ap s0 = (r1, s1)" by force
    then have "r = 0" "u = s1" using down tr by simp_all
    then show ?thesis using stop_output_ctl[OF o] down n c(2) by (simp add: trans_post_def ctl_core_def esm_edge_def)
  next
    case down2
    obtain r1 s1 where o: "AL_stop_output ap s0 = (r1, s1)" by force
    obtain r2 s2 where i: "AL_stop_input ap s1 = (r2, s2)" by force
    from o i stop_output_ctl[OF o] have "r = 0" "u = s2" using down2 tr by simp_all
    then show ?thesis using stop_output_ctl[OF o] stop_input_ctl[OF i] down2 n c(2)
      by (simp add: trans_post_def ctl_core_def esm_edge_def)
  next
    case down3
    obtain r1 s1 where i: "AL_stop_input ap s0 = (r1, s1)" by force
    then have "r = 0" "u = s1" using down3 tr by simp_all
    then show ?thesis using stop_input_ctl[OF i] down3 n c(2)
      by (simp add: trans_post_def ctl_core_def esm_edge_def)
  next
    case init
    then have "AL_to_init coe ap t s0 = (r, t', u)" using tr by auto
    moreover have "a = STATE_INIT" using n init by auto
    ultimately show ?thesis using to_init_post[OF _ c(2)] init n by auto
  next
    case other
    obtain q v where q: "AL_same_state ap ack t s0 = (q, v)" by force
    have "ctl u = ctl s0 \<and> r \<noteq> 0 \<and> r \<noteq> NOERROR_INWORK"
      using tr other q same_state_ctl[OF q] by (auto split: if_splits)
    then show ?thesis using refused_post[OF c(2)] by simp
  qed
  then show ?thesis by (simp only: c(1))
qed

lemma sm_failed_ctl:
  assumes "ctl_core (ctl s)"
  shows "ctl_core (ctl (AL_sm_failed coe ap r s)) \<and> esm_edge (c_st (ctl s)) (c_st (ctl (AL_sm_failed coe ap r s)))"
proof -
  consider (op) "nAlStatus s = STATE_OP" | (so) "nAlStatus s = STATE_SAFEOP" | (p) "nAlStatus s = STATE_PREOP"
    | (no) "nAlStatus s \<notin> {STATE_OP, STATE_SAFEOP, STATE_PREOP}" by blast
  then show ?thesis
  proof cases
    case op
    then have "c_st (ctl s) = STATE_OP" by (simp add: ctl_def)
    then show ?thesis using op assms by (simp add: AL_sm_failed_def Let_def ctl_core_def esm_edge_def)
  next
    case so
    then have "c_st (ctl s) = STATE_SAFEOP" by (simp add: ctl_def)
    then show ?thesis using so assms by (simp add: AL_sm_failed_def Let_def ctl_core_def esm_edge_def)
  next
    case p
    then have "c_st (ctl s) = STATE_PREOP" by (simp add: ctl_def)
    then show ?thesis using p assms by (simp add: AL_sm_failed_def Let_def ctl_core_def esm_edge_def)
  next
    case no
    then show ?thesis using assms by (simp add: AL_sm_failed_def Let_def esm_edge_def)
  qed
qed

lemma finish_inwork:
  "ctl (AL_finish ap a code NOERROR_INWORK t s) = (ctl s)\<lparr>c_wait := True, c_tr := ucast t\<rparr>"
  by (simp add: AL_finish_def)

text \<open>The first step of the end: the outputs are stopped.\<close>

definition finish_stop :: "8 word \<Rightarrow> 'z esm_scheme \<Rightarrow> 'z esm_scheme" where
  "finish_stop a s = (if (a OR nAlStatus s) AND STATE_OP \<noteq> 0
     then pd_disable (if bEcatOutputUpdateRunning s then StopOutputHandler (snd (APPL_StopOutputHandler ap s)) else s)
     else s)"

lemma finish_stop_ctl:
  "ctl (finish_stop a s) = (if (a OR nAlStatus s) AND STATE_OP \<noteq> 0 then (ctl s)\<lparr>c_out := False\<rparr> else ctl s)"
proof -
  have "\<not> bEcatOutputUpdateRunning s \<Longrightarrow> (ctl s)\<lparr>c_out := False\<rparr> = ctl s" by (simp add: ctl_def)
  then show ?thesis by (simp add: finish_stop_def)
qed

lemma ctl_wait_False [simp]: "nAlStatus (s\<lparr>bEcatWaitForAlControlRes := b\<rparr>) = nAlStatus s" by simp

lemma finish_error:
  assumes "r \<noteq> 0" "r \<noteq> NOERROR_INWORK" "a \<noteq> nAlStatus s AND STATE_MASK"
  shows "\<exists>x. ctl (AL_finish ap a code r t s) = (ctl (finish_stop a s))\<lparr>c_st := x, c_err := True, c_wait := False\<rparr>
     \<and> (if nAlStatus (finish_stop a s) = STATE_OP then x = STATE_SAFEOP else x = c_st (ctl (finish_stop a s)))"
  using assms
  by (auto simp: AL_finish_def finish_stop_def[symmetric] Let_def word_state_bits) (simp_all add: ctl_def)

lemma mask_err: "a AND STATE_MASK = a \<Longrightarrow> a AND STATE_CHANGE = 0" for a :: "8 word"
  by (metis word_state_bits(10))

lemma finish_ok:
  assumes "a \<noteq> nAlStatus s AND STATE_MASK" "a AND STATE_MASK = a"
  shows "ctl (AL_finish ap a code 0 t s) =
    (if code \<noteq> 0 then ctl (finish_stop a s) else ctl s)\<lparr>c_st := a, c_err := code \<noteq> 0, c_wait := False\<rparr>"
  using assms mask_err[OF assms(2)]
  by (simp add: AL_finish_def finish_stop_def[symmetric] Let_def word_state_bits and.assoc)

lemma finish_same:
  assumes "nAlStatus s AND STATE_MASK = a" "r \<noteq> NOERROR_INWORK"
  shows "ctl (AL_finish ap a code r t s) = (ctl s)\<lparr>c_wait := False\<rparr>"
  using assms by (simp add: AL_finish_def Let_def) (simp add: ctl_def)

lemma core_wait [simp]: "ctl_core (c\<lparr>c_wait := w\<rparr>) = ctl_core c" "ctl_core (c\<lparr>c_err := e\<rparr>) = ctl_core c"
  "ctl_core (c\<lparr>c_tr := v\<rparr>) = ctl_core c"
  by (simp_all add: ctl_core_def)

lemma core_out: "ctl_core c \<Longrightarrow> ctl_core (c\<lparr>c_out := False\<rparr>)" by (simp add: ctl_core_def)

lemma and_mask_op: "x AND 0x0F = 8 \<Longrightarrow> (y OR x) AND 8 \<noteq> 0" for x y :: "8 word"
proof
  assume a: "x AND 0x0F = 8" "(y OR x) AND 8 = 0"
  have "x AND 8 = (x AND 0x0F) AND 8" by (simp only: and.assoc) simp
  then have "x AND 8 = 8" by (simp add: a(1))
  then have "(y OR x) AND 8 = (y AND 8) OR 8" by (simp add: bit.conj_disj_distrib2)
  moreover have "((y AND 8) OR 8) AND 8 = 8" by (simp add: bit.conj_disj_distrib2 and.assoc word_ao_absorbs)
  ultimately show False using a(2) by simp
qed

lemma c_st_op: "c_st (ctl s) = STATE_OP \<Longrightarrow> (a OR nAlStatus s) AND STATE_OP \<noteq> 0"
  using and_mask_op by (simp add: ctl_def)

text \<open>The end of \<open>AL_ControlInd\<close> after a transition, and after a failed SyncManager check.\<close>

lemma core_inv: "ctl_inv (c\<lparr>c_wait := False\<rparr>) = ctl_core c"
  by (simp add: inv_core)

lemma core_safeop:
  "ctl_core c \<Longrightarrow> c_st c = STATE_OP \<Longrightarrow> ctl_core (c\<lparr>c_out := False, c_st := STATE_SAFEOP\<rparr>)"
  by (simp add: ctl_core_def)

lemma c_st_id [simp]: "c\<lparr>c_st := c_st c\<rparr> = c" by simp

lemma finish_stop_core: "ctl_core (ctl s) \<Longrightarrow> ctl_core (ctl (finish_stop a s))"
  by (simp add: finish_stop_ctl core_out)

lemma finish_error_inv:
  assumes "ctl_core (ctl s)" "r \<noteq> 0" "r \<noteq> NOERROR_INWORK" "a \<noteq> nAlStatus s AND STATE_MASK"
  shows "ctl_inv (ctl (AL_finish ap a code r t s)) \<and> esm_edge (c_st (ctl s)) (c_st (ctl (AL_finish ap a code r t s)))"
proof -
  define c where "c = ctl (finish_stop a s)"
  have core: "ctl_core c" using finish_stop_core[OF assms(1)] by (simp add: c_def)
  obtain x where x: "ctl (AL_finish ap a code r t s) = c\<lparr>c_st := x, c_err := True, c_wait := False\<rparr>"
    "if nAlStatus (finish_stop a s) = STATE_OP then x = STATE_SAFEOP else x = c_st c"
    using finish_error[OF assms(2-4)] unfolding c_def by blast
  have st: "c_st c = c_st (ctl s)" by (simp add: c_def finish_stop_ctl)
  show ?thesis
  proof (cases "nAlStatus (finish_stop a s) = STATE_OP")
    case True
    then have o: "c_st (ctl s) = STATE_OP" using st by (simp add: c_def) (simp add: ctl_def)
    have "c_out c = False" using c_st_op[OF o] by (simp add: c_def finish_stop_ctl)
    then have "c = c\<lparr>c_out := False\<rparr>" by simp
    then have "ctl_core (c\<lparr>c_st := STATE_SAFEOP\<rparr>)" using core_safeop[OF core] st o by metis
    then show ?thesis using x True o by (simp add: core_inv esm_edge_def)
  next
    case False
    then have "ctl (AL_finish ap a code r t s) = c\<lparr>c_err := True, c_wait := False\<rparr>" using x by simp
    then show ?thesis using core st by (simp add: core_inv esm_edge_def)
  qed
qed

lemma finish_transition:
  assumes "trans_post c a r t (ctl s)" "a AND STATE_MASK = a" "\<not> c_err c"
  shows "ctl_inv (ctl (AL_finish ap a code r t s)) \<and> esm_edge (c_st c) (c_st (ctl (AL_finish ap a code r t s)))"
proof -
  note p = assms(1)[unfolded trans_post_def]
  define d where "d = ctl s"
  have st: "c_st (ctl s) = nAlStatus s AND STATE_MASK" by (simp add: ctl_def)
  consider (w) "r = NOERROR_INWORK" | (same) "r \<noteq> NOERROR_INWORK" "nAlStatus s AND STATE_MASK = a"
    | (ok) "r = 0" "nAlStatus s AND STATE_MASK \<noteq> a" | (err) "r \<noteq> 0" "r \<noteq> NOERROR_INWORK" "a \<noteq> nAlStatus s AND STATE_MASK"
    by blast
  then show ?thesis
  proof cases
    case w
    have d: "ctl_core d" "c_st d = c_st c" "\<not> c_err d"
      "c_st d = STATE_PREOP \<and> t = PREOP_2_SAFEOP \<or> c_st d = STATE_SAFEOP \<and> t = SAFEOP_2_OP"
      using p w assms(3) by (auto simp: d_def)
    then have "ctl_inv (d\<lparr>c_wait := True, c_tr := ucast t\<rparr>)" by (auto simp: inv_core)
    then show ?thesis using w d by (simp add: finish_inwork d_def esm_edge_def)
  next
    case same
    have "d\<lparr>c_st := a\<rparr> = d" using same st by (simp add: d_def[symmetric])
    then have "ctl_core d" using p unfolding d_def by (cases "r = 0") auto
    then show ?thesis using p by (simp add: finish_same[OF same(2,1)] core_inv d_def esm_edge_def)
  next
    case ok
    have d: "ctl_core (d\<lparr>c_st := a\<rparr>)" "esm_edge (c_st c) a" using p ok by (auto simp: d_def)
    have "ctl_core (d\<lparr>c_out := False, c_st := a\<rparr>)" using core_out[OF d(1)] by (simp add: ctl_core_def)
    then have "ctl_core ((ctl (finish_stop a s))\<lparr>c_st := a\<rparr>)"
      using d(1) by (simp add: finish_stop_ctl d_def)
    then show ?thesis using d finish_ok[of a s code t, OF _ assms(2)] ok
      by (simp add: core_inv d_def)
  next
    case err
    then have "ctl_core (ctl s)" "c_st (ctl s) = c_st c" using p by auto
    then show ?thesis using finish_error_inv[OF _ err(1,2,3)] by metis
  qed
qed

lemma finish_sm_failed:
  assumes "ctl_core (ctl s)" "r \<noteq> 0" "r \<noteq> NOERROR_INWORK" "a AND STATE_MASK = a"
  shows "ctl_inv (ctl (AL_finish ap a code r t (AL_sm_failed coe ap r s)))"
proof -
  let ?u = "AL_sm_failed coe ap r s"
  have u: "ctl_core (ctl ?u)" using sm_failed_ctl[OF assms(1)] by blast
  show ?thesis
  proof (cases "nAlStatus ?u AND STATE_MASK = a")
    case True
    then show ?thesis using finish_same[OF True assms(3)] u by (simp add: inv_core)
  next
    case False
    then show ?thesis using finish_error_inv[OF u assms(2,3), of a code t] by metis
  qed
qed

lemma accept_bits: "(x AND - 17) AND 0x0F = x AND 0x0F" "(x AND - 17) AND 0x10 = 0" for x :: "8 word"
  by (simp_all add: and.assoc)

lemma AL_accept_ctl:
  "AL_accept a s = (None, u) \<Longrightarrow> ctl u = ctl s"
  "AL_accept a s = (Some k, u) \<Longrightarrow> ctl u = (ctl s)\<lparr>c_err := False\<rparr>"
  by (auto simp: AL_accept_def Let_def word_state_bits accept_bits ctl_def split: if_splits)

lemma AL_ControlInd_unfold:
  assumes "AL_accept alControl s = (Some ack, u)"
  obtains r v t a where "a = alControl AND STATE_MASK" "t = push_bit 4 (nAlStatus u) + a"
    "AL_check_sm ap t u = (r, v)" "ctl v = (ctl s)\<lparr>c_err := False\<rparr>"
    "c_st (ctl v) = drop_bit 4 t \<and> a = t AND 0x0F"
    "AL_ControlInd coe ap alControl code s =
        (let (r', t', w) = (if r = 0 then AL_transition coe ap t ack v else (r, t, AL_sm_failed coe ap r v)) in
          AL_finish ap a code r' t' w)"
proof -
  define a where "a = alControl AND STATE_MASK"
  have a: "a AND STATE_MASK = a" by (simp add: a_def and.assoc)
  define t where "t = push_bit 4 (nAlStatus u) + a"
  obtain r v where ch: "AL_check_sm ap t u = (r, v)" by force
  have cv: "ctl v = ctl u" using ctl_check_sm[of t u] ch by simp
  have cu: "ctl u = (ctl s)\<lparr>c_err := False\<rparr>" by (rule AL_accept_ctl(2)[OF assms])
  have n: "c_st (ctl v) = drop_bit 4 t \<and> a = t AND 0x0F"
    using trans_nibbles[of "nAlStatus u" a t] a by (simp add: t_def cv) (simp add: ctl_def)
  show ?thesis
    by (rule that[OF a_def t_def ch _ n]) (use assms ch cu cv in \<open>simp_all add: AL_ControlInd_def a_def t_def Let_def\<close>)
qed

lemma AL_ControlInd_inv:
  assumes "esm_inv s"
  shows "esm_inv (AL_ControlInd coe ap alControl code s)"
proof -
  obtain k u where acc: "AL_accept alControl s = (k, u)" by force
  show ?thesis
  proof (cases k)
    case None
    then show ?thesis using acc assms AL_accept_ctl(1)[of alControl s u] by (simp add: AL_ControlInd_def esm_inv_def)
  next
    case (Some ack)
    obtain r v t a where h: "a = alControl AND STATE_MASK" "t = push_bit 4 (nAlStatus u) + a"
      "AL_check_sm ap t u = (r, v)" "ctl v = (ctl s)\<lparr>c_err := False\<rparr>"
      "c_st (ctl v) = drop_bit 4 t \<and> a = t AND 0x0F"
      "AL_ControlInd coe ap alControl code s =
        (let (r', t', w) = (if r = 0 then AL_transition coe ap t ack v else (r, t, AL_sm_failed coe ap r v)) in
          AL_finish ap a code r' t' w)"
      by (rule AL_ControlInd_unfold[OF acc[unfolded Some], where code = code])
    have a: "a AND STATE_MASK = a" by (simp add: h(1) and.assoc)
    have core: "ctl_core (ctl v)" using assms h(4) by (simp add: esm_inv_def inv_core)
    show ?thesis
    proof (cases "r = 0")
      case False
      then show ?thesis using h(3,6) finish_sm_failed[OF core False _ a] check_sm_not_inwork[of t u]
        by (simp add: esm_inv_def)
    next
      case True
      obtain r' t' w where tr: "AL_transition coe ap t ack v = (r', t', w)" by (cases "AL_transition coe ap t ack v") auto
      have "\<not> c_err ((ctl v)\<lparr>c_tr := 0\<rparr>)" by (simp add: h(4))
      from finish_transition[OF AL_transition_post[OF tr h(5) core] a this]
      show ?thesis using h(6) True tr by (simp add: esm_inv_def)
    qed
  qed
qed

lemma edge_refl [simp]: "esm_edge a a" by (simp add: esm_edge_def)

lemma sm_failed_edge:
  assumes "ctl_core (ctl s)" "r \<noteq> 0" "r \<noteq> NOERROR_INWORK" "a AND STATE_MASK = a"
  shows "esm_edge (c_st (ctl s)) (c_st (ctl (AL_finish ap a code r t (AL_sm_failed coe ap r s))))"
proof -
  define u where "u = AL_sm_failed coe ap r s"
  have u: "ctl_core (ctl u)" "esm_edge (c_st (ctl s)) (c_st (ctl u))"
    using sm_failed_ctl[OF assms(1)] by (simp_all add: u_def)
  show ?thesis
  proof (cases "nAlStatus u AND STATE_MASK = a")
    case True
    then show ?thesis using finish_same[OF True assms(3)] u by (simp add: u_def[symmetric])
  next
    case False
    show ?thesis
    proof (cases "u = s")
      case True
      then show ?thesis using finish_error_inv[OF u(1) assms(2,3), of a code t] False
        by (metis u_def)
    next
      case moved: False
      then have "nAlStatus u \<in> {STATE_INIT, STATE_PREOP}" by (auto simp: u_def AL_sm_failed_def Let_def)
      then have "c_st (ctl (finish_stop a u)) \<noteq> STATE_OP" by (auto simp: finish_stop_ctl) (auto simp: ctl_def)
      then have "nAlStatus (finish_stop a u) \<noteq> STATE_OP" by (auto simp: ctl_def)
      then have "c_st (ctl (AL_finish ap a code r t u)) = c_st (ctl u)"
        using finish_error[OF assms(2,3), of a u code t] False by (auto simp: finish_stop_ctl)
      then show ?thesis using u by (simp add: u_def[symmetric])
    qed
  qed
qed

lemma finish_answered:
  assumes "a AND STATE_MASK = a"
  shows "c_st (ctl (AL_finish ap a code r t s)) = a \<or> c_err (ctl (AL_finish ap a code r t s))
    \<or> r = NOERROR_INWORK \<and> c_wait (ctl (AL_finish ap a code r t s))"
proof -
  have st: "c_st (ctl s) = nAlStatus s AND STATE_MASK" by (simp add: ctl_def)
  consider (w) "r = NOERROR_INWORK" | (same) "r \<noteq> NOERROR_INWORK" "nAlStatus s AND STATE_MASK = a"
    | (ok) "r = 0" "a \<noteq> nAlStatus s AND STATE_MASK" | (err) "r \<noteq> 0" "r \<noteq> NOERROR_INWORK" "a \<noteq> nAlStatus s AND STATE_MASK"
    by blast
  then show ?thesis
  proof cases
    case w then show ?thesis by (simp add: finish_inwork)
  next
    case same then show ?thesis using st by (simp add: finish_same)
  next
    case ok then show ?thesis by (simp add: finish_ok[OF ok(2) assms])
  next
    case err then show ?thesis using finish_error[OF err, of code t] by auto
  qed
qed

lemma AL_ControlInd_edge:
  assumes "esm_inv s"
  shows "esm_edge (c_st (ctl s)) (c_st (ctl (AL_ControlInd coe ap alControl code s)))"
proof -
  obtain k u where acc: "AL_accept alControl s = (k, u)" by force
  show ?thesis
  proof (cases k)
    case None
    then show ?thesis using acc AL_accept_ctl(1)[of alControl s u] by (simp add: AL_ControlInd_def)
  next
    case (Some ack)
    obtain r v t a where h: "a = alControl AND STATE_MASK" "t = push_bit 4 (nAlStatus u) + a"
      "AL_check_sm ap t u = (r, v)" "ctl v = (ctl s)\<lparr>c_err := False\<rparr>"
      "c_st (ctl v) = drop_bit 4 t \<and> a = t AND 0x0F"
      "AL_ControlInd coe ap alControl code s =
        (let (r', t', w) = (if r = 0 then AL_transition coe ap t ack v else (r, t, AL_sm_failed coe ap r v)) in
          AL_finish ap a code r' t' w)"
      by (rule AL_ControlInd_unfold[OF acc[unfolded Some], where code = code])
    have a: "a AND STATE_MASK = a" by (simp add: h(1) and.assoc)
    have core: "ctl_core (ctl v)" using assms h(4) by (simp add: esm_inv_def inv_core)
    show ?thesis
    proof (cases "r = 0")
      case False
      then show ?thesis using h(3,4,6) sm_failed_edge[OF core False _ a, of code t] check_sm_not_inwork[of t u] by simp
    next
      case True
      obtain r' t' w where tr: "AL_transition coe ap t ack v = (r', t', w)" by (cases "AL_transition coe ap t ack v") auto
      have "\<not> c_err ((ctl v)\<lparr>c_tr := 0\<rparr>)" by (simp add: h(4))
      from finish_transition[OF AL_transition_post[OF tr h(5) core] a this]
      show ?thesis using h(4,6) True tr by simp
    qed
  qed
qed

lemma AL_ControlInd_answered:
  "let d = ctl (AL_ControlInd coe ap alControl code s) in c_st d = alControl AND STATE_MASK \<or> c_err d \<or> c_wait d"
proof -
  obtain k u where acc: "AL_accept alControl s = (k, u)" by force
  show ?thesis
  proof (cases k)
    case None
    then have "c_err (ctl u)" using acc
      by (auto simp: AL_accept_def Let_def ctl_def split: if_splits)
    then show ?thesis using acc None by (simp add: AL_ControlInd_def)
  next
    case (Some ack)
    obtain r v t a where h: "a = alControl AND STATE_MASK" "t = push_bit 4 (nAlStatus u) + a"
      "AL_check_sm ap t u = (r, v)" "ctl v = (ctl s)\<lparr>c_err := False\<rparr>"
      "c_st (ctl v) = drop_bit 4 t \<and> a = t AND 0x0F"
      "AL_ControlInd coe ap alControl code s =
        (let (r', t', w) = (if r = 0 then AL_transition coe ap t ack v else (r, t, AL_sm_failed coe ap r v)) in
          AL_finish ap a code r' t' w)"
      by (rule AL_ControlInd_unfold[OF acc[unfolded Some], where code = code])
    have a: "a AND STATE_MASK = a" by (simp add: h(1) and.assoc)
    show ?thesis using finish_answered[OF a, of code]
      unfolding h(6) h(1)[symmetric] Let_def case_prod_unfold by blast
  qed
qed

section \<open>Pending transitions, supervision and initialisation\<close>

definition pending_post :: "esm_ctl \<Rightarrow> 8 word \<Rightarrow> esm_ctl \<Rightarrow> bool" where
  "pending_post c st d = (d = c\<lparr>c_out := c_out d, c_in := c_in d\<rparr>
     \<and> (if st \<noteq> 0 then ctl_core (d\<lparr>c_st := st\<rparr>) \<and> esm_edge (c_st c) st else ctl_core d))"

lemma pending_ctl:
  assumes "esm_inv s" "bEcatWaitForAlControlRes s"
  obtains "ctl_core (ctl s)" "c_wait (ctl s)" "\<not> c_err (ctl s)" "c_st (ctl s) = STATE_PREOP"
      "nEcatStateTrans s = ucast PREOP_2_SAFEOP"
  | "ctl_core (ctl s)" "c_wait (ctl s)" "\<not> c_err (ctl s)" "c_st (ctl s) = STATE_SAFEOP"
      "nEcatStateTrans s = ucast SAFEOP_2_OP"
  using assms by (auto simp: esm_inv_def inv_core) (auto simp: ctl_def)

lemma res_timeout_post:
  assumes "esm_inv s" "bEcatWaitForAlControlRes s" "AL_res_timeout coe ap s = (st, code, u)"
  shows "st \<noteq> 0 \<and> st AND STATE_MASK = st \<and> pending_post (ctl s) st (ctl u)"
  using assms(1,2)
proof (cases rule: pending_ctl)
  case 1
  then have i: "(ctl s)\<lparr>c_in := False\<rparr> = ctl s" by (simp add: ctl_core_def)
  have "st = STATE_PREOP" "ctl u = ctl s"
    using assms(3) 1(5) i by (auto simp: AL_res_timeout_def Let_def)
  then show ?thesis using 1 by (simp add: pending_post_def ctl_core_def esm_edge_def)
next
  case 2
  then have i: "(ctl s)\<lparr>c_out := False\<rparr> = ctl s" by (simp add: ctl_core_def)
  have "st = STATE_SAFEOP \<and> ctl u = ctl s \<or> st = STATE_OP \<and> ctl u = (ctl s)\<lparr>c_out := True\<rparr>"
    using assms(3) 2(5) i by (auto simp: AL_res_timeout_def Let_def case_prod_unfold split: if_splits)
  then show ?thesis using 2 by (auto simp: pending_post_def ctl_core_def esm_edge_def)
qed

lemma res_continue_post:
  assumes "esm_inv s" "bEcatWaitForAlControlRes s" "AL_res_continue coe ap s = (st, u)"
  shows "st AND STATE_MASK = st \<and> pending_post (ctl s) st (ctl u)"
  using assms(1,2)
proof (cases rule: pending_ctl)
  case 1
  then have i: "(ctl s)\<lparr>c_in := False\<rparr> = ctl s" by (simp add: ctl_core_def)
  have "st = 0 \<and> ctl u = ctl s \<or> st = STATE_SAFEOP \<and> ctl u = (ctl s)\<lparr>c_in := True\<rparr>"
    using assms(3) 1(5) i by (auto simp: AL_res_continue_def Let_def case_prod_unfold split: if_splits)
  then show ?thesis using 1 by (auto simp: pending_post_def ctl_core_def esm_edge_def)
next
  case 2
  then have i: "(ctl s)\<lparr>c_out := False\<rparr> = ctl s" by (simp add: ctl_core_def)
  have "st = 0 \<and> ctl u = ctl s \<or> st = STATE_OP \<and> ctl u = (ctl s)\<lparr>c_out := True\<rparr>"
    using assms(3) 2(5) i
    by (auto simp: AL_res_continue_def AL_res_start_output_def Let_def case_prod_unfold split: if_splits)
  then show ?thesis using 2 by (auto simp: pending_post_def ctl_core_def esm_edge_def)
qed

lemma pending_status:
  assumes "esm_inv s" "pending_post (ctl s) st (ctl u)" "st AND STATE_MASK = st" "st \<noteq> 0"
  shows "ctl_inv (ctl (SetALStatus (if e then st OR STATE_CHANGE else st) code (u\<lparr>bEcatWaitForAlControlRes := False\<rparr>)))
    \<and> esm_edge (c_st (ctl s)) (c_st (ctl (SetALStatus (if e then st OR STATE_CHANGE else st) code
        (u\<lparr>bEcatWaitForAlControlRes := False\<rparr>))))"
  using assms(2-4) mask_err[OF assms(3)] by (auto simp: pending_post_def inv_core word_state_bits ctl_core_def)

lemma AL_ControlRes_inv:
  assumes "esm_inv s"
  shows "esm_inv (AL_ControlRes coe ap s) \<and> esm_edge (c_st (ctl s)) (c_st (ctl (AL_ControlRes coe ap s)))"
proof (cases "bEcatWaitForAlControlRes s")
  case False
  then show ?thesis using assms by (simp add: AL_ControlRes_def)
next
  case w: True
  show ?thesis
  proof (cases "EsmTimeoutCounter s = 0")
    case True
    obtain st code u where t: "AL_res_timeout coe ap s = (st, code, u)" by (cases "AL_res_timeout coe ap s") auto
    show ?thesis using res_timeout_post[OF assms w t] pending_status[OF assms, of st u "code \<noteq> 0" code] w True t
      by (simp add: AL_ControlRes_def esm_inv_def del: ctl_SetALStatus)
  next
    case False
    obtain st u where t: "AL_res_continue coe ap s = (st, u)" by force
    note p = res_continue_post[OF assms w t]
    show ?thesis
    proof (cases "st = 0")
      case True
      then have "ctl_core (ctl u)" "ctl u = (ctl s)\<lparr>c_out := c_out (ctl u), c_in := c_in (ctl u)\<rparr>"
        using p by (simp_all add: pending_post_def)
      then have "ctl_inv (ctl u)" "c_st (ctl u) = c_st (ctl s)"
        using assms unfolding esm_inv_def inv_core by (metis esm_ctl.select_convs esm_ctl.surjective esm_ctl.update_convs)+
      then show ?thesis using w False t True by (simp add: AL_ControlRes_def esm_inv_def)
    next
      case ne: False
      then show ?thesis using p pending_status[OF assms, of st u False 0] w False t
        by (simp add: AL_ControlRes_def esm_inv_def del: ctl_SetALStatus)
    qed
  qed
qed

lemma esm_inv_local [simp]:
  "esm_inv (s\<lparr>u8LocalErrorState := x\<rparr>) = esm_inv s" "esm_inv (s\<lparr>u16LocalErrorCode := w\<rparr>) = esm_inv s"
  "esm_inv (s\<lparr>EsmTimeoutCounter := t\<rparr>) = esm_inv s" "esm_inv (s\<lparr>bEcatFirstOutputsReceived := b\<rparr>) = esm_inv s"
  "esm_inv (snd (HW_EscReadDWord a s)) = esm_inv s"
  by (simp_all add: esm_inv_def)

lemma CheckIfEcatError_inv:
  assumes "esm_inv s"
  shows "esm_inv (CheckIfEcatError coe ap s) \<and> esm_edge (c_st (ctl s)) (c_st (ctl (CheckIfEcatError coe ap s)))"
  using assms AL_ControlInd_inv AL_ControlInd_edge[of "snd (HW_EscReadDWord 0x440 s)"]
    AL_ControlInd_edge[OF assms] AL_ControlInd_edge[of "snd (HW_EscReadDWord 0x440 s)\<lparr>bEcatFirstOutputsReceived := False\<rparr>"]
  by (simp add: CheckIfEcatError_def Let_def case_prod_unfold)

lemma StateChange_fail_post:
  assumes "esm_inv s" "bEcatWaitForAlControlRes s"
  shows "pending_post (ctl s) (ucast (drop_bit 4 (nEcatStateTrans s))) (ctl (ECAT_StateChange_fail coe ap s))
    \<and> ucast (drop_bit 4 (nEcatStateTrans s)) AND STATE_MASK = (ucast (drop_bit 4 (nEcatStateTrans s)) :: 8 word)
    \<and> ucast (drop_bit 4 (nEcatStateTrans s)) \<noteq> (0 :: 8 word)"
  using assms
proof (cases rule: pending_ctl)
  case 1
  then have "(ctl s)\<lparr>c_in := False\<rparr> = ctl s" by (simp add: ctl_core_def)
  then show ?thesis using 1 by (simp add: ECAT_StateChange_fail_def Let_def pending_post_def ctl_core_def)
next
  case 2
  then have "(ctl s)\<lparr>c_out := False\<rparr> = ctl s" by (simp add: ctl_core_def)
  then show ?thesis using 2 by (simp add: ECAT_StateChange_fail_def Let_def pending_post_def ctl_core_def)
qed

lemma StateChange_done_post:
  assumes "esm_inv s" "bEcatWaitForAlControlRes s"
  shows "pending_post (ctl s) (ucast (nEcatStateTrans s AND ucast STATE_MASK)) (ctl (ECAT_StateChange_done s))
    \<and> ucast (nEcatStateTrans s AND ucast STATE_MASK) AND STATE_MASK = (ucast (nEcatStateTrans s AND ucast STATE_MASK) :: 8 word)
    \<and> ucast (nEcatStateTrans s AND ucast STATE_MASK) \<noteq> (0 :: 8 word)"
  using assms
proof (cases rule: pending_ctl)
  case 1
  then show ?thesis by (simp add: ECAT_StateChange_done_def Let_def pending_post_def ctl_core_def esm_edge_def)
next
  case 2
  then show ?thesis by (simp add: ECAT_StateChange_done_def Let_def pending_post_def ctl_core_def esm_edge_def)
qed

lemma ECAT_StateChange_inv:
  assumes "esm_inv s"
  shows "esm_inv (ECAT_StateChange coe ap al code s)
    \<and> esm_edge (c_st (ctl s)) (c_st (ctl (ECAT_StateChange coe ap al code s)))"
proof (cases "bEcatWaitForAlControlRes s \<and> \<not> bApplEsmPending s \<and> \<not> (code \<noteq> 0 \<and> \<not> STATE_VALID al)")
  case False
  then show ?thesis
    using assms AL_ControlInd_inv AL_ControlInd_edge[of "s\<lparr>u8LocalErrorState := al AND STATE_MASK, u16LocalErrorCode := code\<rparr>"]
    by (auto simp: ECAT_StateChange_def Let_def)
next
  case w: True
  show ?thesis
  proof (cases "code \<noteq> 0")
    case True
    define s1 where "s1 = s\<lparr>u8LocalErrorState := al AND STATE_MASK, u16LocalErrorCode := code\<rparr>"
    have s1: "esm_inv s1" "bEcatWaitForAlControlRes s1" "ctl s1 = ctl s" using assms w by (simp_all add: s1_def)
    note p = StateChange_fail_post[OF s1(1,2)]
    have "c_tr (ctl (ECAT_StateChange_fail coe ap s1)) = c_tr (ctl s1)"
      using p by (metis pending_post_def esm_ctl.select_convs(8) esm_ctl.update_convs(5,6) esm_ctl.surjective)
    then have tr: "nEcatStateTrans (ECAT_StateChange_fail coe ap s1) = nEcatStateTrans s1" by (simp add: ctl_def)
    have "ECAT_StateChange coe ap al code s = SetALStatus (if True then ucast (drop_bit 4 (nEcatStateTrans s1)) OR STATE_CHANGE else ucast (drop_bit 4 (nEcatStateTrans s1))) code
        ((ECAT_StateChange_fail coe ap s1)\<lparr>bEcatWaitForAlControlRes := False\<rparr>)"
      using w True tr by (simp add: ECAT_StateChange_def Let_def s1_def)
    then show ?thesis using p pending_status[OF s1(1), of _ "ECAT_StateChange_fail coe ap s1" True] s1(3)
      by (simp add: esm_inv_def del: ctl_SetALStatus)
  next
    case False
    note p = StateChange_done_post[OF assms]
    have "c_tr (ctl (ECAT_StateChange_done s)) = c_tr (ctl s)"
      by (simp add: ECAT_StateChange_done_def Let_def)
    then have tr: "nEcatStateTrans (ECAT_StateChange_done s) = nEcatStateTrans s" by (simp add: ctl_def)
    have "ctl (ECAT_StateChange coe ap al code s) = ctl (SetALStatus (if False then (ucast (nEcatStateTrans s AND ucast STATE_MASK)) OR STATE_CHANGE else ucast (nEcatStateTrans s AND ucast STATE_MASK)) code
        ((ECAT_StateChange_done s)\<lparr>bEcatWaitForAlControlRes := False\<rparr>))"
      using w False tr by (simp add: ECAT_StateChange_def Let_def)
    then show ?thesis using p w pending_status[OF assms, of _ "ECAT_StateChange_done s" False]
      by (simp add: esm_inv_def del: ctl_SetALStatus)
  qed
qed


lemma ECAT_Init_inv: "esm_inv (ECAT_Init ap s) \<and> c_st (ctl (ECAT_Init ap s)) = STATE_INIT"
  by (simp add: ECAT_Init_def Let_def case_prod_unfold esm_inv_def ctl_inv_def ctl_MBX_Init)

end

end
