(* ===== verification/RmcsFoe.thy ===== *)
theory RmcsFoe
  imports RmcsAppl
begin

text \<open>
  File access on the board: the application's half satisfies the contract \<open>foe_application\<close> of
  the server, and what a download leaves in the staging region.
\<close>

unbundle bit_operations_syntax

section \<open>The contract of the file access application\<close>

lemma app_frame_view:
  assumes "mem t = mem s" "foe_keep t = foe_keep s" "foe_vars t = foe_vars s"
  shows "foe_app_frame p s t"
  using assms by (simp add: foe_app_frame_def)

lemma app_frame_data:
  assumes room: "live (mem s) p (12 + length bs)" and m: "mem t = m_write p 12 bs (mem s)"
    and k: "foe_keep t = foe_keep s" "foe_vars t = foe_vars s"
  shows "foe_app_frame p s t"
proof -
  have l: "12 + length bs \<le> length (m_block p (mem s))" using live_length[OF room] .
  have "get_bytes (put_bytes 12 bs (m_block p (mem s))) 0 12 = get_bytes (m_block p (mem s)) 0 12"
    using l by (simp add: get_bytes_def put_bytes_def)
  then show ?thesis using room m k by (simp add: foe_app_frame_def)
qed

lemma keep_rmcs [simp]:
  "foe_keep (s\<lparr>g_writer := w\<rparr>) = foe_keep s" "foe_keep (s\<lparr>nor := f\<rparr>) = foe_keep s"
  "foe_keep (s\<lparr>g_commit_pending := b\<rparr>) = foe_keep s" "foe_keep (s\<lparr>g_read_size := n\<rparr>) = foe_keep s"
  "foe_keep (s\<lparr>hung := b\<rparr>) = foe_keep s"
  "foe_vars (s\<lparr>g_writer := w\<rparr>) = foe_vars s" "foe_vars (s\<lparr>nor := f\<rparr>) = foe_vars s"
  "foe_vars (s\<lparr>g_commit_pending := b\<rparr>) = foe_vars s" "foe_vars (s\<lparr>g_read_size := n\<rparr>) = foe_vars s"
  "foe_vars (s\<lparr>hung := b\<rparr>) = foe_vars s"
  by (simp_all add: foe_keep_def foe_vars_def)

lemma keep_mem_write [simp]:
  "foe_keep (mem_write p off bs s) = foe_keep s" "foe_vars (mem_write p off bs s) = foe_vars s"
  by (simp_all add: foe_keep_def foe_vars_def mem_ops)

lemma count_le:
  fixes m :: "16 word"
  assumes "y = (if x < ucast m then x else ucast m :: 32 word)"
  shows "unat (ucast y :: 16 word) \<le> unat m \<and> unat y \<le> unat m"
proof -
  have "unat y \<le> unat (ucast m :: 32 word)" using assms by (simp add: word_less_nat_alt)
  also have "unat (ucast m :: 32 word) = unat m"
    using unat_word16_less[of m] by (simp add: unsigned_ucast_eq take_bit_nat_eq_self_iff)
  finally have "unat y \<le> unat m" .
  moreover have "unat (ucast y :: 16 word) \<le> unat y" by (simp add: unsigned_ucast_eq take_bit_nat_less_eq_self)
  ultimately show ?thesis by simp
qed

lemma length_fl_read [simp]: "length (fl_read fl a n f) = n"
  by (simp add: fl_read_def)

lemma room_data: "foe_room p s \<Longrightarrow> k \<le> unat (u16FoeMaxSendBlockSize s) \<Longrightarrow> live (mem s) p (12 + k)"
  by (auto simp: foe_room_def elim!: live_mono)

lemma read_back_frame:
  assumes room: "foe_room p s" and y: "y = (if x < ucast (u16FoeMaxSendBlockSize s) then x else ucast (u16FoeMaxSendBlockSize s) :: 32 word)"
    and u: "mem u = mem s" "foe_keep u = foe_keep s" "foe_vars u = foe_vars s"
  shows "foe_app_frame p s (mem_write p 12 (fl_read fl a (unat y) f) u)
    \<and> unat (ucast y :: 16 word) \<le> unat (u16FoeMaxSendBlockSize s)"
proof -
  note c = count_le[OF y]
  have "live (mem s) p (12 + unat y)" using room_data[OF room] c by blast
  then have "foe_app_frame p s (mem_write p 12 (fl_read fl a (unat y) f) u)"
    using u by (intro app_frame_data[where bs = "fl_read fl a (unat y) f"]) (simp_all, simp add: mem_write_def)
  then show ?thesis using c by blast
qed

lemma rmcs_read_frame:
  assumes room: "foe_room p s" and e: "rmcs_foe_read B (p, 12) n pw (u16FoeMaxSendBlockSize s) (p, 12) s = (r, t)"
  shows "foe_app_frame p s t \<and> (r \<le> FOE_MAXDATA \<longrightarrow> unat r \<le> unat (u16FoeMaxSendBlockSize s))"
proof (cases "t = s \<and> \<not> r \<le> FOE_MAXDATA")
  case False
  define x where "x = image_size (staging_record_of (b_flash B) (nor s))"
  define y where "y = (if x < ucast (u16FoeMaxSendBlockSize s) then x else ucast (u16FoeMaxSendBlockSize s) :: 32 word)"
  have "r = ucast y" "t = mem_write p 12 (fl_read (b_flash B) (unat kStagingImageStart) (unat y) (nor s)) (s\<lparr>g_read_size := x\<rparr>)"
    using e False unfolding y_def by (auto simp: rmcs_foe_read_def Let_def x_def[symmetric] split: if_splits)
  then show ?thesis using read_back_frame[OF room y_def, of "s\<lparr>g_read_size := x\<rparr>" "b_flash B" "unat kStagingImageStart" "nor s"] by simp
qed simp

lemma rmcs_read_data_frame:
  assumes room: "foe_room p s" and e: "rmcs_foe_read_data B off (u16FoeMaxSendBlockSize s) (p, 12) s = (r, t)"
  shows "foe_app_frame p s t \<and> (r \<le> FOE_MAXDATA \<longrightarrow> unat r \<le> unat (u16FoeMaxSendBlockSize s))"
proof (cases "off \<ge> g_read_size s")
  case True
  then show ?thesis using e by (auto simp: rmcs_foe_read_data_def)
next
  case False
  define x where "x = g_read_size s - off"
  define y where "y = (if x < ucast (u16FoeMaxSendBlockSize s) then x else ucast (u16FoeMaxSendBlockSize s) :: 32 word)"
  have "(if x > ucast (u16FoeMaxSendBlockSize s) then ucast (u16FoeMaxSendBlockSize s) else x) = y"
    by (auto simp: y_def)
  then have "r = ucast y" "t = mem_write p 12 (fl_read (b_flash B) (unat (kStagingImageStart + off)) (unat y) (nor s)) s"
    using e False by (simp_all add: rmcs_foe_read_data_def Let_def x_def[symmetric])
  then show ?thesis using read_back_frame[OF room y_def, of s "b_flash B" "unat (kStagingImageStart + off)" "nor s"] by simp
qed

lemma rmcs_write_frame:
  assumes "rmcs_foe_write B (p, 12) n pw s = (r, t)"
  shows "foe_app_frame p s t \<and> (r = 0 \<or> FOE_MAXDATA < r)"
  using assms by (auto simp: rmcs_foe_write_def Let_def case_prod_unfold split: if_splits intro!: app_frame_view)

lemma write_block_codes: "write_block fl bs w f = Some (r, w', g) \<Longrightarrow> r = 0 \<or> FOE_MAXDATA < r"
  by (auto simp: write_block_def Let_def case_prod_unfold split: if_splits option.splits bool.splits)

lemma rmcs_write_data_frame:
  assumes room: "foe_room p s" and n: "unat n + 12 \<le> unat (u16ReceiveMbxSize s)"
    and e: "rmcs_foe_write_data B (p, 12) n fol s = (r, t)"
  shows "foe_app_frame p s t \<and> (r = 0 \<or> FOE_MAXDATA < r)"
proof -
  have "live (mem s) p (12 + unat n)" using room n by (auto simp: foe_room_def elim!: live_mono)
  then have "mem_touch p (12 + unat n) s = s" by simp
  then show ?thesis using e write_block_codes
    by (auto simp: rmcs_foe_write_data_def Let_def split: if_splits option.splits prod.splits
        intro!: app_frame_view) fastforce+
qed

interpretation rmcs_file: foe_application "rmcs_foe B" "\<lambda>_. True"
  by unfold_locales (auto simp: rmcs_foe_def dest: rmcs_read_frame rmcs_read_data_frame rmcs_write_frame
      rmcs_write_data_frame)

section \<open>The erase loop ends\<close>

lemma SW_erase_loop_inv:
  assumes nor: "nor_ok fl" and fin: "unat end1 \<le> 0x1E0000"
  shows "staging_inv fl w f img \<Longrightarrow> unat end1 < unat (erased_through w) + 4096 * (n + 1) \<Longrightarrow>
    \<exists>ok w' g. SW_erase_loop fl (n + 2) end1 w f = Some (ok, w', g) \<and> next_offset w' = next_offset w
      \<and> (if ok then staging_inv fl w' g img \<and> end1 \<le> erased_through w' else meta_open fl g)"
proof (induction n arbitrary: w f)
  case (0 w f)
  obtain r w1 f1 where e: "SW_erase_step fl end1 w f = (r, w1, f1)" by (cases "SW_erase_step fl end1 w f") auto
  note S = SW_erase_step_inv[OF nor 0(1) fin e]
  show ?case
  proof (cases r)
    case kProgressed
    then have i: "staging_inv fl w1 f1 img" "next_offset w1 = next_offset w"
      "unat (erased_through w1) = unat (erased_through w) + 4096" using S by auto
    then have "end1 \<le> erased_through w1" using 0(2) by (simp add: word_le_nat_alt)
    then have "SW_erase_step fl end1 w1 f1 = (kReady, w1, f1)"
      using i(1) by (simp add: SW_erase_step_def staging_inv_def)
    then show ?thesis using kProgressed e i \<open>end1 \<le> _\<close> by (auto simp: numeral_2_eq_2 intro!: exI[of _ True])
  qed (use S e 0 in \<open>auto simp: numeral_2_eq_2\<close>)
next
  case (Suc n w f)
  obtain r w1 f1 where e: "SW_erase_step fl end1 w f = (r, w1, f1)" by (cases "SW_erase_step fl end1 w f") auto
  note S = SW_erase_step_inv[OF nor Suc(2) fin e]
  show ?case
  proof (cases r)
    case kProgressed
    then have i: "staging_inv fl w1 f1 img" "next_offset w1 = next_offset w"
      "unat (erased_through w1) = unat (erased_through w) + 4096" using S by auto
    then have "unat end1 < unat (erased_through w1) + 4096 * (n + 1)" using Suc(3) by simp
    from Suc.IH[OF i(1) this] show ?thesis using kProgressed e i(2) by simp
  qed (use S e Suc(2) in \<open>auto\<close>)
qed

lemma write_block_inv:
  assumes nor: "nor_ok fl" and inv: "staging_inv fl w f img" and bs: "bs \<noteq> []" "length bs < 65536"
  shows "\<exists>r w' g. write_block fl bs w f = Some (r, w', g) \<and> (if r = 0 then staging_inv fl w' g (img @ bs)
      else \<not> is_open w' \<and> meta_open fl g)"
proof -
  let ?e = "next_offset w + of_nat (length bs) :: 32 word"
  have e: "unat ?e = length img + length bs"
    using inv bs by (simp add: staging_inv_def unat_word_ariths unat_of_nat)
  show ?thesis
  proof (cases "?e > kStagingMaxImageSize")
    case True
    then show ?thesis using inv by (simp add: write_block_def Let_def SW_abort_def staging_inv_def)
  next
    case False
    then have fin: "unat ?e \<le> 0x1E0000" by (simp add: word_le_nat_alt not_less)
    define n where "n = unat ?e div 4096 + 1"
    have "unat ?e < unat (erased_through w) + 4096 * (n + 1)" by (simp add: n_def)
    from SW_erase_loop_inv[OF nor fin inv this]
    obtain ok w1 f1 where l: "SW_erase_loop fl (n + 2) ?e w f = Some (ok, w1, f1)" "next_offset w1 = next_offset w"
      "if ok then staging_inv fl w1 f1 img \<and> ?e \<le> erased_through w1 else meta_open fl f1" by blast
    have fuel: "unat ?e div 4096 + 3 = n + 2" by (simp add: n_def)
    show ?thesis
    proof (cases ok)
      case no: False
      then show ?thesis using False l unfolding write_block_def Let_def fuel by (simp add: SW_abort_def)
    next
      case True
      obtain ok2 w2 f2 where w2: "SW_write fl (next_offset w1) bs w1 f1 = (ok2, w2, f2)"
        by (cases "SW_write fl (next_offset w1) bs w1 f1") auto
      have fits: "length img + length bs \<le> 0x1E0000" "length img + length bs \<le> unat (erased_through w1)"
        using fin e l True by (simp_all add: word_le_nat_alt)
      have "staging_inv fl w1 f1 img" using l True by simp
      note W = SW_write_inv[OF nor this bs fits w2]
      show ?thesis using False l True W w2 unfolding write_block_def Let_def fuel
        by (auto simp: SW_abort_def)
    qed
  qed
qed

section \<open>A whole download\<close>

text \<open>The application's half of a download: a write request, the data blocks and the main loop's
  commit; the last block is the one after which nothing follows.\<close>

fun foe_blocks :: "('f, 'e, 'p) board \<Rightarrow> (addr \<times> 16 word) list \<Rightarrow> ('f, 'e, 'p, 'z) rmcs_scheme
    \<Rightarrow> 16 word \<times> ('f, 'e, 'p, 'z) rmcs_scheme" where
  "foe_blocks B [] s = (0, s)"
| "foe_blocks B ((a, n) # bs) s =
    (let (r, s) = rmcs_foe_write_data B a n (bs \<noteq> []) s in
     if r \<noteq> 0 then (r, s) else foe_blocks B bs s)"

definition block_data :: "'z mach_scheme \<Rightarrow> addr \<times> 16 word \<Rightarrow> 8 word list" where
  "block_data s b = get_bytes (m_block (fst (fst b)) (mem s)) (snd (fst b)) (unat (snd b))"

definition block_live :: "'z mach_scheme \<Rightarrow> addr \<times> 16 word \<Rightarrow> bool" where
  "block_live s b = (live (mem s) (fst (fst b)) (snd (fst b) + unat (snd b)))"

lemma block_data_length: "block_live s b \<Longrightarrow> length (block_data s b) = unat (snd b)"
  using live_length by (auto simp: block_live_def block_data_def)

lemma block_mem: "mem t = mem s \<Longrightarrow> block_data t = block_data s \<and> block_live t = block_live s"
  by (auto simp: block_data_def block_live_def fun_eq_iff)

definition dl_inv :: "('f, 'e, 'p) board \<Rightarrow> 8 word list \<Rightarrow> ('f, 'e, 'p, 'z) rmcs_scheme \<Rightarrow> bool" where
  "dl_inv B img s = staging_inv (b_flash B) (g_writer s) (nor s) img"

lemma write_data_inv:
  assumes nor: "nor_ok (b_flash B)" and inv: "dl_inv B img s" and l: "block_live s (a, n)"
    and e: "rmcs_foe_write_data B a n fol s = (r, t)"
  shows "mem t = mem s \<and> hung t = hung s \<and> (if r = 0 then dl_inv B (img @ block_data s (a, n)) t
      \<and> g_commit_pending t = (if fol then g_commit_pending s else True)
    else meta_open (b_flash B) (nor t) \<and> \<not> is_open (g_writer t) \<and> g_commit_pending t = g_commit_pending s)"
proof -
  have op: "is_open (g_writer s)" using inv by (simp add: dl_inv_def staging_inv_def)
  have t: "mem_touch (fst a) (snd a + unat n) s = s" using l by (simp add: block_live_def)
  let ?bs = "block_data s (a, n)"
  have len: "length ?bs = unat n" using block_data_length[OF l] by simp
  show ?thesis
  proof (cases "n = 0")
    case True
    then have "?bs = []" using len by simp
    then show ?thesis using e op True inv by (auto simp: rmcs_foe_write_data_def dl_inv_def split: if_splits)
  next
    case False
    then have ne: "?bs \<noteq> []" "length ?bs < 65536"
      using len unat_word16_less[of n] by (auto simp: unat_eq_0)
    obtain q w g where w: "write_block (b_flash B) ?bs (g_writer s) (nor s) = Some (q, w, g)"
      "if q = 0 then staging_inv (b_flash B) w g (img @ ?bs) else \<not> is_open w \<and> meta_open (b_flash B) g"
      using write_block_inv[OF nor inv[unfolded dl_inv_def] ne] by blast
    have "n > 0" using False by (simp add: word_gt_0)
    then have "(r, t) = (if q \<noteq> 0 then (q, s\<lparr>g_writer := w, nor := g\<rparr>)
        else (0, if fol then s\<lparr>g_writer := w, nor := g\<rparr> else s\<lparr>g_writer := w, nor := g, g_commit_pending := True\<rparr>))"
      using e op t w(1) by (simp add: rmcs_foe_write_data_def Let_def block_data_def split: if_splits)
    then show ?thesis using w(2) by (auto simp: dl_inv_def split: if_splits)
  qed
qed

lemma foe_blocks_inv:
  assumes nor: "nor_ok (b_flash B)"
  shows "dl_inv B img s \<Longrightarrow> (\<And>b. b \<in> set bs \<Longrightarrow> block_live s b) \<Longrightarrow> foe_blocks B bs s = (r, t) \<Longrightarrow>
    mem t = mem s \<and> hung t = hung s
    \<and> (if r = 0 then dl_inv B (img @ concat (map (block_data s) bs)) t
         \<and> g_commit_pending t = (g_commit_pending s \<or> bs \<noteq> [])
       else meta_open (b_flash B) (nor t) \<and> \<not> is_open (g_writer t))"
proof (induction bs arbitrary: s img)
  case Nil
  then show ?case by simp
next
  case (Cons b bs)
  obtain a n where b: "b = (a, n)" by (cases b) auto
  obtain q u where q: "rmcs_foe_write_data B a n (bs \<noteq> []) s = (q, u)" by force
  have "block_live s (a, n)" using Cons.prems(2)[of b] b by simp
  note W = write_data_inv[OF nor Cons.prems(1) this q]
  show ?case
  proof (cases "q = 0")
    case False
    then show ?thesis using W Cons.prems(3) q b by auto
  next
    case True
    have m: "mem u = mem s" using W by simp
    have "foe_blocks B bs u = (r, t)" using True Cons.prems(3) q b by simp
    moreover have "\<And>b. b \<in> set bs \<Longrightarrow> block_live u b" using Cons.prems(2) block_mem[OF m] by simp
    moreover have "dl_inv B (img @ block_data s (a, n)) u" using W True by simp
    ultimately show ?thesis using Cons.IH[of "img @ block_data s (a, n)" u] W True b block_mem[OF m] by auto
  qed
qed

lemma write_request_inv:
  assumes nor: "nor_ok (b_flash B)" and e: "rmcs_foe_write B name n pw s = (0, t)"
  shows "dl_inv B [] t \<and> mem t = mem s \<and> g_commit_pending t = g_commit_pending s \<and> hung t = hung s
    \<and> nAlStatus s AND STATE_MASK = STATE_BOOT"
proof -
  obtain ok w g where b: "SW_begin (b_flash B) (nor s) = (ok, w, g)" by (cases "SW_begin (b_flash B) (nor s)") auto
  have "ok" "t = s\<lparr>g_writer := w, nor := g\<rparr>" "nAlStatus s AND STATE_MASK = STATE_BOOT"
    using e b by (auto simp: rmcs_foe_write_def Let_def split: if_splits)
  then show ?thesis using SW_begin_inv[OF nor] b by (simp add: dl_inv_def)
qed

lemma dl_not_ready: "dl_inv B img s \<Longrightarrow> \<not> staging_record_is_ready (b_flash B) m (nor s)"
  by (simp add: dl_inv_def staging_inv_def meta_open_not_ready)

lemma poll_commit:
  assumes nor: "nor_ok (b_flash B)" and inv: "dl_inv B img s" and c: "g_commit_pending s"
    and p: "ecat_foe_poll_reset B s = (x, t)"
  shows "staged (b_flash B) img (nor t)"
    and "staging_record_is_ready (b_flash B) m (nor t) \<Longrightarrow> unat (image_size (staging_record_of (b_flash B) (nor t))) = length img"
    and "g_download_complete t \<Longrightarrow> \<not> g_download_complete s \<Longrightarrow> staging_record_is_ready (b_flash B) kStagingMaxImageSize (nor t)"
    and "\<not> is_open (g_writer t)" and "\<not> g_commit_pending t"
proof -
  obtain ok w g where e: "SW_commit (b_flash B) (g_writer s) (nor s) = (ok, w, g)"
    by (cases "SW_commit (b_flash B) (g_writer s) (nor s)") auto
  note S = SW_commit_ready[OF nor inv[unfolded dl_inv_def] e]
  have t: "t = (if ok then s\<lparr>g_commit_pending := False, g_writer := w, nor := g, g_download_complete := True\<rparr>
      else s\<lparr>g_commit_pending := False, g_writer := SW_abort w, nor := g\<rparr>)"
    using p e c by (auto simp: ecat_foe_poll_reset_def Let_def split: if_splits)
  show "staged (b_flash B) img (nor t)" using S(1) t by simp
  show "staging_record_is_ready (b_flash B) m (nor t) \<Longrightarrow> unat (image_size (staging_record_of (b_flash B) (nor t))) = length img"
    using S(2)[of m] t by (simp split: if_splits)
  show "g_download_complete t \<Longrightarrow> \<not> g_download_complete s \<Longrightarrow> staging_record_is_ready (b_flash B) kStagingMaxImageSize (nor t)"
    using S(3) t by (simp split: if_splits)
  show "\<not> is_open (g_writer t)" using S(3) t by (simp add: SW_abort_def split: if_splits)
  show "\<not> g_commit_pending t" using t by (simp split: if_splits)
qed

section \<open>Uploads\<close>

lemma fl_read_staged:
  "staged fl img f \<Longrightarrow> off + n \<le> length img \<Longrightarrow> fl_read fl (0x80211000 + off) n f = get_bytes img off n"
  by (rule nth_equalityI) (auto simp: staged_iff fl_read_def get_bytes_def add.assoc)

lemma min_word: "unat (if x < ucast m then x else ucast m :: 32 word) = min (unat x) (unat m)" for m :: "16 word"
proof -
  have "unat (ucast m :: 32 word) = unat m"
    using unat_word16_less[of m] by (simp add: unsigned_ucast_eq take_bit_nat_eq_self_iff)
  then show ?thesis by (simp add: word_less_nat_alt min_def)
qed

lemma ucast_count: "unat x \<le> unat (m :: 16 word) \<Longrightarrow> unat (ucast (x :: 32 word) :: 16 word) = unat x"
  using unat_word16_less[of m] by (simp add: unsigned_ucast_eq take_bit_nat_eq_self_iff)

text \<open>What a read call hands out: the bytes of the image at the offset, as many as fit.\<close>

definition handed :: "addr \<Rightarrow> 8 word list \<Rightarrow> ('f, 'e, 'p, 'z) rmcs_scheme \<Rightarrow> 16 word \<times> ('f, 'e, 'p, 'z) rmcs_scheme \<Rightarrow> bool" where
  "handed a bs s res = (unat (fst res) = length bs \<and> mem (snd res) = m_write (fst a) (snd a) bs (mem s)
     \<and> nor (snd res) = nor s)"

lemma foe_read_first:
  assumes r: "image_ready (b_flash B) img (nor s)" and n: "name_matches nm k s" and pw: "password_ok pw"
  shows "handed a (take (unat m) img) s (rmcs_foe_read B nm k pw m a s)
    \<and> unat (g_read_size (snd (rmcs_foe_read B nm k pw m a s))) = length img"
proof -
  define x where "x = image_size (staging_record_of (b_flash B) (nor s))"
  define y where "y = (if x < ucast m then x else ucast m :: 32 word)"
  have st: "staged (b_flash B) img (nor s)" and x: "unat x = length img"
    using r by (simp_all add: image_ready_def x_def)
  have y: "unat y = min (length img) (unat m)" by (simp add: y_def min_word x)
  have e: "rmcs_foe_read B nm k pw m a s = (ucast y, mem_write (fst a) (snd a)
      (fl_read (b_flash B) (unat kStagingImageStart) (unat y) (nor s)) (s\<lparr>g_read_size := x\<rparr>))"
    using r n pw unfolding y_def
    by (auto simp: rmcs_foe_read_def Let_def image_ready_def staging_record_is_ready_def x_def[symmetric])
  have "fl_read (b_flash B) 0x80211000 (unat y) (nor s) = take (unat m) img"
    using fl_read_staged[OF st, of 0 "unat y"] y by (simp add: get_bytes_def min_def)
  moreover have "unat (ucast y :: 16 word) = unat y" by (rule ucast_count[of _ m]) (simp add: y)
  ultimately show ?thesis using e x y by (simp add: handed_def mem_write_def)
qed

lemma foe_read_next:
  assumes st: "staged (b_flash B) img (nor s)" and g: "unat (g_read_size s) = length img"
    and max: "length img \<le> 0x1E0000"
  shows "if unat off < length img then handed a (get_bytes img (unat off) (min (unat m) (length img - unat off))) s (rmcs_foe_read_data B off m a s)
    else rmcs_foe_read_data B off m a s = (0, s)"
proof (cases "unat off < length img")
  case False
  then have "off \<ge> g_read_size s" using g by (simp add: word_le_nat_alt)
  then show ?thesis using False by (simp add: rmcs_foe_read_data_def)
next
  case True
  then have no: "\<not> off \<ge> g_read_size s" using g by (simp add: word_le_nat_alt)
  define x where "x = g_read_size s - off"
  have x: "unat x = length img - unat off" using True g by (simp add: x_def unat_sub word_le_nat_alt)
  define y where "y = (if x < ucast m then x else ucast m :: 32 word)"
  have y: "unat y = min (length img - unat off) (unat m)" by (simp add: y_def min_word x)
  have "(if x > ucast m then ucast m else x) = y" by (auto simp: y_def)
  then have e: "rmcs_foe_read_data B off m a s = (ucast y, mem_write (fst a) (snd a)
      (fl_read (b_flash B) (unat (kStagingImageStart + off)) (unat y) (nor s)) s)"
    using no by (simp add: rmcs_foe_read_data_def Let_def x_def[symmetric])
  have "unat (kStagingImageStart + off) = 0x80211000 + unat off" using True max by (intro unat_image_addr) simp
  then have "fl_read (b_flash B) (unat (kStagingImageStart + off)) (unat y) (nor s) = get_bytes img (unat off) (unat y)"
    using fl_read_staged[OF st, of "unat off" "unat y"] y True by simp
  moreover have "unat (ucast y :: 16 word) = unat y" by (rule ucast_count[of _ m]) (simp add: y)
  ultimately show ?thesis using e True y by (simp add: handed_def mem_write_def min.commute)
qed

end
