(* ===== verification/RmcsEsm.thy ===== *)
theory RmcsEsm
  imports EsmInv RmcsFoe
begin

text \<open>
  The state machine on the board: the callbacks of \<open>ecat_appl.c\<close> and the CANopen service keep
  the contract \<open>al_environment\<close>, so the invariant holds of the whole stack with this application.
\<close>

unbundle bit_operations_syntax

lemma ctl_coe_fields [simp]:
  "ctl (s\<lparr>pCoeSendStored := p\<rparr>) = ctl s" "ctl (s\<lparr>nSdoInfoFragmentsLeft := w\<rparr>) = ctl s"
  "ctl (s\<lparr>pSdoResStored := p\<rparr>) = ctl s" "ctl (s\<lparr>bSdoInWork := b\<rparr>) = ctl s" "ctl (s\<lparr>u8PendingSdo := x\<rparr>) = ctl s"
  "ctl (s\<lparr>bStoreCompleteAccess := b\<rparr>) = ctl s" "ctl (s\<lparr>u16StoreIndex := w\<rparr>) = ctl s" "ctl (s\<lparr>u8StoreSubindex := x\<rparr>) = ctl s"
  "ctl (s\<lparr>u32StoreDataSize := d\<rparr>) = ctl s" "ctl (s\<lparr>pStoreData := d2\<rparr>) = ctl s" "ctl (s\<lparr>pSdoPendFunc := f\<rparr>) = ctl s"
  "ctl (s\<lparr>pSdoSegData := p\<rparr>) = ctl s" "ctl (s\<lparr>nSdoSegBytesToHandle := d\<rparr>) = ctl s" "ctl (s\<lparr>nSdoSegService := x\<rparr>) = ctl s"
  by (simp_all add: ctl_def)

lemma ctl_appl_fields [simp]:
  "ctl (s\<lparr>aPdInputData := bs\<rparr>) = ctl s" "ctl (s\<lparr>u16EepromStoreTimeoutValue := w\<rparr>) = ctl s"
  "ctl (s\<lparr>u16EepromStoreTimeoutCounter := w\<rparr>) = ctl s" "ctl (s\<lparr>pEEPROM := e\<rparr>) = ctl s"
  by (simp_all add: ctl_def)

lemma ctl_rmcs_fields [simp]:
  "ctl (s\<lparr>nor := f\<rparr>) = ctl s" "ctl (s\<lparr>ee := e\<rparr>) = ctl s" "ctl (s\<lparr>pdst := p\<rparr>) = ctl s"
  "ctl (s\<lparr>main_loop_hook := b\<rparr>) = ctl s" "ctl (s\<lparr>g_reset_requested := b\<rparr>) = ctl s"
  by (simp_all add: ctl_def)

lemma ctl_hw_more [simp]: "ctl (HW_EscWrite a bs s) = ctl s" "ctl (snd (HW_EscRead a n s)) = ctl s"
  by (simp_all add: hw_ops)

lemma ctl_Clear [simp]: "ctl (SDOS_ClearPendingResponse_impl s) = ctl s"
  by (simp add: SDOS_ClearPendingResponse_impl_def Let_def)

lemma ctl_delay [simp]: "ctl (snd (GetSystemTimeDelay t s)) = ctl s"
  by (simp add: GetSystemTimeDelay_def Let_def case_prod_unfold)

lemma ctl_ee_call [simp]: "ctl (snd (ee_call f s)) = ctl s"
  by (simp add: ee_call_def Let_def case_prod_unfold)

lemma ctl_input_mapping: "(\<And>s. ctl (APPL_InputMapping u s) = ctl s) \<Longrightarrow> ctl (PDO_InputMapping_impl u s) = ctl s"
  by (simp add: PDO_InputMapping_impl_def Let_def case_prod_unfold)

lemma rmcs_user_sel [simp]:
  "APPL_InputMapping (rmcs_user B) = RMCS_InputMapping B"
  "pAPPL_EEPROM_Read (rmcs_user B) = Some (\<lambda>a. ee_call (b_ee_read B a))"
  "pAPPL_EEPROM_Write (rmcs_user B) = Some (\<lambda>a. ee_call (b_ee_write B a))"
  "pAPPL_EEPROM_Reload (rmcs_user B) = Some (ee_call (b_ee_reload B))"
  by (simp_all add: rmcs_user_def rmcs_user0_def)

lemma ctl_ee_ops [simp]:
  "ctl (snd (EEPROM_read (rmcs_user B) a s)) = ctl s" "ctl (snd (EEPROM_write (rmcs_user B) a s)) = ctl s"
  "ctl (snd (EEPROM_reload_small (rmcs_user B) r s)) = ctl s"
  by (simp_all add: EEPROM_read_def EEPROM_write_def EEPROM_reload_small_def case_prod_unfold Let_def)

lemma ctl_reload_loop [simp]: "ctl (snd (EEPROM_reload_loop (rmcs_user B) n a r s)) = ctl s"
  by (induction n arbitrary: a r s) (simp_all add: Let_def case_prod_unfold)

lemma ctl_eeprom [simp]: "ctl (EEPROM_CommandHandler_impl (rmcs_user B) s) = ctl s"
  by (simp add: EEPROM_CommandHandler_impl_def Let_def case_prod_unfold)

lemma ctl_rmcs_mapping [simp]: "ctl (PDO_InputMapping_impl (rmcs_user B) s) = ctl s"
  by (rule ctl_input_mapping) (simp add: RMCS_InputMapping_def Let_def case_prod_unfold)

interpretation rmcs_al: al_environment "coe_of sdo" "rmcs_appl B"
  by unfold_locales (simp_all add: coe_of_def rmcs_appl_def RMCS_StopMailboxHandler_def RMCS_GenerateMapping_def
      COE_Init_impl_def)

end
