(* ===== verification/StackRun.thy ===== *)
theory StackRun
  imports RmcsEsm
begin

text \<open>
  The stack driven by an arbitrary interleaving of what happens to it: requests of the master
  and of the application, the cyclic functions, the 1 ms timer, the process data interrupt, and
  changes of the chip's memory.  \<open>stack_step\<close> is one of them, \<open>stack_run\<close> a sequence from
  \<open>ECAT_Init\<close> on.
\<close>

unbundle bit_operations_syntax

lemma ctl_sync_more [simp]:
  "ctl (s\<lparr>aPdOutputData := bs\<rparr>) = ctl s" "ctl (s\<lparr>u64Timestamp := t\<rparr>) = ctl s"
  "ctl (s\<lparr>u32CheckForDcOverrunCnt := d\<rparr>) = ctl s" "ctl (s\<lparr>u32MinCycleTimeStartValue := d\<rparr>) = ctl s"
  "ctl (s\<lparr>bMinCycleTimeMeasurementStarted := b\<rparr>) = ctl s" "ctl (s\<lparr>u32MinCycleTimeValue := d\<rparr>) = ctl s"
  "ctl (s\<lparr>u32CycleTimeStartValue := d\<rparr>) = ctl s" "ctl (s\<lparr>u32LastDc32Value := d\<rparr>) = ctl s"
  by (simp_all add: ctl_def)

lemma ctl_DC_CheckWatchdog [simp]: "ctl (DC_CheckWatchdog s) = ctl s"
  by (simp add: DC_CheckWatchdog_def Let_def)

lemma ctl_rmcs_store: "pAPPL_EEPROM_Store (rmcs_user B) = Some (\<lambda>s. s\<lparr>ee := b_ee_store B (ee s)\<rparr>)"
  by (simp add: rmcs_user_def rmcs_user0_def)

lemma ctl_CheckTimer [simp]: "ctl (ECAT_CheckTimer (rmcs_user B) DC_CheckWatchdog s) = ctl s"
  by (simp add: ECAT_CheckTimer_def Let_def ctl_rmcs_store)

lemma ctl_cycle_time [simp]: "ctl (HandleCycleTimeMeasurement s) = ctl s"
  by (simp add: HandleCycleTimeMeasurement_def Let_def case_prod_unfold)

lemma ctl_rmcs_output [simp]: "ctl (PDO_OutputMapping (rmcs_user B) s) = ctl s"
  by (simp add: PDO_OutputMapping_def rmcs_user_def rmcs_user0_def RMCS_OutputMapping_def Let_def case_prod_unfold)

lemma ctl_rmcs_application [simp]: "ctl (ECAT_Application (rmcs_user B) s) = ctl s"
  by (simp add: ECAT_Application_def rmcs_user_def rmcs_user0_def)

lemma ctl_ack_output [simp]: "ctl (ack_output_event s) = ctl s"
  by (simp add: ack_output_event_def Let_def case_prod_unfold)

lemma ctl_supervise [simp]: "ctl (Sync0_supervise s) = ctl s"
  by (simp add: Sync0_supervise_def Let_def case_prod_unfold)

lemma ctl_sync_error [simp]: "ctl (COE_UpdateSyncErrorStatus s) = ctl s"
  by (simp add: COE_UpdateSyncErrorStatus_def)

lemma ctl_Sync_Isrs [simp]: "ctl (Sync0_Isr (rmcs_user B) s) = ctl s" "ctl (Sync1_Isr (rmcs_user B) s) = ctl s"
  by (simp_all add: Sync0_Isr_def Sync1_Isr_def Let_def case_prod_unfold)

lemma ctl_output_event [simp]: "ctl (PDI_output_event (rmcs_user B) s) = ctl s"
  by (simp add: PDI_output_event_def Let_def)

lemma ctl_process_data [simp]: "ctl (snd (PDI_process_data (rmcs_user B) ev s)) = ctl s"
  by (simp add: PDI_process_data_def Let_def case_prod_unfold)

lemma ctl_PDI_Isr [simp]: "ctl (PDI_Isr (rmcs_user B) s) = ctl s"
  by (simp add: PDI_Isr_def Let_def case_prod_unfold)

datatype stack_event =
    AlControl "8 word" "16 word"
  | AlControlRes
  | EcatError
  | StateChange "8 word" "16 word"
  | Timer
  | PdiIsr
  | Chip "nat \<Rightarrow> 8 word"

fun stack_step :: "('f, 'e, 'p) board \<Rightarrow> ('f, 'e, 'p, 'z) rmcs_scheme sdo_server \<Rightarrow> stack_event
    \<Rightarrow> ('f, 'e, 'p, 'z) rmcs_scheme \<Rightarrow> ('f, 'e, 'p, 'z) rmcs_scheme" where
  "stack_step B sdo (AlControl alControl code) s = AL_ControlInd (coe_of sdo) (rmcs_appl B) alControl code s"
| "stack_step B sdo AlControlRes s = AL_ControlRes (coe_of sdo) (rmcs_appl B) s"
| "stack_step B sdo EcatError s = CheckIfEcatError (coe_of sdo) (rmcs_appl B) s"
| "stack_step B sdo (StateChange al code) s = ECAT_StateChange (coe_of sdo) (rmcs_appl B) al code s"
| "stack_step B sdo Timer s = ECAT_CheckTimer (rmcs_user B) DC_CheckWatchdog s"
| "stack_step B sdo PdiIsr s = PDI_Isr (rmcs_user B) s"
| "stack_step B sdo (Chip m) s = s\<lparr>esc := m\<rparr>"

definition stack_run :: "('f, 'e, 'p) board \<Rightarrow> ('f, 'e, 'p, 'z) rmcs_scheme sdo_server \<Rightarrow> stack_event list
    \<Rightarrow> ('f, 'e, 'p, 'z) rmcs_scheme \<Rightarrow> ('f, 'e, 'p, 'z) rmcs_scheme" where
  "stack_run B sdo evs s = fold (stack_step B sdo) evs (ECAT_Init (rmcs_appl B) s)"

lemma stack_step_inv:
  assumes "esm_inv s"
  shows "esm_inv (stack_step B sdo e s) \<and> esm_edge (c_st (ctl s)) (c_st (ctl (stack_step B sdo e s)))"
proof (cases e)
  case (AlControl a c)
  then show ?thesis using rmcs_al.AL_ControlInd_inv[OF assms] rmcs_al.AL_ControlInd_edge[OF assms] by simp
next
  case AlControlRes
  then show ?thesis using rmcs_al.AL_ControlRes_inv[OF assms] by simp
next
  case EcatError
  then show ?thesis using rmcs_al.CheckIfEcatError_inv[OF assms] by simp
next
  case (StateChange a c)
  then show ?thesis using rmcs_al.ECAT_StateChange_inv[OF assms] by simp
qed (use assms in \<open>simp_all add: esm_inv_def esm_edge_def\<close>)

lemma stack_run_inv: "esm_inv (stack_run B sdo evs s)"
proof -
  have "esm_inv (fold (stack_step B sdo) evs t)" if "esm_inv t" for t
    using that by (induction evs arbitrary: t) (simp_all add: stack_step_inv)
  then show ?thesis by (simp add: stack_run_def rmcs_al.ECAT_Init_inv)
qed

end
