(* ===== verification/Samples.thy ===== *)
theory Samples
  imports StackRun RmcsObjects
begin

text \<open>
  Concrete inputs on which the properties are instantiated: a NOR flash that never fails, a board
  without process data, and a slave in BOOT with two mailboxes of 128 bytes, two datagrams in
  the heap.
\<close>

unbundle bit_operations_syntax

definition sample_flash :: "(nat \<Rightarrow> 8 word) flash_ops" where
  "sample_flash = \<lparr>
    fl_erase = (\<lambda>a f. (True, \<lambda>x. if unat a \<le> x \<and> x < unat a + 4096 then 0xFF else f x)),
    fl_program = (\<lambda>a bs f. (True, \<lambda>x. if unat a \<le> x \<and> x < unat a + length bs then f x AND bs ! (x - unat a) else f x)),
    fl_max_program_size = 512, fl_cells = (\<lambda>f. f)\<rparr>"

lemma sample_flash_ok: "nor_ok sample_flash"
  by (auto simp: nor_ok_def sample_flash_def)

definition sample_board :: "(nat \<Rightarrow> 8 word, unit, unit) board" where
  "sample_board = \<lparr>b_flash = sample_flash, b_ee_read = (\<lambda>a e m. (0, e, m)), b_ee_write = (\<lambda>a e m. (0, e, m)),
    b_ee_reload = (\<lambda>e m. (0, e, m)), b_ee_store = (\<lambda>e. e), b_pd_reset = (\<lambda>p. p),
    b_pd_inputs = (\<lambda>pd p. (replicate 0x30 0, p)), b_pd_outputs = (\<lambda>bs p. p), b_pd_pending = (\<lambda>p. False)\<rparr>"

text \<open>Block 1: a write request for the file \<open>app\<close>; block 2: a data block of 128 bytes, of which the
  last four are file data in \<open>sample_data\<close>.\<close>

definition sample_wrq :: "8 word list" where
  "sample_wrq = [9, 0, 0, 0, 0, 0x14, 2, 0, 0, 0, 0, 0, 0x61, 0x70, 0x70] @ replicate 113 0"

definition sample_data :: "8 word list" where
  "sample_data = [10, 0, 0, 0, 0, 0x24, 3, 0, 1, 0, 0, 0, 0xDE, 0xAD, 0xBE, 0xEF] @ replicate 112 0"

definition sample_memory :: memory where
  "sample_memory = \<lparr>heap = [1 \<mapsto> sample_wrq, 2 \<mapsto> sample_data], heap_next = 3, heap_avail = 4096, mem_fault = False\<rparr>"

text \<open>The chip: plain memory, in which a write of the whole send mailbox marks it full.\<close>

fun sample_chip :: "esc_access \<Rightarrow> esc_mem \<Rightarrow> esc_mem" where
  "sample_chip (EscRd a n) m = m"
| "sample_chip (EscWr a bs) m =
    (if a = 0x1080 \<and> length bs = 0x80
     then (esc_store a bs m)(0x80C := 0, 0x80D := 8, 0x80E := 1, 0x80F := 0) else esc_store a bs m)"

definition sample_queue :: mbxqueue where
  "sample_queue = \<lparr>firstInQueue = 0, lastInQueue = 0, maxQueueSize = 10, queue = replicate 11 NULL\<rparr>"

definition sample_par :: syncmanpar where
  "sample_par = \<lparr>u16SyncType = 0, u32CycleTime = 0, u16SyncTypesSupported = 0, u32MinCycleTime = 0, u32CalcAndCopyTime = 0, u16GetCycleTime = 0, u32DelayTime = 0, u32Sync0CycleTime = 0, u16SmEventMissedCounter = 0, u16CycleExceededCounter = 0, u8SyncError = 0\<rparr>"

definition sample :: "(nat \<Rightarrow> 8 word, unit, unit) rmcs" where
  "sample = \<lparr>
    esc = (\<lambda>i. 0), esc_react = sample_chip, mem = sample_memory, spin_fuel = 1, hung = False,
    nAlStatus = STATE_BOOT, bBootMode = True, SyncManInfo = \<lparr>AddressLength = 0, Settings = 0\<rparr>,
    bReceiveMbxIsLocked = False, bSendMbxIsFull = False, bMbxRunning = True, bMbxRepeatToggle = False,
    u16SendMbxSize = 0x80, u16ReceiveMbxSize = 0x80, u16EscAddrReceiveMbx = 0x1000, u16EscAddrSendMbx = 0x1080,
    u8MbxWriteCounter = 0, u8MbxReadCounter = 0, u8MailboxSendReqStored = 0, psWriteMbx = NULL,
    psReadMbx = NULL, psRepeatMbx = NULL, psStoreMbx = NULL, sMbxSendQueue = sample_queue,
    sMbxReceiveQueue = sample_queue, bNoMbxMemoryAvailable = False, u16FoeMaxSendBlockSize = 0x74,
    u32PacketNo = 0, u32FileOffset = 0, u32LastFileOffset = 0, u16FileAccessState = 0, pFoeSendStored = NULL,
    EcatWdValue = 0, Sync0WdCounter = 0, Sync0WdValue = 0, Sync1WdCounter = 0, Sync1WdValue = 0,
    bDcSyncActive = False, bDcRunning = False, bSmSyncSequenceValid = False, bWdTrigger = False,
    b3BufferMode = False, bEscIntEnabled = False, bSyncSetByUser = False, i16WaitForPllRunningTimeout = 0,
    i16WaitForPllRunningCnt = 0, LatchInputSync0Value = 0, LatchInputSync0Counter = 0, u16SmSync0Value = 0,
    u16SmSync0Counter = 0, sSyncManOutPar = sample_par, sSyncManInPar = sample_par, syncFailedCounter = 0,
    u16SyncErrorCounterLimit = 4, div_by_zero = False, bEcatWaitForAlControlRes = False,
    bApplEsmPending = False, bEcatFirstOutputsReceived = False, bEcatOutputUpdateRunning = False,
    bEcatInputUpdateRunning = False, bExplicitDevIdRequested = False, EepromLoaded = False,
    nEcatStateTrans = 0, EsmTimeoutCounter = 0, u8LocalErrorState = 0, u16LocalErrorCode = 0,
    u16ALEventMask = 0, u16IdValue = 0, nPdInputSize = 0, nPdOutputSize = 0, nEscAddrInputData = 0,
    nEscAddrOutputData = 0, nMaxSyncMan = 8, nMaxEscAddress = 0x2FFF, u8EcatErrorLed = 0, u8EcatRunLed = 0,
    SMActivate = 0, pCoeSendStored = NULL, nSdoInfoFragmentsLeft = 0, aSdoInfoHeader = [],
    pSdoResStored = NULL, bSdoInWork = False, u8PendingSdo = 0, bStoreCompleteAccess = False,
    u16StoreIndex = 0, u8StoreSubindex = 0, u32StoreDataSize = 0, pStoreData = (NULL, 0), pSdoPendFunc = None,
    pSdoSegData = NULL, nSdoSegBytesToHandle = 0, nSdoSegService = 0, u32CycleTimeStartValue = 0,
    u32MinCycleTimeStartValue = 0, u32SystemTimeReadFailure = 0, bMinCycleTimeMeasurementStarted = False,
    u32MinCycleTimeValue = 0, u16EepromStoreTimeoutCounter = 0, u16EepromStoreTimeoutValue = 0,
    aPdOutputData = replicate 0x30 0, aPdInputData = replicate 0x30 0, bInitFinished = True,
    EepromReadSize = 8, u64Timestamp = 0, b32BitDc = False, u32LastDc32Value = 0, u32CheckForDcOverrunCnt = 0,
    pEEPROM = None, dic = rmcs_dictionary0, obj_vars = rmcs_obj_vars, nSdoInfoIndex = 0, pSdoInfoObjEntry = NULL,
    bSdoSegFollows = False, bSdoSegAccess = False, bSdoSegLastToggle = 0, nSdoSegIndex = 0, nSdoSegSubindex = 0,
    nSdoSegCompleteSize = 0, pSdoSegObjEntry = NULL, nor = (\<lambda>i. 0), ee = (), pdst = (), main_loop_hook = False,
    g_writer = \<lparr>next_offset = 0, erased_through = 0, is_open = False\<rparr>, g_reset_requested = False,
    g_download_complete = False, g_commit_pending = False, g_read_size = 0\<rparr>"

lemma sample_board_flash [simp]: "b_flash sample_board = sample_flash"
  by (simp add: sample_board_def)

section \<open>A download on the sample board\<close>

definition sample_open :: "(nat \<Rightarrow> 8 word, unit, unit) rmcs" where
  "sample_open = snd (rmcs_foe_write sample_board (1, 12) 3 0 sample)"

lemma sample_write: "rmcs_foe_write sample_board (1, 12) 3 0 sample = (0, sample_open)"
  by (simp add: sample_open_def rmcs_foe_write_def name_matches_def password_ok_def SW_begin_def
      sample_flash_def sample_def sample_memory_def sample_wrq_def m_block_def get_bytes_def Let_def)

lemma sample_open_mem: "mem sample_open = sample_memory"
  using write_request_inv[OF _ sample_write] sample_flash_ok by (simp) (simp add: sample_def)

lemma sample_live: "b \<in> set [((2, 12), 4)] \<Longrightarrow> block_live sample_open b"
  by (simp add: block_live_def sample_open_mem live_def sample_memory_def sample_data_def)

lemma sample_block_data: "block_data sample_open ((2, 12), 4) = [0xDE, 0xAD, 0xBE, 0xEF]"
  by (simp add: block_data_def sample_open_mem m_block_def sample_memory_def sample_data_def get_bytes_def)

definition sample_bytes :: "8 word list" where "sample_bytes = [0xDE, 0xAD, 0xBE, 0xEF]"

lemma sample_writer: "g_writer sample_open = \<lparr>next_offset = 0, erased_through = 0, is_open = True\<rparr>"
  by (simp add: sample_open_def rmcs_foe_write_def name_matches_def password_ok_def SW_begin_def
      sample_flash_def sample_def sample_memory_def sample_wrq_def m_block_def get_bytes_def Let_def)

lemma sample_erase:
  "\<exists>g. SW_erase_loop sample_flash (Suc (Suc n)) 4 \<lparr>next_offset = 0, erased_through = 0, is_open = True\<rparr> f
    = Some (True, \<lparr>next_offset = 0, erased_through = 4096, is_open = True\<rparr>, g)"
  by (simp add: SW_erase_step_def sample_flash_def)

lemma sample_program: "fst (SW_program sample_flash a sample_bytes f)"
  by (simp add: SW_program.simps[of _ _ sample_bytes] SW_program.simps[of _ _ "[]"] sample_flash_def)
    (simp add: sample_bytes_def SW_program.simps[of _ _ "[]"])

lemma sample_sw_write:
  "\<exists>w g. SW_write sample_flash 0 sample_bytes \<lparr>next_offset = 0, erased_through = 4096, is_open = True\<rparr> f = (True, w, g)"
  using sample_program[of "kStagingImageStart" f]
  by (cases "SW_program sample_flash kStagingImageStart sample_bytes f") (simp add: SW_write_def sample_bytes_def)

lemma sample_write_block:
  "\<exists>w g. write_block sample_flash sample_bytes \<lparr>next_offset = 0, erased_through = 0, is_open = True\<rparr> f = Some (0, w, g)"
proof -
  have n: "of_nat (length sample_bytes) = (4 :: 32 word)" by (simp add: sample_bytes_def)
  obtain g where g: "SW_erase_loop sample_flash 3 4 \<lparr>next_offset = 0, erased_through = 0, is_open = True\<rparr> f
    = Some (True, \<lparr>next_offset = 0, erased_through = 4096, is_open = True\<rparr>, g)"
    using sample_erase[of 1 f] by (auto simp: numeral_eq_Suc)
  obtain w h where "SW_write sample_flash 0 sample_bytes \<lparr>next_offset = 0, erased_through = 4096, is_open = True\<rparr> g = (True, w, h)"
    using sample_sw_write[of g] by blast
  then show ?thesis using g n by (simp add: write_block_def Let_def)
qed

definition sample_taken :: "(nat \<Rightarrow> 8 word, unit, unit) rmcs" where
  "sample_taken = snd (foe_blocks sample_board [((2, 12), 4)] sample_open)"

lemma sample_blocks: "foe_blocks sample_board [((2, 12), 4)] sample_open = (0, sample_taken)"
proof -
  obtain w g where w: "write_block sample_flash sample_bytes (g_writer sample_open) (nor sample_open) = Some (0, w, g)"
    using sample_write_block sample_writer by metis
  have "get_bytes (m_block 2 (mem sample_open)) 12 4 = sample_bytes"
    using sample_block_data by (simp add: block_data_def sample_bytes_def)
  moreover have "mem_touch 2 16 sample_open = sample_open"
    using sample_live by (simp add: block_live_def)
  ultimately have "rmcs_foe_write_data sample_board (2, 12) 4 False sample_open
      = (0, sample_open\<lparr>g_writer := w, nor := g, g_commit_pending := True\<rparr>)"
    using w by (simp add: rmcs_foe_write_data_def sample_writer Let_def)
  then show ?thesis by (simp add: sample_taken_def)
qed

section \<open>A ready image\<close>

definition sample_nor :: "nat \<Rightarrow> 8 word" where
  "sample_nor x = (if 0x80210000 \<le> x \<and> x < 0x80210010
     then [0x52, 0x4D, 0x53, 0x54, 0x52, 0x44, 0x54, 0x53, 4, 0, 0, 0, 0xFF, 0xFF, 0xFF, 0xFF] ! (x - 0x80210000)
     else if 0x80211000 \<le> x \<and> x < 0x80211004 then sample_bytes ! (x - 0x80211000) else 0xFF)"

lemma sample_image_ready: "image_ready sample_flash sample_bytes sample_nor"
proof -
  have w: "fl_word sample_flash kStagingMetadataStart 0 sample_nor = kStagingMagic"
    "fl_word sample_flash kStagingMetadataStart 4 sample_nor = kStagingStateReady"
    "fl_word sample_flash kStagingMetadataStart 8 sample_nor = 4"
    "fl_word sample_flash kStagingMetadataStart 12 sample_nor = kFlashWordErased"
    by (rule fl_word_eqI, drule less4, auto simp: sample_flash_def sample_nor_def le32_bytes_def)+
  have st: "staged sample_flash sample_bytes sample_nor"
    by (simp add: staged_iff sample_flash_def sample_nor_def sample_bytes_def)
  show ?thesis using w st
    by (simp add: image_ready_def staging_record_is_ready_def staging_record_of_def Let_def sample_bytes_def)
qed

section \<open>Mailbox buffers\<close>

lemma upt4: "[0..<4] = [0, 1, 2, 3 :: nat]" by (simp add: upt_rec)

lemma esc32_bytes: "esc32 a m = le32 (m a) (m (a + 1)) (m (a + 2)) (m (a + 3))"
  by (simp add: esc32_def esc_load_def upt4 get32_def byte_at_def)

lemma sample_marks: "length bs = 128 \<Longrightarrow> esc32 0x80C (sample_chip (EscWr 0x1080 bs) m) = 0x10800"
  by (simp add: esc32_bytes le32_def)

lemma sample_chip_ok: "mbx_chip_ok sample"
proof -
  have "chip_marks_full sample"
    unfolding chip_marks_full_def
  proof (intro allI impI)
    fix bs :: "8 word list" and m
    assume "length bs = unat (u16SendMbxSize sample)"
    then have "length bs = 128" by (simp add: sample_def)
    from sample_marks[OF this, of m]
    show "esc32 (ESC_SYNCMAN_CONTROL_OFFSET + SIZEOF_SM_REGISTER)
       (esc_react sample (EscWr (unat (u16EscAddrSendMbx sample)) bs) m) AND SM_STATUS_MBX_BUFFER_FULL \<noteq> 0"
      by (simp add: sample_def)
  qed
  then show ?thesis by (simp add: mbx_chip_ok_def) (simp add: sample_def)
qed

lemma sample_own: "foe_own sample [1, 2]"
  by (simp add: foe_own_def foe_stored_def mbx_own_def mbx_sent_def sample_def sample_memory_def sample_queue_def
     heap_ok_def mq_inv_def mq_list_def ring_slots_def MAX_MBX_QUEUE_SIZE_def live_def)

lemma sample_queue_inv: "mq_inv sample_queue"
  by (simp add: sample_queue_def mq_inv_def mq_list_def ring_slots_def MAX_MBX_QUEUE_SIZE_def)

lemma sample_own1: "mbx_own sample [1, 2]"
  using sample_own by (simp add: foe_own_def foe_stored_def) (simp add: sample_def)

lemma sample_room: "foe_room 1 sample"
  by (simp add: foe_room_def live_def sample_def sample_memory_def sample_wrq_def)

lemma sample_sizes: "u16ReceiveMbxSize sample = 0x80" "u16SendMbxSize sample = 0x80"
  by (simp_all add: sample_def)

lemma sample_length: "mbx_Length 1 sample = 9"
  by (simp add: mbx_Length_def mem_rd16_def m_block_def sample_def sample_memory_def sample_wrq_def get16_def byte_at_def le16_def)

lemma sample_fits: "foe_fits 1 sample"
  by (simp add: foe_fits_def sample_length sample_sizes del: One_nat_def)

lemma sample_sendable: "mbx_sendable sample 1"
  by (simp add: mbx_sendable_def sample_length sample_sizes del: One_nat_def)
    (simp add: live_def sample_def sample_memory_def sample_wrq_def)

lemma sample_answers: "sm_answers (esc_react sample) 0"
proof -
  have r: "esc_react sample = sample_chip" by (simp add: sample_def)
  show ?thesis unfolding r by (simp add: sm_answers_def Let_def)
qed

lemma sample_mbx_open: "mbx_open sample"
  by (simp add: mbx_open_def sample_def)

lemma sample_not_hung: "spin_fuel sample = 1" "\<not> hung sample"
  by (simp_all add: sample_def)

end
