(* ===== verification/SdoProps.thy ===== *)
theory SdoProps
  imports ObjFaults ObjWrites ObjLists Samples
begin

text \<open>
  The properties of the object dictionary and of the access to its objects, on the objects of this
  slave.
\<close>

unbundle bit_operations_syntax

section \<open>The object dictionary\<close>

text \<open>C17.  The start-up links all objects of the two static arrays into the dictionary, with their
  contents unchanged: exactly the declared indices are found, at an object of that index.\<close>

theorem dictionary_built:
  "\<exists>d. COE_ObjDictionaryInit rmcs_dictionary0 = Some (0, d) \<and> dic_content d = dic_content rmcs_dictionary0
    \<and> (\<forall>ix. \<exists>p. OBJ_GetObjectHandle ix d = Some p
          \<and> (if ix \<in> set (gen_indices @ app_indices) then p \<noteq> NULL \<and> dic_key d p = ix else p = NULL))"
proof -
  obtain d where d: "COE_ObjDictionaryInit rmcs_dictionary0 = Some (0, d)" "dic_invar d"
    "dic_content d = dic_content rmcs_dictionary0" "\<forall>ix p. dic_entries d ix = Some p \<longleftrightarrow> rmcs_objects_at ix p"
    using rmcs_dictionary_init by blast
  have "\<exists>p. OBJ_GetObjectHandle ix d = Some p
      \<and> (if ix \<in> set (gen_indices @ app_indices) then p \<noteq> NULL \<and> dic_key d p = ix else p = NULL)" for ix
  proof (cases "dic_entries d ix")
    case None
    then have "ix \<notin> set (gen_indices @ app_indices)" using d(4) rmcs_objects_at_ex[of ix] by (metis option.distinct(1))
    then show ?thesis using None dic.lookup_entry[OF d(2), of ix] by simp
  next
    case (Some p)
    then have "ix \<in> set (gen_indices @ app_indices)" using d(4) rmcs_objects_at_ex[of ix] by blast
    then show ?thesis using Some dic.lookup_entry[OF d(2), of ix] dic.entry_index[OF d(2) Some] by simp
  qed
  then show ?thesis using d(1,3) by blast
qed

text \<open>C18.  Adding an object and removing an index behave as updates of a map from indices to
  objects.\<close>

theorem dictionary_updates:
  assumes "dic_invar d" and "p \<noteq> NULL" and "COE_AddObjectToDic p d = Some (0, d')"
  shows "\<exists>e. COE_RemoveDicEntry ix d' = Some e \<and> dic_content e = dic_content d
    \<and> (\<forall>i. OBJ_GetObjectHandle i e
         = (if i = ix then Some NULL else if i = dic_key d p then Some p else OBJ_GetObjectHandle i d))"
proof -
  have "dic_entries d (dic_key d p) = None"
    using dic.add_known[OF assms(1,2)] assms(3) by (cases "dic_entries d (dic_key d p)") auto
  then have d': "dic_invar d'" "dic_content d' = dic_content d" using dic.add_new[OF assms(1,2)] assms(3) by auto
  from dic.remove_entry[OF d'(1), of ix] obtain e where "COE_RemoveDicEntry ix d' = Some e" "dic_content e = dic_content d'"
    by blast
  then show ?thesis
    using dic.lookup_removed[OF d'(1), of ix e] dic.lookup_added[OF assms] d'(2) by auto
qed

lemma dictionary_updates_witness:
  "\<exists>d e. COE_AddObjectToDic 1 rmcs_dictionary0 = Some (0, d) \<and> COE_RemoveDicEntry 0x1001 d = Some e
    \<and> OBJ_GetObjectHandle 0x1000 e = Some 1 \<and> OBJ_GetObjectHandle 0x1001 e = Some NULL"
proof -
  have i: "dic_invar rmcs_dictionary0"
    unfolding dic_invar_def by (intro exI[of _ "[]"]) (simp add: dic_is_def by_index_def rmcs_dictionary0_def)
  have k: "dic_key rmcs_dictionary0 1 = 0x1000" using rmcs_key_gen[of 0] by (simp add: gen_indices_def)
  obtain d where d: "COE_AddObjectToDic 1 rmcs_dictionary0 = Some (0, d)"
    by (simp add: COE_AddObjectToDic_def rmcs_dictionary0_def)
  show ?thesis using dictionary_updates[OF i _ d, of "0x1001"] d k by auto
qed

text \<open>Clearing the dictionary ends, and leaves it empty.\<close>

lemma dictionary_cleared:
  assumes "dic_invar d"
  shows "\<exists>e. COE_ClearObjDictionary d = Some e \<and> (\<forall>ix. OBJ_GetObjectHandle ix e = Some NULL)"
proof -
  obtain e where e: "COE_ClearObjDictionary d = Some e" "dic_is e []" using clear_empties[OF assms] by blast
  then have "dic_invar e" "dic_entries e ix = None" for ix
    using entries_Some_iff[OF e(2), of ix] by (auto simp: dic_invar_def)
  then show ?thesis using e(1) dic.lookup_entry[of e] by simp
qed





section \<open>Access to objects\<close>

text \<open>C21.  A write to an entry for which the AL state grants no write access is refused, and changes no
  variable: at most the mark of an invalid access is set.\<close>

theorem no_write_without_rights:
  assumes "\<not> write_rights (OBJ_GetEntryDesc ob (unat subindex)) s"
    and "OBJ_Write u index subindex n ob b False s = (r, t)"
  shows "r \<noteq> 0 \<and> (\<exists>f. t = note_fault f s)"
  using write_refused_without_rights[OF assms(1), of u index n b] assms(2) by auto

lemma no_write_without_rights_witness:
  "fst (OBJ_Write \<lparr>app_fn = \<lambda>_ _ _ _ _ _ s. (0, s), pAPPL_CoeReadInd = None, pAPPL_CoeWriteInd = None\<rparr>
     0x1018 1 4 (GenObjDic_objects ! 5) (2, 12) False sample) \<noteq> 0"
proof -
  let ?ob = "GenObjDic_objects ! 5"
  have "ObjAccess (OBJ_GetEntryDesc ?ob 1) = ACCESS_READ"
    by (simp add: GenObjDic_objects_def OBJ_GetEntryDesc_def entry_ix_def entry_at_def object_def objCode_def
        asEntryDesc0x1018_def replicates desc_def)
  then have "\<not> write_rights (OBJ_GetEntryDesc ?ob (unat (1 :: 8 word))) sample" by (simp add: write_rights_def)
  from no_write_without_rights[OF this surjective_pairing] show ?thesis by blast
qed

text \<open>C22.  Every single read of an object of this slave that the AL state or the number of entries
  forbids is refused with the abort code that names the reason, and changes nothing.\<close>

theorem refused_read_says_why:
  assumes "table_object ob" and "vars_ok s" and "pAPPL_CoeReadInd u = None"
    and "\<not> (unat subindex \<le> max_sub ob \<and> read_rights (OBJ_GetEntryDesc ob (unat subindex)) s)"
  shows "OBJ_Read u (Index ob) subindex n ob b False s =
    (if max_sub ob < unat subindex then ABORTIDX_SUBINDEX_NOT_EXISTING
     else if ObjAccess (OBJ_GetEntryDesc ob (unat subindex)) = 0 then ABORTIDX_UNSUPPORTED_ACCESS
     else if ObjAccess (OBJ_GetEntryDesc ob (unat subindex)) AND ACCESS_READ = 0 then ABORTIDX_WRITE_ONLY_ENTRY
     else ABORTIDX_IN_THIS_STATE, s)"
  using typed_object_refuses[OF table_object_bounds(3)[OF assms(1)] table_object_bounds(2)[OF assms(1)] assms(2,3,4)]
  by (simp add: refusal_def read_refused_def)

abbreviation sample_user :: "((nat \<Rightarrow> 8 word, unit, unit) rmcs) coe_user" where
  "sample_user \<equiv> \<lparr>app_fn = \<lambda>_ _ _ _ _ _ s. (0, s), pAPPL_CoeReadInd = None, pAPPL_CoeWriteInd = None\<rparr>"

lemma sample_vars_ok: "vars_ok (sample\<lparr>nAlStatus := st\<rparr>)"
  by (simp add: vars_ok_def sample_def)

lemma sample_object: "table_object (GenObjDic_objects ! 5)" "Index (GenObjDic_objects ! 5) = 0x1018"
  "max_sub (GenObjDic_objects ! 5) = 4"
  by (simp_all add: GenObjDic_objects_def table_object_def object_def max_sub_def objCode_def)

lemma refused_read_says_why_witness:
  "OBJ_Read sample_user 0x1018 5 4 (GenObjDic_objects ! 5) (2, 12) False sample = (ABORTIDX_SUBINDEX_NOT_EXISTING, sample)"
  using refused_read_says_why[OF sample_object(1), of sample sample_user 5 4 "(2, 12)"] sample_vars_ok[of STATE_BOOT] sample_object(2,3)
  by (simp add: sample_def)

text \<open>C23.  Typing: all other single reads of objects of this slave succeed; no readable entry has a type or
  an alignment the server cannot handle.\<close>

theorem readable_entries_can_be_read:
  assumes "table_object ob" and "vars_ok s" and "pAPPL_CoeReadInd u = None"
    and "unat subindex \<le> max_sub ob" and "read_rights (OBJ_GetEntryDesc ob (unat subindex)) s"
  shows "fst (OBJ_Read u (Index ob) subindex (fst (OBJ_GetObjectLength subindex ob False s)) ob b False s) = 0"
  by (rule typed_object_reads[OF table_object_bounds(3)[OF assms(1)] table_object_bounds(2)[OF assms(1)] assms(2,3,4) refl assms(5)])

lemma sample_entry: "ObjAccess (OBJ_GetEntryDesc (GenObjDic_objects ! 5) 1) = ACCESS_READ"
  by (simp add: GenObjDic_objects_def OBJ_GetEntryDesc_def entry_ix_def entry_at_def object_def objCode_def
      asEntryDesc0x1018_def replicates desc_def)

abbreviation sample_preop :: "(nat \<Rightarrow> 8 word, unit, unit) rmcs" where
  "sample_preop \<equiv> sample\<lparr>nAlStatus := STATE_PREOP\<rparr>"

lemma readable_entries_can_be_read_witness:
  "fst (OBJ_Read sample_user 0x1018 1 (fst (OBJ_GetObjectLength 1 (GenObjDic_objects ! 5) False sample_preop))
     (GenObjDic_objects ! 5) (2, 12) False sample_preop) = 0"
  using readable_entries_can_be_read[OF sample_object(1) sample_vars_ok, of sample_user 1 STATE_PREOP "(2, 12)"]
    sample_object(2,3) sample_entry
  by (simp add: read_rights_def)

text \<open>C24.  Bounds: exactly which single reads of an object of this slave reach outside their memory.  A read
  with a buffer of the length \<open>OBJ_GetObjectLength\<close> announces, rounded up to 16-bit words, makes an invalid access
  when it is granted and asks for one of the two sync error entries, 0x1C32:32 and 0x1C33:32, whose variable
  ends one byte too early; every other single read stays inside its variable and its buffer.\<close>

theorem single_read_in_bounds:
  assumes "table_object ob" and "vars_ok s" and "pAPPL_CoeReadInd u = None"
    and "n = fst (OBJ_GetObjectLength subindex ob False s)" and "buf_live b (2 * ((unat n + 1) div 2)) s"
  shows "mem_fault (mem (snd (OBJ_Read u (Index ob) subindex n ob b False s)))
    = (mem_fault (mem s) \<or> (Index ob = 0x1C32 \<or> Index ob = 0x1C33) \<and> subindex = 32 \<and> read_rights (OBJ_GetEntryDesc ob 32) s)"
proof -
  have "unat subindex = 32 \<longleftrightarrow> subindex = 32" using word_unat_eq_iff[of subindex 32] by simp
  then show ?thesis
    using read_single_faults[OF assms] by (auto simp: faulted_def sync_error_entry_def)
qed

lemma single_read_in_bounds_witness:
  "\<not> mem_fault (mem (snd (OBJ_Read sample_user 0x1018 1 (fst (OBJ_GetObjectLength 1 (GenObjDic_objects ! 5) False sample_preop))
      (GenObjDic_objects ! 5) (2, 12) False sample_preop)))
   \<and> mem_fault (mem (snd (OBJ_Read sample_user 0x1C32 32 (fst (OBJ_GetObjectLength 32 (GenObjDic_objects ! 9) False sample_preop))
      (GenObjDic_objects ! 9) (2, 12) False sample_preop)))"
proof -
  have len: "unat (fst (OBJ_GetObjectLength 1 (GenObjDic_objects ! 5) False sample_preop)) = 4"
    "unat (fst (OBJ_GetObjectLength 32 (GenObjDic_objects ! 9) False sample_preop)) = 1"
    by (simp_all add: GenObjDic_objects_def OBJ_GetObjectLength_def Let_def object_def objCode_def flagsMaxSubindex_def
        entry_at_def asEntryDesc0x1018_def asEntryDesc0x1C3x_def replicates desc_def bits_to_bytes_def)
  have b: "buf_live (2, 12) (2 * ((unat (fst (OBJ_GetObjectLength 1 (GenObjDic_objects ! 5) False sample_preop)) + 1) div 2)) sample_preop"
    "buf_live (2, 12) (2 * ((unat (fst (OBJ_GetObjectLength 32 (GenObjDic_objects ! 9) False sample_preop)) + 1) div 2)) sample_preop"
    unfolding len by (simp_all add: live_def sample_def sample_memory_def sample_data_def)
  have o: "table_object (GenObjDic_objects ! 9)" "Index (GenObjDic_objects ! 9) = 0x1C32"
    by (simp_all add: GenObjDic_objects_def table_object_def object_def)
  have r: "read_rights (OBJ_GetEntryDesc (GenObjDic_objects ! 9) 32) sample_preop"
    by (simp add: GenObjDic_objects_def OBJ_GetEntryDesc_def entry_ix_def entry_at_def object_def objCode_def
        asEntryDesc0x1C3x_def desc_def read_rights_def)
  note B = single_read_in_bounds[OF _ sample_vars_ok _ refl]
  show ?thesis
    using B[OF sample_object(1) _ b(1), of sample_user] B[OF o(1) _ b(2), of sample_user] sample_object(2) o(2) r
    by (simp add: sample_def sample_memory_def)
qed

text \<open>C25.  Round trip: every single write the AL state allows, to any entry of this slave that can be written
  (0x10F1:2, 0x10F8, 0x7010:1 to 12 and subindices 1, 8 and 10 of 0x1C32 and 0x1C33), stores the bytes of the
  value in the variable, and the next read of the entry returns them, without an invalid access.  There are
  two exceptions, stated exactly.  A new synchronisation type (0x1C32:1, 0x1C33:1) the slave does not support is
  refused with its abort code and changes nothing.  The clock 0x10F8 takes the value, but is read
  synchronised with the system time of the chip (\<open>COE_SyncTimeStamp\<close>), so a read returns the time from there.\<close>

theorem value_written_is_read:
  assumes "table_object ob" and "vars_ok s" and "unat subindex \<le> max_sub ob"
    and "write_rights (OBJ_GetEntryDesc ob (unat subindex)) s" and "m \<noteq> 0"
    and "pAPPL_CoeReadInd u = None" and "pAPPL_CoeWriteInd u = None"
    and "w = BIT2BYTE (BitLength (OBJ_GetEntryDesc ob (unat subindex)))" and "buf_live b w s" and "buf_live b' w s"
  shows "if sync_type_refused ob (unat subindex) b s
    then OBJ_Write u (Index ob) subindex m ob b False s = (CheckSyncTypeValue (Index ob) (get16 (buf_bytes b 2 s) 0) s, s)
    else \<exists>t t'. OBJ_Write u (Index ob) subindex m ob b False s = (0, t)
      \<and> get_bytes (var_bytes (pVarPtr ob) t) (value_off ob (unat subindex)) w = buf_bytes b w s
      \<and> OBJ_Read u (Index ob) subindex (of_nat w) ob b' False t = (0, t')
      \<and> buf_bytes b' w t' = (if Index ob = 0x10F8 then le64_bytes (u64Timestamp (COE_SyncTimeStamp t)) else buf_bytes b w s)
      \<and> mem_fault (mem t') = mem_fault (mem s)"
  by (rule write_then_read[OF assms])

abbreviation sample_op :: "(nat \<Rightarrow> 8 word, unit, unit) rmcs" where
  "sample_op \<equiv> sample\<lparr>nAlStatus := STATE_OP\<rparr>"

lemma value_written_is_read_witness:
  "\<exists>t t'. OBJ_Write sample_user 0x7010 3 4 (ApplicationObjDic_objects ! 5) (2, 12) False sample_op = (0, t)
    \<and> OBJ_Read sample_user 0x7010 3 4 (ApplicationObjDic_objects ! 5) (1, 12) False t = (0, t')
    \<and> buf_bytes (1, 12) 4 t' = [0xDE, 0xAD, 0xBE, 0xEF]"
proof -
  let ?ob = "ApplicationObjDic_objects ! 5"
  have o: "?ob = object 0x7010 DEFTYPE_UNSIGNED32 12 OBJCODE_ARR asEntryDesc0x7010 (names [''OutputStream'']) (PlainVar 12)"
    by (simp add: ApplicationObjDic_objects_def)
  have e: "OBJ_GetEntryDesc ?ob (unat (3 :: 8 word)) = desc DEFTYPE_UNSIGNED32 0x20 (ACCESS_READWRITE OR OBJACCESS_RXPDOMAPPING)"
    by (simp add: o OBJ_GetEntryDesc_def entry_ix_def entry_at_def asEntryDesc0x7010_def)
  have w: "4 = BIT2BYTE (BitLength (OBJ_GetEntryDesc ?ob (unat (3 :: 8 word))))"
    unfolding e by (simp add: BIT2BYTE_def desc_def)
  have ix: "Index ?ob = 0x7010" "unat (3 :: 8 word) \<le> max_sub ?ob" by (simp_all add: o max_sub_def)
  have tab: "table_object ?ob" by (simp add: table_object_def ApplicationObjDic_objects_def object_def)
  have r: "write_rights (OBJ_GetEntryDesc ?ob (unat (3 :: 8 word))) sample_op"
    unfolding e by (simp add: write_rights_def desc_access)
  have b: "buf_live (2, 12) 4 sample_op" "buf_live (1, 12) 4 sample_op"
    by (simp_all add: live_def sample_def sample_memory_def sample_data_def sample_wrq_def)
  have d: "buf_bytes (2, 12) 4 sample_op = [0xDE, 0xAD, 0xBE, 0xEF]"
    by (simp add: buf_bytes_def buf_load_def m_block_def sample_def sample_memory_def sample_data_def byte_at_def upt4)
  have "\<not> sync_type_refused ?ob (unat (3 :: 8 word)) (2, 12) sample_op" by (simp add: sync_type_refused_def ix)
  with value_written_is_read[OF tab sample_vars_ok ix(2) r _ _ _ w b, of 4 sample_user] show ?thesis
    unfolding ix(1) d by fastforce
qed

end
