(* ===== verification/SdoTransfers.thy ===== *)
theory SdoTransfers
  imports SdoSegs SdoProps
begin

text \<open>
  The properties of segmented transfers and of the refusals of the SDO server.
\<close>

unbundle bit_operations_syntax

section \<open>Segmented transfers\<close>

text \<open>C26.  Round trip: the segments of an upload, put together, are the bytes that were still to be sent, as
  many segments as their number asks for; the last one frees the buffer of the transfer, which is the only
  memory the transfer gives up, and no access is invalid.  Between two segments the stack may do anything that
  leaves the transfer alone, and delivers a request with the toggle bit changed.\<close>

theorem upload_sends_the_object:
  assumes "uploading ds s" and "9 < unat (u16SendMbxSize s)"
    and "\<forall>e \<in> set evs. seg_env e \<and> fst e \<noteq> pSdoSegData s"
    and "length evs = Suc (length ds div (unat (u16SendMbxSize s) - 9))"
  shows "\<exists>u. upload_run evs s = (ds, u) \<and> nSdoSegService u = 0 \<and> pSdoSegData u = NULL
    \<and> heap (mem u) (pSdoSegData s) = None \<and> faulted u = faulted s"
  by (rule upload_run_complete[OF assms])

definition sample_transfer :: "(nat \<Rightarrow> 8 word, unit, unit) rmcs" where
  "sample_transfer = sample\<lparr>mem := sample_memory\<lparr>heap := [3 \<mapsto> replicate 60 7]\<rparr>, pSdoSegData := 3,
     nSdoSegCompleteSize := 60, nSdoSegBytesToHandle := 20, u16SendMbxSize := 20, u16ReceiveMbxSize := 29,
     bSdoSegLastToggle := 1\<rparr>"

definition sample_request :: "ptr \<times> ((nat \<Rightarrow> 8 word, unit, unit) rmcs \<Rightarrow> (nat \<Rightarrow> 8 word, unit, unit) rmcs)" where
  "sample_request = (1, \<lambda>s. with_block 1 (replicate 65536 (if bSdoSegLastToggle s = 0 then 0x10 else 0)) s)"

lemma sample_request_byte: "byte_at (replicate 65536 v) 8 = v" by (simp add: byte_at_def)

lemma with_block_views: "seg_view (with_block p b s) = seg_view s"
  "down_view (with_block p b s) = down_view s" "u16ReceiveMbxSize (with_block p b s) = u16ReceiveMbxSize s"
  by (simp_all add: seg_view_def down_view_def with_block_def faulted_def)

lemma live_16: "length b = 65536 \<Longrightarrow> live (mem (with_block p b s)) p (unat (w :: 16 word))"
  using unat_word16_less[of w] by (simp add: live_def)

lemma sample_request_envs: "seg_env sample_request" "down_env sample_request"
  by (auto simp: seg_env_def down_env_def sample_request_def live_16 sample_request_byte with_block_views simp del: One_nat_def)

lemma upload_sends_the_object_witness:
  "fst (upload_run (replicate 4 sample_request) (sample_transfer\<lparr>nSdoSegService := SDOSERVICE_UPLOADSEGMENTREQ\<rparr>)) = replicate 40 7"
proof -
  let ?s = "sample_transfer\<lparr>nSdoSegService := SDOSERVICE_UPLOADSEGMENTREQ\<rparr>"
  have "uploading (replicate 40 7) ?s" by (simp add: uploading_def sample_transfer_def get_bytes_def)
  from upload_sends_the_object[OF this, of "replicate 4 sample_request"] sample_request_envs show ?thesis
    by (force simp: sample_transfer_def sample_request_def)
qed

text \<open>C27.  A download before its last segment: either every segment was taken, and the buffer of the transfer
  holds the data of all segments in order, or the first one refused has freed the buffer.  In no case is
  memory outside the blocks touched.\<close>

theorem download_collects_the_segments:
  assumes "downloading d s" and "9 < unat (u16ReceiveMbxSize s)" and "\<forall>e \<in> set evs. down_env e \<and> fst e \<noteq> pSdoSegData s"
    and "download_run u evs s = (r, ds, t)"
  shows "faulted t = faulted s \<and>
    (if r = 0 then downloading (d @ ds) t \<and> pSdoSegData t = pSdoSegData s
     else pSdoSegData t = NULL \<and> heap (mem t) (pSdoSegData s) = None)"
  by (rule download_run_assembles[OF assms])

lemma download_collects_the_segments_witness:
  "\<not> faulted (snd (snd (download_run sample_user [sample_request] sample_transfer)))"
proof -
  have "downloading (replicate 20 7) sample_transfer" by (simp add: downloading_def sample_transfer_def get_bytes_def)
  from download_collects_the_segments[OF this, of "[sample_request]" sample_user] sample_request_envs show ?thesis
    by (cases "download_run sample_user [sample_request] sample_transfer")
      (force simp: sample_transfer_def sample_request_def faulted_def sample_def sample_memory_def)
qed

text \<open>C28.  The last segment of a download.  With an unchanged toggle bit or a length that does not fit, it is
  refused with its abort code, the buffer of the transfer is freed and no variable changes.  Otherwise
  \<open>OBJ_Write\<close> gets a buffer that holds the data of all segments up to this one, as many bytes as the transfer
  announced, and both its answer and its effect are those of the service: if the object asks for more time, the access
  is recorded as pending; if not, the transfer is ended, its buffer given back, and everything else, all the
  variables behind the objects with it, is as \<open>OBJ_Write\<close> has left it, but for the answer in the buffer of
  the service (\<open>download_ended\<close>).\<close>

theorem download_writes_the_object:
  assumes "downloading d s" and "heap (mem s) p = Some b" and "unat (u16ReceiveMbxSize s) \<le> length b"
    and "9 < unat (u16ReceiveMbxSize s)" and "p \<noteq> pSdoSegData s"
    and "mem_rd8 p 8 s AND SEGHEADER_NOMOREFOLLOWS \<noteq> 0"
    and "c = (if mem_rd8 p 8 s AND SEGHEADER_TOGGLE = bSdoSegLastToggle s then ABORTIDX_TOGGLE_BIT_NOT_CHANGED
      else fst (segment_bytes (mem_rd8 p 8 s) p s))"
    and "n = unat (nSdoSegCompleteSize s) - length d"
    and "SdoDownloadSegmentInd u p s = (r, t)"
  shows "if c \<noteq> 0 then r = c \<and> pSdoSegData t = NULL \<and> heap (mem t) (pSdoSegData s) = None \<and> faulted t = faulted s
        \<and> (\<forall>v. var_bytes v t = var_bytes v s)
    else n \<le> unat (u16ReceiveMbxSize s) - 9
      \<and> (\<exists>blk w x. w = with_block (pSdoSegData s) blk (s\<lparr>bSdoSegLastToggle := mem_rd8 p 8 s AND SEGHEADER_TOGGLE, bSdoSegFollows := False\<rparr>)
        \<and> get_bytes blk 0 (unat (nSdoSegCompleteSize s)) = d @ get_bytes b 9 n
        \<and> OBJ_Write u (nSdoSegIndex s) (nSdoSegSubindex s) (nSdoSegCompleteSize s) (the_obj (pSdoSegObjEntry s) s)
            (pSdoSegData s, 0) (bSdoSegAccess s) w = (r, x)
        \<and> download_ended p (the_obj (pSdoSegObjEntry s) s) r x t)"
  by (rule download_last[OF assms])

text \<open>The instance: the clock 0x10F8 is written in two segments of four bytes.\<close>

definition sample_segment :: "8 word list" where
  "sample_segment = [10, 0, 0, 0, 0, 0, 0, 0, 0x17, 1, 2, 3, 4] @ replicate 16 0"

definition sample_last :: "(nat \<Rightarrow> 8 word, unit, unit) rmcs" where
  "sample_last = with_block 1 sample_segment (sample_transfer\<lparr>bSdoSegLastToggle := 0, nSdoSegCompleteSize := 8,
     nSdoSegBytesToHandle := 4, nSdoSegIndex := 0x10F8, pSdoSegObjEntry := 8, nAlStatus := STATE_OP\<rparr>)"

lemma sample_last_fields:
  "downloading [7, 7, 7, 7] sample_last" "heap (mem sample_last) 1 = Some sample_segment" "u16ReceiveMbxSize sample_last = 29"
  "pSdoSegData sample_last = 3" "mem_rd8 1 8 sample_last = 0x17" "bSdoSegLastToggle sample_last = 0" "nSdoSegIndex sample_last = 0x10F8"
  "nSdoSegSubindex sample_last = 0" "nSdoSegCompleteSize sample_last = 8" "bSdoSegAccess sample_last = False"
  "the_obj (pSdoSegObjEntry sample_last) sample_last = GenObjDic_objects ! 7"
  "fst (segment_bytes 0x17 1 sample_last) = 0"
proof -
  note D = sample_last_def sample_transfer_def with_block_def
  show "downloading [7, 7, 7, 7] sample_last" by (simp add: downloading_def D get_bytes_def)
  have m: "mem_rd16 1 0 sample_last = 10"
    unfolding sample_last_def with_block_read by (simp add: sample_segment_def get16_def byte_at_def le16_def)
  have n: "nSdoSegCompleteSize sample_last - nSdoSegBytesToHandle sample_last = 4" by (simp add: D)
  show "fst (segment_bytes 0x17 1 sample_last) = 0"
    unfolding segment_bytes_def Let_def n m by (simp add: last_segment_ok_def) (simp add: D)
  show "mem_rd8 1 8 sample_last = 0x17"
    unfolding sample_last_def with_block_read by (simp add: sample_segment_def byte_at_def)
  show "the_obj (pSdoSegObjEntry sample_last) sample_last = GenObjDic_objects ! 7"
    by (simp add: D the_obj_def sample_def rmcs_dictionary0_def rmcs_obj_mem_def gen_length)
qed (simp_all add: sample_last_def sample_transfer_def with_block_def sample_def)

lemma download_writes_the_object_witness:
  "fst (SdoDownloadSegmentInd sample_user 1 sample_last) = 0
   \<and> var_bytes TimeStampVar (snd (SdoDownloadSegmentInd sample_user 1 sample_last)) = [7, 7, 7, 7, 1, 2, 3, 4]
   \<and> pSdoSegData (snd (SdoDownloadSegmentInd sample_user 1 sample_last)) = NULL"
proof -
  note F = sample_last_fields
  let ?ob = "GenObjDic_objects ! 7"
  obtain r t where rt: "SdoDownloadSegmentInd sample_user 1 sample_last = (r, t)" by fastforce
  have l: "length sample_segment = 29" "get_bytes sample_segment 9 4 = [1, 2, 3, 4]"
    by (simp_all add: sample_segment_def get_bytes_def)
  from download_writes_the_object[OF F(1,2) _ _ _ _ refl refl rt] F l
  obtain blk w x where w: "w = with_block 3 blk (sample_last\<lparr>bSdoSegLastToggle := 0x10, bSdoSegFollows := False\<rparr>)"
    "get_bytes blk 0 8 = [7, 7, 7, 7, 1, 2, 3, 4]"
    "OBJ_Write sample_user 0x10F8 0 8 ?ob (3, 0) False w = (r, x)" "download_ended 1 ?ob r x t"
    by auto
  have lb: "8 \<le> length blk" using arg_cong[OF w(2), of length] by (simp add: get_bytes_def)
  have o: "?ob = (object 0x10F8 DEFTYPE_UNSIGNED64 0 OBJCODE_VAR sEntryDesc0x10F8 (names [''Timestamp Object'']) TimeStampVar)
       \<lparr>ObjRead := Some FnRead0x10F8\<rparr>" by (simp add: GenObjDic_objects_def)
  have e: "OBJ_GetEntryDesc ?ob (unat (0 :: 8 word)) = desc 0x1B 0x40 (ACCESS_READWRITE OR OBJACCESS_TXPDOMAPPING)"
    by (simp add: o OBJ_GetEntryDesc_def entry_ix_def entry_at_def sEntryDesc0x10F8_def)
  have tab: "table_object ?ob" by (simp add: table_object_def GenObjDic_objects_def object_def)
  have ix: "Index ?ob = 0x10F8" "pVarPtr ?ob = TimeStampVar" by (simp_all add: o)
  have vw: "vars_ok w" by (simp add: w(1) sample_last_def sample_transfer_def with_block_def vars_ok_def sample_def)
  have rw: "write_rights (OBJ_GetEntryDesc ?ob (unat (0 :: 8 word))) w"
    unfolding e by (simp add: write_rights_def desc_access w(1) sample_last_def with_block_def)
  have bw: "buf_live (3, 0) 8 w" "buf_bytes (3, 0) 8 w = [7, 7, 7, 7, 1, 2, 3, 4]"
    using lb w(2) by (simp_all add: w(1) live_def buf_bytes_def buf_load_other[of _ 3 blk])
  have off: "value_off ?ob (unat (0 :: 8 word)) = 0" using writable_offsets(2)[OF tab, of 0] ix by simp
  have "\<not> sync_type_refused ?ob (unat (0 :: 8 word)) (3, 0) w" by (simp add: sync_type_refused_def ix)
  with written_entry[OF tab vw _ rw _ _ _ bw(1), of 8 sample_user] w(3) bw(2) ix e off
  have x: "r = 0" "get_bytes (var_bytes TimeStampVar x) 0 8 = [7, 7, 7, 7, 1, 2, 3, 4]"
    by (auto simp: value_descs)
  then have "var_bytes TimeStampVar x = [7, 7, 7, 7, 1, 2, 3, 4]" by (simp add: get_bytes_def)
  moreover have "var_bytes TimeStampVar t = var_bytes TimeStampVar x" "pSdoSegData t = NULL"
    using w(4) x(1) by (auto simp: download_ended_def)
  ultimately show ?thesis using rt x(1) by simp
qed

section \<open>Refusals\<close>

lemma sdo_abort_block:
  assumes "16 \<le> length b" and "byte_at b 8 = 0" and "unat abort < length cAbortCodes"
  shows "\<exists>b'. sdo_abort abort p (with_block p b s) = with_block p b' s \<and> length b' = length b \<and> get16 b' 0 = 10
    \<and> byte_at b' 8 = SDOSERVICE_ABORTTRANSFER \<and> get16 b' 9 = get16 b 9 \<and> byte_at b' 11 = byte_at b 11
    \<and> drop_bit 12 (get16 b' 6) = 2 \<and> get32 b' 12 = cAbortCode abort"
proof -
  have w: "drop_bit 12 ((w AND NOT 0xF000) OR push_bit 12 2) = (2 :: 16 word)" for w
  proof -
    have m: "drop_bit 12 (NOT 0xF000 :: 16 word) = 0" by simp
    have "drop_bit 12 (push_bit 12 2 :: 16 word) = 2" by simp
    then show ?thesis unfolding drop_bit_or drop_bit_and m by simp
  qed
  define b1 where "b1 = put_bytes 0 (le16_bytes 10) b"
  define b2 where "b2 = put_bytes 6 (le16_bytes ((get16 b1 6 AND NOT 0xF000) OR push_bit 12 2)) b1"
  define b3 where "b3 = put_bytes 8 [SDOSERVICE_ABORTTRANSFER] b2"
  define b4 where "b4 = put_bytes 12 (le32_bytes (cAbortCode abort)) b3"
  have l: "length b1 = length b" "length b2 = length b" "length b3 = length b" "length b4 = length b"
    using assms(1) by (simp_all add: b1_def b2_def b3_def b4_def)
  have z: "byte_at b2 8 = 0" using assms(1,2) l by (simp add: b2_def b1_def byte_at_put_bytes)
  have n: "note_fault False x = x" for x :: "'x mach_scheme" by (simp add: note_fault_def)
  have "sdo_abort abort p (with_block p b s) = with_block p b4 s"
  proof -
    have "mem_wr16 p 0 10 (with_block p b s) = with_block p b1 s" using assms(1) by (simp add: b1_def)
    moreover have "coe_set_service 2 p (with_block p b1 s) = with_block p b2 s" using assms(1) l by (simp add: b2_def)
    moreover have "mem_or8 p 8 SDOSERVICE_ABORTTRANSFER (with_block p b2 s) = with_block p b3 s"
      using assms(1) l z by (simp add: b3_def)
    moreover have "mem_wr32 p 12 (cAbortCode abort) (with_block p b3 s) = with_block p b4 s"
      using assms(1) l by (simp add: b4_def mem_access)
    ultimately show ?thesis using assms(3) by (simp add: sdo_abort_def Let_def not_le n)
  qed
  moreover have "get16 b4 0 = 10" "byte_at b4 8 = SDOSERVICE_ABORTTRANSFER" "get16 b4 9 = get16 b 9" "byte_at b4 11 = byte_at b 11"
    "get32 b4 12 = cAbortCode abort" "get16 b4 6 = (get16 b1 6 AND NOT 0xF000) OR push_bit 12 2"
    using assms(1) l by (simp_all add: b4_def b3_def b2_def b1_def le_simps byte_at_put_bytes)
  ultimately show ?thesis using w l(4) by (intro exI[of _ b4]) simp
qed

text \<open>C29.  A request to start a transfer of an object the dictionary does not have changes nothing but its
  buffer, which is sent back as an abort message for this index and subindex with the code for a missing
  object.\<close>

theorem missing_object_is_refused:
  assumes "dic_invar (dic s)" and "dic_entries (dic s) (mem_rd16 p 9 s) = None" and "\<not> bSdoInWork s"
    and "heap (mem s) p = Some b" and "16 \<le> length b" and "byte_at b 8 AND 0xE0 \<in> {SDOSERVICE_INITIATEDOWNLOADREQ, SDOSERVICE_INITIATEUPLOADREQ}"
  shows "\<exists>b'. SDOS_SdoInd_impl u p s = (0, coe_send p COE_SERVICE (with_block p b' s)) \<and> length b' = length b \<and> get16 b' 0 = 10
    \<and> byte_at b' 8 = SDOSERVICE_ABORTTRANSFER \<and> get16 b' 9 = get16 b 9 \<and> byte_at b' 11 = byte_at b 11
    \<and> drop_bit 12 (get16 b' 6) = 2 \<and> get32 b' 12 = 0x06020000"
proof -
  let ?c = "byte_at b 8 AND 0xE0"
  let ?b = "put_bytes 8 [0] b"
  have s: "s = with_block p b s" using assms(4) by (rule with_block_self)
  have touch: "n \<le> 16 \<Longrightarrow> mem_touch p n s = s" for n using assms(4,5) by (simp add: mem_touch_def m_touch_def)
  have rd: "mem_rd8 p 8 s = byte_at b 8" by (subst s) simp
  have g: "OBJ_GetObjectHandle (mem_rd16 p 9 s) (dic s) = Some NULL"
    using dic.lookup_entry[OF assms(1), of "mem_rd16 p 9 s"] assms(2) by simp
  have clear: "mem_wr8 p 8 0 s = with_block p ?b s" using assms(5) by (subst s) simp
  have "16 \<le> length ?b" "byte_at ?b 8 = 0" "unat ABORTIDX_OBJECT_NOT_EXISTING < length cAbortCodes"
    using assms(5) by (simp_all add: byte_at_put_bytes cAbortCodes_def)
  from sdo_abort_block[OF this, of p s] obtain b' where b': "sdo_abort ABORTIDX_OBJECT_NOT_EXISTING p (with_block p ?b s) = with_block p b' s"
    "length b' = length ?b" "get16 b' 0 = 10" "byte_at b' 8 = SDOSERVICE_ABORTTRANSFER" "get16 b' 9 = get16 ?b 9" "byte_at b' 11 = byte_at ?b 11"
    "drop_bit 12 (get16 b' 6) = 2" "get32 b' 12 = cAbortCode ABORTIDX_OBJECT_NOT_EXISTING" by blast
  have kept: "length ?b = length b" "get16 ?b 9 = get16 b 9" "byte_at ?b 11 = byte_at b 11"
    using assms(5) by (simp_all add: le_simps byte_at_put_bytes)
  have res: "SdoRes ABORTIDX_OBJECT_NOT_EXISTING ?c ca n l p s = coe_send p COE_SERVICE (with_block p b' s)" for ca n l
    using assms(6) clear b'(1) by (auto simp: SdoRes_def Let_def)
  have code: "cAbortCode ABORTIDX_OBJECT_NOT_EXISTING = 0x06020000" by (simp add: cAbortCode_def cAbortCodes_def)
  have "SDOS_SdoInd_impl u p s = (0, coe_send p COE_SERVICE (with_block p b' s))"
    using assms(3,6) res by (simp add: SDOS_SdoInd_impl_def Let_def touch rd g)
  then show ?thesis using b' kept code by (intro exI[of _ b']) simp
qed

lemma missing_object_is_refused_witness:
  "\<exists>b. SDOS_SdoInd_impl sample_user 1 (with_block 1 (put_bytes 8 [0x40] (replicate 16 0)) sample)
     = (0, coe_send 1 COE_SERVICE (with_block 1 b sample)) \<and> get32 b 12 = 0x06020000"
proof -
  let ?b = "put_bytes 8 [0x40] (replicate 16 0) :: 8 word list"
  let ?s = "with_block 1 ?b sample"
  have i: "dic_is (dic ?s) []" by (simp add: with_block_def sample_def dic_is_def by_index_def rmcs_dictionary0_def)
  have "dic_invar (dic ?s)" using i by (auto simp: dic_invar_def)
  moreover have "dic_entries (dic ?s) ix = None" for ix using entries_Some_iff[OF i, of ix] by (cases "dic_entries (dic ?s) ix") auto
  ultimately have "dic_invar (dic ?s)" "dic_entries (dic ?s) (mem_rd16 1 9 ?s) = None" .
  from missing_object_is_refused[OF this, of ?b sample_user] show ?thesis
    by (force simp: byte_at_put_bytes with_block_def sample_def)
qed

end
