(* ===== verification/XcoreRing.thy ===== *)
theory XcoreRing
  imports SlavePrelude
begin

text \<open>
  The byte ring between the two cores, \<open>common/xcore_ring.hpp\<close>.  \<open>byte_pipe\<close> is the interface a
  user of the ring relies on: bytes come out in the order they went in, a push is accepted
  whole or not at all, and a pop takes as much as there is up to its limit.  The ring is an
  instance when its two ends are not used at the same time; the second half runs producer and
  consumer step by step against each other, byte copies in any order.

  The indices run freely through 32 bits.  The proofs number the bytes from the start instead:
  \<open>ring_rep r P c\<close> says that \<open>P\<close> has been pushed altogether and the first \<open>c\<close> bytes of it popped.
\<close>

unbundle bit_operations_syntax

section \<open>The interface\<close>

locale byte_pipe =
  fixes push :: "8 word list \<Rightarrow> 'q \<Rightarrow> 'q option"
    and pop :: "nat \<Rightarrow> 'q \<Rightarrow> 8 word list \<times> 'q"
    and contents :: "'q \<Rightarrow> 8 word list"
    and invar :: "'q \<Rightarrow> bool"
    and room :: "'q \<Rightarrow> nat"
  assumes push_some: "invar q \<Longrightarrow> push bs q = Some q' \<Longrightarrow> invar q' \<and> contents q' = contents q @ bs"
    and push_none: "invar q \<Longrightarrow> push bs q = None \<longleftrightarrow> room q < length bs"
    and pop_takes: "invar q \<Longrightarrow> pop n q = (bs, q')
                    \<Longrightarrow> invar q' \<and> bs = take n (contents q) \<and> contents q' = drop n (contents q)"
begin

lemma pop_all:
  assumes "invar q" "length (contents q) \<le> n" "pop n q = (bs, q')"
  shows "bs = contents q \<and> contents q' = []"
  using pop_takes[OF assms(1,3)] assms(2) by simp

lemma pop_append:
  assumes "invar q" "pop n q = (bs, q')"
  shows "bs @ contents q' = contents q"
  using pop_takes[OF assms] by simp

end

section \<open>The ring\<close>

record xring =
  idx_in :: "32 word"
  idx_out :: "32 word"
  rbuf :: "8 word list"

definition ring_reset :: "xring \<Rightarrow> xring" where
  "ring_reset r = r\<lparr>idx_in := 0, idx_out := 0\<rparr>"

definition ring_mask :: "8 word list \<Rightarrow> 32 word" where
  "ring_mask buf = of_nat (length buf - 1)"

text \<open>\<open>memcpy\<close> of the part before the end of the buffer and of the part that wraps.\<close>

definition ring_store :: "32 word \<Rightarrow> 8 word list \<Rightarrow> 8 word list \<Rightarrow> 8 word list" where
  "ring_store ix bs buf =
    (let offset = unat (ix AND ring_mask buf);
         slice = min (length bs) (length buf - offset);
         buf = put_bytes offset (take slice bs) buf in
     put_bytes 0 (drop slice bs) buf)"

definition ring_load :: "32 word \<Rightarrow> nat \<Rightarrow> 8 word list \<Rightarrow> 8 word list" where
  "ring_load ix count buf =
    (let offset = unat (ix AND ring_mask buf);
         slice = min count (length buf - offset) in
     get_bytes buf offset slice @ get_bytes buf 0 (count - slice))"

definition try_push :: "8 word list \<Rightarrow> xring \<Rightarrow> xring option" where
  "try_push bs r =
    (let used = unat (idx_in r - idx_out r) in
     if length (rbuf r) - used < length bs then None
     else Some (r\<lparr>rbuf := ring_store (idx_in r) bs (rbuf r), idx_in := idx_in r + of_nat (length bs)\<rparr>))"

definition ring_pop :: "nat \<Rightarrow> xring \<Rightarrow> 8 word list \<times> xring" where
  "ring_pop n r =
    (let readable = unat (idx_in r - idx_out r);
         count = min readable n in
     if count = 0 then ([], r)
     else (ring_load (idx_out r) count (rbuf r), r\<lparr>idx_out := idx_out r + of_nat count\<rparr>))"

definition ring_readable :: "xring \<Rightarrow> nat" where
  "ring_readable r = unat (idx_in r - idx_out r)"

section \<open>Numbering the bytes\<close>

definition ring_size_ok :: "nat \<Rightarrow> bool" where
  "ring_size_ok n = (\<exists>k. n = 2 ^ k \<and> 0 < k \<and> k < 32)"

definition ring_invar :: "xring \<Rightarrow> bool" where
  "ring_invar r = (ring_size_ok (length (rbuf r)) \<and> unat (idx_in r - idx_out r) \<le> length (rbuf r))"

definition ring_contents :: "xring \<Rightarrow> 8 word list" where
  "ring_contents r = map (\<lambda>i. rbuf r ! unat ((idx_out r + of_nat i) AND ring_mask (rbuf r)))
     [0..<unat (idx_in r - idx_out r)]"

definition ring_holds :: "8 word list \<Rightarrow> 8 word list \<Rightarrow> nat \<Rightarrow> bool" where
  "ring_holds buf P c = (\<forall>j. c \<le> j \<longrightarrow> j < length P \<longrightarrow> buf ! (j mod length buf) = P ! j)"

definition ring_rep :: "xring \<Rightarrow> 8 word list \<Rightarrow> nat \<Rightarrow> bool" where
  "ring_rep r P c = (idx_in r = of_nat (length P) \<and> idx_out r = of_nat c \<and> c \<le> length P
     \<and> length P - c \<le> length (rbuf r) \<and> ring_size_ok (length (rbuf r)) \<and> ring_holds (rbuf r) P c)"

lemma ring_size_less: "ring_size_ok n \<Longrightarrow> 1 < n \<and> n < 2 ^ 32"
proof (unfold ring_size_ok_def, elim exE conjE)
  fix k assume "n = 2 ^ k" "0 < k" "k < 32"
  then show "1 < n \<and> n < 2 ^ 32"
    using one_less_power[of "2 :: nat" k] power_strict_increasing[of k 32 "2 :: nat"] by simp
qed

lemma ring_offset:
  assumes "ring_size_ok (length buf)"
  shows "unat ((of_nat j :: 32 word) AND ring_mask buf) = j mod length buf"
proof -
  from assms obtain k where k: "length buf = 2 ^ k" "k < 32" by (auto simp: ring_size_ok_def)
  have "ring_mask buf = mask k"
    by (simp add: ring_mask_def k mask_eq_decr_exp of_nat_diff)
  then have "(of_nat j :: 32 word) AND ring_mask buf = take_bit k (of_nat j)"
    by (simp add: take_bit_eq_mask)
  moreover have "unat (take_bit k (of_nat j :: 32 word)) = take_bit k (j mod 2 ^ 32)"
    by (simp only: unsigned_take_bit_eq) (simp add: unat_of_nat)
  moreover have "take_bit k (j mod 2 ^ 32) = j mod 2 ^ k"
    using mod_mod_cancel[OF le_imp_power_dvd[of k 32 "2 :: nat"], of j] k(2)
    by (simp only: take_bit_eq_mod)
  ultimately show ?thesis by (simp add: k)
qed

lemma unat_index_diff:
  assumes "c \<le> n" "n - c < 2 ^ 32"
  shows "unat (of_nat n - of_nat c :: 32 word) = n - c"
proof -
  have "(of_nat n - of_nat c :: 32 word) = of_nat (n - c)" using assms(1) by (simp add: of_nat_diff)
  then show ?thesis using assms(2) by (simp add: unat_of_nat)
qed

lemma ring_rep_used: "ring_rep r P c \<Longrightarrow> unat (idx_in r - idx_out r) = length P - c"
  using ring_size_less[of "length (rbuf r)"] by (simp add: ring_rep_def unat_index_diff)

lemma ring_rep_contents:
  assumes "ring_rep r P c"
  shows "ring_contents r = drop c P" "ring_invar r"
proof -
  have "ring_contents r = map (\<lambda>i. P ! (c + i)) [0..<length P - c]"
    unfolding ring_contents_def ring_rep_used[OF assms]
  proof (rule map_cong[OF refl])
    fix i assume "i \<in> set [0..<length P - c]"
    moreover have "idx_out r + of_nat i = of_nat (c + i)" using assms by (simp add: ring_rep_def)
    ultimately show "rbuf r ! unat ((idx_out r + of_nat i) AND ring_mask (rbuf r)) = P ! (c + i)"
      using assms by (simp only: ring_rep_def ring_offset ring_holds_def) simp
  qed
  also have "\<dots> = drop c P"
    using assms by (intro nth_equalityI) (simp_all add: ring_rep_def)
  finally show "ring_contents r = drop c P" .
  show "ring_invar r" using assms ring_rep_used[OF assms] by (simp add: ring_invar_def ring_rep_def)
qed

lemma ring_rep_exists:
  assumes "ring_invar r"
  shows "\<exists>P c. ring_rep r P c"
proof -
  define c where "c = unat (idx_out r)"
  define P where "P = replicate c 0 @ ring_contents r"
  have n: "length P = c + unat (idx_in r - idx_out r)" by (simp add: P_def ring_contents_def)
  have "idx_in r = of_nat (length P)" by (simp add: n c_def)
  moreover have "ring_holds (rbuf r) P c"
    unfolding ring_holds_def
  proof (intro allI impI)
    fix j assume j: "c \<le> j" "j < length P"
    then have "P ! j = ring_contents r ! (j - c)" by (simp add: P_def nth_append)
    also have "\<dots> = rbuf r ! unat ((idx_out r + of_nat (j - c)) AND ring_mask (rbuf r))"
      using less_diff_conv2[OF j(1), of "unat (idx_in r - idx_out r)"] j(2) n
      by (simp add: ring_contents_def add.commute del: of_nat_diff)
    also have "idx_out r + of_nat (j - c) = of_nat j" using j(1) by (simp add: c_def of_nat_diff)
    finally show "rbuf r ! (j mod length (rbuf r)) = P ! j"
      using assms by (simp add: ring_invar_def ring_offset)
  qed
  ultimately have "ring_rep r P c"
    using assms n by (simp add: ring_rep_def ring_invar_def c_def)
  then show ?thesis by blast
qed

section \<open>Copying in and out\<close>

text \<open>Storing \<open>bs\<close> from byte number \<open>n\<close> on changes exactly the places of these bytes.\<close>

lemma ring_store_nth:
  assumes "ring_size_ok (length buf)" "length bs \<le> length buf" "i < length buf"
  shows "length (ring_store (of_nat n) bs buf) = length buf
    \<and> ring_store (of_nat n) bs buf ! i =
      (if (i + length buf - n mod length buf) mod length buf < length bs
       then bs ! ((i + length buf - n mod length buf) mod length buf) else buf ! i)"
proof -
  let ?L = "length buf" and ?o = "n mod length buf"
  let ?sl = "min (length bs) (?L - ?o)"
  have o: "?o < ?L" using assms(3) by (metis mod_less_divisor not_less_zero gr0I)
  have e: "ring_store (of_nat n) bs buf = put_bytes 0 (drop ?sl bs) (put_bytes ?o (take ?sl bs) buf)"
    by (simp add: ring_store_def ring_offset[OF assms(1)] Let_def)
  have l1: "?o + length (take ?sl bs) \<le> ?L" using o by simp
  have l2: "0 + length (drop ?sl bs) \<le> length (put_bytes ?o (take ?sl bs) buf)"
    using l1 o assms(2) by simp
  have d: "(i + ?L - ?o) mod ?L = (if ?o \<le> i then i - ?o else i + ?L - ?o)"
  proof (cases "?o \<le> i")
    case True
    then have "i + ?L - ?o = (i - ?o) + ?L" by simp
    then show ?thesis using True assms(3) by (simp only: mod_add_self2) simp
  next
    case False
    then show ?thesis using o by simp
  qed
  show ?thesis
  proof (cases "length bs \<le> ?L - ?o")
    case True
    then have e': "ring_store (of_nat n) bs buf = put_bytes ?o bs buf"
      unfolding e by (simp add: min_absorb1 put_bytes_def)
    have l: "?o + length bs \<le> ?L" using True o by simp
    show ?thesis
      unfolding e' d using l o assms(3)
      by (cases "?o \<le> i \<and> i < ?o + length bs") (auto simp: nth_put_bytes_inside nth_put_bytes_outside)
  next
    case False
    let ?s = "?L - ?o" and ?b1 = "put_bytes ?o (take (?L - ?o) bs) buf"
    have e': "ring_store (of_nat n) bs buf = put_bytes 0 (drop ?s bs) ?b1"
      unfolding e using False by (simp add: min_absorb2)
    have lt: "length (take ?s bs) = ?s" "length (drop ?s bs) = length bs - ?s" using False by simp_all
    have m1: "?o + length (take ?s bs) \<le> ?L" using lt o by simp
    have lb: "length ?b1 = ?L" using length_put_bytes[OF m1] .
    have m2: "0 + length (drop ?s bs) \<le> length ?b1" using lt lb assms(2) by simp
    have len: "length (put_bytes 0 (drop ?s bs) ?b1) = ?L" using length_put_bytes[OF m2] lb by simp
    show ?thesis
    proof (cases "i < length bs - ?s")
      case True
      then have "put_bytes 0 (drop ?s bs) ?b1 ! i = bs ! (?s + i)"
        using nth_put_bytes_inside[OF m2, of i] lt False by simp
      moreover have "i < ?o" using True assms(2) o by linarith
      ultimately show ?thesis
        unfolding e' d using True o len by (auto simp: add.commute)
    next
      case F2: False
      then have b: "put_bytes 0 (drop ?s bs) ?b1 ! i = ?b1 ! i"
        using nth_put_bytes_outside[OF m2, of i] lt by simp
      show ?thesis
      proof (cases "?o \<le> i")
        case True
        then have "?b1 ! i = bs ! (i - ?o)"
          using nth_put_bytes_inside[OF m1, of i] lt assms(3) o by simp
        then show ?thesis unfolding e' d b using True False len assms(3) o by auto
      next
        case F3: False
        then have "?b1 ! i = buf ! i" using nth_put_bytes_outside[OF m1, of i] by simp
        then show ?thesis unfolding e' d b using F2 F3 len o by auto
      qed
    qed
  qed
qed

lemma mod_distance:
  fixes L :: nat
  assumes "n \<le> j + L" "0 < L"
  shows "(j mod L + L - n mod L) mod L = (j + L - n) mod L"
proof -
  have le: "n mod L \<le> j mod L + L" using assms(2) by (meson le_add2 less_imp_le mod_less_divisor order_trans)
  have "int ((j mod L + L - n mod L) mod L) = (int j mod int L + int L - int n mod int L) mod int L"
    using le by (simp add: zmod_int of_nat_diff)
  also have "\<dots> = (int j + int L - int n) mod int L"
    by (metis mod_add_cong mod_diff_cong mod_mod_trivial)
  also have "\<dots> = int ((j + L - n) mod L)" using assms(1) by (simp add: zmod_int of_nat_diff)
  finally show ?thesis by (simp only: of_nat_eq_iff)
qed

lemma ring_store_at:
  assumes "ring_size_ok (length buf)" "length bs \<le> length buf" "n \<le> j" "j < n + length bs"
  shows "ring_store (of_nat n) bs buf ! (j mod length buf) = bs ! (j - n)"
proof -
  let ?L = "length buf"
  have L: "0 < ?L" using ring_size_less[OF assms(1)] by linarith
  have "(j mod ?L + ?L - n mod ?L) mod ?L = (j + ?L - n) mod ?L" using assms(3) L by (intro mod_distance) auto
  also have "(j + ?L - n) mod ?L = j - n"
  proof -
    have e: "j + ?L - n = (j - n) + ?L" using assms(3) by simp
    have "j - n < ?L" using assms(2-4) by linarith
    then show ?thesis unfolding e mod_add_self2 by (rule mod_less)
  qed
  finally have d: "(j mod ?L + ?L - n mod ?L) mod ?L = j - n" .
  have "j - n < length bs" using assms(3,4) by linarith
  then show ?thesis using ring_store_nth[OF assms(1,2), of "j mod ?L" n] L unfolding d by simp
qed

lemma ring_store_keeps:
  assumes "ring_size_ok (length buf)" "length bs \<le> length buf" "j < n" "n + length bs \<le> j + length buf"
  shows "ring_store (of_nat n) bs buf ! (j mod length buf) = buf ! (j mod length buf)"
proof -
  let ?L = "length buf"
  have L: "0 < ?L" using ring_size_less[OF assms(1)] by linarith
  have "(j mod ?L + ?L - n mod ?L) mod ?L = (j + ?L - n) mod ?L" using assms(4) L by (intro mod_distance) auto
  also have "\<dots> = j + ?L - n" using assms(3,4) by simp
  finally have d: "(j mod ?L + ?L - n mod ?L) mod ?L = j + ?L - n" .
  have "\<not> j + ?L - n < length bs" using assms(4) by linarith
  then show ?thesis using ring_store_nth[OF assms(1,2), of "j mod ?L" n] L unfolding d by simp
qed

lemma length_ring_store:
  assumes "ring_size_ok (length buf)" "length bs \<le> length buf"
  shows "length (ring_store (of_nat n) bs buf) = length buf"
proof -
  have "0 < length buf" using ring_size_less[OF assms(1)] by linarith
  then show ?thesis using ring_store_nth[OF assms, of 0 n] by simp
qed

lemma ring_holds_store:
  assumes "ring_size_ok (length buf)" "ring_holds buf P c" "length P + length bs \<le> c + length buf" "c \<le> length P"
  shows "ring_holds (ring_store (of_nat (length P)) bs buf) (P @ bs) c"
proof -
  have l: "length bs \<le> length buf" using assms(3,4) by linarith
  show ?thesis
    unfolding ring_holds_def length_ring_store[OF assms(1) l]
  proof (intro allI impI)
    fix j assume j: "c \<le> j" "j < length (P @ bs)"
    show "ring_store (of_nat (length P)) bs buf ! (j mod length buf) = (P @ bs) ! j"
    proof (cases "j < length P")
      case True
      then show ?thesis
        using ring_store_keeps[OF assms(1) l True] assms(2,3) j(1) by (simp add: ring_holds_def nth_append)
    next
      case False
      then show ?thesis
        using ring_store_at[OF assms(1) l, of "length P" j] j(2) by (simp add: nth_append)
    qed
  qed
qed

lemma ring_load_holds:
  assumes "ring_size_ok (length buf)" "ring_holds buf P c" "c + n \<le> length P" "n \<le> length buf"
  shows "ring_load (of_nat c) n buf = take n (drop c P)"
proof (rule nth_equalityI)
  let ?L = "length buf" and ?o = "c mod length buf"
  have L: "0 < ?L" using ring_size_less[OF assms(1)] by linarith
  then have o: "?o < ?L" by simp
  have e: "ring_load (of_nat c) n buf = get_bytes buf ?o (min n (?L - ?o)) @ get_bytes buf 0 (n - min n (?L - ?o))"
    by (simp add: ring_load_def ring_offset[OF assms(1)] Let_def)
  show len: "length (ring_load (of_nat c) n buf) = length (take n (drop c P))"
    unfolding e using assms(3,4) o by simp
  fix i assume "i < length (ring_load (of_nat c) n buf)"
  then have i: "i < n" using len assms(3) by simp
  have m: "(c + i) mod ?L = (if i < ?L - ?o then ?o + i else i - (?L - ?o))"
  proof (cases "i < ?L - ?o")
    case True
    then have "(c + i) mod ?L = (?o + i) mod ?L" by (simp add: mod_simps)
    then show ?thesis using True by simp
  next
    case False
    have "?o + i = (i - (?L - ?o)) + ?L" using False o by linarith
    then have "(?o + i) mod ?L = (i - (?L - ?o)) mod ?L" by (simp only: mod_add_self2)
    then have "(c + i) mod ?L = (i - (?L - ?o)) mod ?L" by (simp add: mod_simps)
    moreover have "i - (?L - ?o) < ?L" using i assms(4) by linarith
    ultimately show ?thesis using False by simp
  qed
  have "ring_load (of_nat c) n buf ! i = buf ! ((c + i) mod ?L)"
  proof (cases "i < ?L - ?o")
    case True
    then have "i < length (get_bytes buf ?o (min n (?L - ?o)))" using i o by simp
    then show ?thesis unfolding e m using True i by (simp add: nth_append) (simp add: get_bytes_def)
  next
    case False
    have l: "length (get_bytes buf ?o (min n (?L - ?o))) = min n (?L - ?o)" using o by simp
    have mi: "min n (?L - ?o) = ?L - ?o" using False i by simp
    show ?thesis unfolding e m nth_append l mi using False i by (simp add: get_bytes_def)
  qed
  also have "\<dots> = P ! (c + i)" using assms(2,3) i by (simp add: ring_holds_def)
  finally show "ring_load (of_nat c) n buf ! i = take n (drop c P) ! i" using i assms(3) by simp
qed

section \<open>One end at a time\<close>

lemma ring_rep_push:
  assumes "ring_rep r P c" "try_push bs r = Some r'"
  shows "ring_rep r' (P @ bs) c"
proof -
  have sz: "ring_size_ok (length (rbuf r))" and h: "ring_holds (rbuf r) P c" and c: "c \<le> length P"
    and n: "idx_in r = of_nat (length P)"
    using assms(1) by (simp_all add: ring_rep_def)
  have fit: "length P + length bs \<le> c + length (rbuf r)"
    and r': "r' = r\<lparr>rbuf := ring_store (idx_in r) bs (rbuf r), idx_in := idx_in r + of_nat (length bs)\<rparr>"
    using assms ring_rep_used[OF assms(1)]
    by (auto simp: try_push_def Let_def ring_rep_def split: if_splits)
  then have l: "length bs \<le> length (rbuf r)" using c by linarith
  show ?thesis
    using assms(1) ring_holds_store[OF sz h fit c] fit length_ring_store[OF sz l, of "length P"]
    by (simp add: r' ring_rep_def n)
qed

lemma ring_rep_pop:
  assumes "ring_rep r P c" "ring_pop n r = (bs, r')"
  shows "bs = take n (drop c P) \<and> ring_rep r' P (c + length bs)"
proof -
  let ?k = "min (length P - c) n"
  have R: "idx_out r = of_nat c" "c \<le> length P" "length P - c \<le> length (rbuf r)"
    "ring_size_ok (length (rbuf r))" "ring_holds (rbuf r) P c" "idx_in r = of_nat (length P)"
    using assms(1) by (simp_all add: ring_rep_def)
  have t: "take ?k (drop c P) = take n (drop c P)" by (simp add: min_def)
  show ?thesis
  proof (cases "?k = 0")
    case True
    then have "bs = []" "r' = r" using assms(2) ring_rep_used[OF assms(1)] by (auto simp: ring_pop_def)
    then show ?thesis using assms(1) True t by (metis add.right_neutral list.size(3) take0)
  next
    case False
    then have r': "r' = r\<lparr>idx_out := idx_out r + of_nat ?k\<rparr>" and bs: "bs = ring_load (of_nat c) ?k (rbuf r)"
      using assms(2) ring_rep_used[OF assms(1)] R(1) by (auto simp: ring_pop_def Let_def split: if_splits)
    have "bs = take n (drop c P)" unfolding bs using ring_load_holds[OF R(4,5)] R(2,3) t by simp
    moreover from this have "length bs = ?k" by (simp add: min.commute)
    ultimately show ?thesis using R unfolding r' ring_rep_def by (auto simp: ring_holds_def)
  qed
qed

definition ring_room :: "xring \<Rightarrow> nat" where
  "ring_room r = length (rbuf r) - length (ring_contents r)"

interpretation xr: byte_pipe try_push ring_pop ring_contents ring_invar ring_room
proof
  fix q bs q' assume "ring_invar q" and p: "try_push bs q = Some q'"
  then obtain P c where rep: "ring_rep q P c" using ring_rep_exists by blast
  note rep' = ring_rep_push[OF rep p]
  show "ring_invar q' \<and> ring_contents q' = ring_contents q @ bs"
    using ring_rep_contents[OF rep] ring_rep_contents[OF rep'] rep by (simp add: ring_rep_def)
next
  fix q :: xring and bs
  show "(try_push bs q = None) = (ring_room q < length bs)"
    by (simp add: try_push_def ring_room_def ring_contents_def Let_def)
next
  fix q n bs q' assume "ring_invar q" and p: "ring_pop n q = (bs, q')"
  then obtain P c where rep: "ring_rep q P c" using ring_rep_exists by blast
  note rep' = ring_rep_pop[OF rep p]
  have "drop (c + length bs) P = drop n (drop c P)"
    using rep' rep by (cases "n \<le> length P - c") (simp_all add: ring_rep_def add.commute)
  then show "ring_invar q' \<and> bs = take n (ring_contents q) \<and> ring_contents q' = drop n (ring_contents q)"
    using ring_rep_contents[OF rep] ring_rep_contents rep' by metis
qed

lemma ring_reset_empty:
  assumes "ring_size_ok (length (rbuf r))"
  shows "ring_rep (ring_reset r) [] 0"
  using assms by (simp add: ring_rep_def ring_reset_def ring_holds_def)

section \<open>Producer and consumer at the same time\<close>

text \<open>
  A push is a check of the free space against the index the consumer last published, the copy of
  the bytes one by one in any order, and the publication of the new index; a pop is the mirror
  image.  Steps of the two sides interleave in any way.  Each step sees the newest values: this is
  what the acquire loads and release stores give for the indices and, through them, for the bytes.
  \<open>pushed\<close> and \<open>popped\<close> record the completed calls.
\<close>

record xcore_run =
  xring_st :: xring
  producing :: "(8 word list \<times> bool list) option"
  consuming :: "8 word option list option"
  pushed :: "8 word list"
  popped :: "8 word list"

datatype ring_event =
  PCheck "8 word list" | PByte nat | PStore | CCheck nat | CByte nat | CStore

definition ring_slot :: "xring \<Rightarrow> 32 word \<Rightarrow> nat \<Rightarrow> nat" where
  "ring_slot r ix i = unat ((ix + of_nat i) AND ring_mask (rbuf r))"

fun ring_step :: "ring_event \<Rightarrow> xcore_run \<Rightarrow> xcore_run" where
  "ring_step (PCheck bs) s =
    (let r = xring_st s in
     if producing s \<noteq> None \<or> length (rbuf r) - unat (idx_in r - idx_out r) < length bs then s
     else s\<lparr>producing := Some (bs, replicate (length bs) False)\<rparr>)"
| "ring_step (PByte i) s =
    (case producing s of None \<Rightarrow> s
     | Some (bs, done) \<Rightarrow>
        if length bs \<le> i then s
        else let r = xring_st s in
          s\<lparr>xring_st := r\<lparr>rbuf := (rbuf r)[ring_slot r (idx_in r) i := bs ! i]\<rparr>, producing := Some (bs, done[i := True])\<rparr>)"
| "ring_step PStore s =
    (case producing s of None \<Rightarrow> s
     | Some (bs, done) \<Rightarrow>
        if False \<in> set done then s
        else let r = xring_st s in
          s\<lparr>xring_st := r\<lparr>idx_in := idx_in r + of_nat (length bs)\<rparr>, producing := None, pushed := pushed s @ bs\<rparr>)"
| "ring_step (CCheck n) s =
    (let r = xring_st s; count = min (unat (idx_in r - idx_out r)) n in
     if consuming s \<noteq> None \<or> count = 0 then s else s\<lparr>consuming := Some (replicate count None)\<rparr>)"
| "ring_step (CByte i) s =
    (case consuming s of None \<Rightarrow> s
     | Some dest \<Rightarrow>
        if length dest \<le> i then s
        else let r = xring_st s in
          s\<lparr>consuming := Some (dest[i := Some (rbuf r ! ring_slot r (idx_out r) i)])\<rparr>)"
| "ring_step CStore s =
    (case consuming s of None \<Rightarrow> s
     | Some dest \<Rightarrow>
        if None \<in> set dest then s
        else let r = xring_st s in
          s\<lparr>xring_st := r\<lparr>idx_out := idx_out r + of_nat (length dest)\<rparr>, consuming := None, popped := popped s @ map the dest\<rparr>)"

definition ring_start :: "xring \<Rightarrow> xcore_run" where
  "ring_start r = \<lparr>xring_st = ring_reset r, producing = None, consuming = None, pushed = [], popped = []\<rparr>"

definition ring_run :: "ring_event list \<Rightarrow> xring \<Rightarrow> xcore_run" where
  "ring_run evs r = fold ring_step evs (ring_start r)"

definition producing_ok :: "xcore_run \<Rightarrow> bool" where
  "producing_ok s = (case producing s of None \<Rightarrow> True
     | Some (bs, done) \<Rightarrow> length done = length bs
         \<and> length (pushed s) + length bs \<le> length (popped s) + length (rbuf (xring_st s))
         \<and> (\<forall>i < length bs. done ! i \<longrightarrow>
              rbuf (xring_st s) ! ((length (pushed s) + i) mod length (rbuf (xring_st s))) = bs ! i))"

definition consuming_ok :: "xcore_run \<Rightarrow> bool" where
  "consuming_ok s = (case consuming s of None \<Rightarrow> True
     | Some dest \<Rightarrow> length (popped s) + length dest \<le> length (pushed s)
         \<and> (\<forall>i < length dest. \<forall>b. dest ! i = Some b \<longrightarrow> b = pushed s ! (length (popped s) + i)))"

definition ring_conc :: "xcore_run \<Rightarrow> bool" where
  "ring_conc s = (ring_rep (xring_st s) (pushed s) (length (popped s))
     \<and> popped s = take (length (popped s)) (pushed s) \<and> producing_ok s \<and> consuming_ok s)"

lemma mod_differ:
  fixes L :: nat
  assumes "j < k" "k - j < L"
  shows "j mod L \<noteq> k mod L"
proof
  assume "j mod L = k mod L"
  then have "L dvd k - j" using assms(1) mod_eq_dvd_iff_nat[of j k L] by simp
  then show False using assms by (auto dest: dvd_imp_le)
qed

lemma ring_slot_nat:
  assumes "ring_size_ok (length (rbuf r))" "ix = of_nat n"
  shows "ring_slot r ix i = (n + i) mod length (rbuf r)"
  unfolding ring_slot_def using ring_offset[OF assms(1), of "n + i"] assms(2) by simp

lemma conc_PByte:
  assumes "ring_conc s"
  shows "ring_conc (ring_step (PByte i) s)"
proof (cases "producing s")
  case None
  then show ?thesis using assms by simp
next
  case (Some p)
  obtain bs dn where p: "p = (bs, dn)" by force
  let ?r = "xring_st s" and ?L = "length (rbuf (xring_st s))" and ?n = "length (pushed s)"
  have rep: "ring_rep ?r (pushed s) (length (popped s))" and po: "producing_ok s" and co: "consuming_ok s"
    and pre: "popped s = take (length (popped s)) (pushed s)"
    using assms by (simp_all add: ring_conc_def)
  have R: "ring_size_ok ?L" "idx_in ?r = of_nat ?n" "length (popped s) \<le> ?n"
    "ring_holds (rbuf ?r) (pushed s) (length (popped s))"
    using rep by (simp_all add: ring_rep_def)
  have P: "length dn = length bs" "?n + length bs \<le> length (popped s) + ?L"
    "\<And>k. k < length bs \<Longrightarrow> dn ! k \<Longrightarrow> rbuf ?r ! ((?n + k) mod ?L) = bs ! k"
    using po Some p by (simp_all add: producing_ok_def)
  show ?thesis
  proof (cases "i < length bs")
    case False
    then show ?thesis using assms Some p by simp
  next
    case True
    let ?x = "(?n + i) mod ?L"
    have x: "?x < ?L" using ring_size_less[OF R(1)] by (intro mod_less_divisor) linarith
    have old: "(rbuf ?r)[?x := bs ! i] ! (j mod ?L) = rbuf ?r ! (j mod ?L)"
      if "length (popped s) \<le> j" "j < ?n" for j
    proof -
      have "j mod ?L \<noteq> ?x" by (rule mod_differ) (use that P(2) True in linarith)+
      then show ?thesis by simp
    qed
    have new: "(rbuf ?r)[?x := bs ! i] ! ((?n + k) mod ?L) = bs ! k"
      if "k < length bs" "dn[i := True] ! k" for k
    proof (cases "k = i")
      case True
      then show ?thesis using x by simp
    next
      case False
      have "(?n + k) mod ?L \<noteq> ?x"
      proof (cases "k < i")
        case True
        show ?thesis by (rule mod_differ) (use True \<open>i < length bs\<close> P(2) R(3) in linarith)+
      next
        case F2: False
        have "?x \<noteq> (?n + k) mod ?L" by (rule mod_differ) (use F2 False that P(2) R(3) in linarith)+
        then show ?thesis by simp
      qed
      then show ?thesis using P(3)[OF that(1)] that(2) False by simp
    qed
    have st: "ring_step (PByte i) s = s\<lparr>xring_st := ?r\<lparr>rbuf := (rbuf ?r)[?x := bs ! i]\<rparr>, producing := Some (bs, dn[i := True])\<rparr>"
      using Some p True ring_slot_nat[OF R(1,2), of i] by (simp add: Let_def)
    show ?thesis
      using rep pre co P(1,2) new old R(4) unfolding st
      by (simp add: ring_conc_def ring_rep_def ring_holds_def producing_ok_def consuming_ok_def split: option.splits)
  qed
qed

lemma conc_PCheck:
  assumes "ring_conc s"
  shows "ring_conc (ring_step (PCheck bs) s)"
proof (cases "producing s \<noteq> None \<or> length (rbuf (xring_st s)) - unat (idx_in (xring_st s) - idx_out (xring_st s)) < length bs")
  case True
  then show ?thesis using assms by (auto simp: Let_def)
next
  case False
  have rep: "ring_rep (xring_st s) (pushed s) (length (popped s))" using assms by (simp add: ring_conc_def)
  have "length (pushed s) + length bs \<le> length (popped s) + length (rbuf (xring_st s))"
    using False rep unfolding ring_rep_used[OF rep] ring_rep_def by linarith
  then show ?thesis
    using assms False by (simp add: Let_def ring_conc_def producing_ok_def consuming_ok_def split: option.splits)
qed

lemma conc_PStore:
  assumes "ring_conc s"
  shows "ring_conc (ring_step PStore s)"
proof (cases "\<exists>bs dn. producing s = Some (bs, dn) \<and> False \<notin> set dn")
  case False
  then show ?thesis using assms by (auto split: option.splits)
next
  case True
  then obtain bs dn where p: "producing s = Some (bs, dn)" and all: "False \<notin> set dn" by blast
  let ?r = "xring_st s" and ?L = "length (rbuf (xring_st s))" and ?n = "length (pushed s)" and ?c = "length (popped s)"
  have rep: "ring_rep ?r (pushed s) ?c" and po: "producing_ok s" and co: "consuming_ok s"
    and pre: "popped s = take ?c (pushed s)"
    using assms by (simp_all add: ring_conc_def)
  have len: "length dn = length bs" and fit: "?n + length bs \<le> ?c + ?L" using po p by (simp_all add: producing_ok_def)
  have copied: "rbuf ?r ! ((?n + k) mod ?L) = bs ! k" if "k < length bs" for k
  proof -
    have "dn ! k" using all len that by (metis nth_mem)
    then show ?thesis using po p that by (simp add: producing_ok_def)
  qed
  have R: "ring_holds (rbuf ?r) (pushed s) ?c" "?c \<le> ?n" using rep by (simp_all add: ring_rep_def)
  have "ring_holds (rbuf ?r) (pushed s @ bs) ?c"
    unfolding ring_holds_def
  proof (intro allI impI)
    fix j assume j: "?c \<le> j" "j < length (pushed s @ bs)"
    show "rbuf ?r ! (j mod ?L) = (pushed s @ bs) ! j"
      using R(1) j copied[of "j - ?n"] by (cases "j < ?n") (simp_all add: ring_holds_def nth_append)
  qed
  moreover have "?c \<le> ?n + length bs" "?n + length bs - ?c \<le> ?L" using fit R(2) by linarith+
  moreover have "popped s = take ?c (pushed s @ bs)" using pre R(2) by simp
  ultimately show ?thesis
    using rep co p all
    by (auto simp: Let_def ring_conc_def ring_rep_def producing_ok_def consuming_ok_def nth_append split: option.splits)
qed

lemma conc_CCheck:
  assumes "ring_conc s"
  shows "ring_conc (ring_step (CCheck n) s)"
proof -
  have rep: "ring_rep (xring_st s) (pushed s) (length (popped s))" using assms by (simp add: ring_conc_def)
  then have "length (popped s) \<le> length (pushed s)" by (simp add: ring_rep_def)
  then show ?thesis
    using assms ring_rep_used[OF rep]
    by (auto simp: Let_def ring_conc_def producing_ok_def consuming_ok_def split: option.splits)
qed

lemma conc_CByte:
  assumes "ring_conc s"
  shows "ring_conc (ring_step (CByte i) s)"
proof (cases "\<exists>dest. consuming s = Some dest \<and> i < length dest")
  case False
  then show ?thesis using assms by (auto split: option.splits)
next
  case True
  then obtain dest where c: "consuming s = Some dest" and i: "i < length dest" by blast
  let ?r = "xring_st s" and ?c = "length (popped s)"
  have rep: "ring_rep ?r (pushed s) ?c" and co: "consuming_ok s" using assms by (simp_all add: ring_conc_def)
  have R: "ring_size_ok (length (rbuf ?r))" "idx_out ?r = of_nat ?c" "ring_holds (rbuf ?r) (pushed s) ?c"
    using rep by (simp_all add: ring_rep_def)
  have "?c + i < length (pushed s)" using co c i by (simp add: consuming_ok_def)
  then have v: "rbuf ?r ! ring_slot ?r (idx_out ?r) i = pushed s ! (?c + i)"
    using R(3) unfolding ring_slot_nat[OF R(1,2)] by (simp add: ring_holds_def)
  show ?thesis
    using assms c i v
    by (auto simp: Let_def ring_conc_def producing_ok_def consuming_ok_def nth_list_update split: option.splits)
qed

lemma conc_CStore:
  assumes "ring_conc s"
  shows "ring_conc (ring_step CStore s)"
proof (cases "\<exists>dest. consuming s = Some dest \<and> None \<notin> set dest")
  case False
  then show ?thesis using assms by (auto split: option.splits)
next
  case True
  then obtain dest where c: "consuming s = Some dest" and all: "None \<notin> set dest" by blast
  let ?r = "xring_st s" and ?c = "length (popped s)" and ?n = "length (pushed s)"
  have rep: "ring_rep ?r (pushed s) ?c" and co: "consuming_ok s" and po: "producing_ok s"
    and pre: "popped s = take ?c (pushed s)"
    using assms by (simp_all add: ring_conc_def)
  have le: "?c + length dest \<le> ?n" using co c by (simp add: consuming_ok_def)
  have "map the dest = take (length dest) (drop ?c (pushed s))"
  proof (rule nth_equalityI)
    show "length (map the dest) = length (take (length dest) (drop ?c (pushed s)))" using le by simp
    fix i assume "i < length (map the dest)"
    then have i: "i < length dest" by simp
    then obtain b where "dest ! i = Some b" using all by (metis nth_mem option.exhaust)
    then show "map the dest ! i = take (length dest) (drop ?c (pushed s)) ! i"
      using co c i le by (simp add: consuming_ok_def)
  qed
  then have "popped s @ map the dest = take (?c + length dest) (pushed s)"
    using pre by (metis take_add)
  then show ?thesis
    using rep po c all le
    by (auto simp: Let_def ring_conc_def ring_rep_def ring_holds_def producing_ok_def consuming_ok_def split: option.splits)
qed

lemma ring_conc_step: "ring_conc s \<Longrightarrow> ring_conc (ring_step e s)"
  by (cases e) (simp_all only: conc_PCheck conc_PByte conc_PStore conc_CCheck conc_CByte conc_CStore)

lemma ring_conc_run:
  assumes "ring_size_ok (length (rbuf r))"
  shows "ring_conc (ring_run evs r)"
proof -
  have "ring_conc (ring_start r)"
    using ring_reset_empty[OF assms] by (simp add: ring_conc_def ring_start_def producing_ok_def consuming_ok_def)
  then have "ring_conc (fold ring_step evs s)" if "s = ring_start r" for s
    using that by (induction evs rule: rev_induct) (simp_all add: ring_conc_step)
  then show ?thesis by (simp add: ring_run_def)
qed

lemma ring_run_length: "length (rbuf (xring_st (ring_run evs r))) = length (rbuf r)"
proof -
  have "length (rbuf (xring_st (ring_step e s))) = length (rbuf (xring_st s))" for e s
    by (cases e) (auto simp: Let_def split: option.splits prod.splits)
  then have "length (rbuf (xring_st (fold ring_step evs s))) = length (rbuf (xring_st s))" for s
    by (induction evs arbitrary: s) simp_all
  then show ?thesis by (simp add: ring_run_def ring_start_def ring_reset_def)
qed

end
