(* ===== verification/PdStream.thy ===== *)
theory PdStream
  imports XcoreRing
begin

text \<open>
  The stream endpoint \<open>BasicPdStreamEndpoint\<close> of \<open>librmcs/ecat/pd_stream.hpp\<close>: a byte stream over
  process data images, where an image may be overwritten before it is read, read several times,
  or lost with its frame.  Chunks carry a sequence number 1 to 255; the sender keeps up to two
  unacknowledged chunks and goes back when the acknowledgement stalls, the receiver takes only the
  next number and acknowledges cumulatively.

  \<open>payload_size\<close> and the ring are template parameters of the C++ class, here arguments \<open>psz\<close>,
  \<open>push\<close> and \<open>pop\<close>.  The counters of type \<open>unsigned\<close> are natural numbers; they stay below 5
  (\<open>endpoint_bounds\<close>).
\<close>

section \<open>The endpoint\<close>

abbreviation kPdWindow :: nat where "kPdWindow \<equiv> 2"
abbreviation kGoBackStallFrames :: nat where "kGoBackStallFrames \<equiv> 4"
abbreviation kPdChunkHeaderSize :: nat where "kPdChunkHeaderSize \<equiv> 4"

record pd_slot =
  slot_seq :: "8 word"
  slot_len :: "16 word"
  slot_payload :: "8 word list"

record pd_endpoint =
  rx_ack :: "8 word"
  tx_seq :: "8 word"
  peer_ack :: "8 word"
  pd_head :: nat
  pd_count :: nat
  send_offset :: nat
  stall :: nat
  may_stage :: bool
  slots :: "pd_slot list"

definition endpoint_reset :: "pd_endpoint \<Rightarrow> pd_endpoint" where
  "endpoint_reset e = e\<lparr>rx_ack := 0, tx_seq := 0, peer_ack := 0, pd_head := 0, pd_count := 0,
     send_offset := 0, stall := 0, may_stage := True\<rparr>"

definition next_seq :: "8 word \<Rightarrow> 8 word" where
  "next_seq w = (if w = 255 then 1 else w + 1)"

definition slot_at :: "pd_endpoint \<Rightarrow> nat \<Rightarrow> pd_slot" where
  "slot_at e j = slots e ! ((pd_head e + j) mod kPdWindow)"

fun acked_from :: "pd_endpoint \<Rightarrow> nat \<Rightarrow> nat \<Rightarrow> nat" where
  "acked_from e j 0 = 0"
| "acked_from e j (Suc n) = (if slot_seq (slot_at e j) = peer_ack e then j + 1 else acked_from e (j + 1) n)"

definition acked_prefix :: "pd_endpoint \<Rightarrow> nat" where
  "acked_prefix e = acked_from e 0 (pd_count e)"

definition ready_to_advance :: "pd_endpoint \<Rightarrow> bool" where
  "ready_to_advance e = (may_stage e \<and> pd_count e - acked_prefix e < kPdWindow)"

definition pd_get_len :: "8 word list \<Rightarrow> 16 word" where
  "pd_get_len pd = get16 pd 2"

definition on_peer_chunk :: "nat \<Rightarrow> (8 word list \<Rightarrow> 'r \<Rightarrow> 'r option) \<Rightarrow> 8 word list
    \<Rightarrow> pd_endpoint \<Rightarrow> 'r \<Rightarrow> pd_endpoint \<times> 'r" where
  "on_peer_chunk psz push pd e ring =
    (let e = e\<lparr>peer_ack := byte_at pd 1, may_stage := True\<rparr>;
         seq = byte_at pd 0;
         len = pd_get_len pd in
     if seq = 0 \<or> len = 0 \<or> psz < unat len then (e, ring)
     else if seq \<noteq> next_seq (rx_ack e) then (e, ring)
     else case push (get_bytes pd kPdChunkHeaderSize (unat len)) ring of
            None \<Rightarrow> (e, ring)
          | Some ring \<Rightarrow> (e\<lparr>rx_ack := seq\<rparr>, ring))"

text \<open>Sliding the window over what the peer has acknowledged.\<close>

definition slide_window :: "pd_endpoint \<Rightarrow> pd_endpoint" where
  "slide_window e =
    (let acked = acked_prefix e in
     if acked \<noteq> 0
     then e\<lparr>pd_head := (pd_head e + acked) mod kPdWindow, pd_count := pd_count e - acked,
            send_offset := (if acked < send_offset e then send_offset e - acked else 0), stall := 0\<rparr>
     else e)"

text \<open>Choosing the chunk to send: the next one of a replay, or a new one taken from the ring.  The
  result is the slot, if any.\<close>

definition stage_chunk :: "nat \<Rightarrow> (nat \<Rightarrow> 'r \<Rightarrow> 8 word list \<times> 'r) \<Rightarrow> pd_endpoint \<Rightarrow> 'r
    \<Rightarrow> nat option \<times> pd_endpoint \<times> 'r" where
  "stage_chunk psz pop e ring =
    (if may_stage e \<and> send_offset e < pd_count e
     then (Some (send_offset e), e\<lparr>send_offset := send_offset e + 1, may_stage := False\<rparr>, ring)
     else if may_stage e \<and> pd_count e < kPdWindow
     then let ix = (pd_head e + pd_count e) mod kPdWindow;
              (bs, ring) = pop psz ring;
              slot = (slots e ! ix)\<lparr>slot_len := of_nat (length bs),
                       slot_payload := put_bytes 0 bs (slot_payload (slots e ! ix))\<rparr> in
          if slot_len slot \<noteq> 0
          then (Some (pd_count e),
                e\<lparr>tx_seq := next_seq (tx_seq e), slots := (slots e)[ix := slot\<lparr>slot_seq := next_seq (tx_seq e)\<rparr>],
                  pd_count := pd_count e + 1, send_offset := pd_count e + 1, may_stage := False\<rparr>, ring)
          else (None, e\<lparr>slots := (slots e)[ix := slot]\<rparr>, ring)
     else (None, e, ring))"

text \<open>Nothing chosen although chunks are in flight: count towards the go-back, or repaint the newest
  chunk sent.  \<open>frame_credit\<close> is \<open>may_stage\<close> as it was before \<open>stage_chunk\<close>.\<close>

definition repaint_chunk :: "bool \<Rightarrow> nat option \<Rightarrow> pd_endpoint \<Rightarrow> nat option \<times> pd_endpoint" where
  "repaint_chunk frame_credit out e =
    (if out = None \<and> pd_count e \<noteq> 0
     then let e = (if frame_credit then e\<lparr>stall := stall e + 1\<rparr> else e) in
          if frame_credit \<and> kGoBackStallFrames \<le> stall e then (None, e\<lparr>send_offset := 0, stall := 0\<rparr>)
          else if send_offset e \<noteq> 0 then (Some (send_offset e - 1), e)
          else (None, e)
     else (out, e))"

definition write_image :: "nat option \<Rightarrow> pd_endpoint \<Rightarrow> 8 word list \<Rightarrow> 8 word list" where
  "write_image out e pd =
    (let pd = put_bytes 1 [rx_ack e] pd in
     case out of
       Some j \<Rightarrow>
         let sl = slot_at e j;
             pd = put_bytes 0 [slot_seq sl] pd;
             pd = put_bytes 2 (le16_bytes (slot_len sl)) pd in
         put_bytes kPdChunkHeaderSize (take (unat (slot_len sl)) (slot_payload sl)) pd
     | None \<Rightarrow> put_bytes 2 (le16_bytes 0) (put_bytes 0 [tx_seq e] pd))"

definition build_own_chunk :: "nat \<Rightarrow> (nat \<Rightarrow> 'r \<Rightarrow> 8 word list \<times> 'r) \<Rightarrow> 8 word list
    \<Rightarrow> pd_endpoint \<Rightarrow> 'r \<Rightarrow> 8 word list \<times> pd_endpoint \<times> 'r" where
  "build_own_chunk psz pop pd e ring =
    (let e = slide_window e;
         frame_credit = may_stage e;
         (out, e, ring) = stage_chunk psz pop e ring;
         (out, e) = repaint_chunk frame_credit out e in
     (write_image out e pd, e, ring))"

end
