(* ===== verification/PdLink.thy ===== *)
theory PdLink
  imports PdStream
begin

text \<open>
  Two stream endpoints over images that may be overwritten, read repeatedly or lost.  The proofs
  number the chunks from 1 without wrap-around; \<open>seqof i\<close> is the number that chunk \<open>i\<close> carries.
\<close>

section \<open>Sequence numbers\<close>

definition seqof :: "nat \<Rightarrow> 8 word" where
  "seqof i = (if i = 0 then 0 else of_nat ((i - 1) mod 255 + 1))"

lemma seqof_0 [simp]: "seqof 0 = 0" by (simp add: seqof_def)

lemma unat_seqof: "unat (seqof i) = (if i = 0 then 0 else (i - 1) mod 255 + 1)"
proof -
  have "(i - 1) mod 255 < 255" by simp
  then have "(i - 1) mod 255 + 1 < 256" by linarith
  then have "unat (of_nat ((i - 1) mod 255 + 1) :: 8 word) = (i - 1) mod 255 + 1"
    by (simp only: unat_of_nat) simp
  then show ?thesis by (simp add: seqof_def)
qed

lemma seqof_nonzero: "0 < i \<Longrightarrow> seqof i \<noteq> 0"
  using unat_seqof[of i] by (auto simp: unat_eq_zero)

lemma seqof_Suc: "next_seq (seqof i) = seqof (Suc i)"
proof (cases "i = 0")
  case True
  then show ?thesis by (simp add: next_seq_def seqof_def)
next
  case False
  let ?m = "(i - 1) mod 255"
  have u: "unat (seqof i) = ?m + 1" using unat_seqof[of i] False by simp
  have s: "i mod 255 = (if ?m = 254 then 0 else ?m + 1)"
    using mod_Suc[of "i - 1" 255] False by simp
  show ?thesis
  proof (cases "?m = 254")
    case True
    then have "seqof i = 255" using u by (simp add: word_unat_eq_iff)
    then show ?thesis using s True by (simp add: next_seq_def seqof_def)
  next
    case F: False
    then have "seqof i \<noteq> 255" using u by auto
    then show ?thesis using s F False by (simp add: next_seq_def seqof_def)
  qed
qed

lemma seqof_inject:
  assumes "seqof i = seqof j" "i < j + 255" "j < i + 255"
  shows "i = j"
proof (cases "i = 0 \<or> j = 0")
  case True
  then show ?thesis using assms(1) seqof_nonzero by (metis gr0I seqof_0)
next
  case False
  have "unat (seqof i) = unat (seqof j)" using assms(1) by simp
  then have m: "(i - 1) mod 255 = (j - 1) mod 255" using False by (simp add: unat_seqof)
  show ?thesis
  proof (rule linorder_cases[of i j])
    assume "i < j"
    then have "i - 1 < j - 1" "(j - 1) - (i - 1) < 255" using assms(3) False by linarith+
    then show ?thesis using mod_differ m by blast
  next
    assume "j < i"
    then have "j - 1 < i - 1" "(i - 1) - (j - 1) < 255" using assms(2) False by linarith+
    then show ?thesis using mod_differ m by metis
  qed simp
qed

section \<open>The sender\<close>

definition slot_has :: "pd_slot \<Rightarrow> 8 word list \<Rightarrow> nat \<Rightarrow> bool" where
  "slot_has sl c i = (slot_seq sl = seqof i \<and> unat (slot_len sl) = length c
     \<and> take (length c) (slot_payload sl) = c)"

text \<open>\<open>C\<close> are the chunks staged so far, the first \<open>b\<close> of them acknowledged.\<close>

definition sender_ok :: "nat \<Rightarrow> pd_endpoint \<Rightarrow> 8 word list list \<Rightarrow> nat \<Rightarrow> bool" where
  "sender_ok psz e C b = (tx_seq e = seqof (length C) \<and> length (slots e) = kPdWindow \<and> pd_head e < kPdWindow
     \<and> pd_count e \<le> kPdWindow \<and> length C = b + pd_count e \<and> send_offset e \<le> pd_count e
     \<and> stall e < kGoBackStallFrames
     \<and> (\<forall>j < pd_count e. slot_has (slot_at e j) (C ! (b + j)) (b + j + 1))
     \<and> (\<forall>sl \<in> set (slots e). length (slot_payload sl) = psz)
     \<and> (\<forall>c \<in> set C. c \<noteq> [] \<and> length c \<le> psz))"

lemma sender_bounds:
  "sender_ok psz e C b \<Longrightarrow> b \<le> length C \<and> length C \<le> b + 2"
  by (simp add: sender_ok_def)

lemma acked_prefix_eq:
  assumes "sender_ok psz e C b" "peer_ack e = seqof a" "b \<le> a" "a \<le> length C"
  shows "acked_prefix e = a - b"
proof -
  have n: "length C = b + pd_count e" and c: "pd_count e \<le> 2"
    and sq: "\<And>j. j < pd_count e \<Longrightarrow> slot_seq (slot_at e j) = seqof (b + j + 1)"
    using assms(1) by (simp_all add: sender_ok_def slot_has_def)
  have m: "slot_seq (slot_at e j) = peer_ack e \<longleftrightarrow> a = b + j + 1" if "j < pd_count e" for j
    using sq[OF that] seqof_inject[of "b + j + 1" a] assms(2-4) n c that by auto
  consider "pd_count e = 0" | "pd_count e = 1" | "pd_count e = 2" using c by linarith
  then show ?thesis
  proof cases
    case 1
    then show ?thesis using n assms(3,4) by (simp add: acked_prefix_def)
  next
    case 2
    have p: "acked_prefix e = (if slot_seq (slot_at e 0) = peer_ack e then 1 else 0)"
      unfolding acked_prefix_def 2 by simp
    show ?thesis unfolding p m[of 0, unfolded 2, OF zero_less_one] using n 2 assms(3,4) by auto
  next
    case 3
    have p: "acked_prefix e = (if slot_seq (slot_at e 0) = peer_ack e then 1
        else if slot_seq (slot_at e 1) = peer_ack e then 2 else 0)"
      unfolding acked_prefix_def 3 by (simp add: numeral_2_eq_2)
    show ?thesis unfolding p using m[of 0] m[of 1] n 3 assms(3,4) by auto
  qed
qed

lemma slide_ok:
  assumes "sender_ok psz e C b" "peer_ack e = seqof a" "b \<le> a" "a \<le> length C"
  shows "sender_ok psz (slide_window e) C a \<and> peer_ack (slide_window e) = peer_ack e
    \<and> rx_ack (slide_window e) = rx_ack e \<and> may_stage (slide_window e) = may_stage e"
proof -
  have p: "acked_prefix e = a - b" by (rule acked_prefix_eq[OF assms])
  show ?thesis
  proof (cases "a = b")
    case True
    then show ?thesis using assms(1) p by (simp add: slide_window_def)
  next
    case False
    let ?e = "slide_window e"
    have e: "?e = e\<lparr>pd_head := (pd_head e + (a - b)) mod kPdWindow, pd_count := pd_count e - (a - b),
            send_offset := (if a - b < send_offset e then send_offset e - (a - b) else 0), stall := 0\<rparr>"
      using p False assms(3) by (simp add: slide_window_def)
    have n: "length C = b + pd_count e" using assms(1) by (simp add: sender_ok_def)
    have sl: "slot_at ?e j = slot_at e (a - b + j)" for j
      by (simp add: e slot_at_def mod_add_left_eq add.assoc)
    have "slot_has (slot_at ?e j) (C ! (a + j)) (a + j + 1)" if "j < pd_count ?e" for j
    proof -
      have *: "a - b + j < pd_count e" "b + (a - b + j) = a + j" using that assms(3) by (simp_all add: e)
      have "slot_has (slot_at e (a - b + j)) (C ! (b + (a - b + j))) (b + (a - b + j) + 1)"
        using assms(1) *(1) unfolding sender_ok_def by blast
      then show ?thesis unfolding sl *(2) .
    qed
    moreover have "length C = a + pd_count ?e" "send_offset ?e \<le> pd_count ?e" "pd_count ?e \<le> kPdWindow"
      "pd_head ?e < kPdWindow" "stall ?e < kGoBackStallFrames"
      using assms(1,3,4) n by (auto simp: e sender_ok_def)
    moreover have "tx_seq ?e = tx_seq e" "slots ?e = slots e" "peer_ack ?e = peer_ack e" "rx_ack ?e = rx_ack e"
      "may_stage ?e = may_stage e"
      by (simp_all add: e)
    ultimately show ?thesis using assms(1) unfolding sender_ok_def by simp
  qed
qed

context byte_pipe
begin

lemma stage_ok:
  assumes ok: "sender_ok psz e C b" and "invar r" and psz: "psz < 65536"
    and st: "stage_chunk psz pop e r = (out, e', r')"
  shows "\<exists>cs. length cs \<le> 1 \<and> sender_ok psz e' (C @ cs) b \<and> invar r' \<and> contents r = concat cs @ contents r'
    \<and> rx_ack e' = rx_ack e \<and> peer_ack e' = peer_ack e \<and> (\<forall>j. out = Some j \<longrightarrow> j < pd_count e')"
proof -
  have S: "tx_seq e = seqof (length C)" "length (slots e) = 2" "pd_head e < 2" "pd_count e \<le> 2"
    "length C = b + pd_count e" "send_offset e \<le> pd_count e" "stall e < 4"
    "\<And>j. j < pd_count e \<Longrightarrow> slot_has (slot_at e j) (C ! (b + j)) (b + j + 1)"
    "\<And>sl. sl \<in> set (slots e) \<Longrightarrow> length (slot_payload sl) = psz"
    "\<And>c. c \<in> set C \<Longrightarrow> c \<noteq> [] \<and> length c \<le> psz"
    using ok unfolding sender_ok_def by blast+
  consider (replay) "may_stage e" "send_offset e < pd_count e"
    | (fresh) "may_stage e" "\<not> send_offset e < pd_count e" "pd_count e < 2"
    | (no) "\<not> may_stage e \<or> \<not> send_offset e < pd_count e \<and> \<not> pd_count e < 2" by blast
  then show ?thesis
  proof cases
    case replay
    then have e: "out = Some (send_offset e)" "e' = e\<lparr>send_offset := send_offset e + 1, may_stage := False\<rparr>" "r' = r"
      using st by (simp_all add: stage_chunk_def)
    have "sender_ok psz e' C b" using ok replay(2) by (simp add: sender_ok_def e slot_at_def)
    then show ?thesis using assms(2) replay(2) by (intro exI[of _ "[]"]) (simp add: e)
  next
    case no
    then have e: "out = None" "e' = e" "r' = r" using st by (auto simp: stage_chunk_def)
    then show ?thesis using ok assms(2) by (intro exI[of _ "[]"]) simp
  next
    case fresh
    define ix where "ix = (pd_head e + pd_count e) mod kPdWindow"
    obtain bs r1 where pp: "pop psz r = (bs, r1)" by force
    have P: "invar r1" "bs = take psz (contents r)" "contents r = bs @ contents r1"
      using pop_takes[OF assms(2) pp] by simp_all
    have lb: "length bs \<le> psz" unfolding P(2) by simp
    define slot where "slot = (slots e ! ix)\<lparr>slot_len := of_nat (length bs),
        slot_payload := put_bytes 0 bs (slot_payload (slots e ! ix))\<rparr>"
    have ix: "ix < 2" by (simp add: ix_def)
    have ixj: "(pd_head e + j) mod 2 \<noteq> ix" if "j < pd_count e" for j
      unfolding ix_def using mod_differ[of "pd_head e + j" "pd_head e + pd_count e" 2] that fresh(3) by simp
    have lp: "length (slot_payload (slots e ! ix)) = psz" using S(9) S(2) ix by simp
    have len: "unat (slot_len slot) = length bs"
      using lb psz by (simp add: slot_def unat_of_nat)
    have pay: "length (slot_payload slot) = psz" "take (length bs) (slot_payload slot) = bs"
      using lb lp by (simp_all add: slot_def) (simp add: put_bytes_def)
    have keep: "slots e ! ((pd_head e + j) mod 2) = (slots e)[ix := z] ! ((pd_head e + j) mod 2)"
      if "j < pd_count e" for j z
      using ixj[OF that] by simp
    have pl: "\<And>z sl. length (slot_payload z) = psz \<Longrightarrow> sl \<in> set ((slots e)[ix := z]) \<Longrightarrow> length (slot_payload sl) = psz"
      using S(9) set_update_subset_insert by fast
    show ?thesis
    proof (cases "bs = []")
      case True
      then have e: "out = None" "e' = e\<lparr>slots := (slots e)[ix := slot]\<rparr>" "r' = r1"
        using st fresh pp by (simp_all add: stage_chunk_def ix_def slot_def Let_def)
      have "sender_ok psz e' C b"
        using ok keep pl[OF pay(1)] by (simp add: sender_ok_def e slot_at_def)
      then show ?thesis using P(1,3) True by (intro exI[of _ "[]"]) (simp add: e)
    next
      case False
      then have z: "slot_len slot \<noteq> 0" using len by (metis length_0_conv unat_0)
      let ?sl = "slot\<lparr>slot_seq := next_seq (tx_seq e)\<rparr>"
      have e: "out = Some (pd_count e)" "r' = r1"
        "e' = e\<lparr>tx_seq := next_seq (tx_seq e), slots := (slots e)[ix := ?sl],
                  pd_count := pd_count e + 1, send_offset := pd_count e + 1, may_stage := False\<rparr>"
        using st fresh pp z by (simp_all add: stage_chunk_def ix_def slot_def Let_def)
      have new: "slot_has ?sl bs (length C + 1)"
        using len pay(2) S(1) by (simp add: slot_has_def seqof_Suc)
      have "slot_has (slot_at e' j) ((C @ [bs]) ! (b + j)) (b + j + 1)" if "j < pd_count e'" for j
      proof (cases "j < pd_count e")
        case True
        then show ?thesis using S(8)[OF True] S(5) keep[OF True] by (simp add: e slot_at_def nth_append)
      next
        case F: False
        then have "j = pd_count e" using that by (simp add: e)
        then show ?thesis using new S(2,5) ix by (simp add: e slot_at_def nth_append ix_def)
      qed
      moreover have "length (slot_payload ?sl) = psz" using pay(1) by simp
      ultimately have "sender_ok psz e' (C @ [bs]) b"
        using S(1-7,10) fresh(3) False lb pl[of ?sl] unfolding sender_ok_def by (simp add: e seqof_Suc)
      then show ?thesis using P(1,3) False by (intro exI[of _ "[bs]"]) (simp add: e)
    qed
  qed
qed

end

lemma repaint_ok:
  assumes "sender_ok psz e C b" "repaint_chunk cr out e = (out', e')" "\<forall>j. out = Some j \<longrightarrow> j < pd_count e"
  shows "sender_ok psz e' C b \<and> rx_ack e' = rx_ack e \<and> peer_ack e' = peer_ack e \<and> (\<forall>j. out' = Some j \<longrightarrow> j < pd_count e')"
  using assms
  by (auto simp: repaint_chunk_def Let_def sender_ok_def slot_at_def split: if_splits)

section \<open>Images\<close>

text \<open>An image carries chunk \<open>i\<close>, or no data.\<close>

definition data_is :: "8 word list list \<Rightarrow> nat option \<Rightarrow> 8 word list \<Rightarrow> bool" where
  "data_is C io pd = (case io of None \<Rightarrow> pd_get_len pd = 0
     | Some i \<Rightarrow> 0 < i \<and> i \<le> length C \<and> byte_at pd 0 = seqof i
         \<and> unat (pd_get_len pd) = length (C ! (i - 1)) \<and> get_bytes pd 4 (length (C ! (i - 1))) = C ! (i - 1))"

lemma data_is_more: "data_is C io pd \<Longrightarrow> data_is (C @ cs) io pd"
  by (auto simp: data_is_def nth_append split: option.splits)

lemma write_image_ok:
  assumes "sender_ok psz e C b" "\<forall>j. out = Some j \<longrightarrow> j < pd_count e" "length pd = psz + 4"
  shows "length (write_image out e pd) = psz + 4 \<and> byte_at (write_image out e pd) 1 = rx_ack e
    \<and> data_is C (map_option (\<lambda>j. b + j + 1) out) (write_image out e pd)"
proof (cases out)
  case None
  have l: "length (put_bytes 0 [tx_seq e] (put_bytes 1 [rx_ack e] pd)) = psz + 4" using assms(3) by simp
  show ?thesis
    using l assms(3) by (simp add: None write_image_def Let_def data_is_def pd_get_len_def byte_at_put_bytes get16_def
        le16_bytes_def le16_def)
next
  case (Some j)
  have j: "j < pd_count e" using assms(2) Some by simp
  let ?sl = "slot_at e j" and ?c = "C ! (b + j)"
  have sl: "slot_seq ?sl = seqof (b + j + 1)" "unat (slot_len ?sl) = length ?c" "take (length ?c) (slot_payload ?sl) = ?c"
    using assms(1) j by (auto simp: sender_ok_def slot_has_def)
  have n: "b + j < length C" using assms(1) j by (simp add: sender_ok_def)
  then have c: "length ?c \<le> psz" using assms(1) by (simp add: sender_ok_def)
  let ?p1 = "put_bytes 1 [rx_ack e] pd"
  let ?p2 = "put_bytes 0 [slot_seq ?sl] ?p1"
  let ?p3 = "put_bytes 2 (le16_bytes (slot_len ?sl)) ?p2"
  have w: "write_image (Some j) e pd = put_bytes 4 ?c ?p3" using sl by (simp add: write_image_def Let_def)
  have l1: "length ?p1 = psz + 4" using assms(3) by simp
  have l2: "length ?p2 = psz + 4" using l1 by simp
  have l3: "length ?p3 = psz + 4" using l2 by (simp add: le16_bytes_def)
  have l4: "4 + length ?c \<le> length ?p3" using l3 c by simp
  have g: "get16 (put_bytes 4 ?c ?p3) 2 = get16 ?p3 2"
    using l4 by (simp add: get16_def byte_at_put_bytes)
  have g3: "get16 ?p3 2 = slot_len ?sl"
    using l2 by (simp add: get16_put16)
  show ?thesis
    using l1 l2 l3 l4 assms(3) sl n g g3
    by (simp add: w Some data_is_def pd_get_len_def byte_at_put_bytes le16_bytes_def)
qed

lemma sender_ok_view:
  "sender_ok psz (e\<lparr>rx_ack := w\<rparr>) C b = sender_ok psz e C b"
  "sender_ok psz (e\<lparr>peer_ack := w\<rparr>) C b = sender_ok psz e C b"
  "sender_ok psz (e\<lparr>may_stage := m\<rparr>) C b = sender_ok psz e C b"
  by (simp_all add: sender_ok_def slot_at_def)

section \<open>Two sides and what lies between them\<close>

text \<open>
  \<open>wire x\<close> are the images side \<open>x\<close> has written, from the one its peer reads next on: reading does not
  remove an image, and \<open>Skip\<close> drops the oldest when a newer one has overwritten it or the frame was
  lost.  \<open>fed\<close> and \<open>drained\<close> record what the user of a side has put into its source ring and taken
  out of its sink ring.
\<close>

record 'r pd_side =
  ep :: pd_endpoint
  src :: 'r
  sink :: 'r
  wire :: "8 word list list"
  fed :: "8 word list"
  drained :: "8 word list"

datatype pd_event = Build | Skip | Deliver | Feed "8 word list" | Drain nat

definition side_build :: "nat \<Rightarrow> (nat \<Rightarrow> 'r \<Rightarrow> 8 word list \<times> 'r) \<Rightarrow> 'r pd_side \<Rightarrow> 'r pd_side" where
  "side_build psz pop x = (let (pd, e, r) = build_own_chunk psz pop (last (wire x)) (ep x) (src x) in
     x\<lparr>ep := e, src := r, wire := wire x @ [pd]\<rparr>)"

definition side_skip :: "'r pd_side \<Rightarrow> 'r pd_side" where
  "side_skip x = (if tl (wire x) = [] then x else x\<lparr>wire := tl (wire x)\<rparr>)"

definition side_deliver :: "nat \<Rightarrow> (8 word list \<Rightarrow> 'r \<Rightarrow> 'r option) \<Rightarrow> 8 word list \<Rightarrow> 'r pd_side \<Rightarrow> 'r pd_side" where
  "side_deliver psz push pd x = (let (e, r) = on_peer_chunk psz push pd (ep x) (sink x) in x\<lparr>ep := e, sink := r\<rparr>)"

definition side_feed :: "(8 word list \<Rightarrow> 'r \<Rightarrow> 'r option) \<Rightarrow> 8 word list \<Rightarrow> 'r pd_side \<Rightarrow> 'r pd_side" where
  "side_feed push bs x = (case push bs (src x) of None \<Rightarrow> x | Some r \<Rightarrow> x\<lparr>src := r, fed := fed x @ bs\<rparr>)"

definition side_drain :: "(nat \<Rightarrow> 'r \<Rightarrow> 8 word list \<times> 'r) \<Rightarrow> nat \<Rightarrow> 'r pd_side \<Rightarrow> 'r pd_side" where
  "side_drain pop n x = (let (bs, r) = pop n (sink x) in x\<lparr>sink := r, drained := drained x @ bs\<rparr>)"

fun side_act :: "nat \<Rightarrow> (8 word list \<Rightarrow> 'r \<Rightarrow> 'r option) \<Rightarrow> (nat \<Rightarrow> 'r \<Rightarrow> 8 word list \<times> 'r) \<Rightarrow> pd_event
    \<Rightarrow> 'r pd_side \<Rightarrow> 'r pd_side \<Rightarrow> 'r pd_side" where
  "side_act psz push pop Build x y = side_build psz pop x"
| "side_act psz push pop Skip x y = side_skip x"
| "side_act psz push pop Deliver x y = side_deliver psz push (hd (wire y)) x"
| "side_act psz push pop (Feed bs) x y = side_feed push bs x"
| "side_act psz push pop (Drain n) x y = side_drain pop n x"

text \<open>\<open>(True, e)\<close> is a step of the first side.\<close>

definition link_step :: "nat \<Rightarrow> (8 word list \<Rightarrow> 'r \<Rightarrow> 'r option) \<Rightarrow> (nat \<Rightarrow> 'r \<Rightarrow> 8 word list \<times> 'r) \<Rightarrow> bool \<times> pd_event
    \<Rightarrow> 'r pd_side \<times> 'r pd_side \<Rightarrow> 'r pd_side \<times> 'r pd_side" where
  "link_step psz push pop = (\<lambda>(first, e) (x, y).
     if first then (side_act psz push pop e x y, y) else (x, side_act psz push pop e y x))"

definition link_run :: "nat \<Rightarrow> (8 word list \<Rightarrow> 'r \<Rightarrow> 'r option) \<Rightarrow> (nat \<Rightarrow> 'r \<Rightarrow> 8 word list \<times> 'r)
    \<Rightarrow> (bool \<times> pd_event) list \<Rightarrow> 'r pd_side \<times> 'r pd_side \<Rightarrow> 'r pd_side \<times> 'r pd_side" where
  "link_run psz push pop evs s = fold (link_step psz push pop) evs s"

text \<open>After a reset on both sides: blank images, nothing in flight.\<close>

definition blank_slots :: "nat \<Rightarrow> pd_slot list" where
  "blank_slots psz = replicate kPdWindow \<lparr>slot_seq = 0, slot_len = 0, slot_payload = replicate psz 0\<rparr>"

definition side_start :: "nat \<Rightarrow> pd_endpoint \<Rightarrow> 'r \<Rightarrow> 'r \<Rightarrow> 'r pd_side" where
  "side_start psz e r1 r2 = \<lparr>ep = endpoint_reset e, src = r1, sink = r2, wire = [replicate (psz + 4) 0], fed = [], drained = []\<rparr>"

section \<open>The invariant of one direction\<close>

definition near :: "nat option \<Rightarrow> nat option \<Rightarrow> bool" where
  "near p q = (\<forall>i j. p = Some i \<longrightarrow> q = Some j \<longrightarrow> i \<le> Suc j)"

text \<open>What \<open>x\<close> sends to \<open>y\<close>: chunks \<open>C\<close>, of which \<open>k\<close> have been taken, \<open>a\<close> are known to have been
  taken, and \<open>b\<close> have left the window.  \<open>ios\<close> are the chunk numbers on the wire of \<open>x\<close>, \<open>acks\<close> the
  acknowledgements on the wire of \<open>y\<close>.\<close>

definition flow :: "nat \<Rightarrow> 8 word list list \<Rightarrow> nat \<Rightarrow> nat \<Rightarrow> nat \<Rightarrow> nat option list \<Rightarrow> nat list
    \<Rightarrow> 'r pd_side \<Rightarrow> 'r pd_side \<Rightarrow> bool" where
  "flow psz C b k a ios acks x y = (sender_ok psz (ep x) C b \<and> peer_ack (ep x) = seqof a \<and> b \<le> a
     \<and> k \<le> length C \<and> rx_ack (ep y) = seqof k
     \<and> list_all2 (data_is C) ios (wire x) \<and> (\<forall>i. Some i \<in> set ios \<longrightarrow> k \<le> Suc i) \<and> sorted_wrt near ios
     \<and> map (\<lambda>pd. byte_at pd 1) (wire y) = map seqof acks \<and> sorted (a # acks @ [k]))"

definition images_ok :: "nat \<Rightarrow> 'r pd_side \<Rightarrow> bool" where
  "images_ok psz x = (wire x \<noteq> [] \<and> (\<forall>pd \<in> set (wire x). length pd = psz + 4))"

context byte_pipe
begin

definition flow_bytes :: "8 word list list \<Rightarrow> nat \<Rightarrow> 'q pd_side \<Rightarrow> 'q pd_side \<Rightarrow> bool" where
  "flow_bytes C k x y = (invar (src x) \<and> invar (sink y) \<and> fed x = concat C @ contents (src x)
     \<and> drained y @ contents (sink y) = concat (take k C))"

definition dir_ok :: "nat \<Rightarrow> 'q pd_side \<Rightarrow> 'q pd_side \<Rightarrow> bool" where
  "dir_ok psz x y = (\<exists>C b k a ios acks. flow psz C b k a ios acks x y \<and> flow_bytes C k x y)"

definition link_ok :: "nat \<Rightarrow> 'q pd_side \<times> 'q pd_side \<Rightarrow> bool" where
  "link_ok psz = (\<lambda>(x, y). dir_ok psz x y \<and> dir_ok psz y x \<and> images_ok psz x \<and> images_ok psz y)"

lemma build_ok:
  assumes ok: "sender_ok psz e C b" and a: "peer_ack e = seqof a" "b \<le> a" "a \<le> length C"
    and "invar r" "psz < 65536" "length pd = psz + 4" and bd: "build_own_chunk psz pop pd e r = (pd', e', r')"
  shows "\<exists>cs io. sender_ok psz e' (C @ cs) a \<and> invar r' \<and> contents r = concat cs @ contents r'
    \<and> rx_ack e' = rx_ack e \<and> peer_ack e' = peer_ack e \<and> length pd' = psz + 4 \<and> byte_at pd' 1 = rx_ack e
    \<and> data_is (C @ cs) io pd' \<and> (\<forall>i. io = Some i \<longrightarrow> a < i)"
proof -
  let ?e1 = "slide_window e"
  obtain o2 e2 r2 where st: "stage_chunk psz pop ?e1 r = (o2, e2, r2)" by (metis prod_cases3)
  obtain o3 e3 where rp: "repaint_chunk (may_stage ?e1) o2 e2 = (o3, e3)" by force
  have res: "pd' = write_image o3 e3 pd" "e' = e3" "r' = r2"
    using bd st rp by (auto simp: build_own_chunk_def Let_def)
  note s1 = slide_ok[OF ok a]
  obtain cs where cs: "sender_ok psz e2 (C @ cs) a" "invar r2" "contents r = concat cs @ contents r2"
    "rx_ack e2 = rx_ack e" "peer_ack e2 = peer_ack e" "\<forall>j. o2 = Some j \<longrightarrow> j < pd_count e2"
    using stage_ok[OF conjunct1[OF s1] assms(5,6) st] s1 by auto
  note s3 = repaint_ok[OF cs(1) rp cs(6)]
  have w: "length pd' = psz + 4 \<and> byte_at pd' 1 = rx_ack e3 \<and> data_is (C @ cs) (map_option (\<lambda>j. a + j + 1) o3) pd'"
    using write_image_ok[of psz e3 "C @ cs" a o3 pd] s3 assms(7) res(1) by simp
  show ?thesis
    using s3 w cs(2-5) res by (intro exI[of _ cs] exI[of _ "map_option (\<lambda>j. a + j + 1) o3"]) auto
qed

lemma receive_ok:
  assumes k: "rx_ack e = seqof k" and d: "data_is C io pd" and near: "\<And>i. io = Some i \<Longrightarrow> k \<le> Suc i \<and> i \<le> k + 2"
    and C: "\<forall>c \<in> set C. c \<noteq> [] \<and> length c \<le> psz" and "invar r"
    and rc: "on_peer_chunk psz push pd e r = (e', r')"
  shows "\<exists>k'. (k' = k \<or> k' = Suc k \<and> io = Some k') \<and> rx_ack e' = seqof k' \<and> invar r'
    \<and> contents r' = contents r @ concat (take (k' - k) (drop k C)) \<and> peer_ack e' = byte_at pd 1
    \<and> (\<forall>D b. sender_ok psz e' D b = sender_ok psz e D b)"
proof -
  let ?e1 = "e\<lparr>peer_ack := byte_at pd 1, may_stage := True\<rparr>"
  show ?thesis
  proof (cases "e' = ?e1 \<and> r' = r")
    case True
    then show ?thesis using k \<open>invar r\<close> by (intro exI[of _ k]) (simp add: sender_ok_view)
  next
    case False
    obtain r1 where pu: "push (get_bytes pd 4 (unat (pd_get_len pd))) r = Some r1"
      and sq: "byte_at pd 0 = next_seq (rx_ack e)" and len: "pd_get_len pd \<noteq> 0"
      and res: "e' = ?e1\<lparr>rx_ack := byte_at pd 0\<rparr>" "r' = r1"
      using rc False by (auto simp: on_peer_chunk_def Let_def split: if_splits option.splits)
    obtain i where i: "io = Some i" using d len by (auto simp: data_is_def split: option.splits)
    have D: "0 < i" "i \<le> length C" "byte_at pd 0 = seqof i" "unat (pd_get_len pd) = length (C ! (i - 1))"
      "get_bytes pd 4 (length (C ! (i - 1))) = C ! (i - 1)"
      using d i by (simp_all add: data_is_def)
    have "seqof i = seqof (Suc k)" using sq D(3) k by (simp add: seqof_Suc)
    then have ik: "i = Suc k" using seqof_inject[of i "Suc k"] near[OF i] by simp
    have "take 1 (drop k C) = [C ! k]" using D(2) ik by (simp add: take_Suc_conv_app_nth)
    moreover have "invar r1 \<and> contents r1 = contents r @ C ! k"
      using push_some[OF \<open>invar r\<close> pu] D(4,5) ik by simp
    ultimately show ?thesis
      using D(3) ik i res by (intro exI[of _ "Suc k"]) (simp add: sender_ok_view)
  qed
qed

lemma flow_le:
  assumes "flow psz C b k a ios acks x y"
  shows "b \<le> a" "a \<le> k" "k \<le> length C" "length C \<le> b + 2"
  using assms sender_bounds[of psz "ep x" C b] by (auto simp: flow_def)

lemma dir_okI: "flow psz C b k a ios acks x y \<Longrightarrow> flow_bytes C k x y \<Longrightarrow> dir_ok psz x y"
  unfolding dir_ok_def by blast

text \<open>Steps of the sending side.\<close>

lemma dir_build_snd:
  assumes "dir_ok psz x y" "images_ok psz x" "psz < 65536"
  shows "dir_ok psz (side_build psz pop x) y \<and> images_ok psz (side_build psz pop x)"
proof -
  obtain C b k a ios acks where F: "flow psz C b k a ios acks x y" and B: "flow_bytes C k x y"
    using assms(1) by (auto simp: dir_ok_def)
  obtain pd e r where bd: "build_own_chunk psz pop (last (wire x)) (ep x) (src x) = (pd, e, r)"
    by (metis prod_cases3)
  have lw: "length (last (wire x)) = psz + 4" using assms(2) by (simp add: images_ok_def)
  have S: "sender_ok psz (ep x) C b" "peer_ack (ep x) = seqof a" using F by (simp_all add: flow_def)
  note le = flow_le[OF F]
  have inv: "invar (src x)" using B by (simp add: flow_bytes_def)
  obtain cs io where R: "sender_ok psz e (C @ cs) a" "invar r" "contents (src x) = concat cs @ contents r"
    "rx_ack e = rx_ack (ep x)" "peer_ack e = peer_ack (ep x)" "length pd = psz + 4"
    "data_is (C @ cs) io pd" "\<And>i. io = Some i \<Longrightarrow> a < i"
    using build_ok[OF S le(1) _ inv assms(3) lw bd] le by auto
  let ?x = "side_build psz pop x"
  have x: "?x = x\<lparr>ep := e, src := r, wire := wire x @ [pd]\<rparr>" by (simp add: side_build_def bd)
  have n: "length (C @ cs) \<le> a + 2" using sender_bounds[OF R(1)] by simp
  have old: "i \<le> length C" if "Some i \<in> set ios" for i
    using F that unfolding flow_def by (auto simp: list_all2_conv_all_nth in_set_conv_nth data_is_def split: option.splits)
  have new: "k \<le> Suc i \<and> length C \<le> Suc i" if "io = Some i" for i
    using R(8)[OF that] le n by linarith
  have "list_all2 (data_is (C @ cs)) (ios @ [io]) (wire x @ [pd])"
    using F R(7) unfolding flow_def by (auto intro: list_all2_appendI list.rel_mono_strong data_is_more)
  moreover have "sorted_wrt near (ios @ [io])"
    using F old new unfolding flow_def by (fastforce simp: sorted_wrt_append near_def)
  moreover have "\<forall>i. Some i \<in> set (ios @ [io]) \<longrightarrow> k \<le> Suc i"
    using F new by (auto simp: flow_def)
  ultimately have "flow psz (C @ cs) a k a (ios @ [io]) acks ?x y"
    using F R(1,5) le unfolding flow_def x by simp
  moreover have "flow_bytes (C @ cs) k ?x y"
    using B R(2,3) le(3) by (simp add: flow_bytes_def x)
  ultimately show ?thesis
    using assms(2) R(6) dir_okI by (auto simp: images_ok_def x)
qed

lemma dir_skip_snd:
  assumes "dir_ok psz x y" "images_ok psz x"
  shows "dir_ok psz (side_skip x) y \<and> images_ok psz (side_skip x)"
proof (cases "tl (wire x) = []")
  case True
  then show ?thesis using assms by (simp add: side_skip_def)
next
  case False
  obtain C b k a ios acks where F: "flow psz C b k a ios acks x y" and B: "flow_bytes C k x y"
    using assms(1) by (auto simp: dir_ok_def)
  obtain pd ws where w: "wire x = pd # ws" using assms(2) by (cases "wire x") (auto simp: images_ok_def)
  obtain io jos where io: "ios = io # jos" using F w by (cases ios) (auto simp: flow_def)
  have "flow psz C b k a jos acks (side_skip x) y" "flow_bytes C k (side_skip x) y"
    using F B w io False by (simp_all add: flow_def flow_bytes_def side_skip_def)
  moreover have "images_ok psz (side_skip x)" using assms(2) w False by (simp add: images_ok_def side_skip_def)
  ultimately show ?thesis using dir_okI by blast
qed

lemma dir_deliver_snd:
  assumes "dir_ok psz x y" "images_ok psz y" "\<And>D b. sender_ok psz e D b = sender_ok psz (ep x) D b"
    "peer_ack e = byte_at (hd (wire y)) 1"
  shows "dir_ok psz (x\<lparr>ep := e, sink := r\<rparr>) y"
proof -
  obtain C b k a ios acks where F: "flow psz C b k a ios acks x y" and B: "flow_bytes C k x y"
    using assms(1) by (auto simp: dir_ok_def)
  obtain pd ws where w: "wire y = pd # ws" using assms(2) by (cases "wire y") (auto simp: images_ok_def)
  obtain a' acks1 where as: "acks = a' # acks1" "byte_at pd 1 = seqof a'" using F w by (cases acks) (auto simp: flow_def)
  have "flow psz C b k a' ios acks (x\<lparr>ep := e, sink := r\<rparr>) y" "flow_bytes C k (x\<lparr>ep := e, sink := r\<rparr>) y"
    using F B assms(3,4) w as by (auto simp: flow_def flow_bytes_def)
  then show ?thesis by (rule dir_okI)
qed

lemma dir_feed_snd:
  assumes "dir_ok psz x y"
  shows "dir_ok psz (side_feed push bs x) y"
proof (cases "push bs (src x)")
  case None
  then show ?thesis using assms by (simp add: side_feed_def)
next
  case (Some r)
  obtain C b k a ios acks where F: "flow psz C b k a ios acks x y" and B: "flow_bytes C k x y"
    using assms(1) by (auto simp: dir_ok_def)
  have "invar r \<and> contents r = contents (src x) @ bs"
    using push_some[OF _ Some] B by (simp add: flow_bytes_def)
  then have "flow psz C b k a ios acks (side_feed push bs x) y" "flow_bytes C k (side_feed push bs x) y"
    using F B Some by (simp_all add: flow_def flow_bytes_def side_feed_def)
  then show ?thesis by (rule dir_okI)
qed

lemma dir_drain_snd: "dir_ok psz x y \<Longrightarrow> dir_ok psz (side_drain pop n x) y"
  by (simp add: dir_ok_def flow_def flow_bytes_def side_drain_def case_prod_unfold Let_def)

text \<open>Steps of the receiving side.\<close>

lemma dir_build_rcv:
  assumes "dir_ok psz y x" "build_own_chunk psz pop (last (wire x)) (ep x) (src x) = (pd, e, r)"
    "rx_ack e = rx_ack (ep x)" "byte_at pd 1 = rx_ack (ep x)"
  shows "dir_ok psz y (side_build psz pop x)"
proof -
  obtain C b k a ios acks where F: "flow psz C b k a ios acks y x" and B: "flow_bytes C k y x"
    using assms(1) by (auto simp: dir_ok_def)
  have "flow psz C b k a ios (acks @ [k]) y (side_build psz pop x)" "flow_bytes C k y (side_build psz pop x)"
    using F B assms(2-4) by (auto simp: flow_def flow_bytes_def side_build_def sorted_append)
  then show ?thesis by (rule dir_okI)
qed

lemma dir_skip_rcv:
  assumes "dir_ok psz y x" "images_ok psz x"
  shows "dir_ok psz y (side_skip x)"
proof (cases "tl (wire x) = []")
  case True
  then show ?thesis using assms by (simp add: side_skip_def)
next
  case False
  obtain C b k a ios acks where F: "flow psz C b k a ios acks y x" and B: "flow_bytes C k y x"
    using assms(1) by (auto simp: dir_ok_def)
  obtain pd ws where w: "wire x = pd # ws" using assms(2) by (cases "wire x") (auto simp: images_ok_def)
  obtain a' acks1 where as: "acks = a' # acks1" using F w by (cases acks) (auto simp: flow_def)
  have "flow psz C b k a ios acks1 y (side_skip x)" "flow_bytes C k y (side_skip x)"
    using F B w as False by (auto simp: flow_def flow_bytes_def side_skip_def)
  then show ?thesis by (rule dir_okI)
qed

lemma dir_deliver_rcv:
  assumes "dir_ok psz y x" "images_ok psz y" "on_peer_chunk psz push (hd (wire y)) (ep x) (sink x) = (e, r)"
  shows "dir_ok psz y (x\<lparr>ep := e, sink := r\<rparr>) \<and> peer_ack e = byte_at (hd (wire y)) 1
    \<and> (\<forall>D b. sender_ok psz e D b = sender_ok psz (ep x) D b)"
proof -
  obtain C b k a ios acks where F: "flow psz C b k a ios acks y x" and B: "flow_bytes C k y x"
    using assms(1) by (auto simp: dir_ok_def)
  obtain pd ws where w: "wire y = pd # ws" using assms(2) by (cases "wire y") (auto simp: images_ok_def)
  obtain io jos where io: "ios = io # jos" using F w by (cases ios) (auto simp: flow_def)
  note le = flow_le[OF F]
  have d: "data_is C io pd" and rk: "rx_ack (ep x) = seqof k" and inv: "invar (sink x)"
    and C: "\<forall>c \<in> set C. c \<noteq> [] \<and> length c \<le> psz"
    using F B w io by (auto simp: flow_def flow_bytes_def sender_ok_def)
  have near: "k \<le> Suc i \<and> i \<le> k + 2" if "io = Some i" for i
    using F io that d le by (auto simp: flow_def data_is_def)
  have rc: "on_peer_chunk psz push pd (ep x) (sink x) = (e, r)" using assms(3) w by simp
  obtain k' where K: "k' = k \<or> k' = Suc k \<and> io = Some k'" "rx_ack e = seqof k'" "invar r"
    "contents r = contents (sink x) @ concat (take (k' - k) (drop k C))" "peer_ack e = byte_at pd 1"
    "\<forall>D b. sender_ok psz e D b = sender_ok psz (ep x) D b"
    using receive_ok[OF rk d near C inv rc] by blast
  have k'n: "k' \<le> length C" using K(1) le d by (auto simp: data_is_def)
  have new: "k' \<le> Suc i" if "Some i \<in> set ios" for i
  proof (cases "k' = k")
    case True
    then show ?thesis using F that by (auto simp: flow_def)
  next
    case False
    then have "io = Some k'" using K(1) by blast
    then show ?thesis using F io that by (auto simp: flow_def near_def)
  qed
  have kk: "k \<le> k'" using K(1) by auto
  have "sorted (a # acks @ [k'])" using F kk by (auto simp: flow_def sorted_append)
  then have "flow psz C b k' a ios acks y (x\<lparr>ep := e, sink := r\<rparr>)"
    using F K(2) k'n new by (simp add: flow_def)
  moreover have "concat (take k C) @ concat (take (k' - k) (drop k C)) = concat (take k' C)"
    using kk by (metis concat_append le_add_diff_inverse take_add)
  then have "flow_bytes C k' y (x\<lparr>ep := e, sink := r\<rparr>)"
    using B K(3,4) by (simp add: flow_bytes_def) (metis append.assoc)
  ultimately show ?thesis using K(5,6) w dir_okI by simp
qed

lemma dir_feed_rcv: "dir_ok psz y x \<Longrightarrow> dir_ok psz y (side_feed push bs x)"
  by (simp add: dir_ok_def flow_def flow_bytes_def side_feed_def split: option.splits)

lemma dir_drain_rcv:
  assumes "dir_ok psz y x"
  shows "dir_ok psz y (side_drain pop n x)"
proof -
  obtain C b k a ios acks where F: "flow psz C b k a ios acks y x" and B: "flow_bytes C k y x"
    using assms(1) by (auto simp: dir_ok_def)
  obtain bs r where p: "pop n (sink x) = (bs, r)" by force
  have "invar r" "bs @ contents r = contents (sink x)"
    using pop_takes[OF _ p] pop_append[OF _ p] B by (auto simp: flow_bytes_def)
  then have "flow psz C b k a ios acks y (side_drain pop n x)" "flow_bytes C k y (side_drain pop n x)"
    using F B p by (simp_all add: flow_def flow_bytes_def side_drain_def)
  then show ?thesis by (rule dir_okI)
qed

text \<open>All steps.\<close>

lemma act_ok:
  assumes "dir_ok psz x y" "dir_ok psz y x" "images_ok psz x" "images_ok psz y" "psz < 65536"
  shows "dir_ok psz (side_act psz push pop e x y) y \<and> dir_ok psz y (side_act psz push pop e x y)
    \<and> images_ok psz (side_act psz push pop e x y)"
proof (cases e)
  case Build
  obtain pd e' r where bd: "build_own_chunk psz pop (last (wire x)) (ep x) (src x) = (pd, e', r)"
    by (metis prod_cases3)
  obtain C b k a ios acks where F: "flow psz C b k a ios acks x y" and B: "flow_bytes C k x y"
    using assms(1) by (auto simp: dir_ok_def)
  note le = flow_le[OF F]
  have pre: "sender_ok psz (ep x) C b" "peer_ack (ep x) = seqof a" "invar (src x)" "length (last (wire x)) = psz + 4"
    using F B assms(3) by (auto simp: flow_def flow_bytes_def images_ok_def)
  have "rx_ack e' = rx_ack (ep x)" "byte_at pd 1 = rx_ack (ep x)"
    using build_ok[OF pre(1,2) le(1) _ pre(3) assms(5) pre(4) bd] le by auto
  then show ?thesis
    using dir_build_snd[OF assms(1,3,5)] dir_build_rcv[OF assms(2) bd] Build by simp
next
  case Skip
  then show ?thesis using dir_skip_snd[OF assms(1,3)] dir_skip_rcv[OF assms(2,3)] by simp
next
  case Deliver
  obtain e' r where d: "on_peer_chunk psz push (hd (wire y)) (ep x) (sink x) = (e', r)" by force
  note R = dir_deliver_rcv[OF assms(2,4) d]
  have "dir_ok psz (x\<lparr>ep := e', sink := r\<rparr>) y" using dir_deliver_snd[OF assms(1,4)] R by blast
  then show ?thesis using R assms(3) Deliver d by (simp add: side_deliver_def images_ok_def)
next
  case (Feed bs)
  have "images_ok psz (side_feed push bs x)"
    using assms(3) by (simp add: images_ok_def side_feed_def split: option.splits)
  then show ?thesis using dir_feed_snd[OF assms(1)] dir_feed_rcv[OF assms(2)] Feed by simp
next
  case (Drain n)
  have "images_ok psz (side_drain pop n x)"
    using assms(3) by (simp add: images_ok_def side_drain_def case_prod_unfold Let_def)
  then show ?thesis using dir_drain_snd[OF assms(1)] dir_drain_rcv[OF assms(2)] Drain by simp
qed

lemma link_step_ok:
  assumes "link_ok psz s" "psz < 65536"
  shows "link_ok psz (link_step psz push pop ev s)"
proof -
  obtain x y where s: "s = (x, y)" by force
  obtain f e where ev: "ev = (f, e)" by force
  show ?thesis
    using act_ok[of psz x y e] act_ok[of psz y x e] assms by (auto simp: s ev link_step_def link_ok_def)
qed

lemma link_run_ok:
  assumes "link_ok psz s" "psz < 65536"
  shows "link_ok psz (link_run psz push pop evs s)"
  using assms(1) unfolding link_run_def
  by (induction evs rule: rev_induct) (simp_all add: link_step_ok assms(2))

definition side_fresh :: "nat \<Rightarrow> 'q pd_side \<Rightarrow> bool" where
  "side_fresh psz x = (\<exists>e r1 r2. x = side_start psz e r1 r2 \<and> length (slots e) = kPdWindow
     \<and> (\<forall>sl \<in> set (slots e). length (slot_payload sl) = psz)
     \<and> invar r1 \<and> invar r2 \<and> contents r1 = [] \<and> contents r2 = [])"

lemma fresh_ok:
  assumes "side_fresh psz x" "side_fresh psz y"
  shows "link_ok psz (x, y)"
proof -
  have z: "byte_at (replicate (psz + 4) 0) 1 = 0" "pd_get_len (replicate (psz + 4) 0) = 0"
    by (simp_all add: byte_at_def pd_get_len_def get16_def le16_def)
  have dir: "dir_ok psz x y" if f: "side_fresh psz x" "side_fresh psz y" for x y
  proof -
    have "flow psz [] 0 0 0 [None] [0] x y" "flow_bytes [] 0 x y"
      using f z by (auto simp: side_fresh_def side_start_def flow_def flow_bytes_def sender_ok_def endpoint_reset_def data_is_def)
    then show ?thesis by (rule dir_okI)
  qed
  have "images_ok psz x" "images_ok psz y"
    using assms by (auto simp: side_fresh_def side_start_def images_ok_def)
  then show ?thesis using dir[OF assms] dir[OF assms(2,1)] by (simp add: link_ok_def)
qed

text \<open>Every byte is in exactly one place, in order.\<close>

lemma dir_exactly_once:
  assumes "dir_ok psz x y"
  shows "\<exists>cs. fed x = drained y @ contents (sink y) @ concat cs @ contents (src x)
    \<and> length cs \<le> kPdWindow \<and> (\<forall>c \<in> set cs. length c \<le> psz)"
proof -
  obtain C b k a ios acks where F: "flow psz C b k a ios acks x y" and B: "flow_bytes C k x y"
    using assms by (auto simp: dir_ok_def)
  note le = flow_le[OF F]
  have "concat (take k C) @ concat (drop k C) = concat C" by (metis append_take_drop_id concat_append)
  then have "fed x = drained y @ contents (sink y) @ concat (drop k C) @ contents (src x)"
    using B by (simp add: flow_bytes_def) (metis append.assoc)
  moreover have "length (drop k C) \<le> kPdWindow" using le by simp
  moreover have "\<forall>c \<in> set (drop k C). length c \<le> psz"
    using F by (auto simp: flow_def sender_ok_def dest: in_set_dropD)
  ultimately show ?thesis by blast
qed

lemma dir_bounds:
  assumes "dir_ok psz x y"
  shows "pd_count (ep x) \<le> kPdWindow \<and> send_offset (ep x) \<le> pd_count (ep x) \<and> stall (ep x) < kGoBackStallFrames
    \<and> pd_head (ep x) < kPdWindow"
  using assms by (auto simp: dir_ok_def flow_def sender_ok_def)

end

end
