(* ===== verification/PdLive.thy ===== *)
theory PdLive
  imports PdLink
begin

text \<open>
  Recovery: whatever has been lost before, frames that are not lost deliver.  A frame reads the
  newest image of each side and delivers it to the other, whose user has emptied its sink ring
  before; then both sides build their next image.
\<close>

definition frame_events :: "nat \<Rightarrow> 'r pd_side \<times> 'r pd_side \<Rightarrow> (bool \<times> pd_event) list" where
  "frame_events N = (\<lambda>(x, y).
     replicate (length (wire x)) (True, Skip) @ replicate (length (wire y)) (False, Skip)
     @ [(True, Drain N), (False, Drain N), (True, Deliver), (False, Deliver), (True, Build), (False, Build)])"

definition link_frame :: "nat \<Rightarrow> (8 word list \<Rightarrow> 'r \<Rightarrow> 'r option) \<Rightarrow> (nat \<Rightarrow> 'r \<Rightarrow> 8 word list \<times> 'r) \<Rightarrow> nat
    \<Rightarrow> 'r pd_side \<times> 'r pd_side \<Rightarrow> 'r pd_side \<times> 'r pd_side" where
  "link_frame psz push pop N s = link_run psz push pop (frame_events N s) s"

section \<open>What a build does when a frame has passed\<close>

lemma stage_credit:
  assumes "may_stage e" "stage_chunk psz pop e r = (out, e', r')" "pd_count e \<le> 2" "send_offset e \<le> pd_count e"
  shows "pd_head e' = pd_head e \<and> (case out of
      Some j \<Rightarrow> send_offset e' = j + 1 \<and> 0 < pd_count e'
          \<and> (send_offset e < pd_count e \<longrightarrow> j = send_offset e \<and> pd_count e' = pd_count e)
    | None \<Rightarrow> send_offset e' = send_offset e \<and> send_offset e = pd_count e \<and> pd_count e' = pd_count e
          \<and> stall e' = stall e \<and> (pd_count e < 2 \<longrightarrow> of_nat (length (fst (pop psz r))) = (0 :: 16 word)))"
  using assms by (auto simp: stage_chunk_def Let_def case_prod_unfold split: if_splits)

lemma repaint_credit:
  assumes "repaint_chunk True out e = (out', e')"
  shows "pd_count e' = pd_count e \<and> pd_head e' = pd_head e \<and> slots e' = slots e \<and>
    (case out of Some j \<Rightarrow> out' = Some j \<and> e' = e
     | None \<Rightarrow> if pd_count e = 0 then out' = None \<and> e' = e
         else if 3 \<le> stall e then out' = None \<and> send_offset e' = 0 \<and> stall e' = 0
         else send_offset e' = send_offset e \<and> stall e' = stall e + 1
            \<and> out' = (if send_offset e = 0 then None else Some (send_offset e - 1)))"
  using assms by (auto simp: repaint_chunk_def Let_def split: if_splits option.splits)

lemma slide_fields:
  assumes "sender_ok psz e C b" "peer_ack e = seqof a" "b \<le> a" "a \<le> length C"
  shows "pd_count (slide_window e) = length C - a"
    and "a = b \<Longrightarrow> slide_window e = e"
  using acked_prefix_eq[OF assms] assms by (auto simp: slide_window_def Let_def sender_ok_def)

context byte_pipe
begin

text \<open>The image painted last shows the chunk at the send offset.\<close>

definition painted :: "8 word list list \<Rightarrow> nat \<Rightarrow> pd_endpoint \<Rightarrow> 8 word list \<Rightarrow> bool" where
  "painted C b e pd = data_is C (if pd_count e = 0 \<or> send_offset e = 0 then None else Some (b + send_offset e)) pd"

lemma build_credit:
  assumes ok: "sender_ok psz e C b" and a: "peer_ack e = seqof a" "b \<le> a" "a \<le> length C"
    and r: "invar r" and psz: "psz < 65536" "0 < psz" and l: "length pd = psz + 4" and credit: "may_stage e"
    and bd: "build_own_chunk psz pop pd e r = (pd', e', r')"
  shows "\<exists>cs. sender_ok psz e' (C @ cs) a \<and> invar r' \<and> contents r = concat cs @ contents r'
    \<and> rx_ack e' = rx_ack e \<and> peer_ack e' = peer_ack e \<and> length pd' = psz + 4 \<and> byte_at pd' 1 = rx_ack e
    \<and> painted (C @ cs) a e' pd' \<and> (pd_count e' = 0 \<longrightarrow> a = length C \<and> contents r = [])
    \<and> (a = b \<longrightarrow> a < length C \<longrightarrow> send_offset e = 0 \<longrightarrow> send_offset e' = 1)
    \<and> (a = b \<longrightarrow> length C = a + 2 \<longrightarrow> send_offset e = 2 \<longrightarrow>
         send_offset e' = 2 \<and> stall e' = stall e + 1 \<or> send_offset e' = 0)"
proof -
  let ?e1 = "slide_window e"
  obtain o2 e2 r2 where st: "stage_chunk psz pop ?e1 r = (o2, e2, r2)" by (metis prod_cases3)
  note s1 = slide_ok[OF ok a]
  have cr: "may_stage ?e1" using s1 credit by simp
  obtain o3 e3 where rp: "repaint_chunk True o2 e2 = (o3, e3)" by force
  have res: "pd' = write_image o3 e3 pd" "e' = e3" "r' = r2"
    using bd st rp cr by (auto simp: build_own_chunk_def Let_def)
  obtain cs where cs: "sender_ok psz e2 (C @ cs) a" "invar r2" "contents r = concat cs @ contents r2"
    "rx_ack e2 = rx_ack e" "peer_ack e2 = peer_ack e" "\<forall>j. o2 = Some j \<longrightarrow> j < pd_count e2"
    using stage_ok[OF conjunct1[OF s1] r psz(1) st] s1 by auto
  note s3 = repaint_ok[OF cs(1) rp cs(6)]
  have w: "length pd' = psz + 4 \<and> byte_at pd' 1 = rx_ack e3 \<and> data_is (C @ cs) (map_option (\<lambda>j. a + j + 1) o3) pd'"
    using write_image_ok[of psz e3 "C @ cs" a o3 pd] s3 l res(1) by simp
  have c1: "pd_count ?e1 \<le> 2" "send_offset ?e1 \<le> pd_count ?e1" using s1 by (auto simp: sender_ok_def)
  note SC = stage_credit[OF cr st c1]
  note RC = repaint_credit[OF rp]
  have sf: "pd_count ?e1 = length C - a" "a = b \<Longrightarrow> ?e1 = e" using slide_fields[OF ok a] by blast+
  have none: "pd_count e3 = 0 \<Longrightarrow> a = length C \<and> contents r = []"
  proof -
    assume z: "pd_count e3 = 0"
    then have o2: "o2 = None" using SC RC by (cases o2) auto
    then have z1: "pd_count ?e1 = 0" using SC RC z by auto
    obtain bs r9 where pp: "pop psz r = (bs, r9)" by force
    have bs: "bs = take psz (contents r)" using pop_takes[OF r pp] by simp
    have "of_nat (length bs) = (0 :: 16 word)" using SC o2 z1 pp by simp
    moreover have "length bs < 65536" using bs psz(1) by simp
    moreover from this have "unat (of_nat (length bs) :: 16 word) = length bs" by (simp add: unat_of_nat)
    ultimately have "bs = []" by simp
    then show "a = length C \<and> contents r = []" using z1 sf(1) a(3) bs psz(2) by auto
  qed
  have so: "send_offset e3 = (case o3 of Some j \<Rightarrow> j + 1 | None \<Rightarrow> 0)" if "0 < pd_count e3"
    using SC RC that by (cases o2) (auto split: if_splits)
  have idle: "pd_count e3 = 0 \<Longrightarrow> o3 = None" using s3 by (cases o3) auto
  have p: "painted (C @ cs) a e3 pd'"
    using w so idle by (cases "pd_count e3 = 0") (auto simp: painted_def split: option.splits)
  have re: "a = b \<longrightarrow> a < length C \<longrightarrow> send_offset e = 0 \<longrightarrow> send_offset e3 = 1"
    using SC RC sf by (cases o2) auto
  have full: "a = b \<longrightarrow> length C = a + 2 \<longrightarrow> send_offset e = 2 \<longrightarrow>
         send_offset e3 = 2 \<and> stall e3 = stall e + 1 \<or> send_offset e3 = 0"
  proof (intro impI)
    assume f: "a = b" "length C = a + 2" "send_offset e = 2"
    then have "o2 = None" using st sf by (simp add: stage_chunk_def)
    then show "send_offset e3 = 2 \<and> stall e3 = stall e + 1 \<or> send_offset e3 = 0"
      using SC RC sf f by (auto split: if_splits)
  qed
  show ?thesis
    using s3 w cs(2-5) res none p re full by (intro exI[of _ cs]) simp
qed

section \<open>One frame\<close>

definition frame_side :: "nat \<Rightarrow> nat \<Rightarrow> 8 word list \<Rightarrow> 'q pd_side \<Rightarrow> 'q pd_side" where
  "frame_side psz N pd x = side_build psz pop (side_deliver psz push pd (side_drain pop N (x\<lparr>wire := [last (wire x)]\<rparr>)))"

lemma skip_many:
  assumes "wire x \<noteq> []" "length (wire x) \<le> n"
  shows "(side_skip ^^ n) x = x\<lparr>wire := [last (wire x)]\<rparr>"
  using assms
proof (induction n arbitrary: x)
  case 0
  then show ?case by simp
next
  case (Suc n)
  obtain pd ws where w: "wire x = pd # ws" using Suc.prems(1) by (cases "wire x") auto
  have f: "(side_skip ^^ Suc n) x = (side_skip ^^ n) (side_skip x)" by (simp only: funpow_Suc_right comp_apply)
  show ?case
  proof (cases "ws = []")
    case True
    have id: "side_skip x = x" using w True by (simp add: side_skip_def)
    have "(side_skip ^^ n) x = x" using id by (induction n) simp_all
    then show ?thesis unfolding f id using w True by simp
  next
    case False
    have sk: "side_skip x = x\<lparr>wire := ws\<rparr>" using w False by (simp add: side_skip_def)
    show ?thesis unfolding f sk using Suc.IH[of "x\<lparr>wire := ws\<rparr>"] Suc.prems(2) w False by simp
  qed
qed

lemma fold_skip:
  "fold (link_step psz push pop) (replicate n (True, Skip)) (x, y) = ((side_skip ^^ n) x, y)"
  "fold (link_step psz push pop) (replicate n (False, Skip)) (x, y) = (x, (side_skip ^^ n) y)"
  by (induction n arbitrary: x y) (simp_all add: link_step_def funpow_swap1 del: fold_replicate)

lemma link_frame_eq:
  assumes "wire x \<noteq> []" "wire y \<noteq> []"
  shows "link_frame psz push pop N (x, y) = (frame_side psz N (last (wire y)) x, frame_side psz N (last (wire x)) y)"
proof -
  let ?x = "x\<lparr>wire := [last (wire x)]\<rparr>" and ?y = "y\<lparr>wire := [last (wire y)]\<rparr>"
  have "link_frame psz push pop N (x, y) = fold (link_step psz push pop)
      [(True, Drain N), (False, Drain N), (True, Deliver), (False, Deliver), (True, Build), (False, Build)] (?x, ?y)"
    using skip_many[OF assms(1) le_refl] skip_many[OF assms(2) le_refl]
    unfolding link_frame_def link_run_def frame_events_def
    by (simp only: prod.case fold_append comp_apply fold_skip)
  then show ?thesis
    by (simp add: link_step_def frame_side_def side_drain_def side_deliver_def case_prod_unfold Let_def)
qed

lemma deliver_fields:
  "peer_ack (fst (on_peer_chunk psz push pd e r)) = byte_at pd 1"
  "may_stage (fst (on_peer_chunk psz push pd e r))"
  "send_offset (fst (on_peer_chunk psz push pd e r)) = send_offset e"
  "stall (fst (on_peer_chunk psz push pd e r)) = stall e"
  "sender_ok psz' (fst (on_peer_chunk psz push pd e r)) C b = sender_ok psz' e C b"
  by (auto simp: on_peer_chunk_def Let_def sender_ok_view split: option.splits)

text \<open>\<open>N\<close> bytes empty every sink, and an empty sink takes a chunk.\<close>

definition drains :: "nat \<Rightarrow> nat \<Rightarrow> bool" where
  "drains psz N = ((\<forall>q. invar q \<longrightarrow> length (contents q) \<le> N) \<and> (\<forall>q. invar q \<longrightarrow> contents q = [] \<longrightarrow> psz \<le> room q))"

text \<open>The state of the direction from \<open>x\<close> to \<open>y\<close> after a frame: \<open>b\<close> chunks have left the window, \<open>k\<close>
  have been taken, and the newest image of \<open>y\<close> says so.\<close>

definition told :: "nat \<Rightarrow> 8 word list list \<Rightarrow> nat \<Rightarrow> nat \<Rightarrow> 'q pd_side \<Rightarrow> 'q pd_side \<Rightarrow> bool" where
  "told psz C b k x y = (sender_ok psz (ep x) C b \<and> b \<le> k \<and> k \<le> length C \<and> rx_ack (ep y) = seqof k
     \<and> byte_at (last (wire y)) 1 = seqof k \<and> painted C b (ep x) (last (wire x)) \<and> flow_bytes C k x y)"

lemma drain_side:
  assumes "invar (sink x)" "length (contents (sink x)) \<le> N"
  shows "\<exists>r. side_drain pop N x = x\<lparr>sink := r, drained := drained x @ contents (sink x)\<rparr> \<and> invar r \<and> contents r = []"
proof -
  obtain bs r where p: "pop N (sink x) = (bs, r)" by force
  show ?thesis
    using pop_all[OF assms p] pop_takes[OF assms(1) p] p by (intro exI[of _ r]) (simp add: side_drain_def)
qed

lemma deliver_accepts:
  assumes "rx_ack e = seqof k" "data_is C (Some (Suc k)) pd" "invar r" "contents r = []"
    and "\<forall>c \<in> set C. c \<noteq> [] \<and> length c \<le> psz" "psz \<le> room r"
  shows "rx_ack (fst (on_peer_chunk psz push pd e r)) = seqof (Suc k)"
proof -
  have d: "k < length C" "byte_at pd 0 = seqof (Suc k)" "unat (pd_get_len pd) = length (C ! k)"
    "get_bytes pd 4 (length (C ! k)) = C ! k"
    using assms(2) by (auto simp: data_is_def)
  have c: "C ! k \<noteq> []" "length (C ! k) \<le> psz" using assms(5) d(1) by auto
  have "push (C ! k) r \<noteq> None" using push_none[OF assms(3), of "C ! k"] c assms(6) by simp
  then obtain r' where "push (C ! k) r = Some r'" by auto
  moreover have "byte_at pd 0 \<noteq> 0" using d(2) seqof_nonzero[of "Suc k"] by simp
  moreover have "pd_get_len pd \<noteq> 0" using d(3) c(1) by auto
  ultimately show ?thesis
    using d c assms(1) by (simp add: on_peer_chunk_def Let_def seqof_Suc)
qed

lemma frame_core:
  assumes S: "sender_ok psz (ep x) C b" "b \<le> a" "a \<le> k" "k \<le> length C" "rx_ack (ep y) = seqof k"
    and py: "byte_at (last (wire y)) 1 = seqof a" and px: "data_is C io (last (wire x))"
    and near: "\<And>i. io = Some i \<Longrightarrow> k \<le> Suc i \<and> i \<le> k + 2"
    and B: "flow_bytes C k x y" and psz: "psz < 65536" "0 < psz"
    and len: "images_ok psz x" "images_ok psz y"
    and N: "drains psz N"
    and inv: "dir_ok psz y x" "dir_ok psz x y"
    and x': "x' = frame_side psz N (last (wire y)) x" and y': "y' = frame_side psz N (last (wire x)) y"
  shows "\<exists>cs k'. told psz (C @ cs) a k' x' y' \<and> (k' = k \<or> k' = Suc k) \<and> (io = Some (Suc k) \<longrightarrow> k' = Suc k)
    \<and> fed x' = fed x \<and> (pd_count (ep x') = 0 \<longrightarrow> a = length C \<and> contents (src x) = [])
    \<and> (a = b \<longrightarrow> a < length C \<longrightarrow> send_offset (ep x) = 0 \<longrightarrow> send_offset (ep x') = 1)
    \<and> (a = b \<longrightarrow> length C = a + 2 \<longrightarrow> send_offset (ep x) = 2 \<longrightarrow>
         send_offset (ep x') = 2 \<and> stall (ep x') = stall (ep x) + 1 \<or> send_offset (ep x') = 0)"
proof -
  note N = N[unfolded drains_def, THEN conjunct1, rule_format] N[unfolded drains_def, THEN conjunct2, rule_format]
  obtain D b2 k2 a2 ios2 acks2 where F2: "flow psz D b2 k2 a2 ios2 acks2 y x" and B2: "flow_bytes D k2 y x"
    using inv(1) by (auto simp: dir_ok_def)
  obtain rx where x1: "side_drain pop N (x\<lparr>wire := [last (wire x)]\<rparr>)
      = x\<lparr>wire := [last (wire x)], sink := rx, drained := drained x @ contents (sink x)\<rparr>"
    using drain_side[of "x\<lparr>wire := [last (wire x)]\<rparr>" N] N(1)[of "sink x"] B2 by (auto simp: flow_bytes_def)
  obtain ry where y1: "side_drain pop N (y\<lparr>wire := [last (wire y)]\<rparr>)
      = y\<lparr>wire := [last (wire y)], sink := ry, drained := drained y @ contents (sink y)\<rparr>"
    and ry: "invar ry" "contents ry = []"
    using drain_side[of "y\<lparr>wire := [last (wire y)]\<rparr>" N] N(1)[of "sink y"] B by (auto simp: flow_bytes_def)
  obtain e1 r1 where d1: "on_peer_chunk psz push (last (wire y)) (ep x) rx = (e1, r1)" by force
  obtain f1 q1 where d2: "on_peer_chunk psz push (last (wire x)) (ep y) ry = (f1, q1)" by force
  obtain px' e2 s2 where b1: "build_own_chunk psz pop (last (wire x)) e1 (src x) = (px', e2, s2)" by (metis prod_cases3)
  obtain py' f2 t2 where b2: "build_own_chunk psz pop (last (wire y)) f1 (src y) = (py', f2, t2)" by (metis prod_cases3)
  have X: "x' = x\<lparr>ep := e2, src := s2, sink := r1, wire := [last (wire x), px'], drained := drained x @ contents (sink x)\<rparr>"
    by (simp add: x' frame_side_def x1 side_deliver_def d1 side_build_def b1)
  have Y: "y' = y\<lparr>ep := f2, src := t2, sink := q1, wire := [last (wire y), py'], drained := drained y @ contents (sink y)\<rparr>"
    by (simp add: y' frame_side_def y1 side_deliver_def d2 side_build_def b2)
  have E1: "sender_ok psz e1 C b" "peer_ack e1 = seqof a" "may_stage e1" "send_offset e1 = send_offset (ep x)"
    "stall e1 = stall (ep x)"
  proof -
    have e1: "e1 = fst (on_peer_chunk psz push (last (wire y)) (ep x) rx)" using d1 by simp
    show "sender_ok psz e1 C b" "peer_ack e1 = seqof a" "may_stage e1" "send_offset e1 = send_offset (ep x)"
      "stall e1 = stall (ep x)"
      unfolding e1 using S(1) py by (simp_all add: deliver_fields)
  qed
  have lx: "length (last (wire x)) = psz + 4" "length (last (wire y)) = psz + 4"
    using len by (simp_all add: images_ok_def)
  have ac: "a \<le> length C" using S by linarith
  have isrc: "invar (src x)" using B by (simp add: flow_bytes_def)
  obtain cs where R: "sender_ok psz e2 (C @ cs) a" "invar s2" "contents (src x) = concat cs @ contents s2"
    "painted (C @ cs) a e2 px'" "pd_count e2 = 0 \<longrightarrow> a = length C \<and> contents (src x) = []"
    "a = b \<longrightarrow> a < length C \<longrightarrow> send_offset (ep x) = 0 \<longrightarrow> send_offset e2 = 1"
    "a = b \<longrightarrow> length C = a + 2 \<longrightarrow> send_offset (ep x) = 2 \<longrightarrow>
         send_offset e2 = 2 \<and> stall e2 = stall (ep x) + 1 \<or> send_offset e2 = 0"
    using build_credit[OF E1(1,2) S(2) ac isrc psz lx(1) E1(3) b1] E1(4,5) by auto
  have C: "\<forall>c \<in> set C. c \<noteq> [] \<and> length c \<le> psz" using S(1) by (simp add: sender_ok_def)
  obtain k' where K: "k' = k \<or> k' = Suc k \<and> io = Some k'" "rx_ack f1 = seqof k'" "invar q1"
    "contents q1 = contents ry @ concat (take (k' - k) (drop k C))"
    using receive_ok[OF S(5) px near C ry(1) d2] by blast
  have k'n: "k \<le> k'" "k' \<le> length C" using K(1) S(4) px by (auto simp: data_is_def)
  have acc: "k' = Suc k" if "io = Some (Suc k)"
  proof -
    have "rx_ack f1 = seqof (Suc k)"
      using deliver_accepts[OF S(5) px[unfolded that] ry C N(2)[OF ry]] d2 by simp
    then show ?thesis using K(1,2) seqof_inject[of k "Suc k"] by auto
  qed
  obtain ax acks3 where ax: "acks2 = acks3 @ [ax]" "byte_at (last (wire x)) 1 = seqof ax"
  proof -
    have m: "map (\<lambda>pd. byte_at pd 1) (wire x) = map seqof acks2" and ne: "wire x \<noteq> []"
      using F2 len(1) by (simp_all add: flow_def images_ok_def)
    then have "acks2 \<noteq> []" by auto
    moreover have "byte_at (last (wire x)) 1 = seqof (last acks2)"
      using m ne calculation by (metis last_map)
    ultimately show thesis using that append_butlast_last_id by metis
  qed
  have F1: "sender_ok psz f1 D b2" "peer_ack f1 = seqof ax" "b2 \<le> ax" "ax \<le> length D" "invar (src y)"
  proof -
    have f1: "f1 = fst (on_peer_chunk psz push (last (wire x)) (ep y) ry)" using d2 by simp
    show "sender_ok psz f1 D b2" "peer_ack f1 = seqof ax"
      unfolding f1 using F2 ax(2) by (simp_all add: deliver_fields flow_def)
    show "b2 \<le> ax" "ax \<le> length D" "invar (src y)"
      using F2 B2 ax(1) by (auto simp: flow_def flow_bytes_def sorted_append)
  qed
  have G: "rx_ack f2 = rx_ack f1" "byte_at py' 1 = rx_ack f1"
    using build_ok[OF F1 psz(1) lx(2) b2] by auto
  have "concat (take k C) @ concat (take (k' - k) (drop k C)) = concat (take k' C)"
    using k'n(1) by (metis concat_append le_add_diff_inverse take_add)
  then have "flow_bytes (C @ cs) k' x' y'"
    using B R(2,3) K(3,4) ry(2) k'n by (simp add: flow_bytes_def X Y)
  then have "told psz (C @ cs) a k' x' y'"
    using R(1,4) S(3) k'n G K(2) by (simp add: told_def X Y)
  then show ?thesis
    using R(5-7) K(1) acc by (intro exI[of _ cs] exI[of _ k']) (auto simp: X)
qed

lemma told_frame:
  assumes T: "told psz C b k x y" and ok: "link_ok psz (x, y)" and psz: "psz < 65536" "0 < psz"
    and N: "drains psz N"
    and fr: "link_frame psz push pop N (x, y) = (x', y')"
  shows "\<exists>cs k'. told psz (C @ cs) k k' x' y' \<and> (k' = k \<or> k' = Suc k) \<and> fed x' = fed x
    \<and> (0 < pd_count (ep x) \<longrightarrow> b = k \<longrightarrow> send_offset (ep x) = 1 \<longrightarrow> k' = Suc k)
    \<and> (pd_count (ep x') = 0 \<longrightarrow> k = length C \<and> contents (src x) = [])
    \<and> (k = b \<longrightarrow> k < length C \<longrightarrow> send_offset (ep x) = 0 \<longrightarrow> send_offset (ep x') = 1)
    \<and> (k = b \<longrightarrow> length C = k + 2 \<longrightarrow> send_offset (ep x) = 2 \<longrightarrow>
         send_offset (ep x') = 2 \<and> stall (ep x') = stall (ep x) + 1 \<or> send_offset (ep x') = 0)"
proof -
  have L: "dir_ok psz x y" "dir_ok psz y x" "images_ok psz x" "images_ok psz y" using ok by (simp_all add: link_ok_def)
  have fs: "x' = frame_side psz N (last (wire y)) x" "y' = frame_side psz N (last (wire x)) y"
    using link_frame_eq[of x y psz N] L(3,4) fr by (simp_all add: images_ok_def)
  let ?io = "if pd_count (ep x) = 0 \<or> send_offset (ep x) = 0 then None else Some (b + send_offset (ep x))"
  have S: "sender_ok psz (ep x) C b" "b \<le> k" "k \<le> length C" "rx_ack (ep y) = seqof k"
    "byte_at (last (wire y)) 1 = seqof k" "data_is C ?io (last (wire x))" "flow_bytes C k x y"
    using T by (simp_all add: told_def painted_def)
  have near: "k \<le> Suc i \<and> i \<le> k + 2" if "?io = Some i" for i
    using S(1-3) that by (auto simp: sender_ok_def split: if_splits)
  show ?thesis
    using frame_core[OF S(1,2) le_refl S(3,4,5,6) near S(7) psz L(3,4) N L(2,1) fs] by fastforce
qed

definition delivered :: "'q pd_side \<Rightarrow> 8 word list" where
  "delivered y = drained y @ contents (sink y)"

lemma any_frame:
  assumes ok: "link_ok psz (x, y)" and psz: "psz < 65536" "0 < psz"
    and N: "drains psz N"
    and fr: "link_frame psz push pop N (x, y) = (x', y')"
  shows "\<exists>C b k. told psz C b k x' y' \<and> fed x' = fed x \<and> length (delivered y) \<le> length (delivered y')"
proof -
  have L: "dir_ok psz x y" "dir_ok psz y x" "images_ok psz x" "images_ok psz y" using ok by (simp_all add: link_ok_def)
  have fs: "x' = frame_side psz N (last (wire y)) x" "y' = frame_side psz N (last (wire x)) y"
    using link_frame_eq[of x y psz N] L(3,4) fr by (simp_all add: images_ok_def)
  obtain C b k a ios acks where F: "flow psz C b k a ios acks x y" and B: "flow_bytes C k x y"
    using L(1) by (auto simp: dir_ok_def)
  note le = flow_le[OF F]
  have ne: "wire x \<noteq> []" "wire y \<noteq> []" using L(3,4) by (simp_all add: images_ok_def)
  have "acks \<noteq> []" "ios \<noteq> []" using F ne by (auto simp: flow_def)
  then obtain acks1 aL where acks: "acks = acks1 @ [aL]" using append_butlast_last_id by metis
  have aL: "byte_at (last (wire y)) 1 = seqof aL"
    using F ne \<open>acks \<noteq> []\<close> acks unfolding flow_def by (metis last_map last_snoc)
  have d: "data_is C (last ios) (last (wire x))"
    using F \<open>ios \<noteq> []\<close> ne unfolding flow_def by (metis list_all2_conv_all_nth last_conv_nth length_0_conv diff_less length_greater_0_conv zero_less_one)
  have near: "k \<le> Suc i \<and> i \<le> k + 2" if "last ios = Some i" for i
  proof -
    have "Some i \<in> set ios" using that \<open>ios \<noteq> []\<close> last_in_set by metis
    then show ?thesis using F d that le by (auto simp: flow_def data_is_def)
  qed
  have S: "sender_ok psz (ep x) C b" "b \<le> aL" "aL \<le> k" "rx_ack (ep y) = seqof k"
    using F acks by (auto simp: flow_def sorted_append)
  show ?thesis
  proof -
    obtain cs k' where T: "told psz (C @ cs) aL k' x' y'" "k' = k \<or> k' = Suc k" "fed x' = fed x"
      using frame_core[OF S(1-3) le(3) S(4) aL d near B psz L(3,4) N L(2,1) fs] by fast
    have e: "delivered y = concat (take k C)" using B by (simp add: flow_bytes_def delivered_def)
    have e': "delivered y' = concat (take k' (C @ cs))" using T(1) by (simp add: told_def flow_bytes_def delivered_def)
    have "take k (take k' (C @ cs)) = take k C" using T(2) le(3) by auto
    then have "take k' (C @ cs) = take k C @ drop k (take k' (C @ cs))" by (metis append_take_drop_id)
    then have "length (delivered y) \<le> length (delivered y')" unfolding e e' by (metis concat_append length_append le_add1)
    then show ?thesis using T(1,3) by blast
  qed
qed

section \<open>Frames deliver\<close>

definition frames :: "nat \<Rightarrow> nat \<Rightarrow> nat \<Rightarrow> 'q pd_side \<times> 'q pd_side \<Rightarrow> 'q pd_side \<times> 'q pd_side" where
  "frames psz N n s = (link_frame psz push pop N ^^ n) s"

definition pd_rank :: "pd_endpoint \<Rightarrow> nat" where
  "pd_rank e = (if send_offset e = 1 then 0 else if send_offset e = 0 then 1 else 5 - stall e)"

lemma frames_ok: "link_ok psz s \<Longrightarrow> psz < 65536 \<Longrightarrow> link_ok psz (frames psz N n s)"
  by (induction n) (simp_all add: frames_def link_frame_def link_run_ok)

lemma told_delivered:
  "told psz C b k x y \<Longrightarrow> delivered y = concat (take k C) \<and> (\<forall>c \<in> set C. c \<noteq> [])
    \<and> (delivered y = fed x \<longleftrightarrow> k = length C \<and> contents (src x) = [])"
proof -
  assume T: "told psz C b k x y"
  have C: "\<forall>c \<in> set C. c \<noteq> []" and k: "k \<le> length C" and d: "delivered y = concat (take k C)"
    and f: "fed x = concat C @ contents (src x)"
    using T by (auto simp: told_def sender_ok_def flow_bytes_def delivered_def)
  have s: "concat C = concat (take k C) @ concat (drop k C)" by (metis append_take_drop_id concat_append)
  have "concat (drop k C) = [] \<longleftrightarrow> k = length C"
  proof (cases "k = length C")
    case False
    then have l: "k < length C" using k by simp
    have "C ! k \<noteq> []" using C l by simp
    then show ?thesis using False l by (simp add: Cons_nth_drop_Suc[symmetric])
  qed simp
  then show ?thesis using C d f s by auto
qed

lemma grow:
  assumes "told psz C b k x y" "told psz (C @ cs) b' (Suc k) x' y'"
  shows "length (delivered y) < length (delivered y')"
proof -
  have l: "k \<le> length C" "k < length (C @ cs)" using assms by (simp_all add: told_def)
  have "delivered y = concat (take k (C @ cs))" using told_delivered[OF assms(1)] l(1) by simp
  moreover have "delivered y' = concat (take (Suc k) (C @ cs))"
    using told_delivered[OF assms(2)] by (simp del: take_append)
  moreover have "take (Suc k) (C @ cs) = take k (C @ cs) @ [(C @ cs) ! k]"
    by (rule take_Suc_conv_app_nth[OF l(2)])
  moreover have "(C @ cs) ! k \<noteq> []"
    using assms(2) nth_mem[OF l(2)] unfolding told_def sender_ok_def by blast
  ultimately show ?thesis by (simp del: take_append nth_append)
qed

lemma told_recovers:
  assumes psz: "psz < 65536" "0 < psz"
    and N: "drains psz N"
  shows "told psz C k k x y \<Longrightarrow> link_ok psz (x, y) \<Longrightarrow> 0 < pd_count (ep x) \<Longrightarrow> pd_rank (ep x) \<le> n
    \<Longrightarrow> \<exists>m \<le> Suc n. length (delivered y) < length (delivered (snd (frames psz N m (x, y))))
          \<and> fed (fst (frames psz N m (x, y))) = fed x"
proof (induction n arbitrary: C k x y)
  case (0 C k x y)
  obtain x' y' where fr: "link_frame psz push pop N (x, y) = (x', y')" by force
  have "send_offset (ep x) = 1"
    using 0(1,4) by (auto simp: pd_rank_def told_def sender_ok_def split: if_splits)
  moreover obtain cs k' where F: "told psz (C @ cs) k k' x' y'" "fed x' = fed x"
    "0 < pd_count (ep x) \<longrightarrow> k = k \<longrightarrow> send_offset (ep x) = 1 \<longrightarrow> k' = Suc k"
    using told_frame[OF 0(1,2) psz N fr] by (elim exE conjE) (rule that)
  ultimately have "told psz (C @ cs) k (Suc k) x' y'" "fed x' = fed x" using 0(3) by blast+
  then show ?case
    using grow[OF 0(1)] fr by (intro exI[of _ 1]) (simp add: frames_def)
next
  case (Suc n C k x y)
  obtain x' y' where fr: "link_frame psz push pop N (x, y) = (x', y')" by force
  have k: "k < length C" and sb: "send_offset (ep x) \<le> pd_count (ep x)" "pd_count (ep x) \<le> 2"
    "length C = k + pd_count (ep x)" "stall (ep x) < 4"
    using Suc.prems(1,3) by (auto simp: told_def sender_ok_def)
  obtain cs k' where F: "told psz (C @ cs) k k' x' y'" "k' = k \<or> k' = Suc k" "fed x' = fed x"
    "0 < pd_count (ep x) \<longrightarrow> k = k \<longrightarrow> send_offset (ep x) = 1 \<longrightarrow> k' = Suc k"
    "pd_count (ep x') = 0 \<longrightarrow> k = length C \<and> contents (src x) = []"
    "k = k \<longrightarrow> k < length C \<longrightarrow> send_offset (ep x) = 0 \<longrightarrow> send_offset (ep x') = 1"
    "k = k \<longrightarrow> length C = k + 2 \<longrightarrow> send_offset (ep x) = 2 \<longrightarrow>
         send_offset (ep x') = 2 \<and> stall (ep x') = stall (ep x) + 1 \<or> send_offset (ep x') = 0"
    using told_frame[OF Suc.prems(1,2) psz N fr] by (elim exE conjE) (rule that)
  have T: "told psz (C @ cs) k k' x' y'" "k' = k \<or> k' = Suc k" "fed x' = fed x"
    "send_offset (ep x) = 1 \<longrightarrow> k' = Suc k" "pd_count (ep x') = 0 \<longrightarrow> k = length C"
    "send_offset (ep x) = 0 \<longrightarrow> send_offset (ep x') = 1"
    "send_offset (ep x) = 2 \<longrightarrow> send_offset (ep x') = 2 \<and> stall (ep x') = stall (ep x) + 1 \<or> send_offset (ep x') = 0"
  proof -
    have "length C = k + 2" if "send_offset (ep x) = 2" using that sb by linarith
    then show "send_offset (ep x) = 2 \<longrightarrow> send_offset (ep x') = 2 \<and> stall (ep x') = stall (ep x) + 1 \<or> send_offset (ep x') = 0"
      using F(7) by simp
    show "send_offset (ep x) = 1 \<longrightarrow> k' = Suc k" using F(4) Suc.prems(3) by simp
    show "send_offset (ep x) = 0 \<longrightarrow> send_offset (ep x') = 1" using F(6) k by simp
    show "pd_count (ep x') = 0 \<longrightarrow> k = length C" using F(5) by simp
  qed (rule F(1-3))+
  show ?case
  proof (cases "k' = Suc k")
    case True
    then show ?thesis
      using grow[OF Suc.prems(1)] T(1,3) fr by (intro exI[of _ 1]) (simp add: frames_def)
  next
    case False
    then have k': "k' = k" using T(2) by blast
    have ok': "link_ok psz (x', y')"
      using frames_ok[OF Suc.prems(2) psz(1), of N 1] fr by (simp add: frames_def)
    have c': "0 < pd_count (ep x')" using T(5) k by auto
    have st': "stall (ep x') < 4" using T(1) by (simp add: told_def sender_ok_def)
    have "pd_rank (ep x') \<le> n"
      using False T(4,6,7) Suc.prems(4) sb st' by (auto simp: pd_rank_def split: if_splits)
    from Suc.IH[OF T(1)[unfolded k'] ok' c' this] obtain m where m: "m \<le> Suc n"
      "length (delivered y') < length (delivered (snd (frames psz N m (x', y'))))"
      "fed (fst (frames psz N m (x', y'))) = fed x'" by blast
    have "delivered y' = delivered y"
      using told_delivered[OF T(1)] told_delivered[OF Suc.prems(1)] k' k by simp
    moreover have "frames psz N (Suc m) (x, y) = frames psz N m (x', y')"
      using fr by (simp add: frames_def funpow_swap1)
    ultimately show ?thesis using m T(3) by (intro exI[of _ "Suc m"]) simp
  qed
qed

text \<open>Within eight frames more is delivered, unless everything has been.\<close>

lemma eight_frames:
  assumes psz: "psz < 65536" "0 < psz"
    and N: "drains psz N"
    and ok: "link_ok psz (x, y)" and todo: "delivered y \<noteq> fed x"
  shows "\<exists>m \<le> 8. length (delivered y) < length (delivered (snd (frames psz N m (x, y))))
    \<and> fed (fst (frames psz N m (x, y))) = fed x"
proof -
  obtain x1 y1 where f1: "link_frame psz push pop N (x, y) = (x1, y1)" by force
  obtain x2 y2 where f2: "link_frame psz push pop N (x1, y1) = (x2, y2)" by force
  obtain C b k where T1: "told psz C b k x1 y1" and fd1: "fed x1 = fed x"
    and le1: "length (delivered y) \<le> length (delivered y1)"
    using any_frame[OF ok psz N f1] by blast
  have ok1: "link_ok psz (x1, y1)" using frames_ok[OF ok psz(1), of N 1] f1 by (simp add: frames_def)
  have ok2: "link_ok psz (x2, y2)" using frames_ok[OF ok1 psz(1), of N 1] f2 by (simp add: frames_def)
  obtain cs k' where T2: "told psz (C @ cs) k k' x2 y2" "k' = k \<or> k' = Suc k" "fed x2 = fed x1"
    "pd_count (ep x2) = 0 \<longrightarrow> k = length C \<and> contents (src x1) = []"
    using told_frame[OF T1 ok1 psz N f2] by (elim exE conjE) (rule that)
  have fr: "frames psz N 1 (x, y) = (x1, y1)" "frames psz N (m + 2) (x, y) = frames psz N m (x2, y2)"
    "frames psz N 2 (x, y) = (x2, y2)" for m
    using f1 f2 by (simp_all add: frames_def numeral_2_eq_2 funpow_swap1)
  consider (one) "length (delivered y) < length (delivered y1)"
    | (done1) "delivered y1 = fed x1" "length (delivered y) = length (delivered y1)"
    | (two) "length (delivered y) = length (delivered y1)" "k' = Suc k"
    | (more) "delivered y1 \<noteq> fed x1" "length (delivered y) = length (delivered y1)" "k' = k"
    using T2(2) le1 by fastforce
  then show ?thesis
  proof cases
    case one
    then show ?thesis using fr(1) fd1 by (intro exI[of _ 1]) simp
  next
    case two
    then show ?thesis
      using grow[OF T1 T2(1)[unfolded two(2)]] two(1) fr(3) fd1 T2(3) by (intro exI[of _ 2]) simp
  next
    case more
    have "0 < pd_count (ep x2)" using T2(4) told_delivered[OF T1] more(1) by auto
    moreover have "pd_rank (ep x2) \<le> 5" by (simp add: pd_rank_def)
    ultimately obtain m where m: "m \<le> 6" "length (delivered y2) < length (delivered (snd (frames psz N m (x2, y2))))"
      "fed (fst (frames psz N m (x2, y2))) = fed x2"
      using told_recovers[OF psz N T2(1)[unfolded more(3)] ok2, of 5] by auto
    have "delivered y2 = delivered y1"
      using told_delivered[OF T1] told_delivered[OF T2(1)] more(3) T1 by (simp add: told_def)
    then show ?thesis using m more(2) T2(3) fd1 fr(2)[of m] by (intro exI[of _ "m + 2"]) simp
  next
    case done1
    have "dir_ok psz x y" using ok by (simp add: link_ok_def)
    then obtain cs where "fed x = delivered y @ cs"
      using dir_exactly_once[of psz x y] by (auto simp: delivered_def)
    then have "delivered y = fed x" using done1 fd1 by auto
    then show ?thesis using todo by contradiction
  qed
qed

lemma delivered_fed: "link_ok psz (x, y) \<Longrightarrow> \<exists>zs. fed x = delivered y @ zs"
  using dir_exactly_once[of psz x y] by (auto simp: link_ok_def delivered_def)

lemma all_delivered:
  assumes psz: "psz < 65536" "0 < psz" and N: "drains psz N"
  shows "link_ok psz (x, y) \<Longrightarrow> length (fed x) - length (delivered y) \<le> n
    \<Longrightarrow> \<exists>m \<le> 8 * n. delivered (snd (frames psz N m (x, y))) = fed x"
proof (induction n arbitrary: x y)
  case (0 x y)
  then have "delivered y = fed x" using delivered_fed[of psz x y] by auto
  then show ?case by (simp add: frames_def)
next
  case (Suc n x y)
  show ?case
  proof (cases "delivered y = fed x")
    case True
    then show ?thesis by (intro exI[of _ 0]) (simp add: frames_def)
  next
    case False
    then obtain m where m: "m \<le> 8" "length (delivered y) < length (delivered (snd (frames psz N m (x, y))))"
      "fed (fst (frames psz N m (x, y))) = fed x"
      using eight_frames[OF psz N Suc.prems(1)] by blast
    obtain x' y' where xy: "frames psz N m (x, y) = (x', y')" by force
    have ok: "link_ok psz (x', y')" using frames_ok[OF Suc.prems(1) psz(1), of N m] xy by simp
    have "length (fed x') - length (delivered y') \<le> n" using m(2,3) xy Suc.prems(2) by simp
    from Suc.IH[OF ok this] obtain m' where m': "m' \<le> 8 * n" "delivered (snd (frames psz N m' (x', y'))) = fed x'"
      by blast
    have "frames psz N (m' + m) (x, y) = frames psz N m' (x', y')"
      using xy by (simp add: frames_def funpow_add)
    then show ?thesis using m(1,3) m' xy by (intro exI[of _ "m' + m"]) simp
  qed
qed

end

section \<open>The stream over the rings of the board\<close>

text \<open>The invariant that also says that a chunk fits into an empty ring.\<close>

definition ring_big :: "nat \<Rightarrow> xring \<Rightarrow> bool" where
  "ring_big psz r = (ring_invar r \<and> psz \<le> length (rbuf r))"

lemma try_push_length:
  assumes "ring_invar r" "try_push bs r = Some r'"
  shows "length (rbuf r') = length (rbuf r)"
proof -
  have "length bs \<le> length (rbuf r)" "r' = r\<lparr>rbuf := ring_store (idx_in r) bs (rbuf r), idx_in := idx_in r + of_nat (length bs)\<rparr>"
    using assms(2) by (auto simp: try_push_def Let_def split: if_splits)
  then show ?thesis
    using length_ring_store[of "rbuf r" bs "unat (idx_in r)"] assms(1) by (simp add: ring_invar_def)
qed

lemma ring_pop_length: "rbuf (snd (ring_pop n r)) = rbuf r"
  by (simp add: ring_pop_def Let_def)

interpretation xk: byte_pipe try_push ring_pop ring_contents "ring_big psz" ring_room
proof
  fix q q' bs assume "ring_big psz q" "try_push bs q = Some q'"
  then show "ring_big psz q' \<and> ring_contents q' = ring_contents q @ bs"
    using xr.push_some[of q bs q'] try_push_length[of q bs q'] by (simp add: ring_big_def)
next
  fix q bs assume "ring_big psz q"
  then show "(try_push bs q = None) = (ring_room q < length bs)"
    using xr.push_none[of q bs] by (simp add: ring_big_def)
next
  fix q q' bs n assume "ring_big psz q" "ring_pop n q = (bs, q')"
  then show "ring_big psz q' \<and> bs = take n (ring_contents q) \<and> ring_contents q' = drop n (ring_contents q)"
    using xr.pop_takes[of q n bs q'] ring_pop_length[of n q] by (simp add: ring_big_def)
qed

definition ring_new :: "nat \<Rightarrow> xring" where
  "ring_new n = \<lparr>idx_in = 0, idx_out = 0, rbuf = replicate n 0\<rparr>"

definition endpoint_new :: "nat \<Rightarrow> pd_endpoint" where
  "endpoint_new psz = \<lparr>rx_ack = 0, tx_seq = 0, peer_ack = 0, pd_head = 0, pd_count = 0, send_offset = 0,
     stall = 0, may_stage = True, slots = blank_slots psz\<rparr>"

text \<open>A side whose rings hold \<open>2 ^ i\<close> and \<open>2 ^ j\<close> bytes, when the link comes up.\<close>

definition stream_side :: "nat \<Rightarrow> nat \<Rightarrow> nat \<Rightarrow> xring pd_side" where
  "stream_side psz i j = side_start psz (endpoint_new psz) (ring_new (2 ^ i)) (ring_new (2 ^ j))"

text \<open>\<open>n\<close> frames in which nothing is lost and the users keep up.\<close>

definition lossless_frames :: "nat \<Rightarrow> nat \<Rightarrow> xring pd_side \<times> xring pd_side \<Rightarrow> xring pd_side \<times> xring pd_side" where
  "lossless_frames psz n s = (link_frame psz try_push ring_pop (2 ^ 32) ^^ n) s"

lemma ring_new_ok:
  assumes "0 < k" "k < 32" "psz \<le> 2 ^ k"
  shows "ring_big psz (ring_new (2 ^ k))" "ring_invar (ring_new (2 ^ k))" "ring_contents (ring_new (2 ^ k)) = []"
  using assms by (auto simp: ring_big_def ring_invar_def ring_new_def ring_size_ok_def ring_contents_def)

lemma stream_side_fresh:
  assumes "0 < i" "i < 32" "0 < j" "j < 32"
  shows "xr.side_fresh psz (stream_side psz i j)"
    and "psz \<le> 2 ^ i \<Longrightarrow> psz \<le> 2 ^ j \<Longrightarrow> xk.side_fresh psz psz (stream_side psz i j)"
proof -
  have slots: "length (slots (endpoint_new psz)) = 2" "\<forall>sl \<in> set (slots (endpoint_new psz)). length (slot_payload sl) = psz"
    by (simp_all add: endpoint_new_def blank_slots_def)
  show "xr.side_fresh psz (stream_side psz i j)"
    unfolding xr.side_fresh_def
    by (intro exI conjI, rule stream_side_def) (use slots ring_new_ok[of i 0] ring_new_ok[of j 0] assms in simp_all)
  assume "psz \<le> 2 ^ i" "psz \<le> 2 ^ j"
  then show "xk.side_fresh psz psz (stream_side psz i j)"
    unfolding xk.side_fresh_def
    by - (intro exI conjI, rule stream_side_def, use slots ring_new_ok[of i psz] ring_new_ok[of j psz] assms in \<open>simp_all\<close>)
qed

lemma ring_drains: "xk.drains psz psz (2 ^ 32)"
proof -
  have "length (ring_contents q) \<le> 2 ^ 32" if "ring_big psz q" for q
    using that ring_size_less[of "length (rbuf q)"] by (simp add: ring_big_def ring_invar_def ring_contents_def)
  moreover have "psz \<le> ring_room q" if "ring_big psz q" "ring_contents q = []" for q
    using that by (simp add: ring_big_def ring_room_def ring_contents_def)
  ultimately show ?thesis unfolding xk.drains_def by blast
qed

end
