(* ===== verification/EcatPd.thy ===== *)
theory EcatPd
  imports PdLive RmcsAppl
begin

text \<open>
  The process data endpoint of the EtherCAT core, \<open>core1_ecat/src/ecat_pd.cpp\<close>: the stream endpoint
  between the process data images of the stack and the two rings to the other core.
  \<open>with_stream B\<close> is the board \<open>B\<close> with this endpoint; a mapping call of the stack is then a step of
  \<open>PdLink\<close>.
\<close>


record xchannel =
  endpoint :: pd_endpoint
  down :: xring
  up :: xring
  ecat_claim :: "32 word"

abbreviation kPdChunkPayloadSize :: nat where "kPdChunkPayloadSize \<equiv> 44"

text \<open>Emptying a ring in portions of 64 bytes; the fuel is one round per portion and one more.\<close>

fun drain_ring :: "nat \<Rightarrow> xring \<Rightarrow> xring option" where
  "drain_ring 0 r = None"
| "drain_ring (Suc n) r = (let (bs, r) = ring_pop 64 r in if bs = [] then Some r else drain_ring n r)"

definition drain_fuel :: "xring \<Rightarrow> nat" where
  "drain_fuel r = ring_readable r div 64 + 2"

definition ecat_pd_reset :: "xchannel \<Rightarrow> xchannel" where
  "ecat_pd_reset ch =
    (let ch = ch\<lparr>endpoint := endpoint_reset (endpoint ch)\<rparr>;
         ch = (case drain_ring (drain_fuel (up ch)) (up ch) of Some r \<Rightarrow> ch\<lparr>up := r\<rparr> | None \<Rightarrow> ch) in
     ch\<lparr>ecat_claim := ecat_claim ch + 1\<rparr>)"

definition ecat_pd_on_outputs :: "8 word list \<Rightarrow> xchannel \<Rightarrow> xchannel" where
  "ecat_pd_on_outputs pd ch =
    (let (e, r) = on_peer_chunk kPdChunkPayloadSize try_push pd (endpoint ch) (down ch) in ch\<lparr>endpoint := e, down := r\<rparr>)"

definition ecat_pd_build_inputs :: "8 word list \<Rightarrow> xchannel \<Rightarrow> 8 word list \<times> xchannel" where
  "ecat_pd_build_inputs pd ch =
    (let (pd, e, r) = build_own_chunk kPdChunkPayloadSize ring_pop pd (endpoint ch) (up ch) in
     (pd, ch\<lparr>endpoint := e, up := r\<rparr>))"

definition ecat_pd_uplink_pending :: "xchannel \<Rightarrow> bool" where
  "ecat_pd_uplink_pending ch = (ready_to_advance (endpoint ch) \<and> ring_readable (up ch) \<noteq> 0)"

definition with_stream :: "('f, 'e, 'p) board \<Rightarrow> ('f, 'e, xchannel) board" where
  "with_stream B = \<lparr>b_flash = b_flash B, b_ee_read = b_ee_read B, b_ee_write = b_ee_write B,
     b_ee_reload = b_ee_reload B, b_ee_store = b_ee_store B, b_pd_reset = ecat_pd_reset,
     b_pd_inputs = ecat_pd_build_inputs, b_pd_outputs = ecat_pd_on_outputs,
     b_pd_pending = ecat_pd_uplink_pending\<rparr>"

section \<open>Reset\<close>

lemma drain_ring_ends:
  assumes "ring_invar r" "length (ring_contents r) \<le> 64 * n"
  shows "\<exists>r'. drain_ring (Suc n) r = Some r' \<and> ring_invar r' \<and> ring_contents r' = []"
  using assms
proof (induction n arbitrary: r)
  case 0
  obtain bs r1 where p: "ring_pop 64 r = (bs, r1)" by force
  then show ?case using xr.pop_takes[OF 0(1) p] 0(2) by simp
next
  case (Suc n)
  obtain bs r1 where p: "ring_pop 64 r = (bs, r1)" by force
  note t = xr.pop_takes[OF Suc.prems(1) p]
  show ?case
  proof (cases "bs = []")
    case True
    then have "ring_contents r = []" using t by simp
    then show ?thesis using True p t by simp
  next
    case False
    have "length (ring_contents r1) \<le> 64 * n" using t Suc.prems(2) by simp
    then show ?thesis using Suc.IH[of r1] t False p by simp
  qed
qed

lemma drain_fuel_enough:
  assumes "ring_invar r"
  shows "\<exists>r'. drain_ring (drain_fuel r) r = Some r' \<and> ring_invar r' \<and> ring_contents r' = []"
proof -
  have "length (ring_contents r) \<le> 64 * (ring_readable r div 64 + 1)"
    unfolding ring_contents_def ring_readable_def by simp
  then show ?thesis using drain_ring_ends[OF assms] by (simp add: drain_fuel_def)
qed

lemma reset_drops_uplink:
  assumes "ring_invar (up ch)"
  shows "ring_invar (up (ecat_pd_reset ch)) \<and> ring_contents (up (ecat_pd_reset ch)) = []
    \<and> down (ecat_pd_reset ch) = down ch \<and> endpoint (ecat_pd_reset ch) = endpoint_reset (endpoint ch)"
  using drain_fuel_enough[OF assms] by (auto simp: ecat_pd_reset_def Let_def)

section \<open>The stack's mapping calls are steps of the stream\<close>

text \<open>The channel as one side of \<open>PdLink\<close>, whose newest image is \<open>pd\<close>.\<close>

definition slave_side :: "xchannel \<Rightarrow> 8 word list \<Rightarrow> 8 word list \<Rightarrow> 8 word list \<Rightarrow> xring pd_side" where
  "slave_side ch pd f d = \<lparr>ep = endpoint ch, src = up ch, sink = down ch, wire = [pd], fed = f, drained = d\<rparr>"

lemma outputs_deliver:
  "slave_side (ecat_pd_on_outputs m ch) pd f d = side_deliver kPdChunkPayloadSize try_push m (slave_side ch pd f d)"
  by (simp add: ecat_pd_on_outputs_def side_deliver_def slave_side_def case_prod_unfold Let_def)

lemma inputs_build:
  "slave_side (snd (ecat_pd_build_inputs pd ch)) (fst (ecat_pd_build_inputs pd ch)) f d
    = (side_build kPdChunkPayloadSize ring_pop (slave_side ch pd f d))
        \<lparr>wire := tl (wire (side_build kPdChunkPayloadSize ring_pop (slave_side ch pd f d)))\<rparr>"
  by (simp add: ecat_pd_build_inputs_def side_build_def slave_side_def case_prod_unfold Let_def)

lemma stream_board_pd [simp]:
  "b_pd_inputs (with_stream B) = ecat_pd_build_inputs" "b_pd_outputs (with_stream B) = ecat_pd_on_outputs"
  "b_pd_reset (with_stream B) = ecat_pd_reset" "b_pd_pending (with_stream B) = ecat_pd_uplink_pending"
  by (simp_all add: with_stream_def)

lemma user_mapping:
  "APPL_InputMapping (rmcs_user B) = RMCS_InputMapping B" "APPL_OutputMapping (rmcs_user B) = RMCS_OutputMapping B"
  by (simp_all add: rmcs_user_def rmcs_user0_def)

lemma mapping_frames [simp]:
  "pdst (snd (GetSystemTimeDelay t s)) = pdst s" "aPdInputData (snd (GetSystemTimeDelay t s)) = aPdInputData s"
  "nEscAddrInputData (snd (GetSystemTimeDelay t s)) = nEscAddrInputData s"
  "nPdInputSize (snd (GetSystemTimeDelay t s)) = nPdInputSize s"
  "pdst (HandleCycleTimeMeasurement s) = pdst s" "aPdInputData (HandleCycleTimeMeasurement s) = aPdInputData s"
  by (simp_all add: GetSystemTimeDelay_def HandleCycleTimeMeasurement_def HW_EscReadDWord_def HW_EscRead_def Let_def case_prod_unfold)

lemma input_mapping_stream:
  "aPdInputData (PDO_InputMapping_impl (rmcs_user (with_stream B)) s) = fst (ecat_pd_build_inputs (aPdInputData s) (pdst s))
   \<and> pdst (PDO_InputMapping_impl (rmcs_user (with_stream B)) s) = snd (ecat_pd_build_inputs (aPdInputData s) (pdst s))"
  by (simp add: PDO_InputMapping_impl_def user_mapping RMCS_InputMapping_def HW_EscReadWord_def HW_EscRead_def
      HW_EscWrite_def Let_def case_prod_unfold)

end
