(* ===== verification/Bitfield.thy ===== *)
theory Bitfield
  imports SlavePrelude
begin

text \<open>
  The fixed-layout bitfields of the wire protocol, \<open>core/src/utility/bitfield.hpp\<close>.

  A member is its first bit and its width, both constants of the program.  \<open>read_bits\<close> and
  \<open>write_bits\<close> gather the bytes a member touches into one word, mask and shift; a 64-bit word is
  wide enough for all of them, the code takes the smallest unsigned type for the span, whose width
  only shows in the mask.  A buffer is a byte list, a reference into it an offset.
\<close>

unbundle bit_operations_syntax

section \<open>Members\<close>

record bit_member =
  kIndex :: nat
  kBitWidth :: nat

definition BitfieldMember :: "nat \<Rightarrow> nat \<Rightarrow> bit_member" where
  "BitfieldMember index bit_width = \<lparr>kIndex = index, kBitWidth = bit_width\<rparr>"

definition first_byte :: "bit_member \<Rightarrow> nat" where
  "first_byte m = kIndex m div 8"

definition last_byte :: "bit_member \<Rightarrow> nat" where
  "last_byte m = (kIndex m + kBitWidth m + 7) div 8"

definition span_bytes :: "bit_member \<Rightarrow> nat" where
  "span_bytes m = last_byte m - first_byte m"

definition check_member :: "nat \<Rightarrow> bit_member \<Rightarrow> bool" where
  "check_member size_in_bytes m =
    (0 < kBitWidth m \<and> kIndex m < size_in_bytes * 8 \<and> kBitWidth m \<le> size_in_bytes * 8 - kIndex m
     \<and> 0 < span_bytes m \<and> span_bytes m \<le> 8)"

definition BestWordForSpan :: "nat \<Rightarrow> nat" where
  "BestWordForSpan span = (if span \<le> 1 then 8 else if span \<le> 2 then 16 else if span \<le> 4 then 32 else 64)"

section \<open>Access\<close>

definition bf_accum :: "bit_member \<Rightarrow> 8 word list \<Rightarrow> 64 word" where
  "bf_accum m src =
    fold (\<lambda>i accum. accum OR push_bit (8 * i) (ucast (byte_at src (first_byte m + i)))) [0..<span_bytes m] 0"

definition full_mask :: "bit_member \<Rightarrow> 64 word" where
  "full_mask m =
    (if kBitWidth m = BestWordForSpan (span_bytes m) then mask (BestWordForSpan (span_bytes m))
     else push_bit (kBitWidth m) 1 - 1)"

definition read_bits :: "bit_member \<Rightarrow> 8 word list \<Rightarrow> 64 word" where
  "read_bits m src = drop_bit (kIndex m - first_byte m * 8) (bf_accum m src) AND full_mask m"

text \<open>A member of a signed type is extended from its highest bit.\<close>

definition read_bits_signed :: "bit_member \<Rightarrow> 8 word list \<Rightarrow> 64 word" where
  "read_bits_signed m src = signed_take_bit (kBitWidth m - 1) (read_bits m src)"

definition write_bits :: "bit_member \<Rightarrow> 64 word \<Rightarrow> 8 word list \<Rightarrow> 8 word list" where
  "write_bits m value dst =
    (let inner_offset = kIndex m - first_byte m * 8;
         accum = (bf_accum m dst AND NOT (push_bit inner_offset (full_mask m)))
                 OR push_bit inner_offset (value AND full_mask m) in
     put_bytes (first_byte m) (map (\<lambda>i. ucast (drop_bit (8 * i) accum AND 0xFF)) [0..<span_bytes m]) dst)"

text \<open>Access through a reference to the byte at an offset of a buffer.\<close>

definition bf_get :: "nat \<Rightarrow> bit_member \<Rightarrow> 8 word list \<Rightarrow> 64 word" where
  "bf_get off m src = read_bits m (drop off src)"

definition bf_set :: "nat \<Rightarrow> bit_member \<Rightarrow> 64 word \<Rightarrow> 8 word list \<Rightarrow> 8 word list" where
  "bf_set off m value dst = take off dst @ write_bits m value (drop off dst)"

section \<open>Bits of a buffer\<close>

text \<open>Bit \<open>n\<close> of a buffer is bit \<open>n mod 8\<close> of its byte \<open>n div 8\<close>.\<close>

definition bit_of :: "8 word list \<Rightarrow> nat \<Rightarrow> bool" where
  "bit_of bs n = bit (byte_at bs (n div 8)) (n mod 8)"

lemma byte_at_drop: "byte_at (drop k bs) i = byte_at bs (k + i)"
  by (auto simp: byte_at_def add.commute)

lemma bit_of_drop: "bit_of (drop k bs) n = bit_of bs (8 * k + n)"
  by (simp add: bit_of_def byte_at_drop)

lemma eight_split: "i < 8 \<Longrightarrow> (8 * q + i) div 8 = q \<and> (8 * q + i) mod 8 = (i :: nat)"
  by simp

lemma bit_accum:
  "n \<le> 8 \<Longrightarrow> bit (fold (\<lambda>i a. a OR push_bit (8 * i) (ucast (byte_at src (f + i)))) [0..<n] (0 :: 64 word)) j
    \<longleftrightarrow> j < 8 * n \<and> bit_of src (8 * f + j)"
proof (induction n)
  case 0
  then show ?case by simp
next
  case (Suc n)
  have b: "bit (push_bit (8 * n) (ucast (byte_at src (f + n)) :: 64 word)) j
      \<longleftrightarrow> 8 * n \<le> j \<and> j < 8 * n + 8 \<and> bit (byte_at src (f + n)) (j - 8 * n)"
    using Suc.prems by (auto simp: bit_push_bit_iff bit_ucast_iff dest: bit_imp_le_length)
  have m: "(8 * f + j) div 8 = f + n \<and> (8 * f + j) mod 8 = j - 8 * n" if "8 * n \<le> j" "j < 8 * n + 8"
  proof -
    obtain i where j: "j = 8 * n + i" using le_Suc_ex[OF \<open>8 * n \<le> j\<close>] by blast
    then have i: "j = 8 * n + i" "i < 8" using that(2) by simp_all
    have "8 * f + j = 8 * (f + n) + i" using i by simp
    then show ?thesis using eight_split[OF i(2), of "f + n"] i by simp
  qed
  show ?case using Suc b m by (auto simp: bit_or_iff bit_of_def)
qed

lemma byte_bounds: "(x :: nat) \<le> 8 * ((x + 7) div 8)" "8 * (x div 8) \<le> x" "x < 8 * (x div 8) + 8" "8 * ((x + 7) div 8) \<le> x + 7"
proof -
  have "8 * (x div 8) + x mod 8 = x" "8 * ((x + 7) div 8) + (x + 7) mod 8 = x + 7" by simp_all
  moreover have "x mod 8 < 8" "(x + 7) mod 8 < 8" by simp_all
  ultimately show "x \<le> 8 * ((x + 7) div 8)" "8 * (x div 8) \<le> x" "x < 8 * (x div 8) + 8" "8 * ((x + 7) div 8) \<le> x + 7"
    by linarith+
qed

lemma span_bits:
  assumes "check_member sz m"
  shows "kIndex m + kBitWidth m \<le> 8 * first_byte m + 8 * span_bytes m" "8 * first_byte m \<le> kIndex m"
    "kIndex m < 8 * first_byte m + 8" "span_bytes m \<le> 8" "first_byte m + span_bytes m \<le> sz" "0 < kBitWidth m"
    "first_byte m + span_bytes m = last_byte m"
  using assms byte_bounds(1,4)[of "kIndex m + kBitWidth m"] byte_bounds(2,3)[of "kIndex m"]
  unfolding check_member_def span_bytes_def first_byte_def last_byte_def by linarith+

lemma bit_full_mask:
  assumes "check_member sz m"
  shows "bit (full_mask m) j \<longleftrightarrow> j < kBitWidth m"
proof -
  have w: "kBitWidth m \<le> 64" using span_bits[OF assms] by linarith
  have "full_mask m = mask (kBitWidth m)" by (simp add: full_mask_def mask_eq_exp_minus_1 push_bit_eq_mult)
  then show ?thesis using w by (auto simp: bit_mask_iff)
qed

lemma bit_read_bits:
  assumes "check_member sz m"
  shows "bit (read_bits m src) j \<longleftrightarrow> j < kBitWidth m \<and> bit_of src (kIndex m + j)"
proof -
  note sb = span_bits[OF assms]
  have "bit (bf_accum m src) (kIndex m - first_byte m * 8 + j)
      \<longleftrightarrow> kIndex m - first_byte m * 8 + j < 8 * span_bytes m \<and> bit_of src (8 * first_byte m + (kIndex m - first_byte m * 8 + j))"
    unfolding bf_accum_def using sb(4) by (rule bit_accum)
  moreover have "8 * first_byte m + (kIndex m - first_byte m * 8 + j) = kIndex m + j" using sb(2) by linarith
  moreover have "j < kBitWidth m \<Longrightarrow> kIndex m - first_byte m * 8 + j < 8 * span_bytes m" using sb(1,2) by linarith
  ultimately show ?thesis
    by (auto simp: read_bits_def bit_and_iff bit_drop_bit_eq bit_full_mask[OF assms])
qed

lemma bit_of_put_bytes:
  assumes "off + length d \<le> length bs"
  shows "bit_of (put_bytes off d bs) n = (if 8 * off \<le> n \<and> n < 8 * (off + length d) then bit_of d (n - 8 * off) else bit_of bs n)"
proof -
  obtain q i where n: "n = 8 * q + i" "i < 8" using mult_div_mod_eq[of 8 n, symmetric] mod_less_divisor[of 8 n] by fastforce
  note q = eight_split[OF n(2)]
  show ?thesis
  proof (cases "off \<le> q \<and> q < off + length d")
    case True
    then have "Suc q \<le> off + length d" by simp
    then have "8 * Suc q \<le> 8 * (off + length d)" by (rule mult_le_mono2)
    then have c: "8 * off \<le> n \<and> n < 8 * (off + length d)" using conjunct1[OF True] n by (intro conjI) simp_all
    obtain k where k: "q = off + k" using le_Suc_ex[OF conjunct1[OF True]] by blast
    then have "n - 8 * off = 8 * k + i" using n by simp
    then show ?thesis using c k True q[of k] q[of q] byte_at_put_bytes[OF assms, of q] by (simp add: bit_of_def n(1) byte_at_in_range)
  next
    case False
    then have c: "(8 * off \<le> n \<and> n < 8 * (off + length d)) = False" using n by (auto; linarith)
    show ?thesis unfolding c using False q[of q] byte_at_put_bytes[OF assms, of q] by (auto simp: bit_of_def n(1))
  qed
qed

lemma length_write_bits [simp]: "check_member sz m \<Longrightarrow> sz \<le> length dst \<Longrightarrow> length (write_bits m v dst) = length dst"
  using span_bits(5)[of sz m] by (simp add: write_bits_def Let_def)

lemma bit_write_bits:
  assumes m: "check_member sz m" and len: "sz \<le> length dst"
  shows "bit_of (write_bits m v dst) n
    = (if kIndex m \<le> n \<and> n < kIndex m + kBitWidth m then bit v (n - kIndex m) else bit_of dst n)"
proof -
  note sb = span_bits[OF m]
  define k where "k = kIndex m - first_byte m * 8"
  have ki: "kIndex m = 8 * first_byte m + k" using sb(2) by (simp add: k_def)
  define accum where "accum = (bf_accum m dst AND NOT (push_bit k (full_mask m))) OR push_bit k (v AND full_mask m)"
  let ?d = "map (\<lambda>i. ucast (drop_bit (8 * i) accum AND 0xFF)) [0..<span_bytes m] :: 8 word list"
  have w: "write_bits m v dst = put_bytes (first_byte m) ?d dst" by (simp add: write_bits_def Let_def accum_def k_def)
  have a: "bit accum j \<longleftrightarrow> (if k \<le> j \<and> j < k + kBitWidth m then bit v (j - k) else bit_of dst (8 * first_byte m + j))"
    if "j < 8 * span_bytes m" for j
  proof -
    have "j < 64" using that sb(4) by linarith
    then show ?thesis
      using that bit_accum[OF sb(4), of dst "first_byte m" j]
      by (auto simp: accum_def bf_accum_def bit_or_iff bit_and_iff bit_not_iff bit_push_bit_iff bit_full_mask[OF m])
  qed
  have e: "(0xFF :: 64 word) = mask 8" by (simp add: mask_eq_exp_minus_1)
  have d: "bit_of ?d j = bit accum j" if "j < 8 * span_bytes m" for j
  proof -
    have "j mod 8 < 8" by simp
    then have "j mod 8 < 64" by linarith
    moreover have "j div 8 < span_bytes m" "j mod 8 < 8" "8 * (j div 8) + j mod 8 = j" using that by auto
    ultimately show ?thesis unfolding e
      by (auto simp: bit_of_def byte_at_def bit_ucast_iff bit_and_iff bit_drop_bit_eq bit_mask_iff)
  qed
  have "bit_of (write_bits m v dst) n = (if 8 * first_byte m \<le> n \<and> n < 8 * (first_byte m + span_bytes m)
      then bit accum (n - 8 * first_byte m) else bit_of dst n)"
    unfolding w using bit_of_put_bytes[of "first_byte m" ?d dst n] sb(5) len d[of "n - 8 * first_byte m"] by auto
  moreover have "?thesis" if "n = 8 * first_byte m + j" for j
    using a[of j] sb(1) ki that calculation by auto
  ultimately show ?thesis using ki le_Suc_ex[of "8 * first_byte m" n] by (cases "8 * first_byte m \<le> n") auto
qed

section \<open>Members of a buffer\<close>

text \<open>What a member holds after a write: its own value, cut to its width, and everything else as
  before.  All conditions are about constants.\<close>

lemma length_bf_set [simp]: "check_member sz m \<Longrightarrow> off + sz \<le> length dst \<Longrightarrow> length (bf_set off m v dst) = length dst"
  by (simp add: bf_set_def)

lemma member_end: "check_member sz m \<Longrightarrow> kIndex m + kBitWidth m \<le> 8 * sz"
  by (auto simp: check_member_def)

lemma bit_bf_set:
  assumes "check_member sz m" and "off + sz \<le> length dst"
  shows "bit_of (bf_set off m v dst) n
    = (if 8 * off + kIndex m \<le> n \<and> n < 8 * off + kIndex m + kBitWidth m then bit v (n - (8 * off + kIndex m)) else bit_of dst n)"
proof -
  have w: "bf_set off m v dst = put_bytes off (write_bits m v (drop off dst)) dst"
    using assms by (simp add: bf_set_def put_bytes_def)
  have "length (write_bits m v (drop off dst)) = length dst - off" using assms by simp
  moreover have "off \<le> length dst" using assms by simp
  ultimately have p: "bit_of (bf_set off m v dst) n = (if 8 * off \<le> n \<and> n < 8 * length dst
      then bit_of (write_bits m v (drop off dst)) (n - 8 * off) else bit_of dst n)"
    unfolding w using bit_of_put_bytes[of off "write_bits m v (drop off dst)" dst n] by simp
  have b: "bit_of (write_bits m v (drop off dst)) j
      = (if kIndex m \<le> j \<and> j < kIndex m + kBitWidth m then bit v (j - kIndex m) else bit_of (drop off dst) j)" for j
    using bit_write_bits[OF assms(1), of "drop off dst" v j] assms(2) by simp
  have e: "kIndex m + kBitWidth m \<le> 8 * sz" using member_end[OF assms(1)] .
  show ?thesis
  proof (cases "8 * off \<le> n")
    case True
    from le_Suc_ex[OF this] obtain j where "n = 8 * off + j" by blast
    then show ?thesis using p b[of j] e assms(2) by (auto simp: bit_of_drop)
  next
    case False
    then show ?thesis using p by simp
  qed
qed

lemma bit_bf_get:
  "check_member sz m \<Longrightarrow> bit (bf_get off m src) j \<longleftrightarrow> j < kBitWidth m \<and> bit_of src (8 * off + kIndex m + j)"
  by (simp add: bf_get_def bit_read_bits bit_of_drop add.assoc)

lemma bf_get_set_same:
  assumes "check_member sz m" and "off + sz \<le> length dst"
  shows "bf_get off m (bf_set off m v dst) = take_bit (kBitWidth m) v"
  by (rule bit_eqI) (auto simp: bit_bf_get[OF assms(1)] bit_bf_set[OF assms] bit_take_bit_iff)

lemma bf_get_set_other:
  assumes "check_member sz m" and "off + sz \<le> length dst" and "check_member sz' m'"
    and "8 * off + kIndex m + kBitWidth m \<le> 8 * off' + kIndex m' \<or> 8 * off' + kIndex m' + kBitWidth m' \<le> 8 * off + kIndex m"
  shows "bf_get off' m' (bf_set off m v dst) = bf_get off' m' dst"
  using assms(4) by (intro bit_eqI) (auto simp: bit_bf_get[OF assms(3)] bit_bf_set[OF assms(1,2)])

lemma bf_get_put_bytes:
  assumes "off + length d \<le> length dst" and "check_member sz m"
    and "8 * off' + kIndex m + kBitWidth m \<le> 8 * off \<or> 8 * (off + length d) \<le> 8 * off' + kIndex m"
  shows "bf_get off' m (put_bytes off d dst) = bf_get off' m dst"
  using assms(3) by (intro bit_eqI) (auto simp: bit_bf_get[OF assms(2)] bit_of_put_bytes[OF assms(1)])

lemma bf_get_prefix:
  assumes "check_member sz m" and "off + sz \<le> k" and "k \<le> length src"
  shows "bf_get off m (take k src) = bf_get off m src" "bf_get off m (src @ r) = bf_get off m src"
proof -
  have "kIndex m + kBitWidth m \<le> 8 * sz" using member_end[OF assms(1)] .
  then have "j < kBitWidth m \<Longrightarrow> (8 * off + kIndex m + j) div 8 < k" for j using assms(2) by auto
  then have "j < kBitWidth m \<Longrightarrow> bit_of (take k src) (8 * off + kIndex m + j) = bit_of src (8 * off + kIndex m + j)"
    "j < kBitWidth m \<Longrightarrow> bit_of (src @ r) (8 * off + kIndex m + j) = bit_of src (8 * off + kIndex m + j)" for j
    using assms(3) by (force simp: bit_of_def byte_at_def nth_append)+
  then show "bf_get off m (take k src) = bf_get off m src" "bf_get off m (src @ r) = bf_get off m src"
    by (auto intro!: bit_eqI simp: bit_bf_get[OF assms(1)])
qed

text \<open>The same as rewrite rules, for members of any structure that is long enough.\<close>

definition member_ok :: "bit_member \<Rightarrow> bool" where
  "member_ok m = (0 < kBitWidth m \<and> span_bytes m \<le> 8)"

lemma member_ok_check: "member_ok m \<Longrightarrow> check_member (last_byte m) m"
  using byte_bounds(1)[of "kIndex m + kBitWidth m"] byte_bounds(2)[of "kIndex m"]
  by (auto simp: member_ok_def check_member_def span_bytes_def last_byte_def first_byte_def)

named_theorems members

lemmas member_eval = member_ok_def span_bytes_def last_byte_def first_byte_def BitfieldMember_def

lemma bf_length [simp]: "member_ok m \<Longrightarrow> off + last_byte m \<le> length dst \<Longrightarrow> length (bf_set off m v dst) = length dst"
  by (rule length_bf_set[OF member_ok_check])

lemma bf_same [simp]:
  "member_ok m \<Longrightarrow> off + last_byte m \<le> length dst \<Longrightarrow> bf_get off m (bf_set off m v dst) = take_bit (kBitWidth m) v"
  by (rule bf_get_set_same[OF member_ok_check])

lemma bf_other:
  "member_ok m \<Longrightarrow> off + last_byte m \<le> length dst \<Longrightarrow> member_ok m'
   \<Longrightarrow> 8 * off + kIndex m + kBitWidth m \<le> 8 * off' + kIndex m' \<or> 8 * off' + kIndex m' + kBitWidth m' \<le> 8 * off + kIndex m
   \<Longrightarrow> bf_get off' m' (bf_set off m v dst) = bf_get off' m' dst"
  using member_ok_check bf_get_set_other by blast

lemma bf_put:
  "off + length d \<le> length dst \<Longrightarrow> member_ok m
   \<Longrightarrow> 8 * off' + kIndex m + kBitWidth m \<le> 8 * off \<or> 8 * (off + length d) \<le> 8 * off' + kIndex m
   \<Longrightarrow> bf_get off' m (put_bytes off d dst) = bf_get off' m dst"
  using member_ok_check bf_get_put_bytes by blast

lemma bf_prefix:
  "member_ok m \<Longrightarrow> off + last_byte m \<le> k \<Longrightarrow> k \<le> length src \<Longrightarrow> bf_get off m (take k src) = bf_get off m src"
  "member_ok m \<Longrightarrow> off + last_byte m \<le> length src \<Longrightarrow> bf_get off m (src @ r) = bf_get off m src"
  using bf_get_prefix(1)[OF member_ok_check] bf_get_prefix(2)[OF member_ok_check, of m off "length src"] by auto

end
