(* ===== verification/Protocol.thy ===== *)
theory Protocol
  imports Bitfield
begin

text \<open>
  The wire protocol of the boards, \<open>core/src/protocol/protocol.hpp\<close>, and the views of its fields,
  \<open>core/include/librmcs/data/datas.hpp\<close>.

  A field id, a session type, a GPIO payload type and a pull setting are bytes on the wire that the
  code casts to an enumeration without a check, so they stay bytes here.  Signed samples are words of
  their width.  A span of bytes is a byte list.
\<close>

unbundle bit_operations_syntax

section \<open>Layouts\<close>

definition FieldHeader_Id :: bit_member where [members]: "FieldHeader_Id = BitfieldMember 0 4"
definition FieldHeaderExtended_IdExtended :: bit_member where [members]: "FieldHeaderExtended_IdExtended = BitfieldMember 4 8"
definition CanHeader_IsFdCan :: bit_member where [members]: "CanHeader_IsFdCan = BitfieldMember 4 1"
definition CanHeader_IsExtendedCanId :: bit_member where [members]: "CanHeader_IsExtendedCanId = BitfieldMember 5 1"
definition CanHeader_IsRemoteTransmission :: bit_member where [members]: "CanHeader_IsRemoteTransmission = BitfieldMember 6 1"
definition CanHeader_HasCanData :: bit_member where [members]: "CanHeader_HasCanData = BitfieldMember 7 1"
definition CanHeaderStandard_CanId :: bit_member where [members]: "CanHeaderStandard_CanId = BitfieldMember 8 11"
definition CanHeaderStandard_HasTimestamp :: bit_member where [members]: "CanHeaderStandard_HasTimestamp = BitfieldMember 19 1"
definition CanHeaderStandard_DataLengthCode :: bit_member where [members]: "CanHeaderStandard_DataLengthCode = BitfieldMember 21 3"
definition CanHeaderExtended_CanId :: bit_member where [members]: "CanHeaderExtended_CanId = BitfieldMember 8 29"
definition CanHeaderExtended_DataLengthCode :: bit_member where [members]: "CanHeaderExtended_DataLengthCode = BitfieldMember 37 3"
definition CanHeaderExtended_HasTimestamp :: bit_member where [members]: "CanHeaderExtended_HasTimestamp = BitfieldMember 40 1"
definition UartHeader_IdleDelimited :: bit_member where [members]: "UartHeader_IdleDelimited = BitfieldMember 4 1"
definition UartHeader_IsExtendedLength :: bit_member where [members]: "UartHeader_IsExtendedLength = BitfieldMember 5 1"
definition UartHeader_DataLength :: bit_member where [members]: "UartHeader_DataLength = BitfieldMember 6 2"
definition UartHeaderExtended_DataLengthExtended :: bit_member where [members]: "UartHeaderExtended_DataLengthExtended = BitfieldMember 6 10"
definition UartConfigPayload_Baudrate :: bit_member where [members]: "UartConfigPayload_Baudrate = BitfieldMember 4 32"
definition SessionHeader_Type :: bit_member where [members]: "SessionHeader_Type = BitfieldMember 4 4"
definition SessionHeader_Nonce :: bit_member where [members]: "SessionHeader_Nonce = BitfieldMember 8 32"
definition TimeAnchorPayload_Microframe :: bit_member where [members]: "TimeAnchorPayload_Microframe = BitfieldMember 0 64"
definition TimeStatusPayload_Microframe :: bit_member where [members]: "TimeStatusPayload_Microframe = BitfieldMember 0 64"
definition TimeStatusPayload_TimestampQuarterUs :: bit_member where [members]: "TimeStatusPayload_TimestampQuarterUs = BitfieldMember 64 32"
definition TimeStatusPayload_TicksPerMicroframeQ16 :: bit_member where [members]: "TimeStatusPayload_TicksPerMicroframeQ16 = BitfieldMember 96 32"
definition TimeStatusPayload_State :: bit_member where [members]: "TimeStatusPayload_State = BitfieldMember 128 8"
definition TimeStatusPayload_AnomalyCount :: bit_member where [members]: "TimeStatusPayload_AnomalyCount = BitfieldMember 136 24"
definition TimeStatusPayload_ResidualMeanQ16 :: bit_member where [members]: "TimeStatusPayload_ResidualMeanQ16 = BitfieldMember 160 32"
definition TimeStatusPayload_ResidualAbsMaxQ16 :: bit_member where [members]: "TimeStatusPayload_ResidualAbsMaxQ16 = BitfieldMember 192 32"
definition TimeStatusPayload_ResidualCount :: bit_member where [members]: "TimeStatusPayload_ResidualCount = BitfieldMember 224 16"
definition TimeStatusPayload_PtpcUnitsPerMicroframe :: bit_member where [members]: "TimeStatusPayload_PtpcUnitsPerMicroframe = BitfieldMember 240 32"
definition TimeStatusPayload_PtpcReferenceUnits :: bit_member where [members]: "TimeStatusPayload_PtpcReferenceUnits = BitfieldMember 272 64"
definition TimeStatusPayload_PtpcReferenceMicroframe :: bit_member where [members]: "TimeStatusPayload_PtpcReferenceMicroframe = BitfieldMember 336 64"
definition TimeStatusPayload_PtpcResidualMean :: bit_member where [members]: "TimeStatusPayload_PtpcResidualMean = BitfieldMember 400 32"
definition TimeStatusPayload_PtpcResidualAbsMax :: bit_member where [members]: "TimeStatusPayload_PtpcResidualAbsMax = BitfieldMember 432 32"
definition TimeStatusPayload_PtpcStepMin :: bit_member where [members]: "TimeStatusPayload_PtpcStepMin = BitfieldMember 464 32"
definition TimeStatusPayload_PtpcStepMax :: bit_member where [members]: "TimeStatusPayload_PtpcStepMax = BitfieldMember 496 32"
definition TimeStatusPayload_PtpcRawNs :: bit_member where [members]: "TimeStatusPayload_PtpcRawNs = BitfieldMember 528 32"
definition TimeStatusPayload_PtpcRawMicroframe :: bit_member where [members]: "TimeStatusPayload_PtpcRawMicroframe = BitfieldMember 560 64"
definition SyncSamplePayload_Tag :: bit_member where [members]: "SyncSamplePayload_Tag = BitfieldMember 0 32"
definition SyncSamplePayload_MicroframeQ16 :: bit_member where [members]: "SyncSamplePayload_MicroframeQ16 = BitfieldMember 32 64"
definition SyncSamplePayload_Bus :: bit_member where [members]: "SyncSamplePayload_Bus = BitfieldMember 96 8"
definition SyncSamplePayload_PtpcNs :: bit_member where [members]: "SyncSamplePayload_PtpcNs = BitfieldMember 104 32"
definition PulseSchedulePayload_Microframe :: bit_member where [members]: "PulseSchedulePayload_Microframe = BitfieldMember 0 64"
definition PulseReportPayload_ScheduledMicroframe :: bit_member where [members]: "PulseReportPayload_ScheduledMicroframe = BitfieldMember 0 64"
definition PulseReportPayload_CapturedMicroframeQ16 :: bit_member where [members]: "PulseReportPayload_CapturedMicroframeQ16 = BitfieldMember 64 64"
definition PulseReportPayload_TicksPerMicroframeQ16 :: bit_member where [members]: "PulseReportPayload_TicksPerMicroframeQ16 = BitfieldMember 128 32"
definition PulseReportPayload_Flags :: bit_member where [members]: "PulseReportPayload_Flags = BitfieldMember 160 8"
definition GpioHeader_PayloadType :: bit_member where [members]: "GpioHeader_PayloadType = BitfieldMember 4 4"
definition GpioHeader_ChannelIndex :: bit_member where [members]: "GpioHeader_ChannelIndex = BitfieldMember 8 6"
definition GpioHeader_Timestamped :: bit_member where [members]: "GpioHeader_Timestamped = BitfieldMember 15 1"
definition GpioReadConfigPayload_Asap :: bit_member where [members]: "GpioReadConfigPayload_Asap = BitfieldMember 0 1"
definition GpioReadConfigPayload_RisingEdge :: bit_member where [members]: "GpioReadConfigPayload_RisingEdge = BitfieldMember 1 1"
definition GpioReadConfigPayload_FallingEdge :: bit_member where [members]: "GpioReadConfigPayload_FallingEdge = BitfieldMember 2 1"
definition GpioReadConfigPayload_Pull :: bit_member where [members]: "GpioReadConfigPayload_Pull = BitfieldMember 4 2"
definition GpioReadConfigPayload_PeriodMs :: bit_member where [members]: "GpioReadConfigPayload_PeriodMs = BitfieldMember 8 16"
definition GpioDigitalReadTimestampPayload_TimestampQuarterUs :: bit_member where [members]: "GpioDigitalReadTimestampPayload_TimestampQuarterUs = BitfieldMember 0 32"
definition GpioAnalogPayload_Value :: bit_member where [members]: "GpioAnalogPayload_Value = BitfieldMember 0 16"
definition ImuHeader_PayloadType :: bit_member where [members]: "ImuHeader_PayloadType = BitfieldMember 4 4"
definition ImuAccelerometerPayload_X :: bit_member where [members]: "ImuAccelerometerPayload_X = BitfieldMember 0 16"
definition ImuAccelerometerPayload_Y :: bit_member where [members]: "ImuAccelerometerPayload_Y = BitfieldMember 16 16"
definition ImuAccelerometerPayload_Z :: bit_member where [members]: "ImuAccelerometerPayload_Z = BitfieldMember 32 16"
definition ImuAccelerometerPayload_TimestampQuarterUs :: bit_member where [members]: "ImuAccelerometerPayload_TimestampQuarterUs = BitfieldMember 48 32"
definition ImuGyroscopePayload_X :: bit_member where [members]: "ImuGyroscopePayload_X = BitfieldMember 0 16"
definition ImuGyroscopePayload_Y :: bit_member where [members]: "ImuGyroscopePayload_Y = BitfieldMember 16 16"
definition ImuGyroscopePayload_Z :: bit_member where [members]: "ImuGyroscopePayload_Z = BitfieldMember 32 16"
definition ImuGyroscopePayload_TimestampQuarterUs :: bit_member where [members]: "ImuGyroscopePayload_TimestampQuarterUs = BitfieldMember 48 32"
definition ImuTemperaturePayload_Temperature :: bit_member where [members]: "ImuTemperaturePayload_Temperature = BitfieldMember 0 16"
definition ImuTemperaturePayload_TimestampQuarterUs :: bit_member where [members]: "ImuTemperaturePayload_TimestampQuarterUs = BitfieldMember 16 32"

definition sizeof_FieldHeader :: nat where [members]: "sizeof_FieldHeader = 1"
definition sizeof_FieldHeaderExtended :: nat where [members]: "sizeof_FieldHeaderExtended = 2"
definition sizeof_CanHeader :: nat where [members]: "sizeof_CanHeader = 1"
definition sizeof_CanHeaderStandard :: nat where [members]: "sizeof_CanHeaderStandard = 3"
definition sizeof_CanHeaderExtended :: nat where [members]: "sizeof_CanHeaderExtended = 6"
definition sizeof_UartHeader :: nat where [members]: "sizeof_UartHeader = 1"
definition sizeof_UartHeaderExtended :: nat where [members]: "sizeof_UartHeaderExtended = 2"
definition sizeof_UartConfigPayload :: nat where [members]: "sizeof_UartConfigPayload = 5"
definition sizeof_SessionHeader :: nat where [members]: "sizeof_SessionHeader = 5"
definition sizeof_TimeAnchorPayload :: nat where [members]: "sizeof_TimeAnchorPayload = 8"
definition sizeof_TimeStatusPayload :: nat where [members]: "sizeof_TimeStatusPayload = 78"
definition sizeof_SyncSamplePayload :: nat where [members]: "sizeof_SyncSamplePayload = 18"
definition sizeof_PulseSchedulePayload :: nat where [members]: "sizeof_PulseSchedulePayload = 8"
definition sizeof_PulseReportPayload :: nat where [members]: "sizeof_PulseReportPayload = 21"
definition sizeof_GpioHeader :: nat where [members]: "sizeof_GpioHeader = 2"
definition sizeof_GpioReadConfigPayload :: nat where [members]: "sizeof_GpioReadConfigPayload = 3"
definition sizeof_GpioDigitalReadTimestampPayload :: nat where [members]: "sizeof_GpioDigitalReadTimestampPayload = 4"
definition sizeof_GpioAnalogPayload :: nat where [members]: "sizeof_GpioAnalogPayload = 2"
definition sizeof_ImuHeader :: nat where [members]: "sizeof_ImuHeader = 1"
definition sizeof_ImuAccelerometerPayload :: nat where [members]: "sizeof_ImuAccelerometerPayload = 10"
definition sizeof_ImuGyroscopePayload :: nat where [members]: "sizeof_ImuGyroscopePayload = 10"
definition sizeof_ImuTemperaturePayload :: nat where [members]: "sizeof_ImuTemperaturePayload = 6"

definition kProtocolBufferSize :: nat where
  "kProtocolBufferSize = 1023"

section \<open>Field ids\<close>

abbreviation kExtend :: "8 word" where "kExtend \<equiv> 0"
abbreviation kGpio :: "8 word" where "kGpio \<equiv> 1"
abbreviation kImu :: "8 word" where "kImu \<equiv> 15"
abbreviation kSession :: "8 word" where "kSession \<equiv> 16"
abbreviation kTimeAnchor :: "8 word" where "kTimeAnchor \<equiv> 4"
abbreviation kTimeStatus :: "8 word" where "kTimeStatus \<equiv> 5"
abbreviation kSyncSample :: "8 word" where "kSyncSample \<equiv> 6"
abbreviation kPulseSchedule :: "8 word" where "kPulseSchedule \<equiv> 7"
abbreviation kPulseReport :: "8 word" where "kPulseReport \<equiv> 8"
abbreviation kDigitalLow :: "8 word" where "kDigitalLow \<equiv> 0"
abbreviation kDigitalHigh :: "8 word" where "kDigitalHigh \<equiv> 1"
abbreviation kAnalog :: "8 word" where "kAnalog \<equiv> 2"
abbreviation kDigitalReadConfig :: "8 word" where "kDigitalReadConfig \<equiv> 4"
abbreviation kAnalogReadConfig :: "8 word" where "kAnalogReadConfig \<equiv> 6"
abbreviation kAccelerometer :: "8 word" where "kAccelerometer \<equiv> 0"
abbreviation kGyroscope :: "8 word" where "kGyroscope \<equiv> 1"
abbreviation kTemperature :: "8 word" where "kTemperature \<equiv> 2"

text \<open>\<open>kCan0\<close> to \<open>kCan7\<close>; \<open>kUartDbus\<close>, \<open>kUart0\<close> to \<open>kUart3\<close> and \<open>kUart4\<close>; \<open>kUartDbusConfig\<close>,
  \<open>kUart0Config\<close> to \<open>kUart3Config\<close> and \<open>kUart4Config\<close>.\<close>

definition can_ids :: "8 word list" where
  "can_ids = [2, 3, 4, 5, 6, 7, 8, 9]"

definition uart_ids :: "8 word list" where
  "uart_ids = [10, 11, 12, 13, 14, 30]"

definition uart_config_ids :: "8 word list" where
  "uart_config_ids = [25, 26, 27, 28, 29, 31]"

section \<open>Views\<close>

record can_view =
  can_id :: "32 word"
  can_data :: "8 word list"
  is_fdcan :: bool
  is_extended_can_id :: bool
  is_remote_transmission :: bool
  timestamp_us :: "32 word option"

record uart_view =
  uart_data :: "8 word list"
  idle_delimited :: bool

record uart_config_view =
  baudrate :: "32 word option"

record gpio_digital_view =
  high :: bool
  timestamp_quarter_us :: "32 word option"

record gpio_analog_view =
  analog_value :: "16 word"

record gpio_read_config_view =
  period_ms :: "16 word"
  asap :: bool
  rising_edge :: bool
  falling_edge :: bool
  capture_timestamp :: bool
  pull :: "8 word"

record imu_vector_view =
  imu_x :: "16 word"
  imu_y :: "16 word"
  imu_z :: "16 word"
  imu_timestamp :: "32 word"

record imu_temperature_view =
  raw_register_value :: "16 word"
  temperature_timestamp :: "32 word"

record session_view =
  session_type :: "8 word"
  session_nonce :: "32 word"

record microframe_view =
  mf_nonce :: "32 word"
  mf_microframe :: "64 word"

record time_status_view =
  ts_nonce :: "32 word"
  ts_microframe :: "64 word"
  ts_timestamp_quarter_us :: "32 word"
  ts_ticks_per_microframe_q16 :: "32 word"
  ts_state :: "8 word"
  ts_anomaly_count :: "32 word"
  ts_residual_mean_q16 :: "32 word"
  ts_residual_abs_max_q16 :: "32 word"
  ts_residual_count :: "16 word"
  ts_ptpc_units_per_microframe :: "32 word"
  ts_ptpc_reference_units :: "64 word"
  ts_ptpc_reference_microframe :: "64 word"
  ts_ptpc_residual_mean :: "32 word"
  ts_ptpc_residual_abs_max :: "32 word"
  ts_ptpc_step_min :: "32 word"
  ts_ptpc_step_max :: "32 word"
  ts_ptpc_raw_ns :: "32 word"
  ts_ptpc_raw_microframe :: "64 word"

record sync_sample_view =
  ss_nonce :: "32 word"
  ss_tag :: "32 word"
  ss_microframe_q16 :: "64 word"
  ss_bus :: "8 word"
  ss_ptpc_ns :: "32 word"

record pulse_report_view =
  pr_nonce :: "32 word"
  pr_scheduled_microframe :: "64 word"
  pr_captured_microframe_q16 :: "64 word"
  pr_ticks_per_microframe_q16 :: "32 word"
  pr_flags :: "8 word"

text \<open>A field as a receiver gets it: one case per callback of \<open>DeserializeCallback\<close>.\<close>

datatype field =
    FCan "8 word" can_view
  | FUart "8 word" uart_view
  | FUartConfig "8 word" uart_config_view
  | FGpioDigital "8 word" gpio_digital_view
  | FGpioAnalog "8 word" gpio_analog_view
  | FGpioDigitalReadConfig "8 word" gpio_read_config_view
  | FGpioAnalogReadConfig "8 word" gpio_read_config_view
  | FAccelerometer imu_vector_view
  | FGyroscope imu_vector_view
  | FTemperature imu_temperature_view
  | FSession session_view
  | FTimeAnchor microframe_view
  | FTimeStatus time_status_view
  | FSyncSample sync_sample_view
  | FPulseSchedule microframe_view
  | FPulseReport pulse_report_view

section \<open>Structures as lists of members\<close>

text \<open>Several members of the structure at an offset, set in turn.\<close>

primrec bf_sets :: "nat \<Rightarrow> (bit_member \<times> 64 word) list \<Rightarrow> 8 word list \<Rightarrow> 8 word list" where
  "bf_sets off [] dst = dst"
| "bf_sets off (f # fs) dst = bf_sets off fs (bf_set off (fst f) (snd f) dst)"

text \<open>The members lie in a structure of \<open>n\<close> bytes, apart from each other and from the first bits.\<close>

primrec layout_ok :: "nat \<Rightarrow> nat \<Rightarrow> bit_member list \<Rightarrow> bool" where
  "layout_ok free n [] = True"
| "layout_ok free n (m # ms) =
    (member_ok m \<and> last_byte m \<le> n \<and> free \<le> kIndex m
     \<and> (\<forall>m' \<in> set ms. kIndex m + kBitWidth m \<le> kIndex m' \<or> kIndex m' + kBitWidth m' \<le> kIndex m) \<and> layout_ok free n ms)"

lemma layout_ok_member: "layout_ok free n ms \<Longrightarrow> m \<in> set ms \<Longrightarrow> member_ok m \<and> last_byte m \<le> n \<and> free \<le> kIndex m"
  by (induction ms) auto

lemma length_bf_sets [simp]:
  "layout_ok free n (map fst fs) \<Longrightarrow> off + n \<le> length dst \<Longrightarrow> length (bf_sets off fs dst) = length dst"
  by (induction fs arbitrary: dst) auto

lemma bf_sets_below:
  assumes "layout_ok free n (map fst fs)" and "off + n \<le> length dst" and "member_ok m"
    and "8 * off' + kIndex m + kBitWidth m \<le> 8 * off + free"
  shows "bf_get off' m (bf_sets off fs dst) = bf_get off' m dst"
  using assms
proof (induction fs arbitrary: dst)
  case (Cons f fs)
  have "bf_get off' m (bf_sets off fs (bf_set off (fst f) (snd f) dst)) = bf_get off' m (bf_set off (fst f) (snd f) dst)"
    using Cons.prems by (intro Cons.IH) auto
  also have "\<dots> = bf_get off' m dst" using Cons.prems by (intro bf_other) auto
  finally show ?case by simp
qed simp

lemma bf_sets_apart:
  assumes "layout_ok free n (map fst fs)" and "off + n \<le> length dst" and "member_ok m"
    and "\<forall>m' \<in> fst ` set fs. kIndex m + kBitWidth m \<le> kIndex m' \<or> kIndex m' + kBitWidth m' \<le> kIndex m"
  shows "bf_get off m (bf_sets off fs dst) = bf_get off m dst"
  using assms
proof (induction fs arbitrary: dst)
  case (Cons f fs)
  have "bf_get off m (bf_sets off fs (bf_set off (fst f) (snd f) dst)) = bf_get off m (bf_set off (fst f) (snd f) dst)"
    using Cons.prems by (intro Cons.IH) auto
  also have "\<dots> = bf_get off m dst" using Cons.prems by (intro bf_other) auto
  finally show ?case by simp
qed simp

lemma bf_sets_get:
  assumes "layout_ok free n (map fst fs)" and "off + n \<le> length dst" and "(m, v) \<in> set fs"
  shows "bf_get off m (bf_sets off fs dst) = take_bit (kBitWidth m) v"
  using assms
proof (induction fs arbitrary: dst)
  case (Cons f fs)
  show ?case
  proof (cases "(m, v) \<in> set fs")
    case True
    then show ?thesis using Cons.prems by (simp, intro Cons.IH) auto
  next
    case False
    then have f: "f = (m, v)" using Cons.prems(3) by auto
    have "bf_get off m (bf_sets off fs (bf_set off m v dst)) = bf_get off m (bf_set off m v dst)"
      using Cons.prems f by (intro bf_sets_apart[of free n]) auto
    then show ?thesis using Cons.prems f by simp
  qed
qed simp

end
