(* ===== verification/Serializer.thy ===== *)
theory Serializer
  imports Protocol
begin

text \<open>
  The serializer, \<open>core/src/protocol/serializer.hpp\<close>.

  A \<open>SerializeBuffer\<close> is a pair of operations on a state of its own: \<open>allocate\<close> hands out a span, with
  whatever it contains, or the empty list; \<open>written\<close> stores what the serializer leaves in the span.
  Every write function computes the size it needs (0 for arguments it refuses), allocates, and fills the
  span; a fill function returns the cursor behind the last byte and the bytes of the span.  The debug
  assertions on the cursor hold because every fill returns a span of the size asked for, which the round
  trips of \<open>WireFields\<close> show.
\<close>

unbundle bit_operations_syntax

datatype serialize_result = kSuccess | kBadAlloc | kInvalidArgument

record 'b serialize_buffer =
  allocate :: "nat \<Rightarrow> 'b \<Rightarrow> 8 word list \<times> 'b"
  written :: "8 word list \<Rightarrow> 'b \<Rightarrow> 'b"

type_synonym fill = "8 word list \<Rightarrow> nat \<times> 8 word list"

definition serialize :: "'b serialize_buffer \<Rightarrow> nat \<Rightarrow> fill \<Rightarrow> 'b \<Rightarrow> serialize_result \<times> 'b" where
  "serialize B required fill b =
    (if required = 0 then (kInvalidArgument, b)
     else let (dst, b) = allocate B required b in
     if dst = [] then (kBadAlloc, b) else (kSuccess, written B (snd (fill dst)) b))"

section \<open>Field headers\<close>

definition use_extended_field_header :: "8 word \<Rightarrow> bool" where
  "use_extended_field_header field_id = (0xF < field_id)"

definition required_field_header_size :: "8 word \<Rightarrow> nat" where
  "required_field_header_size field_id =
    (if use_extended_field_header field_id then sizeof_FieldHeaderExtended else sizeof_FieldHeader)"

definition write_field_header :: "nat \<Rightarrow> 8 word \<Rightarrow> 8 word list \<Rightarrow> nat \<times> 8 word list" where
  "write_field_header cursor field_id dst =
    (if use_extended_field_header field_id
     then (cursor + 1, bf_sets cursor [(FieldHeader_Id, ucast kExtend), (FieldHeaderExtended_IdExtended, ucast field_id)] dst)
     else (cursor, bf_sets cursor [(FieldHeader_Id, ucast field_id)] dst))"

section \<open>CAN\<close>

definition required_can_size :: "8 word \<Rightarrow> can_view \<Rightarrow> nat" where
  "required_can_size field_id view =
    (if is_remote_transmission view \<and> can_data view \<noteq> [] then 0
     else if 8 < length (can_data view) then 0
     else if (if is_extended_can_id view then 0x1FFFFFFF < can_id view else 0x7FF < can_id view) then 0
     else (required_field_header_size field_id
           + (if is_extended_can_id view then sizeof_CanHeaderExtended else sizeof_CanHeaderStandard) - 1)
          + length (can_data view) + (if timestamp_us view \<noteq> None then 4 else 0))"

definition can_fill :: "8 word \<Rightarrow> can_view \<Rightarrow> fill" where
  "can_fill field_id view dst =
    (let (cursor, dst) = write_field_header 0 field_id dst;
         can_data_length = length (can_data view);
         has_data = (can_data_length \<noteq> 0);
         data_length_code = (if has_data then of_nat (can_data_length - 1) else 0 :: 8 word);
         has_timestamp = (timestamp_us view \<noteq> None);
         (cursor, dst) =
           (if is_extended_can_id view
            then (cursor + sizeof_CanHeaderExtended,
                  bf_sets cursor
                    [(CanHeader_IsFdCan, of_bool (is_fdcan view)), (CanHeader_IsExtendedCanId, of_bool True),
                     (CanHeader_IsRemoteTransmission, of_bool (is_remote_transmission view)),
                     (CanHeaderExtended_HasTimestamp, of_bool has_timestamp), (CanHeader_HasCanData, of_bool has_data),
                     (CanHeaderExtended_CanId, ucast (can_id view)), (CanHeaderExtended_DataLengthCode, ucast data_length_code)] dst)
            else (cursor + sizeof_CanHeaderStandard,
                  bf_sets cursor
                    [(CanHeader_IsFdCan, of_bool (is_fdcan view)), (CanHeader_IsExtendedCanId, of_bool False),
                     (CanHeader_IsRemoteTransmission, of_bool (is_remote_transmission view)),
                     (CanHeaderStandard_HasTimestamp, of_bool has_timestamp), (CanHeader_HasCanData, of_bool has_data),
                     (CanHeaderStandard_CanId, ucast (can_id view)), (CanHeaderStandard_DataLengthCode, ucast data_length_code)] dst));
         (cursor, dst) = (if has_data then (cursor + can_data_length, put_bytes cursor (can_data view) dst) else (cursor, dst)) in
     case timestamp_us view of
       None \<Rightarrow> (cursor, dst)
     | Some ts \<Rightarrow> (cursor + 4, put_bytes cursor (le32_bytes ts) dst))"

definition write_can :: "'b serialize_buffer \<Rightarrow> 8 word \<Rightarrow> can_view \<Rightarrow> 'b \<Rightarrow> serialize_result \<times> 'b" where
  "write_can B field_id view = serialize B (required_can_size field_id view) (can_fill field_id view)"

section \<open>UART\<close>

definition required_uart_size :: "8 word \<Rightarrow> uart_view \<Rightarrow> 8 word list \<Rightarrow> nat" where
  "required_uart_size field_id view suffix_data =
    (let uart_data_length = length (uart_data view) + length suffix_data in
     if kProtocolBufferSize < uart_data_length then 0
     else let total = (required_field_header_size field_id
                       + (if 4 \<le> uart_data_length then sizeof_UartHeaderExtended else sizeof_UartHeader) - 1) + uart_data_length in
     if kProtocolBufferSize < total then 0 else total)"

definition uart_fill :: "8 word \<Rightarrow> uart_view \<Rightarrow> 8 word list \<Rightarrow> fill" where
  "uart_fill field_id view suffix_data dst =
    (let (cursor, dst) = write_field_header 0 field_id dst;
         uart_data_length = length (uart_data view) + length suffix_data;
         (cursor, dst) =
           (if 4 \<le> uart_data_length
            then (cursor + sizeof_UartHeaderExtended,
                  bf_sets cursor
                    [(UartHeader_IdleDelimited, of_bool (idle_delimited view)), (UartHeader_IsExtendedLength, of_bool True),
                     (UartHeaderExtended_DataLengthExtended, ucast (of_nat uart_data_length :: 16 word))] dst)
            else (cursor + sizeof_UartHeader,
                  bf_sets cursor
                    [(UartHeader_IdleDelimited, of_bool (idle_delimited view)), (UartHeader_IsExtendedLength, of_bool False),
                     (UartHeader_DataLength, ucast (of_nat uart_data_length :: 8 word))] dst));
         (cursor, dst) = (if uart_data view \<noteq> [] then (cursor + length (uart_data view), put_bytes cursor (uart_data view) dst)
                          else (cursor, dst)) in
     if suffix_data \<noteq> [] then (cursor + length suffix_data, put_bytes cursor suffix_data dst) else (cursor, dst))"

definition write_uart :: "'b serialize_buffer \<Rightarrow> 8 word \<Rightarrow> uart_view \<Rightarrow> 8 word list \<Rightarrow> 'b \<Rightarrow> serialize_result \<times> 'b" where
  "write_uart B field_id view suffix_data =
    serialize B (required_uart_size field_id view suffix_data) (uart_fill field_id view suffix_data)"

definition is_uart_config_field_id :: "8 word \<Rightarrow> bool" where
  "is_uart_config_field_id field_id = (field_id \<in> set uart_config_ids)"

definition required_uart_config_size :: "8 word \<Rightarrow> 32 word \<Rightarrow> nat" where
  "required_uart_config_size field_id baud =
    (if \<not> is_uart_config_field_id field_id then 0 else if baud = 0 then 0
     else required_field_header_size field_id + sizeof_UartConfigPayload - sizeof_FieldHeader)"

definition uart_config_fill :: "8 word \<Rightarrow> 32 word \<Rightarrow> fill" where
  "uart_config_fill field_id baud dst =
    (let (cursor, dst) = write_field_header 0 field_id dst in
     (cursor + sizeof_UartConfigPayload, bf_sets cursor [(UartConfigPayload_Baudrate, ucast baud)] dst))"

definition write_uart_config :: "'b serialize_buffer \<Rightarrow> 8 word \<Rightarrow> uart_config_view \<Rightarrow> 'b \<Rightarrow> serialize_result \<times> 'b" where
  "write_uart_config B field_id view b =
    (case baudrate view of
       None \<Rightarrow> (kSuccess, b)
     | Some baud \<Rightarrow> serialize B (required_uart_config_size field_id baud) (uart_config_fill field_id baud) b)"

section \<open>GPIO\<close>

definition required_gpio_size :: "8 word \<Rightarrow> 8 word \<Rightarrow> bool \<Rightarrow> nat" where
  "required_gpio_size field_id payload timestamped =
    (let header = required_field_header_size field_id + sizeof_GpioHeader - 1 in
     if payload = kDigitalLow \<or> payload = kDigitalHigh
     then header + (if timestamped then sizeof_GpioDigitalReadTimestampPayload else 0)
     else if payload = kDigitalReadConfig \<or> payload = kAnalogReadConfig then header + sizeof_GpioReadConfigPayload
     else if payload = kAnalog then header + sizeof_GpioAnalogPayload else 0)"

definition gpio_header :: "8 word \<Rightarrow> 8 word \<Rightarrow> bool \<Rightarrow> fill" where
  "gpio_header payload channel_index timestamped dst =
    (let (cursor, dst) = write_field_header 0 kGpio dst in
     (cursor + sizeof_GpioHeader,
      bf_sets cursor [(GpioHeader_PayloadType, ucast payload), (GpioHeader_ChannelIndex, ucast channel_index),
        (GpioHeader_Timestamped, of_bool timestamped)] dst))"

definition gpio_digital_fill :: "8 word \<Rightarrow> gpio_digital_view \<Rightarrow> fill" where
  "gpio_digital_fill channel_index view dst =
    (let (cursor, dst) = gpio_header (if high view then kDigitalHigh else kDigitalLow) channel_index (timestamp_quarter_us view \<noteq> None) dst in
     case timestamp_quarter_us view of
       None \<Rightarrow> (cursor, dst)
     | Some ts \<Rightarrow> (cursor + sizeof_GpioDigitalReadTimestampPayload,
                   bf_sets cursor [(GpioDigitalReadTimestampPayload_TimestampQuarterUs, ucast ts)] dst))"

definition write_gpio_digital_value :: "'b serialize_buffer \<Rightarrow> 8 word \<Rightarrow> gpio_digital_view \<Rightarrow> 'b \<Rightarrow> serialize_result \<times> 'b" where
  "write_gpio_digital_value B channel_index view =
    serialize B (required_gpio_size kGpio (if high view then kDigitalHigh else kDigitalLow) (timestamp_quarter_us view \<noteq> None))
      (gpio_digital_fill channel_index view)"

definition gpio_config_payload :: "bool \<Rightarrow> bool \<Rightarrow> gpio_read_config_view \<Rightarrow> nat \<Rightarrow> 8 word list \<Rightarrow> nat \<times> 8 word list" where
  "gpio_config_payload rising falling view cursor dst =
    (cursor + sizeof_GpioReadConfigPayload,
     bf_sets cursor [(GpioReadConfigPayload_Asap, of_bool (asap view)), (GpioReadConfigPayload_RisingEdge, of_bool rising),
       (GpioReadConfigPayload_FallingEdge, of_bool falling), (GpioReadConfigPayload_Pull, ucast (pull view)),
       (GpioReadConfigPayload_PeriodMs, ucast (period_ms view))] dst)"

definition gpio_digital_config_fill :: "8 word \<Rightarrow> gpio_read_config_view \<Rightarrow> fill" where
  "gpio_digital_config_fill channel_index view dst =
    (let (cursor, dst) = gpio_header kDigitalReadConfig channel_index (capture_timestamp view) dst in
     gpio_config_payload (rising_edge view) (falling_edge view) view cursor dst)"

definition write_gpio_digital_read_config :: "'b serialize_buffer \<Rightarrow> 8 word \<Rightarrow> gpio_read_config_view \<Rightarrow> 'b \<Rightarrow> serialize_result \<times> 'b" where
  "write_gpio_digital_read_config B channel_index view =
    serialize B (required_gpio_size kGpio kDigitalReadConfig False) (gpio_digital_config_fill channel_index view)"

definition gpio_analog_fill :: "8 word \<Rightarrow> gpio_analog_view \<Rightarrow> fill" where
  "gpio_analog_fill channel_index view dst =
    (let (cursor, dst) = gpio_header kAnalog channel_index False dst in
     (cursor + sizeof_GpioAnalogPayload, bf_sets cursor [(GpioAnalogPayload_Value, ucast (analog_value view))] dst))"

definition write_gpio_analog_value :: "'b serialize_buffer \<Rightarrow> 8 word \<Rightarrow> gpio_analog_view \<Rightarrow> 'b \<Rightarrow> serialize_result \<times> 'b" where
  "write_gpio_analog_value B channel_index view =
    serialize B (required_gpio_size kGpio kAnalog False) (gpio_analog_fill channel_index view)"

definition gpio_analog_config_fill :: "8 word \<Rightarrow> gpio_read_config_view \<Rightarrow> fill" where
  "gpio_analog_config_fill channel_index view dst =
    (let (cursor, dst) = gpio_header kAnalogReadConfig channel_index False dst in
     gpio_config_payload False False view cursor dst)"

definition write_gpio_analog_read_config :: "'b serialize_buffer \<Rightarrow> 8 word \<Rightarrow> gpio_read_config_view \<Rightarrow> 'b \<Rightarrow> serialize_result \<times> 'b" where
  "write_gpio_analog_read_config B channel_index view b =
    (if falling_edge view \<or> rising_edge view then (kInvalidArgument, b)
     else if capture_timestamp view then (kInvalidArgument, b)
     else serialize B (required_gpio_size kGpio kAnalogReadConfig False) (gpio_analog_config_fill channel_index view) b)"

section \<open>Inertial sensors\<close>

definition required_imu_size :: "8 word \<Rightarrow> 8 word \<Rightarrow> nat" where
  "required_imu_size field_id payload =
    (let header = required_field_header_size field_id + sizeof_ImuHeader - 1 in
     if payload = kAccelerometer then header + sizeof_ImuAccelerometerPayload
     else if payload = kGyroscope then header + sizeof_ImuGyroscopePayload
     else if payload = kTemperature then header + sizeof_ImuTemperaturePayload else 0)"

definition imu_header :: "8 word \<Rightarrow> fill" where
  "imu_header payload dst =
    (let (cursor, dst) = write_field_header 0 kImu dst in
     (cursor + sizeof_ImuHeader, bf_sets cursor [(ImuHeader_PayloadType, ucast payload)] dst))"

definition accelerometer_fill :: "imu_vector_view \<Rightarrow> fill" where
  "accelerometer_fill view dst =
    (let (cursor, dst) = imu_header kAccelerometer dst in
     (cursor + sizeof_ImuAccelerometerPayload,
      bf_sets cursor [(ImuAccelerometerPayload_X, ucast (imu_x view)), (ImuAccelerometerPayload_Y, ucast (imu_y view)),
        (ImuAccelerometerPayload_Z, ucast (imu_z view)), (ImuAccelerometerPayload_TimestampQuarterUs, ucast (imu_timestamp view))] dst))"

definition write_imu_accelerometer :: "'b serialize_buffer \<Rightarrow> imu_vector_view \<Rightarrow> 'b \<Rightarrow> serialize_result \<times> 'b" where
  "write_imu_accelerometer B view = serialize B (required_imu_size kImu kAccelerometer) (accelerometer_fill view)"

definition gyroscope_fill :: "imu_vector_view \<Rightarrow> fill" where
  "gyroscope_fill view dst =
    (let (cursor, dst) = imu_header kGyroscope dst in
     (cursor + sizeof_ImuGyroscopePayload,
      bf_sets cursor [(ImuGyroscopePayload_X, ucast (imu_x view)), (ImuGyroscopePayload_Y, ucast (imu_y view)),
        (ImuGyroscopePayload_Z, ucast (imu_z view)), (ImuGyroscopePayload_TimestampQuarterUs, ucast (imu_timestamp view))] dst))"

definition write_imu_gyroscope :: "'b serialize_buffer \<Rightarrow> imu_vector_view \<Rightarrow> 'b \<Rightarrow> serialize_result \<times> 'b" where
  "write_imu_gyroscope B view = serialize B (required_imu_size kImu kGyroscope) (gyroscope_fill view)"

definition temperature_fill :: "imu_temperature_view \<Rightarrow> fill" where
  "temperature_fill view dst =
    (let (cursor, dst) = imu_header kTemperature dst in
     (cursor + sizeof_ImuTemperaturePayload,
      bf_sets cursor [(ImuTemperaturePayload_Temperature, ucast (raw_register_value view)),
        (ImuTemperaturePayload_TimestampQuarterUs, ucast (temperature_timestamp view))] dst))"

definition write_imu_temperature :: "'b serialize_buffer \<Rightarrow> imu_temperature_view \<Rightarrow> 'b \<Rightarrow> serialize_result \<times> 'b" where
  "write_imu_temperature B view = serialize B (required_imu_size kImu kTemperature) (temperature_fill view)"

section \<open>Session\<close>

definition required_session_size :: nat where
  "required_session_size = required_field_header_size kSession + sizeof_SessionHeader - sizeof_FieldHeader"

definition session_header :: "8 word \<Rightarrow> 32 word \<Rightarrow> fill" where
  "session_header type nonce dst =
    (let (cursor, dst) = write_field_header 0 kSession dst in
     (cursor + sizeof_SessionHeader, bf_sets cursor [(SessionHeader_Type, ucast type), (SessionHeader_Nonce, ucast nonce)] dst))"

definition session_control_fill :: "session_view \<Rightarrow> fill" where
  "session_control_fill view = session_header (session_type view) (session_nonce view)"

definition write_session_control :: "'b serialize_buffer \<Rightarrow> session_view \<Rightarrow> 'b \<Rightarrow> serialize_result \<times> 'b" where
  "write_session_control B view = serialize B required_session_size (session_control_fill view)"

definition time_anchor_fill :: "microframe_view \<Rightarrow> fill" where
  "time_anchor_fill view dst =
    (let (cursor, dst) = session_header kTimeAnchor (mf_nonce view) dst in
     (cursor + sizeof_TimeAnchorPayload, bf_sets cursor [(TimeAnchorPayload_Microframe, mf_microframe view)] dst))"

definition write_time_anchor :: "'b serialize_buffer \<Rightarrow> microframe_view \<Rightarrow> 'b \<Rightarrow> serialize_result \<times> 'b" where
  "write_time_anchor B view = serialize B (required_session_size + sizeof_TimeAnchorPayload) (time_anchor_fill view)"

definition time_status_fill :: "time_status_view \<Rightarrow> fill" where
  "time_status_fill view dst =
    (let (cursor, dst) = session_header kTimeStatus (ts_nonce view) dst in
     (cursor + sizeof_TimeStatusPayload,
      bf_sets cursor
        [(TimeStatusPayload_Microframe, ts_microframe view),
         (TimeStatusPayload_TimestampQuarterUs, ucast (ts_timestamp_quarter_us view)),
         (TimeStatusPayload_TicksPerMicroframeQ16, ucast (ts_ticks_per_microframe_q16 view)),
         (TimeStatusPayload_State, ucast (ts_state view)),
         (TimeStatusPayload_AnomalyCount, ucast (ts_anomaly_count view)),
         (TimeStatusPayload_ResidualMeanQ16, ucast (ts_residual_mean_q16 view)),
         (TimeStatusPayload_ResidualAbsMaxQ16, ucast (ts_residual_abs_max_q16 view)),
         (TimeStatusPayload_ResidualCount, ucast (ts_residual_count view)),
         (TimeStatusPayload_PtpcUnitsPerMicroframe, ucast (ts_ptpc_units_per_microframe view)),
         (TimeStatusPayload_PtpcReferenceUnits, ts_ptpc_reference_units view),
         (TimeStatusPayload_PtpcReferenceMicroframe, ts_ptpc_reference_microframe view),
         (TimeStatusPayload_PtpcResidualMean, ucast (ts_ptpc_residual_mean view)),
         (TimeStatusPayload_PtpcResidualAbsMax, ucast (ts_ptpc_residual_abs_max view)),
         (TimeStatusPayload_PtpcStepMin, ucast (ts_ptpc_step_min view)),
         (TimeStatusPayload_PtpcStepMax, ucast (ts_ptpc_step_max view)),
         (TimeStatusPayload_PtpcRawNs, ucast (ts_ptpc_raw_ns view)),
         (TimeStatusPayload_PtpcRawMicroframe, ts_ptpc_raw_microframe view)] dst))"

definition write_time_status :: "'b serialize_buffer \<Rightarrow> time_status_view \<Rightarrow> 'b \<Rightarrow> serialize_result \<times> 'b" where
  "write_time_status B view = serialize B (required_session_size + sizeof_TimeStatusPayload) (time_status_fill view)"

definition sync_sample_fill :: "sync_sample_view \<Rightarrow> fill" where
  "sync_sample_fill view dst =
    (let (cursor, dst) = session_header kSyncSample (ss_nonce view) dst in
     (cursor + sizeof_SyncSamplePayload,
      bf_sets cursor [(SyncSamplePayload_Tag, ucast (ss_tag view)), (SyncSamplePayload_MicroframeQ16, ss_microframe_q16 view),
        (SyncSamplePayload_Bus, ucast (ss_bus view)), (SyncSamplePayload_PtpcNs, ucast (ss_ptpc_ns view))] dst))"

definition write_sync_sample :: "'b serialize_buffer \<Rightarrow> sync_sample_view \<Rightarrow> 'b \<Rightarrow> serialize_result \<times> 'b" where
  "write_sync_sample B view = serialize B (required_session_size + sizeof_SyncSamplePayload) (sync_sample_fill view)"

definition pulse_schedule_fill :: "microframe_view \<Rightarrow> fill" where
  "pulse_schedule_fill view dst =
    (let (cursor, dst) = session_header kPulseSchedule (mf_nonce view) dst in
     (cursor + sizeof_PulseSchedulePayload, bf_sets cursor [(PulseSchedulePayload_Microframe, mf_microframe view)] dst))"

definition write_pulse_schedule :: "'b serialize_buffer \<Rightarrow> microframe_view \<Rightarrow> 'b \<Rightarrow> serialize_result \<times> 'b" where
  "write_pulse_schedule B view = serialize B (required_session_size + sizeof_PulseSchedulePayload) (pulse_schedule_fill view)"

definition pulse_report_fill :: "pulse_report_view \<Rightarrow> fill" where
  "pulse_report_fill view dst =
    (let (cursor, dst) = session_header kPulseReport (pr_nonce view) dst in
     (cursor + sizeof_PulseReportPayload,
      bf_sets cursor [(PulseReportPayload_ScheduledMicroframe, pr_scheduled_microframe view),
        (PulseReportPayload_CapturedMicroframeQ16, pr_captured_microframe_q16 view),
        (PulseReportPayload_TicksPerMicroframeQ16, ucast (pr_ticks_per_microframe_q16 view)),
        (PulseReportPayload_Flags, ucast (pr_flags view))] dst))"

definition write_pulse_report :: "'b serialize_buffer \<Rightarrow> pulse_report_view \<Rightarrow> 'b \<Rightarrow> serialize_result \<times> 'b" where
  "write_pulse_report B view = serialize B (required_session_size + sizeof_PulseReportPayload) (pulse_report_fill view)"

end
