(* ===== verification/Deserializer.thy ===== *)
theory Deserializer
  imports Serializer
begin

text \<open>
  The deserializer, \<open>core/src/protocol/deserializer.hpp\<close> and \<open>deserializer.cpp\<close>.

  The coroutines are resumptions: a task has a result, or asks for a window of bytes and goes on with
  the bytes, or with \<open>None\<close> when the request is cancelled.  \<open>run\<close> performs a task on the state of the
  deserializer until it ends or is suspended; \<open>process_stream\<close> is the endless loop of the main
  coroutine, which returns to its caller when it is suspended.  A debug assertion that does not hold,
  which is undefined behaviour in a release build, sets \<open>assertion_failed\<close>.

  The callbacks are one handler of fields and one of errors, over a state of their own.  The pending
  buffer is the list of its \<open>pending_bytes_\<close> bytes, the input the list of the bytes from
  \<open>input_cursor_\<close> to \<open>input_end_\<close>.
\<close>

unbundle bit_operations_syntax

section \<open>Tasks\<close>

datatype task =
    Ret bool
  | Fail
  | Peek nat "8 word list option \<Rightarrow> task"
  | ConsumePeeked task
  | ConsumePartial nat task
  | Call field "bool \<Rightarrow> task"
  | Awaiting bool task

text \<open>A peek whose cancellation ends the field.\<close>

definition peek_bytes :: "nat \<Rightarrow> (8 word list \<Rightarrow> task) \<Rightarrow> task" where
  "peek_bytes n k = Peek n (\<lambda>b. case b of None \<Rightarrow> Ret False | Some b \<Rightarrow> k b)"

definition can_tail :: "8 word \<Rightarrow> can_view \<Rightarrow> nat \<Rightarrow> bool \<Rightarrow> task" where
  "can_tail field_id view can_data_length has_timestamp =
    ConsumePeeked
      (let tail_size = can_data_length + (if has_timestamp then 4 else 0) in
       if tail_size \<noteq> 0
       then peek_bytes tail_size (\<lambda>tail. ConsumePeeked
              (Call (FCan field_id (view\<lparr>can_data := take can_data_length tail,
                       timestamp_us := (if has_timestamp then Some (get32 tail can_data_length) else None)\<rparr>)) Ret))
       else Call (FCan field_id (view\<lparr>can_data := [], timestamp_us := None\<rparr>)) Ret)"

definition process_can_field :: "8 word \<Rightarrow> task" where
  "process_can_field field_id =
    peek_bytes sizeof_CanHeader (\<lambda>header.
      let fd = (bf_get 0 CanHeader_IsFdCan header \<noteq> 0);
          extended = (bf_get 0 CanHeader_IsExtendedCanId header \<noteq> 0);
          remote = (bf_get 0 CanHeader_IsRemoteTransmission header \<noteq> 0);
          has_data = (bf_get 0 CanHeader_HasCanData header \<noteq> 0);
          view = (\<lambda>cid. \<lparr>can_id = cid, can_data = [], is_fdcan = fd, is_extended_can_id = extended,
                    is_remote_transmission = remote, timestamp_us = None\<rparr>) in
      if extended
      then peek_bytes sizeof_CanHeaderExtended (\<lambda>header.
             can_tail field_id (view (ucast (bf_get 0 CanHeaderExtended_CanId header)))
               (if has_data then unat (bf_get 0 CanHeaderExtended_DataLengthCode header) + 1 else 0)
               (bf_get 0 CanHeaderExtended_HasTimestamp header \<noteq> 0))
      else peek_bytes sizeof_CanHeaderStandard (\<lambda>header.
             can_tail field_id (view (ucast (bf_get 0 CanHeaderStandard_CanId header)))
               (if has_data then unat (bf_get 0 CanHeaderStandard_DataLengthCode header) + 1 else 0)
               (bf_get 0 CanHeaderStandard_HasTimestamp header \<noteq> 0)))"

definition uart_tail :: "8 word \<Rightarrow> bool \<Rightarrow> nat \<Rightarrow> task" where
  "uart_tail field_id idle uart_data_length =
    ConsumePeeked
      (if uart_data_length \<noteq> 0
       then peek_bytes uart_data_length (\<lambda>bytes. ConsumePeeked
              (Call (FUart field_id \<lparr>uart_data = take uart_data_length bytes, idle_delimited = idle\<rparr>) Ret))
       else Call (FUart field_id \<lparr>uart_data = [], idle_delimited = idle\<rparr>) Ret)"

definition process_uart_field :: "8 word \<Rightarrow> task" where
  "process_uart_field field_id =
    peek_bytes sizeof_UartHeader (\<lambda>header.
      let idle = (bf_get 0 UartHeader_IdleDelimited header \<noteq> 0) in
      if bf_get 0 UartHeader_IsExtendedLength header = 0
      then uart_tail field_id idle (unat (bf_get 0 UartHeader_DataLength header))
      else peek_bytes sizeof_UartHeaderExtended (\<lambda>header.
             let uart_data_length = unat (bf_get 0 UartHeaderExtended_DataLengthExtended header) in
             if kProtocolBufferSize < uart_data_length then Ret False
             else uart_tail field_id idle uart_data_length))"

definition process_uart_config_field :: "8 word \<Rightarrow> task" where
  "process_uart_config_field field_id =
    peek_bytes sizeof_UartConfigPayload (\<lambda>payload. ConsumePeeked
      (Call (FUartConfig field_id \<lparr>baudrate = Some (ucast (bf_get 0 UartConfigPayload_Baudrate payload))\<rparr>) Ret))"

definition process_gpio_digital :: "8 word \<Rightarrow> bool \<Rightarrow> bool \<Rightarrow> task" where
  "process_gpio_digital channel_index is_high timestamped =
    (if timestamped
     then peek_bytes sizeof_GpioDigitalReadTimestampPayload (\<lambda>payload. ConsumePeeked
            (Call (FGpioDigital channel_index \<lparr>high = is_high,
               timestamp_quarter_us = Some (ucast (bf_get 0 GpioDigitalReadTimestampPayload_TimestampQuarterUs payload))\<rparr>) Ret))
     else Call (FGpioDigital channel_index \<lparr>high = is_high, timestamp_quarter_us = None\<rparr>) Ret)"

definition process_gpio_analog :: "8 word \<Rightarrow> bool \<Rightarrow> task" where
  "process_gpio_analog channel_index timestamped =
    (if timestamped then Ret False
     else peek_bytes sizeof_GpioAnalogPayload (\<lambda>payload. ConsumePeeked
            (Call (FGpioAnalog channel_index \<lparr>analog_value = ucast (bf_get 0 GpioAnalogPayload_Value payload)\<rparr>) Ret)))"

definition process_gpio_config :: "8 word \<Rightarrow> bool \<Rightarrow> bool \<Rightarrow> task" where
  "process_gpio_config channel_index digital timestamped =
    peek_bytes sizeof_GpioReadConfigPayload (\<lambda>payload.
      let view = \<lparr>period_ms = ucast (bf_get 0 GpioReadConfigPayload_PeriodMs payload),
                  asap = (bf_get 0 GpioReadConfigPayload_Asap payload \<noteq> 0),
                  rising_edge = (bf_get 0 GpioReadConfigPayload_RisingEdge payload \<noteq> 0),
                  falling_edge = (bf_get 0 GpioReadConfigPayload_FallingEdge payload \<noteq> 0),
                  capture_timestamp = timestamped,
                  pull = ucast (bf_get 0 GpioReadConfigPayload_Pull payload)\<rparr> in
      ConsumePeeked
        (if pull view \<noteq> 0 \<and> pull view \<noteq> 1 \<and> pull view \<noteq> 2 then Ret False
         else if digital then Call (FGpioDigitalReadConfig channel_index view) Ret
         else if capture_timestamp view \<or> rising_edge view \<or> falling_edge view then Ret False
         else Call (FGpioAnalogReadConfig channel_index view) Ret))"

definition process_gpio_field :: "8 word \<Rightarrow> task" where
  "process_gpio_field field_id =
    peek_bytes sizeof_GpioHeader (\<lambda>header.
      let payload_type = ucast (bf_get 0 GpioHeader_PayloadType header) :: 8 word;
          channel_index = ucast (bf_get 0 GpioHeader_ChannelIndex header) :: 8 word;
          timestamped = (bf_get 0 GpioHeader_Timestamped header \<noteq> 0) in
      ConsumePeeked
        (if payload_type = kDigitalLow \<or> payload_type = kDigitalHigh
         then process_gpio_digital channel_index (payload_type = kDigitalHigh) timestamped
         else if payload_type = kAnalog then process_gpio_analog channel_index timestamped
         else if payload_type = kDigitalReadConfig \<or> payload_type = kAnalogReadConfig
         then process_gpio_config channel_index (payload_type = kDigitalReadConfig) timestamped
         else Ret False))"

definition process_imu_field :: "8 word \<Rightarrow> task" where
  "process_imu_field field_id =
    peek_bytes sizeof_ImuHeader (\<lambda>header.
      let payload_type = ucast (bf_get 0 ImuHeader_PayloadType header) :: 8 word in
      ConsumePeeked
        (if payload_type = kAccelerometer
         then peek_bytes sizeof_ImuAccelerometerPayload (\<lambda>payload. ConsumePeeked
                (Call (FAccelerometer
                   \<lparr>imu_x = ucast (read_bits_signed ImuAccelerometerPayload_X payload),
                    imu_y = ucast (read_bits_signed ImuAccelerometerPayload_Y payload),
                    imu_z = ucast (read_bits_signed ImuAccelerometerPayload_Z payload),
                    imu_timestamp = ucast (bf_get 0 ImuAccelerometerPayload_TimestampQuarterUs payload)\<rparr>) (\<lambda>_. Ret True)))
         else if payload_type = kGyroscope
         then peek_bytes sizeof_ImuGyroscopePayload (\<lambda>payload. ConsumePeeked
                (Call (FGyroscope
                   \<lparr>imu_x = ucast (read_bits_signed ImuGyroscopePayload_X payload),
                    imu_y = ucast (read_bits_signed ImuGyroscopePayload_Y payload),
                    imu_z = ucast (read_bits_signed ImuGyroscopePayload_Z payload),
                    imu_timestamp = ucast (bf_get 0 ImuGyroscopePayload_TimestampQuarterUs payload)\<rparr>) (\<lambda>_. Ret True)))
         else if payload_type = kTemperature
         then peek_bytes sizeof_ImuTemperaturePayload (\<lambda>payload. ConsumePeeked
                (Call (FTemperature
                   \<lparr>raw_register_value = ucast (bf_get 0 ImuTemperaturePayload_Temperature payload),
                    temperature_timestamp = ucast (bf_get 0 ImuTemperaturePayload_TimestampQuarterUs payload)\<rparr>) (\<lambda>_. Ret True)))
         else Ret False))"

definition time_status_of :: "32 word \<Rightarrow> 8 word list \<Rightarrow> time_status_view" where
  "time_status_of nonce payload =
    \<lparr>ts_nonce = nonce,
     ts_microframe = bf_get 0 TimeStatusPayload_Microframe payload,
     ts_timestamp_quarter_us = ucast (bf_get 0 TimeStatusPayload_TimestampQuarterUs payload),
     ts_ticks_per_microframe_q16 = ucast (bf_get 0 TimeStatusPayload_TicksPerMicroframeQ16 payload),
     ts_state = ucast (bf_get 0 TimeStatusPayload_State payload),
     ts_anomaly_count = ucast (bf_get 0 TimeStatusPayload_AnomalyCount payload),
     ts_residual_mean_q16 = ucast (read_bits_signed TimeStatusPayload_ResidualMeanQ16 payload),
     ts_residual_abs_max_q16 = ucast (bf_get 0 TimeStatusPayload_ResidualAbsMaxQ16 payload),
     ts_residual_count = ucast (bf_get 0 TimeStatusPayload_ResidualCount payload),
     ts_ptpc_units_per_microframe = ucast (bf_get 0 TimeStatusPayload_PtpcUnitsPerMicroframe payload),
     ts_ptpc_reference_units = bf_get 0 TimeStatusPayload_PtpcReferenceUnits payload,
     ts_ptpc_reference_microframe = bf_get 0 TimeStatusPayload_PtpcReferenceMicroframe payload,
     ts_ptpc_residual_mean = ucast (read_bits_signed TimeStatusPayload_PtpcResidualMean payload),
     ts_ptpc_residual_abs_max = ucast (bf_get 0 TimeStatusPayload_PtpcResidualAbsMax payload),
     ts_ptpc_step_min = ucast (bf_get 0 TimeStatusPayload_PtpcStepMin payload),
     ts_ptpc_step_max = ucast (bf_get 0 TimeStatusPayload_PtpcStepMax payload),
     ts_ptpc_raw_ns = ucast (bf_get 0 TimeStatusPayload_PtpcRawNs payload),
     ts_ptpc_raw_microframe = bf_get 0 TimeStatusPayload_PtpcRawMicroframe payload\<rparr>"

definition process_session_field :: "8 word \<Rightarrow> task" where
  "process_session_field field_id =
    peek_bytes sizeof_SessionHeader (\<lambda>header.
      let type = ucast (bf_get 0 SessionHeader_Type header) :: 8 word;
          nonce = ucast (bf_get 0 SessionHeader_Nonce header) :: 32 word in
      ConsumePeeked
        (if type = kTimeAnchor
         then peek_bytes sizeof_TimeAnchorPayload (\<lambda>payload. ConsumePeeked
                (Call (FTimeAnchor \<lparr>mf_nonce = nonce, mf_microframe = bf_get 0 TimeAnchorPayload_Microframe payload\<rparr>) (\<lambda>_. Ret True)))
         else if type = kTimeStatus
         then peek_bytes sizeof_TimeStatusPayload (\<lambda>payload. ConsumePeeked
                (Call (FTimeStatus (time_status_of nonce payload)) (\<lambda>_. Ret True)))
         else if type = kSyncSample
         then peek_bytes sizeof_SyncSamplePayload (\<lambda>payload. ConsumePeeked
                (Call (FSyncSample \<lparr>ss_nonce = nonce, ss_tag = ucast (bf_get 0 SyncSamplePayload_Tag payload),
                   ss_microframe_q16 = bf_get 0 SyncSamplePayload_MicroframeQ16 payload,
                   ss_bus = ucast (bf_get 0 SyncSamplePayload_Bus payload),
                   ss_ptpc_ns = ucast (bf_get 0 SyncSamplePayload_PtpcNs payload)\<rparr>) (\<lambda>_. Ret True)))
         else if type = kPulseSchedule
         then peek_bytes sizeof_PulseSchedulePayload (\<lambda>payload. ConsumePeeked
                (Call (FPulseSchedule \<lparr>mf_nonce = nonce, mf_microframe = bf_get 0 PulseSchedulePayload_Microframe payload\<rparr>) (\<lambda>_. Ret True)))
         else if type = kPulseReport
         then peek_bytes sizeof_PulseReportPayload (\<lambda>payload. ConsumePeeked
                (Call (FPulseReport \<lparr>pr_nonce = nonce,
                   pr_scheduled_microframe = bf_get 0 PulseReportPayload_ScheduledMicroframe payload,
                   pr_captured_microframe_q16 = bf_get 0 PulseReportPayload_CapturedMicroframeQ16 payload,
                   pr_ticks_per_microframe_q16 = ucast (bf_get 0 PulseReportPayload_TicksPerMicroframeQ16 payload),
                   pr_flags = ucast (bf_get 0 PulseReportPayload_Flags payload)\<rparr>) (\<lambda>_. Ret True)))
         else Call (FSession \<lparr>session_type = type, session_nonce = nonce\<rparr>) (\<lambda>_. Ret True)))"

definition process_field :: "8 word \<Rightarrow> task" where
  "process_field field_id =
    (if field_id \<in> set can_ids then process_can_field field_id
     else if field_id \<in> set uart_ids then process_uart_field field_id
     else if field_id \<in> set uart_config_ids then process_uart_config_field field_id
     else if field_id = kGpio then process_gpio_field field_id
     else if field_id = kImu then process_imu_field field_id
     else if field_id = kSession then process_session_field field_id
     else Ret False)"

text \<open>One round of the loop of the main coroutine, up to \<open>success\<close>.\<close>

definition header_task :: "8 word list \<Rightarrow> task" where
  "header_task header =
    (let field_id = ucast (bf_get 0 FieldHeader_Id header) in
     if field_id = kExtend
     then peek_bytes sizeof_FieldHeaderExtended (\<lambda>header.
            ConsumePartial sizeof_FieldHeader (process_field (ucast (bf_get 0 FieldHeaderExtended_IdExtended header))))
     else process_field field_id)"

definition first_header :: "8 word list option \<Rightarrow> task" where
  "first_header header = (case header of None \<Rightarrow> Fail | Some header \<Rightarrow> Awaiting False (header_task header))"

definition stream_body :: task where
  "stream_body = Awaiting True (Peek sizeof_FieldHeader first_header)"

section \<open>The deserializer\<close>

record 'c deserialize_callback =
  field_callback :: "field \<Rightarrow> 'c \<Rightarrow> bool \<times> 'c"
  error_callback :: "'c \<Rightarrow> 'c"

record 'c deserializer =
  discard_mode :: bool
  awaiting_field_first_byte :: bool
  callback_state :: 'c
  pending :: "8 word list"
  requested_bytes :: nat
  input :: "8 word list"
  waiting_coroutine :: "8 word list option \<Rightarrow> task"
  assertion_failed :: bool

definition assert_debug :: "bool \<Rightarrow> 'c deserializer \<Rightarrow> 'c deserializer" where
  "assert_debug b s = s\<lparr>assertion_failed := assertion_failed s \<or> \<not> b\<rparr>"

definition peek_request :: "nat \<Rightarrow> 'c deserializer \<Rightarrow> 'c deserializer" where
  "peek_request n s =
    (assert_debug (n \<noteq> 0 \<and> n \<le> kProtocolBufferSize \<and> requested_bytes s \<le> n) s)\<lparr>requested_bytes := n\<rparr>"

definition await_ready :: "'c deserializer \<Rightarrow> bool \<times> 'c deserializer" where
  "await_ready s =
    (let s = assert_debug (length (pending s) \<le> requested_bytes s) s;
         remaining = length (input s) in
     if pending s = [] \<and> requested_bytes s \<le> remaining then (True, s)
     else if length (pending s) + remaining < requested_bytes s
     then (False, s\<lparr>pending := pending s @ input s, input := []\<rparr>)
     else let s = assert_debug (pending s \<noteq> []) s;
              required = requested_bytes s - length (pending s) in
          (True, s\<lparr>pending := pending s @ take required (input s), input := drop required (input s)\<rparr>))"

definition await_resume :: "'c deserializer \<Rightarrow> 8 word list option \<times> 'c deserializer" where
  "await_resume s =
    (let s = assert_debug (requested_bytes s \<noteq> 0) s in
     if discard_mode s then (None, s)
     else if pending s \<noteq> [] then (Some (pending s), assert_debug (length (pending s) = requested_bytes s) s)
     else (Some (take (requested_bytes s) (input s)), assert_debug (requested_bytes s \<le> length (input s)) s))"

definition consume_peeked :: "'c deserializer \<Rightarrow> 'c deserializer" where
  "consume_peeked s =
    (let s = assert_debug (requested_bytes s \<noteq> 0) s in
     (if pending s \<noteq> [] then (assert_debug (length (pending s) = requested_bytes s) s)\<lparr>pending := []\<rparr>
      else s\<lparr>input := drop (requested_bytes s) (input s)\<rparr>)\<lparr>requested_bytes := 0\<rparr>)"

definition consume_peeked_partial :: "nat \<Rightarrow> 'c deserializer \<Rightarrow> 'c deserializer" where
  "consume_peeked_partial n s =
    (let s = assert_debug (requested_bytes s \<noteq> 0 \<and> n < requested_bytes s) s in
     (if pending s \<noteq> [] then (assert_debug (length (pending s) = requested_bytes s) s)\<lparr>pending := drop n (pending s)\<rparr>
      else s\<lparr>input := drop n (input s)\<rparr>)\<lparr>requested_bytes := requested_bytes s - n\<rparr>)"

definition enter_discard_mode :: "'c deserialize_callback \<Rightarrow> 'c deserializer \<Rightarrow> 'c deserializer" where
  "enter_discard_mode cb s =
    s\<lparr>callback_state := error_callback cb (callback_state s), pending := [], requested_bytes := 0, input := [],
      discard_mode := True\<rparr>"

text \<open>Runs a task up to its result, or up to a suspension (\<open>None\<close>).\<close>

primrec run :: "'c deserialize_callback \<Rightarrow> task \<Rightarrow> 'c deserializer \<Rightarrow> bool option \<times> 'c deserializer" where
  "run cb (Ret b) = (\<lambda>s. (Some b, s))"
| "run cb Fail = (\<lambda>s. (None, assert_debug False s))"
| "run cb (Peek n k) = (\<lambda>s.
    let (ready, s) = await_ready (peek_request n s) in
    if ready then let (b, s) = await_resume s in run cb (k b) s
    else (None, s\<lparr>waiting_coroutine := k\<rparr>))"
| "run cb (ConsumePeeked t) = (\<lambda>s. run cb t (consume_peeked s))"
| "run cb (ConsumePartial n t) = (\<lambda>s. run cb t (consume_peeked_partial n s))"
| "run cb (Call f k) = (\<lambda>s. let (b, c) = field_callback cb f (callback_state s) in run cb (k b) (s\<lparr>callback_state := c\<rparr>))"
| "run cb (Awaiting b t) = (\<lambda>s. run cb t (s\<lparr>awaiting_field_first_byte := b\<rparr>))"

text \<open>The main coroutine, from a point inside a round.\<close>

partial_function (option) process_stream :: "'c deserialize_callback \<Rightarrow> task \<Rightarrow> 'c deserializer \<Rightarrow> 'c deserializer option" where
  "process_stream cb t s =
    (case run cb t s of
       (None, s) \<Rightarrow> Some s
     | (Some success, s) \<Rightarrow>
         (let s = (if success then s else enter_discard_mode cb s);
              s = assert_debug (pending s = [] \<and> requested_bytes s = 0) s in
          process_stream cb stream_body s))"

definition new_deserializer :: "'c deserialize_callback \<Rightarrow> 'c \<Rightarrow> 'c deserializer option" where
  "new_deserializer cb c =
    process_stream cb stream_body
      \<lparr>discard_mode = False, awaiting_field_first_byte = False, callback_state = c, pending = [], requested_bytes = 0,
       input = [], waiting_coroutine = (\<lambda>_. Fail), assertion_failed = False\<rparr>"

definition resume_stream :: "'c deserialize_callback \<Rightarrow> 'c deserializer \<Rightarrow> 'c deserializer option" where
  "resume_stream cb s = (let (b, s) = await_resume s in process_stream cb (waiting_coroutine s b) s)"

definition feed :: "'c deserialize_callback \<Rightarrow> 8 word list \<Rightarrow> 'c deserializer \<Rightarrow> 'c deserializer option" where
  "feed cb buffer s =
    (let s = assert_debug (requested_bytes s \<noteq> 0 \<and> length (pending s) < requested_bytes s) s in
     if buffer = [] \<or> discard_mode s then Some s
     else let s = s\<lparr>input := buffer\<rparr> in
     if pending s = [] \<and> requested_bytes s \<le> length buffer then resume_stream cb s
     else let required = requested_bytes s - length (pending s);
              sufficient = (required \<le> length buffer);
              copied = (if sufficient then required else length buffer);
              s = s\<lparr>pending := pending s @ take copied buffer, input := drop copied buffer\<rparr> in
          if sufficient then resume_stream cb s else Some s)"

definition finish_transfer :: "'c deserialize_callback \<Rightarrow> 'c deserializer \<Rightarrow> 'c deserializer option" where
  "finish_transfer cb s =
    (if awaiting_field_first_byte s then Some (s\<lparr>discard_mode := False\<rparr>)
     else case resume_stream cb (s\<lparr>discard_mode := True\<rparr>) of
            None \<Rightarrow> None
          | Some s \<Rightarrow> Some (assert_debug (awaiting_field_first_byte s) (s\<lparr>discard_mode := False\<rparr>)))"

end
