(* ===== verification/DeserSim.thy ===== *)
theory DeserSim
  imports Deserializer
begin

text \<open>
  The deserializer against a parser of whole transfers: a task is run on the list of all remaining
  bytes, without suspensions.  However a transfer is cut into chunks, the callbacks see the same
  fields, every call returns, and no assertion fails.
\<close>

unbundle bit_operations_syntax

section \<open>Tasks that keep the call contract\<close>

text \<open>\<open>keeps_contract w d t\<close>: windows only grow and fit the pending buffer, a cancelled request ends
  the field, a field that succeeds has consumed its window, and something at all (\<open>d\<close>: already).\<close>

primrec keeps_contract :: "task \<Rightarrow> nat \<Rightarrow> bool \<Rightarrow> bool" where
  "keeps_contract (Ret b) = (\<lambda>w d. b \<longrightarrow> w = 0 \<and> d)"
| "keeps_contract Fail = (\<lambda>w d. False)"
| "keeps_contract (Peek n k) = (\<lambda>w d. n \<noteq> 0 \<and> n \<le> kProtocolBufferSize \<and> w \<le> n \<and> k None = Ret False
     \<and> (\<forall>b. length b = n \<longrightarrow> keeps_contract (k (Some b)) n d))"
| "keeps_contract (ConsumePeeked t) = (\<lambda>w d. w \<noteq> 0 \<and> keeps_contract t 0 True)"
| "keeps_contract (ConsumePartial n t) = (\<lambda>w d. n < w \<and> n \<noteq> 0 \<and> keeps_contract t (w - n) True)"
| "keeps_contract (Call f k) = (\<lambda>w d. w = 0 \<and> (\<forall>b. keeps_contract (k b) 0 d))"
| "keeps_contract (Awaiting b t) = (\<lambda>w d. False)"

lemma keeps_peek_bytes [simp]:
  "keeps_contract (peek_bytes n k) w d
    = (n \<noteq> 0 \<and> n \<le> kProtocolBufferSize \<and> w \<le> n \<and> (\<forall>b. length b = n \<longrightarrow> keeps_contract (k b) n d))"
  by (simp add: peek_bytes_def)

lemma bf_get_less: "member_ok m \<Longrightarrow> unat (bf_get off m src) < 2 ^ kBitWidth m"
proof -
  assume m: "member_ok m"
  have "take_bit (kBitWidth m) (bf_get off m src) = bf_get off m src"
    by (rule bit_eqI) (auto simp: bit_take_bit_iff bit_bf_get[OF member_ok_check[OF m]])
  then have "take_bit (kBitWidth m) (unat (bf_get off m src)) = unat (bf_get off m src)"
    by (metis unsigned_take_bit_eq)
  then show ?thesis by (metis take_bit_nat_less_exp)
qed

lemma header_bounds:
  "unat (bf_get 0 CanHeaderExtended_DataLengthCode h) < 8" "unat (bf_get 0 CanHeaderStandard_DataLengthCode h) < 8"
  "unat (bf_get 0 UartHeader_DataLength h) < 4"
  using bf_get_less[of CanHeaderExtended_DataLengthCode 0 h] bf_get_less[of CanHeaderStandard_DataLengthCode 0 h]
    bf_get_less[of UartHeader_DataLength 0 h]
  by (simp_all add: members member_eval)

lemmas sizes = sizeof_FieldHeader_def sizeof_FieldHeaderExtended_def sizeof_CanHeader_def sizeof_CanHeaderStandard_def
  sizeof_CanHeaderExtended_def sizeof_UartHeader_def sizeof_UartHeaderExtended_def sizeof_UartConfigPayload_def
  sizeof_SessionHeader_def sizeof_TimeAnchorPayload_def sizeof_TimeStatusPayload_def sizeof_SyncSamplePayload_def
  sizeof_PulseSchedulePayload_def sizeof_PulseReportPayload_def sizeof_GpioHeader_def sizeof_GpioReadConfigPayload_def
  sizeof_GpioDigitalReadTimestampPayload_def sizeof_GpioAnalogPayload_def sizeof_ImuHeader_def
  sizeof_ImuAccelerometerPayload_def sizeof_ImuGyroscopePayload_def sizeof_ImuTemperaturePayload_def kProtocolBufferSize_def

lemma keeps_can_tail: "w \<noteq> 0 \<Longrightarrow> n \<le> 8 \<Longrightarrow> keeps_contract (can_tail field_id view n ts) w d"
  by (simp add: can_tail_def Let_def sizes)

lemma keeps_can: "keeps_contract (process_can_field field_id) 1 d"
  using header_bounds(1,2) by (auto simp: process_can_field_def Let_def sizes Suc_le_eq intro!: keeps_can_tail)

lemma keeps_uart_tail: "w \<noteq> 0 \<Longrightarrow> n \<le> kProtocolBufferSize \<Longrightarrow> keeps_contract (uart_tail field_id idle n) w d"
  by (simp add: uart_tail_def)

lemma keeps_uart: "keeps_contract (process_uart_field field_id) 1 d"
proof -
  have "unat (bf_get 0 UartHeader_DataLength h) \<le> kProtocolBufferSize" for h
    using header_bounds(3)[of h] by (simp add: sizes)
  then show ?thesis by (auto simp: process_uart_field_def Let_def intro!: keeps_uart_tail) (simp_all add: sizes)
qed

lemma keeps_rest:
  "keeps_contract (process_uart_config_field field_id) 1 d" "keeps_contract (process_gpio_field field_id) 1 d"
  "keeps_contract (process_imu_field field_id) 1 d" "keeps_contract (process_session_field field_id) 1 d"
  by (simp_all add: process_uart_config_field_def process_gpio_field_def process_gpio_digital_def process_gpio_analog_def
      process_gpio_config_def process_imu_field_def process_session_field_def Let_def sizes)

lemma keeps_process_field: "keeps_contract (process_field field_id) 1 d"
  using keeps_can keeps_uart keeps_rest by (auto simp: process_field_def)

lemma keeps_header_task: "keeps_contract (header_task h) 1 d"
  using keeps_process_field by (auto simp: header_task_def Let_def sizes)

section \<open>Parsing a whole transfer\<close>

primrec parse :: "'c deserialize_callback \<Rightarrow> task \<Rightarrow> nat \<Rightarrow> 8 word list \<Rightarrow> 'c \<Rightarrow> bool \<times> 8 word list \<times> 'c" where
  "parse cb (Ret b) = (\<lambda>w bytes c. (b, bytes, c))"
| "parse cb Fail = (\<lambda>w bytes c. (False, bytes, c))"
| "parse cb (Peek n k) = (\<lambda>w bytes c. parse cb (k (if n \<le> length bytes then Some (take n bytes) else None)) n bytes c)"
| "parse cb (ConsumePeeked t) = (\<lambda>w bytes c. parse cb t 0 (drop w bytes) c)"
| "parse cb (ConsumePartial n t) = (\<lambda>w bytes c. parse cb t (w - n) (drop n bytes) c)"
| "parse cb (Call f k) = (\<lambda>w bytes c. let (b, c) = field_callback cb f c in parse cb (k b) w bytes c)"
| "parse cb (Awaiting b t) = parse cb t"

definition parse_field :: "'c deserialize_callback \<Rightarrow> 8 word list \<Rightarrow> 'c \<Rightarrow> bool \<times> 8 word list \<times> 'c" where
  "parse_field cb bytes = parse cb (header_task (take 1 bytes)) 1 bytes"

text \<open>Fields up to the first one that fails.\<close>

function parse_transfer :: "'c deserialize_callback \<Rightarrow> 8 word list \<Rightarrow> 'c \<Rightarrow> 'c" where
  "parse_transfer cb bytes c =
    (if bytes = [] then c
     else let (success, rest, c) = parse_field cb bytes c in
     if success \<and> length rest < length bytes then parse_transfer cb rest c else error_callback cb c)"
  by auto
termination by (relation "measure (\<lambda>(cb, bytes, c). length bytes)") auto

declare parse_transfer.simps [simp del]

definition parsed :: "'c deserialize_callback \<Rightarrow> bool \<times> 8 word list \<times> 'c \<Rightarrow> 'c" where
  "parsed cb r = (case r of (success, rest, c) \<Rightarrow> if success then parse_transfer cb rest c else error_callback cb c)"

lemma parse_shorter:
  "keeps_contract t w d \<Longrightarrow> w \<le> length bytes \<Longrightarrow> parse cb t w bytes c = (True, rest, c')
   \<Longrightarrow> length rest \<le> length bytes \<and> (\<not> d \<longrightarrow> length rest < length bytes)"
proof (induction t arbitrary: w d bytes c)
  case (Peek n k)
  show ?case
  proof (cases "n \<le> length bytes")
    case True
    with Peek.prems show ?thesis by (intro Peek.IH[OF rangeI, of "Some (take n bytes)" n d bytes c]) auto
  next
    case False
    with Peek.prems show ?thesis by simp
  qed
next
  case (ConsumePeeked t)
  from ConsumePeeked.IH[of 0 True "drop w bytes" c] ConsumePeeked.prems show ?case by auto
next
  case (ConsumePartial n t)
  have "w - n \<le> length bytes - n" using ConsumePartial.prems(2) by (rule diff_le_mono)
  with ConsumePartial.IH[of "w - n" True "drop n bytes" c] ConsumePartial.prems show ?case by auto
next
  case (Call f k)
  obtain b c2 where "field_callback cb f c = (b, c2)" by fastforce
  with Call.prems Call.IH[OF rangeI, of b 0 d bytes c2] show ?case by auto
qed auto

lemma parse_transfer_field:
  assumes "bytes \<noteq> []"
  shows "parse_transfer cb bytes c = parsed cb (parse_field cb bytes c)"
proof -
  obtain b rest c' where p: "parse_field cb bytes c = (b, rest, c')" by (cases "parse_field cb bytes c")
  have "b \<Longrightarrow> length rest < length bytes"
    using parse_shorter[OF keeps_header_task[of "take 1 bytes" False], of bytes cb c rest c'] p assms
    by (simp add: parse_field_def Suc_le_eq)
  then show ?thesis using assms p by (subst parse_transfer.simps) (simp add: parsed_def)
qed

section \<open>Running against parsing\<close>

definition unread :: "'c deserializer \<Rightarrow> 8 word list" where
  "unread s = pending s @ input s"

text \<open>In the middle of a field, with a window that has been granted.\<close>

definition in_field :: "nat \<Rightarrow> 'c deserializer \<Rightarrow> bool" where
  "in_field w s = (requested_bytes s = w \<and> \<not> discard_mode s \<and> \<not> awaiting_field_first_byte s \<and> \<not> assertion_failed s
     \<and> w \<le> length (unread s) \<and> (pending s = [] \<or> length (pending s) = w))"

text \<open>Suspended in a request that the bytes so far do not satisfy.\<close>

definition suspended :: "'c deserializer \<Rightarrow> bool" where
  "suspended s = (\<not> assertion_failed s \<and> input s = [] \<and> length (pending s) < requested_bytes s
     \<and> (if awaiting_field_first_byte s then requested_bytes s = 1 \<and> waiting_coroutine s = first_header
        else \<not> discard_mode s \<and> (\<exists>d. keeps_contract (Peek (requested_bytes s) (waiting_coroutine s)) 0 d)))"

lemma in_field_assert: "in_field w s \<Longrightarrow> b \<Longrightarrow> assert_debug b s = s"
  by (simp add: in_field_def assert_debug_def)

lemma peek_granted:
  assumes "in_field w s" and "n \<noteq> 0" and "n \<le> kProtocolBufferSize" and "w \<le> n" and "n \<le> length (unread s)"
  shows "\<exists>s1 s'. await_ready (peek_request n s) = (True, s1) \<and> await_resume s1 = (Some (take n (unread s)), s')
    \<and> in_field n s' \<and> unread s' = unread s \<and> callback_state s' = callback_state s"
  using assms
  by (auto simp: in_field_def peek_request_def await_ready_def await_resume_def assert_debug_def unread_def Let_def)

lemma peek_suspended:
  assumes "in_field w s" and "n \<noteq> 0" and "n \<le> kProtocolBufferSize" and "w \<le> n" and "length (unread s) < n"
  shows "\<exists>s1. await_ready (peek_request n s) = (False, s1) \<and> requested_bytes s1 = n \<and> pending s1 = unread s \<and> input s1 = []
    \<and> \<not> discard_mode s1 \<and> \<not> awaiting_field_first_byte s1 \<and> \<not> assertion_failed s1 \<and> callback_state s1 = callback_state s"
  using assms
  by (auto simp: in_field_def peek_request_def await_ready_def assert_debug_def unread_def Let_def)

lemma consumed:
  assumes "in_field w s" and "w \<noteq> 0"
  shows "in_field 0 (consume_peeked s)" "unread (consume_peeked s) = drop w (unread s)"
    "callback_state (consume_peeked s) = callback_state s"
  using assms by (auto simp: in_field_def consume_peeked_def assert_debug_def unread_def Let_def)

lemma consumed_partial:
  assumes "in_field w s" and "n < w" and "n \<noteq> 0"
  shows "in_field (w - n) (consume_peeked_partial n s)" "unread (consume_peeked_partial n s) = drop n (unread s)"
    "callback_state (consume_peeked_partial n s) = callback_state s"
  using assms by (auto simp: in_field_def consume_peeked_partial_def assert_debug_def unread_def Let_def)

lemma run_parses:
  assumes "keeps_contract t w d" and "in_field w s"
  shows "(\<exists>b s' w'. run cb t s = (Some b, s') \<and> in_field w' s' \<and> (b \<longrightarrow> w' = 0)
        \<and> (\<forall>v. parse cb t w (unread s @ v) (callback_state s) = (b, unread s' @ v, callback_state s')))
    \<or> (\<exists>s'. run cb t s = (None, s') \<and> suspended s' \<and> \<not> awaiting_field_first_byte s'
        \<and> (\<forall>v. parse cb t w (unread s @ v) (callback_state s)
             = parse cb (Peek (requested_bytes s') (waiting_coroutine s')) 0 (unread s' @ v) (callback_state s')))"
  using assms
proof (induction t arbitrary: w d s)
  case (Ret b)
  then show ?case by (intro disjI1 exI[of _ b] exI[of _ s] exI[of _ w]) simp
next
  case (Peek n k)
  show ?case
  proof (cases "n \<le> length (unread s)")
    case True
    obtain s1 s' where p: "await_ready (peek_request n s) = (True, s1)" "await_resume s1 = (Some (take n (unread s)), s')"
      "in_field n s'" "unread s' = unread s" "callback_state s' = callback_state s"
      using peek_granted[OF Peek.prems(2), of n] Peek.prems(1) True by (simp, blast)
    have "run cb (Peek n k) s = run cb (k (Some (take n (unread s)))) s'" using p(1,2) by simp
    moreover have "parse cb (Peek n k) w (unread s @ v) c = parse cb (k (Some (take n (unread s)))) n (unread s @ v) c" for v c
      using True by simp
    moreover have "keeps_contract (k (Some (take n (unread s)))) n d" using Peek.prems(1) True by simp
    ultimately show ?thesis using Peek.IH[OF rangeI _ p(3), of "Some (take n (unread s))" d] p(4,5) by simp
  next
    case False
    obtain s1 where p: "await_ready (peek_request n s) = (False, s1)" "requested_bytes s1 = n" "pending s1 = unread s" "input s1 = []"
      "\<not> discard_mode s1" "\<not> awaiting_field_first_byte s1" "\<not> assertion_failed s1" "callback_state s1 = callback_state s"
      using peek_suspended[OF Peek.prems(2), of n] Peek.prems(1) False by (simp add: not_le, blast)
    have "keeps_contract (Peek n k) 0 d" using Peek.prems(1) by simp
    then have "suspended (s1\<lparr>waiting_coroutine := k\<rparr>)" using p False by (auto simp: suspended_def)
    moreover have "unread (s1\<lparr>waiting_coroutine := k\<rparr>) = unread s" using p(3,4) by (simp add: unread_def)
    ultimately show ?thesis using p by (intro disjI2 exI[of _ "s1\<lparr>waiting_coroutine := k\<rparr>"]) simp
  qed
next
  case (ConsumePeeked t)
  note c = consumed[OF ConsumePeeked.prems(2)]
  have "drop w (unread s @ v) = drop w (unread s) @ v" for v using ConsumePeeked.prems(2) by (simp add: in_field_def)
  then show ?case using ConsumePeeked.IH[of 0 True "consume_peeked s"] ConsumePeeked.prems c by simp
next
  case (ConsumePartial n t)
  note c = consumed_partial[OF ConsumePartial.prems(2), of n]
  have "n < w \<Longrightarrow> drop n (unread s @ v) = drop n (unread s) @ v" for v using ConsumePartial.prems(2) by (simp add: in_field_def)
  then show ?case using ConsumePartial.IH[of "w - n" True "consume_peeked_partial n s"] ConsumePartial.prems c by simp
next
  case (Call f k)
  obtain b c2 where fc: "field_callback cb f (callback_state s) = (b, c2)" by fastforce
  have "in_field 0 (s\<lparr>callback_state := c2\<rparr>)" "unread (s\<lparr>callback_state := c2\<rparr>) = unread s"
    using Call.prems by (simp_all add: in_field_def unread_def)
  with Call.IH[OF rangeI, of b 0 d "s\<lparr>callback_state := c2\<rparr>"] Call.prems fc show ?case by simp
qed auto

section \<open>The loop of the main coroutine\<close>

text \<open>What the callbacks will have seen when the transfer ends after the bytes \<open>v\<close> still to come.\<close>

definition outcome :: "'c deserialize_callback \<Rightarrow> 'c deserializer \<Rightarrow> 8 word list \<Rightarrow> 'c" where
  "outcome cb s v =
    (if discard_mode s then callback_state s
     else if awaiting_field_first_byte s then parse_transfer cb (unread s @ v) (callback_state s)
     else parsed cb (parse cb (Peek (requested_bytes s) (waiting_coroutine s)) 0 (unread s @ v) (callback_state s)))"

definition at_header :: "'c deserializer \<Rightarrow> bool" where
  "at_header s = (pending s = [] \<and> requested_bytes s = 0 \<and> \<not> assertion_failed s \<and> (discard_mode s \<longrightarrow> input s = []))"

definition ends_with :: "'c deserialize_callback \<Rightarrow> 'c deserializer option \<Rightarrow> (8 word list \<Rightarrow> 'c) \<Rightarrow> bool" where
  "ends_with cb r f = (\<exists>s'. r = Some s' \<and> suspended s' \<and> (\<forall>v. outcome cb s' v = f v))"

definition header_outcome :: "'c deserialize_callback \<Rightarrow> 'c deserializer \<Rightarrow> 8 word list \<Rightarrow> 'c" where
  "header_outcome cb s v = (if discard_mode s then callback_state s else parse_transfer cb (unread s @ v) (callback_state s))"

lemma at_header_assert: "at_header s \<Longrightarrow> assert_debug (pending s = [] \<and> requested_bytes s = 0) s = s"
  by (simp add: at_header_def assert_debug_def)

lemma discard_at_header:
  "\<not> assertion_failed s \<Longrightarrow> at_header (enter_discard_mode cb s) \<and> unread (enter_discard_mode cb s) = []
    \<and> header_outcome cb (enter_discard_mode cb s) v = error_callback cb (callback_state s)"
  by (simp add: at_header_def enter_discard_mode_def header_outcome_def unread_def)

lemma stream_after_task:
  assumes t: "keeps_contract t w d" and s: "in_field w s"
    and loop: "\<And>s2. at_header s2 \<Longrightarrow> length (unread s2) < length (unread s) \<or> d \<or> unread s2 = []
      \<Longrightarrow> ends_with cb (process_stream cb stream_body s2) (header_outcome cb s2)"
  shows "ends_with cb (process_stream cb t s) (\<lambda>v. parsed cb (parse cb t w (unread s @ v) (callback_state s)))"
  using run_parses[OF t s, of cb]
proof (elim disjE exE conjE)
  fix b s' w'
  assume r: "run cb t s = (Some b, s')" "in_field w' s'" "b \<longrightarrow> w' = 0"
    "\<forall>v. parse cb t w (unread s @ v) (callback_state s) = (b, unread s' @ v, callback_state s')"
  let ?s = "if b then s' else enter_discard_mode cb s'"
  have af: "\<not> assertion_failed s'" using r(2) by (simp add: in_field_def)
  have h: "at_header ?s" using r(2,3) discard_at_header[OF af] by (auto simp: in_field_def at_header_def)
  have short: "length (unread ?s) < length (unread s) \<or> d \<or> unread ?s = []"
  proof (cases b)
    case True
    have "w \<le> length (unread s)" using s by (simp add: in_field_def)
    with parse_shorter[OF t this, of cb "callback_state s" "unread s'" "callback_state s'"] r(4)[rule_format, of "[]"] True
    show ?thesis by auto
  next
    case False
    then show ?thesis using discard_at_header[OF af] by simp
  qed
  have "process_stream cb t s = process_stream cb stream_body ?s"
    using at_header_assert[OF h] by (subst process_stream.simps) (simp add: r(1) Let_def)
  moreover have "header_outcome cb ?s v = parsed cb (parse cb t w (unread s @ v) (callback_state s))" for v
  proof (cases b)
    case True
    then show ?thesis using r(2,4) by (simp add: header_outcome_def parsed_def in_field_def)
  next
    case False
    then show ?thesis using r(4) discard_at_header[OF af] by (simp add: parsed_def)
  qed
  ultimately show ?thesis using loop[OF h short] by (simp add: ends_with_def)
next
  fix s'
  assume r: "run cb t s = (None, s')" "suspended s'" "\<not> awaiting_field_first_byte s'"
    "\<forall>v. parse cb t w (unread s @ v) (callback_state s)
       = parse cb (Peek (requested_bytes s') (waiting_coroutine s')) 0 (unread s' @ v) (callback_state s')"
  have "process_stream cb t s = Some s'" by (subst process_stream.simps) (simp add: r(1))
  moreover have "\<not> discard_mode s'" using r(2,3) by (simp add: suspended_def)
  ultimately show ?thesis using r by (simp add: ends_with_def outcome_def)
qed

lemma stream_body_suspends:
  assumes "at_header s" and "unread s = []"
  shows "ends_with cb (process_stream cb stream_body s) (header_outcome cb s)"
  using assms
  by (subst process_stream.simps)
    (auto simp: stream_body_def at_header_def unread_def await_ready_def peek_request_def assert_debug_def Let_def sizes
      ends_with_def suspended_def outcome_def header_outcome_def)

lemma first_byte:
  assumes "at_header s" and "unread s \<noteq> []"
  shows "\<exists>s1. process_stream cb stream_body s = process_stream cb (header_task (take 1 (unread s))) s1 \<and> in_field 1 s1
    \<and> unread s1 = unread s \<and> callback_state s1 = callback_state s"
proof -
  have p: "pending s = []" "input s = unread s" "\<not> discard_mode s" "requested_bytes s = 0" "\<not> assertion_failed s"
    using assms by (auto simp: at_header_def unread_def)
  let ?s1 = "s\<lparr>requested_bytes := 1, assertion_failed := False, awaiting_field_first_byte := False\<rparr>"
  have "1 \<le> length (unread s)" using assms(2) by (cases "unread s") auto
  then have "run cb stream_body s = run cb (header_task (take 1 (unread s))) ?s1"
    using p by (simp add: stream_body_def first_header_def await_ready_def await_resume_def peek_request_def assert_debug_def
        Let_def sizes)
  then have "process_stream cb stream_body s = process_stream cb (header_task (take 1 (unread s))) ?s1"
    by (subst (1 2) process_stream.simps) simp
  moreover have "in_field 1 ?s1" using p \<open>1 \<le> length (unread s)\<close> by (simp add: in_field_def unread_def)
  ultimately show ?thesis by (intro exI[of _ ?s1]) (simp add: unread_def)
qed

lemma stream_ends:
  "at_header s \<Longrightarrow> ends_with cb (process_stream cb stream_body s) (header_outcome cb s)"
proof (induction "length (unread s)" arbitrary: s rule: less_induct)
  case less
  show ?case
  proof (cases "unread s = []")
    case True
    then show ?thesis using stream_body_suspends[OF less.prems] by simp
  next
    case False
    obtain s1 where s1: "process_stream cb stream_body s = process_stream cb (header_task (take 1 (unread s))) s1" "in_field 1 s1"
      "unread s1 = unread s" "callback_state s1 = callback_state s"
      using first_byte[OF less.prems False] by blast
    have "ends_with cb (process_stream cb (header_task (take 1 (unread s))) s1)
      (\<lambda>v. parsed cb (parse cb (header_task (take 1 (unread s))) 1 (unread s1 @ v) (callback_state s1)))"
    proof (rule stream_after_task[OF keeps_header_task[of _ False] s1(2)])
      fix s2 :: "'a deserializer"
      assume h: "at_header s2" "length (unread s2) < length (unread s1) \<or> False \<or> unread s2 = []"
      then have "length (unread s2) < length (unread s)" using False s1(3) by auto
      then show "ends_with cb (process_stream cb stream_body s2) (header_outcome cb s2)" using less.hyps h(1) by blast
    qed
    moreover have "Suc 0 - length (unread s) = 0" using False by (cases "unread s") auto
    moreover have "\<not> discard_mode s" using less.prems False by (auto simp: at_header_def unread_def)
    ultimately show ?thesis
      using False by (simp add: s1 ends_with_def header_outcome_def parse_transfer_field parse_field_def)
  qed
qed

lemma stream_task:
  "keeps_contract t w d \<Longrightarrow> in_field w s
   \<Longrightarrow> ends_with cb (process_stream cb t s) (\<lambda>v. parsed cb (parse cb t w (unread s @ v) (callback_state s)))"
  by (rule stream_after_task[OF _ _ stream_ends])

section \<open>Feeding and finishing\<close>

lemma resumed:
  assumes s: "suspended s" and "\<not> awaiting_field_first_byte s"
    and t: "\<not> discard_mode t" "\<not> assertion_failed t" "\<not> awaiting_field_first_byte t" "requested_bytes t = requested_bytes s"
      "waiting_coroutine t = waiting_coroutine s" "requested_bytes s \<le> length (unread t)"
      "pending t = [] \<or> length (pending t) = requested_bytes s"
  shows "ends_with cb (resume_stream cb t)
    (\<lambda>v. parsed cb (parse cb (Peek (requested_bytes s) (waiting_coroutine s)) 0 (unread t @ v) (callback_state t)))"
proof -
  let ?n = "requested_bytes s"
  obtain d where d: "keeps_contract (Peek ?n (waiting_coroutine s)) 0 d" using assms(1,2) by (auto simp: suspended_def)
  then have n: "?n \<noteq> 0" by simp
  have r: "await_resume t = (Some (take ?n (unread t)), t)"
    using t n by (auto simp: await_resume_def assert_debug_def unread_def Let_def)
  have f: "in_field ?n t" using t by (auto simp: in_field_def)
  have k: "keeps_contract (waiting_coroutine s (Some (take ?n (unread t)))) ?n d" using d t(6) by simp
  have "resume_stream cb t = process_stream cb (waiting_coroutine s (Some (take ?n (unread t)))) t"
    by (simp add: resume_stream_def r t(5))
  then show ?thesis
    using stream_task[OF k f, of cb] t(6) by (simp add: ends_with_def)
qed

lemma resumed_first:
  assumes "\<not> discard_mode t" "\<not> assertion_failed t" "pending t = []" "requested_bytes t = 1" "waiting_coroutine t = first_header"
    "input t \<noteq> []"
  shows "ends_with cb (resume_stream cb t) (\<lambda>v. parse_transfer cb (input t @ v) (callback_state t))"
proof -
  let ?t = "t\<lparr>awaiting_field_first_byte := False\<rparr>"
  have l: "1 \<le> length (input t)" using assms(6) by (cases "input t") auto
  have r: "await_resume t = (Some (take 1 (input t)), t)"
    using assms l by (auto simp: await_resume_def assert_debug_def Let_def)
  have "run cb (first_header (Some (take 1 (input t)))) t = run cb (header_task (take 1 (input t))) ?t"
    by (simp add: first_header_def)
  then have "process_stream cb (first_header (Some (take 1 (input t)))) t = process_stream cb (header_task (take 1 (input t))) ?t"
    by (subst (1 2) process_stream.simps) simp
  then have e: "resume_stream cb t = process_stream cb (header_task (take 1 (input t))) ?t"
    by (simp add: resume_stream_def r assms(5))
  have u: "in_field 1 ?t" "unread ?t = input t" using assms l by (auto simp: in_field_def unread_def)
  have "Suc 0 - length (input t) = 0" using l by simp
  then have "parsed cb (parse cb (header_task (take 1 (input t))) 1 (input t @ v) (callback_state t))
      = parse_transfer cb (input t @ v) (callback_state t)" for v
    using assms(6) by (simp add: parse_transfer_field parse_field_def)
  then show ?thesis
    using stream_task[OF keeps_header_task[of _ False] u(1), of cb "take 1 (input t)"] u(2) e
    by (simp add: ends_with_def)
qed

theorem feed_outcome:
  assumes "suspended s"
  shows "ends_with cb (feed cb buffer s) (\<lambda>v. outcome cb s (buffer @ v))"
proof -
  have a: "assert_debug (requested_bytes s \<noteq> 0 \<and> length (pending s) < requested_bytes s) s = s"
    using assms by (auto simp: suspended_def assert_debug_def)
  have i: "input s = []" "\<not> assertion_failed s" "length (pending s) < requested_bytes s" using assms by (auto simp: suspended_def)
  consider (ignored) "buffer = [] \<or> discard_mode s" | (first) "buffer \<noteq> []" "\<not> discard_mode s" "awaiting_field_first_byte s"
    | (inside) "buffer \<noteq> []" "\<not> discard_mode s" "\<not> awaiting_field_first_byte s" by blast
  then show ?thesis
  proof cases
    case ignored
    then have "feed cb buffer s = Some s" using a by (simp add: feed_def)
    then show ?thesis using ignored assms by (auto simp: ends_with_def outcome_def)
  next
    case first
    let ?t = "s\<lparr>input := buffer\<rparr>"
    have w: "requested_bytes s = 1" "waiting_coroutine s = first_header" "pending s = []"
      using assms first(3) by (auto simp: suspended_def)
    have "feed cb buffer s = resume_stream cb ?t"
      using first w a by (simp add: feed_def Let_def Suc_le_eq)
    then show ?thesis
      using resumed_first[of ?t cb] first w i by (simp add: outcome_def unread_def)
  next
    case inside
    show ?thesis
    proof (cases "requested_bytes s \<le> length (pending s) + length buffer")
      case False
      let ?t = "s\<lparr>pending := pending s @ buffer, input := []\<rparr>"
      have "feed cb buffer s = Some ?t"
        using inside a False by (auto simp: feed_def Let_def)
      moreover have "suspended ?t" using assms inside False by (auto simp: suspended_def)
      ultimately show ?thesis using inside by (auto simp: ends_with_def outcome_def unread_def i(1))
    next
      case True
      define m where "m = (if pending s = [] then 0 else requested_bytes s - length (pending s))"
      let ?t = "s\<lparr>pending := pending s @ take m buffer, input := drop m buffer\<rparr>"
      have "feed cb buffer s = resume_stream cb ?t"
      proof (cases "pending s = []")
        case True
        then have "?t = s\<lparr>input := buffer\<rparr>" by (cases s) (simp add: m_def)
        then show ?thesis using True inside a i(3) \<open>requested_bytes s \<le> length (pending s) + length buffer\<close>
          by (simp add: feed_def Let_def)
      qed (use inside a True i(3) in \<open>auto simp: feed_def Let_def m_def\<close>)
      moreover have "unread ?t = unread s @ buffer" by (simp add: unread_def i(1))
      moreover have "pending ?t = [] \<or> length (pending ?t) = requested_bytes s"
        using True i(3) by (auto simp: m_def)
      ultimately show ?thesis
        using resumed[OF assms inside(3), of ?t cb] inside True i by (simp add: outcome_def unread_def)
    qed
  qed
qed

text \<open>Between two transfers.\<close>

definition idle :: "'c deserializer \<Rightarrow> bool" where
  "idle s = (suspended s \<and> awaiting_field_first_byte s \<and> \<not> discard_mode s)"

lemma idle_outcome: "idle s \<Longrightarrow> outcome cb s v = parse_transfer cb v (callback_state s)"
  by (auto simp: idle_def outcome_def suspended_def unread_def)

theorem finish_outcome:
  assumes "suspended s"
  shows "\<exists>s'. finish_transfer cb s = Some s' \<and> idle s' \<and> callback_state s' = outcome cb s []"
proof (cases "awaiting_field_first_byte s")
  case True
  then have "outcome cb s [] = callback_state s"
    using assms by (auto simp: outcome_def suspended_def unread_def parse_transfer.simps)
  then show ?thesis using True assms by (auto simp: finish_transfer_def idle_def suspended_def)
next
  case False
  let ?t = "s\<lparr>discard_mode := True\<rparr>"
  have i: "input s = []" "\<not> assertion_failed s" "length (pending s) < requested_bytes s" "\<not> discard_mode s"
    using assms False by (auto simp: suspended_def)
  obtain d where k: "waiting_coroutine s None = Ret False" using assms False by (auto simp: suspended_def)
  have r: "await_resume ?t = (None, ?t)" using i by (auto simp: await_resume_def assert_debug_def Let_def)
  let ?u = "enter_discard_mode cb ?t"
  have u: "at_header ?u" "unread ?u = []" "header_outcome cb ?u v = error_callback cb (callback_state s)" for v
    using discard_at_header[of ?t cb] i by auto
  have "resume_stream cb ?t = process_stream cb stream_body ?u"
    by (simp add: resume_stream_def r k) (subst process_stream.simps, simp add: at_header_assert[OF u(1)] Let_def)
  moreover obtain s2 where s2: "process_stream cb stream_body ?u = Some s2" "suspended s2" "outcome cb s2 [] = error_callback cb (callback_state s)"
    using stream_ends[OF u(1), of cb] u(3) by (auto simp: ends_with_def)
  moreover have "awaiting_field_first_byte s2 \<and> discard_mode s2 \<and> pending s2 = []"
    using s2(1) u(1,2)
    by (subst (asm) process_stream.simps)
      (auto simp: stream_body_def at_header_def unread_def await_ready_def peek_request_def assert_debug_def Let_def sizes enter_discard_mode_def)
  moreover have "outcome cb s [] = error_callback cb (callback_state s)"
    using False i k by (simp add: outcome_def unread_def parsed_def)
  ultimately show ?thesis
    using False by (auto simp: finish_transfer_def idle_def suspended_def outcome_def assert_debug_def)
qed

theorem new_idle: "\<exists>s. new_deserializer cb c = Some s \<and> idle s \<and> callback_state s = c"
  by (simp add: new_deserializer_def, subst process_stream.simps)
    (simp add: stream_body_def await_ready_def peek_request_def assert_debug_def Let_def sizes idle_def suspended_def)

end
