(* ===== verification/WireTrip.thy ===== *)
theory WireTrip
  imports DeserSim
begin

text \<open>
  The round trip of the wire protocol, field by field: what the serializer writes for a view is what
  the deserializer hands to the callback, whatever the span contained before and whatever follows.
\<close>

unbundle bit_operations_syntax

section \<open>Windows\<close>

lemma bf_window:
  assumes "member_ok m" and "last_byte m \<le> n" and "k + n \<le> length d"
  shows "bf_get 0 m (take n (drop k (d @ r))) = bf_get k m d" "bf_get 0 m (take n (drop k d)) = bf_get k m d"
proof -
  have e: "take n (drop k (d @ r)) = take n (drop k d)" using assms(3) by simp
  have "bf_get 0 m (take n (drop k d)) = bf_get 0 m (drop k d)" using assms by (intro bf_prefix(1)) auto
  then show "bf_get 0 m (take n (drop k d)) = bf_get k m d" by (simp add: bf_get_def)
  then show "bf_get 0 m (take n (drop k (d @ r))) = bf_get k m d" unfolding e .
qed

lemma bf_window0: "member_ok m \<Longrightarrow> last_byte m \<le> n \<Longrightarrow> n \<le> length d \<Longrightarrow> bf_get 0 m (take n (d @ r)) = bf_get 0 m d"
  using bf_window(1)[of m n 0 d r] by simp

lemma member_sel [simp]: "kIndex (BitfieldMember a b) = a" "kBitWidth (BitfieldMember a b) = b"
  "last_byte (BitfieldMember a b) = (a + b + 7) div 8"
  "member_ok (BitfieldMember a b) = (0 < b \<and> (a + b + 7) div 8 - a div 8 \<le> 8)"
  by (simp_all add: member_eval)

lemma ucast_up_down [simp]:
  "ucast (ucast w8 :: 64 word) = (w8 :: 8 word)" "ucast (ucast w16 :: 64 word) = (w16 :: 16 word)"
  "ucast (ucast w32 :: 64 word) = (w32 :: 32 word)" "ucast (ucast w8 :: 16 word) = (w8 :: 8 word)"
  by (rule bit_word_eqI, simp add: bit_simps)+

section \<open>Field headers\<close>

lemma header_standard:
  assumes "field_id \<le> 0xF" and "field_id \<noteq> 0" and "1 \<le> length d" and "bf_get 0 FieldHeader_Id d = ucast field_id"
  shows "parse_field cb (d @ r) c = parse cb (process_field field_id) 1 (d @ r) c"
proof -
  have "bf_get 0 FieldHeader_Id (take 1 (d @ r)) = ucast field_id"
    using assms(3,4) bf_window0[of FieldHeader_Id 1 d r] by (simp add: members)
  then show ?thesis using assms(2) by (simp add: parse_field_def header_task_def Let_def)
qed

lemma header_extended:
  assumes "2 \<le> length d" and "bf_get 0 FieldHeader_Id d = 0" and "bf_get 0 FieldHeaderExtended_IdExtended d = ucast field_id"
  shows "parse_field cb (d @ r) c = parse cb (process_field field_id) 1 (drop 1 (d @ r)) c"
proof -
  have "bf_get 0 FieldHeader_Id (take 1 (d @ r)) = 0" "bf_get 0 FieldHeaderExtended_IdExtended (take 2 (d @ r)) = ucast field_id"
    using assms bf_window0[of FieldHeader_Id 1 d r] bf_window0[of FieldHeaderExtended_IdExtended 2 d r] by (simp_all add: members)
  then show ?thesis using assms(1) by (simp add: parse_field_def header_task_def Let_def peek_bytes_def sizes)
qed

text \<open>A structure in front of other bytes: what its members hold.\<close>

lemma bf_front:
  "member_ok m \<Longrightarrow> off + last_byte m \<le> k \<Longrightarrow> k \<le> length h \<Longrightarrow> bf_get off m (take k h @ r) = bf_get off m h"
  using bf_prefix(2)[of m off "take k h" r] bf_prefix(1)[of m off k h] by simp

text \<open>Only the callbacks of the first seven kinds of fields have a result; the others are accepted.\<close>

fun refusable :: "field \<Rightarrow> bool" where
  "refusable (FCan _ _) = True"
| "refusable (FUart _ _) = True"
| "refusable (FUartConfig _ _) = True"
| "refusable (FGpioDigital _ _) = True"
| "refusable (FGpioAnalog _ _) = True"
| "refusable (FGpioDigitalReadConfig _ _) = True"
| "refusable (FGpioAnalogReadConfig _ _) = True"
| "refusable _ = False"

definition answers :: "'c deserialize_callback \<Rightarrow> field \<Rightarrow> 8 word list \<Rightarrow> 'c \<Rightarrow> bool \<times> 8 word list \<times> 'c" where
  "answers cb f r c = (let (b, c) = field_callback cb f c in (refusable f \<longrightarrow> b, r, c))"

section \<open>CAN\<close>

definition ts_bytes :: "32 word option \<Rightarrow> 8 word list" where
  "ts_bytes ts = (case ts of None \<Rightarrow> [] | Some t \<Rightarrow> le32_bytes t)"

lemma get32_le32: "get32 (d @ le32_bytes t @ r) (length d) = t"
proof -
  have "get32 (put_bytes (length d) (le32_bytes t) (d @ le32_bytes t @ r)) (length d) = t"
    by (rule get32_put32) simp
  then show ?thesis by (simp add: put_bytes_def)
qed

lemma parse_can_tail:
  assumes "drop w bytes = data @ ts_bytes ts @ r" and "n = length data" and "data \<noteq> [] \<longrightarrow> length data \<le> 8"
  shows "parse cb (can_tail fid view n (ts \<noteq> None)) w bytes c = answers cb (FCan fid (view\<lparr>can_data := data, timestamp_us := ts\<rparr>)) r c"
proof (cases ts)
  case None
  then show ?thesis using assms
    by (cases "data = []") (auto simp: can_tail_def Let_def ts_bytes_def answers_def peek_bytes_def simp del: length_drop split: prod.splits)
next
  case (Some t)
  have "get32 (take (length data + 4) (data @ le32_bytes t @ r)) (length data) = t"
    using get32_le32[of data t "[]"] by simp
  then show ?thesis using assms Some
    by (auto simp: can_tail_def Let_def ts_bytes_def answers_def peek_bytes_def simp del: length_drop split: prod.splits)
qed

definition can_members :: "8 word \<Rightarrow> can_view \<Rightarrow> (bit_member \<times> 64 word) list" where
  "can_members fid v =
    (let dlc = (if can_data v \<noteq> [] then of_nat (length (can_data v) - 1) else 0 :: 8 word) in
     [(FieldHeader_Id, ucast fid), (CanHeader_IsFdCan, of_bool (is_fdcan v)), (CanHeader_IsExtendedCanId, of_bool (is_extended_can_id v)),
      (CanHeader_IsRemoteTransmission, of_bool (is_remote_transmission v))]
     @ (if is_extended_can_id v
        then [(CanHeaderExtended_HasTimestamp, of_bool (timestamp_us v \<noteq> None)), (CanHeader_HasCanData, of_bool (can_data v \<noteq> [])),
              (CanHeaderExtended_CanId, ucast (can_id v)), (CanHeaderExtended_DataLengthCode, ucast dlc)]
        else [(CanHeaderStandard_HasTimestamp, of_bool (timestamp_us v \<noteq> None)), (CanHeader_HasCanData, of_bool (can_data v \<noteq> [])),
              (CanHeaderStandard_CanId, ucast (can_id v)), (CanHeaderStandard_DataLengthCode, ucast dlc)]))"

definition can_header :: "8 word \<Rightarrow> can_view \<Rightarrow> 8 word list \<Rightarrow> 8 word list" where
  "can_header fid v = bf_sets 0 (can_members fid v)"

lemma can_layout: "layout_ok 0 (if is_extended_can_id v then 6 else 3) (map fst (can_members fid v))"
  by (simp add: can_members_def members)

lemma can_fill_form:
  assumes "\<not> use_extended_field_header fid" and "required_can_size fid v = length dst" and "dst \<noteq> []"
    and k: "k = (if is_extended_can_id v then 6 else 3)"
  shows "can_fill fid v dst = (length dst, take k (can_header fid v dst) @ can_data v @ ts_bytes (timestamp_us v))"
    and "length (can_header fid v dst) = length dst" and "length dst = k + length (can_data v) + length (ts_bytes (timestamp_us v))"
    and "length (can_data v) \<le> 8"
proof -
  show len: "length dst = k + length (can_data v) + length (ts_bytes (timestamp_us v))" and "length (can_data v) \<le> 8"
    using assms by (auto simp: required_can_size_def required_field_header_size_def ts_bytes_def sizes split: if_splits option.splits)
  show h: "length (can_header fid v dst) = length dst"
    using length_bf_sets[OF can_layout[of v fid], of 0 dst] len k by (simp add: can_header_def)
  let ?h = "can_header fid v dst"
  have "can_fill fid v dst = (let (cursor, dst) = (if can_data v \<noteq> [] then (k + length (can_data v), put_bytes k (can_data v) ?h) else (k, ?h)) in
     case timestamp_us v of None \<Rightarrow> (cursor, dst) | Some ts \<Rightarrow> (cursor + 4, put_bytes cursor (le32_bytes ts) dst))"
    using assms(1) k
    by (cases "is_extended_can_id v"; cases "can_data v = []"; cases "timestamp_us v")
      (simp_all add: can_fill_def write_field_header_def can_header_def can_members_def Let_def sizes)
  then show "can_fill fid v dst = (length dst, take k ?h @ can_data v @ ts_bytes (timestamp_us v))"
    using len h by (cases "timestamp_us v") (auto simp: put_bytes_def ts_bytes_def Let_def)
qed

lemma ucast_fits:
  fixes w :: "'a :: len word"
  assumes "LENGTH('a) \<le> 64" and "unat w < 2 ^ k"
  shows "take_bit k (ucast w :: 64 word) = ucast w"
proof -
  have "unat w < 2 ^ LENGTH('a)" by (rule unsigned_less)
  also have "(2 :: nat) ^ LENGTH('a) \<le> 2 ^ 64" using assms(1) by (intro power_increasing) simp_all
  finally have u: "unat (ucast w :: 64 word) = unat w" by (simp add: unsigned_ucast_eq take_bit_nat_eq_self)
  then have "unat (take_bit k (ucast w :: 64 word)) = unat (ucast w :: 64 word)"
    using assms(2) by (simp add: unsigned_take_bit_eq take_bit_nat_eq_self)
  then show ?thesis by (simp only: word_unat_eq_iff)
qed

lemma take_of_bool [simp]: "0 < k \<Longrightarrow> take_bit k (of_bool b :: 64 word) = of_bool b"
  by (cases b; cases k) simp_all

lemma member_eq [simp]: "(BitfieldMember a b = BitfieldMember c d) = (a = c \<and> b = d)"
  by (simp add: BitfieldMember_def)

text \<open>Structures written at an offset and read in a window: the value is found in the list of members.\<close>

lemma bf_sets_map:
  "layout_ok free n (map fst fs) \<Longrightarrow> off + n \<le> length dst \<Longrightarrow> map_of fs m = Some x
   \<Longrightarrow> bf_get off m (bf_sets off fs dst) = take_bit (kBitWidth m) x"
  by (rule bf_sets_get[OF _ _ map_of_SomeD])

lemma window_front:
  assumes "member_ok m" and "last_byte m \<le> n" and "n \<le> k" and "k \<le> length h"
  shows "bf_get 0 m (take n (take k h @ q)) = bf_get 0 m h"
  using assms bf_window0[of m n "take k h" q] bf_prefix(1)[of m 0 k h] by simp

lemma can_round_trip:
  assumes fid: "fid \<in> set can_ids" and req: "required_can_size fid v = length dst" and ne: "dst \<noteq> []"
    and fill: "can_fill fid v dst = (cursor, d)"
  shows "cursor = length dst \<and> length d = length dst \<and> parse_field cb (d @ r) c = answers cb (FCan fid v) r c"
proof -
  have std: "fid \<le> 0xF" "fid \<noteq> 0" "\<not> use_extended_field_header fid"
    using fid by (auto simp: can_ids_def use_extended_field_header_def)
  define k :: nat where "k = (if is_extended_can_id v then 6 else 3)"
  define h where "h = can_header fid v dst"
  note form = can_fill_form[OF std(3) req ne k_def, folded h_def]
  have d: "cursor = length dst" "d = take k h @ can_data v @ ts_bytes (timestamp_us v)" using fill form(1) by auto
  have kh: "k \<le> length h" "length h = length dst" "1 \<le> k" using form(2,3) by (simp_all add: k_def)
  have get: "bf_get 0 m h = take_bit (kBitWidth m) x" if "map_of (can_members fid v) m = Some x" for m x
    unfolding h_def can_header_def using that kh by (intro bf_sets_map[OF can_layout[of v fid]]) (auto simp: k_def)
  have win: "bf_get 0 m (take n (d @ r)) = take_bit (kBitWidth m) x"
    if "map_of (can_members fid v) m = Some x" "member_ok m" "last_byte m \<le> n" "n \<le> k" for m x n
    unfolding d(2) append_assoc window_front[OF that(2-4) kh(1)] by (rule get[OF that(1)])
  have id4: "take_bit 4 (ucast fid :: 64 word) = ucast fid"
    using std(1) by (intro ucast_fits) (simp_all add: word_le_nat_alt)
  have "bf_get 0 FieldHeader_Id d = ucast fid"
  proof -
    have "bf_get 0 FieldHeader_Id d = bf_get 0 FieldHeader_Id h"
      unfolding d(2) using kh by (intro bf_front) (simp_all add: members)
    also have "\<dots> = take_bit (kBitWidth FieldHeader_Id) (ucast fid)" by (rule get) (simp add: can_members_def)
    finally show ?thesis using id4 by (simp add: members)
  qed
  then have p1: "parse_field cb (d @ r) c = parse cb (process_can_field fid) 1 (d @ r) c"
    using header_standard[OF std(1,2), of d cb r c] fid kh d(2) by (simp add: process_field_def)
  have tail: "drop k (d @ r) = can_data v @ ts_bytes (timestamp_us v) @ r" using d(2) kh by simp
  have dl: "unat (take_bit 3 (ucast (word_of_nat (length (can_data v) - Suc 0) :: 8 word) :: 64 word)) = length (can_data v) - 1"
  proof -
    have "unat (word_of_nat (length (can_data v) - Suc 0) :: 8 word) = length (can_data v) - Suc 0"
      using form(4) by (intro unat_of_nat_small8) simp
    then show ?thesis using form(4) by (subst ucast_fits) (simp_all add: unsigned_ucast_eq take_bit_nat_eq_self)
  qed
  have one: "1 \<le> length d" "3 \<le> length d" "is_extended_can_id v \<Longrightarrow> 6 \<le> length d" using kh d(2) by (simp_all add: k_def)
  have dlen: "length d = length dst" using form(3) kh d(2) by simp
  show ?thesis
  proof (cases "is_extended_can_id v")
    case True
    have k6: "k = 6" using True by (simp add: k_def)
    have cid: "ucast (take_bit 29 (ucast (can_id v) :: 64 word)) = can_id v"
      using req ne True by (subst ucast_fits) (simp_all add: required_can_size_def word_le_nat_alt not_less split: if_splits)
    have pc: "parse cb (process_can_field fid) 1 (d @ r) c
        = parse cb (can_tail fid \<lparr>can_id = can_id v, can_data = [], is_fdcan = is_fdcan v, is_extended_can_id = True,
            is_remote_transmission = is_remote_transmission v, timestamp_us = None\<rparr> (length (can_data v)) (timestamp_us v \<noteq> None)) 6 (d @ r) c"
      using win one True k6 dl cid
      by (simp add: process_can_field_def peek_bytes_def Let_def sizes members can_members_def)
    have view: "\<lparr>can_id = can_id v, can_data = can_data v, is_fdcan = is_fdcan v, is_extended_can_id = True,
        is_remote_transmission = is_remote_transmission v, timestamp_us = timestamp_us v\<rparr> = v" using True by (cases v) simp
    then have "parse_field cb (d @ r) c = answers cb (FCan fid v) r c"
      using parse_can_tail[OF tail[unfolded k6], of "length (can_data v)" cb fid] form(4) p1 view pc by simp
    then show ?thesis using d(1) dlen by simp
  next
    case False
    have k3: "k = 3" using False by (simp add: k_def)
    have cid: "ucast (take_bit 11 (ucast (can_id v) :: 64 word)) = can_id v"
      using req ne False by (subst ucast_fits) (simp_all add: required_can_size_def word_le_nat_alt not_less split: if_splits)
    have pc: "parse cb (process_can_field fid) 1 (d @ r) c
        = parse cb (can_tail fid \<lparr>can_id = can_id v, can_data = [], is_fdcan = is_fdcan v, is_extended_can_id = False,
            is_remote_transmission = is_remote_transmission v, timestamp_us = None\<rparr> (length (can_data v)) (timestamp_us v \<noteq> None)) 3 (d @ r) c"
      using win one False k3 dl cid
      by (simp add: process_can_field_def peek_bytes_def Let_def sizes members can_members_def)
    have view: "\<lparr>can_id = can_id v, can_data = can_data v, is_fdcan = is_fdcan v, is_extended_can_id = False,
        is_remote_transmission = is_remote_transmission v, timestamp_us = timestamp_us v\<rparr> = v" using False by (cases v) simp
    then have "parse_field cb (d @ r) c = answers cb (FCan fid v) r c"
      using parse_can_tail[OF tail[unfolded k3], of "length (can_data v)" cb fid] form(4) p1 view pc by simp
    then show ?thesis using d(1) dlen by simp
  qed
qed

section \<open>Fields of structures\<close>

text \<open>The bits of the field header are as they were written.\<close>

definition header_kept :: "nat \<Rightarrow> 8 word list \<Rightarrow> 8 word list \<Rightarrow> bool" where
  "header_kept e d d1 = (\<forall>m. member_ok m \<and> kIndex m + kBitWidth m \<le> 8 * e + 4 \<longrightarrow> bf_get 0 m d = bf_get 0 m d1)"

lemma write_header:
  assumes "write_field_header 0 fid dst = (e, d1)" and "e + 1 \<le> length dst" and "fid \<noteq> 0"
  shows "length d1 = length dst" "e = (if 0xF < fid then 1 else 0)"
    and "header_kept e d d1 \<Longrightarrow> length d = length dst
      \<Longrightarrow> parse_field cb (d @ r) c = parse cb (process_field fid) 1 (drop e (d @ r)) c"
proof -
  have lay: "layout_ok 0 1 [FieldHeader_Id]" "layout_ok 0 2 [FieldHeader_Id, FieldHeaderExtended_IdExtended]"
    by (simp_all add: members)
  show e: "e = (if 0xF < fid then 1 else 0)"
    using assms(1) by (auto simp: write_field_header_def use_extended_field_header_def split: if_splits)
  show "length d1 = length dst"
    using assms(1,2) lay length_bf_sets[of 0 1 "[(FieldHeader_Id, ucast fid)]" 0 dst]
      length_bf_sets[of 0 2 "[(FieldHeader_Id, ucast kExtend), (FieldHeaderExtended_IdExtended, ucast fid)]" 0 dst]
    by (auto simp: write_field_header_def use_extended_field_header_def simp del: bf_sets.simps split: if_splits)
  assume k: "header_kept e d d1" and l: "length d = length dst"
  show "parse_field cb (d @ r) c = parse cb (process_field fid) 1 (drop e (d @ r)) c"
  proof (cases "0xF < fid")
    case True
    then have d1: "d1 = bf_sets 0 [(FieldHeader_Id, ucast kExtend), (FieldHeaderExtended_IdExtended, ucast fid)] dst" and e1: "e = 1"
      using assms(1) by (simp_all add: write_field_header_def use_extended_field_header_def)
    have "2 \<le> length dst" using assms(2) e1 by simp
    then have g: "bf_get 0 FieldHeader_Id d1 = 0" "bf_get 0 FieldHeaderExtended_IdExtended d1 = take_bit 8 (ucast fid)"
      unfolding d1 using bf_sets_map[OF _ _ , of 0 2 "[(FieldHeader_Id, ucast kExtend), (FieldHeaderExtended_IdExtended, ucast fid)]" 0 dst] lay(2)
      by (simp_all add: members)
    have "bf_get 0 FieldHeader_Id d = 0" "bf_get 0 FieldHeaderExtended_IdExtended d = take_bit 8 (ucast fid)"
      using k g e1 by (simp_all add: header_kept_def members)
    moreover have "take_bit 8 (ucast fid :: 64 word) = ucast fid" using unat_word8_less[of fid] by (intro ucast_fits) simp_all
    ultimately show ?thesis using header_extended[of d fid cb r c] e1 l \<open>2 \<le> length dst\<close> by simp
  next
    case False
    then have d1: "d1 = bf_sets 0 [(FieldHeader_Id, ucast fid)] dst" and e0: "e = 0"
      using assms(1) by (simp_all add: write_field_header_def use_extended_field_header_def)
    have "bf_get 0 FieldHeader_Id d1 = take_bit 4 (ucast fid)"
      unfolding d1 using bf_sets_map[OF _ _ , of 0 1 "[(FieldHeader_Id, ucast fid)]" 0 dst] lay(1) assms(2) e0 by (simp add: members)
    moreover have "take_bit 4 (ucast fid :: 64 word) = ucast fid"
      using False by (intro ucast_fits) (simp_all add: word_less_nat_alt)
    ultimately have "bf_get 0 FieldHeader_Id d = ucast fid" using k e0 by (simp add: header_kept_def members)
    then show ?thesis using header_standard[of fid d cb r c] False assms(2,3) e0 l by (simp add: not_less)
  qed
qed

lemma header_kept_refl: "header_kept e d d"
  by (simp add: header_kept_def)

lemma header_kept_sets:
  "header_kept e d d1 \<Longrightarrow> layout_ok free n (map fst fs) \<Longrightarrow> off + n \<le> length d \<Longrightarrow> 8 * e + 4 \<le> 8 * off + free
   \<Longrightarrow> header_kept e (bf_sets off fs d) d1"
  using bf_sets_below[of free n fs off d _ 0] by (auto simp: header_kept_def)

lemma header_kept_put:
  "header_kept e d d1 \<Longrightarrow> off + length b \<le> length d \<Longrightarrow> e + 1 \<le> off \<Longrightarrow> header_kept e (put_bytes off b d) d1"
  using bf_put[of off b d _ 0] by (auto simp: header_kept_def)

lemma member_in: "last_byte m \<le> w \<Longrightarrow> kIndex m + kBitWidth m \<le> 8 * w"
  using byte_bounds(1)[of "kIndex m + kBitWidth m"] by (simp add: last_byte_def)

text \<open>A header structure and a payload structure.\<close>

lemma two_structures:
  assumes hdr: "write_field_header 0 fid dst = (e, d1)" and fid: "fid \<noteq> 0"
    and hs: "layout_ok 4 h (map fst hs)" and ps: "layout_ok 0 n (map fst ps)"
    and len: "length dst = e + h + n" and h: "h \<noteq> 0" and d: "d = bf_sets (e + h) ps (bf_sets e hs d1)"
  shows "length d = length dst"
    and "parse_field cb (d @ r) c = parse cb (process_field fid) 1 (drop e (d @ r)) c"
    and "(m, x) \<in> set hs \<Longrightarrow> member_ok m \<Longrightarrow> last_byte m \<le> w \<Longrightarrow> w \<le> h
      \<Longrightarrow> bf_get 0 m (take w (drop e (d @ r))) = take_bit (kBitWidth m) x"
    and "(m, x) \<in> set ps \<Longrightarrow> member_ok m \<Longrightarrow> last_byte m \<le> w \<Longrightarrow> w \<le> n
      \<Longrightarrow> bf_get 0 m (take w (drop (e + h) (d @ r))) = take_bit (kBitWidth m) x"
    and "drop (e + h + n) (d @ r) = r"
proof -
  have e1: "e + 1 \<le> length dst" using len h by simp
  note wh = write_header[OF hdr e1 fid]
  have l1: "length (bf_sets e hs d1) = length dst" using wh(1) len length_bf_sets[OF hs, of e d1] by simp
  then show l: "length d = length dst" using length_bf_sets[OF ps, of "e + h" "bf_sets e hs d1"] len d by simp
  have "header_kept e (bf_sets e hs d1) d1"
    using header_kept_sets[OF header_kept_refl hs, of e d1 e] wh(1) len by simp
  then have "header_kept e d d1" unfolding d using l1 len h by (intro header_kept_sets[OF _ ps]) simp_all
  then show "parse_field cb (d @ r) c = parse cb (process_field fid) 1 (drop e (d @ r)) c" by (rule wh(3)[OF _ l])
  show "drop (e + h + n) (d @ r) = r" using l len by simp
  show "bf_get 0 m (take w (drop e (d @ r))) = take_bit (kBitWidth m) x"
    if "(m, x) \<in> set hs" "member_ok m" "last_byte m \<le> w" "w \<le> h"
  proof -
    have "bf_get 0 m (take w (drop e (d @ r))) = bf_get e m d" using that l len by (intro bf_window) simp_all
    also have "\<dots> = bf_get e m (bf_sets e hs d1)" unfolding d
      using that l1 len member_in[of m h] by (intro bf_sets_below[OF ps]) simp_all
    also have "\<dots> = take_bit (kBitWidth m) x" using that(1) wh(1) len by (intro bf_sets_get[OF hs]) simp_all
    finally show ?thesis .
  qed
  show "bf_get 0 m (take w (drop (e + h) (d @ r))) = take_bit (kBitWidth m) x"
    if "(m, x) \<in> set ps" "member_ok m" "last_byte m \<le> w" "w \<le> n"
  proof -
    have "bf_get 0 m (take w (drop (e + h) (d @ r))) = bf_get (e + h) m d" using that l len by (intro bf_window) simp_all
    also have "\<dots> = take_bit (kBitWidth m) x" unfolding d using that(1) l1 len by (intro bf_sets_get[OF ps]) simp_all
    finally show ?thesis .
  qed
qed


section \<open>Round trips\<close>

text \<open>Whatever span the fill function gets, the field it leaves there is handed to the callback, and
  the bytes behind it are left alone.\<close>

definition trips :: "'c deserialize_callback \<Rightarrow> field \<Rightarrow> nat \<Rightarrow> fill \<Rightarrow> bool" where
  "trips cb f required fill = (\<forall>dst r c. length dst = required \<and> dst \<noteq> [] \<longrightarrow>
     fst (fill dst) = length dst \<and> length (snd (fill dst)) = length dst
     \<and> parse_field cb (snd (fill dst) @ r) c = answers cb f r c)"

lemma can_trips: "fid \<in> set can_ids \<Longrightarrow> trips cb (FCan fid v) (required_can_size fid v) (can_fill fid v)"
  unfolding trips_def
proof (intro allI impI)
  fix dst r :: "8 word list" and c
  assume fid: "fid \<in> set can_ids" and dst: "length dst = required_can_size fid v \<and> dst \<noteq> []"
  obtain cursor d where f: "can_fill fid v dst = (cursor, d)" by fastforce
  show "fst (can_fill fid v dst) = length dst \<and> length (snd (can_fill fid v dst)) = length dst
      \<and> parse_field cb (snd (can_fill fid v dst) @ r) c = answers cb (FCan fid v) r c"
    unfolding f fst_conv snd_conv by (rule can_round_trip[OF fid _ _ f]) (use dst in simp_all)
qed

lemma header_end: "fst (write_field_header 0 fid dst) = (if 0xF < fid then 1 else 0)"
  by (simp add: write_field_header_def use_extended_field_header_def)

lemma layout_member: "layout_ok free n (map fst fs) \<Longrightarrow> (m, x) \<in> set fs \<Longrightarrow> member_ok m \<and> last_byte m \<le> n"
  using layout_ok_member[of free n "map fst fs" m] by force

lemma structures_trip:
  assumes e: "e = (if 0xF < fid then 1 else 0)" and fid: "fid \<noteq> 0"
    and hs: "layout_ok 4 h (map fst hs)" and ps: "layout_ok 0 n (map fst ps)" and h: "h \<noteq> 0"
    and p: "p = e + h" and q: "q = p + n" and req: "required = q"
    and fill: "\<And>dst. fill dst = (q, bf_sets p ps (bf_sets e hs (snd (write_field_header 0 fid dst))))"
    and reads: "\<And>b c. \<forall>(m, x) \<in> set hs. bf_get 0 m (take h (drop e b)) = take_bit (kBitWidth m) x
      \<Longrightarrow> \<forall>(m, x) \<in> set ps. bf_get 0 m (take n (drop p b)) = take_bit (kBitWidth m) x
      \<Longrightarrow> h \<le> length b - e \<Longrightarrow> n \<le> length b - p
      \<Longrightarrow> parse cb (process_field fid) 1 (drop e b) c = answers cb f (drop q b) c"
  shows "trips cb f required fill"
  unfolding trips_def
proof (intro allI impI)
  fix dst r :: "8 word list" and c
  assume dst: "length dst = required \<and> dst \<noteq> []"
  have len: "length dst = e + h + n" using dst req p q by simp
  have w: "write_field_header 0 fid dst = (e, snd (write_field_header 0 fid dst))"
    using header_end[of fid dst] e by (metis prod.collapse)
  let ?d = "bf_sets p ps (bf_sets e hs (snd (write_field_header 0 fid dst)))"
  note t = two_structures[OF w fid hs ps len h refl, folded p, folded q]
  define b where "b = ?d @ r"
  have l: "q \<le> length b" unfolding b_def length_append t(1) using len p q by linarith
  have "parse cb (process_field fid) 1 (drop e b) c = answers cb f (drop q b) c"
  proof (rule reads)
    show "\<forall>(m, x) \<in> set hs. bf_get 0 m (take h (drop e b)) = take_bit (kBitWidth m) x"
      unfolding b_def using t(3)[OF _ _ _ order_refl] layout_member[OF hs] by blast
    show "\<forall>(m, x) \<in> set ps. bf_get 0 m (take n (drop p b)) = take_bit (kBitWidth m) x"
      unfolding b_def using t(4)[OF _ _ _ order_refl] layout_member[OF ps] by blast
    show "h \<le> length b - e" "n \<le> length b - p" using l p q by linarith+
  qed
  then have "parse_field cb (?d @ r) c = answers cb f r c" unfolding b_def t(2,5) .
  moreover have "q = length dst" using dst req by simp
  ultimately show "fst (fill dst) = length dst \<and> length (snd (fill dst)) = length dst \<and> parse_field cb (snd (fill dst) @ r) c = answers cb f r c"
    unfolding fill fst_conv snd_conv t(1) by blast
qed

lemma signed_whole:
  "ucast (signed_take_bit 15 (take_bit 16 (ucast w16 :: 64 word))) = (w16 :: 16 word)"
  "ucast (signed_take_bit 31 (take_bit 32 (ucast w32 :: 64 word))) = (w32 :: 32 word)"
proof -
  have "n < 16 \<Longrightarrow> min n 15 = n" "n < 32 \<Longrightarrow> min n 31 = n" for n :: nat by simp_all
  then show "ucast (signed_take_bit 15 (take_bit 16 (ucast w16 :: 64 word))) = (w16 :: 16 word)"
    "ucast (signed_take_bit 31 (take_bit 32 (ucast w32 :: 64 word))) = (w32 :: 32 word)"
    by (auto intro!: bit_word_eqI simp: bit_simps min.commute)
qed

lemma take_whole:
  "ucast (take_bit 8 (ucast w8 :: 64 word)) = (w8 :: 8 word)" "ucast (take_bit 16 (ucast w16 :: 64 word)) = (w16 :: 16 word)"
  "ucast (take_bit 32 (ucast w32 :: 64 word)) = (w32 :: 32 word)" "take_bit 64 w64 = (w64 :: 64 word)"
  by (rule bit_word_eqI, auto simp: bit_simps)+

lemma signed_as_get: "read_bits_signed m src = signed_take_bit (kBitWidth m - 1) (bf_get 0 m src)"
  by (simp add: read_bits_signed_def bf_get_def)

lemma uart_config_trips:
  assumes "fid \<in> set uart_config_ids"
  shows "trips cb (FUartConfig fid \<lparr>baudrate = Some baud\<rparr>) (required_uart_config_size fid baud) (uart_config_fill fid baud)"
proof (cases "baud = 0")
  case True
  then show ?thesis by (simp add: trips_def required_uart_config_size_def)
next
  case False
  have x: "0xF < fid" "fid \<noteq> 0" "fid \<notin> set can_ids" "fid \<notin> set uart_ids"
    using assms by (auto simp: uart_config_ids_def can_ids_def uart_ids_def)
  show ?thesis
  proof (rule structures_trip[where e = 1 and h = 5 and n = 0 and p = 6 and q = 6 and hs = "[(UartConfigPayload_Baudrate, ucast baud)]" and ps = "[]"])
    show "required_uart_config_size fid baud = 6"
      using assms x False by (simp add: required_uart_config_size_def is_uart_config_field_id_def required_field_header_size_def
          use_extended_field_header_def sizes)
    show "uart_config_fill fid baud dst = (6, bf_sets 6 [] (bf_sets 1 [(UartConfigPayload_Baudrate, ucast baud)]
        (snd (write_field_header 0 fid dst))))" for dst
      using x header_end[of fid dst] by (simp add: uart_config_fill_def case_prod_unfold sizes)
  qed (use x assms in \<open>simp_all add: members process_field_def process_uart_config_field_def peek_bytes_def sizes answers_def take_whole\<close>)
qed

lemma standard_gpio: "process_field kGpio = process_gpio_field kGpio"
  by (simp add: process_field_def can_ids_def uart_ids_def uart_config_ids_def)

lemma standard_imu: "process_field kImu = process_imu_field kImu"
  by (simp add: process_field_def can_ids_def uart_ids_def uart_config_ids_def)

lemma extended_session: "process_field kSession = process_session_field kSession"
  by (simp add: process_field_def can_ids_def uart_ids_def uart_config_ids_def)

lemma channel_whole: "ch < 64 \<Longrightarrow> ucast (take_bit 6 (ucast ch :: 64 word)) = (ch :: 8 word)"
  by (subst ucast_fits) (simp_all add: word_less_nat_alt)

lemma pull_whole: "p \<le> 2 \<Longrightarrow> ucast (take_bit 2 (ucast p :: 64 word)) = (p :: 8 word)"
  by (subst ucast_fits) (simp_all add: word_le_nat_alt)

lemma small_pull: "p \<le> 2 \<Longrightarrow> p \<noteq> 0 \<Longrightarrow> p \<noteq> 1 \<Longrightarrow> p = (2 :: 8 word)"
  by (auto simp: word_le_nat_alt word_unat_eq_iff)

lemmas field_eval = process_gpio_field_def process_gpio_digital_def process_gpio_analog_def process_gpio_config_def
  process_imu_field_def process_session_field_def standard_gpio standard_imu extended_session peek_bytes_def answers_def
  take_whole channel_whole pull_whole Let_def

lemmas fill_eval = case_prod_unfold header_end gpio_header_def gpio_config_payload_def imu_header_def session_header_def

lemmas size_eval = required_gpio_size_def required_imu_size_def required_session_size_def required_field_header_size_def
  use_extended_field_header_def Let_def

end
