(* ===== verification/WireFields.thy ===== *)
theory WireFields
  imports WireTrip
begin

text \<open>
  The round trips of the fields made of fixed structures (\<open>serializer.hpp\<close> against \<open>deserializer.cpp\<close>):
  GPIO, inertial sensors, session.  Each is an instance of \<open>structures_trip\<close> on the lists of members.
  UART is a header structure in front of the data.
\<close>

section \<open>Values that fit their member\<close>

lemma type_whole: "t < 16 \<Longrightarrow> ucast (take_bit 4 (ucast t :: 64 word)) = (t :: 8 word)"
  by (subst ucast_fits) (simp_all add: word_less_nat_alt)


section \<open>UART\<close>

text \<open>A header structure in front of other bytes.\<close>

lemma structure_front:
  assumes hdr: "write_field_header 0 fid dst = (e, d1)" and fid: "fid \<noteq> 0"
    and hs: "layout_ok 4 h (map fst hs)" and len: "length dst = p + length tail" and p: "p = e + h" and h: "h \<noteq> 0"
    and d: "d = take p (bf_sets e hs d1) @ tail"
  shows "length d = length dst"
    and "parse_field cb (d @ r) c = parse cb (process_field fid) 1 (drop e (d @ r)) c"
    and "(m, x) \<in> set hs \<Longrightarrow> last_byte m \<le> w \<Longrightarrow> w \<le> h \<Longrightarrow> bf_get 0 m (take w (drop e (d @ r))) = take_bit (kBitWidth m) x"
    and "drop p (d @ r) = tail @ r"
proof -
  have e1: "e + 1 \<le> length dst" using len p h by simp
  note wh = write_header[OF hdr e1 fid]
  let ?s = "bf_sets e hs d1"
  have l1: "length ?s = length dst" using wh(1) len p length_bf_sets[OF hs, of e d1] by simp
  then show l: "length d = length dst" using len d by simp
  have k1: "header_kept e ?s d1" using header_kept_sets[OF header_kept_refl hs, of e d1 e] wh(1) len p by simp
  have "bf_get 0 m d = bf_get 0 m d1" if "member_ok m" "kIndex m + kBitWidth m \<le> 8 * e + 4" for m
  proof -
    have "last_byte m \<le> p" using that(2) byte_bounds(4)[of "kIndex m + kBitWidth m"] p h by (simp add: last_byte_def)
    then have "bf_get 0 m d = bf_get 0 m ?s" unfolding d using that(1) l1 len by (intro bf_front) simp_all
    then show ?thesis using k1 that by (simp add: header_kept_def)
  qed
  then have "header_kept e d d1" by (simp add: header_kept_def)
  then show "parse_field cb (d @ r) c = parse cb (process_field fid) 1 (drop e (d @ r)) c" by (rule wh(3)[OF _ l])
  show "drop p (d @ r) = tail @ r" using d l1 len by simp
  show "bf_get 0 m (take w (drop e (d @ r))) = take_bit (kBitWidth m) x"
    if "(m, x) \<in> set hs" "last_byte m \<le> w" "w \<le> h"
  proof -
    note mo = layout_member[OF hs that(1)]
    have "bf_get 0 m (take w (drop e (d @ r))) = bf_get e m d" using that mo l len p by (intro bf_window) simp_all
    also have "\<dots> = bf_get e m ?s" unfolding d using that mo l1 len p by (intro bf_front) simp_all
    also have "\<dots> = take_bit (kBitWidth m) x" using that(1) wh(1) len p by (intro bf_sets_get[OF hs]) simp_all
    finally show ?thesis .
  qed
qed

definition uart_members :: "bool \<Rightarrow> nat \<Rightarrow> (bit_member \<times> 64 word) list" where
  "uart_members delimited n =
    (if 4 \<le> n then [(UartHeader_IdleDelimited, of_bool delimited), (UartHeader_IsExtendedLength, of_bool True),
        (UartHeaderExtended_DataLengthExtended, ucast (of_nat n :: 16 word))]
     else [(UartHeader_IdleDelimited, of_bool delimited), (UartHeader_IsExtendedLength, of_bool False),
        (UartHeader_DataLength, ucast (of_nat n :: 8 word))])"

lemma uart_fill_form:
  assumes req: "required_uart_size fid v suffix = length dst" and ne: "dst \<noteq> []"
    and n: "n = length (uart_data v) + length suffix" and h: "h = (if 4 \<le> n then 2 else 1)" and e: "e = (if 0xF < fid then 1 else 0)"
  shows "length dst = e + h + n" and "n \<le> 1023"
    and "length b = length dst \<Longrightarrow> b = bf_sets e (uart_members (idle_delimited v) n) (snd (write_field_header 0 fid dst))
      \<Longrightarrow> uart_fill fid v suffix dst = (length dst, take (e + h) b @ uart_data v @ suffix)"
proof -
  show l: "length dst = e + h + n" and "n \<le> 1023"
    using assms by (auto simp: required_uart_size_def required_field_header_size_def use_extended_field_header_def sizes Let_def split: if_splits)
  assume b: "length b = length dst" "b = bf_sets e (uart_members (idle_delimited v) n) (snd (write_field_header 0 fid dst))"
  have "uart_fill fid v suffix dst =
    (let (cursor, dst) = (if uart_data v \<noteq> [] then (e + h + length (uart_data v), put_bytes (e + h) (uart_data v) b) else (e + h, b)) in
     if suffix \<noteq> [] then (cursor + length suffix, put_bytes cursor suffix dst) else (cursor, dst))"
    using header_end[of fid dst] e h n b(2)
    by (cases "4 \<le> n"; cases "uart_data v = []"; cases "suffix = []") (simp_all add: uart_fill_def uart_members_def case_prod_unfold Let_def sizes del: bf_sets.simps)
  also have "\<dots> = (length dst, take (e + h) b @ uart_data v @ suffix)"
    using b(1) l n by (cases "uart_data v = []"; cases "suffix = []") (simp_all add: put_bytes_def)
  finally show "uart_fill fid v suffix dst = (length dst, take (e + h) b @ uart_data v @ suffix)" .
qed


lemma uart_layout: "layout_ok 4 (if 4 \<le> n then 2 else 1) (map fst (uart_members delimited n))"
  by (simp add: uart_members_def members)

lemma uart_known: "fid \<in> set uart_ids \<Longrightarrow> fid \<noteq> 0 \<and> process_field fid = process_uart_field fid"
  by (auto simp: process_field_def uart_ids_def can_ids_def)

lemma parse_uart_tail:
  assumes "drop w b = data @ r"
  shows "parse cb (uart_tail fid delimited (length data)) w b c = answers cb (FUart fid \<lparr>uart_data = data, idle_delimited = delimited\<rparr>) r c"
  using assms by (cases "data = []") (simp_all add: uart_tail_def peek_bytes_def answers_def del: length_drop split: prod.split)

lemma parse_uart:
  assumes b: "drop h b = data @ r" and n: "n = length data" "n \<le> 1023" and h: "h = (if 4 \<le> n then 2 else 1)" "h \<le> length b"
    and m: "\<And>m x w. (m, x) \<in> set (uart_members delimited n) \<Longrightarrow> last_byte m \<le> w \<Longrightarrow> w \<le> h \<Longrightarrow> bf_get 0 m (take w b) = take_bit (kBitWidth m) x"
  shows "parse cb (process_uart_field fid) 1 b c = answers cb (FUart fid \<lparr>uart_data = data, idle_delimited = delimited\<rparr>) r c"
proof (cases "4 \<le> n")
  case True
  have u: "unat (take_bit 10 (ucast (of_nat n :: 16 word) :: 64 word)) = n"
    using n(2) by (subst ucast_fits) (simp_all add: unsigned_ucast_eq take_bit_nat_eq_self unat_of_nat)
  have g: "bf_get 0 UartHeader_IdleDelimited (take 1 b) = of_bool delimited" "bf_get 0 UartHeader_IsExtendedLength (take 1 b) = 1"
    "bf_get 0 UartHeaderExtended_DataLengthExtended (take 2 b) = take_bit 10 (ucast (of_nat n :: 16 word))"
    using m[of UartHeader_IdleDelimited _ 1] m[of UartHeader_IsExtendedLength _ 1] m[of UartHeaderExtended_DataLengthExtended _ 2] True h
    by (simp_all add: uart_members_def members)
  have "parse cb (process_uart_field fid) 1 b c = parse cb (uart_tail fid delimited n) 2 b c"
    using g h True n(2) by (simp add: process_uart_field_def peek_bytes_def sizes u)
  then show ?thesis using parse_uart_tail[of 2 b data r cb fid delimited c] b h n True by simp
next
  case False
  have u: "unat (take_bit 2 (ucast (of_nat n :: 8 word) :: 64 word)) = n"
    using False by (subst ucast_fits) (simp_all add: unsigned_ucast_eq take_bit_nat_eq_self unat_of_nat)
  have g: "bf_get 0 UartHeader_IdleDelimited (take 1 b) = of_bool delimited" "bf_get 0 UartHeader_IsExtendedLength (take 1 b) = 0"
    "bf_get 0 UartHeader_DataLength (take 1 b) = take_bit 2 (ucast (of_nat n :: 8 word))"
    using m[of UartHeader_IdleDelimited _ 1] m[of UartHeader_IsExtendedLength _ 1] m[of UartHeader_DataLength _ 1] False h
    by (simp_all add: uart_members_def members)
  have "parse cb (process_uart_field fid) 1 b c = parse cb (uart_tail fid delimited n) 1 b c"
    using g h False by (simp add: process_uart_field_def peek_bytes_def sizes u)
  then show ?thesis using parse_uart_tail[of 1 b data r cb fid delimited c] b h n False by simp
qed

lemma uart_trips:
  assumes fid: "fid \<in> set uart_ids"
  shows "trips cb (FUart fid \<lparr>uart_data = uart_data v @ suffix, idle_delimited = idle_delimited v\<rparr>)
    (required_uart_size fid v suffix) (uart_fill fid v suffix)"
  unfolding trips_def
proof (intro allI impI)
  fix dst r :: "8 word list" and c
  assume dst: "length dst = required_uart_size fid v suffix \<and> dst \<noteq> []"
  define e n h p where "e = (if 0xF < fid then 1 else 0 :: nat)" and "n = length (uart_data v) + length suffix"
    and "h = (if 4 \<le> n then 2 else 1 :: nat)" and "p = e + h"
  note f = uart_fill_form[OF conjunct1[OF dst, symmetric] conjunct2[OF dst] n_def h_def e_def, folded p_def]
  define d1 b where "d1 = snd (write_field_header 0 fid dst)"
    and "b = bf_sets e (uart_members (idle_delimited v) n) d1"
  define d where "d = take p b @ uart_data v @ suffix"
  have w: "write_field_header 0 fid dst = (e, d1)" using header_end[of fid dst] by (simp add: e_def d1_def prod_eq_iff)
  have lay: "layout_ok 4 h (map fst (uart_members (idle_delimited v) n))" using uart_layout by (simp add: h_def)
  have len: "length dst = p + length (uart_data v @ suffix)" using f(1) by (simp add: n_def)
  have h0: "h \<noteq> 0" by (simp add: h_def)
  have pe: "p = e + h" by (simp add: p_def)
  note s = structure_front[OF w conjunct1[OF uart_known[OF fid]] lay len pe h0, folded b_def, OF d_def]
  have e1: "e + 1 \<le> length dst" using len pe h0 by simp
  have "length d1 = length dst" by (rule write_header(1)[OF w e1 conjunct1[OF uart_known[OF fid]]])
  then have lb: "length b = length dst" using length_bf_sets[OF lay, of e d1] len pe by (simp add: b_def)
  have fill: "uart_fill fid v suffix dst = (length dst, d)"
    unfolding d_def by (rule f(3)[OF lb]) (simp add: b_def d1_def)
  define bytes where "bytes = d @ r"
  have lbytes: "p \<le> length bytes" using s(1) len by (simp add: bytes_def)
  have "parse cb (process_uart_field fid) 1 (drop e bytes) c
      = answers cb (FUart fid \<lparr>uart_data = uart_data v @ suffix, idle_delimited = idle_delimited v\<rparr>) r c"
  proof (rule parse_uart[OF _ _ f(2) h_def])
    show "drop h (drop e bytes) = (uart_data v @ suffix) @ r" 
      unfolding bytes_def drop_drop add.commute[of h e] pe[symmetric] by (rule s(4))
    show "h \<le> length (drop e bytes)" using lbytes pe by simp
  qed (use s(3)[of _ _ _ r] n_def in \<open>simp_all add: bytes_def\<close>)
  then have "parse_field cb (d @ r) c
      = answers cb (FUart fid \<lparr>uart_data = uart_data v @ suffix, idle_delimited = idle_delimited v\<rparr>) r c"
    using s(2)[of cb r c] uart_known[OF fid] by (simp only: bytes_def)
  then show "fst (uart_fill fid v suffix dst) = length dst \<and> length (snd (uart_fill fid v suffix dst)) = length dst
      \<and> parse_field cb (snd (uart_fill fid v suffix dst) @ r) c
        = answers cb (FUart fid \<lparr>uart_data = uart_data v @ suffix, idle_delimited = idle_delimited v\<rparr>) r c"
    unfolding fill fst_conv snd_conv using s(1) by blast
qed

section \<open>GPIO, inertial sensors, session\<close>

lemma gpio_analog_trips:
  assumes "ch < 64"
  shows "trips cb (FGpioAnalog ch v) (required_gpio_size kGpio kAnalog False) (gpio_analog_fill ch v)"
  by (rule structures_trip[where fid = kGpio and e = 0 and h = 2 and n = 2 and p = 2 and q = 4
    and hs = "[(GpioHeader_PayloadType, ucast kAnalog), (GpioHeader_ChannelIndex, ucast ch), (GpioHeader_Timestamped, of_bool False)]"
    and ps = "[(GpioAnalogPayload_Value, ucast (analog_value v))]"])
    (use assms in \<open>(cases v; simp add: gpio_analog_fill_def fill_eval  members sizes field_eval size_eval del: add_2_eq_Suc add_2_eq_Suc')+\<close>)

lemma accelerometer_trips:
  shows "trips cb (FAccelerometer v) (required_imu_size kImu kAccelerometer) (accelerometer_fill v)"
  by (rule structures_trip[where fid = kImu and e = 0 and h = 1 and n = 10 and p = 1 and q = 11
    and hs = "[(ImuHeader_PayloadType, ucast kAccelerometer)]"
    and ps = "[(ImuAccelerometerPayload_X, ucast (imu_x v)), (ImuAccelerometerPayload_Y, ucast (imu_y v)), (ImuAccelerometerPayload_Z, ucast (imu_z v)), (ImuAccelerometerPayload_TimestampQuarterUs, ucast (imu_timestamp v))]"])
    ((cases v; simp add: accelerometer_fill_def fill_eval signed_as_get signed_whole members sizes field_eval size_eval del: add_2_eq_Suc add_2_eq_Suc')+)

lemma gyroscope_trips:
  shows "trips cb (FGyroscope v) (required_imu_size kImu kGyroscope) (gyroscope_fill v)"
  by (rule structures_trip[where fid = kImu and e = 0 and h = 1 and n = 10 and p = 1 and q = 11
    and hs = "[(ImuHeader_PayloadType, ucast kGyroscope)]"
    and ps = "[(ImuGyroscopePayload_X, ucast (imu_x v)), (ImuGyroscopePayload_Y, ucast (imu_y v)), (ImuGyroscopePayload_Z, ucast (imu_z v)), (ImuGyroscopePayload_TimestampQuarterUs, ucast (imu_timestamp v))]"])
    ((cases v; simp add: gyroscope_fill_def fill_eval signed_as_get signed_whole members sizes field_eval size_eval del: add_2_eq_Suc add_2_eq_Suc')+)

lemma temperature_trips:
  shows "trips cb (FTemperature v) (required_imu_size kImu kTemperature) (temperature_fill v)"
  by (rule structures_trip[where fid = kImu and e = 0 and h = 1 and n = 6 and p = 1 and q = 7
    and hs = "[(ImuHeader_PayloadType, ucast kTemperature)]"
    and ps = "[(ImuTemperaturePayload_Temperature, ucast (raw_register_value v)), (ImuTemperaturePayload_TimestampQuarterUs, ucast (temperature_timestamp v))]"])
    ((cases v; simp add: temperature_fill_def fill_eval  members sizes field_eval size_eval del: add_2_eq_Suc add_2_eq_Suc')+)

lemma session_trips:
  assumes "session_type v < 16 \<and> session_type v \<notin> {kTimeAnchor, kTimeStatus, kSyncSample, kPulseSchedule, kPulseReport}"
  shows "trips cb (FSession v) (required_session_size) (session_control_fill v)"
  by (rule structures_trip[where fid = kSession and e = 1 and h = 5 and n = 0 and p = 6 and q = 6
    and hs = "[(SessionHeader_Type, ucast (session_type v)), (SessionHeader_Nonce, ucast (session_nonce v))]"
    and ps = "[]"])
    (use assms in \<open>(cases v; simp add: session_control_fill_def fill_eval type_whole members sizes field_eval size_eval del: add_2_eq_Suc add_2_eq_Suc')+\<close>)

lemma time_anchor_trips:
  shows "trips cb (FTimeAnchor v) (required_session_size + sizeof_TimeAnchorPayload) (time_anchor_fill v)"
  by (rule structures_trip[where fid = kSession and e = 1 and h = 5 and n = 8 and p = 6 and q = 14
    and hs = "[(SessionHeader_Type, ucast kTimeAnchor), (SessionHeader_Nonce, ucast (mf_nonce v))]"
    and ps = "[(TimeAnchorPayload_Microframe, (mf_microframe v))]"])
    ((cases v; simp add: time_anchor_fill_def fill_eval  members sizes field_eval size_eval del: add_2_eq_Suc add_2_eq_Suc')+)

lemma pulse_schedule_trips:
  shows "trips cb (FPulseSchedule v) (required_session_size + sizeof_PulseSchedulePayload) (pulse_schedule_fill v)"
  by (rule structures_trip[where fid = kSession and e = 1 and h = 5 and n = 8 and p = 6 and q = 14
    and hs = "[(SessionHeader_Type, ucast kPulseSchedule), (SessionHeader_Nonce, ucast (mf_nonce v))]"
    and ps = "[(PulseSchedulePayload_Microframe, (mf_microframe v))]"])
    ((cases v; simp add: pulse_schedule_fill_def fill_eval  members sizes field_eval size_eval del: add_2_eq_Suc add_2_eq_Suc')+)

lemma sync_sample_trips:
  shows "trips cb (FSyncSample v) (required_session_size + sizeof_SyncSamplePayload) (sync_sample_fill v)"
  by (rule structures_trip[where fid = kSession and e = 1 and h = 5 and n = 18 and p = 6 and q = 24
    and hs = "[(SessionHeader_Type, ucast kSyncSample), (SessionHeader_Nonce, ucast (ss_nonce v))]"
    and ps = "[(SyncSamplePayload_Tag, ucast (ss_tag v)), (SyncSamplePayload_MicroframeQ16, (ss_microframe_q16 v)), (SyncSamplePayload_Bus, ucast (ss_bus v)), (SyncSamplePayload_PtpcNs, ucast (ss_ptpc_ns v))]"])
    ((cases v; simp add: sync_sample_fill_def fill_eval  members sizes field_eval size_eval del: add_2_eq_Suc add_2_eq_Suc')+)

lemma pulse_report_trips:
  shows "trips cb (FPulseReport v) (required_session_size + sizeof_PulseReportPayload) (pulse_report_fill v)"
  by (rule structures_trip[where fid = kSession and e = 1 and h = 5 and n = 21 and p = 6 and q = 27
    and hs = "[(SessionHeader_Type, ucast kPulseReport), (SessionHeader_Nonce, ucast (pr_nonce v))]"
    and ps = "[(PulseReportPayload_ScheduledMicroframe, (pr_scheduled_microframe v)), (PulseReportPayload_CapturedMicroframeQ16, (pr_captured_microframe_q16 v)), (PulseReportPayload_TicksPerMicroframeQ16, ucast (pr_ticks_per_microframe_q16 v)), (PulseReportPayload_Flags, ucast (pr_flags v))]"])
    ((cases v; simp add: pulse_report_fill_def fill_eval  members sizes field_eval size_eval del: add_2_eq_Suc add_2_eq_Suc')+)

lemma pull_known: "p \<le> 2 \<Longrightarrow> p = 0 \<or> p = 1 \<or> p = (2 :: 8 word)"
  by (auto simp: word_le_nat_alt word_unat_eq_iff)

lemma gpio_digital_config_trips:
  assumes "ch < 64"
    and "pull v = 0 \<or> pull v = 1 \<or> pull v = 2"
  shows "trips cb (FGpioDigitalReadConfig ch v) (required_gpio_size kGpio kDigitalReadConfig False) (gpio_digital_config_fill ch v)"
  by (rule structures_trip[where fid = kGpio and e = 0 and h = 2 and n = 3 and p = 2 and q = 5
    and hs = "[(GpioHeader_PayloadType, ucast kDigitalReadConfig), (GpioHeader_ChannelIndex, ucast ch), (GpioHeader_Timestamped, of_bool (capture_timestamp v))]"
    and ps = "[(GpioReadConfigPayload_Asap, of_bool (asap v)), (GpioReadConfigPayload_RisingEdge, of_bool (rising_edge v)), (GpioReadConfigPayload_FallingEdge, of_bool (falling_edge v)), (GpioReadConfigPayload_Pull, ucast (pull v)), (GpioReadConfigPayload_PeriodMs, ucast (period_ms v))]"])
    (use assms in \<open>(cases v; elim disjE; simp add: gpio_digital_config_fill_def fill_eval  members sizes field_eval size_eval del: add_2_eq_Suc add_2_eq_Suc')+\<close>)

lemma gpio_analog_config_trips:
  assumes "ch < 64 \<and> \<not> rising_edge v \<and> \<not> falling_edge v \<and> \<not> capture_timestamp v"
    and "pull v = 0 \<or> pull v = 1 \<or> pull v = 2"
  shows "trips cb (FGpioAnalogReadConfig ch v) (required_gpio_size kGpio kAnalogReadConfig False) (gpio_analog_config_fill ch v)"
  by (rule structures_trip[where fid = kGpio and e = 0 and h = 2 and n = 3 and p = 2 and q = 5
    and hs = "[(GpioHeader_PayloadType, ucast kAnalogReadConfig), (GpioHeader_ChannelIndex, ucast ch), (GpioHeader_Timestamped, of_bool False)]"
    and ps = "[(GpioReadConfigPayload_Asap, of_bool (asap v)), (GpioReadConfigPayload_RisingEdge, of_bool False), (GpioReadConfigPayload_FallingEdge, of_bool False), (GpioReadConfigPayload_Pull, ucast (pull v)), (GpioReadConfigPayload_PeriodMs, ucast (period_ms v))]"])
    (use assms in \<open>(cases v; elim disjE; simp add: gpio_analog_config_fill_def fill_eval  members sizes field_eval size_eval del: add_2_eq_Suc add_2_eq_Suc')+\<close>)

lemma anomaly_whole: "n < 2 ^ 24 \<Longrightarrow> ucast (take_bit 24 (ucast n :: 64 word)) = (n :: 32 word)"
  by (subst ucast_fits) (simp_all add: word_less_nat_alt)


lemma time_status_trips:
  assumes "ts_anomaly_count v < 2 ^ 24"
  shows "trips cb (FTimeStatus v) (required_session_size + sizeof_TimeStatusPayload) (time_status_fill v)"
  by (rule structures_trip[where fid = kSession and e = 1 and h = 5 and n = 78 and p = 6 and q = 84
    and hs = "[(SessionHeader_Type, ucast kTimeStatus), (SessionHeader_Nonce, ucast (ts_nonce v))]"
    and ps = "[(TimeStatusPayload_Microframe, (ts_microframe v)), (TimeStatusPayload_TimestampQuarterUs, ucast (ts_timestamp_quarter_us v)), (TimeStatusPayload_TicksPerMicroframeQ16, ucast (ts_ticks_per_microframe_q16 v)), (TimeStatusPayload_State, ucast (ts_state v)), (TimeStatusPayload_AnomalyCount, ucast (ts_anomaly_count v)), (TimeStatusPayload_ResidualMeanQ16, ucast (ts_residual_mean_q16 v)), (TimeStatusPayload_ResidualAbsMaxQ16, ucast (ts_residual_abs_max_q16 v)), (TimeStatusPayload_ResidualCount, ucast (ts_residual_count v)), (TimeStatusPayload_PtpcUnitsPerMicroframe, ucast (ts_ptpc_units_per_microframe v)), (TimeStatusPayload_PtpcReferenceUnits, (ts_ptpc_reference_units v)), (TimeStatusPayload_PtpcReferenceMicroframe, (ts_ptpc_reference_microframe v)), (TimeStatusPayload_PtpcResidualMean, ucast (ts_ptpc_residual_mean v)), (TimeStatusPayload_PtpcResidualAbsMax, ucast (ts_ptpc_residual_abs_max v)), (TimeStatusPayload_PtpcStepMin, ucast (ts_ptpc_step_min v)), (TimeStatusPayload_PtpcStepMax, ucast (ts_ptpc_step_max v)), (TimeStatusPayload_PtpcRawNs, ucast (ts_ptpc_raw_ns v)), (TimeStatusPayload_PtpcRawMicroframe, (ts_ptpc_raw_microframe v))]"])
    (use assms in \<open>(cases v; simp add: time_status_fill_def fill_eval anomaly_whole signed_as_get signed_whole time_status_of_def members sizes field_eval size_eval del: add_2_eq_Suc add_2_eq_Suc')+\<close>)


lemma gpio_digital_trips:
  assumes "ch < 64"
  shows "trips cb (FGpioDigital ch v)
    (required_gpio_size kGpio (if high v then kDigitalHigh else kDigitalLow) (timestamp_quarter_us v \<noteq> None)) (gpio_digital_fill ch v)"
proof (cases "timestamp_quarter_us v")
  case None
  then show ?thesis
    by (intro structures_trip[where fid = kGpio and e = 0 and h = 2 and n = 0 and p = 2 and q = 2
        and hs = "[(GpioHeader_PayloadType, ucast (if high v then kDigitalHigh else kDigitalLow)), (GpioHeader_ChannelIndex, ucast ch),
            (GpioHeader_Timestamped, of_bool False)]" and ps = "[]"])
      (use assms in \<open>(cases v; simp add: gpio_digital_fill_def fill_eval members sizes field_eval size_eval del: add_2_eq_Suc add_2_eq_Suc')+\<close>)
next
  case (Some ts)
  then show ?thesis
    by (intro structures_trip[where fid = kGpio and e = 0 and h = 2 and n = 4 and p = 2 and q = 6
        and hs = "[(GpioHeader_PayloadType, ucast (if high v then kDigitalHigh else kDigitalLow)), (GpioHeader_ChannelIndex, ucast ch),
            (GpioHeader_Timestamped, of_bool True)]" and ps = "[(GpioDigitalReadTimestampPayload_TimestampQuarterUs, ucast ts)]"])
      (use assms in \<open>(cases v; simp add: gpio_digital_fill_def fill_eval members sizes field_eval size_eval del: add_2_eq_Suc add_2_eq_Suc')+\<close>)
qed

end
