(* ===== verification/WireCalls.thy ===== *)
theory WireCalls
  imports WireFields
begin

text \<open>
  The serializer as its clients use it: a call of one of the write functions of \<open>serializer.hpp\<close>, the
  field a receiver should get for it, and what a \<open>SerializeBuffer\<close> has to promise.  The locale
  \<open>transfer_buffer\<close> states that contract; in it, what successful calls leave in the buffer is, transfer by
  transfer, what the deserializer turns back into the fields.
\<close>

section \<open>Calls\<close>

datatype write_call =
    WCan "8 word" can_view
  | WUart "8 word" uart_view "8 word list"
  | WUartConfig "8 word" uart_config_view
  | WGpioDigital "8 word" gpio_digital_view
  | WGpioAnalog "8 word" gpio_analog_view
  | WGpioDigitalReadConfig "8 word" gpio_read_config_view
  | WGpioAnalogReadConfig "8 word" gpio_read_config_view
  | WAccelerometer imu_vector_view
  | WGyroscope imu_vector_view
  | WTemperature imu_temperature_view
  | WSession session_view
  | WTimeAnchor microframe_view
  | WTimeStatus time_status_view
  | WSyncSample sync_sample_view
  | WPulseSchedule microframe_view
  | WPulseReport pulse_report_view

fun perform :: "'b serialize_buffer \<Rightarrow> write_call \<Rightarrow> 'b \<Rightarrow> serialize_result \<times> 'b" where
  "perform B (WCan fid v) = write_can B fid v"
| "perform B (WUart fid v suffix) = write_uart B fid v suffix"
| "perform B (WUartConfig fid v) = write_uart_config B fid v"
| "perform B (WGpioDigital ch v) = write_gpio_digital_value B ch v"
| "perform B (WGpioAnalog ch v) = write_gpio_analog_value B ch v"
| "perform B (WGpioDigitalReadConfig ch v) = write_gpio_digital_read_config B ch v"
| "perform B (WGpioAnalogReadConfig ch v) = write_gpio_analog_read_config B ch v"
| "perform B (WAccelerometer v) = write_imu_accelerometer B v"
| "perform B (WGyroscope v) = write_imu_gyroscope B v"
| "perform B (WTemperature v) = write_imu_temperature B v"
| "perform B (WSession v) = write_session_control B v"
| "perform B (WTimeAnchor v) = write_time_anchor B v"
| "perform B (WTimeStatus v) = write_time_status B v"
| "perform B (WSyncSample v) = write_sync_sample B v"
| "perform B (WPulseSchedule v) = write_pulse_schedule B v"
| "perform B (WPulseReport v) = write_pulse_report B v"

text \<open>The fields of a successful call: none for a UART configuration without a baud rate, and the
  suffix belongs to the data.\<close>

fun received :: "write_call \<Rightarrow> field list" where
  "received (WCan fid v) = [FCan fid v]"
| "received (WUart fid v suffix) = [FUart fid \<lparr>uart_data = uart_data v @ suffix, idle_delimited = idle_delimited v\<rparr>]"
| "received (WUartConfig fid v) = (if baudrate v = None then [] else [FUartConfig fid v])"
| "received (WGpioDigital ch v) = [FGpioDigital ch v]"
| "received (WGpioAnalog ch v) = [FGpioAnalog ch v]"
| "received (WGpioDigitalReadConfig ch v) = [FGpioDigitalReadConfig ch v]"
| "received (WGpioAnalogReadConfig ch v) = [FGpioAnalogReadConfig ch v]"
| "received (WAccelerometer v) = [FAccelerometer v]"
| "received (WGyroscope v) = [FGyroscope v]"
| "received (WTemperature v) = [FTemperature v]"
| "received (WSession v) = [FSession v]"
| "received (WTimeAnchor v) = [FTimeAnchor v]"
| "received (WTimeStatus v) = [FTimeStatus v]"
| "received (WSyncSample v) = [FSyncSample v]"
| "received (WPulseSchedule v) = [FPulseSchedule v]"
| "received (WPulseReport v) = [FPulseReport v]"

text \<open>What the serializer does not check itself: ids of the right kind, and values that fit.\<close>

fun caller_ok :: "write_call \<Rightarrow> bool" where
  "caller_ok (WCan fid v) = (fid \<in> set can_ids)"
| "caller_ok (WUart fid v suffix) = (fid \<in> set uart_ids)"
| "caller_ok (WGpioDigital ch v) = (ch < 64)"
| "caller_ok (WGpioAnalog ch v) = (ch < 64)"
| "caller_ok (WGpioDigitalReadConfig ch v) = (ch < 64 \<and> pull v \<le> 2)"
| "caller_ok (WGpioAnalogReadConfig ch v) = (ch < 64 \<and> pull v \<le> 2)"
| "caller_ok (WSession v) = (session_type v < 16
     \<and> session_type v \<notin> {kTimeAnchor, kTimeStatus, kSyncSample, kPulseSchedule, kPulseReport})"
| "caller_ok (WTimeStatus v) = (ts_anomaly_count v < 2 ^ 24)"
| "caller_ok _ = True"

text \<open>Every call is refused, has nothing to write, or writes one field that trips.\<close>

definition writes_field :: "'c deserialize_callback \<Rightarrow> 'b serialize_buffer \<Rightarrow> write_call \<Rightarrow> bool" where
  "writes_field cb B w = (\<exists>n fill f. perform B w = serialize B n fill \<and> n \<le> kProtocolBufferSize \<and> trips cb f n fill \<and> received w = [f])"

lemma writes_fieldI:
  "perform B w = serialize B n fill \<Longrightarrow> received w = [f] \<Longrightarrow> n \<le> kProtocolBufferSize \<Longrightarrow> trips cb f n fill \<Longrightarrow> writes_field cb B w"
  by (auto simp: writes_field_def)

lemma required_uart_bound: "required_uart_size fid v suffix \<le> kProtocolBufferSize"
  by (simp add: required_uart_size_def Let_def)

lemma required_can_bound: "required_can_size fid v \<le> kProtocolBufferSize"
  by (simp add: required_can_size_def required_field_header_size_def sizes)

lemma required_gpio_bound: "required_gpio_size fid p b \<le> kProtocolBufferSize"
  by (simp add: required_gpio_size_def required_field_header_size_def sizes Let_def)

lemma perform_writes:
  assumes "caller_ok w"
  shows "writes_field cb B w \<or> (\<exists>res. perform B w = Pair res \<and> res \<noteq> kBadAlloc \<and> (res = kSuccess \<longrightarrow> received w = []))"
proof (cases w)
  case (WCan fid v)
  then show ?thesis using assms can_trips[of fid cb v] required_can_bound
    by (intro disjI1 writes_fieldI[of B w "required_can_size fid v" "can_fill fid v"]) (simp_all add: write_can_def)
next
  case (WUart fid v suffix)
  then show ?thesis using assms uart_trips[of fid cb v suffix] required_uart_bound
    by (intro disjI1 writes_fieldI[of B w "required_uart_size fid v suffix" "uart_fill fid v suffix"]) (simp_all add: write_uart_def)
next
  case (WUartConfig fid v)
  show ?thesis
  proof (cases "baudrate v")
    case None
    then have "perform B w = Pair kSuccess" using WUartConfig by (auto simp: write_uart_config_def)
    then show ?thesis using WUartConfig None by auto
  next
    case (Some baud)
    have v: "v = \<lparr>baudrate = Some baud\<rparr>" using Some by (cases v) simp
    have p: "perform B w = serialize B (required_uart_config_size fid baud) (uart_config_fill fid baud)"
      using WUartConfig Some by (auto simp: write_uart_config_def)
    show ?thesis
    proof (cases "fid \<in> set uart_config_ids")
      case True
      have "required_uart_config_size fid baud \<le> kProtocolBufferSize"
        by (simp add: required_uart_config_size_def required_field_header_size_def sizes)
      then show ?thesis using p uart_config_trips[OF True, of cb baud] WUartConfig v
        by (intro disjI1 writes_fieldI[OF p]) simp_all
    next
      case False
      then have "perform B w = Pair kInvalidArgument"
        unfolding p by (auto simp: serialize_def required_uart_config_size_def is_uart_config_field_id_def)
      then show ?thesis by (intro disjI2 exI[of _ kInvalidArgument]) simp
    qed
  qed
next
  case (WGpioDigital ch v)
  then show ?thesis using assms gpio_digital_trips[of ch cb v] required_gpio_bound
    by (intro disjI1 writes_fieldI[of B w "required_gpio_size kGpio (if high v then kDigitalHigh else kDigitalLow) (timestamp_quarter_us v \<noteq> None)"
        "gpio_digital_fill ch v"]) (simp_all add: write_gpio_digital_value_def)
next
  case (WGpioAnalog ch v)
  then show ?thesis using assms gpio_analog_trips[of ch cb v] required_gpio_bound
    by (intro disjI1 writes_fieldI[of B w "required_gpio_size kGpio kAnalog False" "gpio_analog_fill ch v"])
      (simp_all add: write_gpio_analog_value_def)
next
  case (WGpioDigitalReadConfig ch v)
  then show ?thesis using assms gpio_digital_config_trips[of ch v cb] pull_known required_gpio_bound
    by (intro disjI1 writes_fieldI[of B w "required_gpio_size kGpio kDigitalReadConfig False" "gpio_digital_config_fill ch v"])
      (simp_all add: write_gpio_digital_read_config_def)
next
  case (WGpioAnalogReadConfig ch v)
  show ?thesis
  proof (cases "falling_edge v \<or> rising_edge v \<or> capture_timestamp v")
    case True
    then have "perform B w = Pair kInvalidArgument" using WGpioAnalogReadConfig by (auto simp: write_gpio_analog_read_config_def)
    then show ?thesis by (intro disjI2 exI[of _ kInvalidArgument]) simp
  next
    case False
    then have "perform B w = serialize B (required_gpio_size kGpio kAnalogReadConfig False) (gpio_analog_config_fill ch v)"
      using WGpioAnalogReadConfig by (auto simp: write_gpio_analog_read_config_def)
    then show ?thesis using WGpioAnalogReadConfig False assms gpio_analog_config_trips[of ch v cb] pull_known required_gpio_bound
      by (intro disjI1 writes_fieldI) simp_all
  qed
next
  case (WAccelerometer v)
  then show ?thesis using accelerometer_trips[of cb v]
    by (intro disjI1 writes_fieldI[of B w "required_imu_size kImu kAccelerometer" "accelerometer_fill v"])
      (simp_all add: write_imu_accelerometer_def size_eval sizes)
next
  case (WGyroscope v)
  then show ?thesis using gyroscope_trips[of cb v]
    by (intro disjI1 writes_fieldI[of B w "required_imu_size kImu kGyroscope" "gyroscope_fill v"])
      (simp_all add: write_imu_gyroscope_def size_eval sizes)
next
  case (WTemperature v)
  then show ?thesis using temperature_trips[of cb v]
    by (intro disjI1 writes_fieldI[of B w "required_imu_size kImu kTemperature" "temperature_fill v"])
      (simp_all add: write_imu_temperature_def size_eval sizes)
next
  case (WSession v)
  then show ?thesis using assms session_trips[of v cb]
    by (intro disjI1 writes_fieldI[of B w required_session_size "session_control_fill v"])
      (simp_all add: write_session_control_def size_eval sizes)
next
  case (WTimeAnchor v)
  then show ?thesis using time_anchor_trips[of cb v]
    by (intro disjI1 writes_fieldI[of B w "required_session_size + sizeof_TimeAnchorPayload" "time_anchor_fill v"])
      (simp_all add: write_time_anchor_def size_eval sizes)
next
  case (WTimeStatus v)
  then show ?thesis using assms time_status_trips[of v cb]
    by (intro disjI1 writes_fieldI[of B w "required_session_size + sizeof_TimeStatusPayload" "time_status_fill v"])
      (simp_all add: write_time_status_def size_eval sizes)
next
  case (WSyncSample v)
  then show ?thesis using sync_sample_trips[of cb v]
    by (intro disjI1 writes_fieldI[of B w "required_session_size + sizeof_SyncSamplePayload" "sync_sample_fill v"])
      (simp_all add: write_sync_sample_def size_eval sizes)
next
  case (WPulseSchedule v)
  then show ?thesis using pulse_schedule_trips[of cb v]
    by (intro disjI1 writes_fieldI[of B w "required_session_size + sizeof_PulseSchedulePayload" "pulse_schedule_fill v"])
      (simp_all add: write_pulse_schedule_def size_eval sizes)
next
  case (WPulseReport v)
  then show ?thesis using pulse_report_trips[of cb v]
    by (intro disjI1 writes_fieldI[of B w "required_session_size + sizeof_PulseReportPayload" "pulse_report_fill v"])
      (simp_all add: write_pulse_report_def size_eval sizes)
qed


section \<open>What a receiver is told\<close>

text \<open>The callbacks for the fields of a transfer, in order; a refusal reports an error and drops the rest
  of the transfer.\<close>

primrec deliver :: "'c deserialize_callback \<Rightarrow> field list \<Rightarrow> ('c \<Rightarrow> 'c) \<Rightarrow> 'c \<Rightarrow> 'c" where
  "deliver cb [] rest c = rest c"
| "deliver cb (f # fs) rest c =
    (let (b, c) = field_callback cb f c in if refusable f \<longrightarrow> b then deliver cb fs rest c else error_callback cb c)"

abbreviation deliver_all :: "'c deserialize_callback \<Rightarrow> field list \<Rightarrow> 'c \<Rightarrow> 'c" where
  "deliver_all cb fs \<equiv> deliver cb fs (\<lambda>c. c)"

lemma deliver_append: "deliver cb (fs @ gs) rest = deliver cb fs (deliver cb gs rest)"
proof
  fix c show "deliver cb (fs @ gs) rest c = deliver cb fs (deliver cb gs rest) c"
    by (induction fs arbitrary: c) (simp_all split: prod.split)
qed

text \<open>Bytes that stand for fields, whatever bytes follow.\<close>

definition stands_for :: "'c deserialize_callback \<Rightarrow> 8 word list \<Rightarrow> field list \<Rightarrow> bool" where
  "stands_for cb t fs = (\<forall>r c. parse_transfer cb (t @ r) c = deliver cb fs (parse_transfer cb r) c)"

lemma stands_for_nil: "stands_for cb [] []"
  by (simp add: stands_for_def)

lemma stands_for_append: "stands_for cb t fs \<Longrightarrow> stands_for cb u gs \<Longrightarrow> stands_for cb (t @ u) (fs @ gs)"
proof -
  assume a: "stands_for cb t fs" and b: "stands_for cb u gs"
  have "parse_transfer cb (u @ r) = deliver cb gs (parse_transfer cb r)" for r
    using b by (auto simp: stands_for_def)
  then show "stands_for cb (t @ u) (fs @ gs)" using a by (simp add: stands_for_def deliver_append)
qed

lemma stands_for_whole: "stands_for cb t fs \<Longrightarrow> parse_transfer cb t c = deliver_all cb fs c"
proof -
  assume "stands_for cb t fs"
  then have "parse_transfer cb (t @ []) c = deliver cb fs (parse_transfer cb []) c" unfolding stands_for_def by blast
  moreover have "parse_transfer cb [] = (\<lambda>c. c)" by (rule ext) (simp add: parse_transfer.simps)
  ultimately show ?thesis by simp
qed

lemma trips_stand:
  assumes "trips cb f n fill" and "length dst = n" and "dst \<noteq> []"
  shows "stands_for cb (snd (fill dst)) [f]" "length (snd (fill dst)) = n"
proof -
  have t: "length (snd (fill dst)) = length dst" "parse_field cb (snd (fill dst) @ r) c = answers cb f r c" for r c
    using assms by (auto simp: trips_def)
  then show "length (snd (fill dst)) = n" using assms(2) by simp
  have "snd (fill dst) @ r \<noteq> []" for r using t(1) assms(3) by auto
  then show "stands_for cb (snd (fill dst)) [f]"
    unfolding stands_for_def
    by (auto simp: parse_transfer_field t(2) answers_def parsed_def split: prod.splits)
qed

section \<open>Buffers of transfers\<close>

text \<open>The contract of a \<open>SerializeBuffer\<close> whose contents leave in transfers: a span is at the end of the
  last transfer or starts a new one, and nothing else changes.\<close>

locale transfer_buffer =
  fixes B :: "'b serialize_buffer" and transfers :: "'b \<Rightarrow> 8 word list list" and invar :: "'b \<Rightarrow> bool"
  assumes refused: "invar b \<Longrightarrow> 0 < n \<Longrightarrow> n \<le> kProtocolBufferSize \<Longrightarrow> allocate B n b = ([], b')
      \<Longrightarrow> invar b' \<and> transfers b' = transfers b"
    and granted: "invar b \<Longrightarrow> 0 < n \<Longrightarrow> n \<le> kProtocolBufferSize \<Longrightarrow> allocate B n b = (dst, b') \<Longrightarrow> dst \<noteq> []
      \<Longrightarrow> length dst = n"
    and stored: "invar b \<Longrightarrow> 0 < n \<Longrightarrow> n \<le> kProtocolBufferSize \<Longrightarrow> allocate B n b = (dst, b') \<Longrightarrow> dst \<noteq> [] \<Longrightarrow> length d = n
      \<Longrightarrow> invar (written B d b') \<and> (transfers (written B d b') = transfers b @ [d]
           \<or> (\<exists>ts t. transfers b = ts @ [t] \<and> transfers (written B d b') = ts @ [t @ d]))"
begin

lemma call_appends:
  assumes w: "caller_ok w" and b: "invar b" and p: "perform B w b = (res, b')"
  shows "invar b' \<and> (res \<noteq> kSuccess \<and> transfers b' = transfers b
    \<or> res = kSuccess \<and> received w = [] \<and> transfers b' = transfers b
    \<or> res = kSuccess \<and> (\<exists>d. stands_for cb d (received w) \<and> (transfers b' = transfers b @ [d]
         \<or> (\<exists>ts t. transfers b = ts @ [t] \<and> transfers b' = ts @ [t @ d]))))"
  using perform_writes[OF w, of cb B]
proof (elim disjE exE conjE)
  fix r assume "perform B w = Pair r" "r \<noteq> kBadAlloc" "r = kSuccess \<longrightarrow> received w = []"
  then show ?thesis using p b by (cases "res = kSuccess") auto
next
  assume "writes_field cb B w"
  then obtain n fill f where f: "perform B w = serialize B n fill" "n \<le> kProtocolBufferSize" "trips cb f n fill" "received w = [f]"
    by (auto simp: writes_field_def)
  show ?thesis
  proof (cases "n = 0")
    case True
    then show ?thesis using p f(1) b by (auto simp: serialize_def)
  next
    case False
    obtain dst b1 where a: "allocate B n b = (dst, b1)" by fastforce
    have n: "0 < n" using False by simp
    show ?thesis
    proof (cases "dst = []")
      case True
      then show ?thesis using p f(1) False a refused[OF b n f(2), of b1] by (auto simp: serialize_def)
    next
      case ne: False
      have r: "res = kSuccess" "b' = written B (snd (fill dst)) b1" using p f(1) False a ne by (auto simp: serialize_def)
      note t = trips_stand[OF f(3) granted[OF b n f(2) a ne] ne]
      show ?thesis using stored[OF b n f(2) a ne t(2)] t(1) r f(4) by auto
    qed
  qed
qed

end


section \<open>Writing and popping\<close>

datatype link_op = Write write_call | Pop

text \<open>The fields of the successful calls, the transfers handed out, and the buffer at the end.\<close>

fun board_run :: "'b serialize_buffer \<Rightarrow> ('b \<Rightarrow> (8 word list \<times> 'b) option) \<Rightarrow> link_op list \<Rightarrow> 'b
    \<Rightarrow> field list \<times> 8 word list list \<times> 'b" where
  "board_run B pop [] b = ([], [], b)"
| "board_run B pop (Write w # ops) b =
    (let (res, b) = perform B w b; (fs, ts, b) = board_run B pop ops b in
     (if res = kSuccess then received w @ fs else fs, ts, b))"
| "board_run B pop (Pop # ops) b =
    (case pop b of
       None \<Rightarrow> board_run B pop ops b
     | Some (t, b) \<Rightarrow> let (fs, ts, b) = board_run B pop ops b in (fs, t # ts, b))"

definition ops_ok :: "link_op list \<Rightarrow> bool" where
  "ops_ok ops = list_all (\<lambda>op. case op of Write w \<Rightarrow> caller_ok w | Pop \<Rightarrow> True) ops"

text \<open>Transfers that stand for a list of fields, cut at their boundaries.\<close>

definition transfers_for :: "'c deserialize_callback \<Rightarrow> 8 word list list \<Rightarrow> field list \<Rightarrow> bool" where
  "transfers_for cb ts fs = (\<exists>fss. list_all2 (stands_for cb) ts fss \<and> concat fss = fs)"

lemma transfers_for_new: "transfers_for cb ts fs \<Longrightarrow> stands_for cb d gs \<Longrightarrow> transfers_for cb (ts @ [d]) (fs @ gs)"
proof -
  assume "transfers_for cb ts fs" and d: "stands_for cb d gs"
  then obtain fss where f: "list_all2 (stands_for cb) ts fss" "concat fss = fs" by (auto simp: transfers_for_def)
  then have "list_all2 (stands_for cb) (ts @ [d]) (fss @ [gs])" using d by (intro list_all2_appendI) simp_all
  then show ?thesis using f(2) unfolding transfers_for_def by (intro exI[of _ "fss @ [gs]"]) simp
qed

lemma transfers_for_more: "transfers_for cb (ts @ [t]) fs \<Longrightarrow> stands_for cb d gs \<Longrightarrow> transfers_for cb (ts @ [t @ d]) (fs @ gs)"
proof -
  assume "transfers_for cb (ts @ [t]) fs" and d: "stands_for cb d gs"
  then obtain fss where f: "list_all2 (stands_for cb) (ts @ [t]) fss" "concat fss = fs" by (auto simp: transfers_for_def)
  obtain fss1 f1 where g: "fss = fss1 @ [f1]" "list_all2 (stands_for cb) ts fss1" "stands_for cb t f1"
    using f(1) by (auto simp: list_all2_append1 list_all2_Cons1)
  then have "list_all2 (stands_for cb) (ts @ [t @ d]) (fss1 @ [f1 @ gs])"
    using d stands_for_append by (intro list_all2_appendI) simp_all
  then show ?thesis using f(2) g(1) unfolding transfers_for_def by (intro exI[of _ "fss1 @ [f1 @ gs]"]) simp
qed

locale transfer_queue = transfer_buffer B transfers invar
  for B :: "'b serialize_buffer" and transfers :: "'b \<Rightarrow> 8 word list list" and invar :: "'b \<Rightarrow> bool" +
  fixes pop :: "'b \<Rightarrow> (8 word list \<times> 'b) option"
  assumes pop_some: "invar b \<Longrightarrow> pop b = Some (t, b') \<Longrightarrow> invar b' \<and> transfers b = t # transfers b'"
begin

lemma run_transfers:
  assumes "invar b" and "transfers_for cb (us @ transfers b) gs" and "ops_ok ops" and "board_run B pop ops b = (fs, ts, b')"
  shows "invar b' \<and> transfers_for cb (us @ ts @ transfers b') (gs @ fs)"
  using assms
proof (induction ops arbitrary: b us gs fs ts b')
  case Nil
  then show ?case by simp
next
  case (Cons op ops)
  have ok: "ops_ok ops" using Cons.prems(3) by (simp add: ops_ok_def)
  show ?case
  proof (cases op)
    case (Write w)
    obtain res b1 where p: "perform B w b = (res, b1)" by fastforce
    obtain fs1 ts1 b2 where r: "board_run B pop ops b1 = (fs1, ts1, b2)" by (metis prod_cases3)
    have w: "caller_ok w" using Cons.prems(3) Write by (simp add: ops_ok_def)
    note c = call_appends[OF w Cons.prems(1) p, of cb]
    have e: "fs = (if res = kSuccess then received w @ fs1 else fs1)" "ts = ts1" "b' = b2"
      using Cons.prems(4) Write p r by auto
    let ?gs = "gs @ (if res = kSuccess then received w else [])"
    have "transfers_for cb (us @ transfers b1) ?gs"
      using c Cons.prems(2) transfers_for_new[of cb "us @ transfers b" gs _ "received w"]
        transfers_for_more[of cb "us @ _" _ gs _ "received w"] by auto
    then have "invar b2 \<and> transfers_for cb (us @ ts1 @ transfers b2) (?gs @ fs1)"
      using Cons.IH[OF _ _ ok r] c by blast
    then show ?thesis using e by (cases "res = kSuccess") simp_all
  next
    case Pop
    show ?thesis
    proof (cases "pop b")
      case None
      then show ?thesis using Cons.IH[OF Cons.prems(1,2) ok] Cons.prems(4) Pop by simp
    next
      case (Some x)
      obtain t b1 where x: "x = (t, b1)" by fastforce
      obtain fs1 ts1 b2 where r: "board_run B pop ops b1 = (fs1, ts1, b2)" by (metis prod_cases3)
      have q: "invar b1 \<and> transfers b = t # transfers b1" using pop_some[OF Cons.prems(1)] Some x by simp
      then have "transfers_for cb ((us @ [t]) @ transfers b1) gs" using Cons.prems(2) by simp
      then have "invar b2 \<and> transfers_for cb ((us @ [t]) @ ts1 @ transfers b2) (gs @ fs1)"
        using Cons.IH[OF _ _ ok r, of "us @ [t]" gs] q by blast
      then show ?thesis using Cons.prems(4) Pop Some x r by auto
    qed
  qed
qed

lemma run_from_empty:
  assumes "invar b" and "transfers b = []" and "ops_ok ops" and "board_run B pop ops b = (fs, ts, b')"
  shows "invar b' \<and> transfers_for cb (ts @ transfers b') fs"
  using run_transfers[OF assms(1) _ assms(3,4), of cb "[]" "[]"] assms(2) by (simp add: transfers_for_def)

end

section \<open>Receiving\<close>

text \<open>A transfer arrives in chunks and is finished.\<close>

fun feed_all :: "'c deserialize_callback \<Rightarrow> 8 word list list \<Rightarrow> 'c deserializer \<Rightarrow> 'c deserializer option" where
  "feed_all cb [] s = Some s"
| "feed_all cb (x # xs) s = (case feed cb x s of None \<Rightarrow> None | Some s \<Rightarrow> feed_all cb xs s)"

definition receive :: "'c deserialize_callback \<Rightarrow> 8 word list list \<Rightarrow> 'c deserializer \<Rightarrow> 'c deserializer option" where
  "receive cb chunks s = (case feed_all cb chunks s of None \<Rightarrow> None | Some s \<Rightarrow> finish_transfer cb s)"

fun receive_all :: "'c deserialize_callback \<Rightarrow> 8 word list list list \<Rightarrow> 'c deserializer \<Rightarrow> 'c deserializer option" where
  "receive_all cb [] s = Some s"
| "receive_all cb (x # xs) s = (case receive cb x s of None \<Rightarrow> None | Some s \<Rightarrow> receive_all cb xs s)"

lemma feed_all_outcome: "suspended s \<Longrightarrow> ends_with cb (feed_all cb chunks s) (\<lambda>v. outcome cb s (concat chunks @ v))"
proof (induction chunks arbitrary: s)
  case Nil
  then show ?case by (simp add: ends_with_def)
next
  case (Cons x xs)
  obtain s1 where s1: "feed cb x s = Some s1" "suspended s1" "\<And>v. outcome cb s1 v = outcome cb s (x @ v)"
    using feed_outcome[OF Cons.prems, of cb x] by (auto simp: ends_with_def)
  then show ?case using Cons.IH[OF s1(2)] by (simp add: ends_with_def)
qed

lemma receive_parses:
  assumes "idle s"
  shows "\<exists>s'. receive cb chunks s = Some s' \<and> idle s' \<and> callback_state s' = parse_transfer cb (concat chunks) (callback_state s)"
proof -
  have "suspended s" using assms by (simp add: idle_def)
  from feed_all_outcome[OF this, of cb chunks] obtain s1 where s1: "feed_all cb chunks s = Some s1" "suspended s1"
    "outcome cb s1 [] = outcome cb s (concat chunks)" by (auto simp: ends_with_def)
  then show ?thesis using finish_outcome[OF s1(2), of cb] idle_outcome[OF assms] by (simp add: receive_def)
qed

lemma receive_all_parses:
  assumes "idle s"
  shows "\<exists>s'. receive_all cb css s = Some s' \<and> idle s' \<and> callback_state s' = fold (\<lambda>cs. parse_transfer cb (concat cs)) css (callback_state s)"
  using assms
proof (induction css arbitrary: s)
  case (Cons cs css)
  from receive_parses[OF Cons.prems, of cb cs] obtain s1 where s1: "receive cb cs s = Some s1" "idle s1"
    "callback_state s1 = parse_transfer cb (concat cs) (callback_state s)" by blast
  then show ?case using Cons.IH[OF s1(2)] by simp
qed simp

text \<open>Callbacks that accept everything see the fields themselves.\<close>

definition accepting :: "'c deserialize_callback \<Rightarrow> bool" where
  "accepting cb = (\<forall>f c. refusable f \<longrightarrow> fst (field_callback cb f c))"

lemma deliver_accepting: "accepting cb \<Longrightarrow> deliver cb fs rest c = rest (fold (\<lambda>f c. snd (field_callback cb f c)) fs c)"
  by (induction fs arbitrary: c) (auto simp: accepting_def case_prod_unfold Let_def)

lemma transfers_delivered:
  assumes "transfers_for cb ts fs" and "accepting cb" and "map concat css = ts"
  shows "fold (\<lambda>cs. parse_transfer cb (concat cs)) css c = fold (\<lambda>f c. snd (field_callback cb f c)) fs c"
proof -
  obtain fss where f: "list_all2 (stands_for cb) ts fss" "concat fss = fs" using assms(1) by (auto simp: transfers_for_def)
  have "fold (parse_transfer cb) ts c = fold (\<lambda>f c. snd (field_callback cb f c)) (concat fss) c" for c
    using f(1)
  proof (induction ts fss arbitrary: c rule: list_all2_induct)
    case (Cons t ts gs fss)
    then show ?case using stands_for_whole[OF Cons(1)] deliver_accepting[OF assms(2)] by simp
  qed simp
  moreover have "fold (\<lambda>cs. parse_transfer cb (concat cs)) css = fold (parse_transfer cb) ts"
    unfolding assms(3)[symmetric] by (simp add: fold_map comp_def)
  ultimately show ?thesis using f(2) by simp
qed

end
