(* ===== verification/Uplink.thy ===== *)
theory Uplink
  imports WireCalls
begin

text \<open>
  The uplink buffer of a board, \<open>app/src/link/interrupt_safe_buffer.hpp\<close>: eight batches in a ring,
  indexed by two free-running counters of 32 bits.  The serializer appends to the newest batch or opens
  the next one; the main loop takes the oldest, transmits it and releases it.

  The atomic exchanges are taken without interruption: an \<open>allocate\<close> and the writing of its span are one
  step, as they are when the interrupts that serialize do not preempt each other.  \<open>last_span\<close> is the
  address of the span handed out last (batch, offset).  The LED and the diagnostics counter of a
  full buffer are left out.
\<close>

unbundle bit_operations_syntax

section \<open>Batches\<close>

record batch =
  written_size :: nat
  batch_data :: "8 word list"

definition kBatchCount :: nat where
  "kBatchCount = 8"

definition kMask :: "32 word" where
  "kMask = 7"

definition batch_empty :: "batch \<Rightarrow> bool" where
  "batch_empty b = (written_size b = 0)"

definition batch_bytes :: "batch \<Rightarrow> 8 word list" where
  "batch_bytes b = take (written_size b) (batch_data b)"

definition batch_allocate :: "nat \<Rightarrow> batch \<Rightarrow> (nat \<times> batch) option" where
  "batch_allocate sz b =
    (if kProtocolBufferSize - written_size b < sz then None
     else Some (written_size b, b\<lparr>written_size := written_size b + sz\<rparr>))"

definition batch_reset :: "batch \<Rightarrow> batch" where
  "batch_reset b = b\<lparr>written_size := 0\<rparr>"

section \<open>The buffer\<close>

record isb =
  is_locked :: bool
  isb_in :: "32 word"
  isb_out :: "32 word"
  batches :: "batch list"
  last_span :: "nat \<times> nat"

definition isb_new :: isb where
  "isb_new = \<lparr>is_locked = False, isb_in = 0, isb_out = 0,
     batches = replicate kBatchCount \<lparr>written_size = 0, batch_data = replicate kProtocolBufferSize 0\<rparr>, last_span = (0, 0)\<rparr>"

definition set_batch :: "nat \<Rightarrow> batch \<Rightarrow> isb \<Rightarrow> isb" where
  "set_batch i b s = s\<lparr>batches := (batches s)[i := b]\<rparr>"

definition isb_readable :: "isb \<Rightarrow> 32 word" where
  "isb_readable s = isb_in s - isb_out s"

function isb_reserve :: "nat \<Rightarrow> isb \<Rightarrow> (nat \<times> nat) option \<times> isb" where
  "isb_reserve sz s =
    (let newest = unat ((isb_in s - 1) AND kMask) in
     case (if isb_readable s \<noteq> 0 then batch_allocate sz (batches s ! newest) else None) of
       Some (off, b) \<Rightarrow> (Some (newest, off), set_batch newest b s)
     | None \<Rightarrow>
         (let writeable = of_nat kBatchCount - isb_readable s - 1 in
          if writeable = 0 then (None, s) else isb_reserve sz (s\<lparr>isb_in := isb_in s + 1\<rparr>)))"
  by auto
termination
proof (relation "measure (\<lambda>(sz, s). unat (of_nat kBatchCount - isb_readable s - 1))")
  fix sz :: nat and s newest and w :: "32 word"
  assume w: "w = of_nat kBatchCount - isb_readable s - 1" "w \<noteq> 0"
  have e: "of_nat kBatchCount - isb_readable (s\<lparr>isb_in := isb_in s + 1\<rparr>) - 1 = w - 1"
    by (simp add: w(1) isb_readable_def algebra_simps)
  show "((sz, s\<lparr>isb_in := isb_in s + 1\<rparr>), (sz, s)) \<in> measure (\<lambda>(sz, s). unat (of_nat kBatchCount - isb_readable s - 1))"
    using w(2) by (simp only: in_measure prod.case e flip: w(1)) (simp add: unat_minus_one unat_gt_0)
qed simp

declare isb_reserve.simps [simp del]

definition isb_allocate :: "nat \<Rightarrow> isb \<Rightarrow> 8 word list \<times> isb" where
  "isb_allocate sz s =
    (if is_locked s then ([], s)
     else case isb_reserve sz s of
       (None, s) \<Rightarrow> ([], s)
     | (Some (i, off), s) \<Rightarrow> (get_bytes (batch_data (batches s ! i)) off sz, s\<lparr>last_span := (i, off)\<rparr>))"

definition isb_written :: "8 word list \<Rightarrow> isb \<Rightarrow> isb" where
  "isb_written d s =
    (case last_span s of (i, off) \<Rightarrow>
       set_batch i ((batches s ! i)\<lparr>batch_data := put_bytes off d (batch_data (batches s ! i))\<rparr>) s)"

definition isb_buffer :: "isb serialize_buffer" where
  "isb_buffer = \<lparr>allocate = isb_allocate, written = isb_written\<rparr>"

definition pop_batch :: "isb \<Rightarrow> (nat \<times> isb) option" where
  "pop_batch s =
    (if isb_readable s = 0 then None
     else let i = unat (isb_out s AND kMask) in
     if batch_empty (batches s ! i) then None
     else Some (i, s\<lparr>isb_out := isb_out s + 1\<rparr>))"

definition release_batch :: "nat \<Rightarrow> isb \<Rightarrow> isb" where
  "release_batch i s = set_batch i (batch_reset (batches s ! i)) s"

definition isb_clear :: "isb \<Rightarrow> isb" where
  "isb_clear s =
    (let readable = isb_readable s;
         offset = unat (isb_out s AND kMask);
         slice = min (unat readable) (kBatchCount - offset);
         s = (if readable \<noteq> 0
              then (fold release_batch ([offset..<offset + slice] @ [0..<unat readable - slice]) s)\<lparr>isb_out := isb_in s\<rparr>
              else s) in
     s\<lparr>is_locked := False\<rparr>)"


section \<open>The ring of batches\<close>

text \<open>The batches counted from the oldest one: the first \<open>used s\<close> are waiting, the others are free, and
  the last may be in flight.\<close>

definition slot :: "isb \<Rightarrow> nat \<Rightarrow> nat" where
  "slot s k = (unat (isb_out s) + k) mod 8"

definition used :: "isb \<Rightarrow> nat" where
  "used s = unat (isb_readable s)"

definition nth_batch :: "isb \<Rightarrow> nat \<Rightarrow> batch" where
  "nth_batch s k = batches s ! slot s k"

definition isb_ok :: "bool \<Rightarrow> isb \<Rightarrow> bool" where
  "isb_ok in_flight s =
    (length (batches s) = 8 \<and> (\<forall>b \<in> set (batches s). length (batch_data b) = kProtocolBufferSize \<and> written_size b \<le> kProtocolBufferSize)
     \<and> used s \<le> 7 \<and> (\<forall>k < used s. written_size (nth_batch s k) \<noteq> 0)
     \<and> (\<forall>k < 8. used s \<le> k \<and> \<not> (in_flight \<and> k = 7) \<longrightarrow> written_size (nth_batch s k) = 0))"

definition waiting :: "isb \<Rightarrow> 8 word list list" where
  "waiting s = map (\<lambda>k. batch_bytes (nth_batch s k)) [0..<used s]"

lemma unat_mask8: "unat (w AND kMask) = unat w mod 8"
proof -
  have "kMask = mask 3" by (simp add: kMask_def mask_eq_exp_minus_1)
  then have "w AND kMask = take_bit 3 w" by (simp add: take_bit_eq_mask)
  then show ?thesis by (simp only: unsigned_take_bit_eq) (simp add: take_bit_eq_mod)
qed

lemma slot_word: "unat ((isb_out s + of_nat k) AND kMask) = slot s k"
  by (simp add: unat_mask8 slot_def unat_word_ariths unat_of_nat take_bit_eq_mod mod_mod_cancel mod_simps)

lemma slot_less: "slot s k < 8"
  by (simp add: slot_def)

lemma mod8_inj: "(a + j) mod 8 = (a + k) mod 8 \<Longrightarrow> k < 8 \<Longrightarrow> j < 8 \<Longrightarrow> j \<le> k \<Longrightarrow> j = (k :: nat)"
proof -
  assume m: "(a + j) mod 8 = (a + k) mod 8" "k < 8" "j \<le> k"
  then have "8 dvd (a + k) - (a + j)" by (metis add_le_cancel_left mod_eq_dvd_iff_nat)
  then have "8 dvd k - j" by simp
  then show "j = k" using m(2,3) by (metis dvd_imp_le leD le_antisym less_imp_diff_less diff_is_0_eq neq0_conv)
qed

lemma slot_inj: "j < 8 \<Longrightarrow> k < 8 \<Longrightarrow> slot s j = slot s k \<longleftrightarrow> j = k"
  using mod8_inj[of "unat (isb_out s)" j k] mod8_inj[of "unat (isb_out s)" k j] by (cases "j \<le> k") (auto simp: slot_def)

lemma slot_all: "i < 8 \<Longrightarrow> \<exists>k < 8. slot s k = i"
proof -
  assume i: "i < 8"
  have "inj_on (slot s) {..<8}" by (auto simp: inj_on_def slot_inj)
  then have "card (slot s ` {..<8}) = 8" by (simp add: card_image)
  then have "slot s ` {..<8} = {..<8}" using slot_less by (intro card_subset_eq) auto
  then show ?thesis using i by (metis imageE lessThan_iff)
qed

lemma nth_batch_set:
  "length (batches s) = 8 \<Longrightarrow> j < 8 \<Longrightarrow> k < 8
   \<Longrightarrow> nth_batch (set_batch (slot s j) b s) k = (if k = j then b else nth_batch s k)"
  using slot_inj[of j k s] slot_less[of s j] by (auto simp: nth_batch_def set_batch_def slot_def)

lemma readable_used: "used s = unat (isb_readable s)" "isb_readable s = 0 \<longleftrightarrow> used s = 0"
  by (simp_all add: used_def unat_eq_0)

lemma in_from_out: "isb_in s = isb_out s + of_nat (used s)"
  by (simp add: used_def isb_readable_def)

lemma newest_slot: "0 < used s \<Longrightarrow> unat ((isb_in s - 1) AND kMask) = slot s (used s - 1)"
proof -
  assume "0 < used s"
  then have "isb_in s - 1 = isb_out s + of_nat (used s - 1)" by (simp add: in_from_out of_nat_diff)
  then show ?thesis by (simp add: slot_word)
qed

lemma writeable_none: "used s \<le> 7 \<Longrightarrow> of_nat kBatchCount - isb_readable s - 1 = 0 \<longleftrightarrow> used s = 7"
proof -
  have r: "isb_readable s = of_nat (used s)" by (simp add: used_def)
  assume "used s \<le> 7"
  then have "of_nat kBatchCount - isb_readable s - 1 = of_nat (7 - used s)"
    unfolding r kBatchCount_def by (simp add: of_nat_diff)
  moreover have "unat (of_nat (7 - used s) :: 32 word) = 7 - used s" by (simp add: unat_of_nat take_bit_eq_mod)
  ultimately show ?thesis using \<open>used s \<le> 7\<close> by (metis diff_is_0_eq le_antisym unat_eq_0 order_refl)
qed

lemma isb_new_ok: "isb_ok False isb_new \<and> waiting isb_new = []"
proof -
  have "nth_batch isb_new k = \<lparr>written_size = 0, batch_data = replicate kProtocolBufferSize 0\<rparr>" for k
    using slot_less[of isb_new k] by (simp add: nth_batch_def isb_new_def kBatchCount_def slot_def)
  moreover have "used isb_new = 0" by (simp add: used_def isb_readable_def isb_new_def)
  ultimately show ?thesis by (simp add: isb_ok_def waiting_def) (simp add: isb_new_def kBatchCount_def)
qed


section \<open>Writing\<close>

lemma batch_in: "isb_ok fl s \<Longrightarrow> length (batch_data (nth_batch s k)) = kProtocolBufferSize \<and> written_size (nth_batch s k) \<le> kProtocolBufferSize"
  using slot_less[of s k] by (auto simp: isb_ok_def nth_batch_def)

definition open_batch :: "isb \<Rightarrow> isb" where
  "open_batch s = s\<lparr>isb_in := isb_in s + 1\<rparr>"

lemma used_open: "used s < 7 \<Longrightarrow> used (open_batch s) = used s + 1"
proof -
  assume "used s < 7"
  moreover have "isb_readable (open_batch s) = isb_readable s + 1" by (simp add: isb_readable_def open_batch_def)
  ultimately show ?thesis by (simp add: used_def unat_word_ariths)
qed

lemma slot_open [simp]: "slot (open_batch s) k = slot s k" "nth_batch (open_batch s) k = nth_batch s k" "batches (open_batch s) = batches s"
  by (simp_all add: slot_def nth_batch_def open_batch_def)

lemma slot_set [simp]: "slot (set_batch i b s) k = slot s k" "used (set_batch i b s) = used s"
  "length (batches (set_batch i b s)) = length (batches s)"
  by (simp_all add: slot_def used_def isb_readable_def set_batch_def)

lemma reserve_last:
  assumes "0 < used s"
  shows "isb_reserve sz s =
    (case batch_allocate sz (nth_batch s (used s - 1)) of
       Some (off, b) \<Rightarrow> (Some (slot s (used s - 1), off), set_batch (slot s (used s - 1)) b s)
     | None \<Rightarrow> if of_nat kBatchCount - isb_readable s - 1 = 0 then (None, s) else isb_reserve sz (open_batch s))"
  using assms newest_slot[OF assms] readable_used(2)[of s]
  by (subst isb_reserve.simps) (simp add: Let_def nth_batch_def open_batch_def split: option.split)

lemma reserve_cases:
  assumes ok: "isb_ok fl s" and sz: "sz \<le> kProtocolBufferSize"
  shows "isb_reserve sz s =
    (if 0 < used s \<and> sz \<le> kProtocolBufferSize - written_size (nth_batch s (used s - 1))
     then let k = used s - 1; b = nth_batch s k in
          (Some (slot s k, written_size b), set_batch (slot s k) (b\<lparr>written_size := written_size b + sz\<rparr>) s)
     else if used s = 7 then (None, s)
     else let k = used s; b = nth_batch s k in
          (Some (slot s k, 0), set_batch (slot s k) (b\<lparr>written_size := sz\<rparr>) (open_batch s)))"
proof -
  have u: "used s \<le> 7" using ok by (simp add: isb_ok_def)
  have new: "isb_reserve sz (open_batch s) = (let k = used s; b = nth_batch s k in
      (Some (slot s k, 0), set_batch (slot s k) (b\<lparr>written_size := sz\<rparr>) (open_batch s)))" if "used s < 7"
  proof -
    have "written_size (nth_batch s (used s)) = 0" using ok that by (auto simp: isb_ok_def)
    then show ?thesis using reserve_last[of "open_batch s" sz] used_open[OF that] sz by (simp add: batch_allocate_def Let_def)
  qed
  show ?thesis
  proof (cases "0 < used s")
    case True
    then show ?thesis
      using reserve_last[OF True, of sz] new writeable_none[OF u] u by (auto simp: batch_allocate_def Let_def)
  next
    case False
    then have "isb_reserve sz s = isb_reserve sz (open_batch s)"
      using readable_used(2)[of s] by (subst isb_reserve.simps) (simp add: Let_def open_batch_def kBatchCount_def)
    then show ?thesis using new False by simp
  qed
qed

text \<open>The buffer with a span stored in one of its batches.\<close>

definition store_at :: "nat \<Rightarrow> 8 word list \<Rightarrow> isb \<Rightarrow> isb" where
  "store_at k d s =
    (let b = nth_batch s k in
     set_batch (slot s k) \<lparr>written_size = written_size b + length d, batch_data = put_bytes (written_size b) d (batch_data b)\<rparr> s)"

lemma store_nth: "length (batches s) = 8 \<Longrightarrow> k < 8 \<Longrightarrow> j < 8
    \<Longrightarrow> nth_batch (store_at k d s) j = (if j = k then \<lparr>written_size = written_size (nth_batch s k) + length d,
         batch_data = put_bytes (written_size (nth_batch s k)) d (batch_data (nth_batch s k))\<rparr> else nth_batch s j)"
  by (simp add: store_at_def Let_def nth_batch_set)

lemma used_store [simp]: "used (store_at k d s) = used s" "length (batches (store_at k d s)) = length (batches s)"
  by (simp_all add: store_at_def Let_def)

lemma stored_bytes:
  "length dat = kProtocolBufferSize \<Longrightarrow> w + length d \<le> kProtocolBufferSize
   \<Longrightarrow> batch_bytes \<lparr>written_size = w + length d, batch_data = put_bytes w d dat\<rparr> = take w dat @ d"
  by (simp add: batch_bytes_def put_bytes_def)

lemma store_ok:
  assumes "length (batches s) = 8" "\<forall>b \<in> set (batches s). length (batch_data b) = kProtocolBufferSize \<and> written_size b \<le> kProtocolBufferSize"
    and "used s = Suc k" "k < 7" and "d \<noteq> []" "written_size (nth_batch s k) + length d \<le> kProtocolBufferSize"
    and "\<forall>j < k. written_size (nth_batch s j) \<noteq> 0" "\<forall>j < 8. k < j \<and> \<not> (fl \<and> j = 7) \<longrightarrow> written_size (nth_batch s j) = 0"
  shows "isb_ok fl (store_at k d s)" "waiting (store_at k d s) = map (\<lambda>j. batch_bytes (nth_batch s j)) [0..<k] @ [batch_bytes (nth_batch s k) @ d]"
proof -
  let ?b = "nth_batch s k"
  have b: "length (batch_data ?b) = kProtocolBufferSize"
    using assms(1,2) slot_less[of s k] by (auto simp: nth_batch_def)
  note n = store_nth[OF assms(1), of k _ d]
  have "\<forall>b \<in> set (batches (store_at k d s)). length (batch_data b) = kProtocolBufferSize \<and> written_size b \<le> kProtocolBufferSize"
    using assms(2,6) b set_update_subset_insert[of "batches s" "slot s k"]
    by (fastforce simp: store_at_def set_batch_def Let_def)
  moreover have "\<forall>j < Suc k. written_size (nth_batch (store_at k d s) j) \<noteq> 0" using n assms(4,5,7) by (auto simp: less_Suc_eq)
  moreover have "\<forall>j < 8. Suc k \<le> j \<and> \<not> (fl \<and> j = 7) \<longrightarrow> written_size (nth_batch (store_at k d s) j) = 0"
    using n assms(4,8) by (auto simp: Suc_le_eq)
  ultimately show "isb_ok fl (store_at k d s)" using assms(1,3,4) by (simp add: isb_ok_def)
  have "batch_bytes (nth_batch (store_at k d s) k) = batch_bytes ?b @ d"
    using n[of k] assms(4,6) stored_bytes[OF b, of "written_size ?b" d] by (simp add: batch_bytes_def)
  moreover have "map (\<lambda>j. batch_bytes (nth_batch (store_at k d s) j)) [0..<k] = map (\<lambda>j. batch_bytes (nth_batch s j)) [0..<k]"
    using n assms(4) by simp
  ultimately show "waiting (store_at k d s) = map (\<lambda>j. batch_bytes (nth_batch s j)) [0..<k] @ [batch_bytes ?b @ d]"
    using assms(3) by (simp add: waiting_def)
qed

lemma written_stores:
  assumes "length (batches s) = 8"
  shows "isb_written d ((set_batch (slot s k) ((nth_batch s k)\<lparr>written_size := written_size (nth_batch s k) + length d\<rparr>) s)
      \<lparr>last_span := (slot s k, written_size (nth_batch s k))\<rparr>)
    = (store_at k d s)\<lparr>last_span := (slot s k, written_size (nth_batch s k))\<rparr>"
  using assms slot_less[of s k]
  by (cases "nth_batch s k") (simp add: isb_written_def store_at_def set_batch_def nth_batch_def Let_def)

lemma isb_ok_span [simp]: "isb_ok fl (s\<lparr>last_span := p\<rparr>) = isb_ok fl s" "waiting (s\<lparr>last_span := p\<rparr>) = waiting s"
  by (simp_all add: isb_ok_def waiting_def nth_batch_def slot_def used_def isb_readable_def)

lemma allocate_cases:
  assumes ok: "isb_ok fl s" and sz: "0 < sz" "sz \<le> kProtocolBufferSize" and a: "isb_allocate sz s = (dst, s')"
  shows "dst = [] \<and> s' = s \<and> (is_locked s \<or> used s = 7)
    \<or> length dst = sz \<and> (\<forall>d. length d = sz \<longrightarrow> isb_ok fl (isb_written d s')
         \<and> (waiting (isb_written d s') = waiting s @ [d]
            \<or> (\<exists>ts t. waiting s = ts @ [t] \<and> waiting (isb_written d s') = ts @ [t @ d])))"
proof (cases "is_locked s")
  case True
  then show ?thesis using a by (simp add: isb_allocate_def)
next
  case False
  have len: "length (batches s) = 8" using ok by (simp add: isb_ok_def)
  have u7: "used s \<le> 7" using ok by (simp add: isb_ok_def)
  have sizes_ok: "\<forall>b \<in> set (batches s). length (batch_data b) = kProtocolBufferSize \<and> written_size b \<le> kProtocolBufferSize"
    using ok by (simp add: isb_ok_def)
  consider (more) "0 < used s" "sz \<le> kProtocolBufferSize - written_size (nth_batch s (used s - 1))"
    | (full) "\<not> (0 < used s \<and> sz \<le> kProtocolBufferSize - written_size (nth_batch s (used s - 1)))" "used s = 7"
    | (new) "\<not> (0 < used s \<and> sz \<le> kProtocolBufferSize - written_size (nth_batch s (used s - 1)))" "used s < 7"
    using u7 by linarith
  then show ?thesis
  proof cases
    case full
    then have "isb_reserve sz s = (None, s)" unfolding reserve_cases[OF ok sz(2)] by simp
    then show ?thesis using a False full(2) by (simp add: isb_allocate_def)
  next
    case more
    define k where "k = used s - 1"
    let ?b = "nth_batch s k"
    have k: "used s = Suc k" "k < 7" using more(1) u7 by (simp_all add: k_def)
    have le: "written_size ?b \<le> kProtocolBufferSize" using batch_in[OF ok, of k] ..
    have fits: "written_size ?b + sz \<le> kProtocolBufferSize"
      using more(2) unfolding k_def[symmetric] le_diff_conv2[OF le] by (simp only: add.commute)
    have r: "isb_reserve sz s = (Some (slot s k, written_size ?b), set_batch (slot s k) (?b\<lparr>written_size := written_size ?b + sz\<rparr>) s)"
      unfolding reserve_cases[OF ok sz(2)] using more k_def by (simp add: Let_def)
    have s': "s' = (set_batch (slot s k) (?b\<lparr>written_size := written_size ?b + sz\<rparr>) s)\<lparr>last_span := (slot s k, written_size ?b)\<rparr>"
      "dst = get_bytes (batch_data ?b) (written_size ?b) sz"
      using a False r len slot_less[of s k] by (auto simp: isb_allocate_def set_batch_def)
    have w: "waiting s = map (\<lambda>j. batch_bytes (nth_batch s j)) [0..<k] @ [batch_bytes ?b]" using k by (simp add: waiting_def)
    have occupied: "\<forall>j < k. written_size (nth_batch s j) \<noteq> 0" using ok k by (simp add: isb_ok_def)
    have free: "\<forall>j < 8. k < j \<and> \<not> (fl \<and> j = 7) \<longrightarrow> written_size (nth_batch s j) = 0" using ok k by (simp add: isb_ok_def)
    have "length dst = sz" using s'(2) fits batch_in[OF ok, of k] by simp
    moreover have "isb_ok fl (isb_written d s') \<and> waiting (isb_written d s') = map (\<lambda>j. batch_bytes (nth_batch s j)) [0..<k] @ [batch_bytes ?b @ d]"
      if "length d = sz" for d
    proof -
      have "isb_written d s' = (store_at k d s)\<lparr>last_span := (slot s k, written_size ?b)\<rparr>"
        unfolding s'(1) that[symmetric] by (rule written_stores[OF len])
      moreover have ne: "d \<noteq> []" using that sz(1) by auto
      moreover note store_ok[OF len sizes_ok k ne _ occupied free, unfolded that, OF fits]
      ultimately show ?thesis using w by simp
    qed
    ultimately show ?thesis using w by blast
  next
    case new
    define k where "k = used s"
    let ?b = "nth_batch s k"
    let ?s = "open_batch s"
    have k: "used ?s = Suc k" "k < 7" using new(2) used_open[OF new(2)] by (simp_all add: k_def)
    have b0: "written_size ?b = 0" using ok new(2) by (auto simp: isb_ok_def k_def)
    have r: "isb_reserve sz s = (Some (slot s k, 0), set_batch (slot s k) (?b\<lparr>written_size := sz\<rparr>) ?s)"
      unfolding reserve_cases[OF ok sz(2)] using new by (auto simp: Let_def k_def)
    have s': "s' = (set_batch (slot ?s k) ((nth_batch ?s k)\<lparr>written_size := written_size (nth_batch ?s k) + sz\<rparr>) ?s)
        \<lparr>last_span := (slot ?s k, written_size (nth_batch ?s k))\<rparr>"
      "dst = get_bytes (batch_data ?b) 0 sz"
      using a False r len slot_less[of s k] b0 by (auto simp: isb_allocate_def set_batch_def)
    have "length dst = sz" using s'(2) sz batch_in[OF ok, of k] by simp
    moreover have "isb_ok fl (isb_written d s') \<and> waiting (isb_written d s') = waiting s @ [d]"
      if "length d = sz" for d
    proof -
      have "isb_written d s' = (store_at k d ?s)\<lparr>last_span := (slot ?s k, written_size (nth_batch ?s k))\<rparr>"
        unfolding s'(1) that[symmetric] using len by (intro written_stores) simp
      moreover have ne: "d \<noteq> []" using that sz(1) by auto
      have l: "length (batches ?s) = 8" "\<forall>b \<in> set (batches ?s). length (batch_data b) = kProtocolBufferSize \<and> written_size b \<le> kProtocolBufferSize"
        using len sizes_ok by simp_all
      have f: "\<forall>j < k. written_size (nth_batch ?s j) \<noteq> 0" "\<forall>j < 8. k < j \<and> \<not> (fl \<and> j = 7) \<longrightarrow> written_size (nth_batch ?s j) = 0"
        using ok by (simp_all add: isb_ok_def k_def)
      have "written_size (nth_batch ?s k) + length d \<le> kProtocolBufferSize" using b0 that sz(2) by simp
      note store_ok[OF l k ne this f]
      moreover have "batch_bytes ?b = []" using b0 by (simp add: batch_bytes_def)
      moreover have "waiting s = map (\<lambda>j. batch_bytes (nth_batch s j)) [0..<k]" by (simp add: waiting_def k_def)
      ultimately show ?thesis by simp
    qed
    ultimately show ?thesis by blast
  qed
qed


section \<open>Taking batches\<close>

lemma pop_cases:
  assumes "isb_ok False s"
  shows "pop_batch s = (if used s = 0 then None else Some (slot s 0, s\<lparr>isb_out := isb_out s + 1\<rparr>))"
proof -
  have "unat (isb_out s AND kMask) = slot s 0" using slot_word[of s 0] by simp
  moreover have "0 < used s \<Longrightarrow> written_size (batches s ! slot s 0) \<noteq> 0"
    using assms by (auto simp: isb_ok_def nth_batch_def)
  ultimately show ?thesis using readable_used(2)[of s] by (auto simp: pop_batch_def Let_def batch_empty_def)
qed

text \<open>The counters go on by one: the oldest batch is now the one in flight.\<close>

lemma advanced:
  assumes ok: "isb_ok False s" and u: "0 < used s" and t: "t = s\<lparr>isb_out := isb_out s + 1\<rparr>"
  shows "isb_ok True t" "waiting s = batch_bytes (batches s ! slot s 0) # waiting t" "slot t 7 = slot s 0"
proof -
  have sl: "slot t k = slot s (k + 1)" for k
    using slot_word[of t k] slot_word[of s "k + 1"] t by (simp add: algebra_simps)
  then have nb: "nth_batch t k = nth_batch s (k + 1)" for k by (simp add: nth_batch_def t)
  have "isb_readable t = isb_readable s - 1" by (simp add: isb_readable_def t algebra_simps)
  then have ut: "used t = used s - 1" using u by (simp add: used_def unat_minus_one unat_gt_0)
  show "slot t 7 = slot s 0" using sl[of 7] by (simp add: slot_def)
  have "written_size (nth_batch t k) = 0" if "k < 7" "used t \<le> k" for k
    using ok nb[of k] u ut that by (auto simp: isb_ok_def)
  then have "\<forall>k < 8. used t \<le> k \<and> \<not> k = 7 \<longrightarrow> written_size (nth_batch t k) = 0" by (auto simp: less_Suc_eq numeral_eq_Suc)
  moreover have "\<forall>k < used t. written_size (nth_batch t k) \<noteq> 0" using ok nb ut by (simp add: isb_ok_def)
  moreover have "used s \<le> 7" using ok by (simp add: isb_ok_def)
  then have "used t \<le> 7" unfolding ut by linarith
  moreover have "batches t = batches s" by (simp add: t)
  ultimately show "isb_ok True t" using ok by (simp add: isb_ok_def)
  have "[0..<used s] = 0 # map Suc [0..<used t]" using u ut by (simp add: map_Suc_upt upt_conv_Cons)
  then show "waiting s = batch_bytes (batches s ! slot s 0) # waiting t"
    by (simp add: waiting_def nb nth_batch_def[of s 0] comp_def)
qed

lemma released:
  assumes "isb_ok True t"
  shows "isb_ok False (release_batch (slot t 7) t)" "waiting (release_batch (slot t 7) t) = waiting t"
proof -
  have len: "length (batches t) = 8" and u: "used t \<le> 7" using assms by (simp_all add: isb_ok_def)
  let ?r = "release_batch (slot t 7) t"
  have nb: "nth_batch ?r k = (if k = 7 then batch_reset (nth_batch t 7) else nth_batch t k)" if "k < 8" for k
    using nth_batch_set[OF len, of 7 k "batch_reset (nth_batch t 7)"] that by (simp add: release_batch_def nth_batch_def)
  have "\<forall>b \<in> set (batches ?r). length (batch_data b) = kProtocolBufferSize \<and> written_size b \<le> kProtocolBufferSize"
    using assms set_update_subset_insert[of "batches t" "slot t 7"] len slot_less[of t 7]
    by (fastforce simp: isb_ok_def release_batch_def set_batch_def batch_reset_def)
  then show "isb_ok False ?r" using assms nb u by (auto simp: isb_ok_def release_batch_def batch_reset_def)
  show "waiting ?r = waiting t" using nb u by (simp add: waiting_def release_batch_def)
qed

text \<open>A batch taken, transmitted and released.\<close>

definition take_transfer :: "isb \<Rightarrow> (8 word list \<times> isb) option" where
  "take_transfer s =
    (case pop_batch s of None \<Rightarrow> None | Some (i, s) \<Rightarrow> Some (batch_bytes (batches s ! i), release_batch i s))"

lemma take_some:
  assumes "isb_ok False s" and "take_transfer s = Some (t, s')"
  shows "isb_ok False s' \<and> waiting s = t # waiting s'"
proof -
  have u: "0 < used s" using assms pop_cases[OF assms(1)] by (cases "used s") (auto simp: take_transfer_def)
  note a = advanced[OF assms(1) u refl]
  show ?thesis using assms(2) pop_cases[OF assms(1)] u a released[OF a(1)] by (auto simp: take_transfer_def)
qed

lemma take_none: "isb_ok False s \<Longrightarrow> take_transfer s = None \<longleftrightarrow> waiting s = []"
  using pop_cases[of s] by (auto simp: take_transfer_def waiting_def split: if_splits)

text \<open>The serializer may rely on the buffer, with or without a batch in flight.\<close>

interpretation uplink: transfer_buffer isb_buffer waiting "isb_ok in_flight" for in_flight
proof
  fix b n b' assume "isb_ok in_flight b" "0 < n" "n \<le> kProtocolBufferSize" "allocate isb_buffer n b = ([], b')"
  then show "isb_ok in_flight b' \<and> waiting b' = waiting b"
    using allocate_cases[of in_flight b n "[]" b'] by (auto simp: isb_buffer_def)
next
  fix b n dst b' assume "isb_ok in_flight b" "0 < n" "n \<le> kProtocolBufferSize" "allocate isb_buffer n b = (dst, b')" "dst \<noteq> []"
  then show "length dst = n" using allocate_cases[of in_flight b n dst b'] by (auto simp: isb_buffer_def)
next
  fix b n dst b' and d :: "8 word list"
  assume "isb_ok in_flight b" "0 < n" "n \<le> kProtocolBufferSize" "allocate isb_buffer n b = (dst, b')" "dst \<noteq> []" "length d = n"
  then show "isb_ok in_flight (written isb_buffer d b') \<and> (waiting (written isb_buffer d b') = waiting b @ [d]
      \<or> (\<exists>ts t. waiting b = ts @ [t] \<and> waiting (written isb_buffer d b') = ts @ [t @ d]))"
    using allocate_cases[of in_flight b n dst b'] by (auto simp: isb_buffer_def)
qed

interpretation uplink_queue: transfer_queue isb_buffer waiting "isb_ok False" take_transfer
  by unfold_locales (rule take_some)

section \<open>Clearing\<close>

lemma fold_release_size:
  "length (batches (fold release_batch is s)) = length (batches s)" "isb_in (fold release_batch is s) = isb_in s"
  "isb_out (fold release_batch is s) = isb_out s" "is_locked (fold release_batch is s) = is_locked s"
  by (induction "is" arbitrary: s) (simp_all add: release_batch_def set_batch_def)


lemma fold_release_nth:
  "set is \<subseteq> {..<length (batches s)} \<Longrightarrow> i < length (batches s)
   \<Longrightarrow> batches (fold release_batch is s) ! i = (if i \<in> set is then batch_reset (batches s ! i) else batches s ! i)"
proof (induction "is" arbitrary: s)
  case (Cons j js)
  have "batch_reset (batch_reset b) = batch_reset b" for b by (simp add: batch_reset_def)
  then show ?case using Cons by (auto simp: release_batch_def set_batch_def nth_list_update)
qed simp

text \<open>The slots between the two counters, in the two loops of \<open>clear\<close>.\<close>

lemma cleared_slots:
  assumes "u \<le> 7"
  shows "set ([unat (isb_out s) mod 8..<unat (isb_out s) mod 8 + min u (8 - unat (isb_out s) mod 8)]
      @ [0..<u - min u (8 - unat (isb_out s) mod 8)]) = slot s ` {..<u}"
proof -
  define a where "a = unat (isb_out s) mod 8"
  have a: "a < 8" by (simp add: a_def)
  have sl: "slot s k = (if a + k < 8 then a + k else a + k - 8)" if "k < 8" for k
  proof -
    have "slot s k = (a + k) mod 8" by (simp add: slot_def a_def mod_add_left_eq)
    then show ?thesis using a that by (simp add: mod_if)
  qed
  have "i \<in> slot s ` {..<u} \<longleftrightarrow> a \<le> i \<and> i < a + min u (8 - a) \<or> i < u - min u (8 - a)" for i
  proof
    assume "i \<in> slot s ` {..<u}"
    then obtain k where "k < u" "i = slot s k" by auto
    then show "a \<le> i \<and> i < a + min u (8 - a) \<or> i < u - min u (8 - a)" using sl[of k] assms a by (auto split: if_splits)
  next
    assume "a \<le> i \<and> i < a + min u (8 - a) \<or> i < u - min u (8 - a)"
    then show "i \<in> slot s ` {..<u}"
    proof
      assume "a \<le> i \<and> i < a + min u (8 - a)"
      then show ?thesis using sl[of "i - a"] assms a by (intro image_eqI[of _ _ "i - a"]) auto
    next
      assume "i < u - min u (8 - a)"
      then show ?thesis using sl[of "i + 8 - a"] assms a by (intro image_eqI[of _ _ "i + 8 - a"]) auto
    qed
  qed
  then show ?thesis unfolding a_def[symmetric]
    by (intro set_eqI) (simp only: set_append set_upt Un_iff atLeastLessThan_iff le0 simp_thms)
qed

lemma isb_clear_empties:
  assumes ok: "isb_ok False s"
  shows "isb_ok False (isb_clear s)" "waiting (isb_clear s) = []"
proof -
  let ?c = "isb_clear s"
  have len: "length (batches s) = 8" and u: "used s \<le> 7" using ok by (simp_all add: isb_ok_def)
  define js where "js = [unat (isb_out s) mod 8..<unat (isb_out s) mod 8 + min (used s) (8 - unat (isb_out s) mod 8)]
      @ [0..<used s - min (used s) (8 - unat (isb_out s) mod 8)]"
  have js: "set js = slot s ` {..<used s}" unfolding js_def by (rule cleared_slots[OF u])
  have "?c = (if used s \<noteq> 0 then (fold release_batch js s)\<lparr>isb_out := isb_in s\<rparr> else s)\<lparr>is_locked := False\<rparr>"
    unfolding isb_clear_def Let_def unat_mask8 kBatchCount_def js_def used_def[symmetric] readable_used(2) by simp
  moreover have "isb_out s = isb_in s \<and> js = []" if "used s = 0"
    using that in_from_out[of s] by (simp add: js_def)
  ultimately have c: "batches ?c = batches (fold release_batch js s)" "isb_in ?c = isb_in s" "isb_out ?c = isb_in s"
    using fold_release_size(2)[of js s] by (cases "used s = 0"; simp)+
  have "used ?c = 0" by (simp add: used_def isb_readable_def c)
  have inside: "set js \<subseteq> {..<length (batches s)}" using js slot_less[of s] len by auto
  have b: "batches ?c ! i = (if i \<in> set js then batch_reset (batches s ! i) else batches s ! i)" if "i < 8" for i
    using fold_release_nth[OF inside, of i] that len c(1) by simp
  have lc: "length (batches ?c) = 8" using fold_release_size(1)[of js s] len c(1) by simp
  have z: "written_size (batches ?c ! i) = 0" if i: "i < 8" for i
  proof (cases "i \<in> set js")
    case True
    then show ?thesis using b[OF i] by (simp add: batch_reset_def)
  next
    case False
    obtain k where k: "k < 8" "slot s k = i" using slot_all[OF i] by blast
    then have "used s \<le> k" using False js by force
    then have "written_size (nth_batch s k) = 0" using ok k(1) by (simp add: isb_ok_def)
    then show ?thesis using b[OF i] False k(2) by (simp add: nth_batch_def)
  qed
  have "length (batch_data b) = kProtocolBufferSize \<and> written_size b \<le> kProtocolBufferSize" if m: "b \<in> set (batches ?c)" for b
  proof -
    obtain i where i: "i < 8" "b = batches ?c ! i" using m lc by (auto simp: in_set_conv_nth)
    have "length (batch_data (batches s ! i)) = kProtocolBufferSize" using ok len i(1) by (auto simp: isb_ok_def)
    then show ?thesis using i z[OF i(1)] b[OF i(1)] by (auto simp: batch_reset_def)
  qed
  then show "isb_ok False ?c" using lc z slot_less[of ?c] \<open>used ?c = 0\<close> by (simp add: isb_ok_def nth_batch_def)
  show "waiting ?c = []" using \<open>used ?c = 0\<close> by (simp add: waiting_def)
qed

end
