(* ===== verification/WireProps.thy ===== *)
theory WireProps
  imports Uplink
begin

text \<open>
  Properties of the wire protocol as a whole: from the serializer of a board through its uplink buffer to the
  callbacks of a deserializer, whatever the transport does to the boundaries inside a transfer.
\<close>

section \<open>Refusals of the buffer\<close>

lemma isb_accepts:
  assumes "isb_ok fl s" and "\<not> is_locked s" and "used s < 7" and sz: "0 < sz" "sz \<le> kProtocolBufferSize"
  shows "fst (isb_allocate sz s) \<noteq> []"
  using allocate_cases[OF assms(1) sz prod.collapse[symmetric]] assms(2,3) sz(1) by auto

text \<open>The reason of a result of the serializer, and that a refused call leaves the buffer alone.\<close>

lemma serialize_result:
  assumes "isb_ok fl s" and "n \<le> kProtocolBufferSize"
  shows "fst (serialize isb_buffer n fill s) = kInvalidArgument \<longleftrightarrow> n = 0"
    "fst (serialize isb_buffer n fill s) = kBadAlloc
   \<Longrightarrow> (is_locked s \<or> used s = 7) \<and> snd (serialize isb_buffer n fill s) = s"
  using isb_accepts[OF assms(1), of n] assms(2) allocate_cases[OF assms(1) _ assms(2) prod.collapse[symmetric]]
  by (auto simp: serialize_def isb_buffer_def case_prod_unfold Let_def split: if_splits)

lemma call_result:
  assumes "isb_ok fl s" and "caller_ok w" and "fst (perform isb_buffer w s) = kBadAlloc"
  shows "(is_locked s \<or> used s = 7) \<and> snd (perform isb_buffer w s) = s"
  using perform_writes[OF assms(2), of undefined isb_buffer]
proof (elim disjE exE conjE)
  assume "writes_field undefined isb_buffer w"
  then obtain n fill f where "perform isb_buffer w = serialize isb_buffer n fill" "n \<le> kProtocolBufferSize"
    by (auto simp: writes_field_def)
  then show ?thesis using serialize_result(2)[OF assms(1)] assms(3) by simp
next
  fix r assume "perform isb_buffer w = Pair r" "r \<noteq> kBadAlloc"
  then show ?thesis using assms(3) by simp
qed

section \<open>Counting errors\<close>

lemma parse_errors:
  "\<forall>f c. e (snd (field_callback cb f c)) = e c \<Longrightarrow> e (snd (snd (parse cb t w bytes c))) = e c"
proof (induction t arbitrary: w bytes c)
  case (Call f k)
  obtain b c2 where f: "field_callback cb f c = (b, c2)" by fastforce
  then have "e c2 = e c" using Call.prems by (metis snd_conv)
  then show ?case using Call.IH[OF rangeI Call.prems] f by simp
qed simp_all

lemma transfer_errors:
  assumes field: "\<forall>f c. e (snd (field_callback cb f c)) = e c" and error: "\<forall>c. e (error_callback cb c) = e c + (1 :: nat)"
  shows "e (parse_transfer cb bytes c) = e c \<or> e (parse_transfer cb bytes c) = e c + 1"
proof (induction bytes arbitrary: c rule: length_induct)
  case (1 bytes)
  show ?case
  proof (cases "bytes = []")
    case True
    then show ?thesis by (simp add: parse_transfer.simps)
  next
    case False
    obtain b rest c2 where p: "parse_field cb bytes c = (b, rest, c2)" by (metis prod_cases3)
    then have "e c2 = e c" using parse_errors[where e = e and cb = cb, OF field] unfolding parse_field_def by (metis snd_conv)
    then show ?thesis using 1[rule_format, of rest c2] p error False by (subst (1 2) parse_transfer.simps) auto
  qed
qed

section \<open>Properties\<close>

text \<open>C30: what a board writes reaches the host.  Any sequence of calls of the serializer on the uplink
  buffer, mixed with the main loop taking batches and with calls that fail because the buffer is full; the batches
  taken and those still waiting are then sent as transfers, each cut into any chunks.  The callbacks of the host
  see exactly the fields of the calls that succeeded, in order and with the values written, every call of the
  deserializer returns, and no assertion fails.\<close>

theorem uplink_reaches_the_host:
  assumes "ops_ok ops" and "board_run isb_buffer take_transfer ops isb_new = (fs, ts, b)"
    and "map concat css = ts @ waiting b" and "accepting cb" and "new_deserializer cb c = Some s"
  shows "\<exists>s'. receive_all cb css s = Some s' \<and> \<not> assertion_failed s'
    \<and> callback_state s' = fold (\<lambda>f c. snd (field_callback cb f c)) fs c"
proof -
  have "transfers_for cb (ts @ waiting b) fs"
    using uplink_queue.run_from_empty[OF _ _ assms(1,2)] isb_new_ok by blast
  from transfers_delivered[OF this assms(4,3)]
  have d: "fold (\<lambda>cs. parse_transfer cb (concat cs)) css c = fold (\<lambda>f c. snd (field_callback cb f c)) fs c" .
  have "idle s" "callback_state s = c" using new_idle[of cb c] assms(5) by auto
  then show ?thesis using receive_all_parses[of s cb css] d by (auto simp: idle_def suspended_def)
qed

definition recorder :: "(field list \<times> nat) deserialize_callback" where
  "recorder = \<lparr>field_callback = (\<lambda>f (fs, n). (True, fs @ [f], n)), error_callback = (\<lambda>(fs, n). (fs, n + 1))\<rparr>"

definition sample_calls :: "link_op list" where
  "sample_calls =
    [Write (WCan 2 \<lparr>can_id = 0x123, can_data = [1, 2, 3], is_fdcan = True, is_extended_can_id = False,
       is_remote_transmission = False, timestamp_us = Some 77\<rparr>),
     Write (WUart 30 \<lparr>uart_data = [1, 2, 3], idle_delimited = True\<rparr> [4, 5]), Pop,
     Write (WAccelerometer \<lparr>imu_x = 1, imu_y = - 2, imu_z = 3, imu_timestamp = 4\<rparr>),
     Write (WUartConfig 25 \<lparr>baudrate = Some 0\<rparr>),
     Write (WGpioDigitalReadConfig 5 \<lparr>period_ms = 10, asap = True, rising_edge = True, falling_edge = False,
       capture_timestamp = True, pull = 1\<rparr>)]"

theorem uplink_reaches_the_host_witness:
  "\<exists>fs ts b s s'. board_run isb_buffer take_transfer sample_calls isb_new = (fs, ts, b)
    \<and> new_deserializer recorder ([], 0) = Some s
    \<and> receive_all recorder (map (\<lambda>t. [take 1 t, drop 1 t]) (ts @ waiting b)) s = Some s'
    \<and> callback_state s' = fold (\<lambda>f c. snd (field_callback recorder f c)) fs ([], 0)"
proof -
  obtain fs ts b where r: "board_run isb_buffer take_transfer sample_calls isb_new = (fs, ts, b)" by (metis prod_cases3)
  obtain s where s: "new_deserializer recorder ([], 0) = Some s" using new_idle[of recorder "([], 0)"] by (elim exE conjE)
  have o: "ops_ok sample_calls" by (simp add: ops_ok_def sample_calls_def can_ids_def uart_ids_def word_less_nat_alt word_le_nat_alt)
  have m: "map concat (map (\<lambda>t. [take 1 t, drop 1 t]) us) = us" for us :: "8 word list list" by (simp add: comp_def)
  have a: "accepting recorder" by (simp add: accepting_def recorder_def)
  from uplink_reaches_the_host[OF o r m a s] obtain s' where
    s': "receive_all recorder (map (\<lambda>t. [take 1 t, drop 1 t]) (ts @ waiting b)) s = Some s' \<and> \<not> assertion_failed s'
      \<and> callback_state s' = fold (\<lambda>f c. snd (field_callback recorder f c)) fs ([], 0)" ..
  show ?thesis by (intro exI conjI) (rule r s conjunct1[OF s'] conjunct2[OF conjunct2[OF s']])+
qed

text \<open>C31: the deserializer against the parser of whole transfers.  However a sequence of transfers, valid or not,
  is cut into chunks, feeding the chunks and finishing each transfer returns with no assertion failed, and the
  callbacks have been called as \<open>parse_transfer\<close> calls them on the whole transfers.\<close>

theorem chunks_do_not_matter:
  assumes "new_deserializer cb c = Some s"
  shows "\<exists>s'. receive_all cb css s = Some s' \<and> \<not> assertion_failed s' \<and> pending s' = []
    \<and> callback_state s' = fold (parse_transfer cb) (map concat css) c"
proof -
  have "idle s" "callback_state s = c" using new_idle[of cb c] assms by auto
  then show ?thesis using receive_all_parses[of s cb css] by (auto simp: idle_def suspended_def fold_map comp_def)
qed

theorem chunks_do_not_matter_witness:
  "\<exists>s s'. new_deserializer recorder ([], 0) = Some s
    \<and> receive_all recorder [[[0x12], [5, 0x34], []], [[0x0F]]] s = Some s' \<and> \<not> assertion_failed s'
    \<and> callback_state s' = fold (parse_transfer recorder) [[0x12, 5, 0x34], [0x0F]] ([], 0)"
  using chunks_do_not_matter[of recorder "([], 0)" _ "[[[0x12], [5, 0x34], []], [[0x0F]]]"] new_idle[of recorder "([], 0)"] by auto

text \<open>C32: bytes that are not a transfer do no harm.  Whatever the bytes, at most one error is reported for a
  transfer, whoever counts them, and the next transfer is parsed as if nothing had happened before.\<close>

theorem bad_bytes_are_survived:
  assumes "new_deserializer cb c = Some s"
    and "\<forall>f c. errors (snd (field_callback cb f c)) = errors c" and "\<forall>c. errors (error_callback cb c) = errors c + (1 :: nat)"
  shows "\<exists>s1 s2. receive cb garbage s = Some s1 \<and> \<not> assertion_failed s1
    \<and> (errors (callback_state s1) = errors c \<or> errors (callback_state s1) = errors c + 1)
    \<and> receive cb chunks s1 = Some s2 \<and> callback_state s2 = parse_transfer cb (concat chunks) (callback_state s1)"
proof -
  have i: "idle s" "callback_state s = c" using new_idle[of cb c] assms(1) by auto
  from receive_parses[OF i(1), of cb garbage] obtain s1 where s1: "receive cb garbage s = Some s1" "idle s1"
    "callback_state s1 = parse_transfer cb (concat garbage) c" using i(2) by auto
  have "\<not> assertion_failed s1" using s1(2) by (simp add: idle_def suspended_def)
  then show ?thesis
    using s1 receive_parses[OF s1(2), of cb chunks] transfer_errors[of errors cb "concat garbage" c, OF assms(2,3)] by auto
qed

theorem bad_bytes_are_survived_witness:
  "\<exists>s s1 s2. new_deserializer recorder ([], 0) = Some s \<and> receive recorder [[0x02, 0xFF]] s = Some s1
    \<and> snd (callback_state s1) \<le> 1 \<and> receive recorder [[0x21], [0x05]] s1 = Some s2
    \<and> callback_state s2 = parse_transfer recorder [0x21, 0x05] (callback_state s1)"
proof -
  obtain s where s: "new_deserializer recorder ([], 0) = Some s" using new_idle[of recorder "([], 0)"] by (elim exE conjE)
  have "\<forall>f c. snd (snd (field_callback recorder f c)) = snd c" "\<forall>c. snd (error_callback recorder c) = snd c + 1"
    by (auto simp: recorder_def)
  from bad_bytes_are_survived[where errors = snd, OF s this, of "[[0x02, 0xFF]]" "[[0x21], [0x05]]"]
  obtain s1 s2 where r: "receive recorder [[0x02, 0xFF]] s = Some s1" "\<not> assertion_failed s1"
    "snd (callback_state s1) = snd ([] :: field list, 0 :: nat) \<or> snd (callback_state s1) = snd ([] :: field list, 0 :: nat) + 1"
    "receive recorder [[0x21], [0x05]] s1 = Some s2" "callback_state s2 = parse_transfer recorder (concat [[0x21], [0x05]]) (callback_state s1)"
    by (elim exE conjE)
  have "snd (callback_state s1) \<le> 1" using r(3) by auto
  moreover have "callback_state s2 = parse_transfer recorder [0x21, 0x05] (callback_state s1)" using r(5) by simp
  ultimately show ?thesis by (intro exI conjI) (rule s r(1) r(4) | assumption)+
qed

text \<open>C33: why a write fails, and what it leaves.  With a caller that keeps to the ids and ranges of the
  protocol, a write is refused for lack of space only when all seven batches the serializer may fill are waiting
  for the main loop or the buffer is being cleared, and then nothing at all has changed: the buffer with its
  batches, the counters, the batch in flight and the lock is the one from before the call.\<close>

theorem full_only_when_seven_wait:
  assumes "isb_ok in_flight s" and "caller_ok w" and "perform isb_buffer w s = (kBadAlloc, s')"
  shows "(is_locked s \<or> length (waiting s) = 7) \<and> s' = s"
  using call_result[OF assms(1,2)] assms(3) by (auto simp: waiting_def)

theorem full_only_when_seven_wait_witness:
  "let s = isb_new\<lparr>is_locked := True\<rparr>; w = WSession \<lparr>session_type = 1, session_nonce = 9\<rparr>;
       s' = snd (perform isb_buffer w s) in
   (is_locked s \<or> length (waiting s) = 7) \<and> s' = s"
proof -
  let ?s = "isb_new\<lparr>is_locked := True\<rparr>"
  let ?w = "WSession \<lparr>session_type = 1, session_nonce = 9\<rparr>"
  have "isb_ok False ?s"
    using isb_new_ok by (simp add: isb_ok_def nth_batch_def slot_def used_def isb_readable_def)
  moreover have "caller_ok ?w" by simp
  moreover have "perform isb_buffer ?w ?s = (kBadAlloc, snd (perform isb_buffer ?w ?s))"
    by (simp add: write_session_control_def serialize_def isb_buffer_def isb_allocate_def size_eval sizes)
  ultimately show ?thesis unfolding Let_def by (rule full_only_when_seven_wait)
qed

end
