(* ===== verification/BootMeta.thy ===== *)
theory BootMeta
  imports FoeStaging
begin

text \<open>
  The flash of the bootloader: \<open>bootloader/src/flash/layout.hpp\<close>, \<open>xpi_nor.hpp\<close> (\<open>XpiNor\<close>) and
  \<open>metadata.hpp\<close> (\<open>Metadata\<close>), for the board \<open>hpm6e8y\<close>.

  The ROM API is a parameter: a record of its four calls over the state \<open>'f\<close> of the chip.
  \<open>XpiNor\<close> turns it into the \<open>flash_ops\<close> that the rest of the bootloader uses; what the ROM
  promises becomes \<open>nor_ok\<close> there.  The cached slot of \<open>Metadata\<close> is then related to the content of
  the metadata sector: after every successful call it is what a scan of the sector finds.
\<close>

unbundle bit_operations_syntax

section \<open>layout.hpp\<close>

abbreviation kFlashBaseAddress :: "32 word" where "kFlashBaseAddress \<equiv> 0x80000000"
abbreviation kMetadataStartAddress :: "32 word" where "kMetadataStartAddress \<equiv> 0x8001F000"
abbreviation kMetadataEndAddress :: "32 word" where "kMetadataEndAddress \<equiv> 0x80020000"
abbreviation kAppStartAddress :: "32 word" where "kAppStartAddress \<equiv> 0x80020000"
abbreviation kAppEndAddress :: "32 word" where "kAppEndAddress \<equiv> 0x80200000"
abbreviation kAppMaxImageSize :: "32 word" where "kAppMaxImageSize \<equiv> 0x1E0000"
abbreviation kFlashSectorSize :: "32 word" where "kFlashSectorSize \<equiv> 4096"

section \<open>XpiNor\<close>

record 'f rom_api =
  rom_xpi_nor_auto_config :: "32 word"
  rom_xpi_nor_get_property :: "32 word \<times> 32 word"
  rom_xpi_nor_erase_sector :: "32 word \<Rightarrow> 'f \<Rightarrow> 32 word \<times> 'f"
  rom_xpi_nor_program :: "32 word \<Rightarrow> 8 word list \<Rightarrow> 'f \<Rightarrow> 32 word \<times> 'f"
  rom_cells :: "'f \<Rightarrow> nat \<Rightarrow> 8 word"

record 'f xpi_nor =
  nor_available :: bool
  nor_sector_size :: "32 word"
  nor_rom :: "'f rom_api"

definition XpiNor :: "'f rom_api \<Rightarrow> 'f xpi_nor" where
  "XpiNor rom =
    (let x = \<lparr>nor_available = False, nor_sector_size = 0, nor_rom = rom\<rparr> in
     if rom_xpi_nor_auto_config rom \<noteq> 0 then x
     else let (status, size) = rom_xpi_nor_get_property rom; x = x\<lparr>nor_sector_size := size\<rparr> in
          if status \<noteq> 0 then x
          else if nor_sector_size x \<noteq> kFlashSectorSize then x
          else x\<lparr>nor_available := True\<rparr>)"

definition to_flash_offset :: "32 word \<Rightarrow> 32 word" where
  "to_flash_offset address = address - kFlashBaseAddress"

definition erase_sector :: "'f xpi_nor \<Rightarrow> 32 word \<Rightarrow> 'f \<Rightarrow> bool \<times> 'f" where
  "erase_sector x address f =
    (if \<not> nor_available x \<or> nor_sector_size x = 0 then (False, f)
     else if address mod nor_sector_size x \<noteq> 0 then (False, f)
     else if address < kFlashBaseAddress then (False, f)
     else let (status, f) = rom_xpi_nor_erase_sector (nor_rom x) (to_flash_offset address) f in
          (status = 0, f))"

text \<open>The span of words is given as its bytes; a span of words is aligned in memory, so the
  check of its pointer passes.\<close>

definition program_words :: "'f xpi_nor \<Rightarrow> 32 word \<Rightarrow> 8 word list \<Rightarrow> 'f \<Rightarrow> bool \<times> 'f" where
  "program_words x address bs f =
    (if bs = [] then (True, f)
     else if \<not> nor_available x then (False, f)
     else if address AND 3 \<noteq> 0 then (False, f)
     else if address < kFlashBaseAddress then (False, f)
     else let (status, f) = rom_xpi_nor_program (nor_rom x) (to_flash_offset address) bs f in
          (status = 0, f))"

definition xpi_flash :: "'f xpi_nor \<Rightarrow> 'f flash_ops" where
  "xpi_flash x = \<lparr>fl_erase = erase_sector x, fl_program = program_words x, fl_max_program_size = 0,
     fl_cells = rom_cells (nor_rom x)\<rparr>"

text \<open>What the ROM promises of a call at an offset of the chip, which is mapped at the base address.\<close>

definition rom_ok :: "'f rom_api \<Rightarrow> bool" where
  "rom_ok rom = (
     (\<forall>a f st g. rom_xpi_nor_erase_sector rom a f = (st, g) \<longrightarrow>
        (\<forall>x. if 0x80000000 + unat a \<le> x \<and> x < 0x80000000 + unat a + 4096 then st = 0 \<longrightarrow> rom_cells rom g x = 0xFF
             else rom_cells rom g x = rom_cells rom f x))
     \<and> (\<forall>a bs f st g. rom_xpi_nor_program rom a bs f = (st, g) \<longrightarrow>
        (\<forall>x. if 0x80000000 + unat a \<le> x \<and> x < 0x80000000 + unat a + length bs
             then st = 0 \<longrightarrow> rom_cells rom g x = rom_cells rom f x AND bs ! (x - (0x80000000 + unat a))
             else rom_cells rom g x = rom_cells rom f x)))"

lemma offset_mapped: "kFlashBaseAddress \<le> a \<Longrightarrow> 0x80000000 + unat (to_flash_offset a) = unat a"
  by (simp add: to_flash_offset_def unat_sub word_le_nat_alt)

lemma xpi_nor_ok:
  assumes "rom_ok rom" shows "nor_ok (xpi_flash (XpiNor rom))"
proof -
  have r: "nor_rom (XpiNor rom) = rom" by (simp add: XpiNor_def Let_def split: prod.split)
  have e: "if unat a \<le> x \<and> x < unat a + 4096 then ok \<longrightarrow> rom_cells rom g x = 0xFF
      else rom_cells rom g x = rom_cells rom f x" if "erase_sector (XpiNor rom) a f = (ok, g)" for a f ok g x
  proof (cases "g = f \<and> \<not> ok")
    case False
    with that obtain st where st: "rom_xpi_nor_erase_sector rom (to_flash_offset a) f = (st, g)" "ok = (st = 0)"
      "kFlashBaseAddress \<le> a"
      by (auto simp: erase_sector_def r split: if_splits prod.splits)
    show ?thesis using assms st(1) unfolding rom_ok_def offset_mapped[OF st(3), symmetric] st(2) by blast
  qed simp
  have p: "if unat a \<le> x \<and> x < unat a + length bs then ok \<longrightarrow> rom_cells rom g x = rom_cells rom f x AND bs ! (x - unat a)
      else rom_cells rom g x = rom_cells rom f x" if "program_words (XpiNor rom) a bs f = (ok, g)" for a bs f ok g x
  proof (cases "bs = [] \<or> g = f \<and> \<not> ok")
    case False
    with that obtain st where st: "rom_xpi_nor_program rom (to_flash_offset a) bs f = (st, g)" "ok = (st = 0)"
      "kFlashBaseAddress \<le> a"
      by (auto simp: program_words_def r split: if_splits prod.splits)
    show ?thesis using assms st(1) unfolding rom_ok_def offset_mapped[OF st(3), symmetric] st(2) by blast
  qed (use that in \<open>auto simp: program_words_def\<close>)
  show ?thesis unfolding nor_ok_def using e p by (simp add: xpi_flash_def r)
qed

section \<open>Metadata\<close>

datatype DataSlotState = SlotFatal | SlotEmpty | SlotFlashing | SlotReady

abbreviation kImageMetadataMagic :: "32 word" where "kImageMetadataMagic \<equiv> 0x524D4353"
abbreviation kImageStateReady :: "32 word" where "kImageStateReady \<equiv> 0x494D5244"

text \<open>A \<open>DataSlot\<close> is four words: magic, state, size, reserved.\<close>

definition read_state :: "'f flash_ops \<Rightarrow> 32 word \<Rightarrow> 'f \<Rightarrow> DataSlotState" where
  "read_state fl slot f =
    (let mgc = fl_word fl slot 0 f; st = fl_word fl slot 4 f; sz = fl_word fl slot 8 f; rsv = fl_word fl slot 12 f in
     if mgc = kFlashWordErased
     then if st = kFlashWordErased \<and> sz = kFlashWordErased \<and> rsv = kFlashWordErased then SlotEmpty else SlotFatal
     else if mgc = kImageMetadataMagic
     then if st = kFlashWordErased
          then if sz = kFlashWordErased \<and> rsv = kFlashWordErased then SlotFlashing else SlotFatal
          else if st = kImageStateReady
          then if sz \<le> kAppMaxImageSize then SlotReady else SlotFatal
          else SlotFatal
     else SlotFatal)"

definition program_word :: "'f flash_ops \<Rightarrow> 32 word \<Rightarrow> 32 word \<Rightarrow> 'f \<Rightarrow> bool \<times> 'f" where
  "program_word fl address w f = fl_program fl address (le32_bytes w) f"

definition enter_flashing_state :: "'f flash_ops \<Rightarrow> 32 word \<Rightarrow> 'f \<Rightarrow> bool \<times> 'f" where
  "enter_flashing_state fl slot f =
    (if read_state fl slot f \<noteq> SlotEmpty then (False, f)
     else let (ok, f) = program_word fl slot kImageMetadataMagic f in
          if \<not> ok then (False, f) else (read_state fl slot f = SlotFlashing, f))"

definition enter_ready_state :: "'f flash_ops \<Rightarrow> 32 word \<Rightarrow> 32 word \<Rightarrow> 'f \<Rightarrow> bool \<times> 'f" where
  "enter_ready_state fl slot sz f =
    (if read_state fl slot f \<noteq> SlotFlashing then (False, f)
     else let (ok, f) = program_word fl (slot + 8) sz f in
          if \<not> ok then (False, f)
          else let (ok, f) = program_word fl (slot + 4) kImageStateReady f in
               if \<not> ok then (False, f) else (read_state fl slot f = SlotReady, f))"

record metadata =
  latest_valid_slot :: "32 word option"
  latest_valid_slot_state :: DataSlotState

fun scan_from :: "'f flash_ops \<Rightarrow> 'f \<Rightarrow> 32 word list \<Rightarrow> metadata \<Rightarrow> metadata" where
  "scan_from fl f [] md = md"
| "scan_from fl f (slot # slots) md =
    (case read_state fl slot f of
       SlotFatal \<Rightarrow> \<lparr>latest_valid_slot = None, latest_valid_slot_state = SlotFatal\<rparr>
     | SlotEmpty \<Rightarrow>
         (if latest_valid_slot md = None
          then scan_from fl f slots \<lparr>latest_valid_slot = Some slot, latest_valid_slot_state = SlotEmpty\<rparr>
          else scan_from fl f slots md)
     | st \<Rightarrow>
         (if (case latest_valid_slot md of None \<Rightarrow> True
                | Some s \<Rightarrow> s + 16 = slot \<and> latest_valid_slot_state md = SlotReady)
          then scan_from fl f slots \<lparr>latest_valid_slot = Some slot, latest_valid_slot_state = st\<rparr>
          else \<lparr>latest_valid_slot = None, latest_valid_slot_state = SlotFatal\<rparr>))"

definition data_slot_at :: "nat \<Rightarrow> 32 word" where
  "data_slot_at i = kMetadataStartAddress + 16 * of_nat i"

definition scan_latest_valid_slot :: "'f flash_ops \<Rightarrow> 'f \<Rightarrow> metadata" where
  "scan_latest_valid_slot fl f =
     scan_from fl f (map data_slot_at [0..<256]) \<lparr>latest_valid_slot = None, latest_valid_slot_state = SlotFatal\<rparr>"

definition md_is_ready :: "metadata \<Rightarrow> bool" where
  "md_is_ready md = (latest_valid_slot_state md = SlotReady)"

definition md_is_flashing :: "metadata \<Rightarrow> bool" where
  "md_is_flashing md = (latest_valid_slot_state md = SlotFlashing)"

text \<open>A null pointer would be read at address 0; the callers ask \<open>md_is_ready\<close> first.\<close>

definition slot_address :: "metadata \<Rightarrow> 32 word" where
  "slot_address md = (case latest_valid_slot md of Some s \<Rightarrow> s | None \<Rightarrow> 0)"

definition md_image_size :: "'f flash_ops \<Rightarrow> metadata \<Rightarrow> 'f \<Rightarrow> 32 word" where
  "md_image_size fl md f = fl_word fl (slot_address md) 8 f"

definition erase_and_rescan :: "'f flash_ops \<Rightarrow> metadata \<Rightarrow> 'f \<Rightarrow> bool \<times> metadata \<times> 'f" where
  "erase_and_rescan fl md f =
    (let (ok, f) = fl_erase fl kMetadataStartAddress f in
     if \<not> ok then (False, md, f)
     else let md = scan_latest_valid_slot fl f in
          (latest_valid_slot md \<noteq> None \<and> latest_valid_slot_state md = SlotEmpty, md, f))"

definition enter_flashing :: "'f flash_ops \<Rightarrow> metadata \<Rightarrow> 'f \<Rightarrow> bool \<times> metadata \<times> 'f" where
  "enter_flashing fl md f =
    (let (ok, f) = enter_flashing_state fl (slot_address md) f in
     if \<not> ok then (False, md, f) else (True, md\<lparr>latest_valid_slot_state := SlotFlashing\<rparr>, f))"

definition begin_flashing :: "'f flash_ops \<Rightarrow> metadata \<Rightarrow> 'f \<Rightarrow> bool \<times> metadata \<times> 'f" where
  "begin_flashing fl md f =
    (if latest_valid_slot md = None \<or> latest_valid_slot_state md = SlotFatal
     then let (ok, md, f) = erase_and_rescan fl md f in
          if \<not> ok then (False, md, f) else enter_flashing fl md f
     else if latest_valid_slot_state md = SlotEmpty then enter_flashing fl md f
     else if latest_valid_slot_state md = SlotFlashing then (True, md, f)
     else let next_addr = slot_address md + 16 in
          if kMetadataEndAddress \<le> next_addr
          then let (ok, md, f) = erase_and_rescan fl md f in
               if \<not> ok then (False, md, f) else enter_flashing fl md f
          else enter_flashing fl (md\<lparr>latest_valid_slot := Some next_addr\<rparr>) f)"

definition finish_flashing :: "'f flash_ops \<Rightarrow> 32 word \<Rightarrow> metadata \<Rightarrow> 'f \<Rightarrow> bool \<times> metadata \<times> 'f" where
  "finish_flashing fl sz md f =
    (if latest_valid_slot_state md \<noteq> SlotFlashing then (False, md, f)
     else let (ok, f) = enter_ready_state fl (slot_address md) sz f in
          if \<not> ok then (False, md, f) else (True, md\<lparr>latest_valid_slot_state := SlotReady\<rparr>, f))"

section \<open>Words in flash\<close>

lemma fl_word_cells:
  assumes "fl_word fl a off f = w" "i < 4" shows "fl_cells fl f (unat a + off + i) = le32_bytes w ! i"
proof -
  let ?c = "\<lambda>i. fl_cells fl f (unat a + off + i)"
  have "w = le32 (?c 0) (?c 1) (?c 2) (?c 3)"
    using assms(1) by (simp add: fl_word_def fl_read_def get32_def byte_at_def add.assoc numeral_eq_Suc)
  then have "le32_bytes w = [?c 0, ?c 1, ?c 2, ?c 3]" by (simp add: le32_bytes_le32)
  then show ?thesis using less4[OF assms(2)] by auto
qed

lemma read_state_cong:
  assumes "\<And>i. i < 16 \<Longrightarrow> fl_cells fl f (unat a + i) = fl_cells fl g (unat a + i)"
  shows "read_state fl a f = read_state fl a g"
proof -
  have "fl_word fl a off f = fl_word fl a off g" if "off + 4 \<le> 16" for off
    by (rule fl_word_cong) (use assms[of "off + _"] that in \<open>simp add: add.assoc\<close>)
  then show ?thesis by (simp add: read_state_def)
qed

text \<open>Programming an erased word sets it, and nothing else changes.\<close>

lemma program_word_sets:
  assumes nor: "nor_ok fl" and p: "program_word fl a w f = (ok, g)"
  shows "x < unat a \<or> unat a + 4 \<le> x \<Longrightarrow> fl_cells fl g x = fl_cells fl f x"
    and "ok \<Longrightarrow> fl_word fl a 0 f = kFlashWordErased \<Longrightarrow> fl_word fl a 0 g = w"
proof -
  note P = nor_program[OF nor p[unfolded program_word_def]]
  show "x < unat a \<or> unat a + 4 \<le> x \<Longrightarrow> fl_cells fl g x = fl_cells fl f x" using P(2)[of x] by auto
  assume ok: "ok" and e: "fl_word fl a 0 f = kFlashWordErased"
  show "fl_word fl a 0 g = w"
    by (rule fl_word_eqI) (use P(1)[OF ok] fl_word_cells[OF e] in \<open>simp add: erased_word ff_and\<close>)
qed

section \<open>What a scan finds\<close>

lemma unat_slot: "i \<le> 256 \<Longrightarrow> unat (data_slot_at i) = 0x8001F000 + 16 * i"
  by (simp add: data_slot_at_def unat_word_ariths unat_of_nat)

lemma slot_next: "data_slot_at i + 16 = data_slot_at (Suc i)"
  by (simp add: data_slot_at_def)

lemma data_slot_inj: "i \<le> 256 \<Longrightarrow> j \<le> 256 \<Longrightarrow> data_slot_at i = data_slot_at j \<longleftrightarrow> i = j"
  by (simp only: word_unat_eq_iff unat_slot) simp

lemma slot_end: "i \<le> 256 \<Longrightarrow> kMetadataEndAddress \<le> data_slot_at i \<longleftrightarrow> i = 256"
  using unat_slot[of i] by (simp add: word_le_nat_alt)

definition slots_are :: "'f flash_ops \<Rightarrow> nat \<Rightarrow> nat \<Rightarrow> DataSlotState \<Rightarrow> 'f \<Rightarrow> bool" where
  "slots_are fl i j st f = (\<forall>k. i \<le> k \<and> k < j \<longrightarrow> read_state fl (data_slot_at k) f = st)"

text \<open>The three contents a scan accepts: \<open>k\<close> ready slots and then only erased ones, or one being
  flashed in between.\<close>

definition md_of :: "nat \<Rightarrow> DataSlotState \<Rightarrow> metadata" where
  "md_of i st = \<lparr>latest_valid_slot = Some (data_slot_at i), latest_valid_slot_state = st\<rparr>"

abbreviation md_none :: metadata where
  "md_none \<equiv> \<lparr>latest_valid_slot = None, latest_valid_slot_state = SlotFatal\<rparr>"

inductive found :: "'f flash_ops \<Rightarrow> 'f \<Rightarrow> nat \<Rightarrow> metadata \<Rightarrow> bool" for fl f n where
  found_empty: "0 < n \<Longrightarrow> slots_are fl 0 n SlotEmpty f \<Longrightarrow> found fl f n (md_of 0 SlotEmpty)"
| found_ready: "k < n \<Longrightarrow> slots_are fl 0 (Suc k) SlotReady f \<Longrightarrow> slots_are fl (Suc k) n SlotEmpty f
    \<Longrightarrow> found fl f n (md_of k SlotReady)"
| found_flashing: "k < n \<Longrightarrow> slots_are fl 0 k SlotReady f \<Longrightarrow> read_state fl (data_slot_at k) f = SlotFlashing
    \<Longrightarrow> slots_are fl (Suc k) n SlotEmpty f \<Longrightarrow> found fl f n (md_of k SlotFlashing)"

lemma slots_are_snoc: "slots_are fl i (Suc n) st f \<longleftrightarrow> slots_are fl i n st f \<and> (i \<le> n \<longrightarrow> read_state fl (data_slot_at n) f = st)"
  by (auto simp: slots_are_def less_Suc_eq)

lemma slots_are_none [simp]: "n \<le> i \<Longrightarrow> slots_are fl i n st f"
  by (auto simp: slots_are_def)

lemma found_first:
  "scan_from fl f (data_slot_at 0 # rest) md_none = md_none
    \<or> (\<exists>md. found fl f 1 md \<and> scan_from fl f (data_slot_at 0 # rest) md_none = scan_from fl f rest md)"
proof (cases "read_state fl (data_slot_at 0) f")
  case SlotEmpty
  then have "found fl f 1 (md_of 0 SlotEmpty)" by (intro found_empty) (auto simp: slots_are_def)
  then show ?thesis using SlotEmpty by (auto simp: md_of_def)
next
  case SlotFlashing
  then have "found fl f 1 (md_of 0 SlotFlashing)" by (intro found_flashing) (auto simp: slots_are_def)
  then show ?thesis using SlotFlashing by (auto simp: md_of_def)
next
  case SlotReady
  then have "found fl f 1 (md_of 0 SlotReady)" by (intro found_ready) (auto simp: slots_are_def)
  then show ?thesis using SlotReady by (auto simp: md_of_def)
qed simp

lemma found_step:
  assumes "found fl f n md" "n < 256"
  shows "scan_from fl f (data_slot_at n # rest) md = md_none
    \<or> (\<exists>md'. found fl f (Suc n) md' \<and> scan_from fl f (data_slot_at n # rest) md = scan_from fl f rest md')"
proof (cases "read_state fl (data_slot_at n) f")
  case SlotEmpty
  have "found fl f (Suc n) md"
    using assms(1)
  proof cases
    case found_empty
    then show ?thesis using SlotEmpty by (auto intro!: found.found_empty simp: slots_are_snoc)
  next
    case (found_ready k)
    then show ?thesis using SlotEmpty by (auto intro!: found.found_ready simp: slots_are_snoc)
  next
    case (found_flashing k)
    then show ?thesis using SlotEmpty by (auto intro!: found.found_flashing simp: slots_are_snoc)
  qed
  moreover have "latest_valid_slot md \<noteq> None" using assms(1) by cases (auto simp: md_of_def)
  ultimately show ?thesis using SlotEmpty by auto
next
  case SlotFatal
  then show ?thesis by simp
next
  case r: SlotFlashing
  show ?thesis
    using assms(1)
  proof cases
    case (found_ready k)
    show ?thesis
    proof (cases "Suc k = n")
      case True
      then have "found fl f (Suc n) (md_of n SlotFlashing)" using found_ready r by (intro found_flashing) auto
      then show ?thesis using True found_ready r by (auto simp: md_of_def slot_next)
    next
      case False
      then show ?thesis using found_ready r assms(2) by (auto simp: md_of_def slot_next data_slot_inj)
    qed
  qed (use r in \<open>auto simp: md_of_def\<close>)
next
  case r: SlotReady
  show ?thesis
    using assms(1)
  proof cases
    case (found_ready k)
    show ?thesis
    proof (cases "Suc k = n")
      case True
      then have "found fl f (Suc n) (md_of n SlotReady)" using found_ready r by (intro found.found_ready) (auto simp: slots_are_snoc)
      then show ?thesis using True found_ready r by (auto simp: md_of_def slot_next)
    next
      case False
      then show ?thesis using found_ready r assms(2) by (auto simp: md_of_def slot_next data_slot_inj)
    qed
  qed (use r in \<open>auto simp: md_of_def\<close>)
qed

lemma upt_first: "0 < m \<Longrightarrow> map g [0..<m] = g 0 # map g [1..<m]"
  by (simp add: upt_conv_Cons)

lemma upt_cut: "i \<le> j \<Longrightarrow> j \<le> k \<Longrightarrow> [i..<k] = [i..<j] @ [j..<k]"
  using upt_add_eq_append[of i j "k - j"] by simp

lemma upt_middle: "0 < k \<Longrightarrow> k < m \<Longrightarrow> map g [0..<m] = g 0 # map g [1..<k] @ g k # map g [Suc k..<m]"
  using upt_first[of m g] upt_cut[of 1 k m] upt_conv_Cons[of k m] by simp

lemma found_rest:
  "found fl f n md \<Longrightarrow> n \<le> 256 \<Longrightarrow> scan_from fl f (map data_slot_at [n..<256]) md = md_none
    \<or> found fl f 256 (scan_from fl f (map data_slot_at [n..<256]) md)"
proof (induction "256 - n" arbitrary: n md)
  case 0 then show ?case by simp
next
  case (Suc m)
  then have n: "n < 256" "map data_slot_at [n..<256] = data_slot_at n # map data_slot_at [Suc n..<256]"
    by (simp_all add: upt_conv_Cons)
  show ?case using found_step[OF Suc.prems(1) n(1), of "map data_slot_at [Suc n..<256]"] Suc.hyps n(1)
    unfolding n(2) by (elim disjE exE conjE) simp_all
qed

lemma scan_found: "scan_latest_valid_slot fl f = md_none \<or> found fl f 256 (scan_latest_valid_slot fl f)"
proof -
  have u: "map data_slot_at [0..<256] = data_slot_at 0 # map data_slot_at [1..<256]" by (rule upt_first) simp
  show ?thesis using found_first[of fl f "map data_slot_at [1..<256]"] found_rest[of fl f 1]
    unfolding scan_latest_valid_slot_def u by (elim disjE exE conjE) simp_all
qed

lemma scan_empties:
  "(\<forall>s \<in> set ss. read_state fl s f = SlotEmpty) \<Longrightarrow> latest_valid_slot md \<noteq> None \<Longrightarrow> scan_from fl f ss md = md"
  by (induction ss) auto

lemma scan_readies:
  "slots_are fl (Suc i) k SlotReady f \<Longrightarrow> i < k
    \<Longrightarrow> scan_from fl f (map data_slot_at [Suc i..<k] @ rest) (md_of i SlotReady) = scan_from fl f rest (md_of (k - 1) SlotReady)"
proof (induction "k - i" arbitrary: i)
  case (Suc m)
  show ?case
  proof (cases "Suc i = k")
    case True then show ?thesis by auto
  next
    case False
    then have lt: "Suc i < k" using Suc.prems by simp
    have "scan_from fl f (map data_slot_at [Suc (Suc i)..<k] @ rest) (md_of (Suc i) SlotReady) = scan_from fl f rest (md_of (k - 1) SlotReady)"
      by (rule Suc.hyps) (use Suc lt in \<open>auto simp: slots_are_def\<close>)
    moreover have "read_state fl (data_slot_at (Suc i)) f = SlotReady" using Suc.prems lt by (simp add: slots_are_def)
    ultimately show ?thesis using lt by (simp add: upt_conv_Cons md_of_def slot_next)
  qed
qed simp

lemma scan_of:
  assumes "found fl f 256 md" shows "scan_latest_valid_slot fl f = md"
  using assms
proof cases
  case found_empty
  have u: "map data_slot_at [0..<256] = data_slot_at 0 # map data_slot_at [1..<256]" by (rule upt_first) simp
  have "scan_from fl f (map data_slot_at [1..<256]) (md_of 0 SlotEmpty) = md_of 0 SlotEmpty"
    by (rule scan_empties) (use found_empty in \<open>auto simp: slots_are_def md_of_def\<close>)
  moreover have "read_state fl (data_slot_at 0) f = SlotEmpty" using found_empty by (simp add: slots_are_def)
  ultimately show ?thesis using found_empty(1) unfolding scan_latest_valid_slot_def u by (simp add: md_of_def)
next
  case (found_ready k)
  have "[Suc 0..<256] = [Suc 0..<Suc k] @ [Suc k..<256]" using found_ready(2) by (intro upt_cut) auto
  then have u: "map data_slot_at [0..<256] = data_slot_at 0 # map data_slot_at [Suc 0..<Suc k] @ map data_slot_at [Suc k..<256]"
    using upt_first[of 256 data_slot_at] by simp
  have "scan_from fl f (map data_slot_at [Suc k..<256]) (md_of k SlotReady) = md_of k SlotReady"
    by (rule scan_empties) (use found_ready in \<open>auto simp: slots_are_def md_of_def\<close>)
  moreover have "read_state fl (data_slot_at 0) f = SlotReady" using found_ready by (simp add: slots_are_def)
  ultimately show ?thesis using found_ready(1) scan_readies[of fl 0 "Suc k" f] found_ready(3)
    unfolding scan_latest_valid_slot_def u by (simp add: md_of_def slots_are_def)
next
  case (found_flashing k)
  have fin: "scan_from fl f (map data_slot_at [Suc k..<256]) (md_of k SlotFlashing) = md_of k SlotFlashing"
    by (rule scan_empties) (use found_flashing in \<open>auto simp: slots_are_def md_of_def\<close>)
  show ?thesis
  proof (cases k)
    case 0
    have u: "map data_slot_at [0..<256] = data_slot_at 0 # map data_slot_at [Suc 0..<256]" by (simp only: upt_first One_nat_def)
    show ?thesis using fin found_flashing(1,4) 0 unfolding scan_latest_valid_slot_def u by (simp add: md_of_def)
  next
    case (Suc j)
    have u: "map data_slot_at [0..<256] = data_slot_at 0 # map data_slot_at [Suc 0..<k] @ data_slot_at k # map data_slot_at [Suc k..<256]"
      unfolding One_nat_def[symmetric] by (rule upt_middle) (use found_flashing(2) Suc in auto)
    have "read_state fl (data_slot_at 0) f = SlotReady" using found_flashing Suc by (simp add: slots_are_def)
    then show ?thesis using found_flashing(1,4) fin Suc scan_readies[of fl 0 k f] found_flashing(3)
      unfolding scan_latest_valid_slot_def u by (simp add: md_of_def slots_are_def slot_next)
  qed
qed

section \<open>The calls\<close>

text \<open>A flash in working order: it does what it is asked at every aligned address of the chip.\<close>

definition nor_works :: "'f flash_ops \<Rightarrow> bool" where
  "nor_works fl = (
     (\<forall>a f. 0x80000000 \<le> unat a \<and> unat a + 4096 \<le> 0x80400000 \<and> unat a mod 4096 = 0 \<longrightarrow> fst (fl_erase fl a f))
     \<and> (\<forall>a bs f. 0x80000000 \<le> unat a \<and> unat a + length bs \<le> 0x80400000 \<and> unat a mod 4 = 0 \<longrightarrow> fst (fl_program fl a bs f)))"

lemma works_erase: "nor_works fl \<Longrightarrow> 0x80000000 \<le> unat a \<Longrightarrow> unat a + 4096 \<le> 0x80400000 \<Longrightarrow> unat a mod 4096 = 0
    \<Longrightarrow> fl_erase fl a f = (ok, g) \<Longrightarrow> ok"
  unfolding nor_works_def by (metis fst_conv)

lemma works_program: "nor_works fl \<Longrightarrow> 0x80000000 \<le> unat a \<Longrightarrow> unat a + length bs \<le> 0x80400000 \<Longrightarrow> unat a mod 4 = 0
    \<Longrightarrow> fl_program fl a bs f = (ok, g) \<Longrightarrow> ok"
  unfolding nor_works_def by (metis fst_conv)

definition same_outside :: "'f flash_ops \<Rightarrow> nat \<Rightarrow> nat \<Rightarrow> 'f \<Rightarrow> 'f \<Rightarrow> bool" where
  "same_outside fl a b f g = (\<forall>x. x < a \<or> b \<le> x \<longrightarrow> fl_cells fl g x = fl_cells fl f x)"

lemma same_outside_refl [simp]: "same_outside fl a b f f"
  by (simp add: same_outside_def)

lemma same_outside_trans: "same_outside fl a b f g \<Longrightarrow> same_outside fl a b g h \<Longrightarrow> same_outside fl a b f h"
  by (simp add: same_outside_def)

lemma same_outside_mono: "same_outside fl a b f g \<Longrightarrow> a' \<le> a \<Longrightarrow> b \<le> b' \<Longrightarrow> same_outside fl a' b' f g"
  by (simp add: same_outside_def)

lemma program_word_outside:
  "nor_ok fl \<Longrightarrow> program_word fl a w f = (ok, g) \<Longrightarrow> same_outside fl (unat a) (unat a + 4) f g"
  using program_word_sets(1) by (fastforce simp: same_outside_def)

lemma fl_word_outside:
  "same_outside fl a b f g \<Longrightarrow> unat s + off + 4 \<le> a \<or> b \<le> unat s + off \<Longrightarrow> fl_word fl s off g = fl_word fl s off f"
  by (rule fl_word_cong) (auto simp: same_outside_def)

lemma other_slots:
  assumes "same_outside fl (unat (data_slot_at k)) (unat (data_slot_at k) + 16) f g" "k < 256" "j < 256" "j \<noteq> k"
  shows "read_state fl (data_slot_at j) g = read_state fl (data_slot_at j) f"
proof (rule read_state_cong)
  fix i :: nat assume "i < 16"
  then have "unat (data_slot_at j) + i < unat (data_slot_at k) \<or> unat (data_slot_at k) + 16 \<le> unat (data_slot_at j) + i"
    using assms(2-4) by (cases "j < k") (auto simp: unat_slot)
  then show "fl_cells fl g (unat (data_slot_at j) + i) = fl_cells fl f (unat (data_slot_at j) + i)"
    using assms(1) by (auto simp: same_outside_def)
qed

lemma enter_flashing_state_slot:
  assumes nor: "nor_ok fl" and k: "k < 256" and em: "read_state fl (data_slot_at k) f = SlotEmpty"
    and e: "enter_flashing_state fl (data_slot_at k) f = (ok, g)"
  shows "same_outside fl (unat (data_slot_at k)) (unat (data_slot_at k) + 16) f g"
    and "ok \<Longrightarrow> read_state fl (data_slot_at k) g = SlotFlashing"
    and "nor_works fl \<Longrightarrow> ok"
proof -
  obtain ok1 h where p: "program_word fl (data_slot_at k) kImageMetadataMagic f = (ok1, h)" by force
  have g: "g = h" "ok \<longrightarrow> ok1 \<and> read_state fl (data_slot_at k) h = SlotFlashing" "ok1 \<Longrightarrow> ok = (read_state fl (data_slot_at k) h = SlotFlashing)"
    using e em p by (auto simp: enter_flashing_state_def split: if_splits)
  note out = program_word_outside[OF nor p]
  show "same_outside fl (unat (data_slot_at k)) (unat (data_slot_at k) + 16) f g"
    using out unfolding g(1) by (rule same_outside_mono) simp_all
  show "ok \<Longrightarrow> read_state fl (data_slot_at k) g = SlotFlashing" using g by blast
  have w: "fl_word fl (data_slot_at k) i f = kFlashWordErased" if "i = 0 \<or> i = 4 \<or> i = 8 \<or> i = 12" for i
    using em that by (auto simp: read_state_def Let_def split: if_splits)
  have r: "fl_word fl (data_slot_at k) i h = kFlashWordErased" if "i = 4 \<or> i = 8 \<or> i = 12" for i
    using fl_word_outside[OF out, of "data_slot_at k" i] w[of i] that by auto
  show ok if "nor_works fl"
  proof -
    have ok1: ok1
      using works_program[OF that _ _ _ p[unfolded program_word_def]] k unat_slot[of k] by simp
    have "fl_word fl (data_slot_at k) 0 h = kImageMetadataMagic"
      by (rule program_word_sets(2)[OF nor p ok1]) (simp add: w)
    then show ?thesis using g(3)[OF ok1] r by (simp add: read_state_def)
  qed
qed

lemma enter_ready_state_slot:
  assumes nor: "nor_ok fl" and k: "k < 256" and em: "read_state fl (data_slot_at k) f = SlotFlashing"
    and e: "enter_ready_state fl (data_slot_at k) sz f = (ok, g)"
  shows "same_outside fl (unat (data_slot_at k)) (unat (data_slot_at k) + 16) f g"
    and "ok \<Longrightarrow> read_state fl (data_slot_at k) g = SlotReady \<and> fl_word fl (data_slot_at k) 8 g = sz"
    and "nor_works fl \<Longrightarrow> sz \<le> kAppMaxImageSize \<Longrightarrow> ok"
proof -
  let ?s = "data_slot_at k"
  have u: "unat (?s + 4) = unat ?s + 4" "unat (?s + 8) = unat ?s + 8"
    using unat_slot[of k] k by (simp_all add: unat_word_ariths)
  have sh: "fl_word fl (?s + 4) 0 x = fl_word fl ?s 4 x" "fl_word fl (?s + 8) 0 x = fl_word fl ?s 8 x" for x
    by (simp_all add: fl_word_def u)
  obtain ok1 h1 where p1: "program_word fl (?s + 8) sz f = (ok1, h1)" by force
  obtain ok2 h2 where p2: "program_word fl (?s + 4) kImageStateReady h1 = (ok2, h2)" by force
  note out1 = program_word_outside[OF nor p1, unfolded u] and out2 = program_word_outside[OF nor p2, unfolded u]
  have g: "g = (if ok1 then h2 else h1)" "ok = (ok1 \<and> ok2 \<and> read_state fl ?s h2 = SlotReady)"
    using e em p1 p2 by (auto simp: enter_ready_state_def split: if_splits)
  show "same_outside fl (unat ?s) (unat ?s + 16) f g"
    using same_outside_mono[OF out1, of "unat ?s" "unat ?s + 16"] same_outside_mono[OF out2, of "unat ?s" "unat ?s + 16"]
    unfolding g(1) by (auto intro: same_outside_trans)
  have w: "fl_word fl ?s 0 f = kImageMetadataMagic" "fl_word fl ?s 4 f = kFlashWordErased"
    "fl_word fl ?s 8 f = kFlashWordErased"
    using em by (auto simp: read_state_def Let_def split: if_splits)
  have sz: "fl_word fl ?s 8 h2 = sz" if ok1
    using program_word_sets(2)[OF nor p1 that] fl_word_outside[OF out2, of ?s 8] w by (simp add: sh)
  show "ok \<Longrightarrow> read_state fl ?s g = SlotReady \<and> fl_word fl ?s 8 g = sz" using g sz by simp
  show ok if works: "nor_works fl" and le: "sz \<le> kAppMaxImageSize"
  proof -
    have ok1 ok2
      using works_program[OF works _ _ _ p1[unfolded program_word_def]] works_program[OF works _ _ _ p2[unfolded program_word_def]]
        k unat_slot[of k] u by simp_all
    moreover have "fl_word fl ?s 4 h2 = kImageStateReady"
      using program_word_sets(2)[OF nor p2 \<open>ok2\<close>] fl_word_outside[OF out1, of ?s 4] w by (simp add: sh)
    moreover have "fl_word fl ?s 0 h2 = kImageMetadataMagic"
      using fl_word_outside[OF out1, of ?s 0] fl_word_outside[OF out2, of ?s 0] w by simp
    ultimately show ?thesis using g(2) sz le by (simp add: read_state_def)
  qed
qed

text \<open>The cached slot agrees with the sector.\<close>

lemma found_slot: "found fl f 256 md \<Longrightarrow> \<exists>k < 256. md = md_of k (latest_valid_slot_state md) \<and> latest_valid_slot md = Some (data_slot_at k)
    \<and> slots_are fl 0 k SlotReady f \<and> read_state fl (data_slot_at k) f = latest_valid_slot_state md \<and> slots_are fl (Suc k) 256 SlotEmpty f"
proof (induction rule: found.cases)
  case found_empty
  then show ?case by (intro exI[of _ 0]) (auto simp: md_of_def slots_are_def)
next
  case (found_ready k)
  then show ?case by (intro exI[of _ k]) (auto simp: md_of_def slots_are_snoc)
next
  case (found_flashing k)
  then show ?case by (intro exI[of _ k]) (auto simp: md_of_def)
qed

lemma found_at:
  assumes "k < 256" "slots_are fl 0 k SlotReady f" "read_state fl (data_slot_at k) f = st" "slots_are fl (Suc k) 256 SlotEmpty f"
    "st = SlotFlashing \<or> st = SlotReady \<or> (st = SlotEmpty \<and> k = 0)"
  shows "found fl f 256 (md_of k st)"
  using assms(5)
proof (elim disjE conjE)
  assume "st = SlotEmpty" "k = 0"
  then show ?thesis using assms by (auto intro!: found_empty simp: slots_are_def) (metis Suc_leI not_gr_zero)
qed (use assms in \<open>auto intro!: found_flashing found_ready simp: slots_are_snoc\<close>)

lemma enter_flashing_found:
  assumes nor: "nor_ok fl" and k: "k < 256" and before: "slots_are fl 0 k SlotReady f" "slots_are fl k 256 SlotEmpty f"
    and slot: "latest_valid_slot md = Some (data_slot_at k)" and e: "enter_flashing fl md f = (ok, md', g)"
  shows "same_outside fl 0x8001F000 0x80020000 f g \<and> (ok \<longrightarrow> md' = md_of k SlotFlashing \<and> found fl g 256 md') \<and> (nor_works fl \<longrightarrow> ok)"
proof -
  obtain ok1 h where s: "enter_flashing_state fl (data_slot_at k) f = (ok1, h)" by force
  have em: "read_state fl (data_slot_at k) f = SlotEmpty" using before k by (simp add: slots_are_def)
  note E = enter_flashing_state_slot[OF nor k em s]
  have r: "ok = ok1" "g = h" "md' = (if ok1 then md\<lparr>latest_valid_slot_state := SlotFlashing\<rparr> else md)"
    using e s slot by (auto simp: enter_flashing_def slot_address_def split: if_splits)
  have out: "same_outside fl 0x8001F000 0x80020000 f g"
    using same_outside_mono[OF E(1)] unat_slot[of k] k r(2) by simp
  have oth: "read_state fl (data_slot_at j) g = read_state fl (data_slot_at j) f" if "j < 256" "j \<noteq> k" for j
    using other_slots[OF E(1) k that] r(2) by simp
  have "found fl g 256 (md_of k SlotFlashing)" if ok
    by (rule found_at[OF k]) (use before oth E(2) that r k in \<open>auto simp: slots_are_def\<close>)
  moreover have "md' = md_of k SlotFlashing" if ok using that r slot by (simp add: md_of_def)
  ultimately show ?thesis using out E(3) r by auto
qed

lemma erase_and_rescan_found:
  assumes nor: "nor_ok fl" and e: "erase_and_rescan fl md f = (ok, md', g)"
  shows "same_outside fl 0x8001F000 0x80020000 f g \<and> (ok \<longrightarrow> md' = md_of 0 SlotEmpty \<and> slots_are fl 0 256 SlotEmpty g) \<and> (nor_works fl \<longrightarrow> ok)"
proof -
  obtain ok1 h where er: "fl_erase fl kMetadataStartAddress f = (ok1, h)" by force
  note E = nor_erase[OF nor er]
  have g: "g = h" using e er by (auto simp: erase_and_rescan_def Let_def split: if_splits)
  have out: "same_outside fl 0x8001F000 0x80020000 f g" using E(2) g by (simp add: same_outside_def)
  have em: "slots_are fl 0 256 SlotEmpty h" if ok1
    unfolding slots_are_def
  proof (intro allI impI)
    fix k :: nat assume k: "0 \<le> k \<and> k < 256"
    have ff: "fl_cells fl h (unat (data_slot_at k) + i) = 0xFF" if "i < 16" for i
      using E(1)[OF \<open>ok1\<close>, of "unat (data_slot_at k) + i"] k that by (simp add: unat_slot)
    have "fl_word fl (data_slot_at k) off h = kFlashWordErased" if "off + 4 \<le> 16" for off
      by (rule fl_word_erased) (use ff[of "off + _"] that in \<open>simp add: add.assoc\<close>)
    then show "read_state fl (data_slot_at k) h = SlotEmpty" by (simp add: read_state_def)
  qed
  have "scan_latest_valid_slot fl h = md_of 0 SlotEmpty" if ok1
    by (rule scan_of, rule found_empty) (use em that in auto)
  moreover have ok1 if "nor_works fl" using works_erase[OF that _ _ _ er] by simp
  ultimately show ?thesis using e er em out g
    by (auto simp: erase_and_rescan_def md_of_def split: if_splits)
qed

text \<open>\<open>begin_flashing\<close>, from any content of the sector: what it leaves cached is what a scan would
  find, and on a working flash it succeeds.\<close>

lemma begin_flashing_found:
  assumes nor: "nor_ok fl" and md: "md = scan_latest_valid_slot fl f" and b: "begin_flashing fl md f = (ok, md', g)"
  shows "same_outside fl 0x8001F000 0x80020000 f g
    \<and> (ok \<longrightarrow> md_is_flashing md' \<and> found fl g 256 md') \<and> (nor_works fl \<longrightarrow> ok)"
proof -
  have erase: ?thesis if e: "(let (ok, md, f) = erase_and_rescan fl md f in
          if \<not> ok then (False, md, f) else enter_flashing fl md f) = (ok, md', g)"
  proof -
    obtain ok1 md1 h where r: "erase_and_rescan fl md f = (ok1, md1, h)" by (metis prod_cases3)
    note R = erase_and_rescan_found[OF nor r]
    show ?thesis
    proof (cases ok1)
      case True
      have "enter_flashing fl md1 h = (ok, md', g)" using e r True by simp
      from enter_flashing_found[OF nor _ _ _ _ this, of 0] R True
      show ?thesis by (auto simp: md_of_def md_is_flashing_def intro: same_outside_trans)
    next
      case False then show ?thesis using e r R by auto
    qed
  qed
  show ?thesis
  proof (cases "latest_valid_slot_state md = SlotFatal \<or> latest_valid_slot md = None")
    case True
    then have "(let (ok, md, f) = erase_and_rescan fl md f in if \<not> ok then (False, md, f) else enter_flashing fl md f) = (ok, md', g)"
      using b by (simp add: begin_flashing_def disj_commute)
    then show ?thesis by (rule erase)
  next
    case False
    then have "found fl f 256 md" using scan_found[of fl f] md by auto
    from this found_slot[OF this] obtain k where k: "k < 256" "md = md_of k (latest_valid_slot_state md)" "slots_are fl 0 k SlotReady f"
      "read_state fl (data_slot_at k) f = latest_valid_slot_state md" "slots_are fl (Suc k) 256 SlotEmpty f" and fnd: "found fl f 256 md"
      and sm: "latest_valid_slot md = Some (data_slot_at k)"
      by blast
    show ?thesis
    proof (cases "latest_valid_slot_state md")
      case SlotEmpty
      then have "k = 0" using fnd k(2,1) by (auto elim!: found.cases simp: md_of_def data_slot_inj)
      have "enter_flashing fl md f = (ok, md', g)" using b sm SlotEmpty by (simp add: begin_flashing_def)
      moreover have "slots_are fl k 256 SlotEmpty f"
        using k(4,5) SlotEmpty unfolding slots_are_def by (metis Suc_leI le_neq_implies_less)
      ultimately show ?thesis using enter_flashing_found[OF nor k(1) k(3) _ sm] by (auto simp: md_of_def md_is_flashing_def)
    next
      case SlotFlashing
      then show ?thesis using b sm fnd by (auto simp: begin_flashing_def md_is_flashing_def)
    next
      case SlotReady
      have na: "slot_address md + 16 = data_slot_at (Suc k)" using k(2) by (metis md_of_def metadata.select_convs(1) option.simps(5) slot_address_def slot_next)
      show ?thesis
      proof (cases "Suc k = 256")
        case True
        then have "(let (ok, md, f) = erase_and_rescan fl md f in if \<not> ok then (False, md, f) else enter_flashing fl md f) = (ok, md', g)"
          using b sm SlotReady na slot_end[of 256] by (simp add: begin_flashing_def)
        then show ?thesis by (rule erase)
      next
        case lt: False
        then have "enter_flashing fl (md\<lparr>latest_valid_slot := Some (data_slot_at (Suc k))\<rparr>) f = (ok, md', g)"
          using b sm SlotReady na slot_end[of "Suc k"] k(1) by (simp add: begin_flashing_def)
        from enter_flashing_found[OF nor _ _ _ _ this, of "Suc k"]
        show ?thesis using k lt SlotReady by (auto simp: slots_are_snoc md_is_flashing_def md_of_def)
      qed
    qed (use False in simp)
  qed
qed

lemma finish_flashing_found:
  assumes nor: "nor_ok fl" and md: "found fl f 256 md" "md_is_flashing md" and b: "finish_flashing fl sz md f = (ok, md', g)"
  shows "same_outside fl 0x8001F000 0x80020000 f g
    \<and> (ok \<longrightarrow> md_is_ready md' \<and> found fl g 256 md' \<and> md_image_size fl md' g = sz \<and> sz \<le> kAppMaxImageSize)
    \<and> (nor_works fl \<longrightarrow> sz \<le> kAppMaxImageSize \<longrightarrow> ok)"
proof -
  obtain k where k: "k < 256" "md = md_of k SlotFlashing" "slots_are fl 0 k SlotReady f"
      "read_state fl (data_slot_at k) f = SlotFlashing" "slots_are fl (Suc k) 256 SlotEmpty f"
    using found_slot[OF md(1)] md(2) by (auto simp: md_is_flashing_def)
  obtain ok1 h where s: "enter_ready_state fl (data_slot_at k) sz f = (ok1, h)" by force
  note E = enter_ready_state_slot[OF nor k(1) k(4) s]
  have r: "ok = ok1" "g = h" "md' = (if ok1 then md\<lparr>latest_valid_slot_state := SlotReady\<rparr> else md)"
    using b s k(2) by (auto simp: finish_flashing_def slot_address_def md_of_def split: if_splits)
  have out: "same_outside fl 0x8001F000 0x80020000 f g"
    using same_outside_mono[OF E(1)] unat_slot[of k] k r(2) by simp
  have oth: "read_state fl (data_slot_at j) g = read_state fl (data_slot_at j) f" if "j < 256" "j \<noteq> k" for j
    using other_slots[OF E(1) k(1) that] r(2) by simp
  have "found fl g 256 (md_of k SlotReady)" if ok
    by (rule found_at[OF k(1)]) (use k oth E(2) that r in \<open>auto simp: slots_are_def\<close>)
  moreover have "md' = md_of k SlotReady" if ok using that r k(2) by (simp add: md_of_def)
  moreover have "sz \<le> kAppMaxImageSize" if ok
    using E(2) that r by (auto simp: read_state_def Let_def split: if_splits)
  ultimately show ?thesis using out E(2,3) r by (auto simp: md_is_ready_def md_image_size_def slot_address_def md_of_def)
qed

section \<open>What stays untouched\<close>

text \<open>The cached slot points into the metadata sector, whatever failed before.\<close>

definition md_in_sector :: "metadata \<Rightarrow> bool" where
  "md_in_sector md = (case latest_valid_slot md of None \<Rightarrow> latest_valid_slot_state md = SlotFatal
     | Some s \<Rightarrow> \<exists>k < 256. s = data_slot_at k)"

lemma scan_in_sector: "md_in_sector (scan_latest_valid_slot fl f)"
  using scan_found[of fl f]
proof
  assume "found fl f 256 (scan_latest_valid_slot fl f)"
  from found_slot[OF this] show ?thesis unfolding md_in_sector_def by (elim exE conjE) auto
qed (simp add: md_in_sector_def)

lemma program_slot_outside:
  assumes nor: "nor_ok fl" and k: "k < 256" and off: "off \<le> 12" and p: "program_word fl (data_slot_at k + of_nat off) w f = (ok, g)"
  shows "same_outside fl 0x8001F000 0x80020000 f g"
proof -
  have "unat (data_slot_at k + of_nat off) = 0x8001F000 + 16 * k + off"
    using unat_slot[of k] k off by (simp add: unat_word_ariths unat_of_nat)
  then show ?thesis by (intro same_outside_mono[OF program_word_outside[OF nor p]]) (use k off in auto)
qed

lemma enter_flashing_outside:
  assumes nor: "nor_ok fl" and md: "latest_valid_slot md = Some (data_slot_at k)" "k < 256" and e: "enter_flashing fl md f = (ok, md', g)"
  shows "same_outside fl 0x8001F000 0x80020000 f g \<and> md_in_sector md'"
proof -
  obtain ok1 h where p: "program_word fl (data_slot_at k) kImageMetadataMagic f = (ok1, h)" by force
  have "g = f \<or> g = h" "latest_valid_slot md' = Some (data_slot_at k)"
    using e p md(1) by (auto simp: enter_flashing_def enter_flashing_state_def slot_address_def split: if_splits)
  then show ?thesis using program_slot_outside[OF nor md(2), of 0 kImageMetadataMagic f ok1 h] p md(2)
    by (auto simp: md_in_sector_def)
qed

lemma begin_flashing_outside:
  assumes nor: "nor_ok fl" and md: "md_in_sector md" and b: "begin_flashing fl md f = (ok, md', g)"
  shows "same_outside fl 0x8001F000 0x80020000 f g \<and> md_in_sector md'"
proof -
  have erase: ?thesis if e: "(let (ok, md, f) = erase_and_rescan fl md f in
          if \<not> ok then (False, md, f) else enter_flashing fl md f) = (ok, md', g)"
  proof -
    obtain ok1 md1 h where r: "erase_and_rescan fl md f = (ok1, md1, h)" by (metis prod_cases3)
    note R = erase_and_rescan_found[OF nor r]
    have "md1 = md \<or> md1 = scan_latest_valid_slot fl h"
      using r by (auto simp: erase_and_rescan_def Let_def split: if_splits prod.splits)
    then have m: "md_in_sector md1" using md scan_in_sector[of fl h] by auto
    show ?thesis
    proof (cases ok1)
      case True
      then have "enter_flashing fl md1 h = (ok, md', g)" "latest_valid_slot md1 = Some (data_slot_at 0)" using e r R by (simp_all add: md_of_def)
      from enter_flashing_outside[OF nor this(2) _ this(1)] show ?thesis using R by (auto intro: same_outside_trans)
    next
      case False then show ?thesis using e r R m by auto
    qed
  qed
  show ?thesis
  proof (cases "latest_valid_slot_state md = SlotFatal \<or> latest_valid_slot md = None")
    case True
    then show ?thesis using b by (intro erase) (simp add: begin_flashing_def disj_commute)
  next
    case False
    then obtain k where k: "latest_valid_slot md = Some (data_slot_at k)" "k < 256" using md by (auto simp: md_in_sector_def)
    have na: "slot_address md + 16 = data_slot_at (Suc k)" using k(1) by (simp add: slot_address_def slot_next)
    show ?thesis
    proof (cases "latest_valid_slot_state md")
      case SlotEmpty
      then have "enter_flashing fl md f = (ok, md', g)" using b k by (simp add: begin_flashing_def)
      then show ?thesis by (rule enter_flashing_outside[OF nor k])
    next
      case SlotFlashing
      then show ?thesis using b k md by (simp add: begin_flashing_def)
    next
      case SlotReady
      show ?thesis
      proof (cases "Suc k = 256")
        case True
        then show ?thesis using b k SlotReady na slot_end[of 256] by (intro erase) (simp add: begin_flashing_def)
      next
        case False
        then have "enter_flashing fl (md\<lparr>latest_valid_slot := Some (data_slot_at (Suc k))\<rparr>) f = (ok, md', g)"
          using b k SlotReady na slot_end[of "Suc k"] by (simp add: begin_flashing_def)
        from enter_flashing_outside[OF nor _ _ this, of "Suc k"] show ?thesis using k False by simp
      qed
    qed (use False in simp)
  qed
qed

lemma finish_flashing_outside:
  assumes nor: "nor_ok fl" and md: "md_in_sector md" and b: "finish_flashing fl sz md f = (ok, md', g)"
  shows "same_outside fl 0x8001F000 0x80020000 f g \<and> md_in_sector md'"
proof (cases "latest_valid_slot_state md = SlotFlashing")
  case False then show ?thesis using b md by (simp add: finish_flashing_def)
next
  case True
  then obtain k where k: "latest_valid_slot md = Some (data_slot_at k)" "k < 256" using md by (auto simp: md_in_sector_def split: option.splits)
  obtain ok1 h1 where p1: "program_word fl (data_slot_at k + 8) sz f = (ok1, h1)" by force
  obtain ok2 h2 where p2: "program_word fl (data_slot_at k + 4) kImageStateReady h1 = (ok2, h2)" by force
  have "g = f \<or> g = h1 \<or> g = h2" "latest_valid_slot md' = Some (data_slot_at k)"
    using b p1 p2 k True by (auto simp: finish_flashing_def enter_ready_state_def slot_address_def split: if_splits)
  moreover have "same_outside fl 0x8001F000 0x80020000 f h1" "same_outside fl 0x8001F000 0x80020000 h1 h2"
    using program_slot_outside[OF nor k(2), of 8 sz f ok1 h1] program_slot_outside[OF nor k(2), of 4 kImageStateReady h1 ok2 h2] p1 p2
    by simp_all
  ultimately show ?thesis using k(2) by (auto simp: md_in_sector_def intro: same_outside_trans)
qed

end
