(* ===== verification/BootWriter.thy ===== *)
theory BootWriter
  imports BootMeta
begin

text \<open>
  \<open>bootloader/src/flash/writer.hpp\<close>: the sector-buffered writer of the application slot.  Data come
  in order from the start of the slot; a full sector is compared with the flash and rewritten when
  it differs.  The invariant \<open>writer_inv\<close> ties the writer to the bytes it was fed: whole sectors
  are in flash, the rest is in the buffer.

  The buffer is a static array of the class; the two writers of the program, of an installation and
  of a DFU session, are never open at the same time, so each carries it.
\<close>

unbundle bit_operations_syntax

section \<open>Writer\<close>

record writer =
  sector_buffer :: "8 word list"
  has_active_sector :: bool
  active_sector_address :: "32 word"
  buffered_size :: "32 word"

definition clear_active_sector :: "writer \<Rightarrow> writer" where
  "clear_active_sector w = w\<lparr>has_active_sector := False, active_sector_address := 0xFFFFFFFF, buffered_size := 0\<rparr>"

definition program_buffer :: "'f flash_ops \<Rightarrow> 8 word list \<Rightarrow> 32 word \<Rightarrow> 32 word \<Rightarrow> 'f \<Rightarrow> bool \<times> 'f" where
  "program_buffer fl buf address sz f =
    (if address AND 3 \<noteq> 0 then (False, f)
     else let full_word_count = sz div 4;
              (ok, f) = (if 0 < full_word_count
                         then fl_program fl address (take (4 * unat full_word_count) buf) f else (True, f)) in
          if \<not> ok then (False, f)
          else let full_word_bytes = full_word_count * 4; tail_size = sz - full_word_bytes in
               if tail_size = 0 then (True, f)
               else let tail_word = put_bytes 0 (get_bytes buf (unat full_word_bytes) (unat tail_size)) (le32_bytes 0xFFFFFFFF) in
                    fl_program fl (address + full_word_bytes) tail_word f)"

definition commit_active_sector_if_needed :: "'f flash_ops \<Rightarrow> writer \<Rightarrow> 'f \<Rightarrow> bool \<times> writer \<times> 'f" where
  "commit_active_sector_if_needed fl w f =
    (if \<not> (has_active_sector w \<and> 0 < buffered_size w) then (True, w, f)
     else let a = active_sector_address w; n = unat (buffered_size w);
              is_same = (fl_read fl (unat a) n f = take n (sector_buffer w)) in
          if \<not> is_same
          then let (ok, f) = fl_erase fl a f in
               if \<not> ok then (False, w, f)
               else let (ok, f) = program_buffer fl (sector_buffer w) a (buffered_size w) f in
                    if \<not> ok then (False, w, f) else (True, w\<lparr>buffered_size := 0\<rparr>, f)
          else (True, w\<lparr>buffered_size := 0\<rparr>, f))"

definition activate_sector :: "'f flash_ops \<Rightarrow> 32 word \<Rightarrow> writer \<Rightarrow> 'f \<Rightarrow> bool \<times> writer \<times> 'f" where
  "activate_sector fl sector w f =
    (if has_active_sector w \<and> active_sector_address w = sector then (True, w, f)
     else let (ok, w, f) =
            (if has_active_sector w
             then let (ok, w, f) = commit_active_sector_if_needed fl w f in
                  if \<not> ok then (False, w, f) else (True, clear_active_sector w, f)
             else (True, w, f)) in
          if \<not> ok then (False, w, f)
          else if sector mod 4096 \<noteq> 0 then (False, w, f)
          else (True, w\<lparr>has_active_sector := True, active_sector_address := sector, buffered_size := 0\<rparr>, f))"

lemma activate_address: "activate_sector fl sector w f = (True, w', g) \<Longrightarrow> active_sector_address w' = sector"
  by (auto simp: activate_sector_def Let_def split: if_splits prod.splits)

text \<open>One pass of the loop of \<open>write\<close> over the data that are left: how many bytes it took.\<close>

definition write_pass :: "'f flash_ops \<Rightarrow> 32 word \<Rightarrow> 32 word \<Rightarrow> 8 word list \<Rightarrow> writer \<Rightarrow> 'f \<Rightarrow> bool \<times> nat \<times> writer \<times> 'f" where
  "write_pass fl sector_size write_address bs w f =
    (let (ok, w, f) = activate_sector fl (write_address - write_address mod sector_size) w f in
     if \<not> ok then (False, 0, w, f)
     else let sector_offset = write_address - active_sector_address w;
              chunk_size = min (unat (sector_size - sector_offset)) (length bs) in
          if sector_offset \<noteq> buffered_size w then (False, 0, w, f)
          else let w = w\<lparr>sector_buffer := put_bytes (unat sector_offset) (take chunk_size bs) (sector_buffer w),
                         buffered_size := max (buffered_size w) (sector_offset + of_nat chunk_size)\<rparr> in
               if sector_offset + of_nat chunk_size = sector_size
               then let (ok, w, f) = commit_active_sector_if_needed fl w f in
                    if \<not> ok then (False, 0, w, f) else (True, chunk_size, clear_active_sector w, f)
               else (True, chunk_size, w, f))"

lemma write_pass_progress:
  assumes "write_pass fl ss a bs w f = (True, n, w', g)" "ss \<noteq> 0" "bs \<noteq> []" shows "0 < n"
proof -
  obtain w1 h where act: "activate_sector fl (a - a mod ss) w f = (True, w1, h)"
    and n: "n = min (unat (ss - (a - active_sector_address w1))) (length bs)"
    using assms(1) by (auto simp: write_pass_def Let_def split: if_splits prod.splits)
  have "a - active_sector_address w1 = a mod ss" using activate_address[OF act] by simp
  moreover have "a mod ss < ss" using assms(2) by (simp add: word_less_nat_alt unat_mod_distrib unat_gt_0)
  then have "ss - a mod ss \<noteq> 0" by auto
  ultimately show ?thesis using assms(3) n by (simp add: unat_gt_0)
qed

text \<open>\<open>write\<close> has checked that the sector size is not 0.\<close>

function write_passes :: "'f flash_ops \<Rightarrow> 32 word \<Rightarrow> 32 word \<Rightarrow> 8 word list \<Rightarrow> writer \<Rightarrow> 'f \<Rightarrow> bool \<times> writer \<times> 'f" where
  "write_passes fl sector_size write_address bs w f =
    (if bs = [] then (True, w, f)
     else if sector_size = 0 then (False, w, f)
     else let (ok, n, w, f) = write_pass fl sector_size write_address bs w f in
          if \<not> ok then (False, w, f)
          else write_passes fl sector_size (write_address + of_nat n) (drop n bs) w f)"
  by pat_completeness auto
termination
  by (relation "measure (\<lambda>(fl, ss, a, bs, w, f). length bs)") (auto dest!: write_pass_progress[OF sym])

declare write_passes.simps [simp del]

definition Writer_begin_session :: "writer \<Rightarrow> writer" where
  "Writer_begin_session w = clear_active_sector w"

definition Writer_abort_session :: "writer \<Rightarrow> writer" where
  "Writer_abort_session w = clear_active_sector w"

definition Writer_finish_session :: "'f flash_ops \<Rightarrow> writer \<Rightarrow> 'f \<Rightarrow> bool \<times> writer \<times> 'f" where
  "Writer_finish_session fl w f =
    (if \<not> has_active_sector w then (True, w, f)
     else let (committed, w, f) = commit_active_sector_if_needed fl w f in
          (committed, clear_active_sector w, f))"

definition Writer_write :: "'f flash_ops \<Rightarrow> 32 word \<Rightarrow> 32 word \<Rightarrow> 8 word list \<Rightarrow> writer \<Rightarrow> 'f \<Rightarrow> bool \<times> writer \<times> 'f" where
  "Writer_write fl sector_size address bs w f =
    (if bs = [] then (False, w, f)
     else if address < kAppStartAddress \<or> kAppEndAddress \<le> address then (False, w, f)
     else if unat address + length bs > unat kAppEndAddress then (False, w, f)
     else if sector_size = 0 \<or> sector_size > 4096 then (False, w, f)
     else write_passes fl sector_size address bs w f)"

section \<open>Committing a sector\<close>

lemma word_tail: "sz - sz div 4 * 4 = sz mod 4" for sz :: "32 word"
  by (metis add_diff_cancel_left' div_mult_mod_eq)

lemma unat_full: "unat (sz div 4 * 4) = 4 * (unat sz div 4)" "unat (sz mod 4) = unat sz mod 4" "unat (sz div 4) = unat sz div 4"
  for sz :: "32 word"
proof -
  show d: "unat (sz div 4) = unat sz div 4" and "unat (sz mod 4) = unat sz mod 4"
    by (simp_all add: unat_div_distrib unat_mod_distrib)
  have "unat sz < 2 ^ 32" using unat_word32_less[of sz] by simp
  then show "unat (sz div 4 * 4) = 4 * (unat sz div 4)" by (simp add: unat_word_ariths d)
qed

lemma program_buffer_cells:
  assumes nor: "nor_ok fl" and a: "unat a mod 4 = 0" "unat a + unat sz < 2 ^ 32" and sz: "unat sz \<le> length buf"
    and p: "program_buffer fl buf a sz f = (ok, g)"
  shows "same_outside fl (unat a) (unat a + unat sz + (4 - unat sz mod 4) mod 4) f g"
    and "ok \<Longrightarrow> i < unat sz \<Longrightarrow> fl_cells fl f (unat a + i) = 0xFF \<Longrightarrow> fl_cells fl g (unat a + i) = buf ! i"
    and "nor_works fl \<Longrightarrow> 0x80000000 \<le> unat a \<Longrightarrow> unat a + unat sz + 3 \<le> 0x80400000 \<Longrightarrow> ok"
proof -
  let ?n = "unat sz"
  define m where "m = 4 * (?n div 4)"
  define t where "t = put_bytes 0 (get_bytes buf m (?n mod 4)) (le32_bytes 0xFFFFFFFF)"
  have m: "m + ?n mod 4 = ?n" by (simp add: m_def)
  obtain ok1 h where h: "(if 0 < sz div 4 then fl_program fl a (take m buf) f else (True, f)) = (ok1, h)" by force
  have a4: "a AND 3 = 0"
  proof -
    have "a AND 3 = take_bit 2 a" by (simp add: take_bit_eq_mask mask_eq_exp_minus_1)
    then have "unat (a AND 3) = unat a mod 4" by (simp add: take_bit_eq_mod unat_mod_distrib)
    then show ?thesis using a(1) by (simp flip: unat_eq_0)
  qed
  have r: "(ok, g) = (if \<not> ok1 then (False, h) else if ?n mod 4 = 0 then (True, h)
      else fl_program fl (a + sz div 4 * 4) t h)"
  proof -
    have z: "(sz mod 4 = 0) = (?n mod 4 = 0)" by (simp add: unat_full flip: unat_eq_0)
    show ?thesis
      using p[symmetric] h unfolding program_buffer_def Let_def word_tail unat_full m_def[symmetric] t_def[symmetric] z
      by (simp add: a4 split: if_splits)
  qed
  have am: "unat (a + sz div 4 * 4) = unat a + m"
  proof -
    have "unat a + m < 2 ^ 32" using a(2) m by linarith
    then show ?thesis by (simp add: unat_plus_if' unat_full m_def)
  qed
  have lt: "length t = 4" "i < ?n mod 4 \<Longrightarrow> t ! i = buf ! (m + i)" for i
    using sz m mod_less_divisor[of 4 ?n] unfolding t_def by (auto simp: put_bytes_def get_bytes_def nth_append)
  have o1: "same_outside fl (unat a) (unat a + m) f h"
    using nor_program(2)[OF nor, of a "take m buf" f ok1 h] h sz m by (auto simp: same_outside_def min_def split: if_splits)
  have w1: "fl_cells fl h (unat a + i) = buf ! i" if "ok1" "i < m" "fl_cells fl f (unat a + i) = 0xFF" for i
  proof -
    have "0 < sz div 4" using that(2) by (simp add: m_def unat_full word_less_nat_alt)
    then show ?thesis using nor_program(1)[OF nor, of a "take m buf" f ok1 h "unat a + i"] h that sz m by (simp add: ff_and)
  qed
  have last: "?n mod 4 \<noteq> 0 \<Longrightarrow> ?n + (4 - ?n mod 4) mod 4 = m + 4" using m mod_less_divisor[of 4 ?n] by simp
  show "same_outside fl (unat a) (unat a + ?n + (4 - ?n mod 4) mod 4) f g"
  proof (cases "ok1 \<and> ?n mod 4 \<noteq> 0")
    case True
    then have "fl_program fl (a + sz div 4 * 4) t h = (ok, g)" using r by simp
    from nor_program(2)[OF nor this] have "same_outside fl (unat a + m) (unat a + m + 4) h g"
      unfolding am lt by (auto simp: same_outside_def)
    then show ?thesis using o1 last True by (auto simp: same_outside_def)
  next
    case False
    then have "g = h" using r by (auto split: if_splits)
    then show ?thesis using same_outside_mono[OF o1] m by simp
  qed
  show "ok \<Longrightarrow> i < ?n \<Longrightarrow> fl_cells fl f (unat a + i) = 0xFF \<Longrightarrow> fl_cells fl g (unat a + i) = buf ! i"
  proof -
    assume ok: ok and i: "i < ?n" and ff: "fl_cells fl f (unat a + i) = 0xFF"
    have ok1: ok1 using ok r by (auto split: if_splits)
    show ?thesis
    proof (cases "?n mod 4 = 0")
      case True
      then show ?thesis using w1[OF ok1 _ ff] i m r ok1 by simp
    next
      case False
      then have t: "fl_program fl (a + sz div 4 * 4) t h = (ok, g)" using r ok1 by simp
      show ?thesis
      proof (cases "i < m")
        case True
        then show ?thesis using w1[OF ok1 True ff] nor_program(2)[OF nor t, of "unat a + i"] by (simp add: am)
      next
        case False
        then have "fl_cells fl h (unat a + i) = 0xFF" using o1 ff by (simp add: same_outside_def)
        moreover have "i - m < ?n mod 4" using False i m by linarith
        ultimately show ?thesis using nor_program(1)[OF nor t ok, of "unat a + i"] False lt(2)[of "i - m"] lt(1)
          mod_less_divisor[of 4 ?n] by (simp add: am ff_and)
      qed
    qed
  qed
  assume works: "nor_works fl" and lo: "0x80000000 \<le> unat a" and hi: "unat a + ?n + 3 \<le> 0x80400000"
  have ok1: ok1
    using h works_program[OF works lo, of "take m buf" f ok1 h] a(1) hi m sz by (auto split: if_splits)
  show ok
  proof (cases "?n mod 4 = 0")
    case True then show ?thesis using r ok1 by simp
  next
    case False
    then have t: "fl_program fl (a + sz div 4 * 4) t h = (ok, g)" using r ok1 by simp
    have "m + 4 \<le> ?n + 3" "m mod 4 = 0" using False m by (linarith, simp add: m_def)
    then show ?thesis
      using works_program[OF works _ _ _ t] lo hi a(1) lt(1) unfolding am by (simp add: mod_add_eq[of "unat a", symmetric])
  qed
qed

text \<open>The sector of the application slot that is written, and its content afterwards.\<close>

definition app_sector :: "32 word \<Rightarrow> bool" where
  "app_sector a = (\<exists>i < 480. unat a = 0x80020000 + 4096 * i)"

lemma fl_read_eq: "fl_read fl a n f = bs \<longleftrightarrow> length bs = n \<and> (\<forall>i < n. fl_cells fl f (a + i) = bs ! i)"
  unfolding fl_read_def list_eq_iff_nth_eq by auto

lemma fl_read_split: "fl_read fl a (m + n) f = fl_read fl a m f @ fl_read fl (a + m) n f"
  by (rule nth_equalityI) (auto simp: fl_read_def nth_append)

lemma fl_read_outside:
  "same_outside fl a b f g \<Longrightarrow> x + n \<le> a \<or> b \<le> x \<Longrightarrow> fl_read fl x n g = fl_read fl x n f"
  by (auto simp: fl_read_def same_outside_def)

lemma pad4:
  assumes "n \<le> 4096" shows "n + (4 - n mod 4) mod 4 \<le> (4096 :: nat)"
proof (cases "n mod 4 = 0")
  case True then show ?thesis using assms by simp
next
  case False
  obtain q r where q: "q = n div 4" "r = n mod 4" by simp
  have n: "4 * q + r = n" "r < 4" "0 < r" using False unfolding q by simp_all
  then have "q < 1024" using assms by linarith
  moreover have "(4 - n mod 4) mod 4 = 4 - r" using n unfolding q(2)[symmetric] by simp
  ultimately show ?thesis using n by linarith
qed

lemma commit_sector:
  assumes nor: "nor_ok fl" and buf: "length (sector_buffer w) = 4096" and act: "has_active_sector w" "0 < buffered_size w"
    and a: "app_sector (active_sector_address w)" and n: "unat (buffered_size w) \<le> 4096"
    and c: "commit_active_sector_if_needed fl w f = (ok, w', g)"
  shows "same_outside fl (unat (active_sector_address w)) (unat (active_sector_address w) + 4096) f g"
    and "ok \<Longrightarrow> w' = w\<lparr>buffered_size := 0\<rparr> \<and> fl_read fl (unat (active_sector_address w)) (unat (buffered_size w)) g = take (unat (buffered_size w)) (sector_buffer w)"
    and "nor_works fl \<Longrightarrow> ok"
proof -
  let ?a = "active_sector_address w" and ?n = "unat (buffered_size w)"
  let ?same = "fl_read fl (unat ?a) ?n f = take ?n (sector_buffer w)"
  obtain i where i: "i < 480" "unat ?a = 0x80020000 + 4096 * i" using a unfolding app_sector_def by blast
  then have hi: "unat ?a \<le> 0x801FF000" "0x80020000 \<le> unat ?a" "unat ?a mod 4096 = 0" "unat ?a mod 4 = 0"
    by simp_all
  obtain ok1 h where e: "fl_erase fl ?a f = (ok1, h)" by force
  obtain ok2 h2 where p: "program_buffer fl (sector_buffer w) ?a (buffered_size w) h = (ok2, h2)" by force
  have r: "ok = (?same \<or> ok1 \<and> ok2)" "g = (if ?same then f else if ok1 then h2 else h)"
    "ok \<Longrightarrow> w' = w\<lparr>buffered_size := 0\<rparr>"
    using c e p act by (auto simp: commit_active_sector_if_needed_def Let_def split: if_splits)
  note E = nor_erase[OF nor e]
  have P: "same_outside fl (unat ?a) (unat ?a + ?n + (4 - ?n mod 4) mod 4) h h2"
    "\<And>i. ok2 \<Longrightarrow> i < ?n \<Longrightarrow> fl_cells fl h (unat ?a + i) = 0xFF \<Longrightarrow> fl_cells fl h2 (unat ?a + i) = sector_buffer w ! i"
    "nor_works fl \<Longrightarrow> ok2"
    using program_buffer_cells[OF nor _ _ _ p] hi n buf by auto
  have "?n + (4 - ?n mod 4) mod 4 \<le> 4096" by (rule pad4[OF n])
  then have "same_outside fl (unat ?a) (unat ?a + 4096) h h2" by (intro same_outside_mono[OF P(1)]) auto
  moreover have "same_outside fl (unat ?a) (unat ?a + 4096) f h" using E(2) by (auto simp: same_outside_def)
  ultimately show "same_outside fl (unat ?a) (unat ?a + 4096) f g" by (auto simp: r(2) intro: same_outside_trans)
  show "w' = w\<lparr>buffered_size := 0\<rparr> \<and> fl_read fl (unat ?a) ?n g = take ?n (sector_buffer w)" if ok: ok
  proof (cases ?same)
    case True then show ?thesis using r ok by simp
  next
    case False
    then have k: "ok1" "ok2" "g = h2" using r ok by auto
    have "fl_cells fl h2 (unat ?a + i) = sector_buffer w ! i" if "i < ?n" for i
      by (rule P(2)[OF k(2) that], rule E(1)[OF k(1)]) (use that n in auto)
    then show ?thesis using k(3) r(3)[OF ok] n buf by (simp add: fl_read_eq)
  qed
  show ok if "nor_works fl"
    using works_erase[OF that _ _ _ e] P(3)[OF that] hi r(1) by simp
qed

section \<open>What the writer holds\<close>

definition writer_inv :: "'f flash_ops \<Rightarrow> 8 word list \<Rightarrow> writer \<Rightarrow> 'f \<Rightarrow> bool" where
  "writer_inv fl fed w f =
    (\<exists>q r. length fed = 4096 * q + r \<and> r < 4096 \<and> length fed \<le> 0x1E0000 \<and> length (sector_buffer w) = 4096
     \<and> (if has_active_sector w
        then 0 < r \<and> unat (active_sector_address w) = 0x80020000 + 4096 * q \<and> unat (buffered_size w) = r
        else r = 0)
     \<and> take r (sector_buffer w) = drop (4096 * q) fed \<and> fl_read fl 0x80020000 (4096 * q) f = take (4096 * q) fed)"

lemma writer_inv_start: "length (sector_buffer w) = 4096 \<Longrightarrow> writer_inv fl [] (clear_active_sector w) f"
  by (simp add: writer_inv_def clear_active_sector_def fl_read_def)

lemma writer_inv_sectors:
  assumes "fl_read fl 0x80020000 (length fed) f = fed" "length fed = 4096 * q + 4096" "length fed \<le> 0x1E0000"
    "length (sector_buffer w) = 4096"
  shows "writer_inv fl fed (clear_active_sector w) f"
  unfolding writer_inv_def
proof (rule exI[of _ "q + 1"], rule exI[of _ 0], intro conjI)
  have l: "4096 * (q + 1) = length fed" using assms(2) by simp
  show "length fed = 4096 * (q + 1) + 0" "take 0 (sector_buffer (clear_active_sector w)) = drop (4096 * (q + 1)) fed"
    "fl_read fl 0x80020000 (4096 * (q + 1)) f = take (4096 * (q + 1)) fed" unfolding l using assms(1) by simp_all
qed (use assms in \<open>simp_all add: clear_active_sector_def\<close>)

lemma writer_inv_buffer: "writer_inv fl fed w f \<Longrightarrow> length (sector_buffer w) = 4096"
  by (auto simp: writer_inv_def)

lemma fl_read_join:
  "fl_read fl a m f = take m bs \<Longrightarrow> fl_read fl (a + m) n f = drop m bs \<Longrightarrow> length bs = m + n \<Longrightarrow> fl_read fl a (length bs) f = bs"
  by (simp add: fl_read_split)

lemma finish_session_flushes:
  assumes nor: "nor_ok fl" and inv: "writer_inv fl fed w f" and e: "Writer_finish_session fl w f = (ok, w', g)"
  shows "same_outside fl 0x80020000 0x80200000 f g \<and> (ok \<longrightarrow> fl_read fl 0x80020000 (length fed) g = fed) \<and> (nor_works fl \<longrightarrow> ok)
    \<and> length (sector_buffer w') = 4096"
proof -
  obtain q r where i: "length fed = 4096 * q + r" "r < 4096" "length fed \<le> 0x1E0000" "length (sector_buffer w) = 4096"
     "if has_active_sector w then 0 < r \<and> unat (active_sector_address w) = 0x80020000 + 4096 * q \<and> unat (buffered_size w) = r else r = 0"
     "take r (sector_buffer w) = drop (4096 * q) fed" "fl_read fl 0x80020000 (4096 * q) f = take (4096 * q) fed"
    using inv unfolding writer_inv_def by (elim exE conjE)
  show ?thesis
  proof (cases "has_active_sector w")
    case False
    then show ?thesis using i e by (auto simp: Writer_finish_session_def)
  next
    case True
    let ?a = "active_sector_address w"
    have a: "0 < r" "unat ?a = 0x80020000 + 4096 * q" "unat (buffered_size w) = r" using i(5) True by auto
    have q: "q < 480" using i(1,3) a(1) by linarith
    have sec: "app_sector ?a" using a(2) q by (auto simp: app_sector_def)
    have nz: "0 < buffered_size w" "r \<le> 4096" using a(1,3) i(2) by (simp_all add: word_less_nat_alt)
    obtain w1 where c: "commit_active_sector_if_needed fl w f = (ok, w1, g)" "w' = clear_active_sector w1"
      using e True by (auto simp: Writer_finish_session_def split: prod.splits)
    note C = commit_sector[OF nor i(4) True nz(1) sec _ c(1), unfolded a(2,3), OF nz(2)]
    have len: "length (sector_buffer w1) = 4096"
      using c(1) i(4) by (auto simp: commit_active_sector_if_needed_def Let_def split: if_splits prod.splits)
    have "fl_read fl 0x80020000 (length fed) g = fed" if ok
    proof (rule fl_read_join[OF _ _ i(1)])
      show "fl_read fl 0x80020000 (4096 * q) g = take (4096 * q) fed" using fl_read_outside[OF C(1)] i(7) by simp
      show "fl_read fl (0x80020000 + 4096 * q) r g = drop (4096 * q) fed" using C(2)[OF that] i(6) by simp
    qed
    moreover have "same_outside fl 0x80020000 0x80200000 f g"
      by (rule same_outside_mono[OF C(1)]) (use q in auto)
    ultimately show ?thesis using C(3) len c(2) by (simp add: clear_active_sector_def)
  qed
qed

section \<open>Writing\<close>

lemma activate_at_front:
  assumes "unat a = 0x80020000 + 4096 * q + r" "r < 4096" "q < 480"
    "if has_active_sector w then 0 < r \<and> unat (active_sector_address w) = 0x80020000 + 4096 * q \<and> unat (buffered_size w) = r else r = 0"
  shows "\<exists>w1. activate_sector fl (a - a mod 4096) w f = (True, w1, f) \<and> has_active_sector w1
    \<and> unat (active_sector_address w1) = 0x80020000 + 4096 * q \<and> unat (buffered_size w1) = r \<and> sector_buffer w1 = sector_buffer w"
proof -
  have "unat a mod 4096 = (4096 * (0x80020 + q) + r) mod 4096" using assms(1) by simp
  also have "\<dots> = r" using assms(2) by (simp only: mod_mult_self4 mod_less)
  finally have "unat (a mod 4096) = r" by (simp add: unat_mod_distrib)
  then have s: "unat (a - a mod 4096) = 0x80020000 + 4096 * q" using assms(1) by (simp add: unat_sub word_le_nat_alt)
  show ?thesis
  proof (cases "has_active_sector w")
    case True
    then have "active_sector_address w = a - a mod 4096" using assms(4) s by (intro word_unat_eq_iff[THEN iffD2]) simp
    then show ?thesis using True assms(4) by (simp add: activate_sector_def)
  next
    case False
    have "unat ((a - a mod 4096) mod 4096) = 0" using s by (simp add: unat_mod_distrib)
    then have "(a - a mod 4096) mod 4096 = 0" by (simp only: unat_eq_0)
    then show ?thesis using False assms(4) s by (simp add: activate_sector_def)
  qed
qed

lemma write_pass_feeds:
  assumes nor: "nor_ok fl" and inv: "writer_inv fl fed w f" and bs: "bs \<noteq> []" "length fed + length bs \<le> 0x1E0000"
    and a: "unat a = 0x80020000 + length fed" and p: "write_pass fl 4096 a bs w f = (ok, n, w', g)"
  shows "same_outside fl 0x80020000 0x80200000 f g \<and> length (sector_buffer w') = 4096 \<and> (nor_works fl \<longrightarrow> ok)
    \<and> (ok \<longrightarrow> 0 < n \<and> n \<le> length bs \<and> writer_inv fl (fed @ take n bs) w' g)"
proof -
  obtain q r where i: "length fed = 4096 * q + r" "r < 4096" "length fed \<le> 0x1E0000" "length (sector_buffer w) = 4096"
     "if has_active_sector w then 0 < r \<and> unat (active_sector_address w) = 0x80020000 + 4096 * q \<and> unat (buffered_size w) = r else r = 0"
     "take r (sector_buffer w) = drop (4096 * q) fed" "fl_read fl 0x80020000 (4096 * q) f = take (4096 * q) fed"
    using inv unfolding writer_inv_def by (elim exE conjE)
  have pos: "0 < length bs" using bs(1) by simp
  have q: "q < 480" using i(1) bs(2) pos by linarith
  have a': "unat a = 0x80020000 + 4096 * q + r" using a i(1) by simp
  obtain w1 where act: "activate_sector fl (a - a mod 4096) w f = (True, w1, f)" "has_active_sector w1"
    "unat (active_sector_address w1) = 0x80020000 + 4096 * q" "unat (buffered_size w1) = r" "sector_buffer w1 = sector_buffer w"
    using activate_at_front[OF a' i(2) q i(5), of fl f] by (elim exE conjE)
  define c where "c = min (4096 - r) (length bs)"
  have c: "0 < c" "c \<le> length bs" "r + c \<le> 4096" using i(2) pos by (auto simp: c_def)
  have "active_sector_address w1 \<le> a" unfolding word_le_nat_alt a' act(3) by simp
  then have off: "unat (a - active_sector_address w1) = r" unfolding unat_sub[OF \<open>active_sector_address w1 \<le> a\<close>] a' act(3) by simp
  then have off': "a - active_sector_address w1 = buffered_size w1" using act(4) by (intro word_unat_eq_iff[THEN iffD2]) simp
  have wr: "unat (4096 - buffered_size w1) = 4096 - r"
  proof -
    have "buffered_size w1 \<le> 4096" using act(4) i(2) by (simp add: word_le_nat_alt)
    then show ?thesis by (simp add: unat_sub act(4))
  qed
  have sum: "unat (buffered_size w1 + of_nat c) = r + c" using act(4) c by (simp add: unat_word_ariths unat_of_nat)
  have mx: "max (buffered_size w1) (buffered_size w1 + of_nat c) = buffered_size w1 + of_nat c"
    using sum act(4) by (simp add: max_def word_le_nat_alt)
  define w2 where "w2 = w1\<lparr>sector_buffer := put_bytes r (take c bs) (sector_buffer w), buffered_size := buffered_size w1 + of_nat c\<rparr>"
  have full: "(buffered_size w1 + of_nat c = 4096) = (r + c = 4096)" unfolding word_unat_eq_iff sum by simp
  have P: "(ok, n, w', g) = (if r + c = 4096
      then let (ok, w, f) = commit_active_sector_if_needed fl w2 f in if \<not> ok then (False, 0, w, f) else (True, c, clear_active_sector w, f)
      else (True, c, w2, f))"
    using p[symmetric] unfolding write_pass_def act(1) by (simp add: off' wr mx full w2_def act(4,5) flip: c_def)
  have b2: "length (sector_buffer w2) = 4096" "take (r + c) (sector_buffer w2) = drop (4096 * q) fed @ take c bs"
    using i(1,4,6) c by (simp_all add: w2_def put_bytes_def)
  have w2: "has_active_sector w2" "unat (active_sector_address w2) = 0x80020000 + 4096 * q" "unat (buffered_size w2) = r + c"
    using act sum by (simp_all add: w2_def)
  have fed: "take (4096 * q) (fed @ take c bs) = take (4096 * q) fed"
    "drop (4096 * q) (fed @ take c bs) = drop (4096 * q) fed @ take c bs" "length (fed @ take c bs) = 4096 * q + (r + c)"
    using i(1) c(2) by simp_all
  have le: "length (fed @ take c bs) \<le> 0x1E0000" using bs(2) c(2) by simp
  show ?thesis
  proof (cases "r + c = 4096")
    case False
    then have "ok" "n = c" "w' = w2" "g = f" using P by simp_all
    moreover have "writer_inv fl (fed @ take c bs) w2 f"
      unfolding writer_inv_def
      by (intro exI[of _ q] exI[of _ "r + c"]) (use False c b2 w2 fed le i(7) in simp)
    ultimately show ?thesis using c b2 by simp
  next
    case True
    obtain w3 where k: "commit_active_sector_if_needed fl w2 f = (ok, w3, g)" "w' = (if ok then clear_active_sector w3 else w3)"
      "ok \<longrightarrow> n = c"
      using P True by (auto split: prod.splits if_splits)
    have sec: "app_sector (active_sector_address w2)" using w2(2) q by (auto simp: app_sector_def)
    have nz: "0 < buffered_size w2" "(4096 :: nat) \<le> 4096" using w2(3) True by (simp_all add: word_less_nat_alt)
    note C = commit_sector[OF nor b2(1) w2(1) nz(1) sec _ k(1), unfolded w2(2,3) True, OF nz(2)]
    have len: "length (sector_buffer w3) = 4096"
      using k(1) b2(1) by (auto simp: commit_active_sector_if_needed_def Let_def split: if_splits prod.splits)
    have "writer_inv fl (fed @ take c bs) w' g" if ok
    proof -
      have l: "length (fed @ take c bs) = 4096 * q + 4096" using fed(3) True by simp
      have "fl_read fl 0x80020000 (length (fed @ take c bs)) g = fed @ take c bs"
      proof (rule fl_read_join[OF _ _ l])
        show "fl_read fl 0x80020000 (4096 * q) g = take (4096 * q) (fed @ take c bs)" using fl_read_outside[OF C(1)] i(7) fed(1) by simp
        show "fl_read fl (0x80020000 + 4096 * q) 4096 g = drop (4096 * q) (fed @ take c bs)" using C(2)[OF that] b2(2) fed(2) True by simp
      qed
      moreover have "w' = clear_active_sector w3" using k(2) that by simp
      ultimately show ?thesis using writer_inv_sectors[OF _ l le] len by simp
    qed
    moreover have "same_outside fl 0x80020000 0x80200000 f g"
      by (rule same_outside_mono[OF C(1)]) (use q in auto)
    ultimately show ?thesis using C(3) len k(2,3) c by (auto simp: clear_active_sector_def)
  qed
qed

lemma write_passes_feed:
  assumes nor: "nor_ok fl" and "writer_inv fl fed w f" "length fed + length bs \<le> 0x1E0000"
    "unat a = 0x80020000 + length fed" "write_passes fl 4096 a bs w f = (ok, w', g)"
  shows "same_outside fl 0x80020000 0x80200000 f g \<and> length (sector_buffer w') = 4096 \<and> (nor_works fl \<longrightarrow> ok)
    \<and> (ok \<longrightarrow> writer_inv fl (fed @ bs) w' g)"
  using assms(2-)
proof (induction "length bs" arbitrary: fed a bs w f rule: less_induct)
  case less
  show ?case
  proof (cases "bs = []")
    case True
    then have "ok" "w' = w" "g = f" using less.prems(4) by (simp_all add: write_passes.simps)
    then show ?thesis using True less.prems(1) writer_inv_buffer[OF less.prems(1)] by simp
  next
    case False
    obtain ok1 n w1 h where p: "write_pass fl 4096 a bs w f = (ok1, n, w1, h)" by (metis prod_cases4)
    note P = write_pass_feeds[OF nor less.prems(1) False less.prems(2,3) p]
    show ?thesis
    proof (cases ok1)
      case no: False
      then show ?thesis using less.prems(4) p P False by (simp add: write_passes.simps)
    next
      case True
      have n: "0 < n" "n \<le> length bs" "writer_inv fl (fed @ take n bs) w1 h" using P True by auto
      have a: "unat (a + of_nat n) = 0x80020000 + length (fed @ take n bs)"
        using less.prems(2,3) n by (simp add: unat_word_ariths unat_of_nat)
      have "write_passes fl 4096 (a + of_nat n) (drop n bs) w1 h = (ok, w', g)"
        using less.prems(4) p True False by (simp add: write_passes.simps)
      then have "same_outside fl 0x80020000 0x80200000 h g \<and> length (sector_buffer w') = 4096 \<and> (nor_works fl \<longrightarrow> ok)
          \<and> (ok \<longrightarrow> writer_inv fl ((fed @ take n bs) @ drop n bs) w' g)"
        using less.hyps[of "drop n bs" "fed @ take n bs" w1 h "a + of_nat n"] n a less.prems(2) by simp
      then show ?thesis using P by (auto intro: same_outside_trans)
    qed
  qed
qed

lemma Writer_write_feeds:
  assumes nor: "nor_ok fl" and inv: "writer_inv fl fed w f" and bs: "bs \<noteq> []" "length fed + length bs \<le> 0x1E0000"
    and a: "a = kAppStartAddress + of_nat (length fed)" and e: "Writer_write fl 4096 a bs w f = (ok, w', g)"
  shows "same_outside fl 0x80020000 0x80200000 f g \<and> length (sector_buffer w') = 4096 \<and> (nor_works fl \<longrightarrow> ok)
    \<and> (ok \<longrightarrow> writer_inv fl (fed @ bs) w' g)"
proof -
  have pos: "0 < length bs" using bs(1) by simp
  have u: "unat a = 0x80020000 + length fed" using a bs(2) by (simp add: unat_word_ariths unat_of_nat)
  have "write_passes fl 4096 a bs w f = (ok, w', g)"
    using e bs u pos unfolding Writer_write_def by (simp add: word_less_nat_alt word_le_nat_alt split: if_splits)
  from write_passes_feed[OF nor inv bs(2) u this] show ?thesis .
qed

end
