(* ===== verification/Sha256.thy ===== *)
theory Sha256
  imports SlavePrelude
begin

text \<open>
  The hash of the bootloader, \<open>bootloader/src/crypto/sha256.hpp\<close>: the context with its partially
  filled chunk, the transform over one chunk, and the three calls \<open>sha256_init\<close>, \<open>sha256_update\<close>
  and \<open>sha256_final\<close>.  The reference is the text of FIPS 180-4: the padding of section 5.1.1, the
  message schedule as a recursion on the index, the rounds and the chaining of section 6.2.2.  The
  lemmas show that the transform is the compression function, and that any sequence of updates
  leaves a context that stands for the concatenation of what was fed.
\<close>

unbundle bit_operations_syntax

section \<open>The program\<close>

record sha256_ctx =
  ctx_data :: "8 word list"
  ctx_datalen :: "32 word"
  ctx_bitlen :: "64 word"
  ctx_state :: "32 word list"

definition Sha256Ctx :: sha256_ctx where
  "Sha256Ctx = \<lparr>ctx_data = replicate 64 0, ctx_datalen = 0, ctx_bitlen = 0, ctx_state = replicate 8 0\<rparr>"

definition kRoundConstants :: "32 word list" where
  "kRoundConstants = concat [
    [0x428a2f98, 0x71374491, 0xb5c0fbcf, 0xe9b5dba5], [0x3956c25b, 0x59f111f1, 0x923f82a4, 0xab1c5ed5],
    [0xd807aa98, 0x12835b01, 0x243185be, 0x550c7dc3], [0x72be5d74, 0x80deb1fe, 0x9bdc06a7, 0xc19bf174],
    [0xe49b69c1, 0xefbe4786, 0x0fc19dc6, 0x240ca1cc], [0x2de92c6f, 0x4a7484aa, 0x5cb0a9dc, 0x76f988da],
    [0x983e5152, 0xa831c66d, 0xb00327c8, 0xbf597fc7], [0xc6e00bf3, 0xd5a79147, 0x06ca6351, 0x14292967],
    [0x27b70a85, 0x2e1b2138, 0x4d2c6dfc, 0x53380d13], [0x650a7354, 0x766a0abb, 0x81c2c92e, 0x92722c85],
    [0xa2bfe8a1, 0xa81a664b, 0xc24b8b70, 0xc76c51a3], [0xd192e819, 0xd6990624, 0xf40e3585, 0x106aa070],
    [0x19a4c116, 0x1e376c08, 0x2748774c, 0x34b0bcb5], [0x391c0cb3, 0x4ed8aa4a, 0x5b9cca4f, 0x682e6ff3],
    [0x748f82ee, 0x78a5636f, 0x84c87814, 0x8cc70208], [0x90befffa, 0xa4506ceb, 0xbef9a3f7, 0xc67178f2]]"

definition rotate_right :: "32 word \<Rightarrow> nat \<Rightarrow> 32 word" where
  "rotate_right x n = drop_bit n x OR push_bit (32 - n) x"

definition sha_choose :: "32 word \<Rightarrow> 32 word \<Rightarrow> 32 word \<Rightarrow> 32 word" where
  "sha_choose x y z = (x AND y) XOR ((NOT x) AND z)"

definition majority :: "32 word \<Rightarrow> 32 word \<Rightarrow> 32 word \<Rightarrow> 32 word" where
  "majority x y z = (x AND y) XOR (x AND z) XOR (y AND z)"

definition big_sigma0 :: "32 word \<Rightarrow> 32 word" where
  "big_sigma0 x = rotate_right x 2 XOR rotate_right x 13 XOR rotate_right x 22"

definition big_sigma1 :: "32 word \<Rightarrow> 32 word" where
  "big_sigma1 x = rotate_right x 6 XOR rotate_right x 11 XOR rotate_right x 25"

definition small_sigma0 :: "32 word \<Rightarrow> 32 word" where
  "small_sigma0 x = rotate_right x 7 XOR rotate_right x 18 XOR drop_bit 3 x"

definition small_sigma1 :: "32 word \<Rightarrow> 32 word" where
  "small_sigma1 x = rotate_right x 17 XOR rotate_right x 19 XOR drop_bit 10 x"

text \<open>The array \<open>message_schedule\<close> is filled in place: sixteen words from the chunk, then the
  other 48 from earlier entries.\<close>

definition load_word :: "8 word list \<Rightarrow> nat \<Rightarrow> 32 word" where
  "load_word bs i = push_bit 24 (ucast (bs ! (i * 4))) OR push_bit 16 (ucast (bs ! (i * 4 + 1)))
     OR push_bit 8 (ucast (bs ! (i * 4 + 2))) OR ucast (bs ! (i * 4 + 3))"

definition message_schedule :: "8 word list \<Rightarrow> 32 word list" where
  "message_schedule bs =
    (let m = fold (\<lambda>i m. m[i := load_word bs i]) [0..<16] (replicate 64 0) in
     fold (\<lambda>i m. m[i := small_sigma1 (m ! (i - 2)) + m ! (i - 7) + small_sigma0 (m ! (i - 15)) + m ! (i - 16)])
       [16..<64] m)"

type_synonym vars8 = "32 word \<times> 32 word \<times> 32 word \<times> 32 word \<times> 32 word \<times> 32 word \<times> 32 word \<times> 32 word"

fun sha256_round :: "32 word list \<Rightarrow> nat \<Rightarrow> vars8 \<Rightarrow> vars8" where
  "sha256_round m i (a, b, c, d, e, f, g, h) =
    (let t1 = h + big_sigma1 e + sha_choose e f g + kRoundConstants ! i + m ! i;
         t2 = big_sigma0 a + majority a b c
     in (t1 + t2, a, b, c, d + t1, e, f, g))"

definition sha256_transform :: "8 word list \<Rightarrow> sha256_ctx \<Rightarrow> sha256_ctx" where
  "sha256_transform bs ctx =
    (let m = message_schedule bs; s = ctx_state ctx;
         (a, b, c, d, e, f, g, h) =
           fold (sha256_round m) [0..<64] (s ! 0, s ! 1, s ! 2, s ! 3, s ! 4, s ! 5, s ! 6, s ! 7)
     in ctx\<lparr>ctx_state := [s ! 0 + a, s ! 1 + b, s ! 2 + c, s ! 3 + d, s ! 4 + e, s ! 5 + f, s ! 6 + g, s ! 7 + h]\<rparr>)"

definition initial_state :: "32 word list" where
  "initial_state = [0x6a09e667, 0xbb67ae85, 0x3c6ef372, 0xa54ff53a, 0x510e527f, 0x9b05688c, 0x1f83d9ab, 0x5be0cd19]"

definition sha256_init :: "sha256_ctx \<Rightarrow> sha256_ctx" where
  "sha256_init ctx = ctx\<lparr>ctx_datalen := 0, ctx_bitlen := 0, ctx_state := initial_state\<rparr>"

text \<open>\<open>sha256_update\<close>: the top-up of a partial chunk, the loop over whole chunks straight out of
  the caller's buffer, and the rest.  The second component is what is left of the buffer.\<close>

definition update_top_up :: "8 word list \<Rightarrow> sha256_ctx \<Rightarrow> sha256_ctx \<times> 8 word list" where
  "update_top_up bs ctx =
    (if ctx_datalen ctx \<noteq> 0
     then let fill = min (unat (64 - ctx_datalen ctx)) (length bs);
              ctx = ctx\<lparr>ctx_data := put_bytes (unat (ctx_datalen ctx)) (take fill bs) (ctx_data ctx),
                        ctx_datalen := ctx_datalen ctx + of_nat fill\<rparr>;
              ctx = (if ctx_datalen ctx = 64
                     then let c = sha256_transform (ctx_data ctx) ctx
                          in c\<lparr>ctx_bitlen := ctx_bitlen c + 512, ctx_datalen := 0\<rparr>
                     else ctx)
          in (ctx, drop fill bs)
     else (ctx, bs))"

function update_chunks :: "8 word list \<Rightarrow> sha256_ctx \<Rightarrow> sha256_ctx \<times> 8 word list" where
  "update_chunks bs ctx =
    (if 64 \<le> length bs
     then let c = sha256_transform (take 64 bs) ctx
          in update_chunks (drop 64 bs) (c\<lparr>ctx_bitlen := ctx_bitlen c + 512\<rparr>)
     else (ctx, bs))"
  by pat_completeness auto
termination by (relation "measure (\<lambda>(bs, ctx). length bs)") auto

declare update_chunks.simps [simp del]

definition sha256_update :: "8 word list \<Rightarrow> sha256_ctx \<Rightarrow> sha256_ctx" where
  "sha256_update bs ctx =
    (let (ctx, bs) = update_top_up bs ctx; (ctx, bs) = update_chunks bs ctx in
     if bs \<noteq> [] then ctx\<lparr>ctx_data := put_bytes 0 bs (ctx_data ctx), ctx_datalen := of_nat (length bs)\<rparr> else ctx)"

definition zero_range :: "nat \<Rightarrow> nat \<Rightarrow> 8 word list \<Rightarrow> 8 word list" where
  "zero_range i n bs = fold (\<lambda>i d. d[i := 0]) [i..<n] bs"

definition put_bitlen :: "64 word \<Rightarrow> 8 word list \<Rightarrow> 8 word list" where
  "put_bitlen w d = d[63 := ucast w, 62 := ucast (drop_bit 8 w), 61 := ucast (drop_bit 16 w),
     60 := ucast (drop_bit 24 w), 59 := ucast (drop_bit 32 w), 58 := ucast (drop_bit 40 w),
     57 := ucast (drop_bit 48 w), 56 := ucast (drop_bit 56 w)]"

definition put_digest :: "32 word list \<Rightarrow> 8 word list" where
  "put_digest s = fold (\<lambda>i h. let shift = 24 - i * 8 in
     h[i := ucast (drop_bit shift (s ! 0) AND 0xFF), i + 4 := ucast (drop_bit shift (s ! 1) AND 0xFF),
       i + 8 := ucast (drop_bit shift (s ! 2) AND 0xFF), i + 12 := ucast (drop_bit shift (s ! 3) AND 0xFF),
       i + 16 := ucast (drop_bit shift (s ! 4) AND 0xFF), i + 20 := ucast (drop_bit shift (s ! 5) AND 0xFF),
       i + 24 := ucast (drop_bit shift (s ! 6) AND 0xFF), i + 28 := ucast (drop_bit shift (s ! 7) AND 0xFF)])
     [0..<4] (replicate 32 0)"

definition sha256_final :: "sha256_ctx \<Rightarrow> sha256_ctx \<times> 8 word list" where
  "sha256_final ctx =
    (let i = unat (ctx_datalen ctx);
         ctx = (if ctx_datalen ctx < 56
                then ctx\<lparr>ctx_data := zero_range (i + 1) 56 ((ctx_data ctx)[i := 0x80])\<rparr>
                else let c = ctx\<lparr>ctx_data := zero_range (i + 1) 64 ((ctx_data ctx)[i := 0x80])\<rparr>;
                         c = sha256_transform (ctx_data c) c
                     in c\<lparr>ctx_data := zero_range 0 56 (ctx_data c)\<rparr>);
         ctx = ctx\<lparr>ctx_bitlen := ctx_bitlen ctx + ucast (ctx_datalen ctx) * 8\<rparr>;
         ctx = ctx\<lparr>ctx_data := put_bitlen (ctx_bitlen ctx) (ctx_data ctx)\<rparr>;
         ctx = sha256_transform (ctx_data ctx) ctx
     in (ctx, put_digest (ctx_state ctx)))"

section \<open>The reference\<close>

definition be_word :: "8 word list \<Rightarrow> 32 word" where
  "be_word bs = foldl (\<lambda>w b. push_bit 8 w OR ucast b) 0 bs"

definition be_bytes :: "nat \<Rightarrow> 'a::len word \<Rightarrow> 8 word list" where
  "be_bytes n w = map (\<lambda>i. ucast (drop_bit (8 * i) w)) (rev [0..<n])"

definition fips_Ch :: "32 word \<Rightarrow> 32 word \<Rightarrow> 32 word \<Rightarrow> 32 word" where
  "fips_Ch x y z = (x AND y) XOR ((NOT x) AND z)"

definition fips_Maj :: "32 word \<Rightarrow> 32 word \<Rightarrow> 32 word \<Rightarrow> 32 word" where
  "fips_Maj x y z = (x AND y) XOR (x AND z) XOR (y AND z)"

definition fips_Sigma :: "nat \<Rightarrow> nat \<Rightarrow> nat \<Rightarrow> 32 word \<Rightarrow> 32 word" where
  "fips_Sigma i j k x = word_rotr i x XOR word_rotr j x XOR word_rotr k x"

definition fips_sigma :: "nat \<Rightarrow> nat \<Rightarrow> nat \<Rightarrow> 32 word \<Rightarrow> 32 word" where
  "fips_sigma i j k x = word_rotr i x XOR word_rotr j x XOR drop_bit k x"

fun fips_W :: "8 word list \<Rightarrow> nat \<Rightarrow> 32 word" where
  "fips_W bs t =
    (if t < 16 then be_word (take 4 (drop (4 * t) bs))
     else fips_sigma 17 19 10 (fips_W bs (t - 2)) + fips_W bs (t - 7)
        + fips_sigma 7 18 3 (fips_W bs (t - 15)) + fips_W bs (t - 16))"

declare fips_W.simps [simp del]

text \<open>One round on the working variables \<open>[a, b, c, d, e, f, g, h]\<close>.\<close>

definition fips_round :: "8 word list \<Rightarrow> 32 word list \<Rightarrow> nat \<Rightarrow> 32 word list" where
  "fips_round bs v t =
    (let T1 = v ! 7 + fips_Sigma 6 11 25 (v ! 4) + fips_Ch (v ! 4) (v ! 5) (v ! 6) + kRoundConstants ! t + fips_W bs t;
         T2 = fips_Sigma 2 13 22 (v ! 0) + fips_Maj (v ! 0) (v ! 1) (v ! 2)
     in [T1 + T2, v ! 0, v ! 1, v ! 2, v ! 3 + T1, v ! 4, v ! 5, v ! 6])"

definition fips_compress :: "32 word list \<Rightarrow> 8 word list \<Rightarrow> 32 word list" where
  "fips_compress H bs = map2 (+) H (foldl (fips_round bs) H [0..<64])"

definition fips_pad :: "8 word list \<Rightarrow> 8 word list" where
  "fips_pad M = M @ [0x80] @ replicate ((119 - length M mod 64) mod 64) 0
     @ be_bytes 8 (of_nat (8 * length M) :: 64 word)"

fun fips_chain :: "32 word list \<Rightarrow> 8 word list \<Rightarrow> 32 word list" where
  "fips_chain H P = (if length P < 64 then H else fips_chain (fips_compress H (take 64 P)) (drop 64 P))"

declare fips_chain.simps [simp del]

definition fips_sha256 :: "8 word list \<Rightarrow> 8 word list" where
  "fips_sha256 M = concat (map (be_bytes 4) (fips_chain initial_state (fips_pad M)))"

section \<open>The transform is the compression function\<close>

lemma rotate_right_rotr:
  assumes "0 < n" "n < 32" shows "rotate_right x n = word_rotr n x"
proof (rule bit_word_eqI)
  fix i assume "i < LENGTH(32)"
  then have "(i + n) mod 32 = (if i + n < 32 then i + n else i + n - 32)" using assms by (simp add: le_mod_geq)
  moreover have "\<not> bit x (n + i)" if "32 \<le> n + i" using that by (auto dest: bit_imp_le_length)
  ultimately show "bit (rotate_right x n) i = bit (word_rotr n x) i" using assms \<open>i < LENGTH(32)\<close>
    by (auto simp: rotate_right_def bit_word_rotr_iff bit_or_iff bit_push_bit_iff bit_drop_bit_eq add.commute)
qed

lemma sigmas:
  "big_sigma0 = fips_Sigma 2 13 22" "big_sigma1 = fips_Sigma 6 11 25"
  "small_sigma0 = fips_sigma 7 18 3" "small_sigma1 = fips_sigma 17 19 10"
  "sha_choose = fips_Ch" "majority = fips_Maj"
  by (auto simp: fun_eq_iff big_sigma0_def big_sigma1_def small_sigma0_def small_sigma1_def sha_choose_def majority_def
      fips_Sigma_def fips_sigma_def fips_Ch_def fips_Maj_def rotate_right_rotr)

lemma load_word_be:
  assumes "i * 4 + 4 \<le> length bs" shows "load_word bs i = be_word (take 4 (drop (4 * i) bs))"
proof -
  have "take 4 (drop (4 * i) bs) = [bs ! (i * 4), bs ! (i * 4 + 1), bs ! (i * 4 + 2), bs ! (i * 4 + 3)]"
    using assms by (intro nth_equalityI) (auto simp: less_Suc_eq numeral_eq_Suc ac_simps)
  then show ?thesis
    by (simp add: load_word_def be_word_def push_bit_or push_bit_push_bit or.assoc)
qed

lemma fold_schedule:
  assumes "n \<le> m" "m \<le> 64" "length w = 64" "\<forall>j < n. w ! j = W j"
    and "\<And>i v. n \<le> i \<Longrightarrow> i < m \<Longrightarrow> (\<forall>j < i. v ! j = W j) \<Longrightarrow> F i v = W i"
  shows "length (fold (\<lambda>i v. v[i := F i v]) [n..<m] w) = 64
     \<and> (\<forall>j < m. fold (\<lambda>i v. v[i := F i v]) [n..<m] w ! j = W j)"
  using assms
proof (induction m)
  case 0 then show ?case by simp
next
  case (Suc m)
  show ?case
  proof (cases "n = Suc m")
    case True then show ?thesis using Suc.prems by simp
  next
    case False
    then have n: "n \<le> m" using Suc.prems by simp
    note IH = Suc.IH[OF n]
    show ?thesis using IH Suc.prems n by (auto simp: nth_list_update less_Suc_eq)
  qed
qed

lemma message_schedule_W:
  assumes "length bs = 64"
  shows "\<forall>t < 64. message_schedule bs ! t = fips_W bs t"
proof -
  define w where "w = fold (\<lambda>i m. m[i := load_word bs i]) [0..<16] (replicate 64 0)"
  have w: "length w = 64 \<and> (\<forall>t < 16. w ! t = fips_W bs t)"
    unfolding w_def by (rule fold_schedule) (auto simp: load_word_be assms fips_W.simps[of bs])
  have "length (message_schedule bs) = 64 \<and> (\<forall>t < 64. message_schedule bs ! t = fips_W bs t)"
    unfolding message_schedule_def Let_def w_def[symmetric]
    by (rule fold_schedule) (use w in \<open>auto simp: sigmas fips_W.simps[of bs]\<close>)
  then show ?thesis by blast
qed

fun vars_list :: "vars8 \<Rightarrow> 32 word list" where
  "vars_list (a, b, c, d, e, f, g, h) = [a, b, c, d, e, f, g, h]"

lemma fips_round_vars:
  "m ! t = fips_W bs t \<Longrightarrow> fips_round bs (vars_list v) t = vars_list (sha256_round m t v)"
  by (cases v rule: vars_list.cases) (simp add: fips_round_def sigmas Let_def)

lemma rounds:
  assumes "\<forall>t < 64. m ! t = fips_W bs t" "n \<le> 64"
  shows "vars_list (fold (sha256_round m) [0..<n] v) = foldl (fips_round bs) (vars_list v) [0..<n]"
  using assms(2) by (induction n) (use assms(1) in \<open>auto simp flip: fips_round_vars[of _ _ bs]\<close>)

lemma transform_compress:
  assumes "length bs = 64" "length (ctx_state ctx) = 8"
  shows "sha256_transform bs ctx = ctx\<lparr>ctx_state := fips_compress (ctx_state ctx) bs\<rparr>"
proof -
  let ?s = "ctx_state ctx"
  let ?v = "(?s ! 0, ?s ! 1, ?s ! 2, ?s ! 3, ?s ! 4, ?s ! 5, ?s ! 6, ?s ! 7)"
  have s: "vars_list ?v = ?s"
    using assms(2) by (intro nth_equalityI) (auto simp: less_Suc_eq numeral_eq_Suc)
  obtain a b c d e f g h where r: "fold (sha256_round (message_schedule bs)) [0..<64] ?v = (a, b, c, d, e, f, g, h)"
    by (rule vars_list.cases)
  have "foldl (fips_round bs) ?s [0..<64] = [a, b, c, d, e, f, g, h]"
    using rounds[OF message_schedule_W[OF assms(1)], of 64 ?v] unfolding r s by simp
  then have "fips_compress ?s bs = map2 (+) (vars_list ?v) [a, b, c, d, e, f, g, h]"
    by (simp only: fips_compress_def s)
  then show ?thesis unfolding sha256_transform_def Let_def r by simp
qed

section \<open>Contexts and what they stand for\<close>

lemma length_round [simp]: "length (foldl (fips_round bs) v ts) = 8" if "length v = 8" for v ts
  using that by (induction ts arbitrary: v) (auto simp: fips_round_def Let_def)

lemma length_compress [simp]: "length H = 8 \<Longrightarrow> length (fips_compress H bs) = 8"
  by (simp add: fips_compress_def)

lemma fips_chain_short [simp]: "length P < 64 \<Longrightarrow> fips_chain H P = H"
  by (simp add: fips_chain.simps[of H P])

lemma fips_chain_block: "length b = 64 \<Longrightarrow> fips_chain H (b @ P) = fips_chain (fips_compress H b) P"
  by (simp add: fips_chain.simps[of H "b @ P"])

lemma fips_chain_one: "length b = 64 \<Longrightarrow> fips_chain H b = fips_compress H b"
  using fips_chain_block[of b H "[]"] by simp

lemma fips_chain_append: "64 dvd length P \<Longrightarrow> fips_chain H (P @ Q) = fips_chain (fips_chain H P) Q"
proof (induction H P rule: fips_chain.induct)
  case (1 H P)
  show ?case
  proof (cases "length P < 64")
    case True
    then have "P = []" using "1.prems" by (auto elim!: dvdE)
    then show ?thesis by simp
  next
    case False
    have "64 dvd length (drop 64 P)" using "1.prems" False by (simp add: dvd_diff_nat)
    from "1.IH"[OF False this] False show ?thesis
      by (simp add: fips_chain.simps[of H "P @ Q"] fips_chain.simps[of H P])
  qed
qed

lemma length_chain [simp]: "length H = 8 \<Longrightarrow> length (fips_chain H P) = 8"
  by (induction H P rule: fips_chain.induct) (subst fips_chain.simps, simp)

text \<open>A context stands for the whole chunks \<open>p\<close> it has hashed and the rest \<open>q\<close> it holds back.\<close>

definition ctx_holds :: "sha256_ctx \<Rightarrow> 8 word list \<Rightarrow> 8 word list \<Rightarrow> bool" where
  "ctx_holds c p q = (64 dvd length p \<and> length q < 64 \<and> length (ctx_data c) = 64
     \<and> take (length q) (ctx_data c) = q \<and> ctx_datalen c = of_nat (length q)
     \<and> ctx_bitlen c = of_nat (8 * length p) \<and> ctx_state c = fips_chain initial_state p)"

lemma length_initial [simp]: "length initial_state = 8"
  by (simp add: initial_state_def)

lemma ctx_holds_init: "length (ctx_data c) = 64 \<Longrightarrow> ctx_holds (sha256_init c) [] []"
  by (simp add: ctx_holds_def sha256_init_def)

text \<open>One more whole chunk.\<close>

lemma hash_chunk:
  assumes "64 dvd length p" "ctx_state c = fips_chain initial_state p" "ctx_bitlen c = of_nat (8 * length p)" "length b = 64"
  shows "ctx_holds ((sha256_transform b c)\<lparr>ctx_bitlen := ctx_bitlen (sha256_transform b c) + 512, ctx_datalen := 0\<rparr>) (p @ b) []
      \<longleftrightarrow> length (ctx_data c) = 64"
    "sha256_transform b c = c\<lparr>ctx_state := fips_chain initial_state (p @ b)\<rparr>"
proof -
  have s: "length (ctx_state c) = 8" using assms(2) by simp
  show t: "sha256_transform b c = c\<lparr>ctx_state := fips_chain initial_state (p @ b)\<rparr>"
    using assms fips_chain_block[OF assms(4), of _ "[]"]
    by (simp add: transform_compress[OF assms(4) s] fips_chain_append)
  show "ctx_holds ((sha256_transform b c)\<lparr>ctx_bitlen := ctx_bitlen (sha256_transform b c) + 512, ctx_datalen := 0\<rparr>) (p @ b) []
      \<longleftrightarrow> length (ctx_data c) = 64"
    using assms unfolding t by (auto simp: ctx_holds_def algebra_simps)
qed

lemma update_chunks_holds:
  assumes "ctx_holds c p []" "update_chunks bs c = (c', r)"
  shows "\<exists>b. bs = b @ r \<and> length r < 64 \<and> ctx_holds c' (p @ b) []"
  using assms
proof (induction bs c arbitrary: p rule: update_chunks.induct)
  case (1 bs c)
  show ?case
  proof (cases "64 \<le> length bs")
    case False then show ?thesis using "1.prems" by (auto simp: update_chunks.simps[of bs])
  next
    case True
    let ?b = "take 64 bs"
    have l: "length ?b = 64" using True by simp
    have c: "64 dvd length p" "ctx_state c = fips_chain initial_state p" "ctx_bitlen c = of_nat (8 * length p)"
      "length (ctx_data c) = 64" "ctx_datalen c = 0"
      using "1.prems"(1) by (auto simp: ctx_holds_def)
    note h = hash_chunk[OF c(1-3) l]
    let ?c = "sha256_transform ?b c\<lparr>ctx_bitlen := ctx_bitlen (sha256_transform ?b c) + 512\<rparr>"
    have "ctx_holds ?c (p @ ?b) []"
      using h(1) c(4,5) unfolding h(2) by (simp add: ctx_holds_def)
    moreover have "update_chunks (drop 64 bs) ?c = (c', r)"
      using "1.prems"(2) True by (simp add: update_chunks.simps[of bs] Let_def)
    ultimately obtain b where "drop 64 bs = b @ r" "length r < 64" "ctx_holds c' ((p @ ?b) @ b) []"
      using "1.IH"[OF True refl] by blast
    then show ?thesis by (intro exI[of _ "?b @ b"]) (metis append.assoc append_take_drop_id)
  qed
qed

lemma update_rest:
  assumes "ctx_holds c p []" "length r < 64"
  shows "ctx_holds (if r \<noteq> [] then c\<lparr>ctx_data := put_bytes 0 r (ctx_data c), ctx_datalen := of_nat (length r)\<rparr> else c) p r"
  using assms by (auto simp: ctx_holds_def put_bytes_def)

lemma update_holds:
  assumes h: "ctx_holds c p q"
  shows "\<exists>p' q'. ctx_holds (sha256_update bs c) p' q' \<and> p' @ q' = p @ q @ bs"
proof -
  obtain c1 r1 where t: "update_top_up bs c = (c1, r1)" by force
  obtain c2 r2 where u: "update_chunks r1 c1 = (c2, r2)" by force
  have upd: "sha256_update bs c = (if r2 \<noteq> [] then c2\<lparr>ctx_data := put_bytes 0 r2 (ctx_data c2), ctx_datalen := of_nat (length r2)\<rparr> else c2)"
    by (simp add: sha256_update_def t u)
  have rest: ?thesis if c1: "ctx_holds c1 p1 []" and e: "p1 @ r1 = p @ q @ bs" for p1
  proof -
    obtain b where b: "r1 = b @ r2" "length r2 < 64" "ctx_holds c2 (p1 @ b) []"
      using update_chunks_holds[OF c1 u] by blast
    show ?thesis unfolding upd
      by (intro exI conjI, rule update_rest[OF b(3,2)]) (use e b(1) in simp)
  qed
  have dl: "unat (ctx_datalen c) = length q" using h by (simp add: ctx_holds_def)
  show ?thesis
  proof (cases "q = []")
    case True
    then have "c1 = c" "r1 = bs" using t h by (auto simp: update_top_up_def ctx_holds_def)
    then show ?thesis using rest[of p] h True by simp
  next
    case False
    define k where "k = min (64 - length q) (length bs)"
    define c0 where "c0 = c\<lparr>ctx_data := put_bytes (length q) (take k bs) (ctx_data c), ctx_datalen := ctx_datalen c + of_nat k\<rparr>"
    have k: "k \<le> length bs" "length q + k \<le> 64" "min (unat (64 - ctx_datalen c)) (length bs) = k"
      using h dl unfolding k_def by (auto simp: ctx_holds_def unat_sub_if')
    have nz: "ctx_datalen c \<noteq> 0" using False dl by auto
    have d0: "length (ctx_data c0) = 64" "take (length q + k) (ctx_data c0) = q @ take k bs"
      using h k by (auto simp: c0_def ctx_holds_def put_bytes_def min_def)
    have dl0: "ctx_datalen c0 = of_nat (length q + k)" using h by (simp add: c0_def ctx_holds_def)
    have h0: "ctx_holds (c0\<lparr>ctx_data := ctx_data c, ctx_datalen := ctx_datalen c\<rparr>) p q"
      using h by (simp add: c0_def)
    show ?thesis
    proof (cases "length q + k = 64")
      case True
      have full: "ctx_data c0 = q @ take k bs" using d0 True by simp
      have eq: "c1 = (sha256_transform (ctx_data c0) c0)\<lparr>ctx_bitlen := ctx_bitlen (sha256_transform (ctx_data c0) c0) + 512, ctx_datalen := 0\<rparr>"
        "r1 = drop k bs"
        using t nz True k dl0 unfolding update_top_up_def Let_def dl k(3) c0_def[symmetric] by auto
      have c0: "64 dvd length p" "ctx_state c0 = fips_chain initial_state p" "ctx_bitlen c0 = of_nat (8 * length p)"
        using h by (simp_all add: c0_def ctx_holds_def)
      have "ctx_holds c1 (p @ ctx_data c0) []"
        unfolding eq(1) hash_chunk(1)[OF c0 d0(1)] by (rule d0(1))
      then have "ctx_holds c1 (p @ (q @ take k bs)) []" by (simp only: full)
      then show ?thesis by (rule rest) (simp add: eq(2))
    next
      case False
      then have lt: "length q + k < 64" "k = length bs" using k unfolding k_def by auto
      have "unat (ctx_datalen c0) = length q + k"
        unfolding dl0 by (rule unat_of_nat_small32) (use lt in simp)
      then have "ctx_datalen c0 \<noteq> 64" using lt by auto
      then have eq: "c1 = c0" "r1 = []"
        using t nz lt unfolding update_top_up_def Let_def dl k(3) c0_def[symmetric] by auto
      then have "sha256_update bs c = c0" unfolding upd using u by (auto simp: update_chunks.simps)
      moreover have "ctx_holds c0 p (q @ bs)"
        using h d0 dl0 lt by (simp add: ctx_holds_def c0_def)
      ultimately show ?thesis by (intro exI[of _ p] exI[of _ "q @ bs"]) simp
    qed
  qed
qed

lemma updates_hold:
  "ctx_holds c p q \<Longrightarrow> \<exists>p' q'. ctx_holds (fold sha256_update css c) p' q' \<and> p' @ q' = p @ q @ concat css"
proof (induction css arbitrary: c p q)
  case Nil then show ?case by (intro exI[of _ p] exI[of _ q]) simp
next
  case (Cons bs css)
  obtain p1 q1 where 1: "ctx_holds (sha256_update bs c) p1 q1" "p1 @ q1 = p @ q @ bs"
    using update_holds[OF Cons.prems] by blast
  obtain p2 q2 where "ctx_holds (fold sha256_update css (sha256_update bs c)) p2 q2" "p2 @ q2 = p1 @ q1 @ concat css"
    using Cons.IH[OF 1(1)] by blast
  then show ?case using 1(2) by (intro exI[of _ p2] exI[of _ q2]) (simp flip: append_assoc)
qed

section \<open>The digest\<close>

lemma fold_zeros:
  "i \<le> n \<Longrightarrow> n \<le> length d \<Longrightarrow> zero_range i n d = take i d @ replicate (n - i) 0 @ drop n d"
proof (induction n)
  case 0 then show ?case by (simp add: zero_range_def)
next
  case (Suc n)
  show ?case
  proof (cases "i = Suc n")
    case True then show ?thesis by (simp add: zero_range_def)
  next
    case False
    then have "zero_range i n d = take i d @ replicate (n - i) 0 @ drop n d" "i \<le> n" using Suc by auto
    moreover have "zero_range i (Suc n) d = (zero_range i n d)[n := 0]"
      using \<open>i \<le> n\<close> by (simp add: zero_range_def)
    ultimately show ?thesis
      using Suc.prems by (intro nth_equalityI) (auto simp: nth_append nth_list_update)
  qed
qed

lemma put_bitlen_be:
  assumes "length d = 64" shows "put_bitlen w d = take 56 d @ be_bytes 8 w"
  using assms by (intro nth_equalityI) (auto simp: put_bitlen_def be_bytes_def nth_list_update nth_append rev_nth)

lemma byte_of: "ucast (x AND 0xFF :: 32 word) = (ucast x :: 8 word)"
proof -
  have m: "(0xFF :: 32 word) = mask 8" by (simp add: mask_eq_exp_minus_1)
  show ?thesis unfolding m by (intro bit_word_eqI) (auto simp: bit_and_iff bit_ucast_iff bit_mask_iff)
qed

lemma put_digest_be:
  assumes "length s = 8" shows "put_digest s = concat (map (be_bytes 4) s)"
proof -
  have "s = [s ! 0, s ! 1, s ! 2, s ! 3, s ! 4, s ! 5, s ! 6, s ! 7]"
    using assms by (intro nth_equalityI) (auto simp: less_Suc_eq numeral_eq_Suc)
  then obtain a b c d e f g h where "s = [a, b, c, d, e, f, g, h]" by blast
  then show ?thesis
    by (simp add: put_digest_def be_bytes_def upt_rec byte_of) (simp only: numeral_eq_Suc replicate.simps pred_numeral_simps list_update.simps BitM.simps, simp)
qed

text \<open>The last one or two chunks: what was held back, the padding and the length.\<close>

lemma final_state:
  assumes h: "ctx_holds c p q"
  shows "ctx_state (fst (sha256_final c)) = fips_chain initial_state (fips_pad (p @ q))"
proof -
  let ?n = "length q" and ?L = "of_nat (8 * length (p @ q)) :: 64 word"
  have n: "?n < 64" "unat (ctx_datalen c) = ?n" "length (ctx_data c) = 64" "64 dvd length p"
    and st: "ctx_state c = fips_chain initial_state p"
    using h by (auto simp: ctx_holds_def)
  have md: "length (p @ q) mod 64 = ?n" using n by (auto elim!: dvdE)
  define d where "d = (ctx_data c)[?n := 0x80]"
  have d: "take (Suc ?n) d = q @ [0x80]" "length d = 64"
    using h n unfolding d_def by (simp_all add: ctx_holds_def take_Suc_conv_app_nth)
  have len: "ctx_bitlen c + ucast (ctx_datalen c) * 8 = ?L"
  proof -
    have "(ucast (ctx_datalen c) :: 64 word) = of_nat ?n"
      by (rule word_unat_eq_iff[THEN iffD2]) (use n in \<open>simp add: unsigned_ucast_eq unat_of_nat take_bit_eq_mod\<close>)
    then show ?thesis using h by (simp add: ctx_holds_def algebra_simps)
  qed
  show ?thesis
  proof (cases "?n < 56")
    case True
    then have lt: "ctx_datalen c < 56" using n by (simp add: word_less_nat_alt)
    define b where "b = q @ [0x80] @ replicate (55 - ?n) 0 @ be_bytes 8 ?L"
    have z: "put_bitlen ?L (zero_range (Suc ?n) 56 d) = b"
    proof -
      have "zero_range (Suc ?n) 56 d = (q @ [0x80] @ replicate (55 - ?n) 0) @ drop 56 d"
        using n True d by (simp add: fold_zeros)
      moreover have "length (q @ [0x80] @ replicate (55 - ?n) (0 :: 8 word)) = 56" using True by simp
      ultimately show ?thesis using d by (simp add: put_bitlen_be b_def del: append_assoc)
    qed
    have pad: "fips_pad (p @ q) = p @ b"
      using True unfolding fips_pad_def md b_def by (simp add: mod_if)
    have b: "length b = 64" using True by (simp add: b_def be_bytes_def)
    show ?thesis
      using lt z st unfolding d_def by (simp add: sha256_final_def Let_def n len transform_compress b pad fips_chain_append fips_chain_one)
  next
    case False
    then have ge: "\<not> ctx_datalen c < 56" using n by (simp add: word_less_nat_alt)
    define b1 where "b1 = q @ [0x80] @ replicate (63 - ?n) (0 :: 8 word)"
    define b2 where "b2 = replicate 56 0 @ be_bytes 8 ?L"
    have z: "zero_range (Suc ?n) 64 d = b1"
      using n False d by (simp add: fold_zeros b1_def)
    have b: "length b1 = 64" "length b2 = 64" using False n by (simp_all add: b1_def b2_def be_bytes_def)
    have z2: "put_bitlen ?L (zero_range 0 56 b1) = b2"
      using b by (simp add: fold_zeros put_bitlen_be b2_def)
    have "replicate (119 - ?n) (0 :: 8 word) = replicate (63 - ?n) 0 @ replicate 56 0"
      using n by (simp flip: replicate_add)
    then have pad: "fips_pad (p @ q) = p @ b1 @ b2"
      using False n unfolding fips_pad_def md b1_def b2_def by (simp add: mod_if)
    show ?thesis
      using ge z z2 st unfolding d_def by (simp add: sha256_final_def Let_def n len transform_compress b pad fips_chain_append fips_chain_block fips_chain_one)
  qed
qed

lemma digest_of_state: "length (ctx_state (fst (sha256_final c))) = 8 \<Longrightarrow>
    snd (sha256_final c) = concat (map (be_bytes 4) (ctx_state (fst (sha256_final c))))"
  by (simp add: sha256_final_def Let_def put_digest_be)

lemma sha256_chunks:
  "snd (sha256_final (fold sha256_update css (sha256_init Sha256Ctx))) = fips_sha256 (concat css)"
proof -
  have "ctx_holds (sha256_init Sha256Ctx) [] []" by (rule ctx_holds_init) (simp add: Sha256Ctx_def)
  from updates_hold[OF this, of css]
  obtain p q where h: "ctx_holds (fold sha256_update css (sha256_init Sha256Ctx)) p q" "p @ q = concat css" by auto
  show ?thesis using final_state[OF h(1)] by (simp add: digest_of_state fips_sha256_def h(2))
qed

text \<open>The test vector of the standard: the digest of the three bytes \<open>abc\<close>, evaluated in the
  kernel, the schedule first and then sixteen rounds at a time.\<close>

definition abc_block :: "8 word list" where
  "abc_block = [0x61, 0x62, 0x63, 0x80] @ replicate 59 0 @ [0x18]"

definition abc_schedule :: "32 word list" where
  "abc_schedule =
    [0x61626380, 0x00000000, 0x00000000, 0x00000000, 0x00000000, 0x00000000, 0x00000000, 0x00000000,
     0x00000000, 0x00000000, 0x00000000, 0x00000000, 0x00000000, 0x00000000, 0x00000000, 0x00000018,
     0x61626380, 0x000f0000, 0x7da86405, 0x600003c6, 0x3e9d7b78, 0x0183fc00, 0x12dcbfdb, 0xe2e2c38e,
     0xc8215c1a, 0xb73679a2, 0xe5bc3909, 0x32663c5b, 0x9d209d67, 0xec8726cb, 0x702138a4, 0xd3b7973b,
     0x93f5997f, 0x3b68ba73, 0xaff4ffc1, 0xf10a5c62, 0x0a8b3996, 0x72af830a, 0x9409e33e, 0x24641522,
     0x9f47bf94, 0xf0a64f5a, 0x3e246a79, 0x27333ba3, 0x0c4763f2, 0x840abf27, 0x7a290d5d, 0x065c43da,
     0xfb3e89cb, 0xcc7617db, 0xb9e66c34, 0xa9993667, 0x84badedd, 0xc21462bc, 0x1487472c, 0xb20f7a99,
     0xef57b9cd, 0xebe6b238, 0x9fe3095e, 0x78bc8d4b, 0xa43fcf15, 0x668b2ff8, 0xeeaba2cc, 0x12b1edeb]"

lemma abc_message_schedule: "message_schedule abc_block = abc_schedule"
  by code_simp

lemma abc_rounds0: "fold (sha256_round abc_schedule) [0..<16]
     (0x6a09e667, 0xbb67ae85, 0x3c6ef372, 0xa54ff53a,
      0x510e527f, 0x9b05688c, 0x1f83d9ab, 0x5be0cd19)
   = (0xb0fa238e, 0xc0645fde, 0xd932eb16, 0x87912990,
      0x07590dcd, 0x0b92f20c, 0x745a48de, 0x1e578218)"
  by code_simp

lemma abc_rounds1: "fold (sha256_round abc_schedule) [16..<32]
     (0xb0fa238e, 0xc0645fde, 0xd932eb16, 0x87912990,
      0x07590dcd, 0x0b92f20c, 0x745a48de, 0x1e578218)
   = (0x73b33bf5, 0xea992a22, 0xa0060b30, 0x363482c9,
      0xba591112, 0x0109ab3a, 0xade79437, 0x6112a3b7)"
  by code_simp

lemma abc_rounds2: "fold (sha256_round abc_schedule) [32..<48]
     (0x73b33bf5, 0xea992a22, 0xa0060b30, 0x363482c9,
      0xba591112, 0x0109ab3a, 0xade79437, 0x6112a3b7)
   = (0x4172328d, 0xa14c14b0, 0x72ab4b91, 0x26628815,
      0xfecf0bc6, 0xd57b94a9, 0xb7755da1, 0xa80f11f0)"
  by code_simp

lemma abc_rounds3: "fold (sha256_round abc_schedule) [48..<64]
     (0x4172328d, 0xa14c14b0, 0x72ab4b91, 0x26628815,
      0xfecf0bc6, 0xd57b94a9, 0xb7755da1, 0xa80f11f0)
   = (0x506e3058, 0xd39a2165, 0x04d24d6c, 0xb85e2ce9,
      0x5ef50f24, 0xfb121210, 0x948d25b6, 0x961f4894)"
  by code_simp

lemma fold_cut: "i \<le> j \<Longrightarrow> j \<le> k \<Longrightarrow> fold g [i..<k] v = fold g [j..<k] (fold g [i..<j] v)"
  using upt_add_eq_append[of i j "k - j"] by simp

lemma abc_transform: "sha256_transform abc_block (Sha256Ctx\<lparr>ctx_state := initial_state\<rparr>)
   = Sha256Ctx\<lparr>ctx_state := [0xba7816bf, 0x8f01cfea, 0x414140de, 0x5dae2223,
     0xb00361a3, 0x96177a9c, 0xb410ff61, 0xf20015ad]\<rparr>"
proof -
  let ?r = "sha256_round abc_schedule"
  have "fold ?r [0..<64] v = fold ?r [48..<64] (fold ?r [0..<48] v)" "fold ?r [0..<48] v = fold ?r [32..<48] (fold ?r [0..<32] v)"
    "fold ?r [0..<32] v = fold ?r [16..<32] (fold ?r [0..<16] v)" for v
    by (rule fold_cut; simp)+
  note c = this
  have "fold ?r [0..<64] (0x6a09e667, 0xbb67ae85, 0x3c6ef372, 0xa54ff53a,
      0x510e527f, 0x9b05688c, 0x1f83d9ab, 0x5be0cd19)
    = (0x506e3058, 0xd39a2165, 0x04d24d6c, 0xb85e2ce9,
      0x5ef50f24, 0xfb121210, 0x948d25b6, 0x961f4894)"
    unfolding c abc_rounds0 abc_rounds1 abc_rounds2 abc_rounds3 by (rule refl)
  then show ?thesis
    by (simp add: sha256_transform_def abc_message_schedule initial_state_def Sha256Ctx_def del: upt_rec_numeral)
qed

lemma sha256_abc: "fips_sha256 [0x61, 0x62, 0x63] =
  [0xba, 0x78, 0x16, 0xbf, 0x8f, 0x01, 0xcf, 0xea, 0x41, 0x41, 0x40, 0xde, 0x5d, 0xae, 0x22, 0x23,
   0xb0, 0x03, 0x61, 0xa3, 0x96, 0x17, 0x7a, 0x9c, 0xb4, 0x10, 0xff, 0x61, 0xf2, 0x00, 0x15, 0xad]"
proof -
  have pad: "fips_pad [0x61, 0x62, 0x63] = abc_block"
  proof -
    have "be_bytes 8 (24 :: 64 word) = replicate 7 0 @ [0x18]" by code_simp
    moreover have "replicate 59 (0 :: 8 word) = replicate 52 0 @ replicate 7 0" by (simp flip: replicate_add)
    ultimately show ?thesis by (simp add: fips_pad_def abc_block_def)
  qed
  have l: "length abc_block = 64" by (simp add: abc_block_def)
  have "fips_compress initial_state abc_block = ctx_state (sha256_transform abc_block (Sha256Ctx\<lparr>ctx_state := initial_state\<rparr>))"
    using transform_compress[OF l, of "Sha256Ctx\<lparr>ctx_state := initial_state\<rparr>"] by simp
  then show ?thesis
    unfolding fips_sha256_def pad fips_chain_one[OF l] by (simp add: abc_transform be_bytes_def upt_rec)
qed

end
