(* ===== verification/BootInstall.thy ===== *)
theory BootInstall
  imports BootWriter Sha256
begin

text \<open>
  Validation, installation and the boot decision: \<open>bootloader/src/flash/validation.hpp\<close>,
  \<open>staging.hpp\<close> and \<open>main.cpp\<close> up to the jump.  \<open>valid_image\<close> is the condition on the bytes of an
  image that \<open>validate_image_at\<close> decides.  An installation either leaves the staged image as it was,
  to be tried again, or ends with it in the application slot and a ready record for it.
\<close>

unbundle bit_operations_syntax

section \<open>validation.hpp\<close>

abbreviation BOARD_UF2_SIGNATURE :: "32 word" where "BOARD_UF2_SIGNATURE \<equiv> 0x0A4D5048"
abbreviation kImageHashMagic :: "32 word" where "kImageHashMagic \<equiv> 0x48415348"
abbreviation kImageHashSuffixSize :: "32 word" where "kImageHashSuffixSize \<equiv> 36"

definition has_valid_signature_at :: "'f flash_ops \<Rightarrow> 32 word \<Rightarrow> 'f \<Rightarrow> bool" where
  "has_valid_signature_at fl address f = (fl_word fl address 0 f = BOARD_UF2_SIGNATURE)"

definition compute_image_sha256 :: "'f flash_ops \<Rightarrow> 32 word \<Rightarrow> 32 word \<Rightarrow> 'f \<Rightarrow> 8 word list" where
  "compute_image_sha256 fl address sz f =
     snd (sha256_final (sha256_update (fl_read fl (unat address) (unat sz) f) (sha256_init Sha256Ctx)))"

definition validate_image_hash :: "'f flash_ops \<Rightarrow> 32 word \<Rightarrow> 32 word \<Rightarrow> 'f \<Rightarrow> bool" where
  "validate_image_hash fl address sz f =
    (if sz \<le> kImageHashSuffixSize then False
     else let suffix_ptr = address + sz - kImageHashSuffixSize in
          if fl_word fl suffix_ptr 0 f \<noteq> kImageHashMagic then False
          else let firmware_size = sz - kImageHashSuffixSize;
                   expected = fl_read fl (unat suffix_ptr + 4) 32 f in
               compute_image_sha256 fl address firmware_size f = expected)"

definition validate_image_at :: "'f flash_ops \<Rightarrow> 32 word \<Rightarrow> 32 word \<Rightarrow> 32 word \<Rightarrow> 'f \<Rightarrow> bool" where
  "validate_image_at fl address sz max_size f =
    (if sz = 0 \<or> sz > max_size then False
     else if \<not> has_valid_signature_at fl address f then False
     else validate_image_hash fl address sz f)"

definition validate_candidate_image :: "'f flash_ops \<Rightarrow> 32 word \<Rightarrow> 'f \<Rightarrow> bool" where
  "validate_candidate_image fl sz f = validate_image_at fl kAppStartAddress sz kAppMaxImageSize f"

definition validate_app_image :: "'f flash_ops \<Rightarrow> metadata \<Rightarrow> 'f \<Rightarrow> bool" where
  "validate_app_image fl md f = (md_is_ready md \<and> validate_candidate_image fl (md_image_size fl md f) f)"

section \<open>staging.hpp\<close>

text \<open>\<open>Metadata::get_instance\<close> scans the sector when it is called for the first time since reset.\<close>

definition get_instance :: "'f flash_ops \<Rightarrow> metadata option \<Rightarrow> 'f \<Rightarrow> metadata" where
  "get_instance fl mdo f = (case mdo of Some md \<Rightarrow> md | None \<Rightarrow> scan_latest_valid_slot fl f)"

definition clear_staging_record :: "'f flash_ops \<Rightarrow> 'f \<Rightarrow> bool \<times> 'f" where
  "clear_staging_record fl f = fl_erase fl kStagingMetadataStart f"

text \<open>The loop over blocks of \<open>kTransferBlockSize\<close>, 1024 bytes; the size is at most the capacity of the
  slot, so the offset does not wrap.\<close>

function copy_blocks :: "'f flash_ops \<Rightarrow> 32 word \<Rightarrow> nat \<Rightarrow> nat \<Rightarrow> writer \<Rightarrow> 'f \<Rightarrow> bool \<times> writer \<times> 'f" where
  "copy_blocks fl ss sz offset w f =
    (if offset < sz
     then let chunk = min 1024 (sz - offset);
              (ok, w, f) = Writer_write fl ss (kAppStartAddress + of_nat offset)
                             (fl_read fl (unat kStagingImageStart + offset) chunk f) w f in
          if \<not> ok then (False, Writer_abort_session w, f)
          else copy_blocks fl ss sz (offset + 1024) w f
     else (True, w, f))"
  by pat_completeness auto
termination by (relation "measure (\<lambda>(fl, ss, sz, offset, w, f). sz - offset)") auto

declare copy_blocks.simps [simp del]

definition new_writer :: "8 word list \<Rightarrow> writer" where
  "new_writer buf = \<lparr>sector_buffer = buf, has_active_sector = False, active_sector_address = 0xFFFFFFFF, buffered_size = 0\<rparr>"

definition install_staged_image_if_ready :: "'f xpi_nor \<Rightarrow> metadata option \<Rightarrow> 8 word list \<Rightarrow> 'f
    \<Rightarrow> bool \<times> metadata option \<times> 8 word list \<times> 'f" where
  "install_staged_image_if_ready x mdo buf f =
    (let fl = xpi_flash x in
     if \<not> nor_available x then (False, mdo, buf, f)
     else if \<not> staging_record_is_ready fl kStagingMaxImageSize f then (False, mdo, buf, f)
     else let sz = image_size (staging_record_of fl f) in
     if \<not> validate_image_at fl kStagingImageStart sz kStagingMaxImageSize f
     then (False, mdo, buf, snd (clear_staging_record fl f))
     else let (ok, md, f) = begin_flashing fl (get_instance fl mdo f) f in
     if \<not> ok then (False, Some md, buf, f)
     else let w = Writer_begin_session (new_writer buf);
              (ok, w, f) = copy_blocks fl (nor_sector_size x) (unat sz) 0 w f in
     if \<not> ok then (False, Some md, sector_buffer w, f)
     else let (ok, w, f) = Writer_finish_session fl w f in
     if \<not> ok then (False, Some md, sector_buffer w, f)
     else let (ok, md, f) = finish_flashing fl sz md f in
     if \<not> ok then (False, Some md, sector_buffer w, f)
     else if \<not> validate_candidate_image fl sz f then (False, Some md, sector_buffer w, f)
     else (True, Some md, sector_buffer w, snd (clear_staging_record fl f)))"

section \<open>main.cpp\<close>

text \<open>The decision at reset, in the mode \<open>LIBRMCS_BOOTLOADER_MODE_AUTO\<close>: whether the application is
  entered.  \<open>dfu_requested\<close> is what \<open>BootMailbox::consume_enter_dfu_request\<close> says.\<close>

definition boot :: "'f xpi_nor \<Rightarrow> bool \<Rightarrow> bool \<Rightarrow> bool \<Rightarrow> 8 word list \<Rightarrow> 'f \<Rightarrow> bool \<times> metadata option \<times> 8 word list \<times> 'f" where
  "boot x board_recognized force_stay dfu_requested buf f =
    (let (mdo, buf, f) = (if board_recognized \<and> \<not> force_stay
                          then snd (install_staged_image_if_ready x None buf f) else (None, buf, f)) in
     if board_recognized \<and> \<not> force_stay \<and> \<not> dfu_requested
     then let md = get_instance (xpi_flash x) mdo f in (validate_app_image (xpi_flash x) md f, Some md, buf, f)
     else (False, mdo, buf, f))"

section \<open>Valid images\<close>

definition valid_image :: "8 word list \<Rightarrow> bool" where
  "valid_image img = (36 < length img \<and> length img \<le> 0x1E0000 \<and> get32 img 0 = BOARD_UF2_SIGNATURE
     \<and> get32 img (length img - 36) = kImageHashMagic \<and> drop (length img - 32) img = fips_sha256 (take (length img - 36) img))"

lemma fl_word_read: "off + 4 \<le> n \<Longrightarrow> fl_word fl a off f = get32 (fl_read fl (unat a) n f) off"
  by (simp add: fl_word_def get32_def byte_at_def fl_read_def add.assoc)

lemma fl_read_part: "off + n \<le> m \<Longrightarrow> fl_read fl (a + off) n f = take n (drop off (fl_read fl a m f))"
  by (rule nth_equalityI) (auto simp: fl_read_def add.assoc)

lemma validate_image_at_iff:
  assumes img: "fl_read fl (unat a) (unat sz) f = img" and hi: "unat a + unat sz < 2 ^ 32"
  shows "validate_image_at fl a sz 0x1E0000 f = valid_image img"
proof -
  have n: "length img = unat sz" using img by (auto simp: fl_read_def)
  show ?thesis
  proof (cases "36 < unat sz \<and> unat sz \<le> 0x1E0000")
    case False
    then have "\<not> validate_image_at fl a sz 0x1E0000 f"
      by (auto simp: validate_image_at_def validate_image_hash_def word_le_nat_alt word_less_nat_alt)
    moreover have "\<not> valid_image img" using False n by (auto simp: valid_image_def)
    ultimately show ?thesis by simp
  next
    case True
    have s: "unat (sz - 36) = unat sz - 36" using True by (simp add: unat_sub word_le_nat_alt)
    have "unat (a + sz) = unat a + unat sz" using hi by (simp add: unat_plus_if')
    then have p: "unat (a + sz - 36) = unat a + (unat sz - 36)" using True by (simp add: unat_sub word_le_nat_alt)
    have "fl_word fl (a + sz - 36) 0 f = fl_word fl a (unat sz - 36) f" by (simp add: fl_word_def p)
    then have m: "fl_word fl (a + sz - 36) 0 f = get32 img (length img - 36)"
      using True fl_word_read[of "unat sz - 36" "unat sz" fl a f] img n by simp
    have g: "fl_word fl a 0 f = get32 img 0" using fl_word_read[of 0 "unat sz" fl a f] True img by simp
    have e: "fl_read fl (unat (a + sz - 36) + 4) 32 f = drop (length img - 32) img"
      using fl_read_part[of "unat sz - 32" 32 "unat sz" fl "unat a" f] True img n p by simp
    have h: "compute_image_sha256 fl a (sz - 36) f = fips_sha256 (take (length img - 36) img)"
      using fl_read_part[of 0 "unat sz - 36" "unat sz" fl "unat a" f] True img n s
        sha256_chunks[of "[take (length img - 36) img]"] by (simp add: compute_image_sha256_def)
    show ?thesis using True n m g e h
      by (auto simp: validate_image_at_def validate_image_hash_def has_valid_signature_at_def valid_image_def
          word_le_nat_alt word_less_nat_alt Let_def)
  qed
qed

section \<open>Copying\<close>

lemma copy_blocks_feeds:
  assumes nor: "nor_ok fl" and "writer_inv fl (take offset img) w f" "staged fl img f" "length img \<le> 0x1E0000"
    "copy_blocks fl 4096 (length img) offset w f = (ok, w', g)"
  shows "same_outside fl 0x80020000 0x80200000 f g \<and> length (sector_buffer w') = 4096 \<and> (nor_works fl \<longrightarrow> ok)
    \<and> (ok \<longrightarrow> writer_inv fl img w' g)"
  using assms(2-)
proof (induction "length img - offset" arbitrary: offset w f rule: less_induct)
  case less
  show ?case
  proof (cases "offset < length img")
    case False
    then have "ok" "w' = w" "g = f" using less.prems(4) by (simp_all add: copy_blocks.simps)
    then show ?thesis using less.prems(1) False writer_inv_buffer[OF less.prems(1)] by simp
  next
    case True
    define c where "c = min 1024 (length img - offset)"
    have c: "0 < c" "offset + c \<le> length img" using True by (auto simp: c_def)
    have rd: "fl_read fl (0x80211000 + offset) c f = take c (drop offset img)"
      using fl_read_part[of offset c "length img" fl "0x80211000" f] c less.prems(2) by (simp add: staged_def)
    obtain ok1 w1 h where p: "Writer_write fl 4096 (kAppStartAddress + of_nat offset) (take c (drop offset img)) w f = (ok1, w1, h)"
      by (metis prod_cases3)
    have ne: "take c (drop offset img) \<noteq> []" using c by auto
    have W: "same_outside fl 0x80020000 0x80200000 f h \<and> length (sector_buffer w1) = 4096 \<and> (nor_works fl \<longrightarrow> ok1)
        \<and> (ok1 \<longrightarrow> writer_inv fl (take offset img @ take c (drop offset img)) w1 h)"
      by (rule Writer_write_feeds[OF nor less.prems(1) ne _ _ p]) (use c less.prems(3) in auto)
    have tk: "take offset img @ take c (drop offset img) = take (offset + 1024) img"
      by (cases "1024 \<le> length img - offset") (auto simp: c_def take_add)
    show ?thesis
    proof (cases ok1)
      case no: False
      then show ?thesis using W p less.prems(4) True rd
        by (auto simp: copy_blocks.simps[of fl 4096 _ offset] Writer_abort_session_def clear_active_sector_def simp flip: c_def)
    next
      case yes: True
      have "copy_blocks fl 4096 (length img) (offset + 1024) w1 h = (ok, w', g)"
        using less.prems(4) p rd True yes by (simp add: copy_blocks.simps[of fl 4096 _ offset] flip: c_def)
      moreover have "staged fl img h"
        using W less.prems(2) fl_read_outside[of fl "0x80020000" "0x80200000" f h "0x80211000"] by (simp add: staged_def)
      moreover have "writer_inv fl (take (offset + 1024) img) w1 h" using W yes by (simp only: tk)
      ultimately have "same_outside fl 0x80020000 0x80200000 h g \<and> length (sector_buffer w') = 4096 \<and> (nor_works fl \<longrightarrow> ok)
          \<and> (ok \<longrightarrow> writer_inv fl img w' g)"
        using less.hyps[of "offset + 1024" w1 h] True less.prems(3) by simp
      then show ?thesis using W by (auto intro: same_outside_trans)
    qed
  qed
qed

section \<open>Installing\<close>

text \<open>What a reset finds: a slot that holds the image and a ready record of its size.\<close>

definition installed :: "'f flash_ops \<Rightarrow> 8 word list \<Rightarrow> 'f \<Rightarrow> bool" where
  "installed fl img f = (fl_read fl 0x80020000 (length img) f = img
     \<and> md_is_ready (scan_latest_valid_slot fl f) \<and> unat (md_image_size fl (scan_latest_valid_slot fl f) f) = length img)"

lemma installed_boots:
  assumes "installed fl img f" "valid_image img" shows "validate_app_image fl (scan_latest_valid_slot fl f) f"
proof -
  let ?md = "scan_latest_valid_slot fl f"
  have s: "unat (md_image_size fl ?md f) = length img" using assms(1) by (simp add: installed_def)
  have "validate_image_at fl kAppStartAddress (md_image_size fl ?md f) 0x1E0000 f = valid_image img"
    by (rule validate_image_at_iff) (use assms s in \<open>simp_all add: installed_def valid_image_def\<close>)
  then show ?thesis using assms by (simp add: validate_app_image_def validate_candidate_image_def installed_def)
qed

lemma image_ready_outside:
  assumes "image_ready fl img f" "same_outside fl a b f g" "b \<le> 0x80210000" "length img \<le> 0x1E0000"
  shows "image_ready fl img g"
proof -
  have "fl_word fl kStagingMetadataStart off g = fl_word fl kStagingMetadataStart off f" for off
    by (rule fl_word_outside[OF assms(2)]) (use assms(3) in simp)
  moreover have "fl_read fl 0x80211000 (length img) g = fl_read fl 0x80211000 (length img) f"
    by (rule fl_read_outside[OF assms(2)]) (use assms(3) in simp)
  ultimately show ?thesis using assms(1)
    by (simp add: image_ready_def staging_record_is_ready_def staging_record_of_def staged_def)
qed

lemma clear_staging_outside:
  "nor_ok fl \<Longrightarrow> same_outside fl 0x80210000 0x80211000 f (snd (clear_staging_record fl f))"
  using nor_erase(2)[of fl kStagingMetadataStart f] by (cases "fl_erase fl kStagingMetadataStart f")
    (auto simp: clear_staging_record_def same_outside_def)

lemma found_outside:
  assumes "found fl f 256 md" "same_outside fl a b f g" "0x80020000 \<le> a"
  shows "found fl g 256 md"
proof -
  have r: "read_state fl (data_slot_at k) g = read_state fl (data_slot_at k) f" if "k < 256" for k
    by (rule read_state_cong) (use assms(2,3) that in \<open>simp add: same_outside_def unat_slot\<close>)
  have s: "slots_are fl i j st g = slots_are fl i j st f" if "j \<le> 256" for i j st
    using r that by (auto simp: slots_are_def)
  show ?thesis using assms(1) by cases (use r s in \<open>auto simp: found.simps\<close>)
qed

lemma installed_outside:
  assumes "installed fl img f" "same_outside fl 0x80210000 0x80211000 f g" "length img \<le> 0x1E0000"
  shows "installed fl img g"
proof -
  have "scan_latest_valid_slot fl f \<noteq> md_none" using assms(1) by (auto simp: installed_def md_is_ready_def)
  then have fd: "found fl f 256 (scan_latest_valid_slot fl f)" using scan_found[of fl f] by simp
  then obtain k where k: "k < 256" "scan_latest_valid_slot fl f = md_of k (latest_valid_slot_state (scan_latest_valid_slot fl f))"
    using found_slot[OF fd] by (elim exE conjE)
  have "found fl g 256 (scan_latest_valid_slot fl f)" by (rule found_outside[OF fd assms(2)]) simp
  from scan_of[OF this] have s: "scan_latest_valid_slot fl g = scan_latest_valid_slot fl f" .
  have "fl_word fl (data_slot_at k) 8 g = fl_word fl (data_slot_at k) 8 f"
    by (rule fl_word_outside[OF assms(2)]) (use k(1) in \<open>simp add: unat_slot\<close>)
  then have "md_image_size fl (scan_latest_valid_slot fl f) g = md_image_size fl (scan_latest_valid_slot fl f) f"
    using k(2) by (metis md_image_size_def md_of_def metadata.select_convs(1) option.simps(5) slot_address_def)
  then show ?thesis using assms(1,3) fl_read_outside[OF assms(2), of "0x80020000" "length img"] s
    by (simp add: installed_def)
qed

text \<open>The cells the bootloader never writes: itself, the EEPROM emulation, the staged image.\<close>

definition kept :: "'f flash_ops \<Rightarrow> 'f \<Rightarrow> 'f \<Rightarrow> bool" where
  "kept fl f g = (\<forall>a. a < 0x8001F000 \<or> 0x80200000 \<le> a \<and> a < 0x80210000 \<or> 0x80211000 \<le> a \<longrightarrow> fl_cells fl g a = fl_cells fl f a)"

lemma kept_refl [simp]: "kept fl f f"
  by (simp add: kept_def)

lemma kept_trans: "kept fl f g \<Longrightarrow> kept fl g h \<Longrightarrow> kept fl f h"
  by (simp add: kept_def)

lemma kept_app: "same_outside fl a b f g \<Longrightarrow> 0x8001F000 \<le> a \<Longrightarrow> b \<le> 0x80200000 \<Longrightarrow> kept fl f g"
  by (auto simp: kept_def same_outside_def)

lemma kept_staging: "same_outside fl 0x80210000 0x80211000 f g \<Longrightarrow> kept fl f g"
  by (auto simp: kept_def same_outside_def)

text \<open>An installation from a committed, valid image.  If it stops early, for whatever failure of the
  flash, only the metadata sector and the application slot were touched, so the image is still
  there; if it succeeds, the image is installed.\<close>

lemma installed_after_commit:
  assumes "found fl f 256 md" "md_is_ready md" "md_image_size fl md f = sz" "fl_read fl 0x80020000 (unat sz) f = img"
  shows "installed fl img f"
proof -
  have "length img = unat sz" using assms(4) by (auto simp: fl_read_def)
  then show ?thesis using assms scan_of[OF assms(1)] by (simp add: installed_def)
qed

lemma install_outcomes:
  assumes nor: "nor_ok (xpi_flash x)" and x: "nor_available x" "nor_sector_size x = 4096" and buf: "length buf = 4096"
    and md: "get_instance (xpi_flash x) mdo f = scan_latest_valid_slot (xpi_flash x) f"
    and img: "image_ready (xpi_flash x) img f" "valid_image img"
    and e: "install_staged_image_if_ready x mdo buf f = (ok, mdo', buf', g)"
  shows "length buf' = 4096 \<and> (nor_works (xpi_flash x) \<longrightarrow> ok)
    \<and> (\<not> ok \<longrightarrow> same_outside (xpi_flash x) 0x8001F000 0x80200000 f g)
    \<and> (ok \<longrightarrow> installed (xpi_flash x) img g \<and> mdo' = Some (scan_latest_valid_slot (xpi_flash x) g))
    \<and> kept (xpi_flash x) f g \<and> (\<exists>md. mdo' = Some md \<and> md_in_sector md)"
proof -
  let ?fl = "xpi_flash x"
  define sz where "sz = image_size (staging_record_of ?fl f)"
  have sz: "unat sz = length img" "length img \<le> 0x1E0000" "staging_record_is_ready ?fl kStagingMaxImageSize f"
    using img by (simp_all add: image_ready_def valid_image_def sz_def)
  have st: "staged ?fl img f" using img(1) by (simp add: image_ready_def)
  have val: "validate_image_at ?fl kStagingImageStart sz kStagingMaxImageSize f"
    using validate_image_at_iff[of ?fl kStagingImageStart sz f img] st sz img(2) by (simp add: staged_def)
  obtain ok1 md1 f1 where b: "begin_flashing ?fl (scan_latest_valid_slot ?fl f) f = (ok1, md1, f1)" by (metis prod_cases3)
  note B = begin_flashing_found[OF nor refl b]
  have m1: "md_in_sector md1" using begin_flashing_outside[OF nor scan_in_sector b] by simp
  have o1: "same_outside ?fl 0x8001F000 0x80200000 f f1" by (rule same_outside_mono[of _ "0x8001F000" "0x80020000"]) (use B in auto)
  define w0 where "w0 = Writer_begin_session (new_writer buf)"
  obtain ok2 w2 f2 where c: "copy_blocks ?fl 4096 (length img) 0 w0 f1 = (ok2, w2, f2)" by (metis prod_cases3)
  have st1: "staged ?fl img f1" using st fl_read_outside[OF o1, of "0x80211000" "length img"] by (simp add: staged_def)
  have "writer_inv ?fl (take 0 img) w0 f1"
    using writer_inv_start[of "new_writer buf" ?fl f1] buf by (simp add: w0_def Writer_begin_session_def new_writer_def)
  note C = copy_blocks_feeds[OF nor this st1 sz(2) c]
  have o2: "same_outside ?fl 0x8001F000 0x80200000 f f2"
    by (rule same_outside_trans[OF o1], rule same_outside_mono[of _ "0x80020000" "0x80200000"]) (use C in auto)
  obtain ok3 w3 f3 where d: "Writer_finish_session ?fl w2 f2 = (ok3, w3, f3)" by (metis prod_cases3)
  obtain ok4 md4 f4 where e4: "finish_flashing ?fl sz md1 f3 = (ok4, md4, f4)" by (metis prod_cases3)
  have r: "(ok, mdo', buf', g) = (if \<not> ok1 then (False, Some md1, buf, f1) else if \<not> ok2 then (False, Some md1, sector_buffer w2, f2)
      else if \<not> ok3 then (False, Some md1, sector_buffer w3, f3) else if \<not> ok4 then (False, Some md4, sector_buffer w3, f4)
      else if \<not> validate_candidate_image ?fl sz f4 then (False, Some md4, sector_buffer w3, f4)
      else (True, Some md4, sector_buffer w3, snd (clear_staging_record ?fl f4)))"
    using e[symmetric] x val sz(1,3) b c d e4
    by (simp add: install_staged_image_if_ready_def md flip: sz_def w0_def)
  show ?thesis
  proof (cases "ok1 \<and> ok2")
    case False
    then have "\<not> ok \<and> mdo' = Some md1 \<and> (\<not> ok1 \<and> buf' = buf \<and> g = f1 \<or> ok1 \<and> buf' = sector_buffer w2 \<and> g = f2)" using r by (cases ok1) simp_all
    moreover have "kept ?fl f f1" "kept ?fl f f2" by (rule kept_app[OF o1] kept_app[OF o2]; simp)+
    ultimately show ?thesis using False B C buf o1 o2 m1 by auto
  next
    case True
    then have wi: "writer_inv ?fl img w2 f2" and ok1: ok1 ok2 using C by auto
    note D = finish_session_flushes[OF nor wi d]
    have o3': "same_outside ?fl 0x80020000 0x80200000 f1 f3" using C D by (auto intro: same_outside_trans)
    have o3: "same_outside ?fl 0x8001F000 0x80200000 f f3"
      by (rule same_outside_trans[OF o1], rule same_outside_mono[OF o3']) auto
    have f3: "found ?fl f3 256 md1" using B ok1 o3' by (auto intro: found_outside)
    note E = finish_flashing_found[OF nor f3 _ e4]
    have E': "same_outside ?fl 0x8001F000 0x80020000 f3 f4
      \<and> (ok4 \<longrightarrow> md_is_ready md4 \<and> found ?fl f4 256 md4 \<and> md_image_size ?fl md4 f4 = sz) \<and> (nor_works ?fl \<longrightarrow> ok4)"
      using E B ok1 sz(1,2) by (auto simp: word_le_nat_alt)
    have o4: "same_outside ?fl 0x8001F000 0x80200000 f f4"
      by (rule same_outside_trans[OF o3], rule same_outside_mono[of _ "0x8001F000" "0x80020000"]) (use E' in auto)
    have app: "fl_read ?fl 0x80020000 (length img) f4 = img" if ok3
      using D that fl_read_outside[of ?fl "0x8001F000" "0x80020000" f3 f4 "0x80020000" "length img"] E' by simp
    have cand: "validate_candidate_image ?fl sz f4" if ok3
      using validate_image_at_iff[of ?fl kAppStartAddress sz f4 img] app[OF that] sz img(2) by (simp add: validate_candidate_image_def)
    have fin: "installed ?fl img g \<and> mdo' = Some (scan_latest_valid_slot ?fl g)" if ok
    proof -
      have k: ok3 ok4 "g = snd (clear_staging_record ?fl f4)" "mdo' = Some md4" using r that by (auto split: if_splits)
      have i4: "installed ?fl img f4"
        by (rule installed_after_commit[of ?fl f4 md4 sz]) (use E' k app sz(1) in auto)
      have cl: "same_outside ?fl 0x80210000 0x80211000 f4 g" using clear_staging_outside[OF nor] k(3) by simp
      have fg: "found ?fl g 256 md4" by (rule found_outside[OF _ cl]) (use E' k in auto)
      show ?thesis using installed_outside[OF i4 cl sz(2)] scan_of[OF fg] k(4) by simp
    qed
    have m4: "md_in_sector md4" using finish_flashing_outside[OF nor m1 e4] by simp
    have "\<not> ok3 \<and> \<not> ok \<and> g = f3 \<and> mdo' = Some md1 \<or> ok3 \<and> \<not> ok4 \<and> \<not> ok \<and> g = f4 \<and> mdo' = Some md4
        \<or> ok3 \<and> ok4 \<and> ok \<and> g = snd (clear_staging_record ?fl f4) \<and> mdo' = Some md4" "buf' = sector_buffer w3"
      using r ok1 cand by (cases ok3; cases ok4; simp)+
    moreover have "kept ?fl f f3" "kept ?fl f f4" by (rule kept_app[OF o3] kept_app[OF o4]; simp)+
    moreover have "kept ?fl f (snd (clear_staging_record ?fl f4))"
      using \<open>kept ?fl f f4\<close> kept_staging[OF clear_staging_outside[OF nor]] by (rule kept_trans)
    ultimately show ?thesis using D E' o3 o4 fin m1 m4 by auto
  qed
qed

text \<open>Whatever a reset finds in the staging region, the installation keeps away from the rest of
  the chip.\<close>

lemma install_keeps:
  assumes nor: "nor_ok (xpi_flash x)" and x: "nor_available x \<Longrightarrow> nor_sector_size x = 4096" and buf: "length buf = 4096"
    and e: "install_staged_image_if_ready x None buf f = (ok, mdo, buf', g)"
  shows "kept (xpi_flash x) f g \<and> length buf' = 4096 \<and> (\<forall>md. mdo = Some md \<longrightarrow> md_in_sector md)
    \<and> (ok \<longrightarrow> (\<exists>img. image_ready (xpi_flash x) img f \<and> valid_image img \<and> installed (xpi_flash x) img g
        \<and> mdo = Some (scan_latest_valid_slot (xpi_flash x) g)))"
proof -
  let ?fl = "xpi_flash x"
  define sz where "sz = image_size (staging_record_of ?fl f)"
  define img where "img = fl_read ?fl 0x80211000 (unat sz) f"
  show ?thesis
  proof (cases "nor_available x \<and> staging_record_is_ready ?fl kStagingMaxImageSize f")
    case False
    then have "ok = False" "mdo = None" "buf' = buf" "g = f"
      using e by (cases "nor_available x"; simp add: install_staged_image_if_ready_def)+
    then show ?thesis using buf by simp
  next
    case True
    have "sz \<le> 0x1E0000" using True by (simp add: staging_record_is_ready_def Let_def sz_def)
    then have le: "unat sz \<le> 0x1E0000" by (simp add: word_le_nat_alt)
    have v: "validate_image_at ?fl kStagingImageStart sz kStagingMaxImageSize f = valid_image img"
      using validate_image_at_iff[of ?fl kStagingImageStart sz f img] le by (simp add: img_def)
    show ?thesis
    proof (cases "valid_image img")
      case False
      then have "ok = False" "mdo = None" "buf' = buf" "g = snd (clear_staging_record ?fl f)"
        using e True v by (auto simp: install_staged_image_if_ready_def Let_def sz_def)
      then show ?thesis using buf kept_staging[OF clear_staging_outside[OF nor]] by simp
    next
      case val: True
      have "length img = unat sz" by (simp add: img_def fl_read_def)
      then have "image_ready ?fl img f" using True by (simp add: image_ready_def staged_def img_def sz_def)
      from install_outcomes[OF nor _ x buf _ this val e] True show ?thesis
        using val \<open>image_ready ?fl img f\<close> by (auto simp: get_instance_def)
    qed
  qed
qed

end
