(* ===== verification/BootDfu.thy ===== *)
theory BootDfu
  imports BootInstall
begin

text \<open>
  The DFU session of the bootloader, \<open>bootloader/src/usb/dfu.hpp\<close>, and the identity of the board it
  asks first, \<open>common/board_identity.hpp\<close>.  TinyUSB, which calls \<open>download\<close>, \<open>manifest\<close> and \<open>abort\<close>,
  is outside; its status codes are named as in its header.
\<close>

unbundle bit_operations_syntax

section \<open>board\_identity.hpp\<close>

datatype BoardVariant = kSingleCan | kDualCanFd | kFixed | kUnknown

definition read_board_identity :: "bool \<Rightarrow> 32 word \<Rightarrow> BoardVariant" where
  "read_board_identity kOtpIdentityEnabled otp_word =
    (if \<not> kOtpIdentityEnabled then kFixed
     else if otp_word = 0 then kSingleCan
     else if otp_word = 2 then kDualCanFd
     else kUnknown)"

definition recognized :: "BoardVariant \<Rightarrow> bool" where
  "recognized v = (v \<noteq> kUnknown)"

section \<open>dfu.hpp\<close>

datatype dfu_status = DFU_STATUS_OK | DFU_STATUS_ERR_TARGET | DFU_STATUS_ERR_WRITE | DFU_STATUS_ERR_ERASE
  | DFU_STATUS_ERR_PROG | DFU_STATUS_ERR_VERIFY | DFU_STATUS_ERR_ADDRESS | DFU_STATUS_ERR_NOTDONE
  | DFU_STATUS_ERR_FIRMWARE | DFU_STATUS_ERR_UNKNOWN

datatype dfu_state = DFU_DNBUSY | DFU_MANIFEST | DFU_OTHER_STATE

text \<open>The state of the device: the object \<open>Dfu\<close>, the instance of \<open>Metadata\<close> once it exists, and the
  chip.\<close>

record 'f dfu =
  flash_writer :: writer
  expected_block :: "16 word"
  downloaded_size :: "32 word"
  session_started :: bool
  reset_requested :: bool
  reset_requested_tick :: "64 word"
  instance_md :: "metadata option"
  chip :: 'f

definition reset_transfer_state :: "'f dfu \<Rightarrow> 'f dfu" where
  "reset_transfer_state d = d\<lparr>flash_writer := Writer_abort_session (flash_writer d), expected_block := 0,
     downloaded_size := 0, session_started := False\<rparr>"

definition fail :: "dfu_status \<Rightarrow> 'f dfu \<Rightarrow> dfu_status \<times> 'f dfu" where
  "fail status d = (status, reset_transfer_state d)"

definition get_timeout_ms :: "8 word \<Rightarrow> dfu_state \<Rightarrow> 'f dfu \<Rightarrow> 32 word" where
  "get_timeout_ms alt st d =
    (if alt \<noteq> 0 then 0
     else if st = DFU_DNBUSY
     then if \<not> session_started d then 100
          else let sector_offset = downloaded_size d mod kFlashSectorSize in
               if sector_offset + 1024 \<ge> kFlashSectorSize then 100 else 1
     else if st = DFU_MANIFEST then 250 else 0)"

text \<open>Opening a session; the check of the block number and of the range, then the write.\<close>

definition open_session :: "'f xpi_nor \<Rightarrow> 16 word \<Rightarrow> 'f dfu \<Rightarrow> (dfu_status \<times> 'f dfu) + 'f dfu" where
  "open_session x block_num d =
    (if session_started d then Inr d
     else if block_num \<noteq> 0 then Inl (DFU_STATUS_ERR_ADDRESS, d)
     else let d = d\<lparr>flash_writer := Writer_begin_session (flash_writer d)\<rparr>;
              (ok, md, f) = begin_flashing (xpi_flash x) (get_instance (xpi_flash x) (instance_md d) (chip d)) (chip d);
              d = d\<lparr>instance_md := Some md, chip := f\<rparr> in
          if \<not> ok then Inl (fail DFU_STATUS_ERR_ERASE d)
          else Inr (d\<lparr>session_started := True, expected_block := 0, downloaded_size := 0, reset_requested := False\<rparr>))"

definition store_block :: "'f xpi_nor \<Rightarrow> 16 word \<Rightarrow> 8 word list option \<Rightarrow> 16 word \<Rightarrow> 'f dfu \<Rightarrow> dfu_status \<times> 'f dfu" where
  "store_block x block_num dat len d =
    (if block_num \<noteq> expected_block d then fail DFU_STATUS_ERR_ADDRESS d
     else let write_address = unat kAppStartAddress + unat (downloaded_size d);
              write_end = write_address + unat len;
              downloaded = unat (downloaded_size d) + unat len in
     if unat kAppEndAddress \<le> write_address then fail DFU_STATUS_ERR_ADDRESS d
     else if write_end > unat kAppEndAddress then fail DFU_STATUS_ERR_ADDRESS d
     else if downloaded > unat kAppMaxImageSize then fail DFU_STATUS_ERR_ADDRESS d
     else case dat of
       None \<Rightarrow> fail DFU_STATUS_ERR_UNKNOWN d
     | Some bs \<Rightarrow>
         let (ok, w, f) = Writer_write (xpi_flash x) (nor_sector_size x) (of_nat write_address) (take (unat len) bs)
                            (flash_writer d) (chip d);
             d = d\<lparr>flash_writer := w, chip := f\<rparr> in
         if \<not> ok then fail DFU_STATUS_ERR_PROG d
         else (DFU_STATUS_OK, d\<lparr>downloaded_size := of_nat downloaded, expected_block := expected_block d + 1\<rparr>))"

definition download :: "'f xpi_nor \<Rightarrow> bool \<Rightarrow> 8 word \<Rightarrow> 16 word \<Rightarrow> 8 word list option \<Rightarrow> 16 word \<Rightarrow> 'f dfu
    \<Rightarrow> dfu_status \<times> 'f dfu" where
  "download x board_recognized alt block_num dat len d =
    (if alt \<noteq> 0 then (DFU_STATUS_ERR_TARGET, d)
     else if \<not> board_recognized then (DFU_STATUS_ERR_TARGET, d)
     else if len = 0 then (DFU_STATUS_ERR_NOTDONE, d)
     else let d = (if session_started d \<and> block_num = 0 then reset_transfer_state d else d) in
          case open_session x block_num d of
            Inl r \<Rightarrow> r
          | Inr d \<Rightarrow> store_block x block_num dat len d)"

definition manifest :: "'f xpi_nor \<Rightarrow> 64 word \<Rightarrow> 8 word \<Rightarrow> 'f dfu \<Rightarrow> dfu_status \<times> 'f dfu" where
  "manifest x now alt d =
    (let fl = xpi_flash x in
     if alt \<noteq> 0 then (DFU_STATUS_ERR_TARGET, d)
     else if \<not> session_started d \<or> downloaded_size d = 0 then (DFU_STATUS_ERR_NOTDONE, d)
     else let (ok, w, f) = Writer_finish_session fl (flash_writer d) (chip d);
              d = d\<lparr>flash_writer := w, chip := f\<rparr> in
     if \<not> ok then fail DFU_STATUS_ERR_PROG d
     else if \<not> validate_candidate_image fl (downloaded_size d) (chip d) then fail DFU_STATUS_ERR_FIRMWARE d
     else let (ok, md, f) = finish_flashing fl (downloaded_size d) (get_instance fl (instance_md d) (chip d)) (chip d);
              d = d\<lparr>instance_md := Some md, chip := f\<rparr> in
     if \<not> ok then fail DFU_STATUS_ERR_WRITE d
     else if \<not> md_is_ready md \<or> md_image_size fl md (chip d) \<noteq> downloaded_size d then fail DFU_STATUS_ERR_VERIFY d
     else (DFU_STATUS_OK, (reset_transfer_state d)\<lparr>reset_requested := True, reset_requested_tick := now\<rparr>))"

definition dfu_abort :: "8 word \<Rightarrow> 'f dfu \<Rightarrow> 'f dfu" where
  "dfu_abort alt d = (if alt \<noteq> 0 then d else reset_transfer_state d)"

text \<open>Whether \<open>poll\<close> resets the device, at a tick and a timer frequency.\<close>

definition poll_resets :: "64 word \<Rightarrow> 32 word \<Rightarrow> 'f dfu \<Rightarrow> bool" where
  "poll_resets now frequency d =
    (reset_requested d \<and> \<not> now - reset_requested_tick d < ucast frequency * 1500 div 1000)"

definition Dfu_new :: "8 word list \<Rightarrow> metadata option \<Rightarrow> 'f \<Rightarrow> 'f dfu" where
  "Dfu_new buf mdo f = \<lparr>flash_writer = new_writer buf, expected_block = 0, downloaded_size = 0, session_started = False,
     reset_requested = False, reset_requested_tick = 0, instance_md = mdo, chip = f\<rparr>"

section \<open>What stays untouched\<close>

text \<open>A session holds the bytes it has stored.\<close>

definition dfu_holds :: "'f flash_ops \<Rightarrow> 8 word list \<Rightarrow> 'f dfu \<Rightarrow> bool" where
  "dfu_holds fl fed d = (writer_inv fl fed (flash_writer d) (chip d) \<and> unat (downloaded_size d) = length fed)"

definition dfu_ok :: "'f flash_ops \<Rightarrow> 'f dfu \<Rightarrow> bool" where
  "dfu_ok fl d = (length (sector_buffer (flash_writer d)) = 4096
     \<and> (session_started d \<longrightarrow> (\<exists>fed. dfu_holds fl fed d))
     \<and> (\<forall>md. instance_md d = Some md \<longrightarrow> md_in_sector md))"

lemma reset_ok: "dfu_ok fl d \<Longrightarrow> dfu_ok fl (reset_transfer_state d) \<and> chip (reset_transfer_state d) = chip d
    \<and> instance_md (reset_transfer_state d) = instance_md d"
  by (simp add: dfu_ok_def reset_transfer_state_def Writer_abort_session_def clear_active_sector_def)

lemma instance_in_sector: "dfu_ok fl d \<Longrightarrow> md_in_sector (get_instance fl (instance_md d) f)"
  using scan_in_sector by (auto simp: dfu_ok_def get_instance_def split: option.splits)

lemma open_session_ok:
  assumes nor: "nor_ok (xpi_flash x)" and d: "dfu_ok (xpi_flash x) d" and e: "open_session x n d = r"
  shows "case r of Inl (st, d') \<Rightarrow> dfu_ok (xpi_flash x) d' \<and> kept (xpi_flash x) (chip d) (chip d') \<and> st \<noteq> DFU_STATUS_OK
    | Inr d' \<Rightarrow> dfu_ok (xpi_flash x) d' \<and> kept (xpi_flash x) (chip d) (chip d') \<and> session_started d'"
proof (cases "session_started d \<or> n \<noteq> 0")
  case True
  then show ?thesis using e[symmetric] d by (auto simp: open_session_def)
next
  case False
  let ?fl = "xpi_flash x"
  let ?w = "Writer_begin_session (flash_writer d)"
  obtain ok md f where b: "begin_flashing ?fl (get_instance ?fl (instance_md d) (chip d)) (chip d) = (ok, md, f)" by (metis prod_cases3)
  have B: "same_outside ?fl 0x8001F000 0x80020000 (chip d) f \<and> md_in_sector md"
    by (rule begin_flashing_outside[OF nor _ b]) (rule instance_in_sector[OF d])
  have len: "length (sector_buffer (flash_writer d)) = 4096" using d by (simp add: dfu_ok_def)
  have "writer_inv ?fl [] ?w f"
    using writer_inv_start[OF len] by (simp add: Writer_begin_session_def)
  then have "dfu_ok ?fl (d\<lparr>flash_writer := ?w, instance_md := Some md, chip := f, session_started := True, expected_block := 0,
      downloaded_size := 0, reset_requested := False\<rparr>)"
    using B writer_inv_buffer[of ?fl "[]" ?w f] by (auto simp: dfu_ok_def dfu_holds_def)
  moreover have "kept ?fl (chip d) f" by (rule kept_app) (use B in auto)
  moreover have "dfu_ok ?fl (reset_transfer_state (d\<lparr>flash_writer := ?w, instance_md := Some md, chip := f\<rparr>))"
    using B len by (simp add: dfu_ok_def reset_transfer_state_def Writer_abort_session_def Writer_begin_session_def clear_active_sector_def)
  ultimately show ?thesis
    using e[symmetric] False b by (cases ok) (simp_all add: open_session_def fail_def reset_transfer_state_def Let_def)
qed

lemma store_block_ok:
  assumes nor: "nor_ok (xpi_flash x)" and x: "nor_sector_size x = 4096" and d: "dfu_ok (xpi_flash x) d" "dfu_holds (xpi_flash x) fed d"
    and dat: "\<forall>bs. dat = Some bs \<longrightarrow> length bs = unat len" "len \<noteq> 0"
    and e: "store_block x n dat len d = (st, d')"
  shows "kept (xpi_flash x) (chip d) (chip d') \<and> same_outside (xpi_flash x) 0x80020000 0x80200000 (chip d) (chip d') \<and> dfu_ok (xpi_flash x) d'
    \<and> instance_md d' = instance_md d
    \<and> (st = DFU_STATUS_OK \<longrightarrow> (\<exists>bs. dat = Some bs \<and> dfu_holds (xpi_flash x) (fed @ bs) d') \<and> n = expected_block d
        \<and> expected_block d' = n + 1 \<and> session_started d' = session_started d)"
proof (cases "st = DFU_STATUS_OK \<or> chip d' \<noteq> chip d \<or> instance_md d' \<noteq> instance_md d \<or> \<not> dfu_ok (xpi_flash x) d'")
  case False
  then show ?thesis by simp
next
  case True
  let ?fl = "xpi_flash x"
  have f: "fail s d = (st, d') \<Longrightarrow> s \<noteq> DFU_STATUS_OK \<Longrightarrow> False" for s
    using True reset_ok[OF d(1)] by (auto simp: fail_def)
  obtain bs where bs: "dat = Some bs" "n = expected_block d" "unat (downloaded_size d) + unat len \<le> 0x1E0000"
    using e f by (auto simp: store_block_def Let_def split: if_splits option.splits dest: sym)
  have len: "length bs = unat len" "bs \<noteq> []" using dat bs by (auto simp: unat_eq_0)
  have h: "writer_inv ?fl fed (flash_writer d) (chip d)" "unat (downloaded_size d) = length fed" using d(2) by (auto simp: dfu_holds_def)
  define a :: "32 word" where "a = of_nat (0x80020000 + length fed)"
  obtain ok w g where w: "Writer_write ?fl 4096 a bs (flash_writer d) (chip d) = (ok, w, g)" by (metis prod_cases3)
  have W: "same_outside ?fl 0x80020000 0x80200000 (chip d) g \<and> length (sector_buffer w) = 4096 \<and> (nor_works ?fl \<longrightarrow> ok)
      \<and> (ok \<longrightarrow> writer_inv ?fl (fed @ bs) w g)"
    by (rule Writer_write_feeds[OF nor h(1) len(2) _ _ w]) (use bs(3) h(2) len in \<open>simp_all add: a_def\<close>)
  have r: "(st, d') = (if \<not> ok then fail DFU_STATUS_ERR_PROG (d\<lparr>flash_writer := w, chip := g\<rparr>)
      else (DFU_STATUS_OK, d\<lparr>flash_writer := w, chip := g, downloaded_size := of_nat (length fed + length bs), expected_block := n + 1\<rparr>))"
    using e[symmetric] bs w len h(2) f by (auto simp: store_block_def Let_def x a_def split: if_splits)
  have k: "kept ?fl (chip d) g" by (rule kept_app) (use W in auto)
  have u: "unat (of_nat (length fed + length bs) :: 32 word) = length fed + length bs"
    using bs(3) h(2) len(1) by (intro unat_of_nat_small32) simp
  show ?thesis
  proof (cases ok)
    case True
    then have "dfu_holds ?fl (fed @ bs) d'" using r W u by (simp add: dfu_holds_def)
    moreover have "dfu_ok ?fl d'" using calculation r True W d(1) by (auto simp: dfu_ok_def)
    ultimately show ?thesis using r True W k bs by simp
  next
    case False
    then have "d' = reset_transfer_state (d\<lparr>flash_writer := w, chip := g\<rparr>)" "st = DFU_STATUS_ERR_PROG" using r by (simp_all add: fail_def)
    then show ?thesis using W k d(1)
      by (auto simp: dfu_ok_def reset_transfer_state_def Writer_abort_session_def clear_active_sector_def)
  qed
qed

lemma download_ok:
  assumes nor: "nor_ok (xpi_flash x)" and x: "nor_sector_size x = 4096" and d: "dfu_ok (xpi_flash x) d"
    and dat: "\<forall>bs. dat = Some bs \<longrightarrow> length bs = unat len"
  shows "dfu_ok (xpi_flash x) (snd (download x rcg alt n dat len d)) \<and> kept (xpi_flash x) (chip d) (chip (snd (download x rcg alt n dat len d)))"
proof (cases "alt \<noteq> 0 \<or> \<not> rcg \<or> len = 0")
  case True then show ?thesis using d by (auto simp: download_def)
next
  case False
  let ?fl = "xpi_flash x"
  define d0 where "d0 = (if session_started d \<and> n = 0 then reset_transfer_state d else d)"
  have d0: "dfu_ok ?fl d0" "chip d0 = chip d" using reset_ok[OF d] d by (auto simp: d0_def)
  note O = open_session_ok[OF nor d0(1) refl, of n]
  show ?thesis
  proof (cases "open_session x n d0")
    case (Inl r)
    then show ?thesis using O False d0 by (cases r) (auto simp: download_def d0_def[symmetric])
  next
    case (Inr d1)
    then have d1: "dfu_ok ?fl d1" "kept ?fl (chip d0) (chip d1)" "session_started d1" using O by auto
    then obtain fed where fed: "dfu_holds ?fl fed d1" by (auto simp: dfu_ok_def)
    obtain st d' where e: "store_block x n dat len d1 = (st, d')" by force
    have "dfu_ok ?fl d'" "kept ?fl (chip d1) (chip d')" using store_block_ok[OF nor x d1(1) fed dat _ e] False by auto
    then show ?thesis using Inr False e d0(2) d1(2) by (auto simp: download_def d0_def[symmetric] intro: kept_trans)
  qed
qed

lemma manifest_result:
  assumes nor: "nor_ok (xpi_flash x)" and d: "dfu_ok (xpi_flash x) d" and e: "manifest x now alt d = (st, d')"
  shows "dfu_ok (xpi_flash x) d' \<and> kept (xpi_flash x) (chip d) (chip d')
    \<and> (st = DFU_STATUS_OK \<longrightarrow> (\<forall>fed md. dfu_holds (xpi_flash x) fed d \<longrightarrow> instance_md d = Some md \<longrightarrow> found (xpi_flash x) (chip d) 256 md
        \<longrightarrow> md_is_flashing md \<longrightarrow> valid_image fed \<and> installed (xpi_flash x) fed (chip d') \<and> reset_requested d'))"
proof (cases "alt \<noteq> 0 \<or> \<not> session_started d \<or> downloaded_size d = 0")
  case True
  then have "manifest x now alt d = (if alt \<noteq> 0 then DFU_STATUS_ERR_TARGET else DFU_STATUS_ERR_NOTDONE, d)"
    by (auto simp: manifest_def Let_def)
  then have "d' = d" "st \<noteq> DFU_STATUS_OK" using e by (auto split: if_splits)
  then show ?thesis using d by simp
next
  case False
  let ?fl = "xpi_flash x" and ?n = "downloaded_size d"
  obtain fed where fed: "writer_inv ?fl fed (flash_writer d) (chip d)" "unat ?n = length fed" "dfu_holds ?fl fed d"
    using False d by (auto simp: dfu_ok_def dfu_holds_def)
  obtain ok1 w f1 where w: "Writer_finish_session ?fl (flash_writer d) (chip d) = (ok1, w, f1)" by (metis prod_cases3)
  note W = finish_session_flushes[OF nor fed(1) w]
  have k1: "kept ?fl (chip d) f1" by (rule kept_app) (use W in auto)
  obtain ok2 md f2 where m: "finish_flashing ?fl ?n (get_instance ?fl (instance_md d) f1) f1 = (ok2, md, f2)" by (metis prod_cases3)
  have M: "same_outside ?fl 0x8001F000 0x80020000 f1 f2 \<and> md_in_sector md"
    by (rule finish_flashing_outside[OF nor _ m]) (rule instance_in_sector[OF d])
  have k2: "kept ?fl f1 f2" by (rule kept_app) (use M in auto)
  define d1 where "d1 = d\<lparr>flash_writer := w, chip := f1\<rparr>"
  define d2 where "d2 = d1\<lparr>instance_md := Some md, chip := f2\<rparr>"
  have r: "(st, d') = (if \<not> ok1 then fail DFU_STATUS_ERR_PROG d1
      else if \<not> validate_candidate_image ?fl ?n f1 then fail DFU_STATUS_ERR_FIRMWARE d1
      else if \<not> ok2 then fail DFU_STATUS_ERR_WRITE d2
      else if \<not> md_is_ready md \<or> md_image_size ?fl md f2 \<noteq> ?n then fail DFU_STATUS_ERR_VERIFY d2
      else (DFU_STATUS_OK, (reset_transfer_state d2)\<lparr>reset_requested := True, reset_requested_tick := now\<rparr>))"
    using e[symmetric] False w m by (simp add: manifest_def d1_def d2_def)
  have "dfu_ok ?fl (reset_transfer_state d1)" "dfu_ok ?fl (reset_transfer_state d2)"
    "dfu_ok ?fl ((reset_transfer_state d2)\<lparr>reset_requested := True, reset_requested_tick := now\<rparr>)"
    using W M d by (auto simp: dfu_ok_def d1_def d2_def reset_transfer_state_def Writer_abort_session_def clear_active_sector_def)
  moreover have "chip (reset_transfer_state d1) = f1" "chip (reset_transfer_state d2) = f2"
    by (simp_all add: reset_transfer_state_def d1_def d2_def)
  moreover have "kept ?fl (chip d) f2" using k1 k2 by (rule kept_trans)
  ultimately have "dfu_ok ?fl d' \<and> kept ?fl (chip d) (chip d')"
    using r k1 by (auto simp: fail_def split: if_splits)
  moreover have "valid_image fed' \<and> installed ?fl fed' (chip d') \<and> reset_requested d'"
    if st: "st = DFU_STATUS_OK" and h: "dfu_holds ?fl fed' d" "instance_md d = Some md0" "found ?fl (chip d) 256 md0" "md_is_flashing md0"
    for fed' md0
  proof -
    have c: ok1 "validate_candidate_image ?fl ?n f1" ok2 "chip d' = f2" "reset_requested d'"
      using r st by (auto simp: fail_def d2_def reset_transfer_state_def split: if_splits)
    have h': "writer_inv ?fl fed' (flash_writer d) (chip d)" "unat ?n = length fed'" using h(1) by (auto simp: dfu_holds_def)
    have app: "fl_read ?fl 0x80020000 (length fed') f1 = fed'" using finish_session_flushes[OF nor h'(1) w] c(1) by simp
    have lim: "length fed' \<le> 0x1E0000" using h'(1) by (auto simp: writer_inv_def)
    have v: "valid_image fed'"
      using validate_image_at_iff[of ?fl kAppStartAddress ?n f1 fed'] app h'(2) lim c(2) by (simp add: validate_candidate_image_def)
    have fnd: "found ?fl f1 256 md0" by (rule found_outside[OF h(3), of "0x80020000" "0x80200000"]) (use W in auto)
    have "finish_flashing ?fl ?n md0 f1 = (ok2, md, f2)" using m h(2) by (simp add: get_instance_def)
    note F = finish_flashing_found[OF nor fnd h(4) this]
    have "fl_read ?fl 0x80020000 (length fed') f2 = fed'"
      using app fl_read_outside[of ?fl "0x8001F000" "0x80020000" f1 f2 "0x80020000" "length fed'"] F by simp
    then have "installed ?fl fed' f2"
      by (intro installed_after_commit[of ?fl f2 md ?n]) (use F c(3) h'(2) in auto)
    then show ?thesis using v c by simp
  qed
  ultimately show ?thesis by blast
qed

section \<open>A whole download\<close>

fun dfu_blocks :: "'f xpi_nor \<Rightarrow> bool \<Rightarrow> 16 word \<Rightarrow> 8 word list list \<Rightarrow> 'f dfu \<Rightarrow> bool \<times> 'f dfu" where
  "dfu_blocks x rcg n [] d = (True, d)"
| "dfu_blocks x rcg n (bs # bss) d =
    (let (st, d) = download x rcg 0 n (Some bs) (of_nat (length bs)) d in
     if st = DFU_STATUS_OK then dfu_blocks x rcg (n + 1) bss d else (False, d))"

definition session_run :: "'f flash_ops \<Rightarrow> 8 word list \<Rightarrow> 'f dfu \<Rightarrow> bool" where
  "session_run fl fed d = (dfu_ok fl d \<and> session_started d \<and> dfu_holds fl fed d
     \<and> (\<exists>md. instance_md d = Some md \<and> found fl (chip d) 256 md \<and> md_is_flashing md))"

lemma store_block_runs:
  assumes nor: "nor_ok (xpi_flash x)" and x: "nor_sector_size x = 4096" and s: "session_run (xpi_flash x) fed d"
    and bs: "0 < length bs" "length bs \<le> 1024" and e: "store_block x n (Some bs) (of_nat (length bs)) d = (DFU_STATUS_OK, d')"
  shows "session_run (xpi_flash x) (fed @ bs) d'"
proof -
  let ?fl = "xpi_flash x"
  have u: "unat (of_nat (length bs) :: 16 word) = length bs" using bs by simp
  then have nz: "(of_nat (length bs) :: 16 word) \<noteq> 0" using bs(1) by (metis unat_0 less_numeral_extra(3))
  obtain md where md: "instance_md d = Some md" "found ?fl (chip d) 256 md" "md_is_flashing md" using s by (auto simp: session_run_def)
  have d: "dfu_ok ?fl d" "dfu_holds ?fl fed d" "session_started d" using s by (auto simp: session_run_def)
  note S = store_block_ok[OF nor x d(1,2) _ nz e]
  have S': "same_outside ?fl 0x80020000 0x80200000 (chip d) (chip d')" "dfu_ok ?fl d'" "instance_md d' = instance_md d"
    "dfu_holds ?fl (fed @ bs) d'" "session_started d' = session_started d" using S u by auto
  have "found ?fl (chip d') 256 md" by (rule found_outside[OF md(2) S'(1)]) simp
  then show ?thesis using S' d md by (auto simp: session_run_def)
qed

lemma download_first:
  assumes nor: "nor_ok (xpi_flash x)" and x: "nor_sector_size x = 4096" and d: "dfu_ok (xpi_flash x) d"
    and md: "get_instance (xpi_flash x) (instance_md d) (chip d) = scan_latest_valid_slot (xpi_flash x) (chip d)"
    and bs: "0 < length bs" "length bs \<le> 1024" and e: "download x rcg 0 0 (Some bs) (of_nat (length bs)) d = (DFU_STATUS_OK, d')"
  shows "session_run (xpi_flash x) bs d' \<and> rcg"
proof -
  let ?fl = "xpi_flash x"
  define d0 where "d0 = (if session_started d then reset_transfer_state d else d)"
  have d0: "dfu_ok ?fl d0" "chip d0 = chip d" "instance_md d0 = instance_md d" "\<not> session_started d0"
    using reset_ok[OF d] d by (auto simp: d0_def reset_transfer_state_def)
  have r: rcg "of_nat (length bs) \<noteq> (0 :: 16 word)" using e by (auto simp: download_def split: if_splits)
  have e': "(case open_session x 0 d0 of Inl r \<Rightarrow> r | Inr d \<Rightarrow> store_block x 0 (Some bs) (of_nat (length bs)) d) = (DFU_STATUS_OK, d')"
    using e r by (simp add: download_def d0_def Let_def)
  note O = open_session_ok[OF nor d0(1) refl, of 0]
  obtain d1 where d1: "open_session x 0 d0 = Inr d1" "store_block x 0 (Some bs) (of_nat (length bs)) d1 = (DFU_STATUS_OK, d')"
    using e' O by (cases "open_session x 0 d0") auto
  obtain ok mdn f where b: "begin_flashing ?fl (scan_latest_valid_slot ?fl (chip d)) (chip d) = (ok, mdn, f)" by (metis prod_cases3)
  have d1': "ok" "d1 = d0\<lparr>flash_writer := Writer_begin_session (flash_writer d0), instance_md := Some mdn, chip := f,
      session_started := True, expected_block := 0, downloaded_size := 0, reset_requested := False\<rparr>"
    using d1(1) b md d0 by (auto simp: open_session_def Let_def split: if_splits)
  note B = begin_flashing_found[OF nor refl b]
  have "writer_inv ?fl [] (Writer_begin_session (flash_writer d0)) f"
    unfolding Writer_begin_session_def by (rule writer_inv_start) (use d0(1) in \<open>simp add: dfu_ok_def\<close>)
  then have "session_run ?fl [] d1" using B d1' O d1(1) by (auto simp: session_run_def dfu_holds_def)
  from store_block_runs[OF nor x this bs d1(2)] show ?thesis using r by simp
qed

lemma download_next:
  assumes nor: "nor_ok (xpi_flash x)" and x: "nor_sector_size x = 4096" and s: "session_run (xpi_flash x) fed d" and n: "n \<noteq> 0"
    and bs: "0 < length bs" "length bs \<le> 1024" and e: "download x rcg 0 n (Some bs) (of_nat (length bs)) d = (DFU_STATUS_OK, d')"
  shows "session_run (xpi_flash x) (fed @ bs) d'"
proof -
  have "store_block x n (Some bs) (of_nat (length bs)) d = (DFU_STATUS_OK, d')"
    using e s n by (auto simp: download_def open_session_def session_run_def split: if_splits)
  then show ?thesis by (rule store_block_runs[OF nor x s bs])
qed

lemma dfu_blocks_run:
  assumes nor: "nor_ok (xpi_flash x)" and x: "nor_sector_size x = 4096"
  shows "session_run (xpi_flash x) fed d \<Longrightarrow> \<forall>bs \<in> set bss. 0 < length bs \<and> length bs \<le> 1024 \<Longrightarrow> 0 < k \<Longrightarrow> k + length bss \<le> 65536
    \<Longrightarrow> dfu_blocks x rcg (of_nat k) bss d = (True, d') \<Longrightarrow> session_run (xpi_flash x) (fed @ concat bss) d'"
proof (induction bss arbitrary: fed d k)
  case Nil then show ?case by simp
next
  case (Cons bs bss)
  obtain st d1 where e: "download x rcg 0 (of_nat k) (Some bs) (of_nat (length bs)) d = (st, d1)" by force
  have r: "st = DFU_STATUS_OK" "dfu_blocks x rcg (of_nat (Suc k)) bss d1 = (True, d')"
    using Cons.prems(5) e by (auto simp: add.commute split: if_splits)
  have "unat (of_nat k :: 16 word) = k" using Cons.prems(4) by simp
  then have n: "(of_nat k :: 16 word) \<noteq> 0" using Cons.prems(3) by (metis unat_0 less_numeral_extra(3))
  have "session_run (xpi_flash x) (fed @ bs) d1"
    by (rule download_next[OF nor x Cons.prems(1) n _ _ e[unfolded r(1)]]) (use Cons.prems(2) in auto)
  from Cons.IH[OF this _ _ _ r(2)] show ?case using Cons.prems by simp
qed

text \<open>On a working flash nothing but the image itself can refuse the update.\<close>

lemma store_block_works:
  assumes nor: "nor_ok (xpi_flash x)" and works: "nor_works (xpi_flash x)" and x: "nor_sector_size x = 4096"
    and s: "dfu_holds (xpi_flash x) fed d" and n: "n = expected_block d"
    and bs: "0 < length bs" "length bs \<le> 1024" "length fed + length bs \<le> 0x1E0000"
  shows "\<exists>d'. store_block x n (Some bs) (of_nat (length bs)) d = (DFU_STATUS_OK, d') \<and> expected_block d' = n + 1"
proof -
  let ?fl = "xpi_flash x"
  have h: "writer_inv ?fl fed (flash_writer d) (chip d)" "unat (downloaded_size d) = length fed" using s by (auto simp: dfu_holds_def)
  have u: "unat (of_nat (length bs) :: 16 word) = length bs" using bs by simp
  obtain ok w g where w: "Writer_write ?fl 4096 (of_nat (0x80020000 + length fed)) bs (flash_writer d) (chip d) = (ok, w, g)" by (metis prod_cases3)
  have len: "bs \<noteq> []" using bs(1) by simp
  have "ok" using Writer_write_feeds[OF nor h(1) len bs(3) _ w] works by auto
  moreover have "\<not> 0x1E0000 \<le> length fed" using bs by linarith
  ultimately show ?thesis using n bs(2,3) len w u h(2) by (simp add: store_block_def Let_def x not_le)
qed

lemma open_session_works:
  assumes nor: "nor_ok (xpi_flash x)" and works: "nor_works (xpi_flash x)" and d: "\<not> session_started d"
    and md: "get_instance (xpi_flash x) (instance_md d) (chip d) = scan_latest_valid_slot (xpi_flash x) (chip d)"
  shows "\<exists>d'. open_session x 0 d = Inr d' \<and> expected_block d' = 0 \<and> downloaded_size d' = 0"
proof -
  obtain ok mdn f where b: "begin_flashing (xpi_flash x) (scan_latest_valid_slot (xpi_flash x) (chip d)) (chip d) = (ok, mdn, f)"
    by (metis prod_cases3)
  then have ok using begin_flashing_found[OF nor refl b] works by simp
  then show ?thesis using b d md by (simp add: open_session_def Let_def)
qed

lemma download_opens:
  assumes nor: "nor_ok (xpi_flash x)" and works: "nor_works (xpi_flash x)" and x: "nor_sector_size x = 4096" and d: "dfu_ok (xpi_flash x) d"
    and md: "get_instance (xpi_flash x) (instance_md d) (chip d) = scan_latest_valid_slot (xpi_flash x) (chip d)"
    and bs: "0 < length bs" "length bs \<le> 1024"
  shows "\<exists>d'. download x True 0 0 (Some bs) (of_nat (length bs)) d = (DFU_STATUS_OK, d') \<and> expected_block d' = of_nat 1"
proof -
  let ?fl = "xpi_flash x"
  define d0 where "d0 = (if session_started d then reset_transfer_state d else d)"
  have d0: "dfu_ok ?fl d0" "\<not> session_started d0" "get_instance ?fl (instance_md d0) (chip d0) = scan_latest_valid_slot ?fl (chip d0)"
    using reset_ok[OF d] d md by (auto simp: d0_def reset_transfer_state_def)
  obtain d1 where d1: "open_session x 0 d0 = Inr d1" "expected_block d1 = 0" "downloaded_size d1 = 0"
    using open_session_works[OF nor works d0(2,3)] by blast
  have "dfu_ok ?fl d1" "session_started d1" using open_session_ok[OF nor d0(1) d1(1)] by auto
  then obtain fed where fed: "dfu_holds ?fl fed d1" by (auto simp: dfu_ok_def)
  then have "fed = []" using d1(3) by (simp add: dfu_holds_def)
  then obtain d2 where d2: "store_block x 0 (Some bs) (of_nat (length bs)) d1 = (DFU_STATUS_OK, d2)" "expected_block d2 = 1"
    using store_block_works[OF nor works x fed, of 0 bs] d1(2) bs by auto
  have "unat (of_nat (length bs) :: 16 word) = length bs" using bs by simp
  then have "(of_nat (length bs) :: 16 word) \<noteq> 0" using bs(1) by (metis unat_0 less_numeral_extra(3))
  then show ?thesis using d1(1) d2 by (simp add: download_def d0_def Let_def)
qed

lemma dfu_blocks_work:
  assumes nor: "nor_ok (xpi_flash x)" and works: "nor_works (xpi_flash x)" and x: "nor_sector_size x = 4096"
  shows "session_run (xpi_flash x) fed d \<Longrightarrow> expected_block d = of_nat k \<Longrightarrow> \<forall>bs \<in> set bss. 0 < length bs \<and> length bs \<le> 1024
    \<Longrightarrow> 0 < k \<Longrightarrow> k + length bss \<le> 65536 \<Longrightarrow> length fed + length (concat bss) \<le> 0x1E0000 \<Longrightarrow> fst (dfu_blocks x True (of_nat k) bss d)"
proof (induction bss arbitrary: fed d k)
  case Nil then show ?case by simp
next
  case (Cons bs bss)
  have bs: "0 < length bs" "length bs \<le> 1024" "length fed + length bs \<le> 0x1E0000" using Cons.prems(3,6) by auto
  have "unat (of_nat k :: 16 word) = k" using Cons.prems(5) by simp
  then have n: "(of_nat k :: 16 word) \<noteq> 0" using Cons.prems(4) by (metis unat_0 less_numeral_extra(3))
  have "unat (of_nat (length bs) :: 16 word) = length bs" using bs by simp
  then have nz: "(of_nat (length bs) :: 16 word) \<noteq> 0" using bs(1) by (metis unat_0 less_numeral_extra(3))
  have "dfu_holds (xpi_flash x) fed d" using Cons.prems(1) by (simp add: session_run_def)
  from store_block_works[OF nor works x this Cons.prems(2)[symmetric] bs]
  obtain d1 where s: "store_block x (of_nat k) (Some bs) (of_nat (length bs)) d = (DFU_STATUS_OK, d1)" "expected_block d1 = of_nat (Suc k)"
    by (auto simp: add.commute)
  have e: "download x True 0 (of_nat k) (Some bs) (of_nat (length bs)) d = (DFU_STATUS_OK, d1)"
    using s(1) n nz Cons.prems(1) by (simp add: download_def open_session_def session_run_def)
  have "session_run (xpi_flash x) (fed @ bs) d1" by (rule store_block_runs[OF nor x Cons.prems(1) bs(1,2) s(1)])
  from Cons.IH[OF this s(2)] have "fst (dfu_blocks x True (of_nat (Suc k)) bss d1)" using Cons.prems by simp
  then show ?case using e by (simp add: add.commute)
qed

lemma manifest_works:
  assumes nor: "nor_ok (xpi_flash x)" and works: "nor_works (xpi_flash x)" and s: "session_run (xpi_flash x) fed d" and v: "valid_image fed"
  shows "fst (manifest x now 0 d) = DFU_STATUS_OK"
proof -
  let ?fl = "xpi_flash x" and ?n = "downloaded_size d"
  obtain md where md: "instance_md d = Some md" "found ?fl (chip d) 256 md" "md_is_flashing md" using s by (auto simp: session_run_def)
  have h: "writer_inv ?fl fed (flash_writer d) (chip d)" "unat ?n = length fed" "session_started d" using s by (auto simp: session_run_def dfu_holds_def)
  have lim: "36 < length fed" "length fed \<le> 0x1E0000" using v by (simp_all add: valid_image_def)
  obtain ok1 w f1 where w: "Writer_finish_session ?fl (flash_writer d) (chip d) = (ok1, w, f1)" by (metis prod_cases3)
  note W = finish_session_flushes[OF nor h(1) w]
  have c: "validate_candidate_image ?fl ?n f1"
    using validate_image_at_iff[of ?fl kAppStartAddress ?n f1 fed] W works h(2) lim v by (simp add: validate_candidate_image_def)
  obtain ok2 md2 f2 where m: "finish_flashing ?fl ?n md f1 = (ok2, md2, f2)" by (metis prod_cases3)
  have fnd: "found ?fl f1 256 md" by (rule found_outside[OF md(2), of "0x80020000" "0x80200000"]) (use W in auto)
  have "?n \<le> 0x1E0000" using h(2) lim by (simp add: word_le_nat_alt)
  then have F: "ok2" "md_is_ready md2" "md_image_size ?fl md2 f2 = ?n" using finish_flashing_found[OF nor fnd md(3) m] works by auto
  have "?n \<noteq> 0" using h(2) lim by auto
  then show ?thesis using w W works c m F h(3) md(1) by (simp add: manifest_def get_instance_def)
qed

section \<open>The life of the device\<close>

text \<open>What may happen to the bootloader: requests from the host, and resets, at which the decision of
  \<open>main\<close> is taken.\<close>

datatype boot_event =
    Download "8 word" "16 word" "8 word list option" "16 word"
  | Manifest "64 word" "8 word"
  | Abort "8 word"
  | Reset bool bool

fun boot_step :: "'f xpi_nor \<Rightarrow> bool \<Rightarrow> boot_event \<Rightarrow> 'f dfu \<Rightarrow> 'f dfu" where
  "boot_step x rcg (Download alt n dat len) d = snd (download x rcg alt n dat len d)"
| "boot_step x rcg (Manifest now alt) d = snd (manifest x now alt d)"
| "boot_step x rcg (Abort alt) d = dfu_abort alt d"
| "boot_step x rcg (Reset force_stay dfu_requested) d =
    (let (jump, mdo, buf, f) = boot x rcg force_stay dfu_requested (sector_buffer (flash_writer d)) (chip d) in
     Dfu_new buf mdo f)"

text \<open>TinyUSB hands over a buffer of the length it announces.\<close>

fun announced :: "boot_event \<Rightarrow> bool" where
  "announced (Download alt n (Some bs) len) = (length bs = unat len)"
| "announced _ = True"

lemma boot_keeps:
  assumes nor: "nor_ok (xpi_flash x)" and x: "nor_sector_size x = 4096" and buf: "length buf = 4096"
    and e: "boot x rcg fs req buf f = (jump, mdo, buf', g)"
  shows "kept (xpi_flash x) f g \<and> length buf' = 4096 \<and> (\<forall>md. mdo = Some md \<longrightarrow> md_in_sector md)"
proof -
  let ?fl = "xpi_flash x"
  obtain ok m1 b1 f1 where i: "install_staged_image_if_ready x None buf f = (ok, m1, b1, f1)" by (metis prod_cases4)
  note I = install_keeps[OF nor x buf i]
  obtain m2 b2 f2 where m2: "(if rcg \<and> \<not> fs then snd (install_staged_image_if_ready x None buf f) else (None, buf, f)) = (m2, b2, f2)"
    by (metis prod_cases3)
  have k: "kept ?fl f f2 \<and> length b2 = 4096 \<and> (\<forall>md. m2 = Some md \<longrightarrow> md_in_sector md)"
    using m2 I i buf by (auto split: if_splits)
  moreover have "md_in_sector (get_instance ?fl m2 f2)"
    using k scan_in_sector[of ?fl f2] by (auto simp: get_instance_def split: option.split)
  ultimately show ?thesis using e unfolding boot_def m2 by (auto simp: Let_def split: if_splits)
qed

lemma boot_step_keeps:
  assumes nor: "nor_ok (xpi_flash x)" and x: "nor_sector_size x = 4096" and d: "dfu_ok (xpi_flash x) d" and ev: "announced ev"
  shows "dfu_ok (xpi_flash x) (boot_step x rcg ev d) \<and> kept (xpi_flash x) (chip d) (chip (boot_step x rcg ev d))"
proof (cases ev)
  case (Download alt n dat len)
  then have "\<forall>bs. dat = Some bs \<longrightarrow> length bs = unat len" using ev by auto
  from download_ok[OF nor x d this] show ?thesis using Download by simp
next
  case (Manifest now alt)
  then show ?thesis using manifest_result[OF nor d, of now alt "fst (manifest x now alt d)" "snd (manifest x now alt d)"] by simp
next
  case (Abort alt)
  then show ?thesis using reset_ok[OF d] d by (simp add: dfu_abort_def)
next
  case (Reset fs req)
  have len: "length (sector_buffer (flash_writer d)) = 4096" using d by (simp add: dfu_ok_def)
  obtain jump mdo buf f where b: "boot x rcg fs req (sector_buffer (flash_writer d)) (chip d) = (jump, mdo, buf, f)" by (metis prod_cases4)
  from boot_keeps[OF nor x len b] show ?thesis using Reset b by (simp add: dfu_ok_def Dfu_new_def new_writer_def)
qed

lemma boot_steps_keep:
  assumes nor: "nor_ok (xpi_flash x)" and x: "nor_sector_size x = 4096"
  shows "dfu_ok (xpi_flash x) d \<Longrightarrow> \<forall>ev \<in> set evs. announced ev \<Longrightarrow> kept (xpi_flash x) (chip d) (chip (fold (boot_step x rcg) evs d))"
proof (induction evs arbitrary: d)
  case (Cons ev evs)
  then show ?case using boot_step_keeps[OF nor x Cons.prems(1), of ev rcg] by (auto intro: kept_trans)
qed simp

end
