(* ===== verification/BootHistory.thy ===== *)
theory BootHistory
  imports BootDfu
begin

text \<open>
  The record of the metadata that the bootloader keeps in memory, over the life of the device: when it
  is the record a scan of the chip would find.  On a flash that works every request and every reset keeps
  it so; after a failed flash operation it may not be, until the next reset.
\<close>

unbundle bit_operations_syntax

section \<open>The cached metadata\<close>

text \<open>The cached metadata, if there is one, is what a scan of the chip would find.\<close>

definition md_known :: "'f flash_ops \<Rightarrow> 'f dfu \<Rightarrow> bool" where
  "md_known fl d = (get_instance fl (instance_md d) (chip d) = scan_latest_valid_slot fl (chip d))"

lemma md_known_iff: "md_known fl d \<longleftrightarrow> instance_md d = None \<or> instance_md d = Some (scan_latest_valid_slot fl (chip d))"
  by (auto simp: md_known_def get_instance_def split: option.splits)

lemma md_known_reset [simp]: "md_known fl (reset_transfer_state d) = md_known fl d"
  by (simp add: md_known_def reset_transfer_state_def)

lemma md_known_request: "md_known fl (d\<lparr>reset_requested := b, reset_requested_tick := t\<rparr>) = md_known fl d"
  by (simp add: md_known_def)

lemma scan_from_cong:
  "\<forall>s \<in> set ss. read_state fl s g = read_state fl s f \<Longrightarrow> scan_from fl g ss md = scan_from fl f ss md"
  by (induction ss arbitrary: md) (auto split: DataSlotState.splits option.splits)

lemma scan_outside:
  assumes "same_outside fl a b f g" "0x80020000 \<le> a"
  shows "scan_latest_valid_slot fl g = scan_latest_valid_slot fl f"
  unfolding scan_latest_valid_slot_def
proof (rule scan_from_cong)
  have "read_state fl (data_slot_at k) g = read_state fl (data_slot_at k) f" if "k < 256" for k
    by (rule read_state_cong) (use assms that in \<open>simp add: same_outside_def unat_slot\<close>)
  then show "\<forall>s \<in> set (map data_slot_at [0..<256]). read_state fl s g = read_state fl s f" by auto
qed

lemma md_known_outside:
  "md_known fl d \<Longrightarrow> same_outside fl a b (chip d) (chip e) \<Longrightarrow> 0x80020000 \<le> a \<Longrightarrow> instance_md e = instance_md d \<Longrightarrow> md_known fl e"
  using scan_outside[of fl a b "chip d" "chip e"] by (auto simp: md_known_iff)

lemma open_session_known:
  assumes nor: "nor_ok (xpi_flash x)" and works: "nor_works (xpi_flash x)" and md: "md_known (xpi_flash x) d"
    and e: "open_session x n d = r"
  shows "case r of Inl (st, d') \<Rightarrow> md_known (xpi_flash x) d' | Inr d' \<Rightarrow> md_known (xpi_flash x) d'"
proof (cases "session_started d \<or> n \<noteq> 0")
  case True
  then show ?thesis using e[symmetric] md by (auto simp: open_session_def)
next
  case False
  let ?fl = "xpi_flash x"
  obtain ok m f where b: "begin_flashing ?fl (scan_latest_valid_slot ?fl (chip d)) (chip d) = (ok, m, f)" by (metis prod_cases3)
  have "found ?fl f 256 m" ok using begin_flashing_found[OF nor refl b] works by auto
  then have "scan_latest_valid_slot ?fl f = m" ok using scan_of by auto
  moreover have "get_instance ?fl (instance_md d) (chip d) = scan_latest_valid_slot ?fl (chip d)" using md by (simp add: md_known_def)
  ultimately show ?thesis using e[symmetric] False b by (simp add: open_session_def md_known_iff Let_def)
qed

lemma download_known:
  assumes nor: "nor_ok (xpi_flash x)" and x: "nor_sector_size x = 4096" and works: "nor_works (xpi_flash x)"
    and d: "dfu_ok (xpi_flash x) d" "md_known (xpi_flash x) d" and dat: "\<forall>bs. dat = Some bs \<longrightarrow> length bs = unat len"
  shows "md_known (xpi_flash x) (snd (download x rcg alt n dat len d))"
proof (cases "alt \<noteq> 0 \<or> \<not> rcg \<or> len = 0")
  case True then show ?thesis using d by (auto simp: download_def)
next
  case False
  let ?fl = "xpi_flash x"
  define d0 where "d0 = (if session_started d \<and> n = 0 then reset_transfer_state d else d)"
  have d0: "dfu_ok ?fl d0" "md_known ?fl d0" using reset_ok[OF d(1)] d by (auto simp: d0_def)
  note O = open_session_ok[OF nor d0(1) refl, of n] and K = open_session_known[OF nor works d0(2) refl, of n]
  show ?thesis
  proof (cases "open_session x n d0")
    case (Inl r)
    then show ?thesis using K False by (cases r) (auto simp: download_def d0_def[symmetric])
  next
    case (Inr d1)
    then have d1: "dfu_ok ?fl d1" "session_started d1" "md_known ?fl d1" using O K by auto
    then obtain fed where fed: "dfu_holds ?fl fed d1" by (auto simp: dfu_ok_def)
    obtain st d' where e: "store_block x n dat len d1 = (st, d')" by force
    have "same_outside ?fl 0x80020000 0x80200000 (chip d1) (chip d')" "instance_md d' = instance_md d1"
      using store_block_ok[OF nor x d1(1) fed dat _ e] False by auto
    from md_known_outside[OF d1(3) this(1) _ this(2)] show ?thesis
      using Inr False e by (simp add: download_def d0_def[symmetric])
  qed
qed

lemma manifest_known:
  assumes nor: "nor_ok (xpi_flash x)" and works: "nor_works (xpi_flash x)"
    and d: "dfu_ok (xpi_flash x) d" "md_known (xpi_flash x) d"
  shows "md_known (xpi_flash x) (snd (manifest x now alt d))"
proof (cases "alt \<noteq> 0 \<or> \<not> session_started d \<or> downloaded_size d = 0")
  case True
  then show ?thesis using d by (auto simp: manifest_def Let_def)
next
  case False
  let ?fl = "xpi_flash x" and ?n = "downloaded_size d"
  obtain fed where fed: "writer_inv ?fl fed (flash_writer d) (chip d)" "unat ?n = length fed"
    using False d by (auto simp: dfu_ok_def dfu_holds_def)
  have n: "?n \<le> 0x1E0000" using fed by (auto simp: writer_inv_def word_le_nat_alt)
  obtain ok1 w f1 where w: "Writer_finish_session ?fl (flash_writer d) (chip d) = (ok1, w, f1)" by (metis prod_cases3)
  define d1 where "d1 = d\<lparr>flash_writer := w, chip := f1\<rparr>"
  have k1: "md_known ?fl d1"
    by (rule md_known_outside[OF d(2), of "0x80020000" "0x80200000"])
      (use finish_session_flushes[OF nor fed(1) w] in \<open>auto simp: d1_def\<close>)
  define md where "md = scan_latest_valid_slot ?fl f1"
  have g: "get_instance ?fl (instance_md d) f1 = md" using k1 by (simp add: md_known_def d1_def md_def)
  obtain ok2 m f2 where m: "finish_flashing ?fl ?n md f1 = (ok2, m, f2)" by (metis prod_cases3)
  have "scan_latest_valid_slot ?fl f2 = m"
  proof (cases "md_is_flashing md")
    case True
    then have "md \<noteq> md_none" by (auto simp: md_is_flashing_def)
    then have "found ?fl f1 256 md" using scan_found[of ?fl f1] by (simp add: md_def)
    from finish_flashing_found[OF nor this True m] works n have "found ?fl f2 256 m" by auto
    then show ?thesis by (rule scan_of)
  next
    case False
    then have "m = md \<and> f2 = f1" using m by (simp add: finish_flashing_def md_is_flashing_def)
    then show ?thesis by (simp add: md_def)
  qed
  then have k2: "md_known ?fl (d1\<lparr>instance_md := Some m, chip := f2\<rparr>)" by (simp add: md_known_iff)
  define d2 where "d2 = d1\<lparr>instance_md := Some m, chip := f2\<rparr>"
  have m': "finish_flashing ?fl ?n (get_instance ?fl (instance_md d) f1) f1 = (ok2, m, f2)" using m g by simp
  have "manifest x now alt d = (if \<not> ok1 then fail DFU_STATUS_ERR_PROG d1
      else if \<not> validate_candidate_image ?fl ?n f1 then fail DFU_STATUS_ERR_FIRMWARE d1
      else if \<not> ok2 then fail DFU_STATUS_ERR_WRITE d2
      else if \<not> md_is_ready m \<or> md_image_size ?fl m f2 \<noteq> ?n then fail DFU_STATUS_ERR_VERIFY d2
      else (DFU_STATUS_OK, (reset_transfer_state d2)\<lparr>reset_requested := True, reset_requested_tick := now\<rparr>))"
    using False w m' by (simp add: manifest_def d1_def d2_def)
  then have "snd (manifest x now alt d) \<in> {reset_transfer_state d1, reset_transfer_state d2,
      (reset_transfer_state d2)\<lparr>reset_requested := True, reset_requested_tick := now\<rparr>}"
    by (simp add: fail_def)
  moreover have "md_known ?fl (reset_transfer_state d1)" "md_known ?fl (reset_transfer_state d2)"
    using k1 k2 by (simp_all only: md_known_reset d2_def)
  moreover from this(2) have "md_known ?fl ((reset_transfer_state d2)\<lparr>reset_requested := True, reset_requested_tick := now\<rparr>)"
    by (simp only: md_known_request)
  ultimately show ?thesis by (elim insertE emptyE) simp_all
qed

text \<open>At a reset the cache is empty or freshly read, unless an installation has stopped halfway.\<close>

lemma boot_known:
  assumes nor: "nor_ok (xpi_flash x)" and x: "nor_sector_size x = 4096" and buf: "length buf = 4096"
    and w: "nor_works (xpi_flash x) \<or> \<not> staging_record_is_ready (xpi_flash x) kStagingMaxImageSize f"
    and e: "boot x rcg fs req buf f = (jump, mdo, buf', g)"
  shows "md_known (xpi_flash x) (Dfu_new buf' mdo g)"
proof -
  let ?fl = "xpi_flash x"
  obtain ok m1 b1 f1 where i: "install_staged_image_if_ready x None buf f = (ok, m1, b1, f1)" by (metis prod_cases4)
  have I: "m1 = None \<or> m1 = Some (scan_latest_valid_slot ?fl f1)"
  proof (cases "nor_available x \<and> staging_record_is_ready ?fl kStagingMaxImageSize f")
    case False
    then have "m1 = None" using i by (cases "nor_available x"; simp add: install_staged_image_if_ready_def)
    then show ?thesis ..
  next
    case True
    then have works: "nor_works ?fl" using w by simp
    define sz where "sz = image_size (staging_record_of ?fl f)"
    define img where "img = fl_read ?fl 0x80211000 (unat sz) f"
    have "sz \<le> 0x1E0000" using True by (simp add: staging_record_is_ready_def Let_def sz_def)
    then have le: "unat sz \<le> 0x1E0000" by (simp add: word_le_nat_alt)
    have v: "validate_image_at ?fl kStagingImageStart sz kStagingMaxImageSize f = valid_image img"
      using validate_image_at_iff[of ?fl kStagingImageStart sz f img] le by (simp add: img_def)
    show ?thesis
    proof (cases "valid_image img")
      case False
      then have "m1 = None" using i True v by (auto simp: install_staged_image_if_ready_def Let_def sz_def)
      then show ?thesis ..
    next
      case val: True
      have "length img = unat sz" by (simp add: img_def fl_read_def)
      then have "image_ready ?fl img f" using True by (simp add: image_ready_def staged_def img_def sz_def)
      from install_outcomes[OF nor _ x buf _ this val i] True works show ?thesis by (auto simp: get_instance_def)
    qed
  qed
  obtain m2 b2 f2 where m2: "(if rcg \<and> \<not> fs then snd (install_staged_image_if_ready x None buf f) else (None, buf, f)) = (m2, b2, f2)"
    by (metis prod_cases3)
  have "m2 = None \<or> m2 = Some (scan_latest_valid_slot ?fl f2)" using m2 i I by (auto split: if_splits)
  then show ?thesis using e unfolding boot_def m2
    by (auto simp: md_known_iff Dfu_new_def get_instance_def Let_def split: if_splits)
qed

lemma boot_step_known:
  assumes nor: "nor_ok (xpi_flash x)" and x: "nor_sector_size x = 4096" and works: "nor_works (xpi_flash x)"
    and d: "dfu_ok (xpi_flash x) d" "md_known (xpi_flash x) d" and ev: "announced ev"
  shows "md_known (xpi_flash x) (boot_step x rcg ev d)"
proof (cases ev)
  case (Download alt n dat len)
  then have "\<forall>bs. dat = Some bs \<longrightarrow> length bs = unat len" using ev by auto
  from download_known[OF nor x works d this] show ?thesis using Download by simp
next
  case (Manifest now alt)
  then show ?thesis using manifest_known[OF nor works d] by simp
next
  case (Abort alt)
  then show ?thesis using d by (simp add: dfu_abort_def)
next
  case (Reset fs req)
  have len: "length (sector_buffer (flash_writer d)) = 4096" using d by (simp add: dfu_ok_def)
  obtain jump mdo buf f where b: "boot x rcg fs req (sector_buffer (flash_writer d)) (chip d) = (jump, mdo, buf, f)" by (metis prod_cases4)
  from boot_known[OF nor x len _ b] works show ?thesis using Reset b by simp
qed

lemma boot_steps_known:
  assumes nor: "nor_ok (xpi_flash x)" and x: "nor_sector_size x = 4096"
  shows "dfu_ok (xpi_flash x) d \<Longrightarrow> \<forall>ev \<in> set evs. announced ev
    \<Longrightarrow> dfu_ok (xpi_flash x) (fold (boot_step x rcg) evs d)
      \<and> (nor_works (xpi_flash x) \<longrightarrow> md_known (xpi_flash x) d \<longrightarrow> md_known (xpi_flash x) (fold (boot_step x rcg) evs d))"
proof (induction evs arbitrary: d)
  case (Cons ev evs)
  then show ?case using boot_step_keeps[OF nor x Cons.prems(1), of ev rcg] boot_step_known[OF nor x _ Cons.prems(1), of ev rcg] by auto
qed simp

text \<open>When the cache is right: on a flash that has always worked; and on any flash while nothing has been
  read since the reset, or right after a reset that found nothing staged.\<close>

definition since_reset :: "'f xpi_nor \<Rightarrow> bool \<Rightarrow> boot_event list \<Rightarrow> 'f dfu \<Rightarrow> bool" where
  "since_reset x rcg evs d = (instance_md (fold (boot_step x rcg) evs d) = None
     \<or> (\<exists>evs' fs req. evs = evs' @ [Reset fs req]
         \<and> \<not> staging_record_is_ready (xpi_flash x) kStagingMaxImageSize (chip (fold (boot_step x rcg) evs' d))))"

lemma history_known:
  assumes nor: "nor_ok (xpi_flash x)" and x: "nor_sector_size x = 4096" and buf: "length buf = 4096"
    and evs: "\<forall>ev \<in> set evs. announced ev" and h: "nor_works (xpi_flash x) \<or> since_reset x rcg evs (Dfu_new buf None f)"
  shows "dfu_ok (xpi_flash x) (fold (boot_step x rcg) evs (Dfu_new buf None f))"
    "md_known (xpi_flash x) (fold (boot_step x rcg) evs (Dfu_new buf None f))"
proof -
  let ?d = "Dfu_new buf None f"
  have d: "dfu_ok (xpi_flash x) ?d" "md_known (xpi_flash x) ?d"
    using buf by (simp_all add: dfu_ok_def Dfu_new_def new_writer_def md_known_iff)
  note S = boot_steps_known[OF nor x d(1), of _ rcg]
  show "dfu_ok (xpi_flash x) (fold (boot_step x rcg) evs ?d)" using S evs by blast
  show "md_known (xpi_flash x) (fold (boot_step x rcg) evs ?d)"
    using h[unfolded since_reset_def]
  proof (elim disjE exE conjE)
    assume "nor_works (xpi_flash x)"
    then show ?thesis using S evs d(2) by blast
  next
    assume "instance_md (fold (boot_step x rcg) evs ?d) = None"
    then show ?thesis by (simp add: md_known_iff)
  next
    fix evs' fs req
    assume e: "evs = evs' @ [Reset fs req]"
      and r: "\<not> staging_record_is_ready (xpi_flash x) kStagingMaxImageSize (chip (fold (boot_step x rcg) evs' ?d))"
    let ?e = "fold (boot_step x rcg) evs' ?d"
    have len: "length (sector_buffer (flash_writer ?e)) = 4096" using S[of evs'] evs e by (simp add: dfu_ok_def)
    obtain jump mdo buf' g where b: "boot x rcg fs req (sector_buffer (flash_writer ?e)) (chip ?e) = (jump, mdo, buf', g)" by (metis prod_cases4)
    from boot_known[OF nor x len _ b] r show ?thesis using e b by simp
  qed
qed

end
