(* ===== verification/BootProps.thy ===== *)
theory BootProps
  imports BootHistory
begin

text \<open>
  The properties of the bootloader: its hash, the installation of a staged image, the decision at
  reset, a DFU update and what the bootloader never touches.  They are stated over the ROM of the
  chip; the instances use a ROM that keeps its promises (\<open>sample_rom\<close>) and a chip on which a small
  image is staged.
\<close>

unbundle bit_operations_syntax

section \<open>A chip for the instances\<close>

definition sample_rom :: "(nat \<Rightarrow> 8 word) rom_api" where
  "sample_rom = \<lparr>rom_xpi_nor_auto_config = 0, rom_xpi_nor_get_property = (0, 4096),
    rom_xpi_nor_erase_sector = (\<lambda>a f. (0, \<lambda>x. if 0x80000000 + unat a \<le> x \<and> x < 0x80000000 + unat a + 4096 then 0xFF else f x)),
    rom_xpi_nor_program = (\<lambda>a bs f. (0, \<lambda>x. if 0x80000000 + unat a \<le> x \<and> x < 0x80000000 + unat a + length bs
       then f x AND bs ! (x - (0x80000000 + unat a)) else f x)),
    rom_cells = (\<lambda>f. f)\<rparr>"

definition firmware :: "8 word list" where
  "firmware = le32_bytes BOARD_UF2_SIGNATURE @ [1, 2, 3, 4]"

definition sample_image :: "8 word list" where
  "sample_image = firmware @ le32_bytes kImageHashMagic @ fips_sha256 firmware"

definition sample_staging :: "nat \<Rightarrow> 8 word" where
  "sample_staging x =
    (if 0x80211000 \<le> x \<and> x < 0x80211000 + length sample_image then sample_image ! (x - 0x80211000)
     else if 0x80210000 \<le> x \<and> x < 0x8021000C
     then (le32_bytes kStagingMagic @ le32_bytes kStagingStateReady @ le32_bytes 44) ! (x - 0x80210000)
     else 0xFF)"

lemma sample_rom_ok: "rom_ok sample_rom"
  by (auto simp: rom_ok_def sample_rom_def)

lemma sample_available: "nor_available (XpiNor sample_rom)" "nor_sector_size (XpiNor sample_rom) = 4096"
  "nor_rom (XpiNor sample_rom) = sample_rom"
  by (simp_all add: XpiNor_def sample_rom_def)

lemma available_sector: "nor_available (XpiNor rom) \<Longrightarrow> nor_sector_size (XpiNor rom) = 4096"
  by (auto simp: XpiNor_def Let_def split: if_splits prod.splits)

lemma and3: "a AND 3 = 0 \<longleftrightarrow> unat a mod 4 = 0" for a :: "32 word"
proof -
  have "a AND 3 = take_bit 2 a" by (simp add: take_bit_eq_mask mask_eq_exp_minus_1)
  then have "unat (a AND 3) = unat a mod 4" by (simp add: take_bit_eq_mod unat_mod_distrib)
  then show ?thesis by (simp flip: unat_eq_0)
qed

lemma sample_works: "nor_works (xpi_flash (XpiNor sample_rom))"
proof -
  have e: "fst (erase_sector (XpiNor sample_rom) a f)" if "0x80000000 \<le> unat a" "unat a mod 4096 = 0" for a f
  proof -
    have "unat (a mod 4096) = 0" using that by (simp add: unat_mod_distrib)
    then have "a mod 4096 = 0" by (simp only: unat_eq_0)
    then show ?thesis using that(1)
      by (simp add: erase_sector_def sample_available word_less_nat_alt) (simp add: sample_rom_def)
  qed
  have p: "fst (program_words (XpiNor sample_rom) a bs f)" if "0x80000000 \<le> unat a" "unat a mod 4 = 0" for a bs f
    using that by (simp add: program_words_def sample_available word_less_nat_alt and3) (simp add: sample_rom_def)
  show ?thesis using e p by (simp add: nor_works_def xpi_flash_def)
qed

lemma length_sha [simp]: "length (fips_sha256 m) = 32"
proof -
  have "length (concat (map (be_bytes 4) s)) = 4 * length s" for s :: "32 word list"
    by (induction s) (auto simp: be_bytes_def)
  then show ?thesis by (simp add: fips_sha256_def)
qed

lemma sample_image_valid: "valid_image sample_image" "length sample_image = 44"
proof -
  show l: "length sample_image = 44" by (simp add: sample_image_def firmware_def)
  have "get32 sample_image 0 = BOARD_UF2_SIGNATURE" "get32 sample_image 8 = kImageHashMagic"
    by (simp_all add: get32_def byte_at_def l) (simp_all add: sample_image_def firmware_def le32_bytes_def nth_append le32_def)
  moreover have "take 8 sample_image = firmware" "drop 12 sample_image = fips_sha256 firmware"
    by (simp_all add: sample_image_def firmware_def)
  ultimately show "valid_image sample_image" by (simp add: valid_image_def l)
qed

lemma sample_staged: "image_ready (xpi_flash (XpiNor sample_rom)) sample_image sample_staging"
proof -
  let ?fl = "xpi_flash (XpiNor sample_rom)"
  have c: "fl_cells ?fl f = f" for f by (simp add: xpi_flash_def sample_available) (simp add: sample_rom_def)
  have w: "fl_word ?fl kStagingMetadataStart off sample_staging = v"
    if "\<And>i. i < 4 \<Longrightarrow> sample_staging (0x80210000 + off + i) = le32_bytes v ! i" for off v
    by (rule fl_word_eqI) (use that in \<open>simp add: c\<close>)
  have "fl_word ?fl kStagingMetadataStart 0 sample_staging = kStagingMagic"
    "fl_word ?fl kStagingMetadataStart 4 sample_staging = kStagingStateReady"
    "fl_word ?fl kStagingMetadataStart 8 sample_staging = 44"
    "fl_word ?fl kStagingMetadataStart 12 sample_staging = kFlashWordErased"
    by (rule w, drule less4, elim disjE, simp_all add: sample_staging_def sample_image_valid(2) le32_bytes_def nth_append)+
  moreover have "staged ?fl sample_image sample_staging" by (simp add: staged_iff c sample_staging_def)
  ultimately show ?thesis
    by (simp add: image_ready_def staging_record_is_ready_def staging_record_of_def Let_def sample_image_valid(2))
qed

section \<open>Helpers\<close>

lemma cells_rom: "fl_cells (xpi_flash (XpiNor rom)) = rom_cells rom"
  by (auto simp: xpi_flash_def XpiNor_def Let_def split: prod.split)

text \<open>What is read depends on the cells alone.\<close>

lemma same_cells:
  assumes "fl_cells fl = fl_cells fl'"
  shows "fl_word fl = fl_word fl'" "read_state fl = read_state fl'" "scan_latest_valid_slot fl = scan_latest_valid_slot fl'"
    "image_ready fl = image_ready fl'" "installed fl = installed fl'" "validate_app_image fl = validate_app_image fl'"
proof -
  have r: "fl_read fl = fl_read fl'" using assms by (simp add: fl_read_def fun_eq_iff)
  then show w: "fl_word fl = fl_word fl'" by (simp add: fl_word_def fun_eq_iff)
  show rs: "read_state fl = read_state fl'" by (simp add: read_state_def fun_eq_iff w)
  have "scan_from fl f ss md = scan_from fl' f ss md" for f ss md
    by (induction ss arbitrary: md) (simp_all add: rs split: DataSlotState.split)
  then show s: "scan_latest_valid_slot fl = scan_latest_valid_slot fl'" by (simp add: scan_latest_valid_slot_def fun_eq_iff)
  show "image_ready fl = image_ready fl'"
    by (simp add: image_ready_def staging_record_is_ready_def staging_record_of_def staged_def fun_eq_iff w r)
  show "installed fl = installed fl'" by (simp add: installed_def fun_eq_iff md_image_size_def s r w)
  show "validate_app_image fl = validate_app_image fl'"
    by (simp add: fun_eq_iff validate_app_image_def validate_candidate_image_def validate_image_at_def validate_image_hash_def
        has_valid_signature_at_def compute_image_sha256_def md_image_size_def w r)
qed

lemma works_available: "nor_works (xpi_flash x) \<Longrightarrow> nor_available x"
proof (rule ccontr)
  assume w: "nor_works (xpi_flash x)" and n: "\<not> nor_available x"
  have "fst (fl_erase (xpi_flash x) kFlashBaseAddress undefined)" using w by (simp add: nor_works_def)
  then show False using n by (simp add: xpi_flash_def erase_sector_def)
qed

section \<open>Interrupted installations\<close>

text \<open>Resets one after another, each with a flash that may fail in its own way, up to the first
  installation that succeeds.\<close>

fun installs :: "'f xpi_nor list \<Rightarrow> 8 word list \<Rightarrow> 'f \<Rightarrow> bool \<times> 8 word list \<times> 'f" where
  "installs [] buf f = (False, buf, f)"
| "installs (x # xs) buf f =
    (case install_staged_image_if_ready x None buf f of
       (ok, _, buf, f) \<Rightarrow> if ok then (True, buf, f) else installs xs buf f)"

lemma installs_survive:
  assumes rom: "rom_ok rom" "nor_works (xpi_flash (XpiNor rom))" and v: "valid_image img"
  shows "\<forall>r \<in> set roms. rom_ok r \<and> rom_cells r = rom_cells rom \<Longrightarrow> length buf = 4096
    \<Longrightarrow> image_ready (xpi_flash (XpiNor rom)) img f
    \<Longrightarrow> \<exists>buf' g. installs (map XpiNor roms @ [XpiNor rom]) buf f = (True, buf', g) \<and> installed (xpi_flash (XpiNor rom)) img g"
proof (induction roms arbitrary: buf f)
  case Nil
  obtain ok mdo buf' g where i: "install_staged_image_if_ready (XpiNor rom) None buf f = (ok, mdo, buf', g)" by (metis prod_cases4)
  have av: "nor_available (XpiNor rom)" by (rule works_available[OF rom(2)])
  have "ok \<and> installed (xpi_flash (XpiNor rom)) img g"
    using install_outcomes[OF xpi_nor_ok[OF rom(1)] av available_sector[OF av] Nil.prems(2) _ Nil.prems(3) v i] rom(2)
    by (simp add: get_instance_def)
  then show ?case using i by simp
next
  case (Cons r roms)
  let ?fl = "xpi_flash (XpiNor r)"
  have r: "rom_ok r" "rom_cells r = rom_cells rom" using Cons.prems(1) by auto
  note eqs = same_cells[of ?fl "xpi_flash (XpiNor rom)", unfolded cells_rom, OF r(2)]
  have ready: "image_ready ?fl img f" using Cons.prems(3) by (simp add: eqs)
  obtain ok mdo buf' g where i: "install_staged_image_if_ready (XpiNor r) None buf f = (ok, mdo, buf', g)" by (metis prod_cases4)
  have step: "length buf' = 4096 \<and> (if ok then installed ?fl img g else image_ready ?fl img g)"
  proof (cases "nor_available (XpiNor r)")
    case False
    then show ?thesis using i ready Cons.prems(2) by (simp add: install_staged_image_if_ready_def split: if_splits)
  next
    case av: True
    note O = install_outcomes[OF xpi_nor_ok[OF r(1)] av available_sector[OF av] Cons.prems(2) _ ready v i]
    have "image_ready ?fl img g" if "\<not> ok"
      by (rule image_ready_outside[OF ready, of "0x8001F000" "0x80200000"]) (use O that v in \<open>auto simp: get_instance_def valid_image_def\<close>)
    then show ?thesis using O by (simp add: get_instance_def)
  qed
  show ?case
  proof (cases ok)
    case True
    then show ?thesis using i step by (simp add: eqs)
  next
    case False
    then have "image_ready (xpi_flash (XpiNor rom)) img g" "length buf' = 4096" using step by (simp_all add: eqs)
    from Cons.IH[OF _ this(2,1)] show ?thesis using i False Cons.prems(1) by simp
  qed
qed

section \<open>A slot that is skipped\<close>

lemma scan_gap:
  assumes "k + 2 < 256" "read_state fl (data_slot_at k) f = SlotReady" "read_state fl (data_slot_at (k + 1)) f = SlotEmpty"
    "read_state fl (data_slot_at (k + 2)) f \<noteq> SlotEmpty"
  shows "scan_latest_valid_slot fl f = md_none"
  using scan_found[of fl f]
proof
  assume "found fl f 256 (scan_latest_valid_slot fl f)"
  then show ?thesis
  proof cases
    case found_empty
    then show ?thesis using assms(1,2) by (simp add: slots_are_def)
  next
    case (found_ready j)
    have "\<not> k + 1 \<le> j" using found_ready(3) assms(3) by (auto simp: slots_are_def)
    then show ?thesis using found_ready(4) assms(1,4) by (auto simp: slots_are_def)
  next
    case (found_flashing j)
    consider "j \<le> k" | "j = k + 1" | "k + 1 < j" by linarith
    then show ?thesis
    proof cases
      case 1
      then show ?thesis using found_flashing(4,5) assms(1,2) by (cases "j = k") (auto simp: slots_are_def)
    next
      case 2
      then show ?thesis using found_flashing(4) assms(3) by simp
    next
      case 3
      then show ?thesis using found_flashing(3) assms(3) by (auto simp: slots_are_def)
    qed
  qed
qed

section \<open>Properties\<close>

text \<open>
  C34.  The incremental hash of the bootloader is SHA-256: whatever the pieces in which a message is
  fed to \<open>sha256_update\<close>, empty ones and partial chunks included, \<open>sha256_final\<close> returns the digest that
  FIPS 180-4 defines for their concatenation.
\<close>

theorem sha256_streaming:
  "snd (sha256_final (fold sha256_update css (sha256_init Sha256Ctx))) = fips_sha256 (concat css)"
  by (rule sha256_chunks)

text \<open>
  C35.  An installation that reports success is one: there was a committed staging record with an
  image that is valid (signature, suffix magic and SHA-256), the application slot now holds exactly
  its bytes, a scan of the metadata finds a ready record of its size, and the image passes the check
  that precedes the jump.
\<close>

theorem install_success:
  assumes "rom_ok rom" and "nor_available (XpiNor rom)" and "length buf = 4096"
    and "install_staged_image_if_ready (XpiNor rom) None buf f = (True, mdo, buf', g)"
  shows "\<exists>img md. image_ready (xpi_flash (XpiNor rom)) img f \<and> valid_image img
    \<and> fl_read (xpi_flash (XpiNor rom)) 0x80020000 (length img) g = img
    \<and> mdo = Some md \<and> md = scan_latest_valid_slot (xpi_flash (XpiNor rom)) g
    \<and> unat (md_image_size (xpi_flash (XpiNor rom)) md g) = length img \<and> validate_app_image (xpi_flash (XpiNor rom)) md g"
proof -
  from install_keeps[OF xpi_nor_ok[OF assms(1)] available_sector assms(3,4)]
  obtain img where "image_ready (xpi_flash (XpiNor rom)) img f" "valid_image img" "installed (xpi_flash (XpiNor rom)) img g"
    "mdo = Some (scan_latest_valid_slot (xpi_flash (XpiNor rom)) g)" by blast
  then show ?thesis using installed_boots[of "xpi_flash (XpiNor rom)" img g] by (auto simp: installed_def)
qed

lemma sample_install: "\<exists>mdo buf' g. install_staged_image_if_ready (XpiNor sample_rom) None (replicate 4096 0) sample_staging = (True, mdo, buf', g)"
proof -
  obtain ok mdo buf' g where i: "install_staged_image_if_ready (XpiNor sample_rom) None (replicate 4096 0) sample_staging = (ok, mdo, buf', g)"
    by (metis prod_cases4)
  have ok using install_outcomes[OF xpi_nor_ok[OF sample_rom_ok] sample_available(1,2) _ _ sample_staged sample_image_valid(1) i] sample_works
    by (simp add: get_instance_def)
  then show ?thesis using i by (intro exI) simp
qed

theorem install_success_witness:
  "\<exists>g. fl_read (xpi_flash (XpiNor sample_rom)) 0x80020000 44 g = sample_image
     \<and> validate_app_image (xpi_flash (XpiNor sample_rom)) (scan_latest_valid_slot (xpi_flash (XpiNor sample_rom)) g) g"
proof -
  obtain mdo buf' g where i: "install_staged_image_if_ready (XpiNor sample_rom) None (replicate 4096 0) sample_staging = (True, mdo, buf', g)"
    using sample_install by (elim exE)
  obtain img where img: "image_ready (xpi_flash (XpiNor sample_rom)) img sample_staging"
    "fl_read (xpi_flash (XpiNor sample_rom)) 0x80020000 (length img) g = img"
    "validate_app_image (xpi_flash (XpiNor sample_rom)) (scan_latest_valid_slot (xpi_flash (XpiNor sample_rom)) g) g"
    using install_success[OF sample_rom_ok sample_available(1) _ i] by auto
  have "img = sample_image" using img(1) sample_staged sample_image_valid(2) by (simp add: image_ready_def staged_def)
  then show ?thesis using img(2,3) sample_image_valid(2) by auto
qed

text \<open>
  C36.  No interruption loses an image: let a valid image be committed, and let any number of resets
  follow whose flash fails at any operation, tearing at most the range it was given (a power loss is
  such a failure).  The first reset with a working flash, or an earlier one, completes the
  installation: the slot holds the image and the bootloader will enter it.
\<close>

theorem install_survives_interruptions:
  assumes "\<forall>r \<in> set roms. rom_ok r \<and> rom_cells r = rom_cells rom" and "rom_ok rom" and "nor_works (xpi_flash (XpiNor rom))"
    and "length buf = 4096" and "image_ready (xpi_flash (XpiNor rom)) img f" and "valid_image img"
  shows "\<exists>buf' g. installs (map XpiNor roms @ [XpiNor rom]) buf f = (True, buf', g)
    \<and> fl_read (xpi_flash (XpiNor rom)) 0x80020000 (length img) g = img
    \<and> validate_app_image (xpi_flash (XpiNor rom)) (scan_latest_valid_slot (xpi_flash (XpiNor rom)) g) g"
proof -
  obtain buf' g where g: "installs (map XpiNor roms @ [XpiNor rom]) buf f = (True, buf', g)" "installed (xpi_flash (XpiNor rom)) img g"
    using installs_survive[OF assms(2,3,6,1,4,5)] by blast
  show ?thesis
    by (intro exI conjI, rule g(1)) (use g(2) installed_boots[OF g(2) assms(6)] in \<open>simp_all add: installed_def\<close>)
qed

text \<open>A chip that refuses every erase and tears every program, for the instance.\<close>

definition broken_rom :: "(nat \<Rightarrow> 8 word) rom_api" where
  "broken_rom = sample_rom\<lparr>rom_xpi_nor_erase_sector := (\<lambda>a f. (1, f)),
     rom_xpi_nor_program := (\<lambda>a bs f. (1, \<lambda>x. if 0x80000000 + unat a \<le> x \<and> x < 0x80000000 + unat a + length bs then 0 else f x))\<rparr>"

theorem install_survives_interruptions_witness:
  "\<exists>buf' g. installs [XpiNor broken_rom, XpiNor broken_rom, XpiNor sample_rom] (replicate 4096 0) sample_staging = (True, buf', g)
    \<and> fl_read (xpi_flash (XpiNor sample_rom)) 0x80020000 44 g = sample_image"
proof -
  have "\<forall>r \<in> set [broken_rom, broken_rom]. rom_ok r \<and> rom_cells r = rom_cells sample_rom"
    by (auto simp: broken_rom_def rom_ok_def sample_rom_def)
  from install_survives_interruptions[OF this sample_rom_ok sample_works _ sample_staged sample_image_valid(1), of "replicate 4096 0"]
  show ?thesis using sample_image_valid(2) by auto
qed

text \<open>
  C37.  Whatever the chip holds and however its flash behaves, the bootloader enters the application only
  on a recognized board, without the key held and without a DFU request, and only if the metadata name a
  size at which the slot holds a valid image: signature, suffix magic, SHA-256.
\<close>

theorem boot_enters_only_valid_images:
  assumes "boot (XpiNor rom) board_recognized force_stay dfu_requested buf f = (True, mdo, buf', g)"
  shows "board_recognized \<and> \<not> force_stay \<and> \<not> dfu_requested
    \<and> (\<exists>md. mdo = Some md \<and> md_is_ready md
        \<and> valid_image (fl_read (xpi_flash (XpiNor rom)) 0x80020000 (unat (md_image_size (xpi_flash (XpiNor rom)) md g)) g))"
proof -
  let ?fl = "xpi_flash (XpiNor rom)"
  obtain md where md: "board_recognized" "\<not> force_stay" "\<not> dfu_requested" "mdo = Some md" "validate_app_image ?fl md g"
    using assms by (auto simp: boot_def Let_def split: if_splits prod.splits)
  let ?n = "md_image_size ?fl md g"
  have r: "md_is_ready md" "validate_image_at ?fl kAppStartAddress ?n 0x1E0000 g"
    using md(5) by (simp_all add: validate_app_image_def validate_candidate_image_def)
  have "?n \<le> 0x1E0000" using r(2) by (auto simp: validate_image_at_def split: if_splits)
  then have "unat kAppStartAddress + unat ?n < 2 ^ 32" by (simp add: word_le_nat_alt)
  from validate_image_at_iff[OF refl this, of ?fl g] r show ?thesis using md by auto
qed

theorem boot_enters_only_valid_images_witness:
  "\<exists>mdo buf' g. boot (XpiNor sample_rom) True False False (replicate 4096 0) sample_staging = (True, mdo, buf', g)
     \<and> (\<exists>md. mdo = Some md \<and> md_is_ready md)"
proof -
  obtain m b1 f1 where i: "install_staged_image_if_ready (XpiNor sample_rom) None (replicate 4096 0) sample_staging = (True, m, b1, f1)"
    using sample_install by (elim exE)
  from install_keeps[OF xpi_nor_ok[OF sample_rom_ok] available_sector _ i]
  obtain img where "valid_image img" "installed (xpi_flash (XpiNor sample_rom)) img f1"
    "m = Some (scan_latest_valid_slot (xpi_flash (XpiNor sample_rom)) f1)" by auto
  then have b: "boot (XpiNor sample_rom) True False False (replicate 4096 0) sample_staging = (True, m, b1, f1)"
    using i installed_boots[of "xpi_flash (XpiNor sample_rom)" img f1] by (simp add: boot_def get_instance_def)
  from boot_enters_only_valid_images[OF b] show ?thesis using b by blast
qed

text \<open>
  C38.  The bootloader does not damage itself, the EEPROM emulation or the staged image: for every sequence
  of DFU requests, with any block numbers, lengths and data, and of resets, and for every behaviour of
  the flash that stays within the ranges it is given, no cell below the metadata sector, between the
  application slot and the staging record, or from the staged image on is changed.
\<close>

theorem bootloader_is_kept:
  assumes "rom_ok rom" and "nor_available (XpiNor rom)" and "length buf = 4096" and "\<forall>ev \<in> set evs. announced ev"
    and "a < 0x8001F000 \<or> 0x80200000 \<le> a \<and> a < 0x80210000 \<or> 0x80211000 \<le> a"
  shows "rom_cells rom (chip (fold (boot_step (XpiNor rom) board_recognized) evs (Dfu_new buf None f))) a = rom_cells rom f a"
proof -
  have "dfu_ok (xpi_flash (XpiNor rom)) (Dfu_new buf None f)"
    using assms(3) by (simp add: dfu_ok_def Dfu_new_def new_writer_def)
  from boot_steps_keep[OF xpi_nor_ok[OF assms(1)] available_sector[OF assms(2)] this assms(4)] assms(5)
  show ?thesis by (auto simp: kept_def cells_rom Dfu_new_def)
qed

theorem bootloader_is_kept_witness:
  "rom_cells sample_rom (chip (fold (boot_step (XpiNor sample_rom) True)
     [Reset False False, Download 0 0 (Some [1, 2]) 2, Download 0 7 None 9, Abort 0, Manifest 5 0, Reset True False]
     (Dfu_new (replicate 4096 0) None sample_staging))) 0x80211000 = 0x48"
  using bootloader_is_kept[OF sample_rom_ok sample_available(1), of "replicate 4096 0"
      "[Reset False False, Download 0 0 (Some [1, 2]) 2, Download 0 7 None 9, Abort 0, Manifest 5 0, Reset True False]"
      "0x80211000" True sample_staging]
  by (simp add: sample_rom_def sample_staging_def sample_image_valid(2)) (simp add: sample_image_def firmware_def le32_bytes_def)

text \<open>
  C39.  A DFU update does what it reports: if the blocks of a download are all accepted and the manifest
  succeeds, the data were a valid image, the slot holds exactly them, and the checks of the next reset,
  the scan of the metadata and the validation of the slot, accept it.  (A reset that finds a committed staged
  image installs that one first.)  On a working flash and a recognized board every valid image is accepted.  The update starts in any state the bootloader reaches, from
  any content of the chip, by DFU requests and resets, under one condition on what the bootloader remembers:
  the flash has worked since the start, or nothing of the metadata has been read since the last reset, or the
  last event was a reset that found no staged image to install.  (C40 shows that the condition is needed: after a
  failed flash operation the record in memory may be wrong until the next reset.)
\<close>

theorem dfu_update:
  assumes rom: "rom_ok rom" "nor_available (XpiNor rom)" and buf: "length buf = 4096"
    and evs: "\<forall>ev \<in> set evs. announced ev" "d = fold (boot_step (XpiNor rom) rcg) evs (Dfu_new buf None f)"
    and known: "nor_works (xpi_flash (XpiNor rom)) \<or> since_reset (XpiNor rom) rcg evs (Dfu_new buf None f)"
    and bss: "bss \<noteq> []" "\<forall>bs \<in> set bss. 0 < length bs \<and> length bs \<le> 1024" "length bss < 65536"
  shows "(\<forall>d1 d2. dfu_blocks (XpiNor rom) rcg 0 bss d = (True, d1) \<and> manifest (XpiNor rom) now 0 d1 = (DFU_STATUS_OK, d2)
      \<longrightarrow> rcg \<and> valid_image (concat bss) \<and> fl_read (xpi_flash (XpiNor rom)) 0x80020000 (length (concat bss)) (chip d2) = concat bss
        \<and> validate_app_image (xpi_flash (XpiNor rom)) (scan_latest_valid_slot (xpi_flash (XpiNor rom)) (chip d2)) (chip d2) \<and> reset_requested d2)
    \<and> (nor_works (xpi_flash (XpiNor rom)) \<and> rcg \<and> valid_image (concat bss) \<longrightarrow>
      (\<exists>d1. dfu_blocks (XpiNor rom) rcg 0 bss d = (True, d1) \<and> fst (manifest (XpiNor rom) now 0 d1) = DFU_STATUS_OK))"
proof -
  let ?x = "XpiNor rom" and ?fl = "xpi_flash (XpiNor rom)"
  note nor = xpi_nor_ok[OF rom(1)] and ss = available_sector[OF rom(2)]
  note H = history_known[OF nor ss buf evs(1) known, folded evs(2)]
  note d = H(1) and md = H(2)[unfolded md_known_def]
  obtain bs rest where b: "bss = bs # rest" "0 < length bs" "length bs \<le> 1024" using bss by (cases bss) auto
  obtain st e where e: "download ?x rcg 0 0 (Some bs) (of_nat (length bs)) d = (st, e)" by force
  have run: "session_run ?fl (concat bss) d1 \<and> rcg" if r: "dfu_blocks ?x rcg 0 bss d = (True, d1)" for d1
  proof -
    have st: "st = DFU_STATUS_OK" "dfu_blocks ?x rcg (of_nat 1) rest e = (True, d1)" using r b(1) e by (auto split: if_splits)
    have s: "session_run ?fl bs e \<and> rcg" by (rule download_first[OF nor ss d md b(2,3) e[unfolded st(1)]])
    show ?thesis using dfu_blocks_run[OF nor ss _ _ _ _ st(2), of bs] s bss b(1) by simp
  qed
  have one: "rcg \<and> valid_image (concat bss) \<and> fl_read ?fl 0x80020000 (length (concat bss)) (chip d2) = concat bss
        \<and> validate_app_image ?fl (scan_latest_valid_slot ?fl (chip d2)) (chip d2) \<and> reset_requested d2"
    if "dfu_blocks ?x rcg 0 bss d = (True, d1)" "manifest ?x now 0 d1 = (DFU_STATUS_OK, d2)" for d1 d2
  proof -
    note s = run[OF that(1)]
    then have "dfu_ok ?fl d1" by (simp add: session_run_def)
    from manifest_result[OF nor this that(2)] s
    have "valid_image (concat bss)" "installed ?fl (concat bss) (chip d2)" "reset_requested d2"
      unfolding session_run_def by blast+
    then show ?thesis using s installed_boots[of ?fl "concat bss" "chip d2"] by (simp add: installed_def)
  qed
  have two: "\<exists>d1. dfu_blocks ?x rcg 0 bss d = (True, d1) \<and> fst (manifest ?x now 0 d1) = DFU_STATUS_OK"
    if w: "nor_works ?fl" "rcg" "valid_image (concat bss)"
  proof -
    have lim: "length bs + length (concat rest) \<le> 0x1E0000" using w(3) b(1) by (simp add: valid_image_def)
    obtain e1 where e1: "download ?x rcg 0 0 (Some bs) (of_nat (length bs)) d = (DFU_STATUS_OK, e1)" "expected_block e1 = of_nat 1"
      using download_opens[OF nor w(1) ss d md b(2,3)] lim w(2) by auto
    have s: "session_run ?fl bs e1" using download_first[OF nor ss d md b(2,3) e1(1)] by simp
    have "fst (dfu_blocks ?x True (of_nat 1) rest e1)"
      by (rule dfu_blocks_work[OF nor w(1) ss s e1(2)]) (use bss b(1) lim in auto)
    then obtain d1 where "dfu_blocks ?x rcg 0 bss d = (True, d1)" using b(1) e1(1) w(2) by (cases "dfu_blocks ?x True 1 rest e1") auto
    then show ?thesis using manifest_works[OF nor w(1) _ w(3)] run by blast
  qed
  show ?thesis using one two by blast
qed

theorem dfu_update_witness:
  "\<exists>d1 d2. dfu_blocks (XpiNor sample_rom) True 0 [take 20 sample_image, drop 20 sample_image]
         (fold (boot_step (XpiNor sample_rom) True) [Reset False False, Download 0 0 (Some [1, 2]) 2, Abort 0]
            (Dfu_new (replicate 4096 0) None sample_staging)) = (True, d1)
     \<and> manifest (XpiNor sample_rom) 7 0 d1 = (DFU_STATUS_OK, d2) \<and> fl_read (xpi_flash (XpiNor sample_rom)) 0x80020000 44 (chip d2) = sample_image"
proof -
  define evs where "evs = [Reset False False, Download 0 0 (Some [1, 2]) 2, Abort 0]"
  define d bss where "d = fold (boot_step (XpiNor sample_rom) True) evs (Dfu_new (replicate 4096 0) None sample_staging)"
    and "bss = [take 20 sample_image, drop 20 sample_image]"
  have ok: "length (replicate 4096 (0 :: 8 word)) = 4096" "\<forall>ev \<in> set evs. announced ev" by (simp_all add: evs_def)
  have b: "bss \<noteq> []" "\<forall>bs \<in> set bss. 0 < length bs \<and> length bs \<le> 1024" "length bss < 65536" "concat bss = sample_image"
    using sample_image_valid(2) by (auto simp: bss_def)
  note U = dfu_update[OF sample_rom_ok sample_available(1) ok d_def disjI1[OF sample_works] b(1-3), of 7, unfolded b(4)]
  obtain d1 where d1: "dfu_blocks (XpiNor sample_rom) True 0 bss d = (True, d1)" "fst (manifest (XpiNor sample_rom) 7 0 d1) = DFU_STATUS_OK"
    using U sample_works sample_image_valid(1) by blast
  obtain d2 where d2: "manifest (XpiNor sample_rom) 7 0 d1 = (DFU_STATUS_OK, d2)" using d1(2) by (metis prod.collapse)
  have "fl_read (xpi_flash (XpiNor sample_rom)) 0x80020000 (length sample_image) (chip d2) = sample_image" using U d1(1) d2 by blast
  then show ?thesis using d1(1) d2 unfolding sample_image_valid(2) d_def bss_def evs_def by blast
qed

text \<open>
  C40.  What one failed flash word does to the next update.  Let the metadata end in a ready record and let
  the marker of a new session fail to be programmed once, the chip staying as it was.  The call reports the
  failure, but the cached record has moved to the empty slot; the next attempt, on a flash that works again, skips
  that slot.  It succeeds, and so does the commit, but a scan at the next reset meets an empty slot before a used
  one and finds no image: the update that was reported as done does not boot.
\<close>

theorem failed_marker_hides_the_next_image:
  assumes "nor_ok fl2" and "nor_works fl2" and "fl_cells fl2 = fl_cells fl1"
    and "found fl1 f 256 (md_of k SlotReady)" and "k + 2 < 256" and "sz \<le> kAppMaxImageSize"
    and "program_word fl1 (data_slot_at (k + 1)) kImageMetadataMagic f = (False, f)"
  shows "begin_flashing fl1 (md_of k SlotReady) f = (False, md_of (k + 1) SlotReady, f)
    \<and> (\<exists>md g md' h. begin_flashing fl2 (md_of (k + 1) SlotReady) f = (True, md, g)
        \<and> finish_flashing fl2 sz md g = (True, md', h) \<and> md_is_ready md' \<and> md_image_size fl2 md' h = sz
        \<and> \<not> validate_app_image fl2 (scan_latest_valid_slot fl2 h) h)"
proof -
  have st: "read_state fl1 (data_slot_at k) f = SlotReady" "read_state fl1 (data_slot_at (k + 1)) f = SlotEmpty"
    "read_state fl1 (data_slot_at (k + 2)) f = SlotEmpty"
    using found_slot[OF assms(4)] assms(5) by (auto simp: md_of_def data_slot_inj slots_are_def)
  note st2 = st[folded same_cells(2)[OF assms(3)]]
  have ends: "\<not> kMetadataEndAddress \<le> data_slot_at (Suc k)" "\<not> kMetadataEndAddress \<le> data_slot_at (Suc (Suc k))"
    using slot_end[of "Suc k"] slot_end[of "Suc (Suc k)"] assms(5) by auto
  have one: "begin_flashing fl1 (md_of k SlotReady) f = (False, md_of (k + 1) SlotReady, f)"
    using st(2) assms(7) ends(1) by (simp add: begin_flashing_def md_of_def slot_address_def slot_next enter_flashing_def enter_flashing_state_def)
  have k2: "k + 2 < 256" "data_slot_at (k + 2) = data_slot_at (Suc (Suc k))" using assms(5) by simp_all
  obtain ok g where e: "enter_flashing_state fl2 (data_slot_at (k + 2)) f = (ok, g)" by force
  note E = enter_flashing_state_slot[OF assms(1) k2(1) st2(3) e]
  have two: "begin_flashing fl2 (md_of (k + 1) SlotReady) f = (True, md_of (k + 2) SlotFlashing, g)"
    using e E(3) assms(2) ends(2) by (simp add: begin_flashing_def md_of_def slot_address_def slot_next enter_flashing_def)
  have fl: "read_state fl2 (data_slot_at (k + 2)) g = SlotFlashing" using E(2,3) assms(2) by blast
  obtain ok2 h where r: "enter_ready_state fl2 (data_slot_at (k + 2)) sz g = (ok2, h)" by force
  note R = enter_ready_state_slot[OF assms(1) k2(1) fl r]
  have rdy: "ok2" "read_state fl2 (data_slot_at (k + 2)) h = SlotReady" "fl_word fl2 (data_slot_at (k + 2)) 8 h = sz" using R(2,3) assms(2,6) by blast+
  have three: "finish_flashing fl2 sz (md_of (k + 2) SlotFlashing) g = (True, md_of (k + 2) SlotReady, h)"
    using r rdy(1) by (simp add: finish_flashing_def md_of_def slot_address_def)
  have keep: "read_state fl2 (data_slot_at j) h = read_state fl2 (data_slot_at j) f" if "j < k + 2" for j
    using other_slots[OF E(1) k2(1), of j] other_slots[OF R(1) k2(1), of j] that assms(5) by simp
  have "scan_latest_valid_slot fl2 h = md_none"
    by (rule scan_gap[OF assms(5)]) (use keep st2 rdy in auto)
  then have "\<not> validate_app_image fl2 (scan_latest_valid_slot fl2 h) h" by (simp add: validate_app_image_def md_is_ready_def)
  moreover have "md_is_ready (md_of (k + 2) SlotReady)" "md_image_size fl2 (md_of (k + 2) SlotReady) h = sz"
    using rdy(3) by (simp_all add: md_is_ready_def md_of_def md_image_size_def slot_address_def)
  ultimately show ?thesis using one two three by blast
qed

text \<open>A chip that refuses to program, and metadata with one ready record of 100 bytes.\<close>

definition refusing_rom :: "(nat \<Rightarrow> 8 word) rom_api" where
  "refusing_rom = sample_rom\<lparr>rom_xpi_nor_program := (\<lambda>a bs f. (1, f))\<rparr>"

definition sample_metadata :: "nat \<Rightarrow> 8 word" where
  "sample_metadata x = (if 0x8001F000 \<le> x \<and> x < 0x8001F00C
     then (le32_bytes kImageMetadataMagic @ le32_bytes kImageStateReady @ le32_bytes 100) ! (x - 0x8001F000) else 0xFF)"

lemma sample_metadata_found: "found (xpi_flash (XpiNor refusing_rom)) sample_metadata 256 (md_of 0 SlotReady)"
proof -
  let ?fl = "xpi_flash (XpiNor refusing_rom)"
  have c: "fl_cells ?fl f = f" for f by (simp add: cells_rom) (simp add: refusing_rom_def sample_rom_def)
  have w: "fl_word ?fl (data_slot_at k) off sample_metadata = v"
    if "k < 256" "\<And>i. i < 4 \<Longrightarrow> sample_metadata (0x8001F000 + 16 * k + off + i) = le32_bytes v ! i" for k off v
    by (rule fl_word_eqI) (use that in \<open>simp add: c unat_slot\<close>)
  have "fl_word ?fl (data_slot_at 0) 0 sample_metadata = kImageMetadataMagic"
    "fl_word ?fl (data_slot_at 0) 4 sample_metadata = kImageStateReady" "fl_word ?fl (data_slot_at 0) 8 sample_metadata = 100"
    by (rule w, simp, drule less4, elim disjE, simp_all add: sample_metadata_def le32_bytes_def nth_append)+
  then have "read_state ?fl (data_slot_at 0) sample_metadata = SlotReady" by (simp add: read_state_def)
  moreover have "read_state ?fl (data_slot_at k) sample_metadata = SlotEmpty" if "0 < k" "k < 256" for k
  proof -
    have "fl_word ?fl (data_slot_at k) off sample_metadata = kFlashWordErased" for off
      by (rule w[OF that(2)]) (use that(1) in \<open>simp add: sample_metadata_def erased_word\<close>)
    then show ?thesis by (simp add: read_state_def)
  qed
  ultimately show ?thesis by (intro found_ready) (auto simp: slots_are_def)
qed

theorem failed_marker_hides_the_next_image_witness:
  "\<exists>md g md' h. begin_flashing (xpi_flash (XpiNor sample_rom))
        (fst (snd (begin_flashing (xpi_flash (XpiNor refusing_rom)) (md_of 0 SlotReady) sample_metadata))) sample_metadata = (True, md, g)
      \<and> finish_flashing (xpi_flash (XpiNor sample_rom)) 44 md g = (True, md', h) \<and> md_is_ready md'
      \<and> \<not> validate_app_image (xpi_flash (XpiNor sample_rom)) (scan_latest_valid_slot (xpi_flash (XpiNor sample_rom)) h) h"
proof -
  have c: "fl_cells (xpi_flash (XpiNor sample_rom)) = fl_cells (xpi_flash (XpiNor refusing_rom))"
    by (simp add: cells_rom) (simp add: refusing_rom_def)
  have p: "program_word (xpi_flash (XpiNor refusing_rom)) (data_slot_at (0 + 1)) kImageMetadataMagic sample_metadata = (False, sample_metadata)"
    by (simp add: program_word_def xpi_flash_def program_words_def refusing_rom_def XpiNor_def sample_rom_def le32_bytes_def)
  note M = failed_marker_hides_the_next_image[OF xpi_nor_ok[OF sample_rom_ok] sample_works c sample_metadata_found _ _ p, of 44]
  have f: "fst (snd (begin_flashing (xpi_flash (XpiNor refusing_rom)) (md_of 0 SlotReady) sample_metadata)) = md_of (0 + 1) SlotReady"
    using M by simp
  show ?thesis unfolding f using M by simp blast
qed

end
