(* ===== verification/RingBuffer.thy ===== *)
theory RingBuffer
  imports BoundedFifo
begin

text \<open>
  The ring buffer of the board's drivers, \<open>app/src/utility/ring_buffer.hpp\<close>: a template over the element
  type and the size, a power of two, with two free-running indices whose type is the smallest that
  holds the size.  Here the element type is \<open>'a\<close> and the index type \<open>'i word\<close>; a slot keeps its old
  value after the element is destroyed, and no definition reads it before it is written again.

  The two sides are used one after the other: an operation is one step.  The functor of
  \<open>emplace_back_n\<close> is a function of the number of the call, that of \<open>pop_front_n\<close> is the list of the
  elements it is called with.
\<close>

unbundle bit_operations_syntax

section \<open>The operations\<close>

record (overloaded) ('a, 'i) ring =
  storage :: "'a list"
  rb_in :: "'i word"
  rb_out :: "'i word"

definition rb_mask :: "('a, 'i :: len) ring \<Rightarrow> 'i word" where
  "rb_mask r = of_nat (length (storage r) - 1)"

definition readable :: "('a, 'i :: len) ring \<Rightarrow> nat" where
  "readable r = unat (rb_in r - rb_out r)"

definition writable :: "('a, 'i :: len) ring \<Rightarrow> nat" where
  "writable r = length (storage r) - unat (rb_in r - rb_out r)"

definition peek_front :: "('a, 'i :: len) ring \<Rightarrow> 'a option" where
  "peek_front r = (if rb_out r = rb_in r then None else Some (storage r ! unat (rb_out r AND rb_mask r)))"

definition peek_back :: "('a, 'i :: len) ring \<Rightarrow> 'a option" where
  "peek_back r =
    (if rb_in r = rb_out r then None
     else Some (storage r ! nat ((int (unat (rb_in r)) - 1) mod int (length (storage r)))))"

text \<open>The loops that construct the elements \<open>xs\<close> in the slots from \<open>offset\<close> on.\<close>

primrec construct :: "nat \<Rightarrow> 'a list \<Rightarrow> 'a list \<Rightarrow> 'a list" where
  "construct offset [] st = st"
| "construct offset (x # xs) st = construct (offset + 1) xs (st[offset := x])"

definition emplace_back_n :: "(nat \<Rightarrow> 'a) \<Rightarrow> nat \<Rightarrow> bool \<Rightarrow> ('a, 'i :: len) ring \<Rightarrow> nat \<times> ('a, 'i) ring" where
  "emplace_back_n functor count fail_fast r =
    (let used = rb_in r - rb_out r;
         writable = length (storage r) - unat used;
         count = (if count > writable then (if fail_fast then 0 else writable) else count) in
     if count = 0 then (0, r)
     else let offset = unat (rb_in r AND rb_mask r);
              slice = min count (length (storage r) - offset);
              st = construct offset (map functor [0..<slice]) (storage r);
              st = construct 0 (map functor [slice..<count]) st in
          (count, r\<lparr>storage := st, rb_in := rb_in r + of_nat count\<rparr>))"

definition push_back :: "'a \<Rightarrow> ('a, 'i :: len) ring \<Rightarrow> bool \<times> ('a, 'i) ring" where
  "push_back x r = (let (n, r) = emplace_back_n (\<lambda>_. x) 1 False r in (n \<noteq> 0, r))"

definition pop_front_n :: "nat \<Rightarrow> ('a, 'i :: len) ring \<Rightarrow> 'a list \<times> ('a, 'i) ring" where
  "pop_front_n count r =
    (let readable = unat (rb_in r - rb_out r);
         count = min count readable in
     if count = 0 then ([], r)
     else let offset = unat (rb_out r AND rb_mask r);
              slice = min count (length (storage r) - offset) in
          (map (\<lambda>i. storage r ! (offset + i)) [0..<slice] @ map (\<lambda>i. storage r ! i) [0..<count - slice],
           r\<lparr>rb_out := rb_out r + of_nat count\<rparr>))"

definition pop_front :: "('a, 'i :: len) ring \<Rightarrow> ('a \<times> ('a, 'i) ring) option" where
  "pop_front r = (case pop_front_n 1 r of ([], r) \<Rightarrow> None | (x # _, r) \<Rightarrow> Some (x, r))"

text \<open>\<open>clear\<close> pops with the largest \<open>size_t\<close> as its limit.\<close>

definition clear :: "('a, 'i :: len) ring \<Rightarrow> nat \<times> ('a, 'i) ring" where
  "clear r = (let (xs, r) = pop_front_n (2 ^ 32 - 1) r in (length xs, r))"

section \<open>What a ring holds\<close>

text \<open>The constraints that the class asserts of its size, which the index type has room for.\<close>

definition rb_ok :: "('a, 'i :: len) ring \<Rightarrow> bool" where
  "rb_ok r = (\<exists>k. length (storage r) = 2 ^ k \<and> 0 < k \<and> k < LENGTH('i) \<and> k < 32 \<and> readable r \<le> length (storage r))"

definition elements :: "('a, 'i :: len) ring \<Rightarrow> 'a list" where
  "elements r = map (\<lambda>i. storage r ! ((unat (rb_out r) + i) mod length (storage r))) [0..<readable r]"

lemma rb_sizes:
  assumes "rb_ok (r :: ('a, 'i :: len) ring)"
  shows "1 < length (storage r)" "length (storage r) < 2 ^ LENGTH('i)" "length (storage r) < 2 ^ 32" "length (storage r) dvd 2 ^ LENGTH('i)"
    "readable r \<le> length (storage r)"
proof -
  from assms obtain k where k: "length (storage r) = 2 ^ k" "0 < k" "k < LENGTH('i)" "k < 32" "readable r \<le> length (storage r)"
    by (auto simp: rb_ok_def)
  show "1 < length (storage r)" unfolding k(1) using one_less_power[of "2 :: nat" k] k(2) by simp
  show "length (storage r) < 2 ^ LENGTH('i)" unfolding k(1) using k(3) by (intro power_strict_increasing) simp_all
  show "length (storage r) < 2 ^ 32" unfolding k(1) using k(4) by (intro power_strict_increasing) simp_all
  show "length (storage r) dvd 2 ^ LENGTH('i)" unfolding k(1) using k(3) by (intro le_imp_power_dvd) simp
  show "readable r \<le> length (storage r)" by (rule k(5))
qed

lemma rb_index:
  assumes "rb_ok (r :: ('a, 'i :: len) ring)"
  shows "unat (w AND rb_mask r) = unat w mod length (storage r)"
proof -
  from assms obtain k where k: "length (storage r) = 2 ^ k" "k < LENGTH('i)" by (auto simp: rb_ok_def)
  have "rb_mask r = mask k" by (simp add: rb_mask_def k(1) mask_eq_decr_exp of_nat_diff)
  then have "w AND rb_mask r = take_bit k w" by (simp add: take_bit_eq_mask)
  then show ?thesis by (simp only: unsigned_take_bit_eq k(1)) (simp add: take_bit_eq_mod)
qed

lemma rb_in_mod:
  assumes "rb_ok (r :: ('a, 'i :: len) ring)"
  shows "unat (rb_in r) mod length (storage r) = (unat (rb_out r) + readable r) mod length (storage r)"
proof -
  have "rb_in r = rb_out r + (rb_in r - rb_out r)" by simp
  then have "unat (rb_in r) = (unat (rb_out r) + readable r) mod 2 ^ LENGTH('i)"
    unfolding readable_def by (metis unat_word_ariths(1))
  then show ?thesis using rb_sizes(4)[OF assms] by (simp add: mod_mod_cancel)
qed

lemma length_construct [simp]: "length (construct n xs st) = length st"
  by (induction xs arbitrary: n st) simp_all

lemma nth_construct:
  "n + length xs \<le> length st \<Longrightarrow> construct n xs st ! i = (if n \<le> i \<and> i < n + length xs then xs ! (i - n) else st ! i)"
  by (induction xs arbitrary: n st) (auto simp: nth_Cons' nth_list_update)

lemma wrap: "q < N \<Longrightarrow> j < N \<Longrightarrow> (q + j) mod N = (if q + j < N then q + j else q + j - N)" for N :: nat
  by (auto simp: mod_if)

text \<open>The two loops store a list in consecutive slots around the end.\<close>

lemma construct_ring:
  assumes "q < length st" "length xs \<le> length st" "part = min (length xs) (length st - q)" "j < length st"
  shows "construct 0 (drop part xs) (construct q (take part xs) st) ! ((q + j) mod length st)
    = (if j < length xs then xs ! j else st ! ((q + j) mod length st))"
proof -
  let ?N = "length st"
  have a: "q + length (take part xs) \<le> ?N" using assms(1,3) by simp
  have b: "0 + length (drop part xs) \<le> length (construct q (take part xs) st)" using assms(1-3) by auto
  show ?thesis
  proof (cases "q + j < ?N")
    case True
    then have w: "(q + j) mod ?N = q + j" by simp
    have "part \<le> length xs" "length xs - part \<le> q" "length xs \<le> part + q" "j < part \<longleftrightarrow> j < length xs"
      using True assms(1-3) by auto
    then show ?thesis
      unfolding w by (auto simp: nth_construct[OF a] nth_construct[OF b])
  next
    case False
    then have w: "(q + j) mod ?N = q + j - ?N" using wrap[OF assms(1,4)] by simp
    have "part \<le> length xs" "q + j - ?N < q" using assms(3,4) False by auto
    moreover have "q + j - ?N < length xs - part \<longleftrightarrow> j < length xs" using assms(1,3) False by auto
    moreover have "part + (q + j - ?N) = j" if "j < length xs" using assms(1,3) False that by auto
    ultimately show ?thesis
      unfolding w by (auto simp: nth_construct[OF a] nth_construct[OF b])
  qed
qed

lemma emplace_effect:
  assumes ok: "rb_ok (r :: ('a, 'i :: len) ring)" and n: "n = (if count > writable r then (if fail_fast then 0 else writable r) else count)"
    and e: "emplace_back_n f count fail_fast r = (m, r')"
  shows "m = n \<and> rb_ok r' \<and> elements r' = elements r @ map f [0..<n] \<and> length (storage r') = length (storage r)
    \<and> rb_out r' = rb_out r"
proof (cases "n = 0")
  case True
  then show ?thesis using e n ok by (auto simp: emplace_back_n_def writable_def Let_def split: if_splits)
next
  case False
  let ?N = "length (storage r)" and ?u = "readable r" and ?o = "unat (rb_out r)"
  define q where "q = unat (rb_in r AND rb_mask r)"
  define st where "st = construct 0 (map f [min n (?N - q)..<n]) (construct q (map f [0..<min n (?N - q)]) (storage r))"
  note sz = rb_sizes[OF ok]
  have q: "q = (?o + ?u) mod ?N" unfolding q_def rb_index[OF ok] by (rule rb_in_mod[OF ok])
  have le: "n + ?u \<le> ?N" using n sz(5) by (auto simp: writable_def readable_def split: if_splits)
  have m: "m = n" and r': "r' = r\<lparr>storage := st, rb_in := rb_in r + of_nat n\<rparr>"
    using e n False by (auto simp: emplace_back_n_def writable_def Let_def st_def q_def split: if_splits)
  have len: "length st = ?N" by (simp add: st_def)
  have st: "st ! ((q + j) mod ?N) = (if j < n then f j else storage r ! ((q + j) mod ?N))" if "j < ?N" for j
  proof -
    have "map f [0..<min n (?N - q)] = take (min n (?N - q)) (map f [0..<n])" by (simp add: take_map min_def)
    moreover have "map f [min n (?N - q)..<n] = drop (min n (?N - q)) (map f [0..<n])" by (simp add: drop_map)
    moreover have "q < ?N" unfolding q using sz(1) by (intro mod_less_divisor) linarith
    ultimately show ?thesis
      using construct_ring[of q "storage r" "map f [0..<n]" _ j] that le by (simp add: st_def)
  qed
  have "rb_in r' - rb_out r' = of_nat (?u + n)" by (simp add: readable_def r')
  moreover have "?u + n < 2 ^ LENGTH('i)" using le sz(2) by linarith
  ultimately have u: "readable r' = ?u + n"
    unfolding readable_def[of r'] by (simp only: unat_of_nat) (simp add: take_bit_eq_mod)
  have old: "st ! ((?o + i) mod ?N) = storage r ! ((?o + i) mod ?N)" if "i < ?u" for i
  proof -
    have "(?o + i) mod ?N = (q + (?N - ?u + i)) mod ?N"
    proof -
      have "?o + ?u + (?N - ?u + i) = ?o + i + ?N" using sz(5) by simp
      then show ?thesis unfolding q mod_add_left_eq by (simp only: mod_add_self2)
    qed
    moreover have "?N - ?u + i < ?N" "\<not> ?N - ?u + i < n" using that le sz(5) by linarith+
    ultimately show ?thesis using st[of "?N - ?u + i"] by (simp only: if_False)
  qed
  have new: "st ! ((?o + (?u + j)) mod ?N) = f j" if "j < n" for j
    using st[of j] that le by (simp add: q mod_add_left_eq add.assoc)
  have split: "[0..<?u + n] = [0..<?u] @ map (\<lambda>j. ?u + j) [0..<n]"
    by (intro nth_equalityI) (simp_all add: nth_append)
  have "elements r' = map (\<lambda>i. st ! ((?o + i) mod ?N)) ([0..<?u] @ map (\<lambda>j. ?u + j) [0..<n])"
    unfolding elements_def u split[symmetric] by (simp add: r' len)
  also have "\<dots> = elements r @ map f [0..<n]" using old new by (simp add: elements_def)
  finally show ?thesis using ok m le u by (auto simp: rb_ok_def r' len)
qed

lemma pop_effect:
  assumes ok: "rb_ok (r :: ('a, 'i :: len) ring)" and p: "pop_front_n count r = (xs, r')"
  shows "rb_ok r' \<and> xs = take count (elements r) \<and> elements r' = drop count (elements r) \<and> storage r' = storage r"
proof -
  let ?N = "length (storage r)" and ?u = "readable r" and ?o = "unat (rb_out r)"
  define n where "n = min count ?u"
  note sz = rb_sizes[OF ok]
  have l: "length (elements r) = ?u" by (simp add: elements_def)
  show ?thesis
  proof (cases "n = 0")
    case True
    then have "xs = [] \<and> r' = r" using p by (auto simp: pop_front_n_def n_def readable_def Let_def split: if_splits)
    moreover have "count = 0 \<or> elements r = []" using True l by (auto simp: n_def min_def split: if_splits)
    ultimately show ?thesis using ok by auto
  next
    case False
    define q where "q = unat (rb_out r AND rb_mask r)"
    have N0: "0 < ?N" using sz(1) by linarith
    have q1: "q = ?o mod ?N" unfolding q_def by (rule rb_index[OF ok])
    have q: "q = ?o mod ?N" "q < ?N" using q1 N0 by simp_all
    have xs: "xs = map (\<lambda>i. storage r ! (q + i)) [0..<min n (?N - q)] @ map (\<lambda>i. storage r ! i) [0..<n - min n (?N - q)]"
      and r': "r' = r\<lparr>rb_out := rb_out r + of_nat n\<rparr>"
      using p False by (auto simp: pop_front_n_def n_def readable_def q_def Let_def split: if_splits)
    have n: "n \<le> ?u" "n \<le> ?N" using sz(5) by (auto simp: n_def)
    have "xs = map (\<lambda>i. storage r ! ((q + i) mod ?N)) [0..<n]"
    proof (rule nth_equalityI)
      show "length xs = length (map (\<lambda>i. storage r ! ((q + i) mod ?N)) [0..<n])" by (simp add: xs)
      fix i assume "i < length xs"
      then have i: "i < n" by (simp add: xs)
      then show "xs ! i = map (\<lambda>i. storage r ! ((q + i) mod ?N)) [0..<n] ! i"
        using wrap[OF q(2), of i] n q(2) by (auto simp: xs nth_append add.commute)
    qed
    also have "\<dots> = take n (elements r)"
      using n by (simp add: elements_def take_map q(1) mod_add_left_eq)
    also have "\<dots> = take count (elements r)" using l by (simp add: n_def min_def)
    finally have out: "xs = take count (elements r)" .
    have "rb_in r' - rb_out r' = of_nat (?u - n)" using n(1) by (simp add: readable_def r' of_nat_diff)
    moreover have "?u - n < 2 ^ LENGTH('i)" using sz(2,5) by linarith
    ultimately have u: "readable r' = ?u - n"
      unfolding readable_def[of r'] by (simp only: unat_of_nat) (simp add: take_bit_eq_mod)
    have o: "unat (rb_out r') mod ?N = (?o + n) mod ?N"
      using sz(4) by (simp add: r' unat_word_ariths(1) unat_of_nat take_bit_eq_mod mod_simps mod_mod_cancel)
    have "elements r' = map (\<lambda>i. storage r ! ((unat (rb_out r') mod ?N + i) mod ?N)) [0..<?u - n]"
      unfolding elements_def u by (simp add: r' mod_add_left_eq)
    also have "\<dots> = drop n (elements r)"
      unfolding o elements_def drop_map drop_upt by (intro nth_equalityI) (simp_all add: mod_add_left_eq add.assoc)
    also have "\<dots> = drop count (elements r)" using l by (simp add: n_def min_def)
    finally show ?thesis using out ok u n by (auto simp: rb_ok_def r')
  qed
qed

lemma peek_front_elements:
  assumes "rb_ok (r :: ('a, 'i :: len) ring)"
  shows "peek_front r = (case elements r of [] \<Rightarrow> None | x # _ \<Rightarrow> Some x)"
proof (cases "rb_out r = rb_in r")
  case True
  then show ?thesis by (simp add: peek_front_def elements_def readable_def)
next
  case False
  then have "0 < readable r" by (simp add: readable_def unat_gt_0)
  then show ?thesis using False assms
    by (cases "readable r") (auto simp: peek_front_def elements_def rb_index upt_conv_Cons simp del: upt_Suc)
qed

lemma peek_back_elements:
  assumes ok: "rb_ok (r :: ('a, 'i :: len) ring)"
  shows "peek_back r = (if elements r = [] then None else Some (last (elements r)))"
proof (cases "rb_out r = rb_in r")
  case True
  then show ?thesis by (simp add: peek_back_def elements_def readable_def)
next
  case False
  let ?N = "length (storage r)" and ?u = "readable r" and ?o = "unat (rb_out r)"
  have u: "0 < ?u" using False by (simp add: readable_def unat_gt_0)
  have "(int (unat (rb_in r)) - 1) mod int ?N = (int (?o + ?u) - 1) mod int ?N"
    using rb_in_mod[OF ok] by (metis mod_diff_left_eq zmod_int)
  also have "\<dots> = int ((?o + (?u - 1)) mod ?N)" using u by (simp add: zmod_int of_nat_diff)
  finally have "nat ((int (unat (rb_in r)) - 1) mod int ?N) = (?o + (?u - 1)) mod ?N" by simp
  moreover have "last (elements r) = storage r ! ((?o + (?u - 1)) mod ?N)" using u by (simp add: elements_def last_map)
  ultimately show ?thesis using False u by (simp add: peek_back_def elements_def)
qed

lemma readable_elements: "readable r = length (elements r)"
  by (simp add: elements_def)

lemma writable_elements: "writable r = length (storage r) - length (elements r)"
  by (simp add: writable_def readable_elements[symmetric] readable_def)

lemma clear_effect:
  assumes "rb_ok (r :: ('a, 'i :: len) ring)" "clear r = (n, r')"
  shows "n = length (elements r) \<and> rb_ok r' \<and> elements r' = []"
proof -
  obtain xs where p: "pop_front_n (2 ^ 32 - 1) r = (xs, r')" and n: "n = length xs"
    using assms(2) by (cases "pop_front_n (2 ^ 32 - 1) r") (simp add: clear_def)
  have "length (elements r) \<le> 2 ^ 32 - 1" using rb_sizes[OF assms(1)] by (simp add: readable_elements[symmetric])
  then show ?thesis using pop_effect[OF assms(1) p] n by simp
qed

section \<open>The ring is a bounded buffer\<close>

definition try_put :: "'a \<Rightarrow> ('a, 'i :: len) ring \<Rightarrow> ('a, 'i) ring option" where
  "try_put x r = (case push_back x r of (True, r) \<Rightarrow> Some r | (False, r) \<Rightarrow> None)"

lemma push_effect:
  assumes "rb_ok (r :: ('a, 'i :: len) ring)" "push_back x r = (b, r')"
  shows "b = (length (elements r) < length (storage r)) \<and> rb_ok r' \<and> length (storage r') = length (storage r)
    \<and> elements r' = (if b then elements r @ [x] else elements r)"
proof -
  obtain n where e: "emplace_back_n (\<lambda>_. x) 1 False r = (n, r')" and b: "b = (n \<noteq> 0)"
    using assms(2) by (cases "emplace_back_n (\<lambda>_. x) 1 False r") (simp add: push_back_def)
  show ?thesis
    using emplace_effect[OF assms(1) refl e] b rb_sizes(5)[OF assms(1)]
    by (auto simp: writable_elements readable_elements split: if_splits)
qed

lemma pop_front_effect:
  assumes "rb_ok (r :: ('a, 'i :: len) ring)"
  shows "pop_front r = None \<longleftrightarrow> elements r = []"
    and "pop_front r = Some (x, r') \<Longrightarrow> rb_ok r' \<and> elements r = x # elements r' \<and> storage r' = storage r"
proof -
  obtain xs s where p: "pop_front_n 1 r = (xs, s)" by force
  note e = pop_effect[OF assms p]
  show "pop_front r = None \<longleftrightarrow> elements r = []"
    using e p by (cases "elements r") (auto simp: pop_front_def)
  show "pop_front r = Some (x, r') \<Longrightarrow> rb_ok r' \<and> elements r = x # elements r' \<and> storage r' = storage r"
    using e p by (cases "elements r") (auto simp: pop_front_def)
qed

interpretation rb: bounded_fifo try_put "pop_front :: ('a, 'i :: len) ring \<Rightarrow> _" elements
    "\<lambda>r. rb_ok r \<and> length (storage r) = N" "\<lambda>_. True" N
proof
  fix q q' :: "('a, 'i) ring" and x assume "rb_ok q \<and> length (storage q) = N" "True" "try_put x q = Some q'"
  then show "(rb_ok q' \<and> length (storage q') = N) \<and> elements q' = elements q @ [x]"
    using push_effect[of q x] by (cases "push_back x q") (auto simp: try_put_def split: bool.splits)
next
  fix q :: "('a, 'i) ring" and x assume "rb_ok q \<and> length (storage q) = N"
  then show "try_put x q = None \<longleftrightarrow> length (elements q) = N"
    using push_effect[of q x] rb_sizes(5)[of q]
    by (cases "push_back x q") (auto simp: try_put_def readable_elements split: bool.splits)
next
  fix q q' :: "('a, 'i) ring" and x assume a: "rb_ok q \<and> length (storage q) = N"
  show "pop_front q = None \<longleftrightarrow> elements q = []" using a pop_front_effect(1) by blast
  show "(rb_ok q' \<and> length (storage q') = N) \<and> elements q = x # elements q'" if "pop_front q = Some (x, q')"
    using a pop_front_effect(2)[OF _ that] by auto
  show "length (elements q) \<le> N" using a rb_sizes(5)[of q] by (simp add: readable_elements)
qed

end
