(* ===== verification/UartTx.thy ===== *)
theory UartTx
  imports RingBuffer Protocol
begin

text \<open>
  The transmit side of a UART, \<open>app/src/uart/tx_buffer.hpp\<close>: a ring of 2048 bytes between the downlink
  handler and the DMA channel, with a ring of checkpoints, the positions where the line has to go idle
  before the next byte.  The DMA channel and the UART are not part of the program; what \<open>try_dequeue\<close>
  reads of them are arguments, what it hands to them is a result.  The last sections run the buffer
  against a line: a DMA channel that moves bytes into a FIFO, and a FIFO that shifts them out.
\<close>

unbundle bit_operations_syntax

section \<open>The buffer\<close>

definition kBufferSize :: nat where
  "kBufferSize = 2048"

definition kBufferMask :: "16 word" where
  "kBufferMask = of_nat (kBufferSize - 1)"

definition kMaxIdleCount :: nat where
  "kMaxIdleCount = 256"

record tx_buffer =
  tx_data :: "8 word list"
  tx_in :: "16 word"
  tx_out :: "16 word"
  in_flight :: "16 word"
  idle_boundary_before_in :: bool
  tx_triggered :: bool
  idle_checkpoints :: "(16 word, 16) ring"

definition TxBuffer_new :: "8 word list \<Rightarrow> tx_buffer" where
  "TxBuffer_new mem = \<lparr>tx_data = mem, tx_in = 0, tx_out = 0, in_flight = 0, idle_boundary_before_in = False,
     tx_triggered = False, idle_checkpoints = \<lparr>storage = replicate kMaxIdleCount 0, rb_in = 0, rb_out = 0\<rparr>\<rparr>"

text \<open>The checkpoints of a frame: the branch is left with \<open>None\<close> where the code returns false.\<close>

definition enqueue_checkpoints :: "uart_view \<Rightarrow> tx_buffer \<Rightarrow> (16 word, 16) ring option" where
  "enqueue_checkpoints v b =
    (let sz = length (uart_data v);
         begin_idle = tx_in b;
         end_idle = tx_in b + of_nat sz;
         ck = idle_checkpoints b in
     if \<not> idle_delimited v then Some ck
     else if idle_boundary_before_in b
     then if sz \<noteq> 0
          then (case push_back end_idle ck of (ok, ck) \<Rightarrow> if ok then Some ck else None)
          else Some ck
     else if sz \<noteq> 0
     then (case emplace_back_n (\<lambda>i. if i = 0 then begin_idle else end_idle) 2 True ck of
             (n, ck) \<Rightarrow> if n = 2 then Some ck else None)
     else (case push_back begin_idle ck of (ok, ck) \<Rightarrow> if ok then Some ck else None))"

text \<open>The two \<open>memcpy\<close>s are \<open>construct\<close>.\<close>

definition try_enqueue :: "uart_view \<Rightarrow> tx_buffer \<Rightarrow> bool \<times> tx_buffer" where
  "try_enqueue v b =
    (let writable = kBufferSize - unat (tx_in b - tx_out b);
         sz = length (uart_data v) in
     if sz > writable then (False, b)
     else case enqueue_checkpoints v b of
       None \<Rightarrow> (False, b)
     | Some ck \<Rightarrow>
         let b = b\<lparr>idle_checkpoints := ck\<rparr> in
         if sz \<noteq> 0
         then let offset = unat (tx_in b AND kBufferMask);
                  slice = min sz (kBufferSize - offset);
                  mem = construct offset (take slice (uart_data v)) (tx_data b);
                  mem = construct 0 (drop slice (uart_data v)) mem in
              (True, b\<lparr>tx_data := mem, tx_in := tx_in b + of_nat sz, idle_boundary_before_in := idle_delimited v\<rparr>)
         else (True, b\<lparr>idle_boundary_before_in := idle_boundary_before_in b \<or> idle_delimited v\<rparr>))"

text \<open>The channel is aborted and disabled by the caller of this.\<close>

definition abort_transmit :: "tx_buffer \<Rightarrow> tx_buffer" where
  "abort_transmit b = b\<lparr>tx_triggered := False, in_flight := 0\<rparr>"

text \<open>The loop over the checkpoints.  It ends in three ways: a number of bytes to send, a return while
  the line is busy, or a failed assertion.\<close>

datatype idle_result = Send nat | Wait | Assert_failed

partial_function (option) idle_loop ::
    "bool \<Rightarrow> bool \<Rightarrow> 16 word \<Rightarrow> nat \<Rightarrow> (16 word, 16) ring \<Rightarrow> (idle_result \<times> (16 word, 16) ring) option" where
  "idle_loop triggered line_idle out rdbl ck =
    (let distance = (case peek_front ck of None \<Rightarrow> rdbl | Some i \<Rightarrow> unat (i - out)) in
     if \<not> distance \<le> rdbl then Some (Assert_failed, ck)
     else if distance \<noteq> 0 then Some (Send distance, ck)
     else if triggered \<and> \<not> line_idle then Some (Wait, ck)
     else idle_loop triggered line_idle out rdbl (snd (pop_front_n 1 ck)))"

text \<open>The addresses the channel will read: the first part and the linked descriptor's.\<close>

definition trigger_dma :: "nat \<Rightarrow> nat \<Rightarrow> (nat \<times> nat) option \<Rightarrow> nat list" where
  "trigger_dma src sz src2 = [src..<src + sz] @ (case src2 of None \<Rightarrow> [] | Some (a, n) \<Rightarrow> [a..<a + n])"

definition take_sent :: "tx_buffer \<Rightarrow> tx_buffer" where
  "take_sent b = (if in_flight b \<noteq> 0 then b\<lparr>tx_out := tx_out b + in_flight b, in_flight := 0\<rparr> else b)"

text \<open>The result is \<open>None\<close> if the loop never ends or an assertion fails, else what is returned, the buffer
  and the transfer that was started.\<close>

definition try_dequeue :: "bool \<Rightarrow> bool \<Rightarrow> tx_buffer \<Rightarrow> (bool \<times> tx_buffer \<times> nat list option) option" where
  "try_dequeue dma_enabled line_idle b =
    (if dma_enabled then Some (False, b, None)
     else let b = take_sent b;
              rdbl = unat (tx_in b - tx_out b) in
     if rdbl = 0 then Some (False, b, None)
     else let offset = unat (tx_out b AND kBufferMask) in
     case idle_loop (tx_triggered b) line_idle (tx_out b) rdbl (idle_checkpoints b) of
       None \<Rightarrow> None
     | Some (Assert_failed, ck) \<Rightarrow> None
     | Some (Wait, ck) \<Rightarrow> Some (False, b\<lparr>idle_checkpoints := ck\<rparr>, None)
     | Some (Send sz, ck) \<Rightarrow>
         let slice = min sz (kBufferSize - offset);
             transfer = (if slice = sz then trigger_dma offset slice None
                         else trigger_dma offset slice (Some (0, sz - slice))) in
         Some (True, b\<lparr>idle_checkpoints := ck, tx_triggered := True, in_flight := of_nat sz\<rparr>, Some transfer))"

section \<open>A line\<close>

text \<open>The UART of the hardware as the buffer uses it.  The channel reads the memory when it moves a byte;
  the idle flag is latched, is cleared by \<open>uart_clear_txline_idle_flag\<close> when a transfer is started, and is
  set when the line has been quiet with nothing left to shift.  \<open>accepted\<close> and \<open>marks\<close> record what was
  enqueued: the bytes, and the positions a delimited frame begins and ends at.\<close>

datatype wire_token = Byte "8 word" | Idle

record tx_line =
  tbuf :: tx_buffer
  dma :: "nat list option"
  fifo :: "8 word list"
  line_out :: "wire_token list"
  idle_flag :: bool
  accepted :: "8 word list"
  marks :: "nat list"
  asserted :: bool

datatype tx_event = Enqueue uart_view | Poll | Dma_move | Dma_done | Shift | Line_idle

fun tx_step :: "tx_event \<Rightarrow> tx_line \<Rightarrow> tx_line" where
  "tx_step (Enqueue v) s =
    (case try_enqueue v (tbuf s) of
       (False, b) \<Rightarrow> s\<lparr>tbuf := b\<rparr>
     | (True, b) \<Rightarrow>
         s\<lparr>tbuf := b, accepted := accepted s @ uart_data v,
           marks := marks s @ (if idle_delimited v
                               then [length (accepted s), length (accepted s) + length (uart_data v)] else [])\<rparr>)"
| "tx_step Poll s =
    (case try_dequeue (dma s \<noteq> None) (idle_flag s) (tbuf s) of
       None \<Rightarrow> s\<lparr>asserted := True\<rparr>
     | Some (_, b, None) \<Rightarrow> s\<lparr>tbuf := b\<rparr>
     | Some (_, b, Some t) \<Rightarrow> s\<lparr>tbuf := b, dma := Some t, idle_flag := False\<rparr>)"
| "tx_step Dma_move s =
    (case dma s of
       Some (a # as) \<Rightarrow> s\<lparr>dma := Some as, fifo := fifo s @ [tx_data (tbuf s) ! a]\<rparr>
     | _ \<Rightarrow> s)"
| "tx_step Dma_done s = (if dma s = Some [] then s\<lparr>dma := None\<rparr> else s)"
| "tx_step Shift s = (case fifo s of [] \<Rightarrow> s | x # xs \<Rightarrow> s\<lparr>fifo := xs, line_out := line_out s @ [Byte x]\<rparr>)"
| "tx_step Line_idle s =
    (if dma s = None \<and> fifo s = [] then s\<lparr>line_out := line_out s @ [Idle], idle_flag := True\<rparr> else s)"

definition tx_start :: "8 word list \<Rightarrow> tx_line" where
  "tx_start mem = \<lparr>tbuf = TxBuffer_new mem, dma = None, fifo = [], line_out = [], idle_flag = False, accepted = [], marks = [], asserted = False\<rparr>"

fun wire_bytes :: "wire_token list \<Rightarrow> 8 word list" where
  "wire_bytes [] = []"
| "wire_bytes (Byte b # w) = b # wire_bytes w"
| "wire_bytes (Idle # w) = wire_bytes w"

text \<open>The line was idle between the first \<open>m\<close> bytes and the others.\<close>

definition idle_at :: "wire_token list \<Rightarrow> nat \<Rightarrow> bool" where
  "idle_at w m = (\<exists>k < length w. w ! k = Idle \<and> length (wire_bytes (take k w)) = m)"

section \<open>The loop over the checkpoints\<close>

lemma unat_diff16: "c \<le> m \<Longrightarrow> m - c < 65536 \<Longrightarrow> unat (of_nat m - of_nat c :: 16 word) = m - c"
proof -
  assume a: "c \<le> m" "m - c < 65536"
  then have "(of_nat m - of_nat c :: 16 word) = of_nat (m - c)" by (simp add: of_nat_diff)
  then show ?thesis using a(2) by (simp only: unat_of_nat) (simp add: take_bit_eq_mod)
qed

lemma idle_loop_first:
  assumes "rb_ok ck" "elements ck = map of_nat ms" "\<forall>m \<in> set ms. d < m \<and> m \<le> n" "d < n" "n - d \<le> 2048" "sorted_wrt (<) ms"
  shows "\<exists>k. idle_loop triggered line_idle (of_nat d) (n - d) ck = Some (Send k, ck) \<and> 0 < k \<and> d + k \<le> n \<and> (\<forall>m \<in> set ms. d + k \<le> m)"
proof (cases ms)
  case Nil
  then have "peek_front ck = None" using assms(1,2) by (simp add: peek_front_elements)
  then show ?thesis using assms(4) Nil by (subst idle_loop.simps) simp
next
  case (Cons m ms')
  then have "peek_front ck = Some (of_nat m)" using assms(1,2) by (simp add: peek_front_elements)
  moreover have "unat (of_nat m - of_nat d :: 16 word) = m - d" using assms(3,5) Cons by (intro unat_diff16) auto
  moreover have "\<forall>x \<in> set ms. m \<le> x" using assms(6) Cons by auto
  ultimately show ?thesis using assms(3,4) Cons
    by (intro exI[of _ "m - d"], subst idle_loop.simps) (auto simp: Let_def)
qed

lemma idle_loop_cases:
  assumes ok: "rb_ok ck" and el: "elements ck = map of_nat ms" and ms: "\<forall>m \<in> set ms. d \<le> m \<and> m \<le> n" "sorted_wrt (<) ms"
    and n: "d < n" "n - d \<le> 2048"
  shows "d \<in> set ms \<and> triggered \<and> \<not> line_idle \<and> idle_loop triggered line_idle (of_nat d) (n - d) ck = Some (Wait, ck)
    \<or> (\<exists>k ck' ms'. idle_loop triggered line_idle (of_nat d) (n - d) ck = Some (Send k, ck') \<and> 0 < k \<and> d + k \<le> n
        \<and> rb_ok ck' \<and> length (storage ck') = length (storage ck) \<and> elements ck' = map of_nat ms' \<and> sorted_wrt (<) ms'
        \<and> set ms' = set ms - {d} \<and> (\<forall>m \<in> set ms'. d + k \<le> m) \<and> (d \<in> set ms \<longrightarrow> \<not> triggered \<or> line_idle))"
proof (cases "d \<in> set ms")
  case False
  then have "\<forall>m \<in> set ms. d < m \<and> m \<le> n" using ms(1) le_neq_implies_less by blast
  from idle_loop_first[OF ok el this n ms(2), of triggered line_idle] False show ?thesis
    using ok el ms(2) by auto
next
  case True
  then obtain ms' where m: "ms = d # ms'" using ms by (cases ms) (auto simp: leD)
  have gt: "\<forall>m \<in> set ms'. d < m \<and> m \<le> n" "sorted_wrt (<) ms'" "d \<notin> set ms'" using ms m by auto
  have pk: "peek_front ck = Some (of_nat d)" using ok el m by (simp add: peek_front_elements)
  show ?thesis
  proof (cases "triggered \<and> \<not> line_idle")
    case True
    then have "idle_loop triggered line_idle (of_nat d) (n - d) ck = Some (Wait, ck)"
      using pk by (subst idle_loop.simps) simp
    then show ?thesis using True \<open>d \<in> set ms\<close> by blast
  next
    case False
    obtain xs ck' where p: "pop_front_n 1 ck = (xs, ck')" by force
    have e: "rb_ok ck'" "elements ck' = map of_nat ms'" "length (storage ck') = length (storage ck)"
      using pop_effect[OF ok p] el m by auto
    have "idle_loop triggered line_idle (of_nat d) (n - d) ck = idle_loop triggered line_idle (of_nat d) (n - d) ck'"
      using pk False p by (subst idle_loop.simps) auto
    with idle_loop_first[OF e(1,2) gt(1) n gt(2), of triggered line_idle] show ?thesis
      using e gt m False by auto
  qed
qed

section \<open>What the buffer holds\<close>

text \<open>\<open>acc\<close> has been accepted altogether and the first \<open>c\<close> bytes of it are released; \<open>ms\<close> are the
  checkpoints, counted from the start.\<close>

definition dispatched :: "tx_buffer \<Rightarrow> nat \<Rightarrow> nat" where
  "dispatched b c = c + unat (in_flight b)"

definition holds_from :: "8 word list \<Rightarrow> 8 word list \<Rightarrow> nat \<Rightarrow> bool" where
  "holds_from mem acc c = (length mem = kBufferSize \<and> c \<le> length acc \<and> length acc - c \<le> kBufferSize
     \<and> (\<forall>j. c \<le> j \<and> j < length acc \<longrightarrow> mem ! (j mod kBufferSize) = acc ! j))"

definition checkpoints_at :: "(16 word, 16) ring \<Rightarrow> nat list \<Rightarrow> nat \<Rightarrow> nat \<Rightarrow> bool" where
  "checkpoints_at ck ms d n = (rb_ok ck \<and> length (storage ck) = kMaxIdleCount \<and> elements ck = map of_nat ms
     \<and> sorted_wrt (<) ms \<and> (\<forall>m \<in> set ms. d \<le> m \<and> m \<le> n))"

definition tx_rep :: "tx_buffer \<Rightarrow> 8 word list \<Rightarrow> nat \<Rightarrow> nat list \<Rightarrow> bool" where
  "tx_rep b acc c ms = (tx_in b = of_nat (length acc) \<and> tx_out b = of_nat c \<and> dispatched b c \<le> length acc
     \<and> holds_from (tx_data b) acc c \<and> checkpoints_at (idle_checkpoints b) ms (dispatched b c) (length acc)
     \<and> (length acc \<in> set ms \<longrightarrow> idle_boundary_before_in b))"

lemma mask_2048: "unat (of_nat j AND kBufferMask :: 16 word) = j mod kBufferSize"
proof -
  have "kBufferMask = mask 11" by (simp add: kBufferMask_def kBufferSize_def mask_eq_exp_minus_1)
  then have "(of_nat j AND kBufferMask :: 16 word) = take_bit 11 (of_nat j)" by (simp add: take_bit_eq_mask)
  then show ?thesis
    by (simp only: unsigned_take_bit_eq) (simp add: unat_of_nat take_bit_eq_mod kBufferSize_def mod_mod_cancel)
qed

lemma holds_append:
  assumes "holds_from mem acc c" "length d \<le> kBufferSize - (length acc - c)"
    and "part = min (length d) (kBufferSize - length acc mod kBufferSize)"
  shows "holds_from (construct 0 (drop part d) (construct (length acc mod kBufferSize) (take part d) mem)) (acc @ d) c"
proof -
  let ?n = "length acc" and ?q = "length acc mod kBufferSize"
  let ?mem = "construct 0 (drop part d) (construct ?q (take part d) mem)"
  have h: "length mem = kBufferSize" "c \<le> ?n" "?n - c \<le> kBufferSize"
    "\<And>j. c \<le> j \<Longrightarrow> j < ?n \<Longrightarrow> mem ! (j mod kBufferSize) = acc ! j"
    using assms(1) by (auto simp: holds_from_def)
  have k: "?mem ! ((?n + j) mod kBufferSize) = (if j < length d then d ! j else mem ! ((?n + j) mod kBufferSize))"
    if "j < kBufferSize" for j
    using construct_ring[of ?q mem d part j] that h(1) assms(2,3) by (simp add: mod_add_left_eq kBufferSize_def)
  have "?mem ! (j mod kBufferSize) = (acc @ d) ! j" if j: "c \<le> j" "j < ?n + length d" for j
  proof (cases "?n \<le> j")
    case True
    then have "j - ?n < length d" "j - ?n < kBufferSize" using j assms(2) by simp_all
    then show ?thesis using k[of "j - ?n"] True by (simp add: nth_append)
  next
    case False
    define i where "i = j + kBufferSize - ?n"
    have i: "?n + i = j + kBufferSize" "i < kBufferSize" "\<not> i < length d"
      using False j(1) h(2,3) assms(2) by (simp_all add: i_def)
    have "(?n + i) mod kBufferSize = j mod kBufferSize" unfolding i(1) by (rule mod_add_self2)
    then show ?thesis using k[OF i(2)] i(3) h(4)[OF j(1)] False by (simp add: nth_append)
  qed
  then show ?thesis using h assms(2) by (simp add: holds_from_def)
qed

lemma checkpoints_push:
  assumes "checkpoints_at ck ms d n" "push_back (of_nat m) ck = (True, ck')" "\<forall>x \<in> set ms. x < m" "d \<le> m" "n \<le> n'" "m \<le> n'"
  shows "checkpoints_at ck' (ms @ [m]) d n'"
  using push_effect[OF _ assms(2)] assms by (auto simp: checkpoints_at_def sorted_wrt_append)

lemma checkpoints_push2:
  assumes "checkpoints_at ck ms d n" "emplace_back_n f 2 True ck = (2, ck')" "f 0 = of_nat m" "f 1 = of_nat m'"
    and "\<forall>x \<in> set ms. x < m" "d \<le> m" "m < m'" "n \<le> m'"
  shows "checkpoints_at ck' (ms @ [m, m']) d m'"
proof -
  have ok: "rb_ok ck" using assms(1) by (simp add: checkpoints_at_def)
  have "[0..<2] = [0, 1 :: nat]" by (simp add: upt_rec)
  then show ?thesis
    using emplace_effect[OF ok refl assms(2)] assms(1,3-)
    by (auto simp: checkpoints_at_def sorted_wrt_append split: if_splits)
qed

text \<open>The checkpoints an accepted frame leaves: those of its ends that were not there.\<close>

lemma enqueue_checkpoints_at:
  assumes r: "tx_rep b acc c ms" and e: "enqueue_checkpoints v b = Some ck"
  shows "\<exists>ms'. checkpoints_at ck (ms @ ms') (dispatched b c) (length acc + length (uart_data v))
    \<and> set ms' = (if idle_delimited v then (if idle_boundary_before_in b then {} else {length acc})
        \<union> (if uart_data v = [] then {} else {length acc + length (uart_data v)}) else {})"
proof -
  let ?n = "length acc" and ?s = "length (uart_data v)"
  have at: "checkpoints_at (idle_checkpoints b) ms (dispatched b c) ?n" and d: "dispatched b c \<le> ?n"
    and i: "tx_in b = of_nat ?n" using r by (simp_all add: tx_rep_def)
  have below: "\<forall>x \<in> set ms. x \<le> ?n" using at by (simp add: checkpoints_at_def)
  have new: "\<forall>x \<in> set ms. x < ?n" if "\<not> idle_boundary_before_in b"
    using below r that by (auto simp: tx_rep_def le_less)
  have wider: "checkpoints_at (idle_checkpoints b) ms (dispatched b c) (?n + ?s)"
    using at by (auto simp: checkpoints_at_def)
  show ?thesis
  proof (cases "idle_delimited v \<and> (\<not> idle_boundary_before_in b \<or> uart_data v \<noteq> [])")
    case False
    then have "ck = idle_checkpoints b" using e by (auto simp: enqueue_checkpoints_def Let_def split: if_splits)
    then show ?thesis using False wider by (intro exI[of _ "[]"]) auto
  next
    case del: True
    consider (e) "idle_boundary_before_in b" "uart_data v \<noteq> []" | (be) "\<not> idle_boundary_before_in b" "uart_data v \<noteq> []"
      | (b) "\<not> idle_boundary_before_in b" "uart_data v = []" using del by auto
    then show ?thesis
    proof cases
      case e': e
      then have "push_back (of_nat (?n + ?s)) (idle_checkpoints b) = (True, ck)"
        using e del i by (auto simp: enqueue_checkpoints_def Let_def split: if_splits prod.splits)
      moreover have "\<forall>x \<in> set ms. x < ?n + ?s" using below e'(2) by (metis add_le_same_cancel1 le_0_eq le_neq_implies_less length_0_conv trans_le_add1)
      ultimately have "checkpoints_at ck (ms @ [?n + ?s]) (dispatched b c) (?n + ?s)"
        using checkpoints_push[OF at] d by simp
      then show ?thesis using e' del by (intro exI[of _ "[?n + ?s]"]) simp
    next
      case b
      then have "push_back (of_nat ?n) (idle_checkpoints b) = (True, ck)"
        using e del i by (auto simp: enqueue_checkpoints_def Let_def split: if_splits prod.splits)
      from checkpoints_push[OF at this, of "?n + ?s"] new d b del show ?thesis by (intro exI[of _ "[?n]"]) simp
    next
      case be
      then have "emplace_back_n (\<lambda>i. if i = 0 then of_nat ?n else of_nat ?n + of_nat ?s) 2 True (idle_checkpoints b) = (2, ck)"
        using e del i by (auto simp: enqueue_checkpoints_def Let_def split: if_splits prod.splits)
      from checkpoints_push2[OF at this, of ?n "?n + ?s"] new d be del show ?thesis
        by (intro exI[of _ "[?n, ?n + ?s]"]) auto
    qed
  qed
qed

lemma enqueue_rep:
  assumes r: "tx_rep b acc c ms" and e: "try_enqueue v b = (True, b')"
  shows "\<exists>ms'. tx_rep b' (acc @ uart_data v) c (ms @ ms')
    \<and> set ms' = (if idle_delimited v then (if idle_boundary_before_in b then {} else {length acc})
        \<union> (if uart_data v = [] then {} else {length acc + length (uart_data v)}) else {})
    \<and> idle_boundary_before_in b' = (idle_delimited v \<or> idle_boundary_before_in b \<and> uart_data v = [])
    \<and> in_flight b' = in_flight b \<and> tx_triggered b' = tx_triggered b
    \<and> (\<forall>j. c \<le> j \<and> j < length acc \<longrightarrow> tx_data b' ! (j mod kBufferSize) = tx_data b ! (j mod kBufferSize))"
proof -
  let ?n = "length acc" and ?d = "uart_data v"
  have h: "holds_from (tx_data b) acc c" and io: "tx_in b = of_nat ?n" "tx_out b = of_nat c" "dispatched b c \<le> ?n"
    using r by (simp_all add: tx_rep_def)
  have "?n - c \<le> 2048" "c \<le> ?n" using h by (simp_all add: holds_from_def kBufferSize_def)
  then have used: "unat (tx_in b - tx_out b) = ?n - c" unfolding io by (intro unat_diff16) auto
  have fits: "length ?d \<le> kBufferSize - (?n - c)" using e by (auto simp: try_enqueue_def used Let_def split: if_splits)
  obtain ck where ck: "enqueue_checkpoints v b = Some ck"
    using e by (auto simp: try_enqueue_def Let_def split: if_splits option.splits)
  obtain ms' where ms': "checkpoints_at ck (ms @ ms') (dispatched b c) (?n + length ?d)"
    "set ms' = (if idle_delimited v then (if idle_boundary_before_in b then {} else {?n})
        \<union> (if ?d = [] then {} else {?n + length ?d}) else {})"
    using enqueue_checkpoints_at[OF r ck] by blast
  have bound: "?n \<in> set ms \<longrightarrow> idle_boundary_before_in b" "\<forall>x \<in> set ms. x \<le> ?n"
    using r by (auto simp: tx_rep_def checkpoints_at_def)
  show ?thesis
  proof (cases "?d = []")
    case True
    then have b': "b' = b\<lparr>idle_checkpoints := ck, idle_boundary_before_in := idle_boundary_before_in b \<or> idle_delimited v\<rparr>"
      using e ck fits by (simp add: try_enqueue_def used Let_def)
    show ?thesis
      using ms' r True bound by (intro exI[of _ ms']) (auto simp: b' tx_rep_def dispatched_def split: if_splits)
  next
    case False
    define part where "part = min (length ?d) (kBufferSize - ?n mod kBufferSize)"
    have b': "b' = b\<lparr>idle_checkpoints := ck,
        tx_data := construct 0 (drop part ?d) (construct (?n mod kBufferSize) (take part ?d) (tx_data b)),
        tx_in := of_nat ?n + of_nat (length ?d), idle_boundary_before_in := idle_delimited v\<rparr>"
      using e ck fits False unfolding try_enqueue_def Let_def used by (auto simp: part_def io mask_2048)
    have h': "holds_from (tx_data b') (acc @ ?d) c" using holds_append[OF h fits part_def] by (simp add: b')
    have "tx_data b' ! (j mod kBufferSize) = tx_data b ! (j mod kBufferSize)" if "c \<le> j" "j < ?n" for j
      using h h' that by (simp add: holds_from_def nth_append)
    moreover have "?n + length ?d \<notin> set ms" using bound(2) False by (metis add_le_same_cancel1 le_0_eq length_0_conv)
    ultimately show ?thesis
      using ms' r h' False by (intro exI[of _ ms']) (auto simp: b' tx_rep_def dispatched_def split: if_splits)
  qed
qed

lemma refused_keeps: "try_enqueue v b = (False, b') \<Longrightarrow> b' = b"
  by (auto simp: try_enqueue_def Let_def split: if_splits option.splits)

section \<open>Dequeueing\<close>

lemma take_sent_rep:
  assumes "tx_rep b acc c ms"
  shows "tx_rep (take_sent b) acc (dispatched b c) ms" "in_flight (take_sent b) = 0"
  using assms by (auto simp: take_sent_def tx_rep_def dispatched_def holds_from_def)

lemma take_sent_keeps [simp]:
  "tx_data (take_sent b) = tx_data b" "idle_boundary_before_in (take_sent b) = idle_boundary_before_in b"
  "tx_triggered (take_sent b) = tx_triggered b" "idle_checkpoints (take_sent b) = idle_checkpoints b" "tx_in (take_sent b) = tx_in b"
  by (simp_all add: take_sent_def)

lemma transfer_addresses:
  assumes "k \<le> kBufferSize" "part = min k (kBufferSize - d mod kBufferSize)"
  shows "(if part = k then trigger_dma (d mod kBufferSize) part None
      else trigger_dma (d mod kBufferSize) part (Some (0, k - part))) = map (\<lambda>j. j mod kBufferSize) [d..<d + k]"
proof -
  let ?q = "d mod kBufferSize"
  have q: "?q < kBufferSize" by (simp add: kBufferSize_def)
  have "[?q..<?q + part] @ [0..<k - part] = map (\<lambda>j. j mod kBufferSize) [d..<d + k]"
  proof (rule nth_equalityI)
    show "length ([?q..<?q + part] @ [0..<k - part]) = length (map (\<lambda>j. j mod kBufferSize) [d..<d + k])"
      using assms(2) by simp
    fix i assume "i < length ([?q..<?q + part] @ [0..<k - part])"
    then have i: "i < k" using assms(2) by auto
    moreover have "(d + i) mod kBufferSize = (?q + i) mod kBufferSize" by (simp add: mod_add_left_eq)
    ultimately show "([?q..<?q + part] @ [0..<k - part]) ! i = map (\<lambda>j. j mod kBufferSize) [d..<d + k] ! i"
      using wrap[OF q, of i] assms by (auto simp: nth_append)
  qed
  then show ?thesis by (auto simp: trigger_dma_def split: if_splits)
qed

lemma dequeue_rep:
  assumes r: "tx_rep b acc c ms"
  shows "\<exists>ok b' t ms'. try_dequeue False line_idle b = Some (ok, b', t) \<and> tx_rep b' acc (dispatched b c) ms'
    \<and> tx_data b' = tx_data b \<and> idle_boundary_before_in b' = idle_boundary_before_in b
    \<and> (case t of
         None \<Rightarrow> in_flight b' = 0 \<and> ms' = ms \<and> tx_triggered b' = tx_triggered b
           \<and> (dispatched b c = length acc \<or> dispatched b c \<in> set ms \<and> tx_triggered b \<and> \<not> line_idle)
       | Some as \<Rightarrow> tx_triggered b' \<and> (\<exists>k. 0 < k \<and> k \<le> kBufferSize \<and> unat (in_flight b') = k
           \<and> as = map (\<lambda>j. j mod kBufferSize) [dispatched b c..<dispatched b c + k])
           \<and> set ms' = set ms - {dispatched b c} \<and> (dispatched b c \<in> set ms \<longrightarrow> \<not> tx_triggered b \<or> line_idle))"
proof -
  let ?n = "length acc" and ?e = "take_sent b"
  define d where "d = dispatched b c"
  have e: "tx_rep ?e acc d ms" "in_flight ?e = 0" using take_sent_rep[OF r] by (simp_all add: d_def)
  have io: "tx_in ?e = of_nat ?n" "tx_out ?e = of_nat d" "dispatched ?e d = d"
    using e by (simp_all add: tx_rep_def dispatched_def del: take_sent_keeps)
  have h: "d \<le> ?n" "?n - d \<le> 2048" using e(1) by (simp_all add: tx_rep_def holds_from_def kBufferSize_def)
  have at: "checkpoints_at (idle_checkpoints ?e) ms d ?n" using e(1) io(3) by (simp add: tx_rep_def del: take_sent_keeps)
  have rd: "unat (tx_in ?e - tx_out ?e) = ?n - d" unfolding io using h by (intro unat_diff16) auto
  have off: "unat (tx_out ?e AND kBufferMask) = d mod kBufferSize" unfolding io by (rule mask_2048)
  show ?thesis
  proof (cases "d = ?n")
    case True
    then have "try_dequeue False line_idle b = Some (False, ?e, None)"
      unfolding try_dequeue_def Let_def rd by simp
    then show ?thesis using e True by (intro exI[of _ False] exI[of _ ?e] exI[of _ None] exI[of _ ms]) (simp add: d_def)
  next
    case False
    then have lt: "d < ?n" using h by simp
    have td: "try_dequeue False line_idle b = (case idle_loop (tx_triggered ?e) line_idle (of_nat d) (?n - d) (idle_checkpoints ?e) of
       None \<Rightarrow> None
     | Some (Assert_failed, ck) \<Rightarrow> None
     | Some (Wait, ck) \<Rightarrow> Some (False, ?e\<lparr>idle_checkpoints := ck\<rparr>, None)
     | Some (Send sz, ck) \<Rightarrow>
         let slice = min sz (kBufferSize - d mod kBufferSize);
             transfer = (if slice = sz then trigger_dma (d mod kBufferSize) slice None
                         else trigger_dma (d mod kBufferSize) slice (Some (0, sz - slice))) in
         Some (True, ?e\<lparr>idle_checkpoints := ck, tx_triggered := True, in_flight := of_nat sz\<rparr>, Some transfer))"
      unfolding try_dequeue_def Let_def rd off using lt by (simp add: io(2))
    from at have a: "rb_ok (idle_checkpoints ?e)" "elements (idle_checkpoints ?e) = map of_nat ms"
        "\<forall>m \<in> set ms. d \<le> m \<and> m \<le> ?n" "sorted_wrt (<) ms" "length (storage (idle_checkpoints ?e)) = kMaxIdleCount"
      by (simp_all add: checkpoints_at_def)
    from idle_loop_cases[OF a(1-4) lt h(2), of "tx_triggered ?e" line_idle] show ?thesis
    proof (elim disjE exE conjE)
      assume w: "d \<in> set ms" "tx_triggered ?e" "\<not> line_idle"
        "idle_loop (tx_triggered ?e) line_idle (of_nat d) (?n - d) (idle_checkpoints ?e) = Some (Wait, idle_checkpoints ?e)"
      then have "try_dequeue False line_idle b = Some (False, ?e, None)" unfolding td by simp
      then show ?thesis using e w
        by (intro exI[of _ False] exI[of _ ?e] exI[of _ None] exI[of _ ms]) (simp add: d_def)
    next
      fix k ck' ms'
      assume l: "idle_loop (tx_triggered ?e) line_idle (of_nat d) (?n - d) (idle_checkpoints ?e) = Some (Send k, ck')"
        and k: "0 < k" "d + k \<le> ?n" and ck': "rb_ok ck'" "length (storage ck') = length (storage (idle_checkpoints ?e))"
          "elements ck' = map of_nat ms'" "sorted_wrt (<) ms'" "set ms' = set ms - {d}" "\<forall>m \<in> set ms'. d + k \<le> m"
        and w: "d \<in> set ms \<longrightarrow> \<not> tx_triggered ?e \<or> line_idle"
      let ?b = "?e\<lparr>idle_checkpoints := ck', tx_triggered := True, in_flight := of_nat k\<rparr>"
      have kk: "k \<le> kBufferSize" "unat (of_nat k :: 16 word) = k"
        using k h by (simp_all add: kBufferSize_def unat_of_nat take_bit_eq_mod)
      have t: "try_dequeue False line_idle b = Some (True, ?b, Some (map (\<lambda>j. j mod kBufferSize) [d..<d + k]))"
        unfolding td l transfer_addresses[OF kk(1) refl, symmetric] by (simp add: Let_def)
      have "dispatched ?b d = d + k" using kk by (simp add: dispatched_def)
      moreover have "\<forall>m \<in> set ms'. d + k \<le> m \<and> m \<le> ?n" using ck'(5,6) a(3) by blast
      ultimately have "tx_rep ?b acc d ms'"
        using e(1) io ck' a(5) k by (auto simp: tx_rep_def checkpoints_at_def)
      then show ?thesis unfolding t using k kk ck'(5) w
        by (intro exI[of _ True] exI[of _ ?b] exI[of _ "Some (map (\<lambda>j. j mod kBufferSize) [d..<d + k])"] exI[of _ ms'])
          (auto simp: d_def)
    qed
  qed
qed

text \<open>An abort gives the bytes of the transfer back.\<close>

lemma abort_rep: "tx_rep b acc c ms \<Longrightarrow> tx_rep (abort_transmit b) acc c ms"
  by (auto simp: tx_rep_def abort_transmit_def dispatched_def checkpoints_at_def)

lemma new_rep: "length mem = kBufferSize \<Longrightarrow> tx_rep (TxBuffer_new mem) [] 0 []"
  by (auto simp: tx_rep_def TxBuffer_new_def dispatched_def holds_from_def checkpoints_at_def rb_ok_def elements_def
      readable_def kMaxIdleCount_def intro!: exI[of _ 8])

section \<open>The line\<close>

lemma wire_bytes_append [simp]: "wire_bytes (u @ w) = wire_bytes u @ wire_bytes w"
  by (induction u rule: wire_bytes.induct) simp_all

lemma idle_at_append: "idle_at w m \<Longrightarrow> idle_at (w @ u) m"
proof -
  assume "idle_at w m"
  then obtain k where "k < length w" "w ! k = Idle" "length (wire_bytes (take k w)) = m" by (auto simp: idle_at_def)
  then show "idle_at (w @ u) m" unfolding idle_at_def by (intro exI[of _ k]) (simp add: nth_append)
qed

lemma idle_at_end: "w \<noteq> [] \<Longrightarrow> last w = Idle \<Longrightarrow> idle_at w (length (wire_bytes w))"
proof -
  assume a: "w \<noteq> []" "last w = Idle"
  then have w: "w = butlast w @ [Idle]" by (metis append_butlast_last_id)
  have "length (wire_bytes w) = length (wire_bytes (butlast w))" by (subst w) simp
  then show ?thesis
    using a unfolding idle_at_def by (intro exI[of _ "length w - 1"]) (simp add: last_conv_nth butlast_conv_take)
qed

text \<open>\<open>r\<close> bytes are left to the channel; the bytes before them are on the line or in the FIFO.\<close>

definition in_hardware :: "tx_line \<Rightarrow> nat \<Rightarrow> nat \<Rightarrow> bool" where
  "in_hardware s d r =
    (dma s = (if dma s = None then None else Some (map (\<lambda>j. j mod kBufferSize) [d - r..<d]))
     \<and> (dma s = None \<longrightarrow> r = 0) \<and> r \<le> unat (in_flight (tbuf s)) \<and> wire_bytes (line_out s) @ fifo s = take (d - r) (accepted s)
     \<and> (idle_flag s \<longrightarrow> dma s = None \<and> fifo s = [] \<and> (line_out s \<noteq> [] \<longrightarrow> last (line_out s) = Idle))
     \<and> (\<not> tx_triggered (tbuf s) \<longrightarrow> d = 0))"

definition marks_kept :: "tx_line \<Rightarrow> nat list \<Rightarrow> bool" where
  "marks_kept s ms = (idle_boundary_before_in (tbuf s) = (length (accepted s) \<in> set (marks s))
     \<and> (\<forall>m \<in> set (marks s). m \<le> length (accepted s) \<and> (m \<in> set ms \<or> m = 0 \<or> idle_at (line_out s) m)))"

definition line_ok :: "tx_line \<Rightarrow> bool" where
  "line_ok s = (\<not> asserted s \<and> (\<exists>c ms r. tx_rep (tbuf s) (accepted s) c ms
     \<and> in_hardware s (dispatched (tbuf s) c) r \<and> marks_kept s ms))"

lemma line_okI:
  "\<not> asserted s \<Longrightarrow> tx_rep (tbuf s) (accepted s) c ms \<Longrightarrow> in_hardware s (dispatched (tbuf s) c) r \<Longrightarrow> marks_kept s ms \<Longrightarrow> line_ok s"
  by (auto simp: line_ok_def)

lemma enqueue_line:
  assumes s: "\<not> asserted s" "tx_rep (tbuf s) (accepted s) c ms" "in_hardware s (dispatched (tbuf s) c) r" "marks_kept s ms"
  shows "line_ok (tx_step (Enqueue v) s)"
proof (cases "try_enqueue v (tbuf s)")
  case (Pair ok b')
  show ?thesis
  proof (cases ok)
    case False
    then have "tx_step (Enqueue v) s = s" using Pair refused_keeps[of v "tbuf s" b'] by simp
    then show ?thesis using s by (simp add: line_okI)
  next
    case True
    let ?n = "length (accepted s)" and ?s = "length (uart_data v)"
    have e0: "try_enqueue v (tbuf s) = (True, b')" using Pair True by simp
    obtain ms' where e: "tx_rep b' (accepted s @ uart_data v) c (ms @ ms')"
      "set ms' = (if idle_delimited v then (if idle_boundary_before_in (tbuf s) then {} else {?n})
          \<union> (if uart_data v = [] then {} else {?n + ?s}) else {})"
      "idle_boundary_before_in b' = (idle_delimited v \<or> idle_boundary_before_in (tbuf s) \<and> uart_data v = [])"
      "in_flight b' = in_flight (tbuf s)" "tx_triggered b' = tx_triggered (tbuf s)"
      using enqueue_rep[OF s(2) e0] by blast
    define s' where "s' = tx_step (Enqueue v) s"
    have s': "tbuf s' = b'" "accepted s' = accepted s @ uart_data v" "dma s' = dma s" "fifo s' = fifo s" "line_out s' = line_out s"
      "idle_flag s' = idle_flag s" "asserted s' = asserted s"
      "marks s' = marks s @ (if idle_delimited v then [?n, ?n + ?s] else [])"
      using Pair True by (simp_all add: s'_def)
    have d: "dispatched b' c = dispatched (tbuf s) c" by (simp add: dispatched_def e(4))
    have "dispatched (tbuf s) c \<le> ?n" using s(2) by (simp add: tx_rep_def)
    then have "in_hardware s' (dispatched b' c) r"
      using s(3) by (simp add: in_hardware_def s' d e(4,5) del: if_split_asm)
    moreover have "marks_kept s' (ms @ ms')"
    proof -
      have m: "idle_boundary_before_in (tbuf s) = (?n \<in> set (marks s))"
        "\<forall>m \<in> set (marks s). m \<le> ?n \<and> (m \<in> set ms \<or> m = 0 \<or> idle_at (line_out s) m)"
        using s(4) by (simp_all add: marks_kept_def)
      have "?n + ?s \<notin> set (marks s)" if "uart_data v \<noteq> []" using m(2) that by fastforce
      then show ?thesis using m e(2,3) by (auto simp: marks_kept_def s' split: if_splits)
    qed
    ultimately show ?thesis using line_okI[of s' c "ms @ ms'" r] s(1) e(1) s' by (simp add: s'_def)
  qed
qed

lemma poll_line:
  assumes s: "\<not> asserted s" "tx_rep (tbuf s) (accepted s) c ms" "in_hardware s (dispatched (tbuf s) c) r" "marks_kept s ms"
  shows "line_ok (tx_step Poll s)"
proof (cases "dma s")
  case (Some as)
  then have "tx_step Poll s = s" by (simp add: try_dequeue_def)
  then show ?thesis using s by (simp add: line_okI)
next
  case None
  define d where "d = dispatched (tbuf s) c"
  have hw: "r = 0" "wire_bytes (line_out s) @ fifo s = take d (accepted s)"
    "idle_flag s \<longrightarrow> fifo s = [] \<and> (line_out s \<noteq> [] \<longrightarrow> last (line_out s) = Idle)" "\<not> tx_triggered (tbuf s) \<longrightarrow> d = 0"
    using s(3) None by (auto simp: in_hardware_def d_def)
  have le: "d \<le> length (accepted s)" using s(2) by (simp add: tx_rep_def d_def)
  from dequeue_rep[OF s(2), of "idle_flag s", folded d_def] obtain ok b' t ms' where
    q: "try_dequeue False (idle_flag s) (tbuf s) = Some (ok, b', t)" "tx_rep b' (accepted s) d ms'"
      "idle_boundary_before_in b' = idle_boundary_before_in (tbuf s)"
    and t: "case t of
         None \<Rightarrow> in_flight b' = 0 \<and> ms' = ms \<and> tx_triggered b' = tx_triggered (tbuf s)
           \<and> (d = length (accepted s) \<or> d \<in> set ms \<and> tx_triggered (tbuf s) \<and> \<not> idle_flag s)
       | Some as \<Rightarrow> tx_triggered b' \<and> (\<exists>k. 0 < k \<and> k \<le> kBufferSize \<and> unat (in_flight b') = k
           \<and> as = map (\<lambda>j. j mod kBufferSize) [d..<d + k])
           \<and> set ms' = set ms - {d} \<and> (d \<in> set ms \<longrightarrow> \<not> tx_triggered (tbuf s) \<or> idle_flag s)"
    by blast
  show ?thesis
  proof (cases t)
    case t': None
    then have st: "tx_step Poll s = s\<lparr>tbuf := b'\<rparr>" using q(1) None by simp
    have "dispatched b' d = d" using t t' by (simp add: dispatched_def)
    then show ?thesis
      unfolding st using s(1,4) q t t' hw None by (intro line_okI[of _ d ms' 0]) (auto simp: in_hardware_def marks_kept_def)
  next
    case t': (Some as)
    then have st: "tx_step Poll s = s\<lparr>tbuf := b', dma := Some as, idle_flag := False\<rparr>" using q(1) None by simp
    obtain k where k: "unat (in_flight b') = k" "as = map (\<lambda>j. j mod kBufferSize) [d..<d + k]" using t t' by auto
    have dd: "dispatched b' d = d + k" using k by (simp add: dispatched_def)
    have passed: "d = 0 \<or> idle_at (line_out s) d" if "d \<in> set ms"
    proof (cases "d = 0")
      case False
      then have "idle_flag s" using t t' hw(4) that by auto
      then have w: "wire_bytes (line_out s) = take d (accepted s)" "line_out s \<noteq> [] \<longrightarrow> last (line_out s) = Idle"
        using hw(2,3) by auto
      then have "length (wire_bytes (line_out s)) = d" "line_out s \<noteq> []" using le False by auto
      then show ?thesis using idle_at_end[of "line_out s"] w(2) by simp
    qed simp
    let ?s = "s\<lparr>tbuf := b', dma := Some as, idle_flag := False\<rparr>"
    have "in_hardware ?s (d + k) k" using hw k t t' by (auto simp: in_hardware_def)
    moreover have "marks_kept ?s ms'" using s(4) q(3) t t' passed by (auto simp: marks_kept_def)
    ultimately show ?thesis
      unfolding st using s(1) q(2) dd by (intro line_okI[of _ d ms' k]) simp_all
  qed
qed

lemma move_line:
  assumes s: "\<not> asserted s" "tx_rep (tbuf s) (accepted s) c ms" "in_hardware s (dispatched (tbuf s) c) r" "marks_kept s ms"
  shows "line_ok (tx_step Dma_move s)"
proof (cases "\<exists>a as. dma s = Some (a # as)")
  case False
  then have "tx_step Dma_move s = s" by (auto split: option.split list.split)
  then show ?thesis using s by (simp add: line_okI)
next
  case True
  then obtain a as where a: "dma s = Some (a # as)" by blast
  define d where "d = dispatched (tbuf s) c"
  have hw: "a # as = map (\<lambda>j. j mod kBufferSize) [d - r..<d]" "r \<le> unat (in_flight (tbuf s))"
    "wire_bytes (line_out s) @ fifo s = take (d - r) (accepted s)" "\<not> idle_flag s" "\<not> tx_triggered (tbuf s) \<longrightarrow> d = 0"
    using s(3) a by (auto simp: in_hardware_def d_def)
  have lt: "d - r < d" using hw(1) by (metis list.distinct(1) list.simps(8) upt_eq_Nil_conv not_le_imp_less)
  then have ra: "a = (d - r) mod kBufferSize" "as = map (\<lambda>j. j mod kBufferSize) [Suc (d - r)..<d]"
    using hw(1) by (simp_all add: upt_conv_Cons)
  have "r \<le> d" using hw(2) by (simp add: d_def dispatched_def)
  then have e: "Suc (d - r) = d - (r - 1)" using lt by simp
  have le: "c \<le> d - r" "d \<le> length (accepted s)" using hw(2) s(2) by (simp_all add: d_def dispatched_def tx_rep_def)
  then have "tx_data (tbuf s) ! a = accepted s ! (d - r)"
    using s(2) lt by (simp add: tx_rep_def holds_from_def ra(1))
  moreover have st: "tx_step Dma_move s = s\<lparr>dma := Some as, fifo := fifo s @ [tx_data (tbuf s) ! a]\<rparr>" using a by simp
  moreover have "take (Suc (d - r)) (accepted s) = take (d - r) (accepted s) @ [accepted s ! (d - r)]"
    using lt le by (intro take_Suc_conv_app_nth) simp
  ultimately have "in_hardware (tx_step Dma_move s) d (r - 1)"
    unfolding in_hardware_def e[symmetric] using hw(2-5) by (simp add: ra(2) append_assoc[symmetric] le_diff_conv del: append_assoc)
  moreover have "marks_kept (tx_step Dma_move s) ms" using s(4) a by (simp add: marks_kept_def)
  ultimately show ?thesis using s(1,2) a by (intro line_okI[of _ c ms "r - 1"]) (simp_all add: d_def)
qed

lemma hardware_line:
  assumes s: "\<not> asserted s" "tx_rep (tbuf s) (accepted s) c ms" "in_hardware s (dispatched (tbuf s) c) r" "marks_kept s ms"
  shows "line_ok (tx_step Dma_done s)" "line_ok (tx_step Shift s)" "line_ok (tx_step Line_idle s)"
proof -
  have "in_hardware (tx_step Dma_done s) (dispatched (tbuf s) c) (if dma s = Some [] then 0 else r)"
  proof (cases "dma s = Some []")
    case True
    moreover have "r = 0" using s(3) True by (auto simp: in_hardware_def dispatched_def)
    ultimately show ?thesis using s(3) by (auto simp: in_hardware_def)
  qed (use s(3) in auto)
  then show "line_ok (tx_step Dma_done s)"
    using s by (intro line_okI[of _ c ms "if dma s = Some [] then 0 else r"]) (auto simp: marks_kept_def)
  have "in_hardware (tx_step Shift s) (dispatched (tbuf s) c) r"
    using s(3) by (cases "fifo s") (auto simp: in_hardware_def)
  then show "line_ok (tx_step Shift s)"
    using s by (intro line_okI[of _ c ms r]) (auto simp: marks_kept_def idle_at_append split: list.split)
  have "in_hardware (tx_step Line_idle s) (dispatched (tbuf s) c) r"
    using s(3) by (auto simp: in_hardware_def)
  then show "line_ok (tx_step Line_idle s)"
    using s by (intro line_okI[of _ c ms r]) (auto simp: marks_kept_def idle_at_append)
qed

lemma step_line: "line_ok s \<Longrightarrow> line_ok (tx_step ev s)"
proof -
  assume "line_ok s"
  then obtain c ms r where s: "\<not> asserted s" "tx_rep (tbuf s) (accepted s) c ms" "in_hardware s (dispatched (tbuf s) c) r"
    "marks_kept s ms" by (auto simp: line_ok_def)
  show ?thesis
    using enqueue_line[OF s] poll_line[OF s] move_line[OF s] hardware_line[OF s] by (cases ev) blast+
qed

lemma start_line: "length mem = kBufferSize \<Longrightarrow> line_ok (tx_start mem)"
  using new_rep[of mem]
  by (intro line_okI[of _ 0 "[]" 0]) (auto simp: tx_start_def in_hardware_def marks_kept_def TxBuffer_new_def dispatched_def)

lemma run_line: "length mem = kBufferSize \<Longrightarrow> line_ok (fold tx_step evs (tx_start mem))"
  using start_line by (induction evs rule: rev_induct) (simp_all add: step_line)

lemma line_order:
  assumes "line_ok s"
  shows "\<not> asserted s \<and> (\<exists>n \<le> length (accepted s). wire_bytes (line_out s) = take n (accepted s)
    \<and> (\<forall>m \<in> set (marks s). 0 < m \<and> m < n \<longrightarrow> idle_at (line_out s) m))"
proof -
  obtain c ms r where s: "\<not> asserted s" "tx_rep (tbuf s) (accepted s) c ms" "in_hardware s (dispatched (tbuf s) c) r"
    "marks_kept s ms" using assms by (auto simp: line_ok_def)
  define d where "d = dispatched (tbuf s) c"
  define n where "n = length (wire_bytes (line_out s))"
  have le: "d \<le> length (accepted s)" "\<forall>m \<in> set ms. d \<le> m"
    using s(2) by (auto simp: d_def tx_rep_def checkpoints_at_def)
  have w: "wire_bytes (line_out s) @ fifo s = take (d - r) (accepted s)" using s(3) by (simp add: in_hardware_def d_def)
  have l: "length (wire_bytes (line_out s) @ fifo s) = length (take (d - r) (accepted s))" by (simp only: w)
  then have n: "n \<le> d" by (simp add: n_def)
  have "wire_bytes (line_out s) = take n (take (d - r) (accepted s))" unfolding w[symmetric] by (simp add: n_def)
  also have "\<dots> = take n (accepted s)"
    using l by (simp add: n_def min_def split: if_splits)
  finally have "wire_bytes (line_out s) = take n (accepted s)" .
  moreover have "idle_at (line_out s) m" if "m \<in> set (marks s)" "0 < m" "m < n" for m
    using s(4) le(2) n that by (fastforce simp: marks_kept_def)
  ultimately show ?thesis using s(1) le(1) n by (intro conjI exI[of _ n]) auto
qed

section \<open>Everything is sent\<close>

definition internal :: "tx_event list \<Rightarrow> bool" where
  "internal evs = (\<forall>ev \<in> set evs. \<forall>v. ev \<noteq> Enqueue v)"

lemma moves_done:
  "dma s = Some as \<Longrightarrow> fold tx_step (replicate (length as) Dma_move) s
     = s\<lparr>dma := Some [], fifo := fifo s @ map ((!) (tx_data (tbuf s))) as\<rparr>"
  by (induction as arbitrary: s) simp_all

lemma shifts_done: "fold tx_step (replicate (length (fifo s)) Shift) s = s\<lparr>fifo := [], line_out := line_out s @ map Byte (fifo s)\<rparr>"
proof (induction "fifo s" arbitrary: s)
  case (Cons x xs)
  then have "fifo s = x # xs" by simp
  then show ?case using Cons.hyps(1)[of "s\<lparr>fifo := xs, line_out := line_out s @ [Byte x]\<rparr>"] by simp
qed simp

lemma wire_bytes_map [simp]: "wire_bytes (map Byte bs) = bs"
  by (induction bs) simp_all

definition to_come :: "tx_line \<Rightarrow> 8 word list" where
  "to_come s = fifo s @ (case dma s of None \<Rightarrow> [] | Some as \<Rightarrow> map ((!) (tx_data (tbuf s))) as)"

lemma hardware_settles:
  "\<exists>evs w. internal evs \<and> fold tx_step evs s = s\<lparr>dma := None, fifo := [], line_out := w, idle_flag := True\<rparr>
     \<and> wire_bytes w = wire_bytes (line_out s) @ to_come s"
proof -
  have sh: "\<exists>evs w. internal evs \<and> fold tx_step evs s = s\<lparr>dma := None, fifo := [], line_out := w, idle_flag := True\<rparr>
     \<and> wire_bytes w = wire_bytes (line_out s) @ to_come s" if "dma s = None" for s
  proof -
    have "fold tx_step (replicate (length (fifo s)) Shift @ [Line_idle]) s
        = s\<lparr>dma := None, fifo := [], line_out := line_out s @ map Byte (fifo s) @ [Idle], idle_flag := True\<rparr>"
      unfolding fold_append comp_def shifts_done using that by (cases s) simp
    then show ?thesis using that
      by (intro exI[of _ "replicate (length (fifo s)) Shift @ [Line_idle]"] exI[of _ "line_out s @ map Byte (fifo s) @ [Idle]"])
        (auto simp: internal_def to_come_def)
  qed
  show ?thesis
  proof (cases "dma s")
    case None
    then show ?thesis by (rule sh)
  next
    case (Some as)
    define s1 where "s1 = fold tx_step (replicate (length as) Dma_move @ [Dma_done]) s"
    have s1: "s1 = s\<lparr>dma := None, fifo := fifo s @ map ((!) (tx_data (tbuf s))) as\<rparr>"
      using moves_done[OF Some] by (simp add: s1_def)
    then have p: "to_come s1 = to_come s" "line_out s1 = line_out s" using Some by (simp_all add: to_come_def)
    have "dma s1 = None" by (simp add: s1)
    from sh[OF this] obtain evs w where e: "internal evs" "wire_bytes w = wire_bytes (line_out s) @ to_come s"
      "fold tx_step evs s1 = s1\<lparr>dma := None, fifo := [], line_out := w, idle_flag := True\<rparr>" by (auto simp: p)
    have "fold tx_step ((replicate (length as) Dma_move @ [Dma_done]) @ evs) s
        = s\<lparr>dma := None, fifo := [], line_out := w, idle_flag := True\<rparr>"
    proof -
      have "fold tx_step ((replicate (length as) Dma_move @ [Dma_done]) @ evs) s = fold tx_step evs s1"
        unfolding s1_def by (simp only: fold_append comp_def)
      then show ?thesis using e(3) by (simp add: s1)
    qed
    moreover have "internal ((replicate (length as) Dma_move @ [Dma_done]) @ evs)" using e(1) by (auto simp: internal_def)
    ultimately show ?thesis using e(2) by blast
  qed
qed

lemma internal_run_keeps: "line_ok s \<Longrightarrow> line_ok (fold tx_step evs s)"
  by (induction evs arbitrary: s) (simp_all add: step_line)

text \<open>With the hardware at rest, a poll sends something unless everything is sent.\<close>

lemma poll_at_rest:
  assumes ok: "line_ok s" and rest: "dma s = None" "fifo s = []" "idle_flag s" and more: "wire_bytes (line_out s) \<noteq> accepted s"
  shows "accepted (tx_step Poll s) = accepted s \<and> line_out (tx_step Poll s) = line_out s \<and> (\<exists>a as. dma (tx_step Poll s) = Some (a # as))"
proof -
  obtain c ms r where s: "\<not> asserted s" "tx_rep (tbuf s) (accepted s) c ms" "in_hardware s (dispatched (tbuf s) c) r"
    "marks_kept s ms" using ok by (auto simp: line_ok_def)
  define d where "d = dispatched (tbuf s) c"
  have "wire_bytes (line_out s) = take d (accepted s)" using s(3) rest by (auto simp: in_hardware_def d_def)
  then have "d \<noteq> length (accepted s)" using more by auto
  with dequeue_rep[OF s(2), of True, folded d_def] rest show ?thesis
    by (auto split: option.splits simp: upt_conv_Cons)
qed

lemma everything_sent:
  assumes "line_ok s"
  shows "\<exists>evs. internal evs \<and> wire_bytes (line_out (fold tx_step evs s)) = accepted s"
proof -
  have rest: "\<exists>evs. internal evs \<and> wire_bytes (line_out (fold tx_step evs s)) = accepted s"
    if "line_ok s" "dma s = None" "fifo s = []" "idle_flag s" for s
    using that
  proof (induction "length (accepted s) - length (wire_bytes (line_out s))" arbitrary: s rule: less_induct)
    case less
    show ?case
    proof (cases "wire_bytes (line_out s) = accepted s")
      case True
      then show ?thesis by (intro exI[of _ "[]"]) (simp add: internal_def)
    next
      case False
      define s1 where "s1 = tx_step Poll s"
      obtain a as where s1: "accepted s1 = accepted s" "line_out s1 = line_out s" "dma s1 = Some (a # as)"
        using poll_at_rest[OF less.prems False] by (auto simp: s1_def)
      obtain evs w where e: "internal evs" "fold tx_step evs s1 = s1\<lparr>dma := None, fifo := [], line_out := w, idle_flag := True\<rparr>"
        "wire_bytes w = wire_bytes (line_out s1) @ to_come s1"
        using hardware_settles[of s1] by blast
      define s2 where "s2 = fold tx_step evs s1"
      have ok2: "line_ok s2" unfolding s2_def s1_def by (intro internal_run_keeps step_line less.prems)
      have s2: "dma s2 = None" "fifo s2 = []" "idle_flag s2" "accepted s2 = accepted s" "line_out s2 = w"
        unfolding s2_def e(2) using s1 by simp_all
      obtain n where "n \<le> length (accepted s)" "wire_bytes w = take n (accepted s)"
        using line_order[OF ok2] s2 by auto
      moreover have "length (wire_bytes (line_out s)) < length (wire_bytes w)" using e(3) s1 by (simp add: to_come_def)
      ultimately have "length (wire_bytes (line_out s)) < length (wire_bytes w) \<and> length (wire_bytes w) \<le> length (accepted s)"
        by simp
      then have "length (accepted s2) - length (wire_bytes (line_out s2)) < length (accepted s) - length (wire_bytes (line_out s))"
        unfolding s2(4,5) by linarith
      from less.hyps[OF this ok2(1) s2(1-3)] obtain evs2 where
        "internal evs2" "wire_bytes (line_out (fold tx_step evs2 s2)) = accepted s" using s2(4) by auto
      then show ?thesis using e(1)
        by (intro exI[of _ "Poll # evs @ evs2"]) (auto simp: internal_def s1_def s2_def simp del: tx_step.simps)
    qed
  qed
  obtain evs w where e: "internal evs" "fold tx_step evs s = s\<lparr>dma := None, fifo := [], line_out := w, idle_flag := True\<rparr>"
    using hardware_settles[of s] by blast
  have "line_ok (fold tx_step evs s)" by (rule internal_run_keeps[OF assms])
  from rest[OF this] obtain evs2 where "internal evs2" "wire_bytes (line_out (fold tx_step evs2 (fold tx_step evs s))) = accepted s"
    by (auto simp: e(2))
  then show ?thesis using e(1) by (intro exI[of _ "evs @ evs2"]) (auto simp: internal_def)
qed

end
