(* ===== verification/UartRx.thy ===== *)
theory UartRx
  imports UartTx Uplink
begin

text \<open>
  The receive side of a UART, \<open>app/src/uart/rx_buffer.hpp\<close> and \<open>Uart::handle_uplink\<close> of \<open>uart.hpp\<close>.  The
  DMA channel writes the received bytes around a ring of 2048 bytes without end; its destination address
  is what the driver learns of the progress.  An interrupt after every 32 bytes, or when the line goes
  idle, hands the bytes that are new to the serializer.
\<close>

unbundle bit_operations_syntax

section \<open>The buffer\<close>

record rx_buffer =
  rx_data :: "8 word list"
  rx_in :: "16 word"
  rx_out :: "16 word"

definition kMinFragmentSize :: nat where
  "kMinFragmentSize = 32"

definition kProtocolMaxPayloadSize :: nat where
  "kProtocolMaxPayloadSize = kProtocolBufferSize - sizeof_UartHeaderExtended"

text \<open>\<open>current_offset\<close> is the channel's destination address in the buffer.\<close>

definition update_in :: "nat \<Rightarrow> rx_buffer \<Rightarrow> rx_buffer" where
  "update_in current_offset b =
    (let new_in = (rx_in b AND NOT kBufferMask) OR of_nat current_offset;
         new_in = (if new_in < rx_in b then new_in + of_nat kBufferSize else new_in) in
     b\<lparr>rx_in := new_in\<rparr>)"

text \<open>The result of the release build: what is returned, the buffer, and the call of \<open>handle_uplink\<close>.\<close>

definition rx_try_dequeue :: "bool \<Rightarrow> nat \<Rightarrow> rx_buffer \<Rightarrow> bool \<times> rx_buffer \<times> (8 word list \<times> 8 word list \<times> bool) option" where
  "rx_try_dequeue is_idle current_offset b =
    (let b = update_in current_offset b;
         readable = unat (rx_in b - rx_out b) in
     if \<not> is_idle \<and> readable < kMinFragmentSize then (False, b, None)
     else let call = (if readable > kProtocolMaxPayloadSize then None
                      else let offset = unat (rx_out b AND kBufferMask);
                               slice = min readable (kBufferSize - offset) in
                           Some (if slice = readable then (get_bytes (rx_data b) offset slice, [], is_idle)
                                 else (get_bytes (rx_data b) offset slice, get_bytes (rx_data b) 0 (readable - slice), is_idle)))
          in (True, b\<lparr>rx_out := rx_out b + of_nat readable\<rparr>, call))"

text \<open>\<open>Uart::handle_uplink\<close>: without a session the bytes are dropped.\<close>

definition handle_uplink :: "bool \<Rightarrow> 'b serialize_buffer \<Rightarrow> 8 word \<Rightarrow> 8 word list \<times> 8 word list \<times> bool \<Rightarrow> 'b
    \<Rightarrow> serialize_result option \<times> 'b" where
  "handle_uplink uplink_enabled B data_id call b =
    (case call of (payload, payload2, is_idle) \<Rightarrow>
       if \<not> uplink_enabled then (None, b)
       else let (result, b) = write_uart B data_id \<lparr>uart_data = payload, idle_delimited = is_idle\<rparr> payload2 b in
            (Some result, b))"

section \<open>The channel\<close>

text \<open>The memory the channel writes and the interrupts; \<open>received\<close> is all that has come in, \<open>calls\<close> what was
  handed on.\<close>

record rx_line =
  rxbuf :: rx_buffer
  rx_received :: "8 word list"
  calls :: "(8 word list \<times> 8 word list \<times> bool) list"

datatype rx_event = Rx_byte "8 word" | Rx_irq bool

fun rx_step :: "rx_event \<Rightarrow> rx_line \<Rightarrow> rx_line" where
  "rx_step (Rx_byte x) s =
    s\<lparr>rxbuf := (rxbuf s)\<lparr>rx_data := (rx_data (rxbuf s))[length (rx_received s) mod kBufferSize := x]\<rparr>,
      rx_received := rx_received s @ [x]\<rparr>"
| "rx_step (Rx_irq is_idle) s =
    (case rx_try_dequeue is_idle (length (rx_received s) mod kBufferSize) (rxbuf s) of
       (_, b, call) \<Rightarrow> s\<lparr>rxbuf := b, calls := calls s @ (case call of None \<Rightarrow> [] | Some c \<Rightarrow> [c])\<rparr>)"

definition rx_start :: "8 word list \<Rightarrow> rx_line" where
  "rx_start mem = \<lparr>rxbuf = \<lparr>rx_data = mem, rx_in = 0, rx_out = 0\<rparr>, rx_received = [], calls = []\<rparr>"

definition call_bytes :: "8 word list \<times> 8 word list \<times> bool \<Rightarrow> 8 word list" where
  "call_bytes c = fst c @ fst (snd c)"

definition handed_on :: "rx_line \<Rightarrow> 8 word list" where
  "handed_on s = concat (map call_bytes (calls s))"

text \<open>Interrupts in time: at most 990 bytes between two of them, 31 of the interrupts the channel raises.\<close>

fun in_time :: "nat \<Rightarrow> rx_event list \<Rightarrow> bool" where
  "in_time n [] = True"
| "in_time n (Rx_byte x # evs) = (n < 990 \<and> in_time (Suc n) evs)"
| "in_time n (Rx_irq is_idle # evs) = in_time 0 evs"

section \<open>The position of the channel\<close>

lemma unat_or_disjoint: "a AND b = 0 \<Longrightarrow> unat (a OR b) = unat a + unat (b :: 'a :: len word)"
proof -
  assume "a AND b = 0"
  then have "unat a AND unat b = 0" by (metis unsigned_and_eq unat_0)
  then show ?thesis by (simp add: unsigned_or_eq disjunctive_add_eq_or)
qed

lemma split_index:
  fixes w :: "16 word"
  shows "unat ((w AND NOT kBufferMask) OR of_nat (t mod kBufferSize)) = unat w - unat w mod kBufferSize + t mod kBufferSize"
proof -
  have lo: "unat (w AND kBufferMask) = unat w mod kBufferSize" using mask_2048[of "unat w"] by simp
  have "w = (w AND NOT kBufferMask) OR (w AND kBufferMask)" by (rule bit_word_eqI) (auto simp: bit_simps)
  moreover have "(w AND NOT kBufferMask) AND (w AND kBufferMask) = 0" by (rule bit_word_eqI) (auto simp: bit_simps)
  ultimately have hi: "unat (w AND NOT kBufferMask) = unat w - unat w mod kBufferSize"
    using unat_or_disjoint[of "w AND NOT kBufferMask" "w AND kBufferMask"] lo by simp
  have u: "unat (of_nat (t mod kBufferSize) :: 16 word) = t mod kBufferSize"
  proof -
    have "t mod kBufferSize < 65536" by (rule less_trans[OF mod_less_divisor]) (simp_all add: kBufferSize_def)
    then show ?thesis by (simp add: unat_of_nat take_bit_eq_mod)
  qed
  then have o: "of_nat (t mod kBufferSize) = of_nat t AND kBufferMask"
    by (intro word_unat_eq_iff[THEN iffD2]) (simp only: mask_2048)
  have "(w AND NOT kBufferMask) AND (of_nat t AND kBufferMask) = 0" by (rule bit_word_eqI) (auto simp: bit_simps)
  from unat_or_disjoint[OF this] show ?thesis unfolding o[symmetric] hi u .
qed

text \<open>The position is right as long as less than a ring has come in since the last look.\<close>

lemma update_in_position:
  assumes "rx_in b = of_nat i" "i \<le> t" "t - i < kBufferSize"
  shows "update_in (t mod kBufferSize) b = b\<lparr>rx_in := of_nat t\<rparr>"
proof -
  let ?N = kBufferSize
  define w where "w = unat (rx_in b)"
  define new where "new = (rx_in b AND NOT kBufferMask) OR of_nat (t mod ?N)"
  have N: "?N = 2048" by (simp add: kBufferSize_def)
  have w: "w = i mod 65536" by (simp add: w_def assms(1) unat_of_nat take_bit_eq_mod)
  have wi: "w mod ?N = i mod ?N" unfolding w N by (simp add: mod_mod_cancel)
  have u: "unat new = w - i mod ?N + t mod ?N" unfolding new_def split_index w_def[symmetric] wi ..
  define d where "d = t - i"
  have t: "t = i + d" "d < ?N" using assms(2,3) by (simp_all add: d_def)
  have split: "t mod ?N = (if i mod ?N + d < ?N then i mod ?N + d else i mod ?N + d - ?N)"
  proof -
    have "t mod ?N = (i mod ?N + d) mod ?N" by (simp add: t(1) mod_add_left_eq)
    then show ?thesis using wrap[of "i mod ?N" ?N d] t(2) by (simp add: N)
  qed
  have le: "i mod ?N \<le> w" unfolding wi[symmetric] by simp
  have wlt: "w < 65536" by (simp add: w)
  have target: "(of_nat t :: 16 word) = of_nat (w + d)"
    unfolding t(1) by (simp add: w_def assms(1))
  show ?thesis
  proof (cases "i mod ?N + d < ?N")
    case True
    then have e: "unat new = w + d" using u split le by simp
    then have "\<not> new < rx_in b" by (simp add: word_less_nat_alt w_def)
    moreover have "new = of_nat t" unfolding target e[symmetric] by simp
    ultimately show ?thesis by (simp add: update_in_def new_def[symmetric] Let_def)
  next
    case False
    then have e: "unat new + ?N = w + d" using u split le by simp
    then have "unat new < w" using t(2) by simp
    then have "new < rx_in b" by (simp add: word_less_nat_alt w_def)
    moreover have "new + of_nat ?N = of_nat t" unfolding target e[symmetric] by simp
    ultimately show ?thesis by (simp add: update_in_def new_def[symmetric] Let_def)
  qed
qed

section \<open>What is handed on\<close>

definition rx_inv :: "nat \<Rightarrow> rx_line \<Rightarrow> bool" where
  "rx_inv gap s =
    (gap \<le> 990 \<and> length (rx_data (rxbuf s)) = kBufferSize
     \<and> (\<forall>j < length (rx_received s). length (rx_received s) \<le> j + kBufferSize
          \<longrightarrow> rx_data (rxbuf s) ! (j mod kBufferSize) = rx_received s ! j)
     \<and> (\<exists>i c. rx_in (rxbuf s) = of_nat i \<and> rx_out (rxbuf s) = of_nat c \<and> c \<le> i \<and> i \<le> length (rx_received s)
          \<and> length (rx_received s) \<le> c + 31 + gap \<and> handed_on s = take c (rx_received s))
     \<and> (\<forall>call \<in> set (calls s). length (call_bytes call) \<le> kProtocolMaxPayloadSize))"

lemma rx_invI:
  "gap \<le> 990 \<Longrightarrow> length (rx_data (rxbuf s)) = kBufferSize
   \<Longrightarrow> (\<And>j. j < length (rx_received s) \<Longrightarrow> length (rx_received s) \<le> j + kBufferSize
         \<Longrightarrow> rx_data (rxbuf s) ! (j mod kBufferSize) = rx_received s ! j)
   \<Longrightarrow> rx_in (rxbuf s) = of_nat i \<Longrightarrow> rx_out (rxbuf s) = of_nat c \<Longrightarrow> c \<le> i \<Longrightarrow> i \<le> length (rx_received s)
   \<Longrightarrow> length (rx_received s) \<le> c + 31 + gap \<Longrightarrow> handed_on s = take c (rx_received s)
   \<Longrightarrow> (\<And>call. call \<in> set (calls s) \<Longrightarrow> length (call_bytes call) \<le> kProtocolMaxPayloadSize) \<Longrightarrow> rx_inv gap s"
  by (auto simp: rx_inv_def)

lemma byte_received:
  assumes "rx_inv gap s" "gap < 990"
  shows "rx_inv (Suc gap) (rx_step (Rx_byte x) s)"
proof -
  let ?n = "length (rx_received s)"
  from assms(1) obtain i c where s: "length (rx_data (rxbuf s)) = kBufferSize"
    "\<And>j. j < ?n \<Longrightarrow> ?n \<le> j + kBufferSize \<Longrightarrow> rx_data (rxbuf s) ! (j mod kBufferSize) = rx_received s ! j"
    "rx_in (rxbuf s) = of_nat i" "rx_out (rxbuf s) = of_nat c" "c \<le> i" "i \<le> ?n" "?n \<le> c + 31 + gap"
    "handed_on s = take c (rx_received s)" "\<And>call. call \<in> set (calls s) \<Longrightarrow> length (call_bytes call) \<le> kProtocolMaxPayloadSize"
    by (auto simp: rx_inv_def)
  show ?thesis
  proof (rule rx_invI[of _ _ i c])
    fix j assume j: "j < length (rx_received (rx_step (Rx_byte x) s))"
      "length (rx_received (rx_step (Rx_byte x) s)) \<le> j + kBufferSize"
    show "rx_data (rxbuf (rx_step (Rx_byte x) s)) ! (j mod kBufferSize) = rx_received (rx_step (Rx_byte x) s) ! j"
    proof (cases "j = ?n")
      case True
      then show ?thesis using s(1) by (simp add: nth_list_update kBufferSize_def)
    next
      case False
      then have j': "j < ?n" "?n - j < kBufferSize" using j by simp_all
      have "j mod kBufferSize \<noteq> ?n mod kBufferSize"
      proof
        assume "j mod kBufferSize = ?n mod kBufferSize"
        then have "kBufferSize dvd ?n - j" using j'(1) by (metis mod_eq_dvd_iff_nat less_imp_le)
        then show False using j' by (meson dvd_imp_le leD zero_less_diff)
      qed
      then show ?thesis using s(2)[of j] j' j(2) by (simp add: nth_append)
    qed
  qed (use s assms(2) in \<open>auto simp: handed_on_def\<close>)
qed

text \<open>The bytes of the call are the ones between the two positions.\<close>

lemma call_spans:
  assumes "length mem = kBufferSize" "c \<le> n" "n - c \<le> kBufferSize" "n = length acc"
    and "\<And>j. c \<le> j \<Longrightarrow> j < n \<Longrightarrow> mem ! (j mod kBufferSize) = acc ! j"
    and "part = min (n - c) (kBufferSize - c mod kBufferSize)"
  shows "call_bytes (if part = n - c then (get_bytes mem (c mod kBufferSize) part, [], is_idle)
      else (get_bytes mem (c mod kBufferSize) part, get_bytes mem 0 (n - c - part), is_idle)) = drop c acc"
proof -
  let ?q = "c mod kBufferSize"
  have q: "?q < kBufferSize" by (simp add: kBufferSize_def)
  have lens: "length (get_bytes mem ?q part) = part" "length (get_bytes mem 0 (n - c - part)) = n - c - part"
    using assms(1,3,6) q by simp_all
  have "get_bytes mem ?q part @ get_bytes mem 0 (n - c - part) = drop c acc"
  proof (rule nth_equalityI)
    show "length (get_bytes mem ?q part @ get_bytes mem 0 (n - c - part)) = length (drop c acc)"
      unfolding length_append lens assms(4)[symmetric] length_drop using assms(6) by linarith
    fix i assume "i < length (get_bytes mem ?q part @ get_bytes mem 0 (n - c - part))"
    then have i: "i < n - c" unfolding length_append lens using assms(6) by linarith
    then have "acc ! (c + i) = mem ! ((?q + i) mod kBufferSize)" using assms(5)[of "c + i"] by (simp add: mod_add_left_eq)
    moreover have "(?q + i) mod kBufferSize = (if i < part then ?q + i else i - part)"
      using wrap[OF q, of i] i assms(3,6) by auto
    ultimately show "(get_bytes mem ?q part @ get_bytes mem 0 (n - c - part)) ! i = drop c acc ! i"
    proof -
      have "(get_bytes mem ?q part @ get_bytes mem 0 (n - c - part)) ! i
          = (if i < part then get_bytes mem ?q part ! i else get_bytes mem 0 (n - c - part) ! (i - part))"
        unfolding nth_append lens(1) ..
      moreover have "get_bytes mem ?q part ! i = mem ! (?q + i)" if "i < part"
        using that assms(1,6) q by (simp add: get_bytes_def)
      moreover have "get_bytes mem 0 (n - c - part) ! (i - part) = mem ! (i - part)" if "\<not> i < part"
        using that i by (simp add: get_bytes_def)
      moreover have "drop c acc ! i = acc ! (c + i)" using i assms(4) by simp
      ultimately show ?thesis using \<open>acc ! (c + i) = _\<close> \<open>(?q + i) mod kBufferSize = _\<close> by simp
    qed
  qed
  then show ?thesis by (auto simp: call_bytes_def get_bytes_def)
qed

lemma interrupt_taken:
  assumes "rx_inv gap s"
  shows "rx_inv 0 (rx_step (Rx_irq is_idle) s)"
    and "is_idle \<Longrightarrow> handed_on (rx_step (Rx_irq is_idle) s) = rx_received s
         \<and> (\<exists>call. calls (rx_step (Rx_irq is_idle) s) = calls s @ [call] \<and> snd (snd call))"
proof -
  let ?n = "length (rx_received s)" and ?b = "rxbuf s"
  from assms obtain i c where s: "gap \<le> 990" "length (rx_data ?b) = kBufferSize"
    "\<And>j. j < ?n \<Longrightarrow> ?n \<le> j + kBufferSize \<Longrightarrow> rx_data ?b ! (j mod kBufferSize) = rx_received s ! j"
    "rx_in ?b = of_nat i" "rx_out ?b = of_nat c" "c \<le> i" "i \<le> ?n" "?n \<le> c + 31 + gap"
    "handed_on s = take c (rx_received s)" "\<And>call. call \<in> set (calls s) \<Longrightarrow> length (call_bytes call) \<le> kProtocolMaxPayloadSize"
    by (auto simp: rx_inv_def)
  have pos: "update_in (?n mod kBufferSize) ?b = ?b\<lparr>rx_in := of_nat ?n\<rparr>"
    using s by (intro update_in_position[of _ i]) (auto simp: kBufferSize_def)
  have rd: "unat (of_nat ?n - of_nat c :: 16 word) = ?n - c" using s by (intro unat_diff16) auto
  have small: "?n - c \<le> kProtocolMaxPayloadSize"
    using s by (simp add: kProtocolMaxPayloadSize_def kProtocolBufferSize_def sizeof_UartHeaderExtended_def)
  define part where "part = min (?n - c) (kBufferSize - c mod kBufferSize)"
  define call where "call = (if part = ?n - c then (get_bytes (rx_data ?b) (c mod kBufferSize) part, [], is_idle)
      else (get_bytes (rx_data ?b) (c mod kBufferSize) part, get_bytes (rx_data ?b) 0 (?n - c - part), is_idle))"
  have cb: "call_bytes call = drop c (rx_received s)"
    unfolding call_def using s by (intro call_spans[OF _ _ _ refl _ part_def]) (auto simp: kBufferSize_def)
  have step: "rx_step (Rx_irq is_idle) s = (if \<not> is_idle \<and> ?n - c < kMinFragmentSize then s\<lparr>rxbuf := ?b\<lparr>rx_in := of_nat ?n\<rparr>\<rparr>
      else s\<lparr>rxbuf := ?b\<lparr>rx_in := of_nat ?n, rx_out := of_nat ?n\<rparr>, calls := calls s @ [call]\<rparr>)"
  proof -
    have "of_nat c + of_nat (?n - c) = (of_nat ?n :: 16 word)" using s(6,7) by (simp add: of_nat_diff)
    then show ?thesis
      using small by (auto simp: rx_try_dequeue_def pos rd Let_def s(5) mask_2048 call_def part_def min_def)
  qed
  have on: "handed_on (s\<lparr>rxbuf := ?b\<lparr>rx_in := of_nat ?n, rx_out := of_nat ?n\<rparr>, calls := calls s @ [call]\<rparr>) = rx_received s"
    using s(9) cb by (simp add: handed_on_def)
  show "rx_inv 0 (rx_step (Rx_irq is_idle) s)"
  proof (cases "\<not> is_idle \<and> ?n - c < kMinFragmentSize")
    case True
    then show ?thesis
      unfolding step if_P[OF True] using s by (intro rx_invI[of _ _ ?n c]) (auto simp: handed_on_def kMinFragmentSize_def)
  next
    case False
    then show ?thesis
      unfolding step if_not_P[OF False] using s on cb small by (intro rx_invI[of _ _ ?n ?n]) auto
  qed
  show "is_idle \<Longrightarrow> handed_on (rx_step (Rx_irq is_idle) s) = rx_received s
         \<and> (\<exists>call. calls (rx_step (Rx_irq is_idle) s) = calls s @ [call] \<and> snd (snd call))"
    unfolding step using on by (auto simp: call_def)
qed

lemma rx_run_inv: "rx_inv gap s \<Longrightarrow> in_time gap evs \<Longrightarrow> \<exists>g. rx_inv g (fold rx_step evs s)"
proof (induction evs arbitrary: gap s)
  case (Cons ev evs)
  then show ?case
    using byte_received[of gap s] interrupt_taken(1)[of gap s] by (cases ev) (fastforce simp del: rx_step.simps)+
qed auto

lemma rx_start_inv: "length mem = kBufferSize \<Longrightarrow> rx_inv 0 (rx_start mem)"
  by (intro rx_invI[of _ _ 0 0]) (simp_all add: rx_start_def handed_on_def)

text \<open>The serializer takes every call, if the id has a short header.\<close>

lemma uplink_accepted:
  assumes "length (call_bytes call) \<le> kProtocolMaxPayloadSize" "data_id \<le> 15"
  shows "fst (handle_uplink enabled B data_id call b) \<noteq> Some kInvalidArgument"
proof -
  obtain p q idl where c: "call = (p, q, idl)" by (cases call)
  have "length p + length q \<le> 1021"
    using assms(1) by (simp add: c call_bytes_def kProtocolMaxPayloadSize_def kProtocolBufferSize_def sizeof_UartHeaderExtended_def)
  then have "required_uart_size data_id \<lparr>uart_data = p, idle_delimited = idl\<rparr> q \<noteq> 0"
    using assms(2) by (auto simp: required_uart_size_def required_field_header_size_def use_extended_field_header_def
        kProtocolBufferSize_def sizes Let_def)
  then show ?thesis
    by (auto simp: c handle_uplink_def write_uart_def serialize_def Let_def split: prod.splits if_splits)
qed

end
