(* ===== verification/DriverProps.thy ===== *)
theory DriverProps
  imports UartRx
begin

text \<open>
  The properties of the board's drivers that the serializer and the session rest on.
\<close>

section \<open>UART, transmit side\<close>

definition sample_tx :: "tx_line" where
  "sample_tx = fold tx_step
     [Enqueue \<lparr>uart_data = [1, 2], idle_delimited = True\<rparr>, Enqueue \<lparr>uart_data = [3], idle_delimited = False\<rparr>, Poll,
      Dma_move, Poll, Shift, Dma_move, Dma_done, Poll, Shift, Line_idle, Poll, Dma_move, Shift]
     (tx_start (replicate 2048 0))"

lemma sample_tx_run: "accepted sample_tx = [1, 2, 3] \<and> marks sample_tx = [0, 2] \<and> line_out sample_tx = [Byte 1, Byte 2, Idle, Byte 3]"
  by (simp add: sample_tx_def tx_start_def TxBuffer_new_def try_enqueue_def enqueue_checkpoints_def try_dequeue_def take_sent_def
      push_back_def emplace_back_n_def pop_front_n_def peek_front_def rb_mask_def kBufferSize_def kMaxIdleCount_def kBufferMask_def
      trigger_dma_def idle_loop.simps upt_rec)

text \<open>
  C19.  Whatever is enqueued, polled and done by the hardware in any order, the bytes of the accepted
  frames leave the UART in their order and unchanged; wherever an idle-delimited frame begins or ends
  the line has been idle before the next byte; the driver's assertion holds; and from every state the
  polls and the hardware alone get all accepted bytes onto the line.
\<close>

theorem uart_transmits:
  assumes "length mem = kBufferSize" and "s = fold tx_step evs (tx_start mem)"
  shows "\<not> asserted s
    \<and> (\<exists>n \<le> length (accepted s). wire_bytes (line_out s) = take n (accepted s)
        \<and> (\<forall>m \<in> set (marks s). 0 < m \<and> m < n \<longrightarrow> idle_at (line_out s) m))
    \<and> (\<exists>more. internal more \<and> wire_bytes (line_out (fold tx_step more s)) = accepted s)"
  using line_order[OF run_line[OF assms(1), of evs]] everything_sent[OF run_line[OF assms(1), of evs]]
  unfolding assms(2) by blast

theorem uart_transmits_witness: "\<not> asserted sample_tx \<and> idle_at (line_out sample_tx) 2 \<and> wire_bytes (line_out sample_tx) = [1, 2, 3]"
proof -
  have "length (replicate 2048 0 :: 8 word list) = kBufferSize" by (simp add: kBufferSize_def)
  from uart_transmits[OF this sample_tx_def] obtain n where n: "\<not> asserted sample_tx"
    "wire_bytes (line_out sample_tx) = take n (accepted sample_tx)"
    "\<forall>m \<in> set (marks sample_tx). 0 < m \<and> m < n \<longrightarrow> idle_at (line_out sample_tx) m" by blast
  have "length (take n (accepted sample_tx)) = 3" unfolding n(2)[symmetric] using sample_tx_run by simp
  then have "2 < n" by simp
  then show ?thesis using n sample_tx_run by simp
qed

section \<open>UART, receive side\<close>

definition sample_rx_events :: "rx_event list" where
  "sample_rx_events = [Rx_byte 7, Rx_byte 8, Rx_irq False, Rx_byte 9, Rx_irq True, Rx_byte 10]"

text \<open>
  C9.  A UART hands on what it receives: while an interrupt comes in time, the bytes handed to the
  serializer are those received, in order, none lost or doubled by the wrap of the ring or of the
  16-bit positions; at an idle line nothing is left behind and the call says so; and the serializer
  never finds a call's arguments invalid.
\<close>

theorem uart_receives:
  assumes "length mem = kBufferSize" and "in_time 0 evs" and "s = fold rx_step evs (rx_start mem)"
  shows "(\<exists>n. handed_on s = take n (rx_received s))
    \<and> handed_on (rx_step (Rx_irq True) s) = rx_received s
    \<and> (\<exists>call. calls (rx_step (Rx_irq True) s) = calls s @ [call] \<and> snd (snd call))
    \<and> (\<forall>call \<in> set (calls s). data_id \<le> 15 \<longrightarrow> fst (handle_uplink enabled B data_id call b) \<noteq> Some kInvalidArgument)"
proof -
  obtain g where g: "rx_inv g s" using rx_run_inv[OF rx_start_inv[OF assms(1)] assms(2)] assms(3) by blast
  then have "\<exists>n. handed_on s = take n (rx_received s)"
    and small: "\<forall>call \<in> set (calls s). length (call_bytes call) \<le> kProtocolMaxPayloadSize" by (auto simp: rx_inv_def)
  moreover have "\<forall>call \<in> set (calls s). data_id \<le> 15 \<longrightarrow> fst (handle_uplink enabled B data_id call b) \<noteq> Some kInvalidArgument"
    using small by (intro ballI impI uplink_accepted) simp_all
  moreover note interrupt_taken(2)[OF g TrueI]
  ultimately show ?thesis by (elim conjE) (intro conjI; assumption)
qed

theorem uart_receives_witness:
  "handed_on (rx_step (Rx_irq True) (fold rx_step sample_rx_events (rx_start (replicate 2048 0)))) = [7, 8, 9, 10]"
proof -
  let ?s = "fold rx_step sample_rx_events (rx_start (replicate 2048 0))"
  have "length (replicate 2048 0 :: 8 word list) = kBufferSize" by (simp add: kBufferSize_def)
  moreover have "in_time 0 sample_rx_events" by (simp add: sample_rx_events_def)
  ultimately have "handed_on (rx_step (Rx_irq True) ?s) = rx_received ?s" by (intro uart_receives[OF _ _ refl, THEN conjunct2, THEN conjunct1])
  moreover have "rx_received ?s = [7, 8, 9, 10]"
    by (simp add: sample_rx_events_def rx_start_def split: prod.splits)
  ultimately show ?thesis by (simp only:)
qed

end
