(* ===== verification/HostSession.thy ===== *)
theory HostSession
  imports UartRx
begin

text \<open>
  The host session of the board application, \<open>app/src/link/host_session.hpp\<close>, with the transport that
  subclasses it in the two-core build, \<open>PdLink\<close> of \<open>app/src/xcore/pd_link.hpp\<close>: a session is opened by a
  start request of the host, lives on a lease of one second, and gates what the host commands and what
  the drivers report.

  The session is the callback state of the deserializer.  The CAN driver is a parameter; the UARTs are
  their transmit buffers.  The time base and the pulse test are those of the default build, where they
  are compiled out: their stubs change nothing and report zeros.  Two fields are history: \<open>written_fields\<close>,
  what the serializer has accepted since the session was opened, and \<open>sent_transfers\<close>, the batches that
  have reached the wire since then.
\<close>

section \<open>State\<close>

record 'd session =
  transmit_buffer :: isb
  transmitting_batch :: "nat option"
  uplink_enabled :: bool
  session_established :: bool
  current_session_nonce :: "32 word"
  last_session_refresh :: "64 word"
  pending_pulse_microframe :: "64 word"
  pending_pulse_armed :: bool
  transmitted_size :: nat
  timestamp :: "64 word"
  can_drivers :: 'd
  uarts :: "tx_buffer list"
  always_failed :: bool
  written_fields :: "field list"
  sent_transfers :: "8 word list list"

record 'd ports =
  can_data_ids :: "8 word list"
  can_handle_downlink :: "nat \<Rightarrow> can_view \<Rightarrow> 'd \<Rightarrow> 'd"
  uart_data_ids :: "8 word list"
  uart_config_data_ids :: "8 word list"

abbreviation kStart :: "8 word" where "kStart \<equiv> 0"
abbreviation kStartAck :: "8 word" where "kStartAck \<equiv> 1"
abbreviation kKeepalive :: "8 word" where "kKeepalive \<equiv> 2"
abbreviation kKeepaliveAck :: "8 word" where "kKeepaliveAck \<equiv> 3"

definition kSessionLeaseQuarterUs :: "64 word" where
  "kSessionLeaseQuarterUs = 4000000"

definition new_session :: "'d \<Rightarrow> tx_buffer list \<Rightarrow> 'd session" where
  "new_session d us = \<lparr>transmit_buffer = isb_new, transmitting_batch = None, uplink_enabled = False, session_established = False,
     current_session_nonce = 0, last_session_refresh = 0, pending_pulse_microframe = 0, pending_pulse_armed = False,
     transmitted_size = 0, timestamp = 0, can_drivers = d, uarts = us, always_failed = False, written_fields = [], sent_transfers = []\<rparr>"

text \<open>A call of the serializer, with the history of what it accepted.\<close>

definition queue_field :: "write_call \<Rightarrow> 'd session \<Rightarrow> serialize_result \<times> 'd session" where
  "queue_field w c =
    (let (res, b) = perform isb_buffer w (transmit_buffer c) in
     (res, c\<lparr>transmit_buffer := b, written_fields := written_fields c @ (if res = kSuccess then received w else [])\<rparr>))"

section \<open>The life of a session\<close>

definition release_transmitting :: "'d session \<Rightarrow> 'd session" where
  "release_transmitting c =
    (case transmitting_batch c of
       None \<Rightarrow> c
     | Some i \<Rightarrow> c\<lparr>transmit_buffer := release_batch i (transmit_buffer c), transmitting_batch := None\<rparr>)"

text \<open>\<open>PdLink::session_activated_callback\<close> resets the progress of the USB transfer.\<close>

definition session_activated_callback :: "'d session \<Rightarrow> 'd session" where
  "session_activated_callback c = c\<lparr>transmitted_size := 0\<rparr>"

definition activate_session :: "32 word \<Rightarrow> 'd session \<Rightarrow> 'd session" where
  "activate_session nonce c =
    (let c = release_transmitting c;
         c = c\<lparr>transmit_buffer := isb_clear (transmit_buffer c)\<rparr>;
         c = session_activated_callback c in
     c\<lparr>current_session_nonce := nonce, last_session_refresh := timestamp c, session_established := True, uplink_enabled := False,
       written_fields := [], sent_transfers := []\<rparr>)"

definition deactivate_session :: "'d session \<Rightarrow> 'd session" where
  "deactivate_session c = c\<lparr>uplink_enabled := False, session_established := False\<rparr>"

definition refresh_session_state :: "'d session \<Rightarrow> 'd session" where
  "refresh_session_state c =
    (if \<not> session_established c then c
     else if timestamp c - last_session_refresh c < kSessionLeaseQuarterUs then c
     else deactivate_session c)"

definition assert_always :: "bool \<Rightarrow> 'd session \<Rightarrow> 'd session" where
  "assert_always b c = c\<lparr>always_failed := always_failed c \<or> \<not> b\<rparr>"

section \<open>What the host says\<close>

definition session_control :: "session_view \<Rightarrow> 'd session \<Rightarrow> 'd session" where
  "session_control v c =
    (if session_type v = kStart
     then let same_session = (session_established c \<and> session_nonce v = current_session_nonce c);
              c = (if \<not> same_session then activate_session (session_nonce v) c else c\<lparr>last_session_refresh := timestamp c\<rparr>);
              (result, c) = queue_field (WSession \<lparr>session_type = kStartAck, session_nonce = session_nonce v\<rparr>) c in
          (assert_always (result \<noteq> kInvalidArgument) c)\<lparr>uplink_enabled := True\<rparr>
     else if session_type v = kKeepalive
     then if \<not> session_established c \<or> session_nonce v \<noteq> current_session_nonce c then c
          else let c = c\<lparr>last_session_refresh := timestamp c\<rparr>;
                   (result, c) = queue_field (WSession \<lparr>session_type = kKeepaliveAck, session_nonce = session_nonce v\<rparr>) c in
               assert_always (result \<noteq> kInvalidArgument) c
     else c)"

definition time_anchor :: "microframe_view \<Rightarrow> 'd session \<Rightarrow> 'd session" where
  "time_anchor v c =
    (if \<not> session_established c \<or> mf_nonce v \<noteq> current_session_nonce c then c
     else snd (queue_field (WTimeStatus \<lparr>ts_nonce = mf_nonce v, ts_microframe = 0, ts_timestamp_quarter_us = 0,
            ts_ticks_per_microframe_q16 = 0, ts_state = 0, ts_anomaly_count = 0, ts_residual_mean_q16 = 0,
            ts_residual_abs_max_q16 = 0, ts_residual_count = 0, ts_ptpc_units_per_microframe = 0, ts_ptpc_reference_units = 0,
            ts_ptpc_reference_microframe = 0, ts_ptpc_residual_mean = 0, ts_ptpc_residual_abs_max = 0, ts_ptpc_step_min = 0,
            ts_ptpc_step_max = 0, ts_ptpc_raw_ns = 0, ts_ptpc_raw_microframe = 0\<rparr>) c))"

definition pulse_schedule :: "microframe_view \<Rightarrow> 'd session \<Rightarrow> 'd session" where
  "pulse_schedule v c =
    (if \<not> session_established c \<or> mf_nonce v \<noteq> current_session_nonce c then c
     else let c = c\<lparr>pending_pulse_microframe := mf_microframe v, pending_pulse_armed := False\<rparr> in
          snd (queue_field (WPulseReport \<lparr>pr_nonce = current_session_nonce c, pr_scheduled_microframe = mf_microframe v,
            pr_captured_microframe_q16 = 0, pr_ticks_per_microframe_q16 = 0, pr_flags = (if pending_pulse_armed c then 1 else 0)\<rparr>) c))"

text \<open>The first port whose id is the one of the field.\<close>

definition port_of :: "8 word list \<Rightarrow> 8 word \<Rightarrow> nat option" where
  "port_of ids fid = find (\<lambda>i. ids ! i = fid) [0..<length ids]"

definition can_deserialized :: "'d ports \<Rightarrow> 8 word \<Rightarrow> can_view \<Rightarrow> 'd session \<Rightarrow> bool \<times> 'd session" where
  "can_deserialized P fid v c =
    (if \<not> session_established c then (True, c)
     else case port_of (can_data_ids P) fid of
       Some i \<Rightarrow> (True, c\<lparr>can_drivers := can_handle_downlink P i v (can_drivers c)\<rparr>)
     | None \<Rightarrow> (False, c))"

definition uart_deserialized :: "'d ports \<Rightarrow> 8 word \<Rightarrow> uart_view \<Rightarrow> 'd session \<Rightarrow> bool \<times> 'd session" where
  "uart_deserialized P fid v c =
    (if \<not> session_established c then (True, c)
     else case port_of (uart_data_ids P) fid of
       Some i \<Rightarrow> (True, c\<lparr>uarts := (uarts c)[i := snd (try_enqueue v (uarts c ! i))]\<rparr>)
     | None \<Rightarrow> (False, c))"

text \<open>What \<open>Uart::set_baudrate\<close> does to the transmit buffer; the divisor is a register of the UART.\<close>

definition set_baudrate :: "32 word \<Rightarrow> tx_buffer \<Rightarrow> tx_buffer" where
  "set_baudrate baud b = (if baud = 0 then b else abort_transmit b)"

definition uart_config_deserialized :: "'d ports \<Rightarrow> 8 word \<Rightarrow> uart_config_view \<Rightarrow> 'd session \<Rightarrow> bool \<times> 'd session" where
  "uart_config_deserialized P fid v c =
    (if \<not> session_established c then (True, c)
     else case port_of (uart_config_data_ids P) fid of
       Some i \<Rightarrow> (True, c\<lparr>uarts := (uarts c)[i := set_baudrate (case baudrate v of None \<Rightarrow> 0 | Some b \<Rightarrow> b) (uarts c ! i)]\<rparr>)
     | None \<Rightarrow> (False, c))"

definition gpio_deserialized :: "'d session \<Rightarrow> bool \<times> 'd session" where
  "gpio_deserialized c = (\<not> session_established c, c)"

definition host_callback :: "'d ports \<Rightarrow> field \<Rightarrow> 'd session \<Rightarrow> bool \<times> 'd session" where
  "host_callback P f c =
    (case f of
       FCan fid v \<Rightarrow> can_deserialized P fid v c
     | FUart fid v \<Rightarrow> uart_deserialized P fid v c
     | FUartConfig fid v \<Rightarrow> uart_config_deserialized P fid v c
     | FGpioDigital ch v \<Rightarrow> gpio_deserialized c
     | FGpioAnalog ch v \<Rightarrow> gpio_deserialized c
     | FGpioDigitalReadConfig ch v \<Rightarrow> gpio_deserialized c
     | FGpioAnalogReadConfig ch v \<Rightarrow> gpio_deserialized c
     | FSession v \<Rightarrow> (True, session_control v c)
     | FTimeAnchor v \<Rightarrow> (True, time_anchor v c)
     | FPulseSchedule v \<Rightarrow> (True, pulse_schedule v c)
     | _ \<Rightarrow> (True, c))"

definition session_callbacks :: "'d ports \<Rightarrow> 'd session deserialize_callback" where
  "session_callbacks P = \<lparr>field_callback = host_callback P, error_callback = (\<lambda>c. c)\<rparr>"

section \<open>What the board sends\<close>

definition next_batch :: "'d session \<Rightarrow> nat option \<times> 'd session" where
  "next_batch c =
    (let c = refresh_session_state c in
     if \<not> session_established c then (None, c)
     else case transmitting_batch c of
       Some i \<Rightarrow> (Some i, c)
     | None \<Rightarrow>
         (case pop_batch (transmit_buffer c) of
            None \<Rightarrow> (None, c)
          | Some (i, b) \<Rightarrow> (Some i, c\<lparr>transmit_buffer := b, transmitting_batch := Some i\<rparr>)))"

definition batch_of :: "'d session \<Rightarrow> nat \<Rightarrow> 8 word list" where
  "batch_of c i = batch_bytes (batches (transmit_buffer c) ! i)"

definition finish_batch :: "'d session \<Rightarrow> 'd session" where
  "finish_batch c =
    (case transmitting_batch c of
       None \<Rightarrow> c
     | Some i \<Rightarrow> (release_transmitting c)\<lparr>sent_transfers := sent_transfers c @ [batch_of c i]\<rparr>)"

text \<open>One pass of the USB transport: the packet that is written, if any.\<close>

definition try_transmit_usb :: "bool \<Rightarrow> nat \<Rightarrow> 'd session \<Rightarrow> 8 word list option \<times> 'd session" where
  "try_transmit_usb write_available max_packet_size c =
    (case next_batch c of
       (None, c) \<Rightarrow> (None, c)
     | (Some i, c) \<Rightarrow>
         if \<not> write_available then (None, c)
         else let dat = batch_of c i;
                  target_size = min (length dat - transmitted_size c) max_packet_size;
                  packet = get_bytes dat (transmitted_size c) target_size;
                  c = c\<lparr>transmitted_size := transmitted_size c + target_size\<rparr> in
              if transmitted_size c = length dat \<and> target_size < max_packet_size
              then (Some packet, (finish_batch c)\<lparr>transmitted_size := 0\<rparr>)
              else (Some packet, c))"

text \<open>A driver reports only while the uplink is enabled.\<close>

definition driver_write :: "write_call \<Rightarrow> 'd session \<Rightarrow> 'd session" where
  "driver_write w c = (if uplink_enabled c then snd (queue_field w c) else c)"

section \<open>The buffer with a batch in flight\<close>

text \<open>The batch in flight is the eighth from the oldest one, which no write touches.\<close>

definition link_buffer_ok :: "(nat \<times> batch) option \<Rightarrow> isb \<Rightarrow> bool" where
  "link_buffer_ok flight s = (isb_ok (flight \<noteq> None) s
     \<and> (case flight of None \<Rightarrow> True | Some (i, b) \<Rightarrow> slot s 7 = i \<and> nth_batch s 7 = b))"

lemma flight_kept:
  assumes ok: "isb_ok fl s" and sz: "0 < sz" "sz \<le> kProtocolBufferSize" and a: "isb_allocate sz s = (dst, s')" and ne: "dst \<noteq> []"
  shows "slot (isb_written d s') 7 = slot s 7" "nth_batch (isb_written d s') 7 = nth_batch s 7"
proof -
  have len: "length (batches s) = 8" and u7: "used s \<le> 7" using ok by (simp_all add: isb_ok_def)
  obtain k b t off where r: "isb_reserve sz s = (Some (slot s k, off), set_batch (slot s k) b t)" and k: "k < 7"
    and t: "t = s \<or> t = open_batch s" and nl: "\<not> is_locked s"
  proof (cases "is_locked s")
    case True
    then show thesis using a ne by (simp add: isb_allocate_def)
  next
    case False
    show thesis
    proof (cases "0 < used s \<and> sz \<le> kProtocolBufferSize - written_size (nth_batch s (used s - 1))")
      case True
      moreover have "used s - 1 < 7" using True u7 by linarith
      ultimately show thesis using that[of "used s - 1" _ _ s] False unfolding reserve_cases[OF ok sz(2)] by (simp add: Let_def)
    next
      case more: False
      show thesis
      proof (cases "used s = 7")
        case True
        then have "isb_reserve sz s = (None, s)" unfolding reserve_cases[OF ok sz(2)] using more by simp
        then show thesis using a ne False by (simp add: isb_allocate_def)
      next
        case lt: False
        then have "used s < 7" using u7 by simp
        then show thesis using that[of "used s" _ _ "open_batch s"] False more lt unfolding reserve_cases[OF ok sz(2)] by (auto simp: Let_def)
      qed
    qed
  qed
  have s': "s' = (set_batch (slot s k) b t)\<lparr>last_span := (slot s k, off)\<rparr>" using a r nl by (auto simp: isb_allocate_def)
  have sl: "slot t j = slot s j" "nth_batch t j = nth_batch s j" "length (batches t) = 8" for j using t len by auto
  have w: "isb_written d s' = set_batch (slot t k) x (set_batch (slot t k) b t)\<lparr>last_span := (slot s k, off)\<rparr>"
    if "x = (batches s' ! slot s k)\<lparr>batch_data := put_bytes off d (batch_data (batches s' ! slot s k))\<rparr>" for x
    unfolding isb_written_def s' using that sl(1)[of k] by (simp add: set_batch_def s')
  show "slot (isb_written d s') 7 = slot s 7" using w[OF refl] sl(1)[of 7] by (simp add: slot_def set_batch_def)
  have "nth_batch (isb_written d s') 7 = nth_batch (set_batch (slot t k)
      ((batches s' ! slot s k)\<lparr>batch_data := put_bytes off d (batch_data (batches s' ! slot s k))\<rparr>) (set_batch (slot t k) b t)) 7"
    unfolding w[OF refl] by (simp add: nth_batch_def slot_def)
  also have "\<dots> = nth_batch t 7"
    using nth_batch_set[of "set_batch (slot t k) b t" k 7] nth_batch_set[of t k 7 b] sl(3) k by simp
  finally show "nth_batch (isb_written d s') 7 = nth_batch s 7" by (simp add: sl(2))
qed

interpretation link_buffer: transfer_buffer isb_buffer waiting "link_buffer_ok flight" for flight
proof
  fix b n b' assume "link_buffer_ok flight b" "0 < n" "n \<le> kProtocolBufferSize" "allocate isb_buffer n b = ([], b')"
  then show "link_buffer_ok flight b' \<and> waiting b' = waiting b"
    using allocate_cases[of "flight \<noteq> None" b n "[]" b'] by (auto simp: isb_buffer_def link_buffer_ok_def)
next
  fix b n dst b' assume "link_buffer_ok flight b" "0 < n" "n \<le> kProtocolBufferSize" "allocate isb_buffer n b = (dst, b')" "dst \<noteq> []"
  then show "length dst = n" using uplink.granted[of "flight \<noteq> None" b n dst b'] by (simp add: link_buffer_ok_def)
next
  fix b n dst b' and d :: "8 word list"
  assume a: "link_buffer_ok flight b" "0 < n" "n \<le> kProtocolBufferSize" "allocate isb_buffer n b = (dst, b')" "dst \<noteq> []" "length d = n"
  then show "link_buffer_ok flight (written isb_buffer d b') \<and> (waiting (written isb_buffer d b') = waiting b @ [d]
      \<or> (\<exists>ts t. waiting b = ts @ [t] \<and> waiting (written isb_buffer d b') = ts @ [t @ d]))"
    using uplink.stored[of "flight \<noteq> None" b n dst b' d] flight_kept[of "flight \<noteq> None" b n dst b' d]
    by (auto simp: link_buffer_ok_def isb_buffer_def split: option.splits)
qed

lemma isb_clear_unlocks [simp]: "is_locked (isb_clear s) = False"
  by (simp add: isb_clear_def Let_def)

section \<open>The invariant\<close>

definition batch_in_flight :: "'d session \<Rightarrow> (nat \<times> batch) option" where
  "batch_in_flight c = map_option (\<lambda>i. (i, batches (transmit_buffer c) ! i)) (transmitting_batch c)"

definition flying :: "'d session \<Rightarrow> 8 word list list" where
  "flying c = (case transmitting_batch c of None \<Rightarrow> [] | Some i \<Rightarrow> [batch_of c i])"

text \<open>The transfers of the session, sent or not, stand for the fields the serializer has accepted, for
  every host that reads them.\<close>

definition session_transfers :: "'d session \<Rightarrow> 8 word list list" where
  "session_transfers c = sent_transfers c @ flying c @ waiting (transmit_buffer c)"

definition stream_inv :: "'e deserialize_callback \<Rightarrow> 'd session \<Rightarrow> bool" where
  "stream_inv cb c = (link_buffer_ok (batch_in_flight c) (transmit_buffer c) \<and> transfers_for cb (session_transfers c) (written_fields c))"

definition ack_first :: "'d session \<Rightarrow> bool" where
  "ack_first c = (\<exists>fs. written_fields c = FSession \<lparr>session_type = kStartAck, session_nonce = current_session_nonce c\<rparr> # fs)"

definition session_inv :: "'e deserialize_callback \<Rightarrow> 'd session \<Rightarrow> bool" where
  "session_inv cb c = (stream_inv cb c \<and> \<not> always_failed c \<and> uplink_enabled c = session_established c
     \<and> (session_established c \<longrightarrow> ack_first c))"

lemma new_session_inv: "session_inv cb (new_session d us)"
  using isb_new_ok
  by (simp add: session_inv_def stream_inv_def new_session_def batch_in_flight_def link_buffer_ok_def session_transfers_def flying_def
      transfers_for_def)

lemma flying_in_flight: "flying c = (case batch_in_flight c of None \<Rightarrow> [] | Some (i, b) \<Rightarrow> [batch_bytes b])"
  by (simp add: flying_def batch_in_flight_def batch_of_def split: option.split)

text \<open>Nothing of the stream is touched by the other fields.\<close>

lemma stream_inv_other:
  "transmit_buffer c' = transmit_buffer c \<Longrightarrow> transmitting_batch c' = transmitting_batch c \<Longrightarrow> written_fields c' = written_fields c
   \<Longrightarrow> sent_transfers c' = sent_transfers c \<Longrightarrow> stream_inv cb c' = stream_inv cb c"
  by (simp add: stream_inv_def batch_in_flight_def session_transfers_def flying_in_flight)

lemma queue_stream:
  assumes i: "stream_inv cb c" and w: "caller_ok w" and q: "queue_field w c = (res, c')"
  shows "stream_inv cb c'" and "\<exists>b. c' = c\<lparr>transmit_buffer := b, written_fields := written_fields c @ (if res = kSuccess then received w else [])\<rparr>"
    and "batch_in_flight c' = batch_in_flight c"
proof -
  obtain b where p: "perform isb_buffer w (transmit_buffer c) = (res, b)"
    and c': "c' = c\<lparr>transmit_buffer := b, written_fields := written_fields c @ (if res = kSuccess then received w else [])\<rparr>"
    using q by (auto simp: queue_field_def split: prod.splits)
  then show "\<exists>b. c' = c\<lparr>transmit_buffer := b, written_fields := written_fields c @ (if res = kSuccess then received w else [])\<rparr>" by blast
  have l: "link_buffer_ok (batch_in_flight c) (transmit_buffer c)" and t: "transfers_for cb (session_transfers c) (written_fields c)"
    using i by (simp_all add: stream_inv_def)
  note a = link_buffer.call_appends[OF w l p, of cb]
  have "link_buffer_ok (batch_in_flight c) b" using a by blast
  then show fl: "batch_in_flight c' = batch_in_flight c"
    by (cases "transmitting_batch c") (auto simp: batch_in_flight_def c' link_buffer_ok_def nth_batch_def)
  have s: "session_transfers c = (sent_transfers c @ flying c) @ waiting (transmit_buffer c)"
    "session_transfers c' = (sent_transfers c @ flying c) @ waiting b"
    by (simp_all add: session_transfers_def flying_in_flight fl) (simp_all add: c')
  have "transfers_for cb (session_transfers c') (written_fields c @ (if res = kSuccess then received w else []))"
    using a t transfers_for_new[of cb "session_transfers c" "written_fields c" _ "received w"]
      transfers_for_more[of cb "(sent_transfers c @ flying c) @ _" _ "written_fields c" _ "received w"]
    unfolding s by auto
  then show "stream_inv cb c'" using \<open>link_buffer_ok (batch_in_flight c) b\<close> by (simp add: stream_inv_def fl) (simp add: c')
qed

text \<open>The messages of the session have fixed sizes.\<close>

lemma session_write_valid: "fst (queue_field (WSession v) c) \<noteq> kInvalidArgument"
  by (auto simp: queue_field_def write_session_control_def serialize_def size_eval sizes Let_def split: prod.splits if_splits)

lemma session_write_accepted:
  assumes "isb_ok fl (transmit_buffer c)" "\<not> is_locked (transmit_buffer c)" "used (transmit_buffer c) < 7"
  shows "fst (queue_field (WSession v) c) = kSuccess"
proof -
  obtain dst b where a: "isb_allocate required_session_size (transmit_buffer c) = (dst, b)" by force
  have "0 < required_session_size" "required_session_size \<le> kProtocolBufferSize" by (simp_all add: size_eval sizes kProtocolBufferSize_def)
  with allocate_cases[OF assms(1) this a] assms(2,3) have "dst \<noteq> []" by auto
  then show ?thesis
    using a by (auto simp: queue_field_def write_session_control_def serialize_def isb_buffer_def size_eval sizes split: prod.splits)
qed

section \<open>Every operation keeps it\<close>

lemma release_link:
  assumes "link_buffer_ok (batch_in_flight c) (transmit_buffer c)"
  shows "link_buffer_ok None (transmit_buffer (release_transmitting c))"
    "waiting (transmit_buffer (release_transmitting c)) = waiting (transmit_buffer c)"
    "transmitting_batch (release_transmitting c) = None"
  using assms released[of "transmit_buffer c"]
  by (auto simp: release_transmitting_def batch_in_flight_def link_buffer_ok_def split: option.splits)

lemma activate_inv:
  assumes "stream_inv cb c"
  shows "stream_inv cb (activate_session n c)" "isb_ok False (transmit_buffer (activate_session n c))"
    "used (transmit_buffer (activate_session n c)) = 0" "\<not> is_locked (transmit_buffer (activate_session n c))"
    "written_fields (activate_session n c) = []"
proof -
  let ?r = "release_transmitting c"
  have r: "isb_ok False (transmit_buffer ?r)" "transmitting_batch ?r = None"
    using release_link[of c] assms by (simp_all add: stream_inv_def link_buffer_ok_def)
  note cl = isb_clear_empties[OF r(1)]
  have a: "transmit_buffer (activate_session n c) = isb_clear (transmit_buffer ?r)" "transmitting_batch (activate_session n c) = None"
    "written_fields (activate_session n c) = []" "sent_transfers (activate_session n c) = []"
    using r(2) by (simp_all add: activate_session_def session_activated_callback_def Let_def)
  show "isb_ok False (transmit_buffer (activate_session n c))" "\<not> is_locked (transmit_buffer (activate_session n c))"
    "written_fields (activate_session n c) = []"
    using cl a by simp_all
  show "used (transmit_buffer (activate_session n c)) = 0" using cl(2) a(1) by (simp add: waiting_def)
  show "stream_inv cb (activate_session n c)"
    using cl a by (simp add: stream_inv_def batch_in_flight_def link_buffer_ok_def session_transfers_def flying_def transfers_for_def)
qed

lemma deactivate_inv: "session_inv cb c \<Longrightarrow> session_inv cb (deactivate_session c)"
  using stream_inv_other[of "deactivate_session c" c cb] by (simp add: session_inv_def deactivate_session_def)

lemma refresh_inv: "session_inv cb c \<Longrightarrow> session_inv cb (refresh_session_state c)"
  by (simp add: refresh_session_state_def deactivate_inv)

text \<open>A field accepted in a session goes behind the acknowledgement.\<close>

lemma queue_inv:
  assumes "session_inv cb c" "caller_ok w" "queue_field w c = (res, c')"
  shows "session_inv cb c'"
proof -
  have "stream_inv cb c" using assms(1) by (simp add: session_inv_def)
  note q = queue_stream[OF this assms(2,3)]
  then show ?thesis using assms(1) q by (auto simp: session_inv_def ack_first_def)
qed

lemma start_inv:
  assumes "session_inv cb c" "session_type v = kStart"
  shows "session_inv cb (session_control v c)" "session_established (session_control v c)"
    "current_session_nonce (session_control v c) = session_nonce v"
    "last_session_refresh (session_control v c) = timestamp c"
proof -
  let ?w = "WSession \<lparr>session_type = kStartAck, session_nonce = session_nonce v\<rparr>"
  have ok: "caller_ok ?w" by simp
  define same where "same = (session_established c \<and> session_nonce v = current_session_nonce c)"
  define c1 where "c1 = (if \<not> same then activate_session (session_nonce v) c else c\<lparr>last_session_refresh := timestamp c\<rparr>)"
  obtain res c2 where q: "queue_field ?w c1 = (res, c2)" by force
  have s: "session_control v c = (assert_always (res \<noteq> kInvalidArgument) c2)\<lparr>uplink_enabled := True\<rparr>"
    unfolding session_control_def Let_def same_def[symmetric] c1_def[symmetric] using assms(2) q by simp
  have i: "stream_inv cb c1"
    using assms(1) activate_inv(1)[of cb c] stream_inv_other[of "c\<lparr>last_session_refresh := timestamp c\<rparr>" c cb]
    by (simp add: c1_def session_inv_def)
  note qs = queue_stream[OF i ok q]
  have valid: "res \<noteq> kInvalidArgument" using session_write_valid[of _ c1] q by (metis fst_conv)
  have c1: "session_established c1" "current_session_nonce c1 = session_nonce v" "last_session_refresh c1 = timestamp c"
    "\<not> always_failed c1"
    using assms(1) by (auto simp: c1_def same_def session_inv_def activate_session_def session_activated_callback_def
        release_transmitting_def Let_def split: option.splits)
  have "ack_first c2"
  proof (cases same)
    case True
    then show ?thesis using assms(1) qs(2) by (auto simp: c1_def same_def session_inv_def ack_first_def)
  next
    case False
    then have "c1 = activate_session (session_nonce v) c" by (simp add: c1_def)
    note a = activate_inv[of cb c "session_nonce v", folded this]
    have "stream_inv cb c" using assms(1) by (simp add: session_inv_def)
    note a = a[OF this]
    have "res = kSuccess" using session_write_accepted[OF a(2,4)] a(3) q by (metis fst_conv zero_less_numeral)
    then show ?thesis using qs(2) a(5) c1(2) by (auto simp: ack_first_def)
  qed
  then show "session_inv cb (session_control v c)"
    using qs(1,2) c1 valid stream_inv_other[of "session_control v c" c2 cb]
    by (auto simp: s session_inv_def assert_always_def ack_first_def)
  show "session_established (session_control v c)" "current_session_nonce (session_control v c) = session_nonce v"
    "last_session_refresh (session_control v c) = timestamp c"
    using qs(2) c1 by (auto simp: s assert_always_def)
qed

lemma control_inv: "session_inv cb c \<Longrightarrow> session_inv cb (session_control v c)"
proof -
  assume i: "session_inv cb c"
  consider (start) "session_type v = kStart" | (keep) "session_type v = kKeepalive" "session_established c" "session_nonce v = current_session_nonce c"
    | (other) "session_control v c = c"
    by (cases "session_type v = kStart"; cases "session_type v = kKeepalive";
        cases "session_established c \<and> session_nonce v = current_session_nonce c") (simp_all add: session_control_def)
  then show ?thesis
  proof cases
    case keep
    let ?w = "WSession \<lparr>session_type = kKeepaliveAck, session_nonce = session_nonce v\<rparr>"
    define c1 where "c1 = c\<lparr>last_session_refresh := timestamp c\<rparr>"
    obtain res c2 where q: "queue_field ?w c1 = (res, c2)" by force
    have s: "session_control v c = assert_always (res \<noteq> kInvalidArgument) c2"
      using keep q by (simp add: session_control_def c1_def Let_def)
    have "res \<noteq> kInvalidArgument" using session_write_valid[of _ c1] q by (metis fst_conv)
    then have "session_control v c = c2" by (simp add: s assert_always_def)
    moreover have "session_inv cb c1"
      using i stream_inv_other[of c1 c cb] by (simp add: session_inv_def c1_def ack_first_def)
    ultimately show ?thesis using queue_inv[OF _ _ q] by simp
  qed (use i start_inv in auto)
qed

lemma session_inv_other:
  "transmit_buffer c' = transmit_buffer c \<Longrightarrow> transmitting_batch c' = transmitting_batch c \<Longrightarrow> written_fields c' = written_fields c
   \<Longrightarrow> sent_transfers c' = sent_transfers c \<Longrightarrow> always_failed c' = always_failed c \<Longrightarrow> uplink_enabled c' = uplink_enabled c
   \<Longrightarrow> session_established c' = session_established c \<Longrightarrow> current_session_nonce c' = current_session_nonce c
   \<Longrightarrow> session_inv cb c' = session_inv cb c"
  using stream_inv_other[of c' c cb] by (simp add: session_inv_def ack_first_def)

lemma callback_inv:
  assumes "session_inv cb c"
  shows "session_inv cb (snd (host_callback P f c))"
proof (cases f)
  case (FCan fid v)
  then show ?thesis using assms
    by (auto simp: host_callback_def can_deserialized_def session_inv_other[of "c\<lparr>can_drivers := _\<rparr>" c cb] split: option.split)
next
  case (FUart fid v)
  then show ?thesis using assms
    by (auto simp: host_callback_def uart_deserialized_def session_inv_other[of "c\<lparr>uarts := _\<rparr>" c cb] split: option.split)
next
  case (FUartConfig fid v)
  then show ?thesis using assms
    by (auto simp: host_callback_def uart_config_deserialized_def session_inv_other[of "c\<lparr>uarts := _\<rparr>" c cb] split: option.split)
next
  case (FSession v)
  then show ?thesis using control_inv[OF assms] by (simp add: host_callback_def)
next
  case (FTimeAnchor v)
  have "session_inv cb (snd (queue_field w c))" if "caller_ok w" for w
    using queue_inv[OF assms that, of "fst (queue_field w c)" "snd (queue_field w c)"] by simp
  then show ?thesis using assms FTimeAnchor by (simp add: host_callback_def time_anchor_def)
next
  case (FPulseSchedule v)
  let ?c = "c\<lparr>pending_pulse_microframe := mf_microframe v, pending_pulse_armed := False\<rparr>"
  have "session_inv cb ?c" using assms session_inv_other[of ?c c cb] by simp
  then have "session_inv cb (snd (queue_field w ?c))" if "caller_ok w" for w
    using queue_inv[OF _ that, of cb ?c "fst (queue_field w ?c)" "snd (queue_field w ?c)"] by simp
  then show ?thesis using assms FPulseSchedule by (simp add: host_callback_def pulse_schedule_def Let_def)
qed (use assms in \<open>simp_all add: host_callback_def gpio_deserialized_def\<close>)

lemma next_batch_inv:
  assumes "session_inv cb c" "next_batch c = (r, c')"
  shows "session_inv cb c'" "r = Some i \<Longrightarrow> transmitting_batch c' = Some i \<and> session_established c'"
    "session_transfers c' = session_transfers c" "written_fields c' = written_fields c"
    "session_established c' = session_established (refresh_session_state c)"
    "timestamp c' = timestamp c" "last_session_refresh c' = last_session_refresh c" "current_session_nonce c' = current_session_nonce c"
    "sent_transfers c' = sent_transfers c"
proof -
  define e where "e = refresh_session_state c"
  have e: "session_inv cb e" using refresh_inv[OF assms(1)] by (simp add: e_def)
  have same: "transmit_buffer e = transmit_buffer c" "transmitting_batch e = transmitting_batch c" "written_fields e = written_fields c"
    "sent_transfers e = sent_transfers c" "timestamp e = timestamp c" "last_session_refresh e = last_session_refresh c"
    "current_session_nonce e = current_session_nonce c"
    by (simp_all add: e_def refresh_session_state_def deactivate_session_def)
  have st: "session_transfers e = session_transfers c" by (simp add: session_transfers_def flying_in_flight batch_in_flight_def same)
  show "session_inv cb c'" "r = Some i \<Longrightarrow> transmitting_batch c' = Some i \<and> session_established c'"
    "session_transfers c' = session_transfers c" "written_fields c' = written_fields c"
    "session_established c' = session_established (refresh_session_state c)"
    "timestamp c' = timestamp c" "last_session_refresh c' = last_session_refresh c" "current_session_nonce c' = current_session_nonce c"
    "sent_transfers c' = sent_transfers c"
  proof -
    consider (same) "c' = e" "r = None \<or> r = transmitting_batch e \<and> session_established e"
      | (pop) j b where "session_established e" "transmitting_batch e = None" "pop_batch (transmit_buffer e) = Some (j, b)"
        "r = Some j" "c' = e\<lparr>transmit_buffer := b, transmitting_batch := Some j\<rparr>"
      using assms(2) unfolding next_batch_def e_def[symmetric] by (auto simp: Let_def split: if_splits option.splits)
    then have "session_inv cb c' \<and> (r = Some i \<longrightarrow> transmitting_batch c' = Some i \<and> session_established c')
      \<and> session_transfers c' = session_transfers c \<and> written_fields c' = written_fields c
      \<and> session_established c' = session_established e
      \<and> timestamp c' = timestamp c \<and> last_session_refresh c' = last_session_refresh c
      \<and> current_session_nonce c' = current_session_nonce c \<and> sent_transfers c' = sent_transfers c"
    proof cases
      case same': same
      then show ?thesis using e same st by auto
    next
      case pop
      have ok: "isb_ok False (transmit_buffer e)"
        using e pop(2) by (simp add: session_inv_def stream_inv_def batch_in_flight_def link_buffer_ok_def)
      have u: "0 < used (transmit_buffer e)" and jb: "j = slot (transmit_buffer e) 0"
        "b = (transmit_buffer e)\<lparr>isb_out := isb_out (transmit_buffer e) + 1\<rparr>"
        using pop(3) pop_cases[OF ok] by (auto split: if_splits)
      note a = advanced[OF ok u jb(2)]
      have bt: "batches b = batches (transmit_buffer e)" by (simp add: jb)
      have l: "link_buffer_ok (batch_in_flight c') b"
        using a jb(1) by (simp add: pop(5) batch_in_flight_def link_buffer_ok_def nth_batch_def)
      have "session_transfers c' = session_transfers e"
        using a(2) pop(2) by (simp add: session_transfers_def flying_def batch_of_def pop(5) bt jb(1))
      moreover have "transfers_for cb (session_transfers e) (written_fields e)" using e by (simp add: session_inv_def stream_inv_def)
      ultimately have "stream_inv cb c'" using l pop(5) by (simp add: stream_inv_def)
      then show ?thesis using e pop same st \<open>session_transfers c' = session_transfers e\<close>
        by (simp add: session_inv_def ack_first_def)
    qed
    then show "session_inv cb c'" "r = Some i \<Longrightarrow> transmitting_batch c' = Some i \<and> session_established c'"
      "session_transfers c' = session_transfers c" "written_fields c' = written_fields c"
      "session_established c' = session_established (refresh_session_state c)"
      "timestamp c' = timestamp c" "last_session_refresh c' = last_session_refresh c" "current_session_nonce c' = current_session_nonce c"
      "sent_transfers c' = sent_transfers c"
      unfolding e_def by blast+
  qed
qed

lemma finish_inv:
  assumes "session_inv cb c"
  shows "session_inv cb (finish_batch c)" "session_transfers (finish_batch c) = session_transfers c"
    "transmitting_batch c = Some i \<Longrightarrow> sent_transfers (finish_batch c) = sent_transfers c @ [batch_of c i]"
proof -
  have l: "link_buffer_ok (batch_in_flight c) (transmit_buffer c)" using assms by (simp add: session_inv_def stream_inv_def)
  note r = release_link[OF l]
  have o: "session_established (release_transmitting c) = session_established c" "uplink_enabled (release_transmitting c) = uplink_enabled c"
    "always_failed (release_transmitting c) = always_failed c" "written_fields (release_transmitting c) = written_fields c"
    "current_session_nonce (release_transmitting c) = current_session_nonce c"
    by (simp_all add: release_transmitting_def split: option.split)
  show "transmitting_batch c = Some i \<Longrightarrow> sent_transfers (finish_batch c) = sent_transfers c @ [batch_of c i]"
    by (simp add: finish_batch_def)
  show t: "session_transfers (finish_batch c) = session_transfers c"
    using r by (cases "transmitting_batch c") (simp_all add: session_transfers_def flying_def finish_batch_def)
  have "link_buffer_ok (batch_in_flight (finish_batch c)) (transmit_buffer (finish_batch c))"
  proof (cases "transmitting_batch c")
    case None
    then show ?thesis using l by (simp add: finish_batch_def)
  next
    case (Some i)
    then show ?thesis using r by (simp add: finish_batch_def batch_in_flight_def)
  qed
  then show "session_inv cb (finish_batch c)"
    using assms t o by (auto simp: session_inv_def stream_inv_def finish_batch_def ack_first_def split: option.split)
qed

lemma usb_inv:
  assumes "session_inv cb c" "try_transmit_usb wa mx c = (p, c')"
  shows "session_inv cb c'"
proof -
  obtain r c1 where n: "next_batch c = (r, c1)" by force
  have i: "session_inv cb c1" using next_batch_inv(1)[OF assms(1) n] .
  then have "session_inv cb (c1\<lparr>transmitted_size := k\<rparr>)" for k
    using session_inv_other[of "c1\<lparr>transmitted_size := k\<rparr>" c1 cb] by simp
  then have "session_inv cb ((finish_batch (c1\<lparr>transmitted_size := k\<rparr>))\<lparr>transmitted_size := 0\<rparr>)" for k
    using finish_inv(1)[of cb "c1\<lparr>transmitted_size := k\<rparr>"]
      session_inv_other[of "(finish_batch (c1\<lparr>transmitted_size := k\<rparr>))\<lparr>transmitted_size := 0\<rparr>" "finish_batch (c1\<lparr>transmitted_size := k\<rparr>)" cb]
    by simp
  then show ?thesis
    using assms(2) n i \<open>\<And>k. session_inv cb (c1\<lparr>transmitted_size := k\<rparr>)\<close>
    by (auto simp: try_transmit_usb_def Let_def split: option.splits if_splits)
qed

lemma driver_inv: "session_inv cb c \<Longrightarrow> caller_ok w \<Longrightarrow> session_inv cb (driver_write w c)"
  using queue_inv[of cb c w "fst (queue_field w c)" "snd (queue_field w c)"] by (simp add: driver_write_def)

section \<open>The deserializer keeps what its callbacks keep\<close>

lemma requests_keep_state [simp]:
  "callback_state (assert_debug b s) = callback_state s" "callback_state (peek_request n s) = callback_state s"
  "callback_state (snd (await_ready s)) = callback_state s" "callback_state (snd (await_resume s)) = callback_state s"
  "callback_state (consume_peeked s) = callback_state s" "callback_state (consume_peeked_partial n s) = callback_state s"
  by (simp_all add: assert_debug_def peek_request_def await_ready_def await_resume_def consume_peeked_def
      consume_peeked_partial_def Let_def)

lemma run_keeps:
  assumes "\<And>f c. I c \<Longrightarrow> I (snd (field_callback cb f c))"
  shows "I (callback_state s) \<Longrightarrow> I (callback_state (snd (run cb t s)))"
proof (induction t arbitrary: s)
  case (Peek n k)
  obtain r s1 where a: "await_ready (peek_request n s) = (r, s1)" by force
  then have s1: "I (callback_state s1)" using Peek.prems requests_keep_state(3)[of "peek_request n s"] by simp
  obtain b s2 where b: "await_resume s1 = (b, s2)" by force
  then have "I (callback_state s2)" using s1 requests_keep_state(4)[of s1] by simp
  then show ?case using Peek.IH[OF rangeI, of s2 b] s1 by (simp add: a b)
next
  case (Call f k)
  obtain b c where f: "field_callback cb f (callback_state s) = (b, c)" by force
  then have "I c" using assms[OF Call.prems, of f] by simp
  then show ?case using Call.IH[OF rangeI, of "s\<lparr>callback_state := c\<rparr>" b] by (simp add: f)
qed simp_all

lemma process_keeps:
  assumes field: "\<And>f c. I c \<Longrightarrow> I (snd (field_callback cb f c))" and error: "\<And>c. I c \<Longrightarrow> I (error_callback cb c)"
  shows "process_stream cb t s = Some s' \<Longrightarrow> I (callback_state s) \<Longrightarrow> I (callback_state s')"
proof -
  have "cb' = cb \<Longrightarrow> I (callback_state s) \<Longrightarrow> I (callback_state s')" if "process_stream cb' t s = Some s'" for cb' t s s'
  proof (induction cb' t s s' rule: process_stream.raw_induct)
    case (1 ps cb' t s s')
    obtain r s1 where r: "run cb t s = (r, s1)" by force
    then have s1: "I (callback_state s1)" using run_keeps[of I cb, OF field 1(4)] by (metis snd_conv)
    show ?case
    proof (cases r)
      case None
      then show ?thesis using 1(2,3) r s1 by simp
    next
      case (Some b)
      define s2 where "s2 = (if b then s1 else enter_discard_mode cb s1)"
      have "I (callback_state (assert_debug (pending s2 = [] \<and> requested_bytes s2 = 0) s2))"
        using s1 error by (simp add: s2_def enter_discard_mode_def)
      moreover have "ps cb stream_body (assert_debug (pending s2 = [] \<and> requested_bytes s2 = 0) s2) = Some s'"
        using 1(2,3) r Some by (cases b) (simp_all add: s2_def Let_def)
      ultimately show ?thesis using 1(1) by blast
    qed
  qed (rule that)
  then show "process_stream cb t s = Some s' \<Longrightarrow> I (callback_state s) \<Longrightarrow> I (callback_state s')" by blast
qed

lemma deserializer_keeps:
  assumes "\<And>f c. I c \<Longrightarrow> I (snd (field_callback cb f c))" and "\<And>c. I c \<Longrightarrow> I (error_callback cb c)" and "I (callback_state s)"
  shows "feed cb bs s = Some s' \<Longrightarrow> I (callback_state s')" and "finish_transfer cb s = Some s' \<Longrightarrow> I (callback_state s')"
proof -
  have r: "I (callback_state s')" if r: "resume_stream cb s = Some s'" and i: "I (callback_state s)" for s s' :: "'a deserializer"
  proof -
    obtain b s1 where b: "await_resume s = (b, s1)" by force
    then have "I (callback_state s1)" using i requests_keep_state(4)[of s] by simp
    then show ?thesis using process_keeps[of I cb, OF assms(1,2)] r by (simp add: resume_stream_def b)
  qed
  show "feed cb bs s = Some s' \<Longrightarrow> I (callback_state s')"
    using assms(3) by (auto simp: feed_def Let_def split: if_splits dest!: r)
  show "finish_transfer cb s = Some s' \<Longrightarrow> I (callback_state s')"
    using assms(3) by (auto simp: finish_transfer_def split: if_splits option.splits dest!: r)
qed

end
