(* ===== verification/DataPlane.thy ===== *)
theory DataPlane
  imports EcatPd HostSession
begin

text \<open>
  The data plane of the two-core build, \<open>app/src/xcore/pd_link.cpp\<close> with \<open>PdLink\<close>: one host session that
  either EtherCAT, over the two rings to the other core, or USB drives.  \<open>pump_data_plane\<close> is one pass of
  the main loop; a result of \<open>None\<close> would be a call that does not return.  The channel is that of
  \<open>EcatPd\<close>, whose other end is the other core.
\<close>

section \<open>PdLink\<close>

definition handle_link_restart :: "'d ports \<Rightarrow> 'd session deserializer \<Rightarrow> 'd session deserializer option" where
  "handle_link_restart P d =
    (case finish_transfer (session_callbacks P) d of
       None \<Rightarrow> None
     | Some d \<Rightarrow> Some (d\<lparr>callback_state := deactivate_session (callback_state d)\<rparr>))"

definition try_transmit :: "xring \<Rightarrow> 'd session \<Rightarrow> bool \<times> xring \<times> 'd session" where
  "try_transmit up_ring c =
    (case next_batch c of
       (None, c) \<Rightarrow> (False, up_ring, c)
     | (Some i, c) \<Rightarrow>
         (case try_push (batch_of c i) up_ring of
            None \<Rightarrow> (False, up_ring, c)
          | Some up_ring \<Rightarrow> (True, up_ring, finish_batch c)))"

definition handle_usb_downlink :: "'d ports \<Rightarrow> 8 word list \<Rightarrow> bool \<Rightarrow> 'd session deserializer \<Rightarrow> 'd session deserializer option" where
  "handle_usb_downlink P buffer finished d =
    (case feed (session_callbacks P) buffer d of
       None \<Rightarrow> None
     | Some d \<Rightarrow> if finished then finish_transfer (session_callbacks P) d else Some d)"

section \<open>The pump\<close>

datatype xcore_owner = kEcat | kUsb

record 'd plane =
  chan :: xchannel
  owner :: xcore_owner
  link_epoch :: "32 word"
  pd_link :: "'d session deserializer"
  g_last_ecat_claim :: "32 word"
  g_usb_owns :: bool
  g_usb_claim :: bool

definition kDownlinkBytesPerPass :: nat where
  "kDownlinkBytesPerPass = 64"

definition take_usb_claim :: "'d ports \<Rightarrow> 'd plane \<Rightarrow> 'd plane option" where
  "take_usb_claim P p =
    (let claimed = g_usb_claim p;
         p = p\<lparr>g_usb_claim := False\<rparr> in
     if claimed \<and> \<not> g_usb_owns p
     then let p = p\<lparr>g_usb_owns := True, owner := kUsb\<rparr> in
          (case handle_link_restart P (pd_link p) of
             None \<Rightarrow> None
           | Some d \<Rightarrow> Some (p\<lparr>pd_link := d, link_epoch := link_epoch p + 1\<rparr>))
     else Some p)"

text \<open>The loop that empties the ring pops 64 bytes at a time, as \<open>drain_ring\<close> does.\<close>

definition grant_ecat_claim :: "'d ports \<Rightarrow> 'd plane \<Rightarrow> 'd plane option" where
  "grant_ecat_claim P p =
    (if ecat_claim (chan p) \<noteq> g_last_ecat_claim p
     then let p = p\<lparr>g_last_ecat_claim := ecat_claim (chan p), g_usb_owns := False, owner := kEcat\<rparr> in
          (case handle_link_restart P (pd_link p) of
             None \<Rightarrow> None
           | Some d \<Rightarrow>
               (case drain_ring (drain_fuel (down (chan p))) (down (chan p)) of
                  None \<Rightarrow> None
                | Some r \<Rightarrow> Some (p\<lparr>pd_link := d, chan := (chan p)\<lparr>down := r\<rparr>\<rparr>)))
     else Some p)"

definition set_session :: "'d session \<Rightarrow> 'd plane \<Rightarrow> 'd plane" where
  "set_session c p = p\<lparr>pd_link := (pd_link p)\<lparr>callback_state := c\<rparr>\<rparr>"

definition move_bytes :: "'d ports \<Rightarrow> bool \<Rightarrow> nat \<Rightarrow> 'd plane \<Rightarrow> ('d plane \<times> 8 word list option \<times> bool) option" where
  "move_bytes P write_available max_packet_size p =
    (if g_usb_owns p
     then let (packet, c) = try_transmit_usb write_available max_packet_size (callback_state (pd_link p)) in
          Some (set_session c p, packet, False)
     else let (received, r) = ring_pop kDownlinkBytesPerPass (down (chan p));
              p = p\<lparr>chan := (chan p)\<lparr>down := r\<rparr>\<rparr> in
          (case (if received \<noteq> [] then feed (session_callbacks P) received (pd_link p) else Some (pd_link p)) of
             None \<Rightarrow> None
           | Some d \<Rightarrow>
               let (published, r, c) = try_transmit (up (chan p)) (callback_state d) in
               Some (set_session c (p\<lparr>pd_link := d, chan := (chan p)\<lparr>up := r\<rparr>\<rparr>), None, published)))"

text \<open>One pass: the data plane, the USB packet written, and whether the doorbell is rung.\<close>

definition pump_data_plane :: "'d ports \<Rightarrow> bool \<Rightarrow> nat \<Rightarrow> 'd plane \<Rightarrow> ('d plane \<times> 8 word list option \<times> bool) option" where
  "pump_data_plane P write_available max_packet_size p =
    (case take_usb_claim P p of
       None \<Rightarrow> None
     | Some p \<Rightarrow>
         (case grant_ecat_claim P p of
            None \<Rightarrow> None
          | Some p \<Rightarrow> move_bytes P write_available max_packet_size p))"

text \<open>The part of \<open>tud_vendor_rx_cb\<close> in \<open>usb/vendor.cpp\<close> that is about the data plane.\<close>

definition usb_received :: "'d ports \<Rightarrow> 8 word list \<Rightarrow> bool \<Rightarrow> 'd plane \<Rightarrow> 'd plane option" where
  "usb_received P buffer finished p =
    (let p = p\<lparr>g_usb_claim := True\<rparr> in
     if g_usb_owns p
     then (case handle_usb_downlink P buffer finished (pd_link p) of None \<Rightarrow> None | Some d \<Rightarrow> Some (p\<lparr>pd_link := d\<rparr>))
     else Some p)"

section \<open>Everything that happens to it\<close>

text \<open>The main loop, USB, the drivers, the clock and the other core.\<close>

datatype plane_event =
    Pump bool nat
  | Usb_rx "8 word list" bool
  | Driver write_call
  | Clock "64 word"
  | Other_push "8 word list"
  | Other_pop nat
  | Other_reset

fun plane_step :: "'d ports \<Rightarrow> plane_event \<Rightarrow> 'd plane \<Rightarrow> 'd plane option" where
  "plane_step P (Pump wa mx) p = (case pump_data_plane P wa mx p of None \<Rightarrow> None | Some (p, _) \<Rightarrow> Some p)"
| "plane_step P (Usb_rx bs fin) p = usb_received P bs fin p"
| "plane_step P (Driver w) p = Some (set_session (driver_write w (callback_state (pd_link p))) p)"
| "plane_step P (Clock t) p = Some (set_session ((callback_state (pd_link p))\<lparr>timestamp := t\<rparr>) p)"
| "plane_step P (Other_push bs) p =
    Some (case try_push bs (down (chan p)) of None \<Rightarrow> p | Some r \<Rightarrow> p\<lparr>chan := (chan p)\<lparr>down := r\<rparr>\<rparr>)"
| "plane_step P (Other_pop n) p = Some (p\<lparr>chan := (chan p)\<lparr>up := snd (ring_pop n (up (chan p)))\<rparr>\<rparr>)"
| "plane_step P Other_reset p = Some (p\<lparr>chan := ecat_pd_reset (chan p)\<rparr>)"

fun plane_run :: "'d ports \<Rightarrow> plane_event list \<Rightarrow> 'd plane \<Rightarrow> 'd plane option" where
  "plane_run P [] p = Some p"
| "plane_run P (ev # evs) p = (case plane_step P ev p of None \<Rightarrow> None | Some p \<Rightarrow> plane_run P evs p)"

text \<open>The drivers keep to the ids and ranges of the protocol.\<close>

definition event_ok :: "plane_event \<Rightarrow> bool" where
  "event_ok ev = (case ev of Driver w \<Rightarrow> caller_ok w | _ \<Rightarrow> True)"

definition plane_start :: "'d ports \<Rightarrow> xchannel \<Rightarrow> 'd \<Rightarrow> tx_buffer list \<Rightarrow> 'd plane option" where
  "plane_start P ch d us =
    (case new_deserializer (session_callbacks P) (new_session d us) of
       None \<Rightarrow> None
     | Some dz \<Rightarrow> Some \<lparr>chan = ch, owner = kEcat, link_epoch = 0, pd_link = dz, g_last_ecat_claim = 0, g_usb_owns = False, g_usb_claim = False\<rparr>)"

section \<open>The progress of a USB transfer\<close>

text \<open>While a session is open, what has been written of the batch in flight lies inside it, and nothing
  has been written unless USB owns the plane.\<close>

definition progress_ok :: "bool \<Rightarrow> 'd session \<Rightarrow> bool" where
  "progress_ok usb c = (session_established c \<longrightarrow> transmitted_size c \<le> (if usb then length (concat (flying c)) else 0))"

lemma progress_fresh: "transmitted_size c = 0 \<Longrightarrow> progress_ok usb c"
  by (simp add: progress_ok_def)

lemma progress_other:
  "session_established c' = session_established c \<Longrightarrow> transmitted_size c' = transmitted_size c \<Longrightarrow> batch_in_flight c' = batch_in_flight c
   \<Longrightarrow> progress_ok usb c' = progress_ok usb c"
  by (simp add: progress_ok_def flying_in_flight)

lemma in_flight_other:
  "transmit_buffer c' = transmit_buffer c \<Longrightarrow> transmitting_batch c' = transmitting_batch c \<Longrightarrow> batch_in_flight c' = batch_in_flight c"
  by (simp add: batch_in_flight_def)

lemma queue_progress:
  assumes "stream_inv hcb c" "caller_ok w" "progress_ok usb c"
  shows "progress_ok usb (snd (queue_field w c))"
proof -
  obtain res c' where q: "queue_field w c = (res, c')" by force
  note qs = queue_stream[OF assms(1,2) q]
  have "session_established c' = session_established c" "transmitted_size c' = transmitted_size c" using qs(2) by auto
  then show ?thesis using progress_other[of c' c] qs(3) assms(3) q by simp
qed

lemma queue_size [simp]: "transmitted_size (snd (queue_field w c)) = transmitted_size c"
  by (simp add: queue_field_def split: prod.split)

lemma control_progress:
  assumes i: "session_inv hcb c" and p: "progress_ok usb c"
  shows "progress_ok usb (session_control v c)"
proof -
  have fresh: "transmitted_size (activate_session n c) = 0" for n
    by (simp add: activate_session_def session_activated_callback_def Let_def)
  let ?r = "c\<lparr>last_session_refresh := timestamp c\<rparr>"
  have r: "stream_inv hcb ?r" "progress_ok usb ?r"
    using i p stream_inv_other[of ?r c hcb] progress_other[of ?r c usb] in_flight_other[of ?r c] by (simp_all add: session_inv_def)
  have a: "progress_ok usb (assert_always b d) = progress_ok usb d" for b and d :: "'b session"
    using progress_other[of "assert_always b d" d usb] in_flight_other[of "assert_always b d" d] by (simp add: assert_always_def)
  have u: "progress_ok usb (d\<lparr>uplink_enabled := b\<rparr>) = progress_ok usb d" for b and d :: "'b session"
    using progress_other[of "d\<lparr>uplink_enabled := b\<rparr>" d usb] in_flight_other[of "d\<lparr>uplink_enabled := b\<rparr>" d] by simp
  have q: "progress_ok usb (snd (queue_field (WSession w) ?r))" if "caller_ok (WSession w)" for w
    using queue_progress[OF r(1) that r(2)] .
  have f: "progress_ok usb (snd (queue_field w (activate_session n c)))" for w n by (rule progress_fresh) (simp add: fresh)
  show ?thesis
    using p q[of "\<lparr>session_type = kStartAck, session_nonce = session_nonce v\<rparr>"]
      q[of "\<lparr>session_type = kKeepaliveAck, session_nonce = session_nonce v\<rparr>"] f
    by (auto simp: session_control_def a u Let_def case_prod_unfold)
qed

lemma callback_progress:
  assumes i: "session_inv hcb c" and p: "progress_ok usb c"
  shows "progress_ok usb (snd (host_callback P f c))"
proof (cases f)
  case (FCan fid v)
  then show ?thesis using p progress_other[of "c\<lparr>can_drivers := _\<rparr>" c usb] in_flight_other[of "c\<lparr>can_drivers := _\<rparr>" c]
    by (auto simp: host_callback_def can_deserialized_def split: option.split)
next
  case (FUart fid v)
  then show ?thesis using p progress_other[of "c\<lparr>uarts := _\<rparr>" c usb] in_flight_other[of "c\<lparr>uarts := _\<rparr>" c]
    by (auto simp: host_callback_def uart_deserialized_def split: option.split)
next
  case (FUartConfig fid v)
  then show ?thesis using p progress_other[of "c\<lparr>uarts := _\<rparr>" c usb] in_flight_other[of "c\<lparr>uarts := _\<rparr>" c]
    by (auto simp: host_callback_def uart_config_deserialized_def split: option.split)
next
  case (FSession v)
  then show ?thesis using control_progress[OF i p] by (simp add: host_callback_def)
next
  case (FTimeAnchor v)
  have "stream_inv hcb c" using i by (simp add: session_inv_def)
  note q = queue_progress[OF this _ p]
  show ?thesis using p FTimeAnchor by (auto simp: host_callback_def time_anchor_def intro!: q)
next
  case (FPulseSchedule v)
  let ?c = "c\<lparr>pending_pulse_microframe := mf_microframe v, pending_pulse_armed := False\<rparr>"
  have "stream_inv hcb ?c" "progress_ok usb ?c"
    using i p stream_inv_other[of ?c c hcb] progress_other[of ?c c usb] in_flight_other[of ?c c] by (simp_all add: session_inv_def)
  note q = queue_progress[OF this(1) _ this(2)]
  show ?thesis using p FPulseSchedule by (auto simp: host_callback_def pulse_schedule_def Let_def intro!: q)
qed (use p in \<open>simp_all add: host_callback_def gpio_deserialized_def\<close>)

lemma next_batch_progress:
  assumes "next_batch c = (r, c')" "progress_ok usb c"
  shows "progress_ok usb c'" "transmitted_size c' = transmitted_size c"
proof -
  have e: "progress_ok usb (refresh_session_state c)" "transmitted_size (refresh_session_state c) = transmitted_size c"
    using assms(2) by (auto simp: refresh_session_state_def deactivate_session_def progress_ok_def flying_def batch_of_def)
  then show "progress_ok usb c'"
    using assms(1) by (auto simp: next_batch_def Let_def progress_ok_def flying_def split: if_splits option.splits)
  show "transmitted_size c' = transmitted_size c"
    using assms(1) e(2) by (auto simp: next_batch_def Let_def split: if_splits option.splits)
qed

lemma driver_progress: "session_inv hcb c \<Longrightarrow> caller_ok w \<Longrightarrow> progress_ok usb c \<Longrightarrow> progress_ok usb (driver_write w c)"
  using queue_progress[of hcb c w usb] by (simp add: driver_write_def session_inv_def)

section \<open>Every step returns and keeps the invariant\<close>

definition link_inv :: "'e deserialize_callback \<Rightarrow> bool \<Rightarrow> 'd session \<Rightarrow> bool" where
  "link_inv hcb usb c = (session_inv hcb c \<and> progress_ok usb c)"

definition plane_inv :: "'e deserialize_callback \<Rightarrow> 'd plane \<Rightarrow> bool" where
  "plane_inv hcb p = (suspended (pd_link p) \<and> link_inv hcb (g_usb_owns p) (callback_state (pd_link p))
     \<and> ring_invar (down (chan p)) \<and> ring_invar (up (chan p)) \<and> (owner p = kUsb) = g_usb_owns p)"

lemma callback_link: "link_inv hcb usb c \<Longrightarrow> link_inv hcb usb (snd (host_callback P f c))"
  using callback_inv[of hcb c] callback_progress[of hcb c usb] by (simp add: link_inv_def)

lemma feed_link:
  assumes "suspended d" "link_inv hcb usb (callback_state d)"
  shows "\<exists>d'. feed (session_callbacks P) bs d = Some d' \<and> suspended d' \<and> link_inv hcb usb (callback_state d')"
proof -
  obtain d' where f: "feed (session_callbacks P) bs d = Some d'" "suspended d'"
    using feed_outcome[OF assms(1), of "session_callbacks P" bs] by (auto simp: ends_with_def)
  have "link_inv hcb usb (callback_state d')"
    by (rule deserializer_keeps(1)[of "link_inv hcb usb" "session_callbacks P" d, OF _ _ assms(2) f(1)])
      (simp_all add: session_callbacks_def callback_link)
  then show ?thesis using f by blast
qed

lemma finish_link:
  assumes "suspended d" "link_inv hcb usb (callback_state d)"
  shows "\<exists>d'. finish_transfer (session_callbacks P) d = Some d' \<and> suspended d' \<and> link_inv hcb usb (callback_state d')"
proof -
  obtain d' where f: "finish_transfer (session_callbacks P) d = Some d'" "suspended d'"
    using finish_outcome[OF assms(1), of "session_callbacks P"] by (auto simp: idle_def)
  have "link_inv hcb usb (callback_state d')"
    by (rule deserializer_keeps(2)[of "link_inv hcb usb" "session_callbacks P" d, OF _ _ assms(2) f(1)])
      (simp_all add: session_callbacks_def callback_link)
  then show ?thesis using f by blast
qed

lemma suspended_state [simp]: "suspended (d\<lparr>callback_state := c\<rparr>) = suspended d"
  by (simp add: suspended_def)

lemma restart_link:
  assumes "suspended d" "link_inv hcb usb (callback_state d)"
  shows "\<exists>d'. handle_link_restart P d = Some d' \<and> suspended d' \<and> link_inv hcb usb' (callback_state d')
    \<and> \<not> session_established (callback_state d')"
proof -
  have "link_inv hcb usb' (deactivate_session c) \<and> \<not> session_established (deactivate_session c)" if "link_inv hcb usb c" for c :: "'a session"
    using that deactivate_inv[of hcb c] by (simp add: link_inv_def progress_ok_def) (simp add: deactivate_session_def)
  then show ?thesis using finish_link[OF assms, of P] by (auto simp: handle_link_restart_def)
qed

lemma transmit_inv:
  assumes "session_inv hcb c" "ring_invar r" "try_transmit r c = (b, r', c')"
  shows "session_inv hcb c'" "ring_invar r'" "session_established c' = session_established (refresh_session_state c)"
    "timestamp c' = timestamp c" "last_session_refresh c' = last_session_refresh c"
    "b \<Longrightarrow> session_established c'"
    "if b then \<exists>t. sent_transfers c' = sent_transfers c @ [t] \<and> ring_contents r' = ring_contents r @ t
      else r' = r \<and> sent_transfers c' = sent_transfers c"
proof -
  obtain x c1 where n: "next_batch c = (x, c1)" by force
  note nb = next_batch_inv[OF assms(1) n]
  have fin: "session_established (finish_batch c1) = session_established c1" "timestamp (finish_batch c1) = timestamp c1"
    "last_session_refresh (finish_batch c1) = last_session_refresh c1"
    by (simp_all add: finish_batch_def release_transmitting_def split: option.split)
  have "session_inv hcb c' \<and> ring_invar r' \<and> session_established c' = session_established (refresh_session_state c)
    \<and> timestamp c' = timestamp c \<and> last_session_refresh c' = last_session_refresh c \<and> (b \<longrightarrow> session_established c')
    \<and> (if b then \<exists>t. sent_transfers c' = sent_transfers c @ [t] \<and> ring_contents r' = ring_contents r @ t
      else r' = r \<and> sent_transfers c' = sent_transfers c)"
  proof (cases "\<exists>i r1. x = Some i \<and> try_push (batch_of c1 i) r = Some r1")
    case True
    then obtain i r1 where i: "x = Some i" "try_push (batch_of c1 i) r = Some r1" by blast
    then have e: "b" "r' = r1" "c' = finish_batch c1" using assms(3) n by (simp_all add: try_transmit_def)
    then show ?thesis using i nb fin xr.push_some[OF assms(2) i(2)] finish_inv[OF nb(1)] by (auto simp del: One_nat_def)
  next
    case False
    then have "\<not> b \<and> r' = r \<and> c' = c1" using assms(3) n by (auto simp: try_transmit_def split: option.splits)
    then show ?thesis using nb assms(2) by simp
  qed
  then show "session_inv hcb c'" "ring_invar r'" "session_established c' = session_established (refresh_session_state c)"
    "timestamp c' = timestamp c" "last_session_refresh c' = last_session_refresh c"
    "b \<Longrightarrow> session_established c'"
    "if b then \<exists>t. sent_transfers c' = sent_transfers c @ [t] \<and> ring_contents r' = ring_contents r @ t
      else r' = r \<and> sent_transfers c' = sent_transfers c" by blast+
qed

text \<open>A USB packet is the next piece of a transfer; the transfer is over with the first piece that is
  shorter than a packet.\<close>

definition packet_ok :: "nat \<Rightarrow> 'd session \<Rightarrow> 8 word list option \<Rightarrow> 'd session \<Rightarrow> bool" where
  "packet_ok mx c pkt c' = (\<forall>pk. pkt = Some pk \<longrightarrow> (\<exists>t. pk = take mx (drop (transmitted_size c) t)
     \<and> (if length pk < mx then sent_transfers c' = sent_transfers c @ [t] \<and> transmitted_size c' = 0
        else sent_transfers c' = sent_transfers c \<and> flying c' = [t] \<and> transmitted_size c' = transmitted_size c + mx)))"

text \<open>What a pass tells about the session.\<close>

definition lease_ok :: "'d session \<Rightarrow> bool" where
  "lease_ok c = (session_established c \<longrightarrow> timestamp c - last_session_refresh c < kSessionLeaseQuarterUs)"

lemma refresh_lease: "lease_ok (refresh_session_state c)"
  by (simp add: lease_ok_def refresh_session_state_def deactivate_session_def)

lemma refreshed_lease:
  "session_established c' = session_established (refresh_session_state c) \<Longrightarrow> timestamp c' = timestamp c
   \<Longrightarrow> last_session_refresh c' = last_session_refresh c \<Longrightarrow> lease_ok c'"
  using refresh_lease[of c] by (auto simp: lease_ok_def refresh_session_state_def deactivate_session_def split: if_splits)

lemma refresh_not_opens: "session_established (refresh_session_state c) \<Longrightarrow> session_established c"
  by (simp add: refresh_session_state_def deactivate_session_def split: if_splits)

lemma finish_fields [simp]:
  "session_established (finish_batch c) = session_established c" "timestamp (finish_batch c) = timestamp c"
  "last_session_refresh (finish_batch c) = last_session_refresh c" "transmitted_size (finish_batch c) = transmitted_size c"
  by (simp_all add: finish_batch_def release_transmitting_def split: option.split)

lemma usb_pass:
  assumes i: "link_inv hcb True c" and u: "try_transmit_usb wa mx c = (pkt, c')"
  shows "link_inv hcb True c' \<and> lease_ok c' \<and> (session_established c' \<longrightarrow> session_established c)
    \<and> (pkt \<noteq> None \<longrightarrow> session_established c') \<and> packet_ok mx c pkt c'"
proof -
  have si: "session_inv hcb c" "progress_ok True c" using i by (simp_all add: link_inv_def)
  obtain x c1 where n: "next_batch c = (x, c1)" by force
  note nb = next_batch_inv[OF si(1) n] and np = next_batch_progress[OF n si(2)]
  have l: "lease_ok d \<and> (session_established d \<longrightarrow> session_established c)"
    if "session_established d = session_established c1" "timestamp d = timestamp c1" "last_session_refresh d = last_session_refresh c1" for d
    using that nb refreshed_lease[of d c] refresh_not_opens[of c] by simp
  have si': "session_inv hcb c'" by (rule usb_inv[OF si(1) u])
  show ?thesis
  proof (cases "x \<noteq> None \<and> wa")
    case False
    then have "c' = c1" "pkt = None" using u n by (auto simp: try_transmit_usb_def split: option.splits)
    then show ?thesis using si' np l[of c1] by (simp add: link_inv_def packet_ok_def)
  next
    case True
    then obtain j where j: "x = Some j" by auto
    have fl: "transmitting_batch c1 = Some j" "session_established c1" using nb(2)[OF j] by simp_all
    define t k where "t = batch_of c1 j" and "k = min (length t - transmitted_size c) mx"
    have le: "transmitted_size c \<le> length t"
      using np fl by (simp add: progress_ok_def flying_def t_def)
    define c2 where "c2 = c1\<lparr>transmitted_size := transmitted_size c + k\<rparr>"
    have c2: "flying c2 = [t]" "sent_transfers c2 = sent_transfers c" "transmitting_batch c2 = Some j" "batch_of c2 j = t"
      using fl nb by (simp_all add: c2_def flying_def t_def batch_of_def)
    let ?pk = "take mx (drop (transmitted_size c) t)"
    have pk: "get_bytes t (transmitted_size c) k = ?pk" "length ?pk = k" by (simp_all add: get_bytes_def k_def min_def)
    have u': "(pkt, c') = (if transmitted_size c + k = length t \<and> k < mx then (Some ?pk, (finish_batch c2)\<lparr>transmitted_size := 0\<rparr>) else (Some ?pk, c2))"
      using u n j True pk(1) np(2) by (simp add: try_transmit_usb_def Let_def t_def[symmetric] k_def[symmetric] c2_def cong: if_cong)
    show ?thesis
    proof (cases "k < mx")
      case short: True
      then have e: "pkt = Some ?pk" "c' = (finish_batch c2)\<lparr>transmitted_size := 0\<rparr>" using u' le by (auto simp: k_def min_def split: if_splits)
      have "sent_transfers c' = sent_transfers c @ [t]" using c2 by (simp add: e finish_batch_def)
      then show ?thesis using si' l[of c'] fl short pk(2) e progress_fresh[of c']
        by (auto simp: link_inv_def packet_ok_def c2_def)
    next
      case full: False
      then have e: "pkt = Some ?pk" "c' = c2" using u' by simp_all
      moreover have "k = mx" using full by (simp add: k_def)
      moreover have "transmitted_size c + k \<le> length t" using le unfolding k_def by linarith
      then have "progress_ok True c2" using c2(1) by (simp add: progress_ok_def) (simp add: c2_def)
      ultimately show ?thesis using si' l[of c2] fl pk(2) c2 full by (auto simp: link_inv_def packet_ok_def c2_def)
    qed
  qed
qed

text \<open>A pass on the side of EtherCAT.\<close>

definition up_ok :: "xring \<Rightarrow> bool \<Rightarrow> xring \<Rightarrow> 'd session \<Rightarrow> bool" where
  "up_ok r bell r' c' = (if bell then \<exists>ts t. sent_transfers c' = ts @ [t] \<and> ring_contents r' = ring_contents r @ t else r' = r)"

lemma ecat_pass:
  assumes i: "link_inv hcb False c" and r: "ring_invar r" and t: "try_transmit r c = (b, r', c')"
  shows "link_inv hcb False c' \<and> ring_invar r' \<and> lease_ok c' \<and> (session_established c' \<longrightarrow> session_established c)
    \<and> (b \<longrightarrow> session_established c') \<and> up_ok r b r' c'"
proof -
  have si: "session_inv hcb c" "progress_ok False c" using i by (simp_all add: link_inv_def)
  note ti = transmit_inv[OF si(1) r t]
  obtain x c1 where n: "next_batch c = (x, c1)" by force
  have "transmitted_size c' = transmitted_size c"
    using t n next_batch_progress(2)[OF n si(2)] by (auto simp: try_transmit_def split: option.splits)
  then have "progress_ok False c'" using si(2) ti(3) refresh_not_opens[of c] by (auto simp: progress_ok_def)
  moreover have "up_ok r b r' c'" using ti(7) by (cases b) (auto simp: up_ok_def)
  ultimately show ?thesis using ti(1,2,3,6) refreshed_lease[OF ti(3-5)] refresh_not_opens[of c] by (auto simp: link_inv_def)
qed

section \<open>The pump\<close>

abbreviation established :: "'d plane \<Rightarrow> bool" where
  "established p \<equiv> session_established (callback_state (pd_link p))"

definition pass_ok :: "nat \<Rightarrow> 'd plane \<Rightarrow> 'd plane \<Rightarrow> 8 word list option \<Rightarrow> bool \<Rightarrow> bool" where
  "pass_ok mx p p' pkt bell =
    (lease_ok (callback_state (pd_link p')) \<and> (pkt \<noteq> None \<or> bell \<longrightarrow> established p')
     \<and> (if owner p' = kUsb
        then \<not> bell \<and> chan p' = chan p \<and> packet_ok mx (callback_state (pd_link p)) pkt (callback_state (pd_link p'))
        else pkt = None \<and> up_ok (up (chan p)) bell (up (chan p')) (callback_state (pd_link p'))))"

lemma move_inv:
  assumes "plane_inv hcb p"
  shows "\<exists>p' pkt bell. move_bytes P wa mx p = Some (p', pkt, bell) \<and> plane_inv hcb p' \<and> owner p' = owner p \<and> pass_ok mx p p' pkt bell
    \<and> (owner p = kUsb \<or> ring_contents (down (chan p)) = [] \<longrightarrow> established p' \<longrightarrow> established p)
    \<and> (owner p = kEcat \<longrightarrow> ring_contents (down (chan p')) = drop kDownlinkBytesPerPass (ring_contents (down (chan p))))"
proof -
  have i: "suspended (pd_link p)" "link_inv hcb (g_usb_owns p) (callback_state (pd_link p))" "ring_invar (down (chan p))"
    "ring_invar (up (chan p))" "(owner p = kUsb) = g_usb_owns p" using assms by (simp_all add: plane_inv_def)
  show ?thesis
  proof (cases "g_usb_owns p")
    case True
    obtain pkt c where u: "try_transmit_usb wa mx (callback_state (pd_link p)) = (pkt, c)" by force
    have up: "link_inv hcb True c \<and> lease_ok c \<and> (session_established c \<longrightarrow> established p) \<and> (pkt \<noteq> None \<longrightarrow> session_established c)
      \<and> packet_ok mx (callback_state (pd_link p)) pkt c" using usb_pass[OF _ u] i(2) True by simp
    have "move_bytes P wa mx p = Some (set_session c p, pkt, False)" using True u by (simp add: move_bytes_def)
    then show ?thesis using True i up by (auto simp: plane_inv_def set_session_def pass_ok_def)
  next
    case False
    obtain received r where pop: "ring_pop kDownlinkBytesPerPass (down (chan p)) = (received, r)" by force
    note r = xr.pop_takes[OF i(3) pop]
    obtain d where d: "(if received \<noteq> [] then feed (session_callbacks P) received (pd_link p) else Some (pd_link p)) = Some d"
      "suspended d" "link_inv hcb False (callback_state d)" "received = [] \<longrightarrow> d = pd_link p"
      using feed_link[OF i(1,2), of P received] i(1,2) False by (cases "received = []") auto
    obtain b u c where t: "try_transmit (up (chan p)) (callback_state d) = (b, u, c)" by (metis prod_cases3)
    note ti = ecat_pass[OF d(3) i(4) t]
    have "move_bytes P wa mx p = Some (set_session c (p\<lparr>chan := (chan p)\<lparr>down := r\<rparr>, pd_link := d, chan := (chan p)\<lparr>down := r, up := u\<rparr>\<rparr>), None, b)"
      using False pop d(1) t by (cases "received = []") (simp_all add: move_bytes_def Let_def)
    then show ?thesis using i(5) False r d(2,4) ti by (auto simp: plane_inv_def set_session_def pass_ok_def)
  qed
qed

lemma take_usb_inv:
  assumes "plane_inv hcb p"
  shows "\<exists>p'. take_usb_claim P p = Some p' \<and> plane_inv hcb p' \<and> chan p' = chan p \<and> g_last_ecat_claim p' = g_last_ecat_claim p
    \<and> (owner p' = owner p \<and> pd_link p' = pd_link p \<or> owner p' = kUsb \<and> \<not> established p') \<and> (g_usb_claim p \<longrightarrow> owner p' = kUsb)"
  using assms restart_link[of "pd_link p" hcb "g_usb_owns p" P True]
  by (auto simp: take_usb_claim_def plane_inv_def Let_def)

lemma grant_ecat_inv:
  assumes "plane_inv hcb p"
  shows "\<exists>p'. grant_ecat_claim P p = Some p' \<and> plane_inv hcb p' \<and> up (chan p') = up (chan p)
    \<and> (if ecat_claim (chan p) = g_last_ecat_claim p then p' = p
       else owner p' = kEcat \<and> ring_contents (down (chan p')) = [] \<and> \<not> established p')"
proof -
  have "ring_invar (down (chan p))" using assms by (simp add: plane_inv_def)
  from drain_fuel_enough[OF this] show ?thesis
    using assms restart_link[of "pd_link p" hcb "g_usb_owns p" P False] by (auto simp: grant_ecat_claim_def plane_inv_def Let_def)
qed

text \<open>A change of hands, in either direction, ends the session; what EtherCAT reads is the ring's next 64
  bytes, or nothing after the ring has been emptied.\<close>

lemma pump_inv:
  assumes i: "plane_inv hcb p"
  shows "\<exists>p' pkt bell. pump_data_plane P wa mx p = Some (p', pkt, bell) \<and> plane_inv hcb p' \<and> pass_ok mx p p' pkt bell
    \<and> (owner p' \<noteq> owner p \<or> ecat_claim (chan p) \<noteq> g_last_ecat_claim p \<longrightarrow> \<not> established p')
    \<and> (owner p' = kEcat \<longrightarrow> ring_contents (down (chan p')) =
         (if ecat_claim (chan p) = g_last_ecat_claim p then drop kDownlinkBytesPerPass (ring_contents (down (chan p))) else []))
    \<and> (g_usb_claim p \<and> ecat_claim (chan p) = g_last_ecat_claim p \<longrightarrow> owner p' = kUsb)"
proof -
  obtain p1 where p1: "take_usb_claim P p = Some p1" "plane_inv hcb p1" "chan p1 = chan p" "g_last_ecat_claim p1 = g_last_ecat_claim p"
    "owner p1 = owner p \<and> pd_link p1 = pd_link p \<or> owner p1 = kUsb \<and> \<not> established p1" "g_usb_claim p \<longrightarrow> owner p1 = kUsb"
    using take_usb_inv[OF i, of P] by blast
  obtain p2 where p2: "grant_ecat_claim P p1 = Some p2" "plane_inv hcb p2" "up (chan p2) = up (chan p1)"
    "if ecat_claim (chan p1) = g_last_ecat_claim p1 then p2 = p1 else owner p2 = kEcat \<and> ring_contents (down (chan p2)) = [] \<and> \<not> established p2"
    using grant_ecat_inv[OF p1(2), of P] by blast
  obtain p' pkt bell where p': "move_bytes P wa mx p2 = Some (p', pkt, bell)" "plane_inv hcb p'" "owner p' = owner p2" "pass_ok mx p2 p' pkt bell"
    "owner p2 = kUsb \<or> ring_contents (down (chan p2)) = [] \<longrightarrow> established p' \<longrightarrow> established p2"
    "owner p2 = kEcat \<longrightarrow> ring_contents (down (chan p')) = drop kDownlinkBytesPerPass (ring_contents (down (chan p2)))"
    using move_inv[OF p2(2), of P wa mx] by blast
  have pump: "pump_data_plane P wa mx p = Some (p', pkt, bell)" using p1(1) p2(1) p'(1) by (simp add: pump_data_plane_def)
  have "owner p2 = kEcat" if "owner p2 \<noteq> kUsb" using that by (cases "owner p2") simp_all
  have "pass_ok mx p p' pkt bell
    \<and> (owner p' \<noteq> owner p \<or> ecat_claim (chan p) \<noteq> g_last_ecat_claim p \<longrightarrow> \<not> established p')
    \<and> (owner p' = kEcat \<longrightarrow> ring_contents (down (chan p')) =
         (if ecat_claim (chan p) = g_last_ecat_claim p then drop kDownlinkBytesPerPass (ring_contents (down (chan p))) else []))"
  proof (cases "ecat_claim (chan p) = g_last_ecat_claim p")
    case True
    then have e: "p2 = p1" using p2(4) p1(3,4) by simp
    show ?thesis
    proof (cases "owner p1 = owner p \<and> pd_link p1 = pd_link p")
      case same: True
      then show ?thesis using p' p1(3) True unfolding e by (simp add: pass_ok_def cong: if_cong)
    next
      case False
      then have "owner p1 = kUsb" "\<not> established p1" using p1(5) by blast+
      moreover from this have "\<not> established p'" using p'(5) unfolding e by simp
      ultimately show ?thesis using p' p1(3) True unfolding e by (simp add: pass_ok_def packet_ok_def)
    qed
  next
    case False
    then have "owner p2 = kEcat" "ring_contents (down (chan p2)) = []" "\<not> established p2" using p2(4) p1(3,4) by simp_all
    moreover from this have "\<not> established p'" using p'(5) by simp
    ultimately show ?thesis using p' p1(3) p2(3) False by (auto simp: pass_ok_def)
  qed
  moreover have "g_usb_claim p \<and> ecat_claim (chan p) = g_last_ecat_claim p \<longrightarrow> owner p' = kUsb"
    using p1(3,4,6) p2(4) p'(3) by simp
  ultimately show ?thesis using pump p'(2) by blast
qed

section \<open>Every step keeps the invariant\<close>

lemma usb_received_inv:
  assumes "plane_inv hcb p"
  shows "\<exists>p'. usb_received P bs fin p = Some p' \<and> plane_inv hcb p' \<and> chan p' = chan p \<and> g_last_ecat_claim p' = g_last_ecat_claim p
    \<and> g_usb_claim p' \<and> owner p' = owner p"
proof -
  have i: "suspended (pd_link p)" "link_inv hcb (g_usb_owns p) (callback_state (pd_link p))" using assms by (simp_all add: plane_inv_def)
  obtain d where d: "feed (session_callbacks P) bs (pd_link p) = Some d" "suspended d" "link_inv hcb (g_usb_owns p) (callback_state d)"
    using feed_link[OF i, of P bs] by blast
  then show ?thesis using assms finish_link[OF d(2,3), of P]
    by (auto simp: usb_received_def handle_usb_downlink_def plane_inv_def Let_def)
qed

lemma step_inv:
  assumes i: "plane_inv hcb p" and ok: "event_ok ev"
  shows "\<exists>p'. plane_step P ev p = Some p' \<and> plane_inv hcb p'"
proof (cases ev)
  case (Pump wa mx)
  then show ?thesis using pump_inv[OF i, of P wa mx] by auto
next
  case (Usb_rx bs fin)
  then show ?thesis using usb_received_inv[OF i, of P bs fin] by auto
next
  case (Driver w)
  then show ?thesis using i ok driver_inv[of hcb "callback_state (pd_link p)" w]
      driver_progress[of hcb "callback_state (pd_link p)" w "g_usb_owns p"]
    by (simp add: plane_inv_def set_session_def event_ok_def link_inv_def)
next
  case (Clock t)
  let ?c = "callback_state (pd_link p)"
  have "session_inv hcb (?c\<lparr>timestamp := t\<rparr>) = session_inv hcb ?c" by (rule session_inv_other) simp_all
  moreover have "progress_ok (g_usb_owns p) (?c\<lparr>timestamp := t\<rparr>) = progress_ok (g_usb_owns p) ?c"
    by (rule progress_other) (simp_all add: batch_in_flight_def)
  ultimately show ?thesis using i Clock by (simp add: plane_inv_def set_session_def link_inv_def)
next
  case (Other_push bs)
  have "ring_invar (down (chan p))" using i by (simp add: plane_inv_def)
  then show ?thesis using i Other_push xr.push_some[of "down (chan p)" bs]
    by (cases "try_push bs (down (chan p))") (auto simp: plane_inv_def)
next
  case (Other_pop n)
  have "ring_invar (up (chan p))" using i by (simp add: plane_inv_def)
  then have "ring_invar (snd (ring_pop n (up (chan p))))"
    using xr.pop_takes[of "up (chan p)" n "fst (ring_pop n (up (chan p)))"] by simp
  then show ?thesis using i Other_pop by (simp add: plane_inv_def)
next
  case Other_reset
  then show ?thesis using i reset_drops_uplink[of "chan p"] by (simp add: plane_inv_def)
qed

lemma run_inv:
  "plane_inv hcb p \<Longrightarrow> list_all event_ok evs \<Longrightarrow> \<exists>p'. plane_run P evs p = Some p' \<and> plane_inv hcb p'"
proof (induction evs arbitrary: p)
  case (Cons ev evs)
  then obtain p1 where "plane_step P ev p = Some p1" "plane_inv hcb p1" using step_inv[of hcb p ev P] by auto
  then show ?case using Cons by simp
qed simp

lemma start_plane:
  assumes "ring_invar (down ch)" "ring_invar (up ch)"
  shows "\<exists>p. plane_start P ch d us = Some p \<and> plane_inv hcb p"
proof -
  obtain dz where "new_deserializer (session_callbacks P) (new_session d us) = Some dz" "idle dz" "callback_state dz = new_session d us"
    using new_idle[of "session_callbacks P" "new_session d us"] by auto
  moreover have "link_inv hcb False (new_session d us)"
    using new_session_inv[of hcb d us] by (simp add: link_inv_def progress_ok_def) (simp add: new_session_def)
  ultimately show ?thesis using assms by (auto simp: plane_start_def plane_inv_def idle_def)
qed

section \<open>A start request opens a session\<close>

text \<open>What the host's serializer makes of a start request, in a buffer of the right size.\<close>

definition host_start :: "32 word \<Rightarrow> 8 word list \<Rightarrow> 8 word list" where
  "host_start n dst = snd (session_control_fill \<lparr>session_type = kStart, session_nonce = n\<rparr> dst)"

lemma host_start_read:
  assumes "length dst = required_session_size"
  shows "parse_transfer (session_callbacks P) (host_start n dst) c = session_control \<lparr>session_type = kStart, session_nonce = n\<rparr> c"
proof -
  let ?v = "\<lparr>session_type = kStart, session_nonce = n\<rparr>"
  have "trips (session_callbacks P) (FSession ?v) required_session_size (session_control_fill ?v)"
    by (rule session_trips) simp_all
  then have "stands_for (session_callbacks P) (host_start n dst) [FSession ?v]"
    unfolding host_start_def by (rule trips_stand) (use assms in \<open>auto simp: size_eval sizes\<close>)
  from stands_for_whole[OF this] show ?thesis
    by (simp add: session_callbacks_def host_callback_def)
qed

lemma start_opens:
  assumes i: "plane_inv hcb p" and usb: "owner p = kUsb" and len: "length dst = required_session_size"
  shows "\<exists>p'. plane_run P [Usb_rx [] True, Usb_rx (host_start n dst) True] p = Some p' \<and> established p'
    \<and> current_session_nonce (callback_state (pd_link p')) = n"
proof -
  have "g_usb_owns p" using i usb by (simp add: plane_inv_def)
  then have l: "suspended (pd_link p)" "link_inv hcb True (callback_state (pd_link p))" "g_usb_owns p"
    using i by (simp_all add: plane_inv_def)
  obtain d0 where d0: "feed (session_callbacks P) [] (pd_link p) = Some d0" "suspended d0" "link_inv hcb True (callback_state d0)"
    using feed_link[OF l(1,2)] by blast
  obtain d1 where d1: "finish_transfer (session_callbacks P) d0 = Some d1" "idle d1"
    using finish_outcome[OF d0(2), of "session_callbacks P"] by blast
  have i1: "link_inv hcb True (callback_state d1)" using finish_link[OF d0(2,3), of P] d1(1) by simp
  obtain d2 where d2: "feed (session_callbacks P) (host_start n dst) d1 = Some d2" "suspended d2"
    "outcome (session_callbacks P) d2 [] = outcome (session_callbacks P) d1 (host_start n dst)"
    using feed_outcome[of d1 "session_callbacks P" "host_start n dst"] d1(2) by (force simp: ends_with_def idle_def)
  obtain d3 where d3: "finish_transfer (session_callbacks P) d2 = Some d3" "callback_state d3 = outcome (session_callbacks P) d2 []"
    using finish_outcome[OF d2(2), of "session_callbacks P"] by blast
  have c: "callback_state d3 = session_control \<lparr>session_type = kStart, session_nonce = n\<rparr> (callback_state d1)"
    using d3(2) d2(3) idle_outcome[OF d1(2)] host_start_read[OF len] by metis
  have "session_inv hcb (callback_state d1)" using i1 by (simp add: link_inv_def)
  note st = start_inv[OF this, of "\<lparr>session_type = kStart, session_nonce = n\<rparr>"]
  show ?thesis using l(3) d0(1) d1(1) d2(1) d3(1) c st
    by (simp add: usb_received_def handle_usb_downlink_def Let_def)
qed

lemma host_opens:
  assumes i: "plane_inv hcb p" and cl: "ecat_claim (chan p) = g_last_ecat_claim p" and len: "length dst = required_session_size"
  shows "\<exists>p'. plane_run P [Usb_rx bs fin, Pump wa mx, Usb_rx [] True, Usb_rx (host_start n dst) True] p = Some p'
    \<and> established p' \<and> current_session_nonce (callback_state (pd_link p')) = n"
proof -
  obtain p1 where p1: "usb_received P bs fin p = Some p1" "plane_inv hcb p1" "chan p1 = chan p"
    "g_last_ecat_claim p1 = g_last_ecat_claim p" "g_usb_claim p1" using usb_received_inv[OF i, of P bs fin] by blast
  obtain p2 pkt bell where p2: "pump_data_plane P wa mx p1 = Some (p2, pkt, bell)" "plane_inv hcb p2" "owner p2 = kUsb"
    using pump_inv[OF p1(2), of P wa mx] p1(3-5) cl by auto
  show ?thesis using start_opens[OF p2(2,3) len, of P n] p1(1) p2(1) by simp
qed

end
