(* ===== verification/SessionProps.thy ===== *)
theory SessionProps
  imports DataPlane
begin

text \<open>
  The properties of the host session on the data plane of the two-core build.
\<close>

section \<open>Samples\<close>

definition sample_ports :: "nat ports" where
  "sample_ports = \<lparr>can_data_ids = [2, 3], can_handle_downlink = (\<lambda>i v d. d + i), uart_data_ids = [30], uart_config_data_ids = [25]\<rparr>"

definition sample_channel :: xchannel where
  "sample_channel = \<lparr>endpoint = endpoint_new 44, down = ring_new 8, up = ring_new 8, ecat_claim = 0\<rparr>"

definition sample_plane_events :: "plane_event list" where
  "sample_plane_events = [Other_push [7, 0, 0], Pump True 64, Clock 100, Usb_rx [1] True,
     Driver (WAccelerometer \<lparr>imu_x = 1, imu_y = - 2, imu_z = 3, imu_timestamp = 4\<rparr>), Pump True 64, Other_reset, Other_pop 5]"

definition sample_host :: "field list deserialize_callback" where
  "sample_host = \<lparr>field_callback = (\<lambda>f fs. (True, fs @ [f])), error_callback = (\<lambda>fs. fs)\<rparr>"

lemma sample_rings: "ring_invar (down sample_channel)" "ring_invar (up sample_channel)"
  using ring_new_ok(2)[of 3 8] by (simp_all add: sample_channel_def)

lemma sample_events_ok: "list_all event_ok sample_plane_events"
  by (simp add: sample_plane_events_def event_ok_def)

section \<open>The stream of a session\<close>

text \<open>
  C16.  From the start, whatever the host, the drivers, the other core and the clock do in any order:
  every call returns, no assertion fails, the uplink is open exactly while a session is; the first field
  of an open session is the acknowledgement of its nonce, and any host that reads the transfers of the
  session, in any chunks, gets exactly the fields the serializer accepted in it, in their order.  And
  unless EtherCAT has a claim pending, a host can always open a session over USB: the end of a transfer
  followed by a start request does it, whatever came before.
\<close>

theorem session_stream:
  fixes hcb :: "'e deserialize_callback" and P :: "'d ports"
  assumes "ring_invar (down ch)" and "ring_invar (up ch)" and "list_all event_ok evs"
    and "accepting hcb" and "new_deserializer hcb h = Some host"
  shows "\<exists>p0 p c. plane_start P ch d us = Some p0 \<and> plane_run P evs p0 = Some p \<and> c = callback_state (pd_link p)
    \<and> \<not> assertion_failed (pd_link p) \<and> \<not> always_failed c \<and> uplink_enabled c = session_established c
    \<and> (session_established c \<longrightarrow>
         (\<exists>fs. written_fields c = FSession \<lparr>session_type = kStartAck, session_nonce = current_session_nonce c\<rparr> # fs))
    \<and> (\<forall>css. map concat css = session_transfers c \<longrightarrow>
         (\<exists>host'. receive_all hcb css host = Some host' \<and> \<not> assertion_failed host'
            \<and> callback_state host' = fold (\<lambda>f c. snd (field_callback hcb f c)) (written_fields c) h))
    \<and> (ecat_claim (chan p) = g_last_ecat_claim p \<longrightarrow> (\<forall>bs fin wa mx n dst. length dst = required_session_size \<longrightarrow>
         (\<exists>p'. plane_run P [Usb_rx bs fin, Pump wa mx, Usb_rx [] True, Usb_rx (host_start n dst) True] p = Some p'
            \<and> established p' \<and> current_session_nonce (callback_state (pd_link p')) = n)))"
proof -
  obtain p0 where p0: "plane_start P ch d us = Some p0" "plane_inv hcb p0" using start_plane[OF assms(1,2), where P = P and d = d and us = us and hcb = hcb] by blast
  obtain p where p: "plane_run P evs p0 = Some p" "plane_inv hcb p" using run_inv[OF p0(2) assms(3), of P] by blast
  define c where "c = callback_state (pd_link p)"
  have s: "suspended (pd_link p)" "session_inv hcb c" using p(2) by (simp_all add: plane_inv_def link_inv_def c_def)
  have "\<exists>host'. receive_all hcb css host = Some host' \<and> \<not> assertion_failed host'
      \<and> callback_state host' = fold (\<lambda>f c. snd (field_callback hcb f c)) (written_fields c) h"
    if css: "map concat css = session_transfers c" for css
  proof -
    have "transfers_for hcb (session_transfers c) (written_fields c)" using s(2) by (simp add: session_inv_def stream_inv_def)
    from transfers_delivered[OF this assms(4) css, of h] show ?thesis
      using new_idle[of hcb h] receive_all_parses[of host hcb css] assms(5) by (auto simp: idle_def suspended_def)
  qed
  moreover have "\<not> assertion_failed (pd_link p)" "\<not> always_failed c" "uplink_enabled c = session_established c"
    "session_established c \<longrightarrow> (\<exists>fs. written_fields c = FSession \<lparr>session_type = kStartAck, session_nonce = current_session_nonce c\<rparr> # fs)"
    using s by (simp_all add: suspended_def session_inv_def ack_first_def)
  moreover note host_opens[OF p(2), of _ P]
  ultimately show ?thesis using p0(1) p(1) c_def by (intro exI[of _ p0] exI[of _ p] exI[of _ c]) blast
qed

theorem session_stream_witness:
  "\<exists>p0 p. plane_start sample_ports sample_channel 0 [] = Some p0 \<and> plane_run sample_ports sample_plane_events p0 = Some p
    \<and> \<not> assertion_failed (pd_link p) \<and> uplink_enabled (callback_state (pd_link p)) = established p"
proof -
  obtain host where "new_deserializer sample_host [] = Some host" using new_idle[of sample_host "[]"] by (elim exE conjE)
  moreover have "accepting sample_host" by (simp add: accepting_def sample_host_def)
  ultimately show ?thesis
    using session_stream[OF sample_rings sample_events_ok, of sample_host "[]" host sample_ports 0 "[]"] by blast
qed

section \<open>The gate\<close>

text \<open>
  C12.  Only an open session reaches the drivers or the wire.  In every state that can be reached a field
  other than a start request changes nothing while no session is open.  A pass of the main loop returns;
  it sends, in packets or into the ring, only in a session refreshed less than its lease ago; whenever the plane
  changes hands or the other core has claimed it the session is over after the pass.  While USB owns the
  plane the rings are not touched and a packet is the next piece of a transfer; while EtherCAT owns it
  the bell is rung exactly when a whole transfer has been added to the ring, and the next 64 bytes of the
  other ring are read, none of them from before the claim.
\<close>

theorem session_gates_the_plane:
  fixes P :: "'d ports"
  assumes "ring_invar (down ch)" and "ring_invar (up ch)" and "list_all event_ok evs"
    and "plane_start P ch d us = Some p0" and "plane_run P evs p0 = Some p"
  shows "(\<forall>f. \<not> established p \<and> (\<forall>v. f = FSession v \<longrightarrow> session_type v \<noteq> kStart)
        \<longrightarrow> snd (host_callback P f (callback_state (pd_link p))) = callback_state (pd_link p))
    \<and> (\<exists>p' pkt bell. pump_data_plane P wa mx p = Some (p', pkt, bell)
        \<and> lease_ok (callback_state (pd_link p')) \<and> (pkt \<noteq> None \<or> bell \<longrightarrow> established p')
        \<and> (owner p' \<noteq> owner p \<or> ecat_claim (chan p) \<noteq> g_last_ecat_claim p \<longrightarrow> \<not> established p')
        \<and> (if owner p' = kUsb
           then \<not> bell \<and> chan p' = chan p \<and> packet_ok mx (callback_state (pd_link p)) pkt (callback_state (pd_link p'))
           else pkt = None \<and> up_ok (up (chan p)) bell (up (chan p')) (callback_state (pd_link p'))
             \<and> ring_contents (down (chan p')) = (if ecat_claim (chan p) = g_last_ecat_claim p
                  then drop kDownlinkBytesPerPass (ring_contents (down (chan p))) else [])))"
proof -
  obtain p1 where "plane_start P ch d us = Some p1" "plane_inv sample_host p1" using start_plane[OF assms(1,2), where P = P and d = d and us = us and hcb = sample_host] by blast
  then obtain p2 where "plane_run P evs p1 = Some p2" "plane_inv sample_host p2" using run_inv[OF _ assms(3), where P = P and hcb = sample_host] by blast
  then have i: "plane_inv sample_host p" using assms(4,5) \<open>plane_start P ch d us = Some p1\<close> by simp
  have "snd (host_callback P f c) = c" if "\<not> session_established c" "\<forall>v. f = FSession v \<longrightarrow> session_type v \<noteq> kStart" for f c
    using that by (cases f) (auto simp: host_callback_def can_deserialized_def uart_deserialized_def uart_config_deserialized_def
        gpio_deserialized_def session_control_def time_anchor_def pulse_schedule_def)
  moreover obtain p' pkt bell where q: "pump_data_plane P wa mx p = Some (p', pkt, bell)" "pass_ok mx p p' pkt bell"
    "owner p' \<noteq> owner p \<or> ecat_claim (chan p) \<noteq> g_last_ecat_claim p \<longrightarrow> \<not> established p'"
    "owner p' = kEcat \<longrightarrow> ring_contents (down (chan p')) =
         (if ecat_claim (chan p) = g_last_ecat_claim p then drop kDownlinkBytesPerPass (ring_contents (down (chan p))) else [])"
    using pump_inv[OF i, of P wa mx] by blast
  moreover have "owner p' = kUsb \<or> owner p' = kEcat" by (cases "owner p'") simp_all
  ultimately show ?thesis unfolding pass_ok_def by (intro conjI exI[of _ p'] exI[of _ pkt] exI[of _ bell]) auto
qed

theorem session_gates_the_plane_witness:
  "\<exists>p' pkt bell. pump_data_plane sample_ports True 64 (the (plane_start sample_ports sample_channel 0 [])) = Some (p', pkt, bell)
    \<and> lease_ok (callback_state (pd_link p')) \<and> (pkt \<noteq> None \<or> bell \<longrightarrow> established p')"
proof -
  obtain p0 where p0: "plane_start sample_ports sample_channel 0 [] = Some p0" using start_plane[OF sample_rings, where P = sample_ports and d = 0 and us = "[]" and hcb = sample_host] by blast
  have "list_all event_ok []" "plane_run sample_ports [] p0 = Some p0" by simp_all
  from session_gates_the_plane[OF sample_rings this(1) p0 this(2), of True 64] show ?thesis unfolding p0 option.sel by blast
qed

end
