(* ===== verification/Spec2Isabelle.thy ===== *)
theory Spec2Isabelle
  imports MainStack SdoTransfers EcatPd Samples WireProps BootProps DriverProps SessionProps
    "HOL-Library.Multiset"
begin

text \<open>
  \<^bold>\<open>A model of the RMCS board: its EtherCAT slave, its wire protocol and its bootloader.\<close>

  Three programs are modelled.  The wire protocol (\<open>core/src/protocol\<close>) is shared by all boards and
  the host: a serializer packs CAN, UART, GPIO, IMU and session fields into transfers, a resumable
  deserializer takes them apart again; on a board the fields wait in the ring of batches of
  \<open>app/src/link/interrupt_safe_buffer.hpp\<close>.  The bootloader (\<open>bootloader/src\<close>) installs a staged
  image or one downloaded over DFU, checks it by its SHA-256 and enters it.  Of the board application
  around them (\<open>app/src\<close>) the ring buffer of the drivers, both sides of the UARTs, the host session and the data
  plane of the two-core build are modelled.

  The largest is the firmware under \<open>src/firmware/rmcs_board/ecat\<close>: the slave stack in C
  (\<open>core0/SSC/Src\<close>, here \<open>SSC\<close>) and the board's application, which runs on the second core
  (\<open>core1_ecat/src\<close>) and uses \<open>common/foe_staging.hpp\<close> and \<open>foe_staging_writer.hpp\<close>.  The
  stack is driven by a main loop (\<open>ECAT_Main\<close>), a 1 ms timer (\<open>ECAT_CheckTimer\<close>,
  \<open>DC_CheckWatchdog\<close>) and interrupts (\<open>PDI_Isr\<close>, \<open>Sync0_Isr\<close>, \<open>Sync1_Isr\<close>); it talks to the EtherCAT
  controller chip through register reads and writes, and calls the application through the
  \<open>APPL_*\<close> functions and the \<open>pAPPL_*\<close> pointers.

  \<^bold>\<open>State.\<close>  The global variables of the stack are one record, extended module by module in the
  order of the theories: \<open>mach\<close> (chip memory, heap of mailbox buffers), \<open>mbx\<close> (\<open>mailbox.c\<close>),
  \<open>foe\<close> (\<open>ecatfoe.c\<close>), \<open>esm\<close> (\<open>ecatslv.c\<close>), \<open>coe\<close> (\<open>ecatcoe.c\<close>, \<open>sdoserv.c\<close>), \<open>ecatappl\<close>
  (\<open>ecatappl.c\<close>), \<open>rmcs\<close> (the board).  Every C function is a HOL function of the same name from
  states to states (\<open>_impl\<close> is appended where the name is also a field of a record of functions);
  integers are words of their width; a pointer to a mailbox buffer is the number of a heap block,
  and an access outside a live block sets \<open>mem_fault\<close>.  Registers are accessed through
  \<open>HW_EscRead\<close> and \<open>HW_EscWrite\<close>; what the chip does on an access is the parameter
  \<open>esc_react\<close> of the state.  Busy-wait loops on a register take their fuel from
  \<open>spin_fuel\<close>, and running out sets \<open>hung\<close>.

  \<^bold>\<open>Theories.\<close>
  \<^item> \<open>SlavePrelude\<close>: bytes, little-endian encoding, word lemmas.
  \<^item> \<open>EscMachine\<close>: registers of the chip and the heap of mailbox buffers.
  \<^item> \<open>BoundedFifo\<close>: the interface of a bounded queue (locale \<open>bounded_fifo\<close>) and the list it refines; \<open>MbxQueue\<close>: the
    rings of \<open>mailbox.c\<close>, which implement it.
  \<^item> \<open>SyncManager\<close>: SyncManager channels (\<open>ecatslv.c\<close>); the wait loops end when the chip answers.
  \<^item> \<open>Mailbox\<close>, \<open>MailboxMain\<close>: \<open>mailbox.c\<close>; \<open>MailboxOwn\<close>: the ownership of mailbox buffers.
  \<^item> \<open>Foe\<close>: the file access server \<open>ecatfoe.c\<close> and \<open>foeappl.c\<close>; \<open>FoeOwn\<close>: the contract of the
    application (locale \<open>foe_application\<close>) and what the server then keeps.
  \<^item> \<open>Esm\<close>, \<open>EsmHandlers\<close>, \<open>EsmControl\<close>: the state machine of \<open>ecatslv.c\<close>; \<open>EsmInv\<close>: its
    invariant, for every environment that leaves the control variables alone (locale
    \<open>al_environment\<close>).
  \<^item> \<open>Coe\<close>: \<open>ecatcoe.c\<close>, with the SDO server as an argument; \<open>EcatAppl\<close>: \<open>ecatappl.c\<close>.
  \<^item> \<open>ObjDic\<close>: the linked list of objects (\<open>coeappl.c\<close>); \<open>DicList\<close>: it implements a map from indices
    to objects (locale \<open>index_map\<close>); \<open>RmcsObjects\<close>: the object tables of this slave.
  \<^item> \<open>ObjAccess\<close>, \<open>ObjInfo\<close>: \<open>objdef.c\<close>; \<open>SdoServ\<close>, \<open>SdoInfo\<close>: \<open>sdoserv.c\<close> and the rest of
    \<open>coeappl.c\<close>; \<open>ObjIo\<close>: access rights and reading a value; \<open>ObjBounds\<close>: bounds and typing of
    the object tables; \<open>ObjFaults\<close>: which reads leave their variable; \<open>ObjWrites\<close>: the writable entries,
    and that a written value is read back; \<open>ObjLists\<close>: the fragments of an object list; \<open>SdoProps\<close>: the properties;
    \<open>SdoSegs\<close>, \<open>SdoTransfers\<close>: segmented transfers and refusals.
  \<^item> \<open>MainStack\<close>: \<open>MainInit\<close> and \<open>MainLoop\<close> of \<open>ecatappl.c\<close>, with the SDO server in place.
  \<^item> \<open>XcoreRing\<close>: the ring between the cores (\<open>common/xcore_ring.hpp\<close>), called sequentially and with
    the byte copies of both sides interleaved; \<open>PdStream\<close>: the sliding window endpoint
    (\<open>pd_stream.hpp\<close>); \<open>PdLink\<close>, \<open>PdLive\<close>: two endpoints over an unreliable exchange of images, for every
    ring that satisfies the contract (locales \<open>byte_ring\<close> and its extension), safety and recovery;
    \<open>EcatPd\<close>: \<open>ecat_pd.cpp\<close>, the endpoint as the process data of the board.
  \<^item> \<open>FoeStaging\<close>: the staging region of a firmware download and its writer, with the invariant of
    a session; \<open>RmcsAppl\<close>: the board's application; \<open>RmcsFoe\<close> and \<open>RmcsEsm\<close>: it satisfies the two
    contracts above; \<open>StackRun\<close>: the whole stack driven by arbitrary sequences of events.
  \<^item> \<open>Samples\<close>: a concrete slave on which the properties are instantiated.
  \<^item> \<open>Bitfield\<close>: \<open>utility/bitfield.hpp\<close>, reading and writing of bit members; \<open>Protocol\<close>: the layouts
    of \<open>protocol.hpp\<close>; \<open>Serializer\<close>, \<open>Deserializer\<close>: the two sides, the coroutine of the second as
    explicit resumptions; \<open>DeserSim\<close>: feeding a transfer in chunks simulates a parser of the whole
    transfer; \<open>WireTrip\<close>, \<open>WireFields\<close>: every field written is the field read; \<open>WireCalls\<close>: sequences of
    calls into any buffer that keeps its contract (locale \<open>transfer_buffer\<close> and its extension
    \<open>transfer_queue\<close>); \<open>Uplink\<close>: the ring of batches keeps it; \<open>WireProps\<close>: the properties C30 to C33.
  \<^item> \<open>Sha256\<close>: \<open>crypto/sha256.hpp\<close>, with the text of FIPS 180-4 as the reference and its test vector;
    \<open>BootMeta\<close>: \<open>XpiNor\<close> over the calls of the ROM, and the slots of \<open>metadata.hpp\<close>, with what a
    scan finds; \<open>BootWriter\<close>: the sector writer \<open>writer.hpp\<close> and its invariant;
    \<open>BootInstall\<close>: validation, installation and the decision of \<open>main\<close>; \<open>BootDfu\<close>: the DFU session;
    \<open>BootHistory\<close>: when the cached state is right, over requests and resets; \<open>BootProps\<close>: the properties C34 to C40.
  \<^item> \<open>RingBuffer\<close>: the template \<open>utility/ring_buffer.hpp\<close>, a \<open>bounded_fifo\<close> for every element and index
    type; \<open>UartTx\<close>: \<open>uart/tx_buffer.hpp\<close> with its idle checkpoints, run against a DMA channel and a line;
    \<open>UartRx\<close>: \<open>uart/rx_buffer.hpp\<close> behind a channel that writes without end; \<open>DriverProps\<close>: the
    properties C9 and C19.
  \<^item> \<open>HostSession\<close>: \<open>link/host_session.hpp\<close>, the session as the callback state of the deserializer, over the
    uplink buffer with a batch in flight (a second interpretation of \<open>transfer_buffer\<close>); \<open>DataPlane\<close>:
    \<open>xcore/pd_link.hpp\<close> and \<open>pd_link.cpp\<close>, one pass of the main loop between USB and EtherCAT, and everything
    that happens to it as events; \<open>SessionProps\<close>: the properties C12 and C16.

  \<^bold>\<open>Bounds.\<close>  \<open>MBX_Main\<close> needs as many rounds as datagrams wait (fuel: the length of the ring);
  the erase loop of \<open>rmcs_foe_write_data\<close> gets one round per sector up to the end of the block and
  three more, which is shown to be enough (\<open>block_write_ends\<close> below).

  A loop along the list of objects has no fuel: it is a partial function, and is shown to return on the
  lists the operations build.  The waits of the uplink buffer, the loop of the deserializer, the loops of
  the hash, of the writer and of the copy are functions with a termination proof.

  \<^bold>\<open>Not modelled here.\<close>  The chip itself, the NOR flash behind the cross-core RPC and the
  SDK's EEPROM emulation are parameters (\<open>esc_react\<close>, \<open>board\<close>); what is assumed of the flash is
  \<open>nor_ok\<close>, of the chip \<open>chip_marks_full\<close> and \<open>sm_answers\<close>.  Interrupts are taken between the
  functions of the main loop, never inside one; the critical sections of the code are therefore not
  visible.  The variables of the objects are byte lists of their own, so that an access that runs from
  one variable into the next is a fault.  In the uplink buffer every atomic exchange succeeds at once, so
  that interrupts nested between its steps are not visible; the allocator of coroutine frames
  (\<open>coroutine/lifo.hpp\<close>) is left out, the frames being values here.  The ROM of the bootloader is a
  parameter (\<open>rom_api\<close>, with \<open>rom_ok\<close> and \<open>nor_works\<close>), and so are TinyUSB, the boot mailbox and the
  identity word.  The DMA channel and the
  UART under the transmit buffer are the steps of \<open>tx_step\<close>: the idle flag is taken to be set only when nothing
  is left to shift.  In the session the time base and the pulse test are those of the default build,
  where they are compiled out, and the CAN driver is a parameter; a pass of the main loop, an interrupt
  and an action of the other core are one step each.  The firmware of the other boards, the USB
  and CAN drivers and the transports of the host library are outside.
\<close>

unbundle bit_operations_syntax

section \<open>The state machine\<close>

text \<open>C1.  In every state the stack reaches from \<open>ECAT_Init\<close>, whatever the order of master
  requests, application requests, cyclic calls, timer ticks, interrupts and chip changes, the
  control variables are consistent: the AL state is one of INIT, PREOP, BOOT, SAFEOP and OP, the
  mailbox handler runs exactly outside INIT, the boot flag is set exactly in BOOT, the input
  handler runs exactly in SAFEOP and OP, the output handler only in OP, and a transition is only
  pending in PREOP or SAFEOP and without an error indication.\<close>

theorem stack_invariant: "esm_inv (stack_run B sdo evs s)"
  by (rule stack_run_inv)

text \<open>C2.  Each event takes the AL state along one edge of the EtherCAT state machine, or
  leaves it.\<close>

theorem stack_edges:
  "esm_edge (nAlStatus (stack_run B sdo evs s) AND STATE_MASK) (nAlStatus (stack_run B sdo (evs @ [e]) s) AND STATE_MASK)"
  using stack_step_inv[OF stack_run_inv[of B sdo evs s], of B sdo e]
  by (simp add: stack_run_def) (simp add: ctl_def)

text \<open>C3.  A request to change the state is always answered: afterwards the slave is in the
  requested state, shows the error indication, or has the transition pending.\<close>

theorem request_answered:
  "let t = AL_ControlInd (coe_of sdo) (rmcs_appl B) alControl code s in
     nAlStatus t AND STATE_MASK = alControl AND STATE_MASK \<or> c_err (ctl t) \<or> bEcatWaitForAlControlRes t"
  using rmcs_al.AL_ControlInd_answered[of sdo B alControl code s] by (simp add: Let_def) (simp add: ctl_def)

section \<open>Firmware download\<close>

text \<open>C4.  Fail-closed: from the accepted write request on, and however many data blocks have been
  taken, with whatever result, the staging record is not ready to be installed.\<close>

theorem not_ready_before_commit:
  assumes "nor_ok (b_flash B)" and "rmcs_foe_write B name n pw s = (0, t)"
    and "\<And>b. b \<in> set bs \<Longrightarrow> block_live t b" and "foe_blocks B bs t = (r, u)"
  shows "\<not> staging_record_is_ready (b_flash B) m (nor u)"
proof -
  note w = write_request_inv[OF assms(1,2)]
  then have "dl_inv B [] t" by simp
  from foe_blocks_inv[OF assms(1) this assms(3,4)] show ?thesis
    by (auto simp: dl_not_ready meta_open_not_ready split: if_splits)
qed

text \<open>C5.  After the deferred commit the staging region holds exactly the bytes of the data blocks,
  in order; when the record is ready its size is their number; and completion is only reported
  with a ready record.\<close>

theorem commit_installs_the_download:
  assumes "nor_ok (b_flash B)" and "rmcs_foe_write B name n pw s = (0, t)"
    and "\<And>b. b \<in> set bs \<Longrightarrow> block_live t b" and "foe_blocks B bs t = (0, u)" and "bs \<noteq> []"
    and "ecat_foe_poll_reset B u = (x, v)"
  shows "staged (b_flash B) (concat (map (block_data t) bs)) (nor v)
    \<and> (staging_record_is_ready (b_flash B) kStagingMaxImageSize (nor v) \<longrightarrow>
         image_ready (b_flash B) (concat (map (block_data t) bs)) (nor v))
    \<and> (g_download_complete v \<and> \<not> g_download_complete u \<longrightarrow>
         image_ready (b_flash B) (concat (map (block_data t) bs)) (nor v))"
proof -
  have "dl_inv B [] t" using write_request_inv[OF assms(1,2)] by simp
  from foe_blocks_inv[OF assms(1) this assms(3,4)] assms(5)
  have i: "dl_inv B (concat (map (block_data t) bs)) u" and c: "g_commit_pending u" by simp_all
  show ?thesis
    using poll_commit[OF assms(1) i c assms(6)] by (auto simp: image_ready_def)
qed

text \<open>C6.  Upload after download: reading a ready image hands out its first bytes, and reading on at
  any offset the bytes from there, as many as fit, and nothing past the end.\<close>

theorem upload_returns_the_image:
  assumes "image_ready (b_flash B) img (nor s)" and "name_matches name n s" and "password_ok pw"
    and "length img \<le> 0x1E0000"
    and "t = snd (rmcs_foe_read B name n pw m a s)"
  shows "handed a (take (unat m) img) s (rmcs_foe_read B name n pw m a s)
    \<and> (if unat off < length img
        then handed a (get_bytes img (unat off) (min (unat m) (length img - unat off))) t (rmcs_foe_read_data B off m a t)
        else rmcs_foe_read_data B off m a t = (0, t))"
proof -
  note f = foe_read_first[OF assms(1-3), of a m]
  have n: "nor t = nor s" using f assms(5) by (simp add: handed_def)
  have "staged (b_flash B) img (nor t)" using assms(1) n by (simp add: image_ready_def)
  from foe_read_next[OF this _ assms(4), of off a m] show ?thesis using f assms(5) by simp
qed

text \<open>C7.  Taking a data block always comes to an end: the erase loop of \<open>rmcs_foe_write_data\<close> has
  reached the end of the block, or failed, within the fuel.\<close>

theorem block_write_ends:
  assumes "nor_ok fl" and "staging_inv fl w f img" and "bs \<noteq> []" and "length bs < 65536"
  shows "\<exists>r w' g. write_block fl bs w f = Some (r, w', g)"
  using write_block_inv[OF assms] by blast



lemma not_ready_before_commit_witness:
  "\<not> staging_record_is_ready sample_flash 0x1E0000 (nor sample_taken)"
  using not_ready_before_commit[OF _ sample_write sample_live sample_blocks] sample_flash_ok by simp

lemma commit_installs_the_download_witness:
  "staged sample_flash [0xDE, 0xAD, 0xBE, 0xEF] (nor (snd (ecat_foe_poll_reset sample_board sample_taken)))"
  using commit_installs_the_download[OF _ sample_write sample_live sample_blocks] sample_flash_ok
  by (simp add: sample_block_data prod_eq_iff)

definition sample_uploading :: "(nat \<Rightarrow> 8 word, unit, unit) rmcs" where
  "sample_uploading = snd (rmcs_foe_read sample_board (1, 12) 3 0 2 (2, 12) (sample\<lparr>nor := sample_nor\<rparr>))"

lemma upload_returns_the_image_witness:
  "handed (2, 12) [0xBE, 0xEF] sample_uploading (rmcs_foe_read_data sample_board 2 2 (2, 12) sample_uploading)"
proof -
  let ?s = "sample\<lparr>nor := sample_nor\<rparr>"
  have "image_ready (b_flash sample_board) sample_bytes (nor ?s)" by (simp add: sample_image_ready)
  moreover have "name_matches (1, 12) 3 ?s"
    by (simp add: name_matches_def sample_def sample_memory_def sample_wrq_def m_block_def get_bytes_def)
  moreover have "password_ok 0" by (simp add: password_ok_def)
  moreover have t: "sample_uploading = snd (rmcs_foe_read sample_board (1, 12) 3 0 2 (2, 12) ?s)"
    by (simp add: sample_uploading_def)
  ultimately show ?thesis
    using upload_returns_the_image[OF _ _ _ _ t, of sample_bytes 2]
    by (simp add: sample_bytes_def get_bytes_def)
qed

lemma block_write_ends_witness:
  "\<exists>r w' g. write_block sample_flash sample_bytes (g_writer sample_open) (nor sample_open) = Some (r, w', g)"
  using block_write_ends[OF sample_flash_ok, of "g_writer sample_open" "nor sample_open" "[]" sample_bytes]
    write_request_inv[OF _ sample_write] sample_flash_ok
  by (simp add: dl_inv_def sample_bytes_def)

section \<open>Mailbox buffers\<close>



text \<open>C10.  A repeat request of the master loses and doubles no buffer.  Without a buffer to repeat only the
  toggle bit changes.  Otherwise the buffer kept for a repeat is in the send mailbox afterwards, the one it
  displaced there, if any, is put aside to be sent next, and the queues are as before: the module holds exactly
  the buffers it held, with their contents, each of them once, and apart from those of the callers (\<open>P\<close>).\<close>

theorem repeat_request_keeps_buffers:
  assumes "mbx_own s P" and "mbx_open s" and "mbx_chip_ok s" and "t = MBX_MailboxRepeatReq s"
  shows "mbx_own t P \<and> mset (mbx_held t) = mset (mbx_held s) \<and> mem t = mem s
    \<and> (if psRepeatMbx s = NULL then t = s\<lparr>bMbxRepeatToggle := \<not> bMbxRepeatToggle s\<rparr>
       else bMbxRepeatToggle t = (\<not> bMbxRepeatToggle s) \<and> bSendMbxIsFull t \<and> psReadMbx t = psRepeatMbx s \<and> psRepeatMbx t = NULL
         \<and> psStoreMbx t = (if bSendMbxIsFull s then psReadMbx s else NULL)
         \<and> sMbxSendQueue t = sMbxSendQueue s \<and> sMbxReceiveQueue t = sMbxReceiveQueue s)"
proof -
  have own: "mbx_own t P" unfolding assms(4) by (rule RepeatReq_own[OF assms(1-3)])
  have o: "if bSendMbxIsFull s then psReadMbx s \<noteq> NULL \<and> (psStoreMbx s \<noteq> NULL \<longrightarrow> psRepeatMbx s = NULL)
        else psReadMbx s = psRepeatMbx s \<and> psStoreMbx s = NULL"
    using assms(1) by (simp add: mbx_own_def)
  show ?thesis
    using RepeatReq_form[OF assms(1-3), folded assms(4)]
  proof (elim disjE exE conjE)
    assume t: "t = s\<lparr>bMbxRepeatToggle := \<not> bMbxRepeatToggle s\<rparr>" "psRepeatMbx s = NULL"
    then have "mbx_held t = mbx_held s" by (simp add: mbx_held_def mbx_sent_def)
    then show ?thesis using own t by simp
  next
    fix e h w
    assume ne: "psRepeatMbx s \<noteq> NULL" and t: "t = s\<lparr>esc := e, hung := h, psWriteMbx := w, psReadMbx := psRepeatMbx s,
      bSendMbxIsFull := True, psRepeatMbx := NULL, psStoreMbx := if bSendMbxIsFull s then psReadMbx s else NULL,
      bMbxRepeatToggle := \<not> bMbxRepeatToggle s\<rparr>"
    have "mset (mbx_held t) = mset (mbx_held s)" using ne o by (auto simp: t mbx_held_def mbx_sent_def)
    then show ?thesis using own ne by (simp add: t)
  qed
qed

definition sample_repeat :: "(nat \<Rightarrow> 8 word, unit, unit) rmcs" where
  "sample_repeat = sample\<lparr>bSendMbxIsFull := True, psReadMbx := 1, psRepeatMbx := 2\<rparr>"

lemma repeat_request_keeps_buffers_witness:
  "let t = MBX_MailboxRepeatReq sample_repeat in
   mbx_own t [] \<and> mset (mbx_held t) = {#1, 2#} \<and> psReadMbx t = 2 \<and> psStoreMbx t = 1 \<and> psRepeatMbx t = NULL"
proof -
  have F: "bSendMbxIsFull sample_repeat" "psReadMbx sample_repeat = 1" "psRepeatMbx sample_repeat = 2" "psStoreMbx sample_repeat = NULL"
    "sMbxSendQueue sample_repeat = sample_queue" "sMbxReceiveQueue sample_repeat = sample_queue" "mem sample_repeat = sample_memory"
    "u16SendMbxSize sample_repeat = 0x80" "u16ReceiveMbxSize sample_repeat = 0x80"
    by (simp_all add: sample_repeat_def) (simp_all add: sample_def)
  have sent: "mbx_sent sample_repeat = [1, 2]" by (simp add: mbx_sent_def F del: One_nat_def)
  have q: "mq_list sample_queue = []" by (simp add: sample_queue_def mq_list_def ring_slots_def)
  have "mbx_sendable sample_repeat 1" "mbx_sendable sample_repeat 2"
    by (simp_all add: mbx_sendable_def mbx_Length_def mem_rd16_def F m_block_def sample_memory_def sample_wrq_def sample_data_def
        get16_def byte_at_def le16_def live_def)
  moreover have "heap_ok sample_memory" "\<not> mem_fault sample_memory" by (auto simp: heap_ok_def sample_memory_def)
  ultimately have "mbx_own sample_repeat []"
    using sample_queue_inv F(1) unfolding mbx_own_def sent F q by simp
  moreover have "mbx_open sample_repeat" "mbx_chip_ok sample_repeat"
    using sample_mbx_open sample_chip_ok by (simp_all add: sample_repeat_def mbx_open_def mbx_chip_ok_def chip_marks_full_def)
  ultimately show ?thesis
    using repeat_request_keeps_buffers[OF _ _ _ refl, of sample_repeat "[]"] by (simp add: Let_def F mbx_held_def[of sample_repeat] sent q)
qed

text \<open>C11.  The mailbox queues are bounded FIFOs.  A queue answers every sequence of calls as a list of at most
  nine datagrams does, that takes new ones at its end and hands them out at its front: the same ones are
  accepted and refused, the same ones come out, and what is left stands for the list that is left.  So what has
  come out followed by what is still inside is what was inside followed by what was accepted.  In the state
  reached \<open>PutInMbxQueue\<close> refuses a datagram only when nine are waiting, without a change, and takes it
  otherwise; \<open>GetOutOfMbxQueue\<close> returns no datagram only when none is waiting, and the oldest one otherwise.\<close>

theorem mailbox_queue_is_fifo:
  assumes "mq_inv q" and "\<forall>op \<in> set ops. \<forall>x. op = Put x \<longrightarrow> x \<noteq> NULL"
    and "fifo_run mq_put mq_get ops q = (ins, outs, r)" and "p \<noteq> NULL"
  shows "fifo_run (list_put 9) list_get ops (mq_list q) = (ins, outs, mq_list r)
    \<and> mq_list q @ ins = outs @ mq_list r \<and> length (mq_list r) \<le> 9
    \<and> (if length (mq_list r) = 9 then PutInMbxQueue p r = (MBXERR_NOMOREMEMORY, r)
       else \<exists>r'. PutInMbxQueue p r = (0, r') \<and> mq_list r' = mq_list r @ [p])
    \<and> (if mq_list r = [] then GetOutOfMbxQueue r = (NULL, r)
       else \<exists>r'. GetOutOfMbxQueue r = (hd (mq_list r), r') \<and> mq_list r' = tl (mq_list r))"
proof -
  have r: "mq_inv r \<and> mq_list q @ ins = outs @ mq_list r" by (rule mq.run_fifo[OF assms(1-3)])
  have "fifo_run (list_put 9) list_get ops (mq_list q) = (ins, outs, mq_list r)"
    using mq.run_refines[OF assms(1-3)] by (simp add: MAX_MBX_QUEUE_SIZE_def)
  moreover have "length (mq_list r) \<le> 9" using mq_bounded[of r] r by (simp add: MAX_MBX_QUEUE_SIZE_def)
  ultimately show ?thesis using r queue_results[OF conjunct1[OF r] assms(4)] by (auto split: if_splits)
qed

lemma mailbox_queue_is_fifo_witness:
  "fst (fifo_run mq_put mq_get (Get # map Put [1, 2, 3, 4, 5, 6, 7, 8, 9, 10] @ [Get, Get]) sample_queue) = [1, 2, 3, 4, 5, 6, 7, 8, 9]
   \<and> fst (snd (fifo_run mq_put mq_get (Get # map Put [1, 2, 3, 4, 5, 6, 7, 8, 9, 10] @ [Get, Get]) sample_queue)) = [1, 2]"
proof -
  let ?ops = "Get # map Put [1, 2, 3, 4, 5, 6, 7, 8, 9, 10] @ [Get, Get] :: ptr fifo_op list"
  obtain ins outs r where R: "fifo_run mq_put mq_get ?ops sample_queue = (ins, outs, r)" by (metis prod_cases3)
  have "\<forall>op \<in> set ?ops. \<forall>x. op = Put x \<longrightarrow> x \<noteq> NULL" by auto
  from mailbox_queue_is_fifo[OF sample_queue_inv this R, of 1]
  have "fifo_run (list_put 9) list_get ?ops (mq_list sample_queue) = (ins, outs, mq_list r)" by simp
  moreover have "mq_list sample_queue = []" by (simp add: sample_queue_def mq_list_def ring_slots_def)
  ultimately show ?thesis unfolding R by (auto simp: list_put_def)
qed

section \<open>The process data stream\<close>

text \<open>C13.  Exactly once, in order: after any sequence of builds, deliveries, repeated and lost
  images on a freshly reset link, what the user of one side has fed is what the other side's user has
  drained, then what waits in its sink ring, then at most two chunks in the window of the sender,
  then what waits in the sender's source ring.  The sizes of the four rings are powers of two.\<close>

theorem stream_exactly_once:
  assumes "\<forall>k \<in> {i, j, i', j'}. 0 < k \<and> k < 32"
    and "link_run 44 try_push ring_pop evs (stream_side 44 i j, stream_side 44 i' j') = (x, y)"
  shows "\<exists>cs. fed x = drained y @ ring_contents (sink y) @ concat cs @ ring_contents (src x)
    \<and> length cs \<le> kPdWindow \<and> (\<forall>c \<in> set cs. length c \<le> 44)"
proof -
  have "xr.link_ok 44 (link_run 44 try_push ring_pop evs (stream_side 44 i j, stream_side 44 i' j'))"
    using xr.link_run_ok[OF xr.fresh_ok[OF stream_side_fresh(1) stream_side_fresh(1)]] assms(1) by simp
  then have "xr.dir_ok 44 x y" by (simp add: assms(2) xr.link_ok_def)
  then show ?thesis by (rule xr.dir_exactly_once)
qed

abbreviation sample_link :: "xring pd_side \<times> xring pd_side" where
  "sample_link \<equiv> link_run 44 try_push ring_pop
     [(True, Feed [1, 2, 3]), (False, Feed [4]), (True, Build), (True, Build), (True, Skip), (False, Deliver), (False, Drain 2)]
     (stream_side 44 10 10, stream_side 44 13 13)"

lemma stream_exactly_once_witness:
  "\<exists>cs. fed (fst sample_link) = drained (snd sample_link) @ ring_contents (sink (snd sample_link))
     @ concat cs @ ring_contents (src (fst sample_link)) \<and> length cs \<le> 2 \<and> (\<forall>c \<in> set cs. length c \<le> 44)"
  by (rule stream_exactly_once[OF _ surjective_pairing]) simp

text \<open>C14.  Recovery: whatever has been lost before, after at most eight frames per outstanding byte in
  which nothing is lost and the receiving user empties its ring, everything fed has been delivered.\<close>

theorem stream_recovers:
  assumes "\<forall>k \<in> {i, j, i', j'}. 6 \<le> k \<and> k < 32"
    and "link_run 44 try_push ring_pop evs (stream_side 44 i j, stream_side 44 i' j') = (x, y)"
  shows "\<exists>m \<le> 8 * length (fed x). \<exists>x' y'. lossless_frames 44 m (x, y) = (x', y')
    \<and> drained y' @ ring_contents (sink y') = fed x"
proof -
  have big: "44 \<le> (2::nat) ^ k" if "6 \<le> k" for k
    using power_increasing[OF that, of "2::nat"] by simp
  have "xk.link_ok 44 44 (link_run 44 try_push ring_pop evs (stream_side 44 i j, stream_side 44 i' j'))"
    using xk.link_run_ok[OF xk.fresh_ok[OF stream_side_fresh(2) stream_side_fresh(2)]] big assms(1) by simp
  then have ok: "xk.link_ok 44 44 (x, y)" by (simp add: assms(2))
  obtain m where m: "m \<le> 8 * length (fed x)"
    "xk.delivered (snd (xk.frames 44 (2 ^ 32) m (x, y))) = fed x"
    using xk.all_delivered[OF _ _ ring_drains ok diff_le_self] by (auto simp del: power_numeral)
  obtain x' y' where xy: "lossless_frames 44 m (x, y) = (x', y')" by (rule prod.exhaust)
  have "xk.frames 44 (2 ^ 32) m (x, y) = lossless_frames 44 m (x, y)"
    unfolding xk.frames_def lossless_frames_def ..
  then have "drained y' @ ring_contents (sink y') = fed x"
    using m(2) unfolding xy xk.delivered_def by (simp only: snd_conv)
  then show ?thesis using m(1) xy by blast
qed

lemma stream_recovers_witness:
  "\<exists>m \<le> 8 * length (fed (fst sample_link)). \<exists>x' y'. lossless_frames 44 m (fst sample_link, snd sample_link) = (x', y')
    \<and> drained y' @ ring_contents (sink y') = fed (fst sample_link)"
  by (rule stream_recovers[OF _ surjective_pairing]) simp

text \<open>C15.  A ring shared by a producer and a consumer on two cores, whose copies proceed byte by byte
  and in any order in between each other's: the consumer takes out the bytes put in, in order, none
  twice and none invented.\<close>

theorem ring_concurrent_fifo:
  assumes "ring_size_ok (length (rbuf r))"
  shows "\<exists>rest. pushed (ring_run evs r) = popped (ring_run evs r) @ rest \<and> length rest \<le> length (rbuf r)"
proof -
  note R = ring_conc_run[OF assms, of evs]
  let ?s = "ring_run evs r"
  have "popped ?s = take (length (popped ?s)) (pushed ?s)" using R by (simp add: ring_conc_def)
  then have "pushed ?s = popped ?s @ drop (length (popped ?s)) (pushed ?s)" by (metis append_take_drop_id)
  moreover have "length (drop (length (popped ?s)) (pushed ?s)) \<le> length (rbuf r)"
    using R ring_run_length[of evs r] by (simp add: ring_conc_def ring_rep_def)
  ultimately show ?thesis by blast
qed

lemma ring_concurrent_fifo_witness:
  "\<exists>rest. pushed (ring_run [PCheck [7, 8], PByte 1, CCheck 1, PByte 0, PStore, CCheck 1, CByte 0, CStore] (ring_new 4))
     = popped (ring_run [PCheck [7, 8], PByte 1, CCheck 1, PByte 0, PStore, CCheck 1, CByte 0, CStore] (ring_new 4)) @ rest
     \<and> length rest \<le> 4"
proof -
  have "ring_size_ok (length (rbuf (ring_new 4)))"
    unfolding ring_size_ok_def ring_new_def by (intro exI[of _ 2]) simp
  from ring_concurrent_fifo[OF this] show ?thesis by (simp add: ring_new_def del: ring_step.simps)
qed

end
